(* ===== verification/TE_Prelude.thy ===== *)
theory TE_Prelude
  imports Complex_Main "HOL-Library.Code_Target_Numeral"
begin

section \<open>Shared vocabulary of the development\<close>

text \<open>
  The Rust vocabulary that every component uses: \<open>Result\<close> and its combinators (the \<open>?\<close>
  operator is \<open>and_then\<close>), strings, the decimal printing of an integer, and the checked
  \<open>u128\<close> and \<open>i128\<close> arithmetic of the standard library. The collections of lemmas that
  carry the component proofs are declared here as well.

  Integers of a fixed width are natural numbers or integers with their bound written out:
  a checked operation compares with the bound and answers \<open>None\<close>, as the code does.
\<close>

named_theorems result_simps "equations of the result combinators"
named_theorems money_exact "operations on amounts that are exact on representable values"
named_theorems omap_simps "lookups after updates of an insertion-ordered map"

subsection \<open>Results\<close>

datatype ('a, 'e) result = Ok 'a | Err 'e

fun and_then :: "('a, 'e) result \<Rightarrow> ('a \<Rightarrow> ('b, 'e) result) \<Rightarrow> ('b, 'e) result" where
  "and_then (Ok x) f = f x"
| "and_then (Err e) f = Err e"

fun map_err :: "('e \<Rightarrow> 'd) \<Rightarrow> ('a, 'e) result \<Rightarrow> ('a, 'd) result" where
  "map_err h (Ok x) = Ok x"
| "map_err h (Err e) = Err (h e)"

fun ok_or :: "'e \<Rightarrow> 'a option \<Rightarrow> ('a, 'e) result" where
  "ok_or e None = Err e"
| "ok_or e (Some x) = Ok x"

fun is_ok :: "('a, 'e) result \<Rightarrow> bool" where
  "is_ok (Ok x) = True"
| "is_ok (Err e) = False"

text \<open>A loop whose body may refuse: the first refusal ends it.\<close>

fun fold_r :: "('b \<Rightarrow> 'a \<Rightarrow> ('b, 'e) result) \<Rightarrow> 'b \<Rightarrow> 'a list \<Rightarrow> ('b, 'e) result" where
  "fold_r f acc [] = Ok acc"
| "fold_r f acc (x # xs) = and_then (f acc x) (\<lambda>acc'. fold_r f acc' xs)"

fun map_r :: "('a \<Rightarrow> ('b, 'e) result) \<Rightarrow> 'a list \<Rightarrow> ('b list, 'e) result" where
  "map_r f [] = Ok []"
| "map_r f (x # xs) = and_then (f x) (\<lambda>y. and_then (map_r f xs) (\<lambda>ys. Ok (y # ys)))"

lemma and_then_Ok_iff [simp, result_simps]:
  "and_then r f = Ok y \<longleftrightarrow> (\<exists>x. r = Ok x \<and> f x = Ok y)"
  by (cases r) auto

lemma and_then_Err_iff [result_simps]:
  "and_then r f = Err e \<longleftrightarrow> r = Err e \<or> (\<exists>x. r = Ok x \<and> f x = Err e)"
  by (cases r) auto

lemma map_err_Ok_iff [simp, result_simps]: "map_err h r = Ok y \<longleftrightarrow> r = Ok y"
  by (cases r) auto

lemma ok_or_Ok_iff [simp, result_simps]: "ok_or e x = Ok y \<longleftrightarrow> x = Some y"
  by (cases x) auto

lemma is_ok_iff: "is_ok r \<longleftrightarrow> (\<exists>x. r = Ok x)"
  by (cases r) auto

lemma map_r_Ok_iff: "map_r f xs = Ok ys \<longleftrightarrow> list_all2 (\<lambda>x y. f x = Ok y) xs ys"
  by (induction xs arbitrary: ys) (auto simp: list_all2_Cons1)

lemma map_r_OkI: "list_all2 (\<lambda>x y. f x = Ok y) xs ys \<Longrightarrow> map_r f xs = Ok ys"
  by (simp add: map_r_Ok_iff)

text \<open>An invariant of the accumulator is an invariant of the loop.\<close>

lemma fold_r_invariant:
  assumes "fold_r f acc xs = Ok acc'" and "P acc"
    and "\<And>a x b. x \<in> set xs \<Longrightarrow> P a \<Longrightarrow> f a x = Ok b \<Longrightarrow> P b"
  shows "P acc'"
  using assms
proof (induction xs arbitrary: acc)
  case (Cons x xs)
  from Cons.prems(1) obtain b where b: "f acc x = Ok b" and rest: "fold_r f b xs = Ok acc'"
    by auto
  from b Cons.prems(2,3) have "P b" by (meson list.set_intros(1))
  with rest show ?case by (rule Cons.IH) (meson Cons.prems(3) list.set_intros(2))
qed simp

lemma fold_r_append:
  "fold_r f acc (xs @ ys) = and_then (fold_r f acc xs) (\<lambda>a. fold_r f a ys)"
proof (induction xs arbitrary: acc)
  case (Cons x xs)
  then show ?case by (cases "f acc x") auto
qed simp

subsection \<open>Fixed-width integers\<close>

definition u128_limit :: nat where
  "u128_limit = 2 ^ 128"

definition checked_mul :: "nat \<Rightarrow> nat \<Rightarrow> nat option" where
  "checked_mul a b = (if a * b < u128_limit then Some (a * b) else None)"

definition checked_add :: "nat \<Rightarrow> nat \<Rightarrow> nat option" where
  "checked_add a b = (if a + b < u128_limit then Some (a + b) else None)"

definition to_u128 :: "nat \<Rightarrow> nat option" where
  "to_u128 n = (if n < u128_limit then Some n else None)"

definition i128_max :: int where
  "i128_max = 2 ^ 127 - 1"

lemma checked_mul_Some [simp]: "checked_mul a b = Some c \<longleftrightarrow> a * b < u128_limit \<and> c = a * b"
  by (auto simp: checked_mul_def)

lemma checked_add_Some [simp]: "checked_add a b = Some c \<longleftrightarrow> a + b < u128_limit \<and> c = a + b"
  by (auto simp: checked_add_def)

lemma to_u128_Some [simp]: "to_u128 a = Some c \<longleftrightarrow> a < u128_limit \<and> c = a"
  by (auto simp: to_u128_def)

subsection \<open>Decimal digits of a natural number\<close>

text \<open>The digits of \<open>n\<close>, most significant first, as \<open>to_string\<close> prints them.\<close>

fun dec_digits :: "nat \<Rightarrow> nat list" where
  "dec_digits n = (if n < 10 then [n] else dec_digits (n div 10) @ [n mod 10])"

declare dec_digits.simps [simp del]

definition digits_value :: "nat list \<Rightarrow> nat" where
  "digits_value ds = foldl (\<lambda>a d. 10 * a + d) 0 ds"

definition digit_char :: "nat \<Rightarrow> char" where
  "digit_char d = char_of (48 + d)"

definition nat_to_string :: "nat \<Rightarrow> string" where
  "nat_to_string n = map digit_char (dec_digits n)"

definition int_to_string :: "int \<Rightarrow> string" where
  "int_to_string n = (if n < 0 then ''-'' else []) @ nat_to_string (nat \<bar>n\<bar>)"

lemma foldl_digits: "foldl (\<lambda>a d. 10 * a + d) acc ds = acc * 10 ^ length ds + digits_value ds"
proof (induction ds arbitrary: acc)
  case Nil
  then show ?case by (simp add: digits_value_def)
next
  case (Cons d ds)
  show ?case
    using Cons [of "10 * acc + d"] Cons [of d] by (simp add: digits_value_def algebra_simps)
qed

lemma digits_value_Nil [simp]: "digits_value [] = 0"
  by (simp add: digits_value_def)

lemma digits_value_Cons [simp]:
  "digits_value (d # ds) = d * 10 ^ length ds + digits_value ds"
  using foldl_digits [of d ds] by (simp add: digits_value_def)

lemma digits_value_append [simp]:
  "digits_value (xs @ ys) = digits_value xs * 10 ^ length ys + digits_value ys"
  by (induction xs) (simp_all add: algebra_simps power_add)

lemma digits_value_replicate_0 [simp]: "digits_value (replicate n 0) = 0"
  by (induction n) auto

lemma dec_digits_nonempty [simp]: "dec_digits n \<noteq> []"
  by (subst dec_digits.simps) simp

lemma dec_digits_bound: "d \<in> set (dec_digits n) \<Longrightarrow> d < 10"
proof (induction n rule: dec_digits.induct)
  case (1 n)
  then show ?case by (subst (asm) (2) dec_digits.simps) (auto split: if_splits)
qed

lemma digits_value_dec_digits [simp]: "digits_value (dec_digits n) = n"
proof (induction n rule: dec_digits.induct)
  case (1 n)
  then show ?case by (subst dec_digits.simps) simp
qed

lemma digits_value_bound:
  "(\<And>d. d \<in> set ds \<Longrightarrow> d < 10) \<Longrightarrow> digits_value ds < 10 ^ length ds"
proof (induction ds)
  case (Cons d ds)
  then have "d \<le> 9" and "digits_value ds < 10 ^ length ds" by fastforce+
  moreover from \<open>d \<le> 9\<close> have "d * 10 ^ length ds \<le> 9 * 10 ^ length ds" by (rule mult_le_mono1)
  ultimately show ?case unfolding digits_value_Cons length_Cons power_Suc by linarith
qed simp

lemma dec_digits_upper: "n < 10 ^ length (dec_digits n)"
  using digits_value_bound [of "dec_digits n"] dec_digits_bound by simp

lemma dec_digits_hd: "n \<noteq> 0 \<Longrightarrow> hd (dec_digits n) \<noteq> 0"
proof (induction n rule: dec_digits.induct)
  case (1 n)
  show ?case
  proof (cases "n < 10")
    case True
    with "1.prems" show ?thesis by (subst dec_digits.simps) simp
  next
    case False
    then have "n div 10 \<noteq> 0" by simp
    with False "1.IH" show ?thesis by (subst dec_digits.simps) simp
  qed
qed

lemma dec_digits_last: "last (dec_digits n) = n mod 10"
  by (subst dec_digits.simps) simp

lemma dec_digits_lower:
  assumes "n \<noteq> 0"
  shows "10 ^ (length (dec_digits n) - 1) \<le> n"
proof (cases "dec_digits n")
  case (Cons d ds)
  with dec_digits_hd [OF assms] have "1 \<le> d" by simp
  then have "10 ^ length ds \<le> d * 10 ^ length ds" by simp
  also have "\<dots> \<le> digits_value (d # ds)" by simp
  also have "\<dots> = n" using Cons digits_value_dec_digits [of n] by simp
  finally show ?thesis using Cons by simp
qed simp

text \<open>The number of digits is determined by the powers of ten around the number.\<close>

lemma pow10_window_unique:
  fixes n :: nat
  assumes "10 ^ a \<le> n" "n < 10 ^ Suc a" "10 ^ b \<le> n" "n < 10 ^ Suc b"
  shows "a = b"
proof (rule antisym)
  have "(10::nat) ^ a < 10 ^ Suc b" using assms by linarith
  then have "a < Suc b" by (rule power_less_imp_less_exp [rotated]) simp
  then show "a \<le> b" by simp
  have "(10::nat) ^ b < 10 ^ Suc a" using assms by linarith
  then have "b < Suc a" by (rule power_less_imp_less_exp [rotated]) simp
  then show "b \<le> a" by simp
qed

end
