(* ===== verification/PyRules.thy ===== *)
theory PyRules
  imports TE_Prelude
begin

section \<open>Text rules: \<open>options/pyrules.rs\<close>\<close>

text \<open>
  The two pieces of text behaviour the parsers lean on: the whitespace set of
  \<open>str.strip\<close> and the decimal digits of every script. A Rust \<open>char\<close> is a Unicode code point,
  so text that is parsed character by character is a list of code points (\<open>utext\<close>); text
  that is only compared and joined stays a \<open>string\<close> of bytes.
\<close>

type_synonym utext = "nat list"

definition utext :: "string \<Rightarrow> utext" where
  "utext s = map of_char s"

definition is_space :: "nat \<Rightarrow> bool" where
  "is_space c \<longleftrightarrow>
     9 \<le> c \<and> c \<le> 13 \<or> 28 \<le> c \<and> c \<le> 31 \<or> c = 32 \<or> c = 0x85 \<or> c = 0xa0 \<or> c = 0x1680
     \<or> 0x2000 \<le> c \<and> c \<le> 0x200a \<or> c = 0x2028 \<or> c = 0x2029 \<or> c = 0x202f \<or> c = 0x205f
     \<or> c = 0x3000"

definition strip :: "utext \<Rightarrow> utext" where
  "strip s = rev (dropWhile is_space (rev (dropWhile is_space s)))"

definition ND_STARTS :: "nat list" where
  "ND_STARTS = [
    0x30, 0x660, 0x6F0, 0x7C0, 0x966, 0x9E6, 0xA66, 0xAE6, 0xB66, 0xBE6, 0xC66, 0xCE6, 0xD66, 0xDE6, 0xE50,
    0xED0, 0xF20, 0x1040, 0x1090, 0x17E0, 0x1810, 0x1946, 0x19D0, 0x1A80, 0x1A90, 0x1B50, 0x1BB0, 0x1C40,
    0x1C50, 0xA620, 0xA8D0, 0xA900, 0xA9D0, 0xA9F0, 0xAA50, 0xABF0, 0xFF10, 0x104A0, 0x10D30, 0x11066,
    0x110F0, 0x11136, 0x111D0, 0x112F0, 0x11450, 0x114D0, 0x11650, 0x116C0, 0x11730, 0x118E0, 0x11950,
    0x11C50, 0x11D50, 0x11DA0, 0x11F50, 0x16A60, 0x16AC0, 0x16B50, 0x1D7CE, 0x1D7D8, 0x1D7E2, 0x1D7EC,
    0x1D7F6, 0x1E140, 0x1E2F0, 0x1E4F0, 0x1E950, 0x1FBF0]"

text \<open>\<open>partition_point\<close> of the ascending table: how many starts are at or below the character.\<close>

definition digit :: "nat \<Rightarrow> nat option" where
  "digit cp =
     (let i = length (takeWhile (\<lambda>s. s \<le> cp) ND_STARTS) in
      if i = 0 then None
      else let off = cp - ND_STARTS ! (i - 1) in if off < 10 then Some off else None)"

definition py_isdigit :: "utext \<Rightarrow> bool" where
  "py_isdigit s \<longleftrightarrow> s \<noteq> [] \<and> list_all (\<lambda>c. 48 \<le> c \<and> c \<le> 57 \<or> digit c \<noteq> None) s"

lemma digit_ascii: "d < 10 \<Longrightarrow> digit (48 + d) = Some d"
  by (simp add: digit_def ND_STARTS_def)

lemma digit_below: "c < 48 \<Longrightarrow> digit c = None"
  by (simp add: digit_def ND_STARTS_def)

lemma digit_lt_10: "digit c = Some d \<Longrightarrow> d < 10"
  by (auto simp: digit_def Let_def split: if_splits)

lemma ND_STARTS_ascending: "sorted_wrt (<) ND_STARTS"
  by (simp add: ND_STARTS_def)

lemma strip_id: "s \<noteq> [] \<Longrightarrow> \<not> is_space (hd s) \<Longrightarrow> \<not> is_space (last s) \<Longrightarrow> strip s = s"
proof -
  assume a: "s \<noteq> []" "\<not> is_space (hd s)" "\<not> is_space (last s)"
  then have "dropWhile is_space s = s" by (cases s) auto
  moreover from a have "dropWhile is_space (rev s) = rev s"
    by (cases s rule: rev_cases) auto
  ultimately show ?thesis by (simp add: strip_def)
qed

lemma utext_append [simp]: "utext (xs @ ys) = utext xs @ utext ys"
  by (simp add: utext_def)

lemma utext_digit_char: "\<forall>d \<in> set ds. d < 10 \<Longrightarrow> utext (map digit_char ds) = map (\<lambda>d. 48 + d) ds"
  by (induction ds) (auto simp: utext_def digit_char_def)

subsection \<open>Strings and their characters\<close>

text \<open>
  A Rust string is its UTF-8 bytes, a \<open>string\<close> here; \<open>chars\<close> reads the code points off it and
  \<open>of_chars\<close> collects code points into a string.
\<close>

fun utf8_decode :: "nat list \<Rightarrow> utext" where
  "utf8_decode [] = []"
| "utf8_decode (b # bs) =
     (if b < 0x80 then b # utf8_decode bs
      else if b < 0xE0 then
        (case bs of c # r \<Rightarrow> ((b - 0xC0) * 64 + (c - 0x80)) # utf8_decode r | _ \<Rightarrow> [])
      else if b < 0xF0 then
        (case bs of c # d # r \<Rightarrow> ((b - 0xE0) * 4096 + (c - 0x80) * 64 + (d - 0x80)) # utf8_decode r | _ \<Rightarrow> [])
      else
        (case bs of
           c # d # e # r \<Rightarrow>
             ((b - 0xF0) * 262144 + (c - 0x80) * 4096 + (d - 0x80) * 64 + (e - 0x80)) # utf8_decode r
         | _ \<Rightarrow> []))"

definition utf8_char :: "nat \<Rightarrow> nat list" where
  "utf8_char c =
     (if c < 0x80 then [c]
      else if c < 0x800 then [0xC0 + c div 64, 0x80 + c mod 64]
      else if c < 0x10000 then [0xE0 + c div 4096, 0x80 + c div 64 mod 64, 0x80 + c mod 64]
      else [0xF0 + c div 262144, 0x80 + c div 4096 mod 64, 0x80 + c div 64 mod 64, 0x80 + c mod 64])"

definition chars :: "string \<Rightarrow> utext" where
  "chars s = utf8_decode (map of_char s)"

definition of_chars :: "utext \<Rightarrow> string" where
  "of_chars cs = map char_of (concat (map utf8_char cs))"

lemma utf8_decode_char: "c < 0x110000 \<Longrightarrow> utf8_decode (utf8_char c @ bs) = c # utf8_decode bs"
proof -
  have "c div 4096 = c div 64 div 64" "c div 262144 = c div 64 div 64 div 64"
    by (simp_all add: div_mult2_eq [symmetric])
  moreover have "c div 64 div 64 * 4096 + c div 64 mod 64 * 64 + c mod 64 = c"
    "c div 64 div 64 div 64 * 262144 + c div 64 div 64 mod 64 * 4096 + c div 64 mod 64 * 64 + c mod 64 = c"
    using div_mult_mod_eq [of c 64] div_mult_mod_eq [of "c div 64" 64] div_mult_mod_eq [of "c div 64 div 64" 64]
    by linarith+
  moreover assume "c < 0x110000"
  ultimately show ?thesis by (auto simp: utf8_char_def)
qed

lemma utf8_char_byte: "c < 0x110000 \<Longrightarrow> b \<in> set (utf8_char c) \<Longrightarrow> b < 256"
  by (auto simp: utf8_char_def split: if_splits)

lemma utf8_round: "\<forall>c \<in> set cs. c < 0x110000 \<Longrightarrow> utf8_decode (concat (map utf8_char cs)) = cs"
  by (induction cs) (auto simp: utf8_decode_char)

lemma of_char_char_of: "b < 256 \<Longrightarrow> of_char (char_of b) = (b::nat)"
  by simp

lemma chars_of_chars: "\<forall>c \<in> set cs. c < 0x110000 \<Longrightarrow> chars (of_chars cs) = cs"
proof -
  assume a: "\<forall>c \<in> set cs. c < 0x110000"
  have "map (of_char \<circ> char_of) bs = bs" if "\<forall>b \<in> set bs. b < (256::nat)" for bs
    using that by (induction bs) (auto simp: of_char_char_of)
  moreover have "\<forall>b \<in> set (concat (map utf8_char cs)). b < 256" using a utf8_char_byte by auto
  ultimately show ?thesis using utf8_round [OF a] unfolding chars_def of_chars_def by simp
qed

lemma utf8_decode_ascii: "\<forall>b \<in> set bs. b < 128 \<Longrightarrow> utf8_decode bs = bs"
  by (induction bs) auto

lemma chars_ascii: "\<forall>c \<in> set s. of_char c < (128::nat) \<Longrightarrow> chars s = utext s"
  by (simp add: chars_def utext_def utf8_decode_ascii)

lemma of_chars_ascii: "\<forall>c \<in> set cs. c < 128 \<Longrightarrow> of_chars cs = map char_of cs"
  by (induction cs) (auto simp: of_chars_def utf8_char_def)

text \<open>
  \<open>str::to_uppercase\<close> maps each character on its own; the ASCII letters are written out and
  the Unicode table for the other characters is the argument \<open>uni\<close>.
\<close>

definition to_uppercase :: "(nat \<Rightarrow> nat list) \<Rightarrow> utext \<Rightarrow> utext" where
  "to_uppercase uni cs =
     concat (map (\<lambda>c. if c < 128 then [if 97 \<le> c \<and> c \<le> 122 then c - 32 else c] else uni c) cs)"

definition is_upper :: "nat \<Rightarrow> bool" where "is_upper c \<longleftrightarrow> 65 \<le> c \<and> c \<le> 90"
definition is_lower :: "nat \<Rightarrow> bool" where "is_lower c \<longleftrightarrow> 97 \<le> c \<and> c \<le> 122"
definition is_digit :: "nat \<Rightarrow> bool" where "is_digit c \<longleftrightarrow> 48 \<le> c \<and> c \<le> 57"

lemma to_uppercase_id: "\<forall>c \<in> set cs. c < 128 \<and> \<not> is_lower c \<Longrightarrow> to_uppercase uni cs = cs"
  by (induction cs) (auto simp: to_uppercase_def is_lower_def)

lemma strip_no_space: "\<forall>c \<in> set s. \<not> is_space c \<Longrightarrow> strip s = s"
  by (cases "s = []") (auto simp: strip_id, simp add: strip_def)

lemma is_space_not_alnum: "is_upper c \<or> is_digit c \<Longrightarrow> \<not> is_space c"
  by (auto simp: is_upper_def is_digit_def is_space_def)

end
