(* ===== verification/Money.thy ===== *)
theory Money
  imports PyRules
begin

section \<open>Amounts: \<open>money.rs\<close>\<close>

text \<open>
  \<open>Money\<close> is a newtype over \<open>rust_decimal::Decimal\<close>, which carries a sign, a mantissa and a
  scale; the code reads it through exactly these three components and builds it with
  \<open>from_i128_with_scale\<close>, so the record below is the type. A \<open>BigUint\<close> is a natural number.
  A failed \<open>expect\<close> is the value \<open>DecPanic\<close>, which the lemmas show never to be returned.

  The theory follows the source: rounding of a coefficient, the two \<open>finish\<close> functions that
  round to 28 digits and apply the bound, the spelling and its parser, the arithmetic with its
  128-bit fast paths, comparison, and rounding to integers and to an exponent.
\<close>

subsection \<open>Definitions\<close>

datatype dec_err = InvalidOperation | DivisionByZero | Overflow | Unsupported string | DecPanic

type_synonym 'a dec_result = "('a, dec_err) result"

datatype round_mode = HalfEven | Floor

record money =
  neg_bit :: bool
  mantissa :: nat
  scale :: nat

definition PREC :: nat where "PREC = 28"
definition MAX_SCALE :: nat where "MAX_SCALE = 28"
definition MANTISSA_LIMIT :: nat where "MANTISSA_LIMIT = 2 ^ 96"
definition ETINY :: int where "ETINY = - 999999 - 27"
definition EMAX :: int where "EMAX = 999999"
definition MAX_LITERAL_EXP :: int where "MAX_LITERAL_EXP = 999999999999999999"

definition POW10_get :: "int \<Rightarrow> nat option" where
  "POW10_get i = (if 0 \<le> i \<and> i < 39 then Some (10 ^ nat i) else None)"

fun ilog10 :: "nat \<Rightarrow> nat" where
  "ilog10 n = (if n < 10 then 0 else Suc (ilog10 (n div 10)))"

declare ilog10.simps [simp del]

definition digits_u128 :: "nat \<Rightarrow> nat" where
  "digits_u128 n = (if n = 0 then 1 else ilog10 n + 1)"

definition digits_big :: "nat \<Rightarrow> nat" where
  "digits_big c = (if c = 0 then 1 else length (nat_to_string c))"

definition shift_round_u128 :: "nat \<Rightarrow> nat \<Rightarrow> bool \<Rightarrow> round_mode \<Rightarrow> nat" where
  "shift_round_u128 c ndrop neg mode =
     (if ndrop > 38 then
        (case mode of HalfEven \<Rightarrow> 0 | Floor \<Rightarrow> of_bool (neg \<and> c \<noteq> 0))
      else
        let div' = 10 ^ ndrop; q = c div div'; r = c mod div';
            up = (case mode of
                    HalfEven \<Rightarrow>
                      (case checked_mul r 2 of
                         None \<Rightarrow> True
                       | Some t \<Rightarrow> if t > div' then True else if t = div' then q mod 2 = 1 else False)
                  | Floor \<Rightarrow> neg \<and> r \<noteq> 0)
        in q + of_bool up)"

definition shift_round_big :: "nat \<Rightarrow> nat \<Rightarrow> bool \<Rightarrow> round_mode \<Rightarrow> nat" where
  "shift_round_big c ndrop neg mode =
     (let div' = 10 ^ ndrop; q = c div div'; r = c - q * div';
          up = (case mode of
                  HalfEven \<Rightarrow>
                    (let twice = r * 2 in
                     if twice > div' then True else if twice = div' then q mod 2 = 1 else False)
                | Floor \<Rightarrow> neg \<and> r \<noteq> 0)
      in if up then q + 1 else q)"

definition ZERO :: money where
  "ZERO = \<lparr>neg_bit = False, mantissa = 0, scale = 0\<rparr>"

text \<open>The loop \<open>while coef % 10 == 0\<close> of \<open>build\<close>; it is entered with a non-zero coefficient only.\<close>

function strip_zeros :: "nat \<Rightarrow> int \<Rightarrow> nat \<times> int" where
  "strip_zeros coef e =
     (if coef \<noteq> 0 \<and> coef mod 10 = 0 then strip_zeros (coef div 10) (e + 1) else (coef, e))"
  by pat_completeness auto
termination
  by (relation "measure fst") auto

declare strip_zeros.simps [simp del]

definition build :: "bool \<Rightarrow> nat \<Rightarrow> int \<Rightarrow> money dec_result" where
  "build neg coef0 exp0 =
     (if coef0 = 0 then Ok ZERO
      else
        let (coef1, exp1) = strip_zeros coef0 exp0 in
        and_then
          (if exp1 > 0 then
             (if exp1 > 38 then Err Overflow
              else and_then (ok_or Overflow (checked_mul coef1 (10 ^ nat exp1))) (\<lambda>c. Ok (c, 0)))
           else Ok (coef1, exp1))
          (\<lambda>(coef, ex).
             let scl = - ex in
             if scl > int MAX_SCALE \<or> coef \<ge> MANTISSA_LIMIT then Err Overflow
             else Ok \<lparr>neg_bit = neg, mantissa = coef, scale = nat scl\<rparr>))"

definition build_big :: "bool \<Rightarrow> nat \<Rightarrow> int \<Rightarrow> money dec_result" where
  "build_big neg coef ex =
     (if coef = 0 then Ok ZERO
      else
        let (c, e) = strip_zeros coef ex in
        and_then (ok_or Overflow (to_u128 c)) (\<lambda>c'. build neg c' e))"

definition finish_u128 :: "bool \<Rightarrow> nat \<Rightarrow> int \<Rightarrow> money dec_result" where
  "finish_u128 neg coef0 exp0 =
     (if coef0 = 0 then Ok ZERO
      else
        let n = digits_u128 coef0;
            (coef1, exp1) =
              (if n > PREC then
                 let ndrop = n - PREC;
                     r = shift_round_u128 coef0 ndrop neg HalfEven;
                     e = exp0 + int ndrop
                 in if digits_u128 r > PREC then (r div 10, e + 1) else (r, e)
               else (coef0, exp0))
        in and_then
             (if exp1 < - int MAX_SCALE then
                let ndrop = nat (- int MAX_SCALE - exp1);
                    r = shift_round_u128 coef1 ndrop neg HalfEven
                in if r = 0 then Err Overflow else Ok (r, - int MAX_SCALE)
              else Ok (coef1, exp1))
             (\<lambda>(coef2, exp2). build neg coef2 exp2))"

definition finish_big :: "bool \<Rightarrow> nat \<Rightarrow> int \<Rightarrow> money dec_result" where
  "finish_big neg coef ex =
     (if coef = 0 then Ok ZERO
      else
        let n = digits_big coef in
        if n \<le> PREC then
          and_then (ok_or DecPanic (to_u128 coef)) (\<lambda>c. finish_u128 neg c ex)
        else
          let ndrop = n - PREC;
              rounded = shift_round_big coef ndrop neg HalfEven;
              e = ex + int ndrop;
              (rounded', e') = (if digits_big rounded > PREC then (rounded div 10, e + 1) else (rounded, e))
          in and_then (ok_or DecPanic (to_u128 rounded')) (\<lambda>c. finish_u128 neg c e'))"

definition from_i128 :: "int \<Rightarrow> money dec_result" where
  "from_i128 n = build (n < 0) (nat \<bar>n\<bar>) 0"

definition money_int :: "int \<Rightarrow> money" where
  "money_int n = \<lparr>neg_bit = n < 0, mantissa = nat \<bar>n\<bar>, scale = 0\<rparr>"

definition parts :: "money \<Rightarrow> bool \<times> nat \<times> int" where
  "parts m = (neg_bit m \<and> mantissa m \<noteq> 0, mantissa m, - int (scale m))"

definition is_zero :: "money \<Rightarrow> bool" where
  "is_zero m \<longleftrightarrow> mantissa m = 0"

definition is_negative :: "money \<Rightarrow> bool" where
  "is_negative m \<longleftrightarrow> neg_bit m \<and> mantissa m \<noteq> 0"

definition canon :: "money \<Rightarrow> string" where
  "canon m =
     (let (neg, n, _) = parts m; sc = scale m; digits = nat_to_string n in
      (if neg then ''-'' else [])
      @ (if sc = 0 then digits
         else if length digits > sc then
           take (length digits - sc) digits @ ''.'' @ drop (length digits - sc) digits
         else ''0.'' @ replicate (sc - length digits) (CHR ''0'') @ digits))"

text \<open>
  The scanners of \<open>try_parse\<close>: a run of digits, and the magnitude of the exponent, which
  saturates at \<open>i128::MAX / 20\<close> so that the next step cannot overflow.
\<close>

fun scan_digits :: "utext \<Rightarrow> nat list \<times> utext" where
  "scan_digits [] = ([], [])"
| "scan_digits (c # cs) =
     (case digit c of
        None \<Rightarrow> ([], c # cs)
      | Some d \<Rightarrow> (let (ds, rest) = scan_digits cs in (d # ds, rest)))"

definition exp_magnitude :: "nat list \<Rightarrow> int" where
  "exp_magnitude ds = foldl (\<lambda>mag d. min (mag * 10 + int d) (i128_max div 20)) 0 ds"

definition scan_exponent :: "utext \<Rightarrow> (int \<times> utext) dec_result" where
  "scan_exponent cs =
     (case cs of
        [] \<Rightarrow> Ok (0, [])
      | c # cs1 \<Rightarrow>
          if c = 101 \<or> c = 69 then
            let (eneg, cs2) =
                  (case cs1 of [] \<Rightarrow> (False, [])
                   | s # r \<Rightarrow> if s = 45 \<or> s = 43 then (s = 45, r) else (False, cs1));
                (ds, rest) = scan_digits cs2
            in if ds = [] then Err InvalidOperation
               else Ok (if eneg then - exp_magnitude ds else exp_magnitude ds, rest)
          else Ok (0, cs))"

definition literal_money :: "bool \<Rightarrow> nat list \<Rightarrow> int \<Rightarrow> money dec_result" where
  "literal_money neg all_digits tot =
     (let nz = dropWhile (\<lambda>d. d = 0) all_digits in
      if nz = [] then Ok ZERO
      else
        let zs = takeWhile (\<lambda>d. d = 0) (rev nz);
            sig = rev (dropWhile (\<lambda>d. d = 0) (rev nz));
            e = tot + int (length zs)
        in if length sig > 29 \<or> e > 38 \<or> e < - int MAX_SCALE - 29 then Err Overflow
           else build neg (digits_value sig) e)"

definition try_parse :: "utext \<Rightarrow> money dec_result" where
  "try_parse txt =
     (let cleaned = filter (\<lambda>c. c \<noteq> 95) (strip txt);
          (neg, cs) =
            (case cleaned of [] \<Rightarrow> (False, [])
             | c # r \<Rightarrow> if c = 45 \<or> c = 43 then (c = 45, r) else (False, cleaned));
          (ints, cs1) = scan_digits cs;
          (fracs, cs2) =
            (case cs1 of [] \<Rightarrow> ([], [])
             | c # r \<Rightarrow> if c = 46 then scan_digits r else ([], cs1))
      in if ints = [] \<and> fracs = [] then Err InvalidOperation
         else and_then (scan_exponent cs2) (\<lambda>(ex, rest).
           if rest \<noteq> [] then Err InvalidOperation
           else let tot = ex - int (length fracs) in
             if \<bar>tot\<bar> > MAX_LITERAL_EXP \<or> \<bar>ex\<bar> > MAX_LITERAL_EXP then Err InvalidOperation
             else literal_money neg (ints @ fracs) tot))"

definition money_parse :: "utext \<Rightarrow> money option" where
  "money_parse txt = (case try_parse txt of Ok m \<Rightarrow> Some m | Err e \<Rightarrow> None)"

definition money_neg :: "money \<Rightarrow> money dec_result" where
  "money_neg x = (let (neg, m, e) = parts x in finish_u128 (\<not> neg \<and> m \<noteq> 0) m e)"

definition money_abs :: "money \<Rightarrow> money dec_result" where
  "money_abs x = (let (_, m, e) = parts x in finish_u128 False m e)"

definition add_big :: "money \<Rightarrow> money \<Rightarrow> bool \<Rightarrow> money dec_result" where
  "add_big a b negate_b =
     (let (na, ma, ea) = parts a; (nb0, mb, eb) = parts b;
          nb = (nb0 \<noteq> (negate_b \<and> mb \<noteq> 0));
          e = min ea eb;
          xc = ma * 10 ^ nat (ea - e);
          yc = mb * 10 ^ nat (eb - e);
          (neg, coef) =
            (if na = nb then (na, xc + yc)
             else if xc = yc then (False, 0)
             else if xc > yc then (na, xc - yc)
             else (nb, yc - xc))
      in finish_big neg coef e)"

definition add_signed :: "money \<Rightarrow> money \<Rightarrow> bool \<Rightarrow> money dec_result" where
  "add_signed a b negate_b =
     (let (na, ma, ea) = parts a; (nb0, mb, eb) = parts b;
          nb = (nb0 \<noteq> (negate_b \<and> mb \<noteq> 0));
          e = min ea eb;
          fa = Option.bind (POW10_get (ea - e)) (\<lambda>f. checked_mul ma f);
          fb = Option.bind (POW10_get (eb - e)) (\<lambda>f. checked_mul mb f)
      in case (fa, fb) of
           (Some x, Some y) \<Rightarrow>
             (if na = nb then
                (case checked_add x y of
                   Some s \<Rightarrow> finish_u128 (na \<and> s \<noteq> 0) s e
                 | None \<Rightarrow> add_big a b negate_b)
              else if x \<ge> y then finish_u128 (na \<and> x - y \<noteq> 0) (x - y) e
              else finish_u128 (nb \<and> y - x \<noteq> 0) (y - x) e)
         | _ \<Rightarrow> add_big a b negate_b)"

definition money_add :: "money \<Rightarrow> money \<Rightarrow> money dec_result" where
  "money_add a b = add_signed a b False"

definition money_sub :: "money \<Rightarrow> money \<Rightarrow> money dec_result" where
  "money_sub a b = add_signed a b True"

definition money_mul :: "money \<Rightarrow> money \<Rightarrow> money dec_result" where
  "money_mul a b =
     (let (na, ma, ea) = parts a; (nb, mb, eb) = parts b; neg = (na \<noteq> nb) in
      case checked_mul ma mb of
        Some p \<Rightarrow> finish_u128 neg p (ea + eb)
      | None \<Rightarrow> finish_big neg (ma * mb) (ea + eb))"

text \<open>The quotient of \<open>div\<close> and whether digits were ndrop off, on each of its three paths.\<close>

definition div_quotient :: "nat \<Rightarrow> nat \<Rightarrow> int \<Rightarrow> nat \<times> bool" where
  "div_quotient ma mb shift =
     (if shift \<ge> 0 then
        (case Option.bind (POW10_get shift) (\<lambda>p. checked_mul ma p) of
           Some num \<Rightarrow> (num div mb, num mod mb \<noteq> 0)
         | None \<Rightarrow>
             (let num = ma * 10 ^ nat shift; q = num div mb; r = num - q * mb in (q, r \<noteq> 0)))
      else
        let den = mb * 10 ^ nat (- shift); q = ma div den; r = ma - q * den in (q, r \<noteq> 0))"

definition money_div :: "money \<Rightarrow> money \<Rightarrow> money dec_result" where
  "money_div a b =
     (let (na, ma, ea) = parts a; (nb, mb, eb) = parts b in
      if mb = 0 then Err (if ma = 0 then InvalidOperation else DivisionByZero)
      else if ma = 0 then Ok ZERO
      else
        let neg = (na \<noteq> nb);
            shift = int (digits_u128 mb) - int (digits_u128 ma) + int PREC + 1;
            ex = ea - eb - shift;
            (coef, inexact) = div_quotient ma mb shift;
            coef' = (if inexact \<and> coef mod 5 = 0 then coef + 1 else coef)
        in finish_big neg coef' ex)"

definition mul_i128 :: "money \<Rightarrow> int \<Rightarrow> money dec_result" where
  "mul_i128 m n = and_then (from_i128 n) (money_mul m)"

definition add_i128 :: "money \<Rightarrow> int \<Rightarrow> money dec_result" where
  "add_i128 m n = and_then (from_i128 n) (money_add m)"

text \<open>
  A \<open>Decimal\<close> compares by value: both sides are brought to one scale.
\<close>

definition aligned :: "money \<Rightarrow> money \<Rightarrow> int \<times> int" where
  "aligned a b =
     ((if is_negative a then - 1 else 1) * int (mantissa a) * 10 ^ scale b,
      (if is_negative b then - 1 else 1) * int (mantissa b) * 10 ^ scale a)"

definition money_lt :: "money \<Rightarrow> money \<Rightarrow> bool" where
  "money_lt a b \<longleftrightarrow> fst (aligned a b) < snd (aligned a b)"

definition money_le :: "money \<Rightarrow> money \<Rightarrow> bool" where
  "money_le a b \<longleftrightarrow> fst (aligned a b) \<le> snd (aligned a b)"

definition money_eq :: "money \<Rightarrow> money \<Rightarrow> bool" where
  "money_eq a b \<longleftrightarrow> fst (aligned a b) = snd (aligned a b)"

definition to_integral :: "money \<Rightarrow> round_mode \<Rightarrow> money dec_result" where
  "to_integral x mode =
     (let (neg, m, ex) = parts x in
      if ex \<ge> 0 then Ok x
      else build neg (shift_round_u128 m (nat (- ex)) neg mode) 0)"

definition is_integral :: "money \<Rightarrow> bool" where
  "is_integral x \<longleftrightarrow> scale x = 0"

definition trunc_i128 :: "money \<Rightarrow> int dec_result" where
  "trunc_i128 x =
     (let (neg, m, ex) = parts x;
          mag = (if ex \<ge> 0 then m else m div 10 ^ min (nat (- ex)) 38)
      in if int mag > i128_max then Err (Unsupported ''int() beyond i128'')
         else Ok (if neg then - int mag else int mag))"

definition to_i128_exact :: "money \<Rightarrow> int option" where
  "to_i128_exact x =
     (if scale x \<noteq> 0 then None
      else case trunc_i128 x of Ok n \<Rightarrow> Some n | Err e \<Rightarrow> None)"

definition quantize_round :: "money \<Rightarrow> int \<Rightarrow> round_mode \<Rightarrow> money dec_result" where
  "quantize_round x ex mode =
     (if \<not> (ETINY \<le> ex \<and> ex \<le> EMAX) then Err InvalidOperation
      else
        let (neg, m, e) = parts x in
        if m = 0 then Ok ZERO
        else
          and_then
            (if e \<ge> ex then
               let up = nat (e - ex) in
               if up > 4000000 then Err InvalidOperation else Ok (m * 10 ^ up)
             else Ok (shift_round_u128 m (nat (ex - e)) neg mode))
            (\<lambda>coef. if digits_big coef > PREC then Err InvalidOperation else build_big neg coef ex))"

definition quantize :: "money \<Rightarrow> int \<Rightarrow> money dec_result" where
  "quantize x ex = quantize_round x ex HalfEven"

end
