(* ===== verification/Money_Value.thy ===== *)
theory Money_Value
  imports Money
begin

section \<open>The value of an amount and its rounding\<close>

text \<open>
  What an amount of \<open>Money\<close> means: its value is a rational number, the canonical form is the
  only representation of its value, and \<open>build\<close> answers exactly the values that fit the bound.
  Then the reference for rounding, on rational numbers: half-even to 28 significant digits
  (\<open>round_prec\<close>) and to 28 places (\<open>round_scale\<close>), against which the 128-bit and the unbounded
  routines are proved in the next theory.
\<close>

subsection \<open>Values and canonical forms\<close>

definition sgnr :: "bool \<Rightarrow> rat" where
  "sgnr neg = (if neg then - 1 else 1)"

definition dval :: "bool \<Rightarrow> nat \<Rightarrow> int \<Rightarrow> rat" where
  "dval neg coef ex = sgnr neg * of_nat coef * 10 powi ex"

definition mval :: "money \<Rightarrow> rat" where
  "mval m = dval (neg_bit m) (mantissa m) (- int (scale m))"

definition canonical :: "money \<Rightarrow> bool" where
  "canonical m \<longleftrightarrow>
     mantissa m < MANTISSA_LIMIT \<and> scale m \<le> MAX_SCALE
     \<and> (scale m > 0 \<longrightarrow> mantissa m mod 10 \<noteq> 0)
     \<and> (mantissa m = 0 \<longrightarrow> \<not> neg_bit m)"

lemma sgnr_simps [simp]: "sgnr True = - 1" "sgnr False = 1" "\<bar>sgnr b\<bar> = 1" "sgnr b \<noteq> 0"
  "sgnr b * sgnr b = 1"
  by (auto simp: sgnr_def)

lemma sgnr_xor: "sgnr (a \<noteq> b) = sgnr a * sgnr b"
  by (auto simp: sgnr_def)

lemma pow10_pos [simp]: "0 < (10::rat) powi e"
  by (simp add: zero_less_power_int)

lemma pow10_add: "(10::rat) powi (a + b) = 10 powi a * 10 powi b"
  by (simp add: power_int_add)

lemma pow10_nat: "(10::rat) powi int n = 10 ^ n"
  by simp

lemma pow10_neg_nat: "(10::rat) powi (- int n) = 1 / 10 ^ n"
  by (simp add: power_int_minus divide_inverse)

lemma dval_0 [simp]: "dval neg 0 e = 0"
  by (simp add: dval_def)

lemma dval_eq_0_iff [simp]: "dval neg c e = 0 \<longleftrightarrow> c = 0"
  by (simp add: dval_def)

lemma abs_dval: "\<bar>dval neg c e\<bar> = of_nat c * 10 powi e"
  by (simp add: dval_def abs_mult)

lemma sgn_dval: "c \<noteq> 0 \<Longrightarrow> sgn (dval neg c e) = sgnr neg"
  by (cases neg) (simp_all add: dval_def sgn_mult sgn_pos)

lemma dval_shift: "dval neg (c * 10 ^ k) e = dval neg c (e + int k)"
  by (simp add: dval_def pow10_add)

lemma dval_inject_sign:
  assumes "c \<noteq> 0" and "dval n c e = dval n' c' e'"
  shows "n = n'" and "c' \<noteq> 0"
proof -
  show "c' \<noteq> 0" using assms by (metis dval_eq_0_iff)
  then have "sgnr n = sgnr n'" using assms by (metis sgn_dval)
  then show "n = n'" by (auto simp: sgnr_def split: if_splits)
qed

text \<open>A coefficient without a trailing zero is determined by its value.\<close>

lemma coef_unique_le:
  assumes "of_nat c * (10::rat) powi e = of_nat c' * 10 powi e'" and "e \<le> e'"
  shows "c = c' * 10 ^ nat (e' - e)"
proof -
  have "e' = e + int (nat (e' - e))" using assms(2) by simp
  then have "(10::rat) powi e' = 10 powi e * 10 ^ nat (e' - e)"
    by (metis pow10_add pow10_nat)
  with assms(1) have "of_nat c * (10::rat) powi e = of_nat (c' * 10 ^ nat (e' - e)) * 10 powi e"
    by simp
  then have "(of_nat c :: rat) = of_nat (c' * 10 ^ nat (e' - e))"
    using pow10_pos [of e] by (metis mult_cancel_right less_irrefl)
  then show ?thesis by (simp only: of_nat_eq_iff)
qed

lemma coef_unique:
  assumes "of_nat c * (10::rat) powi e = of_nat c' * 10 powi e'"
    and "c mod 10 \<noteq> 0" and "c' mod 10 \<noteq> 0"
  shows "c = c' \<and> e = e'"
proof (cases "e \<le> e'")
  case True
  with assms(1) have c: "c = c' * 10 ^ nat (e' - e)" by (rule coef_unique_le)
  have "e' = e"
  proof (rule ccontr)
    assume "e' \<noteq> e"
    with True obtain k where "nat (e' - e) = Suc k" by (cases "nat (e' - e)") auto
    with c assms(2) show False by simp
  qed
  with c show ?thesis by simp
next
  case False
  then have c: "c' = c * 10 ^ nat (e - e')" using assms(1) by (intro coef_unique_le) auto
  obtain k where "nat (e - e') = Suc k" using False by (cases "nat (e - e')") auto
  with c assms(3) show ?thesis by simp
qed

lemma canonical_ZERO [simp]: "canonical ZERO"
  by (simp add: canonical_def ZERO_def MANTISSA_LIMIT_def)

lemma mval_ZERO [simp]: "mval ZERO = 0"
  by (simp add: mval_def ZERO_def)

lemma canonical_zero_scale: "canonical m \<Longrightarrow> mantissa m = 0 \<Longrightarrow> scale m = 0"
  by (cases "scale m") (auto simp: canonical_def)

lemma canonical_zero: "canonical m \<Longrightarrow> mval m = 0 \<longleftrightarrow> m = ZERO"
proof -
  assume c: "canonical m"
  have "mval m = 0 \<longleftrightarrow> mantissa m = 0" by (simp add: mval_def)
  also have "\<dots> \<longleftrightarrow> m = ZERO"
    using c canonical_zero_scale [OF c] by (cases m) (auto simp: canonical_def ZERO_def)
  finally show ?thesis .
qed

text \<open>Two amounts with the same value are the same amount.\<close>

lemma canonical_scale_le:
  assumes "canonical m" "canonical m'" "mval m = mval m'" "mantissa m \<noteq> 0" "scale m \<le> scale m'"
  shows "m = m'"
proof -
  have s: "neg_bit m = neg_bit m'" and nz: "mantissa m' \<noteq> 0"
    using dval_inject_sign [OF assms(4), of "neg_bit m"] assms(3) by (auto simp: mval_def)
  have "of_nat (mantissa m') * (10::rat) powi - int (scale m') = of_nat (mantissa m) * 10 powi - int (scale m)"
    using assms(3) s by (auto simp: mval_def dval_def)
  then have m': "mantissa m' = mantissa m * 10 ^ nat (- int (scale m) - - int (scale m'))"
    by (rule coef_unique_le) (use assms(5) in simp)
  have "scale m' = scale m"
  proof (rule ccontr)
    assume "scale m' \<noteq> scale m"
    with assms(5) obtain k where k: "nat (- int (scale m) - - int (scale m')) = Suc k" and "scale m' > 0"
      by (cases "nat (- int (scale m) - - int (scale m'))") auto
    then have "mantissa m' mod 10 \<noteq> 0" using assms(2) by (simp add: canonical_def)
    with m' k show False by simp
  qed
  with s m' show ?thesis by simp
qed

lemma canonical_unique:
  assumes "canonical m" "canonical m'" "mval m = mval m'"
  shows "m = m'"
proof (cases "mantissa m = 0")
  case True
  then have "mval m = 0" by (simp add: mval_def)
  with assms show ?thesis by (simp add: canonical_zero)
next
  case False
  then have "mantissa m' \<noteq> 0" using assms(3) by (metis dval_eq_0_iff mval_def)
  with False assms canonical_scale_le [of m m'] canonical_scale_le [of m' m] show ?thesis
    by (metis nat_le_linear)
qed

lemma canonical_eq_iff: "canonical m \<Longrightarrow> canonical m' \<Longrightarrow> m = m' \<longleftrightarrow> mval m = mval m'"
  using canonical_unique by blast

subsection \<open>Building an amount\<close>

lemma strip_zeros_spec:
  assumes "c \<noteq> 0" and "strip_zeros c e = (c', e')"
  shows "c' mod 10 \<noteq> 0" and "e \<le> e'" and "c = c' * 10 ^ nat (e' - e)"
proof -
  have "c' mod 10 \<noteq> 0 \<and> e \<le> e' \<and> c = c' * 10 ^ nat (e' - e)"
    using assms
  proof (induction c e rule: strip_zeros.induct)
    case (1 c e)
    show ?case
    proof (cases "c mod 10 = 0")
      case True
      with "1.prems" have "c div 10 \<noteq> 0" and rec: "strip_zeros (c div 10) (e + 1) = (c', e')"
        by (auto simp: strip_zeros.simps [of c e])
      with "1.IH" True "1.prems"(1) have *: "c' mod 10 \<noteq> 0" "e + 1 \<le> e'" "c div 10 = c' * 10 ^ nat (e' - (e + 1))"
        by auto
      have "c = 10 * (c div 10)" using True by presburger
      moreover have "nat (e' - e) = Suc (nat (e' - (e + 1)))" using *(2) by simp
      ultimately show ?thesis using * by simp
    next
      case False
      with "1.prems" show ?thesis by (auto simp: strip_zeros.simps [of c e])
    qed
  qed
  then show "c' mod 10 \<noteq> 0" and "e \<le> e'" and "c = c' * 10 ^ nat (e' - e)" by auto
qed

lemma strip_zeros_value:
  assumes "c \<noteq> 0" and "strip_zeros c e = (c', e')"
  shows "dval neg c e = dval neg c' e'"
proof -
  have "c = c' * 10 ^ nat (e' - e)" and "e \<le> e'" using strip_zeros_spec [OF assms] by auto
  then show ?thesis using dval_shift [of neg c' "nat (e' - e)" e] by simp
qed

lemma pow10_limits: "MANTISSA_LIMIT < 10 ^ 29" "MANTISSA_LIMIT < u128_limit" "(10::nat) ^ 38 < u128_limit"
  "u128_limit < 5 * 10 ^ 38" "10 ^ 28 < MANTISSA_LIMIT"
  by (simp_all add: MANTISSA_LIMIT_def u128_limit_def)

lemma build_sound:
  assumes "build neg c e = Ok m"
  shows "canonical m \<and> mval m = dval neg c e"
proof (cases "c = 0")
  case True
  with assms show ?thesis by (auto simp: build_def)
next
  case False
  obtain c' e' where st: "strip_zeros c e = (c', e')" by fastforce
  note sp = strip_zeros_spec [OF False st] and v = strip_zeros_value [OF False st]
  have c'0: "c' \<noteq> 0" using sp(1) by auto
  show ?thesis
  proof (cases "e' > 0")
    case True
    with assms False st have m: "m = \<lparr>neg_bit = neg, mantissa = c' * 10 ^ nat e', scale = 0\<rparr>"
      and lim: "c' * 10 ^ nat e' < MANTISSA_LIMIT"
      by (auto simp: build_def Let_def split: if_splits)
    have "dval neg (c' * 10 ^ nat e') 0 = dval neg c' e'"
      using dval_shift [of neg c' "nat e'" 0] True by simp
    with m lim c'0 v show ?thesis by (simp add: canonical_def mval_def)
  next
    case False2: False
    with assms False st have m: "m = \<lparr>neg_bit = neg, mantissa = c', scale = nat (- e')\<rparr>"
      and lim: "c' < MANTISSA_LIMIT" "- e' \<le> int MAX_SCALE"
      by (auto simp: build_def Let_def split: if_splits)
    with False2 c'0 sp(1) v show ?thesis by (simp add: canonical_def mval_def)
  qed
qed

lemma build_Err: "build neg c e = Err x \<Longrightarrow> x = Overflow"
  by (auto simp: build_def and_then_Err_iff checked_mul_def Let_def split: if_splits prod.splits)

lemma build_complete:
  assumes m: "canonical m" "mval m = dval neg c e"
  shows "build neg c e = Ok m"
proof (cases "c = 0")
  case True
  with m show ?thesis by (simp add: build_def canonical_zero)
next
  case False
  obtain c' e' where st: "strip_zeros c e = (c', e')" by fastforce
  note sp = strip_zeros_spec [OF False st] and v = strip_zeros_value [OF False st, of neg]
  have c'0: "c' \<noteq> 0" using sp(1) by auto
  have eq: "dval (neg_bit m) (mantissa m) (- int (scale m)) = dval neg c' e'"
    using m(2) v by (simp add: mval_def)
  have neg: "neg_bit m = neg" and m0: "mantissa m \<noteq> 0"
    using dval_inject_sign [OF c'0 eq [symmetric]] by auto
  have eqv: "of_nat (mantissa m) * (10::rat) powi (- int (scale m)) = of_nat c' * 10 powi e'"
    using eq neg by (simp add: dval_def)
  show ?thesis
  proof (cases "e' > 0")
    case True
    have mant: "mantissa m = c' * 10 ^ nat (e' + int (scale m))"
      using coef_unique_le [OF eqv] True by simp
    have sc: "scale m = 0"
    proof (rule ccontr)
      assume "scale m \<noteq> 0"
      moreover from True obtain k where "nat (e' + int (scale m)) = Suc k"
        by (cases "nat (e' + int (scale m))") auto
      ultimately show False using mant m(1) by (simp add: canonical_def)
    qed
    with mant have mant': "mantissa m = c' * 10 ^ nat e'" by simp
    have lim: "c' * 10 ^ nat e' < MANTISSA_LIMIT" using m(1) mant' by (simp add: canonical_def)
    have "10 ^ nat e' \<le> c' * 10 ^ nat e'" using c'0 by simp
    then have "(10::nat) ^ nat e' < 10 ^ 29" using lim pow10_limits(1) by linarith
    then have "nat e' < 29" by (rule power_less_imp_less_exp [rotated]) simp
    then have e38: "\<not> 38 < e'" by simp
    have "c' * 10 ^ nat e' < u128_limit" using lim pow10_limits(2) by linarith
    then have "checked_mul c' (10 ^ nat e') = Some (c' * 10 ^ nat e')" by simp
    with False st True e38 lim have "build neg c e = Ok \<lparr>neg_bit = neg, mantissa = c' * 10 ^ nat e', scale = 0\<rparr>"
      by (simp add: build_def)
    with neg sc mant' show ?thesis by simp
  next
    case F: False
    have "mantissa m = c' \<and> - int (scale m) = e'"
    proof (cases "scale m = 0")
      case True
      with coef_unique_le [OF eqv [symmetric]] F have "c' = mantissa m * 10 ^ nat (- e')" by simp
      moreover have "e' = 0"
      proof (rule ccontr)
        assume "e' \<noteq> 0"
        with F obtain k where "nat (- e') = Suc k" by (cases "nat (- e')") auto
        with calculation sp(1) show False by simp
      qed
      ultimately show ?thesis using True by simp
    next
      case False
      then have "mantissa m mod 10 \<noteq> 0" using m(1) by (simp add: canonical_def)
      with coef_unique [OF eqv] sp(1) show ?thesis by simp
    qed
    moreover have "mantissa m < MANTISSA_LIMIT" "scale m \<le> MAX_SCALE" using m(1) by (auto simp: canonical_def)
    ultimately have "\<not> int MAX_SCALE < - e'" "\<not> MANTISSA_LIMIT \<le> c'" "nat (- e') = scale m" "c' = mantissa m"
      by auto
    with False st F neg show ?thesis by (simp add: build_def)
  qed
qed

lemma build_iff: "build neg c e = Ok m \<longleftrightarrow> canonical m \<and> mval m = dval neg c e"
  using build_sound build_complete by blast

lemma build_cases: "build neg c e = Err Overflow \<or> (\<exists>m. build neg c e = Ok m)"
  by (cases "build neg c e") (auto dest: build_Err)

lemma build_big_iff: "build_big neg c e = Ok m \<longleftrightarrow> canonical m \<and> mval m = dval neg c e"
proof (cases "c = 0")
  case True
  then show ?thesis by (auto simp: build_big_def canonical_zero)
next
  case False
  obtain c' e' where st: "strip_zeros c e = (c', e')" by fastforce
  note sp = strip_zeros_spec [OF False st] and v = strip_zeros_value [OF False st, of neg]
  have "canonical m \<Longrightarrow> mval m = dval neg c' e' \<Longrightarrow> c' < u128_limit"
  proof -
    assume m: "canonical m" "mval m = dval neg c' e'"
    then have eqv: "of_nat (mantissa m) * (10::rat) powi (- int (scale m)) = of_nat c' * 10 powi e'"
      by (metis abs_dval mval_def)
    have "c' \<le> mantissa m"
    proof (cases "- int (scale m) \<le> e'")
      case True
      have "mantissa m = c' * 10 ^ nat (e' - - int (scale m))"
        using coef_unique_le [OF eqv True] .
      then show ?thesis by simp
    next
      case F: False
      have "c' = mantissa m * 10 ^ nat (- int (scale m) - e')"
        using coef_unique_le [OF eqv [symmetric]] F
        by simp
      moreover obtain k where "nat (- int (scale m) - e') = Suc k"
        using F by (cases "nat (- int (scale m) - e')") auto
      ultimately show ?thesis using sp(1) by simp
    qed
    with m(1) pow10_limits(2) show ?thesis by (auto simp: canonical_def)
  qed
  with False st v show ?thesis by (auto simp: build_big_def build_iff)
qed

lemma build_big_Err: "build_big neg c e = Err x \<Longrightarrow> x = Overflow"
  by (auto simp: build_big_def and_then_Err_iff to_u128_def dest!: build_Err split: if_splits prod.splits)

lemma build_big_cases: "build_big neg c e = Err Overflow \<or> (\<exists>m. build_big neg c e = Ok m)"
  by (cases "build_big neg c e") (auto dest: build_big_Err)

subsection \<open>Rounding a coefficient\<close>

text \<open>Rounding a non-negative rational to an integer, a tie going to the even neighbour.\<close>

definition rhe :: "rat \<Rightarrow> int" where
  "rhe x = (let f = \<lfloor>x\<rfloor>; d = x - of_int f in
            if d < 1 / 2 then f else if d > 1 / 2 then f + 1 else if even f then f else f + 1)"

lemma rhe_of_int [simp]: "rhe (of_int n) = n"
  by (simp add: rhe_def Let_def)

lemma rhe_of_nat [simp]: "rhe (of_nat n) = int n"
  using rhe_of_int [of "int n"] by simp

lemma rhe_error: "\<bar>of_int (rhe x) - x\<bar> \<le> 1 / 2"
proof -
  have "of_int \<lfloor>x\<rfloor> \<le> x" "x < of_int \<lfloor>x\<rfloor> + 1" by linarith+
  then show ?thesis by (auto simp: rhe_def Let_def abs_le_iff)
qed

lemma rhe_ge_floor: "\<lfloor>x\<rfloor> \<le> rhe x"
  by (simp add: rhe_def Let_def)

lemma rhe_mono_int: "of_int n \<le> x \<Longrightarrow> n \<le> rhe x"
  using rhe_ge_floor [of x] by (simp add: le_floor_iff [symmetric])

lemma rhe_le_int: "x \<le> of_int n \<Longrightarrow> rhe x \<le> n"
proof -
  assume x: "x \<le> of_int n"
  show ?thesis
  proof (cases "x = of_int n")
    case False
    with x have "\<lfloor>x\<rfloor> < n" by (simp add: floor_less_iff)
    then show ?thesis by (auto simp: rhe_def Let_def)
  qed simp
qed

lemma rhe_nonneg: "0 \<le> x \<Longrightarrow> 0 \<le> rhe x"
  using rhe_mono_int [of 0 x] by simp

lemma of_nat_div_mod: "(of_nat c :: rat) = of_nat (c div d) * of_nat d + of_nat (c mod d)"
  by (metis div_mult_mod_eq of_nat_add of_nat_mult)

lemma rhe_div:
  assumes "0 < d"
  shows "rhe (of_nat c / of_nat d) =
    int (if 2 * (c mod d) < d then c div d
         else if 2 * (c mod d) > d then c div d + 1
         else if even (c div d) then c div d else c div d + 1)"
proof -
  have fl: "\<lfloor>(of_nat c :: rat) / of_nat d\<rfloor> = int (c div d)"
    by (metis floor_divide_of_nat_eq of_nat_div)
  note c = of_nat_div_mod [of c d]
  have fr: "(of_nat c :: rat) / of_nat d - of_int (int (c div d)) = of_nat (c mod d) / of_nat d"
    using assms c by (simp add: field_simps)
  have lt: "(of_nat (c mod d) :: rat) / of_nat d < 1 / 2 \<longleftrightarrow> 2 * (c mod d) < d"
  proof -
    have "(of_nat (c mod d) :: rat) / of_nat d < 1 / 2 \<longleftrightarrow> of_nat (2 * (c mod d)) < (of_nat d :: rat)"
      using assms by (simp add: field_simps)
    then show ?thesis by (simp only: of_nat_less_iff)
  qed
  have gt: "(of_nat (c mod d) :: rat) / of_nat d > 1 / 2 \<longleftrightarrow> 2 * (c mod d) > d"
  proof -
    have "(of_nat (c mod d) :: rat) / of_nat d > 1 / 2 \<longleftrightarrow> of_nat (2 * (c mod d)) > (of_nat d :: rat)"
      using assms by (simp add: field_simps)
    then show ?thesis by (simp only: of_nat_less_iff)
  qed
  show ?thesis unfolding rhe_def Let_def fl fr lt gt by simp
qed

lemma shift_round_big_half_alt:
  "shift_round_big c n neg HalfEven =
     (let q = c div 10 ^ n; r = c mod 10 ^ n in
      if 2 * r > 10 ^ n \<or> 2 * r = 10 ^ n \<and> odd q then q + 1 else q)"
  unfolding shift_round_big_def Let_def minus_div_mult_eq_mod
  by (simp add: odd_iff_mod_2_eq_one mult.commute)

lemma shift_round_big_floor_alt:
  "shift_round_big c n neg Floor =
     (let q = c div 10 ^ n; r = c mod 10 ^ n in if neg \<and> r \<noteq> 0 then q + 1 else q)"
  unfolding shift_round_big_def Let_def minus_div_mult_eq_mod by simp

lemma shift_round_big_half:
  "int (shift_round_big c n neg HalfEven) = rhe (of_nat c / 10 ^ n)"
  using rhe_div [of "10 ^ n" c]
  unfolding shift_round_big_half_alt Let_def of_nat_power of_nat_numeral by auto

lemma divide_of_parts:
  fixes x :: rat
  assumes "x = q * d + r" and "d \<noteq> 0"
  shows "x / d = q + r / d"
  using assms by (simp add: add_divide_distrib)

lemma shift_round_big_floor:
  "sgnr neg * of_nat (shift_round_big c n neg Floor) = of_int \<lfloor>sgnr neg * (of_nat c / 10 ^ n)\<rfloor>"
proof -
  let ?d = "10 ^ n :: nat"
  have fl: "\<lfloor>(of_nat c :: rat) / 10 ^ n\<rfloor> = int (c div ?d)"
    by (metis floor_divide_of_nat_eq of_nat_div of_nat_numeral of_nat_power)
  show ?thesis
  proof (cases neg)
    case False
    then show ?thesis by (simp add: shift_round_big_floor_alt fl)
  next
    case True
    have c: "(of_nat c :: rat) = of_nat (c div ?d) * 10 ^ n + of_nat (c mod ?d)"
      using of_nat_div_mod [of c ?d] unfolding of_nat_power of_nat_numeral .
    have m: "(of_nat (c mod ?d) :: rat) < 10 ^ n"
      by (metis mod_less_divisor of_nat_less_iff of_nat_numeral of_nat_power zero_less_numeral zero_less_power)
    have eq: "(of_nat c :: rat) / 10 ^ n = of_nat (c div ?d) + of_nat (c mod ?d) / 10 ^ n"
      by (rule divide_of_parts [OF c]) simp
    have f: "0 \<le> (of_nat (c mod ?d) :: rat) / 10 ^ n" "(of_nat (c mod ?d) :: rat) / 10 ^ n < 1"
      using m by simp_all
    have "\<lfloor>- ((of_nat c :: rat) / 10 ^ n)\<rfloor> = - int (c div ?d + (if c mod ?d = 0 then 0 else 1))"
    proof (cases "c mod ?d = 0")
      case True
      then show ?thesis using eq by (simp add: floor_minus)
    next
      case False
      then have "0 < (of_nat (c mod ?d) :: rat) / 10 ^ n" by simp
      with False f eq show ?thesis by (intro floor_unique) simp_all
    qed
    with True show ?thesis by (simp add: shift_round_big_floor_alt Let_def)
  qed
qed

text \<open>The 128-bit routine computes what the unbounded one does.\<close>

lemma shift_round_u128_eq_big:
  assumes "c < u128_limit"
  shows "shift_round_u128 c n neg mode = shift_round_big c n neg mode"
proof (cases "n > 38")
  case True
  have "c < 5 * 10 ^ 38" using assms pow10_limits(4) by linarith
  also have "(5::nat) * 10 ^ 38 \<le> 5 * 10 ^ (n - 1)" using True by (intro mult_le_mono2 power_increasing) auto
  finally have half: "2 * c < 10 ^ n" using True by (cases n) auto
  then have "c div 10 ^ n = 0" "c mod 10 ^ n = c" by auto
  with half True show ?thesis
    by (cases mode)
      (simp_all add: shift_round_u128_def shift_round_big_half_alt shift_round_big_floor_alt Let_def)
next
  case False
  have "c mod 10 ^ n < 10 ^ n" by simp
  moreover have "(10::nat) ^ n \<le> 10 ^ 38" using False by (intro power_increasing) auto
  ultimately have "c mod 10 ^ n * 2 < 2 * 10 ^ 38" by linarith
  moreover have "2 * 10 ^ 38 < u128_limit" by (simp add: u128_limit_def)
  ultimately have chk: "checked_mul (c mod 10 ^ n) 2 = Some (c mod 10 ^ n * 2)" by simp
  from False show ?thesis
    by (cases mode)
      (simp_all add: shift_round_u128_def shift_round_big_half_alt shift_round_big_floor_alt Let_def chk
        mult.commute odd_iff_mod_2_eq_one)
qed

lemma ilog10_dec_digits: "ilog10 n + 1 = length (dec_digits n)"
proof (induction n rule: ilog10.induct)
  case (1 n)
  then show ?case by (cases "n < 10") (simp_all add: ilog10.simps [of n] dec_digits.simps [of n])
qed

lemma digits_u128_eq: "digits_u128 n = length (dec_digits n)"
  using ilog10_dec_digits [of n] by (auto simp: digits_u128_def dec_digits.simps)

lemma digits_big_eq: "digits_big n = length (dec_digits n)"
  by (auto simp: digits_big_def nat_to_string_def dec_digits.simps)

abbreviation ndigits :: "nat \<Rightarrow> nat" where
  "ndigits n \<equiv> length (dec_digits n)"

lemma ndigits_le_iff: "n \<noteq> 0 \<Longrightarrow> 0 < k \<Longrightarrow> ndigits n \<le> k \<longleftrightarrow> n < 10 ^ k"
proof
  assume k: "ndigits n \<le> k"
  have "n < 10 ^ ndigits n" by (rule dec_digits_upper)
  also have "\<dots> \<le> 10 ^ k" using k by (intro power_increasing) auto
  finally show "n < 10 ^ k" .
next
  assume "n \<noteq> 0" "n < 10 ^ k"
  then have "(10::nat) ^ (ndigits n - 1) < 10 ^ k" using dec_digits_lower [of n] by linarith
  then have "ndigits n - 1 < k" by (rule power_less_imp_less_exp [rotated]) simp
  then show "ndigits n \<le> k" by linarith
qed

lemma ndigits_pos: "0 < ndigits n"
  by simp

subsection \<open>The reference for arithmetic results\<close>

text \<open>
  The reference for every arithmetic result. \<open>round_prec v r\<close>: \<open>r\<close> is \<open>v\<close> rounded half-even to
  28 significant digits. \<open>round_scale r\<close>: \<open>r\<close> rounded half-even to 28 decimal places.
  \<open>rounds_to v y\<close>: the value the context gives for the exact result \<open>v\<close>.
\<close>

lemma pow10_nonneg: "0 \<le> e \<Longrightarrow> (10::rat) powi e = 10 ^ nat e"
  using pow10_nat [of "nat e"] by simp

definition digit_window :: "rat \<Rightarrow> int \<Rightarrow> bool" where
  "digit_window v e \<longleftrightarrow> 10 ^ 27 \<le> \<bar>v\<bar> / 10 powi e \<and> \<bar>v\<bar> / 10 powi e < 10 ^ 28"

definition round_prec :: "rat \<Rightarrow> rat \<Rightarrow> bool" where
  "round_prec v r \<longleftrightarrow>
     (\<exists>e. digit_window v e \<and> r = sgn v * of_int (rhe (\<bar>v\<bar> / 10 powi e)) * 10 powi e)"

definition round_scale :: "rat \<Rightarrow> rat" where
  "round_scale r = sgn r * of_int (rhe (\<bar>r\<bar> * 10 ^ 28)) / 10 ^ 28"

definition rounds_to :: "rat \<Rightarrow> rat \<Rightarrow> bool" where
  "rounds_to v y \<longleftrightarrow> v = 0 \<and> y = 0 \<or> v \<noteq> 0 \<and> (\<exists>r. round_prec v r \<and> y = round_scale r)"

lemma digit_window_unique:
  assumes "digit_window v e" "digit_window v e'"
  shows "e = e'"
proof -
  have "\<not> e < e'" if w: "digit_window v e" "digit_window v e'" for e e'
  proof
    assume "e < e'"
    then have "e' = e + 1 + int (nat (e' - e - 1))" by simp
    then have "(10::rat) powi e' = 10 powi e * 10 * 10 ^ nat (e' - e - 1)"
      by (metis pow10_add pow10_nat power_int_1_right)
    moreover have "1 \<le> (10::rat) ^ nat (e' - e - 1)" by simp
    ultimately have le: "10 powi e * 10 \<le> (10::rat) powi e'"
      by (metis mult.right_neutral mult_le_cancel_left_pos pow10_pos zero_less_mult_iff zero_less_numeral)
    have "10 ^ 27 * (10 powi e * 10) \<le> 10 ^ 27 * (10::rat) powi e'" using le by simp
    also have "\<dots> \<le> \<bar>v\<bar>" using w(2) by (simp add: digit_window_def field_simps)
    also have "\<dots> < 10 ^ 28 * 10 powi e" using w(1) by (simp add: digit_window_def field_simps)
    finally show False by simp
  qed
  from this [OF assms] this [OF assms(2,1)] show ?thesis by simp
qed

lemma round_prec_unique: "round_prec v r \<Longrightarrow> round_prec v r' \<Longrightarrow> r = r'"
  unfolding round_prec_def using digit_window_unique by blast

lemma digit_window_dval:
  assumes "10 ^ (n - 1) \<le> c" "c < 10 ^ n" "0 < n"
  shows "digit_window (dval neg c ex) (ex + int n - 28)"
proof -
  have p: "(10::rat) powi (ex + int n - 28) = 10 powi ex * 10 ^ n / 10 ^ 28"
    using pow10_add [of "ex + int n - 28" 28] pow10_add [of ex "int n"]
    by (simp add: field_simps)
  have q: "\<bar>dval neg c ex\<bar> / 10 powi (ex + int n - 28) = of_nat c * 10 ^ 28 / 10 ^ n"
    unfolding abs_dval p using pow10_pos [of ex] by simp
  have "(10::rat) ^ n = 10 * 10 ^ (n - 1)" using assms(3) by (cases n) auto
  moreover have "(10::rat) ^ (n - 1) \<le> of_nat c"
    using assms(1) by (metis of_nat_le_iff of_nat_numeral of_nat_power)
  moreover have "of_nat c < (10::rat) ^ n"
    using assms(2) by (metis of_nat_less_iff of_nat_numeral of_nat_power)
  ultimately show ?thesis unfolding digit_window_def q by (simp add: field_simps)
qed

lemma digit_window_ndigits:
  "c \<noteq> 0 \<Longrightarrow> digit_window (dval neg c ex) (ex + int (ndigits c) - 28)"
  by (intro digit_window_dval dec_digits_lower dec_digits_upper ndigits_pos)

lemma round_prec_dval:
  assumes "c \<noteq> 0"
  shows "round_prec (dval neg c ex)
    (sgnr neg * of_int (rhe (of_nat c * 10 powi (28 - int (ndigits c)))) * 10 powi (ex + int (ndigits c) - 28))"
proof -
  let ?e = "ex + int (ndigits c) - 28"
  have "(10::rat) powi ex = 10 powi ?e * 10 powi (28 - int (ndigits c))"
    using pow10_add [of ?e "28 - int (ndigits c)"] by simp
  then have "\<bar>dval neg c ex\<bar> / 10 powi ?e = of_nat c * 10 powi (28 - int (ndigits c))"
    using pow10_pos [of ?e] by (simp add: abs_dval field_simps)
  with digit_window_ndigits [OF assms, of neg ex] assms show ?thesis
    unfolding round_prec_def by (metis sgn_dval)
qed

text \<open>A value of at most 28 digits is its own rounding.\<close>

lemma round_prec_exact:
  assumes "c \<noteq> 0" "ndigits c \<le> 28"
  shows "round_prec (dval neg c ex) (dval neg c ex)"
proof -
  let ?k = "28 - ndigits c"
  have k: "28 - int (ndigits c) = int ?k" using assms(2) by simp
  have "of_nat c * (10::rat) powi (28 - int (ndigits c)) = of_nat (c * 10 ^ ?k)" unfolding k by simp
  then have rh: "rhe (of_nat c * (10::rat) powi (28 - int (ndigits c))) = int (c * 10 ^ ?k)"
    by (metis rhe_of_nat)
  have "sgnr neg * of_int (int (c * 10 ^ ?k)) * 10 powi (ex + int (ndigits c) - 28)
      = dval neg (c * 10 ^ ?k) (ex + int (ndigits c) - 28)"
    by (simp add: dval_def)
  also have "\<dots> = dval neg c ex" using assms(2) by (simp add: dval_shift)
  finally show ?thesis using round_prec_dval [OF assms(1), of neg ex] unfolding rh by simp
qed

lemma rounds_to_unique: "rounds_to v y \<Longrightarrow> rounds_to v y' \<Longrightarrow> y = y'"
  unfolding rounds_to_def using round_prec_unique by blast

lemma rounds_to_dvalI:
  "c \<noteq> 0 \<Longrightarrow> round_prec (dval neg c ex) r \<Longrightarrow> rounds_to (dval neg c ex) (round_scale r)"
  by (auto simp: rounds_to_def)

lemma round_scale_dval:
  assumes "ex < - 28"
  shows "round_scale (dval neg c ex) = dval neg (nat (rhe (of_nat c / 10 ^ nat (- 28 - ex)))) (- 28)"
proof -
  have "(10::rat) powi (- 28 - ex) = 10 ^ nat (- 28 - ex)"
    using assms by (simp add: pow10_nonneg)
  moreover have "(10::rat) powi ex * 10 powi (- 28 - ex) = 1 / 10 ^ 28"
    using pow10_add [of ex "- 28 - ex"] pow10_neg_nat [of 28] by simp
  ultimately have "(10::rat) powi ex * 10 ^ 28 = 1 / 10 ^ nat (- 28 - ex)"
    by (simp add: field_simps)
  then have v: "\<bar>dval neg c ex\<bar> * 10 ^ 28 = of_nat c / 10 ^ nat (- 28 - ex)"
    by (simp add: abs_dval mult.assoc)
  have p: "(10::rat) powi (- 28) = 1 / 10 ^ 28" using pow10_neg_nat [of 28] by simp
  show ?thesis
  proof (cases "c = 0")
    case True
    then show ?thesis using rhe_of_nat [of 0] by (simp add: round_scale_def dval_def)
  next
    case False
    then have "sgn (dval neg c ex) = sgnr neg" by (rule sgn_dval)
    moreover have "0 \<le> rhe (of_nat c / 10 ^ nat (- 28 - ex))" by (rule rhe_nonneg) simp
    ultimately show ?thesis unfolding round_scale_def v by (simp add: dval_def p)
  qed
qed

lemma round_scale_exact:
  assumes "- 28 \<le> ex"
  shows "round_scale (dval neg c ex) = dval neg c ex"
proof (cases "c = 0")
  case True
  then show ?thesis by (simp add: round_scale_def)
next
  case False
  have "(10::rat) powi ex = 10 powi (ex + 28) * 10 powi (- 28)"
    using pow10_add [of "ex + 28" "- 28"] by simp
  then have "(10::rat) powi ex = 10 ^ nat (ex + 28) / 10 ^ 28"
    using assms pow10_neg_nat [of 28] by (simp add: pow10_nonneg)
  then have v: "\<bar>dval neg c ex\<bar> * 10 ^ 28 = of_nat (c * 10 ^ nat (ex + 28))"
    by (simp add: abs_dval)
  then have "rhe (\<bar>dval neg c ex\<bar> * 10 ^ 28) = int (c * 10 ^ nat (ex + 28))"
    by (metis rhe_of_nat)
  then have "of_int (rhe (\<bar>dval neg c ex\<bar> * 10 ^ 28)) = \<bar>dval neg c ex\<bar> * 10 ^ 28"
    using v by simp
  then show ?thesis by (simp add: round_scale_def sgn_mult_abs)
qed

end
