(* ===== verification/Money_Ops.thy ===== *)
theory Money_Ops
  imports Money_Value
begin

section \<open>The arithmetic computes correctly rounded results\<close>

text \<open>
  Every arithmetic operation of \<open>money.rs\<close> answers for the exact result of its operands: the
  canonical form of the correctly rounded value, or \<open>Overflow\<close> when that value is outside the
  bound or would vanish (\<open>computes\<close>). The 128-bit fast paths and the unbounded paths agree,
  the sticky digit of the division makes its rounding that of the exact quotient, comparison
  is by value, and the canonical text is read back as the amount it spells.
\<close>

subsection \<open>The two finishing routines\<close>

lemma prec_step:
  fixes c :: nat and ex :: int and neg :: bool
  defines "d \<equiv> ndigits c - 28"
  defines "r \<equiv> shift_round_big c d neg HalfEven"
  assumes c: "28 < ndigits c"
    and st: "(r', e') = (if 28 < ndigits r then (r div 10, ex + int d + 1) else (r, ex + int d))"
  shows "r' \<noteq> 0" and "ndigits r' \<le> 28" and "round_prec (dval neg c ex) (dval neg r' e')"
proof -
  have c0: "c \<noteq> 0" using c dec_digits.simps [of 0] by (intro notI) simp
  have nd: "ndigits c = d + 28" using c by (simp add: d_def)
  have ri: "int r = rhe (of_nat c / 10 ^ d)" by (simp add: r_def shift_round_big_half)
  have "10 ^ (d + 27) \<le> c" using dec_digits_lower [OF c0] nd by (simp add: add.commute)
  then have "of_nat (10 ^ (d + 27)) \<le> (of_nat c :: rat)" by (simp only: of_nat_le_iff)
  then have "of_int (10 ^ 27) \<le> (of_nat c :: rat) / 10 ^ d"
    by (simp add: power_add field_simps)
  then have "10 ^ 27 \<le> int r" unfolding ri by (rule rhe_mono_int)
  then have lo: "10 ^ 27 \<le> r" by simp
  have "c < 10 ^ (d + 28)" using dec_digits_upper [of c] nd by simp
  then have "(of_nat c :: rat) < of_nat (10 ^ (d + 28))" by (simp only: of_nat_less_iff)
  then have "(of_nat c :: rat) / 10 ^ d \<le> of_int (10 ^ 28)"
    by (simp add: power_add field_simps)
  then have "int r \<le> 10 ^ 28" unfolding ri by (rule rhe_le_int)
  then have hi: "r \<le> 10 ^ 28" by simp
  have "28 - int (ndigits c) = - int d" using nd by simp
  then have "of_nat c * (10::rat) powi (28 - int (ndigits c)) = of_nat c / 10 ^ d"
    by (simp add: pow10_neg_nat)
  then have "round_prec (dval neg c ex) (sgnr neg * of_int (int r) * 10 powi (ex + int d))"
    using round_prec_dval [OF c0, of neg ex] nd by (simp add: ri)
  then have rp: "round_prec (dval neg c ex) (dval neg r (ex + int d))" by (simp add: dval_def)
  have "r' \<noteq> 0 \<and> ndigits r' \<le> 28 \<and> round_prec (dval neg c ex) (dval neg r' e')"
  proof (cases "28 < ndigits r")
    case True
    then have "\<not> r < 10 ^ 28" using ndigits_le_iff [of r 28] lo by simp
    with hi have r: "r = 10 ^ 28" by simp
    with True st have r': "r' = 10 ^ 27" "e' = ex + int d + 1" by auto
    have "dval neg r' e' = dval neg r (ex + int d)"
      using dval_shift [of neg "10 ^ 27" 1 "ex + int d"] r r' by (simp add: add.assoc)
    moreover have "ndigits r' \<le> 28" using ndigits_le_iff [of r' 28] r' by simp
    ultimately show ?thesis using rp r' by simp
  next
    case False
    with st rp lo show ?thesis by auto
  qed
  then show "r' \<noteq> 0" and "ndigits r' \<le> 28" and "round_prec (dval neg c ex) (dval neg r' e')" by auto
qed

text \<open>The last step of \<open>finish_u128\<close>: rounding to 28 places and the bound.\<close>

definition scale_step :: "bool \<Rightarrow> nat \<Rightarrow> int \<Rightarrow> money dec_result" where
  "scale_step neg c1 e1 =
     and_then
       (if e1 < - int MAX_SCALE then
          let r = shift_round_u128 c1 (nat (- int MAX_SCALE - e1)) neg HalfEven
          in if r = 0 then Err Overflow else Ok (r, - int MAX_SCALE)
        else Ok (c1, e1))
       (\<lambda>(coef2, exp2). build neg coef2 exp2)"

lemma finish_u128_scale_step:
  "finish_u128 neg c ex =
     (if c = 0 then Ok ZERO
      else if ndigits c > 28 then
        let d = ndigits c - 28; r = shift_round_u128 c d neg HalfEven in
        if ndigits r > 28 then scale_step neg (r div 10) (ex + int d + 1)
        else scale_step neg r (ex + int d)
      else scale_step neg c ex)"
  by (simp add: finish_u128_def scale_step_def Let_def PREC_def digits_u128_eq)

lemma scale_step_iff:
  assumes "c \<noteq> 0" "c < u128_limit"
  shows "scale_step neg c ex = Ok m \<longleftrightarrow>
    canonical m \<and> mval m = round_scale (dval neg c ex) \<and> mval m \<noteq> 0"
proof (cases "ex < - 28")
  case True
  let ?d = "nat (- 28 - ex)"
  let ?r = "shift_round_u128 c ?d neg HalfEven"
  have "int ?r = rhe (of_nat c / 10 ^ ?d)"
    using assms(2) by (simp add: shift_round_u128_eq_big shift_round_big_half)
  then have "round_scale (dval neg c ex) = dval neg ?r (- 28)"
    using round_scale_dval [OF True, of neg c] by (metis nat_int)
  with True show ?thesis by (auto simp: scale_step_def MAX_SCALE_def Let_def build_iff)
next
  case False
  then have "round_scale (dval neg c ex) = dval neg c ex" by (simp add: round_scale_exact)
  with False assms(1) show ?thesis by (auto simp: scale_step_def MAX_SCALE_def build_iff)
qed

lemma scale_step_Err: "scale_step neg c ex = Err x \<Longrightarrow> x = Overflow"
  by (auto simp: scale_step_def and_then_Err_iff Let_def dest!: build_Err split: if_splits)

lemma shift_round_u128_limit: "c < u128_limit \<Longrightarrow> 0 < n \<Longrightarrow> shift_round_u128 c n neg HalfEven < u128_limit"
proof -
  assume c: "c < u128_limit" "0 < n"
  have "(10::nat) ^ 1 \<le> 10 ^ n" using c by (intro power_increasing) auto
  then have "c div 10 ^ n \<le> c div 10" by (intro div_le_mono2) auto
  moreover have "shift_round_u128 c n neg HalfEven \<le> c div 10 ^ n + 1"
    using c by (simp add: shift_round_u128_eq_big shift_round_big_half_alt Let_def)
  moreover have "c div 10 + 1 < u128_limit" using c by (simp add: u128_limit_def)
  ultimately show ?thesis by linarith
qed

lemma finish_u128_iff:
  assumes "c < u128_limit"
  shows "finish_u128 neg c ex = Ok m \<longleftrightarrow>
    canonical m \<and> rounds_to (dval neg c ex) (mval m) \<and> (mval m = 0 \<longrightarrow> c = 0)"
proof (cases "c = 0")
  case True
  then show ?thesis by (auto simp: finish_u128_def rounds_to_def canonical_zero)
next
  case c0: False
  have key: "finish_u128 neg c ex = Ok m \<longleftrightarrow>
    canonical m \<and> rounds_to (dval neg c ex) (mval m) \<and> (mval m = 0 \<longrightarrow> c = 0)"
    if eq: "finish_u128 neg c ex = scale_step neg c1 e1" and c1: "c1 \<noteq> 0" "c1 < u128_limit"
      and rp: "round_prec (dval neg c ex) (dval neg c1 e1)" for c1 e1
  proof -
    have "rounds_to (dval neg c ex) y \<longleftrightarrow> y = round_scale (dval neg c1 e1)" for y
      using rounds_to_dvalI [OF c0 rp] rounds_to_unique by blast
    then show ?thesis unfolding eq scale_step_iff [OF c1] using c0 by auto
  qed
  show ?thesis
  proof (cases "28 < ndigits c")
    case True
    let ?d = "ndigits c - 28"
    let ?r = "shift_round_u128 c ?d neg HalfEven"
    have r: "?r = shift_round_big c ?d neg HalfEven" using assms by (rule shift_round_u128_eq_big)
    obtain r' e' where st: "(r', e') = (if 28 < ndigits ?r then (?r div 10, ex + int ?d + 1) else (?r, ex + int ?d))"
      by (metis surj_pair)
    note ps = prec_step [OF True st [unfolded r]]
    have eq: "finish_u128 neg c ex = scale_step neg r' e'"
      using c0 True st by (auto simp: finish_u128_scale_step Let_def split: if_splits)
    have "?r < u128_limit" using assms True by (intro shift_round_u128_limit) auto
    then have "r' < u128_limit" using st by (auto split: if_splits)
    with eq ps key show ?thesis by blast
  next
    case False
    then have "finish_u128 neg c ex = scale_step neg c ex" using c0 by (simp add: finish_u128_scale_step)
    with False c0 assms key round_prec_exact [of c neg ex] show ?thesis by simp
  qed
qed

lemma finish_u128_Err: "finish_u128 neg c ex = Err x \<Longrightarrow> x = Overflow"
  by (auto simp: finish_u128_scale_step Let_def dest!: scale_step_Err split: if_splits)

lemma ndigits_28_u128: "ndigits c \<le> 28 \<Longrightarrow> c < u128_limit"
  using dec_digits_upper [of c] power_increasing [of "ndigits c" 28 "10::nat"]
  by (simp add: u128_limit_def)

lemma round_prec_rounds_to:
  assumes "c \<noteq> 0" "round_prec (dval neg c ex) (dval neg r e)" "r \<noteq> 0" "ndigits r \<le> 28"
  shows "rounds_to (dval neg r e) y \<longleftrightarrow> rounds_to (dval neg c ex) y"
  using assms rounds_to_dvalI round_prec_exact rounds_to_unique by metis

lemma finish_big_reduce:
  assumes c0: "c \<noteq> 0"
  shows "\<exists>r e. r \<noteq> 0 \<and> ndigits r \<le> 28 \<and> finish_big neg c ex = finish_u128 neg r e
    \<and> round_prec (dval neg c ex) (dval neg r e)"
proof (cases "28 < ndigits c")
  case True
  let ?d = "ndigits c - 28"
  let ?r = "shift_round_big c ?d neg HalfEven"
  obtain r' e' where st: "(r', e') = (if 28 < ndigits ?r then (?r div 10, ex + int ?d + 1) else (?r, ex + int ?d))"
    by (metis surj_pair)
  note ps = prec_step [OF True st]
  have lim: "r' < u128_limit" using ps(2) by (rule ndigits_28_u128)
  have "finish_big neg c ex = finish_u128 neg r' e'"
    using c0 True st lim
    by (auto simp: finish_big_def Let_def PREC_def digits_big_eq to_u128_def split: if_splits)
  with ps show ?thesis by blast
next
  case False
  then have "c < u128_limit" by (intro ndigits_28_u128) simp
  then have "finish_big neg c ex = finish_u128 neg c ex"
    using c0 False by (simp add: finish_big_def PREC_def digits_big_eq to_u128_def)
  with False c0 round_prec_exact [of c neg ex] show ?thesis by (metis not_less)
qed

lemma finish_big_iff:
  "finish_big neg c ex = Ok m \<longleftrightarrow>
    canonical m \<and> rounds_to (dval neg c ex) (mval m) \<and> (mval m = 0 \<longrightarrow> c = 0)"
proof (cases "c = 0")
  case True
  then show ?thesis by (auto simp: finish_big_def rounds_to_def canonical_zero)
next
  case c0: False
  then obtain r e where r: "r \<noteq> 0" "ndigits r \<le> 28" "finish_big neg c ex = finish_u128 neg r e"
    and rp: "round_prec (dval neg c ex) (dval neg r e)"
    using finish_big_reduce by blast
  from r(2) have "r < u128_limit" by (rule ndigits_28_u128)
  with r c0 finish_u128_iff round_prec_rounds_to [OF c0 rp r(1,2)] show ?thesis by simp
qed

lemma finish_big_Err: "finish_big neg c ex = Err x \<Longrightarrow> x = Overflow"
proof (cases "c = 0")
  case False
  assume "finish_big neg c ex = Err x"
  with finish_big_reduce [OF False, of neg ex] show ?thesis by (metis finish_u128_Err)
qed (simp add: finish_big_def)

text \<open>The 128-bit path and the unbounded path give one answer.\<close>

lemma finish_u128_eq_big:
  assumes "c < u128_limit"
  shows "finish_u128 neg c ex = finish_big neg c ex"
proof (cases "finish_u128 neg c ex")
  case (Ok m)
  then show ?thesis using finish_u128_iff [OF assms] finish_big_iff by metis
next
  case (Err x)
  then show ?thesis
    using finish_u128_iff [OF assms] finish_big_iff finish_u128_Err finish_big_Err
    by (metis result.exhaust)
qed

subsection \<open>What an operation computes\<close>

text \<open>
  \<open>computes r v\<close>: the operation \<open>r\<close> answers for the exact result \<open>v\<close>: the canonical form of the
  value \<open>v\<close> rounds to, or \<open>Overflow\<close> when that value is outside the bound or vanishes.
\<close>

definition fits :: "rat \<Rightarrow> bool" where
  "fits v \<longleftrightarrow> (\<exists>m. canonical m \<and> mval m = v)"

definition computes :: "money dec_result \<Rightarrow> rat \<Rightarrow> bool" where
  "computes r v \<longleftrightarrow>
     (\<forall>m. r = Ok m \<longleftrightarrow> canonical m \<and> rounds_to v (mval m) \<and> (mval m = 0 \<longrightarrow> v = 0))
     \<and> (\<forall>x. r = Err x \<longrightarrow> x = Overflow)"

lemma computes_finish_big: "computes (finish_big neg c ex) (dval neg c ex)"
  by (simp add: computes_def finish_big_iff) (metis finish_big_Err)

lemma computes_finish_u128: "c < u128_limit \<Longrightarrow> computes (finish_u128 neg c ex) (dval neg c ex)"
  by (simp add: finish_u128_eq_big computes_finish_big)

lemma computes_Ok: "computes r v \<Longrightarrow> r = Ok m \<Longrightarrow> canonical m \<and> rounds_to v (mval m)"
  unfolding computes_def by blast

lemma computes_det: "computes r v \<Longrightarrow> computes r' v \<Longrightarrow> r = r'"
  by (cases r; cases r') (auto simp: computes_def)

text \<open>Values the context holds as they are.\<close>

definition exact_value :: "rat \<Rightarrow> bool" where
  "exact_value v \<longleftrightarrow> fits v \<and> (\<exists>c ex. c < 10 ^ 28 \<and> \<bar>v\<bar> = of_nat c * 10 powi ex)"

lemma sgn_dval_cases: "\<exists>neg. v = (dval neg c ex :: rat)" if "\<bar>v\<bar> = of_nat c * 10 powi ex"
proof (cases "0 \<le> v")
  case True
  then have "v = dval False c ex" using that by (simp add: dval_def)
  then show ?thesis by blast
next
  case False
  then have "v = dval True c ex" using that by (simp add: dval_def)
  then show ?thesis by blast
qed

lemma fits_dval: "fits v \<Longrightarrow> \<exists>neg c ex. v = dval neg c ex \<and> - 28 \<le> ex"
proof -
  assume "fits v"
  then obtain m where m: "canonical m" "v = mval m" by (auto simp: fits_def)
  then have "v = dval (neg_bit m) (mantissa m) (- int (scale m)) \<and> - 28 \<le> - int (scale m)"
    by (simp add: mval_def canonical_def MAX_SCALE_def)
  then show ?thesis by blast
qed

lemma rounds_to_exact:
  assumes "exact_value v"
  shows "rounds_to v v"
proof (cases "v = 0")
  case False
  from assms obtain c ex where c: "c < 10 ^ 28" "\<bar>v\<bar> = of_nat c * 10 powi ex"
    by (auto simp: exact_value_def)
  then obtain neg where v: "v = dval neg c ex" using sgn_dval_cases by blast
  with False have c0: "c \<noteq> 0" by auto
  then have "ndigits c \<le> 28" using c(1) by (subst ndigits_le_iff) auto
  then have rp: "round_prec v v" using c0 v by (simp add: round_prec_exact)
  from assms have "fits v" by (simp add: exact_value_def)
  then obtain neg' c' ex' where "v = dval neg' c' ex'" "- 28 \<le> ex'" using fits_dval by blast
  then have "round_scale v = v" by (simp add: round_scale_exact)
  with rp False show ?thesis unfolding rounds_to_def by (metis)
qed (simp add: rounds_to_def)

lemma computes_exact:
  assumes "computes r v" "exact_value v"
  shows "\<exists>m. r = Ok m \<and> canonical m \<and> mval m = v"
proof -
  from assms(2) obtain m where m: "canonical m" "mval m = v" by (auto simp: exact_value_def fits_def)
  with assms(1) rounds_to_exact [OF assms(2)] have "r = Ok m" by (auto simp: computes_def)
  with m show ?thesis by blast
qed

lemma computes_exact_eq:
  assumes "computes r v" "exact_value v" "r = Ok m"
  shows "canonical m \<and> mval m = v"
  using computes_exact [OF assms(1,2)] assms(3) by auto

text \<open>Whole amounts below \<open>10\<^sup>2\<^sup>8\<close> are exact.\<close>

lemma exact_of_int: "\<bar>n\<bar> < 10 ^ 28 \<Longrightarrow> exact_value (of_int n)"
proof -
  assume n: "\<bar>n\<bar> < 10 ^ 28"
  let ?m = "\<lparr>neg_bit = n < 0, mantissa = nat \<bar>n\<bar>, scale = 0\<rparr>"
  have a: "\<bar>of_int n :: rat\<bar> = of_nat (nat \<bar>n\<bar>) * 10 powi 0" by simp
  have lt: "nat \<bar>n\<bar> < 10 ^ 28" using n by simp
  then have "canonical ?m" using pow10_limits(5) by (auto simp: canonical_def)
  moreover have "mval ?m = of_int n" by (simp add: mval_def dval_def sgnr_def)
  ultimately show ?thesis using a lt unfolding exact_value_def fits_def by blast
qed

subsection \<open>The operations\<close>

lemma mval_parts: "parts x = (neg, m, e) \<Longrightarrow> mval x = dval neg m e"
  by (auto simp: parts_def mval_def dval_def)

lemma parts_bounds: "canonical x \<Longrightarrow> parts x = (neg, m, e) \<Longrightarrow>
    m < MANTISSA_LIMIT \<and> - 28 \<le> e \<and> e \<le> 0 \<and> (neg \<longrightarrow> m \<noteq> 0)"
  by (auto simp: parts_def canonical_def MAX_SCALE_def)

lemma mantissa_u128: "m < MANTISSA_LIMIT \<Longrightarrow> m < u128_limit"
  using pow10_limits(2) by linarith

lemma dval_neg: "dval (\<not> neg) c e = - dval neg c e"
  by (simp add: dval_def sgnr_def)

lemma computes_neg: "canonical x \<Longrightarrow> computes (money_neg x) (- mval x)"
proof -
  assume x: "canonical x"
  obtain neg m e where p: "parts x = (neg, m, e)" by (metis surj_pair)
  have "dval (\<not> neg \<and> m \<noteq> 0) m e = - dval neg m e"
    by (cases "m = 0") (auto simp: dval_neg)
  with p parts_bounds [OF x p] mval_parts [OF p] show ?thesis
    using computes_finish_u128 [OF mantissa_u128, of m "\<not> neg \<and> m \<noteq> 0" e]
    by (simp add: money_neg_def)
qed

lemma computes_abs: "canonical x \<Longrightarrow> computes (money_abs x) \<bar>mval x\<bar>"
proof -
  assume x: "canonical x"
  obtain neg m e where p: "parts x = (neg, m, e)" by (metis surj_pair)
  have "dval False m e = \<bar>dval neg m e\<bar>" by (simp add: abs_dval) (simp add: dval_def)
  with p parts_bounds [OF x p] mval_parts [OF p] show ?thesis
    using computes_finish_u128 [OF mantissa_u128, of m False e]
    by (simp add: money_abs_def)
qed

lemma dval_add:
  assumes "e \<le> ea" "e \<le> eb"
  shows "dval na ma ea + dval nb mb eb =
    (let xc = ma * 10 ^ nat (ea - e); yc = mb * 10 ^ nat (eb - e) in
     if na = nb then dval na (xc + yc) e
     else if yc \<le> xc then dval na (xc - yc) e else dval nb (yc - xc) e)"
proof -
  have a: "dval na ma ea = dval na (ma * 10 ^ nat (ea - e)) e"
    using assms(1) by (simp add: dval_shift)
  have b: "dval nb mb eb = dval nb (mb * 10 ^ nat (eb - e)) e"
    using assms(2) by (simp add: dval_shift)
  show ?thesis
    unfolding a b Let_def by (auto simp: dval_def sgnr_def of_nat_diff algebra_simps)
qed

lemma dval_flag: "dval (neg \<and> c \<noteq> 0) c e = dval neg c e"
  by (cases "c = 0") auto

lemma computes_add_big:
  assumes "canonical a" "canonical b"
  shows "computes (add_big a b negate_b) (if negate_b then mval a - mval b else mval a + mval b)"
proof -
  obtain na ma ea where pa: "parts a = (na, ma, ea)" by (metis surj_pair)
  obtain nb mb eb where pb: "parts b = (nb, mb, eb)" by (metis surj_pair)
  define nb' where nb': "nb' = (nb \<noteq> (negate_b \<and> mb \<noteq> 0))"
  let ?e = "min ea eb"
  let ?xc = "ma * 10 ^ nat (ea - ?e)" and ?yc = "mb * 10 ^ nat (eb - ?e)"
  have vb: "dval nb' mb eb = (if negate_b then - mval b else mval b)"
    using mval_parts [OF pb] by (cases "mb = 0") (auto simp: dval_neg nb')
  have v: "(if negate_b then mval a - mval b else mval a + mval b) = dval na ma ea + dval nb' mb eb"
    unfolding vb using mval_parts [OF pa] by simp
  have "add_big a b negate_b =
     (if na = nb' then finish_big na (?xc + ?yc) ?e
      else if ?xc = ?yc then finish_big False 0 ?e
      else if ?xc > ?yc then finish_big na (?xc - ?yc) ?e
      else finish_big nb' (?yc - ?xc) ?e)"
    unfolding add_big_def pa pb Let_def prod.case nb' [symmetric] by simp
  then show ?thesis
    unfolding v using dval_add [of ?e ea eb na ma nb' mb] computes_finish_big
    by (simp add: Let_def) (metis dval_0)
qed

lemma computes_add_signed:
  assumes "canonical a" "canonical b"
  shows "computes (add_signed a b negate_b) (if negate_b then mval a - mval b else mval a + mval b)"
    (is "computes _ ?v")
proof -
  obtain na ma ea where pa: "parts a = (na, ma, ea)" by (metis surj_pair)
  obtain nb mb eb where pb: "parts b = (nb, mb, eb)" by (metis surj_pair)
  define nb' where nb': "nb' = (nb \<noteq> (negate_b \<and> mb \<noteq> 0))"
  let ?e = "min ea eb"
  let ?xc = "ma * 10 ^ nat (ea - ?e)" and ?yc = "mb * 10 ^ nat (eb - ?e)"
  have v: "?v = dval na ma ea + dval nb' mb eb"
    using mval_parts [OF pa] mval_parts [OF pb] by (cases "mb = 0") (auto simp: dval_neg nb')
  note big = computes_add_big [OF assms, of negate_b]
  note sum = dval_add [where e = "?e" and ea = ea and eb = eb and na = na and ma = ma and nb = nb' and mb = mb]
  show ?thesis
  proof (cases "(Option.bind (POW10_get (ea - ?e)) (checked_mul ma),
                 Option.bind (POW10_get (eb - ?e)) (checked_mul mb))")
    case (Pair fa fb)
    show ?thesis
    proof (cases "fa = None \<or> fb = None")
      case True
      with Pair have "add_signed a b negate_b = add_big a b negate_b"
        unfolding add_signed_def pa pb Let_def prod.case nb' [symmetric] by (auto split: option.split)
      with big show ?thesis by simp
    next
      case False
      with Pair have fa: "fa = Some ?xc" "?xc < u128_limit" and fb: "fb = Some ?yc" "?yc < u128_limit"
        by (auto simp: POW10_get_def checked_mul_def bind_eq_Some_conv split: if_splits)
      have le: "?xc - ?yc < u128_limit" "?yc - ?xc < u128_limit" using fa fb by auto
      have red: "add_signed a b negate_b =
          (if na = nb' then (if ?xc + ?yc < u128_limit then finish_u128 (na \<and> ?xc + ?yc \<noteq> 0) (?xc + ?yc) ?e
                             else add_big a b negate_b)
           else if ?xc \<ge> ?yc then finish_u128 (na \<and> ?xc - ?yc \<noteq> 0) (?xc - ?yc) ?e
           else finish_u128 (nb' \<and> ?yc - ?xc \<noteq> 0) (?yc - ?xc) ?e)"
        using Pair fa fb unfolding add_signed_def pa pb Let_def prod.case nb' [symmetric] checked_add_def by simp
      have fin: "computes (finish_u128 (n \<and> c \<noteq> 0) c ?e) (dval n c ?e)" if "c < u128_limit" for n c
        using computes_finish_u128 [OF that, of "n \<and> c \<noteq> 0" ?e] by (simp only: dval_flag)
      have val: "?v = (if na = nb' then dval na (?xc + ?yc) ?e
          else if ?yc \<le> ?xc then dval na (?xc - ?yc) ?e else dval nb' (?yc - ?xc) ?e)"
        unfolding v sum [OF min.cobounded1 min.cobounded2] Let_def by (rule refl)
      show ?thesis
      proof (cases "na = nb'")
        case True
        have v': "?v = dval na (?xc + ?yc) ?e" using val unfolding if_P [OF True] .
        show ?thesis
        proof (cases "?xc + ?yc < u128_limit")
          case t: True
          show ?thesis unfolding red v' if_P [OF True] if_P [OF t] by (rule fin [OF t])
        next
          case f: False
          show ?thesis unfolding red if_P [OF True] if_not_P [OF f] by (rule big)
        qed
      next
        case False
        show ?thesis
          unfolding val red if_not_P [OF False]
          by (cases "?yc \<le> ?xc") (simp_all only: if_True if_False fin [OF le(1)] fin [OF le(2)])
      qed
    qed
  qed
qed

lemma computes_add: "canonical a \<Longrightarrow> canonical b \<Longrightarrow> computes (money_add a b) (mval a + mval b)"
  using computes_add_signed [of a b False] by (simp add: money_add_def)

lemma computes_sub: "canonical a \<Longrightarrow> canonical b \<Longrightarrow> computes (money_sub a b) (mval a - mval b)"
  using computes_add_signed [of a b True] by (simp add: money_sub_def)

lemma dval_mult: "dval na ma ea * dval nb mb eb = dval (na \<noteq> nb) (ma * mb) (ea + eb)"
  unfolding dval_def sgnr_xor pow10_add by simp

lemma computes_mul:
  assumes "canonical a" "canonical b"
  shows "computes (money_mul a b) (mval a * mval b)"
proof -
  obtain na ma ea where pa: "parts a = (na, ma, ea)" by (metis surj_pair)
  obtain nb mb eb where pb: "parts b = (nb, mb, eb)" by (metis surj_pair)
  have v: "mval a * mval b = dval (na \<noteq> nb) (ma * mb) (ea + eb)"
    unfolding mval_parts [OF pa] mval_parts [OF pb] by (rule dval_mult)
  have red: "money_mul a b =
      (if ma * mb < u128_limit then finish_u128 (na \<noteq> nb) (ma * mb) (ea + eb)
       else finish_big (na \<noteq> nb) (ma * mb) (ea + eb))"
    unfolding money_mul_def pa pb Let_def prod.case checked_mul_def by simp
  show ?thesis
    unfolding v red
    by (cases "ma * mb < u128_limit")
      (simp_all only: if_True if_False computes_finish_u128 computes_finish_big)
qed

text \<open>
  Division: the quotient is cut after 29 or 30 digits and a sticky digit is added, so that the
  final rounding is that of the exact quotient.
\<close>

lemma mod5_succ: "x mod 5 = 0 \<Longrightarrow> y mod 5 = 0 \<Longrightarrow> x + 1 \<noteq> (y::nat)"
  by presburger

lemma sticky_round:
  fixes Q :: rat
  assumes c: "int c = \<lfloor>Q\<rfloor>" and inexact: "Q \<noteq> of_nat c" and k: "0 < k"
    and c': "c' = (if c mod 5 = 0 then c + 1 else c)"
  shows "rhe (of_nat c' / 10 ^ k) = rhe (Q / 10 ^ k)"
proof -
  let ?D = "10 ^ k :: nat" and ?H = "5 * 10 ^ (k - 1) :: nat"
  have D: "?D = 2 * ?H" using k by (cases k) auto
  have D5: "?D mod 5 = 0" "?H mod 5 = 0" using k by (cases k, auto simp: mod_mult_left_eq)
  define q r where "q = c div ?D" and "r = c mod ?D"
  have cqr: "c = q * ?D + r" "r < ?D"
    unfolding q_def r_def by (rule div_mult_mod_eq [symmetric]) simp
  have c5: "c mod 5 = r mod 5" using cqr(1) D5(1) by (metis mod_add_left_eq mod_mult_right_eq mult_0_right add_0 mod_0)
  define r' where "r' = (if r mod 5 = 0 then r + 1 else r)"
  have r'lt: "r' < ?D"
  proof (cases "r mod 5 = 0")
    case True
    then have "r + 1 \<noteq> ?D" using D5(1) by (rule mod5_succ)
    then show ?thesis using cqr(2) True by (simp add: r'_def)
  qed (use cqr(2) r'_def in simp)
  have c'q: "c' = q * ?D + r'" using c' c5 cqr(1) by (simp add: r'_def)
  have c'div: "c' div ?D = q" "c' mod ?D = r'" using c'q r'lt by auto
  have half: "2 * r' < ?D \<longleftrightarrow> r < ?H" and notie: "2 * r' \<noteq> ?D"
  proof -
    have "r' \<noteq> ?H" using D5(2) mod5_succ [of r ?H] by (auto simp: r'_def)
    then show "2 * r' \<noteq> ?D" using D by simp
    have "r' < ?H \<longleftrightarrow> r < ?H"
    proof
      assume "r < ?H"
      moreover have "r + 1 \<noteq> ?H" if "r mod 5 = 0" using that D5(2) by (rule mod5_succ)
      ultimately show "r' < ?H" by (auto simp: r'_def)
    qed (auto simp: r'_def split: if_splits)
    then show "2 * r' < ?D \<longleftrightarrow> r < ?H" using D by simp
  qed
  have lhs: "rhe (of_nat c' / 10 ^ k) = int (if r < ?H then q else q + 1)"
    using rhe_div [of ?D c'] half notie c'div by auto
  define f where "f = Q - of_nat c"
  have f: "0 < f" "f < 1" and Q: "Q = of_nat c + f"
    using c inexact by (auto simp: f_def) linarith+
  have Qq: "Q / 10 ^ k = of_nat q + (of_nat r + f) / 10 ^ k"
  proof (rule divide_of_parts)
    show "Q = of_nat q * 10 ^ k + (of_nat r + f)" unfolding Q cqr(1) by simp
  qed simp
  have rD: "of_nat r + 1 \<le> (10 ^ k :: rat)"
  proof -
    have "of_nat (r + 1) \<le> (of_nat ?D :: rat)" using cqr(2) by (simp only: of_nat_le_iff)
    then show ?thesis by simp
  qed
  have fl: "\<lfloor>Q / 10 ^ k\<rfloor> = int q"
    unfolding Qq using f rD by (intro floor_unique) (simp_all add: field_simps)
  have H: "(10 ^ k :: rat) = 2 * of_nat ?H" using D by (metis of_nat_mult of_nat_numeral of_nat_power)
  have fr: "Q / 10 ^ k - of_int (int q) = (of_nat r + f) / 10 ^ k" unfolding Qq by simp
  have "r < ?H \<Longrightarrow> of_nat r + 1 \<le> (of_nat ?H :: rat)"
    by (metis Suc_eq_plus1 Suc_leI of_nat_1 of_nat_add of_nat_le_iff)
  then have lt: "r < ?H \<Longrightarrow> (of_nat r + f) / 10 ^ k < 1 / 2"
    unfolding H using f by (simp add: field_simps)
  have "\<not> r < ?H \<Longrightarrow> (of_nat ?H :: rat) \<le> of_nat r" by (simp only: of_nat_le_iff not_less)
  then have gt: "\<not> r < ?H \<Longrightarrow> (of_nat r + f) / 10 ^ k > 1 / 2"
    unfolding H using f k by (simp add: field_simps)
  have "rhe (Q / 10 ^ k) = int (if r < ?H then q else q + 1)"
    unfolding rhe_def Let_def fl fr using lt gt by (cases "r < ?H") auto
  with lhs show ?thesis by simp
qed

lemma div_quotient_spec:
  fixes ma mb :: nat and shift :: int
  assumes "mb \<noteq> 0"
  defines "Q \<equiv> of_nat ma / of_nat mb * (10::rat) powi shift"
  shows "int (fst (div_quotient ma mb shift)) = \<lfloor>Q\<rfloor>"
    and "snd (div_quotient ma mb shift) \<longleftrightarrow> Q \<noteq> of_nat (fst (div_quotient ma mb shift))"
proof -
  have frac: "int (num div den) = \<lfloor>(of_nat num :: rat) / of_nat den\<rfloor>
    \<and> (num mod den \<noteq> 0 \<longleftrightarrow> (of_nat num :: rat) / of_nat den \<noteq> of_nat (num div den))"
    if "den \<noteq> 0" for num den :: nat
  proof
    show "int (num div den) = \<lfloor>(of_nat num :: rat) / of_nat den\<rfloor>"
      by (metis floor_divide_of_nat_eq of_nat_div)
    have "(of_nat num :: rat) / of_nat den = of_nat (num div den) + of_nat (num mod den) / of_nat den"
      using that by (intro divide_of_parts of_nat_div_mod) simp
    then show "num mod den \<noteq> 0 \<longleftrightarrow> (of_nat num :: rat) / of_nat den \<noteq> of_nat (num div den)"
      using that by simp
  qed
  have "int (fst (div_quotient ma mb shift)) = \<lfloor>Q\<rfloor>
    \<and> (snd (div_quotient ma mb shift) \<longleftrightarrow> Q \<noteq> of_nat (fst (div_quotient ma mb shift)))"
  proof (cases "shift \<ge> 0")
    case True
    let ?num = "ma * 10 ^ nat shift"
    have Q: "Q = of_nat ?num / of_nat mb" using True by (simp add: Q_def pow10_nonneg)
    have dq: "div_quotient ma mb shift = (?num div mb, ?num mod mb \<noteq> 0)"
      unfolding div_quotient_def Let_def minus_div_mult_eq_mod using True
      by (auto simp: POW10_get_def checked_mul_def split: option.splits)
    show ?thesis using frac [OF assms(1), of ?num] unfolding dq Q fst_conv snd_conv .
  next
    case False
    let ?den = "mb * 10 ^ nat (- shift)"
    have "(10::rat) powi shift = 1 / 10 ^ nat (- shift)"
      using False pow10_neg_nat [of "nat (- shift)"] by simp
    then have Q: "Q = of_nat ma / of_nat ?den" by (simp add: Q_def)
    have dq: "div_quotient ma mb shift = (ma div ?den, ma mod ?den \<noteq> 0)"
      using False unfolding div_quotient_def Let_def minus_div_mult_eq_mod by simp
    have "?den \<noteq> 0" using assms(1) by simp
    then show ?thesis using frac [of ?den ma] unfolding dq Q fst_conv snd_conv by blast
  qed
  then show "int (fst (div_quotient ma mb shift)) = \<lfloor>Q\<rfloor>"
    and "snd (div_quotient ma mb shift) \<longleftrightarrow> Q \<noteq> of_nat (fst (div_quotient ma mb shift))" by auto
qed

lemma quotient_window:
  assumes "ma \<noteq> 0" "mb \<noteq> 0"
  shows "10 ^ 28 \<le> of_nat ma / of_nat mb * (10::rat) powi (int (ndigits mb) - int (ndigits ma) + 29)"
proof -
  let ?da = "ndigits ma" and ?db = "ndigits mb"
  have "of_nat (10 ^ (?da - 1)) \<le> (of_nat ma :: rat)" "(of_nat mb :: rat) \<le> of_nat (10 ^ ?db)"
    using dec_digits_lower [OF assms(1)] dec_digits_upper [of mb] by (simp_all only: of_nat_le_iff less_imp_le)
  then have a: "10 ^ (?da - 1) \<le> (of_nat ma :: rat)" and b: "(of_nat mb :: rat) \<le> 10 ^ ?db" by simp_all
  have mb: "0 < (of_nat mb :: rat)" using assms(2) by simp
  have "10 ^ (?da - 1) / 10 ^ ?db \<le> (of_nat ma :: rat) / of_nat mb"
    using a b mb by (intro frac_le) auto
  then have "10 ^ (?da - 1) / 10 ^ ?db * 10 powi (int ?db - int ?da + 29)
      \<le> of_nat ma / of_nat mb * (10::rat) powi (int ?db - int ?da + 29)"
    by (rule mult_right_mono) simp
  moreover have "(10::rat) ^ (?da - 1) / 10 ^ ?db * 10 powi (int ?db - int ?da + 29) = 10 ^ 28"
  proof -
    have eq: "int ?db - int ?da + 29 = int ?db + (- int (?da - 1)) + 28"
      by (cases "ndigits ma") simp_all
    have "(10::rat) powi (int ?db - int ?da + 29) = 10 ^ ?db * (1 / 10 ^ (?da - 1)) * 10 ^ 28"
      by (subst eq) (simp only: pow10_add pow10_neg_nat pow10_nat, simp)
    then show ?thesis by simp
  qed
  ultimately show ?thesis by simp
qed

lemma rounds_to_same:
  assumes "round_prec v r" "round_prec w r" "c \<noteq> 0" "w = dval neg c ex" "v \<noteq> 0"
  shows "rounds_to v y \<longleftrightarrow> rounds_to w y"
proof -
  have "w \<noteq> 0" using assms by simp
  with assms round_prec_unique show ?thesis unfolding rounds_to_def by blast
qed

lemma rounds_to_quotient:
  fixes Q :: rat
  assumes Q: "10 ^ 28 \<le> Q" and c: "int c = \<lfloor>Q\<rfloor>"
    and c': "c' = (if Q \<noteq> of_nat c \<and> c mod 5 = 0 then c + 1 else c)"
  shows "c' \<noteq> 0" and "rounds_to (sgnr neg * Q * 10 powi ex) y \<longleftrightarrow> rounds_to (dval neg c' ex) y"
proof -
  have "int (10 ^ 28) \<le> int c" unfolding c using Q by (simp add: le_floor_iff)
  then have clo: "10 ^ 28 \<le> c" by (simp only: of_nat_le_iff)
  then show c'0: "c' \<noteq> 0" using c' by auto
  define n where "n = ndigits c'"
  have nw: "10 ^ (n - 1) \<le> c'" "c' < 10 ^ n"
    using dec_digits_lower [OF c'0] dec_digits_upper [of c'] by (auto simp: n_def)
  have n28: "28 < n"
  proof (rule ccontr)
    assume "\<not> 28 < n"
    then have "(10::nat) ^ n \<le> 10 ^ 28" by (intro power_increasing) auto
    with nw(2) clo c' show False by (auto split: if_splits)
  qed
  have p5: "(10::nat) ^ (n - 1) mod 5 = 0" using n28 by (cases "n - 1") auto
  have cge: "10 ^ (n - 1) \<le> c"
  proof (cases "Q \<noteq> of_nat c \<and> c mod 5 = 0")
    case True
    then have "c + 1 \<noteq> 10 ^ (n - 1)" using p5 by (intro mod5_succ) auto
    with True nw(1) c' show ?thesis by simp
  qed (use nw(1) c' in auto)
  have "of_nat (10 ^ (n - 1)) \<le> (of_nat c :: rat)" using cge by (simp only: of_nat_le_iff)
  moreover have "of_nat c \<le> Q" using c by (metis of_int_floor_le of_int_of_nat_eq)
  ultimately have "of_nat (10 ^ (n - 1)) \<le> Q" by (rule order_trans)
  then have Qlo: "10 ^ (n - 1) \<le> Q" unfolding of_nat_power of_nat_numeral .
  have Qc: "Q < of_nat c + 1" using c by linarith
  have "c + 1 \<le> 10 ^ n" using nw(2) c' by (auto split: if_splits)
  then have "of_nat (c + 1) \<le> (of_nat (10 ^ n) :: rat)" by (simp only: of_nat_le_iff)
  with Qc have Qhi: "Q < 10 ^ n" by simp
  let ?k = "n - 28" and ?e = "ex + int n - 28"
  have "?e = ex + int ?k" using n28 by simp
  then have k: "(10::rat) powi ?e = 10 powi ex * 10 ^ ?k" by (simp only: pow10_add pow10_nat)
  have pw: "(10::rat) ^ n = 10 ^ 28 * 10 ^ ?k" "(10::rat) ^ (n - 1) = 10 ^ 27 * 10 ^ ?k"
    using n28 power_add [of "10::rat" 28 ?k] power_add [of "10::rat" 27 ?k] by (auto simp: le_add_diff_inverse)
  have Q0: "0 < Q" using Q by (rule less_le_trans [rotated]) simp
  have av: "\<bar>sgnr neg * Q * 10 powi ex\<bar> / 10 powi ?e = Q / 10 ^ ?k"
    unfolding k using Q0 pow10_pos [of ex] by (simp add: abs_mult)
  have win: "digit_window (sgnr neg * Q * 10 powi ex) ?e"
    unfolding digit_window_def av using Qlo Qhi pw by (simp add: field_simps)
  have sg: "sgn (sgnr neg * Q * 10 powi ex) = sgnr neg"
    using Q0 by (cases neg) (simp_all add: sgn_mult sgn_pos)
  have r1: "round_prec (sgnr neg * Q * 10 powi ex) (sgnr neg * of_int (rhe (Q / 10 ^ ?k)) * 10 powi ?e)"
    unfolding round_prec_def using win by (intro exI [of _ ?e]) (simp only: av sg simp_thms)
  have st: "rhe (of_nat c' / 10 ^ ?k) = rhe (Q / 10 ^ ?k)"
  proof (cases "Q = of_nat c")
    case True
    then show ?thesis using c' by simp
  next
    case False
    with c' have "c' = (if c mod 5 = 0 then c + 1 else c)" by simp
    moreover have "0 < ?k" using n28 by simp
    ultimately show ?thesis using sticky_round [OF c False] by blast
  qed
  have "28 - int n = - int ?k" using n28 by simp
  then have sc: "of_nat c' * (10::rat) powi (28 - int n) = of_nat c' / 10 ^ ?k"
    by (simp only: pow10_neg_nat) simp
  have r2: "round_prec (dval neg c' ex) (sgnr neg * of_int (rhe (Q / 10 ^ ?k)) * 10 powi ?e)"
    using round_prec_dval [OF c'0, of neg ex] unfolding n_def [symmetric] sc st .
  have "sgnr neg * Q * 10 powi ex \<noteq> 0" using Q0 pow10_pos [of ex] by simp
  with r1 r2 c'0 show "rounds_to (sgnr neg * Q * 10 powi ex) y \<longleftrightarrow> rounds_to (dval neg c' ex) y"
    by (intro rounds_to_same [where neg = neg and ex = ex]) simp_all
qed

lemma computes_cong:
  assumes "computes r v" "\<And>y. rounds_to w y \<longleftrightarrow> rounds_to v y" "w = 0 \<longleftrightarrow> v = 0"
  shows "computes r w"
  using assms by (simp add: computes_def)

lemma computes_div:
  assumes "canonical a" "canonical b" "mval b \<noteq> 0"
  shows "computes (money_div a b) (mval a / mval b)"
proof -
  obtain na ma ea where pa: "parts a = (na, ma, ea)" by (metis surj_pair)
  obtain nb mb eb where pb: "parts b = (nb, mb, eb)" by (metis surj_pair)
  have va: "mval a = dval na ma ea" and vb: "mval b = dval nb mb eb"
    using pa pb by (auto intro: mval_parts)
  have mb: "mb \<noteq> 0" using assms(3) vb by auto
  show ?thesis
  proof (cases "ma = 0")
    case True
    then have "money_div a b = Ok ZERO" "mval a / mval b = 0"
      using mb va by (simp_all add: money_div_def pa pb)
    then show ?thesis by (auto simp: computes_def rounds_to_def canonical_zero)
  next
    case False
    let ?s = "int (ndigits mb) - int (ndigits ma) + 29"
    define Q where "Q = of_nat ma / of_nat mb * (10::rat) powi ?s"
    define c where "c = fst (div_quotient ma mb ?s)"
    define c' where "c' = (if Q \<noteq> of_nat c \<and> c mod 5 = 0 then c + 1 else c)"
    let ?ex = "ea - eb - ?s"
    note dq = div_quotient_spec [OF mb, of ma ?s, folded Q_def c_def]
    have red: "money_div a b = finish_big (na \<noteq> nb) c' ?ex"
      using mb False dq(2)
      unfolding money_div_def pa pb Let_def prod.case digits_u128_eq PREC_def c'_def c_def
      by (simp add: case_prod_beta add.assoc)
    have "(10::rat) powi ea = 10 powi eb * (10 powi ?s * 10 powi ?ex)"
      unfolding pow10_add [symmetric] by simp
    then have v: "mval a / mval b = sgnr (na \<noteq> nb) * Q * 10 powi ?ex"
      unfolding va vb dval_def Q_def sgnr_xor using pow10_pos [of eb]
      by (cases na; cases nb) (simp_all add: field_simps)
    have Q28: "10 ^ 28 \<le> Q" unfolding Q_def using False mb by (rule quotient_window)
    note rq = rounds_to_quotient [OF Q28 dq(1) c'_def]
    have "0 < Q" using Q28 by (rule less_le_trans [rotated]) simp
    then have nz: "sgnr (na \<noteq> nb) * Q * 10 powi ?ex \<noteq> 0"
      using pow10_pos [of ?ex] by (simp only: mult_eq_0_iff sgnr_simps less_irrefl simp_thms) auto
    show ?thesis
      unfolding red v
      by (intro computes_cong [OF computes_finish_big] rq(2)) (simp only: nz rq(1) dval_eq_0_iff)
  qed
qed

lemma money_div_zero:
  assumes "canonical b" "mval b = 0"
  shows "money_div a b = Err (if mantissa a = 0 then InvalidOperation else DivisionByZero)"
  using assms by (simp add: canonical_zero money_div_def parts_def ZERO_def Let_def)

subsection \<open>Comparison and rounding to integers\<close>

lemma aligned_value:
  "of_int (fst (aligned a b)) = mval a * 10 ^ (scale a + scale b)"
  "of_int (snd (aligned a b)) = mval b * 10 ^ (scale a + scale b)"
  by (auto simp: aligned_def mval_def dval_def sgnr_def is_negative_def pow10_neg_nat power_add)

lemma aligned_cmp:
  shows money_lt_iff [simp]: "money_lt a b \<longleftrightarrow> mval a < mval b"
    and money_le_iff [simp]: "money_le a b \<longleftrightarrow> mval a \<le> mval b"
    and money_eq_iff [simp]: "money_eq a b \<longleftrightarrow> mval a = mval b"
proof -
  let ?p = "(10::rat) ^ (scale a + scale b)"
  have p: "0 < ?p" by simp
  have "money_lt a b \<longleftrightarrow> (of_int (fst (aligned a b)) :: rat) < of_int (snd (aligned a b))"
    unfolding money_lt_def of_int_less_iff ..
  also have "\<dots> \<longleftrightarrow> mval a < mval b" unfolding aligned_value using p by (rule mult_less_cancel_right_pos)
  finally show "money_lt a b \<longleftrightarrow> mval a < mval b" .
  have "money_le a b \<longleftrightarrow> (of_int (fst (aligned a b)) :: rat) \<le> of_int (snd (aligned a b))"
    unfolding money_le_def of_int_le_iff ..
  also have "\<dots> \<longleftrightarrow> mval a \<le> mval b" unfolding aligned_value using p by (rule mult_le_cancel_right_pos)
  finally show "money_le a b \<longleftrightarrow> mval a \<le> mval b" .
  have "money_eq a b \<longleftrightarrow> (of_int (fst (aligned a b)) :: rat) = of_int (snd (aligned a b))"
    unfolding money_eq_def of_int_eq_iff ..
  also have "\<dots> \<longleftrightarrow> mval a = mval b" unfolding aligned_value using p by auto
  finally show "money_eq a b \<longleftrightarrow> mval a = mval b" .
qed

lemma from_i128_iff: "from_i128 n = Ok m \<longleftrightarrow> canonical m \<and> mval m = of_int n"
proof -
  have "dval (n < 0) (nat \<bar>n\<bar>) 0 = of_int n" by (simp add: dval_def sgnr_def)
  then show ?thesis by (simp add: from_i128_def build_iff)
qed

lemma from_i128_exact: "\<bar>n\<bar> < 10 ^ 28 \<Longrightarrow> \<exists>m. from_i128 n = Ok m \<and> canonical m \<and> mval m = of_int n"
  using exact_of_int [of n] by (auto simp: from_i128_iff exact_value_def fits_def)

lemma mul_i128_computes:
  "canonical a \<Longrightarrow> from_i128 n = Ok k \<Longrightarrow> computes (mul_i128 a n) (mval a * of_int n)"
  using computes_mul [of a k] from_i128_iff [of n k] by (simp add: mul_i128_def)

lemma add_i128_computes:
  "canonical a \<Longrightarrow> from_i128 n = Ok k \<Longrightarrow> computes (add_i128 a n) (mval a + of_int n)"
  using computes_add [of a k] from_i128_iff [of n k] by (simp add: add_i128_def)

text \<open>The value a rounding mode gives for an exact value.\<close>

definition rounded_int :: "round_mode \<Rightarrow> rat \<Rightarrow> rat" where
  "rounded_int mode v = (case mode of HalfEven \<Rightarrow> sgn v * of_int (rhe \<bar>v\<bar>) | Floor \<Rightarrow> of_int \<lfloor>v\<rfloor>)"

lemma shift_round_value:
  assumes "m < u128_limit"
  shows "dval neg (shift_round_u128 m n neg mode) 0 = rounded_int mode (dval neg m (- int n))"
proof (cases mode)
  case HalfEven
  have r: "int (shift_round_u128 m n neg HalfEven) = rhe (of_nat m / 10 ^ n)"
    using assms by (simp add: shift_round_u128_eq_big shift_round_big_half)
  have "rhe (\<bar>dval neg m (- int n)\<bar>) = rhe (of_nat m / 10 ^ n)"
    by (simp add: abs_dval pow10_neg_nat)
  then have "of_nat (shift_round_u128 m n neg HalfEven) = (of_int (rhe (\<bar>dval neg m (- int n)\<bar>)) :: rat)"
    using r by (metis of_int_of_nat_eq)
  moreover have "m = 0 \<Longrightarrow> shift_round_u128 m n neg HalfEven = 0"
    using r rhe_of_nat [of 0] by simp
  ultimately show ?thesis
    using HalfEven sgn_dval [of m neg "- int n"]
    by (cases "m = 0") (simp_all add: rounded_int_def dval_def [of neg _ 0])
next
  case Floor
  have "dval neg (shift_round_u128 m n neg Floor) 0 = sgnr neg * of_nat (shift_round_big m n neg Floor)"
    using assms by (simp add: shift_round_u128_eq_big dval_def)
  also have "\<dots> = of_int \<lfloor>dval neg m (- int n)\<rfloor>"
    unfolding shift_round_big_floor by (simp add: dval_def pow10_neg_nat)
  finally show ?thesis using Floor by (simp add: rounded_int_def)
qed

lemma shift_round_limit:
  assumes "m < MANTISSA_LIMIT" "0 < n"
  shows "shift_round_u128 m n neg mode < MANTISSA_LIMIT"
proof -
  have "(10::nat) ^ 1 \<le> 10 ^ n" using assms(2) by (intro power_increasing) auto
  then have "m div 10 ^ n \<le> m div 10" by (intro div_le_mono2) auto
  moreover have "shift_round_u128 m n neg mode \<le> m div 10 ^ n + 1"
    using assms mantissa_u128 [of m]
    by (cases mode)
      (simp_all add: shift_round_u128_eq_big shift_round_big_half_alt shift_round_big_floor_alt Let_def)
  moreover have "m div 10 + 1 < MANTISSA_LIMIT" using assms(1) by (simp add: MANTISSA_LIMIT_def)
  ultimately show ?thesis by linarith
qed

lemma fits_int: "\<bar>n\<bar> < int MANTISSA_LIMIT \<Longrightarrow> fits (of_int n)"
proof -
  assume n: "\<bar>n\<bar> < int MANTISSA_LIMIT"
  let ?m = "\<lparr>neg_bit = n < 0, mantissa = nat \<bar>n\<bar>, scale = 0\<rparr>"
  have "canonical ?m" using n by (auto simp: canonical_def)
  moreover have "mval ?m = of_int n" by (simp add: mval_def dval_def sgnr_def)
  ultimately show ?thesis unfolding fits_def by blast
qed

lemma to_integral_spec:
  assumes x: "canonical x"
  shows "\<exists>m. to_integral x mode = Ok m \<and> canonical m \<and> mval m = rounded_int mode (mval x)"
proof (cases "scale x = 0")
  case True
  then have "mval x = of_int ((if neg_bit x then - 1 else 1) * int (mantissa x))"
    by (simp add: mval_def dval_def sgnr_def)
  then have "rounded_int mode (mval x) = mval x"
    by (cases mode) (auto simp: rounded_int_def sgn_if split: if_splits)
  with True x show ?thesis by (simp add: to_integral_def parts_def)
next
  case False
  obtain neg m e where p: "parts x = (neg, m, e)" by (metis surj_pair)
  have e: "e = - int (scale x)" using p by (simp add: parts_def)
  let ?c = "shift_round_u128 m (scale x) neg mode"
  have m: "m < MANTISSA_LIMIT" using parts_bounds [OF x p] by simp
  have red: "to_integral x mode = build neg ?c 0" using False e by (simp add: to_integral_def p)
  have v: "dval neg ?c 0 = rounded_int mode (mval x)"
    using shift_round_value [OF mantissa_u128 [OF m]] mval_parts [OF p] e by simp
  have "?c < MANTISSA_LIMIT" using m False by (intro shift_round_limit) auto
  then have "fits (of_int ((if neg then - 1 else 1) * int ?c))" by (intro fits_int) (auto simp: abs_mult)
  moreover have "of_int ((if neg then - 1 else 1) * int ?c) = dval neg ?c 0" by (simp add: dval_def sgnr_def)
  ultimately obtain y where "canonical y" "mval y = dval neg ?c 0" by (auto simp: fits_def)
  then show ?thesis unfolding red v [symmetric] by (auto simp: build_iff)
qed

lemma is_integral_iff:
  assumes "canonical x"
  shows "is_integral x \<longleftrightarrow> mval x \<in> \<int>"
proof (cases "scale x = 0")
  case True
  then have "mval x = of_int ((if neg_bit x then - 1 else 1) * int (mantissa x))"
    by (simp add: mval_def dval_def sgnr_def)
  then have "mval x \<in> \<int>" by (metis Ints_of_int)
  with True show ?thesis by (simp add: is_integral_def)
next
  case False
  have "mval x \<notin> \<int>"
  proof
    assume "mval x \<in> \<int>"
    then have "\<bar>mval x\<bar> \<in> \<int>" by (rule Ints_abs)
    then obtain k where k: "\<bar>mval x\<bar> = of_int k" by (auto elim: Ints_cases)
    then have "0 \<le> k" by (metis abs_ge_zero of_int_0_le_iff)
    then have "of_nat (nat k) * (10::rat) powi 0 = of_nat (mantissa x) * 10 powi (- int (scale x))"
      using k by (simp add: mval_def abs_dval)
    from coef_unique_le [OF this [symmetric]] have "mantissa x = nat k * 10 ^ scale x" by simp
    with False have "mantissa x mod 10 = 0" by (cases "scale x") auto
    with assms False show False by (simp add: canonical_def)
  qed
  with False show ?thesis by (simp add: is_integral_def)
qed

lemma trunc_spec:
  assumes x: "canonical x"
  shows "\<exists>n. trunc_i128 x = Ok n \<and> of_int n = sgn (mval x) * of_int \<lfloor>\<bar>mval x\<bar>\<rfloor>"
proof -
  let ?g = "mantissa x div 10 ^ scale x"
  have sc: "scale x \<le> 28" and lim: "mantissa x < MANTISSA_LIMIT"
    using x by (auto simp: canonical_def MAX_SCALE_def)
  have "?g \<le> mantissa x" by simp
  then have "?g < MANTISSA_LIMIT" using lim by linarith
  then have g: "\<not> int ?g > i128_max" by (simp add: i128_max_def MANTISSA_LIMIT_def)
  have red: "trunc_i128 x = Ok (if neg_bit x \<and> mantissa x \<noteq> 0 then - int ?g else int ?g)"
    using g sc by (cases "scale x = 0") (simp_all add: trunc_i128_def parts_def Let_def min_absorb1)
  have "\<lfloor>\<bar>mval x\<bar>\<rfloor> = int ?g"
    unfolding mval_def abs_dval pow10_neg_nat
    by (metis floor_divide_of_nat_eq mult.right_neutral of_nat_div of_nat_numeral of_nat_power times_divide_eq_right)
  moreover have "mantissa x = 0 \<Longrightarrow> ?g = 0" by simp
  moreover have "sgn (mval x) = (if mantissa x = 0 then 0 else sgnr (neg_bit x))"
    by (simp add: mval_def sgn_dval)
  ultimately show ?thesis unfolding red by (auto simp: sgnr_def)
qed

lemma quantize_spec:
  assumes x: "canonical x" and m: "quantize_round x ex mode = Ok m"
  shows "canonical m \<and> mval m = rounded_int mode (mval x / 10 powi ex) * 10 powi ex"
proof -
  obtain neg mx e where p: "parts x = (neg, mx, e)" by (metis surj_pair)
  have lim: "mx < u128_limit" using parts_bounds [OF x p] mantissa_u128 by blast
  have v: "mval x = dval neg mx e" using p by (rule mval_parts)
  show ?thesis
  proof (cases "mx = 0")
    case True
    with m v rhe_of_nat [of 0] show ?thesis
      by (auto simp: quantize_round_def p rounded_int_def split: if_splits round_mode.splits)
  next
    case False
    have dv: "dval neg mx e / 10 powi ex = dval neg mx (e - ex)"
      using pow10_add [of "e - ex" ex] by (simp add: dval_def)
    show ?thesis
    proof (cases "ex \<le> e")
      case True
      let ?c = "mx * 10 ^ nat (e - ex)"
      from m True False p have "build_big neg ?c ex = Ok m"
        by (auto simp: quantize_round_def Let_def split: if_splits)
      then have c: "canonical m" "mval m = dval neg ?c ex" by (auto simp: build_big_iff)
      have i: "dval neg mx (e - ex) = of_int ((if neg then - 1 else 1) * int ?c)"
        using True by (simp add: dval_def sgnr_def pow10_nonneg)
      have "rounded_int mode (dval neg mx (e - ex)) = dval neg mx (e - ex)"
        unfolding i by (cases mode) (auto simp: rounded_int_def sgn_if simp del: of_int_mult)
      then have "rounded_int mode (mval x / 10 powi ex) * 10 powi ex = dval neg mx (e - ex) * 10 powi ex"
        unfolding v dv by simp
      also have "\<dots> = dval neg ?c ex" using True by (simp add: dval_shift dv [symmetric])
      finally show ?thesis using c by simp
    next
      case F: False
      let ?n = "nat (ex - e)"
      let ?c = "shift_round_u128 mx ?n neg mode"
      from m F False p have "build_big neg ?c ex = Ok m"
        by (auto simp: quantize_round_def Let_def split: if_splits)
      then have c: "canonical m" "mval m = dval neg ?c ex" by (auto simp: build_big_iff)
      have "dval neg ?c 0 = rounded_int mode (dval neg mx (e - ex))"
        using shift_round_value [OF lim, of neg ?n mode] F by simp
      then have "dval neg ?c ex = rounded_int mode (mval x / 10 powi ex) * 10 powi ex"
        unfolding v dv by (simp add: dval_def)
      with c show ?thesis by simp
    qed
  qed
qed

subsection \<open>Spelling and parsing\<close>

lemma digit_lt10 [simp]: "d < 10 \<Longrightarrow> digit (48 + d) = Some d"
  by (rule digit_ascii)

lemma scan_digits_prefix:
  assumes "\<forall>d \<in> set ds. d < 10" and "rest = [] \<or> digit (hd rest) = None"
  shows "scan_digits (map (\<lambda>d. 48 + d) ds @ rest) = (ds, rest)"
  using assms
proof (induction ds)
  case Nil
  then show ?case by (cases rest) auto
qed simp

lemma digits_value_dropWhile: "digits_value (dropWhile (\<lambda>d. d = 0) ds) = digits_value ds"
  by (induction ds) auto

lemma digits_value_trailing:
  "digits_value ds = digits_value (rev (dropWhile (\<lambda>d. d = 0) (rev ds)))
     * 10 ^ length (takeWhile (\<lambda>d. d = 0) (rev ds))"
proof (induction ds rule: rev_induct)
  case (snoc d ds)
  then show ?case by (cases "d = 0") auto
qed simp

lemma literal_money_eq:
  assumes "nz = dropWhile (\<lambda>d. d = 0) ds" "nz \<noteq> []"
    and "zs = takeWhile (\<lambda>d. d = 0) (rev nz)" "sig = rev (dropWhile (\<lambda>d. d = 0) (rev nz))"
    and "length sig \<le> 29" "tot + int (length zs) \<le> 38" "- 57 \<le> tot + int (length zs)"
  shows "literal_money neg ds tot = build neg (digits_value sig) (tot + int (length zs))"
    and "dval neg (digits_value sig) (tot + int (length zs)) = dval neg (digits_value ds) tot"
proof -
  show "literal_money neg ds tot = build neg (digits_value sig) (tot + int (length zs))"
    unfolding literal_money_def Let_def assms(1) [symmetric] assms(3) [symmetric] assms(4) [symmetric]
    using assms(2,5-7) by (simp add: MAX_SCALE_def)
  have "digits_value ds = digits_value sig * 10 ^ length zs"
    using digits_value_trailing [of nz] assms(1,3,4) digits_value_dropWhile by metis
  then show "dval neg (digits_value sig) (tot + int (length zs)) = dval neg (digits_value ds) tot"
    by (simp add: dval_shift)
qed

text \<open>A literal whose digits spell an amount in its bound is read as that amount.\<close>

lemma literal_money_canonical:
  assumes m: "canonical m" and ds: "digits_value ds = mantissa m"
    and nz: "dropWhile (\<lambda>d. d = 0) ds = (if mantissa m = 0 then [] else dec_digits (mantissa m))"
  shows "literal_money (is_negative m) ds (- int (scale m)) = Ok m"
proof (cases "mantissa m = 0")
  case True
  with m have "m = ZERO" using canonical_zero_scale [OF m] by (cases m) (auto simp: canonical_def ZERO_def)
  with True nz show ?thesis by (simp add: literal_money_def)
next
  case False
  let ?nz = "dec_digits (mantissa m)"
  let ?zs = "takeWhile (\<lambda>d. d = 0) (rev ?nz)" and ?sig = "rev (dropWhile (\<lambda>d. d = 0) (rev ?nz))"
  have lim: "mantissa m < 10 ^ 29" using m pow10_limits(1) by (auto simp: canonical_def)
  have len: "length ?nz \<le> 29" using ndigits_le_iff [OF False, of 29] lim by simp
  have "length ?sig + length ?zs = length ?nz"
    by (metis add.commute length_append length_rev takeWhile_dropWhile_id)
  with len have l: "length ?sig \<le> 29" "length ?zs \<le> 29" by auto
  have sc: "scale m \<le> 28" using m by (simp add: canonical_def MAX_SCALE_def)
  have b: "- int (scale m) + int (length ?zs) \<le> 38" "- 57 \<le> - int (scale m) + int (length ?zs)"
    using l sc by auto
  have nz': "?nz = dropWhile (\<lambda>d. d = 0) ds" using nz False by simp
  note lm = literal_money_eq [OF nz' _ refl refl l(1) b, of "is_negative m"]
  have "dval (is_negative m) (digits_value ds) (- int (scale m)) = mval m"
    using False ds by (simp add: mval_def is_negative_def)
  with lm m show ?thesis by (simp add: build_iff)
qed

lemma dropWhile_dec_digits:
  "dropWhile (\<lambda>d. d = 0) (replicate k 0 @ dec_digits n) = (if n = 0 then [] else dec_digits n)"
proof -
  have "dropWhile (\<lambda>d. d = 0) (replicate k 0 @ xs) = dropWhile (\<lambda>d. d = 0) xs" for xs :: "nat list"
    by (induction k) auto
  moreover have "dropWhile (\<lambda>d. d = 0) (dec_digits n) = (if n = 0 then [] else dec_digits n)"
    using dec_digits_hd [of n] dec_digits.simps [of 0] by (cases "n = 0"; cases "dec_digits n") auto
  ultimately show ?thesis by simp
qed

text \<open>The digits before and after the point in the canonical text.\<close>

definition int_digits :: "money \<Rightarrow> nat list" where
  "int_digits m = (let ds = dec_digits (mantissa m) in
     if length ds > scale m then take (length ds - scale m) ds else [0])"

definition frac_digits :: "money \<Rightarrow> nat list" where
  "frac_digits m = (let ds = dec_digits (mantissa m) in
     if length ds > scale m then drop (length ds - scale m) ds
     else replicate (scale m - length ds) 0 @ ds)"

lemma canon_digits:
  "canon m = (if is_negative m then ''-'' else []) @ map digit_char (int_digits m)
     @ (if scale m = 0 then [] else ''.'' @ map digit_char (frac_digits m))"
proof -
  have z: "digit_char 0 = CHR ''0''" by code_simp
  show ?thesis
    by (auto simp: canon_def parts_def is_negative_def int_digits_def frac_digits_def Let_def
        nat_to_string_def take_map drop_map z)
qed

lemma int_frac_digits:
  shows "length (frac_digits m) = scale m" and "int_digits m \<noteq> []"
    and "\<exists>k. int_digits m @ frac_digits m = replicate k 0 @ dec_digits (mantissa m)"
    and "d \<in> set (int_digits m @ frac_digits m) \<Longrightarrow> d < 10"
proof -
  let ?ds = "dec_digits (mantissa m)"
  show "length (frac_digits m) = scale m" by (simp add: frac_digits_def Let_def)
  show "int_digits m \<noteq> []" by (simp add: int_digits_def Let_def)
  show ex: "\<exists>k. int_digits m @ frac_digits m = replicate k 0 @ ?ds"
  proof (cases "length ?ds > scale m")
    case True
    then have "int_digits m @ frac_digits m = replicate 0 0 @ ?ds"
      by (simp add: int_digits_def frac_digits_def Let_def)
    then show ?thesis by blast
  next
    case False
    then have "int_digits m @ frac_digits m = replicate (Suc (scale m - length ?ds)) 0 @ ?ds"
      by (simp add: int_digits_def frac_digits_def Let_def)
    then show ?thesis by blast
  qed
  assume "d \<in> set (int_digits m @ frac_digits m)"
  with ex dec_digits_bound show "d < 10" by (metis Un_iff in_set_replicate set_append zero_less_numeral)
qed

lemma space_digit: "d < 10 \<Longrightarrow> \<not> is_space (48 + d)"
  by (auto simp: is_space_def)

lemma strip_filter_id:
  assumes "s \<noteq> []" "\<forall>c \<in> set s. 45 \<le> c \<and> c \<le> 57"
  shows "filter (\<lambda>c. c \<noteq> 95) (strip s) = s"
proof -
  have ns: "\<not> is_space c" if "45 \<le> c" "c \<le> 57" for c using that by (auto simp: is_space_def)
  have "hd s \<in> set s" "last s \<in> set s" using assms(1) by auto
  with assms ns have "\<not> is_space (hd s)" "\<not> is_space (last s)" by blast+
  with assms(1) have "strip s = s" by (rule strip_id)
  moreover have "filter (\<lambda>c. c \<noteq> 95) s = s" using assms(2) by (intro filter_True) auto
  ultimately show ?thesis by simp
qed

lemma canon_utext:
  "utext (canon m) = (if is_negative m then [45] else []) @ map (\<lambda>d. 48 + d) (int_digits m)
     @ (if scale m = 0 then [] else 46 # map (\<lambda>d. 48 + d) (frac_digits m))"
proof -
  have "utext (map digit_char (int_digits m)) = map (\<lambda>d. 48 + d) (int_digits m)"
    "utext (map digit_char (frac_digits m)) = map (\<lambda>d. 48 + d) (frac_digits m)"
    using int_frac_digits(4) [where m = m] by (auto intro!: utext_digit_char)
  moreover have "utext ''-'' = [45]" "utext ''.'' = [46]" "utext [] = []" by (simp_all add: utext_def)
  ultimately show ?thesis unfolding canon_digits utext_append if_distrib [of utext] by simp
qed

lemma try_parse_canon:
  assumes m: "canonical m"
  shows "try_parse (utext (canon m)) = Ok m"
proof -
  let ?i = "map (\<lambda>d. 48 + d) (int_digits m)" and ?f = "map (\<lambda>d. 48 + d) (frac_digits m)"
  let ?rest = "if scale m = 0 then [] else 46 # ?f"
  note ifd = int_frac_digits [where m = m]
  have i10: "\<forall>d \<in> set (int_digits m). d < 10" and f10: "\<forall>d \<in> set (frac_digits m). d < 10"
    using int_frac_digits(4) [where m = m] by auto
  have hd: "hd ?i \<noteq> 45 \<and> hd ?i \<noteq> 43" using ifd(2) by (cases "int_digits m") auto
  have dig: "\<forall>c \<in> set (map (\<lambda>d. 48 + d) ds). 45 \<le> c \<and> c \<le> 57" if "\<forall>d \<in> set ds. d < 10" for ds :: "nat list"
    using that by fastforce
  have "\<forall>c \<in> set (utext (canon m)). 45 \<le> c \<and> c \<le> 57"
    using dig [OF i10] dig [OF f10] unfolding canon_utext set_append by (auto split: if_splits)
  then have "filter (\<lambda>c. c \<noteq> 95) (strip (utext (canon m))) = utext (canon m)"
    using ifd(2) by (intro strip_filter_id) (simp_all add: canon_utext)
  then have cl: "filter (\<lambda>c. c \<noteq> 95) (strip (utext (canon m))) = (if is_negative m then [45] else []) @ ?i @ ?rest"
    by (simp add: canon_utext)
  have sgn: "(case (if is_negative m then [45] else []) @ ?i @ ?rest of [] \<Rightarrow> (False, [])
      | c # r \<Rightarrow> if c = 45 \<or> c = 43 then (c = 45, r) else (False, (if is_negative m then [45] else []) @ ?i @ ?rest))
      = (is_negative m, ?i @ ?rest)"
    using hd ifd(2) by (cases "int_digits m") auto
  have d46: "digit 46 = None" by (rule digit_below) simp
  have sc1: "scan_digits (?i @ ?rest) = (int_digits m, ?rest)"
    using i10 by (rule scan_digits_prefix) (simp add: d46)
  have sc2: "scan_digits ?f = (frac_digits m, [])"
    using scan_digits_prefix [OF f10, of "[]"] by simp
  have frac: "(case ?rest of [] \<Rightarrow> ([], []) | c # r \<Rightarrow> if c = 46 then scan_digits r else ([], ?rest)) = (frac_digits m, [])"
    using sc2 ifd(1) by auto
  obtain k where k: "int_digits m @ frac_digits m = replicate k 0 @ dec_digits (mantissa m)"
    using ifd(3) by blast
  have lit: "literal_money (is_negative m) (int_digits m @ frac_digits m) (- int (scale m)) = Ok m"
    unfolding k by (rule literal_money_canonical [OF m]) (simp_all add: dropWhile_dec_digits)
  have sc: "scale m \<le> 28" using m by (simp add: canonical_def MAX_SCALE_def)
  have "\<not> (\<bar>- int (scale m)\<bar> > MAX_LITERAL_EXP \<or> \<bar>0\<bar> > MAX_LITERAL_EXP)"
    using sc by (simp add: MAX_LITERAL_EXP_def)
  then show ?thesis
    unfolding try_parse_def cl Let_def sgn prod.case sc1 frac
    using ifd(1,2) lit by (simp add: scan_exponent_def)
qed

end
