(* ===== verification/Money_Props.thy ===== *)
theory Money_Props
  imports Money_Ops
begin

section \<open>Properties of the amounts\<close>

text \<open>
  The statements about \<open>money.rs\<close> that its callers rely on, each over the definitions of
  \<open>Money\<close> and the reference semantics of \<open>Money_Value\<close>: the exact rational value, rounding half
  to even to 28 significant digits and then to 28 decimals, and the bound of a 96-bit mantissa.
  \<open>computes r v\<close> says that \<open>r\<close> answers the canonical amount of the rounded value of \<open>v\<close> whenever
  there is one (and it is not a value that rounding made zero), and otherwise refuses with \<open>Overflow\<close>.
\<close>

text \<open>
  C22. Addition and subtraction are correctly rounded: on canonical amounts the code, with its
  128-bit fast path and its unbounded fallback, answers the canonical amount of the rounded exact
  sum or difference, and refuses with \<open>Overflow\<close> exactly when that value does not fit.
\<close>

theorem money_add_sub_correct:
  assumes "canonical a" and "canonical b"
  shows "computes (money_add a b) (mval a + mval b) \<and> computes (money_sub a b) (mval a - mval b)"
  using computes_add [OF assms] computes_sub [OF assms] by blast

theorem money_add_sub_correct_witness:
  "canonical \<lparr>neg_bit = False, mantissa = 15, scale = 1\<rparr> \<and> canonical \<lparr>neg_bit = True, mantissa = 225, scale = 2\<rparr>
   \<and> computes (money_add \<lparr>neg_bit = False, mantissa = 15, scale = 1\<rparr> \<lparr>neg_bit = True, mantissa = 225, scale = 2\<rparr>)
       (mval \<lparr>neg_bit = False, mantissa = 15, scale = 1\<rparr> + mval \<lparr>neg_bit = True, mantissa = 225, scale = 2\<rparr>)"
  using money_add_sub_correct [of "\<lparr>neg_bit = False, mantissa = 15, scale = 1\<rparr>" "\<lparr>neg_bit = True, mantissa = 225, scale = 2\<rparr>"]
  by (simp add: canonical_def MANTISSA_LIMIT_def MAX_SCALE_def)

text \<open>
  C23. Multiplication is correctly rounded in the same sense, also when the product of the two
  mantissas does not fit 128 bits.
\<close>

theorem money_mul_correct:
  assumes "canonical a" and "canonical b"
  shows "computes (money_mul a b) (mval a * mval b)"
  by (rule computes_mul [OF assms])

theorem money_mul_correct_witness:
  "canonical \<lparr>neg_bit = False, mantissa = 15, scale = 1\<rparr>
   \<and> computes (money_mul \<lparr>neg_bit = False, mantissa = 15, scale = 1\<rparr> \<lparr>neg_bit = False, mantissa = 15, scale = 1\<rparr>)
       (mval \<lparr>neg_bit = False, mantissa = 15, scale = 1\<rparr> * mval \<lparr>neg_bit = False, mantissa = 15, scale = 1\<rparr>)"
  using money_mul_correct [of "\<lparr>neg_bit = False, mantissa = 15, scale = 1\<rparr>" "\<lparr>neg_bit = False, mantissa = 15, scale = 1\<rparr>"]
  by (simp add: canonical_def MANTISSA_LIMIT_def MAX_SCALE_def)

text \<open>
  C24. Division is correctly rounded: the quotient is computed to 29 or 30 digits only, and the
  sticky digit that marks a remainder makes the later rounding to 28 digits the rounding of the
  exact quotient. A zero divisor refuses with the signal of the dividend.
\<close>

theorem money_div_correct:
  assumes "canonical a" and "canonical b"
  shows "if mval b = 0
         then money_div a b = Err (if mval a = 0 then InvalidOperation else DivisionByZero)
         else computes (money_div a b) (mval a / mval b)"
proof (cases "mval b = 0")
  case True
  have "mantissa a = 0 \<longleftrightarrow> mval a = 0" by (simp add: mval_def dval_def)
  with True money_div_zero [OF assms(2) True, of a] show ?thesis by simp
next
  case False
  with computes_div [OF assms False] show ?thesis by simp
qed

theorem money_div_correct_witness:
  "canonical \<lparr>neg_bit = False, mantissa = 1, scale = 0\<rparr> \<and> canonical \<lparr>neg_bit = False, mantissa = 3, scale = 0\<rparr>
   \<and> computes (money_div \<lparr>neg_bit = False, mantissa = 1, scale = 0\<rparr> \<lparr>neg_bit = False, mantissa = 3, scale = 0\<rparr>)
       (mval \<lparr>neg_bit = False, mantissa = 1, scale = 0\<rparr> / mval \<lparr>neg_bit = False, mantissa = 3, scale = 0\<rparr>)"
  using money_div_correct [of "\<lparr>neg_bit = False, mantissa = 1, scale = 0\<rparr>" "\<lparr>neg_bit = False, mantissa = 3, scale = 0\<rparr>"]
  by (simp add: canonical_def MANTISSA_LIMIT_def MAX_SCALE_def mval_def dval_def)

text \<open>
  The 128-bit and the unbounded completion agree: on every coefficient that fits 128 bits,
  \<open>finish_u128\<close> gives what \<open>finish_big\<close> gives, refusals included, so taking the fast path never
  changes a result.
\<close>

theorem finish_paths_agree:
  assumes "c < u128_limit"
  shows "finish_u128 neg c ex = finish_big neg c ex"
  by (rule finish_u128_eq_big [OF assms])

theorem finish_paths_agree_witness:
  "(12345678901234567890123456789012345 :: nat) < u128_limit
   \<and> finish_u128 False 12345678901234567890123456789012345 (- 20) = finish_big False 12345678901234567890123456789012345 (- 20)"
  using finish_paths_agree [of 12345678901234567890123456789012345 False "- 20"] by (simp add: u128_limit_def)

text \<open>
  Printing and reading back is the identity on canonical amounts, and reading never has
  two amounts for one text: \<open>try_parse\<close> of the canonical spelling answers the amount itself.
\<close>

theorem parse_canon_roundtrip:
  assumes "canonical m"
  shows "try_parse (utext (canon m)) = Ok m"
  by (rule try_parse_canon [OF assms])

theorem parse_canon_roundtrip_witness:
  "canonical \<lparr>neg_bit = True, mantissa = 12345, scale = 3\<rparr>
   \<and> canon \<lparr>neg_bit = True, mantissa = 12345, scale = 3\<rparr> = ''-12.345''
   \<and> try_parse (utext (canon \<lparr>neg_bit = True, mantissa = 12345, scale = 3\<rparr>)) = Ok \<lparr>neg_bit = True, mantissa = 12345, scale = 3\<rparr>"
proof -
  have "canonical \<lparr>neg_bit = True, mantissa = 12345, scale = 3\<rparr>"
    by (simp add: canonical_def MANTISSA_LIMIT_def MAX_SCALE_def)
  moreover have "canon \<lparr>neg_bit = True, mantissa = 12345, scale = 3\<rparr> = ''-12.345''" by code_simp
  ultimately show ?thesis using parse_canon_roundtrip by blast
qed

text \<open>
  Canonical amounts are equal exactly when their values are, and the comparisons of the code
  compare the values: so the spelling of an amount can serve as its key (\<open>num_key\<close>).
\<close>

theorem money_compare:
  assumes "canonical a" and "canonical b"
  shows "(money_eq a b \<longleftrightarrow> a = b) \<and> (money_lt a b \<longleftrightarrow> mval a < mval b) \<and> (money_le a b \<longleftrightarrow> mval a \<le> mval b)
    \<and> (canon a = canon b \<longleftrightarrow> a = b)"
proof -
  have "a = b" if "canon a = canon b"
  proof -
    have "try_parse (utext (canon b)) = Ok a" using try_parse_canon [OF assms(1)] unfolding that .
    from this try_parse_canon [OF assms(2)] have "Ok a = (Ok b :: money dec_result)" by (rule subst)
    then show ?thesis by (rule result.inject(1) [THEN iffD1])
  qed
  moreover have "mval a = mval b \<longleftrightarrow> a = b" using canonical_unique [OF assms] by blast
  ultimately show ?thesis unfolding aligned_cmp by blast
qed

theorem money_compare_witness:
  "canonical \<lparr>neg_bit = False, mantissa = 15, scale = 1\<rparr> \<and> canonical \<lparr>neg_bit = True, mantissa = 225, scale = 2\<rparr>
   \<and> \<not> money_eq \<lparr>neg_bit = False, mantissa = 15, scale = 1\<rparr> \<lparr>neg_bit = True, mantissa = 225, scale = 2\<rparr>"
proof -
  have c: "canonical \<lparr>neg_bit = False, mantissa = 15, scale = 1\<rparr>" "canonical \<lparr>neg_bit = True, mantissa = 225, scale = 2\<rparr>"
    by (simp_all add: canonical_def MANTISSA_LIMIT_def MAX_SCALE_def)
  from money_compare [OF this]
  have "money_eq \<lparr>neg_bit = False, mantissa = 15, scale = 1\<rparr> \<lparr>neg_bit = True, mantissa = 225, scale = 2\<rparr>
      \<longleftrightarrow> \<lparr>neg_bit = False, mantissa = 15, scale = 1\<rparr> = \<lparr>neg_bit = True, mantissa = 225, scale = 2\<rparr>" by (rule conjunct1)
  moreover have "\<lparr>neg_bit = False, mantissa = 15, scale = 1\<rparr> \<noteq> \<lparr>neg_bit = True, mantissa = 225, scale = 2\<rparr>"
    by (simp only: money.ext_inject) simp
  ultimately show ?thesis using c by blast
qed

text \<open>
  Rounding to an integer answers on every canonical amount, with the value rounded half to
  even or down, and truncation answers the integer part toward zero.
\<close>

theorem to_integral_and_trunc:
  assumes "canonical x"
  shows "(\<exists>m. to_integral x Floor = Ok m \<and> canonical m \<and> mval m = of_int \<lfloor>mval x\<rfloor>)
    \<and> (\<exists>m. to_integral x HalfEven = Ok m \<and> canonical m \<and> mval m = sgn (mval x) * of_int (rhe \<bar>mval x\<bar>))
    \<and> (\<exists>n. trunc_i128 x = Ok n \<and> of_int n = sgn (mval x) * of_int \<lfloor>\<bar>mval x\<bar>\<rfloor>)"
  using to_integral_spec [OF assms, of Floor] to_integral_spec [OF assms, of HalfEven] trunc_spec [OF assms]
  by (simp add: rounded_int_def)

theorem to_integral_and_trunc_witness:
  "canonical \<lparr>neg_bit = True, mantissa = 25, scale = 1\<rparr>
   \<and> (\<exists>m. to_integral \<lparr>neg_bit = True, mantissa = 25, scale = 1\<rparr> Floor = Ok m
        \<and> mval m = of_int \<lfloor>mval \<lparr>neg_bit = True, mantissa = 25, scale = 1\<rparr>\<rfloor>)"
  using to_integral_and_trunc [of "\<lparr>neg_bit = True, mantissa = 25, scale = 1\<rparr>"]
  by (auto simp: canonical_def MANTISSA_LIMIT_def MAX_SCALE_def)

text \<open>
  \<open>quantize\<close> answers a multiple of \<open>10 powi ex\<close>: the value rounded at that place in
  the given mode.
\<close>

theorem quantize_correct:
  assumes "canonical x" and "quantize_round x ex mode = Ok m"
  shows "canonical m \<and> mval m = rounded_int mode (mval x / 10 powi ex) * 10 powi ex"
  by (rule quantize_spec [OF assms])

theorem quantize_correct_witness:
  "canonical \<lparr>neg_bit = False, mantissa = 2675, scale = 3\<rparr>
   \<and> quantize_round \<lparr>neg_bit = False, mantissa = 2675, scale = 3\<rparr> (- 2) HalfEven = Ok \<lparr>neg_bit = False, mantissa = 268, scale = 2\<rparr>
   \<and> mval \<lparr>neg_bit = False, mantissa = 268, scale = 2\<rparr>
      = rounded_int HalfEven (mval \<lparr>neg_bit = False, mantissa = 2675, scale = 3\<rparr> / 10 powi (- 2)) * 10 powi (- 2)"
proof -
  have a: "canonical \<lparr>neg_bit = False, mantissa = 2675, scale = 3\<rparr>"
    by (simp add: canonical_def MANTISSA_LIMIT_def MAX_SCALE_def)
  have b: "quantize_round \<lparr>neg_bit = False, mantissa = 2675, scale = 3\<rparr> (- 2) HalfEven
      = Ok \<lparr>neg_bit = False, mantissa = 268, scale = 2\<rparr>" by code_simp
  from a b quantize_correct [OF a b] show ?thesis by blast
qed

end
