(* ===== verification/Ledger_Ops.thy ===== *)
theory Ledger_Ops
  imports Money_Ops
begin

section \<open>Amount operations and ordered maps of the ledger: \<open>ledger/ops.rs\<close>\<close>

text \<open>
  The refusals of the ledger (\<open>LErr\<close> of \<open>model.rs\<close>), the amount operations in the form the fold
  uses them, and \<open>OMap\<close>, the insertion-ordered map the folded state is built from. A refusal
  carries the kind the source gives it and the fixed part of its message; the interpolated
  values of the message text are left out. Comparisons never refuse, so they are plain
  predicates (\<open>money_lt\<close>, \<open>money_le\<close>, \<open>money_eq\<close>).

  \<open>OMap\<close> is kept as the source has it, the vector of entries beside the index from key to
  position and the journal of changed positions; the lemmas show that the index and the vector
  agree after every operation and that the journal names every entry that changed.
\<close>

datatype lerr = LErr (err_kind: string) (err_msg: string)

type_synonym 'a lres = "('a, lerr) result"

definition lerr :: "string \<Rightarrow> string \<Rightarrow> 'a lres" where
  "lerr kind msg = Err (LErr kind msg)"

fun derr :: "dec_err \<Rightarrow> lerr" where
  "derr InvalidOperation = LErr ''invalid_operation'' []"
| "derr DivisionByZero = LErr ''division_by_zero'' []"
| "derr Overflow = LErr ''overflow'' []"
| "derr (Unsupported s) = LErr ''unsupported'' s"
| "derr DecPanic = LErr ''panic'' []"

definition dint :: "int \<Rightarrow> money lres" where
  "dint n = map_err derr (from_i128 n)"

definition dadd :: "money \<Rightarrow> money \<Rightarrow> money lres" where
  "dadd a b = map_err derr (money_add a b)"

definition dsub :: "money \<Rightarrow> money \<Rightarrow> money lres" where
  "dsub a b = map_err derr (money_sub a b)"

definition dmul :: "money \<Rightarrow> money \<Rightarrow> money lres" where
  "dmul a b = map_err derr (money_mul a b)"

definition dmul_i :: "money \<Rightarrow> int \<Rightarrow> money lres" where
  "dmul_i a n = map_err derr (mul_i128 a n)"

definition ddiv :: "money \<Rightarrow> money \<Rightarrow> money lres" where
  "ddiv a b = map_err derr (money_div a b)"

definition ddiv_i :: "money \<Rightarrow> int \<Rightarrow> money lres" where
  "ddiv_i a n = and_then (dint n) (\<lambda>d. map_err derr (money_div a d))"

definition dneg :: "money \<Rightarrow> money lres" where
  "dneg a = map_err derr (money_neg a)"

definition dabs :: "money \<Rightarrow> money lres" where
  "dabs a = map_err derr (money_abs a)"

subsection \<open>The interface of the amounts\<close>

text \<open>
  What the clients of the amounts rely on. An operation keeps amounts well formed; whenever it
  answers, it answers for the rounded exact result; and on a value that is held exactly it
  answers, without rounding.
\<close>

locale amounts =
  fixes wf :: "'m \<Rightarrow> bool" and val :: "'m \<Rightarrow> rat" and exact :: "rat \<Rightarrow> bool"
    and rnd :: "rat \<Rightarrow> rat \<Rightarrow> bool" and zero :: 'm
    and add :: "'m \<Rightarrow> 'm \<Rightarrow> ('m, 'e) result" and sub :: "'m \<Rightarrow> 'm \<Rightarrow> ('m, 'e) result"
    and mul :: "'m \<Rightarrow> 'm \<Rightarrow> ('m, 'e) result"
  assumes wf_zero: "wf zero" and val_zero: "val zero = 0"
    and wf_inject: "wf a \<Longrightarrow> wf b \<Longrightarrow> val a = val b \<Longrightarrow> a = b"
    and rnd_exact: "exact v \<Longrightarrow> rnd v w \<longleftrightarrow> w = v"
    and add_Ok: "wf a \<Longrightarrow> wf b \<Longrightarrow> add a b = Ok c \<Longrightarrow> wf c \<and> rnd (val a + val b) (val c)"
    and sub_Ok: "wf a \<Longrightarrow> wf b \<Longrightarrow> sub a b = Ok c \<Longrightarrow> wf c \<and> rnd (val a - val b) (val c)"
    and mul_Ok: "wf a \<Longrightarrow> wf b \<Longrightarrow> mul a b = Ok c \<Longrightarrow> wf c \<and> rnd (val a * val b) (val c)"
    and add_total: "wf a \<Longrightarrow> wf b \<Longrightarrow> exact (val a + val b) \<Longrightarrow> \<exists>c. add a b = Ok c"
    and sub_total: "wf a \<Longrightarrow> wf b \<Longrightarrow> exact (val a - val b) \<Longrightarrow> \<exists>c. sub a b = Ok c"
    and mul_total: "wf a \<Longrightarrow> wf b \<Longrightarrow> exact (val a * val b) \<Longrightarrow> \<exists>c. mul a b = Ok c"
begin

lemma add_exact:
  assumes "wf a" "wf b" "exact (val a + val b)"
  shows "\<exists>c. add a b = Ok c \<and> wf c \<and> val c = val a + val b"
  using add_total [OF assms] add_Ok [OF assms(1,2)] rnd_exact [OF assms(3)] by blast

lemma sub_exact:
  assumes "wf a" "wf b" "exact (val a - val b)"
  shows "\<exists>c. sub a b = Ok c \<and> wf c \<and> val c = val a - val b"
  using sub_total [OF assms] sub_Ok [OF assms(1,2)] rnd_exact [OF assms(3)] by blast

lemma mul_exact:
  assumes "wf a" "wf b" "exact (val a * val b)"
  shows "\<exists>c. mul a b = Ok c \<and> wf c \<and> val c = val a * val b"
  using mul_total [OF assms] mul_Ok [OF assms(1,2)] rnd_exact [OF assms(3)] by blast

lemma add_exact_eq: "wf a \<Longrightarrow> wf b \<Longrightarrow> exact (val a + val b) \<Longrightarrow> add a b = Ok c \<Longrightarrow> wf c \<and> val c = val a + val b"
  using add_Ok rnd_exact by blast

lemma sub_exact_eq: "wf a \<Longrightarrow> wf b \<Longrightarrow> exact (val a - val b) \<Longrightarrow> sub a b = Ok c \<Longrightarrow> wf c \<and> val c = val a - val b"
  using sub_Ok rnd_exact by blast

text \<open>Adding nothing, and taking everything, are exact on amounts held exactly.\<close>

lemma add_zero: "wf a \<Longrightarrow> exact (val a) \<Longrightarrow> add zero a = Ok a"
  using add_exact [of zero a] wf_zero val_zero wf_inject by fastforce

lemma sub_self: "wf a \<Longrightarrow> exact 0 \<Longrightarrow> sub a a = Ok zero"
  using sub_exact [of a a] wf_zero val_zero wf_inject by fastforce

text \<open>A running total answers the sum when its partial sums are held exactly.\<close>

lemma running_total:
  assumes "\<And>x. x \<in> set xs \<Longrightarrow> wf x" and "wf acc"
    and "\<And>k. k \<le> length xs \<Longrightarrow> exact (val acc + sum_list (map val (take k xs)))"
  shows "\<exists>t. fold_r add acc xs = Ok t \<and> wf t \<and> val t = val acc + sum_list (map val xs)"
  using assms
proof (induction xs arbitrary: acc)
  case (Cons x xs)
  have "exact (val acc + val x)" using Cons.prems(3) [of 1] by simp
  then obtain c where c: "add acc x = Ok c" "wf c" "val c = val acc + val x"
    using add_exact Cons.prems(1,2) by (meson list.set_intros(1))
  have "\<exists>t. fold_r add c xs = Ok t \<and> wf t \<and> val t = val c + sum_list (map val xs)"
  proof (rule Cons.IH)
    show "exact (val c + sum_list (map val (take k xs)))" if "k \<le> length xs" for k
      using Cons.prems(3) [of "Suc k"] that c(3) by (simp add: add.assoc)
  qed (use Cons.prems(1) c(2) in auto)
  with c show ?case by (auto simp: add.assoc)
qed simp

end

lemma computes_total:
  "computes r v \<Longrightarrow> exact_value v \<Longrightarrow> \<exists>c. map_err derr r = Ok c"
  using computes_exact by fastforce

lemma computes_answer:
  "computes r v \<Longrightarrow> map_err derr r = Ok c \<Longrightarrow> canonical c \<and> rounds_to v (mval c)"
  using computes_Ok by auto

interpretation amt: amounts canonical mval exact_value rounds_to ZERO dadd dsub dmul
proof
  show "canonical ZERO" "mval ZERO = 0" by simp_all
  show "canonical a \<Longrightarrow> canonical b \<Longrightarrow> mval a = mval b \<Longrightarrow> a = b" for a b
    by (rule canonical_unique)
  show "exact_value v \<Longrightarrow> rounds_to v w \<longleftrightarrow> w = v" for v w
    using rounds_to_exact rounds_to_unique by blast
  show "dadd a b = Ok c \<Longrightarrow> canonical c \<and> rounds_to (mval a + mval b) (mval c)"
    if "canonical a" "canonical b" for a b c
    unfolding dadd_def by (rule computes_answer [OF computes_add [OF that]])
  show "dsub a b = Ok c \<Longrightarrow> canonical c \<and> rounds_to (mval a - mval b) (mval c)"
    if "canonical a" "canonical b" for a b c
    unfolding dsub_def by (rule computes_answer [OF computes_sub [OF that]])
  show "dmul a b = Ok c \<Longrightarrow> canonical c \<and> rounds_to (mval a * mval b) (mval c)"
    if "canonical a" "canonical b" for a b c
    unfolding dmul_def by (rule computes_answer [OF computes_mul [OF that]])
  show "exact_value (mval a + mval b) \<Longrightarrow> \<exists>c. dadd a b = Ok c"
    if "canonical a" "canonical b" for a b
    unfolding dadd_def by (rule computes_total [OF computes_add [OF that]])
  show "exact_value (mval a - mval b) \<Longrightarrow> \<exists>c. dsub a b = Ok c"
    if "canonical a" "canonical b" for a b
    unfolding dsub_def by (rule computes_total [OF computes_sub [OF that]])
  show "exact_value (mval a * mval b) \<Longrightarrow> \<exists>c. dmul a b = Ok c"
    if "canonical a" "canonical b" for a b
    unfolding dmul_def by (rule computes_total [OF computes_mul [OF that]])
qed

lemma dneg_Ok: "canonical a \<Longrightarrow> dneg a = Ok c \<Longrightarrow> canonical c \<and> rounds_to (- mval a) (mval c)"
  unfolding dneg_def by (rule computes_answer [OF computes_neg])

lemma dabs_Ok: "canonical a \<Longrightarrow> dabs a = Ok c \<Longrightarrow> canonical c \<and> rounds_to \<bar>mval a\<bar> (mval c)"
  unfolding dabs_def by (rule computes_answer [OF computes_abs])

lemma ddiv_Ok:
  assumes "canonical a" "canonical b" "ddiv a b = Ok c"
  shows "canonical c \<and> mval b \<noteq> 0 \<and> rounds_to (mval a / mval b) (mval c)"
proof -
  have nz: "mval b \<noteq> 0"
  proof
    assume "mval b = 0"
    with assms(2,3) show False by (simp add: ddiv_def money_div_zero)
  qed
  have "canonical c \<and> rounds_to (mval a / mval b) (mval c)"
    using computes_div [OF assms(1,2) nz] assms(3) unfolding ddiv_def by (rule computes_answer)
  with nz show ?thesis by simp
qed

lemma dint_iff: "dint n = Ok c \<longleftrightarrow> canonical c \<and> mval c = of_int n"
  by (simp add: dint_def from_i128_iff)

lemma ddiv_i_Ok:
  "canonical a \<Longrightarrow> ddiv_i a n = Ok c \<Longrightarrow> canonical c \<and> n \<noteq> 0 \<and> rounds_to (mval a / of_int n) (mval c)"
proof -
  assume a: "canonical a" and c: "ddiv_i a n = Ok c"
  then obtain d where d: "dint n = Ok d" and q: "ddiv a d = Ok c" by (auto simp: ddiv_i_def ddiv_def)
  then have "canonical d" "mval d = of_int n" by (auto simp: dint_iff)
  with ddiv_Ok [OF a _ q] show ?thesis by auto
qed

lemma dmul_i_Ok:
  "canonical a \<Longrightarrow> dmul_i a n = Ok c \<Longrightarrow> canonical c \<and> rounds_to (mval a * of_int n) (mval c)"
proof -
  assume a: "canonical a" and c: "dmul_i a n = Ok c"
  then obtain k where "from_i128 n = Ok k" by (auto simp: dmul_i_def mul_i128_def)
  from mul_i128_computes [OF a this] c show ?thesis unfolding dmul_i_def by (rule computes_answer)
qed

lemmas dec_canonical = amt.add_Ok [THEN conjunct1] amt.sub_Ok [THEN conjunct1] amt.mul_Ok [THEN conjunct1]
  dneg_Ok [THEN conjunct1] dabs_Ok [THEN conjunct1] ddiv_Ok [THEN conjunct1] ddiv_i_Ok [THEN conjunct1]
  dmul_i_Ok [THEN conjunct1]

subsection \<open>Insertion-ordered maps\<close>

record ('k, 'v) omap =
  om_items :: "(string \<times> 'k \<times> 'v) list"
  om_index :: "string \<rightharpoonup> nat"
  om_dirty :: "nat set"
  om_rebuilt :: bool

definition omap_new :: "('k, 'v) omap" where
  "omap_new = \<lparr>om_items = [], om_index = Map.empty, om_dirty = {}, om_rebuilt = False\<rparr>"

definition omap_len :: "('k, 'v) omap \<Rightarrow> nat" where
  "omap_len m = length (om_items m)"

definition omap_is_empty :: "('k, 'v) omap \<Rightarrow> bool" where
  "omap_is_empty m \<longleftrightarrow> om_items m = []"

definition omap_get :: "('k, 'v) omap \<Rightarrow> string \<Rightarrow> 'v option" where
  "omap_get m hk = map_option (\<lambda>i. snd (snd (om_items m ! i))) (om_index m hk)"

text \<open>\<open>get_mut\<close> hands out the slot; \<open>f\<close> is what the caller writes through it.\<close>

definition omap_get_mut :: "('v \<Rightarrow> 'v) \<Rightarrow> ('k, 'v) omap \<Rightarrow> string \<Rightarrow> ('k, 'v) omap" where
  "omap_get_mut f m hk =
     (case om_index m hk of
        Some i \<Rightarrow>
          m\<lparr>om_dirty := insert i (om_dirty m),
            om_items := (om_items m)[i := (case om_items m ! i of (h, k, v) \<Rightarrow> (h, k, f v))]\<rparr>
      | None \<Rightarrow> m)"

definition omap_contains :: "('k, 'v) omap \<Rightarrow> string \<Rightarrow> bool" where
  "omap_contains m hk \<longleftrightarrow> om_index m hk \<noteq> None"

definition omap_insert :: "('k, 'v) omap \<Rightarrow> string \<Rightarrow> 'k \<Rightarrow> 'v \<Rightarrow> ('k, 'v) omap" where
  "omap_insert m hk key value =
     (case om_index m hk of
        Some i \<Rightarrow>
          m\<lparr>om_dirty := insert i (om_dirty m),
            om_items := (om_items m)[i := (case om_items m ! i of (h, k, v) \<Rightarrow> (h, k, value))]\<rparr>
      | None \<Rightarrow>
          m\<lparr>om_dirty := insert (length (om_items m)) (om_dirty m),
            om_index := (om_index m)(hk \<mapsto> length (om_items m)),
            om_items := om_items m @ [(hk, key, value)]\<rparr>)"

definition omap_remove :: "('k, 'v) omap \<Rightarrow> string \<Rightarrow> 'v option \<times> ('k, 'v) omap" where
  "omap_remove m hk =
     (case om_index m hk of
        None \<Rightarrow> (None, m)
      | Some i \<Rightarrow>
          (Some (snd (snd (om_items m ! i))),
           m\<lparr>om_index := (\<lambda>k. map_option (\<lambda>slot. if slot > i then slot - 1 else slot)
                               (((om_index m)(hk := None)) k)),
             om_items := take i (om_items m) @ drop (Suc i) (om_items m),
             om_rebuilt := True, om_dirty := {}\<rparr>))"

definition take_journal :: "('k, 'v) omap \<Rightarrow> (bool \<times> nat list) \<times> ('k, 'v) omap" where
  "take_journal m =
     ((om_rebuilt m, if om_rebuilt m then [] else sorted_list_of_set (om_dirty m)),
      m\<lparr>om_rebuilt := False, om_dirty := {}\<rparr>)"

definition entry_at :: "('k, 'v) omap \<Rightarrow> nat \<Rightarrow> 'k \<times> 'v" where
  "entry_at m i = (case om_items m ! i of (h, k, v) \<Rightarrow> (k, v))"

definition omap_iter :: "('k, 'v) omap \<Rightarrow> ('k \<times> 'v) list" where
  "omap_iter m = map (\<lambda>(h, k, v). (k, v)) (om_items m)"

definition omap_values :: "('k, 'v) omap \<Rightarrow> 'v list" where
  "omap_values m = map (\<lambda>(h, k, v). v) (om_items m)"

definition omap_put :: "(string, 'v) omap \<Rightarrow> string \<Rightarrow> 'v \<Rightarrow> (string, 'v) omap" where
  "omap_put m key value = omap_insert m key key value"

text \<open>The keys in insertion order, and the agreement of index and vector.\<close>

definition omap_keys :: "('k, 'v) omap \<Rightarrow> string list" where
  "omap_keys m = map fst (om_items m)"

definition omap_inv :: "('k, 'v) omap \<Rightarrow> bool" where
  "omap_inv m \<longleftrightarrow>
     distinct (omap_keys m)
     \<and> (\<forall>k i. om_index m k = Some i \<longleftrightarrow> i < length (om_items m) \<and> fst (om_items m ! i) = k)
     \<and> om_dirty m \<subseteq> {..< length (om_items m)}"

lemma omap_inv_new [simp]: "omap_inv omap_new"
  by (simp add: omap_inv_def omap_new_def omap_keys_def)

lemma omap_get_new [simp]: "omap_get omap_new k = None"
  by (simp add: omap_get_def omap_new_def)

lemma omap_contains_get: "omap_contains m k \<longleftrightarrow> omap_get m k \<noteq> None"
  by (simp add: omap_contains_def omap_get_def)

lemma omap_index_None: "omap_inv m \<Longrightarrow> om_index m k = None \<longleftrightarrow> k \<notin> set (omap_keys m)"
proof -
  assume "omap_inv m"
  then have "(\<exists>i. om_index m k = Some i) \<longleftrightarrow> k \<in> set (omap_keys m)"
    by (auto simp: omap_inv_def omap_keys_def in_set_conv_nth simp del: set_map)
  then show ?thesis by (cases "om_index m k") auto
qed

lemma omap_get_None: "omap_inv m \<Longrightarrow> omap_get m k = None \<longleftrightarrow> k \<notin> set (omap_keys m)"
  by (simp add: omap_get_def omap_index_None)

text \<open>Writing a slot through the index: one lemma for \<open>insert\<close> on a known key and \<open>get_mut\<close>.\<close>

lemma omap_write:
  fixes m :: "('k, 'v) omap" and f :: "'v \<Rightarrow> 'v"
  assumes m: "omap_inv m" and i: "om_index m hk = Some i"
  defines "m' \<equiv> m\<lparr>om_dirty := insert i (om_dirty m),
      om_items := (om_items m)[i := (case om_items m ! i of (h, k, v) \<Rightarrow> (h, k, f v))]\<rparr>"
  shows "omap_inv m'" and "omap_keys m' = omap_keys m"
    and "omap_get m' k' = (if k' = hk then map_option f (omap_get m hk) else omap_get m k')"
proof -
  have il: "i < length (om_items m)" and ik: "fst (om_items m ! i) = hk"
    using m i by (auto simp: omap_inv_def)
  have keys: "map fst (om_items m') = map fst (om_items m)"
    using il by (auto simp: m'_def map_update list_update_same_conv split: prod.splits)
  then show "omap_keys m' = omap_keys m" by (simp add: omap_keys_def)
  have "fst (om_items m' ! j) = fst (om_items m ! j)" if "j < length (om_items m)" for j
    using keys that by (metis length_map nth_map)
  then show "omap_inv m'"
    using m il keys unfolding omap_inv_def omap_keys_def by (auto simp: m'_def)
  show "omap_get m' k' = (if k' = hk then map_option f (omap_get m hk) else omap_get m k')"
  proof (cases "k' = hk")
    case True
    with i il show ?thesis by (simp add: omap_get_def m'_def split: prod.splits)
  next
    case False
    then have "om_index m k' \<noteq> Some i" using m i ik by (metis omap_inv_def)
    with False show ?thesis
      by (cases "om_index m k'") (auto simp: omap_get_def m'_def nth_list_update)
  qed
qed

lemma omap_push:
  fixes m :: "('k, 'v) omap" and key :: 'k and v :: 'v
  assumes m: "omap_inv m" and i: "om_index m hk = None"
  defines "m' \<equiv> m\<lparr>om_dirty := insert (length (om_items m)) (om_dirty m),
      om_index := (om_index m)(hk \<mapsto> length (om_items m)), om_items := om_items m @ [(hk, key, v)]\<rparr>"
  shows "omap_inv m'" and "omap_keys m' = omap_keys m @ [hk]"
    and "omap_get m' k' = (if k' = hk then Some v else omap_get m k')"
proof -
  have new: "hk \<notin> set (omap_keys m)" using omap_index_None [OF m] i by simp
  then have other: "fst (om_items m ! j) \<noteq> hk" if "j < length (om_items m)" for j
    using that new unfolding omap_keys_def by (metis length_map nth_map nth_mem)
  show "omap_keys m' = omap_keys m @ [hk]" by (simp add: omap_keys_def m'_def)
  then show "omap_inv m'"
    using m new other
    unfolding omap_inv_def m'_def by (auto simp: nth_append less_Suc_eq split: if_splits)
  have "j < length (om_items m)" if "om_index m k = Some j" for k j using m that by (auto simp: omap_inv_def)
  then show "omap_get m' k' = (if k' = hk then Some v else omap_get m k')"
    by (cases "om_index m k'") (auto simp: omap_get_def m'_def nth_append)
qed

lemma omap_inv_insert [simp]: "omap_inv m \<Longrightarrow> omap_inv (omap_insert m hk key v)"
  using omap_write(1) [of m hk _ "\<lambda>_. v"] omap_push(1) [of m hk]
  by (cases "om_index m hk") (auto simp: omap_insert_def)

lemma omap_get_insert [omap_simps]:
  "omap_inv m \<Longrightarrow> omap_get (omap_insert m hk key v) k' = (if k' = hk then Some v else omap_get m k')"
proof (cases "om_index m hk")
  case None
  assume "omap_inv m"
  from omap_push(3) [OF this None] None show ?thesis by (simp add: omap_insert_def)
next
  case (Some i)
  assume "omap_inv m"
  from omap_write(3) [OF this Some, of "\<lambda>_. v"] Some show ?thesis
    by (simp add: omap_insert_def omap_get_def)
qed

lemma omap_keys_insert:
  "omap_inv m \<Longrightarrow> omap_keys (omap_insert m hk key v) =
     (if omap_contains m hk then omap_keys m else omap_keys m @ [hk])"
  using omap_write(2) [of m hk _ "\<lambda>_. v"] omap_push(2) [of m hk]
  by (cases "om_index m hk") (auto simp: omap_insert_def omap_contains_def)

lemma omap_inv_get_mut [simp]: "omap_inv m \<Longrightarrow> omap_inv (omap_get_mut f m hk)"
  using omap_write(1) [of m hk _ f] by (cases "om_index m hk") (auto simp: omap_get_mut_def)

lemma omap_get_get_mut [omap_simps]:
  "omap_inv m \<Longrightarrow> omap_get (omap_get_mut f m hk) k' = (if k' = hk then map_option f (omap_get m hk) else omap_get m k')"
  using omap_write(3) [of m hk _ f]
  by (cases "om_index m hk") (auto simp: omap_get_mut_def omap_get_def)

lemma omap_inv_put [simp]: "omap_inv m \<Longrightarrow> omap_inv (omap_put m k v)"
  by (simp add: omap_put_def)

lemma omap_get_put [omap_simps]:
  "omap_inv m \<Longrightarrow> omap_get (omap_put m k v) k' = (if k' = k then Some v else omap_get m k')"
  by (simp add: omap_put_def omap_get_insert)

lemma omap_remove_known:
  fixes m :: "('k, 'v) omap"
  assumes m: "omap_inv m" and i: "om_index m hk = Some i"
  defines "m' \<equiv> snd (omap_remove m hk)"
  shows "omap_inv m'" and "omap_keys m' = removeAll hk (omap_keys m)"
    and "omap_get m' k' = (if k' = hk then None else omap_get m k')"
proof -
  let ?xs = "om_items m"
  have il: "i < length ?xs" and ik: "fst (?xs ! i) = hk" and dist: "distinct (map fst ?xs)"
    and idx: "\<And>k j. om_index m k = Some j \<longleftrightarrow> j < length ?xs \<and> fst (?xs ! j) = k"
    using m i by (auto simp: omap_inv_def omap_keys_def)
  have items: "om_items m' = take i ?xs @ drop (Suc i) ?xs" using i by (simp add: m'_def omap_remove_def)
  have split: "?xs = take i ?xs @ ?xs ! i # drop (Suc i) ?xs" using il by (rule id_take_nth_drop)
  have nth: "om_items m' ! j = ?xs ! (if j < i then j else Suc j)" if "j < length ?xs - 1" for j
    using that il unfolding items by (auto simp: nth_append min_def)
  have len: "length (om_items m') = length ?xs - 1" using il unfolding items by (simp add: min_def)
  have key_i: "fst (?xs ! j) = hk \<longleftrightarrow> j = i" if "j < length ?xs" for j
    using idx i that by (metis option.inject)
  have index: "om_index m' k = Some j \<longleftrightarrow> j < length (om_items m') \<and> fst (om_items m' ! j) = k" for k j
  proof (cases "k = hk")
    case True
    then have "om_index m' k = None" using i by (simp add: m'_def omap_remove_def)
    moreover have "fst (om_items m' ! j) \<noteq> hk" if "j < length ?xs - 1"
      using key_i [of "if j < i then j else Suc j"] that nth [OF that] by (auto split: if_splits)
    ultimately show ?thesis using True len by auto
  next
    case False
    then have im': "om_index m' k = map_option (\<lambda>slot. if slot > i then slot - 1 else slot) (om_index m k)"
      using i by (simp add: m'_def omap_remove_def)
    show ?thesis
    proof
      assume "om_index m' k = Some j"
      then obtain s where s: "om_index m k = Some s" "j = (if s > i then s - 1 else s)" using im' by auto
      have sk: "s < length ?xs" "fst (?xs ! s) = k" using idx s(1) by auto
      then have "s \<noteq> i" using False ik by auto
      with s(2) sk il have "j < length ?xs - 1" "(if j < i then j else Suc j) = s" by (auto split: if_splits)
      with nth sk len show "j < length (om_items m') \<and> fst (om_items m' ! j) = k" by simp
    next
      assume a: "j < length (om_items m') \<and> fst (om_items m' ! j) = k"
      let ?s = "if j < i then j else Suc j"
      have "?s < length ?xs" "fst (?xs ! ?s) = k" using a nth len by auto
      then have "om_index m k = Some ?s" using idx by simp
      then show "om_index m' k = Some j" unfolding im' by auto
    qed
  qed
  show keys: "omap_keys m' = removeAll hk (omap_keys m)"
  proof -
    have m1: "map fst ?xs = map fst (take i ?xs) @ hk # map fst (drop (Suc i) ?xs)"
      using arg_cong [OF split, of "map fst"] ik by simp
    have "hk \<notin> set (map fst (take i ?xs))" "hk \<notin> set (map fst (drop (Suc i) ?xs))"
      using dist unfolding m1 by simp_all
    moreover note m1
    ultimately show ?thesis unfolding omap_keys_def items by simp
  qed
  have "distinct (omap_keys m')" unfolding keys using dist by (simp add: omap_keys_def distinct_removeAll)
  with index show "omap_inv m'" unfolding omap_inv_def using i by (simp add: m'_def omap_remove_def)
  show "omap_get m' k' = (if k' = hk then None else omap_get m k')"
  proof (cases "k' = hk \<or> om_index m k' = None")
    case True
    then show ?thesis using i by (auto simp: omap_get_def m'_def omap_remove_def)
  next
    case False
    then obtain s where s: "om_index m k' = Some s" by auto
    let ?j = "if s > i then s - 1 else s"
    have im: "om_index m' k' = Some ?j" using False s i by (simp add: m'_def omap_remove_def)
    then have j: "?j < length ?xs - 1" using index len by metis
    have "s \<noteq> i" using s i False ik idx by metis
    then have "(if ?j < i then ?j else Suc ?j) = s" by auto
    with nth [OF j] have "om_items m' ! ?j = ?xs ! s" by simp
    with im s False show ?thesis by (simp add: omap_get_def)
  qed
qed

lemma omap_remove_unknown: "om_index m hk = None \<Longrightarrow> omap_remove m hk = (None, m)"
  by (simp add: omap_remove_def)

lemma omap_inv_remove [simp]: "omap_inv m \<Longrightarrow> omap_inv (snd (omap_remove m hk))"
  using omap_remove_known(1) by (cases "om_index m hk") (auto simp: omap_remove_unknown)

lemma omap_get_remove [omap_simps]:
  "omap_inv m \<Longrightarrow> omap_get (snd (omap_remove m hk)) k' = (if k' = hk then None else omap_get m k')"
proof (cases "om_index m hk")
  case None
  then show ?thesis by (simp add: omap_remove_unknown omap_get_def)
next
  case (Some i)
  assume "omap_inv m"
  from omap_remove_known(3) [OF this Some] show ?thesis .
qed

lemma omap_keys_remove: "omap_inv m \<Longrightarrow> omap_keys (snd (omap_remove m hk)) = removeAll hk (omap_keys m)"
  using omap_remove_known(2) omap_index_None [of m hk]
  by (cases "om_index m hk") (auto simp: omap_remove_unknown removeAll_id)

subsection \<open>The interface of an ordered map\<close>

text \<open>
  What the fold relies on: lookups see the last write, a known key keeps its place, a new key
  goes to the end, a removed key leaves the others in order.
\<close>

locale ordered_map =
  fixes inv :: "'m \<Rightarrow> bool" and get :: "'m \<Rightarrow> string \<Rightarrow> 'v option" and keys :: "'m \<Rightarrow> string list"
    and new :: 'm and ins :: "'m \<Rightarrow> string \<Rightarrow> 'v \<Rightarrow> 'm" and del :: "'m \<Rightarrow> string \<Rightarrow> 'm"
  assumes inv_new: "inv new" and get_new: "get new k = None" and keys_new: "keys new = []"
    and inv_ins: "inv m \<Longrightarrow> inv (ins m k v)"
    and get_ins: "inv m \<Longrightarrow> get (ins m k v) k' = (if k' = k then Some v else get m k')"
    and keys_ins: "inv m \<Longrightarrow> keys (ins m k v) = (if k \<in> set (keys m) then keys m else keys m @ [k])"
    and inv_del: "inv m \<Longrightarrow> inv (del m k)"
    and get_del: "inv m \<Longrightarrow> get (del m k) k' = (if k' = k then None else get m k')"
    and keys_del: "inv m \<Longrightarrow> keys (del m k) = removeAll k (keys m)"
begin

text \<open>Writing a list of entries one after the other.\<close>

lemma inv_ins_list: "inv m \<Longrightarrow> inv (foldl (\<lambda>a (k, v). ins a k v) m kvs)"
  by (induction kvs arbitrary: m) (auto simp: inv_ins)

lemma get_ins_list:
  "inv m \<Longrightarrow> get (foldl (\<lambda>a (k, v). ins a k v) m kvs) k' =
     (case map_of (rev kvs) k' of Some v \<Rightarrow> Some v | None \<Rightarrow> get m k')"
proof (induction kvs arbitrary: m)
  case (Cons kv kvs)
  obtain k v where kv: "kv = (k, v)" by (cases kv)
  have "get (foldl (\<lambda>a (k, v). ins a k v) (ins m k v) kvs) k' =
      (case map_of (rev kvs) k' of Some v \<Rightarrow> Some v | None \<Rightarrow> get (ins m k v) k')"
    using Cons by (simp add: inv_ins)
  then show ?case using Cons.prems kv
    by (auto simp: get_ins map_add_def split: option.splits)
qed simp

text \<open>A key that is written again after its removal goes to the end.\<close>

lemma reinsert_last: "inv m \<Longrightarrow> k \<in> set (keys m) \<Longrightarrow> keys (ins (del m k) k v) = removeAll k (keys m) @ [k]"
  by (simp add: inv_del keys_ins keys_del)

end

lemma omap_keys_put:
  "omap_inv m \<Longrightarrow> omap_keys (omap_put m k v) = (if k \<in> set (omap_keys m) then omap_keys m else omap_keys m @ [k])"
  by (simp add: omap_put_def omap_keys_insert omap_contains_def omap_index_None)

lemma omap_keys_new [simp]: "omap_keys omap_new = []"
  by (simp add: omap_keys_def omap_new_def)

interpretation om: ordered_map omap_inv omap_get omap_keys omap_new omap_put "\<lambda>m k. snd (omap_remove m k)"
  by unfold_locales (simp_all only: omap_inv_new omap_get_new omap_keys_new omap_inv_put omap_get_put
      omap_keys_put omap_inv_remove omap_get_remove omap_keys_remove)

subsection \<open>The journal\<close>

text \<open>
  A mirror of the map outside the ledger is refreshed from \<open>take_journal\<close>: it rewrites the slots
  the journal names, or all of them when the map was rebuilt. The step relation is every way the
  map changes between two readings of the journal.
\<close>

inductive omap_step :: "('k, 'v) omap \<Rightarrow> ('k, 'v) omap \<Rightarrow> bool" where
  step_insert: "omap_step m (omap_insert m hk key v)"
| step_get_mut: "omap_step m (omap_get_mut f m hk)"
| step_remove: "omap_step m (snd (omap_remove m hk))"

inductive_cases omap_stepE: "omap_step m m'"

definition journal_covers :: "('k, 'v) omap \<Rightarrow> ('k, 'v) omap \<Rightarrow> bool" where
  "journal_covers m0 m \<longleftrightarrow> om_rebuilt m \<or>
     length (om_items m0) \<le> length (om_items m) \<and>
     (\<forall>i < length (om_items m). i \<in> om_dirty m \<or> i < length (om_items m0) \<and> om_items m ! i = om_items m0 ! i)"

lemma omap_step_inv: "omap_step m m' \<Longrightarrow> omap_inv m \<Longrightarrow> omap_inv m'"
  by (erule omap_stepE) simp_all

lemma journal_covers_insert: "journal_covers m0 m \<Longrightarrow> journal_covers m0 (omap_insert m hk key v)"
  by (cases "om_index m hk")
    (auto simp: journal_covers_def omap_insert_def nth_list_update nth_append less_Suc_eq)

lemma journal_covers_get_mut: "journal_covers m0 m \<Longrightarrow> journal_covers m0 (omap_get_mut f m hk)"
  by (cases "om_index m hk") (auto simp: journal_covers_def omap_get_mut_def nth_list_update)

lemma journal_covers_remove: "journal_covers m0 m \<Longrightarrow> journal_covers m0 (snd (omap_remove m hk))"
  by (cases "om_index m hk") (auto simp: journal_covers_def omap_remove_def)

lemma journal_covers_steps:
  assumes "omap_step\<^sup>*\<^sup>* m m'" "omap_inv m" "journal_covers m0 m"
  shows "omap_inv m' \<and> journal_covers m0 m'"
  using assms
proof (induction rule: rtranclp_induct)
  case (step y z)
  then have y: "omap_inv y" "journal_covers m0 y" by auto
  with step.hyps(2) have "journal_covers m0 z"
    by (auto elim!: omap_stepE simp: journal_covers_insert journal_covers_get_mut journal_covers_remove)
  with omap_step_inv [OF step.hyps(2) y(1)] show ?case by simp
qed simp

lemma journal_after_take: "journal_covers m (snd (take_journal m))"
  by (simp add: journal_covers_def take_journal_def)

lemma take_journal_inv: "omap_inv m \<Longrightarrow> omap_inv (snd (take_journal m))"
  by (auto simp: omap_inv_def take_journal_def omap_keys_def)

text \<open>What the reader of the journal does with a copy of the entries.\<close>

definition refresh :: "('k, 'v) omap \<Rightarrow> bool \<times> nat list \<Rightarrow> ('k \<times> 'v) list \<Rightarrow> ('k \<times> 'v) list" where
  "refresh m j copy =
     (if fst j then omap_iter m
      else map (\<lambda>i. if i \<in> set (snd j) then entry_at m i else copy ! i) [0..<omap_len m])"

lemma refresh_current:
  assumes "journal_covers m0 m" "omap_inv m"
  shows "refresh m (fst (take_journal m)) (omap_iter m0) = omap_iter m"
proof (cases "om_rebuilt m")
  case True
  then show ?thesis by (simp add: refresh_def take_journal_def)
next
  case False
  have fin: "finite (om_dirty m)" using assms(2) by (auto simp: omap_inv_def intro: finite_subset)
  show ?thesis
  proof (rule nth_equalityI)
    show "length (refresh m (fst (take_journal m)) (omap_iter m0)) = length (omap_iter m)"
      using False by (simp add: refresh_def take_journal_def omap_iter_def omap_len_def)
    fix i assume "i < length (refresh m (fst (take_journal m)) (omap_iter m0))"
    then have i: "i < length (om_items m)" using False by (simp add: refresh_def take_journal_def omap_len_def)
    with assms(1) False have "i \<in> om_dirty m \<or> i < length (om_items m0) \<and> om_items m ! i = om_items m0 ! i"
      by (auto simp: journal_covers_def)
    with i False fin show "refresh m (fst (take_journal m)) (omap_iter m0) ! i = omap_iter m ! i"
      by (auto simp: refresh_def take_journal_def omap_len_def omap_iter_def entry_at_def split: prod.splits)
  qed
qed

end
