(* ===== verification/Option_Rules.thy ===== *)
theory Option_Rules
  imports Ledger_Ops
begin

section \<open>Option rules: \<open>options.rs\<close> and \<open>options/lifecycle.rs\<close>\<close>

text \<open>
  Contract validation, the OCC symbol and its parser, the table of option roots, and what a
  contract becomes at expiry. A digit string of the source (ASCII digits, most significant
  first) is the list of its digit values. Messages are their fixed text.

  Three libraries the code calls are not part of the sources: \<open>chrono\<close> and \<open>chrono_tz\<close>,
  \<open>rust_decimal\<close>'s own arithmetic (used by \<open>lifecycle.rs\<close> only) and the Unicode case table. They are
  the fields of the record \<open>externals\<close>, which the definitions that need them take as an argument.
  Of \<open>chrono\<close> a date is its year, month and day, and the fields are \<open>num_days_from_ce\<close>, whether
  \<open>from_ymd_opt\<close> answers, \<open>from_num_days_from_ce_opt\<close>, \<open>checked_add_signed\<close> of a number of days,
  \<open>weekday\<close> (days from Monday), \<open>from_weekday_of_month_opt\<close>, whether \<open>timestamp_opt\<close> answers, and for New
  York the instant (seconds of the Unix epoch) of a local date and second of day, if it is a single
  one, and the local date and second of day of an instant.
\<close>

record naive_date =
  nd_year :: int
  nd_month :: nat
  nd_day :: nat

record externals =
  uni_upper :: "nat \<Rightarrow> nat list"
  days_from_ce :: "naive_date \<Rightarrow> int"
  from_str_exact :: "utext \<Rightarrow> money option"
  from_scientific :: "utext \<Rightarrow> money option"
  rd_checked_add :: "money \<Rightarrow> money \<Rightarrow> money option"
  rd_checked_sub :: "money \<Rightarrow> money \<Rightarrow> money option"
  rd_rescale :: "money \<Rightarrow> nat \<Rightarrow> money"
  rd_to_string :: "money \<Rightarrow> string"
  ymd_valid :: "naive_date \<Rightarrow> bool"
  date_of_ce :: "int \<Rightarrow> naive_date option"
  date_add :: "naive_date \<Rightarrow> int \<Rightarrow> naive_date option"
  nd_weekday :: "naive_date \<Rightarrow> nat"
  nth_weekday_of :: "int \<Rightarrow> nat \<Rightarrow> nat \<Rightarrow> nat \<Rightarrow> naive_date option"
  utc_in_range :: "int \<Rightarrow> bool"
  ny_single :: "naive_date \<Rightarrow> nat \<Rightarrow> int option"
  ny_local :: "int \<Rightarrow> naive_date \<times> nat"

datatype option_error = Value string | Unresolvable string | OptInvalidOperation | OptOverflow

type_synonym 'a ores = "('a, option_error) result"

fun oe_kind :: "option_error \<Rightarrow> string" where
  "oe_kind (Value m) = ''value''"
| "oe_kind (Unresolvable m) = ''unresolvable''"
| "oe_kind OptInvalidOperation = ''invalid_operation''"
| "oe_kind OptOverflow = ''overflow''"

fun oe_message :: "option_error \<Rightarrow> string" where
  "oe_message (Value m) = m"
| "oe_message (Unresolvable m) = m"
| "oe_message OptInvalidOperation = []"
| "oe_message OptOverflow = []"

definition oerr :: "option_error \<Rightarrow> lerr" where
  "oerr e = LErr (oe_kind e) (oe_message e)"

subsection \<open>A decimal on the wire\<close>

datatype special = Finite | Inf | QuietNan | SignalingNan

record dec_wire =
  dw_neg :: bool
  dw_digits :: "nat list"
  dw_exp :: int
  dw_special :: special
  dw_text :: string

definition dw_is_finite :: "dec_wire \<Rightarrow> bool" where
  "dw_is_finite w \<longleftrightarrow> dw_special w = Finite"

definition dw_coefficient :: "dec_wire \<Rightarrow> nat list" where
  "dw_coefficient w =
     (let t = dropWhile (\<lambda>d. d = 0) (dw_digits w) in if t = [] then [0] else t)"

definition dw_is_zero :: "dec_wire \<Rightarrow> bool" where
  "dw_is_zero w \<longleftrightarrow> dw_coefficient w = [0]"

definition ETOP :: int where "ETOP = EMAX - int PREC + 1"
definition MAX_MILLIS :: nat where "MAX_MILLIS = 99999999"

text \<open>The carry loop of \<open>round_half_even\<close>, on the digits least significant first.\<close>

fun carry :: "nat list \<Rightarrow> nat list" where
  "carry [] = [1]"
| "carry (d # ds) = (if d = 9 then 0 # carry ds else Suc d # ds)"

definition round_half_even :: "nat list \<Rightarrow> nat \<Rightarrow> nat list" where
  "round_half_even digits ndrop =
     (if ndrop = 0 then digits
      else let len = length digits in
        if ndrop > len then [0]
        else
          let kept = take (len - ndrop) digits; rest = drop (len - ndrop) digits;
              up = (if hd rest > 5 then True
                    else if hd rest < 5 then False
                    else list_ex (\<lambda>b. b \<noteq> 0) (tl rest) \<or> kept \<noteq> [] \<and> last kept mod 2 = 1);
              out = (if up then rev (carry (rev kept)) else kept)
          in if out = [] then [0] else out)"

definition times_1000 :: "dec_wire \<Rightarrow> (nat list \<times> int) ores" where
  "times_1000 strike =
     (if dw_is_zero strike then Ok ([0], dw_exp strike)
      else
        let digits0 = dw_coefficient strike @ [0, 0, 0]; exp0 = dw_exp strike;
            len = int (length digits0); exp_min0 = len + exp0 - int PREC
        in if exp_min0 > ETOP then Err OptOverflow
           else
             let exp_min = (if exp_min0 < ETINY then ETINY else exp_min0);
                 (digits, ex) =
                   (if exp0 < exp_min then
                      let r = round_half_even digits0 (nat (exp_min - exp0)) in
                      if length r > PREC then (butlast r, exp_min + 1) else (r, exp_min)
                    else (digits0, exp0))
             in if digits \<noteq> [0] \<and> int (length digits) + ex - 1 > EMAX then Err OptOverflow
                else Ok (digits, ex))"

definition integral_value :: "nat list \<Rightarrow> int \<Rightarrow> nat list" where
  "integral_value digits ex =
     (if ex \<ge> 0 then
        (if digits = [0] then [0] else digits @ replicate (nat (min ex 40)) 0)
      else round_half_even digits (nat (min (- ex) 4294967295)))"

definition opt_is_integral :: "nat list \<Rightarrow> int \<Rightarrow> bool" where
  "opt_is_integral digits ex \<longleftrightarrow>
     ex \<ge> 0 \<or> digits = [0]
     \<or> - ex \<le> int (length digits) \<and> list_all (\<lambda>b. b = 0) (drop (length digits - nat (- ex)) digits)"

definition strike_millis :: "dec_wire \<Rightarrow> nat ores" where
  "strike_millis strike =
     and_then (times_1000 strike) (\<lambda>(digits, ex).
       let whole = integral_value digits ex; oob = Err (Value ''Strike out of bounds for OCC representation'') in
       if length whole > 18 then oob
       else let millis = digits_value whole in
         if millis = 0 \<or> millis > MAX_MILLIS then oob else Ok millis)"

definition validate_strike :: "dec_wire \<Rightarrow> unit ores" where
  "validate_strike strike =
     (if \<not> (dw_is_finite strike \<and> \<not> dw_neg strike \<and> \<not> dw_is_zero strike)
      then Err (Value ''Strike must be positive and finite'')
      else and_then (times_1000 strike) (\<lambda>(digits, ex).
        if \<not> opt_is_integral digits ex
        then Err (Value ''Strike cannot have more than 3 decimal places (thousandths) (I5)'')
        else and_then (strike_millis strike) (\<lambda>_. Ok ())))"

subsection \<open>Rights, symbols and contracts\<close>

datatype right = Call | Put

fun right_code :: "right \<Rightarrow> string" where
  "right_code Call = ''C''"
| "right_code Put = ''P''"

definition right_from_code :: "string \<Rightarrow> right option" where
  "right_from_code c = (if c = ''C'' then Some Call else if c = ''P'' then Some Put else None)"

definition alnum :: "nat \<Rightarrow> bool" where
  "alnum c \<longleftrightarrow> is_upper c \<or> is_digit c"

definition split_once :: "nat \<Rightarrow> utext \<Rightarrow> (utext \<times> utext) option" where
  "split_once c s =
     (let rt = takeWhile (\<lambda>x. x \<noteq> c) s in
      if rt = s then None else Some (rt, drop (Suc (length rt)) s))"

definition equity_symbol :: "externals \<Rightarrow> string option \<Rightarrow> string ores" where
  "equity_symbol x symbol =
     (case symbol of
        None \<Rightarrow> Err (Value ''Equity symbol must be non-empty string'')
      | Some raw \<Rightarrow>
          if raw = [] then Err (Value ''Equity symbol must be non-empty string'')
          else let sym = to_uppercase (uni_upper x) (strip (chars raw)) in
            if sym = [] then Err (Value ''Equity symbol must be non-empty'')
            else if length sym > 10 then Err (Value ''Equity symbol exceeds maximum length of 10 characters'')
            else
              let ok = (case split_once 46 sym of
                          None \<Rightarrow> list_all alnum sym
                        | Some (rt, cls) \<Rightarrow>
                            rt \<noteq> [] \<and> list_all alnum rt \<and> 1 \<le> length cls \<and> length cls \<le> 2
                            \<and> list_all is_upper cls)
              in if \<not> ok then Err (Value ''Equity symbol must be alphanumeric without slashes or spaces'')
                 else Ok (of_chars sym))"

definition validate_underlying :: "externals \<Rightarrow> string \<Rightarrow> string ores" where
  "validate_underlying x underlying =
     (let und = to_uppercase (uni_upper x) (strip (chars underlying)) in
      if und = [] then Err (Value ''Option underlying must be non-empty'')
      else if length und > 6 then Err (Value ''Option underlying must be at most 6 characters'')
      else if \<not> list_all alnum und then Err (Value ''Option underlying must be alphanumeric'')
      else Ok (of_chars und))"

definition validate_rest :: "externals \<Rightarrow> dec_wire \<Rightarrow> string option \<Rightarrow> string option \<Rightarrow> right ores" where
  "validate_rest x strike multiplier right =
     and_then (validate_strike strike) (\<lambda>_.
     and_then
       (case multiplier of
          None \<Rightarrow> Err (Value ''Multiplier must be an integer'')
        | Some m \<Rightarrow>
            if take 1 m = ''-'' \<or> m = ''0'' then Err (Value ''Multiplier must be positive'') else Ok ())
       (\<lambda>_.
       let up = map_option (\<lambda>r. to_uppercase (uni_upper x) (chars r)) right in
       if up = Some (utext ''C'') \<or> up = Some (utext ''CALL'') then Ok Call
       else if up = Some (utext ''P'') \<or> up = Some (utext ''PUT'') then Ok Put
       else Err (Value ''Invalid option right'')))"

record contract_wire =
  cw_underlying :: string
  cw_year :: int
  cw_month :: nat
  cw_day :: nat
  cw_right :: right
  cw_strike :: dec_wire

definition pad0 :: "nat \<Rightarrow> nat \<Rightarrow> string" where
  "pad0 w n = (let t = nat_to_string n in replicate (w - length t) (CHR ''0'') @ t)"

definition wire_occ :: "contract_wire \<Rightarrow> string ores" where
  "wire_occ c =
     and_then (strike_millis (cw_strike c)) (\<lambda>millis.
       let pad = 6 - length (chars (cw_underlying c)) in
       Ok (cw_underlying c @ replicate pad (CHR '' '') @ pad0 2 (nat (cw_year c mod 100))
           @ pad0 2 (cw_month c) @ pad0 2 (cw_day c) @ right_code (cw_right c) @ pad0 8 millis))"

subsection \<open>Reading an OCC symbol\<close>

record parsed_occ =
  po_root :: string
  po_year :: int
  po_month :: nat
  po_day :: nat
  po_right :: right
  po_strike_text :: string

definition is_ascii_alnum :: "nat \<Rightarrow> bool" where
  "is_ascii_alnum c \<longleftrightarrow> is_upper c \<or> is_lower c \<or> is_digit c"

definition occ_right_char :: "nat \<Rightarrow> bool" where
  "occ_right_char c \<longleftrightarrow> c \<in> {67, 80, 99, 112}"

text \<open>The loop over the root length, longest first.\<close>

definition occ_at :: "utext \<Rightarrow> nat \<Rightarrow> nat option" where
  "occ_at cs root_len =
     (let i = root_len + length (takeWhile is_space (drop root_len cs)) in
      if length cs \<noteq> i + 15 then None
      else if list_all (\<lambda>c. digit c \<noteq> None) (take 6 (drop i cs)) \<and> occ_right_char (cs ! (i + 6))
              \<and> list_all (\<lambda>c. digit c \<noteq> None) (drop (i + 7) cs)
        then Some i
        else None)"

primrec match_occ_from :: "utext \<Rightarrow> nat \<Rightarrow> (nat \<times> nat) option" where
  "match_occ_from cs 0 = None"
| "match_occ_from cs (Suc n) =
     (case occ_at cs (Suc n) of Some i \<Rightarrow> Some (Suc n, i) | None \<Rightarrow> match_occ_from cs n)"

definition match_occ :: "utext \<Rightarrow> (nat \<times> nat) option" where
  "match_occ cs = match_occ_from cs (length (takeWhile is_ascii_alnum (take 6 cs)))"

definition days_in_month :: "int \<Rightarrow> nat \<Rightarrow> nat" where
  "days_in_month year month =
     (if month \<in> {4, 6, 9, 11} then 30
      else if month = 2 then
        (if year mod 4 = 0 \<and> (year mod 100 \<noteq> 0 \<or> year mod 400 = 0) then 29 else 28)
      else 31)"

definition ascii_between :: "nat option \<Rightarrow> nat \<Rightarrow> nat \<Rightarrow> bool" where
  "ascii_between c lo hi = (case c of None \<Rightarrow> False | Some d \<Rightarrow> lo \<le> d \<and> d \<le> hi)"

definition get_char :: "utext \<Rightarrow> nat \<Rightarrow> nat option" where
  "get_char e p = (if p < length e then Some (e ! p) else None)"

text \<open>The alternatives of the month and of the day, in the order of the pattern.\<close>

definition month_alts :: "utext \<Rightarrow> (nat \<times> nat) list" where
  "month_alts e =
     (if e ! 2 = 49 \<and> ascii_between (Some (e ! 3)) 48 50 then [(2, 10 + (e ! 3 - 48))] else [])
     @ (if e ! 2 = 48 \<and> ascii_between (Some (e ! 3)) 49 57 then [(2, e ! 3 - 48)] else [])
     @ (if ascii_between (Some (e ! 2)) 49 57 then [(1, e ! 2 - 48)] else [])"

definition day_alts :: "nat option \<Rightarrow> nat option \<Rightarrow> (nat \<times> nat) list" where
  "day_alts c0 c1 =
     (if c0 = Some 51 \<and> ascii_between c1 48 49 then [(2, 30 + (the c1 - 48))] else [])
     @ (if ascii_between c0 49 50 \<and> c1 \<noteq> None \<and> digit (the c1) \<noteq> None
        then [(2, (the c0 - 48) * 10 + the (digit (the c1)))] else [])
     @ (if c0 = Some 48 \<and> ascii_between c1 49 57 then [(2, the c1 - 48)] else [])
     @ (if ascii_between c0 49 57 then [(1, the c0 - 48)] else [])
     @ (if c0 = Some 32 \<and> ascii_between c1 49 57 then [(2, the c1 - 48)] else [])"

fun find_md :: "utext \<Rightarrow> (nat \<times> nat) list \<Rightarrow> (nat \<times> nat \<times> nat) option" where
  "find_md e [] = None"
| "find_md e ((m_len, m) # alts) =
     (let p = 2 + m_len in
      case day_alts (get_char e p) (get_char e (p + 1)) of
        (d_len, d) # _ \<Rightarrow> Some (m, d, p + d_len)
      | [] \<Rightarrow> find_md e alts)"

definition strptime_ymd :: "utext \<Rightarrow> (int \<times> nat \<times> nat, string) result" where
  "strptime_ymd e =
     (let y = int (the (digit (e ! 0)) * 10 + the (digit (e ! 1))) in
      case find_md e (month_alts e) of
        None \<Rightarrow> Err ''time data does not match format %y%m%d''
      | Some (m, d, fin) \<Rightarrow>
          if fin \<noteq> length e then Err ''unconverted data remains''
          else let year = (if y \<le> 68 then 2000 + y else 1900 + y) in
            if d > days_in_month year m then Err ''day is out of range for month''
            else Ok (year, m, d))"

definition thousandths_text :: "nat \<Rightarrow> string" where
  "thousandths_text n =
     (let whole = n div 1000; frac = n mod 1000 in
      if frac = 0 then nat_to_string whole
      else nat_to_string whole @ ''.'' @ rev (dropWhile (\<lambda>c. c = CHR ''0'') (rev (pad0 3 frac))))"

definition parse_occ :: "externals \<Rightarrow> string option \<Rightarrow> parsed_occ ores" where
  "parse_occ x occ =
     (case occ of
        None \<Rightarrow> Err (Value ''OCC symbol must be a non-empty string'')
      | Some t \<Rightarrow>
          if t = [] then Err (Value ''OCC symbol must be a non-empty string'')
          else let cs = strip (chars t) in
            case match_occ cs of
              None \<Rightarrow> Err (Value ''Invalid OCC option symbol format'')
            | Some (root_len, i) \<Rightarrow>
                (let rt = to_uppercase (uni_upper x) (take root_len cs) in
                 case strptime_ymd (take 6 (drop i cs)) of
                   Err e \<Rightarrow> Err (Value (''Invalid expiration date in OCC symbol: '' @ e))
                 | Ok (year, month, day) \<Rightarrow>
                     (let right = (if cs ! (i + 6) \<in> {67, 99} then Call else Put);
                          n = foldl (\<lambda>acc c. acc * 10 + the (digit c)) 0 (drop (i + 7) cs)
                      in if n = 0 then Err (Value ''Strike parsed from OCC symbol must be positive, got 0'')
                         else Ok \<lparr>po_root = of_chars rt, po_year = year, po_month = month, po_day = day,
                                  po_right = right, po_strike_text = thousandths_text n\<rparr>)))"

subsection \<open>The option-roots table\<close>

datatype exercise = American | European
datatype settlement = Physical | Cash
datatype settle_time = Am | Pm

record style =
  st_root :: string
  st_underlying :: string
  st_exercise :: exercise
  st_settlement :: settlement
  st_settle_time :: settle_time

definition INDEX_ROOTS :: "(string \<times> string \<times> settle_time) list" where
  "INDEX_ROOTS = [(''SPX'', ''SPX'', Am), (''SPXW'', ''SPX'', Pm)]"

definition UNMODELLED_INDEX_ROOTS :: "string list" where
  "UNMODELLED_INDEX_ROOTS =
     [''NDX'', ''NDXP'', ''RUT'', ''RUTW'', ''MRUT'', ''XSP'', ''XND'', ''DJX'', ''OEX'', ''XEO'', ''VIX'', ''VIXW'']"

definition root_key :: "externals \<Rightarrow> string \<Rightarrow> string" where
  "root_key x rt = of_chars (to_uppercase (uni_upper x) (strip (chars rt)))"

definition option_style :: "externals \<Rightarrow> string \<Rightarrow> style ores" where
  "option_style x rt =
     (let key = root_key x rt in
      case find (\<lambda>(r, _, _). r = key) INDEX_ROOTS of
        Some (r, u, t) \<Rightarrow>
          Ok \<lparr>st_root = r, st_underlying = u, st_exercise = European, st_settlement = Cash, st_settle_time = t\<rparr>
      | None \<Rightarrow>
          if key \<in> set UNMODELLED_INDEX_ROOTS
          then Err (Unresolvable ''Index option root is not modelled yet (I5)'')
          else if key = [] then Err (Unresolvable ''Empty option root (I6)'')
          else Ok \<lparr>st_root = key, st_underlying = key, st_exercise = American,
                   st_settlement = Physical, st_settle_time = Pm\<rparr>)"

definition chain_roots :: "externals \<Rightarrow> string \<Rightarrow> string list ores" where
  "chain_roots x underlying =
     (let key = root_key x underlying;
          roots = map fst (filter (\<lambda>(_, u, _). u = key) INDEX_ROOTS)
      in if roots = [] then and_then (option_style x key) (\<lambda>s. Ok [st_root s]) else Ok roots)"

subsection \<open>What an option becomes\<close>

definition THRESHOLD :: string where "THRESHOLD = ''0.01''"

definition threshold :: money where
  "threshold = \<lparr>neg_bit = False, mantissa = 1, scale = 2\<rparr>"

text \<open>\<open>str::trim\<close>, and the text of a money value: \<open>None\<close> is a NaN.\<close>

definition is_white :: "nat \<Rightarrow> bool" where
  "is_white c \<longleftrightarrow>
     9 \<le> c \<and> c \<le> 13 \<or> c = 32 \<or> c = 0x85 \<or> c = 0xa0 \<or> c = 0x1680
     \<or> 0x2000 \<le> c \<and> c \<le> 0x200a \<or> c = 0x2028 \<or> c = 0x2029 \<or> c = 0x202f \<or> c = 0x205f
     \<or> c = 0x3000"

definition trim :: "utext \<Rightarrow> utext" where
  "trim s = rev (dropWhile is_white (rev (dropWhile is_white s)))"

definition trim_str :: "string \<Rightarrow> string" where
  "trim_str s = of_chars (trim (chars s))"

definition ascii_lower :: "utext \<Rightarrow> utext" where
  "ascii_lower = map (\<lambda>c. if is_upper c then c + 32 else c)"

definition lc_parse :: "externals \<Rightarrow> string \<Rightarrow> money option ores" where
  "lc_parse x txt =
     (let t = trim (chars txt); l = ascii_lower t in
      if l = utext ''nan'' \<or> l = utext ''snan'' \<or> l = utext ''-nan'' then Ok None
      else case from_str_exact x t of
        Some d \<Rightarrow> Ok (Some d)
      | None \<Rightarrow>
          (case from_scientific x t of
             Some d \<Rightarrow> Ok (Some d)
           | None \<Rightarrow> Err (Value ''Unsupported money value'')))"

definition lc_get :: "money option \<Rightarrow> money ores" where
  "lc_get m = ok_or OptInvalidOperation m"

definition lc_money :: "externals \<Rightarrow> string \<Rightarrow> money ores" where
  "lc_money x txt = and_then (lc_parse x txt) lc_get"

definition lc_strike :: "externals \<Rightarrow> contract_wire \<Rightarrow> money ores" where
  "lc_strike x c = lc_money x (dw_text (cw_strike c))"

definition with_scale_of :: "externals \<Rightarrow> money \<Rightarrow> money \<Rightarrow> money \<Rightarrow> money" where
  "with_scale_of x r a b =
     (let want = max (scale a) (scale b) in if scale r < want then rd_rescale x r want else r)"

definition lc_sub :: "externals \<Rightarrow> money \<Rightarrow> money \<Rightarrow> money ores" where
  "lc_sub x a b = ok_or OptOverflow (map_option (\<lambda>r. with_scale_of x r a b) (rd_checked_sub x a b))"

definition lc_add :: "externals \<Rightarrow> money \<Rightarrow> money \<Rightarrow> money ores" where
  "lc_add x a b = ok_or OptOverflow (map_option (\<lambda>r. with_scale_of x r a b) (rd_checked_add x a b))"

definition intrinsic_value :: "externals \<Rightarrow> contract_wire \<Rightarrow> string \<Rightarrow> money ores" where
  "intrinsic_value x c price_text =
     and_then (lc_money x price_text) (\<lambda>price.
       if money_le price ZERO then Err (Value ''Underlying price must be positive (I5)'')
       else and_then (lc_strike x c) (\<lambda>k.
         and_then (if cw_right c = Call then lc_sub x price k else lc_sub x k price) (\<lambda>raw.
           Ok (if money_lt raw ZERO then ZERO else raw))))"

definition intrinsic :: "externals \<Rightarrow> contract_wire \<Rightarrow> string \<Rightarrow> string ores" where
  "intrinsic x c price_text = and_then (intrinsic_value x c price_text) (\<lambda>d. Ok (rd_to_string x d))"

definition expiry_outcome :: "externals \<Rightarrow> contract_wire \<Rightarrow> bool \<Rightarrow> string \<Rightarrow> string ores" where
  "expiry_outcome x c held_buy price_text =
     and_then (intrinsic_value x c price_text) (\<lambda>v.
       if money_lt v threshold then Ok ''expire''
       else Ok (if held_buy then ''exercise'' else ''assign''))"

definition is_cash_settled :: "externals \<Rightarrow> contract_wire \<Rightarrow> bool ores" where
  "is_cash_settled x c =
     and_then (option_style x (cw_underlying c)) (\<lambda>s. Ok (st_settlement s = Cash))"

definition can_exercise_early :: "externals \<Rightarrow> contract_wire \<Rightarrow> bool ores" where
  "can_exercise_early x c =
     and_then (option_style x (cw_underlying c)) (\<lambda>s. Ok (st_exercise s = American))"

definition deliverable :: "externals \<Rightarrow> contract_wire \<Rightarrow> string ores" where
  "deliverable x c =
     and_then (is_cash_settled x c) (\<lambda>cash.
       if cash then and_then (wire_occ c) (\<lambda>_. Err (Value ''settles in cash; it delivers no shares''))
       else and_then (option_style x (cw_underlying c)) (\<lambda>s. equity_symbol x (Some (st_underlying s))))"

definition delivery :: "externals \<Rightarrow> contract_wire \<Rightarrow> bool \<Rightarrow> string \<Rightarrow> (bool \<times> string) ores" where
  "delivery x c held_buy premium_text =
     and_then (lc_money x premium_text) (\<lambda>premium.
       if money_lt premium ZERO then Err (Value ''Premium must not be negative'')
       else
         let call = (cw_right c = Call); buys = (call = held_buy) in
         and_then (lc_strike x c) (\<lambda>k.
           if call then and_then (lc_add x k premium) (\<lambda>p. Ok (buys, rd_to_string x p))
           else and_then (lc_sub x k premium) (\<lambda>price.
             if money_le price ZERO
             then and_then (wire_occ c) (\<lambda>_. Err (Value ''premium is not below the strike (I5)''))
             else Ok (buys, rd_to_string x price))))"

definition exercised_for_dividend ::
  "externals \<Rightarrow> contract_wire \<Rightarrow> string \<Rightarrow> string \<Rightarrow> string \<Rightarrow> bool ores" where
  "exercised_for_dividend x c close_text bid_text dividend_text =
     (if cw_right c \<noteq> Call
      then and_then (wire_occ c) (\<lambda>_. Err (Value ''is a put; the dividend rule is for calls''))
      else and_then (can_exercise_early x c) (\<lambda>early.
        if \<not> early then Ok False
        else and_then (lc_money x dividend_text) (\<lambda>dividend.
          if money_le dividend ZERO then Err (Value ''Dividend must be positive (I5)'')
          else and_then (lc_money x bid_text) (\<lambda>bid.
            if money_lt bid ZERO then Err (Value ''Bid must not be negative'')
            else and_then (intrinsic_value x c close_text) (\<lambda>v.
              if money_lt v threshold then Ok False
              else and_then (lc_sub x bid v) (\<lambda>d. Ok (money_lt d dividend)))))))"

end
