(* ===== verification/Model.thy ===== *)
theory Model
  imports Option_Rules
begin

section \<open>The ledger's values and event payloads: \<open>ledger/model.rs\<close>\<close>

text \<open>
  The enums, dates, instruments and payload structs of the ledger, with the equality and the
  hash key the source gives them. A struct is a record with its fields in order (prefixed, since
  record fields are global names); the four structs that carry a dynamic value (\<open>Val\<close>) are
  datatypes with the fields as selectors, because \<open>Val\<close> and \<open>Obj\<close> are mutually recursive with
  them. An \<open>i128\<close> is an \<open>int\<close>.
\<close>

subsection \<open>Enumerations\<close>

datatype side = Buy | Sell
datatype order_type = Market | Limit | Stop | StopLimit | Trail
datatype tif = Day | Gtc | Gtd | Opg | Moc
datatype order_state =
  New | Submitted | Accepted | PartiallyFilled | Filled | Cancelled | Expired | Rejected | PendingUnknown
datatype event_kind =
  KSignalSeen | KRiskVerdict | KOrdersCreated | KRiskControl | KOrderSubmitted | KOrderUpdated
  | KOrderPending | KOrderAccepted | KOrderRejected | KOrderCancelled | KOrderRefused | KOrderExpired
  | KOrderEmulationUpdated | KFill | KAssignment | KExercise | KExpiry | KCorporateAction | KCashFlow
  | KMark | KVenueReconcile | KVenueHaltCleared | KEodRun | KMirrorQueued | KMirrorRefused | KMirrorAck
  | KMirrorFill

fun side_value :: "side \<Rightarrow> string" where
  "side_value Buy = ''BUY''"
| "side_value Sell = ''SELL''"

definition side_parse :: "string \<Rightarrow> side option" where
  "side_parse s = find (\<lambda>v. side_value v = s) [Buy, Sell]"

fun order_type_value :: "order_type \<Rightarrow> string" where
  "order_type_value Market = ''MARKET''"
| "order_type_value Limit = ''LIMIT''"
| "order_type_value Stop = ''STOP''"
| "order_type_value StopLimit = ''STOP_LIMIT''"
| "order_type_value Trail = ''TRAIL''"

definition order_type_parse :: "string \<Rightarrow> order_type option" where
  "order_type_parse s = find (\<lambda>v. order_type_value v = s) [Market, Limit, Stop, StopLimit, Trail]"

fun tif_value :: "tif \<Rightarrow> string" where
  "tif_value Day = ''DAY''"
| "tif_value Gtc = ''GTC''"
| "tif_value Gtd = ''GTD''"
| "tif_value Opg = ''OPG''"
| "tif_value Moc = ''MOC''"

definition tif_parse :: "string \<Rightarrow> tif option" where
  "tif_parse s = find (\<lambda>v. tif_value v = s) [Day, Gtc, Gtd, Opg, Moc]"

fun order_state_value :: "order_state \<Rightarrow> string" where
  "order_state_value New = ''NEW''"
| "order_state_value Submitted = ''SUBMITTED''"
| "order_state_value Accepted = ''ACCEPTED''"
| "order_state_value PartiallyFilled = ''PARTIALLY_FILLED''"
| "order_state_value Filled = ''FILLED''"
| "order_state_value Cancelled = ''CANCELLED''"
| "order_state_value Expired = ''EXPIRED''"
| "order_state_value Rejected = ''REJECTED''"
| "order_state_value PendingUnknown = ''PENDING_UNKNOWN''"

definition order_state_parse :: "string \<Rightarrow> order_state option" where
  "order_state_parse s = find (\<lambda>v. order_state_value v = s)
     [New, Submitted, Accepted, PartiallyFilled, Filled, Cancelled, Expired, Rejected, PendingUnknown]"

fun kind_value :: "event_kind \<Rightarrow> string" where
  "kind_value KSignalSeen = ''SignalSeen''"
| "kind_value KRiskVerdict = ''RiskVerdict''"
| "kind_value KOrdersCreated = ''OrdersCreated''"
| "kind_value KRiskControl = ''RiskControl''"
| "kind_value KOrderSubmitted = ''OrderSubmitted''"
| "kind_value KOrderUpdated = ''OrderUpdated''"
| "kind_value KOrderPending = ''OrderPending''"
| "kind_value KOrderAccepted = ''OrderAccepted''"
| "kind_value KOrderRejected = ''OrderRejected''"
| "kind_value KOrderCancelled = ''OrderCancelled''"
| "kind_value KOrderRefused = ''OrderRefused''"
| "kind_value KOrderExpired = ''OrderExpired''"
| "kind_value KOrderEmulationUpdated = ''OrderEmulationUpdated''"
| "kind_value KFill = ''Fill''"
| "kind_value KAssignment = ''Assignment''"
| "kind_value KExercise = ''Exercise''"
| "kind_value KExpiry = ''Expiry''"
| "kind_value KCorporateAction = ''CorporateAction''"
| "kind_value KCashFlow = ''CashFlow''"
| "kind_value KMark = ''Mark''"
| "kind_value KVenueReconcile = ''VenueReconcile''"
| "kind_value KVenueHaltCleared = ''VenueHaltCleared''"
| "kind_value KEodRun = ''EodRun''"
| "kind_value KMirrorQueued = ''MirrorQueued''"
| "kind_value KMirrorRefused = ''MirrorRefused''"
| "kind_value KMirrorAck = ''MirrorAck''"
| "kind_value KMirrorFill = ''MirrorFill''"

definition SCHEMA_VERSION :: int where "SCHEMA_VERSION = 1"

definition CASH_FLOW_KINDS :: "string list" where
  "CASH_FLOW_KINDS = [''interest'', ''borrow'', ''fee'', ''deposit'', ''withdrawal'', ''dividend'']"

definition MIRROR_ACK_STATUSES :: "string list" where
  "MIRROR_ACK_STATUSES = [''ACCEPTED'', ''REJECTED'', ''PENDING'']"

definition MIRROR_ACCOUNT_PREFIX :: string where "MIRROR_ACCOUNT_PREFIX = ''__venue__:''"

definition mirror_account :: "string \<Rightarrow> string lres" where
  "mirror_account venue =
     (if venue = [] then lerr ''payload'' ''a mirror venue must be non-empty''
      else Ok (MIRROR_ACCOUNT_PREFIX @ venue))"

text \<open>A refusal of a constructor, as the decoder reports it.\<close>

definition wrap_err :: "string \<Rightarrow> lerr \<Rightarrow> lerr" where
  "wrap_err tag e =
     (if err_kind e \<in> {''value'', ''payload'', ''type''}
      then LErr ''codec'' (''Could not rebuild '' @ tag @ '' from stored fields: '' @ err_msg e)
      else e)"

subsection \<open>Dates\<close>

record date_time =
  dt_date :: naive_date
  dt_sod :: nat
  dt_us :: nat
  dt_off :: int

definition instant :: "externals \<Rightarrow> date_time \<Rightarrow> int \<times> nat" where
  "instant x d = (days_from_ce x (dt_date d) * 86400 + int (dt_sod d) - dt_off d, dt_us d)"

definition dt_same :: "externals \<Rightarrow> date_time \<Rightarrow> date_time \<Rightarrow> bool" where
  "dt_same x a b \<longleftrightarrow> instant x a = instant x b"

text \<open>Rust's \<open>{:04}\<close> of a signed number counts the sign in the width.\<close>

definition pad0_int :: "nat \<Rightarrow> int \<Rightarrow> string" where
  "pad0_int w n = (if n < 0 then ''-'' @ pad0 (w - 1) (nat (- n)) else pad0 w (nat n))"

definition date_iso :: "naive_date \<Rightarrow> string" where
  "date_iso d = pad0_int 4 (nd_year d) @ ''-'' @ pad0 2 (nd_month d) @ ''-'' @ pad0 2 (nd_day d)"

definition dt_iso :: "date_time \<Rightarrow> string" where
  "dt_iso d =
     (let a = nat \<bar>dt_off d\<bar> in
      date_iso (dt_date d) @ ''T'' @ pad0 2 (dt_sod d div 3600) @ '':'' @ pad0 2 (dt_sod d mod 3600 div 60)
      @ '':'' @ pad0 2 (dt_sod d mod 60)
      @ (if dt_us d \<noteq> 0 then ''.'' @ pad0 6 (dt_us d) else [])
      @ (if dt_off d < 0 then ''-'' else ''+'')
      @ pad0 2 (a div 3600) @ '':'' @ pad0 2 (a mod 3600 div 60)
      @ (if a mod 60 \<noteq> 0 then '':'' @ pad0 2 (a mod 60) else []))"

subsection \<open>Instruments\<close>

record option_contract =
  oc_underlying :: string
  oc_expiry :: naive_date
  oc_strike :: money
  oc_right :: right
  oc_multiplier :: int

record contract_month =
  cm_year :: int
  cm_month :: nat

definition contract_month_new :: "int \<Rightarrow> nat \<Rightarrow> contract_month lres" where
  "contract_month_new year month =
     (if \<not> (1 \<le> month \<and> month \<le> 12) then lerr ''value'' ''Month must be 1..=12''
      else if \<not> (1900 \<le> year \<and> year \<le> 2100) then lerr ''value'' ''Year out of range (1900..=2100)''
      else Ok \<lparr>cm_year = year, cm_month = month\<rparr>)"

definition month_code :: "contract_month \<Rightarrow> char" where
  "month_code cm = (if 1 \<le> cm_month cm \<and> cm_month cm \<le> 12 then ''FGHJKMNQUVXZ'' ! (cm_month cm - 1) else CHR ''?'')"

record future_contract =
  fc_root :: string
  fc_month :: "contract_month option"
  fc_tick_size :: money
  fc_point_value :: money

datatype instrument =
    Equity string
  | OptionI option_contract
  | Combo "combo_leg list"
  | Future future_contract
and combo_leg = ComboLeg (leg_contract: instrument) (leg_ratio: int) (leg_side: side)

definition dec_eq :: "money \<Rightarrow> money \<Rightarrow> bool" where
  "dec_eq a b = money_eq a b"

fun opt_dec_eq :: "money option \<Rightarrow> money option \<Rightarrow> bool" where
  "opt_dec_eq None None = True"
| "opt_dec_eq (Some a) (Some b) = dec_eq a b"
| "opt_dec_eq _ _ = False"

definition future_same :: "future_contract \<Rightarrow> future_contract \<Rightarrow> bool" where
  "future_same a b \<longleftrightarrow>
     fc_root a = fc_root b \<and> fc_month a = fc_month b
     \<and> dec_eq (fc_tick_size a) (fc_tick_size b) \<and> dec_eq (fc_point_value a) (fc_point_value b)"

definition future_symbol :: "future_contract \<Rightarrow> string" where
  "future_symbol f =
     (case fc_month f of
        None \<Rightarrow> fc_root f
      | Some cm \<Rightarrow> fc_root f @ [month_code cm] @ pad0 2 (nat (cm_year cm mod 100)))"

definition decwire :: "money \<Rightarrow> dec_wire" where
  "decwire d = \<lparr>dw_neg = is_negative d, dw_digits = dec_digits (mantissa d), dw_exp = - int (scale d),
     dw_special = Finite, dw_text = canon d\<rparr>"

definition contract_wire :: "option_contract \<Rightarrow> contract_wire" where
  "contract_wire c = \<lparr>cw_underlying = oc_underlying c, cw_year = nd_year (oc_expiry c),
     cw_month = nd_month (oc_expiry c), cw_day = nd_day (oc_expiry c), cw_right = oc_right c,
     cw_strike = decwire (oc_strike c)\<rparr>"

definition option_occ :: "option_contract \<Rightarrow> string lres" where
  "option_occ c = map_err oerr (wire_occ (contract_wire c))"

definition option_same :: "option_contract \<Rightarrow> option_contract \<Rightarrow> bool" where
  "option_same a b \<longleftrightarrow>
     oc_underlying a = oc_underlying b \<and> oc_expiry a = oc_expiry b \<and> dec_eq (oc_strike a) (oc_strike b)
     \<and> oc_right a = oc_right b \<and> oc_multiplier a = oc_multiplier b"

fun instr_same :: "instrument \<Rightarrow> instrument \<Rightarrow> bool" and legs_same :: "combo_leg list \<Rightarrow> combo_leg list \<Rightarrow> bool" where
  "instr_same (Equity a) (Equity b) = (a = b)"
| "instr_same (OptionI a) (OptionI b) = option_same a b"
| "instr_same (Combo a) (Combo b) = (length a = length b \<and> legs_same a b)"
| "instr_same (Future a) (Future b) = future_same a b"
| "instr_same _ _ = False"
| "legs_same (ComboLeg c r s # a) (ComboLeg c' r' s' # b) = ((r = r' \<and> s = s' \<and> instr_same c c') \<and> legs_same a b)"
| "legs_same _ _ = True"

definition SOH :: char where "SOH = CHR 0x01"
definition STX :: char where "STX = CHR 0x02"

definition option_hk :: "option_contract \<Rightarrow> string" where
  "option_hk c = ''O'' @ [SOH] @ oc_underlying c @ [SOH] @ date_iso (oc_expiry c) @ [SOH] @ canon (oc_strike c)
     @ [SOH] @ right_code (oc_right c) @ [SOH] @ int_to_string (oc_multiplier c)"

definition future_hk :: "future_contract \<Rightarrow> string" where
  "future_hk f = ''F'' @ [SOH] @ fc_root f @ [SOH]
     @ (case fc_month f of Some m \<Rightarrow> pad0_int 4 (cm_year m) @ ''-'' @ pad0 2 (cm_month m) | None \<Rightarrow> [])
     @ [SOH] @ canon (fc_tick_size f) @ [SOH] @ canon (fc_point_value f)"

fun instr_hk :: "instrument \<Rightarrow> string" and legs_hk :: "combo_leg list \<Rightarrow> string" where
  "instr_hk (Equity s) = ''E'' @ [SOH] @ s"
| "instr_hk (OptionI c) = option_hk c"
| "instr_hk (Combo legs) = ''C'' @ legs_hk legs"
| "instr_hk (Future f) = future_hk f"
| "legs_hk [] = []"
| "legs_hk (ComboLeg c r s # ls) =
     [STX] @ int_to_string r @ [SOH] @ side_value s @ [SOH] @ instr_hk c @ legs_hk ls"

definition strip_str :: "string \<Rightarrow> string" where
  "strip_str s = of_chars (strip (chars s))"

fun join :: "string \<Rightarrow> string list \<Rightarrow> string" where
  "join sep [] = []"
| "join sep [s] = s"
| "join sep (s # t # ts) = s @ sep @ join sep (t # ts)"

fun symbol :: "instrument \<Rightarrow> string lres" and leg_symbols :: "combo_leg list \<Rightarrow> string list lres" where
  "symbol (Equity s) = Ok s"
| "symbol (OptionI c) = option_occ c"
| "symbol (Combo legs) = and_then (leg_symbols legs) (\<lambda>parts. Ok (join ''/'' parts))"
| "symbol (Future f) = Ok (future_symbol f)"
| "leg_symbols [] = Ok []"
| "leg_symbols (ComboLeg c r s # ls) =
     and_then (symbol c) (\<lambda>t.
       and_then (leg_symbols ls) (\<lambda>ts. Ok ((side_value s @ '':'' @ int_to_string r @ ''x'' @ strip_str t) # ts)))"

fun instr_tag :: "instrument \<Rightarrow> string" where
  "instr_tag (Equity _) = ''Equity''"
| "instr_tag (OptionI _) = ''OptionContract''"
| "instr_tag (Combo _) = ''Combo''"
| "instr_tag (Future _) = ''Future''"

subsection \<open>Payloads\<close>

record order =
  o_order_id :: string
  o_account_id :: string
  o_instrument :: instrument
  o_order_type :: order_type
  o_side :: side
  o_quantity :: money
  o_command_id :: string
  o_created_at :: date_time
  o_limit_price :: "money option"
  o_stop_price :: "money option"
  o_trail_amount :: "money option"
  o_tif :: tif
  o_state :: order_state
  o_parent_order_id :: "string option"
  o_oco_group :: "string option"

definition order_same :: "externals \<Rightarrow> order \<Rightarrow> order \<Rightarrow> bool" where
  "order_same x a b \<longleftrightarrow>
     o_order_id a = o_order_id b \<and> o_account_id a = o_account_id b
     \<and> instr_same (o_instrument a) (o_instrument b) \<and> o_order_type a = o_order_type b
     \<and> o_side a = o_side b \<and> dec_eq (o_quantity a) (o_quantity b) \<and> o_command_id a = o_command_id b
     \<and> dt_same x (o_created_at a) (o_created_at b) \<and> opt_dec_eq (o_limit_price a) (o_limit_price b)
     \<and> opt_dec_eq (o_stop_price a) (o_stop_price b) \<and> opt_dec_eq (o_trail_amount a) (o_trail_amount b)
     \<and> o_tif a = o_tif b \<and> o_state a = o_state b \<and> o_parent_order_id a = o_parent_order_id b
     \<and> o_oco_group a = o_oco_group b"

record fill =
  f_fill_id :: string
  f_order_id :: string
  f_account_id :: string
  f_instrument :: instrument
  f_quantity :: money
  f_price :: money
  f_venue_env :: string
  f_filled_at :: date_time
  f_side :: side
  f_fee :: money
  f_leg_id :: "string option"
  f_venue_order_id :: "string option"
  f_venue_execution_id :: "string option"

record lot =
  lot_id :: string
  lot_quantity :: money
  lot_cost_basis :: money
  lot_acquired_at :: date_time
  lot_side :: side

datatype 'v risk_rule_result =
  RiskRuleResult (rr_rule_name: string) (rr_passed: bool) (rr_measured_value: 'v) (rr_threshold: 'v)
    (rr_reason: string)

datatype 'v risk_verdict =
  RiskVerdict (rv_order_intent_id: string) (rv_accepted: bool) (rv_evaluations: "'v risk_rule_result list")
    (rv_refusal_reasons: "string list") (rv_approved_quantity: "money option")

record risk_control_change =
  rc_control_id :: string
  rc_enabled :: bool
  rc_reason :: string
  rc_changed_at :: date_time

datatype 'v signal =
  Signal (sg_signal_id: string) (sg_scan_id: string) (sg_symbol: string) (sg_session_date: naive_date)
    (sg_direction: string) (sg_metrics: "(string \<times> 'v) list") (sg_next_earnings_date: "naive_date option")
    (sg_created_at: "date_time option")

datatype 'v corporate_action =
  CorporateAction (ca_symbol: string) (ca_action_type: string) (ca_effective_date: naive_date)
    (ca_as_of: date_time) (ca_details: "(string \<times> 'v) list")

record order_state_change =
  sc_order_id :: string
  sc_reason :: "string option"
  sc_venue_order_id :: "string option"

record orders_created =
  cr_orders :: "order list"
  cr_fingerprint :: string
  cr_reason :: string

record order_updated =
  up_order :: order
  up_reason :: string
  up_venue_order_id :: "string option"

record emulated_order_state =
  em_order_id :: string
  em_observed_price :: "money option"
  em_extreme :: "money option"
  em_stop_price :: "money option"
  em_triggered :: bool
  em_reason :: string

record cash_flow =
  cf_amount :: money
  cf_kind :: string
  cf_as_of :: date_time
  cf_note :: "string option"

record mark =
  mk_instrument :: instrument
  mk_price :: money
  mk_as_of :: date_time
  mk_source :: "string option"

record venue_reconcile =
  vr_venue :: string
  vr_as_of :: date_time
  vr_reconciled :: bool
  vr_drift :: "string list"
  vr_note :: "string option"

record venue_halt_cleared =
  hc_venue :: string
  hc_at :: date_time
  hc_reason :: string
  hc_reconcile_seq :: int

record option_lifecycle =
  ol_account_id :: string
  ol_contract :: option_contract
  ol_quantity :: money
  ol_held :: side
  ol_underlying_price :: money
  ol_price_source :: string
  ol_as_of :: date_time
  ol_reason :: string
  ol_early :: bool

record eod_run =
  er_session :: naive_date
  er_job :: string
  er_account_id :: string
  er_bars_processed :: int
  er_at_close :: date_time

record mirror_allocation =
  ma_strategy_order_id :: string
  ma_strategy_account :: string
  ma_quantity :: money

record mirror_queued =
  mq_venue :: string
  mq_ticket_key :: string
  mq_instrument :: instrument
  mq_side :: side
  mq_quantity :: money
  mq_order_type :: order_type
  mq_limit_price :: "money option"
  mq_tif :: tif
  mq_allocations :: "mirror_allocation list"
  mq_at :: date_time

definition alloc_same :: "mirror_allocation \<Rightarrow> mirror_allocation \<Rightarrow> bool" where
  "alloc_same a b \<longleftrightarrow>
     ma_strategy_order_id a = ma_strategy_order_id b \<and> ma_strategy_account a = ma_strategy_account b
     \<and> dec_eq (ma_quantity a) (ma_quantity b)"

definition queued_same :: "externals \<Rightarrow> mirror_queued \<Rightarrow> mirror_queued \<Rightarrow> bool" where
  "queued_same x a b \<longleftrightarrow>
     mq_venue a = mq_venue b \<and> mq_ticket_key a = mq_ticket_key b \<and> instr_same (mq_instrument a) (mq_instrument b)
     \<and> mq_side a = mq_side b \<and> dec_eq (mq_quantity a) (mq_quantity b) \<and> mq_order_type a = mq_order_type b
     \<and> opt_dec_eq (mq_limit_price a) (mq_limit_price b) \<and> mq_tif a = mq_tif b
     \<and> list_all2 alloc_same (mq_allocations a) (mq_allocations b) \<and> dt_same x (mq_at a) (mq_at b)"

record mirror_refused =
  mr_venue :: string
  mr_strategy_order_id :: string
  mr_strategy_account :: string
  mr_reason :: string
  mr_at :: date_time

record mirror_ack =
  ak_venue :: string
  ak_ticket_key :: string
  ak_status :: string
  ak_message :: string
  ak_at :: date_time
  ak_venue_order_id :: "string option"
  ak_book_status :: "order_state option"

record mirror_fill =
  mf_venue :: string
  mf_ticket_key :: string
  mf_venue_order_id :: string
  mf_filled :: money
  mf_avg_price :: money
  mf_at :: date_time

subsection \<open>Dynamic values and objects\<close>

datatype val =
    VNone
  | VBool bool
  | VInt int
  | VStr string
  | VDec money
  | VDateTime date_time
  | VDate naive_date
  | VSide side
  | VRight right
  | VOrderType order_type
  | VOrderState order_state
  | VTif tif
  | VKind event_kind
  | VTuple "val list"
  | VMap "(string \<times> val) list"
  | VObj obj
and obj =
    OInstr instrument
  | OComboLeg combo_leg
  | OFill fill
  | OLot lot
  | OSignal "val signal"
  | ORiskVerdict "val risk_verdict"
  | ORiskControl risk_control_change
  | ORiskRule "val risk_rule_result"
  | OOrder order
  | OStateChange order_state_change
  | OOrdersCreated orders_created
  | OOrderUpdated order_updated
  | OEmulated emulated_order_state
  | OCashFlow cash_flow
  | OMark mark
  | OReconcile venue_reconcile
  | OHaltCleared venue_halt_cleared
  | OEodRun eod_run
  | OLifecycle option_lifecycle
  | OCorp "val corporate_action"
  | OMAlloc mirror_allocation
  | OMQueued mirror_queued
  | OMRefused mirror_refused
  | OMAck mirror_ack
  | OMFill mirror_fill

fun obj_tag :: "obj \<Rightarrow> string" where
  "obj_tag (OInstr i) = instr_tag i"
| "obj_tag (OComboLeg _) = ''ComboLeg''"
| "obj_tag (OFill _) = ''Fill''"
| "obj_tag (OLot _) = ''Lot''"
| "obj_tag (OSignal _) = ''Signal''"
| "obj_tag (ORiskVerdict _) = ''RiskVerdict''"
| "obj_tag (ORiskControl _) = ''RiskControlChange''"
| "obj_tag (ORiskRule _) = ''RiskRuleResult''"
| "obj_tag (OOrder _) = ''Order''"
| "obj_tag (OStateChange _) = ''OrderStateChange''"
| "obj_tag (OOrdersCreated _) = ''OrdersCreated''"
| "obj_tag (OOrderUpdated _) = ''OrderUpdated''"
| "obj_tag (OEmulated _) = ''EmulatedOrderState''"
| "obj_tag (OCashFlow _) = ''CashFlow''"
| "obj_tag (OMark _) = ''Mark''"
| "obj_tag (OReconcile _) = ''VenueReconcile''"
| "obj_tag (OHaltCleared _) = ''VenueHaltCleared''"
| "obj_tag (OEodRun _) = ''EodRun''"
| "obj_tag (OLifecycle _) = ''OptionLifecycle''"
| "obj_tag (OCorp _) = ''CorporateAction''"
| "obj_tag (OMAlloc _) = ''MirrorAllocation''"
| "obj_tag (OMQueued _) = ''MirrorQueued''"
| "obj_tag (OMRefused _) = ''MirrorRefused''"
| "obj_tag (OMAck _) = ''MirrorAck''"
| "obj_tag (OMFill _) = ''MirrorFill''"

fun type_name :: "val \<Rightarrow> string" where
  "type_name VNone = ''NoneType''"
| "type_name (VBool _) = ''bool''"
| "type_name (VInt _) = ''int''"
| "type_name (VStr _) = ''str''"
| "type_name (VDec _) = ''Decimal''"
| "type_name (VDateTime _) = ''datetime''"
| "type_name (VDate _) = ''date''"
| "type_name (VSide _) = ''Side''"
| "type_name (VRight _) = ''OptionRight''"
| "type_name (VOrderType _) = ''OrderType''"
| "type_name (VOrderState _) = ''OrderState''"
| "type_name (VTif _) = ''TimeInForce''"
| "type_name (VKind _) = ''EventKind''"
| "type_name (VTuple _) = ''tuple''"
| "type_name (VMap _) = ''mappingproxy''"
| "type_name (VObj ob) = obj_tag ob"

fun expected_payload :: "event_kind \<Rightarrow> string" where
  "expected_payload KSignalSeen = ''Signal''"
| "expected_payload KRiskVerdict = ''RiskVerdict''"
| "expected_payload KOrdersCreated = ''OrdersCreated''"
| "expected_payload KRiskControl = ''RiskControlChange''"
| "expected_payload KOrderSubmitted = ''Order''"
| "expected_payload KOrderUpdated = ''OrderUpdated''"
| "expected_payload KOrderPending = ''OrderStateChange''"
| "expected_payload KOrderAccepted = ''OrderStateChange''"
| "expected_payload KOrderRejected = ''OrderStateChange''"
| "expected_payload KOrderCancelled = ''OrderStateChange''"
| "expected_payload KOrderRefused = ''OrderStateChange''"
| "expected_payload KOrderExpired = ''OrderStateChange''"
| "expected_payload KOrderEmulationUpdated = ''EmulatedOrderState''"
| "expected_payload KFill = ''Fill''"
| "expected_payload KAssignment = ''OptionLifecycle''"
| "expected_payload KExercise = ''OptionLifecycle''"
| "expected_payload KExpiry = ''OptionLifecycle''"
| "expected_payload KCorporateAction = ''CorporateAction''"
| "expected_payload KCashFlow = ''CashFlow''"
| "expected_payload KMark = ''Mark''"
| "expected_payload KVenueReconcile = ''VenueReconcile''"
| "expected_payload KVenueHaltCleared = ''VenueHaltCleared''"
| "expected_payload KEodRun = ''EodRun''"
| "expected_payload KMirrorQueued = ''MirrorQueued''"
| "expected_payload KMirrorRefused = ''MirrorRefused''"
| "expected_payload KMirrorAck = ''MirrorAck''"
| "expected_payload KMirrorFill = ''MirrorFill''"

subsection \<open>Events\<close>

record event =
  ev_account :: string
  ev_kind :: event_kind
  ev_payload :: obj
  ev_ts_utc :: date_time
  ev_command_id :: "string option"
  ev_schema_version :: int
  ev_seq :: "int option"

definition payload_account :: "obj \<Rightarrow> string option" where
  "payload_account ob =
     (case ob of
        OOrder r \<Rightarrow> Some (o_account_id r)
      | OFill f \<Rightarrow> Some (f_account_id f)
      | OLifecycle l \<Rightarrow> Some (ol_account_id l)
      | OEodRun r \<Rightarrow> Some (er_account_id r)
      | OOrderUpdated u \<Rightarrow> Some (o_account_id (up_order u))
      | _ \<Rightarrow> None)"

definition payload_venue :: "obj \<Rightarrow> string option" where
  "payload_venue ob =
     (case ob of
        OMQueued m \<Rightarrow> Some (mq_venue m)
      | OMRefused m \<Rightarrow> Some (mr_venue m)
      | OMAck m \<Rightarrow> Some (ak_venue m)
      | OMFill m \<Rightarrow> Some (mf_venue m)
      | _ \<Rightarrow> None)"

definition check_event :: "event \<Rightarrow> unit lres" where
  "check_event e =
     (if ev_account e = [] then lerr ''payload'' ''Event.account must be non-empty''
      else if ev_command_id e = Some [] then lerr ''payload'' ''Event.command_id must be non-empty when provided (I3)''
      else if ev_schema_version e \<le> 0 then lerr ''payload'' ''Event.schema_version must be a positive int''
      else if ev_schema_version e > SCHEMA_VERSION
        then lerr ''payload'' ''Event.schema_version is newer than this engine understands; refusing rather than mis-reading it (I5)''
      else if (case ev_seq e of Some s \<Rightarrow> s \<le> 0 | None \<Rightarrow> False) then lerr ''payload'' ''Event.seq must be a positive int''
      else if obj_tag (ev_payload e) \<noteq> expected_payload (ev_kind e) then lerr ''payload'' ''payload must be of the kind''
      else if (case payload_account (ev_payload e) of Some a \<Rightarrow> a \<noteq> ev_account e | None \<Rightarrow> False)
        then lerr ''payload'' ''payload belongs to another account than the event is filed under (I8)''
      else and_then
        (case payload_venue (ev_payload e) of
           None \<Rightarrow> Ok ()
         | Some v \<Rightarrow> and_then (mirror_account v) (\<lambda>want.
             if ev_account e \<noteq> want then lerr ''payload'' ''a venue event must be filed under its mirror account (I8)''
             else Ok ()))
        (\<lambda>_. case ev_payload e of
           OOrdersCreated c \<Rightarrow>
             if list_ex (\<lambda>r. o_account_id r \<noteq> ev_account e) (cr_orders c)
             then lerr ''payload'' ''contains orders for a different account (I8)'' else Ok ()
         | _ \<Rightarrow> Ok ()))"

end
