(* ===== verification/Build.thy ===== *)
theory Build
  imports Model
begin

section \<open>Building payloads from their fields: the constructors of \<open>ledger/model.rs\<close>\<close>

text \<open>
  Each payload is built from keyword fields the way the source does it: the keywords are bound,
  the fields are read with their type in the order of the code, and then the validation runs.
  A field is read at most once by a constructor, so removing it from the list (\<open>Kw::take\<close>)
  cannot be observed and reading is a lookup of the first entry.
\<close>

subsection \<open>Keyword binding and field extraction\<close>

type_synonym kw = "(string \<times> val) list"

definition kw_bind :: "string \<Rightarrow> kw \<Rightarrow> (string \<times> bool) list \<Rightarrow> kw lres" where
  "kw_bind tag f spec =
     (case find (\<lambda>(k, _). k \<notin> fst ` set spec) f of
        Some (k, _) \<Rightarrow> lerr ''type'' (tag @ ''() got an unexpected keyword argument '' @ k)
      | None \<Rightarrow>
          (case find (\<lambda>(n, required). required \<and> n \<notin> fst ` set f) spec of
             Some (n, _) \<Rightarrow> lerr ''type'' (tag @ ''() missing required argument: '' @ n)
           | None \<Rightarrow> Ok f))"

definition kw_take :: "kw \<Rightarrow> string \<Rightarrow> val option" where
  "kw_take k name = map_of k name"

definition kw_req :: "kw \<Rightarrow> string \<Rightarrow> val" where
  "kw_req k name = (case kw_take k name of None \<Rightarrow> VNone | Some v \<Rightarrow> v)"

definition bad_type :: "string \<Rightarrow> string \<Rightarrow> val \<Rightarrow> 'a lres" where
  "bad_type what name v = lerr ''strict'' (name @ '' must be '' @ what @ '', got '' @ type_name v)"

definition x_str :: "val \<Rightarrow> string \<Rightarrow> string lres" where
  "x_str v n = (case v of VStr s \<Rightarrow> Ok s | _ \<Rightarrow> bad_type ''a str'' n v)"

definition x_ostr :: "val \<Rightarrow> string \<Rightarrow> string option lres" where
  "x_ostr v n = (case v of VNone \<Rightarrow> Ok None | VStr s \<Rightarrow> Ok (Some s) | _ \<Rightarrow> bad_type ''a str or None'' n v)"

definition x_bool :: "val \<Rightarrow> string \<Rightarrow> bool lres" where
  "x_bool v n = (case v of VBool b \<Rightarrow> Ok b | _ \<Rightarrow> bad_type ''a bool'' n v)"

definition x_int :: "val \<Rightarrow> string \<Rightarrow> int lres" where
  "x_int v n = (case v of VInt i \<Rightarrow> Ok i | _ \<Rightarrow> bad_type ''an int'' n v)"

definition x_dec :: "val \<Rightarrow> string \<Rightarrow> money lres" where
  "x_dec v n = (case v of VDec d \<Rightarrow> Ok d | _ \<Rightarrow> bad_type ''a Decimal'' n v)"

definition x_odec :: "val \<Rightarrow> string \<Rightarrow> money option lres" where
  "x_odec v n = (case v of VNone \<Rightarrow> Ok None | VDec d \<Rightarrow> Ok (Some d) | _ \<Rightarrow> bad_type ''a Decimal or None'' n v)"

definition x_dt :: "val \<Rightarrow> string \<Rightarrow> date_time lres" where
  "x_dt v n = (case v of VDateTime d \<Rightarrow> Ok d | _ \<Rightarrow> bad_type ''a datetime'' n v)"

definition x_odt :: "val \<Rightarrow> string \<Rightarrow> date_time option lres" where
  "x_odt v n = (case v of VNone \<Rightarrow> Ok None | VDateTime d \<Rightarrow> Ok (Some d) | _ \<Rightarrow> bad_type ''a datetime or None'' n v)"

definition x_date :: "val \<Rightarrow> string \<Rightarrow> naive_date lres" where
  "x_date v n = (case v of VDate d \<Rightarrow> Ok d | _ \<Rightarrow> bad_type ''a date'' n v)"

definition x_odate :: "val \<Rightarrow> string \<Rightarrow> naive_date option lres" where
  "x_odate v n = (case v of VNone \<Rightarrow> Ok None | VDate d \<Rightarrow> Ok (Some d) | _ \<Rightarrow> bad_type ''a date or None'' n v)"

definition x_side :: "val \<Rightarrow> string \<Rightarrow> side lres" where
  "x_side v n = (case v of VSide s \<Rightarrow> Ok s | _ \<Rightarrow> bad_type ''a Side'' n v)"

definition x_instr :: "val \<Rightarrow> string \<Rightarrow> instrument lres" where
  "x_instr v n = (case v of VObj (OInstr i) \<Rightarrow> Ok i | _ \<Rightarrow> bad_type ''an Instrument'' n v)"

definition x_tuple :: "val \<Rightarrow> string \<Rightarrow> val list lres" where
  "x_tuple v n = (case v of VTuple t \<Rightarrow> Ok t | _ \<Rightarrow> bad_type ''a tuple'' n v)"

definition x_strs :: "val \<Rightarrow> string \<Rightarrow> string list lres" where
  "x_strs v n = and_then (x_tuple v n) (map_r (\<lambda>e. x_str e n))"

definition x_map :: "val \<Rightarrow> string \<Rightarrow> (string \<times> val) list lres" where
  "x_map v n = (case v of VNone \<Rightarrow> Ok [] | VMap m \<Rightarrow> Ok m | _ \<Rightarrow> bad_type ''a mapping'' n v)"

text \<open>An optional field with its default.\<close>

definition x_opt :: "'a \<Rightarrow> kw \<Rightarrow> string \<Rightarrow> (val \<Rightarrow> string \<Rightarrow> 'a lres) \<Rightarrow> 'a lres" where
  "x_opt d k name x = (case kw_take k name of None \<Rightarrow> Ok d | Some v \<Rightarrow> x v name)"

text \<open>A \<open>Money\<close> is always finite, so the refusal of a non-finite value has no case here.\<close>

definition as_decimal :: "val \<Rightarrow> string \<Rightarrow> money lres" where
  "as_decimal v name =
     (case v of
        VDec d \<Rightarrow> Ok d
      | VInt i \<Rightarrow> map_err derr (from_i128 i)
      | VStr s \<Rightarrow> ok_or (LErr ''invalid_operation'' []) (money_parse (chars s))
      | _ \<Rightarrow> lerr ''invalid_operation'' [])"

definition as_odecimal :: "val \<Rightarrow> string \<Rightarrow> money option lres" where
  "as_odecimal v name = (if v = VNone then Ok None else and_then (as_decimal v name) (\<lambda>d. Ok (Some d)))"

definition nonempty :: "string \<Rightarrow> string \<Rightarrow> unit lres" where
  "nonempty s msg = (if s = [] then lerr ''value'' msg else Ok ())"

definition pnonempty :: "string \<Rightarrow> string \<Rightarrow> unit lres" where
  "pnonempty s msg = (if s = [] then lerr ''payload'' msg else Ok ())"

definition le0 :: "money \<Rightarrow> bool" where
  "le0 d \<longleftrightarrow> money_le d ZERO"

definition lt0 :: "money \<Rightarrow> bool" where
  "lt0 d \<longleftrightarrow> money_lt d ZERO"

definition guard_r :: "bool \<Rightarrow> string \<Rightarrow> string \<Rightarrow> unit lres" where
  "guard_r ok kind msg = (if ok then Ok () else lerr kind msg)"

subsection \<open>Instruments\<close>

definition make_equity :: "externals \<Rightarrow> string \<Rightarrow> instrument lres" where
  "make_equity x s = map_err oerr (and_then (equity_symbol x (Some s)) (\<lambda>t. Ok (Equity t)))"

definition make_option ::
  "externals \<Rightarrow> string \<Rightarrow> naive_date \<Rightarrow> val \<Rightarrow> int \<Rightarrow> val \<Rightarrow> option_contract lres" where
  "make_option x underlying expiry strike multiplier right =
     and_then (map_err oerr (validate_underlying x underlying)) (\<lambda>und.
     and_then
       (case strike of
          VDec d \<Rightarrow> Ok d
        | VInt i \<Rightarrow> map_err derr (from_i128 i)
        | VStr s \<Rightarrow> ok_or (LErr ''invalid_operation'' []) (money_parse (chars s))
        | _ \<Rightarrow> lerr ''invalid_operation'' [])
       (\<lambda>k.
       let rstr = (case right of VRight r \<Rightarrow> Some (right_code r) | VStr s \<Rightarrow> Some s | _ \<Rightarrow> None) in
       and_then (map_err oerr (validate_rest x (decwire k) (Some (int_to_string multiplier)) rstr)) (\<lambda>r.
       Ok \<lparr>oc_underlying = und, oc_expiry = expiry, oc_strike = k, oc_right = r, oc_multiplier = multiplier\<rparr>)))"

definition build_option :: "externals \<Rightarrow> kw \<Rightarrow> instrument lres" where
  "build_option x f =
     and_then (kw_bind ''OptionContract'' f
       [(''underlying'', True), (''expiry'', True), (''strike'', True), (''right'', True), (''multiplier'', False)]) (\<lambda>k.
     and_then (x_str (kw_req k ''underlying'') ''underlying'') (\<lambda>underlying.
     and_then (x_date (kw_req k ''expiry'') ''expiry'') (\<lambda>expiry.
     and_then (x_opt 100 k ''multiplier'' x_int) (\<lambda>multiplier.
     and_then (make_option x underlying expiry (kw_req k ''strike'') multiplier (kw_req k ''right'')) (\<lambda>c.
     Ok (OptionI c))))))"

definition build_equity :: "externals \<Rightarrow> kw \<Rightarrow> instrument lres" where
  "build_equity x f =
     and_then (kw_bind ''Equity'' f [(''symbol'', True)]) (\<lambda>k.
       case kw_req k ''symbol'' of
         VStr s \<Rightarrow> make_equity x s
       | other \<Rightarrow> bad_type ''a str'' ''symbol'' other)"

definition x_leg :: "val \<Rightarrow> combo_leg lres" where
  "x_leg v = (case v of VObj (OComboLeg l) \<Rightarrow> Ok l | _ \<Rightarrow> bad_type ''a ComboLeg'' ''legs'' v)"

definition build_combo :: "kw \<Rightarrow> instrument lres" where
  "build_combo f =
     and_then (kw_bind ''Combo'' f [(''legs'', True)]) (\<lambda>k.
     and_then (x_tuple (kw_req k ''legs'') ''legs'') (\<lambda>legs.
     if legs = [] then lerr ''value'' ''Combo must have at least one leg''
     else and_then (map_r x_leg legs) (\<lambda>out. Ok (Combo out))))"

definition build_combo_leg :: "kw \<Rightarrow> combo_leg lres" where
  "build_combo_leg f =
     and_then (kw_bind ''ComboLeg'' f [(''contract'', True), (''ratio'', True), (''side'', True)]) (\<lambda>k.
     and_then (x_instr (kw_req k ''contract'') ''contract'') (\<lambda>contract.
     and_then (case contract of
                 Combo _ \<Rightarrow> lerr ''value'' ''Combo leg contract must be OptionContract or Equity, got Combo''
               | _ \<Rightarrow> Ok ()) (\<lambda>_.
     and_then (x_int (kw_req k ''ratio'') ''ratio'') (\<lambda>ratio.
     if ratio \<le> 0 then lerr ''value'' ''Combo leg ratio must be positive''
     else and_then (x_side (kw_req k ''side'') ''side'') (\<lambda>sd. Ok (ComboLeg contract ratio sd))))))"

subsection \<open>Orders, fills and lots\<close>

definition validate_order_prices ::
  "order_type \<Rightarrow> money option \<Rightarrow> money option \<Rightarrow> money option \<Rightarrow> unit lres" where
  "validate_order_prices ot limit stop trail =
     and_then
       (case ot of
          Market \<Rightarrow>
            if limit \<noteq> None then lerr ''value'' ''MARKET order cannot have a limit_price''
            else if stop \<noteq> None then lerr ''value'' ''MARKET order cannot have a stop_price''
            else if trail \<noteq> None then lerr ''value'' ''MARKET order cannot have a trail_amount''
            else Ok ()
        | Limit \<Rightarrow>
            if limit = None then lerr ''value'' ''LIMIT order must have a limit_price''
            else if stop \<noteq> None then lerr ''value'' ''LIMIT order cannot have a stop_price''
            else if trail \<noteq> None then lerr ''value'' ''LIMIT order cannot have a trail_amount''
            else Ok ()
        | Stop \<Rightarrow>
            if stop = None then lerr ''value'' ''STOP order must have a stop_price''
            else if limit \<noteq> None then lerr ''value'' ''STOP order cannot have a limit_price''
            else if trail \<noteq> None then lerr ''value'' ''STOP order cannot have a trail_amount''
            else Ok ()
        | StopLimit \<Rightarrow>
            if limit = None \<or> stop = None
            then lerr ''value'' ''STOP_LIMIT order must have both limit_price and stop_price''
            else if trail \<noteq> None then lerr ''value'' ''STOP_LIMIT order cannot have a trail_amount''
            else Ok ()
        | Trail \<Rightarrow>
            if (case trail of None \<Rightarrow> True | Some t \<Rightarrow> le0 t)
            then lerr ''value'' ''TRAIL order must have a positive trail_amount (I5)''
            else if limit \<noteq> None then lerr ''value'' ''TRAIL order cannot have a limit_price''
            else if stop \<noteq> None then lerr ''value'' ''TRAIL order cannot have a stop_price''
            else Ok ())
       (\<lambda>_.
        if (case limit of Some l \<Rightarrow> le0 l | None \<Rightarrow> False) then lerr ''value'' ''limit_price must be positive''
        else if (case stop of Some s \<Rightarrow> le0 s | None \<Rightarrow> False) then lerr ''value'' ''stop_price must be positive''
        else Ok ())"

definition x_order_type :: "val \<Rightarrow> string \<Rightarrow> order_type lres" where
  "x_order_type v n = (case v of VOrderType t \<Rightarrow> Ok t | _ \<Rightarrow> bad_type ''an OrderType'' n v)"

definition x_tif :: "val \<Rightarrow> string \<Rightarrow> tif lres" where
  "x_tif v n = (case v of VTif t \<Rightarrow> Ok t | _ \<Rightarrow> bad_type ''a TimeInForce'' n v)"

definition x_order_state :: "val \<Rightarrow> string \<Rightarrow> order_state lres" where
  "x_order_state v n = (case v of VOrderState t \<Rightarrow> Ok t | _ \<Rightarrow> bad_type ''an OrderState'' n v)"

definition build_order :: "kw \<Rightarrow> order lres" where
  "build_order f =
     and_then (kw_bind ''Order'' f
       [(''order_id'', True), (''account_id'', True), (''instrument'', True), (''order_type'', True),
        (''side'', True), (''quantity'', True), (''command_id'', True), (''created_at'', True),
        (''limit_price'', False), (''stop_price'', False), (''trail_amount'', False), (''tif'', False),
        (''state'', False), (''parent_order_id'', False), (''oco_group'', False)]) (\<lambda>k.
     and_then (x_str (kw_req k ''order_id'') ''order_id'') (\<lambda>order_id.
     and_then (x_str (kw_req k ''account_id'') ''account_id'') (\<lambda>account_id.
     and_then (x_instr (kw_req k ''instrument'') ''instrument'') (\<lambda>instrument.
     and_then (x_order_type (kw_req k ''order_type'') ''order_type'') (\<lambda>order_type.
     and_then (x_side (kw_req k ''side'') ''side'') (\<lambda>sd.
     and_then (x_dec (kw_req k ''quantity'') ''quantity'') (\<lambda>quantity.
     and_then (x_str (kw_req k ''command_id'') ''command_id'') (\<lambda>command_id.
     and_then (x_dt (kw_req k ''created_at'') ''created_at'') (\<lambda>created_at.
     and_then (x_opt None k ''limit_price'' x_odec) (\<lambda>limit_price.
     and_then (x_opt None k ''stop_price'' x_odec) (\<lambda>stop_price.
     and_then (x_opt None k ''trail_amount'' x_odec) (\<lambda>trail_amount.
     and_then (x_opt Day k ''tif'' x_tif) (\<lambda>tif.
     and_then (x_opt New k ''state'' x_order_state) (\<lambda>state.
     and_then (x_opt None k ''parent_order_id'' x_ostr) (\<lambda>parent_order_id.
     and_then (x_opt None k ''oco_group'' x_ostr) (\<lambda>oco_group.
     and_then (nonempty order_id ''order_id must be non-empty'') (\<lambda>_.
     and_then (nonempty account_id ''account_id must be non-empty'') (\<lambda>_.
     and_then (nonempty command_id ''command_id must be non-empty (I3)'') (\<lambda>_.
     and_then (guard_r (\<not> le0 quantity) ''value'' ''Order quantity must be positive (I5)'') (\<lambda>_.
     and_then (validate_order_prices order_type limit_price stop_price trail_amount) (\<lambda>_.
     Ok \<lparr>o_order_id = order_id, o_account_id = account_id, o_instrument = instrument,
         o_order_type = order_type, o_side = sd, o_quantity = quantity, o_command_id = command_id,
         o_created_at = created_at, o_limit_price = limit_price, o_stop_price = stop_price,
         o_trail_amount = trail_amount, o_tif = tif, o_state = state,
         o_parent_order_id = parent_order_id, o_oco_group = oco_group\<rparr>)))))))))))))))))))))"

definition build_fill :: "kw \<Rightarrow> fill lres" where
  "build_fill f =
     and_then (kw_bind ''Fill'' f
       [(''fill_id'', True), (''order_id'', True), (''account_id'', True), (''instrument'', True),
        (''quantity'', True), (''price'', True), (''venue_env'', True), (''filled_at'', True),
        (''side'', True), (''fee'', False), (''leg_id'', False), (''venue_order_id'', False),
        (''venue_execution_id'', False)]) (\<lambda>k.
     and_then (x_str (kw_req k ''fill_id'') ''fill_id'') (\<lambda>fill_id.
     and_then (x_str (kw_req k ''order_id'') ''order_id'') (\<lambda>order_id.
     and_then (x_str (kw_req k ''account_id'') ''account_id'') (\<lambda>account_id.
     and_then (x_instr (kw_req k ''instrument'') ''instrument'') (\<lambda>instrument.
     and_then (x_dec (kw_req k ''quantity'') ''quantity'') (\<lambda>quantity.
     and_then (x_dec (kw_req k ''price'') ''price'') (\<lambda>price.
     and_then (x_str (kw_req k ''venue_env'') ''venue_env'') (\<lambda>venue_env.
     and_then (x_dt (kw_req k ''filled_at'') ''filled_at'') (\<lambda>filled_at.
     and_then (x_side (kw_req k ''side'') ''side'') (\<lambda>sd.
     and_then (x_opt ZERO k ''fee'' x_dec) (\<lambda>fee.
     and_then (x_opt None k ''leg_id'' x_ostr) (\<lambda>leg_id.
     and_then (x_opt None k ''venue_order_id'' x_ostr) (\<lambda>venue_order_id.
     and_then (x_opt None k ''venue_execution_id'' x_ostr) (\<lambda>venue_execution_id.
     and_then (nonempty fill_id ''fill_id must be non-empty'') (\<lambda>_.
     and_then (nonempty order_id ''order_id must be non-empty'') (\<lambda>_.
     and_then (nonempty account_id ''account_id must be non-empty'') (\<lambda>_.
     and_then (guard_r (\<not> le0 quantity) ''value'' ''Fill quantity must be strictly positive'') (\<lambda>_.
     and_then (guard_r (\<not> le0 price) ''value'' ''Fill price must be strictly positive (I5)'') (\<lambda>_.
     and_then (guard_r (venue_env \<in> {''sim'', ''paper'', ''live''}) ''value'' ''Invalid venue_env'') (\<lambda>_.
     Ok \<lparr>f_fill_id = fill_id, f_order_id = order_id, f_account_id = account_id,
         f_instrument = instrument, f_quantity = quantity, f_price = price, f_venue_env = venue_env,
         f_filled_at = filled_at, f_side = sd, f_fee = fee, f_leg_id = leg_id,
         f_venue_order_id = venue_order_id, f_venue_execution_id = venue_execution_id\<rparr>))))))))))))))))))))"

definition make_lot :: "string \<Rightarrow> money \<Rightarrow> money \<Rightarrow> date_time \<Rightarrow> side \<Rightarrow> lot lres" where
  "make_lot lid quantity cost_basis acquired_at sd =
     and_then (nonempty lid ''lot_id must be non-empty'') (\<lambda>_.
     and_then (guard_r (\<not> le0 quantity) ''value'' ''Lot quantity must be positive'') (\<lambda>_.
     and_then (guard_r (\<not> le0 cost_basis) ''value'' ''Lot cost_basis must be positive'') (\<lambda>_.
     Ok \<lparr>lot_id = lid, lot_quantity = quantity, lot_cost_basis = cost_basis, lot_acquired_at = acquired_at,
         lot_side = sd\<rparr>)))"

definition build_lot :: "kw \<Rightarrow> lot lres" where
  "build_lot f =
     and_then (kw_bind ''Lot'' f
       [(''lot_id'', True), (''quantity'', True), (''cost_basis'', True), (''acquired_at'', True), (''side'', True)]) (\<lambda>k.
     and_then (x_str (kw_req k ''lot_id'') ''lot_id'') (\<lambda>lid.
     and_then (x_dec (kw_req k ''quantity'') ''quantity'') (\<lambda>quantity.
     and_then (x_dec (kw_req k ''cost_basis'') ''cost_basis'') (\<lambda>cost_basis.
     and_then (x_dt (kw_req k ''acquired_at'') ''acquired_at'') (\<lambda>acquired_at.
     and_then (x_side (kw_req k ''side'') ''side'') (\<lambda>sd.
     make_lot lid quantity cost_basis acquired_at sd))))))"

subsection \<open>Risk, signals and corporate actions\<close>

definition build_risk_rule :: "kw \<Rightarrow> val risk_rule_result lres" where
  "build_risk_rule f =
     and_then (kw_bind ''RiskRuleResult'' f
       [(''rule_name'', True), (''passed'', True), (''measured_value'', True), (''threshold'', True), (''reason'', True)]) (\<lambda>k.
     and_then (x_str (kw_req k ''rule_name'') ''rule_name'') (\<lambda>rule_name.
     and_then (x_bool (kw_req k ''passed'') ''passed'') (\<lambda>passed.
     and_then (x_str (kw_req k ''reason'') ''reason'') (\<lambda>reason.
     and_then (nonempty rule_name ''rule_name must be non-empty'') (\<lambda>_.
     Ok (RiskRuleResult rule_name passed (kw_req k ''measured_value'') (kw_req k ''threshold'') reason))))))"

definition x_obool :: "val \<Rightarrow> string \<Rightarrow> bool option lres" where
  "x_obool v n = (case v of VNone \<Rightarrow> Ok None | VBool b \<Rightarrow> Ok (Some b) | _ \<Rightarrow> bad_type ''a bool or None'' n v)"

definition x_risk_rule :: "val \<Rightarrow> val risk_rule_result lres" where
  "x_risk_rule v = (case v of VObj (ORiskRule r) \<Rightarrow> Ok r | _ \<Rightarrow> bad_type ''a RiskRuleResult'' ''evaluations'' v)"

definition build_risk_verdict :: "kw \<Rightarrow> val risk_verdict lres" where
  "build_risk_verdict f =
     and_then (kw_bind ''RiskVerdict'' f
       [(''order_intent_id'', True), (''accepted'', False), (''evaluations'', False), (''refusal_reasons'', False),
        (''approved_quantity'', False)]) (\<lambda>k.
     and_then (x_str (kw_req k ''order_intent_id'') ''order_intent_id'') (\<lambda>order_intent_id.
     and_then (x_opt None k ''accepted'' x_obool) (\<lambda>accepted.
     and_then (x_opt [] k ''evaluations'' (\<lambda>v n. and_then (x_tuple v n) (map_r x_risk_rule))) (\<lambda>evaluations.
     and_then (x_opt [] k ''refusal_reasons'' x_strs) (\<lambda>refusal_reasons.
     and_then (x_opt None k ''approved_quantity'' x_odec) (\<lambda>approved_quantity.
     and_then (nonempty order_intent_id ''order_intent_id must be non-empty'') (\<lambda>_.
     and_then (guard_r (case approved_quantity of Some q \<Rightarrow> \<not> le0 q | None \<Rightarrow> True) ''value''
       ''approved_quantity must be a positive finite Decimal'') (\<lambda>_.
     and_then (guard_r (evaluations \<noteq> []) ''value'' ''RiskVerdict must contain at least one evaluation (I11)'') (\<lambda>_.
     let has_failed = list_ex (\<lambda>e. \<not> rr_passed e) evaluations;
         derived = (\<not> has_failed \<and> refusal_reasons = [])
     in
     and_then (guard_r (case accepted of Some a \<Rightarrow> a = derived | None \<Rightarrow> True) ''value'' ''Contradictory RiskVerdict (I11)'') (\<lambda>_.
     and_then (guard_r (derived \<or> refusal_reasons \<noteq> []) ''value''
       ''A refused RiskVerdict must include at least one refusal reason'') (\<lambda>_.
     and_then (guard_r (derived \<or> approved_quantity = None) ''value''
       ''A refused RiskVerdict cannot include an approved quantity'') (\<lambda>_.
     Ok (RiskVerdict order_intent_id derived evaluations refusal_reasons approved_quantity)))))))))))))"

definition build_risk_control :: "kw \<Rightarrow> risk_control_change lres" where
  "build_risk_control f =
     and_then (kw_bind ''RiskControlChange'' f
       [(''control_id'', True), (''enabled'', True), (''reason'', True), (''changed_at'', True)]) (\<lambda>k.
     and_then (x_str (kw_req k ''control_id'') ''control_id'') (\<lambda>control_id.
     and_then (x_bool (kw_req k ''enabled'') ''enabled'') (\<lambda>enabled.
     and_then (x_str (kw_req k ''reason'') ''reason'') (\<lambda>reason.
     and_then (x_dt (kw_req k ''changed_at'') ''changed_at'') (\<lambda>changed_at.
     and_then (nonempty control_id ''control_id must be non-empty'') (\<lambda>_.
     and_then (nonempty reason ''reason must be non-empty'') (\<lambda>_.
     Ok \<lparr>rc_control_id = control_id, rc_enabled = enabled, rc_reason = reason, rc_changed_at = changed_at\<rparr>)))))))"

definition build_signal :: "kw \<Rightarrow> val signal lres" where
  "build_signal f =
     and_then (kw_bind ''Signal'' f
       [(''signal_id'', True), (''scan_id'', True), (''symbol'', True), (''session_date'', True), (''direction'', True),
        (''metrics'', False), (''next_earnings_date'', False), (''created_at'', False)]) (\<lambda>k.
     and_then (x_str (kw_req k ''signal_id'') ''signal_id'') (\<lambda>signal_id.
     and_then (x_str (kw_req k ''scan_id'') ''scan_id'') (\<lambda>scan_id.
     and_then (x_str (kw_req k ''symbol'') ''symbol'') (\<lambda>sg.
     and_then (x_date (kw_req k ''session_date'') ''session_date'') (\<lambda>session_date.
     and_then (x_str (kw_req k ''direction'') ''direction'') (\<lambda>direction.
     and_then (x_opt [] k ''metrics'' x_map) (\<lambda>metrics.
     and_then (x_opt None k ''next_earnings_date'' x_odate) (\<lambda>next_earnings_date.
     and_then (x_opt None k ''created_at'' x_odt) (\<lambda>created_at.
     and_then (nonempty signal_id ''signal_id must be non-empty'') (\<lambda>_.
     and_then (nonempty scan_id ''scan_id must be non-empty'') (\<lambda>_.
     and_then (nonempty sg ''symbol must be non-empty'') (\<lambda>_.
     and_then (guard_r (direction = ''long'' \<or> direction = ''short'') ''value'' ''direction must be long or short'') (\<lambda>_.
     Ok (Signal signal_id scan_id sg session_date direction metrics next_earnings_date created_at))))))))))))))"

definition build_corporate_action :: "kw \<Rightarrow> val corporate_action lres" where
  "build_corporate_action f =
     and_then (kw_bind ''CorporateAction'' f
       [(''symbol'', True), (''action_type'', True), (''effective_date'', True), (''as_of'', True), (''details'', False)]) (\<lambda>k.
     and_then (x_str (kw_req k ''symbol'') ''symbol'') (\<lambda>sg.
     and_then (x_str (kw_req k ''action_type'') ''action_type'') (\<lambda>action_type.
     and_then (x_date (kw_req k ''effective_date'') ''effective_date'') (\<lambda>effective_date.
     and_then (x_dt (kw_req k ''as_of'') ''as_of'') (\<lambda>as_of.
     and_then (x_opt [] k ''details'' x_map) (\<lambda>details.
     Ok (CorporateAction sg action_type effective_date as_of details)))))))"

subsection \<open>Order events\<close>

definition build_state_change :: "kw \<Rightarrow> order_state_change lres" where
  "build_state_change f =
     and_then (kw_bind ''OrderStateChange'' f [(''order_id'', True), (''reason'', False), (''venue_order_id'', False)]) (\<lambda>k.
     and_then (x_str (kw_req k ''order_id'') ''order_id'') (\<lambda>order_id.
     and_then (x_opt None k ''reason'' x_ostr) (\<lambda>reason.
     and_then (x_opt None k ''venue_order_id'' x_ostr) (\<lambda>venue_order_id.
     and_then (pnonempty order_id ''OrderStateChange.order_id must be non-empty'') (\<lambda>_.
     and_then (guard_r (reason \<noteq> Some []) ''payload'' ''OrderStateChange.reason must be non-empty when provided'') (\<lambda>_.
     Ok \<lparr>sc_order_id = order_id, sc_reason = reason, sc_venue_order_id = venue_order_id\<rparr>))))))"

definition x_order :: "val \<Rightarrow> string \<Rightarrow> order lres" where
  "x_order v n = (case v of VObj (OOrder r) \<Rightarrow> Ok r | _ \<Rightarrow> bad_type ''an Order'' n v)"

definition build_orders_created :: "kw \<Rightarrow> orders_created lres" where
  "build_orders_created f =
     and_then (kw_bind ''OrdersCreated'' f [(''orders'', True), (''fingerprint'', True), (''reason'', True)]) (\<lambda>k.
     and_then (x_tuple (kw_req k ''orders'') ''orders'') (\<lambda>vs.
     and_then (map_r (\<lambda>v. x_order v ''orders'') vs) (\<lambda>orders.
     and_then (x_str (kw_req k ''fingerprint'') ''fingerprint'') (\<lambda>fingerprint.
     and_then (x_str (kw_req k ''reason'') ''reason'') (\<lambda>reason.
     and_then (guard_r (orders \<noteq> []) ''payload'' ''OrdersCreated.orders must not be empty'') (\<lambda>_.
     and_then (pnonempty fingerprint ''OrdersCreated.fingerprint must be non-empty'') (\<lambda>_.
     and_then (pnonempty reason ''OrdersCreated.reason must be non-empty'') (\<lambda>_.
     and_then (guard_r (length (remdups (map o_order_id orders)) = length orders) ''payload''
       ''OrdersCreated.order_id values must be unique'') (\<lambda>_.
     and_then (guard_r (length (remdups (map o_account_id orders)) = 1) ''payload''
       ''OrdersCreated orders must belong to one account'') (\<lambda>_.
     Ok \<lparr>cr_orders = orders, cr_fingerprint = fingerprint, cr_reason = reason\<rparr>))))))))))"

definition build_order_updated :: "kw \<Rightarrow> order_updated lres" where
  "build_order_updated f =
     and_then (kw_bind ''OrderUpdated'' f [(''order'', True), (''reason'', True), (''venue_order_id'', False)]) (\<lambda>k.
     and_then (x_order (kw_req k ''order'') ''order'') (\<lambda>ord.
     and_then (x_str (kw_req k ''reason'') ''reason'') (\<lambda>reason.
     and_then (x_opt None k ''venue_order_id'' x_ostr) (\<lambda>venue_order_id.
     and_then (pnonempty reason ''OrderUpdated.reason must be non-empty'') (\<lambda>_.
     Ok \<lparr>up_order = ord, up_reason = reason, up_venue_order_id = venue_order_id\<rparr>)))))"

definition positive_opt :: "val \<Rightarrow> string \<Rightarrow> money option lres" where
  "positive_opt v name =
     and_then (as_odecimal v name) (\<lambda>d.
     if (case d of Some q \<Rightarrow> le0 q | None \<Rightarrow> False)
     then lerr ''payload'' (''EmulatedOrderState.'' @ name @ '' must be positive'') else Ok d)"

definition build_emulated :: "kw \<Rightarrow> emulated_order_state lres" where
  "build_emulated f =
     and_then (kw_bind ''EmulatedOrderState'' f
       [(''order_id'', True), (''observed_price'', True), (''extreme'', True), (''stop_price'', True),
        (''triggered'', True), (''reason'', True)]) (\<lambda>k.
     and_then (x_str (kw_req k ''order_id'') ''order_id'') (\<lambda>order_id.
     and_then (x_bool (kw_req k ''triggered'') ''triggered'') (\<lambda>triggered.
     and_then (x_str (kw_req k ''reason'') ''reason'') (\<lambda>reason.
     and_then (pnonempty order_id ''EmulatedOrderState.order_id must be non-empty'') (\<lambda>_.
     and_then (positive_opt (kw_req k ''observed_price'') ''observed_price'') (\<lambda>observed_price.
     and_then (positive_opt (kw_req k ''extreme'') ''extreme'') (\<lambda>extreme.
     and_then (positive_opt (kw_req k ''stop_price'') ''stop_price'') (\<lambda>stop_price.
     and_then (pnonempty reason ''EmulatedOrderState.reason must be non-empty'') (\<lambda>_.
     Ok \<lparr>em_order_id = order_id, em_observed_price = observed_price, em_extreme = extreme,
         em_stop_price = stop_price, em_triggered = triggered, em_reason = reason\<rparr>)))))))))"

subsection \<open>Cash, marks, reconciliation and lifecycle\<close>

definition build_cash_flow :: "kw \<Rightarrow> cash_flow lres" where
  "build_cash_flow f =
     and_then (kw_bind ''CashFlow'' f [(''amount'', True), (''kind'', True), (''as_of'', True), (''note'', False)]) (\<lambda>k.
     and_then (x_str (kw_req k ''kind'') ''kind'') (\<lambda>kind.
     and_then (x_dt (kw_req k ''as_of'') ''as_of'') (\<lambda>as_of.
     and_then (x_opt None k ''note'' x_ostr) (\<lambda>note.
     and_then (as_decimal (kw_req k ''amount'') ''CashFlow.amount'') (\<lambda>amount.
     and_then (guard_r (kind \<in> set CASH_FLOW_KINDS) ''payload'' ''CashFlow.kind must be one of the known kinds'') (\<lambda>_.
     Ok \<lparr>cf_amount = amount, cf_kind = kind, cf_as_of = as_of, cf_note = note\<rparr>))))))"

definition build_mark :: "kw \<Rightarrow> mark lres" where
  "build_mark f =
     and_then (kw_bind ''Mark'' f [(''instrument'', True), (''price'', True), (''as_of'', True), (''source'', False)]) (\<lambda>k.
     and_then (case kw_req k ''instrument'' of
                 VObj (OInstr i) \<Rightarrow> Ok i
               | _ \<Rightarrow> lerr ''payload'' ''Mark.instrument must be an Instrument (I6)'') (\<lambda>instrument.
     and_then (x_dt (kw_req k ''as_of'') ''as_of'') (\<lambda>as_of.
     and_then (x_opt None k ''source'' x_ostr) (\<lambda>src.
     and_then (as_decimal (kw_req k ''price'') ''Mark.price'') (\<lambda>price.
     and_then (guard_r (\<not> le0 price) ''payload'' ''Mark.price must be positive (I5)'') (\<lambda>_.
     Ok \<lparr>mk_instrument = instrument, mk_price = price, mk_as_of = as_of, mk_source = src\<rparr>))))))"

definition build_reconcile :: "kw \<Rightarrow> venue_reconcile lres" where
  "build_reconcile f =
     and_then (kw_bind ''VenueReconcile'' f
       [(''venue'', True), (''as_of'', True), (''reconciled'', True), (''drift'', False), (''note'', False)]) (\<lambda>k.
     and_then (x_str (kw_req k ''venue'') ''venue'') (\<lambda>venue.
     and_then (x_dt (kw_req k ''as_of'') ''as_of'') (\<lambda>as_of.
     and_then (x_bool (kw_req k ''reconciled'') ''reconciled'') (\<lambda>reconciled.
     and_then (x_opt [] k ''drift'' x_strs) (\<lambda>drift.
     and_then (x_opt None k ''note'' x_ostr) (\<lambda>note.
     and_then (pnonempty venue ''VenueReconcile.venue must be non-empty'') (\<lambda>_.
     and_then (guard_r (\<not> (reconciled \<and> drift \<noteq> [])) ''payload''
       ''VenueReconcile cannot be reconciled while listing drift instruments'') (\<lambda>_.
     and_then (guard_r (reconciled \<or> drift \<noteq> []) ''payload''
       ''VenueReconcile that is not reconciled must name the drifting instruments (I11)'') (\<lambda>_.
     Ok \<lparr>vr_venue = venue, vr_as_of = as_of, vr_reconciled = reconciled, vr_drift = drift, vr_note = note\<rparr>)))))))))"

definition build_halt_cleared :: "kw \<Rightarrow> venue_halt_cleared lres" where
  "build_halt_cleared f =
     and_then (kw_bind ''VenueHaltCleared'' f
       [(''venue'', True), (''at'', True), (''reason'', True), (''reconcile_seq'', True)]) (\<lambda>k.
     and_then (x_str (kw_req k ''venue'') ''venue'') (\<lambda>venue.
     and_then (x_dt (kw_req k ''at'') ''at'') (\<lambda>ts.
     and_then (x_str (kw_req k ''reason'') ''reason'') (\<lambda>reason.
     and_then (pnonempty venue ''VenueHaltCleared.venue must be non-empty'') (\<lambda>_.
     and_then (guard_r (strip (chars reason) \<noteq> []) ''payload'' ''VenueHaltCleared.reason must be non-empty (I11)'') (\<lambda>_.
     and_then (case kw_req k ''reconcile_seq'' of
                 VInt i \<Rightarrow> if i \<ge> 1 then Ok i else lerr ''payload'' ''VenueHaltCleared.reconcile_seq must be a ledger seq''
               | _ \<Rightarrow> lerr ''payload'' ''VenueHaltCleared.reconcile_seq must be a ledger seq'') (\<lambda>reconcile_seq.
     Ok \<lparr>hc_venue = venue, hc_at = ts, hc_reason = reason, hc_reconcile_seq = reconcile_seq\<rparr>)))))))"

definition build_lifecycle :: "kw \<Rightarrow> option_lifecycle lres" where
  "build_lifecycle f =
     and_then (kw_bind ''OptionLifecycle'' f
       [(''account_id'', True), (''contract'', True), (''quantity'', True), (''held'', True),
        (''underlying_price'', True), (''price_source'', True), (''as_of'', True), (''reason'', True),
        (''early'', False)]) (\<lambda>k.
     and_then (x_str (kw_req k ''account_id'') ''account_id'') (\<lambda>account_id.
     let contract0 = (case kw_req k ''contract'' of VObj (OInstr (OptionI c)) \<Rightarrow> Some c | _ \<Rightarrow> None);
         early0 = (case kw_take k ''early'' of
                     None \<Rightarrow> Ok False
                   | Some (VBool b) \<Rightarrow> Ok b
                   | Some _ \<Rightarrow> lerr ''payload'' ''OptionLifecycle.early must be a bool'')
     in
     and_then (x_str (kw_req k ''price_source'') ''price_source'') (\<lambda>price_source.
     and_then (x_dt (kw_req k ''as_of'') ''as_of'') (\<lambda>as_of.
     and_then (x_str (kw_req k ''reason'') ''reason'') (\<lambda>reason.
     and_then (pnonempty account_id ''OptionLifecycle.account_id must be non-empty'') (\<lambda>_.
     and_then (ok_or (LErr ''payload'' ''OptionLifecycle.contract must be an OptionContract (I6)'') contract0) (\<lambda>contract.
     and_then (as_decimal (kw_req k ''quantity'') ''OptionLifecycle.quantity'') (\<lambda>quantity.
     and_then (guard_r (\<not> (le0 quantity \<or> \<not> is_integral quantity)) ''payload''
       ''OptionLifecycle.quantity must be a positive whole number of contracts'') (\<lambda>_.
     and_then (case kw_req k ''held'' of
                 VSide s \<Rightarrow> Ok s
               | _ \<Rightarrow> lerr ''payload'' ''OptionLifecycle.held must be a Side (I5)'') (\<lambda>held.
     and_then (as_decimal (kw_req k ''underlying_price'') ''OptionLifecycle.underlying_price'') (\<lambda>underlying_price.
     and_then (guard_r (\<not> le0 underlying_price) ''payload'' ''OptionLifecycle.underlying_price must be positive (I5)'') (\<lambda>_.
     and_then (pnonempty price_source ''OptionLifecycle.price_source must be non-empty (I11)'') (\<lambda>_.
     and_then (pnonempty reason ''OptionLifecycle.reason must be non-empty (I11)'') (\<lambda>_.
     and_then early0 (\<lambda>early.
     Ok \<lparr>ol_account_id = account_id, ol_contract = contract, ol_quantity = quantity, ol_held = held,
         ol_underlying_price = underlying_price, ol_price_source = price_source, ol_as_of = as_of,
         ol_reason = reason, ol_early = early\<rparr>)))))))))))))))"

definition build_eod_run :: "kw \<Rightarrow> eod_run lres" where
  "build_eod_run f =
     and_then (kw_bind ''EodRun'' f
       [(''session'', True), (''job'', True), (''account_id'', True), (''bars_processed'', True), (''at_close'', True)]) (\<lambda>k.
     and_then (x_date (kw_req k ''session'') ''session'') (\<lambda>session.
     and_then (x_str (kw_req k ''job'') ''job'') (\<lambda>job.
     and_then (x_str (kw_req k ''account_id'') ''account_id'') (\<lambda>account_id.
     and_then (x_int (kw_req k ''bars_processed'') ''bars_processed'') (\<lambda>bars_processed.
     and_then (x_dt (kw_req k ''at_close'') ''at_close'') (\<lambda>at_close.
     and_then (pnonempty job ''EodRun.job must be non-empty'') (\<lambda>_.
     and_then (pnonempty account_id ''EodRun.account_id must be non-empty'') (\<lambda>_.
     and_then (guard_r (\<not> bars_processed < 0) ''payload'' ''EodRun.bars_processed must be non-negative'') (\<lambda>_.
     Ok \<lparr>er_session = session, er_job = job, er_account_id = account_id, er_bars_processed = bars_processed,
         er_at_close = at_close\<rparr>)))))))))"

subsection \<open>Mirror events\<close>

definition require_whole :: "money \<Rightarrow> string \<Rightarrow> bool \<Rightarrow> money lres" where
  "require_whole value name positive =
     (let whole = is_integral value; neg = lt0 value; zero = (positive \<and> money_eq value ZERO) in
      if \<not> whole \<or> neg \<or> zero
      then lerr ''payload'' (name @ '' must be '' @ (if positive then ''a positive'' else ''a non-negative'')
             @ '' whole number of contracts (I5)'')
      else Ok value)"

definition require_whole_val :: "val \<Rightarrow> string \<Rightarrow> bool \<Rightarrow> money lres" where
  "require_whole_val v name positive = and_then (as_decimal v name) (\<lambda>d. require_whole d name positive)"

definition build_mirror_alloc :: "kw \<Rightarrow> mirror_allocation lres" where
  "build_mirror_alloc f =
     and_then (kw_bind ''MirrorAllocation'' f
       [(''strategy_order_id'', True), (''strategy_account'', True), (''quantity'', True)]) (\<lambda>k.
     and_then (x_str (kw_req k ''strategy_order_id'') ''strategy_order_id'') (\<lambda>strategy_order_id.
     and_then (x_str (kw_req k ''strategy_account'') ''strategy_account'') (\<lambda>strategy_account.
     and_then (pnonempty strategy_order_id ''MirrorAllocation.strategy_order_id must be non-empty'') (\<lambda>_.
     and_then (pnonempty strategy_account ''MirrorAllocation.strategy_account must be non-empty'') (\<lambda>_.
     and_then (require_whole_val (kw_req k ''quantity'') ''MirrorAllocation.quantity'' True) (\<lambda>quantity.
     Ok \<lparr>ma_strategy_order_id = strategy_order_id, ma_strategy_account = strategy_account,
         ma_quantity = quantity\<rparr>))))))"

definition option_leg :: "combo_leg \<Rightarrow> option_contract option" where
  "option_leg l = (case leg_contract l of OptionI c \<Rightarrow> Some c | _ \<Rightarrow> None)"

definition require_vertical :: "combo_leg list \<Rightarrow> string \<Rightarrow> unit lres" where
  "require_vertical legs name =
     (let opts = List.map_filter option_leg legs in
      if length legs \<noteq> 2 \<or> length opts \<noteq> 2
      then and_then (symbol (Combo legs)) (\<lambda>_. lerr ''payload'' (name @ '': a mirrored combo is a 2-leg option vertical''))
      else
        let a = opts ! 0; b = opts ! 1 in
        if oc_underlying a \<noteq> oc_underlying b \<or> oc_expiry a \<noteq> oc_expiry b \<or> oc_right a \<noteq> oc_right b
           \<or> oc_multiplier a \<noteq> oc_multiplier b \<or> dec_eq (oc_strike a) (oc_strike b)
           \<or> leg_side (legs ! 0) = leg_side (legs ! 1) \<or> leg_ratio (legs ! 0) \<noteq> leg_ratio (legs ! 1)
        then and_then (symbol (Combo legs)) (\<lambda>_. lerr ''payload'' (name @ '': is not a 1:1 vertical''))
        else Ok ())"

definition check_mirror_instrument :: "instrument \<Rightarrow> unit lres" where
  "check_mirror_instrument i =
     (case i of
        Combo legs \<Rightarrow> require_vertical legs ''MirrorQueued.instrument''
      | OptionI _ \<Rightarrow> Ok ()
      | Equity _ \<Rightarrow> Ok ()
      | Future _ \<Rightarrow> lerr ''payload'' ''MirrorQueued.instrument: futures not supported in mirror'')"

definition x_alloc :: "val \<Rightarrow> mirror_allocation lres" where
  "x_alloc v =
     (case v of
        VObj (OMAlloc a) \<Rightarrow> Ok a
      | _ \<Rightarrow> lerr ''payload'' ''MirrorQueued.allocations must be MirrorAllocations, at least one'')"

definition mirror_limit :: "order_type \<Rightarrow> val \<Rightarrow> money option lres" where
  "mirror_limit order_type limit_price =
     (if order_type = Limit then
        (if limit_price = VNone then lerr ''payload'' ''MirrorQueued: a LIMIT ticket needs a limit_price (I5)''
         else and_then (as_decimal limit_price ''MirrorQueued.limit_price'') (\<lambda>lp.
           if le0 lp then lerr ''payload'' ''MirrorQueued.limit_price must be positive (I5)'' else Ok (Some lp)))
      else if limit_price \<noteq> VNone then lerr ''payload'' ''MirrorQueued: a MARKET ticket cannot carry a limit_price''
      else Ok None)"

definition alloc_total :: "mirror_allocation list \<Rightarrow> money lres" where
  "alloc_total allocs = fold_r (\<lambda>t a. map_err derr (money_add t (ma_quantity a))) ZERO allocs"

definition build_mirror_queued :: "kw \<Rightarrow> mirror_queued lres" where
  "build_mirror_queued f =
     and_then (kw_bind ''MirrorQueued'' f
       [(''venue'', True), (''ticket_key'', True), (''instrument'', True), (''side'', True), (''quantity'', True),
        (''order_type'', True), (''limit_price'', True), (''tif'', True), (''allocations'', True), (''at'', True)]) (\<lambda>k.
     and_then (x_str (kw_req k ''venue'') ''venue'') (\<lambda>venue.
     and_then (x_str (kw_req k ''ticket_key'') ''ticket_key'') (\<lambda>ticket_key.
     and_then (x_instr (kw_req k ''instrument'') ''instrument'') (\<lambda>instrument.
     and_then (x_dt (kw_req k ''at'') ''at'') (\<lambda>ts.
     and_then (pnonempty venue ''MirrorQueued.venue must be non-empty'') (\<lambda>_.
     and_then (pnonempty ticket_key ''MirrorQueued.ticket_key must be non-empty (I3)'') (\<lambda>_.
     and_then (check_mirror_instrument instrument) (\<lambda>_.
     and_then (case kw_req k ''side'' of VSide s \<Rightarrow> Ok s | _ \<Rightarrow> lerr ''payload'' ''MirrorQueued.side must be a Side'') (\<lambda>sd.
     and_then (require_whole_val (kw_req k ''quantity'') ''MirrorQueued.quantity'' True) (\<lambda>quantity.
     and_then (case kw_req k ''order_type'' of
                 VOrderType t \<Rightarrow> if t = Market \<or> t = Limit then Ok t
                                  else lerr ''payload'' ''MirrorQueued.order_type must be MARKET or LIMIT''
               | _ \<Rightarrow> lerr ''payload'' ''MirrorQueued.order_type must be MARKET or LIMIT'') (\<lambda>order_type.
     and_then (case kw_req k ''tif'' of
                 VTif t \<Rightarrow> if t = Day \<or> t = Gtc then Ok t else lerr ''payload'' ''MirrorQueued.tif must be DAY or GTC''
               | _ \<Rightarrow> lerr ''payload'' ''MirrorQueued.tif must be DAY or GTC'') (\<lambda>tif.
     and_then (mirror_limit order_type (kw_req k ''limit_price'')) (\<lambda>limit_price.
     and_then (x_tuple (kw_req k ''allocations'') ''allocations'') (\<lambda>vs.
     and_then (map_r x_alloc vs) (\<lambda>allocs.
     and_then (guard_r (allocs \<noteq> []) ''payload'' ''MirrorQueued.allocations must be MirrorAllocations, at least one'') (\<lambda>_.
     and_then (guard_r (length (remdups (map ma_strategy_order_id allocs)) = length allocs) ''payload''
       ''MirrorQueued allocates one strategy order twice (I3)'') (\<lambda>_.
     and_then (alloc_total allocs) (\<lambda>tot.
     and_then (guard_r (dec_eq tot quantity) ''payload'' ''MirrorQueued allocations total is not the ticket (I11)'') (\<lambda>_.
     Ok \<lparr>mq_venue = venue, mq_ticket_key = ticket_key, mq_instrument = instrument, mq_side = sd,
         mq_quantity = quantity, mq_order_type = order_type, mq_limit_price = limit_price, mq_tif = tif,
         mq_allocations = allocs, mq_at = ts\<rparr>)))))))))))))))))))"

definition build_mirror_refused :: "kw \<Rightarrow> mirror_refused lres" where
  "build_mirror_refused f =
     and_then (kw_bind ''MirrorRefused'' f
       [(''venue'', True), (''strategy_order_id'', True), (''strategy_account'', True), (''reason'', True), (''at'', True)]) (\<lambda>k.
     and_then (x_str (kw_req k ''venue'') ''venue'') (\<lambda>venue.
     and_then (x_str (kw_req k ''strategy_order_id'') ''strategy_order_id'') (\<lambda>strategy_order_id.
     and_then (x_str (kw_req k ''strategy_account'') ''strategy_account'') (\<lambda>strategy_account.
     and_then (x_str (kw_req k ''reason'') ''reason'') (\<lambda>reason.
     and_then (x_dt (kw_req k ''at'') ''at'') (\<lambda>ts.
     and_then (pnonempty venue ''MirrorRefused.venue must be non-empty'') (\<lambda>_.
     and_then (pnonempty strategy_order_id ''MirrorRefused.strategy_order_id must be non-empty'') (\<lambda>_.
     and_then (pnonempty strategy_account ''MirrorRefused.strategy_account must be non-empty'') (\<lambda>_.
     and_then (pnonempty reason ''MirrorRefused.reason must be non-empty (I11)'') (\<lambda>_.
     Ok \<lparr>mr_venue = venue, mr_strategy_order_id = strategy_order_id, mr_strategy_account = strategy_account,
         mr_reason = reason, mr_at = ts\<rparr>))))))))))"

definition build_mirror_ack :: "kw \<Rightarrow> mirror_ack lres" where
  "build_mirror_ack f =
     and_then (kw_bind ''MirrorAck'' f
       [(''venue'', True), (''ticket_key'', True), (''status'', True), (''message'', True), (''at'', True),
        (''venue_order_id'', False), (''book_status'', False)]) (\<lambda>k.
     and_then (x_str (kw_req k ''venue'') ''venue'') (\<lambda>venue.
     and_then (x_str (kw_req k ''ticket_key'') ''ticket_key'') (\<lambda>ticket_key.
     and_then (x_str (kw_req k ''status'') ''status'') (\<lambda>status.
     and_then (x_str (kw_req k ''message'') ''message'') (\<lambda>message.
     and_then (x_dt (kw_req k ''at'') ''at'') (\<lambda>ts.
     and_then (x_opt None k ''venue_order_id'' x_ostr) (\<lambda>venue_order_id.
     and_then (case kw_take k ''book_status'' of
                 None \<Rightarrow> Ok None
               | Some VNone \<Rightarrow> Ok None
               | Some (VOrderState s) \<Rightarrow> Ok (Some s)
               | Some _ \<Rightarrow> lerr ''payload'' ''MirrorAck.book_status must be an OrderState'') (\<lambda>book_status.
     and_then (pnonempty venue ''MirrorAck.venue must be non-empty'') (\<lambda>_.
     and_then (pnonempty ticket_key ''MirrorAck.ticket_key must be non-empty'') (\<lambda>_.
     and_then (guard_r (status \<in> set MIRROR_ACK_STATUSES) ''payload'' ''MirrorAck.status must be a known status'') (\<lambda>_.
     and_then (pnonempty message ''MirrorAck.message must be non-empty (I11)'') (\<lambda>_.
     and_then (guard_r (case venue_order_id of Some v \<Rightarrow> py_isdigit (chars v) | None \<Rightarrow> True) ''payload''
       ''MirrorAck.venue_order_id must be an all-digit id'') (\<lambda>_.
     Ok \<lparr>ak_venue = venue, ak_ticket_key = ticket_key, ak_status = status, ak_message = message, ak_at = ts,
         ak_venue_order_id = venue_order_id, ak_book_status = book_status\<rparr>)))))))))))))"

definition build_mirror_fill :: "kw \<Rightarrow> mirror_fill lres" where
  "build_mirror_fill f =
     and_then (kw_bind ''MirrorFill'' f
       [(''venue'', True), (''ticket_key'', True), (''venue_order_id'', True), (''filled'', True),
        (''avg_price'', True), (''at'', True)]) (\<lambda>k.
     and_then (x_str (kw_req k ''venue'') ''venue'') (\<lambda>venue.
     and_then (x_str (kw_req k ''ticket_key'') ''ticket_key'') (\<lambda>ticket_key.
     and_then (x_dt (kw_req k ''at'') ''at'') (\<lambda>ts.
     and_then (pnonempty venue ''MirrorFill.venue must be non-empty'') (\<lambda>_.
     and_then (pnonempty ticket_key ''MirrorFill.ticket_key must be non-empty'') (\<lambda>_.
     and_then (case kw_req k ''venue_order_id'' of
                 VStr s \<Rightarrow> if py_isdigit (chars s) then Ok s
                           else lerr ''payload'' ''MirrorFill.venue_order_id must be an all-digit id''
               | _ \<Rightarrow> lerr ''payload'' ''MirrorFill.venue_order_id must be an all-digit id'') (\<lambda>venue_order_id.
     and_then (require_whole_val (kw_req k ''filled'') ''MirrorFill.filled'' True) (\<lambda>filled.
     and_then (as_decimal (kw_req k ''avg_price'') ''MirrorFill.avg_price'') (\<lambda>avg_price.
     and_then (guard_r (\<not> le0 avg_price) ''payload'' ''MirrorFill.avg_price must be positive (I5)'') (\<lambda>_.
     Ok \<lparr>mf_venue = venue, mf_ticket_key = ticket_key, mf_venue_order_id = venue_order_id, mf_filled = filled,
         mf_avg_price = avg_price, mf_at = ts\<rparr>))))))))))"

end
