(* ===== verification/Lots.thy ===== *)
theory Lots
  imports Build
begin

section \<open>Positions and lots: the trade part of \<open>ledger/fold.rs\<close>\<close>

text \<open>
  A position is a signed quantity with its open lots; a trade opens lots, adds to them, or
  closes them first in, first out. The definitions follow \<open>make_position\<close>, \<open>consume_lots\<close>,
  \<open>take_lots\<close>, \<open>remaining_position\<close> and \<open>apply_trade\<close>; the order state machine
  (\<open>allowed\<close>, \<open>validate_transition\<close>) is here too.
\<close>

definition fe :: "string \<Rightarrow> 'a lres" where
  "fe msg = lerr ''fold'' msg"

record position =
  p_account_id :: string
  p_instrument :: instrument
  p_quantity :: money
  p_avg_cost :: money
  p_realized_pnl :: money
  p_open_lots :: "lot list"

definition signed_quantity :: "lot \<Rightarrow> money lres" where
  "signed_quantity l = (if lot_side l = Buy then Ok (lot_quantity l) else dneg (lot_quantity l))"

definition signed_total :: "lot list \<Rightarrow> money lres" where
  "signed_total lots = fold_r (\<lambda>tot l. and_then (signed_quantity l) (\<lambda>q. dadd tot q)) ZERO lots"

definition cost_total :: "lot list \<Rightarrow> money lres" where
  "cost_total lots =
     fold_r (\<lambda>tot l. and_then (dmul (lot_cost_basis l) (lot_quantity l)) (\<lambda>c. dadd tot c)) ZERO lots"

definition make_position ::
  "string \<Rightarrow> instrument \<Rightarrow> money \<Rightarrow> money \<Rightarrow> money \<Rightarrow> lot list \<Rightarrow> position lres" where
  "make_position account_id instrument quantity avg_cost realized_pnl open_lots =
     (if account_id = [] then lerr ''value'' ''account_id must be non-empty''
      else and_then
        (if open_lots = [] then Ok ()
         else and_then (signed_total open_lots) (\<lambda>signed.
           if \<not> money_eq signed quantity
           then lerr ''value'' ''Position quantity disagrees with open lots total (I2)'' else Ok ()))
        (\<lambda>_. Ok \<lparr>p_account_id = account_id, p_instrument = instrument, p_quantity = quantity,
             p_avg_cost = avg_cost, p_realized_pnl = realized_pnl, p_open_lots = open_lots\<rparr>))"

subsection \<open>The order state machine\<close>

fun allowed :: "order_state \<Rightarrow> order_state \<Rightarrow> bool" where
  "allowed New to = (to \<in> {Submitted, Cancelled, Rejected})"
| "allowed Submitted to = (to \<in> {Accepted, PartiallyFilled, Filled, Rejected, Cancelled, PendingUnknown})"
| "allowed Accepted to = (to \<in> {PartiallyFilled, Filled, Cancelled, Expired, Rejected, PendingUnknown})"
| "allowed PartiallyFilled to = (to \<in> {PartiallyFilled, Filled, Cancelled, Expired, PendingUnknown})"
| "allowed PendingUnknown to =
     (to \<in> {Submitted, Accepted, PartiallyFilled, Filled, Cancelled, Expired, Rejected})"
| "allowed Filled to = False"
| "allowed Cancelled to = False"
| "allowed Expired to = False"
| "allowed Rejected to = False"

definition validate_transition :: "order_state \<Rightarrow> order_state \<Rightarrow> unit lres" where
  "validate_transition from' to =
     (if from' = to \<or> allowed from' to then Ok ()
      else lerr ''illegal_transition'' ''Illegal order state transition'')"

definition transition_to :: "order \<Rightarrow> order_state \<Rightarrow> order lres" where
  "transition_to ord to = and_then (validate_transition (o_state ord) to) (\<lambda>_. Ok (ord\<lparr>o_state := to\<rparr>))"

subsection \<open>Closing lots\<close>

definition lot_with :: "lot \<Rightarrow> money \<Rightarrow> lot lres" where
  "lot_with l quantity = make_lot (lot_id l) quantity (lot_cost_basis l) (lot_acquired_at l) (lot_side l)"

text \<open>The profit of closing \<open>closed\<close> units of a lot.\<close>

definition close_pnl :: "lot \<Rightarrow> money \<Rightarrow> money \<Rightarrow> int \<Rightarrow> money lres" where
  "close_pnl l qty exit_price multiplier =
     and_then (if lot_side l = Buy then dsub exit_price (lot_cost_basis l) else dsub (lot_cost_basis l) exit_price) (\<lambda>per.
     and_then (dmul per qty) (\<lambda>c. dmul_i c multiplier))"

fun consume_loop ::
  "lot list \<Rightarrow> money \<Rightarrow> money \<Rightarrow> int \<Rightarrow> money \<Rightarrow> lot list \<Rightarrow> (lot list \<times> money \<times> money) lres" where
  "consume_loop [] remaining exit_price multiplier realized kept = Ok (kept, remaining, realized)"
| "consume_loop (l # lots) remaining exit_price multiplier realized kept =
     (if money_le remaining ZERO
      then consume_loop lots remaining exit_price multiplier realized (kept @ [l])
      else
        and_then
          (if money_le (lot_quantity l) remaining
           then and_then (dsub remaining (lot_quantity l)) (\<lambda>r. Ok (lot_quantity l, r, kept))
           else and_then (dsub (lot_quantity l) remaining) (\<lambda>q.
                and_then (lot_with l q) (\<lambda>l'. Ok (remaining, ZERO, kept @ [l']))))
          (\<lambda>(closed, remaining', kept').
          and_then (close_pnl l closed exit_price multiplier) (\<lambda>pnl.
          and_then (dadd realized pnl) (\<lambda>realized'.
          consume_loop lots remaining' exit_price multiplier realized' kept'))))"

definition consume_lots :: "lot list \<Rightarrow> money \<Rightarrow> money \<Rightarrow> int \<Rightarrow> (lot list \<times> money) lres" where
  "consume_lots lots quantity exit_price multiplier =
     and_then (consume_loop lots quantity exit_price multiplier ZERO []) (\<lambda>(kept, remaining, realized).
       if \<not> money_eq remaining ZERO then fe ''Open lots ran short; ledger is inconsistent (I2)''
       else Ok (kept, realized))"

fun take_loop :: "lot list \<Rightarrow> money \<Rightarrow> lot list \<Rightarrow> lot list \<Rightarrow> (lot list \<times> lot list \<times> money) lres" where
  "take_loop [] remaining kept taken = Ok (kept, taken, remaining)"
| "take_loop (l # lots) remaining kept taken =
     (if money_le remaining ZERO then take_loop lots remaining (kept @ [l]) taken
      else
        let part = (if money_lt remaining (lot_quantity l) then remaining else lot_quantity l) in
        and_then (lot_with l part) (\<lambda>t.
        and_then
          (if money_lt part (lot_quantity l)
           then and_then (dsub (lot_quantity l) part) (\<lambda>q. and_then (lot_with l q) (\<lambda>l'. Ok (kept @ [l'])))
           else Ok kept)
          (\<lambda>kept'.
        and_then (dsub remaining part) (\<lambda>remaining'. take_loop lots remaining' kept' (taken @ [t])))))"

definition take_lots :: "lot list \<Rightarrow> money \<Rightarrow> (lot list \<times> lot list) lres" where
  "take_lots lots quantity =
     and_then (take_loop lots quantity [] []) (\<lambda>(kept, taken, remaining).
       if \<not> money_eq remaining ZERO then fe ''Open lots ran short; ledger is inconsistent (I2)''
       else Ok (kept, taken))"

definition remaining_position :: "position \<Rightarrow> lot list \<Rightarrow> money \<Rightarrow> position lres" where
  "remaining_position p lots realized =
     and_then (signed_total lots) (\<lambda>quantity.
     and_then
       (if \<not> money_eq quantity ZERO
        then and_then (cost_total lots) (\<lambda>c. and_then (dabs quantity) (\<lambda>a. ddiv c a))
        else Ok ZERO)
       (\<lambda>avg. make_position (p_account_id p) (p_instrument p) quantity avg realized lots))"

subsection \<open>Trades\<close>

definition open_flat ::
  "string \<Rightarrow> money \<Rightarrow> instrument \<Rightarrow> side \<Rightarrow> money \<Rightarrow> money \<Rightarrow> date_time \<Rightarrow> string \<Rightarrow> money \<Rightarrow> position lres" where
  "open_flat account_id carried instrument sd quantity price ts lid signed_delta =
     and_then (make_lot lid quantity price ts sd) (\<lambda>l.
       make_position account_id instrument signed_delta price carried [l])"

definition trade_increase ::
  "string \<Rightarrow> position \<Rightarrow> instrument \<Rightarrow> side \<Rightarrow> money \<Rightarrow> money \<Rightarrow> date_time \<Rightarrow> string \<Rightarrow> money \<Rightarrow> position lres" where
  "trade_increase account_id p instrument sd quantity price ts lid signed_delta =
     and_then (dadd (p_quantity p) signed_delta) (\<lambda>new_qty.
     and_then (make_lot lid quantity price ts sd) (\<lambda>new_lot.
     and_then (dabs (p_quantity p)) (\<lambda>aq.
     and_then (dmul (p_avg_cost p) aq) (\<lambda>w1.
     and_then (dmul price quantity) (\<lambda>w2.
     and_then (dadd w1 w2) (\<lambda>weighted.
     and_then (dabs new_qty) (\<lambda>an.
     and_then (ddiv weighted an) (\<lambda>new_avg.
     make_position account_id instrument new_qty new_avg (p_realized_pnl p) (p_open_lots p @ [new_lot])))))))))"

definition trade_reduce ::
  "string \<Rightarrow> position \<Rightarrow> instrument \<Rightarrow> side \<Rightarrow> money \<Rightarrow> date_time \<Rightarrow> string \<Rightarrow> int \<Rightarrow> money \<Rightarrow> position lres" where
  "trade_reduce account_id p instrument sd price ts lid multiplier signed_delta =
     and_then (dabs signed_delta) (\<lambda>a.
     and_then (dabs (p_quantity p)) (\<lambda>b.
     let closing = (if money_lt b a then b else a) in
     and_then (consume_lots (p_open_lots p) closing price multiplier) (\<lambda>(kept, pnl).
     and_then (dadd (p_realized_pnl p) pnl) (\<lambda>realized.
     and_then (dadd (p_quantity p) signed_delta) (\<lambda>new_qty.
     and_then
       (if money_lt b a then
          and_then (dsub a b) (\<lambda>flip_qty.
          and_then (make_lot lid flip_qty price ts sd) (\<lambda>new_lot. Ok ([new_lot], price)))
        else if money_eq new_qty ZERO then Ok (kept, ZERO)
        else
          and_then (cost_total kept) (\<lambda>c.
          and_then (dabs new_qty) (\<lambda>an.
          and_then (ddiv c an) (\<lambda>avg. Ok (kept, avg)))))
       (\<lambda>(lots, new_avg). make_position account_id instrument new_qty new_avg realized lots))))))"

definition apply_trade ::
  "string \<Rightarrow> position option \<Rightarrow> instrument \<Rightarrow> side \<Rightarrow> money \<Rightarrow> money \<Rightarrow> date_time \<Rightarrow> string \<Rightarrow> int \<Rightarrow> position lres" where
  "apply_trade account_id pos instrument sd quantity price ts lid multiplier =
     and_then (if sd = Buy then Ok quantity else dneg quantity) (\<lambda>signed_delta.
     case pos of
       None \<Rightarrow> open_flat account_id ZERO instrument sd quantity price ts lid signed_delta
     | Some p \<Rightarrow>
         if money_eq (p_quantity p) ZERO
         then open_flat account_id (p_realized_pnl p) instrument sd quantity price ts lid signed_delta
         else if money_lt ZERO (p_quantity p) = money_lt ZERO signed_delta
         then trade_increase account_id p instrument sd quantity price ts lid signed_delta
         else trade_reduce account_id p instrument sd price ts lid multiplier signed_delta)"

fun multiplier :: "instrument \<Rightarrow> int lres" and leg_multipliers :: "combo_leg list \<Rightarrow> int list lres" where
  "multiplier (Equity _) = Ok 1"
| "multiplier (OptionI c) = Ok (oc_multiplier c)"
| "multiplier (Combo legs) =
     and_then (leg_multipliers legs) (\<lambda>ms.
       if length (remdups ms) \<noteq> 1 then fe ''Cannot value a mixed-multiplier combo as one instrument; value it per leg (I6)''
       else Ok (hd ms))"
| "multiplier (Future _) = fe ''futures not supported in ledger fold (I6)''"
| "leg_multipliers [] = Ok []"
| "leg_multipliers (ComboLeg c r s # ls) =
     and_then (multiplier c) (\<lambda>m. and_then (leg_multipliers ls) (\<lambda>ms. Ok (m # ms)))"

end
