(* ===== verification/Mirror.thy ===== *)
theory Mirror
  imports Build "HOL-Library.List_Lexorder" "HOL-Library.Char_ord"
begin

section \<open>The venue mirror: \<open>ledger/mirror.rs\<close>\<close>

text \<open>
  The folded state of a mirrored venue: tickets queued there, the strategy orders they carry,
  the acknowledgements and cumulative fills of the venue, and the book of signed contracts
  per strategy account. Each handler is the whole handler of the source. A handler works on
  a copy that the caller drops when it refuses, so an update that precedes a refusal is not
  visible and the model returns the state only on success.
\<close>

definition MIRROR_FOLD :: string where "MIRROR_FOLD = ''mirror_fold''"

definition mfold :: "string \<Rightarrow> 'a lres" where
  "mfold msg = lerr MIRROR_FOLD msg"

subsection \<open>Splitting an increment\<close>

definition floor_share :: "money \<Rightarrow> money \<Rightarrow> money \<Rightarrow> money lres" where
  "floor_share whole amount w =
     and_then (dmul w amount) (\<lambda>p. and_then (ddiv p whole) (\<lambda>q. map_err derr (to_integral q Floor)))"

text \<open>The second loop: one more for each share still under its weight, until nothing remains.\<close>

fun spread :: "(money \<times> money) list \<Rightarrow> int \<Rightarrow> money list lres" where
  "spread [] remainder = Ok []"
| "spread ((share, weight) # rest) remainder =
     (if remainder = 0 then Ok (share # map fst rest)
      else if money_lt share weight then
        and_then (map_err derr (add_i128 share 1)) (\<lambda>s.
          and_then (spread rest (remainder - 1)) (\<lambda>ss. Ok (s # ss)))
      else and_then (spread rest remainder) (\<lambda>ss. Ok (share # ss)))"

definition pro_rata :: "money list \<Rightarrow> money \<Rightarrow> money \<Rightarrow> money list lres" where
  "pro_rata weights whole amount =
     and_then (map_r (floor_share whole amount) weights) (\<lambda>shares.
     and_then (fold_r dadd ZERO shares) (\<lambda>tot.
     and_then (dsub amount tot) (\<lambda>d.
     and_then (map_err derr (trunc_i128 d)) (\<lambda>remainder.
     spread (zip shares weights) remainder))))"

subsection \<open>Contracts of a ticket\<close>

fun sign :: "side \<Rightarrow> int" where
  "sign Buy = 1"
| "sign Sell = - 1"

datatype sign_at = SignFirst | SignLast

definition units_signed :: "side \<Rightarrow> money \<Rightarrow> money lres" where
  "units_signed sd units = dmul (money_int (sign sd)) units"

definition signed_one :: "money \<Rightarrow> sign_at \<Rightarrow> side \<Rightarrow> int option \<Rightarrow> money lres" where
  "signed_one units at' sd ratio =
     (case at' of
        SignFirst \<Rightarrow>
          and_then (units_signed sd units) (\<lambda>signed.
            case ratio of Some r \<Rightarrow> dmul_i signed r | None \<Rightarrow> Ok signed)
      | SignLast \<Rightarrow>
          and_then (case ratio of Some r \<Rightarrow> dmul_i units r | None \<Rightarrow> Ok units) (\<lambda>magnitude.
            if sd = Buy then Ok magnitude else dneg magnitude))"

definition signed_contracts :: "instrument \<Rightarrow> side \<Rightarrow> money \<Rightarrow> sign_at \<Rightarrow> (instrument, money) omap lres" where
  "signed_contracts instrument sd units at' =
     (case instrument of
        Combo legs \<Rightarrow>
          fold_r (\<lambda>out leg.
            and_then (signed_one units at' (leg_side leg) (Some (leg_ratio leg))) (\<lambda>v.
              Ok (omap_insert out (instr_hk (leg_contract leg)) (leg_contract leg) v))) omap_new legs
      | other \<Rightarrow>
          and_then (signed_one units at' sd None) (\<lambda>v. Ok (omap_insert omap_new (instr_hk other) other v)))"

definition ticket_contracts :: "mirror_queued \<Rightarrow> money \<Rightarrow> (instrument, money) omap lres" where
  "ticket_contracts q units = signed_contracts (mq_instrument q) (mq_side q) units SignFirst"

subsection \<open>State\<close>

record mirror_ticket_state =
  mt_queued :: mirror_queued
  mt_ack :: "mirror_ack option"
  mt_venue_order_id :: "string option"
  mt_book_status :: "order_state option"
  mt_filled :: money
  mt_avg_price :: "money option"
  mt_closed :: bool
  mt_allocated :: "(string, money) omap"

definition terminal :: "mirror_ticket_state \<Rightarrow> bool" where
  "terminal t \<longleftrightarrow> mt_closed t \<or> money_le (mq_quantity (mt_queued t)) (mt_filled t)"

definition remaining :: "mirror_ticket_state \<Rightarrow> money lres" where
  "remaining t = (if terminal t then Ok ZERO else dsub (mq_quantity (mt_queued t)) (mt_filled t))"

definition ticket_new :: "mirror_queued \<Rightarrow> mirror_ticket_state" where
  "ticket_new q = \<lparr>mt_queued = q, mt_ack = None, mt_venue_order_id = None, mt_book_status = None,
     mt_filled = ZERO, mt_avg_price = None, mt_closed = False, mt_allocated = omap_new\<rparr>"

record mirror_state =
  ms_venue :: "string option"
  ms_tickets :: "(string, mirror_ticket_state) omap"
  ms_book :: "(string \<times> instrument, money) omap"
  ms_queued_orders :: "(string, string) omap"
  ms_refused_orders :: "(string, string) omap"
  ms_order_ids :: "(string, string) omap"

definition mirror_empty :: mirror_state where
  "mirror_empty = \<lparr>ms_venue = None, ms_tickets = omap_new, ms_book = omap_new, ms_queued_orders = omap_new,
     ms_refused_orders = omap_new, ms_order_ids = omap_new\<rparr>"

definition handled :: "mirror_state \<Rightarrow> string \<Rightarrow> bool" where
  "handled s oid \<longleftrightarrow> omap_contains (ms_queued_orders s) oid \<or> omap_contains (ms_refused_orders s) oid"

definition open_tickets :: "mirror_state \<Rightarrow> mirror_ticket_state list" where
  "open_tickets s = filter (\<lambda>t. \<not> terminal t) (map snd (sort_key fst (omap_iter (ms_tickets s))))"

definition book_hk :: "string \<Rightarrow> instrument \<Rightarrow> string" where
  "book_hk account instrument = nat_to_string (length account) @ '':'' @ account @ instr_hk instrument"

definition omap_get_zero :: "('k, money) omap \<Rightarrow> string \<Rightarrow> money" where
  "omap_get_zero m k = (case omap_get m k of Some v \<Rightarrow> v | None \<Rightarrow> ZERO)"

text \<open>The reports over the state: the exposure per account and contract, and what is expected at the venue.\<close>

definition exposure_add ::
  "string \<Rightarrow> (string \<times> instrument, money) omap \<Rightarrow> instrument \<times> money \<Rightarrow> (string \<times> instrument, money) omap lres" where
  "exposure_add account ex cq =
     (let hk = book_hk account (fst cq) in
      and_then (dadd (omap_get_zero ex hk) (snd cq)) (\<lambda>tot. Ok (omap_insert ex hk (account, fst cq) tot)))"

definition exposure_ticket ::
  "(string \<times> instrument, money) omap \<Rightarrow> mirror_ticket_state \<Rightarrow> (string \<times> instrument, money) omap lres" where
  "exposure_ticket ex0 t =
     fold_r (\<lambda>ex a.
       and_then (dsub (ma_quantity a) (omap_get_zero (mt_allocated t) (ma_strategy_order_id a))) (\<lambda>lacking.
       and_then (ticket_contracts (mt_queued t) lacking) (\<lambda>cs.
       fold_r (exposure_add (ma_strategy_account a)) ex (omap_iter cs)))) ex0 (mq_allocations (mt_queued t))"

definition exposure :: "mirror_state \<Rightarrow> (string \<times> instrument, money) omap lres" where
  "exposure s =
     (let start = foldl (\<lambda>ex (k, v). omap_insert ex (book_hk (fst k) (snd k)) k v) omap_new (omap_iter (ms_book s)) in
      and_then (fold_r exposure_ticket start (open_tickets s)) (\<lambda>ex.
      Ok (foldl (\<lambda>out (k, v). if money_eq v ZERO then out else omap_insert out (book_hk (fst k) (snd k)) k v)
            omap_new (omap_iter ex))))"

definition expected_add ::
  "(instrument, money) omap \<Rightarrow> instrument \<times> money \<Rightarrow> (instrument, money) omap lres" where
  "expected_add ex cq =
     and_then (dadd (omap_get_zero ex (instr_hk (fst cq))) (snd cq)) (\<lambda>v.
       Ok (omap_insert ex (instr_hk (fst cq)) (fst cq) v))"

definition expected :: "mirror_state \<Rightarrow> (instrument, money) omap lres" where
  "expected s =
     and_then (fold_r (\<lambda>ex kv. expected_add ex (snd (fst kv), snd kv)) omap_new (omap_iter (ms_book s))) (\<lambda>ex0.
     fold_r (\<lambda>ex t.
       and_then (remaining t) (\<lambda>r.
       and_then (ticket_contracts (mt_queued t) r) (\<lambda>cs. fold_r expected_add ex (omap_iter cs)))) ex0 (open_tickets s))"

subsection \<open>Handlers\<close>

definition check_venue :: "mirror_state \<Rightarrow> string \<Rightarrow> unit lres" where
  "check_venue s venue =
     (case ms_venue s of
        Some v \<Rightarrow> if v \<noteq> venue then mfold ''mirror event for one venue folded into another (I8)'' else Ok ()
      | None \<Rightarrow> Ok ())"

definition ticket :: "mirror_state \<Rightarrow> string \<Rightarrow> mirror_ticket_state lres" where
  "ticket s key =
     (case omap_get (ms_tickets s) key of
        Some t \<Rightarrow> Ok t
      | None \<Rightarrow> mfold ''names a ticket which was never queued (I5)'')"

definition alloc_free :: "mirror_state \<Rightarrow> mirror_allocation \<Rightarrow> unit lres" where
  "alloc_free s a =
     (let oid = ma_strategy_order_id a in
      if omap_get (ms_queued_orders s) oid \<noteq> None
      then mfold ''strategy order is already on a ticket; refusing to mirror it twice (I3)''
      else if omap_contains (ms_refused_orders s) oid
      then mfold ''strategy order was refused at this venue; it is not queued later (I3)''
      else Ok ())"

definition on_queued :: "externals \<Rightarrow> mirror_state \<Rightarrow> mirror_queued \<Rightarrow> mirror_state lres" where
  "on_queued x s q =
     and_then (check_venue s (mq_venue q)) (\<lambda>_.
     case omap_get (ms_tickets s) (mq_ticket_key q) of
       Some existing \<Rightarrow>
         if \<not> queued_same x (mt_queued existing) q
         then mfold ''ticket was already queued with other contents (I3)'' else Ok s
     | None \<Rightarrow>
         and_then (fold_r (\<lambda>_ a. alloc_free s a) () (mq_allocations q)) (\<lambda>_.
         Ok (s\<lparr>ms_queued_orders :=
                 foldl (\<lambda>m a. omap_put m (ma_strategy_order_id a) (mq_ticket_key q)) (ms_queued_orders s) (mq_allocations q),
               ms_venue := Some (mq_venue q),
               ms_tickets := omap_put (ms_tickets s) (mq_ticket_key q) (ticket_new q)\<rparr>)))"

definition on_refused :: "mirror_state \<Rightarrow> mirror_refused \<Rightarrow> mirror_state lres" where
  "on_refused s r =
     and_then (check_venue s (mr_venue r)) (\<lambda>_.
     let oid = mr_strategy_order_id r in
     if omap_get (ms_queued_orders s) oid \<noteq> None
     then mfold ''strategy order is on a ticket; it cannot also be refused (I11)''
     else if omap_contains (ms_refused_orders s) oid then Ok s
     else Ok (s\<lparr>ms_refused_orders := omap_put (ms_refused_orders s) oid (mr_reason r),
                ms_venue := Some (mr_venue r)\<rparr>))"

definition ack_order_id ::
  "mirror_state \<Rightarrow> string \<Rightarrow> mirror_ticket_state \<Rightarrow> mirror_ack \<Rightarrow> (string option \<times> string option) lres" where
  "ack_order_id s key t ack =
     (case ak_venue_order_id ack of
        None \<Rightarrow> Ok (mt_venue_order_id t, None)
      | Some v \<Rightarrow>
          if (case mt_venue_order_id t of Some cur \<Rightarrow> cur \<noteq> v | None \<Rightarrow> False)
          then mfold ''ticket is another venue order than the ack names (I5)''
          else if (case omap_get (ms_order_ids s) v of Some owner \<Rightarrow> owner \<noteq> key | None \<Rightarrow> False)
          then mfold ''venue order is already another ticket (I5)''
          else Ok (Some v, Some v))"

definition on_ack :: "mirror_state \<Rightarrow> mirror_ack \<Rightarrow> mirror_state lres" where
  "on_ack s ack =
     and_then (check_venue s (ak_venue ack)) (\<lambda>_.
     let key = ak_ticket_key ack in
     and_then (ticket s key) (\<lambda>t.
     and_then (ack_order_id s key t ack) (\<lambda>(venue_order_id, new_order_id).
     let closed = (mt_closed t \<or> ak_status ack = ''REJECTED''
           \<or> ak_book_status ack \<in> {Some Cancelled, Some Expired, Some Rejected});
         book_status = (case ak_book_status ack of Some b \<Rightarrow> Some b | None \<Rightarrow> mt_book_status t)
     in
     Ok (s\<lparr>ms_order_ids := (case new_order_id of Some v \<Rightarrow> omap_put (ms_order_ids s) v key | None \<Rightarrow> ms_order_ids s),
           ms_tickets := omap_get_mut (\<lambda>t. t\<lparr>mt_ack := Some ack, mt_venue_order_id := venue_order_id,
               mt_book_status := book_status, mt_closed := closed\<rparr>) (ms_tickets s) key\<rparr>))))"

text \<open>The loops of \<open>on_fill\<close>: what each allocation lacks, and the booking of the pieces.\<close>

definition lacking_of :: "(string, money) omap \<Rightarrow> mirror_allocation \<Rightarrow> money lres" where
  "lacking_of allocated a = dsub (ma_quantity a) (omap_get_zero allocated (ma_strategy_order_id a))"

definition book_add ::
  "string \<Rightarrow> (string \<times> instrument, money) omap \<Rightarrow> instrument \<times> money \<Rightarrow> (string \<times> instrument, money) omap lres" where
  "book_add account book cq =
     (let hk = book_hk account (fst cq) in
      and_then (dadd (omap_get_zero book hk) (snd cq)) (\<lambda>tot.
      Ok (if money_eq tot ZERO then snd (omap_remove book hk) else omap_insert book hk (account, fst cq) tot)))"

definition book_piece ::
  "mirror_queued \<Rightarrow> (string, money) omap \<times> (string \<times> instrument, money) omap \<Rightarrow> mirror_allocation \<times> money
     \<Rightarrow> ((string, money) omap \<times> (string \<times> instrument, money) omap) lres" where
  "book_piece queued ab ap =
     (let (allocated, book) = ab; (a, piece) = ap in
      and_then (dadd (omap_get_zero allocated (ma_strategy_order_id a)) piece) (\<lambda>now.
      let allocated' = omap_put allocated (ma_strategy_order_id a) now in
      and_then (ticket_contracts queued piece) (\<lambda>cs.
      and_then (fold_r (book_add (ma_strategy_account a)) book (omap_iter cs)) (\<lambda>book'.
      Ok (allocated', book')))))"

definition mirror_on_fill :: "mirror_state \<Rightarrow> mirror_fill \<Rightarrow> mirror_state lres" where
  "mirror_on_fill s fl =
     and_then (check_venue s (mf_venue fl)) (\<lambda>_.
     and_then (ticket s (mf_ticket_key fl)) (\<lambda>t.
     if mt_venue_order_id t \<noteq> Some (mf_venue_order_id fl)
     then mfold ''MirrorFill names another venue order than the proven Order ID (I5)''
     else
       let queued = mt_queued t in
       if money_lt (mq_quantity queued) (mf_filled fl) then mfold ''ticket filled over its quantity; refusing the over-fill (I5)''
       else if money_lt (mf_filled fl) (mt_filled t) then mfold ''a cumulative fill cannot go down (I5)''
       else if money_eq (mf_filled fl) (mt_filled t) then
         (if \<not> opt_dec_eq (Some (mf_avg_price fl)) (mt_avg_price t)
          then mfold ''the venue now says another price for the same fill (I5)'' else Ok s)
       else
         and_then (map_r (lacking_of (mt_allocated t)) (mq_allocations queued)) (\<lambda>lacking.
         and_then (dsub (mq_quantity queued) (mt_filled t)) (\<lambda>whole.
         and_then (dsub (mf_filled fl) (mt_filled t)) (\<lambda>amount.
         and_then (pro_rata lacking whole amount) (\<lambda>pieces.
         and_then (fold_r (book_piece queued) (mt_allocated t, ms_book s) (zip (mq_allocations queued) pieces))
           (\<lambda>(allocated, book).
         Ok (s\<lparr>ms_tickets := omap_get_mut (\<lambda>t. t\<lparr>mt_filled := mf_filled fl,
                   mt_avg_price := Some (mf_avg_price fl), mt_allocated := allocated\<rparr>) (ms_tickets s) (mf_ticket_key fl),
               ms_book := book\<rparr>))))))))"

end
