(* ===== verification/Fold.thy ===== *)
theory Fold
  imports Lots Mirror
begin

section \<open>The fold over ledger events: \<open>ledger/fold.rs\<close>\<close>

text \<open>
  The account state, one handler per event, and the fold of a log into states per account. A
  refusal aborts the whole fold and the state it was applied to is dropped, so the handlers
  return the new state on success only. The counters are \<open>i128\<close> in the source and count events.
\<close>

record account_state =
  a_account_id :: string
  a_cash :: money
  a_positions :: "(instrument, position) omap"
  a_orders :: "(string, order) omap"
  a_filled_quantity :: "(string, money) omap"
  a_leg_filled :: "(string \<times> int, money) omap"
  a_venue_order_ids :: "(string, string) omap"
  a_emulated_orders :: "(string, emulated_order_state) omap"
  a_fills :: "fill list"
  a_fill_ids :: "string set"
  a_marks :: "(instrument, money) omap"
  a_realized_pnl :: money
  a_signals_seen :: int
  a_verdicts :: int
  a_refusals :: int
  a_last_reconcile :: "venue_reconcile option"
  a_venue_halted :: bool
  a_halted_venues :: "string set"
  a_risk_controls :: "(string, bool) omap"
  a_mirror :: mirror_state
  a_last_seq :: int

definition account_new :: "string \<Rightarrow> account_state" where
  "account_new account_id = \<lparr>a_account_id = account_id, a_cash = ZERO, a_positions = omap_new,
     a_orders = omap_new, a_filled_quantity = omap_new, a_leg_filled = omap_new,
     a_venue_order_ids = omap_new, a_emulated_orders = omap_new, a_fills = [], a_fill_ids = {},
     a_marks = omap_new, a_realized_pnl = ZERO, a_signals_seen = 0, a_verdicts = 0, a_refusals = 0,
     a_last_reconcile = None, a_venue_halted = False, a_halted_venues = {}, a_risk_controls = omap_new,
     a_mirror = mirror_empty, a_last_seq = 0\<rparr>"

definition leg_hk :: "string \<Rightarrow> int \<Rightarrow> string" where
  "leg_hk order_id index = nat_to_string (length order_id) @ '':'' @ order_id @ ''#'' @ int_to_string index"

subsection \<open>Helpers\<close>

definition require_order :: "account_state \<Rightarrow> string \<Rightarrow> order lres" where
  "require_order st order_id =
     (case omap_get (a_orders st) order_id of
        Some r \<Rightarrow> Ok r
      | None \<Rightarrow> fe ''references unknown order; refusing to invent one (I5)'')"

text \<open>
  The leg a fill of a combo order names: \<open>trim_start_matches('0').parse::<i128>()\<close> of a text that
  is all digits, where any digit outside ASCII fails to parse.
\<close>

definition leg_index :: "utext \<Rightarrow> int option" where
  "leg_index cs =
     (let rest = dropWhile (\<lambda>c. c = 48) cs in
      if rest = [] then Some 0
      else if list_all is_digit rest \<and> int (digits_value (map (\<lambda>c. c - 48) rest)) \<le> i128_max
      then Some (int (digits_value (map (\<lambda>c. c - 48) rest)))
      else None)"

definition bad_leg :: "'a lres" where
  "bad_leg = lerr ''fill_mismatch'' ''a combo fill must name one of its legs by index (I5)''"

definition combo_leg :: "order \<Rightarrow> fill \<Rightarrow> (int \<times> combo_leg option) lres" where
  "combo_leg ord fl =
     (case o_instrument ord of
        Combo legs \<Rightarrow>
          (case f_leg_id fl of
             None \<Rightarrow> bad_leg
           | Some l \<Rightarrow>
               if \<not> py_isdigit (chars l) then bad_leg
               else case leg_index (chars l) of
                 None \<Rightarrow> bad_leg
               | Some index \<Rightarrow>
                   if index \<ge> int (length legs) then bad_leg
                   else
                     let leg = legs ! nat index in
                     if \<not> instr_same (f_instrument fl) (leg_contract leg) then
                       and_then (symbol (f_instrument fl)) (\<lambda>_. and_then (symbol (leg_contract leg)) (\<lambda>_.
                         lerr ''fill_mismatch'' ''Fill was filed against a leg of a combo order which is another contract (I5)''))
                     else if f_side fl \<noteq> leg_side leg
                     then lerr ''fill_mismatch'' ''Fill is of the other side than the leg; refusing the wrong direction (I5)''
                     else Ok (index, Some leg))
      | _ \<Rightarrow> Ok (- 1, None))"

subsection \<open>Fills\<close>

text \<open>Whole combos filled: the least number of units over the legs.\<close>

definition best_units :: "account_state \<Rightarrow> string \<Rightarrow> combo_leg list \<Rightarrow> money option lres" where
  "best_units st order_id legs =
     fold_r (\<lambda>best (i, leg).
       and_then (ddiv_i (omap_get_zero (a_leg_filled st) (leg_hk order_id (int i))) (leg_ratio leg)) (\<lambda>units.
       Ok (Some (case best of None \<Rightarrow> units | Some b \<Rightarrow> if money_lt units b then units else b)))) None
     (zip [0..<length legs] legs)"

definition order_legs :: "order \<Rightarrow> combo_leg list" where
  "order_legs ord = (case o_instrument ord of Combo legs \<Rightarrow> legs | _ \<Rightarrow> [])"

definition record_filled ::
  "account_state \<Rightarrow> order \<Rightarrow> fill \<Rightarrow> int \<Rightarrow> combo_leg option \<Rightarrow> account_state lres" where
  "record_filled st ord fl index leg =
     (case leg of
        None \<Rightarrow>
          and_then (dadd (omap_get_zero (a_filled_quantity st) (f_order_id fl)) (f_quantity fl)) (\<lambda>now.
          Ok (st\<lparr>a_filled_quantity := omap_put (a_filled_quantity st) (f_order_id fl) now\<rparr>))
      | Some leg \<Rightarrow>
          let key = leg_hk (f_order_id fl) index in
          and_then (dadd (omap_get_zero (a_leg_filled st) key) (f_quantity fl)) (\<lambda>now.
          let st1 = st\<lparr>a_leg_filled := omap_insert (a_leg_filled st) key (f_order_id fl, index) now\<rparr> in
          and_then (dmul_i (o_quantity ord) (leg_ratio leg)) (\<lambda>ordered_qty.
          if money_lt ordered_qty now then fe ''Fill would take a leg of a combo order over the contracts ordered; refusing the over-fill (I5)''
          else
            and_then (best_units st1 (f_order_id fl) (order_legs ord)) (\<lambda>best.
            case best of
              None \<Rightarrow> lerr ''value'' ''min() iterable argument is empty''
            | Some b \<Rightarrow> Ok (st1\<lparr>a_filled_quantity := omap_put (a_filled_quantity st1) (f_order_id fl) b\<rparr>)))))"

definition fill_order_state :: "account_state \<Rightarrow> order \<Rightarrow> fill \<Rightarrow> money \<Rightarrow> account_state lres" where
  "fill_order_state st ord fl tot =
     (if o_state ord \<noteq> Filled then
        let next = (if money_le (o_quantity ord) tot then Filled else PartiallyFilled) in
        if next \<noteq> o_state ord
        then and_then (transition_to ord next) (\<lambda>moved. Ok (st\<lparr>a_orders := omap_put (a_orders st) (f_order_id fl) moved\<rparr>))
        else Ok st
      else Ok st)"

definition fill_cash :: "fill \<Rightarrow> int \<Rightarrow> money lres" where
  "fill_cash fl mult =
     and_then (dmul (f_quantity fl) (f_price fl)) (\<lambda>g0.
     and_then (dmul_i g0 mult) (\<lambda>gross.
     and_then (if f_side fl = Sell then Ok gross else dneg gross) (\<lambda>signed_gross.
     dsub signed_gross (f_fee fl))))"

definition on_fill :: "account_state \<Rightarrow> fill \<Rightarrow> account_state lres" where
  "on_fill st fl =
     and_then (ok_or (LErr ''fold'' ''Fill references unknown order (I5)'') (omap_get (a_orders st) (f_order_id fl))) (\<lambda>ord.
     and_then (combo_leg ord fl) (\<lambda>(index, leg).
     if leg = None \<and> \<not> instr_same (f_instrument fl) (o_instrument ord) then
       and_then (symbol (f_instrument fl)) (\<lambda>_. and_then (symbol (o_instrument ord)) (\<lambda>_.
         lerr ''fill_mismatch'' ''Fill was filed against an order for another instrument; the log contradicts the order (I5)''))
     else if leg = None \<and> f_side fl \<noteq> o_side ord then
       lerr ''fill_mismatch'' ''Fill is of the other side than its order; refusing to apply the wrong direction (I5)''
     else if f_fill_id fl \<in> a_fill_ids st then
       lerr ''duplicate_fill'' ''Fill is already in the ledger; a replayed venue fill is a no-op, not a second position (I3)''
     else
       and_then (multiplier (f_instrument fl)) (\<lambda>mult.
       and_then (fill_cash fl mult) (\<lambda>cash_delta.
       let hk = instr_hk (f_instrument fl); pos = omap_get (a_positions st) hk;
           prior_realized = (case pos of None \<Rightarrow> ZERO | Some p \<Rightarrow> p_realized_pnl p)
       in
       and_then (apply_trade (a_account_id st) pos (f_instrument fl) (f_side fl) (f_quantity fl) (f_price fl)
         (f_filled_at fl) (f_fill_id fl) mult) (\<lambda>updated0.
       and_then (dsub (p_realized_pnl updated0) (f_fee fl)) (\<lambda>updated_realized.
       let updated = updated0\<lparr>p_realized_pnl := updated_realized\<rparr>;
           st1 = st\<lparr>a_positions := omap_insert (a_positions st) hk (f_instrument fl) updated\<rparr>
       in
       and_then (record_filled st1 ord fl index leg) (\<lambda>st2.
       let tot = omap_get_zero (a_filled_quantity st2) (f_order_id fl) in
       if money_lt (o_quantity ord) tot then
         fe ''Fill would take the order over its size; refusing the over-fill rather than inventing an oversized order (I5)''
       else if o_state ord \<in> {Cancelled, Expired, Rejected} then
         fe ''Fill arrived for an order already in a terminal state; the log contradicts the order state (I5)''
       else
         and_then (fill_order_state st2 ord fl tot) (\<lambda>st3.
         and_then (dadd (a_cash st3) cash_delta) (\<lambda>cash.
         and_then (dsub updated_realized prior_realized) (\<lambda>gain.
         and_then (dadd (a_realized_pnl st3) gain) (\<lambda>realized.
         Ok (st3\<lparr>a_cash := cash, a_realized_pnl := realized, a_fills := a_fills st3 @ [fl],
                 a_fill_ids := insert (f_fill_id fl) (a_fill_ids st3)\<rparr>))))))))))))"

subsection \<open>Orders\<close>

definition on_order_submitted :: "account_state \<Rightarrow> order \<Rightarrow> account_state lres" where
  "on_order_submitted st r =
     and_then (if o_state r = New then transition_to r Submitted else Ok r) (\<lambda>ord.
     and_then
       (case omap_get (a_orders st) (o_order_id ord) of
          None \<Rightarrow> Ok ()
        | Some existing \<Rightarrow>
            if o_command_id existing \<noteq> o_command_id ord
            then fe ''Order was already submitted under another command; refusing to overwrite it (I3)''
            else if o_state existing \<noteq> Submitted
            then fe ''Order is already past submission; refusing a second OrderSubmitted that would reset it (I2)''
            else Ok ())
       (\<lambda>_. Ok (st\<lparr>a_orders := omap_put (a_orders st) (o_order_id ord) ord\<rparr>)))"

definition create_order :: "externals \<Rightarrow> account_state \<Rightarrow> order \<Rightarrow> account_state lres" where
  "create_order x st ord =
     (if (case omap_get (a_orders st) (o_order_id ord) of Some existing \<Rightarrow> \<not> order_same x existing ord | None \<Rightarrow> False)
      then fe ''Order already exists with a different payload; refusing to overwrite it (I3)''
      else Ok (st\<lparr>a_orders := omap_put (a_orders st) (o_order_id ord) ord\<rparr>))"

definition on_orders_created :: "externals \<Rightarrow> account_state \<Rightarrow> orders_created \<Rightarrow> account_state lres" where
  "on_orders_created x st c = fold_r (create_order x) st (cr_orders c)"

definition odec :: "money option \<Rightarrow> val" where
  "odec d = (case d of None \<Rightarrow> VNone | Some m \<Rightarrow> VDec m)"

definition reset_emulation :: "account_state \<Rightarrow> order_updated \<Rightarrow> order \<Rightarrow> account_state lres" where
  "reset_emulation st u previous =
     (let current = up_order u; stop_kind = (o_order_type current \<in> {Stop, StopLimit}) in
      case omap_get (a_emulated_orders st) (o_order_id current) of
        None \<Rightarrow> Ok st
      | Some em \<Rightarrow>
          if stop_kind \<and> \<not> opt_dec_eq (o_stop_price current) (o_stop_price previous) then
            if em_triggered em \<or> o_stop_price current = None
            then fe ''Cannot change stop price for triggered emulated order (I5)''
            else
              and_then (build_emulated
                [(''order_id'', VStr (o_order_id current)), (''observed_price'', odec (em_observed_price em)),
                 (''extreme'', VNone), (''stop_price'', odec (o_stop_price current)),
                 (''triggered'', VBool False), (''reason'', VStr (up_reason u))]) (\<lambda>rebuilt.
              Ok (st\<lparr>a_emulated_orders := omap_put (a_emulated_orders st) (o_order_id current) rebuilt\<rparr>))
          else Ok st)"

definition identity_changed :: "order \<Rightarrow> order \<Rightarrow> bool" where
  "identity_changed previous current \<longleftrightarrow>
     o_account_id previous \<noteq> o_account_id current \<or> \<not> instr_same (o_instrument previous) (o_instrument current)
     \<or> o_side previous \<noteq> o_side current \<or> o_command_id previous \<noteq> o_command_id current
     \<or> o_parent_order_id previous \<noteq> o_parent_order_id current \<or> o_oco_group previous \<noteq> o_oco_group current"

definition note_venue_order_id :: "account_state \<Rightarrow> string \<Rightarrow> string option \<Rightarrow> account_state" where
  "note_venue_order_id st order_id voi =
     (case voi of
        Some v \<Rightarrow> st\<lparr>a_venue_order_ids := omap_put (a_venue_order_ids st) order_id v\<rparr>
      | None \<Rightarrow> st)"

definition on_order_updated :: "account_state \<Rightarrow> order_updated \<Rightarrow> account_state lres" where
  "on_order_updated st u =
     (let current = up_order u in
      and_then (require_order st (o_order_id current)) (\<lambda>previous.
      if identity_changed previous current then fe ''OrderUpdated changed immutable identity fields (I5)''
      else
        and_then
          (if o_state current \<noteq> o_state previous
           then map_err (\<lambda>e. LErr ''fold'' (err_msg e)) (validate_transition (o_state previous) (o_state current))
           else Ok ())
          (\<lambda>_.
        if money_lt (o_quantity current) (omap_get_zero (a_filled_quantity st) (o_order_id current))
        then fe ''OrderUpdated quantity is below already-filled quantity''
        else
          let st1 = st\<lparr>a_orders := omap_put (a_orders st) (o_order_id current) current\<rparr>;
              st2 = note_venue_order_id st1 (o_order_id current) (up_venue_order_id u)
          in reset_emulation st2 u previous)))"

definition on_order_state :: "account_state \<Rightarrow> order_state_change \<Rightarrow> order_state \<Rightarrow> account_state lres" where
  "on_order_state st c target =
     and_then (require_order st (sc_order_id c)) (\<lambda>ord.
     and_then (transition_to ord target) (\<lambda>moved.
     let st1 = st\<lparr>a_orders := omap_put (a_orders st) (sc_order_id c) moved\<rparr> in
     Ok (note_venue_order_id st1 (sc_order_id c) (sc_venue_order_id c))))"

subsection \<open>Option lifecycle\<close>

definition exercise_threshold :: money where
  "exercise_threshold = (case money_parse (utext THRESHOLD) of Some m \<Rightarrow> m | None \<Rightarrow> ZERO)"

definition lifecycle_wrap :: "option_error \<Rightarrow> lerr" where
  "lifecycle_wrap e =
     (if oe_kind e \<in> {''value'', ''unresolvable''} then LErr ''fold'' (oe_message e)
      else LErr (oe_kind e) (oe_message e))"

definition only_value :: "lerr \<Rightarrow> lerr" where
  "only_value e = (if err_kind e = ''value'' then LErr ''fold'' (err_msg e) else e)"

text \<open>The checks of a notice against the book, the price and the style of the contract.\<close>

definition lifecycle_checks ::
  "event_kind \<Rightarrow> bool \<Rightarrow> side \<Rightarrow> money \<Rightarrow> bool \<Rightarrow> unit lres" where
  "lifecycle_checks kind early held value american =
     (if kind = KExpiry then
        (if early then fe ''a contract expires only at its expiry (I9)''
         else if money_le exercise_threshold value
         then fe ''in the money; it is exercised or assigned, not expired worthless (I9)'' else Ok ())
      else
        let wanted = (if kind = KExercise then Buy else Sell) in
        if held \<noteq> wanted then fe ''applies to contracts held the other way (I5)''
        else if money_lt value exercise_threshold then fe ''not in the money; nobody exercises it (I9)''
        else if early \<and> \<not> american then fe ''a European contract cannot be assigned early (I5)'' else Ok ())"

text \<open>One delivered lot: a share trade at the strike adjusted by the premium, cash at the strike.\<close>

definition deliver_lot ::
  "externals \<Rightarrow> string \<Rightarrow> option_lifecycle \<Rightarrow> event_kind \<Rightarrow> side \<Rightarrow> instrument
     \<Rightarrow> (instrument, position) omap \<times> money \<times> money \<Rightarrow> lot
     \<Rightarrow> ((instrument, position) omap \<times> money \<times> money) lres" where
  "deliver_lot x account_id notice kind held shares_instrument pcr l =
     (let (positions, cash, realized) = pcr; contract = ol_contract notice; shares_hk = instr_hk shares_instrument in
      and_then (map_err (\<lambda>e. only_value (oerr e)) (delivery x (contract_wire contract) (held = Buy) (canon (lot_cost_basis l))))
        (\<lambda>(buys, price_text).
      let sd = (if buys then Buy else Sell) in
      and_then (ok_or (LErr ''value'' price_text) (money_parse (chars price_text))) (\<lambda>price.
      and_then (dmul_i (lot_quantity l) (oc_multiplier contract)) (\<lambda>shares.
      let shares_position = omap_get positions shares_hk;
          prior = (case shares_position of None \<Rightarrow> ZERO | Some p \<Rightarrow> p_realized_pnl p)
      in
      and_then (multiplier shares_instrument) (\<lambda>mult.
      and_then (apply_trade account_id shares_position shares_instrument sd shares price (ol_as_of notice)
        (kind_value kind @ '':'' @ dt_iso (ol_as_of notice) @ '':'' @ lot_id l) mult) (\<lambda>updated.
      and_then (dsub (p_realized_pnl updated) prior) (\<lambda>gain.
      and_then (dadd realized gain) (\<lambda>realized'.
      and_then (dmul (oc_strike contract) shares) (\<lambda>paid.
      and_then (if sd = Buy then dsub cash paid else dadd cash paid) (\<lambda>cash'.
      Ok (omap_insert positions shares_hk shares_instrument updated, cash', realized')))))))))))"

definition settle_cash ::
  "account_state \<Rightarrow> option_lifecycle \<Rightarrow> event_kind \<Rightarrow> side \<Rightarrow> position \<Rightarrow> money
     \<Rightarrow> ((instrument, position) omap \<times> money \<times> money) lres" where
  "settle_cash st notice kind held p value =
     (let contract = ol_contract notice; mult = oc_multiplier contract;
          exit_price = (if kind = KExpiry then ZERO else value); hk = instr_hk (OptionI contract)
      in
      and_then (consume_lots (p_open_lots p) (ol_quantity notice) exit_price mult) (\<lambda>(kept, pnl).
      and_then (dadd ZERO pnl) (\<lambda>realized.
      and_then (dadd (p_realized_pnl p) pnl) (\<lambda>pr.
      and_then (remaining_position p kept pr) (\<lambda>rem.
      and_then (dmul exit_price (ol_quantity notice)) (\<lambda>a0.
      and_then (dmul_i a0 mult) (\<lambda>amount.
      and_then (if held = Buy then dadd (a_cash st) amount else dsub (a_cash st) amount) (\<lambda>cash.
      Ok (omap_insert (a_positions st) hk (OptionI contract) rem, cash, realized)))))))))"

definition settle_shares ::
  "externals \<Rightarrow> account_state \<Rightarrow> option_lifecycle \<Rightarrow> event_kind \<Rightarrow> side \<Rightarrow> position
     \<Rightarrow> ((instrument, position) omap \<times> money \<times> money) lres" where
  "settle_shares x st notice kind held p =
     (let contract = ol_contract notice; hk = instr_hk (OptionI contract) in
      and_then (take_lots (p_open_lots p) (ol_quantity notice)) (\<lambda>(kept, taken).
      and_then (remaining_position p kept (p_realized_pnl p)) (\<lambda>rem.
      and_then (map_err (\<lambda>e. only_value (oerr e)) (deliverable x (contract_wire contract))) (\<lambda>sy.
      and_then (map_err only_value (make_equity x sy)) (\<lambda>shares_instrument.
      fold_r (deliver_lot x (a_account_id st) notice kind held shares_instrument)
        (omap_insert (a_positions st) hk (OptionI contract) rem, a_cash st, ZERO) taken)))))"

definition on_lifecycle :: "externals \<Rightarrow> account_state \<Rightarrow> option_lifecycle \<Rightarrow> event_kind \<Rightarrow> account_state lres" where
  "on_lifecycle x st notice kind =
     (let contract = ol_contract notice; hk = instr_hk (OptionI contract); wire = contract_wire contract in
      and_then (option_occ contract) (\<lambda>_.
      and_then
        (case omap_get (a_positions st) hk of
           None \<Rightarrow> fe ''no open position to settle (I5)''
         | Some p \<Rightarrow> if money_eq (p_quantity p) ZERO then fe ''no open position to settle (I5)'' else Ok p)
        (\<lambda>p.
      let held = (if money_lt ZERO (p_quantity p) then Buy else Sell) in
      if held \<noteq> ol_held notice then fe ''the event and the book disagree on how the contracts are held (I5)''
      else
        and_then (dabs (p_quantity p)) (\<lambda>held_abs.
        if money_lt held_abs (ol_quantity notice) then fe ''more contracts settled than are held (I5)''
        else
          and_then (map_err lifecycle_wrap (intrinsic x wire (canon (ol_underlying_price notice)))) (\<lambda>value_text.
          and_then (ok_or (LErr ''value'' value_text) (money_parse (chars value_text))) (\<lambda>value.
          and_then (map_err lifecycle_wrap (is_cash_settled x wire)) (\<lambda>cash_settled.
          and_then (map_err lifecycle_wrap (can_exercise_early x wire)) (\<lambda>american.
          and_then (lifecycle_checks kind (ol_early notice) held value american) (\<lambda>_.
          and_then
            (if kind = KExpiry \<or> cash_settled then settle_cash st notice kind held p value
             else settle_shares x st notice kind held p)
            (\<lambda>(positions, cash, realized).
          and_then (dadd (a_realized_pnl st) realized) (\<lambda>pnl.
          Ok (st\<lparr>a_positions := positions, a_cash := cash, a_realized_pnl := pnl\<rparr>))))))))))))"

subsection \<open>One event\<close>

definition mirror_step :: "account_state \<Rightarrow> mirror_state lres \<Rightarrow> account_state lres" where
  "mirror_step st r =
     (case r of
        Ok m \<Rightarrow> Ok (st\<lparr>a_mirror := m\<rparr>)
      | Err e \<Rightarrow> if err_kind e = MIRROR_FOLD then fe (err_msg e) else Err e)"

definition on_state_change :: "account_state \<Rightarrow> order_state_change \<Rightarrow> event_kind \<Rightarrow> account_state lres" where
  "on_state_change st c kind =
     (case kind of
        KOrderPending \<Rightarrow> on_order_state st c PendingUnknown
      | KOrderAccepted \<Rightarrow> on_order_state st c Accepted
      | KOrderRejected \<Rightarrow> on_order_state st c Rejected
      | KOrderCancelled \<Rightarrow> on_order_state st c Cancelled
      | KOrderExpired \<Rightarrow> on_order_state st c Expired
      | _ \<Rightarrow> and_then (require_order st (sc_order_id c)) (\<lambda>_. Ok (st\<lparr>a_refusals := a_refusals st + 1\<rparr>)))"

definition on_halt_cleared :: "account_state \<Rightarrow> venue_halt_cleared \<Rightarrow> account_state lres" where
  "on_halt_cleared st c =
     (if hc_venue c \<notin> a_halted_venues st then fe ''VenueHaltCleared for a venue that is not halted (I5)''
      else
        let venues = a_halted_venues st - {hc_venue c} in
        Ok (st\<lparr>a_halted_venues := venues, a_venue_halted := venues \<noteq> {}\<rparr>))"

definition on_reconcile :: "account_state \<Rightarrow> venue_reconcile \<Rightarrow> account_state" where
  "on_reconcile st n =
     st\<lparr>a_last_reconcile := Some n, a_venue_halted := a_venue_halted st \<or> \<not> vr_reconciled n,
        a_halted_venues := (if vr_reconciled n then a_halted_venues st else insert (vr_venue n) (a_halted_venues st))\<rparr>"

definition dispatch :: "externals \<Rightarrow> account_state \<Rightarrow> event \<Rightarrow> account_state lres" where
  "dispatch x st ev =
     (case ev_payload ev of
        OSignal _ \<Rightarrow>
          if ev_kind ev = KSignalSeen then Ok (st\<lparr>a_signals_seen := a_signals_seen st + 1\<rparr>)
          else lerr ''unhandled'' ''No fold handler registered (I5)''
      | ORiskVerdict v \<Rightarrow>
          Ok (st\<lparr>a_verdicts := a_verdicts st + 1,
                 a_refusals := (if rv_accepted v then a_refusals st else a_refusals st + 1)\<rparr>)
      | OOrdersCreated c \<Rightarrow> on_orders_created x st c
      | ORiskControl c \<Rightarrow> Ok (st\<lparr>a_risk_controls := omap_put (a_risk_controls st) (rc_control_id c) (rc_enabled c)\<rparr>)
      | OOrder r \<Rightarrow> on_order_submitted st r
      | OOrderUpdated u \<Rightarrow> on_order_updated st u
      | OStateChange c \<Rightarrow> on_state_change st c (ev_kind ev)
      | OEmulated em \<Rightarrow>
          and_then (require_order st (em_order_id em)) (\<lambda>_.
          Ok (st\<lparr>a_emulated_orders := omap_put (a_emulated_orders st) (em_order_id em) em\<rparr>))
      | OFill fl \<Rightarrow> on_fill st fl
      | OCashFlow c \<Rightarrow> and_then (dadd (a_cash st) (cf_amount c)) (\<lambda>cash. Ok (st\<lparr>a_cash := cash\<rparr>))
      | OMark m \<Rightarrow> Ok (st\<lparr>a_marks := omap_insert (a_marks st) (instr_hk (mk_instrument m)) (mk_instrument m) (mk_price m)\<rparr>)
      | OReconcile n \<Rightarrow> Ok (on_reconcile st n)
      | OHaltCleared c \<Rightarrow> on_halt_cleared st c
      | OEodRun _ \<Rightarrow> Ok st
      | OLifecycle n \<Rightarrow> on_lifecycle x st n (ev_kind ev)
      | OMQueued q \<Rightarrow> mirror_step st (on_queued x (a_mirror st) q)
      | OMRefused r \<Rightarrow> mirror_step st (on_refused (a_mirror st) r)
      | OMAck a \<Rightarrow> mirror_step st (on_ack (a_mirror st) a)
      | OMFill fl \<Rightarrow> mirror_step st (mirror_on_fill (a_mirror st) fl)
      | OCorp _ \<Rightarrow> lerr ''unhandled'' ''CorporateAction is owned by a later work package; E1 refuses to invent its ledger semantics (I5)''
      | _ \<Rightarrow> lerr ''unhandled'' ''No fold handler registered (I5)'')"

definition apply_event :: "externals \<Rightarrow> account_state \<Rightarrow> event \<Rightarrow> account_state lres" where
  "apply_event x st ev =
     and_then (dispatch x st ev) (\<lambda>st'.
     Ok (case ev_seq ev of Some seq \<Rightarrow> st'\<lparr>a_last_seq := seq\<rparr> | None \<Rightarrow> st'))"

subsection \<open>The log\<close>

definition ordered :: "event list \<Rightarrow> event list" where
  "ordered events =
     (if list_all (\<lambda>e. ev_seq e \<noteq> None) events then sort_key (\<lambda>e. the (ev_seq e)) events else events)"

definition fold_step ::
  "externals \<Rightarrow> (string, account_state) omap \<Rightarrow> event \<Rightarrow> (string, account_state) omap lres" where
  "fold_step x states ev =
     (let states1 = (if \<not> omap_contains states (ev_account ev)
                     then omap_put states (ev_account ev) (account_new (ev_account ev)) else states)
      in
      case omap_get states1 (ev_account ev) of
        None \<Rightarrow> lerr ''panic'' ''just inserted''
      | Some st \<Rightarrow>
          and_then (apply_event x st ev) (\<lambda>st'. Ok (omap_get_mut (\<lambda>_. st') states1 (ev_account ev))))"

definition fold_refs :: "externals \<Rightarrow> event list \<Rightarrow> (string, account_state) omap lres" where
  "fold_refs x events = fold_r (fold_step x) omap_new (ordered events)"

definition fold_log :: "externals \<Rightarrow> event list \<Rightarrow> (string, account_state) omap lres" where
  "fold_log x events = fold_refs x events"

definition fold_account :: "externals \<Rightarrow> event list \<Rightarrow> string \<Rightarrow> account_state lres" where
  "fold_account x events account =
     and_then (fold_refs x (filter (\<lambda>e. ev_account e = account) (ordered events))) (\<lambda>states.
     Ok (case omap_get states account of Some st \<Rightarrow> st | None \<Rightarrow> account_new account))"

end
