(* ===== verification/Grid.thy ===== *)
theory Grid
  imports Ledger_Ops
begin

section \<open>Amounts on a grid\<close>

text \<open>
  Quantities and prices have a bounded number of decimals and a bounded size. On such a grid,
  every operation of the ledger on amounts is exact as long as the bound leaves room in the 28
  digits of an amount: \<open>grid k B v\<close> says that \<open>v\<close> is a multiple of \<open>10 ^ -k\<close> of size at most \<open>B\<close>, and
  \<open>room k B\<close> that such values are held exactly. The lemmas are the rules by which the component
  proofs turn operations on amounts into rational arithmetic.
\<close>

definition grid :: "nat \<Rightarrow> rat \<Rightarrow> rat \<Rightarrow> bool" where
  "grid k B v \<longleftrightarrow> (\<exists>n::int. v = of_int n / 10 ^ k) \<and> \<bar>v\<bar> \<le> B"

definition room :: "nat \<Rightarrow> rat \<Rightarrow> bool" where
  "room k B \<longleftrightarrow> k \<le> 28 \<and> B * 10 ^ k < 10 ^ 28"

lemma build_total:
  assumes c: "c < 10 ^ 28" and e: "- 28 \<le> e" "e \<le> 0"
  shows "\<exists>m. build neg c e = Ok m"
proof (cases "c = 0")
  case False
  obtain c' e' where s: "strip_zeros c e = (c', e')" by fastforce
  note sp = strip_zeros_spec [OF False s]
  have c'0: "0 < c'" using sp(1) by (cases c') auto
  have le: "c' * 10 ^ nat e' < 10 ^ 28"
  proof -
    have "c' * 10 ^ nat e' \<le> c' * 10 ^ nat (e' - e)"
      using e by (intro mult_le_mono2 power_increasing) auto
    then show ?thesis using sp(3) c by linarith
  qed
  have "\<not> 38 < e'"
  proof
    assume "38 < e'"
    then have "(10::nat) ^ 28 \<le> 10 ^ nat e'" by (intro power_increasing) auto
    also have "\<dots> \<le> c' * 10 ^ nat e'" using c'0 by simp
    finally show False using le by simp
  qed
  moreover have "c' < MANTISSA_LIMIT" "c' * 10 ^ nat e' < MANTISSA_LIMIT" "c' * 10 ^ nat e' < u128_limit"
  proof -
    have "c' \<le> c' * 10 ^ nat e'" by simp
    then show "c' < MANTISSA_LIMIT" "c' * 10 ^ nat e' < MANTISSA_LIMIT" "c' * 10 ^ nat e' < u128_limit"
      using le pow10_limits(2,5) by linarith+
  qed
  ultimately have "build neg c e = Ok (if e' > 0 then \<lparr>neg_bit = neg, mantissa = c' * 10 ^ nat e', scale = 0\<rparr>
      else \<lparr>neg_bit = neg, mantissa = c', scale = nat (- e')\<rparr>)"
    using False s sp(2) e unfolding build_def by (auto simp: checked_mul_def MAX_SCALE_def)
  then show ?thesis by blast
qed (simp add: build_def)

lemma grid_exact: "grid k B v \<Longrightarrow> room k B \<Longrightarrow> exact_value v"
proof -
  assume g: "grid k B v" and r: "room k B"
  then obtain n :: int where n: "v = of_int n / 10 ^ k" and b: "\<bar>v\<bar> \<le> B" by (auto simp: grid_def)
  have k: "k \<le> 28" and B: "B * 10 ^ k < 10 ^ 28" using r by (auto simp: room_def)
  have "\<bar>of_int n :: rat\<bar> = \<bar>v\<bar> * 10 ^ k" using n by (simp add: abs_divide)
  also have "\<dots> \<le> B * 10 ^ k" using b by (intro mult_right_mono) auto
  finally have "\<bar>of_int n :: rat\<bar> < of_int (10 ^ 28)" using B by simp
  then have "\<bar>n\<bar> < 10 ^ 28" by (simp only: of_int_abs [symmetric] of_int_less_iff)
  then have c: "nat \<bar>n\<bar> < 10 ^ 28" by (simp add: nat_less_iff)
  have val: "v = dval (n < 0) (nat \<bar>n\<bar>) (- int k)"
    using n by (simp add: dval_def sgnr_def pow10_neg_nat)
  obtain m where "build (n < 0) (nat \<bar>n\<bar>) (- int k) = Ok m" using build_total [OF c, of "- int k" "n < 0"] k by auto
  then have "fits v" unfolding fits_def using build_iff val by auto
  moreover have "\<bar>v\<bar> = of_nat (nat \<bar>n\<bar>) * 10 powi (- int k)" unfolding val by (rule abs_dval)
  ultimately show ?thesis unfolding exact_value_def using c by blast
qed

lemma grid_0 [simp]: "0 \<le> B \<Longrightarrow> grid k B 0"
  by (auto simp: grid_def intro: exI [of _ 0])

lemma grid_neg [simp]: "grid k B (- v) \<longleftrightarrow> grid k B v"
proof -
  have "grid k B (- v)" if "grid k B v" for v
    using that unfolding grid_def by (auto intro: exI [of _ "- n" for n :: int])
  from this [of v] this [of "- v"] show ?thesis by auto
qed

lemma grid_mono: "grid k B v \<Longrightarrow> \<bar>v\<bar> \<le> C \<Longrightarrow> grid k C v"
  by (auto simp: grid_def)

lemma grid_add: "grid k B v \<Longrightarrow> grid k C w \<Longrightarrow> grid k (B + C) (v + w)"
proof -
  assume "grid k B v" "grid k C w"
  then obtain n m :: int where n: "v = of_int n / 10 ^ k" "w = of_int m / 10 ^ k" and b: "\<bar>v\<bar> \<le> B" "\<bar>w\<bar> \<le> C"
    by (auto simp: grid_def)
  have "v + w = of_int (n + m) / 10 ^ k" using n by (simp add: add_divide_distrib)
  moreover have "\<bar>v + w\<bar> \<le> B + C" using b abs_triangle_ineq [of v w] by linarith
  ultimately show ?thesis unfolding grid_def by blast
qed

lemma grid_sub: "grid k B v \<Longrightarrow> grid k C w \<Longrightarrow> grid k (B + C) (v - w)"
  using grid_add [of k B v C "- w"] by simp

lemma grid_mult: "grid k B v \<Longrightarrow> grid l C w \<Longrightarrow> grid (k + l) (B * C) (v * w)"
proof -
  assume "grid k B v" "grid l C w"
  then obtain n m :: int where v: "v = of_int n / 10 ^ k" "w = of_int m / 10 ^ l" and b: "\<bar>v\<bar> \<le> B" "\<bar>w\<bar> \<le> C"
    by (auto simp: grid_def)
  have "v * w = of_int (n * m) / 10 ^ (k + l)" using v by (simp add: power_add)
  moreover have "\<bar>v * w\<bar> \<le> B * C" unfolding abs_mult using b by (intro mult_mono) auto
  ultimately show ?thesis unfolding grid_def by blast
qed

lemma grid_int: "\<bar>of_int n\<bar> \<le> B \<Longrightarrow> grid 0 B (of_int n)"
  by (auto simp: grid_def)

lemma room_mono: "room k B \<Longrightarrow> C \<le> B \<Longrightarrow> room k C"
proof -
  assume "room k B" "C \<le> B"
  then have "C * 10 ^ k \<le> B * 10 ^ k" by (intro mult_right_mono) auto
  with \<open>room k B\<close> show ?thesis unfolding room_def by linarith
qed

subsection \<open>Operations on a grid\<close>

text \<open>Each rule gives the answer of an operation whose exact result lies on a grid with room.\<close>

lemma dadd_grid:
  assumes "canonical a" "canonical b" "grid k B (mval a + mval b)" "room k B"
  shows "\<exists>c. dadd a b = Ok c \<and> canonical c \<and> mval c = mval a + mval b"
  using amt.add_exact [OF assms(1,2) grid_exact [OF assms(3,4)]] .

lemma dsub_grid:
  assumes "canonical a" "canonical b" "grid k B (mval a - mval b)" "room k B"
  shows "\<exists>c. dsub a b = Ok c \<and> canonical c \<and> mval c = mval a - mval b"
  using amt.sub_exact [OF assms(1,2) grid_exact [OF assms(3,4)]] .

lemma dmul_grid:
  assumes "canonical a" "canonical b" "grid k B (mval a * mval b)" "room k B"
  shows "\<exists>c. dmul a b = Ok c \<and> canonical c \<and> mval c = mval a * mval b"
  using amt.mul_exact [OF assms(1,2) grid_exact [OF assms(3,4)]] .

lemma dneg_grid:
  assumes "canonical a" "grid k B (mval a)" "room k B"
  shows "\<exists>c. dneg a = Ok c \<and> canonical c \<and> mval c = - mval a"
  using computes_exact [OF computes_neg [OF assms(1)]] grid_exact [of k B "- mval a"] assms(2,3)
  by (fastforce simp: dneg_def)

lemma dabs_grid:
  assumes "canonical a" "grid k B (mval a)" "room k B"
  shows "\<exists>c. dabs a = Ok c \<and> canonical c \<and> mval c = \<bar>mval a\<bar>"
proof -
  have "grid k B \<bar>mval a\<bar>" using assms(2) by (cases "0 \<le> mval a") simp_all
  then show ?thesis
    using computes_exact [OF computes_abs [OF assms(1)]] grid_exact assms(3) by (fastforce simp: dabs_def)
qed

lemma dmul_i_grid:
  assumes "canonical a" "\<bar>n\<bar> < 10 ^ 28" "grid k B (mval a * of_int n)" "room k B"
  shows "\<exists>c. dmul_i a n = Ok c \<and> canonical c \<and> mval c = mval a * of_int n"
proof -
  obtain m where "from_i128 n = Ok m" using from_i128_exact [OF assms(2)] by blast
  from computes_exact [OF mul_i128_computes [OF assms(1) this] grid_exact [OF assms(3,4)]]
  show ?thesis by (fastforce simp: dmul_i_def)
qed

end
