(* ===== verification/Fold_Inv.thy ===== *)
theory Fold_Inv
  imports Fold Grid
begin

section \<open>Invariants of the fold\<close>

text \<open>
  What every event keeps: the maps of the state stay well formed, an order in a terminal state
  stays in it, every fill is booked once, no order is filled past its quantity, and the halt flag
  follows the halted venues. A handler is used through its success case (\<open>on_fill_Ok\<close> and the
  like), which names the intermediate results.
\<close>

lemma lerr_not_Ok [simp]: "lerr k m \<noteq> Ok v" "fe m \<noteq> Ok v" "mfold m \<noteq> Ok v"
  by (simp_all add: lerr_def fe_def mfold_def)

lemma lerr_eq_Err [simp]: "lerr k m = Err e \<longleftrightarrow> e = LErr k m"
  by (auto simp: lerr_def)

subsection \<open>The success case of each handler\<close>

lemma record_filled_Ok:
  assumes "record_filled st ord fl index leg = Ok st'"
  obtains b lf where "st' = st\<lparr>a_leg_filled := lf, a_filled_quantity := omap_put (a_filled_quantity st) (f_order_id fl) b\<rparr>"
    "omap_inv (a_leg_filled st) \<longrightarrow> omap_inv lf"
    "leg = None \<longrightarrow> dadd (omap_get_zero (a_filled_quantity st) (f_order_id fl)) (f_quantity fl) = Ok b"
proof (cases leg)
  case None
  with assms obtain now where "dadd (omap_get_zero (a_filled_quantity st) (f_order_id fl)) (f_quantity fl) = Ok now"
    "st' = st\<lparr>a_filled_quantity := omap_put (a_filled_quantity st) (f_order_id fl) now\<rparr>"
    by (auto simp: record_filled_def)
  with that [of now "a_leg_filled st"] None show thesis by (cases st) auto
next
  case (Some l)
  with assms obtain now b where
    "st' = st\<lparr>a_leg_filled := omap_insert (a_leg_filled st) (leg_hk (f_order_id fl) index) (f_order_id fl, index) now,
       a_filled_quantity := omap_put (a_filled_quantity st) (f_order_id fl) b\<rparr>"
    by (auto simp: record_filled_def Let_def split: if_splits option.splits)
  with that [of b "omap_insert (a_leg_filled st) (leg_hk (f_order_id fl) index) (f_order_id fl, index) now"] Some
  show thesis by auto
qed

lemma transition_to_Ok: "transition_to ord to = Ok m \<longleftrightarrow>
    (o_state ord = to \<or> allowed (o_state ord) to) \<and> m = ord\<lparr>o_state := to\<rparr>"
  by (auto simp: transition_to_def validate_transition_def)

lemma fill_order_state_Ok:
  assumes "fill_order_state st ord fl tot = Ok st'"
  obtains "st' = st" "o_state ord = Filled \<or> o_state ord = PartiallyFilled"
  | to where "st' = st\<lparr>a_orders := omap_put (a_orders st) (f_order_id fl) (ord\<lparr>o_state := to\<rparr>)\<rparr>"
      "to \<noteq> o_state ord" "allowed (o_state ord) to" "to = (if mval (o_quantity ord) \<le> mval tot then Filled else PartiallyFilled)"
  using assms by (auto simp: fill_order_state_def transition_to_Ok Let_def split: if_splits)

text \<open>The checks of \<open>on_fill\<close> that come before any update, and the updates.\<close>

lemma on_fill_Ok:
  assumes "on_fill st fl = Ok st'"
  obtains ord index leg mult cash_delta updated ur st2 st3 cash gain realized where
    "omap_get (a_orders st) (f_order_id fl) = Some ord"
    "combo_leg ord fl = Ok (index, leg)"
    "leg = None \<longrightarrow> instr_same (f_instrument fl) (o_instrument ord) \<and> f_side fl = o_side ord"
    "f_fill_id fl \<notin> a_fill_ids st"
    "multiplier (f_instrument fl) = Ok mult" "fill_cash fl mult = Ok cash_delta"
    "apply_trade (a_account_id st) (omap_get (a_positions st) (instr_hk (f_instrument fl))) (f_instrument fl)
       (f_side fl) (f_quantity fl) (f_price fl) (f_filled_at fl) (f_fill_id fl) mult = Ok updated"
    "dsub (p_realized_pnl updated) (f_fee fl) = Ok ur"
    "record_filled (st\<lparr>a_positions := omap_insert (a_positions st) (instr_hk (f_instrument fl)) (f_instrument fl)
       (updated\<lparr>p_realized_pnl := ur\<rparr>)\<rparr>) ord fl index leg = Ok st2"
    "mval (omap_get_zero (a_filled_quantity st2) (f_order_id fl)) \<le> mval (o_quantity ord)"
    "o_state ord \<notin> {Cancelled, Expired, Rejected}"
    "fill_order_state st2 ord fl (omap_get_zero (a_filled_quantity st2) (f_order_id fl)) = Ok st3"
    "dadd (a_cash st3) cash_delta = Ok cash" "dadd (a_realized_pnl st3) gain = Ok realized"
    "st' = st3\<lparr>a_cash := cash, a_realized_pnl := realized, a_fills := a_fills st3 @ [fl],
       a_fill_ids := insert (f_fill_id fl) (a_fill_ids st3)\<rparr>"
  using assms unfolding on_fill_def by (auto simp: Let_def split: if_splits)

text \<open>What a booked fill leaves: one summary for the invariants.\<close>

lemma on_fill_effect:
  assumes "on_fill st fl = Ok st'" and inv: "omap_inv (a_filled_quantity st)"
  obtains ord ord' b pos lf cash realized where
    "omap_get (a_orders st) (f_order_id fl) = Some ord" "f_fill_id fl \<notin> a_fill_ids st"
    "ord' = ord\<lparr>o_state := o_state ord'\<rparr>" "o_state ord' = o_state ord \<or> allowed (o_state ord) (o_state ord')"
    "o_state ord' \<in> {Filled, PartiallyFilled}" "mval b \<le> mval (o_quantity ord)"
    "omap_inv (a_leg_filled st) \<longrightarrow> omap_inv lf"
    "st' = st\<lparr>a_positions := omap_insert (a_positions st) (instr_hk (f_instrument fl)) (f_instrument fl) pos,
        a_leg_filled := lf, a_filled_quantity := omap_put (a_filled_quantity st) (f_order_id fl) b,
        a_orders := (if o_state ord' = o_state ord then a_orders st else omap_put (a_orders st) (f_order_id fl) ord'),
        a_cash := cash, a_realized_pnl := realized, a_fills := a_fills st @ [fl],
        a_fill_ids := insert (f_fill_id fl) (a_fill_ids st)\<rparr>"
  using assms(1)
proof (cases rule: on_fill_Ok)
  case (1 ord index leg mult cash_delta updated ur st2 st3 cash gain realized)
  let ?st1 = "st\<lparr>a_positions := omap_insert (a_positions st) (instr_hk (f_instrument fl)) (f_instrument fl) (updated\<lparr>p_realized_pnl := ur\<rparr>)\<rparr>"
  obtain b lf where st2: "st2 = ?st1\<lparr>a_leg_filled := lf, a_filled_quantity := omap_put (a_filled_quantity ?st1) (f_order_id fl) b\<rparr>"
    and lf: "omap_inv (a_leg_filled ?st1) \<longrightarrow> omap_inv lf" using record_filled_Ok [OF 1(9)] by metis
  have b: "omap_get_zero (a_filled_quantity st2) (f_order_id fl) = b"
    using inv by (simp add: st2 omap_get_zero_def omap_get_put)
  from 1(12) show thesis
  proof (cases rule: fill_order_state_Ok)
    case same: 1
    show thesis
      by (rule that [where ord = ord and ord' = ord and b = b and lf = lf and pos = "updated\<lparr>p_realized_pnl := ur\<rparr>" and cash = cash and realized = realized])
        (use 1 same st2 lf b in auto)
  next
    case (2 to)
    show thesis
      by (rule that [where ord = ord and ord' = "ord\<lparr>o_state := to\<rparr>" and b = b and lf = lf and pos = "updated\<lparr>p_realized_pnl := ur\<rparr>" and cash = cash and realized = realized])
        (use 1 2 st2 lf b in auto)
  qed
qed

subsection \<open>Well-formed states\<close>

definition mirror_wf :: "mirror_state \<Rightarrow> bool" where
  "mirror_wf m \<longleftrightarrow> omap_inv (ms_tickets m) \<and> omap_inv (ms_book m) \<and> omap_inv (ms_queued_orders m)
     \<and> omap_inv (ms_refused_orders m) \<and> omap_inv (ms_order_ids m)"

definition st_wf :: "account_state \<Rightarrow> bool" where
  "st_wf st \<longleftrightarrow> omap_inv (a_positions st) \<and> omap_inv (a_orders st) \<and> omap_inv (a_filled_quantity st)
     \<and> omap_inv (a_leg_filled st) \<and> omap_inv (a_venue_order_ids st) \<and> omap_inv (a_emulated_orders st)
     \<and> omap_inv (a_marks st) \<and> omap_inv (a_risk_controls st) \<and> mirror_wf (a_mirror st)"

lemma st_wf_new [simp]: "st_wf (account_new a)"
  by (simp add: st_wf_def account_new_def mirror_wf_def mirror_empty_def)

lemma omap_inv_puts: "omap_inv m \<Longrightarrow> omap_inv (foldl (\<lambda>m a. omap_put m (f a) (g a)) m xs)"
  by (induction xs arbitrary: m) auto

lemma book_add_inv: "book_add a book cq = Ok book' \<Longrightarrow> omap_inv book \<Longrightarrow> omap_inv book'"
  by (auto simp: book_add_def Let_def)

lemma fold_book_add_inv: "fold_r (book_add a) book cqs = Ok book' \<Longrightarrow> omap_inv book \<Longrightarrow> omap_inv book'"
  by (erule fold_r_invariant [where P = omap_inv]) (auto intro: book_add_inv)

lemma book_pieces_inv:
  assumes "fold_r (book_piece q) ab aps = Ok ab'" "omap_inv (snd ab)"
  shows "omap_inv (snd ab')"
  by (rule fold_r_invariant [OF assms(1), where P = "\<lambda>ab. omap_inv (snd ab)"])
    (use assms(2) in \<open>auto simp: book_piece_def Let_def split: prod.splits intro: fold_book_add_inv\<close>)

lemma on_queued_wf: "on_queued x m q = Ok m' \<Longrightarrow> mirror_wf m \<Longrightarrow> mirror_wf m'"
  by (auto simp: on_queued_def mirror_wf_def omap_inv_puts split: option.splits if_splits)

lemma on_refused_wf: "on_refused m r = Ok m' \<Longrightarrow> mirror_wf m \<Longrightarrow> mirror_wf m'"
  by (auto simp: on_refused_def mirror_wf_def Let_def split: if_splits)

lemma on_ack_wf: "on_ack m a = Ok m' \<Longrightarrow> mirror_wf m \<Longrightarrow> mirror_wf m'"
  by (auto simp: on_ack_def mirror_wf_def Let_def split: option.splits)

lemma mirror_on_fill_wf: "mirror_on_fill m fl = Ok m' \<Longrightarrow> mirror_wf m \<Longrightarrow> mirror_wf m'"
  by (auto simp: mirror_on_fill_def mirror_wf_def Let_def dest!: book_pieces_inv split: if_splits)

lemma mirror_step_Ok: "mirror_step st r = Ok st' \<longleftrightarrow> (\<exists>m. r = Ok m \<and> st' = st\<lparr>a_mirror := m\<rparr>)"
  by (auto simp: mirror_step_def split: result.splits if_splits)

lemmas mirror_handlers_wf = on_queued_wf on_refused_wf on_ack_wf mirror_on_fill_wf

lemma deliver_lots_inv:
  assumes "fold_r (deliver_lot x a n k h i) pcr ls = Ok pcr'" "omap_inv (fst pcr)"
  shows "omap_inv (fst pcr')"
  by (rule fold_r_invariant [OF assms(1), where P = "\<lambda>pcr. omap_inv (fst pcr)"])
    (use assms(2) in \<open>auto simp: deliver_lot_def Let_def split: prod.splits\<close>)

lemma on_lifecycle_frame:
  assumes "on_lifecycle x st n k = Ok st'"
  obtains pos cash pnl where "st' = st\<lparr>a_positions := pos, a_cash := cash, a_realized_pnl := pnl\<rparr>"
    "omap_inv (a_positions st) \<longrightarrow> omap_inv pos"
proof -
  obtain p held v pos cash realized pnl where
    s: "settle_cash st n k held p v = Ok (pos, cash, realized) \<or> settle_shares x st n k held p = Ok (pos, cash, realized)"
    and st': "st' = st\<lparr>a_positions := pos, a_cash := cash, a_realized_pnl := pnl\<rparr>"
    using assms unfolding on_lifecycle_def by (auto simp: Let_def split: if_splits; blast)
  have "omap_inv (a_positions st) \<longrightarrow> omap_inv pos"
    using s by (auto simp: settle_cash_def settle_shares_def Let_def dest!: deliver_lots_inv)
  with st' that show thesis by blast
qed

lemma reset_emulation_frame:
  assumes "reset_emulation st u prev = Ok st'"
  obtains em where "st' = st\<lparr>a_emulated_orders := em\<rparr>" "omap_inv (a_emulated_orders st) \<longrightarrow> omap_inv em"
proof -
  have "st' = st \<or> (\<exists>e. st' = st\<lparr>a_emulated_orders := omap_put (a_emulated_orders st) (o_order_id (up_order u)) e\<rparr>)"
    using assms by (auto simp: reset_emulation_def Let_def split: option.splits if_splits)
  with that [of "a_emulated_orders st"] that show thesis by auto
qed

lemma note_venue_order_id_frame:
  obtains vo where "note_venue_order_id st i v = st\<lparr>a_venue_order_ids := vo\<rparr>"
    "omap_inv (a_venue_order_ids st) \<longrightarrow> omap_inv vo"
proof (cases v)
  case None
  with that [of "a_venue_order_ids st"] show thesis by (simp add: note_venue_order_id_def)
next
  case (Some w)
  with that [of "omap_put (a_venue_order_ids st) i w"] show thesis by (simp add: note_venue_order_id_def)
qed

lemma on_order_updated_frame:
  assumes "on_order_updated st u = Ok st'"
  obtains prev vo em where
    "omap_get (a_orders st) (o_order_id (up_order u)) = Some prev" "\<not> identity_changed prev (up_order u)"
    "o_state (up_order u) = o_state prev \<or> allowed (o_state prev) (o_state (up_order u))"
    "mval (omap_get_zero (a_filled_quantity st) (o_order_id (up_order u))) \<le> mval (o_quantity (up_order u))"
    "st' = st\<lparr>a_orders := omap_put (a_orders st) (o_order_id (up_order u)) (up_order u), a_venue_order_ids := vo, a_emulated_orders := em\<rparr>"
    "st_wf st \<longrightarrow> omap_inv vo \<and> omap_inv em"
proof -
  let ?st1 = "st\<lparr>a_orders := omap_put (a_orders st) (o_order_id (up_order u)) (up_order u)\<rparr>"
  obtain prev where prev: "omap_get (a_orders st) (o_order_id (up_order u)) = Some prev"
      "\<not> identity_changed prev (up_order u)"
      "o_state (up_order u) = o_state prev \<or> allowed (o_state prev) (o_state (up_order u))"
      "mval (omap_get_zero (a_filled_quantity st) (o_order_id (up_order u))) \<le> mval (o_quantity (up_order u))"
    and re: "reset_emulation (note_venue_order_id ?st1 (o_order_id (up_order u)) (up_venue_order_id u)) u prev = Ok st'"
    using assms
    by (auto simp: on_order_updated_def require_order_def validate_transition_def Let_def split: option.splits if_splits)
  obtain vo where vo: "note_venue_order_id ?st1 (o_order_id (up_order u)) (up_venue_order_id u) = ?st1\<lparr>a_venue_order_ids := vo\<rparr>"
    "omap_inv (a_venue_order_ids ?st1) \<longrightarrow> omap_inv vo" by (rule note_venue_order_id_frame)
  from reset_emulation_frame [OF re [unfolded vo(1)]] obtain em where
    "st' = ?st1\<lparr>a_venue_order_ids := vo\<rparr>\<lparr>a_emulated_orders := em\<rparr>"
    "omap_inv (a_emulated_orders (?st1\<lparr>a_venue_order_ids := vo\<rparr>)) \<longrightarrow> omap_inv em" by blast
  with that [OF prev, where vo = vo and em = em] vo(2) show thesis by (simp add: st_wf_def)
qed

lemma on_order_state_frame:
  assumes "on_order_state st c to = Ok st'"
  obtains ord vo where "omap_get (a_orders st) (sc_order_id c) = Some ord"
    "o_state ord = to \<or> allowed (o_state ord) to"
    "st' = st\<lparr>a_orders := omap_put (a_orders st) (sc_order_id c) (ord\<lparr>o_state := to\<rparr>), a_venue_order_ids := vo\<rparr>"
    "st_wf st \<longrightarrow> omap_inv vo"
proof -
  obtain ord where ord: "omap_get (a_orders st) (sc_order_id c) = Some ord" "o_state ord = to \<or> allowed (o_state ord) to"
    and st': "st' = note_venue_order_id (st\<lparr>a_orders := omap_put (a_orders st) (sc_order_id c) (ord\<lparr>o_state := to\<rparr>)\<rparr>) (sc_order_id c) (sc_venue_order_id c)"
    using assms by (auto simp: on_order_state_def require_order_def transition_to_Ok Let_def split: option.splits)
  let ?st1 = "st\<lparr>a_orders := omap_put (a_orders st) (sc_order_id c) (ord\<lparr>o_state := to\<rparr>)\<rparr>"
  obtain vo where vo: "note_venue_order_id ?st1 (sc_order_id c) (sc_venue_order_id c) = ?st1\<lparr>a_venue_order_ids := vo\<rparr>"
    "omap_inv (a_venue_order_ids ?st1) \<longrightarrow> omap_inv vo" by (rule note_venue_order_id_frame)
  with that [OF ord, of vo] st' show thesis by (simp add: st_wf_def)
qed

lemma on_order_submitted_frame:
  assumes "on_order_submitted st r = Ok st'"
  obtains ord where "ord = (if o_state r = New then r\<lparr>o_state := Submitted\<rparr> else r)"
    "case omap_get (a_orders st) (o_order_id r) of None \<Rightarrow> True
       | Some existing \<Rightarrow> o_command_id existing = o_command_id r \<and> o_state existing = Submitted"
    "st' = st\<lparr>a_orders := omap_put (a_orders st) (o_order_id r) ord\<rparr>"
proof -
  let ?ord = "if o_state r = New then r\<lparr>o_state := Submitted\<rparr> else r"
  have tr: "(if o_state r = New then transition_to r Submitted else Ok r) = Ok ?ord"
    by (simp add: transition_to_Ok)
  have id: "o_order_id ?ord = o_order_id r" "o_command_id ?ord = o_command_id r" by simp_all
  note ok = assms [unfolded on_order_submitted_def tr and_then.simps id]
  show thesis
  proof (rule that [of ?ord])
    show "case omap_get (a_orders st) (o_order_id r) of None \<Rightarrow> True
       | Some existing \<Rightarrow> o_command_id existing = o_command_id r \<and> o_state existing = Submitted"
      using ok by (cases "omap_get (a_orders st) (o_order_id r)") (simp_all split: if_splits)
    show "st' = st\<lparr>a_orders := omap_put (a_orders st) (o_order_id r) ?ord\<rparr>"
      using ok by (cases "omap_get (a_orders st) (o_order_id r)") (simp_all split: if_splits)
  qed simp
qed

text \<open>Creating orders changes only the map of orders, and no state of an order that is there.\<close>

lemma on_orders_created_frame:
  assumes "on_orders_created x st c = Ok st'" "omap_inv (a_orders st)"
  obtains m where "st' = st\<lparr>a_orders := m\<rparr>" "omap_inv m"
    "\<forall>i r. omap_get (a_orders st) i = Some r \<longrightarrow>
       (\<exists>r'. omap_get m i = Some r' \<and> o_state r' = o_state r \<and> mval (o_quantity r') = mval (o_quantity r))"
proof -
  let ?P = "\<lambda>s. \<exists>m. s = st\<lparr>a_orders := m\<rparr> \<and> omap_inv m \<and> (\<forall>i r. omap_get (a_orders st) i = Some r \<longrightarrow>
       (\<exists>r'. omap_get m i = Some r' \<and> o_state r' = o_state r \<and> mval (o_quantity r') = mval (o_quantity r)))"
  have "?P st'"
  proof (rule fold_r_invariant [OF assms(1) [unfolded on_orders_created_def]])
    show "?P st" using assms(2) by (intro exI [of _ "a_orders st"]) simp
  next
    fix s1 ord s2 assume "?P s1" and ok: "create_order x s1 ord = Ok s2"
    then obtain m where m: "s1 = st\<lparr>a_orders := m\<rparr>" "omap_inv m" and old: "\<And>i r. omap_get (a_orders st) i = Some r \<Longrightarrow>
       \<exists>r'. omap_get m i = Some r' \<and> o_state r' = o_state r \<and> mval (o_quantity r') = mval (o_quantity r)" by blast
    have s2: "s2 = st\<lparr>a_orders := omap_put m (o_order_id ord) ord\<rparr>"
      and same: "\<And>e. omap_get m (o_order_id ord) = Some e \<Longrightarrow> order_same x e ord"
      using ok m(1) by (auto simp: create_order_def split: if_splits option.splits)
    have "\<exists>r'. omap_get (omap_put m (o_order_id ord) ord) i = Some r' \<and> o_state r' = o_state r \<and> mval (o_quantity r') = mval (o_quantity r)"
      if "omap_get (a_orders st) i = Some r" for i r
      using old [OF that] same m(2) by (auto simp: omap_get_put order_same_def dec_eq_def)
    with s2 m(2) show "?P s2" by (intro exI [of _ "omap_put m (o_order_id ord) ord"]) auto
  qed
  with that show thesis by blast
qed

subsection \<open>One event\<close>

text \<open>
  The events fall into four groups for the book: fills, events about orders, lifecycle events
  that only move positions and cash, and events that touch neither orders nor fills.
\<close>

lemma on_state_change_Ok:
  assumes "on_state_change st c k = Ok st'"
  obtains to where "on_order_state st c to = Ok st'" | "st' = st\<lparr>a_refusals := a_refusals st + 1\<rparr>"
  using assms by (cases k) (auto simp: on_state_change_def)

lemma dispatch_wf:
  assumes wf: "st_wf st" and ok: "dispatch x st ev = Ok st'"
  shows "st_wf st'"
proof (cases "ev_payload ev")
  case (OFill fl)
  then have f: "on_fill st fl = Ok st'" using ok by (simp add: dispatch_def)
  have "omap_inv (a_filled_quantity st)" using wf by (simp add: st_wf_def)
  from f this show ?thesis by (cases rule: on_fill_effect) (use wf in \<open>simp add: st_wf_def\<close>)
next
  case (OLifecycle n)
  then have "on_lifecycle x st n (ev_kind ev) = Ok st'" using ok by (simp add: dispatch_def)
  then show ?thesis by (cases rule: on_lifecycle_frame) (use wf in \<open>simp add: st_wf_def\<close>)
next
  case (OOrderUpdated u)
  then have "on_order_updated st u = Ok st'" using ok by (simp add: dispatch_def)
  then show ?thesis by (cases rule: on_order_updated_frame) (use wf in \<open>simp add: st_wf_def\<close>)
next
  case (OStateChange c)
  then have "on_state_change st c (ev_kind ev) = Ok st'" using ok by (simp add: dispatch_def)
  then show ?thesis
  proof (cases rule: on_state_change_Ok)
    case (1 to)
    then show ?thesis by (cases rule: on_order_state_frame) (use wf in \<open>simp add: st_wf_def\<close>)
  qed (use wf in \<open>simp add: st_wf_def\<close>)
next
  case (OOrder r)
  then have "on_order_submitted st r = Ok st'" using ok by (simp add: dispatch_def)
  then show ?thesis by (cases rule: on_order_submitted_frame) (use wf in \<open>simp add: st_wf_def\<close>)
next
  case (OOrdersCreated c)
  then have c: "on_orders_created x st c = Ok st'" using ok by (simp add: dispatch_def)
  have "omap_inv (a_orders st)" using wf by (simp add: st_wf_def)
  from c this show ?thesis by (cases rule: on_orders_created_frame) (use wf in \<open>simp add: st_wf_def\<close>)
qed (use ok wf in \<open>auto simp: dispatch_def st_wf_def mirror_step_Ok on_halt_cleared_def on_reconcile_def Let_def
       intro: mirror_handlers_wf split: if_splits\<close>)

text \<open>
  How an order may move in one event: along the table of transitions, or anywhere from
  \<open>Submitted\<close> by a second submission under its command, whose payload state is taken as it is.
\<close>

lemma dispatch_orders:
  assumes wf: "st_wf st" and ok: "dispatch x st ev = Ok st'" and r: "omap_get (a_orders st) i = Some r"
  shows "\<exists>r'. omap_get (a_orders st') i = Some r' \<and> (o_state r' = o_state r \<or> allowed (o_state r) (o_state r')
    \<or> o_state r = Submitted \<and> (\<exists>q. ev_payload ev = OOrder q \<and> o_state q \<noteq> New \<and> o_state r' = o_state q))"
proof -
  have inv: "omap_inv (a_orders st)" "omap_inv (a_filled_quantity st)" using wf by (auto simp: st_wf_def)
  show ?thesis
  proof (cases "ev_payload ev")
    case (OFill fl)
    then have "on_fill st fl = Ok st'" using ok by (simp add: dispatch_def)
    from this inv(2) show ?thesis by (cases rule: on_fill_effect) (use inv(1) r in \<open>auto simp: omap_get_put\<close>)
  next
    case (OLifecycle n)
    then have "on_lifecycle x st n (ev_kind ev) = Ok st'" using ok by (simp add: dispatch_def)
    then show ?thesis by (cases rule: on_lifecycle_frame) (use r in simp)
  next
    case (OOrderUpdated u)
    then have "on_order_updated st u = Ok st'" using ok by (simp add: dispatch_def)
    then show ?thesis by (cases rule: on_order_updated_frame) (use inv(1) r in \<open>auto simp: omap_get_put\<close>)
  next
    case (OStateChange c)
    then have "on_state_change st c (ev_kind ev) = Ok st'" using ok by (simp add: dispatch_def)
    then show ?thesis
    proof (cases rule: on_state_change_Ok)
      case (1 to)
      then show ?thesis by (cases rule: on_order_state_frame) (use inv(1) r in \<open>auto simp: omap_get_put\<close>)
    qed (use r in simp)
  next
    case (OOrder q)
    then have "on_order_submitted st q = Ok st'" using ok by (simp add: dispatch_def)
    then show ?thesis
      by (cases rule: on_order_submitted_frame) (use OOrder inv(1) r in \<open>auto simp: omap_get_put split: if_splits\<close>)
  next
    case (OOrdersCreated c)
    then have "on_orders_created x st c = Ok st'" using ok by (simp add: dispatch_def)
    from this inv(1) show ?thesis by (cases rule: on_orders_created_frame) (use r in fastforce)
  qed (use ok r in \<open>auto simp: dispatch_def mirror_step_Ok on_halt_cleared_def on_reconcile_def Let_def split: if_splits\<close>)
qed

text \<open>The fills of the book, and what it says of halted venues.\<close>

definition fills_once :: "account_state \<Rightarrow> bool" where
  "fills_once st \<longleftrightarrow> distinct (map f_fill_id (a_fills st)) \<and> set (map f_fill_id (a_fills st)) = a_fill_ids st"

definition halt_flag_ok :: "account_state \<Rightarrow> bool" where
  "halt_flag_ok st \<longleftrightarrow> (a_venue_halted st \<longleftrightarrow> a_halted_venues st \<noteq> {})"

text \<open>An event other than a fill, a reconciliation or a clearance leaves these parts alone.\<close>

lemma dispatch_fills:
  assumes wf: "st_wf st" and ok: "dispatch x st ev = Ok st'"
  shows "(case ev_payload ev of OFill fl \<Rightarrow> f_fill_id fl \<notin> a_fill_ids st \<and> a_fills st' = a_fills st @ [fl]
            \<and> a_fill_ids st' = insert (f_fill_id fl) (a_fill_ids st)
          | _ \<Rightarrow> a_fills st' = a_fills st \<and> a_fill_ids st' = a_fill_ids st)
    \<and> (halt_flag_ok st \<longrightarrow> halt_flag_ok st')"
proof (cases "ev_payload ev")
  case (OFill fl)
  then have "on_fill st fl = Ok st'" using ok by (simp add: dispatch_def)
  moreover have "omap_inv (a_filled_quantity st)" using wf by (simp add: st_wf_def)
  ultimately show ?thesis by (cases rule: on_fill_effect) (use OFill in \<open>simp add: halt_flag_ok_def\<close>)
next
  case (OLifecycle n)
  then have "on_lifecycle x st n (ev_kind ev) = Ok st'" using ok by (simp add: dispatch_def)
  then show ?thesis by (cases rule: on_lifecycle_frame) (use OLifecycle in \<open>simp add: halt_flag_ok_def\<close>)
next
  case (OOrderUpdated u)
  then have "on_order_updated st u = Ok st'" using ok by (simp add: dispatch_def)
  then show ?thesis by (cases rule: on_order_updated_frame) (use OOrderUpdated in \<open>simp add: halt_flag_ok_def\<close>)
next
  case (OStateChange c)
  then have "on_state_change st c (ev_kind ev) = Ok st'" using ok by (simp add: dispatch_def)
  then show ?thesis
  proof (cases rule: on_state_change_Ok)
    case (1 to)
    then show ?thesis by (cases rule: on_order_state_frame) (use OStateChange in \<open>simp add: halt_flag_ok_def\<close>)
  qed (use OStateChange in \<open>simp add: halt_flag_ok_def\<close>)
next
  case (OOrder r)
  then have "on_order_submitted st r = Ok st'" using ok by (simp add: dispatch_def)
  then show ?thesis by (cases rule: on_order_submitted_frame) (use OOrder in \<open>simp add: halt_flag_ok_def\<close>)
next
  case (OOrdersCreated c)
  then have c: "on_orders_created x st c = Ok st'" using ok by (simp add: dispatch_def)
  have "omap_inv (a_orders st)" using wf by (simp add: st_wf_def)
  from c this show ?thesis by (cases rule: on_orders_created_frame) (use OOrdersCreated in \<open>simp add: halt_flag_ok_def\<close>)
qed (use ok in \<open>auto simp: dispatch_def mirror_step_Ok on_halt_cleared_def on_reconcile_def halt_flag_ok_def Let_def
       split: if_splits\<close>)

text \<open>
  No order is filled past its quantity. The one event that could break it is a second
  submission of an order that already has fills, since it stores the quantity of its payload.
\<close>

definition not_overfilled :: "account_state \<Rightarrow> bool" where
  "not_overfilled st \<longleftrightarrow>
     (\<forall>i f. omap_get (a_filled_quantity st) i = Some f \<longrightarrow>
        (\<exists>r. omap_get (a_orders st) i = Some r \<and> mval f \<le> mval (o_quantity r)))"

definition resubmits_filled :: "account_state \<Rightarrow> event \<Rightarrow> bool" where
  "resubmits_filled st ev \<longleftrightarrow>
     (case ev_payload ev of OOrder r \<Rightarrow> omap_contains (a_filled_quantity st) (o_order_id r) | _ \<Rightarrow> False)"

lemma not_overfilledD:
  "not_overfilled st \<Longrightarrow> omap_get (a_filled_quantity st) i = Some f \<Longrightarrow> omap_get (a_orders st) i = Some r
     \<Longrightarrow> mval f \<le> mval (o_quantity r)"
  by (fastforce simp: not_overfilled_def)

lemma not_overfilled_put:
  assumes "not_overfilled st" "omap_inv (a_orders st)" "a_filled_quantity st' = a_filled_quantity st"
    "a_orders st' = omap_put (a_orders st) i r"
    "\<And>f. omap_get (a_filled_quantity st) i = Some f \<Longrightarrow> mval f \<le> mval (o_quantity r)"
  shows "not_overfilled st'"
  using assms unfolding not_overfilled_def by (auto simp: omap_get_put)

lemma dispatch_not_overfilled:
  assumes wf: "st_wf st" and ok: "dispatch x st ev = Ok st'" and n: "not_overfilled st" "\<not> resubmits_filled st ev"
  shows "not_overfilled st'"
proof -
  have inv: "omap_inv (a_orders st)" "omap_inv (a_filled_quantity st)" using wf by (auto simp: st_wf_def)
  show ?thesis
  proof (cases "ev_payload ev")
    case (OFill fl)
    then have "on_fill st fl = Ok st'" using ok by (simp add: dispatch_def)
    from this inv(2) show ?thesis
    proof (cases rule: on_fill_effect)
      case (1 ord ord' b lf pos cash realized)
      have "o_quantity ord' = o_quantity ord" using arg_cong [OF 1(3), of o_quantity] by simp
      with 1 inv n(1) show ?thesis by (auto simp: not_overfilled_def omap_get_put)
    qed
  next
    case (OLifecycle n')
    then have "on_lifecycle x st n' (ev_kind ev) = Ok st'" using ok by (simp add: dispatch_def)
    then show ?thesis by (cases rule: on_lifecycle_frame) (use n(1) in \<open>simp add: not_overfilled_def\<close>)
  next
    case (OOrderUpdated u)
    then have "on_order_updated st u = Ok st'" using ok by (simp add: dispatch_def)
    then show ?thesis
      by (cases rule: on_order_updated_frame)
        (rule not_overfilled_put [OF n(1) inv(1)], auto simp: omap_get_zero_def)
  next
    case (OStateChange c)
    then have "on_state_change st c (ev_kind ev) = Ok st'" using ok by (simp add: dispatch_def)
    then show ?thesis
    proof (cases rule: on_state_change_Ok)
      case (1 to)
      then show ?thesis
        by (cases rule: on_order_state_frame)
          (rule not_overfilled_put [OF n(1) inv(1)], auto dest: not_overfilledD [OF n(1)])
    qed (use n(1) in \<open>simp add: not_overfilled_def\<close>)
  next
    case (OOrder q)
    then have "on_order_submitted st q = Ok st'" using ok by (simp add: dispatch_def)
    then show ?thesis
    proof (cases rule: on_order_submitted_frame)
      case (1 ord)
      have "omap_get (a_filled_quantity st) (o_order_id q) = None"
        using OOrder n(2) by (simp add: resubmits_filled_def omap_contains_get)
      with 1(3) show ?thesis by (intro not_overfilled_put [OF n(1) inv(1), of st' "o_order_id q" ord]) simp_all
    qed
  next
    case (OOrdersCreated c)
    then have "on_orders_created x st c = Ok st'" using ok by (simp add: dispatch_def)
    from this inv(1) show ?thesis
    proof (cases rule: on_orders_created_frame)
      case (1 m)
      have "\<exists>r'. omap_get m i = Some r' \<and> mval f \<le> mval (o_quantity r')"
        if "omap_get (a_filled_quantity st) i = Some f" for i f
      proof -
        obtain r where r: "omap_get (a_orders st) i = Some r" "mval f \<le> mval (o_quantity r)"
          using n(1) \<open>omap_get (a_filled_quantity st) i = Some f\<close> unfolding not_overfilled_def by blast
        from 1(3) [rule_format, OF r(1)] r(2) show ?thesis by auto
      qed
      then show ?thesis using 1(1) by (simp add: not_overfilled_def)
    qed
  qed (use ok n(1) in \<open>auto simp: dispatch_def mirror_step_Ok on_halt_cleared_def on_reconcile_def not_overfilled_def Let_def
         split: if_splits\<close>)
qed

subsection \<open>The log\<close>

text \<open>
  The states of the fold are the states of each account folded on its own: an event touches only
  the state of the account it is filed under.
\<close>

definition account_of :: "(string, account_state) omap \<Rightarrow> string \<Rightarrow> account_state" where
  "account_of states a = (case omap_get states a of Some st \<Rightarrow> st | None \<Rightarrow> account_new a)"

lemma fold_step_Ok:
  assumes "omap_inv states"
  shows "fold_step x states ev = Ok states' \<longleftrightarrow>
    (\<exists>st'. apply_event x (account_of states (ev_account ev)) ev = Ok st'
      \<and> states' = omap_get_mut (\<lambda>_. st') (if omap_contains states (ev_account ev) then states
           else omap_put states (ev_account ev) (account_new (ev_account ev))) (ev_account ev))"
  using assms by (auto simp: fold_step_def account_of_def omap_contains_get omap_get_put Let_def split: option.splits)

lemma fold_step_get:
  assumes "omap_inv states" "fold_step x states ev = Ok states'"
  shows "omap_inv states'" and "apply_event x (account_of states (ev_account ev)) ev = Ok (account_of states' (ev_account ev))"
    and "a \<noteq> ev_account ev \<Longrightarrow> omap_get states' a = omap_get states a" and "omap_get states' (ev_account ev) \<noteq> None"
proof -
  obtain st' where ap: "apply_event x (account_of states (ev_account ev)) ev = Ok st'"
    and s': "states' = omap_get_mut (\<lambda>_. st') (if omap_contains states (ev_account ev) then states
           else omap_put states (ev_account ev) (account_new (ev_account ev))) (ev_account ev)"
    using assms by (auto simp: fold_step_Ok)
  show "omap_inv states'" using s' assms(1) by simp
  have g: "omap_get states' a = (if a = ev_account ev then Some st' else omap_get states a)" for a
    using s' assms(1) by (auto simp: omap_get_get_mut omap_get_put omap_contains_get)
  then show "apply_event x (account_of states (ev_account ev)) ev = Ok (account_of states' (ev_account ev))"
    using ap by (simp add: account_of_def)
  show "a \<noteq> ev_account ev \<Longrightarrow> omap_get states' a = omap_get states a" "omap_get states' (ev_account ev) \<noteq> None"
    using g by auto
qed

lemma fold_project:
  assumes "omap_inv states" "fold_r (fold_step x) states evs = Ok states'"
  shows "omap_inv states' \<and>
    fold_r (apply_event x) (account_of states a) (filter (\<lambda>e. ev_account e = a) evs) = Ok (account_of states' a)"
  using assms
proof (induction evs arbitrary: states)
  case (Cons e evs)
  obtain s1 where s1: "fold_step x states e = Ok s1" "fold_r (fold_step x) s1 evs = Ok states'" using Cons.prems(2) by auto
  note g = fold_step_get [OF Cons.prems(1) s1(1)]
  from Cons.IH [OF g(1) s1(2)] g(2) g(3) [of a] show ?case by (auto simp: account_of_def)
qed simp

lemma fold_single:
  assumes "omap_inv states" "\<forall>e \<in> set evs. ev_account e = a"
    "fold_r (apply_event x) (account_of states a) evs = Ok st"
  shows "\<exists>states'. fold_r (fold_step x) states evs = Ok states' \<and> account_of states' a = st"
  using assms
proof (induction evs arbitrary: states)
  case (Cons e evs)
  obtain st1 where st1: "apply_event x (account_of states a) e = Ok st1" "fold_r (apply_event x) st1 evs = Ok st"
    using Cons.prems(3) by auto
  have ea: "ev_account e = a" using Cons.prems(2) by simp
  obtain s1 where s1: "fold_step x states e = Ok s1" using fold_step_Ok [OF Cons.prems(1)] st1(1) ea by blast
  note g = fold_step_get [OF Cons.prems(1) s1]
  have "account_of s1 a = st1" using g(2) st1(1) ea by simp
  with Cons.IH [OF g(1)] Cons.prems(2) st1(2) s1 show ?case by auto
qed simp

lemma ordered_filter:
  assumes "\<forall>e \<in> set evs. ev_seq e \<noteq> None"
  shows "ordered (filter P (ordered evs)) = filter P (ordered evs)"
proof -
  have o: "ordered evs = sort_key (\<lambda>e. the (ev_seq e)) evs" using assms by (simp add: ordered_def list_all_iff)
  have "\<forall>e \<in> set (filter P (ordered evs)). ev_seq e \<noteq> None" using assms unfolding o by simp
  moreover have "sorted (map (\<lambda>e. the (ev_seq e)) (filter P (ordered evs)))"
    unfolding o by (rule sorted_filter) simp
  ultimately show ?thesis unfolding ordered_def [of "filter P (ordered evs)"]
    by (simp add: list_all_iff sort_key_id_if_sorted)
qed

subsection \<open>Whole logs of one account\<close>

definition book_inv :: "account_state \<Rightarrow> bool" where
  "book_inv st \<longleftrightarrow> st_wf st \<and> fills_once st \<and> halt_flag_ok st"

lemma book_inv_new [simp]: "book_inv (account_new a)"
  by (simp add: book_inv_def fills_once_def halt_flag_ok_def) (simp add: account_new_def)

lemma apply_event_Ok:
  assumes "apply_event x st ev = Ok st'"
  obtains st1 where "dispatch x st ev = Ok st1" "st' = st1\<lparr>a_last_seq := (case ev_seq ev of Some s \<Rightarrow> s | None \<Rightarrow> a_last_seq st1)\<rparr>"
  using assms by (auto simp: apply_event_def split: option.splits)

lemma last_seq_frame [simp]:
  "book_inv (st\<lparr>a_last_seq := s\<rparr>) = book_inv st" "st_wf (st\<lparr>a_last_seq := s\<rparr>) = st_wf st"
  "not_overfilled (st\<lparr>a_last_seq := s\<rparr>) = not_overfilled st"
  by (simp_all add: book_inv_def fills_once_def halt_flag_ok_def st_wf_def not_overfilled_def)

lemma dispatch_book_inv: "book_inv st \<Longrightarrow> dispatch x st ev = Ok st' \<Longrightarrow> book_inv st'"
proof -
  assume b: "book_inv st" and ok: "dispatch x st ev = Ok st'"
  then have wf: "st_wf st" by (simp add: book_inv_def)
  have "fills_once st'"
    using b dispatch_fills [OF wf ok] by (cases "ev_payload ev") (auto simp: book_inv_def fills_once_def)
  with dispatch_wf [OF wf ok] dispatch_fills [OF wf ok] b show ?thesis by (simp add: book_inv_def)
qed

lemma apply_event_book_inv: "book_inv st \<Longrightarrow> apply_event x st ev = Ok st' \<Longrightarrow> book_inv st'"
  by (erule apply_event_Ok) (auto dest: dispatch_book_inv)

lemma log_book_inv: "fold_r (apply_event x) st evs = Ok st' \<Longrightarrow> book_inv st \<Longrightarrow> book_inv st'"
  by (erule fold_r_invariant) (auto intro: apply_event_book_inv)

definition terminal_state :: "order_state \<Rightarrow> bool" where
  "terminal_state s \<longleftrightarrow> s \<in> {Filled, Cancelled, Expired, Rejected}"

lemma terminal_not_allowed: "terminal_state s \<Longrightarrow> \<not> allowed s s'"
  by (auto simp: terminal_state_def)

lemma apply_event_terminal:
  assumes "st_wf st" "apply_event x st ev = Ok st'" "omap_get (a_orders st) i = Some r" "terminal_state (o_state r)"
  shows "\<exists>r'. omap_get (a_orders st') i = Some r' \<and> o_state r' = o_state r"
  using assms(2)
proof (cases rule: apply_event_Ok)
  case (1 st1)
  obtain r' where r': "omap_get (a_orders st1) i = Some r'" "o_state r' = o_state r \<or> allowed (o_state r) (o_state r') \<or> o_state r = Submitted"
    using dispatch_orders [OF assms(1) 1(1) assms(3)] by blast
  with terminal_not_allowed [OF assms(4)] have "o_state r' = o_state r" using assms(4) by (auto simp: terminal_state_def)
  with r' 1(2) show ?thesis by simp
qed

lemma log_terminal:
  assumes "fold_r (apply_event x) st evs = Ok st'" "book_inv st" "omap_get (a_orders st) i = Some r" "terminal_state (o_state r)"
  shows "\<exists>r'. omap_get (a_orders st') i = Some r' \<and> o_state r' = o_state r"
proof -
  have "book_inv st' \<and> (\<exists>r'. omap_get (a_orders st') i = Some r' \<and> o_state r' = o_state r)"
  proof (rule fold_r_invariant [OF assms(1)])
    show "book_inv st \<and> (\<exists>r'. omap_get (a_orders st) i = Some r' \<and> o_state r' = o_state r)" using assms(2,3) by blast
  next
    fix s e s' assume s: "book_inv s \<and> (\<exists>r'. omap_get (a_orders s) i = Some r' \<and> o_state r' = o_state r)"
      and ok: "apply_event x s e = Ok s'"
    then obtain r1 where r1: "omap_get (a_orders s) i = Some r1" "o_state r1 = o_state r" by blast
    have "\<exists>r'. omap_get (a_orders s') i = Some r' \<and> o_state r' = o_state r1"
      using s assms(4) r1 by (intro apply_event_terminal [OF _ ok r1(1)]) (auto simp: book_inv_def)
    with apply_event_book_inv s ok r1(2) show "book_inv s' \<and> (\<exists>r'. omap_get (a_orders s') i = Some r' \<and> o_state r' = o_state r)"
      by auto
  qed
  then show ?thesis by blast
qed

lemma apply_event_not_overfilled:
  assumes "st_wf st" "apply_event x st ev = Ok st'" "not_overfilled st" "\<not> resubmits_filled st ev"
  shows "not_overfilled st'"
  using assms(2)
proof (cases rule: apply_event_Ok)
  case (1 st1)
  from dispatch_not_overfilled [OF assms(1) 1(1) assms(3,4)] 1(2) show ?thesis by simp
qed

text \<open>\<open>fold_account\<close> is the log of the account folded event by event.\<close>

lemma fold_account_log:
  assumes "fold_account x evs a = Ok st"
  shows "\<exists>sub. (\<forall>e \<in> set sub. e \<in> set evs \<and> ev_account e = a) \<and> fold_r (apply_event x) (account_new a) sub = Ok st"
proof -
  let ?sub = "filter (\<lambda>e. ev_account e = a) (ordered evs)"
  obtain states where f: "fold_r (fold_step x) omap_new (ordered ?sub) = Ok states" and st: "st = account_of states a"
    using assms by (auto simp: fold_account_def fold_refs_def account_of_def)
  have set: "set (ordered es) = set es" for es by (simp add: ordered_def)
  have "filter (\<lambda>e. ev_account e = a) (ordered ?sub) = ordered ?sub" using set by (intro filter_True) auto
  with fold_project [OF omap_inv_new f, of a] st
  have "fold_r (apply_event x) (account_new a) (ordered ?sub) = Ok st" by (simp add: account_of_def)
  moreover have "\<forall>e \<in> set (ordered ?sub). e \<in> set evs \<and> ev_account e = a" using set by auto
  ultimately show ?thesis by blast
qed

lemma fold_account_projects:
  assumes seq: "\<forall>e \<in> set evs. ev_seq e \<noteq> None" and ok: "fold_log x evs = Ok states"
  shows "fold_account x evs a = Ok (account_of states a)"
proof -
  let ?sub = "filter (\<lambda>e. ev_account e = a) (ordered evs)"
  have "fold_r (apply_event x) (account_of omap_new a) ?sub = Ok (account_of states a)"
    using ok fold_project [OF omap_inv_new] unfolding fold_log_def fold_refs_def by blast
  from fold_single [OF omap_inv_new _ this] obtain s' where
    s': "fold_r (fold_step x) omap_new ?sub = Ok s'" "account_of s' a = account_of states a" by auto
  show ?thesis unfolding fold_account_def fold_refs_def ordered_filter [OF seq] s'(1)
    using s'(2) by (simp add: account_of_def)
qed

end
