(* ===== verification/Rounding.thy ===== *)
theory Rounding
  imports Grid
begin

section \<open>Rounding error, and floors of rounded quotients\<close>

text \<open>
  The error of the rounding of an arithmetic result, when a rounded result fits, and the fact the
  splitting of fills rests on: the floor of a rounded quotient of two whole numbers is the floor
  of the quotient, as long as both have at most 27 digits.
\<close>

lemma window_exists:
  assumes "v \<noteq> 0"
  shows "\<exists>e. digit_window v e"
proof -
  define u where "u = \<bar>v\<bar>"
  have u: "0 < u" using assms by (simp add: u_def)
  obtain n where n: "u < of_nat n" using reals_Archimedean2 by blast
  obtain m where m: "inverse u < of_nat m" using reals_Archimedean2 by blast
  have big: "of_nat k < (10 :: rat) ^ k" for k :: nat
    using power_gt_expt [of 10 k] of_nat_less_iff [of k "10 ^ k", where ?'a = rat] by simp
  have "inverse u < 10 ^ m" using m big [of m] by (rule less_trans)
  then have lo: "1 / 10 ^ m < u" using u by (simp add: field_simps)
  have hi: "u < 10 ^ n" using n big [of n] by (rule less_trans)
  define P where "P j \<longleftrightarrow> u < 10 powi (int j - int m)" for j :: nat
  have P1: "P (n + m)" using hi by (simp add: P_def)
  have P0: "\<not> P 0" using lo pow10_neg_nat [of m] by (simp add: P_def not_less less_imp_le)
  define j where "j = (LEAST j. P j)"
  have Pj: "P j" unfolding j_def by (rule LeastI [of P, OF P1])
  have j0: "j \<noteq> 0" using Pj P0 by metis
  then have "\<not> P (j - 1)" unfolding j_def by (intro not_less_Least) simp
  with j0 have ge: "10 powi (int j - 1 - int m) \<le> u" by (simp add: P_def of_nat_diff not_less)
  have lt: "u < 10 powi (int j - int m)" using Pj by (simp add: P_def)
  define e where "e = int j - int m - 28"
  have "10 powi (int j - 1 - int m) = 10 ^ 27 * (10 :: rat) powi e"
    using pow10_add [of 27 e] pow10_nat [of 27] by (simp add: e_def algebra_simps)
  moreover have "10 powi (int j - int m) = 10 ^ 28 * (10 :: rat) powi e"
    using pow10_add [of 28 e] pow10_nat [of 28] by (simp add: e_def algebra_simps)
  ultimately have "digit_window v e"
    using ge lt unfolding digit_window_def u_def by (simp add: pos_le_divide_eq pos_divide_less_eq)
  then show ?thesis by blast
qed

lemma round_prec_error:
  assumes "round_prec v r"
  shows "\<bar>r - v\<bar> \<le> \<bar>v\<bar> / (2 * 10 ^ 27)"
proof -
  obtain e where e: "digit_window v e" "r = sgn v * of_int (rhe (\<bar>v\<bar> / 10 powi e)) * 10 powi e"
    using assms by (auto simp: round_prec_def)
  define p :: rat where "p = 10 powi e"
  have p: "0 < p" by (simp add: p_def)
  define q where "q = \<bar>v\<bar> / p"
  have vq: "v = sgn v * (q * p)" using p by (simp add: q_def mult_sgn_abs)
  have rq: "r = sgn v * (of_int (rhe q) * p)" using e(2) unfolding q_def p_def by (simp only: mult.assoc)
  have "r - v = sgn v * ((of_int (rhe q) - q) * p)" using vq rq
    by (metis (no_types) left_diff_distrib right_diff_distrib)
  then have "\<bar>r - v\<bar> \<le> \<bar>of_int (rhe q) - q\<bar> * p"
    using p by (simp add: abs_mult sgn_if split: if_splits)
  also have "\<dots> \<le> 1 / 2 * p" using rhe_error [of q] p by (intro mult_right_mono) simp_all
  also have "\<dots> \<le> \<bar>v\<bar> / (2 * 10 ^ 27)"
    using e(1) p unfolding digit_window_def p_def [symmetric] by (simp add: field_simps)
  finally show ?thesis .
qed

lemma round_scale_error: "\<bar>round_scale r - r\<bar> \<le> 1 / (2 * 10 ^ 28)"
proof -
  define q where "q = \<bar>r\<bar> * 10 ^ 28"
  have rq: "r = sgn r * q / 10 ^ 28" by (simp add: q_def mult_sgn_abs)
  have "round_scale r - r = sgn r * (of_int (rhe q) - q) / 10 ^ 28"
    using rq unfolding round_scale_def q_def by (metis diff_divide_distrib right_diff_distrib)
  then have "\<bar>round_scale r - r\<bar> = \<bar>sgn r\<bar> * \<bar>of_int (rhe q) - q\<bar> / 10 ^ 28"
    by (simp only: abs_mult abs_divide) simp
  also have "\<dots> \<le> \<bar>of_int (rhe q) - q\<bar> / 10 ^ 28" by (simp add: sgn_if)
  also have "\<dots> \<le> 1 / 2 / 10 ^ 28" using rhe_error [of q] by (intro divide_right_mono) simp_all
  finally show ?thesis by simp
qed

lemma rounds_error:
  assumes "rounds_to v y"
  shows "\<bar>y - v\<bar> \<le> \<bar>v\<bar> / (2 * 10 ^ 27) + 1 / (2 * 10 ^ 28)"
proof (cases "v = 0")
  case False
  then obtain r where r: "round_prec v r" "y = round_scale r" using assms by (auto simp: rounds_to_def)
  show ?thesis using round_prec_error [OF r(1)] round_scale_error [of r] unfolding r(2) by linarith
qed (use assms in \<open>simp add: rounds_to_def\<close>)

lemma fits_small:
  assumes "c \<le> 10 ^ 28" "- 28 \<le> e" "e < 0"
  shows "fits (dval neg c e)"
proof (cases "c = 10 ^ 28")
  case True
  then have "dval neg c e = dval neg (10 ^ 27) (e + 1)" using dval_shift [of neg "10 ^ 27" 1 e] by simp
  moreover obtain m where "build neg (10 ^ 27) (e + 1) = Ok m"
    using build_total [of "10 ^ 27" "e + 1" neg] assms by auto
  ultimately show ?thesis unfolding fits_def using build_iff by metis
next
  case False
  then have "c < 10 ^ 28" using assms(1) by simp
  then obtain m where "build neg c e = Ok m" using build_total [of c e neg] assms by auto
  then show ?thesis unfolding fits_def using build_iff by metis
qed

lemma rounds_small:
  assumes "\<bar>v\<bar> < 10 ^ 27"
  shows "\<exists>y. rounds_to v y \<and> fits y"
proof (cases "v = 0")
  case True
  have "fits 0" unfolding fits_def by (intro exI [of _ ZERO]) simp
  with True show ?thesis by (auto simp: rounds_to_def)
next
  case False
  obtain e where e: "digit_window v e" using window_exists [OF False] by blast
  have "(10 :: rat) powi e < 1"
  proof (rule ccontr)
    assume "\<not> (10 :: rat) powi e < 1"
    then have "10 ^ 27 * 1 \<le> 10 ^ 27 * (10 :: rat) powi e" by (intro mult_left_mono) simp_all
    also have "\<dots> \<le> \<bar>v\<bar>" using e by (simp add: digit_window_def pos_le_divide_eq)
    finally show False using assms by simp
  qed
  moreover have "(1 :: rat) \<le> 10 ^ nat e" by (rule one_le_power) simp
  ultimately have e0: "e < 0" using pow10_nonneg [of e] by linarith
  define q where "q = \<bar>v\<bar> / 10 powi e"
  define c where "c = nat (rhe q)"
  have q: "0 \<le> q" "q \<le> of_int (10 ^ 28)" using e by (simp_all add: q_def digit_window_def)
  have rq: "rhe q = int c" using rhe_nonneg [OF q(1)] by (simp add: c_def)
  have c: "c \<le> 10 ^ 28" using rhe_le_int [OF q(2)] rq by simp
  define r where "r = sgn v * of_int (rhe q) * 10 powi e"
  have rp: "round_prec v r" using e by (auto simp: round_prec_def r_def q_def)
  have r: "r = dval (v < 0) c e" using False rq by (simp add: r_def dval_def sgnr_def sgn_if)
  have "fits (round_scale r)"
  proof (cases "- 28 \<le> e")
    case True
    then show ?thesis using fits_small [OF c True e0] unfolding r by (simp add: round_scale_exact)
  next
    case small: False
    let ?k = "nat (- 28 - e)"
    have "(of_nat c :: rat) / 10 ^ ?k \<le> of_nat c" using divide_left_mono [of 1 "10 ^ ?k" "of_nat c :: rat"] by simp
    also have "(of_nat c :: rat) \<le> of_int (10 ^ 28)" using c of_nat_mono [OF c, where ?'a = rat] by simp
    finally have "rhe (of_nat c / 10 ^ ?k) \<le> 10 ^ 28" by (rule rhe_le_int)
    then have "nat (rhe (of_nat c / 10 ^ ?k)) \<le> 10 ^ 28" by simp
    then show ?thesis using small fits_small [of _ "- 28"] unfolding r by (simp add: round_scale_dval)
  qed
  with rp False show ?thesis unfolding rounds_to_def by blast
qed

text \<open>An operation whose exact result is small and not below the last decimal answers.\<close>

lemma rounds_nonzero:
  assumes "rounds_to v y" "1 / 10 ^ 28 \<le> \<bar>v\<bar>"
  shows "y \<noteq> 0"
proof
  assume "y = 0"
  with rounds_error [OF assms(1)] have "\<bar>v\<bar> \<le> \<bar>v\<bar> / (2 * 10 ^ 27) + 1 / (2 * 10 ^ 28)" by simp
  with assms(2) show False by simp
qed

lemma computes_small:
  assumes "computes r v" "\<bar>v\<bar> < 10 ^ 27" "v = 0 \<or> 1 / 10 ^ 28 \<le> \<bar>v\<bar>"
  shows "\<exists>m. r = Ok m \<and> canonical m \<and> rounds_to v (mval m)"
proof -
  obtain m where m: "canonical m" "rounds_to v (mval m)" using rounds_small [OF assms(2)] by (auto simp: fits_def)
  with assms(1,3) rounds_nonzero [OF m(2)] show ?thesis by (auto simp: computes_def)
qed

lemma ddiv_small:
  assumes "canonical a" "canonical b" "mval b \<noteq> 0" "\<bar>mval a / mval b\<bar> < 10 ^ 27"
    "mval a = 0 \<or> 1 / 10 ^ 28 \<le> \<bar>mval a / mval b\<bar>"
  shows "\<exists>c. ddiv a b = Ok c \<and> canonical c \<and> rounds_to (mval a / mval b) (mval c)"
  using computes_small [OF computes_div [OF assms(1,2,3)] assms(4)] assms(3,5)
  by (auto simp: ddiv_def)

text \<open>Whole numbers.\<close>

lemma rounds_floor:
  fixes p w :: int
  assumes p: "0 \<le> p" "p < 10 ^ 27" and w: "0 < w" "w < 10 ^ 27" and y: "rounds_to (of_int p / of_int w) y"
  shows "\<lfloor>y\<rfloor> = p div w"
proof (cases "w dvd p")
  case True
  have "p div w \<le> p div 1" using p w by (intro zdiv_mono2) simp_all
  then have "\<bar>p div w\<bar> < 10 ^ 28" using p w by (simp add: pos_imp_zdiv_nonneg_iff)
  from rounds_to_exact [OF exact_of_int [OF this]]
  have "rounds_to (of_int (p div w)) (of_int (p div w))" .
  moreover have "(of_int (p div w) :: rat) = of_int p / of_int w" using True w by (auto elim!: dvdE)
  ultimately have "y = of_int (p div w)" using rounds_to_unique [OF y] by metis
  then show ?thesis by simp
next
  case False
  define d m where "d = p div w" and "m = p mod w"
  have "m \<noteq> 0" "0 \<le> m" "m < w" using w(1) False by (simp_all add: m_def dvd_eq_mod_eq_0)
  then have dm: "p = d * w + m" "1 \<le> m" "m \<le> w - 1" by (simp_all add: d_def m_def)
  define v where "v = (of_int p :: rat) / of_int w"
  have w': "(0 :: rat) < of_int w" using w by simp
  have v: "v = of_int d + of_int m / of_int w" using w' by (simp add: v_def dm(1) field_simps)
  have p': "(0 :: rat) \<le> of_int p" "(of_int p :: rat) < 10 ^ 27" using p of_int_less_iff [of p "10 ^ 27", where ?'a = rat] by simp_all
  have w'': "(of_int w :: rat) < 10 ^ 27" using w of_int_less_iff [of w "10 ^ 27", where ?'a = rat] by simp
  have "\<bar>y - v\<bar> \<le> v / (2 * 10 ^ 27) + 1 / (2 * 10 ^ 28)"
    using rounds_error [OF y] p' w' by (simp add: v_def)
  then have "\<bar>y - v\<bar> * of_int w \<le> (v / (2 * 10 ^ 27) + 1 / (2 * 10 ^ 28)) * of_int w"
    using w' by (intro mult_right_mono) simp_all
  also have "\<dots> = of_int p / (2 * 10 ^ 27) + of_int w / (2 * 10 ^ 28)" using w' by (simp add: v_def field_simps)
  also have "\<dots> < 1" using p' w'' by simp
  finally have err: "\<bar>y - v\<bar> * of_int w < 1" .
  have "(1 :: rat) \<le> of_int m" "(of_int m :: rat) \<le> of_int w - 1"
    using dm(2,3) of_int_le_iff [of m "w - 1", where ?'a = rat] by simp_all
  moreover have "(y - of_int d) * of_int w = (y - v) * of_int w + of_int m" using w' by (simp add: v field_simps)
  moreover have "(y - v) * of_int w \<le> \<bar>y - v\<bar> * of_int w" "- (\<bar>y - v\<bar> * of_int w) \<le> (y - v) * of_int w"
    using w' by (simp_all add: abs_if field_simps)
  ultimately have "0 < (y - of_int d) * of_int w" "(y - of_int d) * of_int w < of_int w" using err by linarith+
  then have "0 < y - of_int d" "y - of_int d < 1" using w' by (simp_all add: zero_less_mult_iff)
  then have "\<lfloor>y\<rfloor> = d" by (intro floor_unique) simp_all
  then show ?thesis by (simp add: d_def)
qed

end
