(* ===== verification/Mirror_Inv.thy ===== *)
theory Mirror_Inv
  imports Mirror Rounding Fold_Inv
begin

section \<open>The mirror: splitting of fills and the invariant of a ticket\<close>

text \<open>
  The reference of \<open>pro_rata\<close> over the integers and the proof that the decimal routine computes a
  split of it: the pieces add up to the increment, each is the floor of its share or one more, and
  none exceeds its weight. Then the invariant of a ticket: what its allocations were given adds up
  to what the venue filled, no allocation is given more than it asked for, and no strategy order
  is both on a ticket and refused.
\<close>

subsection \<open>Whole amounts\<close>

definition whole_amt :: "money \<Rightarrow> int \<Rightarrow> bool" where
  "whole_amt m n \<longleftrightarrow> canonical m \<and> mval m = of_int n"

lemma whole_amt_fun: "whole_amt m n \<Longrightarrow> whole_amt m n' \<Longrightarrow> n = n'"
  by (simp add: whole_amt_def)

lemma whole_amt_zero [simp]: "whole_amt ZERO 0"
  by (simp add: whole_amt_def)

lemma whole_amt_lt [simp]: "whole_amt a m \<Longrightarrow> whole_amt b n \<Longrightarrow> mval a < mval b \<longleftrightarrow> m < n"
  by (simp add: whole_amt_def)

lemma whole_amt_eq [simp]: "whole_amt a m \<Longrightarrow> whole_amt b n \<Longrightarrow> mval a = mval b \<longleftrightarrow> m = n"
  by (simp add: whole_amt_def)

lemma whole_add:
  assumes "whole_amt a m" "whole_amt b n" "\<bar>m + n\<bar> < 10 ^ 28"
  shows "\<exists>c. dadd a b = Ok c \<and> whole_amt c (m + n)"
proof -
  have "exact_value (mval a + mval b)" using exact_of_int [OF assms(3)] assms(1,2) by (simp add: whole_amt_def)
  with amt.add_exact [of a b] assms(1,2) show ?thesis by (auto simp: whole_amt_def)
qed

lemma whole_sub:
  assumes "whole_amt a m" "whole_amt b n" "\<bar>m - n\<bar> < 10 ^ 28"
  shows "\<exists>c. dsub a b = Ok c \<and> whole_amt c (m - n)"
proof -
  have "exact_value (mval a - mval b)" using exact_of_int [OF assms(3)] assms(1,2) by (simp add: whole_amt_def)
  with amt.sub_exact [of a b] assms(1,2) show ?thesis by (auto simp: whole_amt_def)
qed

lemma whole_mul:
  assumes "whole_amt a m" "whole_amt b n" "\<bar>m * n\<bar> < 10 ^ 28"
  shows "\<exists>c. dmul a b = Ok c \<and> whole_amt c (m * n)"
proof -
  have "exact_value (mval a * mval b)" using exact_of_int [OF assms(3)] assms(1,2) by (simp add: whole_amt_def)
  with amt.mul_exact [of a b] assms(1,2) show ?thesis by (auto simp: whole_amt_def)
qed

lemma whole_inc:
  assumes "whole_amt a m" "\<bar>m + 1\<bar> < 10 ^ 28"
  shows "\<exists>c. add_i128 a 1 = Ok c \<and> whole_amt c (m + 1)"
proof -
  obtain k where k: "from_i128 1 = Ok k" using from_i128_exact [of 1] by auto
  have "exact_value (mval a + of_int 1)" using exact_of_int [OF assms(2)] assms(1) by (simp add: whole_amt_def)
  from computes_exact [OF add_i128_computes [OF _ k] this] assms(1) show ?thesis by (auto simp: whole_amt_def)
qed

lemma whole_trunc: "whole_amt a m \<Longrightarrow> trunc_i128 a = Ok m"
proof -
  assume a: "whole_amt a m"
  then obtain n where n: "trunc_i128 a = Ok n" "(of_int n :: rat) = sgn (of_int m) * of_int \<lfloor>\<bar>of_int m :: rat\<bar>\<rfloor>"
    using trunc_spec [of a] by (auto simp: whole_amt_def)
  have "\<lfloor>\<bar>of_int m :: rat\<bar>\<rfloor> = \<bar>m\<bar>" by (metis floor_of_int of_int_abs)
  with n(2) have "(of_int n :: rat) = of_int m" by (simp add: sgn_if)
  with n(1) show ?thesis by simp
qed

subsection \<open>The reference split\<close>

definition floor_split :: "int list \<Rightarrow> int \<Rightarrow> int \<Rightarrow> int list" where
  "floor_split ws w a = map (\<lambda>x. x * a div w) ws"

definition is_split :: "int list \<Rightarrow> int \<Rightarrow> int \<Rightarrow> int list \<Rightarrow> bool" where
  "is_split ws w a ps \<longleftrightarrow> sum_list ps = a
     \<and> list_all2 (\<lambda>x p. x * a div w \<le> p \<and> p \<le> x * a div w + 1 \<and> p \<le> x) ws ps"

lemma floor_split_remainder:
  assumes "0 < w" "0 \<le> a" "a \<le> w" "\<forall>x \<in> set ws. 0 \<le> x" "sum_list ws = w"
  defines "s \<equiv> floor_split ws w a"
  shows "0 \<le> a - sum_list s" "a - sum_list s \<le> int (length (filter (\<lambda>(p, x). p < x) (zip s ws)))"
proof -
  have parts: "sum_list (map (\<lambda>x. x * a) ws) = w * sum_list s + sum_list (map (\<lambda>x. x * a mod w) ws)"
    unfolding s_def floor_split_def
    by (simp add: sum_list_const_mult [symmetric] sum_list_addf [symmetric] comp_def)
  have total: "sum_list (map (\<lambda>x. x * a) ws) = a * w"
    using assms(5) by (simp add: sum_list_mult_const mult.commute)
  from parts total have rem: "w * (a - sum_list s) = sum_list (map (\<lambda>x. x * a mod w) ws)"
    by (simp add: algebra_simps)
  have "0 \<le> sum_list (map (\<lambda>x. x * a mod w) ws)" using assms(1) by (intro sum_list_nonneg) auto
  with rem assms(1) show "0 \<le> a - sum_list s" by (metis zero_le_mult_iff not_less)
  have step: "x * a mod w \<le> w * (if x * a div w < x then 1 else 0)" if "0 \<le> x" for x
  proof (cases "x * a div w < x")
    case True
    then show ?thesis using assms(1) by (simp add: less_imp_le)
  next
    case False
    then have "x * w \<le> (x * a div w) * w" using assms(1) by (intro mult_right_mono) auto
    moreover have "(x * a div w) * w = x * a - x * a mod w" by (simp add: minus_mod_eq_div_mult)
    moreover have "x * a \<le> x * w" using that assms(3) by (intro mult_left_mono)
    ultimately have "x * a mod w \<le> 0" by linarith
    then show ?thesis using False by simp
  qed
  have "sum_list (map (\<lambda>x. x * a mod w) ws) \<le> w * int (length (filter (\<lambda>(p, x). p < x) (zip s ws)))"
    using assms(4) unfolding s_def floor_split_def
  proof (induction ws)
    case (Cons x xs)
    have "x * a mod w \<le> w * (if x * a div w < x then 1 else 0)" using step Cons.prems by simp
    moreover have "sum_list (map (\<lambda>x. x * a mod w) xs)
        \<le> w * int (length (filter (\<lambda>(p, x). p < x) (zip (map (\<lambda>x. x * a div w) xs) xs)))" using Cons by simp
    ultimately show ?case by (auto simp: distrib_left)
  qed simp
  then show "a - sum_list s \<le> int (length (filter (\<lambda>(p, x). p < x) (zip s ws)))"
    using rem assms(1) by (metis mult_le_cancel_left_pos)
qed

subsection \<open>The decimal routine computes a split\<close>

lemma floor_share_whole:
  assumes "whole_amt W w" "whole_amt A a" "whole_amt X x"
    and "0 < w" "w < 10 ^ 13" "0 \<le> a" "a \<le> w" "0 \<le> x" "x \<le> w"
  shows "\<exists>c. floor_share W A X = Ok c \<and> whole_amt c (x * a div w)"
proof -
  have "x * a \<le> w * w" using assms by (intro mult_mono) simp_all
  also have "\<dots> \<le> 10 ^ 13 * 10 ^ 13" using assms by (intro mult_mono) simp_all
  finally have xa: "x * a < 10 ^ 27" "0 \<le> x * a" using assms by simp_all
  obtain p where p: "dmul X A = Ok p" "whole_amt p (x * a)" using whole_mul [OF assms(3,2)] xa by auto
  have w0: "mval W \<noteq> 0" using assms(1,4) by (simp add: whole_amt_def)
  define v :: rat where "v = of_int (x * a) / of_int w"
  have w1: "(1 :: rat) \<le> of_int w" using assms(4) by simp
  have w2: "(of_int w :: rat) < 10 ^ 13" using assms(5) of_int_less_iff [of w "10 ^ 13", where ?'a = rat] by simp
  have xa2: "(of_int (x * a) :: rat) < 10 ^ 27" using xa(1) of_int_less_iff [of "x * a" "10 ^ 27", where ?'a = rat] by simp
  define n :: rat where "n = of_int (x * a)"
  have n: "0 \<le> n" "n < 10 ^ 27" using xa(2) xa2 by (simp_all only: n_def of_int_0_le_iff)
  have "v \<le> n / 1" unfolding v_def n_def [symmetric] using w1 n(1) by (intro divide_left_mono) simp_all
  with n(2) have small: "v < 10 ^ 27" by simp
  have "1 / 10 ^ 28 \<le> v" if "x * a \<noteq> 0"
  proof -
    have "1 \<le> x * a" using that xa(2) by linarith
    then have "(1 :: rat) \<le> of_int (x * a)" by (simp only: of_int_1_le_iff)
    then have "1 / of_int w \<le> v" unfolding v_def using w1 by (intro divide_right_mono) simp_all
    moreover have "1 / 10 ^ 28 \<le> 1 / (of_int w :: rat)" using w1 w2 by (intro divide_left_mono) simp_all
    ultimately show ?thesis by simp
  qed
  moreover have "0 \<le> v" unfolding v_def n_def [symmetric] using n(1) w1 by simp
  moreover have pv: "mval p / mval W = v" using p(2) assms(1) by (simp add: whole_amt_def v_def)
  ultimately obtain q where q: "ddiv p W = Ok q" "canonical q" "rounds_to v (mval q)"
    using ddiv_small [of p W] p(2) assms(1) w0 small by (auto simp: whole_amt_def)
  have "w < 10 ^ 27" using assms(5) by simp
  from rounds_floor [OF xa(2,1) assms(4) this q(3) [unfolded v_def]]
  have "\<lfloor>mval q\<rfloor> = x * a div w" .
  with to_integral_spec [OF q(2), of Floor] p q show ?thesis
    by (auto simp: floor_share_def rounded_int_def whole_amt_def)
qed

lemma spread_whole:
  assumes "list_all2 whole_amt ss fs" "list_all2 whole_amt ws xs" "length ss = length ws"
    and "list_all (\<lambda>i. 0 \<le> i \<and> i < 10 ^ 27) fs" "list_all2 (\<le>) fs xs"
    and "0 \<le> r" "r \<le> int (length (filter (\<lambda>(p, x). p < x) (zip fs xs)))"
  shows "\<exists>ps qs. spread (zip ss ws) r = Ok ps \<and> list_all2 whole_amt ps qs \<and> sum_list qs = sum_list fs + r
    \<and> list_all2 (\<lambda>(i, x) q. i \<le> q \<and> q \<le> i + 1 \<and> q \<le> x) (zip fs xs) qs"
  using assms(3,1,2,4-)
proof (induction ss ws arbitrary: fs xs r rule: list_induct2)
  case Nil
  then show ?case by (intro exI [of _ "[]"]) simp
next
  case (Cons s ss w ws)
  obtain i fs' where i: "fs = i # fs'" "whole_amt s i" "list_all2 whole_amt ss fs'" using Cons.prems(1) by (auto simp: list_all2_Cons1)
  obtain x xs' where x: "xs = x # xs'" "whole_amt w x" "list_all2 whole_amt ws xs'" using Cons.prems(2) by (auto simp: list_all2_Cons1)
  have rest: "list_all (\<lambda>i. 0 \<le> i \<and> i < 10 ^ 27) fs'" "list_all2 (\<le>) fs' xs'" "0 \<le> i" "i < 10 ^ 27" "i \<le> x"
    using Cons.prems(3,4) i(1) x(1) by simp_all
  have lt: "money_lt s w \<longleftrightarrow> i < x" using i x by simp
  note IH = Cons.IH [OF i(3) x(3) rest(1,2)]
  consider "r = 0" | "r \<noteq> 0" "i < x" | "r \<noteq> 0" "\<not> i < x" by blast
  then show ?case
  proof cases
    case 1
    have "spread (zip (s # ss) (w # ws)) r = Ok (s # ss)" using 1 Cons.hyps by simp
    moreover have "list_all2 (\<lambda>(i, x) q. i \<le> q \<and> q \<le> i + 1 \<and> q \<le> x) (zip fs xs) fs"
      using Cons.prems(4) by (simp add: list_all2_conv_all_nth)
    ultimately show ?thesis using 1 Cons.prems(1) by (intro exI [of _ "s # ss"] exI [of _ fs]) simp
  next
    case 2
    obtain c where c: "add_i128 s 1 = Ok c" "whole_amt c (i + 1)" using whole_inc [OF i(2)] rest by auto
    from 2 Cons.prems(5,6) i(1) x(1) IH [of "r - 1"] obtain ps qs where
      "spread (zip ss ws) (r - 1) = Ok ps" "list_all2 whole_amt ps qs" "sum_list qs = sum_list fs' + (r - 1)"
      "list_all2 (\<lambda>(i, x) q. i \<le> q \<and> q \<le> i + 1 \<and> q \<le> x) (zip fs' xs') qs" by auto
    with 2 c lt i(1) x(1) show ?thesis by (intro exI [of _ "c # ps"] exI [of _ "(i + 1) # qs"]) simp
  next
    case 3
    from 3 Cons.prems(5,6) i(1) x(1) IH [of r] obtain ps qs where
      "spread (zip ss ws) r = Ok ps" "list_all2 whole_amt ps qs" "sum_list qs = sum_list fs' + r"
      "list_all2 (\<lambda>(i, x) q. i \<le> q \<and> q \<le> i + 1 \<and> q \<le> x) (zip fs' xs') qs" by auto
    with 3 lt i x rest show ?thesis by (intro exI [of _ "s # ps"] exI [of _ "i # qs"]) simp
  qed
qed

lemma whole_sum:
  assumes "list_all2 whole_amt ss fs" "\<forall>i \<in> set fs. 0 \<le> i" "whole_amt t b" "0 \<le> b" "b + sum_list fs < 10 ^ 28"
  shows "\<exists>c. fold_r dadd t ss = Ok c \<and> whole_amt c (b + sum_list fs)"
  using assms
proof (induction ss fs arbitrary: t b rule: list_all2_induct)
  case (Cons s ss i fs)
  have "0 \<le> sum_list fs" using Cons.prems(1) by (intro sum_list_nonneg) simp
  then obtain c where c: "dadd t s = Ok c" "whole_amt c (b + i)"
    using whole_add [OF Cons.prems(2) Cons.hyps(1)] Cons.prems by auto
  show ?case using Cons.IH [OF _ c(2)] Cons.prems c(1) by (simp add: add.assoc)
qed simp

lemma pro_rata_split:
  assumes "list_all2 whole_amt weights ws" "whole_amt W w" "whole_amt A a"
    and "0 < w" "w < 10 ^ 13" "0 \<le> a" "a \<le> w" "\<forall>x \<in> set ws. 0 \<le> x" "sum_list ws = w"
  shows "\<exists>pieces ps. pro_rata weights W A = Ok pieces \<and> list_all2 whole_amt pieces ps \<and> is_split ws w a ps"
proof -
  let ?fs = "floor_split ws w a"
  have le: "x \<le> w" if "x \<in> set ws" for x using assms(8,9) that member_le_sum_list by metis
  have share: "\<exists>c. floor_share W A m = Ok c \<and> whole_amt c (x * a div w)" if "whole_amt m x" "0 \<le> x" "x \<le> w" for m x
    by (rule floor_share_whole [OF assms(2,3) that(1) assms(4-7) that(2,3)])
  have "\<forall>x \<in> set ws. 0 \<le> x \<and> x \<le> w" using le assms(8) by simp
  with assms(1) have "\<exists>ss. map_r (floor_share W A) weights = Ok ss \<and> list_all2 whole_amt ss ?fs"
    unfolding floor_split_def
  proof (induction rule: list_all2_induct)
    case (Cons m ms x xs)
    with share [OF Cons.hyps(1)] show ?case by fastforce
  qed simp
  then obtain ss where ss: "map_r (floor_share W A) weights = Ok ss" "list_all2 whole_amt ss ?fs" by blast
  have isb: "\<forall>i \<in> set ?fs. 0 \<le> i" using assms(4,6,8) by (auto simp: floor_split_def pos_imp_zdiv_nonneg_iff)
  note rem = floor_split_remainder [OF assms(4,6,7,8,9)]
  have "sum_list ?fs < 10 ^ 28" using rem(1) assms(5,7) by simp
  then obtain t where t: "fold_r dadd ZERO ss = Ok t" "whole_amt t (sum_list ?fs)"
    using whole_sum [OF ss(2) isb whole_amt_zero] by auto
  have nn: "0 \<le> sum_list ?fs" using isb by (intro sum_list_nonneg) simp
  then obtain d where d: "dsub A t = Ok d" "whole_amt d (a - sum_list ?fs)"
    using whole_sub [OF assms(3) t(2)] rem(1) assms(5,7) by auto
  have lele: "list_all2 (\<le>) ?fs ws"
    unfolding floor_split_def list_all2_map1
  proof (rule list_all2_all_nthI)
    fix n assume "n < length ws"
    then have "0 \<le> ws ! n" using assms(8) by simp
    then have "ws ! n * a \<le> ws ! n * w" using assms(7) by (intro mult_left_mono)
    then have "ws ! n * a div w \<le> ws ! n * w div w" using assms(4) by (intro zdiv_mono1)
    then show "ws ! n * a div w \<le> ws ! n" using assms(4) by simp
  qed simp
  have "list_all (\<lambda>i. 0 \<le> i \<and> i < 10 ^ 27) ?fs"
    unfolding list_all_iff
  proof
    fix i assume i: "i \<in> set ?fs"
    then have "i \<le> sum_list ?fs" using isb member_le_sum_list by metis
    then show "0 \<le> i \<and> i < 10 ^ 27" using isb i rem(1) assms(5,7) by simp
  qed
  moreover have "length ss = length weights" using ss(2) assms(1) by (auto simp: floor_split_def dest!: list_all2_lengthD)
  ultimately obtain ps qs where
    s: "spread (zip ss weights) (a - sum_list ?fs) = Ok ps" "list_all2 whole_amt ps qs" "sum_list qs = a"
      "list_all2 (\<lambda>(i, x) q. i \<le> q \<and> q \<le> i + 1 \<and> q \<le> x) (zip ?fs ws) qs"
    using spread_whole [OF ss(2) assms(1) _ _ lele rem] by auto
  have "is_split ws w a qs" using s(3,4) by (auto simp: is_split_def floor_split_def list_all2_conv_all_nth)
  moreover have "pro_rata weights W A = Ok ps"
    using ss t d s(1) whole_trunc [OF d(2)] by (simp add: pro_rata_def)
  ultimately show ?thesis using s(2) by blast
qed

subsection \<open>The invariant of a ticket\<close>

definition queued_ok :: "mirror_queued \<Rightarrow> bool" where
  "queued_ok q \<longleftrightarrow> distinct (map ma_strategy_order_id (mq_allocations q))
     \<and> (\<exists>xs w. list_all2 whole_amt (map ma_quantity (mq_allocations q)) xs \<and> (\<forall>x \<in> set xs. 0 \<le> x)
          \<and> whole_amt (mq_quantity q) w \<and> 0 < w \<and> w < 10 ^ 13 \<and> sum_list xs = w)"

definition given :: "mirror_ticket_state \<Rightarrow> mirror_allocation \<Rightarrow> money" where
  "given t a = omap_get_zero (mt_allocated t) (ma_strategy_order_id a)"

definition allocs_of :: "mirror_ticket_state \<Rightarrow> mirror_allocation list" where
  "allocs_of t = mq_allocations (mt_queued t)"

definition ticket_ok :: "mirror_ticket_state \<Rightarrow> bool" where
  "ticket_ok t \<longleftrightarrow> queued_ok (mt_queued t) \<and> omap_inv (mt_allocated t)
     \<and> (\<exists>xs gs f. list_all2 whole_amt (map ma_quantity (allocs_of t)) xs \<and> list_all2 whole_amt (map (given t) (allocs_of t)) gs
          \<and> list_all2 (\<lambda>g x. 0 \<le> g \<and> g \<le> x) gs xs \<and> whole_amt (mt_filled t) f \<and> sum_list gs = f)"

lemma list_all2_whole_fun: "list_all2 whole_amt ms xs \<Longrightarrow> list_all2 whole_amt ms ys \<Longrightarrow> xs = ys"
  by (rule nth_equalityI) (simp_all add: list_all2_conv_all_nth, metis whole_amt_fun)

lemma omap_get_zero_put [simp]:
  "omap_inv m \<Longrightarrow> omap_get_zero (omap_put m k v) k' = (if k' = k then v else omap_get_zero m k')"
  by (simp add: omap_get_zero_def omap_get_put)

lemma ticket_new_ok:
  assumes "queued_ok q"
  shows "ticket_ok (ticket_new q)"
proof -
  obtain xs where xs: "list_all2 whole_amt (map ma_quantity (mq_allocations q)) xs" "\<forall>x \<in> set xs. 0 \<le> x"
    using assms by (auto simp: queued_ok_def)
  have "list_all2 whole_amt (map (given (ticket_new q)) (mq_allocations q)) (map (\<lambda>_. 0) xs)"
    using xs(1) by (auto simp: list_all2_conv_all_nth given_def ticket_new_def omap_get_zero_def)
  moreover have "list_all2 (\<lambda>g x. 0 \<le> g \<and> g \<le> x) (map (\<lambda>_. 0) xs) xs"
    using xs(2) by (auto simp: list_all2_conv_all_nth)
  ultimately show ?thesis
    using assms xs unfolding ticket_ok_def
    by (intro conjI exI [of _ xs] exI [of _ "map (\<lambda>_. 0) xs"] exI [of _ 0])
      (simp_all add: ticket_new_def allocs_of_def sum_list_triv)
qed

lemma book_pieces_given:
  assumes "length as = length ps" "fold_r (book_piece q) (al, bk) (zip as ps) = Ok (al', bk')" "omap_inv al"
    "distinct (map ma_strategy_order_id as)"
  shows "omap_inv al' \<and> (\<forall>k. k \<notin> ma_strategy_order_id ` set as \<longrightarrow> omap_get_zero al' k = omap_get_zero al k)
    \<and> list_all2 (\<lambda>a p. dadd (omap_get_zero al (ma_strategy_order_id a)) p = Ok (omap_get_zero al' (ma_strategy_order_id a))) as ps"
  using assms
proof (induction as ps arbitrary: al bk rule: list_induct2)
  case (Cons a as p ps)
  obtain ab where ab: "book_piece q (al, bk) (a, p) = Ok ab" "fold_r (book_piece q) ab (zip as ps) = Ok (al', bk')"
    using Cons.prems(1) by auto
  obtain now bk1 where now: "dadd (omap_get_zero al (ma_strategy_order_id a)) p = Ok now"
    and "ab = (omap_put al (ma_strategy_order_id a) now, bk1)" using ab(1) by (auto simp: book_piece_def)
  with ab(2) have rest: "fold_r (book_piece q) (omap_put al (ma_strategy_order_id a) now, bk1) (zip as ps) = Ok (al', bk')"
    by simp
  have fresh: "ma_strategy_order_id a \<notin> ma_strategy_order_id ` set as" and d: "distinct (map ma_strategy_order_id as)"
    using Cons.prems(3) by auto
  from Cons.IH [OF rest _ d] Cons.prems(2)
  have IH: "omap_inv al'"
    "\<And>k. k \<notin> ma_strategy_order_id ` set as \<Longrightarrow> omap_get_zero al' k = omap_get_zero (omap_put al (ma_strategy_order_id a) now) k"
    "list_all2 (\<lambda>a' p. dadd (omap_get_zero (omap_put al (ma_strategy_order_id a) now) (ma_strategy_order_id a')) p
        = Ok (omap_get_zero al' (ma_strategy_order_id a'))) as ps" by auto
  have "list_all2 (\<lambda>a p. dadd (omap_get_zero al (ma_strategy_order_id a)) p = Ok (omap_get_zero al' (ma_strategy_order_id a))) as ps"
  proof (rule list_all2_all_nthI)
    fix n assume n: "n < length as"
    then have "ma_strategy_order_id (as ! n) \<noteq> ma_strategy_order_id a" using fresh by (metis image_eqI nth_mem)
    with list_all2_nthD [OF IH(3) n] Cons.prems(2)
    show "dadd (omap_get_zero al (ma_strategy_order_id (as ! n))) (ps ! n) = Ok (omap_get_zero al' (ma_strategy_order_id (as ! n)))"
      by simp
  qed (use Cons.hyps in simp)
  moreover have "omap_get_zero al' (ma_strategy_order_id a) = now" using IH(2) [OF fresh] Cons.prems(2) by simp
  ultimately show ?case using IH(1,2) now Cons.prems(2) by simp
qed simp

lemma whole_subs:
  assumes "list_all2 whole_amt (map h as) xs" "list_all2 whole_amt (map g as) gs"
    "list_all2 (\<lambda>g x. 0 \<le> g \<and> g \<le> x) gs xs" "\<forall>x \<in> set xs. x < 10 ^ 28"
    "\<And>a. f a = dsub (h a) (g a)" "map_r f as = Ok ls"
  shows "list_all2 whole_amt ls (map2 (-) xs gs)"
proof -
  have f: "list_all2 (\<lambda>a l. f a = Ok l) as ls" using assms(6) by (simp add: map_r_Ok_iff)
  show ?thesis
  proof (rule list_all2_all_nthI)
    have len: "length as = length ls" "length as = length xs" "length as = length gs"
      using f assms(1,2) by (auto dest: list_all2_lengthD)
    then show "length ls = length (map2 (-) xs gs)" by simp
    fix n assume "n < length ls"
    then have n: "n < length as" "n < length xs" "n < length gs" using len by simp_all
    have "whole_amt (h (as ! n)) (xs ! n)" "whole_amt (g (as ! n)) (gs ! n)" "0 \<le> gs ! n" "gs ! n \<le> xs ! n" "xs ! n < 10 ^ 28"
      using list_all2_nthD2 [OF assms(1) n(2)] list_all2_nthD2 [OF assms(2) n(3)] list_all2_nthD2 [OF assms(3) n(2)] assms(4) n by auto
    moreover have "f (as ! n) = Ok (ls ! n)" using list_all2_nthD [OF f n(1)] .
    ultimately show "whole_amt (ls ! n) (map2 (-) xs gs ! n)"
      using whole_sub [of "h (as ! n)" "xs ! n" "g (as ! n)" "gs ! n"] assms(5) n by auto
  qed
qed

lemma sum_map2_minus: "length xs = length gs \<Longrightarrow> sum_list (map2 (-) xs gs) = sum_list xs - (sum_list gs :: int)"
  by (induction xs gs rule: list_induct2) simp_all

text \<open>The fill of a ticket: what the handler did when it answered.\<close>

lemma mirror_on_fill_Ok:
  assumes "mirror_on_fill s fl = Ok s'"
  obtains (replay) t where "ticket s (mf_ticket_key fl) = Ok t" "s' = s" "mval (mf_filled fl) = mval (mt_filled t)"
  | (fill) t lacking whole amount pieces al bk where "ticket s (mf_ticket_key fl) = Ok t"
      "mval (mt_filled t) < mval (mf_filled fl)" "mval (mf_filled fl) \<le> mval (mq_quantity (mt_queued t))"
      "map_r (lacking_of (mt_allocated t)) (allocs_of t) = Ok lacking"
      "dsub (mq_quantity (mt_queued t)) (mt_filled t) = Ok whole" "dsub (mf_filled fl) (mt_filled t) = Ok amount"
      "pro_rata lacking whole amount = Ok pieces"
      "fold_r (book_piece (mt_queued t)) (mt_allocated t, ms_book s) (zip (allocs_of t) pieces) = Ok (al, bk)"
      "s' = s\<lparr>ms_tickets := omap_get_mut (\<lambda>t. t\<lparr>mt_filled := mf_filled fl, mt_avg_price := Some (mf_avg_price fl),
           mt_allocated := al\<rparr>) (ms_tickets s) (mf_ticket_key fl), ms_book := bk\<rparr>"
proof -
  obtain t where t: "ticket s (mf_ticket_key fl) = Ok t" using assms by (auto simp: mirror_on_fill_def)
  show ?thesis
  proof (cases "mval (mf_filled fl) = mval (mt_filled t)")
    case True
    with assms t show ?thesis by (intro replay [OF t]) (auto simp: mirror_on_fill_def Let_def split: if_splits)
  next
    case False
    with assms t show ?thesis
      by (auto simp: mirror_on_fill_def Let_def allocs_of_def split: if_splits intro!: fill [OF t])
  qed
qed

text \<open>The numbers of one fill: adding a split of what is lacking to what was given.\<close>

lemma add_split:
  assumes G: "list_all2 whole_amt Gs gs" "list_all2 (\<lambda>g x. 0 \<le> g \<and> g \<le> x) gs xs" "\<forall>x \<in> set xs. x < 10 ^ 28"
    and P: "list_all2 whole_amt Ps ps" "is_split (map2 (-) xs gs) w a ps" "0 < w" "0 \<le> a"
    and H: "length Hs = length Gs" "\<And>i. i < length Gs \<Longrightarrow> dadd (Gs ! i) (Ps ! i) = Ok (Hs ! i)"
  shows "list_all2 whole_amt Hs (map2 (+) gs ps) \<and> list_all2 (\<lambda>g x. 0 \<le> g \<and> g \<le> x) (map2 (+) gs ps) xs
    \<and> sum_list (map2 (+) gs ps) = sum_list gs + a"
proof -
  have len: "length gs = length Gs" "length xs = length Gs" "length ps = length Gs" "length Ps = length Gs"
    using G(1,2) P(1,2) by (auto simp: is_split_def dest!: list_all2_lengthD)
  have bound: "0 \<le> gs ! i" "0 \<le> ps ! i" "gs ! i + ps ! i \<le> xs ! i" if i: "i < length Gs" for i
  proof -
    have g: "0 \<le> gs ! i" "gs ! i \<le> xs ! i" using list_all2_nthD [OF G(2), of i] len i by simp_all
    have "(xs ! i - gs ! i) * a div w \<le> ps ! i \<and> ps ! i \<le> xs ! i - gs ! i"
      using P(2) i len unfolding is_split_def by (auto simp: list_all2_conv_all_nth)
    moreover have "0 \<le> (xs ! i - gs ! i) * a div w" using g P(3,4) by (simp add: pos_imp_zdiv_nonneg_iff)
    ultimately show "0 \<le> gs ! i" "0 \<le> ps ! i" "gs ! i + ps ! i \<le> xs ! i" using g by linarith+
  qed
  have "list_all2 whole_amt Hs (map2 (+) gs ps)"
  proof (rule list_all2_all_nthI)
    fix i assume "i < length Hs"
    then have i: "i < length Gs" using H(1) by simp
    have "whole_amt (Gs ! i) (gs ! i)" "whole_amt (Ps ! i) (ps ! i)"
      using list_all2_nthD [OF G(1) i] list_all2_nthD [OF P(1), of i] i len by simp_all
    moreover have "xs ! i < 10 ^ 28" using G(3) i len by simp
    then have "\<bar>gs ! i + ps ! i\<bar> < 10 ^ 28" using bound [OF i] by linarith
    ultimately show "whole_amt (Hs ! i) (map2 (+) gs ps ! i)" using whole_add H(2) [OF i] i len by fastforce
  qed (use H len in simp)
  moreover have "list_all2 (\<lambda>g x. 0 \<le> g \<and> g \<le> x) (map2 (+) gs ps) xs"
    by (rule list_all2_all_nthI) (use bound len in auto)
  moreover have "length gs = length ps" using len by simp
  then have "sum_list (map2 (+) gs ps) = sum_list gs + sum_list ps" by (induction gs ps rule: list_induct2) simp_all
  ultimately show ?thesis using P(2) by (simp add: is_split_def)
qed

lemma ticket_ok_numbers:
  assumes "ticket_ok t"
  obtains xs gs w f where "list_all2 whole_amt (map ma_quantity (allocs_of t)) xs" "sum_list xs = w"
    "whole_amt (mq_quantity (mt_queued t)) w" "w < 10 ^ 13" "\<forall>x \<in> set xs. x < 10 ^ 28"
    "list_all2 whole_amt (map (given t) (allocs_of t)) gs" "list_all2 (\<lambda>g x. 0 \<le> g \<and> g \<le> x) gs xs"
    "whole_amt (mt_filled t) f" "sum_list gs = f" "0 \<le> f" "f \<le> w"
proof -
  obtain w where w: "whole_amt (mq_quantity (mt_queued t)) w" "0 < w" "w < 10 ^ 13"
    using assms by (auto simp: ticket_ok_def queued_ok_def)
  obtain xs gs f where xs: "list_all2 whole_amt (map ma_quantity (allocs_of t)) xs"
    and gs: "list_all2 whole_amt (map (given t) (allocs_of t)) gs" "list_all2 (\<lambda>g x. 0 \<le> g \<and> g \<le> x) gs xs"
    and f: "whole_amt (mt_filled t) f" "sum_list gs = f"
    using assms by (auto simp: ticket_ok_def)
  have sxs: "sum_list xs = w" "\<forall>x \<in> set xs. 0 \<le> x"
    using assms xs w(1) list_all2_whole_fun whole_amt_fun unfolding ticket_ok_def queued_ok_def allocs_of_def by metis+
  have "x < 10 ^ 28" if "x \<in> set xs" for x
  proof -
    have "x \<le> w" using sxs that member_le_sum_list by metis
    then show ?thesis using w(3) by simp
  qed
  moreover have "0 \<le> f" using gs(2) unfolding f(2) [symmetric]
    by (intro sum_list_nonneg) (auto simp: list_all2_conv_all_nth in_set_conv_nth)
  moreover have "sum_list gs \<le> sum_list xs" using gs(2) by (induction rule: list_all2_induct) simp_all
  ultimately show ?thesis using that [of xs w gs f] xs sxs w gs f by simp
qed

lemma fill_amounts:
  assumes t: "ticket_ok t" and new: "whole_amt (mf_filled fl) n" "mval (mt_filled t) < mval (mf_filled fl)"
      "mval (mf_filled fl) \<le> mval (mq_quantity (mt_queued t))"
    and steps: "map_r (lacking_of (mt_allocated t)) (allocs_of t) = Ok lacking"
      "dsub (mq_quantity (mt_queued t)) (mt_filled t) = Ok whole" "dsub (mf_filled fl) (mt_filled t) = Ok amount"
      "pro_rata lacking whole amount = Ok pieces"
      "fold_r (book_piece (mt_queued t)) (mt_allocated t, bk) (zip (allocs_of t) pieces) = Ok (al, bk')"
  shows "ticket_ok (t\<lparr>mt_filled := mf_filled fl, mt_avg_price := p, mt_allocated := al\<rparr>)"
proof -
  obtain xs gs w f where xs: "list_all2 whole_amt (map ma_quantity (allocs_of t)) xs" "sum_list xs = w"
    and w: "whole_amt (mq_quantity (mt_queued t)) w" "w < 10 ^ 13" "\<forall>x \<in> set xs. x < 10 ^ 28"
    and gs: "list_all2 whole_amt (map (given t) (allocs_of t)) gs" "list_all2 (\<lambda>g x. 0 \<le> g \<and> g \<le> x) gs xs"
    and f: "whole_amt (mt_filled t) f" "sum_list gs = f" "0 \<le> f" "f \<le> w"
    by (rule ticket_ok_numbers [OF t])
  have fn: "f < n" "n \<le> w" using new w(1) f(1) by (simp_all add: whole_amt_def)
  have lens: "length xs = length gs" using gs(2) by (simp add: list_all2_lengthD)
  have lack: "list_all2 whole_amt lacking (map2 (-) xs gs)"
    by (rule whole_subs [OF xs(1) gs w(3) _ steps(1)]) (simp add: lacking_of_def given_def)
  have W: "whole_amt whole (w - f)" using whole_sub [OF w(1) f(1)] steps(2) w fn f by auto
  have A: "whole_amt amount (n - f)" using whole_sub [OF new(1) f(1)] steps(3) w fn f by auto
  have nn: "\<forall>y \<in> set (map2 (-) xs gs). 0 \<le> y" using gs(2) by (auto simp: list_all2_conv_all_nth set_zip)
  obtain ps where ps: "list_all2 whole_amt pieces ps" "is_split (map2 (-) xs gs) (w - f) (n - f) ps"
    using pro_rata_split [OF lack W A _ _ _ _ nn] fn f w xs(2) sum_map2_minus [OF lens] steps(4) by auto
  have len: "length (allocs_of t) = length pieces"
    using ps xs lens by (auto simp: is_split_def dest!: list_all2_lengthD)
  have dist: "distinct (map ma_strategy_order_id (allocs_of t))" and inv: "omap_inv (mt_allocated t)"
    using t by (auto simp: ticket_ok_def queued_ok_def allocs_of_def)
  let ?t = "t\<lparr>mt_filled := mf_filled fl, mt_avg_price := p, mt_allocated := al\<rparr>"
  note al = book_pieces_given [OF len steps(5) inv dist]
  have "dadd (map (given t) (allocs_of t) ! i) (pieces ! i) = Ok (map (given ?t) (allocs_of t) ! i)"
    if "i < length (map (given t) (allocs_of t))" for i
    using al [THEN conjunct2, THEN conjunct2] that by (auto simp: given_def list_all2_conv_all_nth)
  from add_split [OF gs w(3) ps _ _ _ this] fn f(2)
  have "list_all2 whole_amt (map (given ?t) (allocs_of t)) (map2 (+) gs ps)
      \<and> list_all2 (\<lambda>g x. 0 \<le> g \<and> g \<le> x) (map2 (+) gs ps) xs \<and> sum_list (map2 (+) gs ps) = n" by simp
  with t xs new(1) al show ?thesis
    unfolding ticket_ok_def
    by (intro conjI exI [of _ xs] exI [of _ "map2 (+) gs ps"] exI [of _ n]) (simp_all add: allocs_of_def)
qed

subsection \<open>The invariant of the mirror\<close>

definition ids_of :: "mirror_ticket_state \<Rightarrow> string set" where
  "ids_of t = ma_strategy_order_id ` set (allocs_of t)"

text \<open>
  Every ticket is filed under its key and its numbers hold; a strategy order is mapped to a ticket
  exactly when that ticket allocates it (so it is on one ticket at most); none is also refused.
\<close>

definition mirror_ok :: "mirror_state \<Rightarrow> bool" where
  "mirror_ok m \<longleftrightarrow> mirror_wf m
     \<and> (\<forall>k t. omap_get (ms_tickets m) k = Some t \<longrightarrow> ticket_ok t \<and> mq_ticket_key (mt_queued t) = k)
     \<and> (\<forall>i k. omap_get (ms_queued_orders m) i = Some k
          \<longleftrightarrow> (\<exists>t. omap_get (ms_tickets m) k = Some t \<and> i \<in> ids_of t))
     \<and> (\<forall>i. omap_get (ms_queued_orders m) i \<noteq> None \<longrightarrow> omap_get (ms_refused_orders m) i = None)"

lemma mirror_ok_empty: "mirror_ok mirror_empty"
  by (simp add: mirror_ok_def mirror_wf_def mirror_empty_def)

lemma omap_get_puts:
  "omap_inv m \<Longrightarrow> omap_get (foldl (\<lambda>m a. omap_put m (f a) v) m xs) k = (if k \<in> f ` set xs then Some v else omap_get m k)"
  by (induction xs arbitrary: m) (auto simp: omap_get_put)

lemma alloc_free_all:
  "fold_r (\<lambda>_ a. alloc_free s a) u as = Ok u' \<Longrightarrow> \<forall>a \<in> set as.
     omap_get (ms_queued_orders s) (ma_strategy_order_id a) = None \<and> omap_get (ms_refused_orders s) (ma_strategy_order_id a) = None"
  by (induction as arbitrary: u) (auto simp: alloc_free_def Let_def omap_contains_get split: if_splits)

lemma on_queued_Ok:
  assumes "on_queued x s q = Ok s'"
  obtains (replay) "s' = s" | (new) "omap_get (ms_tickets s) (mq_ticket_key q) = None"
    "\<forall>i \<in> ma_strategy_order_id ` set (mq_allocations q).
       omap_get (ms_queued_orders s) i = None \<and> omap_get (ms_refused_orders s) i = None"
    "s' = s\<lparr>ms_queued_orders := foldl (\<lambda>m a. omap_put m (ma_strategy_order_id a) (mq_ticket_key q))
           (ms_queued_orders s) (mq_allocations q),
         ms_venue := Some (mq_venue q), ms_tickets := omap_put (ms_tickets s) (mq_ticket_key q) (ticket_new q)\<rparr>"
proof (cases "omap_get (ms_tickets s) (mq_ticket_key q)")
  case None
  with assms show ?thesis by (intro new) (auto simp: on_queued_def dest: alloc_free_all)
next
  case (Some t)
  with assms show ?thesis by (intro replay) (auto simp: on_queued_def split: if_splits)
qed

lemma on_queued_mirror_ok:
  assumes "on_queued x s q = Ok s'" "mirror_ok s" "queued_ok q"
  shows "mirror_ok s'"
  using assms(1)
proof (cases rule: on_queued_Ok)
  case replay
  then show ?thesis using assms(2) by simp
next
  case new
  note s = assms(2) [unfolded mirror_ok_def]
  have inv: "omap_inv (ms_tickets s)" "omap_inv (ms_queued_orders s)" using s by (auto simp: mirror_wf_def)
  have ids: "ids_of (ticket_new q) = ma_strategy_order_id ` set (mq_allocations q)"
    by (simp add: ids_of_def allocs_of_def ticket_new_def)
  have k: "mq_ticket_key (mt_queued (ticket_new q)) = mq_ticket_key q" by (simp add: ticket_new_def)
  have qo: "omap_get (ms_queued_orders s') i =
      (if i \<in> ids_of (ticket_new q) then Some (mq_ticket_key q) else omap_get (ms_queued_orders s) i)" for i
    using new(3) inv ids by (simp add: omap_get_puts)
  have ti: "omap_get (ms_tickets s') k' = (if k' = mq_ticket_key q then Some (ticket_new q) else omap_get (ms_tickets s) k')" for k'
    using new(3) inv by (simp add: omap_get_put)
  have r: "ms_refused_orders s' = ms_refused_orders s" using new(3) by simp
  show ?thesis unfolding mirror_ok_def
  proof (intro conjI allI)
    show "mirror_wf s'" using on_queued_wf [OF assms(1)] s by blast
    fix i key
    show "omap_get (ms_tickets s') key = Some t \<longrightarrow> ticket_ok t \<and> mq_ticket_key (mt_queued t) = key" for t
      using s ticket_new_ok [OF assms(3)] k by (auto simp: ti)
    have old: "omap_get (ms_queued_orders s) i = Some key \<longleftrightarrow> (\<exists>t. omap_get (ms_tickets s) key = Some t \<and> i \<in> ids_of t)"
      using s by blast
    have "omap_get (ms_queued_orders s) i = None" if "i \<in> ids_of (ticket_new q)" using new(2) ids that by blast
    then show "omap_get (ms_queued_orders s') i = Some key \<longleftrightarrow> (\<exists>t. omap_get (ms_tickets s') key = Some t \<and> i \<in> ids_of t)"
      using old new(1) unfolding ti qo by (cases "i \<in> ids_of (ticket_new q)"; cases "key = mq_ticket_key q") auto
    show "omap_get (ms_queued_orders s') i \<noteq> None \<longrightarrow> omap_get (ms_refused_orders s') i = None"
      using s new(2) ids by (auto simp: qo r)
  qed
qed

lemma on_refused_mirror_ok:
  assumes "on_refused s r = Ok s'" "mirror_ok s"
  shows "mirror_ok s'"
proof -
  have wf: "mirror_wf s'" using on_refused_wf assms by (auto simp: mirror_ok_def)
  have inv: "omap_inv (ms_refused_orders s)" using assms(2) by (simp add: mirror_ok_def mirror_wf_def)
  consider "s' = s" | "omap_get (ms_queued_orders s) (mr_strategy_order_id r) = None"
      "s' = s\<lparr>ms_refused_orders := omap_put (ms_refused_orders s) (mr_strategy_order_id r) (mr_reason r),
                ms_venue := Some (mr_venue r)\<rparr>"
    using assms(1) by (auto simp: on_refused_def Let_def split: if_splits)
  then show ?thesis
  proof cases
    case 2
    have "omap_get (ms_queued_orders s) i \<noteq> None \<longrightarrow> omap_get (ms_refused_orders s') i = None" for i
      using assms(2) 2 inv by (auto simp: mirror_ok_def omap_get_put simp del: not_None_eq)
    with wf assms(2) 2 show ?thesis by (simp add: mirror_ok_def del: not_None_eq)
  qed (use assms in simp)
qed

text \<open>A change to one ticket that keeps its contents.\<close>

lemma mirror_ok_ticket:
  assumes "mirror_ok s" "mirror_wf s'" "ticket s k = Ok t"
    "ms_tickets s' = omap_get_mut f (ms_tickets s) k" "ticket_ok (f t)" "mt_queued (f t) = mt_queued t"
    "ms_queued_orders s' = ms_queued_orders s" "ms_refused_orders s' = ms_refused_orders s"
  shows "mirror_ok s'"
proof -
  have t: "omap_get (ms_tickets s) k = Some t" using assms(3) by (auto simp: ticket_def split: option.splits)
  have inv: "omap_inv (ms_tickets s)" using assms(1) by (simp add: mirror_ok_def mirror_wf_def)
  have ti: "omap_get (ms_tickets s') k' = (if k' = k then Some (f t) else omap_get (ms_tickets s) k')" for k'
    using assms(4) t inv by (simp add: omap_get_get_mut)
  have ids: "ids_of (f t) = ids_of t" using assms(6) by (simp add: ids_of_def allocs_of_def)
  show ?thesis unfolding mirror_ok_def
  proof (intro conjI allI)
    note s = assms(1) [unfolded mirror_ok_def]
    show "mirror_wf s'" by (rule assms(2))
    fix i key
    show "omap_get (ms_tickets s') key = Some u \<longrightarrow> ticket_ok u \<and> mq_ticket_key (mt_queued u) = key" for u
      using s t assms(5,6) unfolding ti by auto
    have "omap_get (ms_queued_orders s) i = Some key \<longleftrightarrow> (\<exists>t. omap_get (ms_tickets s) key = Some t \<and> i \<in> ids_of t)"
      using s by blast
    then show "omap_get (ms_queued_orders s') i = Some key \<longleftrightarrow> (\<exists>t. omap_get (ms_tickets s') key = Some t \<and> i \<in> ids_of t)"
      using t ids unfolding ti assms(7) by auto
    show "omap_get (ms_queued_orders s') i \<noteq> None \<longrightarrow> omap_get (ms_refused_orders s') i = None"
      using s unfolding assms(7,8) by blast
  qed
qed

lemma on_ack_mirror_ok:
  assumes "on_ack s a = Ok s'" "mirror_ok s"
  shows "mirror_ok s'"
proof -
  obtain t f where t: "ticket s (ak_ticket_key a) = Ok t" and f: "ms_tickets s' = omap_get_mut f (ms_tickets s) (ak_ticket_key a)"
    "\<And>t. mt_queued (f t) = mt_queued t" "\<And>t. mt_allocated (f t) = mt_allocated t" "\<And>t. mt_filled (f t) = mt_filled t"
    "ms_queued_orders s' = ms_queued_orders s" "ms_refused_orders s' = ms_refused_orders s"
    using assms(1) by (auto simp: on_ack_def Let_def)
  have "omap_get (ms_tickets s) (ak_ticket_key a) = Some t" using t by (auto simp: ticket_def split: option.splits)
  then have "ticket_ok t" using assms(2) by (simp add: mirror_ok_def)
  moreover have "given (f t) = given t" by (rule ext) (simp add: given_def f)
  ultimately have "ticket_ok (f t)" by (simp add: ticket_ok_def f allocs_of_def)
  with mirror_ok_ticket [OF assms(2) on_ack_wf [OF assms(1)] t f(1)] f assms(2) show ?thesis by (simp add: mirror_ok_def)
qed

lemma mirror_on_fill_mirror_ok:
  assumes "mirror_on_fill s fl = Ok s'" "mirror_ok s" "whole_amt (mf_filled fl) n"
  shows "mirror_ok s'"
  using assms(1)
proof (cases rule: mirror_on_fill_Ok)
  case (fill t lacking whole amount pieces al bk)
  have "omap_get (ms_tickets s) (mf_ticket_key fl) = Some t" using fill(1) by (auto simp: ticket_def split: option.splits)
  then have "ticket_ok t" using assms(2) by (simp add: mirror_ok_def)
  note ok = fill_amounts [OF this assms(3) fill(2-8), of "Some (mf_avg_price fl)"]
  show ?thesis
    by (rule mirror_ok_ticket [OF assms(2) _ fill(1), where f = "\<lambda>t. t\<lparr>mt_filled := mf_filled fl,
        mt_avg_price := Some (mf_avg_price fl), mt_allocated := al\<rparr>"])
      (use ok fill(9) assms mirror_on_fill_wf [OF assms(1)] in \<open>simp_all add: mirror_ok_def\<close>)
qed (use assms in simp)

text \<open>The steps of the mirror, over payloads as their constructors build them.\<close>

inductive mirror_tr :: "externals \<Rightarrow> mirror_state \<Rightarrow> mirror_state \<Rightarrow> bool" for x where
  tr_queued: "queued_ok q \<Longrightarrow> on_queued x s q = Ok s' \<Longrightarrow> mirror_tr x s s'"
| tr_refused: "on_refused s r = Ok s' \<Longrightarrow> mirror_tr x s s'"
| tr_ack: "on_ack s a = Ok s' \<Longrightarrow> mirror_tr x s s'"
| tr_fill: "whole_amt (mf_filled fl) n \<Longrightarrow> mirror_on_fill s fl = Ok s' \<Longrightarrow> mirror_tr x s s'"

inductive_cases mirror_trE: "mirror_tr x s s'"

lemma mirror_tr_ok: "mirror_tr x s s' \<Longrightarrow> mirror_ok s \<Longrightarrow> mirror_ok s'"
  by (erule mirror_trE) (blast intro: on_queued_mirror_ok on_refused_mirror_ok on_ack_mirror_ok mirror_on_fill_mirror_ok)+

lemma mirror_reachable_ok: "(mirror_tr x)\<^sup>*\<^sup>* s s' \<Longrightarrow> mirror_ok s \<Longrightarrow> mirror_ok s'"
  by (induction rule: rtranclp_induct) (auto intro: mirror_tr_ok)

end
