(* ===== verification/Samples.thy ===== *)
theory Samples
  imports Fold_Inv Mirror_Inv "HOL-Library.Code_Target_Numeral"
begin

section \<open>Concrete inputs\<close>

text \<open>
  An instance of the code outside the repository (the Gregorian day count of \<open>chrono\<close>, the
  upper-casing of ASCII letters, the decimal parser and printer), a small account with one limit
  order and a log of it, on which the hypotheses of the properties are evaluated.
\<close>

definition greg_days :: "naive_date \<Rightarrow> int" where
  "greg_days d = (let y = nd_year d - 1 in
     365 * y + y div 4 - y div 100 + y div 400 + sum_list (map int (take (nd_month d - 1)
       [31, if nd_year d mod 4 = 0 \<and> (nd_year d mod 100 \<noteq> 0 \<or> nd_year d mod 400 = 0) then 29 else 28,
        31, 30, 31, 30, 31, 31, 30, 31, 30, 31])) + int (nd_day d))"

definition greg_valid :: "naive_date \<Rightarrow> bool" where
  "greg_valid d \<longleftrightarrow> 1 \<le> nd_month d \<and> nd_month d \<le> 12 \<and> 1 \<le> nd_day d \<and> nd_day d \<le> days_in_month (nd_year d) (nd_month d)"

text \<open>Dates by counting months from December 1999.\<close>

function seek_date :: "int \<Rightarrow> nat \<Rightarrow> nat \<Rightarrow> naive_date" where
  "seek_date y m k =
     (if k \<le> days_in_month y m then \<lparr>nd_year = y, nd_month = m, nd_day = k\<rparr>
      else if m < 12 then seek_date y (m + 1) (k - days_in_month y m)
      else seek_date (y + 1) 1 (k - days_in_month y m))"
  by pat_completeness auto
termination by (relation "measure (\<lambda>(y, m, k). k)") (auto simp: days_in_month_def split: if_splits)

declare seek_date.simps [simp del]

definition greg_base :: naive_date where "greg_base = \<lparr>nd_year = 1999, nd_month = 12, nd_day = 1\<rparr>"

definition greg_date :: "int \<Rightarrow> naive_date option" where
  "greg_date n = (if n < greg_days greg_base then None
     else Some (seek_date 1999 12 (nat (n - greg_days greg_base) + 1)))"

definition greg_weekday :: "naive_date \<Rightarrow> nat" where
  "greg_weekday d = nat ((greg_days d - 1) mod 7)"

definition greg_nth :: "int \<Rightarrow> nat \<Rightarrow> nat \<Rightarrow> nat \<Rightarrow> naive_date option" where
  "greg_nth y m wd n =
     (let d = \<lparr>nd_year = y, nd_month = m,
                nd_day = 1 + (wd + 7 - greg_weekday \<lparr>nd_year = y, nd_month = m, nd_day = 1\<rparr>) mod 7 + 7 * (n - 1)\<rparr>
      in if n \<noteq> 0 \<and> greg_valid d then Some d else None)"

text \<open>New York on standard time.\<close>

definition sample_ext :: externals where
  "sample_ext = \<lparr>uni_upper = (\<lambda>c. if 97 \<le> c \<and> c \<le> 122 then [c - 32] else [c]), days_from_ce = greg_days,
     from_str_exact = money_parse, from_scientific = money_parse,
     rd_checked_add = (\<lambda>a b. case money_add a b of Ok m \<Rightarrow> Some m | Err _ \<Rightarrow> None),
     rd_checked_sub = (\<lambda>a b. case money_sub a b of Ok m \<Rightarrow> Some m | Err _ \<Rightarrow> None),
     rd_rescale = (\<lambda>m n. m), rd_to_string = canon, ymd_valid = greg_valid, date_of_ce = greg_date,
     date_add = (\<lambda>d n. greg_date (greg_days d + n)), nd_weekday = greg_weekday, nth_weekday_of = greg_nth,
     utc_in_range = (\<lambda>t. True), ny_single = (\<lambda>d s. Some ((greg_days d - 719163) * 86400 + int s + 18000)),
     ny_local = (\<lambda>t. (the (greg_date ((t - 18000) div 86400 + 719163)), nat ((t - 18000) mod 86400)))\<rparr>"

text \<open>The amount \<open>m / 10 ^ s\<close>.\<close>

definition usd :: "nat \<Rightarrow> nat \<Rightarrow> money" where "usd m s = \<lparr>neg_bit = False, mantissa = m, scale = s\<rparr>"

definition noon :: date_time where
  "noon = \<lparr>dt_date = \<lparr>nd_year = 2024, nd_month = 3, nd_day = 1\<rparr>, dt_sod = 43200, dt_us = 0, dt_off = 0\<rparr>"

definition s_order :: order where
  "s_order = \<lparr>o_order_id = ''o1'', o_account_id = ''acc'', o_instrument = Equity ''AAPL'', o_order_type = Limit,
     o_side = Buy, o_quantity = usd 10 0, o_command_id = ''c1'', o_created_at = noon, o_limit_price = Some (usd 101 0),
     o_stop_price = None, o_trail_amount = None, o_tif = Day, o_state = New, o_parent_order_id = None, o_oco_group = None\<rparr>"

definition s_fill :: "string \<Rightarrow> nat \<Rightarrow> nat \<Rightarrow> fill" where
  "s_fill i q p = \<lparr>f_fill_id = i, f_order_id = ''o1'', f_account_id = ''acc'', f_instrument = Equity ''AAPL'',
     f_quantity = usd q 0, f_price = usd p 0, f_venue_env = ''sim'', f_filled_at = noon, f_side = Buy, f_fee = usd 5 1,
     f_leg_id = None, f_venue_order_id = None, f_venue_execution_id = None\<rparr>"

definition s_change :: order_state_change where
  "s_change = \<lparr>sc_order_id = ''o1'', sc_reason = None, sc_venue_order_id = None\<rparr>"

definition s_event :: "int \<Rightarrow> event_kind \<Rightarrow> obj \<Rightarrow> event" where
  "s_event n k p = \<lparr>ev_account = ''acc'', ev_kind = k, ev_payload = p, ev_ts_utc = noon, ev_command_id = None,
     ev_schema_version = 1, ev_seq = Some n\<rparr>"

text \<open>The order is submitted and filled by four, the log out of order; or submitted and cancelled.\<close>

definition s_submit :: event where "s_submit = s_event 1 KOrderSubmitted (OOrder s_order)"
definition s_fill4 :: event where "s_fill4 = s_event 2 KFill (OFill (s_fill ''f1'' 4 100))"
definition s_cancel :: event where "s_cancel = s_event 2 KOrderCancelled (OStateChange s_change)"
definition s_mark :: event where
  "s_mark = s_event 3 KMark (OMark \<lparr>mk_instrument = Equity ''AAPL'', mk_price = usd 102 0, mk_as_of = noon, mk_source = None\<rparr>)"

definition s_log :: "event list" where
  "s_log = [s_fill4, s_submit]"

text \<open>The account after the submission.\<close>

definition s_open :: account_state where
  "s_open = (account_new ''acc'')\<lparr>a_orders := omap_put omap_new ''o1'' (s_order\<lparr>o_state := Submitted\<rparr>), a_last_seq := 1\<rparr>"

lemma s_submit_step: "apply_event sample_ext (account_new ''acc'') s_submit = Ok s_open"
  by (simp add: apply_event_def dispatch_def s_submit_def s_event_def on_order_submitted_def s_order_def transition_to_def
      validate_transition_def s_open_def account_new_def)

text \<open>The account after the fill, as far as the witnesses read it.\<close>

definition s_partial :: account_state where
  "s_partial = (case apply_event sample_ext s_open s_fill4 of Ok st \<Rightarrow> st | Err _ \<Rightarrow> s_open)"

lemma s_fill_step: "apply_event sample_ext s_open s_fill4 = Ok s_partial"
proof -
  have "is_ok (apply_event sample_ext s_open s_fill4)" by code_simp
  then show ?thesis by (auto simp: s_partial_def is_ok_iff)
qed

lemma s_partial_cash: "a_cash s_partial = \<lparr>neg_bit = True, mantissa = 4005, scale = 1\<rparr>"
  by code_simp

text \<open>The account after the cancellation, and after a mark that follows it.\<close>

definition s_done :: account_state where
  "s_done = s_open\<lparr>a_orders := omap_put (a_orders s_open) ''o1'' (s_order\<lparr>o_state := Cancelled\<rparr>), a_last_seq := 2\<rparr>"

lemma s_cancel_step: "apply_event sample_ext s_open s_cancel = Ok s_done"
  by (simp add: apply_event_def dispatch_def s_cancel_def s_event_def on_state_change_def on_order_state_def require_order_def
      s_order_def transition_to_def validate_transition_def s_open_def s_done_def s_change_def note_venue_order_id_def
      omap_get_put)

definition s_marked :: account_state where
  "s_marked = s_done\<lparr>a_marks := omap_insert (a_marks s_done) (instr_hk (Equity ''AAPL'')) (Equity ''AAPL'') (usd 102 0),
     a_last_seq := 3\<rparr>"

lemma s_mark_step: "apply_event sample_ext s_done s_mark = Ok s_marked"
  by (simp add: apply_event_def dispatch_def s_mark_def s_event_def s_marked_def)

lemma s_log_ordered: "ordered s_log = [s_submit, s_fill4]"
  by (simp add: ordered_def s_log_def s_fill4_def s_submit_def s_event_def)

lemma s_account: "ev_account s_submit = ''acc''" "ev_account s_fill4 = ''acc''" "ev_seq s_submit = Some 1" "ev_seq s_fill4 = Some 2"
  by (simp_all add: s_submit_def s_fill4_def s_event_def)

lemma s_log_fold: "fold_account sample_ext s_log ''acc'' = Ok s_partial"
proof -
  have sub: "filter (\<lambda>e. ev_account e = ''acc'') (ordered s_log) = [s_submit, s_fill4]"
    by (simp add: s_log_ordered s_account)
  have again: "ordered [s_submit, s_fill4] = [s_submit, s_fill4]" by (simp add: ordered_def s_account)
  have "fold_r (apply_event sample_ext) (account_of omap_new ''acc'') [s_submit, s_fill4] = Ok s_partial"
    by (simp add: account_of_def s_submit_step s_fill_step)
  from fold_single [OF omap_inv_new _ this] obtain states
    where "fold_r (fold_step sample_ext) omap_new [s_submit, s_fill4] = Ok states" "account_of states ''acc'' = s_partial"
    by (auto simp: s_account)
  then show ?thesis
    unfolding fold_account_def fold_refs_def sub again by (auto simp: account_of_def)
qed

lemma s_log_all: "\<exists>states. fold_log sample_ext s_log = Ok states \<and> account_of states ''acc'' = s_partial"
proof -
  have "fold_r (apply_event sample_ext) (account_of omap_new ''acc'') [s_submit, s_fill4] = Ok s_partial"
    by (simp add: account_of_def s_submit_step s_fill_step)
  from fold_single [OF omap_inv_new _ this] show ?thesis
    by (simp add: fold_log_def fold_refs_def s_log_ordered s_account)
qed

end
