(* ===== verification/Lots_Inv.thy ===== *)
theory Lots_Inv
  imports Lots Grid
begin

section \<open>Closing lots and trading: the reference and the refinement\<close>

text \<open>
  First-in-first-out on rational numbers is the reference: what is left of the lots, and the
  gain of closing them. On quantities and prices that lie on a grid with room the code refines
  it, and answers whenever the lots cover the quantity. The invariant of a position (I2) is that
  its quantity is the signed sum of its open lots, all of one side; every trade keeps it.
\<close>

subsection \<open>Lots\<close>

abbreviation lq :: "lot \<Rightarrow> rat" where "lq l \<equiv> mval (lot_quantity l)"
abbreviation lc :: "lot \<Rightarrow> rat" where "lc l \<equiv> mval (lot_cost_basis l)"

definition lot_wf :: "lot \<Rightarrow> bool" where
  "lot_wf l \<longleftrightarrow> canonical (lot_quantity l) \<and> canonical (lot_cost_basis l) \<and> 0 < lq l \<and> 0 < lc l \<and> lot_id l \<noteq> []"

definition same_terms :: "lot \<Rightarrow> lot \<Rightarrow> bool" where
  "same_terms l l' \<longleftrightarrow> lot_id l = lot_id l' \<and> lot_cost_basis l = lot_cost_basis l'
     \<and> lot_acquired_at l = lot_acquired_at l' \<and> lot_side l = lot_side l'"

lemma make_lot_iff:
  "make_lot i q c t s = Ok l \<longleftrightarrow> i \<noteq> [] \<and> 0 < mval q \<and> 0 < mval c
     \<and> l = \<lparr>lot_id = i, lot_quantity = q, lot_cost_basis = c, lot_acquired_at = t, lot_side = s\<rparr>"
  by (auto simp: make_lot_def nonempty_def guard_r_def le0_def lerr_def)

lemma lot_with_Ok:
  assumes "lot_wf l" "canonical q" "0 < mval q"
  shows "\<exists>l'. lot_with l q = Ok l' \<and> lot_wf l' \<and> same_terms l' l \<and> lot_quantity l' = q"
  using assms by (auto simp: lot_with_def make_lot_iff lot_wf_def same_terms_def)

lemma same_terms_refl [simp]: "same_terms l l"
  by (simp add: same_terms_def)

lemma list_all2_same_terms_refl [simp]: "list_all2 same_terms ls ls"
  by (simp add: list.rel_refl)

subsection \<open>First in, first out\<close>

fun fifo_left :: "rat list \<Rightarrow> rat \<Rightarrow> rat list" where
  "fifo_left [] r = []"
| "fifo_left (q # qs) r = (if r \<le> 0 then q # qs else if q \<le> r then fifo_left qs (r - q) else (q - r) # qs)"

definition gain :: "lot \<Rightarrow> rat \<Rightarrow> rat" where
  "gain l px = (if lot_side l = Buy then px - lc l else lc l - px)"

fun fifo_gain :: "rat \<Rightarrow> lot list \<Rightarrow> rat \<Rightarrow> rat" where
  "fifo_gain px [] r = 0"
| "fifo_gain px (l # ls) r = (if r \<le> 0 then 0 else gain l px * min (lq l) r + fifo_gain px ls (r - lq l))"

lemma fifo_left_none [simp]: "r \<le> 0 \<Longrightarrow> fifo_left qs r = qs"
  by (cases qs) auto

lemma fifo_gain_none [simp]: "r \<le> 0 \<Longrightarrow> fifo_gain px ls r = 0"
  by (cases ls) auto

lemma fifo_left_sum:
  "\<forall>q \<in> set qs. 0 < q \<Longrightarrow> 0 \<le> r \<Longrightarrow> r \<le> sum_list qs \<Longrightarrow> sum_list (fifo_left qs r) = sum_list qs - r"
proof (induction qs arbitrary: r)
  case (Cons q qs)
  show ?case
  proof (cases "0 < r \<and> q \<le> r")
    case True
    then have "sum_list (fifo_left qs (r - q)) = sum_list qs - (r - q)" using Cons by auto
    then show ?thesis using True by simp
  qed (use Cons.prems in auto)
qed simp

lemma fifo_left_pos: "\<forall>q \<in> set qs. 0 < q \<Longrightarrow> q \<in> set (fifo_left qs r) \<Longrightarrow> 0 < q"
  by (induction qs arbitrary: r) (auto split: if_splits)

subsection \<open>Consuming lots\<close>

text \<open>The grid of a book: quantities on \<open>k\<close> decimals up to \<open>B\<close>, prices on \<open>kp\<close> decimals up to \<open>P\<close>.\<close>

definition book_room :: "nat \<Rightarrow> rat \<Rightarrow> nat \<Rightarrow> rat \<Rightarrow> int \<Rightarrow> bool" where
  "book_room k B kp P mult \<longleftrightarrow>
     room k B \<and> room kp P \<and> room (kp + k) (P * B * of_int mult) \<and> 1 \<le> mult \<and> mult < 10 ^ 28 \<and> 0 \<le> B \<and> 0 \<le> P"

definition lot_on :: "nat \<Rightarrow> rat \<Rightarrow> nat \<Rightarrow> rat \<Rightarrow> lot \<Rightarrow> bool" where
  "lot_on k B kp P l \<longleftrightarrow> lot_wf l \<and> grid k B (lq l) \<and> grid kp P (lc l)"

lemma lots_pos: "list_all (lot_on k B kp P) lots \<Longrightarrow> \<forall>q \<in> set (map lq lots). 0 < q"
  by (auto simp: list_all_iff lot_on_def lot_wf_def)

lemma lots_sum_nonneg: "list_all (lot_on k B kp P) lots \<Longrightarrow> 0 \<le> sum_list (map lq lots)"
  using lots_pos by (intro sum_list_nonneg) (force intro: less_imp_le)

lemma book_room_product:
  assumes "book_room k B kp P mult"
  shows "room (kp + k) (P * B)"
proof -
  have "P * B * 1 \<le> P * B * of_int mult" using assms by (intro mult_left_mono) (auto simp: book_room_def)
  then show ?thesis using assms room_mono unfolding book_room_def by fastforce
qed

lemma gain_grid:
  assumes "grid kp P (lc l)" "grid kp P px" "0 \<le> lc l" "0 \<le> px"
  shows "grid kp P (gain l px)"
proof -
  have "grid kp (P + P) (gain l px)" using grid_sub [OF assms(1,2)] grid_sub [OF assms(2,1)] by (simp add: gain_def)
  moreover have "\<bar>gain l px\<bar> \<le> P" using assms by (auto simp: gain_def grid_def)
  ultimately show ?thesis by (rule grid_mono)
qed

lemma close_pnl_exact:
  assumes r: "book_room k B kp P mult" and l: "lot_on k B kp P l"
    and px: "canonical px" "grid kp P (mval px)" "0 \<le> mval px"
    and q: "canonical q" "grid k B (mval q)"
  shows "\<exists>c. close_pnl l q px mult = Ok c \<and> canonical c \<and> mval c = gain l (mval px) * mval q * of_int mult"
proof -
  have g: "grid kp P (gain l (mval px))" using l px by (intro gain_grid) (auto simp: lot_on_def lot_wf_def)
  have lc: "canonical (lot_cost_basis l)" using l by (simp add: lot_on_def lot_wf_def)
  obtain per where per: "(if lot_side l = Buy then dsub px (lot_cost_basis l) else dsub (lot_cost_basis l) px) = Ok per"
      "canonical per" "mval per = gain l (mval px)"
    using dsub_grid [OF px(1) lc, of kp P] dsub_grid [OF lc px(1), of kp P] g r
    by (cases "lot_side l = Buy") (auto simp: gain_def book_room_def)
  have gp: "grid (kp + k) (P * B) (mval per * mval q)" using grid_mult [OF g q(2)] per(3) by simp
  obtain c where c: "dmul per q = Ok c" "canonical c" "mval c = mval per * mval q"
    using dmul_grid [OF per(2) q(1) gp book_room_product [OF r]] by blast
  have "grid (kp + k + 0) (P * B * of_int mult) (mval c * of_int mult)"
    using gp c(3) r by (intro grid_mult grid_int) (auto simp: book_room_def)
  then obtain d where d: "dmul_i c mult = Ok d" "canonical d" "mval d = mval c * of_int mult"
    using dmul_i_grid [OF c(2), of mult "kp + k" "P * B * of_int mult"] r by (auto simp: book_room_def)
  show ?thesis unfolding close_pnl_def per(1) using c d per(3) by simp
qed

lemma consume_loop_rest:
  "mval remaining \<le> 0 \<Longrightarrow> consume_loop lots remaining px mult realized kept = Ok (kept @ lots, remaining, realized)"
  by (induction lots arbitrary: kept) auto

text \<open>One lot of the loop: what it closes, what remains, what is kept of it.\<close>

lemma consume_step:
  assumes r: "room k B" and l: "lot_on k B kp P l"
    and rem: "canonical rem" "grid k B (mval rem)" "0 < mval rem"
  shows "\<exists>cl rem' ls. (if money_le (lot_quantity l) rem
           then and_then (dsub rem (lot_quantity l)) (\<lambda>r. Ok (lot_quantity l, r, kept))
           else and_then (dsub (lot_quantity l) rem) (\<lambda>q. and_then (lot_with l q) (\<lambda>l'. Ok (rem, ZERO, kept @ [l']))))
         = Ok (cl, rem', kept @ ls)
       \<and> canonical cl \<and> grid k B (mval cl) \<and> mval cl = min (lq l) (mval rem)
       \<and> canonical rem' \<and> grid k B (mval rem') \<and> 0 \<le> mval rem' \<and> mval rem' = max 0 (mval rem - lq l)
       \<and> list_all (lot_on k B kp P) ls \<and> list_all2 same_terms ls (if lq l \<le> mval rem then [] else [l])
       \<and> map lq ls = (if lq l \<le> mval rem then [] else [lq l - mval rem])"
proof -
  have lw: "lot_wf l" and lg: "grid k B (lq l)" and cq: "canonical (lot_quantity l)" and q0: "0 < lq l"
    using l by (auto simp: lot_on_def lot_wf_def)
  show ?thesis
  proof (cases "lq l \<le> mval rem")
    case True
    have g: "grid k B (mval rem - lq l)"
      using True q0 rem(2) by (intro grid_mono [OF grid_sub [OF rem(2) lg]]) (auto simp: grid_def)
    then obtain c where "dsub rem (lot_quantity l) = Ok c" "canonical c" "mval c = mval rem - lq l"
      using dsub_grid [OF rem(1) cq _ r] by blast
    with True g cq lg q0 show ?thesis by (intro exI [of _ "lot_quantity l"] exI [of _ c] exI [of _ "[]"]) auto
  next
    case False
    have g: "grid k B (lq l - mval rem)"
      using False rem lg by (intro grid_mono [OF grid_sub [OF lg rem(2)]]) (auto simp: grid_def)
    then obtain c where c: "dsub (lot_quantity l) rem = Ok c" "canonical c" "mval c = lq l - mval rem"
      using dsub_grid [OF cq rem(1) _ r] by blast
    then obtain l' where l': "lot_with l c = Ok l'" "lot_wf l'" "same_terms l' l" "lot_quantity l' = c"
      using lot_with_Ok [OF lw, of c] False by auto
    have "lot_on k B kp P l'" using l l' c g by (auto simp: lot_on_def same_terms_def)
    with False c l' rem show ?thesis
      by (intro exI [of _ rem] exI [of _ ZERO] exI [of _ "[l']"]) (auto simp: grid_def intro: exI [of _ 0])
  qed
qed

lemma pnl_grid:
  assumes r: "book_room k B kp P mult" and l: "lot_on k B kp P l"
    and px: "grid kp P (mval px)" "0 \<le> mval px" and cl: "grid k B q" "0 \<le> q"
  shows "grid (kp + k) (P * q * of_int mult) (gain l (mval px) * q * of_int mult)"
proof -
  have "grid kp P (gain l (mval px))" using l px by (intro gain_grid) (auto simp: lot_on_def lot_wf_def)
  moreover have "grid k q q" using cl by (intro grid_mono [OF cl(1)]) auto
  ultimately have "grid (kp + k) (P * q) (gain l (mval px) * q)" by (rule grid_mult)
  from grid_mult [OF this grid_int [of mult "of_int mult"]] show ?thesis using r by (simp add: book_room_def)
qed

text \<open>One round of the loop with its gain; \<open>D\<close> is what was closed before.\<close>

lemma consume_loop_step:
  assumes r: "book_room k B kp P mult" and px: "canonical px" "grid kp P (mval px)" "0 \<le> mval px"
    and l: "lot_on k B kp P l" and rem: "canonical rem" "grid k B (mval rem)" "0 < mval rem"
    and re: "canonical realized" "grid (kp + k) (P * D * of_int mult) (mval realized)" "0 \<le> D" "D + mval rem \<le> B"
  shows "\<exists>rem' ls realized' D'. consume_loop (l # lots) rem px mult realized kept = consume_loop lots rem' px mult realized' (kept @ ls)
    \<and> canonical rem' \<and> grid k B (mval rem') \<and> 0 \<le> mval rem' \<and> mval rem' = max 0 (mval rem - lq l)
    \<and> list_all (lot_on k B kp P) ls \<and> list_all2 same_terms ls (if lq l \<le> mval rem then [] else [l])
    \<and> map lq ls = (if lq l \<le> mval rem then [] else [lq l - mval rem])
    \<and> canonical realized' \<and> mval realized' = mval realized + gain l (mval px) * min (lq l) (mval rem) * of_int mult
    \<and> grid (kp + k) (P * D' * of_int mult) (mval realized') \<and> 0 \<le> D' \<and> D' + mval rem' \<le> B"
proof -
  obtain cl rem' ls where st:
      "(if money_le (lot_quantity l) rem
           then and_then (dsub rem (lot_quantity l)) (\<lambda>r. Ok (lot_quantity l, r, kept))
           else and_then (dsub (lot_quantity l) rem) (\<lambda>q. and_then (lot_with l q) (\<lambda>l'. Ok (rem, ZERO, kept @ [l']))))
         = Ok (cl, rem', kept @ ls)"
      and cl: "canonical cl" "grid k B (mval cl)" "mval cl = min (lq l) (mval rem)"
      and rem': "canonical rem'" "grid k B (mval rem')" "0 \<le> mval rem'" "mval rem' = max 0 (mval rem - lq l)"
      and ls: "list_all (lot_on k B kp P) ls" "list_all2 same_terms ls (if lq l \<le> mval rem then [] else [l])"
        "map lq ls = (if lq l \<le> mval rem then [] else [lq l - mval rem])"
    using consume_step [of k B kp P l rem kept, OF _ l rem] r unfolding book_room_def by blast
  have cl0: "0 < mval cl" using cl(3) l rem(3) by (simp add: lot_on_def lot_wf_def)
  obtain pnl where pnl: "close_pnl l cl px mult = Ok pnl" "canonical pnl"
      "mval pnl = gain l (mval px) * mval cl * of_int mult"
    using close_pnl_exact [OF r l px cl(1,2)] by blast
  let ?D = "D + mval cl"
  have Dle: "?D + mval rem' \<le> B" using re(4) cl(3) rem'(4) by (auto simp: min_def max_def split: if_splits)
  have g: "grid (kp + k) (P * ?D * of_int mult) (mval realized + mval pnl)"
    using grid_add [OF re(2) pnl_grid [OF r l px(2,3) cl(2)]] cl0 pnl(3) by (simp add: algebra_simps)
  have "P * ?D * of_int mult \<le> P * B * of_int mult"
    using r Dle rem'(3) by (intro mult_right_mono mult_left_mono) (auto simp: book_room_def)
  then have "room (kp + k) (P * ?D * of_int mult)" using r room_mono unfolding book_room_def by blast
  with g obtain realized' where "dadd realized pnl = Ok realized'" "canonical realized'"
      "mval realized' = mval realized + mval pnl"
    using dadd_grid [OF re(1) pnl(2)] by blast
  moreover have "0 \<le> ?D" using re(3) cl0 by simp
  ultimately show ?thesis using rem(3) st pnl(1,3) cl(3) rem' ls g Dle
    by (intro exI [of _ rem'] exI [of _ ls] exI [of _ realized'] exI [of _ ?D]) simp
qed

lemma consume_loop_spec:
  assumes r: "book_room k B kp P mult" and px: "canonical px" "grid kp P (mval px)" "0 \<le> mval px"
    and "list_all (lot_on k B kp P) lots"
    and "canonical rem" "grid k B (mval rem)" "0 \<le> mval rem"
    and "canonical realized" "grid (kp + k) (P * D * of_int mult) (mval realized)" "0 \<le> D" "D + mval rem \<le> B"
  shows "\<exists>ls rem' realized'. consume_loop lots rem px mult realized kept = Ok (kept @ ls, rem', realized')
    \<and> list_all (lot_on k B kp P) ls \<and> map lq ls = fifo_left (map lq lots) (mval rem)
    \<and> (\<exists>n \<le> length lots. list_all2 same_terms ls (drop n lots))
    \<and> canonical rem' \<and> mval rem' = max 0 (mval rem - sum_list (map lq lots))
    \<and> canonical realized' \<and> mval realized' = mval realized + fifo_gain (mval px) lots (mval rem) * of_int mult"
  using assms(5-)
proof (induction lots arbitrary: rem realized kept D)
  case Nil
  then show ?case by auto
next
  case (Cons l lots)
  have l: "lot_on k B kp P l" and lots: "list_all (lot_on k B kp P) lots" using Cons.prems(1) by auto
  have q0: "0 < lq l" using l by (simp add: lot_on_def lot_wf_def)
  note sum0 = lots_sum_nonneg [OF lots]
  show ?case
  proof (cases "0 < mval rem")
    case False
    then have z: "mval rem = 0" using Cons.prems by simp
    have "consume_loop (l # lots) rem px mult realized kept = Ok (kept @ l # lots, rem, realized)"
      using z by (intro consume_loop_rest) simp
    moreover have "\<exists>n \<le> length (l # lots). list_all2 same_terms (l # lots) (drop n (l # lots))"
      by (intro exI [of _ 0]) simp
    ultimately show ?thesis using z Cons.prems(1,2,5) q0 sum0
      by (intro exI [of _ "l # lots"] exI [of _ rem] exI [of _ realized]) auto
  next
    case True
    obtain rem' ls1 realized' D' where
      step: "consume_loop (l # lots) rem px mult realized kept = consume_loop lots rem' px mult realized' (kept @ ls1)"
      and rem': "canonical rem'" "grid k B (mval rem')" "0 \<le> mval rem'" "mval rem' = max 0 (mval rem - lq l)"
      and ls1: "list_all (lot_on k B kp P) ls1" "list_all2 same_terms ls1 (if lq l \<le> mval rem then [] else [l])"
        "map lq ls1 = (if lq l \<le> mval rem then [] else [lq l - mval rem])"
      and re: "canonical realized'" "grid (kp + k) (P * D' * of_int mult) (mval realized')" "0 \<le> D'" "D' + mval rem' \<le> B"
      and gained: "mval realized' = mval realized + gain l (mval px) * min (lq l) (mval rem) * of_int mult"
      using consume_loop_step [OF r px l Cons.prems(2,3) True Cons.prems(5-8), of lots kept] by blast
    obtain ls2 rem2 realized2 where
      eq: "consume_loop lots rem' px mult realized' (kept @ ls1) = Ok ((kept @ ls1) @ ls2, rem2, realized2)"
      and ls2: "list_all (lot_on k B kp P) ls2" "map lq ls2 = fifo_left (map lq lots) (mval rem')"
        "\<exists>n \<le> length lots. list_all2 same_terms ls2 (drop n lots)"
      and fin: "canonical rem2" "mval rem2 = max 0 (mval rem' - sum_list (map lq lots))" "canonical realized2"
        "mval realized2 = mval realized' + fifo_gain (mval px) lots (mval rem') * of_int mult"
      using Cons.IH [OF lots rem'(1,2,3) re, of "kept @ ls1"] by blast
    have suffix: "\<exists>n \<le> length (l # lots). list_all2 same_terms (ls1 @ ls2) (drop n (l # lots))"
    proof (cases "lq l \<le> mval rem")
      case True
      then have "ls1 = []" using ls1(2) by simp
      with ls2(3) show ?thesis by (metis Suc_le_mono append_Nil drop_Suc_Cons length_Cons)
    next
      case False
      then have "mval rem' = 0" using rem'(4) by simp
      then have "length ls2 = length lots" using arg_cong [OF ls2(2), of length] by simp
      moreover obtain n where n: "n \<le> length lots" "list_all2 same_terms ls2 (drop n lots)" using ls2(3) by blast
      ultimately have "n = 0" using list_all2_lengthD [OF n(2)] by simp
      then have "list_all2 same_terms ls2 lots" using n(2) by simp
      with False ls1(2) show ?thesis by (intro exI [of _ 0]) (auto simp: list_all2_Cons2)
    qed
    have left: "map lq (ls1 @ ls2) = fifo_left (map lq (l # lots)) (mval rem)" using True ls1(3) ls2(2) rem'(4) by auto
    have short: "mval rem2 = max 0 (mval rem - sum_list (map lq (l # lots)))" using fin(2) rem'(4) sum0 by auto
    have "fifo_gain (mval px) lots (mval rem') = fifo_gain (mval px) lots (mval rem - lq l)"
      using rem'(4) by (cases "lq l \<le> mval rem") auto
    then have tot: "mval realized2 = mval realized + fifo_gain (mval px) (l # lots) (mval rem) * of_int mult"
      using True fin(4) gained by (simp add: algebra_simps)
    show ?thesis using step eq ls1(1) ls2(1) suffix left short tot fin(1,3)
      by (intro exI [of _ "ls1 @ ls2"] exI [of _ rem2] exI [of _ realized2]) simp
  qed
qed

lemma consume_lots_spec:
  assumes r: "book_room k B kp P mult" and px: "canonical px" "grid kp P (mval px)" "0 \<le> mval px"
    and lots: "list_all (lot_on k B kp P) lots"
    and q: "canonical q" "grid k B (mval q)" "0 \<le> mval q"
  shows "if mval q \<le> sum_list (map lq lots)
    then \<exists>kept pnl. consume_lots lots q px mult = Ok (kept, pnl)
      \<and> list_all (lot_on k B kp P) kept \<and> map lq kept = fifo_left (map lq lots) (mval q)
      \<and> (\<exists>n \<le> length lots. list_all2 same_terms kept (drop n lots))
      \<and> canonical pnl \<and> mval pnl = fifo_gain (mval px) lots (mval q) * of_int mult
    else consume_lots lots q px mult = fe ''Open lots ran short; ledger is inconsistent (I2)''"
proof -
  have qB: "0 + mval q \<le> B" using q(2,3) by (auto simp: grid_def)
  have z: "grid (kp + k) (P * 0 * of_int mult) (mval ZERO)" by simp
  obtain ls rem' realized' where
    "consume_loop lots q px mult ZERO [] = Ok ([] @ ls, rem', realized')"
    and "list_all (lot_on k B kp P) ls" "map lq ls = fifo_left (map lq lots) (mval q)"
      "\<exists>n \<le> length lots. list_all2 same_terms ls (drop n lots)"
      "canonical rem'" "mval rem' = max 0 (mval q - sum_list (map lq lots))"
      "canonical realized'" "mval realized' = mval ZERO + fifo_gain (mval px) lots (mval q) * of_int mult"
    using consume_loop_spec [OF r px lots q canonical_ZERO z order_refl qB, of "[]"] by blast
  then show ?thesis by (auto simp: consume_lots_def)
qed

subsection \<open>Taking lots out\<close>

fun fifo_taken :: "rat list \<Rightarrow> rat \<Rightarrow> rat list" where
  "fifo_taken [] r = []"
| "fifo_taken (q # qs) r = (if r \<le> 0 then [] else min q r # fifo_taken qs (r - q))"

lemma fifo_taken_none [simp]: "r \<le> 0 \<Longrightarrow> fifo_taken qs r = []"
  by (cases qs) auto

lemma fifo_taken_sum:
  "\<forall>q \<in> set qs. 0 < q \<Longrightarrow> 0 \<le> r \<Longrightarrow> sum_list (fifo_taken qs r) = min r (sum_list qs)"
proof (induction qs arbitrary: r)
  case (Cons q qs)
  have s: "0 \<le> sum_list qs" using Cons.prems by (intro sum_list_nonneg) (auto intro: less_imp_le)
  show ?case
  proof (cases "q \<le> r")
    case True
    then have "sum_list (fifo_taken qs (r - q)) = min (r - q) (sum_list qs)" using Cons by auto
    then show ?thesis using True Cons.prems by auto
  next
    case False
    then show ?thesis using Cons.prems s by (cases "r \<le> 0") auto
  qed
qed simp

lemma take_loop_rest:
  "mval remaining \<le> 0 \<Longrightarrow> take_loop lots remaining kept taken = Ok (kept @ lots, taken, remaining)"
  by (induction lots arbitrary: kept) auto

lemma take_loop_step:
  assumes r: "room k B" and l: "lot_on k B kp P l" and rem: "canonical rem" "grid k B (mval rem)" "0 < mval rem"
  shows "\<exists>rem' t ks. take_loop (l # lots) rem kept taken = take_loop lots rem' (kept @ ks) (taken @ [t])
    \<and> canonical rem' \<and> grid k B (mval rem') \<and> mval rem' = max 0 (mval rem - lq l)
    \<and> lot_on k B kp P t \<and> same_terms t l \<and> lq t = min (lq l) (mval rem)
    \<and> list_all (lot_on k B kp P) ks \<and> map lq ks = (if lq l \<le> mval rem then [] else [lq l - mval rem])"
proof -
  have lw: "lot_wf l" and lg: "grid k B (lq l)" and cq: "canonical (lot_quantity l)" and q0: "0 < lq l"
    using l by (auto simp: lot_on_def lot_wf_def)
  let ?part = "if money_lt rem (lot_quantity l) then rem else lot_quantity l"
  have part: "canonical ?part" "grid k B (mval ?part)" "mval ?part = min (lq l) (mval rem)" "0 < mval ?part"
    using rem cq lg q0 by auto
  obtain t where t: "lot_with l ?part = Ok t" "lot_wf t" "same_terms t l" "lot_quantity t = ?part"
    using lot_with_Ok [OF lw part(1,4)] by blast
  have ton: "lot_on k B kp P t" using l t part(2) by (auto simp: lot_on_def same_terms_def)
  have "grid k B (mval rem - mval ?part)"
    using part(3,4) rem(2,3) by (intro grid_mono [OF grid_sub [OF rem(2) part(2)]]) (auto simp: grid_def)
  then obtain rem' where rem': "dsub rem ?part = Ok rem'" "canonical rem'" "mval rem' = mval rem - mval ?part"
    using dsub_grid [OF rem(1) part(1) _ r] by blast
  have g': "grid k B (mval rem')" using rem'(3) part(3,4) rem(2,3)
    by (intro grid_mono [OF grid_sub [OF rem(2) part(2), folded rem'(3)]]) (auto simp: grid_def)
  have max: "mval rem' = max 0 (mval rem - lq l)" using rem'(3) part(3) by auto
  show ?thesis
  proof (cases "mval rem < lq l")
    case True
    have g: "grid k B (lq l - mval rem)"
      using True rem lg by (intro grid_mono [OF grid_sub [OF lg rem(2)]]) (auto simp: grid_def)
    then obtain c where c: "dsub (lot_quantity l) ?part = Ok c" "canonical c" "mval c = lq l - mval rem"
      using dsub_grid [OF cq rem(1) _ r] True by auto
    then obtain l' where l': "lot_with l c = Ok l'" "lot_wf l'" "same_terms l' l" "lot_quantity l' = c"
      using lot_with_Ok [OF lw, of c] True by auto
    have "lot_on k B kp P l'" using l l' c g by (auto simp: lot_on_def same_terms_def)
    with True t rem' g' c l' ton part max rem(3) show ?thesis
      by (intro exI [of _ rem'] exI [of _ t] exI [of _ "[l']"]) (simp add: Let_def)
  next
    case False
    with t rem' g' ton part max rem(3) show ?thesis
      by (intro exI [of _ rem'] exI [of _ t] exI [of _ "[]"]) (simp add: Let_def)
  qed
qed

lemma take_loop_spec:
  assumes r: "room k B" and "list_all (lot_on k B kp P) lots"
    and "canonical rem" "grid k B (mval rem)" "0 \<le> mval rem"
  shows "\<exists>ks ts rem'. take_loop lots rem kept taken = Ok (kept @ ks, taken @ ts, rem')
    \<and> list_all (lot_on k B kp P) ks \<and> list_all (lot_on k B kp P) ts
    \<and> map lq ks = fifo_left (map lq lots) (mval rem) \<and> map lq ts = fifo_taken (map lq lots) (mval rem)
    \<and> (\<exists>n. list_all2 same_terms ts (take n lots)) \<and> mval rem' = max 0 (mval rem - sum_list (map lq lots))"
  using assms(2-)
proof (induction lots arbitrary: rem kept taken)
  case (Cons l lots)
  have l: "lot_on k B kp P l" and lots: "list_all (lot_on k B kp P) lots" using Cons.prems(1) by auto
  have pos: "0 < lq l" "0 \<le> sum_list (map lq lots)"
    using l lots_sum_nonneg [OF lots] by (auto simp: lot_on_def lot_wf_def)
  show ?case
  proof (cases "0 < mval rem")
    case False
    then have "take_loop (l # lots) rem kept taken = Ok (kept @ l # lots, taken @ [], rem)"
      by (simp add: take_loop_rest)
    moreover have "\<exists>n. list_all2 same_terms [] (take n (l # lots))" by (rule exI [of _ 0]) simp
    ultimately show ?thesis using False Cons.prems pos
      by (intro exI [of _ "l # lots"] exI [of _ "[]"] exI [of _ rem]) auto
  next
    case True
    obtain rem' t ks where
      step: "take_loop (l # lots) rem kept taken = take_loop lots rem' (kept @ ks) (taken @ [t])"
      and rem': "canonical rem'" "grid k B (mval rem')" "mval rem' = max 0 (mval rem - lq l)"
      and t: "lot_on k B kp P t" "same_terms t l" "lq t = min (lq l) (mval rem)"
      and ks: "list_all (lot_on k B kp P) ks" "map lq ks = (if lq l \<le> mval rem then [] else [lq l - mval rem])"
      using take_loop_step [OF r l Cons.prems(2,3) True, of lots kept taken] by blast
    have "0 \<le> mval rem'" using rem'(3) by simp
    from Cons.IH [OF lots rem'(1,2) this, of "kept @ ks" "taken @ [t]"] obtain ks2 ts2 rem2 where
      eq: "take_loop lots rem' (kept @ ks) (taken @ [t]) = Ok ((kept @ ks) @ ks2, (taken @ [t]) @ ts2, rem2)"
      and rest: "list_all (lot_on k B kp P) ks2" "list_all (lot_on k B kp P) ts2"
        "map lq ks2 = fifo_left (map lq lots) (mval rem')" "map lq ts2 = fifo_taken (map lq lots) (mval rem')"
        "mval rem2 = max 0 (mval rem' - sum_list (map lq lots))"
      and "\<exists>n. list_all2 same_terms ts2 (take n lots)" by blast
    then obtain n where "list_all2 same_terms ts2 (take n lots)" by blast
    with t(2) have same: "\<exists>n. list_all2 same_terms (t # ts2) (take n (l # lots))" by (intro exI [of _ "Suc n"]) simp
    have "map lq (ks @ ks2) = fifo_left (map lq (l # lots)) (mval rem)" using True ks(2) rest(3) rem'(3) by auto
    moreover have "map lq (t # ts2) = fifo_taken (map lq (l # lots)) (mval rem)" using True t(3) rest(4) rem'(3) by (auto simp: max_def)
    moreover have "mval rem2 = max 0 (mval rem - sum_list (map lq (l # lots)))" using rest(5) rem'(3) pos by auto
    ultimately show ?thesis using step eq same ks(1) t(1) rest(1,2)
      by (intro exI [of _ "ks @ ks2"] exI [of _ "t # ts2"] exI [of _ rem2]) simp
  qed
qed (auto intro: exI [of _ 0])

lemma take_lots_spec:
  assumes "room k B" and lots: "list_all (lot_on k B kp P) lots"
    and q: "canonical q" "grid k B (mval q)" "0 \<le> mval q"
  shows "if mval q \<le> sum_list (map lq lots)
    then \<exists>kept taken. take_lots lots q = Ok (kept, taken)
      \<and> list_all (lot_on k B kp P) kept \<and> list_all (lot_on k B kp P) taken
      \<and> map lq kept = fifo_left (map lq lots) (mval q) \<and> map lq taken = fifo_taken (map lq lots) (mval q)
      \<and> (\<exists>n. list_all2 same_terms taken (take n lots))
    else take_lots lots q = fe ''Open lots ran short; ledger is inconsistent (I2)''"
proof -
  obtain ks ts rem' where l: "take_loop lots q [] [] = Ok ([] @ ks, [] @ ts, rem')"
    and "list_all (lot_on k B kp P) ks" "list_all (lot_on k B kp P) ts"
      "map lq ks = fifo_left (map lq lots) (mval q)" "map lq ts = fifo_taken (map lq lots) (mval q)"
      "\<exists>n. list_all2 same_terms ts (take n lots)" "mval rem' = max 0 (mval q - sum_list (map lq lots))"
    using take_loop_spec [OF assms, of "[]" "[]"] by blast
  moreover from l have "take_lots lots q = (if mval rem' = 0 then Ok (ks, ts) else fe ''Open lots ran short; ledger is inconsistent (I2)'')"
    by (simp add: take_lots_def)
  ultimately show ?thesis by auto
qed

subsection \<open>Positions\<close>

fun sgn_side :: "side \<Rightarrow> rat" where
  "sgn_side Buy = 1"
| "sgn_side Sell = - 1"

lemma sgn_side_abs [simp]: "\<bar>sgn_side s\<bar> = 1" "sgn_side s * sgn_side s = 1" "sgn_side s \<noteq> 0"
  by (cases s; simp)+

definition pos_ok :: "nat \<Rightarrow> rat \<Rightarrow> nat \<Rightarrow> rat \<Rightarrow> position \<Rightarrow> bool" where
  "pos_ok k B kp P p \<longleftrightarrow>
     canonical (p_quantity p) \<and> grid k B (mval (p_quantity p)) \<and> list_all (lot_on k B kp P) (p_open_lots p)
     \<and> (\<exists>s. (\<forall>l \<in> set (p_open_lots p). lot_side l = s)
          \<and> mval (p_quantity p) = sgn_side s * sum_list (map lq (p_open_lots p)))"

lemma make_position_Ok:
  "make_position a i q avg re lots = Ok p \<Longrightarrow>
     p = \<lparr>p_account_id = a, p_instrument = i, p_quantity = q, p_avg_cost = avg, p_realized_pnl = re, p_open_lots = lots\<rparr>"
  by (auto simp: make_position_def lerr_def split: if_splits)

text \<open>The check of \<open>make_position\<close> never refuses a position that satisfies the invariant.\<close>

lemma signed_total_exact:
  assumes r: "room k B" and lots: "list_all (lot_on k B kp P) lots" "\<forall>l \<in> set lots. lot_side l = s"
    and b: "sum_list (map lq lots) \<le> B"
  shows "\<exists>t. signed_total lots = Ok t \<and> canonical t \<and> mval t = sgn_side s * sum_list (map lq lots)"
proof -
  have "\<exists>t. fold_r (\<lambda>tot l. and_then (signed_quantity l) (\<lambda>q. dadd tot q)) acc ls = Ok t \<and> canonical t
      \<and> mval t = mval acc + sgn_side s * sum_list (map lq ls)"
    if "list_all (lot_on k B kp P) ls" "\<forall>l \<in> set ls. lot_side l = s" "canonical acc" "grid k D (mval acc)"
      "D + sum_list (map lq ls) \<le> B" "0 \<le> D" for acc ls D
    using that
  proof (induction ls arbitrary: acc D)
    case (Cons l ls)
    have l: "canonical (lot_quantity l)" "grid k B (lq l)" "0 < lq l" using Cons.prems(1) by (auto simp: lot_on_def lot_wf_def)
    obtain q where q: "signed_quantity l = Ok q" "canonical q" "mval q = sgn_side s * lq l"
      using dneg_grid [OF l(1,2) r] l(1) Cons.prems(2) by (cases s) (auto simp: signed_quantity_def)
    have "grid k (lq l) (lq l)" using l(3) by (intro grid_mono [OF l(2)]) simp
    then have "grid k (lq l) (mval q)" using q(3) by (cases s) simp_all
    from grid_add [OF Cons.prems(4) this] have g: "grid k (D + lq l) (mval acc + mval q)" .
    have ls0: "0 \<le> sum_list (map lq ls)" using lots_sum_nonneg Cons.prems(1) by auto
    have "room k (D + lq l)" using Cons.prems(5) ls0 by (intro room_mono [OF r]) auto
    then obtain a where a: "dadd acc q = Ok a" "canonical a" "mval a = mval acc + mval q"
      using dadd_grid [OF Cons.prems(3) q(2) g] by blast
    have "\<exists>t. fold_r (\<lambda>tot l. and_then (signed_quantity l) (\<lambda>q. dadd tot q)) a ls = Ok t \<and> canonical t
        \<and> mval t = mval a + sgn_side s * sum_list (map lq ls)"
      using Cons.prems g a l(3) by (intro Cons.IH [of _ "D + lq l"]) auto
    with q a show ?case by (auto simp: algebra_simps)
  qed simp
  from this [of lots ZERO 0] show ?thesis using lots b unfolding signed_total_def by auto
qed

lemma make_position_total:
  assumes r: "room k B" and "a \<noteq> []" and lots: "list_all (lot_on k B kp P) lots" "\<forall>l \<in> set lots. lot_side l = s"
    and b: "sum_list (map lq lots) \<le> B" and q: "mval q = sgn_side s * sum_list (map lq lots)"
  shows "make_position a i q avg re lots =
    Ok \<lparr>p_account_id = a, p_instrument = i, p_quantity = q, p_avg_cost = avg, p_realized_pnl = re, p_open_lots = lots\<rparr>"
  using signed_total_exact [OF r lots b] assms(2) q by (auto simp: make_position_def)

lemma list_all2_same_side:
  "list_all2 same_terms ks (drop n ls) \<Longrightarrow> \<forall>l \<in> set ls. lot_side l = s \<Longrightarrow> l \<in> set ks \<Longrightarrow> lot_side l = s"
proof -
  assume a: "list_all2 same_terms ks (drop n ls)" "\<forall>l \<in> set ls. lot_side l = s" "l \<in> set ks"
  then obtain i where "i < length ks" "l = ks ! i" by (auto simp: in_set_conv_nth)
  with a(1) have "same_terms l (drop n ls ! i)" "drop n ls ! i \<in> set ls"
    by (auto simp: list_all2_conv_all_nth)
  with a(2) show ?thesis by (auto simp: same_terms_def)
qed

lemma pos_sum_zero: "\<forall>q \<in> set qs. (0::rat) < q \<Longrightarrow> sum_list qs = 0 \<Longrightarrow> qs = []"
proof (cases qs)
  case (Cons q qs')
  assume a: "\<forall>q \<in> set qs. (0::rat) < q" "sum_list qs = 0"
  have "0 \<le> sum_list qs'" using a Cons by (intro sum_list_nonneg) (auto intro: less_imp_le)
  with a Cons show ?thesis by auto
qed simp

subsection \<open>Trades\<close>

text \<open>The size of a trade on the grid of a book, and the signed quantity it adds.\<close>

definition trade_on :: "nat \<Rightarrow> rat \<Rightarrow> nat \<Rightarrow> rat \<Rightarrow> money \<Rightarrow> money \<Rightarrow> bool" where
  "trade_on k B kp P quantity price \<longleftrightarrow>
     canonical quantity \<and> grid k B (mval quantity) \<and> 0 < mval quantity
     \<and> canonical price \<and> grid kp P (mval price) \<and> 0 < mval price"

lemma new_lot_on:
  assumes "trade_on k B kp P q px" "make_lot i q px t s = Ok l"
  shows "lot_on k B kp P l \<and> lot_side l = s \<and> lq l = mval q"
  using assms by (auto simp: make_lot_iff lot_on_def lot_wf_def trade_on_def)

lemma open_flat_ok:
  assumes "room k B" "trade_on k B kp P q px" and d: "canonical d" "mval d = sgn_side s * mval q"
    and "open_flat a carried i s q px t lid d = Ok p"
  shows "pos_ok k B kp P p \<and> p_quantity p = d \<and> p_realized_pnl p = carried"
proof -
  obtain l where l: "make_lot lid q px t s = Ok l" and mp: "make_position a i d px carried [l] = Ok p"
    using assms(5) by (auto simp: open_flat_def)
  with new_lot_on [OF assms(2) l] make_position_Ok [OF mp] have "lot_on k B kp P l" "lot_side l = s" "lq l = mval q"
      "p_quantity p = d" "p_open_lots p = [l]" "p_realized_pnl p = carried" by auto
  moreover have "grid k B (mval d)" using d assms(2) by (cases s) (auto simp: trade_on_def)
  ultimately show ?thesis using d by (auto simp: pos_ok_def)
qed

lemma signed_sum_bound: "\<bar>v\<bar> + q \<le> B \<Longrightarrow> d = sgn_side s * q \<Longrightarrow> 0 < q \<Longrightarrow> \<bar>v + d\<bar> \<le> (B::rat)"
  by (cases s) (auto simp: abs_if split: if_splits)

lemma trade_increase_ok:
  assumes r: "room k B" and p: "pos_ok k B kp P p" and t: "trade_on k B kp P q px"
    and d: "canonical d" "mval d = sgn_side s * mval q"
    and side: "p_open_lots p \<noteq> [] \<longrightarrow> (\<forall>l \<in> set (p_open_lots p). lot_side l = s)" "mval (p_quantity p) = sgn_side s * sum_list (map lq (p_open_lots p))"
    and size: "\<bar>mval (p_quantity p)\<bar> + mval q \<le> B"
    and ok: "trade_increase a p i s q px ts lid d = Ok p'"
  shows "pos_ok k B kp P p' \<and> mval (p_quantity p') = mval (p_quantity p) + mval d \<and> p_realized_pnl p' = p_realized_pnl p
    \<and> (\<exists>l. p_open_lots p' = p_open_lots p @ [l] \<and> lq l = mval q \<and> lot_cost_basis l = px)"
proof -
  have cq: "canonical (p_quantity p)" and gq: "grid k B (mval (p_quantity p))" and lots: "list_all (lot_on k B kp P) (p_open_lots p)"
    using p by (auto simp: pos_ok_def)
  obtain nq l avg where nq: "dadd (p_quantity p) d = Ok nq" and l: "make_lot lid q px ts s = Ok l"
    and mp: "make_position a i nq avg (p_realized_pnl p) (p_open_lots p @ [l]) = Ok p'"
    using ok by (auto simp: trade_increase_def)
  have gd: "grid k B (mval d)" using d t by (cases s) (auto simp: trade_on_def)
  have "grid k B (mval (p_quantity p) + mval d)"
    using signed_sum_bound [OF size d(2)] t by (intro grid_mono [OF grid_add [OF gq gd]]) (simp add: trade_on_def)
  then have nq': "canonical nq" "mval nq = mval (p_quantity p) + mval d" "grid k B (mval nq)"
    using dadd_grid [OF cq d(1) _ r] nq by auto
  have ln: "lot_on k B kp P l" "lot_side l = s" "lq l = mval q" "lot_cost_basis l = px"
    using new_lot_on [OF t l] l by (auto simp: make_lot_iff)
  have "mval nq = sgn_side s * sum_list (map lq (p_open_lots p @ [l]))"
    using nq'(2) side(2) d(2) ln(3) by (simp add: algebra_simps)
  moreover have "\<forall>l' \<in> set (p_open_lots p @ [l]). lot_side l' = s" using side(1) ln(2) by auto
  ultimately show ?thesis using make_position_Ok [OF mp] nq' lots ln by (auto simp: pos_ok_def)
qed

text \<open>
  A trade against the position closes lots first in, first out; what the lots do not cover
  opens a lot on the other side.
\<close>

lemma trade_reduce_ok:
  assumes r: "book_room k B kp P mult" and p: "pos_ok k B kp P p" and t: "trade_on k B kp P q px"
    and d: "canonical d" "mval d = sgn_side s * mval q"
    and side: "\<forall>l \<in> set (p_open_lots p). lot_side l = s0" "mval (p_quantity p) = sgn_side s0 * sum_list (map lq (p_open_lots p))"
      "s0 \<noteq> s"
    and size: "\<bar>mval (p_quantity p)\<bar> + mval q \<le> B"
    and ok: "trade_reduce a p i s px ts lid mult d = Ok p'"
  shows "pos_ok k B kp P p' \<and> mval (p_quantity p') = mval (p_quantity p) + mval d
    \<and> (\<exists>pnl. dadd (p_realized_pnl p) pnl = Ok (p_realized_pnl p')
         \<and> mval pnl = fifo_gain (mval px) (p_open_lots p) (min \<bar>mval (p_quantity p)\<bar> (mval q)) * of_int mult)
    \<and> (if mval q \<le> \<bar>mval (p_quantity p)\<bar>
       then map lq (p_open_lots p') = fifo_left (map lq (p_open_lots p)) (mval q)
       else map lq (p_open_lots p') = [mval q - \<bar>mval (p_quantity p)\<bar>])"
proof -
  let ?L = "p_open_lots p" and ?S = "sum_list (map lq (p_open_lots p))"
  have rm: "room k B" using r by (simp add: book_room_def)
  have cq: "canonical (p_quantity p)" and gq: "grid k B (mval (p_quantity p))" and lots: "list_all (lot_on k B kp P) ?L"
    using p by (auto simp: pos_ok_def)
  have tq: "grid k B (mval q)" "0 < mval q" and px: "canonical px" "grid kp P (mval px)" "0 \<le> mval px"
    using t by (auto simp: trade_on_def)
  have gd: "grid k B (mval d)" using d(2) tq(1) by (cases s) auto
  have S: "0 \<le> ?S" "\<bar>mval (p_quantity p)\<bar> = ?S" using lots_sum_nonneg [OF lots] side(2) by (auto simp: abs_mult)
  have opp: "sgn_side s = - sgn_side s0" using side(3) by (cases s; cases s0) auto
  obtain aa where aa: "dabs d = Ok aa" "canonical aa" "mval aa = mval q"
    using dabs_grid [OF d(1) gd rm] d(2) tq(2) by (auto simp: abs_mult)
  obtain bb where bb: "dabs (p_quantity p) = Ok bb" "canonical bb" "mval bb = ?S"
    using dabs_grid [OF cq gq rm] S(2) by auto
  let ?cl = "if money_lt bb aa then bb else aa"
  have cl: "canonical ?cl" "mval ?cl = min ?S (mval q)" "0 \<le> mval ?cl" using aa bb S tq(2) by auto
  have gS: "grid k B ?S" using gq side(2) by (cases s0) auto
  then have gcl: "grid k B (mval ?cl)" using tq(1) aa(3) bb(3) by simp
  obtain kept pnl where con: "consume_lots ?L ?cl px mult = Ok (kept, pnl)"
    and kept: "list_all (lot_on k B kp P) kept" "map lq kept = fifo_left (map lq ?L) (mval ?cl)"
      "\<exists>n \<le> length ?L. list_all2 same_terms kept (drop n ?L)"
    and pnl: "mval pnl = fifo_gain (mval px) ?L (mval ?cl) * of_int mult"
    using consume_lots_spec [OF r px lots cl(1) gcl cl(3)] cl(2) by auto
  have ks: "\<forall>l \<in> set kept. lot_side l = s0" using kept(3) side(1) list_all2_same_side by blast
  have ksum: "sum_list (map lq kept) = ?S - mval ?cl"
    unfolding kept(2) using cl by (intro fifo_left_sum [OF lots_pos [OF lots]]) auto
  have "grid k B (mval (p_quantity p) + mval d)"
    using signed_sum_bound [OF size d(2) tq(2)] by (intro grid_mono [OF grid_add [OF gq gd]])
  then obtain nq where nq: "dadd (p_quantity p) d = Ok nq" "canonical nq" "mval nq = mval (p_quantity p) + mval d" "grid k B (mval nq)"
    using dadd_grid [OF cq d(1) _ rm] by fastforce
  have nqv: "mval nq = sgn_side s0 * (?S - mval q)" using nq(3) side(2) d(2) opp by (simp add: algebra_simps)
  show ?thesis
  proof (cases "?S < mval q")
    case True
    obtain re fl l where re: "dadd (p_realized_pnl p) pnl = Ok re" and fl: "dsub aa bb = Ok fl"
      and l: "make_lot lid fl px ts s = Ok l" and mp: "make_position a i nq px re [l] = Ok p'"
      using ok aa bb con nq True by (auto simp: trade_reduce_def Let_def)
    have "\<bar>mval q - ?S\<bar> \<le> B" using True S(1) tq(1) by (auto simp: grid_def)
    from grid_mono [OF grid_sub [OF tq(1) gS] this] have "grid k B (mval aa - mval bb)" unfolding aa(3) bb(3) .
    then have fl': "canonical fl" "mval fl = mval q - ?S" "grid k B (mval fl)"
      using dsub_grid [OF aa(2) bb(2) _ rm] fl aa(3) bb(3) by auto
    have "trade_on k B kp P fl px" using fl' True t by (auto simp: trade_on_def)
    from new_lot_on [OF this l] have "lot_on k B kp P l" "lot_side l = s" and lv: "lq l = mval q - ?S" using fl'(2) by auto
    moreover have "mval nq = sgn_side s * lq l" unfolding nqv opp lv by (simp add: algebra_simps)
    ultimately show ?thesis using make_position_Ok [OF mp] nq re pnl cl(2) True S(2)
      by (auto simp: pos_ok_def intro!: exI [of _ s] exI [of _ pnl])
  next
    case False
    obtain re avg where re: "dadd (p_realized_pnl p) pnl = Ok re" and mp: "make_position a i nq avg re kept = Ok p'"
      using ok aa bb con nq False by (auto simp: trade_reduce_def Let_def split: if_splits)
    have "mval nq = sgn_side s0 * sum_list (map lq kept)" using nqv ksum cl(2) False by simp
    then show ?thesis using make_position_Ok [OF mp] nq re pnl cl(2) False S(2) kept(1,2) ks
      by (auto simp: pos_ok_def min_def intro!: exI [of _ s0] exI [of _ pnl])
  qed
qed

definition pos_quantity :: "position option \<Rightarrow> rat" where
  "pos_quantity pos = (case pos of None \<Rightarrow> 0 | Some p \<Rightarrow> mval (p_quantity p))"

definition pos_lots :: "position option \<Rightarrow> lot list" where
  "pos_lots pos = (case pos of None \<Rightarrow> [] | Some p \<Rightarrow> p_open_lots p)"

definition pos_realized :: "position option \<Rightarrow> money" where
  "pos_realized pos = (case pos of None \<Rightarrow> ZERO | Some p \<Rightarrow> p_realized_pnl p)"

definition popt_ok :: "nat \<Rightarrow> rat \<Rightarrow> nat \<Rightarrow> rat \<Rightarrow> position option \<Rightarrow> bool" where
  "popt_ok k B kp P pos \<longleftrightarrow> (case pos of None \<Rightarrow> True | Some p \<Rightarrow> pos_ok k B kp P p)"

lemma pos_ok_flat: "pos_ok k B kp P p \<Longrightarrow> mval (p_quantity p) = 0 \<Longrightarrow> p_open_lots p = []"
proof -
  assume a: "pos_ok k B kp P p" "mval (p_quantity p) = 0"
  then have "sum_list (map lq (p_open_lots p)) = 0" by (auto simp: pos_ok_def)
  moreover have "\<forall>q \<in> set (map lq (p_open_lots p)). 0 < q" using a(1) lots_pos unfolding pos_ok_def by blast
  ultimately have "map lq (p_open_lots p) = []" using pos_sum_zero by blast
  then show ?thesis by simp
qed

lemma pos_ok_side:
  assumes "pos_ok k B kp P p" "mval (p_quantity p) \<noteq> 0"
  obtains s where "\<forall>l \<in> set (p_open_lots p). lot_side l = s"
    "mval (p_quantity p) = sgn_side s * sum_list (map lq (p_open_lots p))" "0 < mval (p_quantity p) \<longleftrightarrow> s = Buy"
proof -
  obtain s where s: "\<forall>l \<in> set (p_open_lots p). lot_side l = s"
      "mval (p_quantity p) = sgn_side s * sum_list (map lq (p_open_lots p))" using assms(1) by (auto simp: pos_ok_def)
  have "0 \<le> sum_list (map lq (p_open_lots p))" using assms(1) lots_sum_nonneg unfolding pos_ok_def by blast
  with s assms(2) have "0 < mval (p_quantity p) \<longleftrightarrow> s = Buy" by (cases s) auto
  with s that show ?thesis by blast
qed

lemma signed_delta:
  assumes "room k B" "trade_on k B kp P q px"
  shows "\<exists>d. (if s = Buy then Ok q else dneg q) = Ok d \<and> canonical d \<and> mval d = sgn_side s * mval q"
  using dneg_grid [of q k B] assms by (cases s) (auto simp: trade_on_def)

lemma apply_trade_ok:
  assumes r: "book_room k B kp P mult" and pos: "popt_ok k B kp P pos" and t: "trade_on k B kp P q px"
    and size: "\<bar>pos_quantity pos\<bar> + mval q \<le> B" and ok: "apply_trade a pos i s q px ts lid mult = Ok p'"
  shows "pos_ok k B kp P p' \<and> mval (p_quantity p') = pos_quantity pos + sgn_side s * mval q
    \<and> (if 0 \<le> pos_quantity pos * sgn_side s
       then p_realized_pnl p' = pos_realized pos \<and> map lq (p_open_lots p') = map lq (pos_lots pos) @ [mval q]
       else (\<exists>pnl. dadd (pos_realized pos) pnl = Ok (p_realized_pnl p')
              \<and> mval pnl = fifo_gain (mval px) (pos_lots pos) (min \<bar>pos_quantity pos\<bar> (mval q)) * of_int mult)
         \<and> map lq (p_open_lots p') =
             (if mval q \<le> \<bar>pos_quantity pos\<bar> then fifo_left (map lq (pos_lots pos)) (mval q)
              else [mval q - \<bar>pos_quantity pos\<bar>]))"
proof -
  have rm: "room k B" using r by (simp add: book_room_def)
  have q0: "0 < mval q" using t by (simp add: trade_on_def)
  obtain d where d: "(if s = Buy then Ok q else dneg q) = Ok d" "canonical d" "mval d = sgn_side s * mval q"
    using signed_delta [OF rm t] by blast
  note ok' = ok [unfolded apply_trade_def d(1) and_then.simps]
  have flat: ?thesis if z: "pos_quantity pos = 0" "pos_lots pos = []"
    and o: "open_flat a (pos_realized pos) i s q px ts lid d = Ok p'"
    using open_flat_ok [OF rm t d(2,3) o] z d(3) o new_lot_on [OF t]
    by (auto simp: open_flat_def dest!: make_position_Ok)
  show ?thesis
  proof (cases pos)
    case None
    with ok' show ?thesis by (intro flat) (auto simp: pos_quantity_def pos_lots_def pos_realized_def)
  next
    case (Some p)
    have p: "pos_ok k B kp P p" using pos Some by (simp add: popt_ok_def)
    have sz: "\<bar>mval (p_quantity p)\<bar> + mval q \<le> B" using size Some by (simp add: pos_quantity_def)
    show ?thesis
    proof (cases "mval (p_quantity p) = 0")
      case True
      with Some ok' pos_ok_flat [OF p True] show ?thesis
        by (intro flat) (auto simp: pos_quantity_def pos_lots_def pos_realized_def)
    next
      case False
      obtain s0 where s0: "\<forall>l \<in> set (p_open_lots p). lot_side l = s0"
          "mval (p_quantity p) = sgn_side s0 * sum_list (map lq (p_open_lots p))" "0 < mval (p_quantity p) \<longleftrightarrow> s0 = Buy"
        using pos_ok_side [OF p False] by blast
      have dpos: "0 < mval d \<longleftrightarrow> s = Buy" using d(3) q0 by (cases s) auto
      have sgn: "0 \<le> mval (p_quantity p) * sgn_side s \<longleftrightarrow> s0 = s"
        using s0(3) False by (cases s; cases s0) auto
      show ?thesis
      proof (cases "s0 = s")
        case True
        then have "trade_increase a p i s q px ts lid d = Ok p'" using ok' Some False s0(3) dpos by simp
        from trade_increase_ok [OF rm p t d(2,3) _ _ sz this] True s0 sgn Some d(3) show ?thesis
          by (auto simp: pos_quantity_def pos_lots_def pos_realized_def)
      next
        case neq: False
        then have "(0 < mval (p_quantity p)) \<noteq> (0 < mval d)" using s0(3) dpos by (cases s; cases s0) auto
        then have "trade_reduce a p i s px ts lid mult d = Ok p'" using ok' Some False by auto
        from trade_reduce_ok [OF r p t d(2,3) s0(1,2) neq sz this] neq sgn Some d(3) show ?thesis
          by (auto simp: pos_quantity_def pos_lots_def pos_realized_def)
      qed
    qed
  qed
qed

end
