(* ===== verification/Ledger_Props.thy ===== *)
theory Ledger_Props
  imports Samples Lots_Inv
begin

section \<open>Properties of the ledger\<close>

text \<open>
  The ordered map of the fold with its journal, the lots of a position, and the fold of a log
  into account states. The lemmas behind them are in \<open>Ledger_Ops\<close>, \<open>Lots_Inv\<close> and \<open>Fold_Inv\<close>.
\<close>

subsection \<open>The ordered map\<close>

text \<open>
  C31. The ordered map keeps its invariant (distinct keys, the index is exact, the journal names
  known slots) under every operation; a lookup sees the last write; a known key keeps its place,
  a new one goes to the end, and a removal leaves the rest in order.
\<close>

theorem omap_laws:
  assumes "omap_inv m"
  shows "omap_inv (omap_insert m hk key v) \<and> omap_inv (omap_get_mut f m hk) \<and> omap_inv (snd (omap_remove m hk))
    \<and> (\<forall>k. omap_get (omap_insert m hk key v) k = (if k = hk then Some v else omap_get m k))
    \<and> (\<forall>k. omap_get (omap_get_mut f m hk) k = (if k = hk then map_option f (omap_get m hk) else omap_get m k))
    \<and> (\<forall>k. omap_get (snd (omap_remove m hk)) k = (if k = hk then None else omap_get m k))
    \<and> omap_keys (omap_insert m hk key v) = (if omap_contains m hk then omap_keys m else omap_keys m @ [hk])
    \<and> omap_keys (snd (omap_remove m hk)) = removeAll hk (omap_keys m)"
  using assms by (simp add: omap_get_insert omap_get_get_mut omap_get_remove omap_keys_insert omap_keys_remove)

theorem omap_laws_witness:
  "omap_inv (omap_put omap_new ''a'' (1 :: nat))
   \<and> omap_keys (omap_insert (omap_put omap_new ''a'' (1 :: nat)) ''b'' ''b'' 2) = [''a'', ''b'']
   \<and> omap_get (snd (omap_remove (omap_put omap_new ''a'' (1 :: nat)) ''a'')) ''a'' = None"
proof -
  have i: "omap_inv (omap_put omap_new ''a'' (1 :: nat))" by simp
  from omap_laws [OF i, of "''b''" "''b''" 2 id] omap_laws [OF i, of "''a''" "''a''" 2 id] i show ?thesis
    by (simp add: omap_contains_get omap_get_put omap_keys_put)
qed

text \<open>
  C32. Between two readings of the journal the map may be written, updated in place and removed
  from in any order; refreshing a copy taken at the first reading with the slots the second
  reading names gives the current entries.
\<close>

theorem journal_refreshes_copy:
  assumes "omap_inv m" and "omap_step\<^sup>*\<^sup>* (snd (take_journal m)) m'"
  shows "refresh m' (fst (take_journal m')) (omap_iter m) = omap_iter m'"
  using journal_covers_steps [OF assms(2) take_journal_inv [OF assms(1)] journal_after_take]
  by (blast intro: refresh_current)

theorem journal_refreshes_copy_witness:
  "omap_inv (omap_put omap_new ''a'' (1 :: nat))
   \<and> omap_step\<^sup>*\<^sup>* (snd (take_journal (omap_put omap_new ''a'' (1 :: nat))))
       (omap_insert (snd (take_journal (omap_put omap_new ''a'' (1 :: nat)))) ''b'' ''b'' 2)
   \<and> refresh (omap_insert (snd (take_journal (omap_put omap_new ''a'' (1 :: nat)))) ''b'' ''b'' 2)
       (fst (take_journal (omap_insert (snd (take_journal (omap_put omap_new ''a'' (1 :: nat)))) ''b'' ''b'' 2)))
       (omap_iter (omap_put omap_new ''a'' (1 :: nat)))
     = omap_iter (omap_insert (snd (take_journal (omap_put omap_new ''a'' (1 :: nat)))) ''b'' ''b'' 2)"
proof -
  let ?m = "omap_put omap_new ''a'' (1 :: nat)"
  have i: "omap_inv ?m" by simp
  have s: "omap_step\<^sup>*\<^sup>* (snd (take_journal ?m)) (omap_insert (snd (take_journal ?m)) ''b'' ''b'' 2)"
    by (intro r_into_rtranclp step_insert)
  from i s journal_refreshes_copy [OF i s] show ?thesis by blast
qed

subsection \<open>Lots\<close>

definition s_lot :: "string \<Rightarrow> nat \<Rightarrow> nat \<Rightarrow> lot" where
  "s_lot i q c = \<lparr>lot_id = i, lot_quantity = usd q 0, lot_cost_basis = usd c 0, lot_acquired_at = noon, lot_side = Buy\<rparr>"

lemma usd_whole: "canonical (usd n 0) \<longleftrightarrow> n < MANTISSA_LIMIT" "mval (usd n 0) = of_nat n"
  by (auto simp: usd_def canonical_def mval_def dval_def MAX_SCALE_def)

lemma small_mantissa: "n < 1000000 \<Longrightarrow> n < MANTISSA_LIMIT"
  by (simp add: MANTISSA_LIMIT_def)

lemma grid_nat: "of_nat n \<le> B \<Longrightarrow> grid 0 B (of_nat n)"
  using grid_int [of "int n" B] by simp

lemma grid_numeral: "numeral n \<le> B \<Longrightarrow> grid 0 B (numeral n)"
  using grid_nat [of "numeral n" B] by simp

lemma s_room: "book_room 0 1000000 0 1000000 1"
  by (simp add: book_room_def room_def)

lemma s_lot_on: "0 < q \<Longrightarrow> q < 1000000 \<Longrightarrow> 0 < c \<Longrightarrow> c < 1000000 \<Longrightarrow> i \<noteq> [] \<Longrightarrow> lot_on 0 1000000 0 1000000 (s_lot i q c)"
  by (simp add: lot_on_def lot_wf_def s_lot_def usd_whole small_mantissa grid_nat)

text \<open>
  C4. Closing lots is first in, first out, and exact: with room for the amounts of the book,
  \<open>consume_lots\<close> answers the lots the reference \<open>fifo_left\<close> leaves (a partly closed lot keeps its
  identity and its price), a profit that is exactly the sum over the closed quantities, and it
  refuses exactly when the lots are short. What is left adds up to what was there less the quantity.
\<close>

theorem consume_lots_fifo:
  assumes "book_room k B kp P mult" "canonical px" "grid kp P (mval px)" "0 \<le> mval px"
    and "list_all (lot_on k B kp P) lots" "canonical q" "grid k B (mval q)" "0 \<le> mval q"
  shows "if mval q \<le> sum_list (map lq lots)
    then \<exists>kept pnl. consume_lots lots q px mult = Ok (kept, pnl)
      \<and> map lq kept = fifo_left (map lq lots) (mval q) \<and> sum_list (map lq kept) = sum_list (map lq lots) - mval q
      \<and> (\<exists>n \<le> length lots. list_all2 same_terms kept (drop n lots)) \<and> list_all lot_wf kept
      \<and> mval pnl = fifo_gain (mval px) lots (mval q) * of_int mult
    else consume_lots lots q px mult = fe ''Open lots ran short; ledger is inconsistent (I2)''"
proof (cases "mval q \<le> sum_list (map lq lots)")
  case True
  obtain kept pnl where *: "consume_lots lots q px mult = Ok (kept, pnl)" "list_all (lot_on k B kp P) kept"
      "map lq kept = fifo_left (map lq lots) (mval q)" "\<exists>n \<le> length lots. list_all2 same_terms kept (drop n lots)"
      "mval pnl = fifo_gain (mval px) lots (mval q) * of_int mult"
    using consume_lots_spec [OF assms] True by auto
  have "sum_list (map lq kept) = sum_list (map lq lots) - mval q"
    unfolding *(3) using fifo_left_sum [OF lots_pos [OF assms(5)] assms(8) True] .
  moreover have "list_all lot_wf kept" using *(2) by (simp add: list_all_iff lot_on_def)
  ultimately show ?thesis using * True by auto
next
  case False
  with consume_lots_spec [OF assms] show ?thesis by simp
qed

theorem consume_lots_fifo_witness:
  "list_all (lot_on 0 1000000 0 1000000) [s_lot ''a'' 3 100, s_lot ''b'' 5 110] \<and> book_room 0 1000000 0 1000000 1
   \<and> (\<exists>kept pnl. consume_lots [s_lot ''a'' 3 100, s_lot ''b'' 5 110] (usd 4 0) (usd 120 0) 1 = Ok (kept, pnl)
        \<and> map lq kept = [4] \<and> mval pnl = 70)"
proof -
  have l: "list_all (lot_on 0 1000000 0 1000000) [s_lot ''a'' 3 100, s_lot ''b'' 5 110]" by (simp add: s_lot_on)
  have "map lq [s_lot ''a'' 3 100, s_lot ''b'' 5 110] = [3, 5]" by (simp add: s_lot_def usd_whole)
  with l s_room consume_lots_fifo [OF s_room _ _ _ l, of "usd 120 0" "usd 4 0"] show ?thesis
    by (auto simp: usd_whole small_mantissa grid_numeral s_lot_def gain_def)
qed

text \<open>
  Taking lots out for a delivery hands over, first in, first out, the quantities
  \<open>fifo_taken\<close> at their own prices, keeps \<open>fifo_left\<close>, and loses nothing: taken and kept add up to
  the lots there were. It refuses exactly when the lots are short.
\<close>

theorem take_lots_fifo:
  assumes "room k B" "list_all (lot_on k B kp P) lots" "canonical q" "grid k B (mval q)" "0 \<le> mval q"
  shows "if mval q \<le> sum_list (map lq lots)
    then \<exists>kept taken. take_lots lots q = Ok (kept, taken) \<and> map lq kept = fifo_left (map lq lots) (mval q)
      \<and> map lq taken = fifo_taken (map lq lots) (mval q) \<and> (\<exists>n. list_all2 same_terms taken (take n lots))
      \<and> sum_list (map lq taken) = mval q \<and> sum_list (map lq kept) + sum_list (map lq taken) = sum_list (map lq lots)
    else take_lots lots q = fe ''Open lots ran short; ledger is inconsistent (I2)''"
proof (cases "mval q \<le> sum_list (map lq lots)")
  case True
  obtain kept taken where *: "take_lots lots q = Ok (kept, taken)" "map lq kept = fifo_left (map lq lots) (mval q)"
      "map lq taken = fifo_taken (map lq lots) (mval q)" "\<exists>n. list_all2 same_terms taken (take n lots)"
    using take_lots_spec [OF assms] True by auto
  note sums = fifo_left_sum [OF lots_pos [OF assms(2)] assms(5) True] fifo_taken_sum [OF lots_pos [OF assms(2)] assms(5)]
  with * True show ?thesis by (auto simp: min_def)
next
  case False
  with take_lots_spec [OF assms] show ?thesis by simp
qed

theorem take_lots_fifo_witness:
  "list_all (lot_on 0 1000000 0 1000000) [s_lot ''a'' 3 100, s_lot ''b'' 5 110] \<and> room 0 1000000
   \<and> (\<exists>kept taken. take_lots [s_lot ''a'' 3 100, s_lot ''b'' 5 110] (usd 4 0) = Ok (kept, taken)
        \<and> map lq kept = [4] \<and> map lq taken = [3, 1])"
proof -
  have l: "list_all (lot_on 0 1000000 0 1000000) [s_lot ''a'' 3 100, s_lot ''b'' 5 110]" by (simp add: s_lot_on)
  have r: "room 0 1000000" using s_room by (simp add: book_room_def)
  from l r take_lots_fifo [OF r l, of "usd 4 0"] show ?thesis
    by (auto simp: usd_whole small_mantissa grid_numeral s_lot_def)
qed

text \<open>
  C2. A trade moves a position by exactly its signed quantity, and the position stays consistent:
  one side, quantity equal to the signed sum of its lots. A trade on the side of the position adds
  a lot and realizes nothing; one against it closes lots first in, first out, realizes exactly the
  profit of the closed part, and turns into a lot of the excess when it is larger than the position.
\<close>

theorem apply_trade_position:
  assumes "book_room k B kp P mult" "popt_ok k B kp P pos" "trade_on k B kp P q px"
    and "\<bar>pos_quantity pos\<bar> + mval q \<le> B" "apply_trade a pos i s q px ts lid mult = Ok p'"
  shows "pos_ok k B kp P p' \<and> mval (p_quantity p') = pos_quantity pos + sgn_side s * mval q
    \<and> (if 0 \<le> pos_quantity pos * sgn_side s
       then p_realized_pnl p' = pos_realized pos \<and> map lq (p_open_lots p') = map lq (pos_lots pos) @ [mval q]
       else (\<exists>pnl. dadd (pos_realized pos) pnl = Ok (p_realized_pnl p')
              \<and> mval pnl = fifo_gain (mval px) (pos_lots pos) (min \<bar>pos_quantity pos\<bar> (mval q)) * of_int mult)
         \<and> map lq (p_open_lots p') =
             (if mval q \<le> \<bar>pos_quantity pos\<bar> then fifo_left (map lq (pos_lots pos)) (mval q)
              else [mval q - \<bar>pos_quantity pos\<bar>]))"
  by (rule apply_trade_ok [OF assms])

definition s_long :: position where
  "s_long = \<lparr>p_account_id = ''acc'', p_instrument = Equity ''AAPL'', p_quantity = usd 8 0, p_avg_cost = usd 10625 2,
     p_realized_pnl = ZERO, p_open_lots = [s_lot ''a'' 3 100, s_lot ''b'' 5 110]\<rparr>"

theorem apply_trade_position_witness:
  "popt_ok 0 1000000 0 1000000 (Some s_long) \<and> book_room 0 1000000 0 1000000 1
   \<and> (\<exists>p'. apply_trade ''acc'' (Some s_long) (Equity ''AAPL'') Sell (usd 10 0) (usd 120 0) noon ''f9'' 1 = Ok p'
        \<and> mval (p_quantity p') = - 2 \<and> map lq (p_open_lots p') = [2])"
proof -
  let ?r = "apply_trade ''acc'' (Some s_long) (Equity ''AAPL'') Sell (usd 10 0) (usd 120 0) noon ''f9'' 1"
  have p: "popt_ok 0 1000000 0 1000000 (Some s_long)"
    by (auto simp: popt_ok_def pos_ok_def s_long_def usd_whole small_mantissa s_lot_on grid_numeral)
      (auto simp: s_lot_def usd_whole intro!: exI [of _ Buy])
  have t: "trade_on 0 1000000 0 1000000 (usd 10 0) (usd 120 0)"
    by (simp add: trade_on_def usd_whole small_mantissa grid_numeral)
  have b: "\<bar>pos_quantity (Some s_long)\<bar> + mval (usd 10 0) \<le> 1000000" by (simp add: pos_quantity_def s_long_def usd_whole)
  have "is_ok ?r" by code_simp
  then obtain p' where p': "?r = Ok p'" by (auto simp: is_ok_iff)
  from apply_trade_position [OF s_room p t b p'] show ?thesis
    using p s_room p' by (auto simp: pos_quantity_def s_long_def usd_whole)
qed

subsection \<open>The fold\<close>

text \<open>The fills a log books, in order.\<close>

definition fills_of :: "event list \<Rightarrow> fill list" where
  "fills_of evs = List.map_filter (\<lambda>e. case ev_payload e of OFill fl \<Rightarrow> Some fl | _ \<Rightarrow> None) evs"

lemma apply_event_fills:
  assumes "book_inv st" "apply_event x st ev = Ok st'"
  shows "a_fills st' = a_fills st @ fills_of [ev]"
proof -
  obtain st1 where st1: "dispatch x st ev = Ok st1" "a_fills st' = a_fills st1" using assms(2) by (auto elim!: apply_event_Ok)
  have "st_wf st" using assms(1) by (simp add: book_inv_def)
  from dispatch_fills [OF this st1(1)] st1(2) show ?thesis
    by (auto simp: fills_of_def map_filter_simps split: obj.splits)
qed

lemma log_fills: "fold_r (apply_event x) st evs = Ok st' \<Longrightarrow> book_inv st \<Longrightarrow> a_fills st' = a_fills st @ fills_of evs"
proof (induction evs arbitrary: st)
  case (Cons e es)
  then obtain s1 where s1: "apply_event x st e = Ok s1" "fold_r (apply_event x) s1 es = Ok st'" by auto
  from Cons.IH [OF s1(2) apply_event_book_inv [OF Cons.prems(2) s1(1)]] apply_event_fills [OF Cons.prems(2) s1(1)]
  show ?case by (simp add: fills_of_def map_filter_simps split: option.splits)
qed (simp add: fills_of_def map_filter_simps)

text \<open>
  C3. The state of an account is a fold of its log that books every fill exactly once: the fills of
  the state are the fills of the events, in the order of the fold, with distinct ids. So a log that
  names a fill twice is refused; the recorded id set is the set of those ids, and the halt flag is
  set exactly when some venue is halted.
\<close>

theorem log_books_fills_once:
  assumes "fold_r (apply_event x) (account_new a) evs = Ok st"
  shows "a_fills st = fills_of evs \<and> distinct (map f_fill_id (fills_of evs))
    \<and> a_fill_ids st = f_fill_id ` set (fills_of evs) \<and> (a_venue_halted st \<longleftrightarrow> a_halted_venues st \<noteq> {})"
proof -
  have "a_fills st = fills_of evs" using log_fills [OF assms book_inv_new] by (simp add: account_new_def)
  moreover have "book_inv st" by (rule log_book_inv [OF assms book_inv_new])
  ultimately show ?thesis by (auto simp: book_inv_def fills_once_def halt_flag_ok_def)
qed

theorem log_books_fills_once_witness:
  "fold_r (apply_event sample_ext) (account_new ''acc'') [s_submit, s_fill4] = Ok s_partial
   \<and> map f_fill_id (a_fills s_partial) = [''f1'']"
proof -
  have l: "fold_r (apply_event sample_ext) (account_new ''acc'') [s_submit, s_fill4] = Ok s_partial"
    by (simp add: s_submit_step s_fill_step)
  from log_books_fills_once [OF l] l show ?thesis
    by (simp add: fills_of_def map_filter_simps s_submit_def s_fill4_def s_event_def s_fill_def)
qed

text \<open>
  C26. A terminal order state is final: whatever events follow, an order that is filled, cancelled,
  expired or rejected stays in the account with that state.
\<close>

theorem terminal_order_final:
  assumes "fold_r (apply_event x) (account_new a) before = Ok st" "fold_r (apply_event x) st later = Ok st'"
    and "omap_get (a_orders st) i = Some r" "terminal_state (o_state r)"
  shows "\<exists>r'. omap_get (a_orders st') i = Some r' \<and> o_state r' = o_state r"
  by (rule log_terminal [OF assms(2) log_book_inv [OF assms(1) book_inv_new] assms(3,4)])

theorem terminal_order_final_witness:
  "fold_r (apply_event sample_ext) (account_new ''acc'') [s_submit, s_cancel] = Ok s_done
   \<and> fold_r (apply_event sample_ext) s_done [s_mark] = Ok s_marked
   \<and> (\<exists>r'. omap_get (a_orders s_marked) ''o1'' = Some r' \<and> o_state r' = Cancelled)"
proof -
  have b: "fold_r (apply_event sample_ext) (account_new ''acc'') [s_submit, s_cancel] = Ok s_done"
    by (simp add: s_submit_step s_cancel_step)
  have l: "fold_r (apply_event sample_ext) s_done [s_mark] = Ok s_marked" by (simp add: s_mark_step)
  have r: "omap_get (a_orders s_done) ''o1'' = Some (s_order\<lparr>o_state := Cancelled\<rparr>)"
    by (simp add: s_done_def s_open_def omap_get_put)
  from terminal_order_final [OF b l r] b l show ?thesis by (simp add: terminal_state_def)
qed

text \<open>
  C25. No order is filled over its quantity: if the filled quantity of every order is within its
  size, it still is after any event, except an \<open>OrderSubmitted\<close> that names an order already
  partly filled.
\<close>

theorem event_keeps_not_overfilled:
  assumes "book_inv st" "not_overfilled st" "apply_event x st ev = Ok st'" "\<not> resubmits_filled st ev"
  shows "not_overfilled st'"
  using apply_event_not_overfilled assms by (auto simp: book_inv_def)

theorem event_keeps_not_overfilled_witness:
  "book_inv s_open \<and> not_overfilled s_open \<and> \<not> resubmits_filled s_open s_fill4 \<and> not_overfilled s_partial"
proof -
  have "book_inv s_open" using log_book_inv [of sample_ext "account_new ''acc''" "[s_submit]"] by (simp add: s_submit_step)
  moreover have "not_overfilled s_open" by (simp add: not_overfilled_def s_open_def account_new_def)
  moreover have "\<not> resubmits_filled s_open s_fill4" by (simp add: resubmits_filled_def s_fill4_def s_event_def)
  ultimately show ?thesis using event_keeps_not_overfilled s_fill_step by blast
qed

text \<open>
  What an order keeps along a log. Its state moves along the table of transitions, or from \<open>Submitted\<close> anywhere by a
  second \<open>OrderSubmitted\<close> that names it.
\<close>

definition order_identity :: "order \<Rightarrow> string \<times> side \<times> string option \<times> string option" where
  "order_identity r = (o_account_id r, o_side r, o_parent_order_id r, o_oco_group r)"

definition submits_order :: "string \<Rightarrow> event \<Rightarrow> bool" where
  "submits_order i ev \<longleftrightarrow> (\<exists>q. ev_payload ev = OOrder q \<and> o_order_id q = i)"

definition order_route :: "bool \<Rightarrow> order_state \<Rightarrow> order_state \<Rightarrow> bool" where
  "order_route again s t \<longleftrightarrow> allowed s t \<or> again \<and> s = Submitted"

definition order_follows :: "bool \<Rightarrow> order \<Rightarrow> order \<Rightarrow> bool" where
  "order_follows again r r' \<longleftrightarrow> o_command_id r' = o_command_id r \<and> (order_route again)\<^sup>*\<^sup>* (o_state r) (o_state r')
     \<and> (again \<or> order_identity r' = order_identity r)"

lemma order_follows_refl: "order_follows again r r"
  by (simp add: order_follows_def)

lemma order_follows_step:
  assumes "o_command_id r' = o_command_id r" "o_state r' = o_state r \<or> allowed (o_state r) (o_state r') \<or> again \<and> o_state r = Submitted"
    "again \<or> order_identity r' = order_identity r"
  shows "order_follows again r r'"
  using assms by (auto simp: order_follows_def order_route_def intro: r_into_rtranclp)

lemma order_follows_trans:
  assumes "order_follows a r r'" "order_follows b r' r''"
  shows "order_follows (a \<or> b) r r''"
proof -
  have mono: "(order_route c)\<^sup>*\<^sup>* s t \<Longrightarrow> (order_route (a \<or> b))\<^sup>*\<^sup>* s t" if "c \<longrightarrow> a \<or> b" for c s t
    by (erule rtranclp_mono [THEN predicate2D, rotated]) (use that in \<open>auto simp: order_route_def\<close>)
  have "(order_route (a \<or> b))\<^sup>*\<^sup>* (o_state r) (o_state r')" "(order_route (a \<or> b))\<^sup>*\<^sup>* (o_state r') (o_state r'')"
    using assms mono by (auto simp: order_follows_def)
  then have "(order_route (a \<or> b))\<^sup>*\<^sup>* (o_state r) (o_state r'')" by (rule rtranclp_trans)
  then show ?thesis using assms by (auto simp: order_follows_def)
qed

lemma created_follows:
  assumes "on_orders_created x st c = Ok st'" "omap_inv (a_orders st)" "omap_get (a_orders st) i = Some r"
  shows "\<exists>r'. omap_get (a_orders st') i = Some r' \<and> order_follows False r r'"
proof -
  let ?P = "\<lambda>s. omap_inv (a_orders s) \<and> (\<exists>r'. omap_get (a_orders s) i = Some r' \<and> order_follows False r r')"
  have "?P st'"
  proof (rule fold_r_invariant [OF assms(1) [unfolded on_orders_created_def]])
    show "?P st" using assms(2,3) order_follows_refl by blast
  next
    fix s1 ord s2 assume p: "?P s1" and ok: "create_order x s1 ord = Ok s2"
    then obtain r1 where r1: "omap_get (a_orders s1) i = Some r1" "order_follows False r r1" by blast
    have s2: "s2 = s1\<lparr>a_orders := omap_put (a_orders s1) (o_order_id ord) ord\<rparr>"
      and same: "i = o_order_id ord \<Longrightarrow> order_same x r1 ord"
      using ok r1(1) by (auto simp: create_order_def split: if_splits option.splits)
    have "order_follows False r ord" if "i = o_order_id ord"
      using order_follows_trans [OF r1(2) order_follows_step [of ord r1 False]] same [OF that] by (auto simp: order_same_def order_identity_def)
    then show "?P s2" using p r1 s2 by (auto simp: omap_get_put)
  qed
  then show ?thesis by blast
qed

lemma dispatch_follows:
  assumes wf: "st_wf st" and ok: "dispatch x st ev = Ok st'" and r: "omap_get (a_orders st) i = Some r"
  shows "\<exists>r'. omap_get (a_orders st') i = Some r' \<and> order_follows (submits_order i ev) r r'"
proof -
  have inv: "omap_inv (a_orders st)" "omap_inv (a_filled_quantity st)" using wf by (auto simp: st_wf_def)
  have kept: "order_follows again q q" for again q by (rule order_follows_refl)
  have step: "order_follows again q (q\<lparr>o_state := t\<rparr>)" if "o_state q = t \<or> allowed (o_state q) t" for again q t
    by (rule order_follows_step) (use that in \<open>auto simp: order_identity_def\<close>)
  show ?thesis
  proof (cases "ev_payload ev")
    case (OFill fl)
    then have "on_fill st fl = Ok st'" using ok by (simp add: dispatch_def)
    from this inv(2) show ?thesis
    proof (cases rule: on_fill_effect)
      case (1 ord ord' b pos lf cash realized)
      have "order_follows again ord ord'" for again by (subst 1(3)) (rule step, use 1(4) in auto)
      then show ?thesis using 1(1,8) inv(1) r kept by (auto simp: omap_get_put)
    qed
  next
    case (OLifecycle n)
    then have "on_lifecycle x st n (ev_kind ev) = Ok st'" using ok by (simp add: dispatch_def)
    then show ?thesis by (cases rule: on_lifecycle_frame) (use r kept in simp)
  next
    case (OOrderUpdated u)
    then have "on_order_updated st u = Ok st'" using ok by (simp add: dispatch_def)
    then show ?thesis
    proof (cases rule: on_order_updated_frame)
      case (1 prev vo em)
      have "order_follows again prev (up_order u)" for again
        by (rule order_follows_step) (use 1(2,3) in \<open>auto simp: identity_changed_def order_identity_def\<close>)
      then show ?thesis using 1(1,5) inv(1) r kept by (auto simp: omap_get_put)
    qed
  next
    case (OStateChange c)
    then have "on_state_change st c (ev_kind ev) = Ok st'" using ok by (simp add: dispatch_def)
    then show ?thesis
    proof (cases rule: on_state_change_Ok)
      case (1 to)
      then show ?thesis by (cases rule: on_order_state_frame) (use inv(1) r kept step in \<open>auto simp: omap_get_put\<close>)
    qed (use r kept in simp)
  next
    case (OOrder q)
    then have "on_order_submitted st q = Ok st'" using ok by (simp add: dispatch_def)
    then show ?thesis
    proof (cases rule: on_order_submitted_frame)
      case (1 ord)
      have "order_follows True r ord" if "i = o_order_id q"
        by (rule order_follows_step) (use 1(1,2) r that in auto)
      then show ?thesis using 1(3) inv(1) r kept OOrder by (auto simp: omap_get_put submits_order_def)
    qed
  next
    case (OOrdersCreated c)
    then have "on_orders_created x st c = Ok st'" using ok by (simp add: dispatch_def)
    from created_follows [OF this inv(1) r] show ?thesis using OOrdersCreated by (simp add: submits_order_def)
  qed (use ok r kept in \<open>auto simp: dispatch_def mirror_step_Ok on_halt_cleared_def on_reconcile_def Let_def split: if_splits\<close>)
qed

lemma log_follows:
  assumes "fold_r (apply_event x) st evs = Ok st'" "book_inv st" "omap_get (a_orders st) i = Some r"
  shows "\<exists>r'. omap_get (a_orders st') i = Some r' \<and> order_follows (\<exists>e \<in> set evs. submits_order i e) r r'"
  using assms
proof (induction evs arbitrary: st r)
  case (Cons e es)
  then obtain s1 where s1: "apply_event x st e = Ok s1" "fold_r (apply_event x) s1 es = Ok st'" by auto
  obtain r1 where r1: "omap_get (a_orders s1) i = Some r1" "order_follows (submits_order i e) r r1"
    using s1(1) dispatch_follows [of st x e _ i r] Cons.prems(2,3) by (cases rule: apply_event_Ok) (auto simp: book_inv_def)
  from Cons.IH [OF s1(2) apply_event_book_inv [OF Cons.prems(2) s1(1)] r1(1)] order_follows_trans [OF r1(2)] show ?case by auto
qed (auto simp: order_follows_refl)

text \<open>
  C33. An order keeps its command. Whatever events follow, an order of the account stays there under the command that
  created it; its state moves along the table of transitions, and only from \<open>SUBMITTED\<close> elsewhere, when the events
  submit the order again; and unless they do, its account, side, parent and group stay too. A second submission of a
  \<open>SUBMITTED\<close> order is taken as it is: in the log of the witness the order is filled by four of ten, becomes
  unknown, is submitted again with the quantity one, and is left over-filled.
\<close>

theorem order_keeps_command:
  assumes "fold_r (apply_event x) (account_new a) before = Ok st" "fold_r (apply_event x) st later = Ok st'"
    and "omap_get (a_orders st) i = Some r" "again \<longleftrightarrow> (\<exists>e \<in> set later. submits_order i e)"
  shows "\<exists>r'. omap_get (a_orders st') i = Some r' \<and> o_command_id r' = o_command_id r
    \<and> (\<lambda>s t. allowed s t \<or> again \<and> s = Submitted)\<^sup>*\<^sup>* (o_state r) (o_state r')
    \<and> (again \<or> (o_account_id r', o_side r', o_parent_order_id r', o_oco_group r') = (o_account_id r, o_side r, o_parent_order_id r, o_oco_group r))"
proof -
  have "order_route again = (\<lambda>s t. allowed s t \<or> again \<and> s = Submitted)" by (intro ext) (simp add: order_route_def)
  then show ?thesis
    using log_follows [OF assms(2) log_book_inv [OF assms(1) book_inv_new] assms(3)] assms(4) by (simp add: order_follows_def order_identity_def)
qed

definition s_pending :: event where "s_pending = s_event 3 KOrderPending (OStateChange s_change)"
definition s_back :: event where
  "s_back = s_event 4 KOrderUpdated (OOrderUpdated \<lparr>up_order = s_order\<lparr>o_state := Submitted\<rparr>, up_reason = ''found'', up_venue_order_id = None\<rparr>)"
definition s_again :: event where "s_again = s_event 5 KOrderSubmitted (OOrder (s_order\<lparr>o_quantity := usd 1 0\<rparr>))"

definition s_shrunk :: account_state where
  "s_shrunk = s_partial\<lparr>a_orders := omap_put (omap_put (omap_put (a_orders s_partial) ''o1'' (s_order\<lparr>o_state := PendingUnknown\<rparr>))
     ''o1'' (s_order\<lparr>o_state := Submitted\<rparr>)) ''o1'' (s_order\<lparr>o_quantity := usd 1 0, o_state := Submitted\<rparr>), a_last_seq := 5\<rparr>"

lemma s_partial_order:
  "omap_get (a_orders s_partial) ''o1'' = Some (s_order\<lparr>o_state := PartiallyFilled\<rparr>)"
  "omap_get (a_filled_quantity s_partial) ''o1'' = Some (usd 4 0)" "omap_get (a_emulated_orders s_partial) ''o1'' = None"
  by code_simp+

lemma s_partial_inv: "book_inv s_partial"
  using log_book_inv [of sample_ext "account_new ''acc''" "[s_submit, s_fill4]"] by (simp add: s_submit_step s_fill_step)

lemma s_shrunk_steps: "fold_r (apply_event sample_ext) s_partial [s_pending, s_back, s_again] = Ok s_shrunk"
proof -
  let ?p = "s_order\<lparr>o_state := PendingUnknown\<rparr>" and ?b = "s_order\<lparr>o_state := Submitted\<rparr>"
  let ?s1 = "s_partial\<lparr>a_orders := omap_put (a_orders s_partial) ''o1'' ?p, a_last_seq := 3\<rparr>"
  let ?s2 = "?s1\<lparr>a_orders := omap_put (a_orders ?s1) ''o1'' ?b, a_last_seq := 4\<rparr>"
  have inv: "omap_inv (a_orders s_partial)" "omap_inv (a_filled_quantity s_partial)" using s_partial_inv by (simp_all add: book_inv_def st_wf_def)
  have f: "o_order_id s_order = ''o1''" "o_state s_order = New" "o_quantity s_order = usd 10 0" "o_instrument s_order = Equity ''AAPL''"
    by (simp_all add: s_order_def)
  have "apply_event sample_ext s_partial s_pending = Ok ?s1"
    by (simp add: apply_event_def dispatch_def s_pending_def s_event_def on_state_change_def on_order_state_def require_order_def
        transition_to_def validate_transition_def s_change_def note_venue_order_id_def s_partial_order)
  moreover have "apply_event sample_ext ?s1 s_back = Ok ?s2"
    using inv by (simp add: apply_event_def dispatch_def s_back_def s_event_def on_order_updated_def require_order_def omap_get_put Let_def
        identity_changed_def validate_transition_def note_venue_order_id_def reset_emulation_def omap_get_zero_def s_partial_order f usd_whole)
  moreover have "apply_event sample_ext ?s2 s_again = Ok s_shrunk"
    using inv by (simp add: apply_event_def dispatch_def s_again_def s_event_def on_order_submitted_def transition_to_def
        validate_transition_def s_shrunk_def omap_get_put f)
  ultimately show ?thesis by simp
qed

theorem order_keeps_command_witness:
  "fold_r (apply_event sample_ext) (account_new ''acc'') [s_submit, s_fill4] = Ok s_partial
   \<and> fold_r (apply_event sample_ext) s_partial [s_pending, s_back, s_again] = Ok s_shrunk
   \<and> (\<exists>r'. omap_get (a_orders s_shrunk) ''o1'' = Some r' \<and> o_command_id r' = ''c1'')
   \<and> not_overfilled s_partial \<and> \<not> not_overfilled s_shrunk"
proof -
  have b: "fold_r (apply_event sample_ext) (account_new ''acc'') [s_submit, s_fill4] = Ok s_partial"
    by (simp add: s_submit_step s_fill_step)
  have l: "fold_r (apply_event sample_ext) s_partial [s_pending, s_back, s_again] = Ok s_shrunk"
    by (rule s_shrunk_steps)
  obtain r where r: "omap_get (a_orders s_partial) ''o1'' = Some r" "o_command_id r = ''c1''"
    using s_partial_order(1) by (simp add: s_order_def)
  obtain r' where r': "omap_get (a_orders s_shrunk) ''o1'' = Some r'" "o_command_id r' = ''c1''"
    using order_keeps_command [OF b l r(1) refl] r(2) by auto
  have "book_inv s_open" using log_book_inv [of sample_ext "account_new ''acc''" "[s_submit]"] by (simp add: s_submit_step)
  then have "st_wf s_open" by (simp add: book_inv_def)
  moreover have "not_overfilled s_open" "\<not> resubmits_filled s_open s_fill4"
    by (simp_all add: not_overfilled_def s_open_def account_new_def resubmits_filled_def s_fill4_def s_event_def)
  ultimately have "not_overfilled s_partial" using apply_event_not_overfilled [OF _ s_fill_step] by blast
  moreover have "\<not> not_overfilled s_shrunk"
    using s_partial_inv s_partial_order(2)
    by (auto simp: s_shrunk_def not_overfilled_def omap_get_zero_def omap_get_put book_inv_def st_wf_def usd_whole intro!: exI [of _ "''o1''"])
  ultimately show ?thesis using b l r' by blast
qed

text \<open>
  C27. Folding one account's events alone gives the account's entry of the fold of the whole log,
  when every event carries a sequence number: the events of other accounts do not matter.
\<close>

theorem fold_account_is_projection:
  assumes "\<forall>e \<in> set evs. ev_seq e \<noteq> None" "fold_log x evs = Ok states"
  shows "fold_account x evs a = Ok (account_of states a)"
  by (rule fold_account_projects [OF assms])

theorem fold_account_is_projection_witness:
  "\<exists>states. fold_log sample_ext s_log = Ok states \<and> account_of states ''acc'' = s_partial
     \<and> fold_account sample_ext s_log ''acc'' = Ok s_partial"
proof -
  obtain states where s: "fold_log sample_ext s_log = Ok states" "account_of states ''acc'' = s_partial"
    using s_log_all by blast
  have "\<forall>e \<in> set s_log. ev_seq e \<noteq> None" by (simp add: s_log_def s_account)
  from fold_account_is_projection [OF this s(1), of "''acc''"] s show ?thesis by auto
qed

end
