(* ===== verification/Mirror_Props.thy ===== *)
theory Mirror_Props
  imports Samples
begin

section \<open>Properties of the venue mirror\<close>

text \<open>
  Splitting of fills, the invariant over every run of the handlers, the order in time of a ticket,
  replays, and that a payload its constructor accepts meets what the invariant asks of it.
\<close>

lemma dec_eq_refl [simp]: "dec_eq a a" "opt_dec_eq d d"
  by (simp_all add: dec_eq_def) (cases d; simp add: dec_eq_def)

lemma instr_same_refl: "instr_same i i" and legs_same_refl: "legs_same ls ls"
proof (induction i and ls rule: instr_hk_legs_hk.induct)
  case (1 s) then show ?case by simp
next
  case (2 c) then show ?case by (simp add: option_same_def)
next
  case (3 legs) then show ?case by simp
next
  case (4 f) then show ?case by (simp add: future_same_def)
next
  case 5 then show ?case by simp
next
  case (6 c r s ls) then show ?case by simp
qed

lemma queued_same_refl: "queued_same x q q"
  by (simp add: queued_same_def instr_same_refl list.rel_refl alloc_same_def dt_same_def)

subsection \<open>Replays\<close>

lemma on_queued_replay:
  assumes "on_queued x s q = Ok s'" "mirror_wf s"
  shows "on_queued x s' q = Ok s'"
  using assms(1)
proof (cases rule: on_queued_Ok)
  case new
  with assms(2) have "omap_get (ms_tickets s') (mq_ticket_key q) = Some (ticket_new q)" "ms_venue s' = Some (mq_venue q)"
    by (simp_all add: omap_get_put mirror_wf_def)
  then show ?thesis by (simp add: on_queued_def check_venue_def ticket_new_def queued_same_refl)
qed (use assms in simp)

lemma on_refused_replay:
  assumes "on_refused s r = Ok s'" "mirror_wf s"
  shows "on_refused s' r = Ok s'"
  using assms by (auto simp: on_refused_def Let_def check_venue_def omap_contains_get omap_get_put mirror_wf_def split: if_splits)

lemma mirror_on_fill_replay:
  assumes "mirror_on_fill s fl = Ok s'" "mirror_wf s"
  shows "mirror_on_fill s' fl = Ok s'"
  using assms(1)
proof (cases rule: mirror_on_fill_Ok)
  case (fill t lacking whole amount pieces al bk)
  have t: "omap_get (ms_tickets s) (mf_ticket_key fl) = Some t" using fill(1) by (auto simp: ticket_def split: option.splits)
  have "mt_venue_order_id t = Some (mf_venue_order_id fl)" "check_venue s (mf_venue fl) = Ok ()"
    using assms(1) fill(1) by (auto simp: mirror_on_fill_def split: if_splits)
  moreover have "check_venue s' v = check_venue s v" for v using fill(9) by (simp add: check_venue_def)
  ultimately show ?thesis using t fill(3,9) assms(2)
    by (simp add: mirror_on_fill_def ticket_def omap_get_get_mut mirror_wf_def dec_eq_def)
qed (use assms in simp)

subsection \<open>The order in time of a ticket\<close>

definition later :: "mirror_ticket_state \<Rightarrow> mirror_ticket_state \<Rightarrow> bool" where
  "later t t' \<longleftrightarrow> mt_queued t' = mt_queued t \<and> mval (mt_filled t) \<le> mval (mt_filled t')
     \<and> (mt_closed t \<longrightarrow> mt_closed t') \<and> (mt_venue_order_id t \<noteq> None \<longrightarrow> mt_venue_order_id t' = mt_venue_order_id t)"

lemma later_refl [simp]: "later t t"
  by (simp add: later_def)

lemma later_trans: "later t u \<Longrightarrow> later u v \<Longrightarrow> later t v"
  by (auto simp: later_def)

lemma ack_later:
  assumes "on_ack s a = Ok s'" "omap_get (ms_tickets s) k = Some t" "omap_inv (ms_tickets s)"
  shows "\<exists>t'. omap_get (ms_tickets s') k = Some t' \<and> later t t'"
proof (cases "k = ak_ticket_key a")
  case True
  with assms show ?thesis
    by (auto simp: on_ack_def Let_def ticket_def ack_order_id_def omap_get_get_mut later_def split: option.splits if_splits)
next
  case False
  with assms show ?thesis by (auto simp: on_ack_def Let_def omap_get_get_mut)
qed

lemma fill_later:
  assumes "mirror_on_fill s fl = Ok s'" "omap_get (ms_tickets s) k = Some t" "omap_inv (ms_tickets s)"
  shows "\<exists>t'. omap_get (ms_tickets s') k = Some t' \<and> later t t'"
  using assms(1)
proof (cases rule: mirror_on_fill_Ok)
  case (fill u lacking whole amount pieces al bk)
  have "omap_get (ms_tickets s) (mf_ticket_key fl) = Some u" using fill(1) by (auto simp: ticket_def split: option.splits)
  then show ?thesis using assms(2,3) fill(2,9) by (auto simp: omap_get_get_mut later_def)
qed (use assms in auto)

lemma queued_later:
  assumes "on_queued x s q = Ok s'" "omap_get (ms_tickets s) k = Some t" "omap_inv (ms_tickets s)"
  shows "\<exists>t'. omap_get (ms_tickets s') k = Some t' \<and> later t t'"
  using assms(1) by (cases rule: on_queued_Ok) (use assms in \<open>auto simp: omap_get_put\<close>)

lemma mirror_tr_later:
  assumes "mirror_tr x s s'" "omap_get (ms_tickets s) k = Some t" "mirror_ok s"
  shows "\<exists>t'. omap_get (ms_tickets s') k = Some t' \<and> later t t'"
proof -
  have i: "omap_inv (ms_tickets s)" using assms(3) by (simp add: mirror_ok_def mirror_wf_def)
  from assms(1) show ?thesis
  proof cases
    case (tr_refused r)
    then show ?thesis using assms(2) by (auto simp: on_refused_def Let_def split: if_splits)
  qed (use assms(2) i in \<open>blast intro: queued_later ack_later fill_later\<close>)+
qed

lemma mirror_reach_later:
  assumes "(mirror_tr x)\<^sup>*\<^sup>* s s'" "mirror_ok s" "omap_get (ms_tickets s) k = Some t"
  shows "\<exists>t'. omap_get (ms_tickets s') k = Some t' \<and> later t t'"
  using assms
proof (induction rule: rtranclp_induct)
  case (step u v)
  then show ?case using mirror_tr_later mirror_reachable_ok later_trans by metis
qed auto

subsection \<open>Payloads\<close>

lemma require_whole_Ok:
  assumes "require_whole v name True = Ok d" "canonical v"
  shows "d = v \<and> (\<exists>n > 0. whole_amt v n)"
proof -
  have *: "d = v" "is_integral v" "\<not> mval v < 0" "mval v \<noteq> 0"
    using assms(1) by (auto simp: require_whole_def lt0_def Let_def split: if_splits)
  then obtain n where n: "mval v = of_int n" using is_integral_iff [OF assms(2)] by (auto elim: Ints_cases)
  with * have "0 < n" by simp
  with * n assms(2) show ?thesis by (auto simp: whole_amt_def)
qed

lemma alloc_total_whole:
  assumes "list_all2 whole_amt (map ma_quantity as) xs" "\<forall>x \<in> set xs. 0 < x" "sum_list xs < 10 ^ 28"
  shows "\<exists>t. alloc_total as = Ok t \<and> whole_amt t (sum_list xs)"
proof -
  have "fold_r (\<lambda>t a. map_err derr (money_add t (ma_quantity a))) ZERO as = fold_r dadd ZERO (map ma_quantity as)"
    for as :: "mirror_allocation list"
  proof -
    have "fold_r (\<lambda>t a. map_err derr (money_add t (ma_quantity a))) z as = fold_r dadd z (map ma_quantity as)" for z
    proof (induction as arbitrary: z)
      case (Cons a as)
      then show ?case by (cases "money_add z (ma_quantity a)") (simp_all add: dadd_def)
    qed simp
    then show ?thesis .
  qed
  with whole_sum [OF assms(1) _ whole_amt_zero] assms(2,3) show ?thesis by (auto simp: alloc_total_def less_imp_le)
qed

subsection \<open>A fill in range is accepted\<close>

definition book_within :: "('k, money) omap \<Rightarrow> int \<Rightarrow> bool" where
  "book_within m b \<longleftrightarrow> omap_inv m \<and> (\<forall>k. \<exists>n. whole_amt (omap_get_zero m k) n \<and> \<bar>n\<bar> \<le> b)"

lemma book_within_new: "book_within omap_new 0"
  by (auto simp: book_within_def omap_get_zero_def intro!: exI [of _ 0])

lemma book_within_mono: "book_within m b \<Longrightarrow> b \<le> c \<Longrightarrow> book_within m c"
  unfolding book_within_def by (meson order_trans)

lemma book_add_within:
  assumes "book_within book b" "whole_amt v n" "\<bar>n\<bar> \<le> d" "b + d < 10 ^ 28"
  shows "\<exists>book'. book_add account book (i, v) = Ok book' \<and> book_within book' (b + d)"
proof -
  let ?hk = "book_hk account i"
  obtain m where m: "whole_amt (omap_get_zero book ?hk) m" "\<bar>m\<bar> \<le> b" using assms(1) by (auto simp: book_within_def)
  obtain t where t: "dadd (omap_get_zero book ?hk) v = Ok t" "whole_amt t (m + n)"
    using whole_add [OF m(1) assms(2)] m(2) assms(3,4) by fastforce
  define book' where "book' = (if money_eq t ZERO then snd (omap_remove book ?hk) else omap_insert book ?hk (account, i) t)"
  have inv: "omap_inv book" using assms(1) by (simp add: book_within_def)
  have "\<exists>l. whole_amt (omap_get_zero book' k) l \<and> \<bar>l\<bar> \<le> b + d" for k
  proof (cases "k = ?hk")
    case True
    have "whole_amt (omap_get_zero book' k) (m + n)"
      using t(2) inv True by (auto simp: book'_def omap_get_zero_def omap_get_remove omap_get_insert whole_amt_def)
    then show ?thesis using m(2) assms(3) by fastforce
  next
    case False
    then have "omap_get_zero book' k = omap_get_zero book k"
      using inv by (simp add: book'_def omap_get_zero_def omap_get_remove omap_get_insert)
    moreover have "0 \<le> d" using assms(3) by simp
    ultimately show ?thesis using assms(1) unfolding book_within_def by (metis add_increasing2 order_trans le_add_same_cancel1)
  qed
  then have "book_within book' (b + d)" using inv by (simp add: book_within_def book'_def)
  with t(1) show ?thesis unfolding book_add_def book'_def Let_def by auto
qed

lemma single_contract:
  assumes "\<nexists>legs. mq_instrument q = Combo legs" "whole_amt u n" "\<bar>n\<bar> < 10 ^ 28"
  shows "\<exists>cs v m. ticket_contracts q u = Ok cs \<and> omap_iter cs = [(mq_instrument q, v)] \<and> whole_amt v m \<and> \<bar>m\<bar> = \<bar>n\<bar>"
proof -
  have s: "whole_amt (money_int (sign (mq_side q))) (sign (mq_side q))"
    by (cases "mq_side q") (simp_all add: whole_amt_def money_int_def canonical_def mval_def dval_def MANTISSA_LIMIT_def)
  obtain v where v: "dmul (money_int (sign (mq_side q))) u = Ok v" "whole_amt v (sign (mq_side q) * n)"
    using whole_mul [OF s assms(2)] assms(3) by (cases "mq_side q") auto
  have "ticket_contracts q u = Ok (omap_insert omap_new (instr_hk (mq_instrument q)) (mq_instrument q) v)"
    using assms(1) v(1)
    by (cases "mq_instrument q") (auto simp: ticket_contracts_def signed_contracts_def signed_one_def units_signed_def)
  moreover have "omap_iter (omap_insert omap_new (instr_hk (mq_instrument q)) (mq_instrument q) v) = [(mq_instrument q, v)]"
    by (simp add: omap_iter_def omap_insert_def omap_new_def)
  ultimately show ?thesis using v(2) by (cases "mq_side q") (auto intro!: exI)
qed

lemma book_pieces_total:
  assumes "length as = length pieces" "list_all2 whole_amt pieces ps" "\<forall>p \<in> set ps. 0 \<le> p"
    and "omap_inv al" "distinct (map ma_strategy_order_id as)"
    and "\<forall>a \<in> set as. \<exists>n. whole_amt (omap_get_zero al (ma_strategy_order_id a)) n \<and> 0 \<le> n \<and> n < 10 ^ 27"
    and "book_within bk b" "sum_list ps < 10 ^ 27" "b + sum_list ps < 10 ^ 28"
    and single: "\<nexists>legs. mq_instrument q = Combo legs"
  shows "\<exists>al' bk'. fold_r (book_piece q) (al, bk) (zip as pieces) = Ok (al', bk')"
  using assms(1-9)
proof (induction as pieces arbitrary: ps al bk b rule: list_induct2)
  case (Cons a as u pieces)
  obtain p ps' where p: "ps = p # ps'" "whole_amt u p" "list_all2 whole_amt pieces ps'" using Cons.prems(1) by (auto simp: list_all2_Cons1)
  have nn: "0 \<le> p" "0 \<le> sum_list ps'" using Cons.prems(2) p(1) by (auto intro: sum_list_nonneg)
  obtain n where n: "whole_amt (omap_get_zero al (ma_strategy_order_id a)) n" "0 \<le> n" "n < 10 ^ 27" using Cons.prems(5) by auto
  have "\<bar>n + p\<bar> < 10 ^ 28" using n nn Cons.prems(7) p(1) by simp
  then obtain now where now: "dadd (omap_get_zero al (ma_strategy_order_id a)) u = Ok now"
    using whole_add [OF n(1) p(2)] by blast
  let ?al = "omap_put al (ma_strategy_order_id a) now"
  have keep: "\<forall>a' \<in> set as. \<exists>n. whole_amt (omap_get_zero ?al (ma_strategy_order_id a')) n \<and> 0 \<le> n \<and> n < 10 ^ 27"
  proof
    fix a' assume "a' \<in> set as"
    moreover from this have "ma_strategy_order_id a' \<noteq> ma_strategy_order_id a" using Cons.prems(4) by (auto simp: image_iff)
    ultimately show "\<exists>n. whole_amt (omap_get_zero ?al (ma_strategy_order_id a')) n \<and> 0 \<le> n \<and> n < 10 ^ 27"
      using Cons.prems(3,5) by simp
  qed
  obtain cs v m where cs: "ticket_contracts q u = Ok cs" "omap_iter cs = [(mq_instrument q, v)]" "whole_amt v m" "\<bar>m\<bar> = \<bar>p\<bar>"
    using single_contract [OF single p(2)] nn Cons.prems(7) p(1) by auto
  obtain bk1 where bk1: "book_add (ma_strategy_account a) bk (mq_instrument q, v) = Ok bk1" "book_within bk1 (b + p)"
    using book_add_within [OF Cons.prems(6) cs(3), of p] cs(4) nn Cons.prems(8) p(1) by auto
  have "book_piece q (al, bk) (a, u) = Ok (?al, bk1)"
    using now cs(1,2) bk1(1) by (simp add: book_piece_def)
  with Cons.IH [OF p(3) _ _ _ keep bk1(2)] Cons.prems p(1) nn show ?case by (auto simp: add.assoc)
qed simp

lemma map_r_total: "(\<And>a. a \<in> set as \<Longrightarrow> \<exists>l. f a = Ok l) \<Longrightarrow> \<exists>ls. map_r f as = Ok ls"
  by (induction as) fastforce+

lemma is_split_nonneg:
  assumes "is_split ws w a ps" "\<forall>x \<in> set ws. 0 \<le> x" "0 < w" "0 \<le> a"
  shows "\<forall>p \<in> set ps. 0 \<le> p"
proof
  fix p assume "p \<in> set ps"
  then obtain i where i: "i < length ps" "p = ps ! i" by (metis in_set_conv_nth)
  have l: "length ws = length ps" using assms(1) by (auto simp: is_split_def dest: list_all2_lengthD)
  have "ws ! i * a div w \<le> p" using assms(1) i l by (auto simp: is_split_def list_all2_conv_all_nth)
  moreover have "0 \<le> ws ! i * a div w" using assms(2-4) i l by (simp add: pos_imp_zdiv_nonneg_iff)
  ultimately show "0 \<le> p" by simp
qed

lemma member_le_sum:
  assumes "list_all2 (\<lambda>g x. 0 \<le> g \<and> g \<le> x) gs xs" "i < length gs"
  shows "gs ! i \<le> (sum_list gs :: int)"
proof -
  have "\<forall>g \<in> set gs. 0 \<le> g" using assms(1) by (auto simp: list_all2_conv_all_nth in_set_conv_nth)
  then show ?thesis using assms(2) member_le_sum_list nth_mem by metis
qed

lemma fill_in_range:
  assumes t: "ticket_ok t" and new: "whole_amt F n" "mval (mt_filled t) < mval F" "mval F \<le> mval (mq_quantity (mt_queued t))"
    and single: "\<nexists>legs. mq_instrument (mt_queued t) = Combo legs" and bk: "book_within bk (10 ^ 27)"
  shows "\<exists>lacking whole amount pieces al bk'. map_r (lacking_of (mt_allocated t)) (allocs_of t) = Ok lacking
    \<and> dsub (mq_quantity (mt_queued t)) (mt_filled t) = Ok whole \<and> dsub F (mt_filled t) = Ok amount
    \<and> pro_rata lacking whole amount = Ok pieces
    \<and> fold_r (book_piece (mt_queued t)) (mt_allocated t, bk) (zip (allocs_of t) pieces) = Ok (al, bk')"
proof -
  obtain xs gs w f where xs: "list_all2 whole_amt (map ma_quantity (allocs_of t)) xs" "sum_list xs = w"
    and w: "whole_amt (mq_quantity (mt_queued t)) w" "w < 10 ^ 13" "\<forall>x \<in> set xs. x < 10 ^ 28"
    and gs: "list_all2 whole_amt (map (given t) (allocs_of t)) gs" "list_all2 (\<lambda>g x. 0 \<le> g \<and> g \<le> x) gs xs"
    and f: "whole_amt (mt_filled t) f" "sum_list gs = f" "0 \<le> f" "f \<le> w"
    by (rule ticket_ok_numbers [OF t])
  have fn: "f < n" "n \<le> w" using new w(1) f(1) by (simp_all add: whole_amt_def)
  have lens: "length xs = length gs" "length (allocs_of t) = length gs"
    using list_all2_lengthD [OF gs(1)] list_all2_lengthD [OF gs(2)] by simp_all
  have "\<exists>l. lacking_of (mt_allocated t) a = Ok l" if a: "a \<in> set (allocs_of t)" for a
  proof -
    obtain i where i: "i < length (allocs_of t)" "a = allocs_of t ! i" using a by (auto simp: in_set_conv_nth)
    have "whole_amt (ma_quantity a) (xs ! i)" "whole_amt (given t a) (gs ! i)" "0 \<le> gs ! i" "gs ! i \<le> xs ! i" "xs ! i < 10 ^ 28"
      using list_all2_nthD2 [OF xs(1), of i] list_all2_nthD2 [OF gs(1), of i] list_all2_nthD [OF gs(2), of i] w(3) i lens by simp_all
    then show ?thesis using whole_sub [of "ma_quantity a" "xs ! i" "given t a" "gs ! i"] by (auto simp: lacking_of_def given_def)
  qed
  then obtain lacking where l: "map_r (lacking_of (mt_allocated t)) (allocs_of t) = Ok lacking"
    using map_r_total by blast
  have lack: "list_all2 whole_amt lacking (map2 (-) xs gs)"
    by (rule whole_subs [OF xs(1) gs w(3) _ l]) (simp add: lacking_of_def given_def)
  obtain whole where W: "dsub (mq_quantity (mt_queued t)) (mt_filled t) = Ok whole" "whole_amt whole (w - f)"
    using whole_sub [OF w(1) f(1)] w fn f by auto
  obtain amount where A: "dsub F (mt_filled t) = Ok amount" "whole_amt amount (n - f)"
    using whole_sub [OF new(1) f(1)] w fn f by auto
  have nn: "\<forall>y \<in> set (map2 (-) xs gs). 0 \<le> y" using gs(2) by (auto simp: list_all2_conv_all_nth set_zip)
  obtain pieces ps where ps: "pro_rata lacking whole amount = Ok pieces" "list_all2 whole_amt pieces ps"
    "is_split (map2 (-) xs gs) (w - f) (n - f) ps"
    using pro_rata_split [OF lack W(2) A(2) _ _ _ _ nn] fn f w xs(2) sum_map2_minus [OF lens(1)] by auto
  have len: "length (allocs_of t) = length pieces"
    using ps lens by (auto simp: is_split_def dest!: list_all2_lengthD)
  have psn: "\<forall>p \<in> set ps. 0 \<le> p" using is_split_nonneg [OF ps(3) nn] fn by simp
  have given: "\<forall>a \<in> set (allocs_of t). \<exists>n. whole_amt (omap_get_zero (mt_allocated t) (ma_strategy_order_id a)) n \<and> 0 \<le> n \<and> n < 10 ^ 27"
  proof
    fix a assume "a \<in> set (allocs_of t)"
    then obtain i where i: "i < length gs" "a = allocs_of t ! i" using lens by (auto simp: in_set_conv_nth)
    have "whole_amt (given t a) (gs ! i)" "0 \<le> gs ! i"
      using list_all2_nthD2 [OF gs(1), of i] list_all2_nthD [OF gs(2), of i] i lens by simp_all
    moreover have "gs ! i \<le> f" using member_le_sum [OF gs(2) i(1)] f(2) by simp
    ultimately show "\<exists>n. whole_amt (omap_get_zero (mt_allocated t) (ma_strategy_order_id a)) n \<and> 0 \<le> n \<and> n < 10 ^ 27"
      using w(2) f(4) unfolding given_def by fastforce
  qed
  have inv: "omap_inv (mt_allocated t)" and dist: "distinct (map ma_strategy_order_id (allocs_of t))"
    using t by (auto simp: ticket_ok_def queued_ok_def allocs_of_def)
  have "sum_list ps = n - f" using ps(3) by (simp add: is_split_def)
  then obtain al bk' where "fold_r (book_piece (mt_queued t)) (mt_allocated t, bk) (zip (allocs_of t) pieces) = Ok (al, bk')"
    using book_pieces_total [OF len ps(2) psn inv dist given bk _ _ single] fn f w by auto
  with l W A ps show ?thesis by blast
qed

subsection \<open>A sample ticket\<close>

definition s_alloc :: "string \<Rightarrow> string \<Rightarrow> nat \<Rightarrow> mirror_allocation" where
  "s_alloc i a n = \<lparr>ma_strategy_order_id = i, ma_strategy_account = a, ma_quantity = usd n 0\<rparr>"

definition s_ticket :: mirror_queued where
  "s_ticket = \<lparr>mq_venue = ''tos'', mq_ticket_key = ''t1'', mq_instrument = Equity ''AAPL'', mq_side = Buy,
     mq_quantity = usd 10 0, mq_order_type = Market, mq_limit_price = None, mq_tif = Day,
     mq_allocations = [s_alloc ''o1'' ''A'' 3, s_alloc ''o2'' ''B'' 7], mq_at = noon\<rparr>"

definition s_ack :: mirror_ack where
  "s_ack = \<lparr>ak_venue = ''tos'', ak_ticket_key = ''t1'', ak_status = ''ACCEPTED'', ak_message = [], ak_at = noon,
     ak_venue_order_id = Some ''v1'', ak_book_status = None\<rparr>"

definition s_mfill :: "nat \<Rightarrow> mirror_fill" where
  "s_mfill n = \<lparr>mf_venue = ''tos'', mf_ticket_key = ''t1'', mf_venue_order_id = ''v1'', mf_filled = usd n 0,
     mf_avg_price = usd 101 0, mf_at = noon\<rparr>"

definition ok_of :: "'a \<Rightarrow> 'a lres \<Rightarrow> 'a" where
  "ok_of d r = (case r of Ok v \<Rightarrow> v | Err _ \<Rightarrow> d)"

definition s_m1 :: mirror_state where "s_m1 = ok_of mirror_empty (on_queued sample_ext mirror_empty s_ticket)"
definition s_m2 :: mirror_state where "s_m2 = ok_of mirror_empty (on_ack s_m1 s_ack)"
lemma s_m1: "on_queued sample_ext mirror_empty s_ticket = Ok s_m1"
proof -
  have "is_ok (on_queued sample_ext mirror_empty s_ticket)" by code_simp
  then show ?thesis by (auto simp: s_m1_def is_ok_iff ok_of_def)
qed

lemma s_m2: "on_ack s_m1 s_ack = Ok s_m2"
proof -
  have "is_ok (on_ack s_m1 s_ack)" by code_simp
  then show ?thesis by (auto simp: s_m2_def is_ok_iff ok_of_def)
qed

lemma usd_amt: "n < 1000000 \<Longrightarrow> whole_amt (usd n 0) (int n)"
  by (simp add: whole_amt_def usd_def canonical_def mval_def dval_def MAX_SCALE_def MANTISSA_LIMIT_def)

lemma s_ticket_ok: "queued_ok s_ticket"
  unfolding queued_ok_def
  by (intro conjI exI [of _ "[3, 7]"] exI [of _ 10])
    (use usd_amt [of 3] usd_amt [of 7] usd_amt [of 10] in \<open>simp_all add: s_ticket_def s_alloc_def\<close>)

lemma queued_ack_book:
  assumes "on_queued x s q = Ok s1" "on_ack s1 a = Ok s2"
  shows "ms_book s2 = ms_book s"
proof -
  have "ms_book s1 = ms_book s" using assms(1) by (cases rule: on_queued_Ok) simp_all
  moreover have "ms_book s2 = ms_book s1" using assms(2) by (auto simp: on_ack_def Let_def)
  ultimately show ?thesis by simp
qed

lemma s_reach: "(mirror_tr sample_ext)\<^sup>*\<^sup>* mirror_empty s_m2"
  using tr_queued [OF s_ticket_ok s_m1] tr_ack [OF s_m2] by (blast intro: rtranclp.rtrancl_into_rtrancl)

subsection \<open>The properties\<close>

text \<open>
  C6. Splitting an increment of a fill over the allocations that still lack contracts is exact:
  for whole amounts below ten trillion \<open>pro_rata\<close> answers, although it divides in rounded
  decimals; the pieces add up to the increment, each is the floor of its proportional share or one
  more, and none exceeds what its allocation lacks.
\<close>

theorem pro_rata_exact:
  assumes "list_all2 whole_amt weights ws" "whole_amt W w" "whole_amt A a" "0 < w" "w < 10 ^ 13" "0 \<le> a" "a \<le> w"
    and "\<forall>x \<in> set ws. 0 \<le> x" "sum_list ws = w"
  shows "\<exists>pieces ps. pro_rata weights W A = Ok pieces \<and> list_all2 whole_amt pieces ps \<and> sum_list ps = a
    \<and> list_all2 (\<lambda>x p. x * a div w \<le> p \<and> p \<le> x * a div w + 1 \<and> p \<le> x) ws ps"
  using pro_rata_split [OF assms] by (auto simp: is_split_def)

theorem pro_rata_exact_witness:
  "list_all2 whole_amt [usd 3 0, usd 7 0] [3, 7] \<and> whole_amt (usd 10 0) 10 \<and> whole_amt (usd 4 0) 4
   \<and> (\<exists>pieces ps. pro_rata [usd 3 0, usd 7 0] (usd 10 0) (usd 4 0) = Ok pieces \<and> list_all2 whole_amt pieces ps \<and> sum_list ps = 4)"
proof -
  have a: "list_all2 whole_amt [usd 3 0, usd 7 0] [3, 7]" "whole_amt (usd 10 0) 10" "whole_amt (usd 4 0) 4"
    using usd_amt [of 3] usd_amt [of 7] usd_amt [of 10] usd_amt [of 4] by simp_all
  from pro_rata_exact [OF a] a show ?thesis by fastforce
qed

text \<open>
  C5. Every run of the mirror's handlers from the empty state keeps its invariant: for each
  ticket, what its allocations were given adds up to what the venue filled and none was given
  more than it asked for; a strategy order is on at most one ticket, exactly the one that allocates
  it, and none is both queued and refused.
\<close>

theorem mirror_invariant:
  assumes "(mirror_tr x)\<^sup>*\<^sup>* mirror_empty s"
  shows "(\<forall>k t. omap_get (ms_tickets s) k = Some t \<longrightarrow> ticket_ok t \<and> mq_ticket_key (mt_queued t) = k)
    \<and> (\<forall>i k. omap_get (ms_queued_orders s) i = Some k \<longleftrightarrow> (\<exists>t. omap_get (ms_tickets s) k = Some t \<and> i \<in> ids_of t))
    \<and> (\<forall>i. omap_get (ms_queued_orders s) i \<noteq> None \<longrightarrow> omap_get (ms_refused_orders s) i = None)"
  using mirror_reachable_ok [OF assms mirror_ok_empty] unfolding mirror_ok_def by blast

theorem mirror_invariant_witness:
  "(mirror_tr sample_ext)\<^sup>*\<^sup>* mirror_empty s_m2 \<and> omap_get (ms_queued_orders s_m2) ''o1'' = Some ''t1''
   \<and> omap_get (ms_refused_orders s_m2) ''o1'' = None"
proof -
  have "omap_get (ms_queued_orders s_m2) ''o1'' = Some ''t1''" by code_simp
  with s_reach mirror_invariant [OF s_reach] show ?thesis by (metis option.distinct(1))
qed

text \<open>
  C29. A ticket only moves forward: along every run its contents stay, its filled quantity does not
  go down, it does not reopen once closed, and a venue order id, once proven, is not replaced.
\<close>

theorem ticket_moves_forward:
  assumes "(mirror_tr x)\<^sup>*\<^sup>* mirror_empty s" "(mirror_tr x)\<^sup>*\<^sup>* s s'" "omap_get (ms_tickets s) k = Some t"
  shows "\<exists>t'. omap_get (ms_tickets s') k = Some t' \<and> mt_queued t' = mt_queued t \<and> mval (mt_filled t) \<le> mval (mt_filled t')
    \<and> (mt_closed t \<longrightarrow> mt_closed t') \<and> (mt_venue_order_id t \<noteq> None \<longrightarrow> mt_venue_order_id t' = mt_venue_order_id t)"
  using mirror_reach_later [OF assms(2) mirror_reachable_ok [OF assms(1) mirror_ok_empty] assms(3)] by (auto simp: later_def)

theorem ticket_moves_forward_witness:
  "(mirror_tr sample_ext)\<^sup>*\<^sup>* mirror_empty s_m1 \<and> (mirror_tr sample_ext)\<^sup>*\<^sup>* s_m1 s_m2
   \<and> (\<exists>t t'. omap_get (ms_tickets s_m1) ''t1'' = Some t \<and> omap_get (ms_tickets s_m2) ''t1'' = Some t' \<and> mt_queued t' = mt_queued t)"
proof -
  have a: "(mirror_tr sample_ext)\<^sup>*\<^sup>* mirror_empty s_m1" using tr_queued [OF s_ticket_ok s_m1] by blast
  have b: "(mirror_tr sample_ext)\<^sup>*\<^sup>* s_m1 s_m2" using tr_ack [OF s_m2] by blast
  have "omap_get (ms_tickets s_m1) ''t1'' \<noteq> None" by code_simp
  then obtain t where t: "omap_get (ms_tickets s_m1) ''t1'' = Some t" by blast
  from ticket_moves_forward [OF a b t] a b t show ?thesis by blast
qed

text \<open>
  C30. Replays change nothing: queueing a ticket, refusing an order or booking a cumulative fill a
  second time is accepted and leaves the state the first time gave.
\<close>

theorem mirror_replay_is_noop:
  assumes "mirror_wf s"
  shows "(\<forall>x q s'. on_queued x s q = Ok s' \<longrightarrow> on_queued x s' q = Ok s')
    \<and> (\<forall>r s'. on_refused s r = Ok s' \<longrightarrow> on_refused s' r = Ok s')
    \<and> (\<forall>fl s'. mirror_on_fill s fl = Ok s' \<longrightarrow> mirror_on_fill s' fl = Ok s')"
  using on_queued_replay [OF _ assms] on_refused_replay [OF _ assms] mirror_on_fill_replay [OF _ assms] by blast

theorem mirror_replay_is_noop_witness:
  "mirror_wf mirror_empty \<and> on_queued sample_ext mirror_empty s_ticket = Ok s_m1 \<and> on_queued sample_ext s_m1 s_ticket = Ok s_m1"
proof -
  have wf: "mirror_wf mirror_empty" using mirror_ok_empty by (simp add: mirror_ok_def)
  from mirror_replay_is_noop [OF wf] wf s_m1 show ?thesis by blast
qed

text \<open>
  C28. A cumulative fill in range is accepted: for a ticket on one contract whose venue order is
  proven, a whole filled quantity above the last one and within the ticket, and a book of whole
  numbers with room, \<open>on_fill\<close> answers, records the new quantity, and distributes all of it.
\<close>

theorem mirror_fill_accepted:
  assumes "mirror_ok s" "ticket s (mf_ticket_key fl) = Ok t" "check_venue s (mf_venue fl) = Ok ()"
    and "mt_venue_order_id t = Some (mf_venue_order_id fl)" "whole_amt (mf_filled fl) n"
    and "mval (mt_filled t) < mval (mf_filled fl)" "mval (mf_filled fl) \<le> mval (mq_quantity (mt_queued t))"
    and "\<nexists>legs. mq_instrument (mt_queued t) = Combo legs" "book_within (ms_book s) (10 ^ 27)"
  shows "\<exists>s' t'. mirror_on_fill s fl = Ok s' \<and> omap_get (ms_tickets s') (mf_ticket_key fl) = Some t'
    \<and> mt_filled t' = mf_filled fl \<and> ticket_ok t'"
proof -
  have t: "omap_get (ms_tickets s) (mf_ticket_key fl) = Some t" using assms(2) by (auto simp: ticket_def split: option.splits)
  have ok: "ticket_ok t" and inv: "omap_inv (ms_tickets s)" using assms(1) t by (auto simp: mirror_ok_def mirror_wf_def)
  obtain lacking whole amount pieces al bk' where st: "map_r (lacking_of (mt_allocated t)) (allocs_of t) = Ok lacking"
    "dsub (mq_quantity (mt_queued t)) (mt_filled t) = Ok whole" "dsub (mf_filled fl) (mt_filled t) = Ok amount"
    "pro_rata lacking whole amount = Ok pieces"
    "fold_r (book_piece (mt_queued t)) (mt_allocated t, ms_book s) (zip (allocs_of t) pieces) = Ok (al, bk')"
    using fill_in_range [OF ok assms(5-9)] by blast
  let ?f = "\<lambda>t. t\<lparr>mt_filled := mf_filled fl, mt_avg_price := Some (mf_avg_price fl), mt_allocated := al\<rparr>"
  have "mirror_on_fill s fl = Ok (s\<lparr>ms_tickets := omap_get_mut ?f (ms_tickets s) (mf_ticket_key fl), ms_book := bk'\<rparr>)"
    using assms(2-4,6,7) st by (simp add: mirror_on_fill_def Let_def allocs_of_def)
  moreover have "ticket_ok (?f t)" by (rule fill_amounts [OF ok assms(5-7) st])
  ultimately show ?thesis using t inv by (simp add: omap_get_get_mut)
qed

theorem mirror_fill_accepted_witness:
  "mirror_ok s_m2 \<and> (\<exists>s' t'. mirror_on_fill s_m2 (s_mfill 4) = Ok s' \<and> omap_get (ms_tickets s') ''t1'' = Some t' \<and> ticket_ok t')"
proof -
  have ok: "mirror_ok s_m2" by (rule mirror_reachable_ok [OF s_reach mirror_ok_empty])
  have "map_option (\<lambda>t. (mt_venue_order_id t, mt_filled t, mt_queued t)) (omap_get (ms_tickets s_m2) ''t1'')
      = Some (Some ''v1'', ZERO, s_ticket)" by code_simp
  then obtain t where t: "omap_get (ms_tickets s_m2) ''t1'' = Some t" "mt_venue_order_id t = Some ''v1''" "mt_filled t = ZERO"
    "mt_queued t = s_ticket" by auto
  have tk: "ticket s_m2 ''t1'' = Ok t" using t(1) by (simp add: ticket_def)
  have v: "check_venue s_m2 ''tos'' = Ok ()" by code_simp
  have "ms_book s_m2 = omap_new" using queued_ack_book [OF s_m1 s_m2] by (simp add: mirror_empty_def)
  then have b: "book_within (ms_book s_m2) (10 ^ 27)" using book_within_mono [OF book_within_new, of "10 ^ 27"] by simp
  have m: "mf_ticket_key (s_mfill 4) = ''t1''" "mf_venue (s_mfill 4) = ''tos''" "mf_venue_order_id (s_mfill 4) = ''v1''"
    "mf_filled (s_mfill 4) = usd 4 0" by (simp_all add: s_mfill_def)
  have "mval (mt_filled t) < mval (usd 4 0)" "mval (usd 4 0) \<le> mval (mq_quantity (mt_queued t))"
    "\<nexists>legs. mq_instrument (mt_queued t) = Combo legs"
    using t usd_amt [of 4] usd_amt [of 10] by (simp_all add: s_ticket_def whole_amt_def)
  with mirror_fill_accepted [OF ok, of "s_mfill 4" t 4] tk v b t usd_amt [of 4] ok show ?thesis by (auto simp: m)
qed

text \<open>
  What the constructor of a ticket accepts meets what the mirror relies on: distinct strategy
  orders, whole positive quantities, and allocations that add up to the ticket.
\<close>

theorem built_ticket_ok:
  assumes "build_mirror_queued f = Ok q" "canonical (mq_quantity q)" "mval (mq_quantity q) < 10 ^ 13"
    and "list_all2 whole_amt (map ma_quantity (mq_allocations q)) xs" "\<forall>x \<in> set xs. 0 < x" "sum_list xs < 10 ^ 28"
  shows "queued_ok q"
proof -
  have built: "length (remdups (map ma_strategy_order_id (mq_allocations q))) = length (mq_allocations q)"
    "\<exists>tot. alloc_total (mq_allocations q) = Ok tot \<and> dec_eq tot (mq_quantity q)"
    "\<exists>v. require_whole v ''MirrorQueued.quantity'' True = Ok (mq_quantity q)"
    using assms(1) by (auto simp: build_mirror_queued_def guard_r_def require_whole_val_def split: if_splits)
  obtain w where w: "0 < w" "whole_amt (mq_quantity q) w"
  proof -
    obtain v where v: "require_whole v ''MirrorQueued.quantity'' True = Ok (mq_quantity q)" using built(3) by blast
    then have "v = mq_quantity q" by (simp add: require_whole_def Let_def split: if_splits)
    with v require_whole_Ok [of v] assms(2) that show ?thesis by blast
  qed
  have "sum_list xs = w"
    using alloc_total_whole [OF assms(4-6)] built(2) w(2) by (auto simp: dec_eq_def)
  moreover have "w < 10 ^ 13" using assms(3) w(2) of_int_less_iff [of w "10 ^ 13", where ?'a = rat] by (simp add: whole_amt_def)
  moreover have "distinct (map ma_strategy_order_id (mq_allocations q))" 
    using built(1) length_remdups_eq [of "map ma_strategy_order_id (mq_allocations q)"] by simp
  ultimately show ?thesis unfolding queued_ok_def using assms(4,5) w by (intro conjI exI [of _ xs] exI [of _ w]) auto
qed

definition s_kw :: kw where
  "s_kw = [(''venue'', VStr ''tos''), (''ticket_key'', VStr ''t1''), (''instrument'', VObj (OInstr (Equity ''AAPL''))),
     (''side'', VSide Buy), (''quantity'', VDec (usd 10 0)), (''order_type'', VOrderType Market), (''limit_price'', VNone),
     (''tif'', VTif Day), (''allocations'', VTuple [VObj (OMAlloc (s_alloc ''o1'' ''A'' 3)), VObj (OMAlloc (s_alloc ''o2'' ''B'' 7))]),
     (''at'', VDateTime noon)]"

theorem built_ticket_ok_witness: "build_mirror_queued s_kw = Ok s_ticket \<and> queued_ok s_ticket"
proof -
  have b: "build_mirror_queued s_kw = Ok s_ticket" by code_simp
  have q: "canonical (mq_quantity s_ticket)" "mval (mq_quantity s_ticket) < 10 ^ 13"
    using usd_amt [of 10] by (simp_all add: s_ticket_def whole_amt_def)
  have xs: "list_all2 whole_amt (map ma_quantity (mq_allocations s_ticket)) [3, 7]"
    using usd_amt [of 3] usd_amt [of 7] by (simp add: s_ticket_def s_alloc_def)
  from built_ticket_ok [OF b q xs] b show ?thesis by simp
qed

end
