(* ===== verification/Occ.thy ===== *)
theory Occ
  imports Model Build Money_Ops Samples
begin

section \<open>OCC symbols: printing and reading back\<close>

text \<open>
  The code of a contract is its root padded to six characters, the date as \<open>yymmdd\<close>, the right and
  the strike in thousandths with eight digits. The lemmas follow the reader (\<open>match_occ\<close>,
  \<open>strptime_ymd\<close>) over such a text, and the strike through \<open>times_1000\<close> and back.
\<close>

subsection \<open>Fixed-width digits\<close>

definition wide_digits :: "nat \<Rightarrow> nat \<Rightarrow> nat list" where
  "wide_digits w n = replicate (w - length (dec_digits n)) 0 @ dec_digits n"

lemma pad0_digits: "pad0 w n = map digit_char (wide_digits w n)"
proof -
  have "digit_char 0 = CHR ''0''" by code_simp
  then show ?thesis by (simp add: pad0_def nat_to_string_def wide_digits_def Let_def)
qed

lemma wide_digits_bound: "d \<in> set (wide_digits w n) \<Longrightarrow> d < 10"
  by (auto simp: wide_digits_def dest: dec_digits_bound)

lemma wide_digits_value [simp]: "digits_value (wide_digits w n) = n"
  by (simp add: wide_digits_def)

lemma wide_digits_length: "n < 10 ^ w \<Longrightarrow> 0 < w \<Longrightarrow> length (wide_digits w n) = w"
proof -
  assume n: "n < 10 ^ w" "0 < w"
  have "length (dec_digits n) \<le> w"
  proof (cases "n = 0")
    case False
    then have "10 ^ (length (dec_digits n) - 1) \<le> n" by (rule dec_digits_lower)
    then have "(10::nat) ^ (length (dec_digits n) - 1) < 10 ^ w" using n(1) by (rule le_less_trans)
    then have "length (dec_digits n) - 1 < w" by (rule power_less_imp_less_exp [rotated]) simp
    then show ?thesis by simp
  next
    case True
    have "dec_digits 0 = [0]" by (subst dec_digits.simps) simp
    with True n show ?thesis by simp
  qed
  then show ?thesis by (simp add: wide_digits_def)
qed

lemma dec_digits_small: "n < 10 \<Longrightarrow> dec_digits n = [n]"
  by (subst dec_digits.simps) simp

lemma wide_digits_2: "n < 100 \<Longrightarrow> wide_digits 2 n = [n div 10, n mod 10]"
  by (cases "n < 10") (simp_all add: wide_digits_def dec_digits_small dec_digits.simps [of n])

lemma utext_pad0: "utext (pad0 w n) = map (\<lambda>d. 48 + d) (wide_digits w n)"
  unfolding pad0_digits by (rule utext_digit_char) (use wide_digits_bound in blast)

lemma foldl_digit_values:
  "\<forall>d \<in> set ds. d < 10 \<Longrightarrow> foldl (\<lambda>acc c. acc * 10 + the (digit c)) a (map (\<lambda>d. 48 + d) ds) = a * 10 ^ length ds + digits_value ds"
proof (induction ds arbitrary: a)
  case (Cons d ds)
  then have "the (digit (48 + d)) = d" by (simp add: digit_ascii)
  with Cons show ?case by (simp add: algebra_simps)
qed simp

subsection \<open>The pieces of a symbol\<close>

definition occ_chars :: "utext \<Rightarrow> nat \<Rightarrow> nat \<Rightarrow> nat \<Rightarrow> right \<Rightarrow> nat \<Rightarrow> utext" where
  "occ_chars u y m d r k = u @ replicate (6 - length u) 32
     @ map (\<lambda>d. 48 + d) [y div 10, y mod 10, m div 10, m mod 10, d div 10, d mod 10]
     @ [if r = Call then 67 else 80] @ map (\<lambda>d. 48 + d) (wide_digits 8 k)"

lemma digit_not_space: "d < 10 \<Longrightarrow> \<not> is_space (48 + d)"
  by (simp add: is_space_def)

lemma occ_strip:
  assumes "u \<noteq> []" "\<forall>c \<in> set u. alnum c" "k < 10 ^ 8"
  shows "strip (occ_chars u y m d r k) = occ_chars u y m d r k"
proof (rule strip_id)
  show "\<not> is_space (hd (occ_chars u y m d r k))"
    using assms is_space_not_alnum by (cases u) (auto simp: occ_chars_def alnum_def)
  have ne: "wide_digits 8 k \<noteq> []" using wide_digits_length [of k 8] assms(3) by auto
  then have "last (occ_chars u y m d r k) = 48 + last (wide_digits 8 k)" by (simp add: occ_chars_def last_map)
  moreover have "last (wide_digits 8 k) < 10" using ne wide_digits_bound last_in_set by blast
  ultimately show "\<not> is_space (last (occ_chars u y m d r k))" by (simp add: digit_not_space)
qed (simp add: occ_chars_def)

lemma takeWhile_replicate_rest: "P a \<Longrightarrow> xs = [] \<or> \<not> P (hd xs) \<Longrightarrow> takeWhile P (replicate n a @ xs) = replicate n a"
  by (induction n) (cases xs; auto)+

lemma occ_match:
  assumes "u \<noteq> []" "length u \<le> 6" "\<forall>c \<in> set u. alnum c" "k < 10 ^ 8" "y < 100" "m < 100" "d < 100"
  shows "match_occ (occ_chars u y m d r k) = Some (length u, 6)"
proof -
  let ?cs = "occ_chars u y m d r k"
  let ?date = "map (\<lambda>d. 48 + d) [y div 10, y mod 10, m div 10, m mod 10, d div 10, d mod 10]"
  have al: "\<forall>c \<in> set u. is_ascii_alnum c" using assms(3) by (auto simp: alnum_def is_ascii_alnum_def)
  have "takeWhile is_ascii_alnum (take 6 ?cs) = u"
  proof -
    have "take 6 ?cs = u @ replicate (6 - length u) 32" using assms(2) by (simp add: occ_chars_def)
    moreover have "takeWhile is_ascii_alnum (u @ replicate (6 - length u) 32) = u"
      using al by (simp add: is_ascii_alnum_def is_upper_def is_lower_def is_digit_def takeWhile_eq_Nil_iff)
    ultimately show ?thesis by simp
  qed
  moreover have "occ_at ?cs (length u) = Some 6"
  proof -
    have sp: "takeWhile is_space (drop (length u) ?cs) = replicate (6 - length u) 32"
    proof -
      have "\<not> is_space (48 + y div 10)" using assms(5) by (intro digit_not_space) simp
      moreover have "is_space 32" by (simp add: is_space_def)
      ultimately show ?thesis by (simp add: occ_chars_def takeWhile_replicate_rest)
    qed
    then have i: "length u + length (takeWhile is_space (drop (length u) ?cs)) = 6" using assms(2) by simp
    have six: "drop 6 ?cs = ?date @ [if r = Call then 67 else 80] @ map (\<lambda>d. 48 + d) (wide_digits 8 k)"
      using assms(2) by (simp add: occ_chars_def)
    have len: "length ?cs = 21" using assms(2) wide_digits_length [of k 8] assms(4) by (simp add: occ_chars_def)
    have dd: "list_all (\<lambda>c. digit c \<noteq> None) (take 6 (drop 6 ?cs))"
      unfolding six using assms(5-7) by (simp add: digit_ascii)
    have k8: "drop 13 ?cs = map (\<lambda>d. 48 + d) (wide_digits 8 k)"
      using arg_cong [OF six, of "drop 7"] by simp
    have kk: "list_all (\<lambda>c. digit c \<noteq> None) (drop 13 ?cs)"
      unfolding k8 using wide_digits_bound [of _ 8 k] by (auto simp: list_all_iff digit_ascii)
    have "?cs ! 12 = drop 6 ?cs ! 6" using len by simp
    also have "\<dots> = (if r = Call then 67 else 80)" unfolding six by simp
    finally have "occ_right_char (?cs ! 12)" by (simp add: occ_right_char_def)
    with i len dd kk show ?thesis by (simp add: occ_at_def Let_def)
  qed
  moreover obtain n where "length u = Suc n" using assms(1) by (cases u) auto
  ultimately show ?thesis by (simp add: match_occ_def)
qed

subsection \<open>The date\<close>

lemma nat_below_13: "1 \<le> (m::nat) \<Longrightarrow> m \<le> 12 \<Longrightarrow> m < 10 \<or> m = 10 \<or> m = 11 \<or> m = 12"
  by presburger

lemma month_alts_first:
  assumes "1 \<le> m" "m \<le> 12"
  shows "\<exists>rest. month_alts [a, b, 48 + m div 10, 48 + m mod 10, c, e] = (2, m) # rest"
  using nat_below_13 [OF assms] assms(1) by (auto simp: month_alts_def ascii_between_def)

lemma day_alts_first:
  assumes "1 \<le> d" "d \<le> 31"
  shows "\<exists>rest. day_alts (Some (48 + d div 10)) (Some (48 + d mod 10)) = (2, d) # rest"
proof -
  have dm: "d = 10 * (d div 10) + d mod 10" "d mod 10 < 10" by simp_all
  consider "d div 10 = 0" | "d div 10 = 1" | "d div 10 = 2" | "d div 10 = 3" using assms(2) by linarith
  then show ?thesis
    using dm assms by cases (auto simp: day_alts_def ascii_between_def digit_ascii)
qed

lemma strptime_digits:
  assumes "1969 \<le> Y" "Y \<le> 2068" "1 \<le> m" "m \<le> 12" "1 \<le> d" "d \<le> days_in_month Y m"
  defines "y \<equiv> nat (Y mod 100)"
  shows "strptime_ymd (map (\<lambda>d. 48 + d) [y div 10, y mod 10, m div 10, m mod 10, d div 10, d mod 10]) = Ok (Y, m, d)"
proof -
  let ?e = "map (\<lambda>d. 48 + d) [y div 10, y mod 10, m div 10, m mod 10, d div 10, d mod 10]"
  have y: "y < 100" "int y = Y mod 100" by (simp_all add: y_def nat_less_iff)
  have d31: "d \<le> 31" using assms(6) by (auto simp: days_in_month_def split: if_splits)
  have "int (the (digit (48 + y div 10)) * 10 + the (digit (48 + y mod 10))) = int y"
    using y(1) by (simp add: digit_ascii)
  moreover have "(if int y \<le> 68 then 2000 + int y else 1900 + int y) = Y"
    using assms(1,2) unfolding y(2) by (simp, presburger)
  moreover obtain ms where ms: "month_alts ?e = (2, m) # ms"
    using month_alts_first [OF assms(3,4), of "48 + y div 10" "48 + y mod 10" "48 + d div 10" "48 + d mod 10"] by auto
  moreover obtain ds where ds: "day_alts (get_char ?e 4) (get_char ?e 5) = (2, d) # ds"
    using day_alts_first [OF assms(5) d31] by (auto simp: get_char_def)
  ultimately show ?thesis using assms(6) by (simp add: strptime_ymd_def Let_def)
qed

subsection \<open>Lists of digits\<close>

lemma digits_unique:
  assumes "length xs = length ys" "\<forall>d \<in> set xs. d < 10" "\<forall>d \<in> set ys. d < 10" "digits_value xs = digits_value ys"
  shows "xs = ys"
  using assms
proof (induction xs ys rule: rev_induct2)
  case (4 x xs y ys)
  have v: "digits_value xs * 10 + x = digits_value ys * 10 + y" "x < 10" "y < 10" using "4.prems" by simp_all
  then have e: "digits_value xs = digits_value ys" by linarith
  with v(1) have "x = y" by simp
  with e 4 show ?case by simp
qed simp_all

lemma wide_digits_unique: "\<forall>d \<in> set ds. d < 10 \<Longrightarrow> ds \<noteq> [] \<Longrightarrow> ds = wide_digits (length ds) (digits_value ds)"
  by (rule digits_unique) (auto simp: wide_digits_length digits_value_bound dest: wide_digits_bound)

lemma dec_digits_unique:
  assumes "\<forall>d \<in> set ds. d < 10" "ds \<noteq> []" "hd ds \<noteq> 0 \<or> ds = [0]"
  shows "ds = dec_digits (digits_value ds)"
proof (cases "ds = [0]")
  case False
  obtain d ds' where ds: "ds = d # ds'" "d \<noteq> 0" using assms(2,3) False by (cases ds) auto
  let ?n = "digits_value ds"
  have lo: "10 ^ (length ds - 1) \<le> ?n" using ds by (simp add: trans_le_add1)
  have hi: "?n < 10 ^ length ds" using assms(1) by (intro digits_value_bound) auto
  have n0: "?n \<noteq> 0" using lo by (metis le_zero_eq power_not_zero zero_neq_numeral)
  have "length (dec_digits ?n) - 1 = length ds - 1"
    by (rule pow10_window_unique [of _ ?n])
      (use lo hi dec_digits_lower [OF n0] dec_digits_upper [of ?n] ds in simp_all)
  then have "length (dec_digits ?n) = length ds" using ds by (cases "dec_digits ?n") auto
  then show ?thesis using assms(1) dec_digits_bound by (intro digits_unique) auto
qed (simp add: dec_digits_small)

lemma canon_parts:
  shows "int_digits m = dec_digits (mantissa m div 10 ^ scale m)"
    and "scale m \<noteq> 0 \<Longrightarrow> frac_digits m = wide_digits (scale m) (mantissa m mod 10 ^ scale m)"
proof -
  let ?i = "int_digits m" and ?f = "frac_digits m"
  note ifd = int_frac_digits [where m = m]
  have b: "\<forall>d \<in> set ?i. d < 10" "\<forall>d \<in> set ?f. d < 10" using ifd(4) by auto
  obtain z where "?i @ ?f = replicate z 0 @ dec_digits (mantissa m)" using ifd(3) by blast
  then have "digits_value (?i @ ?f) = digits_value (replicate z 0 @ dec_digits (mantissa m))" by (rule arg_cong)
  then have c: "mantissa m = digits_value ?i * 10 ^ scale m + digits_value ?f" using ifd(1) by simp
  have "digits_value ?f < 10 ^ scale m" using digits_value_bound [of ?f] b(2) ifd(1) by auto
  then have v: "digits_value ?i = mantissa m div 10 ^ scale m" "digits_value ?f = mantissa m mod 10 ^ scale m"
    unfolding c by simp_all
  have "hd ?i \<noteq> 0 \<or> ?i = [0]"
  proof (cases "mantissa m = 0")
    case False
    then show ?thesis using dec_digits_hd [OF False]
      by (auto simp: int_digits_def Let_def hd_take)
  qed (auto simp: int_digits_def Let_def dec_digits_small)
  then show "?i = dec_digits (mantissa m div 10 ^ scale m)" using dec_digits_unique [OF b(1) ifd(2)] v(1) by simp
  assume "scale m \<noteq> 0"
  then have "?f \<noteq> []" using ifd(1) by auto
  from wide_digits_unique [OF b(2) this] v(2) ifd(1)
  show "?f = wide_digits (scale m) (mantissa m mod 10 ^ scale m)" by simp
qed

subsection \<open>The strike\<close>

text \<open>A strike of at most three decimals that an OCC symbol can hold.\<close>

definition occ_strike :: "money \<Rightarrow> bool" where
  "occ_strike m \<longleftrightarrow> canonical m \<and> \<not> neg_bit m \<and> mantissa m \<noteq> 0 \<and> scale m \<le> 3
     \<and> mantissa m * 10 ^ (3 - scale m) \<le> MAX_MILLIS"

lemma carry_free_round:
  assumes "n < length ds" "n \<noteq> 0" "\<forall>d \<in> set (drop (length ds - n) ds). d = 0"
  shows "round_half_even ds n = take (length ds - n) ds"
proof -
  have "drop (length ds - n) ds \<noteq> []" using assms(1,2) by simp
  then have "hd (drop (length ds - n) ds) = 0" using assms(3) hd_in_set by blast
  with assms(1,2) show ?thesis by (auto simp: round_half_even_def Let_def)
qed

lemma strike_wire:
  assumes "occ_strike m"
  shows "dw_coefficient (decwire m) = dec_digits (mantissa m)" "\<not> dw_is_zero (decwire m)"
    and "length (dec_digits (mantissa m)) \<le> 8"
proof -
  have c: "mantissa m \<noteq> 0" using assms by (simp add: occ_strike_def)
  have h: "hd (dec_digits (mantissa m)) \<noteq> 0" using dec_digits_hd [OF c] .
  then have "dropWhile (\<lambda>d. d = 0) (dec_digits (mantissa m)) = dec_digits (mantissa m)"
    by (cases "dec_digits (mantissa m)") auto
  then show co: "dw_coefficient (decwire m) = dec_digits (mantissa m)" by (simp add: dw_coefficient_def decwire_def Let_def)
  then show "\<not> dw_is_zero (decwire m)" using h by (auto simp: dw_is_zero_def)
  have "mantissa m * 1 \<le> mantissa m * 10 ^ (3 - scale m)" by (intro mult_le_mono2) simp
  also have "\<dots> \<le> 99999999" using assms by (simp add: occ_strike_def MAX_MILLIS_def)
  finally have "mantissa m < 10 ^ 8" by simp
  then show "length (dec_digits (mantissa m)) \<le> 8" using ndigits_le_iff [OF c, of 8] by simp
qed

lemma times_1000_strike:
  assumes "occ_strike m"
  shows "times_1000 (decwire m) = Ok (dec_digits (mantissa m) @ [0, 0, 0], - int (scale m))"
  using strike_wire [OF assms] assms
  by (simp add: times_1000_def Let_def decwire_def ETOP_def EMAX_def ETINY_def PREC_def occ_strike_def)

lemma strike_digits:
  assumes "occ_strike m"
  defines "ds \<equiv> dec_digits (mantissa m) @ [0, 0, 0]" and "xs \<equiv> dec_digits (mantissa m) @ replicate (3 - scale m) 0"
  shows "take (length ds - scale m) ds = xs" "drop (length ds - scale m) ds = replicate (scale m) 0"
proof -
  have sc: "scale m \<le> 3" using assms by (simp add: occ_strike_def)
  then have "ds = xs @ replicate (scale m) 0"
    unfolding ds_def xs_def by (simp add: replicate_add [symmetric]) (simp add: numeral_3_eq_3)
  moreover have "length ds - scale m = length xs" using sc by (simp add: ds_def xs_def)
  ultimately show "take (length ds - scale m) ds = xs" "drop (length ds - scale m) ds = replicate (scale m) 0" by simp_all
qed

lemma integral_strike:
  assumes "occ_strike m"
  shows "integral_value (dec_digits (mantissa m) @ [0, 0, 0]) (- int (scale m))
    = dec_digits (mantissa m) @ replicate (3 - scale m) 0"
proof (cases "scale m = 0")
  case True
  then show ?thesis by (simp add: integral_value_def numeral_3_eq_3)
next
  case False
  let ?ds = "dec_digits (mantissa m) @ [0, 0, 0]"
  have r: "round_half_even ?ds (scale m) = take (length ?ds - scale m) ?ds"
  proof (rule carry_free_round)
    have "length (dec_digits (mantissa m)) \<noteq> 0" by simp
    moreover have "length ?ds = length (dec_digits (mantissa m)) + 3" by simp
    moreover have "scale m \<le> 3" using assms by (simp add: occ_strike_def)
    ultimately show "scale m < length ?ds" by linarith
    show "\<forall>d \<in> set (drop (length ?ds - scale m) ?ds). d = 0" using strike_digits(2) [OF assms] by simp
  qed (use False in simp)
  with strike_digits(1) [OF assms] False assms show ?thesis by (simp add: integral_value_def occ_strike_def)
qed

lemma strike_millis_strike:
  assumes "occ_strike m"
  shows "strike_millis (decwire m) = Ok (mantissa m * 10 ^ (3 - scale m))"
  using strike_wire(3) [OF assms] assms
  by (simp add: strike_millis_def times_1000_strike integral_strike Let_def occ_strike_def)

lemma validate_strike_strike:
  assumes "occ_strike m"
  shows "validate_strike (decwire m) = Ok ()"
proof -
  have "opt_is_integral (dec_digits (mantissa m) @ [0, 0, 0]) (- int (scale m))"
  proof (cases "scale m = 0")
    case False
    have "scale m \<le> 3" using assms by (simp add: occ_strike_def)
    moreover have "list_all (\<lambda>b. b = 0) (drop (length (dec_digits (mantissa m) @ [0, 0, 0]) - scale m) (dec_digits (mantissa m) @ [0, 0, 0]))"
      unfolding strike_digits(2) [OF assms] by (simp add: list_all_iff)
    ultimately show ?thesis by (simp add: opt_is_integral_def)
  qed (simp add: opt_is_integral_def)
  with assms strike_wire(2) [OF assms] show ?thesis
    by (simp add: validate_strike_def times_1000_strike strike_millis_strike dw_is_finite_def)
      (simp add: decwire_def is_negative_def occ_strike_def)
qed


subsection \<open>The strike as text\<close>

lemma digit_char_zero: "d < 10 \<Longrightarrow> digit_char d = CHR ''0'' \<longleftrightarrow> d = 0"
proof -
  assume "d < 10"
  then have "of_char (digit_char d) = 48 + d" using utext_digit_char [of "[d]"] by (simp add: utext_def)
  moreover have "of_char (CHR ''0'') = (48::nat)" by code_simp
  ultimately show ?thesis by (auto simp: of_char_eq_iff [where 'a = nat, symmetric])
qed

lemma trim_zeros:
  "xs \<noteq> [] \<Longrightarrow> last xs \<noteq> z \<Longrightarrow> rev (dropWhile (\<lambda>c. c = z) (rev (xs @ replicate k z))) = xs"
proof -
  assume "xs \<noteq> []" "last xs \<noteq> z"
  then have "dropWhile (\<lambda>c. c = z) (rev xs) = rev xs" by (cases "rev xs") (auto simp: hd_rev [symmetric])
  moreover have "dropWhile (\<lambda>c. c = z) (replicate k z @ rev xs) = dropWhile (\<lambda>c. c = z) (rev xs)"
    by (induction k) simp_all
  ultimately show ?thesis by simp
qed

lemma digits_value_zeros: "digits_value (ds @ replicate k 0) = digits_value ds * 10 ^ k"
  by (induction k) (simp_all add: replicate_append_same [symmetric] append_assoc [symmetric] del: append_assoc replicate_Suc)

lemma wide_digits_scaled:
  assumes "r < 10 ^ e" "0 < e" "e \<le> w"
  shows "wide_digits w (r * 10 ^ (w - e)) = wide_digits e r @ replicate (w - e) 0"
proof (rule digits_unique)
  have "r * 10 ^ (w - e) < 10 ^ e * 10 ^ (w - e)" using assms(1) by simp
  then have "r * 10 ^ (w - e) < 10 ^ w" using assms(3) by (simp add: power_add [symmetric])
  then show "length (wide_digits w (r * 10 ^ (w - e))) = length (wide_digits e r @ replicate (w - e) 0)"
    using assms by (simp add: wide_digits_length)
qed (auto simp: digits_value_zeros dest: wide_digits_bound)

lemma wide_digits_last: "last (wide_digits w n) = n mod 10"
  by (simp add: wide_digits_def dec_digits_last)

lemma thousandths_strike:
  assumes "occ_strike m"
  shows "thousandths_text (mantissa m * 10 ^ (3 - scale m)) = canon m"
proof -
  let ?e = "scale m" and ?M = "mantissa m"
  have e: "?e \<le> 3" and nn: "\<not> is_negative m" using assms by (auto simp: occ_strike_def is_negative_def)
  have p: "(1000::nat) = 10 ^ ?e * 10 ^ (3 - ?e)" using e by (simp add: power_add [symmetric])
  have dv: "?M * 10 ^ (3 - ?e) div 1000 = ?M div 10 ^ ?e" unfolding p by simp
  have md: "?M * 10 ^ (3 - ?e) mod 1000 = ?M mod 10 ^ ?e * 10 ^ (3 - ?e)"
    unfolding p by (simp add: mult_mod_left)
  show ?thesis
  proof (cases "?e = 0")
    case True
    then show ?thesis using nn canon_parts(1) [of m]
      by (simp add: thousandths_text_def canon_digits nat_to_string_def)
  next
    case False
    let ?r = "?M mod 10 ^ ?e"
    have "?r mod 10 = ?M mod 10" using False by (cases ?e) (simp_all add: mod_mod_cancel)
    moreover have "?M mod 10 \<noteq> 0" using assms False by (simp add: occ_strike_def canonical_def)
    ultimately have l: "last (wide_digits ?e ?r) \<noteq> 0" and r0: "?r \<noteq> 0" by (auto simp: wide_digits_last)
    have ne: "wide_digits ?e ?r \<noteq> []" by (simp add: wide_digits_def)
    have z: "digit_char 0 = CHR ''0''" by code_simp
    have "last (wide_digits ?e ?r) < 10" by (rule wide_digits_bound [OF last_in_set [OF ne]])
    with l ne have lc: "last (map digit_char (wide_digits ?e ?r)) \<noteq> CHR ''0''" by (simp add: last_map digit_char_zero)
    have "pad0 3 (?r * 10 ^ (3 - ?e)) = map digit_char (wide_digits ?e ?r) @ replicate (3 - ?e) (CHR ''0'')"
      using wide_digits_scaled [of ?r ?e 3] e False by (simp add: pad0_digits z)
    then have "rev (dropWhile (\<lambda>c. c = CHR ''0'') (rev (pad0 3 (?r * 10 ^ (3 - ?e))))) = map digit_char (wide_digits ?e ?r)"
      using trim_zeros [OF _ lc] ne by simp
    then show ?thesis using nn r0 False canon_parts [of m] unfolding thousandths_text_def Let_def dv md
      by (simp add: canon_digits nat_to_string_def)
  qed
qed

subsection \<open>A contract and its symbol\<close>

text \<open>
  A contract an OCC symbol can carry: what \<open>OptionContract::new\<close> checks of the underlying and the
  multiplier, a real date of the century the two-digit year stands for, a strike in thousandths.
\<close>

definition occ_contract :: "option_contract \<Rightarrow> bool" where
  "occ_contract c \<longleftrightarrow>
     oc_underlying c \<noteq> [] \<and> length (oc_underlying c) \<le> 6 \<and> list_all alnum (utext (oc_underlying c))
     \<and> 1969 \<le> nd_year (oc_expiry c) \<and> nd_year (oc_expiry c) \<le> 2068
     \<and> 1 \<le> nd_month (oc_expiry c) \<and> nd_month (oc_expiry c) \<le> 12
     \<and> 1 \<le> nd_day (oc_expiry c) \<and> nd_day (oc_expiry c) \<le> days_in_month (nd_year (oc_expiry c)) (nd_month (oc_expiry c))
     \<and> occ_strike (oc_strike c) \<and> 0 < oc_multiplier c"

abbreviation occ_millis :: "money \<Rightarrow> nat" where
  "occ_millis m \<equiv> mantissa m * 10 ^ (3 - scale m)"

lemma alnum_ascii: "alnum c \<Longrightarrow> c < 128 \<and> \<not> is_lower c \<and> \<not> is_space c"
  using is_space_not_alnum [of c] by (auto simp: alnum_def is_upper_def is_digit_def is_lower_def)

lemma underlying_chars:
  assumes "list_all alnum (utext u)"
  shows "chars u = utext u" "of_chars (utext u) = u" "to_uppercase x (utext u) = utext u" "strip (utext u) = utext u"
proof -
  have a: "\<forall>c \<in> set (utext u). c < 128 \<and> \<not> is_lower c \<and> \<not> is_space c"
    using assms alnum_ascii by (auto simp: list_all_iff)
  then show "chars u = utext u" by (intro chars_ascii) (simp add: utext_def)
  show "of_chars (utext u) = u" using of_chars_ascii [of "utext u"] a by (simp add: utext_def comp_def)
  show "to_uppercase x (utext u) = utext u" using a by (intro to_uppercase_id) simp
  show "strip (utext u) = utext u" using a by (intro strip_no_space) simp
qed

lemma printed_contract:
  assumes "occ_contract c"
  obtains t where "option_occ c = Ok t" "t \<noteq> []"
    "chars t = occ_chars (utext (oc_underlying c)) (nat (nd_year (oc_expiry c) mod 100)) (nd_month (oc_expiry c))
       (nd_day (oc_expiry c)) (oc_right c) (occ_millis (oc_strike c))"
proof -
  let ?u = "oc_underlying c" and ?y = "nat (nd_year (oc_expiry c) mod 100)" and ?m = "nd_month (oc_expiry c)"
    and ?d = "nd_day (oc_expiry c)" and ?k = "occ_millis (oc_strike c)"
  have al: "list_all alnum (utext ?u)" and st: "occ_strike (oc_strike c)" using assms by (auto simp: occ_contract_def)
  define t where "t = ?u @ replicate (6 - length ?u) (CHR '' '') @ pad0 2 ?y @ pad0 2 ?m @ pad0 2 ?d
    @ right_code (oc_right c) @ pad0 8 ?k"
  have "length (chars ?u) = length ?u" using underlying_chars(1) [OF al] by (simp add: utext_def)
  then have ok: "option_occ c = Ok t"
    by (simp add: option_occ_def wire_occ_def contract_wire_def strike_millis_strike [OF st] t_def Let_def)
  have "?y < 100" by (simp add: nat_less_iff)
  moreover have "?m < 100" "?d < 100" using assms by (auto simp: occ_contract_def days_in_month_def split: if_splits)
  moreover have "utext (right_code r) = [if r = Call then 67 else 80]" for r by (cases r) (simp_all add: utext_def)
  moreover have "utext (replicate n (CHR '' '')) = replicate n 32" for n by (simp add: utext_def)
  ultimately have ut: "utext t = occ_chars (utext ?u) ?y ?m ?d (oc_right c) ?k"
    by (simp add: t_def utext_append utext_pad0 wide_digits_2 occ_chars_def) (simp add: utext_def)
  have "\<forall>n \<in> set (utext t). n < 128"
    unfolding ut using al alnum_ascii wide_digits_bound [of _ 8 ?k] \<open>?y < 100\<close> \<open>?m < 100\<close> \<open>?d < 100\<close>
    by (fastforce simp: occ_chars_def list_all_iff)
  then have "chars t = utext t" by (intro chars_ascii) (simp add: utext_def)
  moreover have "t \<noteq> []" using assms by (simp add: t_def occ_contract_def)
  ultimately show thesis using that ok ut by simp
qed

lemma canon_ascii: "chars (canon m) = utext (canon m)"
proof (rule chars_ascii)
  have d: "of_char (digit_char d) = 48 + d" if "d < 10" for d
    using utext_digit_char [of "[d]"] that by (simp add: utext_def)
  have "of_char (digit_char d) < (128::nat)" if "d \<in> set (int_digits m) \<or> d \<in> set (frac_digits m)" for d
    using int_frac_digits(4) [of d m] d [of d] that by auto
  then show "\<forall>c \<in> set (canon m). of_char c < (128::nat)" unfolding canon_digits by auto
qed

lemma multiplier_text: "0 < n \<Longrightarrow> take 1 (int_to_string n) \<noteq> ''-'' \<and> int_to_string n \<noteq> ''0''"
proof -
  assume n: "0 < n"
  obtain d ds where ds: "dec_digits (nat n) = d # ds" by (cases "dec_digits (nat n)") auto
  have "d < 10" "d \<noteq> 0" using dec_digits_bound [of d "nat n"] dec_digits_hd [of "nat n"] ds n by auto
  moreover from this have "of_char (digit_char d) = 48 + d" using utext_digit_char [of "[d]"] by (simp add: utext_def)
  moreover have "of_char (CHR ''-'') = (45::nat)" by code_simp
  ultimately have "digit_char d \<noteq> CHR ''-''" by auto
  with \<open>d < 10\<close> \<open>d \<noteq> 0\<close> ds n show ?thesis
    by (auto simp: int_to_string_def nat_to_string_def digit_char_zero)
qed

lemma read_symbol:
  assumes "occ_contract c" "option_occ c = Ok t"
  shows "parse_occ x (Some t) = Ok \<lparr>po_root = oc_underlying c, po_year = nd_year (oc_expiry c),
    po_month = nd_month (oc_expiry c), po_day = nd_day (oc_expiry c), po_right = oc_right c,
    po_strike_text = canon (oc_strike c)\<rparr>"
proof -
  let ?u = "utext (oc_underlying c)" and ?y = "nat (nd_year (oc_expiry c) mod 100)" and ?m = "nd_month (oc_expiry c)"
    and ?d = "nd_day (oc_expiry c)" and ?k = "occ_millis (oc_strike c)"
  let ?cs = "occ_chars ?u ?y ?m ?d (oc_right c) ?k"
  let ?date = "map (\<lambda>d. 48 + d) [?y div 10, ?y mod 10, ?m div 10, ?m mod 10, ?d div 10, ?d mod 10]"
  obtain t' where "option_occ c = Ok t'" "t' \<noteq> []" "chars t' = ?cs" using printed_contract [OF assms(1)] .
  then have t: "t \<noteq> []" "chars t = ?cs" using assms(2) by simp_all
  have u: "?u \<noteq> []" "length ?u \<le> 6" "\<forall>c \<in> set ?u. alnum c" "list_all alnum ?u"
    using assms(1) by (auto simp: occ_contract_def utext_def list_all_iff)
  have k: "?k < 10 ^ 8" "?k \<noteq> 0" using assms(1) by (auto simp: occ_contract_def occ_strike_def MAX_MILLIS_def)
  have n: "?y < 100" "?m < 100" "?d < 100"
    using assms(1) by (auto simp: nat_less_iff occ_contract_def days_in_month_def split: if_splits)
  have "strip (chars t) = ?cs" unfolding t(2) by (rule occ_strip [OF u(1,3) k(1)])
  moreover have "match_occ ?cs = Some (length ?u, 6)" by (rule occ_match [OF u(1,2,3) k(1) n])
  moreover have tail: "drop 6 ?cs = ?date @ [if oc_right c = Call then 67 else 80] @ map (\<lambda>d. 48 + d) (wide_digits 8 ?k)"
    using u(2) by (simp add: occ_chars_def)
  moreover have "strptime_ymd ?date = Ok (nd_year (oc_expiry c), ?m, ?d)"
    by (rule strptime_digits) (use assms(1) in \<open>simp_all add: occ_contract_def\<close>)
  moreover have "take (length ?u) ?cs = ?u" by (simp add: occ_chars_def)
  moreover have "drop 13 ?cs = map (\<lambda>d. 48 + d) (wide_digits 8 ?k)" using arg_cong [OF tail, of "drop 7"] by simp
  moreover have "foldl (\<lambda>acc c. acc * 10 + the (digit c)) 0 (map (\<lambda>d. 48 + d) (wide_digits 8 ?k)) = ?k"
    using foldl_digit_values [of "wide_digits 8 ?k" 0] wide_digits_bound by (auto simp del: mult_eq_0_iff)
  moreover have "?cs ! 12 = (if oc_right c = Call then 67 else 80)"
  proof -
    have "length ?cs = 21" using u(2) wide_digits_length [OF k(1)] by (simp add: occ_chars_def)
    then have "?cs ! 12 = drop 6 ?cs ! 6" by simp
    then show ?thesis unfolding tail by simp
  qed
  moreover have "thousandths_text ?k = canon (oc_strike c)"
    by (rule thousandths_strike) (use assms(1) in \<open>simp add: occ_contract_def\<close>)
  moreover have "(if oc_right c = Call then 67 else 80 :: nat) \<in> {67, 99} \<longleftrightarrow> oc_right c = Call" by simp
  moreover have "(if oc_right c = Call then Call else Put) = oc_right c" by (cases "oc_right c") simp_all
  ultimately show ?thesis using t(1) k(2) underlying_chars [OF u(4)]
    by (simp add: parse_occ_def Let_def del: mult_eq_0_iff)
qed

lemma rebuild_contract:
  assumes "occ_contract c"
  shows "make_option x (oc_underlying c) (oc_expiry c) (VStr (canon (oc_strike c))) (oc_multiplier c)
    (VRight (oc_right c)) = Ok c"
proof -
  have c: "list_all alnum (utext (oc_underlying c))" "oc_underlying c \<noteq> []" "length (oc_underlying c) \<le> 6"
    "occ_strike (oc_strike c)" "0 < oc_multiplier c" using assms by (simp_all add: occ_contract_def)
  have "validate_underlying x (oc_underlying c) = Ok (oc_underlying c)"
    using c underlying_chars [OF c(1)] by (simp add: validate_underlying_def Let_def) (simp add: utext_def)
  moreover have "canonical (oc_strike c)" using c(4) by (simp add: occ_strike_def)
  then have "money_parse (chars (canon (oc_strike c))) = Some (oc_strike c)"
    by (simp add: money_parse_def canon_ascii try_parse_canon)
  moreover have "to_uppercase z (chars ''C'') = [67]" "to_uppercase z (chars ''P'') = [80]" for z
    by (simp_all add: underlying_chars alnum_def is_upper_def utext_def to_uppercase_def)
  then have "validate_rest x (decwire (oc_strike c)) (Some (int_to_string (oc_multiplier c))) (Some (right_code (oc_right c)))
    = Ok (oc_right c)"
    using multiplier_text [OF c(5)]
    by (cases "oc_right c") (simp_all add: validate_rest_def validate_strike_strike [OF c(4)] utext_def)
  ultimately show ?thesis by (simp add: make_option_def)
qed

subsection \<open>The property\<close>

text \<open>
  C39. An option contract survives its OCC symbol. A contract in the range the symbol can carry prints
  to 21 characters; \<open>parse_occ\<close> reads from them the underlying, the date, the right and the canonical
  spelling of the strike, and the constructor applied to what was read answers the contract itself.
\<close>

theorem occ_roundtrip:
  assumes "occ_contract c"
  shows "\<exists>t p. option_occ c = Ok t \<and> length (chars t) = 21 \<and> parse_occ x (Some t) = Ok p
    \<and> po_year p = nd_year (oc_expiry c) \<and> po_month p = nd_month (oc_expiry c) \<and> po_day p = nd_day (oc_expiry c)
    \<and> make_option x (po_root p) \<lparr>nd_year = po_year p, nd_month = po_month p, nd_day = po_day p\<rparr>
        (VStr (po_strike_text p)) (oc_multiplier c) (VRight (po_right p)) = Ok c"
proof -
  obtain t where t: "option_occ c = Ok t" "t \<noteq> []"
    "chars t = occ_chars (utext (oc_underlying c)) (nat (nd_year (oc_expiry c) mod 100)) (nd_month (oc_expiry c))
       (nd_day (oc_expiry c)) (oc_right c) (occ_millis (oc_strike c))" using printed_contract [OF assms] .
  have "length (chars t) = 21"
    using assms wide_digits_length [of "occ_millis (oc_strike c)" 8]
    by (simp add: t(3) occ_chars_def occ_contract_def occ_strike_def MAX_MILLIS_def utext_def)
  moreover obtain Y M D where "oc_expiry c = \<lparr>nd_year = Y, nd_month = M, nd_day = D\<rparr>" by (cases "oc_expiry c")
  ultimately show ?thesis using t(1) read_symbol [OF assms t(1), of x] rebuild_contract [OF assms, of x] by simp
qed

definition s_call :: option_contract where
  "s_call = \<lparr>oc_underlying = ''SPXW'', oc_expiry = \<lparr>nd_year = 2026, nd_month = 9, nd_day = 18\<rparr>,
     oc_strike = \<lparr>neg_bit = False, mantissa = 65025, scale = 1\<rparr>, oc_right = Call, oc_multiplier = 100\<rparr>"

theorem occ_roundtrip_witness:
  "occ_contract s_call \<and> option_occ s_call = Ok ''SPXW  260918C06502500''
   \<and> (\<exists>t p. option_occ s_call = Ok t \<and> parse_occ sample_ext (Some t) = Ok p \<and> po_strike_text p = ''6502.5'')"
proof -
  have c: "occ_contract s_call"
    by (simp add: occ_contract_def s_call_def occ_strike_def canonical_def MANTISSA_LIMIT_def MAX_SCALE_def MAX_MILLIS_def
        utext_def alnum_def is_upper_def days_in_month_def)
  have o: "option_occ s_call = Ok ''SPXW  260918C06502500''" by code_simp
  have "canon (oc_strike s_call) = ''6502.5''" by code_simp
  then show ?thesis using c o occ_roundtrip [OF c, of sample_ext] read_symbol [OF c o, of sample_ext] by auto
qed

end
