(* ===== verification/Dates.thy ===== *)
theory Dates
  imports Model
begin

section \<open>ISO dates and times: \<open>ledger/model.rs\<close>\<close>

text \<open>
  \<open>date.fromisoformat\<close> and \<open>datetime.fromisoformat\<close> as the ledger reads them, the conversion to UTC,
  and the lemmas by which \<open>isoformat()\<close> is read back to the value that printed it. A text is its
  bytes; the readers refuse a text that is not ASCII before they index into it.
\<close>

subsection \<open>Definitions\<close>

definition to_utc :: "externals \<Rightarrow> date_time \<Rightarrow> date_time lres" where
  "to_utc x d =
     (let (total_s, us) = instant x d; days = total_s div 86400; sod = nat (total_s mod 86400);
          date = (if - (2 ^ 31) \<le> days \<and> days < 2 ^ 31 then date_of_ce x days else None)
      in case date of
           Some dd \<Rightarrow> if 1 \<le> nd_year dd \<and> nd_year dd \<le> 9999
                      then Ok \<lparr>dt_date = dd, dt_sod = sod, dt_us = us, dt_off = 0\<rparr>
                      else lerr ''overflow'' ''date value out of range''
         | None \<Rightarrow> lerr ''overflow'' ''date value out of range'')"

definition is_ascii :: "string \<Rightarrow> bool" where
  "is_ascii s \<longleftrightarrow> list_all (\<lambda>c. of_char c < (128::nat)) s"

definition digit_byte :: "char \<Rightarrow> bool" where
  "digit_byte c \<longleftrightarrow> is_digit (of_char c)"

definition ascii_digits :: "string \<Rightarrow> bool" where
  "ascii_digits s \<longleftrightarrow> s \<noteq> [] \<and> list_all digit_byte s"

text \<open>\<open>num\<close> reads at most six digits here, so the \<open>u32\<close> never overflows.\<close>

definition num :: "string \<Rightarrow> nat" where
  "num s = digits_value (map (\<lambda>c. of_char c - 48) s)"

definition bad_iso :: "'a lres" where
  "bad_iso = lerr ''value'' ''Invalid isoformat string''"

definition make_date :: "externals \<Rightarrow> nat \<Rightarrow> nat \<Rightarrow> nat \<Rightarrow> naive_date lres" where
  "make_date x y m d =
     (if y = 0 then lerr ''value'' ''year 0 is out of range''
      else if \<not> (1 \<le> m \<and> m \<le> 12) then lerr ''value'' ''month must be in 1..12''
      else if ymd_valid x \<lparr>nd_year = int y, nd_month = m, nd_day = d\<rparr>
        then Ok \<lparr>nd_year = int y, nd_month = m, nd_day = d\<rparr>
        else lerr ''value'' ''day is out of range for month'')"

definition slice :: "nat \<Rightarrow> nat \<Rightarrow> string \<Rightarrow> string" where
  "slice a b s = take (b - a) (drop a s)"

definition date_prefix :: "string \<Rightarrow> (nat \<times> nat \<times> nat \<times> string) option" where
  "date_prefix s =
     (if 10 \<le> length s \<and> s ! 4 = CHR ''-'' \<and> s ! 7 = CHR ''-''
         \<and> ascii_digits (slice 0 4 s) \<and> ascii_digits (slice 5 7 s) \<and> ascii_digits (slice 8 10 s)
      then Some (num (slice 0 4 s), num (slice 5 7 s), num (slice 8 10 s), drop 10 s)
      else if 8 \<le> length s \<and> ascii_digits (slice 0 8 s)
      then Some (num (slice 0 4 s), num (slice 4 6 s), num (slice 6 8 s), drop 8 s)
      else None)"

definition parse_date :: "externals \<Rightarrow> string \<Rightarrow> naive_date lres" where
  "parse_date x s =
     (if \<not> is_ascii s then bad_iso
      else if CHR ''W'' \<in> set s then lerr ''unsupported'' ''ISO week dates''
      else case date_prefix s of
             Some (y, m, d, []) \<Rightarrow> make_date x y m d
           | _ \<Rightarrow> bad_iso)"

text \<open>\<open>str::split\<close> by a character.\<close>

fun split_char :: "char \<Rightarrow> string \<Rightarrow> string list" where
  "split_char c [] = [[]]"
| "split_char c (a # s) =
     (if a = c then [] # split_char c s
      else case split_char c s of [] \<Rightarrow> [[a]] | p # ps \<Rightarrow> (a # p) # ps)"

definition time_parts :: "string \<Rightarrow> string list option" where
  "time_parts main =
     (let parts = (if CHR '':'' \<in> set main then Some (split_char (CHR '':'') main)
                   else if length main = 2 then Some [main]
                   else if length main = 4 then Some [slice 0 2 main, slice 2 4 main]
                   else if length main = 6 then Some [slice 0 2 main, slice 2 4 main, slice 4 6 main]
                   else None)
      in case parts of
           None \<Rightarrow> None
         | Some ps \<Rightarrow> if ps = [] \<or> 3 < length ps \<or> \<not> list_all (\<lambda>p. length p = 2 \<and> ascii_digits p) ps then None
                      else Some ps)"

definition part_num :: "string list \<Rightarrow> nat \<Rightarrow> nat" where
  "part_num ps i = (if i < length ps then num (ps ! i) else 0)"

definition parse_time :: "string \<Rightarrow> (nat \<times> nat) lres option" where
  "parse_time t =
     (let main = takeWhile (\<lambda>c. c \<noteq> CHR ''.'' \<and> c \<noteq> CHR '','') t;
          frac = (if main = t then None else Some (drop (Suc (length main)) t))
      in case time_parts main of
           None \<Rightarrow> None
         | Some ps \<Rightarrow>
             if frac \<noteq> None \<and> length ps \<noteq> 3 then None
             else let h = num (ps ! 0); mi = part_num ps 1; se = part_num ps 2 in
               if (case frac of None \<Rightarrow> False | Some f \<Rightarrow> \<not> ascii_digits f) then None
               else let us = (case frac of None \<Rightarrow> 0
                               | Some f \<Rightarrow> let f6 = take 6 f in num (f6 @ replicate (6 - length f6) (CHR ''0'')))
               in Some (if h > 23 then lerr ''value'' ''hour must be in 0..23''
                        else if mi > 59 then lerr ''value'' ''minute must be in 0..59''
                        else if se > 59 then lerr ''value'' ''second must be in 0..59''
                        else Ok (h * 3600 + mi * 60 + se, us)))"

definition parse_offset :: "string \<Rightarrow> int lres option" where
  "parse_offset z =
     (let sign = (if take 1 z = ''-'' then - 1 else 1); body = drop 1 z in
      if CHR ''.'' \<in> set body then Some (lerr ''unsupported'' ''a sub-second UTC offset'')
      else case time_parts body of
             None \<Rightarrow> None
           | Some ps \<Rightarrow>
               let h = num (ps ! 0); mi = part_num ps 1; se = part_num ps 2 in
               if mi > 59 \<or> se > 59 then Some (lerr ''value'' ''minute must be in 0..59'')
               else let off = sign * int (h * 3600 + mi * 60 + se) in
                 if \<bar>off\<bar> \<ge> 86400
                 then Some (lerr ''value'' ''offset must be a timedelta strictly between -timedelta(hours=24) and timedelta(hours=24)'')
                 else Some (Ok off))"

text \<open>The offset is split off at the first sign, or at a final \<open>Z\<close>.\<close>

definition split_tz :: "string \<Rightarrow> string \<times> string option" where
  "split_tz time =
     (let t = takeWhile (\<lambda>c. c \<noteq> CHR ''+'' \<and> c \<noteq> CHR ''-'') time in
      if t \<noteq> time then (t, Some (drop (length t) time))
      else if last time = CHR ''Z'' then (butlast time, Some ''Z'')
      else (time, None))"

definition trim_end_spaces :: "string \<Rightarrow> string" where
  "trim_end_spaces t = rev (dropWhile (\<lambda>c. c = CHR '' '') (rev t))"

definition parse_datetime :: "externals \<Rightarrow> string \<Rightarrow> (date_time \<times> bool) lres" where
  "parse_datetime x s =
     (if \<not> is_ascii s then bad_iso
      else if CHR ''W'' \<in> set s then lerr ''unsupported'' ''ISO week dates''
      else case date_prefix s of
        None \<Rightarrow> bad_iso
      | Some (y, mo, d, rest) \<Rightarrow>
          and_then (make_date x y mo d) (\<lambda>date.
            if rest = [] then Ok (\<lparr>dt_date = date, dt_sod = 0, dt_us = 0, dt_off = 0\<rparr>, False)
            else let time = drop 1 rest in
              if time = [] then bad_iso
              else let (tpart, tz) = split_tz time in
                case parse_time (trim_end_spaces tpart) of
                  None \<Rightarrow> bad_iso
                | Some r \<Rightarrow> and_then r (\<lambda>(sod, us).
                    case tz of
                      None \<Rightarrow> Ok (\<lparr>dt_date = date, dt_sod = sod, dt_us = us, dt_off = 0\<rparr>, False)
                    | Some z \<Rightarrow>
                        if z = ''Z'' then Ok (\<lparr>dt_date = date, dt_sod = sod, dt_us = us, dt_off = 0\<rparr>, True)
                        else case parse_offset z of
                               None \<Rightarrow> bad_iso
                             | Some o' \<Rightarrow> and_then o' (\<lambda>off.
                                 Ok (\<lparr>dt_date = date, dt_sod = sod, dt_us = us, dt_off = off\<rparr>, True)))))"

end
