(* ===== verification/Dates_Props.thy ===== *)
theory Dates_Props
  imports Dates Occ
begin

section \<open>A date and time survives its ISO text\<close>

subsection \<open>Printed digits\<close>

lemma digit_byte_neq:
  assumes "digit_byte c"
  shows "c \<noteq> CHR ''-''" "c \<noteq> CHR ''+''" "c \<noteq> CHR ''.''" "c \<noteq> CHR '',''" "c \<noteq> CHR '':''" "c \<noteq> CHR ''Z''" "c \<noteq> CHR ''W''"
    "c \<noteq> CHR '' ''" "c \<noteq> CHR ''T''" "of_char c < (128::nat)"
  using assms by (auto simp: digit_byte_def is_digit_def)

lemma digit_char_byte: "d < 10 \<Longrightarrow> digit_byte (digit_char d) \<and> of_char (digit_char d) - 48 = d"
  using utext_digit_char [of "[d]"] by (simp add: utext_def digit_byte_def is_digit_def)

lemma pad0_props:
  assumes "n < 10 ^ w" "0 < w"
  shows "length (pad0 w n) = w" "list_all digit_byte (pad0 w n)" "num (pad0 w n) = n"
proof -
  show "length (pad0 w n) = w" using wide_digits_length [OF assms] by (simp add: pad0_digits)
  show "list_all digit_byte (pad0 w n)"
    using wide_digits_bound digit_char_byte by (auto simp: pad0_digits list_all_iff)
  have "map (\<lambda>c. of_char c - 48) (pad0 w n) = map (\<lambda>d. d) (wide_digits w n)"
    unfolding pad0_digits map_map by (rule map_cong) (use wide_digits_bound digit_char_byte in \<open>auto simp: comp_def\<close>)
  then show "num (pad0 w n) = n" by (simp add: num_def)
qed

lemma list_of_length_2: "length xs = 2 \<Longrightarrow> \<exists>a b. xs = [a, b]"
  by (auto simp: numeral_eq_Suc length_Suc_conv)

lemma list_of_length_4: "length xs = 4 \<Longrightarrow> \<exists>a b c d. xs = [a, b, c, d]"
  by (auto simp: numeral_eq_Suc length_Suc_conv)

lemma two_digits:
  assumes "n < 100"
  obtains a b where "pad0 2 n = [a, b]" "digit_byte a" "digit_byte b" "num [a, b] = n"
proof -
  have p: "length (pad0 2 n) = 2" "list_all digit_byte (pad0 2 n)" "num (pad0 2 n) = n"
    using pad0_props [of n 2] assms by simp_all
  obtain a b where "pad0 2 n = [a, b]" using list_of_length_2 [OF p(1)] by blast
  with p that show thesis by simp
qed

lemma four_digits:
  assumes "n < 10000"
  obtains a b c d where "pad0 4 n = [a, b, c, d]" "digit_byte a" "digit_byte b" "digit_byte c" "digit_byte d" "num [a, b, c, d] = n"
proof -
  have p: "length (pad0 4 n) = 4" "list_all digit_byte (pad0 4 n)" "num (pad0 4 n) = n"
    using pad0_props [of n 4] assms by simp_all
  obtain a b c d where "pad0 4 n = [a, b, c, d]" using list_of_length_4 [OF p(1)] by blast
  with p that show thesis by simp
qed

subsection \<open>The date\<close>

definition iso_date :: "externals \<Rightarrow> naive_date \<Rightarrow> bool" where
  "iso_date x d \<longleftrightarrow> ymd_valid x d \<and> 1 \<le> nd_year d \<and> nd_year d \<le> 9999 \<and> 1 \<le> nd_month d \<and> nd_month d \<le> 12 \<and> nd_day d < 100"

lemma read_date:
  assumes "iso_date x d"
  shows "date_prefix (date_iso d @ rest) = Some (nat (nd_year d), nd_month d, nd_day d, rest)"
    and "make_date x (nat (nd_year d)) (nd_month d) (nd_day d) = Ok d"
    and "\<forall>c \<in> set (date_iso d). digit_byte c \<or> c = CHR ''-''"
proof -
  have b: "nat (nd_year d) < 10000" "nd_month d < 100" "nd_day d < 100" "\<not> nd_year d < 0"
    using assms by (auto simp: iso_date_def)
  obtain a1 a2 a3 a4 where y: "pad0 4 (nat (nd_year d)) = [a1, a2, a3, a4]" "digit_byte a1" "digit_byte a2" "digit_byte a3"
    "digit_byte a4" "num [a1, a2, a3, a4] = nat (nd_year d)" using four_digits [OF b(1)] .
  obtain m1 m2 where m: "pad0 2 (nd_month d) = [m1, m2]" "digit_byte m1" "digit_byte m2" "num [m1, m2] = nd_month d"
    using two_digits [OF b(2)] .
  obtain d1 d2 where dd: "pad0 2 (nd_day d) = [d1, d2]" "digit_byte d1" "digit_byte d2" "num [d1, d2] = nd_day d"
    using two_digits [OF b(3)] .
  have iso: "date_iso d = [a1, a2, a3, a4, CHR ''-'', m1, m2, CHR ''-'', d1, d2]"
    using b(4) y(1) m(1) dd(1) by (simp add: date_iso_def pad0_int_def)
  show "date_prefix (date_iso d @ rest) = Some (nat (nd_year d), nd_month d, nd_day d, rest)"
    using y m dd unfolding iso date_prefix_def by (simp add: slice_def ascii_digits_def numeral_eq_Suc)
  show "\<forall>c \<in> set (date_iso d). digit_byte c \<or> c = CHR ''-''" unfolding iso using y m dd by simp
  show "make_date x (nat (nd_year d)) (nd_month d) (nd_day d) = Ok d"
    using assms by (cases d) (simp add: make_date_def iso_date_def)
qed

subsection \<open>The time of day and the offset\<close>

lemma time_parts_colon:
  assumes "list_all digit_byte [a, b, c, d, e, f]"
  shows "time_parts [a, b, CHR '':'', c, d] = Some [[a, b], [c, d]]"
    and "time_parts [a, b, CHR '':'', c, d, CHR '':'', e, f] = Some [[a, b], [c, d], [e, f]]"
proof -
  have n: "a \<noteq> CHR '':''" "b \<noteq> CHR '':''" "c \<noteq> CHR '':''" "d \<noteq> CHR '':''" "e \<noteq> CHR '':''" "f \<noteq> CHR '':''"
    using assms digit_byte_neq(5) by auto
  show "time_parts [a, b, CHR '':'', c, d] = Some [[a, b], [c, d]]"
    "time_parts [a, b, CHR '':'', c, d, CHR '':'', e, f] = Some [[a, b], [c, d], [e, f]]"
    using n assms by (simp_all add: time_parts_def ascii_digits_def)
qed

lemma clock_parts:
  assumes "(s::nat) < 86400"
  shows "s div 3600 < 24" "s mod 3600 div 60 < 60" "s mod 60 < 60" "s div 3600 * 3600 + s mod 3600 div 60 * 60 + s mod 60 = s"
proof -
  show "s div 3600 < 24" "s mod 3600 div 60 < 60" "s mod 60 < 60" using assms by (simp_all add: div_less_iff_less_mult)
  have "s mod 60 = s mod 3600 mod 60" by (simp add: mod_mod_cancel)
  then show "s div 3600 * 3600 + s mod 3600 div 60 * 60 + s mod 60 = s"
    using div_mult_mod_eq [of "s mod 3600" 60] div_mult_mod_eq [of s 3600] by linarith
qed

lemma takeWhile_stop: "\<forall>c \<in> set t. P c \<Longrightarrow> \<not> P s \<Longrightarrow> takeWhile P (t @ s # z) = t"
  by (induction t) simp_all

lemma parse_time_hms:
  assumes "list_all digit_byte [h1, h2, m1, m2, s1, s2]" "num [h1, h2] = h" "num [m1, m2] = m" "num [s1, s2] = s"
    "h \<le> 23" "m \<le> 59" "s \<le> 59"
  shows "parse_time [h1, h2, CHR '':'', m1, m2, CHR '':'', s1, s2] = Some (Ok (h * 3600 + m * 60 + s, 0))"
    and "length f = 6 \<Longrightarrow> list_all digit_byte f \<Longrightarrow>
      parse_time ([h1, h2, CHR '':'', m1, m2, CHR '':'', s1, s2] @ CHR ''.'' # f) = Some (Ok (h * 3600 + m * 60 + s, num f))"
proof -
  let ?P = "\<lambda>c. c \<noteq> CHR ''.'' \<and> c \<noteq> CHR '',''" and ?t = "[h1, h2, CHR '':'', m1, m2, CHR '':'', s1, s2]"
  have P: "\<forall>c \<in> set ?t. ?P c" using assms(1) digit_byte_neq(3,4) by auto
  note tp = time_parts_colon(2) [OF assms(1)]
  have "takeWhile ?P ?t = ?t" using P by (simp only: takeWhile_eq_all_conv)
  then show "parse_time ?t = Some (Ok (h * 3600 + m * 60 + s, 0))"
    using tp assms(2-) unfolding parse_time_def Let_def by (simp add: part_num_def)
  assume f: "length f = 6" "list_all digit_byte f"
  have tw: "takeWhile ?P (?t @ CHR ''.'' # f) = ?t" by (rule takeWhile_stop [OF P]) simp
  have dr: "drop (Suc (length ?t)) (?t @ CHR ''.'' # f) = f" "?t \<noteq> ?t @ CHR ''.'' # f" by simp_all
  have "f \<noteq> []" using f(1) by auto
  then show "parse_time (?t @ CHR ''.'' # f) = Some (Ok (h * 3600 + m * 60 + s, num f))"
    using tp assms(2-) f unfolding parse_time_def Let_def tw dr(1)
    by (simp add: part_num_def ascii_digits_def dr(2))
qed

definition clock_text :: "nat \<Rightarrow> nat \<Rightarrow> string" where
  "clock_text sod us = pad0 2 (sod div 3600) @ '':'' @ pad0 2 (sod mod 3600 div 60) @ '':'' @ pad0 2 (sod mod 60)
     @ (if us \<noteq> 0 then ''.'' @ pad0 6 us else [])"

lemma clock_text_chars:
  assumes "sod < 86400" "us < 1000000"
  shows "parse_time (clock_text sod us) = Some (Ok (sod, us))"
    and "\<forall>c \<in> set (clock_text sod us). digit_byte c \<or> c = CHR '':'' \<or> c = CHR ''.''"
    and "digit_byte (last (clock_text sod us))" "clock_text sod us \<noteq> []"
proof -
  note cp = clock_parts [OF assms(1)]
  obtain h1 h2 where h: "pad0 2 (sod div 3600) = [h1, h2]" "digit_byte h1" "digit_byte h2" "num [h1, h2] = sod div 3600"
    using two_digits [of "sod div 3600"] cp(1) by auto
  obtain m1 m2 where m: "pad0 2 (sod mod 3600 div 60) = [m1, m2]" "digit_byte m1" "digit_byte m2" "num [m1, m2] = sod mod 3600 div 60"
    using two_digits [of "sod mod 3600 div 60"] cp(2) by auto
  obtain s1 s2 where s: "pad0 2 (sod mod 60) = [s1, s2]" "digit_byte s1" "digit_byte s2" "num [s1, s2] = sod mod 60"
    using two_digits [of "sod mod 60"] cp(3) by auto
  have p6: "length (pad0 6 us) = 6" "list_all digit_byte (pad0 6 us)" "num (pad0 6 us) = us"
    using pad0_props [of us 6] assms(2) by simp_all
  let ?hms = "[h1, h2, CHR '':'', m1, m2, CHR '':'', s1, s2]"
  have tx: "clock_text sod us = ?hms @ (if us \<noteq> 0 then CHR ''.'' # pad0 6 us else [])"
    by (simp add: clock_text_def h(1) m(1) s(1))
  have d: "list_all digit_byte [h1, h2, m1, m2, s1, s2]" using h m s by simp
  have lim: "sod div 3600 \<le> 23" "sod mod 3600 div 60 \<le> 59" "sod mod 60 \<le> 59" using cp by linarith+
  note pt = parse_time_hms [OF d h(4) m(4) s(4) lim, unfolded cp(4)]
  show "parse_time (clock_text sod us) = Some (Ok (sod, us))"
    using pt(1) pt(2) [OF p6(1,2)] p6(3) unfolding tx by (cases "us = 0") simp_all
  show "\<forall>c \<in> set (clock_text sod us). digit_byte c \<or> c = CHR '':'' \<or> c = CHR ''.''"
    unfolding tx using h m s p6(2) by (auto simp: list_all_iff)
  show "clock_text sod us \<noteq> []" by (simp add: tx)
  show "digit_byte (last (clock_text sod us))"
  proof (cases "us = 0")
    case False
    then have "pad0 6 us \<noteq> []" using p6(1) by auto
    then show ?thesis unfolding tx using False p6(2) by (simp add: list_all_iff)
  next
    case True
    then show ?thesis unfolding tx using s by simp
  qed
qed

definition offset_text :: "int \<Rightarrow> string" where
  "offset_text off = (let a = nat \<bar>off\<bar> in (if off < 0 then ''-'' else ''+'') @ pad0 2 (a div 3600) @ '':'' @ pad0 2 (a mod 3600 div 60)
     @ (if a mod 60 \<noteq> 0 then '':'' @ pad0 2 (a mod 60) else []))"

lemma offset_text_read:
  assumes "\<bar>off\<bar> < 86400"
  shows "parse_offset (offset_text off) = Some (Ok off)"
    and "\<exists>z. offset_text off = (if off < 0 then CHR ''-'' else CHR ''+'') # z \<and> (\<forall>c \<in> set z. digit_byte c \<or> c = CHR '':'')"
proof -
  let ?a = "nat \<bar>off\<bar>"
  have "?a < 86400" using assms by simp
  note cp = clock_parts [OF this]
  obtain h1 h2 where h: "pad0 2 (?a div 3600) = [h1, h2]" "digit_byte h1" "digit_byte h2" "num [h1, h2] = ?a div 3600"
    using two_digits [of "?a div 3600"] cp(1) by auto
  obtain m1 m2 where m: "pad0 2 (?a mod 3600 div 60) = [m1, m2]" "digit_byte m1" "digit_byte m2" "num [m1, m2] = ?a mod 3600 div 60"
    using two_digits [of "?a mod 3600 div 60"] cp(2) by auto
  obtain s1 s2 where s: "pad0 2 (?a mod 60) = [s1, s2]" "digit_byte s1" "digit_byte s2" "num [s1, s2] = ?a mod 60"
    using two_digits [of "?a mod 60"] cp(3) by auto
  have d: "list_all digit_byte [h1, h2, m1, m2, s1, s2]" using h m s by simp
  let ?z = "[h1, h2, CHR '':'', m1, m2] @ (if ?a mod 60 \<noteq> 0 then [CHR '':'', s1, s2] else [])"
  have tx: "offset_text off = (if off < 0 then CHR ''-'' else CHR ''+'') # ?z"
    unfolding offset_text_def Let_def h(1) m(1) s(1) by simp
  moreover have "\<forall>c \<in> set ?z. digit_byte c \<or> c = CHR '':''" using h m s by auto
  ultimately show "\<exists>z. offset_text off = (if off < 0 then CHR ''-'' else CHR ''+'') # z \<and> (\<forall>c \<in> set z. digit_byte c \<or> c = CHR '':'')"
    by blast
  define hh mm ss where "hh = ?a div 3600" and "mm = ?a mod 3600 div 60" and "ss = ?a mod 60"
  have lim: "\<not> 59 < mm" "\<not> 59 < ss" "hh * 3600 + mm * 60 + ss = ?a" using cp unfolding hh_def mm_def ss_def by linarith+
  have nodot: "CHR ''.'' \<notin> set ?z" using h m s digit_byte_neq(3) by auto
  have tp: "time_parts ?z = Some ([[h1, h2], [m1, m2]] @ (if ss \<noteq> 0 then [[s1, s2]] else []))"
    using time_parts_colon [OF d] by (simp add: ss_def)
  have nums: "num [h1, h2] = hh" "num [m1, m2] = mm" "num [s1, s2] = ss" using h m s by (simp_all add: hh_def mm_def ss_def)
  have sgn: "(if off < 0 then - 1 else 1) * int (hh * 3600 + mm * 60 + ss) = off" unfolding lim(3) by simp
  have "drop 1 (offset_text off) = ?z" "take 1 (offset_text off) = ''-'' \<longleftrightarrow> off < 0" unfolding tx by simp_all
  then show "parse_offset (offset_text off) = Some (Ok off)"
    using nodot tp nums lim(1,2) sgn assms unfolding parse_offset_def Let_def
    by (cases "ss = 0") (simp_all add: part_num_def)
qed

lemma dt_iso_parts: "dt_iso d = date_iso (dt_date d) @ ''T'' @ clock_text (dt_sod d) (dt_us d) @ offset_text (dt_off d)"
  by (simp add: dt_iso_def clock_text_def offset_text_def Let_def)

definition iso_date_time :: "externals \<Rightarrow> date_time \<Rightarrow> bool" where
  "iso_date_time x d \<longleftrightarrow> iso_date x (dt_date d) \<and> dt_sod d < 86400 \<and> dt_us d < 1000000 \<and> \<bar>dt_off d\<bar> < 86400"

lemma split_tz_iso:
  assumes "\<forall>c \<in> set t. digit_byte c \<or> c = CHR '':'' \<or> c = CHR ''.''" "s = CHR ''-'' \<or> s = CHR ''+''"
  shows "split_tz (t @ s # z) = (t, Some (s # z))"
proof -
  have "takeWhile (\<lambda>c. c \<noteq> CHR ''+'' \<and> c \<noteq> CHR ''-'') (t @ s # z) = t"
  proof (rule takeWhile_stop)
    show "\<forall>c \<in> set t. c \<noteq> CHR ''+'' \<and> c \<noteq> CHR ''-''"
    proof
      fix c assume "c \<in> set t"
      then show "c \<noteq> CHR ''+'' \<and> c \<noteq> CHR ''-''" using bspec [OF assms(1)] digit_byte_neq(1,2) by auto
    qed
  qed (use assms(2) in auto)
  then show ?thesis by (simp add: split_tz_def)
qed

lemma iso_char: "digit_byte c \<or> c \<in> {CHR ''-'', CHR ''+'', CHR '':'', CHR ''.'', CHR ''T''} \<Longrightarrow> of_char c < (128::nat) \<and> c \<noteq> CHR ''W''"
  using digit_byte_neq(7,10) [of c] by auto

lemma iso_reads:
  assumes "iso_date_time x d"
  shows "parse_datetime x (dt_iso d) = Ok (d, True) \<and> parse_date x (date_iso (dt_date d)) = Ok (dt_date d)
    \<and> is_ascii (dt_iso d) \<and> is_ascii (date_iso (dt_date d))"
proof -
  have dt: "iso_date x (dt_date d)" "dt_sod d < 86400" "dt_us d < 1000000" "\<bar>dt_off d\<bar> < 86400"
    using assms by (auto simp: iso_date_time_def)
  note rd = read_date [OF dt(1)] and ct = clock_text_chars [OF dt(2,3)] and off = offset_text_read [OF dt(4)]
  obtain z where z: "offset_text (dt_off d) = (if dt_off d < 0 then CHR ''-'' else CHR ''+'') # z"
    "\<forall>c \<in> set z. digit_byte c \<or> c = CHR '':''" using off(2) by blast
  let ?t = "clock_text (dt_sod d) (dt_us d)" and ?o = "offset_text (dt_off d)"
  have ch: "\<forall>c \<in> set (dt_iso d). digit_byte c \<or> c \<in> {CHR ''-'', CHR ''+'', CHR '':'', CHR ''.'', CHR ''T''}"
    unfolding dt_iso_parts z(1) using rd(3) ct(2) z(2) by auto
  then have asc: "is_ascii (dt_iso d)" "CHR ''W'' \<notin> set (dt_iso d)"
    using iso_char by (auto simp: is_ascii_def list_all_iff)
  have pre: "date_prefix (dt_iso d) = Some (nat (nd_year (dt_date d)), nd_month (dt_date d), nd_day (dt_date d), ''T'' @ ?t @ ?o)"
    unfolding dt_iso_parts by (rule rd(1))
  have sp: "split_tz (?t @ ?o) = (?t, Some ?o)" unfolding z(1) by (rule split_tz_iso [OF ct(2)]) simp
  have "last ?t \<noteq> CHR '' ''" using digit_byte_neq(8) ct(3) by blast
  then have tr: "trim_end_spaces ?t = ?t" using trim_zeros [of ?t "CHR '' ''" 0] ct(4) by (simp add: trim_end_spaces_def)
  have nz: "?o \<noteq> ''Z''" unfolding z(1) by simp
  have "parse_datetime x (dt_iso d) = Ok (d, True)"
    using asc pre sp tr rd(2) ct(1,4) off(1) nz by (simp add: parse_datetime_def)
  moreover have da: "is_ascii (date_iso (dt_date d))" "CHR ''W'' \<notin> set (date_iso (dt_date d))"
    using asc unfolding dt_iso_parts by (auto simp: is_ascii_def)
  then have "parse_date x (date_iso (dt_date d)) = Ok (dt_date d)"
    using rd(1) [of "[]"] rd(2) by (simp add: parse_date_def)
  ultimately show ?thesis using asc(1) da(1) by blast
qed

lemma date_reads:
  assumes "iso_date x d"
  shows "parse_date x (date_iso d) = Ok d" "is_ascii (date_iso d)"
  using iso_reads [of x "\<lparr>dt_date = d, dt_sod = 0, dt_us = 0, dt_off = 0\<rparr>"] assms by (auto simp: iso_date_time_def)

text \<open>
  C40. What \<open>isoformat()\<close> prints of a date and time with an offset, \<open>parse_datetime\<close> reads back to the same
  date, second, microsecond and offset; a date reads back from \<open>date_iso\<close>.
\<close>

theorem iso_roundtrip:
  assumes "iso_date_time x d"
  shows "parse_datetime x (dt_iso d) = Ok (d, True) \<and> parse_date x (date_iso (dt_date d)) = Ok (dt_date d)"
  using iso_reads [OF assms] by blast

definition s_stamp :: date_time where
  "s_stamp = \<lparr>dt_date = \<lparr>nd_year = 2026, nd_month = 3, nd_day = 2\<rparr>, dt_sod = 34200, dt_us = 250, dt_off = - 18000\<rparr>"

theorem iso_roundtrip_witness:
  "iso_date_time sample_ext s_stamp \<and> dt_iso s_stamp = ''2026-03-02T09:30:00.000250-05:00''
   \<and> parse_datetime sample_ext (dt_iso s_stamp) = Ok (s_stamp, True)"
proof -
  have w: "iso_date_time sample_ext s_stamp"
    by (simp add: iso_date_time_def iso_date_def s_stamp_def sample_ext_def greg_valid_def days_in_month_def)
  moreover have "dt_iso s_stamp = ''2026-03-02T09:30:00.000250-05:00''" by code_simp
  ultimately show ?thesis using iso_roundtrip [OF w] by blast
qed

end
