(* ===== verification/Calendar.thy ===== *)
theory Calendar
  imports Dates "HOL-Library.Product_Lexorder"
begin

section \<open>The exchange calendar: \<open>calendar.rs\<close>\<close>

text \<open>
  Sessions, holidays and early closes of the New York exchange from 2000 to 2040. An instant of UTC
  is the pair of its second of the Unix epoch and its microsecond, compared lexicographically. The
  arithmetic of dates and the time zone are fields of \<open>externals\<close>; where the code adds days with \<open>+\<close>
  or unwraps (\<open>expect\<close>), the model takes \<open>the\<close> of the answer, so nothing is known of a case in which
  the code would abort.
\<close>

subsection \<open>Dates\<close>

type_synonym utc = "int \<times> nat"

definition nd_key :: "naive_date \<Rightarrow> int \<times> nat \<times> nat" where
  "nd_key d = (nd_year d, nd_month d, nd_day d)"

definition nd_less :: "naive_date \<Rightarrow> naive_date \<Rightarrow> bool" where
  "nd_less a b \<longleftrightarrow> nd_key a < nd_key b"

definition nd_le :: "naive_date \<Rightarrow> naive_date \<Rightarrow> bool" where
  "nd_le a b \<longleftrightarrow> nd_key a \<le> nd_key b"

definition ymd :: "int \<Rightarrow> nat \<Rightarrow> nat \<Rightarrow> naive_date" where
  "ymd y m d = \<lparr>nd_year = y, nd_month = m, nd_day = d\<rparr>"

definition plus_days :: "externals \<Rightarrow> naive_date \<Rightarrow> int \<Rightarrow> naive_date" where
  "plus_days x d n = the (date_add x d n)"

subsection \<open>Definitions\<close>

datatype calendar_error =
    OutOfRange naive_date
  | NotASession naive_date
  | InvertedRange naive_date naive_date
  | BadWindow int

type_synonym 'a cres = "('a, calendar_error) result"

datatype venue_calendar = Xnys | Globex

definition FIRST :: naive_date where "FIRST = ymd 2000 1 1"
definition LAST :: naive_date where "LAST = ymd 2040 12 31"

definition SPECIAL_CLOSURES :: "naive_date list" where
  "SPECIAL_CLOSURES = [ymd 2001 9 11, ymd 2001 9 12, ymd 2001 9 13, ymd 2001 9 14, ymd 2004 6 11, ymd 2007 1 2,
     ymd 2012 10 29, ymd 2012 10 30, ymd 2018 12 5, ymd 2025 1 9]"

definition SPECIAL_EARLY_CLOSES :: "naive_date list" where
  "SPECIAL_EARLY_CLOSES = [ymd 2002 7 5, ymd 2003 12 26]"

definition NO_JULY_3_EARLY_CLOSE :: "int list" where
  "NO_JULY_3_EARLY_CLOSE = [2002]"

definition cal_check :: "naive_date \<Rightarrow> unit cres" where
  "cal_check d = (if nd_less d FIRST \<or> nd_less LAST d then Err (OutOfRange d) else Ok ())"

definition nth_weekday :: "externals \<Rightarrow> int \<Rightarrow> nat \<Rightarrow> nat \<Rightarrow> nat \<Rightarrow> naive_date" where
  "nth_weekday x year month wd n = the (nth_weekday_of x year month wd n)"

text \<open>Monday is 0. The search for the last weekday of a month ends within a week.\<close>

definition back_to_weekday :: "externals \<Rightarrow> nat \<Rightarrow> naive_date \<Rightarrow> naive_date" where
  "back_to_weekday x wd d = the (find (\<lambda>e. nd_weekday x e = wd) (map (\<lambda>k. plus_days x d (- int k)) [0..<7]))"

definition last_weekday :: "externals \<Rightarrow> int \<Rightarrow> nat \<Rightarrow> nat \<Rightarrow> naive_date" where
  "last_weekday x year month wd =
     (let first_next = (if month = 12 then ymd (year + 1) 1 1 else ymd year (month + 1) 1) in
      back_to_weekday x wd (plus_days x first_next (- 1)))"

text \<open>The years are positive, where Rust's \<open>/\<close> and \<open>%\<close> are \<open>div\<close> and \<open>mod\<close>.\<close>

definition easter :: "int \<Rightarrow> naive_date" where
  "easter year =
     (let a = year mod 19; b = year div 100; c = year mod 100; d = b div 4; e = b mod 4;
          f = (b + 8) div 25; g = (b - f + 1) div 3; h = (19 * a + b - d - g + 15) mod 30;
          i = c div 4; k = c mod 4; l = (32 + 2 * e + 2 * i - h - k) mod 7; m = (a + 11 * h + 22 * l) div 451;
          month = (h + l - 7 * m + 114) div 31; day = (h + l - 7 * m + 114) mod 31 + 1
      in ymd year (nat month) (nat day))"

definition observed :: "externals \<Rightarrow> naive_date \<Rightarrow> naive_date" where
  "observed x d =
     (if nd_weekday x d = 5 then plus_days x d (- 1)
      else if nd_weekday x d = 6 then plus_days x d 1
      else d)"

definition holidays :: "externals \<Rightarrow> int \<Rightarrow> naive_date list" where
  "holidays x year =
     (let ny = ymd year 1 1 in
      (if nd_weekday x ny = 5 then [] else if nd_weekday x ny = 6 then [plus_days x ny 1] else [ny])
      @ [nth_weekday x year 1 0 3, nth_weekday x year 2 0 3, plus_days x (easter year) (- 2), last_weekday x year 5 0]
      @ (if year \<ge> 2022 then [observed x (ymd year 6 19)] else [])
      @ [observed x (ymd year 7 4), nth_weekday x year 9 0 1, nth_weekday x year 11 3 4, observed x (ymd year 12 25)])"

definition is_weekend :: "externals \<Rightarrow> naive_date \<Rightarrow> bool" where
  "is_weekend x d \<longleftrightarrow> nd_weekday x d \<in> {5, 6}"

definition session_unchecked :: "externals \<Rightarrow> naive_date \<Rightarrow> bool" where
  "session_unchecked x d \<longleftrightarrow>
     \<not> is_weekend x d \<and> d \<notin> set SPECIAL_CLOSURES \<and> d \<notin> set (holidays x (nd_year d))"

definition is_session :: "externals \<Rightarrow> naive_date \<Rightarrow> bool cres" where
  "is_session x d = and_then (cal_check d) (\<lambda>_. Ok (session_unchecked x d))"

definition is_holiday :: "externals \<Rightarrow> naive_date \<Rightarrow> bool cres" where
  "is_holiday x d = and_then (cal_check d) (\<lambda>_. Ok (\<not> is_weekend x d \<and> \<not> session_unchecked x d))"

definition early_close_unchecked :: "externals \<Rightarrow> naive_date \<Rightarrow> bool" where
  "early_close_unchecked x d =
     (if \<not> session_unchecked x d then False
      else let y = nd_year d; mon_thu = (nd_weekday x d \<in> {0, 1, 2, 3});
               day_after_thanksgiving = plus_days x (nth_weekday x y 11 3 4) 1
           in nd_month d = 7 \<and> nd_day d = 3 \<and> mon_thu \<and> y \<notin> set NO_JULY_3_EARLY_CLOSE
              \<or> d = day_after_thanksgiving
              \<or> nd_month d = 12 \<and> nd_day d = 24 \<and> mon_thu
              \<or> d \<in> set SPECIAL_EARLY_CLOSES)"

definition is_early_close :: "externals \<Rightarrow> naive_date \<Rightarrow> bool cres" where
  "is_early_close x d = and_then (cal_check d) (\<lambda>_. Ok (early_close_unchecked x d))"

definition ny_time_to_utc :: "externals \<Rightarrow> naive_date \<Rightarrow> nat \<Rightarrow> utc" where
  "ny_time_to_utc x d sod = (the (ny_single x d sod), 0)"

definition ny_to_utc :: "externals \<Rightarrow> naive_date \<Rightarrow> nat \<Rightarrow> nat \<Rightarrow> utc" where
  "ny_to_utc x d hour minute = ny_time_to_utc x d (hour * 3600 + minute * 60)"

definition session_open :: "externals \<Rightarrow> naive_date \<Rightarrow> utc cres" where
  "session_open x d = and_then (is_session x d) (\<lambda>s. if \<not> s then Err (NotASession d) else Ok (ny_to_utc x d 9 30))"

definition session_close :: "externals \<Rightarrow> naive_date \<Rightarrow> utc cres" where
  "session_close x d = and_then (is_session x d) (\<lambda>s. if \<not> s then Err (NotASession d)
     else Ok (if early_close_unchecked x d then ny_to_utc x d 13 0 else ny_to_utc x d 16 0))"

text \<open>The loop leaves the range at the latest, which is shown below; \<open>None\<close> would be a loop for ever.\<close>

partial_function (option) cal_step :: "externals \<Rightarrow> naive_date \<Rightarrow> bool \<Rightarrow> naive_date cres option" where
  "cal_step x d forward =
     (let e = plus_days x d (if forward then 1 else - 1) in
      case cal_check e of
        Err er \<Rightarrow> Some (Err er)
      | Ok _ \<Rightarrow> if session_unchecked x e then Some (Ok e) else cal_step x e forward)"

definition step :: "externals \<Rightarrow> naive_date \<Rightarrow> bool \<Rightarrow> naive_date cres" where
  "step x d forward = the (cal_step x d forward)"

definition next_session :: "externals \<Rightarrow> naive_date \<Rightarrow> naive_date cres" where
  "next_session x d = and_then (cal_check d) (\<lambda>_. step x d True)"

definition previous_session :: "externals \<Rightarrow> naive_date \<Rightarrow> naive_date cres" where
  "previous_session x d = and_then (cal_check d) (\<lambda>_. step x d False)"

definition roll_to_session :: "externals \<Rightarrow> naive_date \<Rightarrow> bool \<Rightarrow> naive_date cres" where
  "roll_to_session x d forward = and_then (is_session x d) (\<lambda>s. if s then Ok d else step x d forward)"

definition days_between :: "externals \<Rightarrow> naive_date \<Rightarrow> naive_date \<Rightarrow> naive_date list" where
  "days_between x start fin = map (\<lambda>k. plus_days x start (int k)) [0..<nat (days_from_ce x fin - days_from_ce x start + 1)]"

definition sessions_in_range :: "externals \<Rightarrow> naive_date \<Rightarrow> naive_date \<Rightarrow> naive_date list cres" where
  "sessions_in_range x start fin =
     (if nd_less fin start then Err (InvertedRange start fin)
      else and_then (cal_check start) (\<lambda>_. and_then (cal_check fin) (\<lambda>_.
        Ok (filter (session_unchecked x) (takeWhile (\<lambda>d. nd_le d fin) (days_between x start fin))))))"

primrec window_loop :: "externals \<Rightarrow> nat \<Rightarrow> naive_date \<Rightarrow> naive_date list \<Rightarrow> naive_date list cres" where
  "window_loop x 0 d out = Ok out"
| "window_loop x (Suc n) d out = and_then (step x d False) (\<lambda>e. window_loop x n e (out @ [e]))"

definition sessions_window_back :: "externals \<Rightarrow> naive_date \<Rightarrow> int \<Rightarrow> naive_date list cres" where
  "sessions_window_back x fin count =
     (if count \<le> 0 then Err (BadWindow count)
      else and_then (is_session x fin) (\<lambda>s. if \<not> s then Err (NotASession fin)
        else and_then (window_loop x (nat count - 1) fin [fin]) (\<lambda>out. Ok (rev out))))"

definition is_open_at :: "externals \<Rightarrow> utc \<Rightarrow> bool cres" where
  "is_open_at x t =
     (let d = fst (ny_local x (fst t)) in
      and_then (is_session x d) (\<lambda>s. if \<not> s then Ok False
        else and_then (session_open x d) (\<lambda>open. and_then (session_close x d) (\<lambda>close.
          Ok (open \<le> t \<and> t < close)))))"

end
