(* ===== verification/Calendar_Inv.thy ===== *)
theory Calendar_Inv
  imports Calendar
begin

section \<open>Sessions follow one another\<close>

text \<open>
  What the calendar relies on of \<open>chrono\<close> (\<open>chrono_ok\<close>): the order of dates is the order of their day
  numbers, and adding days moves the day number by them, around the range of the calendar. Under it
  the search for a session ends, with the nearest one in its direction or past the range.
\<close>

definition chrono_ok :: "externals \<Rightarrow> bool" where
  "chrono_ok x \<longleftrightarrow>
     ymd_valid x FIRST \<and> ymd_valid x LAST
     \<and> (\<forall>d e. ymd_valid x d \<longrightarrow> ymd_valid x e \<longrightarrow> (nd_less d e \<longleftrightarrow> days_from_ce x d < days_from_ce x e))
     \<and> (\<forall>d n. ymd_valid x d \<longrightarrow> days_from_ce x FIRST - 10 \<le> days_from_ce x d + n
          \<longrightarrow> days_from_ce x d + n \<le> days_from_ce x LAST + 10
          \<longrightarrow> (\<exists>e. date_add x d n = Some e \<and> ymd_valid x e \<and> days_from_ce x e = days_from_ce x d + n))"

definition in_range :: "externals \<Rightarrow> naive_date \<Rightarrow> bool" where
  "in_range x d \<longleftrightarrow> ymd_valid x d \<and> \<not> nd_less d FIRST \<and> \<not> nd_less LAST d"

lemma cal_check_Ok [simp]: "cal_check d = Ok u \<longleftrightarrow> \<not> nd_less d FIRST \<and> \<not> nd_less LAST d"
  by (auto simp: cal_check_def)

lemma nd_key_inj: "nd_key a = nd_key b \<Longrightarrow> a = b"
  by (cases a; cases b) (simp add: nd_key_def)

lemma nd_le_less: "nd_le a b \<longleftrightarrow> nd_less a b \<or> a = b"
  using nd_key_inj [of a b] unfolding nd_le_def nd_less_def le_less by blast

lemma chrono_order:
  assumes "chrono_ok x" "ymd_valid x d" "ymd_valid x e"
  shows "nd_less d e \<longleftrightarrow> days_from_ce x d < days_from_ce x e"
    and "nd_le d e \<longleftrightarrow> days_from_ce x d \<le> days_from_ce x e"
    and "d = e \<longleftrightarrow> days_from_ce x d = days_from_ce x e"
proof -
  have l: "nd_less a b \<longleftrightarrow> days_from_ce x a < days_from_ce x b" if "ymd_valid x a" "ymd_valid x b" for a b
    using assms(1) that by (auto simp: chrono_ok_def)
  show "nd_less d e \<longleftrightarrow> days_from_ce x d < days_from_ce x e" by (rule l [OF assms(2,3)])
  show eq: "d = e \<longleftrightarrow> days_from_ce x d = days_from_ce x e"
  proof
    assume "days_from_ce x d = days_from_ce x e"
    then have "\<not> nd_less d e" "\<not> nd_less e d" using l assms(2,3) by auto
    then have "nd_key d = nd_key e" unfolding nd_less_def by (meson linorder_neqE)
    then show "d = e" by (rule nd_key_inj)
  qed simp
  show "nd_le d e \<longleftrightarrow> days_from_ce x d \<le> days_from_ce x e"
    using l [OF assms(2,3)] eq by (auto simp: nd_le_less)
qed

lemma in_range_days:
  assumes "chrono_ok x" "ymd_valid x d"
  shows "in_range x d \<longleftrightarrow> days_from_ce x FIRST \<le> days_from_ce x d \<and> days_from_ce x d \<le> days_from_ce x LAST"
proof -
  have "ymd_valid x FIRST" "ymd_valid x LAST" using assms(1) by (auto simp: chrono_ok_def)
  then show ?thesis using assms chrono_order(1) [OF assms(1)] by (auto simp: in_range_def not_less)
qed

lemma plus_days_ok:
  assumes "chrono_ok x" "ymd_valid x d" "days_from_ce x FIRST - 10 \<le> days_from_ce x d + n"
    "days_from_ce x d + n \<le> days_from_ce x LAST + 10"
  shows "ymd_valid x (plus_days x d n)" "days_from_ce x (plus_days x d n) = days_from_ce x d + n"
  using assms unfolding chrono_ok_def plus_days_def by (metis option.sel)+

subsection \<open>The search\<close>

definition nearest :: "externals \<Rightarrow> int \<Rightarrow> naive_date \<Rightarrow> naive_date cres \<Rightarrow> bool" where
  "nearest x s d r \<longleftrightarrow>
     (case r of
        Ok e \<Rightarrow> in_range x e \<and> session_unchecked x e \<and> s * days_from_ce x d < s * days_from_ce x e
          \<and> (\<forall>f. in_range x f \<longrightarrow> s * days_from_ce x d < s * days_from_ce x f \<longrightarrow> s * days_from_ce x f < s * days_from_ce x e
               \<longrightarrow> \<not> session_unchecked x f)
      | Err er \<Rightarrow> (\<exists>e. er = OutOfRange e)
          \<and> (\<forall>f. in_range x f \<longrightarrow> s * days_from_ce x d < s * days_from_ce x f \<longrightarrow> \<not> session_unchecked x f))"

abbreviation dir :: "bool \<Rightarrow> int" where
  "dir forward \<equiv> (if forward then 1 else - 1)"

lemma nearest_skip:
  assumes "chrono_ok x" "in_range x d" "in_range x e" "days_from_ce x e = days_from_ce x d + dir fw" "\<not> session_unchecked x e"
    "nearest x (dir fw) e r"
  shows "nearest x (dir fw) d r"
proof -
  have "f = e" if "in_range x f" "dir fw * days_from_ce x d < dir fw * days_from_ce x f"
    "\<not> dir fw * days_from_ce x e < dir fw * days_from_ce x f" for f
    using that assms(3,4) chrono_order(3) [OF assms(1), of f e] by (cases fw) (auto simp: in_range_def)
  then have near: "\<not> session_unchecked x f" if "in_range x f" "dir fw * days_from_ce x d < dir fw * days_from_ce x f"
    "\<not> dir fw * days_from_ce x e < dir fw * days_from_ce x f" for f
    using that assms(5) by blast
  have "dir fw * days_from_ce x d < dir fw * days_from_ce x e" using assms(4) by (cases fw) auto
  with assms(6) near show ?thesis
    unfolding nearest_def by (cases r) (auto intro: less_trans)
qed

lemma cal_step_ends:
  assumes "chrono_ok x" "in_range x d"
  shows "\<exists>r. cal_step x d fw = Some r \<and> nearest x (dir fw) d r"
  using assms(2)
proof (induction "nat (if fw then days_from_ce x LAST - days_from_ce x d else days_from_ce x d - days_from_ce x FIRST)"
    arbitrary: d rule: less_induct)
  case less
  let ?e = "plus_days x d (dir fw)"
  have v: "ymd_valid x d" using less.prems by (simp add: in_range_def)
  have dr: "days_from_ce x FIRST \<le> days_from_ce x d" "days_from_ce x d \<le> days_from_ce x LAST"
    using less.prems in_range_days [OF assms(1) v] by auto
  have e: "ymd_valid x ?e" "days_from_ce x ?e = days_from_ce x d + dir fw"
    by (rule plus_days_ok [OF assms(1) v]; use dr in simp)+
  show ?case
  proof (cases "in_range x ?e")
    case False
    have "\<not> (in_range x f \<and> dir fw * days_from_ce x d < dir fw * days_from_ce x f)" for f
    proof
      assume f: "in_range x f \<and> dir fw * days_from_ce x d < dir fw * days_from_ce x f"
      then have "days_from_ce x FIRST \<le> days_from_ce x f" "days_from_ce x f \<le> days_from_ce x LAST"
        using in_range_days [OF assms(1), of f] by (auto simp: in_range_def)
      with f False dr e show False using in_range_days [OF assms(1) e(1)] by (cases fw) auto
    qed
    moreover have "cal_check ?e = Err (OutOfRange ?e)" using False e(1) by (auto simp: cal_check_def in_range_def)
    ultimately show ?thesis by (subst cal_step.simps) (auto simp: nearest_def Let_def)
  next
    case True
    then have ck: "cal_check ?e = Ok ()" by (simp add: in_range_def)
    show ?thesis
    proof (cases "session_unchecked x ?e")
      case True
      have "\<not> (dir fw * days_from_ce x d < n \<and> n < dir fw * days_from_ce x ?e)" for n :: int
        using e(2) by (cases fw) auto
      moreover have "cal_step x d fw = Some (Ok ?e)" by (subst cal_step.simps) (simp add: Let_def ck True)
      ultimately show ?thesis using True \<open>in_range x ?e\<close> e by (cases fw) (auto simp: nearest_def)
    next
      case ns: False
      have "\<exists>r. cal_step x ?e fw = Some r \<and> nearest x (dir fw) ?e r"
        by (rule less.hyps) (use True e dr in_range_days [OF assms(1) e(1)] in auto)
      then obtain r where r: "cal_step x ?e fw = Some r" "nearest x (dir fw) ?e r" by blast
      have "cal_step x d fw = Some r" by (subst cal_step.simps) (simp add: Let_def ck ns r(1))
      with r(2) nearest_skip [OF assms(1) less.prems True e(2) ns] show ?thesis by blast
    qed
  qed
qed

lemma step_nearest:
  assumes "chrono_ok x" "in_range x d"
  shows "nearest x (dir fw) d (step x d fw)"
  using cal_step_ends [OF assms, of fw] by (auto simp: step_def)

text \<open>Two nearest sessions are one.\<close>

lemma nearest_unique:
  assumes "chrono_ok x" "nearest x s d (Ok e)" "nearest x s d (Ok f)" "s \<noteq> 0"
  shows "e = f"
proof -
  have "\<not> s * days_from_ce x e < s * days_from_ce x f" "\<not> s * days_from_ce x f < s * days_from_ce x e"
    using assms(2,3) by (auto simp: nearest_def)
  then have "s * days_from_ce x e = s * days_from_ce x f" by simp
  then have "days_from_ce x e = days_from_ce x f" using assms(4) by simp
  then show ?thesis using assms(2,3) chrono_order(3) [OF assms(1), of e f] by (auto simp: nearest_def in_range_def)
qed

text \<open>From a session, the session after it leads back.\<close>

lemma nearest_back:
  assumes "nearest x s d (Ok e)" "in_range x d" "session_unchecked x d"
  shows "nearest x (- s) e (Ok d)"
  using assms by (auto simp: nearest_def)

subsection \<open>The operations\<close>

lemma is_session_in_range: "in_range x d \<Longrightarrow> is_session x d = Ok (session_unchecked x d)"
  by (simp add: is_session_def cal_check_def in_range_def)

lemma step_iff:
  assumes "chrono_ok x" "in_range x d"
  shows "step x d fw = Ok e \<longleftrightarrow> nearest x (dir fw) d (Ok e)"
proof
  assume n: "nearest x (dir fw) d (Ok e)"
  show "step x d fw = Ok e"
  proof (cases "step x d fw")
    case (Ok f)
    then have "nearest x (dir fw) d (Ok f)" using step_nearest [OF assms, of fw] by simp
    then show ?thesis using nearest_unique [OF assms(1) n] Ok by (cases fw) auto
  next
    case (Err er)
    then show ?thesis using step_nearest [OF assms, of fw] n by (auto simp: nearest_def)
  qed
qed (use step_nearest [OF assms, of fw] in simp)

lemma nearest_forward:
  assumes "chrono_ok x" "in_range x d"
  shows "nearest x 1 d (Ok e) \<longleftrightarrow> in_range x e \<and> is_session x e = Ok True \<and> nd_less d e
    \<and> (\<forall>f. in_range x f \<longrightarrow> nd_less d f \<longrightarrow> nd_less f e \<longrightarrow> is_session x f = Ok False)"
proof -
  have "nd_less a b \<longleftrightarrow> days_from_ce x a < days_from_ce x b" if "in_range x a" "in_range x b" for a b
    using that chrono_order(1) [OF assms(1)] by (simp add: in_range_def)
  then show ?thesis using assms(2) is_session_in_range [of x] by (auto simp: nearest_def)
qed

lemma nearest_backward:
  assumes "chrono_ok x" "in_range x d"
  shows "nearest x (- 1) d (Ok e) \<longleftrightarrow> in_range x e \<and> is_session x e = Ok True \<and> nd_less e d
    \<and> (\<forall>f. in_range x f \<longrightarrow> nd_less e f \<longrightarrow> nd_less f d \<longrightarrow> is_session x f = Ok False)"
proof -
  have "nd_less a b \<longleftrightarrow> days_from_ce x a < days_from_ce x b" if "in_range x a" "in_range x b" for a b
    using that chrono_order(1) [OF assms(1)] by (simp add: in_range_def)
  then show ?thesis using assms(2) is_session_in_range [of x] by (auto simp: nearest_def)
qed

lemma next_session_nearest:
  "chrono_ok x \<Longrightarrow> in_range x d \<Longrightarrow> next_session x d = Ok e \<longleftrightarrow> nearest x 1 d (Ok e)"
  using step_iff [of x d True e] by (auto simp: next_session_def in_range_def cal_check_def)

lemma previous_session_nearest:
  "chrono_ok x \<Longrightarrow> in_range x d \<Longrightarrow> previous_session x d = Ok e \<longleftrightarrow> nearest x (- 1) d (Ok e)"
  using step_iff [of x d False e] by (auto simp: previous_session_def in_range_def cal_check_def)

text \<open>The days of a range are its dates in order.\<close>

lemma days_between_days:
  assumes "chrono_ok x" "in_range x a" "in_range x b" "nd_le a b"
  shows "map (days_from_ce x) (days_between x a b) = [days_from_ce x a..days_from_ce x b]"
    and "set (days_between x a b) = {d. in_range x d \<and> nd_le a d \<and> nd_le d b}"
    and "sorted_wrt nd_less (days_between x a b)"
proof -
  let ?A = "days_from_ce x a" and ?B = "days_from_ce x b"
  have v: "ymd_valid x a" "ymd_valid x b" using assms by (simp_all add: in_range_def)
  have r: "days_from_ce x FIRST \<le> ?A" "?A \<le> ?B" "?B \<le> days_from_ce x LAST"
    using in_range_days [OF assms(1)] v assms chrono_order(2) [OF assms(1) v] by auto
  have d: "ymd_valid x (plus_days x a (int k))" "days_from_ce x (plus_days x a (int k)) = ?A + int k" if "k < nat (?B - ?A + 1)" for k
    by (rule plus_days_ok [OF assms(1) v(1)]; use that r in linarith)+
  have "map (days_from_ce x) (days_between x a b) = map (\<lambda>k. ?A + int k) [0..<nat (?B - ?A + 1)]"
    by (simp add: days_between_def d(2))
  also have "\<dots> = [?A..?B]" by (rule nth_equalityI) (simp_all add: nth_upto)
  finally show m: "map (days_from_ce x) (days_between x a b) = [?A..?B]" .
  have val: "\<forall>e \<in> set (days_between x a b). ymd_valid x e" by (auto simp: days_between_def d(1))
  show "set (days_between x a b) = {d. in_range x d \<and> nd_le a d \<and> nd_le d b}"
  proof (intro set_eqI iffI)
    fix e assume e: "e \<in> set (days_between x a b)"
    then have "days_from_ce x e \<in> set [?A..?B]" unfolding m [symmetric] by simp
    then show "e \<in> {d. in_range x d \<and> nd_le a d \<and> nd_le d b}"
      using val e in_range_days [OF assms(1)] chrono_order(2) [OF assms(1)] v r by auto
  next
    fix e assume "e \<in> {d. in_range x d \<and> nd_le a d \<and> nd_le d b}"
    then have e: "ymd_valid x e" "?A \<le> days_from_ce x e" "days_from_ce x e \<le> ?B"
      using chrono_order(2) [OF assms(1)] v by (auto simp: in_range_def)
    then have "days_from_ce x e \<in> set (map (days_from_ce x) (days_between x a b))" unfolding m by simp
    then show "e \<in> set (days_between x a b)" using val e(1) chrono_order(3) [OF assms(1)] by auto
  qed
  have "sorted_wrt (<) (map (days_from_ce x) (days_between x a b))" unfolding m by simp
  then show "sorted_wrt nd_less (days_between x a b)"
    unfolding sorted_wrt_map by (rule sorted_wrt_mono_rel [rotated]) (use val chrono_order(1) [OF assms(1)] in auto)
qed

lemma sessions_in_range_ok:
  assumes "chrono_ok x" "in_range x a" "in_range x b" "nd_le a b"
  shows "sessions_in_range x a b = Ok (filter (session_unchecked x) (days_between x a b))"
proof -
  have tw: "takeWhile (\<lambda>d. nd_le d b) (days_between x a b) = days_between x a b"
    using days_between_days(2) [OF assms] by (simp add: takeWhile_eq_all_conv)
  have "\<not> nd_less b a" using assms(4) by (auto simp: nd_le_def nd_less_def)
  then show ?thesis using assms(2,3) by (simp add: sessions_in_range_def in_range_def cal_check_def tw)
qed

end
