(* ===== verification/Calendar_Props.thy ===== *)
theory Calendar_Props
  imports Calendar_Inv Samples
begin

section \<open>Properties of the exchange calendar\<close>

subsection \<open>The Gregorian calendar meets what the calendar relies on\<close>

definition month_lengths :: "int \<Rightarrow> nat list" where
  "month_lengths y = [31, if y mod 4 = 0 \<and> (y mod 100 \<noteq> 0 \<or> y mod 400 = 0) then 29 else 28,
     31, 30, 31, 30, 31, 31, 30, 31, 30, 31]"

definition days_before :: "int \<Rightarrow> nat \<Rightarrow> nat" where
  "days_before y m = sum_list (take (m - 1) (month_lengths y))"

definition year_start :: "int \<Rightarrow> int" where
  "year_start y = 365 * (y - 1) + (y - 1) div 4 - (y - 1) div 100 + (y - 1) div 400"

lemma greg_days_split: "greg_days d = year_start (nd_year d) + int (days_before (nd_year d) (nd_month d)) + int (nd_day d)"
proof -
  have "sum_list (map int xs) = int (sum_list xs)" for xs by (induction xs) simp_all
  then show ?thesis
    unfolding greg_days_def days_before_def year_start_def Let_def month_lengths_def by simp
qed

lemma month_cases: "1 \<le> (m::nat) \<Longrightarrow> m \<le> 12 \<Longrightarrow> m \<in> {1, 2, 3, 4, 5, 6, 7, 8, 9, 10, 11, 12}"
  by (simp, presburger)

lemma days_before_Suc: "1 \<le> m \<Longrightarrow> m \<le> 12 \<Longrightarrow> days_before y (m + 1) = days_before y m + days_in_month y m"
  by (drule month_cases) (auto simp: days_before_def month_lengths_def days_in_month_def numeral_eq_Suc)

lemma days_before_mono: "m \<le> n \<Longrightarrow> days_before y m \<le> days_before y n"
proof -
  assume "m \<le> n"
  then obtain k where k: "n - 1 = (m - 1) + k" by (metis diff_le_mono le_Suc_ex)
  show ?thesis unfolding days_before_def k take_add by simp
qed

lemma div_pred: "0 < k \<Longrightarrow> y div k = (y - 1) div k + (if y mod k = 0 then 1 else 0)" for y k :: int
proof -
  assume k: "0 < k"
  have y: "y = k * (y div k) + y mod k" by simp
  show ?thesis
  proof (cases "y mod k = 0")
    case True
    then have "y - 1 = k * (y div k - 1) + (k - 1)" using y by (simp add: algebra_simps)
    from int_div_pos_eq [OF this] k have "(y - 1) div k = y div k - 1" by simp
    with True show ?thesis by simp
  next
    case False
    then have "0 \<le> y mod k - 1" "y mod k - 1 < k" using k pos_mod_sign [of k y] pos_mod_bound [of k y] by linarith+
    moreover have "y - 1 = k * (y div k) + (y mod k - 1)" using y by linarith
    ultimately have "(y - 1) div k = y div k" by (intro int_div_pos_eq)
    with False show ?thesis by simp
  qed
qed

lemma leap_count:
  fixes p q r :: int
  assumes "b \<Longrightarrow> a" "c \<Longrightarrow> b" "p = p' + (if a then 1 else 0)" "q = q' + (if b then 1 else 0)" "r = r' + (if c then 1 else 0)"
  shows "p - q + r = p' - q' + r' + (if a \<and> (\<not> b \<or> c) then 1 else 0)"
  using assms by (cases a; cases b; cases c) simp_all

lemma year_sum:
  fixes p q r :: int
  shows "p - q + r = p' - q' + r' + k \<Longrightarrow> 365 * (y - 1) + p' - q' + r' + (365 + k) = 365 * y + p - q + r"
  by simp

lemma days_before_year: "year_start y + int (days_before y 13) = year_start (y + 1)"
proof -
  let ?a = "y mod 4 = 0" and ?b = "y mod 100 = 0" and ?c = "y mod 400 = 0"
  have d: "int (days_before y 13) = 365 + (if ?a \<and> (\<not> ?b \<or> ?c) then 1 else 0)"
    by (simp add: days_before_def month_lengths_def)
  have imp: "?b \<Longrightarrow> ?a" "?c \<Longrightarrow> ?b"
    unfolding mod_eq_0_iff_dvd by (rule dvd_trans [rotated], assumption, simp)+
  have p: "y div 4 = (y - 1) div 4 + (if ?a then 1 else 0)" by (rule div_pred) simp
  have q: "y div 100 = (y - 1) div 100 + (if ?b then 1 else 0)" by (rule div_pred) simp
  have r: "y div 400 = (y - 1) div 400 + (if ?c then 1 else 0)" by (rule div_pred) simp
  have "y div 4 - y div 100 + y div 400
    = (y - 1) div 4 - (y - 1) div 100 + (y - 1) div 400 + (if ?a \<and> (\<not> ?b \<or> ?c) then 1 else 0)"
    by (rule leap_count [OF imp p q r])
  then show ?thesis unfolding year_start_def d add_diff_cancel_right' by (rule year_sum)
qed

lemma year_start_mono: "y \<le> z \<Longrightarrow> year_start y \<le> year_start z"
proof (induction z rule: int_ge_induct)
  case (step z)
  then show ?case using days_before_year [of z] by linarith
qed simp

lemma greg_days_bounds:
  assumes "greg_valid d"
  shows "year_start (nd_year d) + int (days_before (nd_year d) (nd_month d)) < greg_days d"
    and "greg_days d \<le> year_start (nd_year d) + int (days_before (nd_year d) (nd_month d + 1))"
    and "greg_days d \<le> year_start (nd_year d + 1)" and "year_start (nd_year d) < greg_days d"
proof -
  have m: "1 \<le> nd_month d" "nd_month d \<le> 12" "1 \<le> nd_day d" "nd_day d \<le> days_in_month (nd_year d) (nd_month d)"
    using assms by (auto simp: greg_valid_def)
  show "year_start (nd_year d) + int (days_before (nd_year d) (nd_month d)) < greg_days d"
    using m(3) by (simp add: greg_days_split)
  then show "year_start (nd_year d) < greg_days d" by linarith
  show le: "greg_days d \<le> year_start (nd_year d) + int (days_before (nd_year d) (nd_month d + 1))"
    using m days_before_Suc [OF m(1,2), of "nd_year d"] by (simp add: greg_days_split)
  have "days_before (nd_year d) (nd_month d + 1) \<le> days_before (nd_year d) 13" using m(2) by (intro days_before_mono) simp
  with le show "greg_days d \<le> year_start (nd_year d + 1)" using days_before_year [of "nd_year d"] by linarith
qed

lemma greg_less:
  assumes "greg_valid d" "greg_valid e" "nd_less d e"
  shows "greg_days d < greg_days e"
proof -
  consider "nd_year d < nd_year e" | "nd_year d = nd_year e" "nd_month d < nd_month e"
    | "nd_year d = nd_year e" "nd_month d = nd_month e" "nd_day d < nd_day e"
    using assms(3) by (auto simp: nd_less_def nd_key_def le_less)
  then show ?thesis
  proof cases
    case 1
    then have "year_start (nd_year d + 1) \<le> year_start (nd_year e)" by (intro year_start_mono) simp
    then show ?thesis using greg_days_bounds(3) [OF assms(1)] greg_days_bounds(4) [OF assms(2)] by linarith
  next
    case 2
    then have "days_before (nd_year e) (nd_month d + 1) \<le> days_before (nd_year e) (nd_month e)" by (intro days_before_mono) simp
    then show ?thesis using 2 greg_days_bounds(2) [OF assms(1)] greg_days_bounds(1) [OF assms(2)] by simp
  next
    case 3
    then show ?thesis by (simp add: greg_days_split)
  qed
qed

lemma greg_order:
  assumes "greg_valid d" "greg_valid e"
  shows "nd_less d e \<longleftrightarrow> greg_days d < greg_days e"
proof -
  have "nd_less d e \<or> d = e \<or> nd_less e d" using nd_key_inj [of d e] unfolding nd_less_def by (meson linorder_neqE)
  then show ?thesis using greg_less [OF assms] greg_less [OF assms(2,1)] by auto
qed

lemma seek_date_days:
  assumes "1 \<le> m" "m \<le> 12" "1 \<le> k"
  shows "greg_valid (seek_date y m k) \<and> greg_days (seek_date y m k) = year_start y + int (days_before y m) + int k"
  using assms
proof (induction y m k rule: seek_date.induct)
  case (1 y m k)
  let ?l = "days_in_month y m"
  show ?case
  proof (cases "k \<le> ?l")
    case True
    then show ?thesis using 1 by (subst (1 2) seek_date.simps) (simp add: greg_valid_def greg_days_split)
  next
    case False
    note suc = days_before_Suc [OF "1.prems"(1,2), of y]
    show ?thesis
    proof (cases "m < 12")
      case True
      then show ?thesis using "1.IH"(1) [OF False True] False suc
        by (subst (1 2) seek_date.simps) (simp add: of_nat_diff)
    next
      case dec: False
      then have "m = 12" using 1 by simp
      moreover have "days_before (y + 1) 1 = 0" by (simp add: days_before_def)
      ultimately show ?thesis using "1.IH"(2) [OF False dec] False suc days_before_year [of y]
        by (subst (1 2) seek_date.simps) (simp add: of_nat_diff)
    qed
  qed
qed

lemma greg_date_days:
  assumes "greg_days greg_base \<le> n"
  shows "\<exists>e. greg_date n = Some e \<and> greg_valid e \<and> greg_days e = n"
proof -
  have "greg_days greg_base = year_start 1999 + int (days_before 1999 12) + 1" by (simp add: greg_days_split greg_base_def)
  with assms seek_date_days [of 12 "nat (n - greg_days greg_base) + 1" 1999] show ?thesis by (auto simp: greg_date_def)
qed

lemma sample_chrono: "chrono_ok sample_ext"
proof -
  have "greg_days greg_base \<le> greg_days FIRST - 10" by (simp add: greg_days_def greg_base_def FIRST_def ymd_def)
  moreover have "greg_valid FIRST" "greg_valid LAST"
    by (simp_all add: greg_valid_def FIRST_def LAST_def ymd_def days_in_month_def)
  ultimately show ?thesis
    using greg_order greg_date_days by (auto simp: chrono_ok_def sample_ext_def)
qed

subsection \<open>The sessions\<close>

text \<open>
  C34. The search for a session ends, and with the right one: from a date of the calendar the loop
  returns in both directions; \<open>next_session\<close> answers exactly the first session after the date and
  \<open>previous_session\<close> the last one before it; from a session, the previous session of the next one is
  the session itself.
\<close>

theorem session_search:
  assumes "chrono_ok x" "in_range x d"
  shows "(\<exists>r. cal_step x d fw = Some r)
    \<and> (\<forall>e. next_session x d = Ok e \<longleftrightarrow> in_range x e \<and> is_session x e = Ok True \<and> nd_less d e
         \<and> (\<forall>f. in_range x f \<longrightarrow> nd_less d f \<longrightarrow> nd_less f e \<longrightarrow> is_session x f = Ok False))
    \<and> (\<forall>e. previous_session x d = Ok e \<longleftrightarrow> in_range x e \<and> is_session x e = Ok True \<and> nd_less e d
         \<and> (\<forall>f. in_range x f \<longrightarrow> nd_less e f \<longrightarrow> nd_less f d \<longrightarrow> is_session x f = Ok False))
    \<and> (\<forall>e. is_session x d = Ok True \<longrightarrow> next_session x d = Ok e \<longrightarrow> previous_session x e = Ok d)"
proof (intro conjI allI impI)
  show "\<exists>r. cal_step x d fw = Some r" using cal_step_ends [OF assms, of fw] by blast
  fix e
  show "next_session x d = Ok e \<longleftrightarrow> in_range x e \<and> is_session x e = Ok True \<and> nd_less d e
     \<and> (\<forall>f. in_range x f \<longrightarrow> nd_less d f \<longrightarrow> nd_less f e \<longrightarrow> is_session x f = Ok False)"
    unfolding next_session_nearest [OF assms] by (rule nearest_forward [OF assms])
  show "previous_session x d = Ok e \<longleftrightarrow> in_range x e \<and> is_session x e = Ok True \<and> nd_less e d
     \<and> (\<forall>f. in_range x f \<longrightarrow> nd_less e f \<longrightarrow> nd_less f d \<longrightarrow> is_session x f = Ok False)"
    unfolding previous_session_nearest [OF assms] by (rule nearest_backward [OF assms])
  assume "is_session x d = Ok True" "next_session x d = Ok e"
  then have s: "session_unchecked x d" and n: "nearest x 1 d (Ok e)"
    using assms by (simp_all add: is_session_in_range next_session_nearest)
  then have "in_range x e" by (simp add: nearest_def)
  then show "previous_session x e = Ok d"
    using nearest_back [OF n assms(2) s] by (simp add: previous_session_nearest [OF assms(1)])
qed

lemma ymd_simps [simp]: "nd_year (ymd y m d) = y" "nd_month (ymd y m d) = m" "nd_day (ymd y m d) = d"
  by (simp_all add: ymd_def)

theorem session_search_witness:
  "chrono_ok sample_ext \<and> in_range sample_ext (ymd 2000 1 3)
   \<and> next_session sample_ext (ymd 2000 1 3) = Ok (ymd 2000 1 4)
   \<and> previous_session sample_ext (ymd 2000 1 4) = Ok (ymd 2000 1 3)"
proof -
  have r: "in_range sample_ext (ymd 2000 1 3)" "in_range sample_ext (ymd 2000 1 4)"
    by (simp_all add: in_range_def sample_ext_def greg_valid_def nd_less_def nd_key_def FIRST_def LAST_def ymd_def days_in_month_def)
  have s: "is_session sample_ext (ymd 2000 1 3) = Ok True" "is_session sample_ext (ymd 2000 1 4) = Ok True" by code_simp+
  have l: "nd_less (ymd 2000 1 3) (ymd 2000 1 4)" by code_simp
  have "\<not> (nd_less (ymd 2000 1 3) f \<and> nd_less f (ymd 2000 1 4))" for f
    by (auto simp: nd_less_def nd_key_def)
  then have n: "next_session sample_ext (ymd 2000 1 3) = Ok (ymd 2000 1 4)"
    using session_search [OF sample_chrono r(1)] r(2) s(2) l by blast
  then show ?thesis using sample_chrono session_search [OF sample_chrono r(1)] r(1) s(1) by blast
qed

text \<open>
  \<open>sessions_in_range\<close> lists, in order and without repetition, exactly the sessions from the first
  date to the last, and refuses a range given backwards or outside the calendar.
\<close>

theorem sessions_listed:
  assumes "chrono_ok x" "ymd_valid x a" "ymd_valid x b"
  shows "case sessions_in_range x a b of
      Ok ds \<Rightarrow> in_range x a \<and> in_range x b \<and> nd_le a b \<and> sorted_wrt nd_less ds
        \<and> set ds = {d. ymd_valid x d \<and> nd_le a d \<and> nd_le d b \<and> is_session x d = Ok True}
    | Err er \<Rightarrow> nd_less b a \<and> er = InvertedRange a b \<or> \<not> in_range x a \<and> er = OutOfRange a \<or> \<not> in_range x b \<and> er = OutOfRange b"
proof (cases "nd_le a b \<and> in_range x a \<and> in_range x b")
  case True
  then have t: "in_range x a" "in_range x b" "nd_le a b" by simp_all
  note db = days_between_days [OF assms(1) t]
  have "sorted_wrt nd_less (filter (session_unchecked x) (days_between x a b))" using db(3) by (rule sorted_wrt_filter)
  moreover have "in_range x d \<and> session_unchecked x d \<longleftrightarrow> ymd_valid x d \<and> is_session x d = Ok True" for d
    by (auto simp: is_session_def in_range_def)
  then have "set (filter (session_unchecked x) (days_between x a b))
    = {d. ymd_valid x d \<and> nd_le a d \<and> nd_le d b \<and> is_session x d = Ok True}"
    unfolding set_filter db(2) by blast
  ultimately show ?thesis unfolding sessions_in_range_ok [OF assms(1) t] result.case using t by blast
next
  case False
  have "nd_le a b \<or> nd_less b a" by (auto simp: nd_le_def nd_less_def not_le)
  with False show ?thesis using assms(2,3)
    by (auto simp: sessions_in_range_def in_range_def cal_check_def)
qed

theorem sessions_listed_witness:
  "chrono_ok sample_ext \<and> sessions_in_range sample_ext (ymd 2000 1 1) (ymd 2000 1 5) = Ok [ymd 2000 1 3, ymd 2000 1 4, ymd 2000 1 5]
   \<and> in_range sample_ext (ymd 2000 1 5)"
proof -
  have v: "ymd_valid sample_ext (ymd 2000 1 1)" "ymd_valid sample_ext (ymd 2000 1 5)"
    by (simp_all add: sample_ext_def greg_valid_def days_in_month_def)
  have s: "sessions_in_range sample_ext (ymd 2000 1 1) (ymd 2000 1 5) = Ok [ymd 2000 1 3, ymd 2000 1 4, ymd 2000 1 5]" by code_simp
  show ?thesis using sessions_listed [OF sample_chrono v] sample_chrono s by simp
qed

end
