(* ===== verification/Globex.thy ===== *)
theory Globex
  imports Calendar
begin

section \<open>The futures calendar: \<open>calendar/globex.rs\<close>\<close>

text \<open>
  The holiday table of a product group and the sessions built from it, and the calendar of one futures
  root over that table. The text of the embedded tables is data; \<open>parse_holiday_table_eras\<close> reads it
  with the date and time readers of \<open>chrono\<close> (\<open>parse_from_str\<close>) as the arguments \<open>py\<close> and \<open>ph\<close>.
  A hash map is a map that the later of two insertions wins. \<open>partition_point\<close> is the length of
  the prefix on which the predicate holds.
\<close>

subsection \<open>Texts\<close>

definition to_ascii_uppercase :: "string \<Rightarrow> string" where
  "to_ascii_uppercase s = map (\<lambda>c. if is_lower (of_char c) then char_of (of_char c - 32 :: nat) else c) s"

fun split_csv :: "string \<Rightarrow> string \<Rightarrow> bool \<Rightarrow> string list \<Rightarrow> (string list, string) result" where
  "split_csv [] current in_quotes out =
     (if in_quotes then Err ''unclosed quote in CSV line'' else Ok (out @ [current]))"
| "split_csv (c # cs) current in_quotes out =
     (if c = CHR 34 \<and> in_quotes then
        (case cs of
           c' # cs' \<Rightarrow> if c' = CHR 34 then split_csv cs' (current @ [CHR 34]) True out else split_csv cs current False out
         | [] \<Rightarrow> split_csv cs current False out)
      else if c = CHR 34 then split_csv cs current True out
      else if c = CHR '','' \<and> \<not> in_quotes then split_csv cs [] False (out @ [current])
      else split_csv cs (current @ [c]) in_quotes out)"

definition split_csv_line :: "string \<Rightarrow> (string list, string) result" where
  "split_csv_line line = split_csv line [] False []"

text \<open>\<open>str::lines\<close>: the lines end at a newline, a carriage return before it is dropped.\<close>

definition drop_cr :: "string \<Rightarrow> string" where
  "drop_cr l = (if l \<noteq> [] \<and> last l = CHR 13 then butlast l else l)"

definition str_lines :: "string \<Rightarrow> string list" where
  "str_lines s =
     (let ls = split_char (CHR 10) s in
      if ls = [[]] then [] else map drop_cr (butlast ls) @ (if last ls = [] then [] else [last ls]))"

definition has_space :: "string \<Rightarrow> bool" where
  "has_space s \<longleftrightarrow> CHR '' '' \<in> set s"

fun words_from :: "utext \<Rightarrow> utext \<Rightarrow> utext list" where
  "words_from [] w = (if w = [] then [] else [w])"
| "words_from (c # cs) w = (if is_white c then (if w = [] then [] else [w]) @ words_from cs [] else words_from cs (w @ [c]))"

definition split_whitespace :: "string \<Rightarrow> string list" where
  "split_whitespace s = map of_chars (words_from (chars s) [])"

subsection \<open>The holiday table\<close>

datatype globex_error =
    GOutOfRange naive_date
  | GOutOfRangeInstant utc
  | GNotASession naive_date
  | GInvertedRange naive_date naive_date
  | MalformedRow string
  | UnknownRoot string
  | RootOutOfRange string naive_date naive_date naive_date
  | RootOutOfRangeInstant string utc naive_date naive_date

type_synonym 'a gres = "('a, globex_error) result"

datatype holiday_status = Closed | EarlyHalt

record holiday_row =
  hr_date :: naive_date
  hr_status :: holiday_status
  hr_halt :: "nat option"
  hr_reopen_date :: "naive_date option"
  hr_reopen_time :: "nat option"
  hr_source_url :: string
  hr_source_title :: string
  hr_notes :: string

record session_info =
  si_trade_date :: naive_date
  si_open :: utc
  si_close :: utc
  si_halt :: "(utc \<times> utc) option"

record era =
  era_from :: naive_date
  era_to :: naive_date
  era_friday_close :: "(nat \<times> nat) option"
  era_weekday_halt :: "((nat \<times> nat) \<times> (nat \<times> nat)) option"
  era_source :: string

record holiday_table =
  ht_rows :: "holiday_row list"
  ht_holidays :: "naive_date \<rightharpoonup> holiday_row"
  ht_first :: naive_date
  ht_last :: naive_date
  ht_trade_dates :: "naive_date list"
  ht_sessions :: "session_info list"
  ht_session_map :: "naive_date \<rightharpoonup> utc \<times> utc"

definition malformed :: "string \<Rightarrow> 'a gres" where
  "malformed m = Err (MalformedRow m)"

text \<open>One line of the table.\<close>

definition read_halt :: "(string \<Rightarrow> nat option) \<Rightarrow> holiday_status \<Rightarrow> string \<Rightarrow> nat option gres" where
  "read_halt ph status halt_raw =
     (case status of
        Closed \<Rightarrow> if halt_raw \<noteq> [] then malformed ''closed status must not have halt_et'' else Ok None
      | EarlyHalt \<Rightarrow> if halt_raw = [] then malformed ''early_halt status requires halt_et''
                    else (case ph halt_raw of None \<Rightarrow> malformed ''invalid halt_et'' | Some t \<Rightarrow> Ok (Some t)))"

definition read_reopen :: "(string \<Rightarrow> naive_date option) \<Rightarrow> (string \<Rightarrow> nat option) \<Rightarrow> naive_date \<Rightarrow> string
    \<Rightarrow> (naive_date option \<times> nat option) gres" where
  "read_reopen py ph date reopen_raw =
     (if reopen_raw = [] then Ok (None, None)
      else if has_space reopen_raw then
        (case split_whitespace reopen_raw of
           [d_str, t_str] \<Rightarrow>
             (case py d_str of
                None \<Rightarrow> malformed ''invalid date in reopen_et''
              | Some rd \<Rightarrow> (case ph t_str of
                    None \<Rightarrow> malformed ''invalid time in reopen_et''
                  | Some rt \<Rightarrow> Ok (Some rd, Some rt)))
         | d_str # t_str # _ \<Rightarrow> malformed ''too many tokens in reopen_et''
         | _ \<Rightarrow> malformed ''invalid reopen_et format'')
      else case ph reopen_raw of
             None \<Rightarrow> malformed ''invalid time in reopen_et''
           | Some rt \<Rightarrow> Ok (Some date, Some rt))"

definition field_at :: "string list \<Rightarrow> nat \<Rightarrow> string" where
  "field_at fs i = (if i < length fs then trim_str (fs ! i) else [])"

definition read_row :: "(string \<Rightarrow> naive_date option) \<Rightarrow> (string \<Rightarrow> nat option) \<Rightarrow> string \<Rightarrow> holiday_row gres" where
  "read_row py ph line =
     and_then (map_err MalformedRow (split_csv_line line)) (\<lambda>fs.
       if length fs < 4 then malformed ''expected at least 4 fields''
       else case py (trim_str (fs ! 0)) of
         None \<Rightarrow> malformed ''invalid date''
       | Some date \<Rightarrow>
           and_then (if trim_str (fs ! 1) = ''closed'' then Ok Closed
                     else if trim_str (fs ! 1) = ''early_halt'' then Ok EarlyHalt
                     else malformed ''invalid status'') (\<lambda>status.
           and_then (read_halt ph status (trim_str (fs ! 2))) (\<lambda>halt.
           and_then (read_reopen py ph date (trim_str (fs ! 3))) (\<lambda>(rd, rt).
           if halt \<noteq> None \<and> rd = Some date \<and> rt \<noteq> None \<and> the rt \<le> the halt
           then malformed ''reopen_et is before or equal to halt_et''
           else Ok \<lparr>hr_date = date, hr_status = status, hr_halt = halt, hr_reopen_date = rd, hr_reopen_time = rt,
                    hr_source_url = field_at fs 4, hr_source_title = field_at fs 5, hr_notes = field_at fs 6\<rparr>))))"

definition row_map :: "holiday_row list \<Rightarrow> naive_date \<rightharpoonup> holiday_row" where
  "row_map rows = map_of (rev (map (\<lambda>r. (hr_date r, r)) rows))"

definition is_closed_row :: "holiday_row list \<Rightarrow> naive_date \<Rightarrow> bool" where
  "is_closed_row rows d \<longleftrightarrow> map_option hr_status (row_map rows d) = Some Closed"

definition build_trade_dates :: "externals \<Rightarrow> holiday_row list \<Rightarrow> naive_date \<Rightarrow> naive_date \<Rightarrow> naive_date list" where
  "build_trade_dates x rows first_date last_date =
     filter (\<lambda>d. \<not> is_weekend x d \<and> \<not> is_closed_row rows d)
       (takeWhile (\<lambda>d. nd_le d last_date) (days_between x first_date last_date))"

text \<open>The reopening that a holiday between the previous trade date and this one sets.\<close>

definition open_override :: "holiday_row list \<Rightarrow> naive_date \<Rightarrow> naive_date \<Rightarrow> (naive_date \<times> nat) option" where
  "open_override rows prev_td td =
     (let relevant = filter (\<lambda>r. nd_le prev_td (hr_date r) \<and> nd_less (hr_date r) td) rows in
      if relevant = [] then None
      else case (hr_reopen_date (last relevant), hr_reopen_time (last relevant)) of
             (Some rd, Some rt) \<Rightarrow> Some (rd, rt)
           | _ \<Rightarrow> None)"

definition build_session :: "externals \<Rightarrow> era list \<Rightarrow> holiday_row list \<Rightarrow> naive_date \<Rightarrow> naive_date \<Rightarrow> session_info gres" where
  "build_session x eras rows prev_td td =
     (let open_utc = (case open_override rows prev_td td of
                        Some (rd, rt) \<Rightarrow> ny_time_to_utc x rd rt
                      | None \<Rightarrow> ny_to_utc x (plus_days x td (- 1)) 18 0);
          era = find (\<lambda>e. nd_le (era_from e) td \<and> nd_le td (era_to e)) eras;
          default_close = (case Option.bind era era_friday_close of
                             Some (h, m) \<Rightarrow> if nd_weekday x td = 4 then ny_to_utc x td h m else ny_to_utc x td 17 0
                           | None \<Rightarrow> ny_to_utc x td 17 0);
          close_utc = (case row_map rows td of
                         Some row \<Rightarrow> if hr_status row = EarlyHalt then ny_time_to_utc x td (the (hr_halt row)) else default_close
                       | None \<Rightarrow> default_close);
          halt_utc = Option.bind (Option.bind era era_weekday_halt) (\<lambda>((sh, sm), (eh, em)).
            let hs = ny_to_utc x td sh sm; he = ny_to_utc x td eh em in
            if open_utc \<le> hs \<and> he < close_utc then Some (hs, he) else None)
      in if open_utc \<ge> close_utc then malformed ''trade date has open at or after close''
         else Ok \<lparr>si_trade_date = td, si_open = open_utc, si_close = close_utc, si_halt = halt_utc\<rparr>)"

fun build_sessions :: "externals \<Rightarrow> era list \<Rightarrow> holiday_row list \<Rightarrow> naive_date \<Rightarrow> naive_date list \<Rightarrow> session_info list gres" where
  "build_sessions x eras rows prev_td [] = Ok []"
| "build_sessions x eras rows prev_td (td # tds) =
     and_then (build_session x eras rows prev_td td) (\<lambda>s.
     and_then (build_sessions x eras rows td tds) (\<lambda>ss. Ok (s # ss)))"

fun no_overlap :: "session_info list \<Rightarrow> bool" where
  "no_overlap (a # b # ss) \<longleftrightarrow> \<not> si_close a > si_open b \<and> no_overlap (b # ss)"
| "no_overlap _ = True"

definition build_table :: "externals \<Rightarrow> era list \<Rightarrow> holiday_row list \<Rightarrow> holiday_table gres" where
  "build_table x eras rows =
     (if rows = [] then malformed ''no rows in holiday table''
      else let years = map (\<lambda>r. nd_year (hr_date r)) rows;
               first_date = ymd (foldr min years (hd years)) 1 1; last_date = ymd (foldr max years (hd years)) 12 31;
               tds = build_trade_dates x rows first_date last_date
           in and_then (build_sessions x eras rows (plus_days x first_date (- 1)) tds) (\<lambda>ss.
                if \<not> no_overlap ss then malformed ''overlapping sessions''
                else Ok \<lparr>ht_rows = rows, ht_holidays = row_map rows, ht_first = first_date, ht_last = last_date,
                         ht_trade_dates = tds, ht_sessions = ss,
                         ht_session_map = map_of (rev (map (\<lambda>s. (si_trade_date s, (si_open s, si_close s))) ss))\<rparr>))"

definition parse_holiday_table_eras ::
  "externals \<Rightarrow> (string \<Rightarrow> naive_date option) \<Rightarrow> (string \<Rightarrow> nat option) \<Rightarrow> string \<Rightarrow> era list \<Rightarrow> holiday_table gres" where
  "parse_holiday_table_eras x py ph csv_text eras =
     (case str_lines csv_text of
        [] \<Rightarrow> malformed ''empty CSV text''
      | h # ls \<Rightarrow>
          and_then (map_err MalformedRow (split_csv_line (trim_str h))) (\<lambda>fs.
            if length fs < 4 \<or> take 4 fs \<noteq> [''date'', ''status'', ''halt_et'', ''reopen_et''] then malformed ''unexpected header columns''
            else and_then (map_r (read_row py ph) (filter (\<lambda>l. l \<noteq> []) (map trim_str ls))) (build_table x eras)))"

subsection \<open>Groups and roots\<close>

datatype group = GEquity | GEnergy | GMetals

fun group_name :: "group \<Rightarrow> string" where
  "group_name GEquity = ''equity''"
| "group_name GEnergy = ''energy''"
| "group_name GMetals = ''metals''"

definition EQUITY_ERAS :: "era list" where
  "EQUITY_ERAS =
     [\<lparr>era_from = ymd 2006 1 1, era_to = ymd 2012 11 16, era_friday_close = Some (16, 15),
       era_weekday_halt = Some ((16, 15), (16, 30)),
       era_source = ''CME 2009-2010 Globex holiday notices: 1515 CT regular close, 1530 CT regular open; Friday close OBSERVED in bars''\<rparr>,
      \<lparr>era_from = ymd 2012 11 17, era_to = ymd 2021 6 25, era_friday_close = None,
       era_weekday_halt = Some ((16, 15), (16, 30)),
       era_source = ''OBSERVED in ES/NQ/YM/RTY 1m bars: Friday closes 17:00 from 2012-11-30, 16:15-16:30 gap on every weekday''\<rparr>]"

fun eras_for :: "group \<Rightarrow> era list" where
  "eras_for GEquity = EQUITY_ERAS"
| "eras_for _ = []"

record root_info =
  ri_root :: string
  ri_group :: group
  ri_listed_from :: "naive_date option"

definition ROOTS :: "root_info list" where
  "ROOTS = map (\<lambda>(r, g, l). \<lparr>ri_root = r, ri_group = g, ri_listed_from = l\<rparr>)
     [(''NQ'', GEquity, None), (''MNQ'', GEquity, None), (''ES'', GEquity, None), (''MES'', GEquity, None),
      (''YM'', GEquity, Some (ymd 2008 1 27)), (''MYM'', GEquity, Some (ymd 2008 1 27)),
      (''RTY'', GEquity, Some (ymd 2017 7 9)), (''M2K'', GEquity, Some (ymd 2017 7 9)),
      (''CL'', GEnergy, None), (''MCL'', GEnergy, None), (''GC'', GMetals, None), (''MGC'', GMetals, None)]"

definition supported_roots :: "string list" where
  "supported_roots = map ri_root ROOTS"

text \<open>
  The tables of the groups (\<open>table_for\<close>) are parsed once from the embedded data; here they are the
  argument \<open>tb\<close>.
\<close>

type_synonym tables = "group \<Rightarrow> holiday_table"

record globex_calendar =
  gc_root :: string
  gc_group :: group
  gc_first :: naive_date
  gc_last :: naive_date

definition for_root :: "tables \<Rightarrow> string \<Rightarrow> globex_calendar gres" where
  "for_root tb root_text =
     (case find (\<lambda>r. ri_root r = to_ascii_uppercase (trim_str root_text)) ROOTS of
        None \<Rightarrow> Err (UnknownRoot root_text)
      | Some info \<Rightarrow>
          let t = tb (ri_group info);
              first_d = (case ri_listed_from info of
                           Some f \<Rightarrow> if nd_less (ht_first t) f then f else ht_first t
                         | None \<Rightarrow> ht_first t)
          in Ok \<lparr>gc_root = ri_root info, gc_group = ri_group info, gc_first = first_d, gc_last = ht_last t\<rparr>)"

definition equity_calendar :: "tables \<Rightarrow> globex_calendar" where
  "equity_calendar tb = \<lparr>gc_root = [], gc_group = GEquity, gc_first = ht_first (tb GEquity), gc_last = ht_last (tb GEquity)\<rparr>"

subsection \<open>The calendar of a root\<close>

definition partition_point :: "('a \<Rightarrow> bool) \<Rightarrow> 'a list \<Rightarrow> nat" where
  "partition_point P xs = length (takeWhile P xs)"

definition gc_table :: "tables \<Rightarrow> globex_calendar \<Rightarrow> holiday_table" where
  "gc_table tb c = tb (gc_group c)"

definition oor :: "globex_calendar \<Rightarrow> naive_date \<Rightarrow> globex_error" where
  "oor c dt = RootOutOfRange (gc_root c) dt (gc_first c) (gc_last c)"

definition oor_instant :: "globex_calendar \<Rightarrow> utc \<Rightarrow> globex_error" where
  "oor_instant c t = RootOutOfRangeInstant (gc_root c) t (gc_first c) (gc_last c)"

definition check_date :: "globex_calendar \<Rightarrow> naive_date \<Rightarrow> unit gres" where
  "check_date c dt = (if nd_less dt (gc_first c) \<or> nd_less (gc_last c) dt then Err (oor c dt) else Ok ())"

definition check_instant :: "externals \<Rightarrow> globex_calendar \<Rightarrow> utc \<Rightarrow> unit gres" where
  "check_instant x c t =
     (let dt = fst (ny_local x (fst t)) in
      if nd_less dt (gc_first c) \<or> nd_less (gc_last c) dt then Err (oor_instant c t) else Ok ())"

definition g_is_trade_date :: "tables \<Rightarrow> globex_calendar \<Rightarrow> naive_date \<Rightarrow> bool gres" where
  "g_is_trade_date tb c dt = and_then (check_date c dt) (\<lambda>_. Ok (ht_session_map (gc_table tb c) dt \<noteq> None))"

definition g_is_closed :: "tables \<Rightarrow> globex_calendar \<Rightarrow> naive_date \<Rightarrow> bool gres" where
  "g_is_closed tb c dt = and_then (check_date c dt) (\<lambda>_.
     Ok (map_option hr_status (ht_holidays (gc_table tb c) dt) = Some Closed))"

definition g_is_early_halt :: "tables \<Rightarrow> globex_calendar \<Rightarrow> naive_date \<Rightarrow> bool gres" where
  "g_is_early_halt tb c dt = and_then (check_date c dt) (\<lambda>_.
     Ok (map_option hr_status (ht_holidays (gc_table tb c) dt) = Some EarlyHalt))"

definition g_session_open :: "tables \<Rightarrow> globex_calendar \<Rightarrow> naive_date \<Rightarrow> utc gres" where
  "g_session_open tb c dt = and_then (check_date c dt) (\<lambda>_.
     case ht_session_map (gc_table tb c) dt of Some (o_utc, _) \<Rightarrow> Ok o_utc | None \<Rightarrow> Err (GNotASession dt))"

definition g_session_close :: "tables \<Rightarrow> globex_calendar \<Rightarrow> naive_date \<Rightarrow> utc gres" where
  "g_session_close tb c dt = and_then (check_date c dt) (\<lambda>_.
     case ht_session_map (gc_table tb c) dt of Some (_, c_utc) \<Rightarrow> Ok c_utc | None \<Rightarrow> Err (GNotASession dt))"

definition g_session_at :: "externals \<Rightarrow> tables \<Rightarrow> globex_calendar \<Rightarrow> utc \<Rightarrow> naive_date option gres" where
  "g_session_at x tb c t = and_then (check_instant x c t) (\<lambda>_.
     let ss = ht_sessions (gc_table tb c); idx = partition_point (\<lambda>s. si_open s \<le> t) ss in
     if idx = 0 then Ok None
     else let prev = ss ! (idx - 1) in
       if t < si_close prev then Ok (Some (si_trade_date prev)) else Ok None)"

definition session_halt :: "tables \<Rightarrow> globex_calendar \<Rightarrow> naive_date \<Rightarrow> (utc \<times> utc) option" where
  "session_halt tb c dt =
     (case find (\<lambda>s. si_trade_date s = dt) (ht_sessions (gc_table tb c)) of None \<Rightarrow> None | Some s \<Rightarrow> si_halt s)"

definition g_is_open_at :: "externals \<Rightarrow> tables \<Rightarrow> globex_calendar \<Rightarrow> utc \<Rightarrow> bool gres" where
  "g_is_open_at x tb c t = and_then (g_session_at x tb c t) (\<lambda>o'.
     case o' of
       None \<Rightarrow> Ok False
     | Some td \<Rightarrow> Ok (case session_halt tb c td of Some (hs, he) \<Rightarrow> \<not> (hs \<le> t \<and> t < he) | None \<Rightarrow> True))"

definition session_or_next :: "externals \<Rightarrow> tables \<Rightarrow> globex_calendar \<Rightarrow> utc \<Rightarrow> naive_date gres" where
  "session_or_next x tb c t = and_then (check_instant x c t) (\<lambda>_.
     and_then (g_session_at x tb c t) (\<lambda>o'.
     case o' of
       Some td \<Rightarrow> Ok td
     | None \<Rightarrow>
         let ss = ht_sessions (gc_table tb c); idx = partition_point (\<lambda>s. si_open s \<le> t) ss in
         if idx < length ss then Ok (si_trade_date (ss ! idx)) else Err (oor_instant c t)))"

definition g_next_session :: "tables \<Rightarrow> globex_calendar \<Rightarrow> naive_date \<Rightarrow> naive_date gres" where
  "g_next_session tb c dt = and_then (check_date c dt) (\<lambda>_.
     let tds = ht_trade_dates (gc_table tb c); idx = partition_point (\<lambda>td. nd_le td dt) tds in
     if idx < length tds then Ok (tds ! idx) else Err (oor c dt))"

definition g_previous_session :: "tables \<Rightarrow> globex_calendar \<Rightarrow> naive_date \<Rightarrow> naive_date gres" where
  "g_previous_session tb c dt = and_then (check_date c dt) (\<lambda>_.
     let tds = ht_trade_dates (gc_table tb c); idx = partition_point (\<lambda>td. nd_less td dt) tds in
     if idx > 0 \<and> nd_le (gc_first c) (tds ! (idx - 1)) then Ok (tds ! (idx - 1)) else Err (oor c dt))"

definition g_sessions_in_range :: "tables \<Rightarrow> globex_calendar \<Rightarrow> naive_date \<Rightarrow> naive_date \<Rightarrow> naive_date list gres" where
  "g_sessions_in_range tb c start fin =
     (if nd_less fin start then Err (GInvertedRange start fin)
      else and_then (check_date c start) (\<lambda>_. and_then (check_date c fin) (\<lambda>_.
        let tds = ht_trade_dates (gc_table tb c);
            a = partition_point (\<lambda>td. nd_less td start) tds; b = partition_point (\<lambda>td. nd_le td fin) tds
        in Ok (take (b - a) (drop a tds)))))"

text \<open>The errors of the equity calendar without a root, as the free functions report them.\<close>

fun legacy :: "globex_error \<Rightarrow> globex_error" where
  "legacy (RootOutOfRange _ d _ _) = GOutOfRange d"
| "legacy (RootOutOfRangeInstant _ t _ _) = GOutOfRangeInstant t"
| "legacy e = e"

definition equity_session_at :: "externals \<Rightarrow> tables \<Rightarrow> utc \<Rightarrow> naive_date option gres" where
  "equity_session_at x tb t = map_err legacy (g_session_at x tb (equity_calendar tb) t)"

definition equity_is_open_at :: "externals \<Rightarrow> tables \<Rightarrow> utc \<Rightarrow> bool gres" where
  "equity_is_open_at x tb t = map_err legacy (g_is_open_at x tb (equity_calendar tb) t)"

definition equity_next_session :: "tables \<Rightarrow> naive_date \<Rightarrow> naive_date gres" where
  "equity_next_session tb d = map_err legacy (g_next_session tb (equity_calendar tb) d)"

end
