(* ===== verification/Globex_Props.thy ===== *)
theory Globex_Props
  imports Globex Calendar_Props
begin

section \<open>Properties of the futures calendar\<close>

subsection \<open>Sessions in order\<close>

text \<open>The sessions of a table: each opens before it closes, and closes before the next one opens.\<close>

definition sessions_ok :: "session_info list \<Rightarrow> bool" where
  "sessions_ok ss \<longleftrightarrow> sorted_wrt (\<lambda>a b. si_close a \<le> si_open b) ss \<and> (\<forall>s \<in> set ss. si_open s < si_close s)"

definition table_ok :: "holiday_table \<Rightarrow> bool" where
  "table_ok t \<longleftrightarrow> sessions_ok (ht_sessions t) \<and> ht_trade_dates t = map si_trade_date (ht_sessions t)"

lemma sessions_ok_Cons:
  "sessions_ok (s # ss) \<longleftrightarrow> si_open s < si_close s \<and> (\<forall>r \<in> set ss. si_close s \<le> si_open r) \<and> sessions_ok ss"
  by (auto simp: sessions_ok_def)

lemma no_overlap_sorted:
  "no_overlap ss \<Longrightarrow> \<forall>s \<in> set ss. si_open s < si_close s \<Longrightarrow> sessions_ok ss"
proof (induction ss rule: no_overlap.induct)
  case (1 a b ss)
  then have ok: "sessions_ok (b # ss)" and ab: "si_close a \<le> si_open b" and a: "si_open a < si_close a" by auto
  have "si_close a \<le> si_open r" if "r \<in> set ss" for r
    using ok ab that unfolding sessions_ok_Cons by (meson less_imp_le order_trans)
  with ok ab a show ?case unfolding sessions_ok_Cons [of a] by simp
qed (simp_all add: sessions_ok_def)

lemma build_sessions_Ok:
  "build_sessions x eras rows p tds = Ok ss \<Longrightarrow> map si_trade_date ss = tds \<and> (\<forall>s \<in> set ss. si_open s < si_close s)"
proof (induction tds arbitrary: p ss)
  case (Cons td tds)
  then obtain s rest where s: "build_session x eras rows p td = Ok s" "build_sessions x eras rows td tds = Ok rest" "ss = s # rest" by auto
  from s(1) have "si_trade_date s = td \<and> si_open s < si_close s"
    unfolding build_session_def malformed_def Let_def by (auto split: if_splits)
  with Cons.IH [OF s(2)] s(3) show ?case by simp
qed simp

lemma build_sessions_Err: "build_sessions x eras rows p tds = Err e \<Longrightarrow> \<exists>m. e = MalformedRow m"
proof (induction tds arbitrary: p)
  case (Cons td tds)
  then show ?case
    by (auto simp: and_then_Err_iff build_session_def malformed_def Let_def split: if_splits)
qed simp

text \<open>
  C35. The table built from the rows of the holiday file has its sessions in order: each opens before it
  closes, and none opens before an earlier one has closed; the trade dates are those of the sessions. Rows
  that would break this are refused as malformed.
\<close>

theorem globex_table_in_order:
  "case build_table x eras rows of Ok t \<Rightarrow> table_ok t | Err e \<Rightarrow> \<exists>m. e = MalformedRow m"
proof (cases "build_table x eras rows")
  case (Ok t)
  then show ?thesis
    by (auto simp: build_table_def malformed_def Let_def table_ok_def split: if_splits
        dest!: build_sessions_Ok intro: no_overlap_sorted)
next
  case (Err e)
  then show ?thesis
    by (auto simp: build_table_def malformed_def Let_def and_then_Err_iff split: if_splits dest: build_sessions_Err)
qed

subsection \<open>The session of an instant\<close>

text \<open>On sessions in order, the last that has opened is the only one that can contain the instant.\<close>

lemma takeWhile_open:
  assumes "sessions_ok ss"
  shows "set (takeWhile (\<lambda>s. si_open s \<le> t) ss) = {s \<in> set ss. si_open s \<le> t}"
  using assms
proof (induction ss)
  case (Cons a ss)
  have "\<not> si_open r \<le> t" if "\<not> si_open a \<le> t" "r \<in> set ss" for r
    using Cons.prems that unfolding sessions_ok_Cons by (meson less_imp_le order_trans)
  with Cons show ?case by (auto simp: sessions_ok_Cons)
qed simp

lemma last_open_session:
  assumes "sessions_ok ss" "s \<in> set ss" "si_open s \<le> t"
  defines "k \<equiv> partition_point (\<lambda>s. si_open s \<le> t) ss"
  shows "0 < k" "ss ! (k - 1) \<in> set ss" "si_open (ss ! (k - 1)) \<le> t" "s = ss ! (k - 1) \<or> si_close s \<le> t"
proof -
  let ?w = "takeWhile (\<lambda>s. si_open s \<le> t) ss"
  have s: "s \<in> set ?w" using takeWhile_open [OF assms(1)] assms(2,3) by blast
  then have k: "k = length ?w" "?w \<noteq> []" by (auto simp: k_def partition_point_def)
  then show "0 < k" by simp
  have l: "ss ! (k - 1) = last ?w" using k by (simp add: last_conv_nth takeWhile_nth)
  have lw: "last ?w \<in> set ?w" using k(2) by (rule last_in_set)
  then show "ss ! (k - 1) \<in> set ss" "si_open (ss ! (k - 1)) \<le> t"
    unfolding l using takeWhile_open [OF assms(1)] by blast+
  obtain ys where w: "?w = ys @ [last ?w]" using k(2) by (metis append_butlast_last_id)
  have "sorted_wrt (\<lambda>a b. si_close a \<le> si_open b) ?w"
    using assms(1) by (metis sessions_ok_def sorted_wrt_append takeWhile_dropWhile_id)
  then have "\<forall>y \<in> set ys. si_close y \<le> si_open (last ?w)" by (subst (asm) w) (simp add: sorted_wrt_append)
  moreover have "s \<in> set ys \<or> s = last ?w" using s by (subst (asm) w) auto
  moreover have "si_open (last ?w) \<le> t" using lw takeWhile_open [OF assms(1)] by blast
  ultimately show "s = ss ! (k - 1) \<or> si_close s \<le> t" unfolding l by (auto intro: order_trans)
qed

lemma session_at_iff:
  assumes "sessions_ok (ht_sessions (gc_table tb c))" "check_instant x c t = Ok ()"
  shows "g_session_at x tb c t = Ok (Some d) \<longleftrightarrow>
      (\<exists>s \<in> set (ht_sessions (gc_table tb c)). si_trade_date s = d \<and> si_open s \<le> t \<and> t < si_close s)"
    and "g_session_at x tb c t = Ok None \<longleftrightarrow>
      (\<forall>s \<in> set (ht_sessions (gc_table tb c)). \<not> (si_open s \<le> t \<and> t < si_close s))"
proof -
  let ?ss = "ht_sessions (gc_table tb c)"
  define k where "k = partition_point (\<lambda>s. si_open s \<le> t) ?ss"
  have at: "g_session_at x tb c t = Ok (if k = 0 then None else
    if t < si_close (?ss ! (k - 1)) then Some (si_trade_date (?ss ! (k - 1))) else None)"
    using assms(2) by (simp add: g_session_at_def k_def Let_def)
  have prev: "0 < k \<and> s = ?ss ! (k - 1)" if "s \<in> set ?ss" "si_open s \<le> t" "t < si_close s" for s
    using last_open_session(1,4) [OF assms(1) that(1,2)] that(3) by (auto simp: k_def)
  have in_w: "?ss ! (k - 1) \<in> set ?ss \<and> si_open (?ss ! (k - 1)) \<le> t" if "0 < k"
  proof -
    have "takeWhile (\<lambda>s. si_open s \<le> t) ?ss \<noteq> []" using that by (auto simp: k_def partition_point_def)
    then obtain s where "s \<in> set (takeWhile (\<lambda>s. si_open s \<le> t) ?ss)" by (meson last_in_set)
    then have "s \<in> set ?ss" "si_open s \<le> t" using takeWhile_open [OF assms(1)] by auto
    then show ?thesis using last_open_session(2,3) [OF assms(1), of s t] by (simp add: k_def)
  qed
  show "g_session_at x tb c t = Ok (Some d) \<longleftrightarrow> (\<exists>s \<in> set ?ss. si_trade_date s = d \<and> si_open s \<le> t \<and> t < si_close s)"
    unfolding at using prev in_w by (auto split: if_splits)
  show "g_session_at x tb c t = Ok None \<longleftrightarrow> (\<forall>s \<in> set ?ss. \<not> (si_open s \<le> t \<and> t < si_close s))"
    unfolding at using prev in_w by (auto split: if_splits)
qed

text \<open>When no session contains the instant, the first that has not opened is the next one.\<close>

lemma first_unopened:
  assumes "sessions_ok ss" "partition_point (\<lambda>s. si_open s \<le> t) ss < length ss"
    "\<forall>s \<in> set ss. \<not> (si_open s \<le> t \<and> t < si_close s)" "r \<in> set ss" "t < si_close r"
  defines "s \<equiv> ss ! partition_point (\<lambda>s. si_open s \<le> t) ss"
  shows "t < si_open s" "r = s \<or> si_close s \<le> si_open r"
proof -
  let ?P = "\<lambda>s. si_open s \<le> t"
  have d: "dropWhile ?P ss = s # drop (Suc (partition_point ?P ss)) ss"
    using assms(2) by (simp add: s_def dropWhile_eq_drop partition_point_def Cons_nth_drop_Suc)
  then show "t < si_open s" using hd_dropWhile [of ?P ss] by auto
  have "\<not> si_open r \<le> t" using assms(3-5) by blast
  then have "r \<in> set (dropWhile ?P ss)"
    using assms(4) takeWhile_open [OF assms(1), of t] by (metis (mono_tags, lifting) UnE mem_Collect_eq set_append takeWhile_dropWhile_id)
  moreover have "sorted_wrt (\<lambda>a b. si_close a \<le> si_open b) (dropWhile ?P ss)"
    using assms(1) by (metis sessions_ok_def sorted_wrt_append takeWhile_dropWhile_id)
  ultimately show "r = s \<or> si_close s \<le> si_open r" unfolding d by auto
qed

lemma session_or_next_first:
  assumes ok: "sessions_ok (ht_sessions (gc_table tb c))" and n: "session_or_next x tb c t = Ok d"
  shows "\<exists>s \<in> set (ht_sessions (gc_table tb c)). si_trade_date s = d \<and> t < si_close s
    \<and> (\<forall>r \<in> set (ht_sessions (gc_table tb c)). t < si_close r \<longrightarrow> r = s \<or> si_close s \<le> si_open r)"
proof -
  let ?ss = "ht_sessions (gc_table tb c)"
  have ck: "check_instant x c t = Ok ()" using n by (auto simp: session_or_next_def)
  obtain o' where o': "g_session_at x tb c t = Ok o'" using n by (auto simp: session_or_next_def)
  show ?thesis
  proof (cases o')
    case (Some td)
    with n o' ck have "td = d" by (simp add: session_or_next_def)
    with Some o' obtain s where s: "s \<in> set ?ss" "si_trade_date s = d" "si_open s \<le> t" "t < si_close s"
      using session_at_iff(1) [OF ok ck] by auto
    have "r = s \<or> si_close s \<le> si_open r" if r: "r \<in> set ?ss" "t < si_close r" for r
    proof (cases "si_open r \<le> t")
      case True
      then show ?thesis using last_open_session(4) [OF ok r(1) True] last_open_session(4) [OF ok s(1,3)] r(2) s(4) by auto
    next
      case False
      have "si_close r \<le> si_open s \<or> si_close s \<le> si_open r \<or> r = s"
        using ok r(1) s(1) by (auto simp: sessions_ok_def sorted_wrt_iff_nth_less in_set_conv_nth) (metis linorder_neqE_nat)
      then show ?thesis using s(3) r(2) by (meson leD order_trans)
    qed
    with s show ?thesis by blast
  next
    case None
    define k where "k = partition_point (\<lambda>s. si_open s \<le> t) ?ss"
    from n o' ck None have k: "k < length ?ss" "si_trade_date (?ss ! k) = d"
      by (auto simp: session_or_next_def Let_def k_def split: if_splits)
    have none: "\<forall>s \<in> set ?ss. \<not> (si_open s \<le> t \<and> t < si_close s)" using session_at_iff(2) [OF ok ck] o' None by simp
    have "?ss ! k \<in> set ?ss" using k(1) by simp
    moreover from this have oc: "si_open (?ss ! k) < si_close (?ss ! k)" using ok by (simp add: sessions_ok_def)
    moreover have "t < si_open (?ss ! k)"
      using nth_length_takeWhile [of "\<lambda>s. si_open s \<le> t" ?ss] k(1) by (simp add: k_def partition_point_def not_le)
    ultimately show ?thesis
      using first_unopened(2) [OF ok k(1) [unfolded k_def] none] k(2) by (auto simp: k_def intro: less_trans)
  qed
qed

text \<open>
  C36. On a table in order, \<open>session_at\<close> answers the trade date of the session that contains the instant,
  from its open up to its close, and nothing when there is none; no instant is in two sessions.
  \<open>session_or_next\<close> answers the earliest session that has not closed, so an order given between sessions
  belongs to the coming one. The market is open when the instant is in a session and not in its halt.
\<close>

theorem globex_session_at:
  assumes "table_ok (gc_table tb c)" "check_instant x c t = Ok ()"
  defines "inside \<equiv> (\<lambda>s. s \<in> set (ht_sessions (gc_table tb c)) \<and> si_open s \<le> t \<and> t < si_close s)"
  shows "(g_session_at x tb c t = Ok (Some d) \<longleftrightarrow> (\<exists>s. inside s \<and> si_trade_date s = d))
    \<and> (g_session_at x tb c t = Ok None \<longleftrightarrow> (\<forall>s. \<not> inside s))
    \<and> (\<forall>s r. inside s \<longrightarrow> inside r \<longrightarrow> s = r)
    \<and> (session_or_next x tb c t = Ok d \<longrightarrow>
        (\<exists>s \<in> set (ht_sessions (gc_table tb c)). si_trade_date s = d \<and> t < si_close s
          \<and> (\<forall>r \<in> set (ht_sessions (gc_table tb c)). t < si_close r \<longrightarrow> r = s \<or> si_close s \<le> si_open r)))
    \<and> (g_is_open_at x tb c t = Ok True \<longleftrightarrow>
        (\<exists>s. inside s \<and> (case session_halt tb c (si_trade_date s) of Some (hs, he) \<Rightarrow> \<not> (hs \<le> t \<and> t < he) | None \<Rightarrow> True)))"
proof -
  have ok: "sessions_ok (ht_sessions (gc_table tb c))" using assms(1) by (simp add: table_ok_def)
  note at = session_at_iff [OF ok assms(2)]
  have un: "s = r" if "inside s" "inside r" for s r
    using that last_open_session(4) [OF ok, of s t] last_open_session(4) [OF ok, of r t] by (auto simp: inside_def)
  have "\<exists>o'. g_session_at x tb c t = Ok o'" using assms(2) by (simp add: g_session_at_def Let_def)
  then obtain o' where o': "g_session_at x tb c t = Ok o'" ..
  have "g_is_open_at x tb c t = Ok True \<longleftrightarrow>
    (\<exists>s. inside s \<and> (case session_halt tb c (si_trade_date s) of Some (hs, he) \<Rightarrow> \<not> (hs \<le> t \<and> t < he) | None \<Rightarrow> True))"
  proof (cases o')
    case None
    then show ?thesis using at(2) o' by (auto simp: g_is_open_at_def inside_def)
  next
    case (Some td)
    then obtain s where s: "inside s" "si_trade_date s = td" using at(1) [of td] o' by (auto simp: inside_def)
    then have "(\<exists>r. inside r \<and> Q r) \<longleftrightarrow> Q s" for Q using un by blast
    then show ?thesis using Some o' s(2) by (simp add: g_is_open_at_def)
  qed
  then show ?thesis using at(1) [of d] at(2) un session_or_next_first [OF ok, of x t d] by (auto simp: inside_def)
qed

text \<open>Two sessions of a week, a day apart, the first with a halt.\<close>

definition s_session :: "int \<Rightarrow> nat \<Rightarrow> session_info" where
  "s_session n day = \<lparr>si_trade_date = ymd 2008 1 day, si_open = (n, 0), si_close = (n + 82800, 0),
     si_halt = Some ((n + 80100, 0), (n + 81000, 0))\<rparr>"

definition s_table :: holiday_table where
  "s_table = \<lparr>ht_rows = [], ht_holidays = Map.empty, ht_first = ymd 2008 1 1, ht_last = ymd 2008 12 31,
     ht_trade_dates = [ymd 2008 1 8, ymd 2008 1 9],
     ht_sessions = [s_session 1199746800 8, s_session 1199833200 9], ht_session_map = Map.empty\<rparr>"

theorem globex_session_at_witness:
  "table_ok s_table
   \<and> check_instant sample_ext (equity_calendar (\<lambda>_. s_table)) (1199804400, 0) = Ok ()
   \<and> g_session_at sample_ext (\<lambda>_. s_table) (equity_calendar (\<lambda>_. s_table)) (1199804400, 0) = Ok (Some (ymd 2008 1 8))"
proof -
  have t: "table_ok (gc_table (\<lambda>_. s_table) (equity_calendar (\<lambda>_. s_table)))"
    by (simp add: gc_table_def table_ok_def sessions_ok_def s_table_def s_session_def)
  have c: "check_instant sample_ext (equity_calendar (\<lambda>_. s_table)) (1199804400, 0) = Ok ()" by code_simp
  have "\<exists>s. s \<in> set (ht_sessions (gc_table (\<lambda>_. s_table) (equity_calendar (\<lambda>_. s_table)))) \<and> si_open s \<le> (1199804400, 0)
    \<and> (1199804400, 0) < si_close s \<and> si_trade_date s = ymd 2008 1 8"
    by (intro exI [of _ "s_session 1199746800 8"]) (simp add: gc_table_def s_table_def s_session_def)
  then show ?thesis using t c globex_session_at [OF t c, of "ymd 2008 1 8"] by (auto simp: gc_table_def)
qed

end
