(* ===== verification/Sim.thy ===== *)
theory Sim
  imports Globex Lots "HOL-Library.List_Lexorder"
begin

section \<open>The simulated venues: instants, trailing stops and ticks\<close>

text \<open>
  \<open>sim.rs\<close>, \<open>sim/trailing.rs\<close> and \<open>sim/tick.rs\<close>: a timestamp with the text it came from, the trailing
  stop, the specification of a futures root, the parser of a futures symbol and the rounding of a price
  to its tick. A comparison of amounts cannot refuse, so it is a truth value here. The operations that
  change a value and may refuse half-way are functions from the old value to the answer and the new
  value: \<open>sm\<close> is that shape, \<open>sbind\<close> the \<open>?\<close> of the code.
\<close>

subsection \<open>State and refusal\<close>

type_synonym ('s, 'a) sm = "'s \<Rightarrow> 'a lres \<times> 's"

definition sret :: "'a \<Rightarrow> ('s, 'a) sm" where
  "sret a = (\<lambda>s. (Ok a, s))"

definition slift :: "'a lres \<Rightarrow> ('s, 'a) sm" where
  "slift r = (\<lambda>s. (r, s))"

definition sfail :: "string \<Rightarrow> string \<Rightarrow> ('s, 'a) sm" where
  "sfail k m = slift (lerr k m)"

definition sbind :: "('s, 'a) sm \<Rightarrow> ('a \<Rightarrow> ('s, 'b) sm) \<Rightarrow> ('s, 'b) sm" where
  "sbind m f = (\<lambda>s. case m s of (Ok a, s') \<Rightarrow> f a s' | (Err e, s') \<Rightarrow> (Err e, s'))"

definition sget :: "('s \<Rightarrow> 'a) \<Rightarrow> ('s, 'a) sm" where
  "sget f = (\<lambda>s. (Ok (f s), s))"

definition sread :: "('s \<Rightarrow> 'a lres) \<Rightarrow> ('s, 'a) sm" where
  "sread f = (\<lambda>s. (f s, s))"

definition smod :: "('s \<Rightarrow> 's) \<Rightarrow> ('s, unit) sm" where
  "smod f = (\<lambda>s. (Ok (), f s))"

fun sfor :: "('a \<Rightarrow> ('s, unit) sm) \<Rightarrow> 'a list \<Rightarrow> ('s, unit) sm" where
  "sfor f [] = sret ()"
| "sfor f (a # as) = sbind (f a) (\<lambda>_. sfor f as)"

text \<open>The loop that collects what the body answers.\<close>

fun scollect :: "('a \<Rightarrow> ('s, 'b option) sm) \<Rightarrow> 'a list \<Rightarrow> ('s, 'b list) sm" where
  "scollect f [] = sret []"
| "scollect f (a # as) = sbind (f a) (\<lambda>o'. sbind (scollect f as) (\<lambda>bs.
     sret (case o' of Some b \<Rightarrow> b # bs | None \<Rightarrow> bs)))"

subsection \<open>Timestamps\<close>

record ts =
  ts_dt :: date_time
  ts_iso :: string

definition ts_aware :: "externals \<Rightarrow> string \<Rightarrow> ts lres" where
  "ts_aware x txt_iso = and_then (parse_datetime x txt_iso) (\<lambda>(dt, aware).
     if \<not> aware then lerr ''value'' ''must be timezone-aware'' else Ok \<lparr>ts_dt = dt, ts_iso = txt_iso\<rparr>)"

definition EPOCH_CE :: int where "EPOCH_CE = 719163"

definition ts_utc :: "externals \<Rightarrow> utc \<Rightarrow> ts" where
  "ts_utc x t =
     (let date = the (date_of_ce x (fst t div 86400 + EPOCH_CE)); sod = nat (fst t mod 86400);
          dt = \<lparr>dt_date = date, dt_sod = sod, dt_us = snd t, dt_off = 0\<rparr>
      in \<lparr>ts_dt = dt, ts_iso = dt_iso dt\<rparr>)"

definition ts_key :: "externals \<Rightarrow> ts \<Rightarrow> int \<times> nat" where
  "ts_key x t = instant x (ts_dt t)"

definition ts_lt :: "externals \<Rightarrow> ts \<Rightarrow> ts \<Rightarrow> bool" where
  "ts_lt x a b \<longleftrightarrow> ts_key x a < ts_key x b"

definition ts_le :: "externals \<Rightarrow> ts \<Rightarrow> ts \<Rightarrow> bool" where
  "ts_le x a b \<longleftrightarrow> ts_key x a \<le> ts_key x b"

definition ts_eq :: "externals \<Rightarrow> ts \<Rightarrow> ts \<Rightarrow> bool" where
  "ts_eq x a b \<longleftrightarrow> ts_key x a = ts_key x b"

definition out_of_dates :: "'a lres" where
  "out_of_dates = lerr ''overflow'' ''date value out of range''"

definition to_utc_chrono :: "externals \<Rightarrow> ts \<Rightarrow> utc lres" where
  "to_utc_chrono x t =
     (let (secs, us) = ts_key x t; unix = secs - EPOCH_CE * 86400 in
      if utc_in_range x unix then Ok (unix, us) else out_of_dates)"

definition ny_date :: "externals \<Rightarrow> ts \<Rightarrow> naive_date lres" where
  "ny_date x t =
     (let (secs, us) = ts_key x t; unix = secs - EPOCH_CE * 86400 in
      if utc_in_range x unix then Ok (fst (ny_local x unix)) else out_of_dates)"

definition add_seconds :: "externals \<Rightarrow> ts \<Rightarrow> int \<Rightarrow> ts lres" where
  "add_seconds x t n =
     (let total_s = int (dt_sod (ts_dt t)) + n; days = total_s div 86400; sod = nat (total_s mod 86400) in
      case date_add x (dt_date (ts_dt t)) days of
        Some date \<Rightarrow>
          if 1 \<le> nd_year date \<and> nd_year date \<le> 9999
          then let dt = \<lparr>dt_date = date, dt_sod = sod, dt_us = dt_us (ts_dt t), dt_off = dt_off (ts_dt t)\<rparr>
               in Ok \<lparr>ts_dt = dt, ts_iso = dt_iso dt\<rparr>
          else out_of_dates
      | None \<Rightarrow> out_of_dates)"

definition floor_minute :: "ts \<Rightarrow> ts" where
  "floor_minute t =
     (let d = ts_dt t; dt = d\<lparr>dt_sod := dt_sod d - dt_sod d mod 60, dt_us := 0\<rparr> in \<lparr>ts_dt = dt, ts_iso = dt_iso dt\<rparr>)"

definition off_minute :: "ts \<Rightarrow> bool" where
  "off_minute t \<longleftrightarrow> dt_sod (ts_dt t) mod 60 \<noteq> 0 \<or> dt_us (ts_dt t) \<noteq> 0"

definition ts_max :: "externals \<Rightarrow> ts \<Rightarrow> ts \<Rightarrow> ts" where
  "ts_max x a b = (if ts_lt x a b then b else a)"

text \<open>The clock is the sequence of its readings; a reading takes the first.\<close>

type_synonym clock = "nat \<Rightarrow> string lres"

definition now :: "externals \<Rightarrow> ('b \<times> clock, ts) sm" where
  "now x = (\<lambda>(b, clk). (and_then (clk 0) (ts_aware x), (b, \<lambda>n. clk (Suc n))))"

definition on_book :: "('b, 'a) sm \<Rightarrow> ('b \<times> clock, 'a) sm" where
  "on_book m = (\<lambda>(b, clk). let (r, b') = m b in (r, (b', clk)))"

subsection \<open>The calendar and the amounts, with the errors of the ledger\<close>

definition calerr :: "calendar_error \<Rightarrow> lerr" where
  "calerr e = LErr ''value'' (case e of
       OutOfRange d \<Rightarrow> ''Date is outside the XNYS calendar range (I5)''
     | NotASession d \<Rightarrow> ''Date is not a valid trading session of XNYS (I5)''
     | InvertedRange a b \<Rightarrow> ''start date cannot be after end date''
     | BadWindow n \<Rightarrow> ''window must be positive'')"

definition sim_is_session :: "externals \<Rightarrow> naive_date \<Rightarrow> bool lres" where
  "sim_is_session x d = map_err calerr (is_session x d)"

definition sim_session_open :: "externals \<Rightarrow> naive_date \<Rightarrow> ts lres" where
  "sim_session_open x d = map_err calerr (and_then (session_open x d) (\<lambda>t. Ok (ts_utc x t)))"

definition sim_session_close :: "externals \<Rightarrow> naive_date \<Rightarrow> ts lres" where
  "sim_session_close x d = map_err calerr (and_then (session_close x d) (\<lambda>t. Ok (ts_utc x t)))"

definition sim_next_session :: "externals \<Rightarrow> naive_date \<Rightarrow> naive_date lres" where
  "sim_next_session x d = map_err calerr (next_session x d)"

definition roll_next :: "externals \<Rightarrow> naive_date \<Rightarrow> naive_date lres" where
  "roll_next x d = map_err calerr (roll_to_session x d True)"

definition dmin :: "money \<Rightarrow> money \<Rightarrow> money" where
  "dmin a b = (if money_lt b a then b else a)"

definition dmax :: "money \<Rightarrow> money \<Rightarrow> money" where
  "dmax a b = (if money_lt a b then b else a)"

definition pos0 :: "money \<Rightarrow> bool" where
  "pos0 d \<longleftrightarrow> money_lt ZERO d"

definition ascii_decimal :: "string \<Rightarrow> bool" where
  "ascii_decimal s \<longleftrightarrow> s \<noteq> [] \<and> list_all digit_byte s"

text \<open>\<open>str::rfind\<close>: the greatest position at which the separator starts.\<close>

definition starts_at :: "string \<Rightarrow> string \<Rightarrow> nat \<Rightarrow> bool" where
  "starts_at s sep i \<longleftrightarrow> i + length sep \<le> length s \<and> take (length sep) (drop i s) = sep"

definition rfind :: "string \<Rightarrow> string \<Rightarrow> nat option" where
  "rfind s sep = find (starts_at s sep) (rev [0..<Suc (length s)])"

definition rpartition :: "string \<Rightarrow> string \<Rightarrow> string \<times> bool \<times> string" where
  "rpartition s sep =
     (case rfind s sep of
        Some i \<Rightarrow> (take i s, True, drop (i + length sep) s)
      | None \<Rightarrow> ([], False, s))"

subsection \<open>Trailing stops\<close>

record trail =
  tr_side :: side
  tr_amount :: money
  tr_extreme :: "money option"
  tr_stop :: "money option"
  tr_triggered :: bool

definition check_trail_amount :: "money \<Rightarrow> unit lres" where
  "check_trail_amount a = (if money_le a ZERO then lerr ''value'' ''trail_amount must be positive'' else Ok ())"

definition trail_update :: "money \<Rightarrow> (trail, bool) sm" where
  "trail_update price = (\<lambda>t.
     if money_le price ZERO then (lerr ''value'' ''price must be finite and positive'', t)
     else if tr_triggered t then (Ok True, t)
     else if tr_side t = Sell then
       let extreme = (case tr_extreme t of None \<Rightarrow> price | Some e \<Rightarrow> dmax e price); t1 = t\<lparr>tr_extreme := Some extreme\<rparr> in
       (case dsub extreme (tr_amount t) of
          Err e \<Rightarrow> (Err e, t1)
        | Ok stop \<Rightarrow>
            let t2 = t1\<lparr>tr_stop := Some stop\<rparr> in
            if money_le stop ZERO then (lerr ''value'' ''trail amount produces a non-positive protective stop'', t2)
            else let hit = money_le price stop in (Ok hit, t2\<lparr>tr_triggered := hit\<rparr>))
     else
       let extreme = (case tr_extreme t of None \<Rightarrow> price | Some e \<Rightarrow> dmin e price); t1 = t\<lparr>tr_extreme := Some extreme\<rparr> in
       (case dadd extreme (tr_amount t) of
          Err e \<Rightarrow> (Err e, t1)
        | Ok stop \<Rightarrow>
            let t2 = t1\<lparr>tr_stop := Some stop\<rparr>; hit = money_le stop price
            in (Ok hit, t2\<lparr>tr_triggered := hit\<rparr>)))"

text \<open>A path of prices, until a price is refused.\<close>

definition trail_path :: "money list \<Rightarrow> (trail, unit) sm" where
  "trail_path = sfor (\<lambda>p. sbind (trail_update p) (\<lambda>_. sret ()))"

subsection \<open>Futures: specifications, symbols, ticks\<close>

definition FUTURE_SPECS :: "(string \<times> string \<times> string) list" where
  "FUTURE_SPECS =
     [(''NQ'', ''0.25'', ''20''), (''MNQ'', ''0.25'', ''2''), (''ES'', ''0.25'', ''50''), (''MES'', ''0.25'', ''5''),
      (''YM'', ''1.0'', ''5''), (''MYM'', ''1.0'', ''0.5''), (''RTY'', ''0.1'', ''50''), (''M2K'', ''0.1'', ''5''),
      (''CL'', ''0.01'', ''1000''), (''MCL'', ''0.01'', ''100''), (''GC'', ''0.1'', ''100''), (''MGC'', ''0.1'', ''10'')]"

record future_spec =
  fs_root :: string
  fs_tick_size :: money
  fs_point_value :: money

fun tick_derr :: "dec_err \<Rightarrow> lerr" where
  "tick_derr InvalidOperation = LErr ''value'' ''InvalidOperation''"
| "tick_derr DivisionByZero = LErr ''division_by_zero'' ''DivisionByZero''"
| "tick_derr Overflow = LErr ''overflow'' ''Overflow''"
| "tick_derr DecPanic = LErr ''panic'' []"
| "tick_derr (Unsupported m) = LErr ''unsupported'' (''Unsupported'' @ m)"

definition spec_for_root :: "string \<Rightarrow> future_spec lres" where
  "spec_for_root rt =
     (case find (\<lambda>s. fst s = to_ascii_uppercase (trim_str rt)) FUTURE_SPECS of
        None \<Rightarrow> lerr ''unsupported'' ''Unknown futures root''
      | Some (r, t, p) \<Rightarrow>
          and_then (ok_or (LErr ''value'' ''internal error: invalid tick_size'') (money_parse (chars t))) (\<lambda>tick.
          and_then (ok_or (LErr ''value'' ''internal error: invalid point_value'') (money_parse (chars p))) (\<lambda>pv.
          Ok \<lparr>fs_root = r, fs_tick_size = tick, fs_point_value = pv\<rparr>)))"

definition MONTH_CODES :: string where "MONTH_CODES = ''FGHJKMNQUVXZ''"

definition month_from_code :: "char \<Rightarrow> nat option" where
  "month_from_code c =
     (case find (\<lambda>i. MONTH_CODES ! i = hd (to_ascii_uppercase [c])) [0..<12] of Some i \<Rightarrow> Some (i + 1) | None \<Rightarrow> None)"

definition month_to_code :: "nat \<Rightarrow> char" where
  "month_to_code m = (if 1 \<le> m \<and> m \<le> 12 then MONTH_CODES ! (m - 1) else CHR ''?'')"

text \<open>The symbol without its slash.\<close>

definition bare_symbol :: "string \<Rightarrow> string lres" where
  "bare_symbol symbol_text =
     (let trimmed = trim_str symbol_text in
      if trimmed = [] then lerr ''value'' ''Futures symbol must be a non-empty string''
      else and_then
        (if hd trimmed = CHR ''/'' then
           let stripped = tl trimmed in
           if stripped = [] then lerr ''value'' ''Futures symbol must not be empty after slash''
           else if hd stripped = CHR ''/'' then lerr ''value'' ''Futures symbol contains multiple leading slashes''
           else Ok stripped
         else Ok trimmed)
        (\<lambda>bare. if CHR ''/'' \<in> set bare \<or> CHR '' '' \<in> set bare \<or> CHR 9 \<in> set bare
                then lerr ''value'' ''Futures symbol must not contain slashes or whitespace''
                else Ok bare))"

definition root_candidates :: "string list" where
  "root_candidates = sort_key (\<lambda>c. - int (length c)) (map fst FUTURE_SPECS)"

definition starts_with :: "string \<Rightarrow> string \<Rightarrow> bool" where
  "starts_with p s \<longleftrightarrow> take (length p) s = p"

definition contract_year :: "string \<Rightarrow> int lres" where
  "contract_year y =
     (if y = [] then lerr ''value'' ''Missing contract year in futures symbol''
      else if \<not> list_all digit_byte y then lerr ''value'' ''Invalid contract year in futures symbol: expected digits''
      else if length y = 1 then Ok (2020 + int (num y))
      else if length y = 2 then Ok (if num y \<le> 68 then 2000 + int (num y) else 1900 + int (num y))
      else if length y = 4 then Ok (int (num y))
      else lerr ''value'' ''Invalid contract year in futures symbol: expected 1, 2, or 4 digits'')"

text \<open>
  The refusal of an unknown root: the end of the guessed root is a count of characters used as a byte offset, and
  a slice that ends inside a character panics.
\<close>

definition char_boundary :: "string \<Rightarrow> nat \<Rightarrow> bool" where
  "char_boundary s n \<longleftrightarrow> n = length s \<or> n < length s \<and> \<not> ((0x80 :: nat) \<le> of_char (s ! n) \<and> of_char (s ! n) < (0xC0 :: nat))"

definition unknown_root :: "string \<Rightarrow> 'a lres" where
  "unknown_root upper =
     (let cs = chars upper; i = length (dropWhile is_digit (rev cs));
          r_end = (if 0 < i \<and> i < length cs \<and> cs ! (i - 1) < 0x80 \<and> month_from_code (char_of (cs ! (i - 1))) \<noteq> None
                   then i - 1 else length upper)
      in if char_boundary upper r_end then lerr ''unsupported'' ''Unknown futures root''
         else lerr ''panic'' ''byte index is not a char boundary'')"

definition parse_future_symbol :: "string \<Rightarrow> future_contract lres" where
  "parse_future_symbol symbol_text =
     and_then (bare_symbol symbol_text) (\<lambda>bare.
       let upper = to_ascii_uppercase bare in
       case find (\<lambda>c. starts_with c upper) root_candidates of
         None \<Rightarrow> unknown_root upper
       | Some rt \<Rightarrow>
           and_then (spec_for_root rt) (\<lambda>spec.
           let remainder = drop (length rt) upper in
           and_then
             (if remainder = [] then Ok None
              else case month_from_code (hd remainder) of
                     None \<Rightarrow> lerr ''value'' ''Invalid contract month code in futures symbol''
                   | Some month \<Rightarrow> and_then (contract_year (tl remainder)) (\<lambda>year.
                       and_then (contract_month_new year month) (\<lambda>cm. Ok (Some cm))))
             (\<lambda>cm. Ok \<lparr>fc_root = rt, fc_month = cm, fc_tick_size = fs_tick_size spec, fc_point_value = fs_point_value spec\<rparr>)))"

definition parse_future :: "string \<Rightarrow> instrument lres" where
  "parse_future s = and_then (parse_future_symbol s) (\<lambda>f. Ok (Future f))"

datatype tick_round = TNearest | TFloor | TCeil

definition td :: "(money, dec_err) result \<Rightarrow> money lres" where
  "td r = map_err tick_derr r"

definition HALF :: money where "HALF = \<lparr>neg_bit = False, mantissa = 5, scale = 1\<rparr>"

definition round_units :: "money \<Rightarrow> tick_round \<Rightarrow> money lres" where
  "round_units units mode =
     (case mode of
        TFloor \<Rightarrow> td (to_integral units Floor)
      | TCeil \<Rightarrow> and_then (td (money_neg units)) (\<lambda>n. and_then (td (to_integral n Floor)) (\<lambda>f. td (money_neg f)))
      | TNearest \<Rightarrow> and_then (td (money_add units HALF)) (\<lambda>s. td (to_integral s Floor)))"

definition round_to_tick :: "money \<Rightarrow> money \<Rightarrow> tick_round \<Rightarrow> money lres" where
  "round_to_tick price tick mode =
     (if \<not> money_lt ZERO tick then lerr ''value'' ''tick size must be positive and finite''
      else and_then (td (money_div price tick)) (\<lambda>units.
           and_then (round_units units mode) (\<lambda>rounded.
           and_then (td (money_mul rounded tick)) (\<lambda>snapped.
           td (quantize snapped (- int (scale tick)))))))"

definition slip_ticks :: "money \<Rightarrow> side \<Rightarrow> nat \<Rightarrow> money \<Rightarrow> money lres" where
  "slip_ticks price sd n tick =
     (if n = 0 then Ok price
      else and_then (td (mul_i128 tick (int n))) (\<lambda>delta.
           and_then (td (if sd = Buy then money_add price delta else money_sub price delta)) (\<lambda>raw.
           round_to_tick raw tick TNearest)))"

end
