(* ===== verification/Sim_Broker.thy ===== *)
theory Sim_Broker
  imports Sim
begin

section \<open>The simulated broker: \<open>sim/broker.rs\<close>\<close>

text \<open>
  The book of the one-minute-bar venue: orders, fills, last bars and positions, and every operation of
  \<open>impl Book\<close>. An operation of the book that only reads is a function of it; one that writes has the
  shape \<open>sm\<close>, so a refusal leaves the book as far as the code had changed it. The insertion-ordered map
  \<open>IMap\<close> and the hash maps \<open>index\<close> and \<open>fill_counts\<close> are association lists with replacement; the numbers of
  fills are unbounded where the code has \<open>u128\<close>.
\<close>

subsection \<open>Data\<close>

record alloc =
  al_soid :: string
  al_account :: string
  al_qty :: money

record vorder =
  vo_id :: string
  vo_instr :: instrument
  vo_otype :: order_type
  vo_side :: side
  vo_quantity :: money
  vo_submitted_at :: ts
  vo_tif :: tif
  vo_limit :: "money option"
  vo_stop :: "money option"
  vo_trail :: "money option"
  vo_allocs :: "alloc list"
  vo_parent :: "string option"
  vo_oco :: "string option"

definition vorder_same :: "externals \<Rightarrow> vorder \<Rightarrow> vorder \<Rightarrow> bool" where
  "vorder_same x a b \<longleftrightarrow>
     vo_id a = vo_id b \<and> instr_same (vo_instr a) (vo_instr b) \<and> vo_otype a = vo_otype b \<and> vo_side a = vo_side b
     \<and> dec_eq (vo_quantity a) (vo_quantity b) \<and> ts_eq x (vo_submitted_at a) (vo_submitted_at b) \<and> vo_tif a = vo_tif b
     \<and> opt_dec_eq (vo_limit a) (vo_limit b) \<and> opt_dec_eq (vo_stop a) (vo_stop b) \<and> opt_dec_eq (vo_trail a) (vo_trail b)
     \<and> length (vo_allocs a) = length (vo_allocs b)
     \<and> list_all (\<lambda>(p, q). al_soid p = al_soid q \<and> al_account p = al_account q \<and> dec_eq (al_qty p) (al_qty q))
         (zip (vo_allocs a) (vo_allocs b))
     \<and> vo_parent a = vo_parent b \<and> vo_oco a = vo_oco b"

record vfill =
  vf_fill_id :: string
  vf_order_id :: string
  vf_instr :: instrument
  vf_quantity :: money
  vf_price :: money
  vf_filled_at :: ts
  vf_side :: side
  vf_src :: "nat option"

record bar =
  br_instr :: instrument
  br_ts :: ts
  br_open :: money
  br_high :: money
  br_low :: money
  br_close :: money
  br_volume :: money
  br_as_of :: ts

definition bar_same :: "externals \<Rightarrow> bar \<Rightarrow> bar \<Rightarrow> bool" where
  "bar_same x a b \<longleftrightarrow>
     instr_same (br_instr a) (br_instr b) \<and> ts_eq x (br_ts a) (br_ts b) \<and> dec_eq (br_open a) (br_open b)
     \<and> dec_eq (br_high a) (br_high b) \<and> dec_eq (br_low a) (br_low b) \<and> dec_eq (br_close a) (br_close b)
     \<and> dec_eq (br_volume a) (br_volume b) \<and> ts_eq x (br_as_of a) (br_as_of b)"

record pos =
  ps_instr :: instrument
  ps_qty :: money
  ps_avg :: money
  ps_as_of :: ts

definition ONE :: money where "ONE = \<lparr>neg_bit = False, mantissa = 1, scale = 0\<rparr>"

definition pos_point_value :: "pos \<Rightarrow> money" where
  "pos_point_value p = (case ps_instr p of Future c \<Rightarrow> fc_point_value c | _ \<Rightarrow> ONE)"

definition unrealized_pnl :: "pos \<Rightarrow> money \<Rightarrow> money lres" where
  "unrealized_pnl p mark = and_then (dsub mark (ps_avg p)) (\<lambda>diff.
     and_then (dmul diff (pos_point_value p)) (\<lambda>v. dmul v (ps_qty p)))"

record working =
  wk_order :: vorder
  wk_state :: order_state
  wk_filled :: money
  wk_updated_at :: ts
  wk_triggered :: bool

record ack =
  ak_id :: string
  ak_status :: string
  ak_ts :: ts
  ak_msg :: "string option"

datatype begin_result = Done ack | Go money

type_synonym 'v imap = "(string \<times> 'v) list"

definition imap_get :: "'v imap \<Rightarrow> string \<Rightarrow> 'v option" where
  "imap_get m k = map_of m k"

fun imap_put :: "'v imap \<Rightarrow> string \<Rightarrow> 'v \<Rightarrow> 'v imap" where
  "imap_put [] k v = [(k, v)]"
| "imap_put ((h, w) # m) k v = (if h = k then (h, v) # m else (h, w) # imap_put m k v)"

definition is_working :: "order_state \<Rightarrow> bool" where
  "is_working s \<longleftrightarrow> s = Accepted \<or> s = PartiallyFilled"

definition gerr :: "globex_error \<Rightarrow> lerr" where
  "gerr e = LErr ''value'' (case e of
       GOutOfRange d \<Rightarrow> ''Date is outside the CME Globex calendar range (I5)''
     | GOutOfRangeInstant t \<Rightarrow> ''Instant is outside the CME Globex calendar range (I5)''
     | GNotASession d \<Rightarrow> ''Date is not a valid trading session of CME Globex (I5)''
     | GInvertedRange a b \<Rightarrow> ''start date cannot be after end date''
     | MalformedRow m \<Rightarrow> ''Malformed CME holiday table row: '' @ m
     | UnknownRoot r \<Rightarrow> ''No CME Globex calendar for futures root (I5)''
     | RootOutOfRange r d a b \<Rightarrow> ''Date is outside the CME Globex calendar range of the root (I5)''
     | RootOutOfRangeInstant r t a b \<Rightarrow> ''Instant is outside the CME Globex calendar range of the root (I5)'')"

definition gcal :: "tables \<Rightarrow> instrument \<Rightarrow> globex_calendar lres" where
  "gcal tb i = (case i of Future fc \<Rightarrow> map_err gerr (for_root tb (fc_root fc))
     | _ \<Rightarrow> lerr ''value'' ''SimBroker supports futures only'')"

definition int_key :: "string \<Rightarrow> nat \<times> nat list" where
  "int_key digits = (let t = dropWhile (\<lambda>c. c = CHR ''0'') digits in (length t, utext t))"

record book =
  bk_account_id :: string
  bk_venue :: venue_calendar
  bk_bps :: money
  bk_slippage_ticks :: nat
  bk_connected :: bool
  bk_orders :: "working list"
  bk_index :: "nat imap"
  bk_fills :: "vfill list"
  bk_fill_counts :: "nat imap"
  bk_last_bars :: "bar imap"
  bk_positions :: "pos imap"

definition empty_book :: "string \<Rightarrow> venue_calendar \<Rightarrow> money \<Rightarrow> nat \<Rightarrow> book" where
  "empty_book account venue bps ticks = \<lparr>bk_account_id = account, bk_venue = venue, bk_bps = bps, bk_slippage_ticks = ticks,
     bk_connected = False, bk_orders = [], bk_index = [], bk_fills = [], bk_fill_counts = [], bk_last_bars = [], bk_positions = []\<rparr>"

definition new_with_venue :: "string \<Rightarrow> bool \<Rightarrow> money \<Rightarrow> nat \<Rightarrow> venue_calendar \<Rightarrow> book lres" where
  "new_with_venue account is_decimal bps ticks venue =
     (if account = [] then lerr ''value'' ''account_id must be non-empty''
      else if \<not> is_decimal then lerr ''value'' ''slippage_bps must be a finite Decimal''
      else if money_lt bps ZERO then lerr ''value'' ''slippage_bps must be non-negative''
      else Ok (empty_book account venue bps ticks))"

definition book_new :: "string \<Rightarrow> bool \<Rightarrow> money \<Rightarrow> book lres" where
  "book_new account is_decimal bps =
     (if account = [] then lerr ''value'' ''account_id must be non-empty''
      else if \<not> is_decimal then lerr ''value'' ''slippage_bps must be a finite Decimal''
      else if money_lt bps ZERO then lerr ''value'' ''slippage_bps must be non-negative''
      else Ok (empty_book account Xnys bps 0))"

definition new_futures :: "string \<Rightarrow> nat \<Rightarrow> book lres" where
  "new_futures account ticks =
     (if account = [] then lerr ''value'' ''account_id must be non-empty'' else Ok (empty_book account Globex ZERO ticks))"

definition position_pnl :: "book \<Rightarrow> string \<Rightarrow> money \<Rightarrow> money option lres" where
  "position_pnl b name mark =
     fold_r (\<lambda>acc (k, p).
       if acc \<noteq> None then Ok acc
       else and_then (symbol (ps_instr p)) (\<lambda>s.
         if s = name \<and> \<not> money_eq (ps_qty p) ZERO
         then and_then (unrealized_pnl p mark) (\<lambda>v. Ok (Some v))
         else Ok None)) None (bk_positions b)"

subsection \<open>Access\<close>

definition order_at :: "nat \<Rightarrow> book \<Rightarrow> working" where
  "order_at i b = bk_orders b ! i"

definition upd_order :: "nat \<Rightarrow> (working \<Rightarrow> working) \<Rightarrow> (book, unit) sm" where
  "upd_order i f = smod (\<lambda>b. b\<lparr>bk_orders := (bk_orders b)[i := f (bk_orders b ! i)]\<rparr>)"

definition require_connected :: "book \<Rightarrow> unit lres" where
  "require_connected b = (if \<not> bk_connected b then lerr ''sim'' ''Call connect() before using SimBroker'' else Ok ())"

definition require_order :: "string \<Rightarrow> book \<Rightarrow> nat lres" where
  "require_order i b = (case imap_get (bk_index b) i of Some n \<Rightarrow> Ok n | None \<Rightarrow> lerr ''unknown_order'' ''Unknown SimBroker order'')"

definition state_of :: "string \<Rightarrow> book \<Rightarrow> order_state option" where
  "state_of i b = map_option (\<lambda>n. wk_state (bk_orders b ! n)) (imap_get (bk_index b) i)"

definition latest_bar_ts :: "externals \<Rightarrow> book \<Rightarrow> ts option" where
  "latest_bar_ts x b = fold (\<lambda>(k, br) acc. Some (case acc of None \<Rightarrow> br_ts br | Some m \<Rightarrow> ts_max x m (br_ts br))) (bk_last_bars b) None"

definition event_time :: "externals \<Rightarrow> (book \<times> clock, ts) sm" where
  "event_time x = sbind (now x) (\<lambda>att. sget (\<lambda>(b, clk).
     ts_max x att (case latest_bar_ts x b of Some m \<Rightarrow> m | None \<Rightarrow> att)))"

definition mk_ack :: "externals \<Rightarrow> string \<Rightarrow> string \<Rightarrow> string option \<Rightarrow> (book \<times> clock, ack) sm" where
  "mk_ack x i status msg = sbind (event_time x) (\<lambda>t. sret \<lparr>ak_id = i, ak_status = status, ak_ts = t, ak_msg = msg\<rparr>)"

subsection \<open>Sessions of an order\<close>

definition day_session :: "externals \<Rightarrow> ts \<Rightarrow> naive_date lres" where
  "day_session x att = and_then (ny_date x att) (\<lambda>d.
     and_then (sim_is_session x d) (\<lambda>s.
       if s then and_then (sim_session_close x d) (\<lambda>close.
         if ts_lt x att close then Ok d else sim_next_session x d)
       else roll_next x d))"

text \<open>The open of the session an instant belongs to on a futures calendar, and its trade date.\<close>

definition globex_session :: "externals \<Rightarrow> tables \<Rightarrow> instrument \<Rightarrow> ts \<Rightarrow> (globex_calendar \<times> naive_date) lres" where
  "globex_session x tb i att = and_then (to_utc_chrono x att) (\<lambda>t.
     and_then (gcal tb i) (\<lambda>c. and_then (map_err gerr (session_or_next x tb c t)) (\<lambda>day. Ok (c, day))))"

definition opg_session_open :: "externals \<Rightarrow> tables \<Rightarrow> book \<Rightarrow> instrument \<Rightarrow> ts \<Rightarrow> ts lres" where
  "opg_session_open x tb b i att =
     (case bk_venue b of
        Xnys \<Rightarrow> and_then (ny_date x att) (\<lambda>d. and_then (sim_is_session x d) (\<lambda>s.
          if s then and_then (sim_session_open x d) (\<lambda>op.
            if ts_lt x att op then Ok op
            else and_then (sim_next_session x d) (sim_session_open x))
          else and_then (roll_next x d) (sim_session_open x)))
      | Globex \<Rightarrow> and_then (globex_session x tb i att) (\<lambda>(c, day).
          and_then (map_err gerr (g_session_open tb c day)) (\<lambda>o_utc.
          let op = ts_utc x o_utc in
          if ts_lt x att op then Ok op
          else and_then (map_err gerr (g_next_session tb c day)) (\<lambda>next_day.
               and_then (map_err gerr (g_session_open tb c next_day)) (\<lambda>n_utc. Ok (ts_utc x n_utc))))))"

definition expiry_instant :: "externals \<Rightarrow> tables \<Rightarrow> book \<Rightarrow> vorder \<Rightarrow> ts option lres" where
  "expiry_instant x tb b ord =
     (case vo_tif ord of
        Day \<Rightarrow>
          (case bk_venue b of
             Xnys \<Rightarrow> and_then (day_session x (vo_submitted_at ord)) (\<lambda>d. and_then (sim_session_close x d) (\<lambda>t. Ok (Some t)))
           | Globex \<Rightarrow> and_then (globex_session x tb (vo_instr ord) (vo_submitted_at ord)) (\<lambda>(c, day).
               and_then (map_err gerr (g_session_close tb c day)) (\<lambda>t. Ok (Some (ts_utc x t)))))
      | Opg \<Rightarrow> and_then (opg_session_open x tb b (vo_instr ord) (vo_submitted_at ord)) (\<lambda>t. Ok (Some t))
      | _ \<Rightarrow> Ok None)"

definition has_expired :: "externals \<Rightarrow> tables \<Rightarrow> book \<Rightarrow> vorder \<Rightarrow> ts \<Rightarrow> bool lres" where
  "has_expired x tb b ord att =
     (if ts_le x att (vo_submitted_at ord) then Ok False
      else and_then (expiry_instant x tb b ord) (\<lambda>o'.
        case o' of
          None \<Rightarrow> Ok False
        | Some t \<Rightarrow> Ok (if vo_tif ord = Opg then ts_lt x t att else ts_le x t att)))"

definition first_eligible_bar :: "externals \<Rightarrow> tables \<Rightarrow> book \<Rightarrow> instrument \<Rightarrow> ts \<Rightarrow> ts lres" where
  "first_eligible_bar x tb b i att =
     and_then
       (case bk_venue b of
          Xnys \<Rightarrow> and_then (day_session x att) (sim_session_open x)
        | Globex \<Rightarrow> and_then (globex_session x tb i att) (\<lambda>(c, day).
            and_then (map_err gerr (g_session_open tb c day)) (\<lambda>t. Ok (ts_utc x t))))
       (\<lambda>op. if ts_lt x att op then Ok op else add_seconds x (floor_minute att) 60)"

definition is_regular_session_bar :: "externals \<Rightarrow> tables \<Rightarrow> book \<Rightarrow> bar \<Rightarrow> bool lres" where
  "is_regular_session_bar x tb b br =
     (case bk_venue b of
        Xnys \<Rightarrow> and_then (ny_date x (br_ts br)) (\<lambda>d. and_then (sim_session_open x d) (\<lambda>op.
          if \<not> ts_le x op (br_ts br) then Ok False
          else and_then (sim_session_close x d) (\<lambda>close. Ok (ts_lt x (br_ts br) close))))
      | Globex \<Rightarrow> and_then (to_utc_chrono x (br_ts br)) (\<lambda>t.
          and_then (gcal tb (br_instr br)) (\<lambda>c. map_err gerr (g_is_open_at x tb c t))))"

subsection \<open>Checks of orders and bars\<close>

definition is_equity :: "instrument \<Rightarrow> bool" where
  "is_equity i = (case i of Equity _ \<Rightarrow> True | _ \<Rightarrow> False)"

definition is_future :: "instrument \<Rightarrow> bool" where
  "is_future i = (case i of Future _ \<Rightarrow> True | _ \<Rightarrow> False)"

definition sim_validate :: "vorder \<Rightarrow> book \<Rightarrow> unit lres" where
  "sim_validate ord b =
     (if bk_venue b = Xnys \<and> \<not> is_equity (vo_instr ord) then lerr ''value'' ''SimBroker accepts equity orders only''
      else if bk_venue b = Globex \<and> \<not> is_future (vo_instr ord) then lerr ''value'' ''SimBroker accepts futures orders only''
      else if vo_otype ord \<notin> {Market, Limit, Stop, StopLimit} then lerr ''value'' ''Unsupported order type''
      else if vo_tif ord \<notin> {Day, Gtc, Opg} then lerr ''value'' ''Unsupported time in force''
      else if vo_tif ord = Opg \<and> vo_otype ord \<noteq> Market then lerr ''value'' ''OPG is supported only for market-on-open orders''
      else if \<not> list_all (\<lambda>a. al_account a = bk_account_id b) (vo_allocs ord)
        then lerr ''value'' ''Venue order allocation account does not match SimBroker account''
      else if length (vo_allocs ord) \<noteq> 1 then lerr ''value'' ''SimBroker requires one-to-one strategy-order allocations''
      else case vo_parent ord of
             None \<Rightarrow> Ok ()
           | Some parent \<Rightarrow>
               (case imap_get (bk_index b) parent of
                  None \<Rightarrow> lerr ''value'' ''Parent order is not held by this SimBroker''
                | Some p \<Rightarrow>
                    let po = wk_order (bk_orders b ! p) in
                    if \<not> instr_same (vo_instr po) (vo_instr ord) \<or> vo_side po = vo_side ord
                    then lerr ''value'' ''Exit must close parent in the same instrument''
                    else Ok ()))"

definition check_bar_sequence_equity :: "externals \<Rightarrow> bar \<Rightarrow> book \<Rightarrow> unit lres" where
  "check_bar_sequence_equity x br b =
     and_then (symbol (br_instr br)) (\<lambda>_.
     and_then (ny_date x (br_ts br)) (\<lambda>bar_date.
     and_then (sim_is_session x bar_date) (\<lambda>s.
     if \<not> s then lerr ''missing_bar'' ''Bar is on non-session date''
     else and_then (sim_session_open x bar_date) (\<lambda>op.
       let opening = lerr ''missing_bar'' ''Missing session opening one-minute bar'' in
       case imap_get (bk_last_bars b) (instr_hk (br_instr br)) of
         None \<Rightarrow> if \<not> ts_eq x (br_ts br) op then opening else Ok ()
       | Some previous \<Rightarrow>
           if ts_eq x (br_ts br) (br_ts previous) then Ok ()
           else if ts_lt x (br_ts br) (br_ts previous) then lerr ''value'' ''Out-of-order bar''
           else and_then (ny_date x (br_ts previous)) (\<lambda>previous_date.
             if bar_date = previous_date then
               (let (a, au) = ts_key x (br_ts br); (p, pu) = ts_key x (br_ts previous) in
                if \<not> (a - p = 60 \<and> au = pu) then lerr ''missing_bar'' ''Missing one-minute bar'' else Ok ())
             else and_then (sim_session_close x previous_date) (\<lambda>close.
                  and_then (add_seconds x close (- 60)) (\<lambda>last_regular.
                  if ts_lt x (br_ts previous) last_regular then lerr ''missing_bar'' ''Missing closing one-minute bars''
                  else and_then (sim_next_session x previous_date) (\<lambda>nxt.
                    if bar_date \<noteq> nxt then lerr ''missing_bar'' ''Missing session bars''
                    else if \<not> ts_eq x (br_ts br) op then opening
                    else Ok ()))))))))"

definition check_bar_sequence_futures :: "externals \<Rightarrow> tables \<Rightarrow> bar \<Rightarrow> book \<Rightarrow> unit lres" where
  "check_bar_sequence_futures x tb br b =
     and_then (symbol (br_instr br)) (\<lambda>_.
     and_then (to_utc_chrono x (br_ts br)) (\<lambda>t.
     and_then (gcal tb (br_instr br)) (\<lambda>c.
     and_then (map_err gerr (g_session_at x tb c t)) (\<lambda>o'.
     if o' = None then lerr ''missing_bar'' ''Bar is not inside a Globex session (halt, weekend or closure)''
     else case imap_get (bk_last_bars b) (instr_hk (br_instr br)) of
            None \<Rightarrow> Ok ()
          | Some previous \<Rightarrow>
              if ts_eq x (br_ts br) (br_ts previous) then Ok ()
              else if ts_lt x (br_ts br) (br_ts previous) then lerr ''value'' ''Out-of-order bar''
              else Ok ()))))"

definition check_bar_sequence :: "externals \<Rightarrow> tables \<Rightarrow> bar \<Rightarrow> book \<Rightarrow> unit lres" where
  "check_bar_sequence x tb br b =
     (case bk_venue b of Xnys \<Rightarrow> check_bar_sequence_equity x br b | Globex \<Rightarrow> check_bar_sequence_futures x tb br b)"

subsection \<open>Prices\<close>

definition BPS :: money where "BPS = \<lparr>neg_bit = False, mantissa = 10000, scale = 0\<rparr>"

definition slipped :: "book \<Rightarrow> money \<Rightarrow> side \<Rightarrow> money lres" where
  "slipped b base sd = and_then (ddiv (bk_bps b) BPS) (\<lambda>frac.
     and_then (if sd = Buy then dadd ONE frac else dsub ONE frac) (\<lambda>factor. dmul base factor))"

definition slipped_price :: "book \<Rightarrow> money \<Rightarrow> vorder \<Rightarrow> money lres" where
  "slipped_price b base ord =
     (case vo_instr ord of
        Future c \<Rightarrow>
          if vo_otype ord \<in> {Limit, StopLimit} then Ok base
          else slip_ticks base (vo_side ord) (bk_slippage_ticks b) (fc_tick_size c)
      | _ \<Rightarrow> and_then (slipped b base (vo_side ord)) (\<lambda>sl.
          case (vo_otype ord \<in> {Limit, StopLimit}, vo_limit ord) of
            (True, Some lmt) \<Rightarrow> Ok (if vo_side ord = Buy then dmin sl lmt else dmax sl lmt)
          | _ \<Rightarrow> Ok sl))"

definition limit_base :: "vorder \<Rightarrow> bar \<Rightarrow> money option lres" where
  "limit_base ord br =
     (case vo_limit ord of
        None \<Rightarrow> lerr ''sim'' ''Accepted limit order has no limit price''
      | Some lmt \<Rightarrow>
          if vo_side ord = Buy then
            (if money_lt lmt (br_low br) then Ok None else Ok (Some (dmin (br_open br) lmt)))
          else
            (if money_lt (br_high br) lmt then Ok None else Ok (Some (dmax (br_open br) lmt))))"

definition stop_base :: "vorder \<Rightarrow> bar \<Rightarrow> money option lres" where
  "stop_base ord br =
     (case vo_stop ord of
        None \<Rightarrow> lerr ''sim'' ''Accepted stop order has no stop price''
      | Some stop \<Rightarrow>
          if vo_side ord = Buy then
            (if money_lt (br_high br) stop then Ok None else Ok (Some (dmax (br_open br) stop)))
          else
            (if money_lt stop (br_low br) then Ok None else Ok (Some (dmin (br_open br) stop))))"

text \<open>The price of a stop-limit order, with the trigger it leaves.\<close>

definition stop_limit_price :: "working \<Rightarrow> bar \<Rightarrow> (money option \<times> bool) lres" where
  "stop_limit_price w br =
     (case (vo_stop (wk_order w), vo_limit (wk_order w)) of
        (Some stop, Some lmt) \<Rightarrow>
          if vo_side (wk_order w) = Buy then
            (if \<not> wk_triggered w \<and> money_lt (br_high br) stop then Ok (None, wk_triggered w)
             else if \<not> wk_triggered w \<and> money_lt (br_open br) stop
               then Ok (if money_lt lmt stop then None else Some stop, True)
             else if money_lt lmt (br_low br) then Ok (None, True)
             else Ok (Some (dmin (br_open br) lmt), True))
          else
            (if \<not> wk_triggered w \<and> money_lt stop (br_low br) then Ok (None, wk_triggered w)
             else if \<not> wk_triggered w \<and> money_lt stop (br_open br)
               then Ok (if money_lt stop lmt then None else Some stop, True)
             else if money_lt (br_high br) lmt then Ok (None, True)
             else Ok (Some (dmax (br_open br) lmt), True))
      | _ \<Rightarrow> lerr ''sim'' ''Accepted stop-limit order has no stop or limit price'')"

definition stop_limit_base :: "nat \<Rightarrow> bar \<Rightarrow> (book, money option) sm" where
  "stop_limit_base i br =
     sbind (sread (\<lambda>b. stop_limit_price (order_at i b) br)) (\<lambda>(p, trig).
     sbind (upd_order i (\<lambda>w. w\<lparr>wk_triggered := trig\<rparr>)) (\<lambda>_. sret p))"

definition base_price :: "externals \<Rightarrow> tables \<Rightarrow> nat \<Rightarrow> bar \<Rightarrow> vorder \<Rightarrow> (book, money option) sm" where
  "base_price x tb i br ord =
     (if vo_tif ord = Opg then
        sbind (sread (\<lambda>b. opg_session_open x tb b (vo_instr ord) (vo_submitted_at ord))) (\<lambda>op.
          sret (if \<not> ts_eq x (br_ts br) op \<or> vo_otype ord \<noteq> Market then None else Some (br_open br)))
      else case vo_otype ord of
             Market \<Rightarrow> sret (Some (br_open br))
           | Limit \<Rightarrow> slift (limit_base ord br)
           | Stop \<Rightarrow> slift (stop_base ord br)
           | StopLimit \<Rightarrow> stop_limit_base i br
           | Trail \<Rightarrow> sfail ''sim'' ''Unsupported accepted order type'')"

definition execution_price :: "externals \<Rightarrow> tables \<Rightarrow> nat \<Rightarrow> bar \<Rightarrow> (book, money option) sm" where
  "execution_price x tb i br =
     sbind (sget (\<lambda>b. wk_order (order_at i b))) (\<lambda>ord.
       if ts_le x (br_ts br) (vo_submitted_at ord) then sret None
       else sbind (base_price x tb i br ord) (\<lambda>o'.
         case o' of
           None \<Rightarrow> sret None
         | Some base \<Rightarrow> sbind (sread (\<lambda>b. slipped_price b base ord)) (\<lambda>p. sret (Some p))))"

subsection \<open>Fills and positions\<close>

definition bracket_open_quantity :: "string \<Rightarrow> book \<Rightarrow> money lres" where
  "bracket_open_quantity parent b =
     and_then (require_order parent b) (\<lambda>p.
     and_then (fold_r (\<lambda>acc w. if vo_parent (wk_order w) = Some parent then dadd acc (wk_filled w) else Ok acc) ZERO (bk_orders b)) (\<lambda>exited.
     and_then (dsub (wk_filled (bk_orders b ! p)) exited) (\<lambda>left. Ok (dmax left ZERO))))"

text \<open>The change of the average price.\<close>

definition updated_average :: "money \<Rightarrow> money \<Rightarrow> money \<Rightarrow> money \<Rightarrow> money \<Rightarrow> money lres" where
  "updated_average quantity average change updated price =
     (if money_eq quantity ZERO \<or> pos0 quantity = pos0 change then
        and_then (map_err derr (money_abs quantity)) (\<lambda>aq.
        and_then (map_err derr (money_abs change)) (\<lambda>ac.
        and_then (dadd aq ac) (\<lambda>basis.
        and_then (dmul aq average) (\<lambda>p.
        and_then (dmul ac price) (\<lambda>q.
        and_then (dadd p q) (\<lambda>s. ddiv s basis))))))
      else if money_eq updated ZERO then Ok ZERO
      else if pos0 updated \<noteq> pos0 quantity then Ok price
      else Ok average)"

definition update_position :: "vfill \<Rightarrow> (book, unit) sm" where
  "update_position f =
     (let hk = instr_hk (vf_instr f) in
      sbind (sget (\<lambda>b. case imap_get (bk_positions b) hk of Some p \<Rightarrow> (ps_qty p, ps_avg p) | None \<Rightarrow> (ZERO, ZERO))) (\<lambda>(quantity, average).
      sbind (slift (if vf_side f = Buy then Ok (vf_quantity f) else dneg (vf_quantity f))) (\<lambda>change.
      sbind (slift (dadd quantity change)) (\<lambda>updated.
      sbind (slift (updated_average quantity average change updated (vf_price f))) (\<lambda>avg.
      smod (\<lambda>b. b\<lparr>bk_positions := imap_put (bk_positions b) hk
        \<lparr>ps_instr = vf_instr f, ps_qty = updated, ps_avg = avg, ps_as_of = vf_filled_at f\<rparr>\<rparr>))))))"

text \<open>What an exit may fill: no more than its entry has open, no more than the position it closes.\<close>

definition exit_quantity :: "vorder \<Rightarrow> money \<Rightarrow> book \<Rightarrow> money lres" where
  "exit_quantity ord quantity b =
     (case vo_parent ord of
        None \<Rightarrow> Ok quantity
      | Some parent \<Rightarrow>
          and_then (bracket_open_quantity parent b) (\<lambda>op.
          let q1 = dmin quantity op;
              position = (case imap_get (bk_positions b) (instr_hk (vo_instr ord)) of Some p \<Rightarrow> ps_qty p | None \<Rightarrow> ZERO);
              closes = (pos0 position \<and> vo_side ord = Sell \<or> money_lt position ZERO \<and> vo_side ord = Buy)
          in and_then (if closes then map_err derr (money_abs position) else Ok ZERO) (\<lambda>available. Ok (dmin q1 available))))"

definition fill_suffix :: string where "fill_suffix = '':fill:''"

definition sim_fill :: "nat \<Rightarrow> money \<Rightarrow> ts \<Rightarrow> (book, nat option) sm" where
  "sim_fill i price att =
     sbind (sget (order_at i)) (\<lambda>w.
       if \<not> is_working (wk_state w) then sret None
       else let ord = wk_order w in
         sbind (slift (dsub (vo_quantity ord) (wk_filled w))) (\<lambda>q0.
         sbind (sread (exit_quantity ord q0)) (\<lambda>quantity.
         if vo_parent ord \<noteq> None \<and> money_eq quantity ZERO then sret None
         else
           sbind (sget (\<lambda>b. (case imap_get (bk_fill_counts b) (vo_id ord) of Some n \<Rightarrow> n | None \<Rightarrow> 0) + 1)) (\<lambda>n.
           sbind (smod (\<lambda>b. b\<lparr>bk_fill_counts := imap_put (bk_fill_counts b) (vo_id ord) n\<rparr>)) (\<lambda>_.
           if money_le quantity ZERO then sfail ''value'' ''VenueFill quantity must be strictly positive''
           else if money_le price ZERO then sfail ''value'' ''VenueFill price must be strictly positive (I5)''
           else
             let f = \<lparr>vf_fill_id = vo_id ord @ fill_suffix @ nat_to_string n, vf_order_id = vo_id ord, vf_instr = vo_instr ord,
                      vf_quantity = quantity, vf_price = price, vf_filled_at = att, vf_side = vo_side ord, vf_src = None\<rparr> in
             sbind (smod (\<lambda>b. b\<lparr>bk_fills := bk_fills b @ [f]\<rparr>)) (\<lambda>_.
             sbind (slift (dadd (wk_filled w) quantity)) (\<lambda>filled.
             sbind (upd_order i (\<lambda>w. w\<lparr>wk_filled := filled,
               wk_state := (if money_eq filled (vo_quantity ord) then Filled else PartiallyFilled), wk_updated_at := att\<rparr>)) (\<lambda>_.
             sbind (update_position f) (\<lambda>_. sget (\<lambda>b. Some (length (bk_fills b) - 1)))))))))))"

subsection \<open>Expiry and exits\<close>

definition expire_one :: "externals \<Rightarrow> tables \<Rightarrow> ts \<Rightarrow> nat \<Rightarrow> (book, unit) sm" where
  "expire_one x tb t i =
     sbind (sget (order_at i)) (\<lambda>w.
       if \<not> is_working (wk_state w) then sret ()
       else sbind (sread (\<lambda>b. has_expired x tb b (wk_order w) t)) (\<lambda>ex.
         if \<not> ex then sret ()
         else sbind (sread (\<lambda>b. expiry_instant x tb b (wk_order w))) (\<lambda>o'.
           case o' of
             None \<Rightarrow> sfail ''sim'' ''Expired order has no expiry instant''
           | Some due \<Rightarrow>
               sbind (slift (if vo_tif (wk_order w) = Opg then Ok due else add_seconds x due (- 60))) (\<lambda>last_chance.
               sbind (sget (\<lambda>b. imap_get (bk_last_bars b) (instr_hk (vo_instr (wk_order w))))) (\<lambda>br.
               case br of
                 None \<Rightarrow> sret ()
               | Some l \<Rightarrow>
                   if ts_lt x (br_ts l) last_chance then sret ()
                   else upd_order i (\<lambda>w. w\<lparr>wk_state := Expired, wk_updated_at := due\<rparr>))))))"

definition expire_due :: "externals \<Rightarrow> tables \<Rightarrow> (book \<times> clock, unit) sm" where
  "expire_due x tb = sbind (now x) (\<lambda>t. on_book (\<lambda>b. sfor (expire_one x tb t) [0..<length (bk_orders b)] b))"

definition latest_fill_of :: "externals \<Rightarrow> string \<Rightarrow> book \<Rightarrow> ts option" where
  "latest_fill_of x parent b =
     fold (\<lambda>f acc. if vf_order_id f = parent
                   then Some (case acc of None \<Rightarrow> vf_filled_at f | Some m \<Rightarrow> ts_max x m (vf_filled_at f)) else acc)
       (bk_fills b) None"

definition late_exit_reason :: "externals \<Rightarrow> vorder \<Rightarrow> book \<Rightarrow> string option" where
  "late_exit_reason x ord b =
     (case vo_parent ord of
        None \<Rightarrow> None
      | Some parent \<Rightarrow>
          if vo_otype ord = Market then None
          else case (latest_fill_of x parent b, imap_get (bk_last_bars b) (instr_hk (vo_instr ord))) of
                 (Some entry, Some br) \<Rightarrow>
                   if ts_le x (br_ts br) entry then None
                   else Some ''Exit arrived after bars following entry were simulated; reconcile after every bar''
               | _ \<Rightarrow> None)"

definition entry_price_of :: "externals \<Rightarrow> string \<Rightarrow> ts \<Rightarrow> book \<Rightarrow> money option" where
  "entry_price_of x parent t b =
     (let fs = filter (\<lambda>f. vf_order_id f = parent \<and> ts_eq x (vf_filled_at f) t) (bk_fills b) in
      if fs = [] then None else Some (vf_price (last fs)))"

definition entry_stop_base :: "vorder \<Rightarrow> bar \<Rightarrow> money \<Rightarrow> money \<Rightarrow> money option" where
  "entry_stop_base ord br stop entry_price =
     (if vo_side ord = Sell then
        (if money_lt stop (br_low br) then None else Some (dmin stop entry_price))
      else
        (if money_lt (br_high br) stop then None else Some (dmax stop entry_price)))"

definition fill_stop_inside_entry_bar :: "externals \<Rightarrow> tables \<Rightarrow> nat \<Rightarrow> (book, unit) sm" where
  "fill_stop_inside_entry_bar x tb i =
     sbind (sget (\<lambda>b. wk_order (order_at i b))) (\<lambda>ord.
       case vo_parent ord of
         None \<Rightarrow> sret ()
       | Some parent \<Rightarrow>
           if vo_otype ord \<noteq> Stop then sret ()
           else sbind (sget (\<lambda>b. imap_get (bk_last_bars b) (instr_hk (vo_instr ord)))) (\<lambda>o'.
             case o' of
               None \<Rightarrow> sret ()
             | Some br \<Rightarrow>
                 sbind (sread (\<lambda>b. is_regular_session_bar x tb b br)) (\<lambda>regular.
                 if \<not> regular then sret ()
                 else sbind (sget (entry_price_of x parent (br_ts br))) (\<lambda>ep.
                   case (ep, vo_stop ord) of
                     (Some entry_price, Some stop) \<Rightarrow>
                       (case entry_stop_base ord br stop entry_price of
                          None \<Rightarrow> sret ()
                        | Some base \<Rightarrow>
                            sbind (sread (\<lambda>b. slipped_price b base ord)) (\<lambda>price.
                            sbind (sim_fill i price (br_ts br)) (\<lambda>_. sret ())))
                   | _ \<Rightarrow> sret ()))))"

subsection \<open>Bars\<close>

type_synonym prio = "bool \<times> bool \<times> (nat \<times> nat list) \<times> nat list"

definition oco_priority :: "book \<Rightarrow> nat \<Rightarrow> prio" where
  "oco_priority b i =
     (let ord = wk_order (order_at i b) in
      if vo_otype ord = Stop then (False, False, (0, []), utext (vo_id ord))
      else let soid = al_soid (hd (vo_allocs ord)); (prefix, sep, suffix) = rpartition soid '':target:'' in
        if sep \<and> prefix \<noteq> [] \<and> ascii_decimal suffix then (True, False, int_key suffix, utext soid)
        else (True, True, (0, []), utext (vo_id ord)))"

definition fill_all :: "ts \<Rightarrow> (nat \<times> money) list \<Rightarrow> (book, nat list) sm" where
  "fill_all t cs = scollect (\<lambda>(i, price). sim_fill i price t) cs"

text \<open>Of the orders of a group that the bar reaches, a stop alone, or all by priority.\<close>

definition oco_selected :: "book \<Rightarrow> (nat \<times> money) list \<Rightarrow> (nat \<times> money) list" where
  "oco_selected b choices =
     (let cs = sort_key (\<lambda>(i, p). oco_priority b i) choices in
      case find (\<lambda>(i, p). vo_otype (wk_order (order_at i b)) = Stop) cs of
        Some c \<Rightarrow> [c]
      | None \<Rightarrow> cs)"

definition group_of :: "book \<Rightarrow> nat \<times> money \<Rightarrow> string option" where
  "group_of b c = vo_oco (wk_order (order_at (fst c) b))"

definition groups_in_order :: "book \<Rightarrow> (nat \<times> money) list \<Rightarrow> string list" where
  "groups_in_order b cs = sort_key utext (remdups (List.map_filter (group_of b) cs))"

fun fill_groups :: "ts \<Rightarrow> (nat \<times> money) list list \<Rightarrow> (book, nat list) sm" where
  "fill_groups t [] = sret []"
| "fill_groups t (g # gs) =
     sbind (sget (\<lambda>b. oco_selected b g)) (\<lambda>sel.
     sbind (fill_all t sel) (\<lambda>fs. sbind (fill_groups t gs) (\<lambda>rest. sret (fs @ rest))))"

definition expire_on_bar :: "externals \<Rightarrow> tables \<Rightarrow> bar \<Rightarrow> nat \<Rightarrow> (book, unit) sm" where
  "expire_on_bar x tb br i =
     sbind (sget (order_at i)) (\<lambda>w.
       if \<not> (instr_same (vo_instr (wk_order w)) (br_instr br) \<and> is_working (wk_state w)) then sret ()
       else sbind (sread (\<lambda>b. has_expired x tb b (wk_order w) (br_ts br))) (\<lambda>ex.
         if ex then upd_order i (\<lambda>w. w\<lparr>wk_state := Expired, wk_updated_at := br_ts br\<rparr>) else sret ()))"

definition active_orders :: "bar \<Rightarrow> book \<Rightarrow> nat list" where
  "active_orders br b =
     filter (\<lambda>i. let w = order_at i b in
         instr_same (vo_instr (wk_order w)) (br_instr br) \<and> is_working (wk_state w)
         \<and> money_lt (wk_filled w) (vo_quantity (wk_order w))) [0..<length (bk_orders b)]"

definition candidates :: "externals \<Rightarrow> tables \<Rightarrow> bar \<Rightarrow> nat list \<Rightarrow> (book, (nat \<times> money) list) sm" where
  "candidates x tb br = scollect (\<lambda>i. sbind (execution_price x tb i br) (\<lambda>o'. sret (map_option (Pair i) o')))"

definition put_bar :: "bar \<Rightarrow> (book, unit) sm" where
  "put_bar br = smod (\<lambda>b. b\<lparr>bk_last_bars := imap_put (bk_last_bars b) (instr_hk (br_instr br)) br\<rparr>)"

definition match_bar :: "externals \<Rightarrow> tables \<Rightarrow> bar \<Rightarrow> (book, nat list) sm" where
  "match_bar x tb br =
     sbind (\<lambda>b. sfor (expire_on_bar x tb br) [0..<length (bk_orders b)] b) (\<lambda>_.
     sbind (sread (\<lambda>b. is_regular_session_bar x tb b br)) (\<lambda>regular.
     if \<not> regular then sbind (put_bar br) (\<lambda>_. sret [])
     else
       sbind (sget (active_orders br)) (\<lambda>active.
       sbind (candidates x tb br active) (\<lambda>cs.
       sbind (sget (\<lambda>b. (filter (\<lambda>c. group_of b c = None) cs,
                map (\<lambda>g. filter (\<lambda>c. group_of b c = Some g) cs) (groups_in_order b cs)))) (\<lambda>(standalone, by_group).
       sbind (fill_all (br_ts br) standalone) (\<lambda>out1.
       sbind (fill_groups (br_ts br) by_group) (\<lambda>out2.
       sbind (put_bar br) (\<lambda>_. sret (out1 @ out2)))))))))"

definition check_bar :: "bar \<Rightarrow> book \<Rightarrow> unit lres" where
  "check_bar br b =
     (if bk_venue b = Xnys \<and> \<not> is_equity (br_instr br) then lerr ''value'' ''SimBroker supports equities only''
      else if bk_venue b = Globex \<and> \<not> is_future (br_instr br) then lerr ''value'' ''SimBroker supports futures only''
      else if off_minute (br_ts br) then lerr ''value'' ''SimBroker requires minute-aligned bar timestamps''
      else Ok ())"

definition process_bar :: "externals \<Rightarrow> tables \<Rightarrow> bar option \<Rightarrow> (book, nat list) sm" where
  "process_bar x tb bo =
     sbind (sread require_connected) (\<lambda>_.
     case bo of
       None \<Rightarrow> sfail ''missing_bar'' ''Cannot simulate fills without an observed bar''
     | Some br \<Rightarrow>
         sbind (sread (check_bar br)) (\<lambda>_.
         sbind (sget (\<lambda>b. imap_get (bk_last_bars b) (instr_hk (br_instr br)))) (\<lambda>previous.
         case previous of
           Some p \<Rightarrow>
             if ts_eq x (br_ts br) (br_ts p) then
               (if \<not> bar_same x br p then sfail ''value'' ''Conflicting bars share the same instrument and timestamp'' else sret [])
             else sbind (sread (check_bar_sequence x tb br)) (\<lambda>_. match_bar x tb br)
         | None \<Rightarrow> sbind (sread (check_bar_sequence x tb br)) (\<lambda>_. match_bar x tb br))))"

subsection \<open>The commands of the host\<close>

definition connect :: "externals \<Rightarrow> (book \<times> clock, ts) sm" where
  "connect x = sbind (on_book (smod (\<lambda>b. b\<lparr>bk_connected := True\<rparr>))) (\<lambda>_. now x)"

definition add_order :: "vorder \<Rightarrow> order_state \<Rightarrow> ts \<Rightarrow> (book, nat) sm" where
  "add_order ord st t = sbind (sget (\<lambda>b. length (bk_orders b))) (\<lambda>n.
     sbind (smod (\<lambda>b. b\<lparr>bk_index := imap_put (bk_index b) (vo_id ord) n,
       bk_orders := bk_orders b @ [\<lparr>wk_order = ord, wk_state = st, wk_filled = ZERO, wk_updated_at = t, wk_triggered = False\<rparr>]\<rparr>))
     (\<lambda>_. sret n))"

definition submit :: "externals \<Rightarrow> tables \<Rightarrow> vorder \<Rightarrow> (book \<times> clock, ack) sm" where
  "submit x tb ord =
     sbind (on_book (sread require_connected)) (\<lambda>_.
     sbind (expire_due x tb) (\<lambda>_.
     sbind (on_book (sread (sim_validate ord))) (\<lambda>_.
     sbind (on_book (sget (\<lambda>b. map_option (\<lambda>i. order_at i b) (imap_get (bk_index b) (vo_id ord))))) (\<lambda>existing.
     case existing of
       Some w \<Rightarrow>
         if \<not> vorder_same x (wk_order w) ord then sfail ''sim'' ''venue_order_id was reused with different terms''
         else if wk_state w = Cancelled then mk_ack x (vo_id ord) ''REJECTED'' (Some ''Order is already cancelled'')
         else if wk_state w = Rejected then mk_ack x (vo_id ord) ''REJECTED'' (Some ''Order was rejected'')
         else mk_ack x (vo_id ord) ''ACCEPTED'' None
     | None \<Rightarrow>
         sbind (now x) (\<lambda>t.
         sbind (on_book (sget (late_exit_reason x ord))) (\<lambda>late.
         sbind (on_book (add_order ord (if late = None then Accepted else Rejected) t)) (\<lambda>n.
         if late \<noteq> None then mk_ack x (vo_id ord) ''REJECTED'' late
         else sbind (on_book (fill_stop_inside_entry_bar x tb n)) (\<lambda>_. mk_ack x (vo_id ord) ''ACCEPTED'' None))))))))"

definition cancel :: "externals \<Rightarrow> tables \<Rightarrow> string \<Rightarrow> (book \<times> clock, ack) sm" where
  "cancel x tb oid =
     sbind (expire_due x tb) (\<lambda>_.
     sbind (on_book (sread (require_order oid))) (\<lambda>i.
     sbind (on_book (sget (\<lambda>b. wk_state (order_at i b)))) (\<lambda>st.
     if st = Cancelled then mk_ack x oid ''ACCEPTED'' None
     else if st \<in> {Filled, Expired, Rejected} then mk_ack x oid ''REJECTED'' (Some (''Order is '' @ order_state_value st))
     else sbind (on_book (upd_order i (\<lambda>w. w\<lparr>wk_state := Cancelled\<rparr>))) (\<lambda>_.
          sbind (event_time x) (\<lambda>t.
          sbind (on_book (upd_order i (\<lambda>w. w\<lparr>wk_updated_at := t\<rparr>))) (\<lambda>_.
          mk_ack x oid ''ACCEPTED'' None))))))"

definition replace_begin :: "externals \<Rightarrow> tables \<Rightarrow> string \<Rightarrow> money option \<Rightarrow> (book \<times> clock, begin_result) sm" where
  "replace_begin x tb oid new_quantity =
     sbind (expire_due x tb) (\<lambda>_.
     sbind (on_book (sread (require_order oid))) (\<lambda>i.
     sbind (on_book (sget (order_at i))) (\<lambda>w.
     let done = (\<lambda>msg. sbind (mk_ack x oid ''REJECTED'' (Some msg)) (\<lambda>a. sret (Done a)));
         quantity = (case new_quantity of Some q \<Rightarrow> q | None \<Rightarrow> vo_quantity (wk_order w)) in
     if \<not> is_working (wk_state w) then done (''Order is '' @ order_state_value (wk_state w))
     else if money_lt quantity (wk_filled w) then done ''Replacement quantity must be finite and at least the filled quantity''
     else if money_le quantity ZERO then done ''Replacement quantity must be positive''
     else if new_quantity \<noteq> None \<and> length (vo_allocs (wk_order w)) \<noteq> 1 then done ''SimBroker requires one-to-one order allocations''
     else sret (Go quantity))))"

definition replace_reject :: "externals \<Rightarrow> string \<Rightarrow> string \<Rightarrow> (book \<times> clock, ack) sm" where
  "replace_reject x oid msg = mk_ack x oid ''REJECTED'' (Some msg)"

definition replace_commit :: "externals \<Rightarrow> string \<Rightarrow> vorder \<Rightarrow> (book \<times> clock, ack) sm" where
  "replace_commit x oid ord =
     sbind (on_book (sread (require_order oid))) (\<lambda>i.
     sbind (on_book (upd_order i (\<lambda>w. w\<lparr>wk_order := ord,
       wk_state := (if money_eq (wk_filled w) (vo_quantity ord) then Filled else wk_state w)\<rparr>))) (\<lambda>_.
     sbind (event_time x) (\<lambda>t.
     sbind (on_book (upd_order i (\<lambda>w. w\<lparr>wk_updated_at := t\<rparr>))) (\<lambda>_.
     mk_ack x oid ''ACCEPTED'' None))))"

subsection \<open>Restoring a book\<close>

definition restorable :: "order_state \<Rightarrow> bool" where
  "restorable st \<longleftrightarrow> st \<in> {Accepted, PartiallyFilled, Filled, Cancelled, Expired, Rejected}"

definition restore_order :: "externals \<Rightarrow> tables \<Rightarrow> vorder \<times> order_state \<Rightarrow> (book \<times> clock, unit) sm" where
  "restore_order x tb os =
     (let (ord, st) = os in
      if \<not> restorable st then sfail ''sim'' (''Cannot restore order in state '' @ order_state_value st)
      else
        sbind (on_book (sget (\<lambda>b. imap_get (bk_index b) (vo_id ord)))) (\<lambda>known.
        if known \<noteq> None then sfail ''sim'' ''Order restored twice''
        else
          sbind (on_book (sread (sim_validate ord))) (\<lambda>_.
          sbind
            (if vo_otype ord = StopLimit \<and> st = Accepted then
               sbind (now x) (\<lambda>first_t.
               sbind (on_book (sread (\<lambda>b. has_expired x tb b ord first_t))) (\<lambda>ex.
               if ex then sret ()
               else sbind (now x) (\<lambda>second_t.
                    sbind (on_book (sread (\<lambda>b. first_eligible_bar x tb b (vo_instr ord) (vo_submitted_at ord)))) (\<lambda>el.
                    if ts_lt x el second_t
                    then sfail ''sim'' ''Cannot restore stop-limit: bars since its submission may have triggered it''
                    else sret ()))))
             else sret ())
            (\<lambda>_. sbind (on_book (add_order ord st (vo_submitted_at ord))) (\<lambda>_. sret ())))))"

definition restore_fill :: "externals \<Rightarrow> vfill \<Rightarrow> (book, unit) sm" where
  "restore_fill x f =
     sbind (sget (\<lambda>b. imap_get (bk_index b) (vf_order_id f))) (\<lambda>o'.
     case o' of
       None \<Rightarrow> sfail ''sim'' ''Fill references unrestored order''
     | Some i \<Rightarrow>
         let (prefix, sep, number) = rpartition (vf_fill_id f) fill_suffix in
         if prefix \<noteq> vf_order_id f \<or> \<not> sep \<or> \<not> ascii_decimal number then sfail ''sim'' ''Fill id is not a SimBroker fill id''
         else sbind (sget (order_at i)) (\<lambda>w.
           if \<not> instr_same (vf_instr f) (vo_instr (wk_order w)) \<or> vf_side f \<noteq> vo_side (wk_order w)
           then sfail ''sim'' ''Fill does not match order''
           else
             let n = num number in
             if u128_limit \<le> n then sfail ''unsupported'' ''a fill number beyond u128''
             else
               sbind (smod (\<lambda>b. b\<lparr>bk_fill_counts := imap_put (bk_fill_counts b) (vf_order_id f)
                 (max (case imap_get (bk_fill_counts b) (vf_order_id f) of Some c \<Rightarrow> c | None \<Rightarrow> 0) n)\<rparr>)) (\<lambda>_.
               sbind (slift (dadd (wk_filled w) (vf_quantity f))) (\<lambda>filled.
               sbind (upd_order i (\<lambda>w. w\<lparr>wk_filled := filled, wk_updated_at := ts_max x (wk_updated_at w) (vf_filled_at f),
                 wk_triggered := True\<rparr>)) (\<lambda>_.
               smod (\<lambda>b. b\<lparr>bk_fills := bk_fills b @ [f]\<rparr>))))))"

definition restored_consistent :: "working \<Rightarrow> bool" where
  "restored_consistent w =
     (let filled = wk_filled w; quantity = vo_quantity (wk_order w) in
      case wk_state w of
        Accepted \<Rightarrow> money_eq filled ZERO
      | PartiallyFilled \<Rightarrow> pos0 filled \<and> money_lt filled quantity
      | Filled \<Rightarrow> money_eq filled quantity
      | _ \<Rightarrow> money_le filled quantity)"

definition restore_position :: "pos \<Rightarrow> (book, unit) sm" where
  "restore_position p =
     (let hk = instr_hk (ps_instr p) in
      sbind (sget (\<lambda>b. imap_get (bk_positions b) hk)) (\<lambda>known.
      if known \<noteq> None
      then sbind (slift (symbol (ps_instr p))) (\<lambda>_. sfail ''sim'' ''Position restored twice'')
      else if \<not> money_eq (ps_qty p) ZERO then smod (\<lambda>b. b\<lparr>bk_positions := imap_put (bk_positions b) hk p\<rparr>)
      else sret ()))"

definition restore :: "externals \<Rightarrow> tables \<Rightarrow> (vorder \<times> order_state) list \<Rightarrow> vfill list \<Rightarrow> pos list \<Rightarrow> (book \<times> clock, unit) sm" where
  "restore x tb orders fills positions =
     sbind (on_book (sget (\<lambda>b. bk_orders b = [] \<and> bk_fills b = [] \<and> bk_last_bars b = [] \<and> bk_positions b = []))) (\<lambda>empty.
     if \<not> empty then sfail ''sim'' ''restore() requires an empty SimBroker''
     else
       sbind (sfor (restore_order x tb) (sort_key (\<lambda>(ord, _). vo_parent ord \<noteq> None) orders)) (\<lambda>_.
       sbind (on_book (sfor (restore_fill x) (sort_key (\<lambda>f. (ts_key x (vf_filled_at f), utext (vf_fill_id f))) fills))) (\<lambda>_.
       sbind (on_book (sread (\<lambda>b. if list_all restored_consistent (bk_orders b) then Ok ()
                                  else lerr ''sim'' ''Order is inconsistent with its filled quantity''))) (\<lambda>_.
       on_book (sfor restore_position positions)))))"

subsection \<open>Reading the book\<close>

definition orders_since :: "externals \<Rightarrow> tables \<Rightarrow> string
    \<Rightarrow> (book \<times> clock, (string \<times> order_state \<times> money \<times> money \<times> ts) list) sm" where
  "orders_since x tb since =
     sbind (slift (ts_aware x since)) (\<lambda>from.
     sbind (expire_due x tb) (\<lambda>_.
     on_book (sread (\<lambda>b. map_r (\<lambda>(oid, i). let w = order_at i b in
         and_then (dsub (vo_quantity (wk_order w)) (wk_filled w)) (\<lambda>rest. Ok (oid, wk_state w, wk_filled w, rest, wk_updated_at w)))
       (filter (\<lambda>(oid, i). ts_le x from (wk_updated_at (order_at i b))) (sort_key (\<lambda>(oid, i). utext oid) (bk_index b)))))))"

definition fills_since :: "externals \<Rightarrow> tables \<Rightarrow> string \<Rightarrow> (book \<times> clock, nat list) sm" where
  "fills_since x tb since =
     sbind (slift (ts_aware x since)) (\<lambda>from.
     sbind (expire_due x tb) (\<lambda>_.
     on_book (sget (\<lambda>b. filter (\<lambda>i. ts_le x from (vf_filled_at (bk_fills b ! i))) [0..<length (bk_fills b)]))))"

definition open_positions :: "externals \<Rightarrow> tables \<Rightarrow> (book \<times> clock, pos list) sm" where
  "open_positions x tb =
     sbind (expire_due x tb) (\<lambda>_.
     on_book (sread (\<lambda>b. and_then (map_r (\<lambda>(k, p). and_then (symbol (ps_instr p)) (\<lambda>s. Ok (s, p))) (bk_positions b)) (\<lambda>keyed.
       Ok (filter (\<lambda>p. \<not> money_eq (ps_qty p) ZERO) (map snd (sort_key (\<lambda>(s, p). utext s) keyed)))))))"

definition cash_events :: "externals \<Rightarrow> string \<Rightarrow> unit lres" where
  "cash_events x since = and_then (ts_aware x since) (\<lambda>_. Ok ())"

end
