(* ===== verification/Sim_Inv.thy ===== *)
theory Sim_Inv
  imports Sim_Broker Rounding
begin

section \<open>What the simulated broker keeps\<close>

text \<open>
  Rules for operations of the shape \<open>sm\<close>: their equations, and the interface \<open>run_relation\<close> by which a
  relation between the value before and after that holds of the pieces of an operation holds of the whole,
  refusals included. The relation \<open>grows\<close> (the history of the book is never rewritten) is one such relation,
  the invariants of the later theories are others.
\<close>

subsection \<open>Equations\<close>

named_theorems sm_simps "equations of state and refusal"

lemma sret_apply [sm_simps]: "sret a s = (Ok a, s)" by (simp add: sret_def)
lemma slift_apply [sm_simps]: "slift r s = (r, s)" by (simp add: slift_def)
lemma sfail_apply [sm_simps]: "sfail k m s = (lerr k m, s)" by (simp add: sfail_def slift_def)
lemma sget_apply [sm_simps]: "sget f s = (Ok (f s), s)" by (simp add: sget_def)
lemma sread_apply [sm_simps]: "sread f s = (f s, s)" by (simp add: sread_def)
lemma smod_apply [sm_simps]: "smod f s = (Ok (), f s)" by (simp add: smod_def)
lemma sbind_sret [sm_simps]: "sbind (sret a) f s = f a s" by (simp add: sbind_def sret_def)
lemma sbind_sget [sm_simps]: "sbind (sget g) f s = f (g s) s" by (simp add: sbind_def sget_def)
lemma sbind_smod [sm_simps]: "sbind (smod g) f s = f () (g s)" by (simp add: sbind_def smod_def)
lemma sbind_slift [sm_simps]: "sbind (slift r) f s = (case r of Ok a \<Rightarrow> f a s | Err e \<Rightarrow> (Err e, s))"
  by (simp add: sbind_def slift_def split: result.splits)
lemma sbind_sread [sm_simps]: "sbind (sread g) f s = (case g s of Ok a \<Rightarrow> f a s | Err e \<Rightarrow> (Err e, s))"
  by (simp add: sbind_def sread_def split: result.splits)
lemma sbind_assoc [sm_simps]: "sbind (sbind m f) g s = sbind m (\<lambda>a. sbind (f a) g) s"
  by (simp add: sbind_def split: prod.splits result.splits)
lemma sbind_sfail [sm_simps]: "sbind (sfail k m) f s = (lerr k m, s)"
  by (simp add: sfail_def sbind_slift lerr_def)

lemma upd_order_eq: "upd_order i f = smod (\<lambda>b. b\<lparr>bk_orders := (bk_orders b)[i := f (bk_orders b ! i)]\<rparr>)"
  by (simp add: upd_order_def)

lemma sbind_Ok:
  "sbind m f s = (Ok c, s') \<longleftrightarrow> (\<exists>a t. m s = (Ok a, t) \<and> f a t = (Ok c, s'))"
  by (auto simp: sbind_def split: prod.splits result.splits)

lemma imap_get_put [simp]: "imap_get (imap_put m k v) j = (if j = k then Some v else imap_get m j)"
  by (induction m k v rule: imap_put.induct) (auto simp: imap_get_def)

subsection \<open>Relations along a run\<close>

definition steps :: "('s \<Rightarrow> 's \<Rightarrow> bool) \<Rightarrow> ('s, 'a) sm \<Rightarrow> bool" where
  "steps R m \<longleftrightarrow> (\<forall>s. R s (snd (m s)))"

lemma stepsD: "steps R m \<Longrightarrow> R s (snd (m s))"
  by (simp add: steps_def)

locale run_relation =
  fixes R :: "'s \<Rightarrow> 's \<Rightarrow> bool"
  assumes refl: "R s s" and trans: "R a b \<Longrightarrow> R b c \<Longrightarrow> R a c"
begin

lemma steps_sret: "steps R (sret a)"
  by (simp add: steps_def sret_def refl)

lemma steps_slift: "steps R (slift r)"
  by (simp add: steps_def slift_def refl)

lemma steps_sfail: "steps R (sfail k m)"
  by (simp add: steps_def sfail_def slift_def refl)

lemma steps_sget: "steps R (sget f)"
  by (simp add: steps_def sget_def refl)

lemma steps_sread: "steps R (sread f)"
  by (simp add: steps_def sread_def refl)

lemma steps_sbind:
  assumes "steps R m" "\<And>a. steps R (f a)"
  shows "steps R (sbind m f)"
  unfolding steps_def
proof
  fix s
  obtain r t where m: "m s = (r, t)" by fastforce
  have "R s t" using stepsD [OF assms(1), of s] m by simp
  then show "R s (snd (sbind m f s))"
    using m trans stepsD [OF assms(2)] by (cases r) (auto simp: sbind_def)
qed

lemma steps_sfor: "(\<And>a. a \<in> set as \<Longrightarrow> steps R (f a)) \<Longrightarrow> steps R (sfor f as)"
  by (induction as) (auto intro: steps_sret steps_sbind)

lemma steps_scollect: "(\<And>a. a \<in> set as \<Longrightarrow> steps R (f a)) \<Longrightarrow> steps R (scollect f as)"
  by (induction as) (auto intro: steps_sret steps_sbind)

lemmas steps_basic = steps_sret steps_slift steps_sfail steps_sget steps_sread

end

text \<open>The clock does not count.\<close>

definition on_fst :: "('b \<Rightarrow> 'b \<Rightarrow> bool) \<Rightarrow> 'b \<times> 'c \<Rightarrow> 'b \<times> 'c \<Rightarrow> bool" where
  "on_fst R p q \<longleftrightarrow> R (fst p) (fst q)"

lemma steps_on_book: "steps R m \<Longrightarrow> steps (on_fst R) (on_book m)"
  by (auto simp: steps_def on_fst_def on_book_def split: prod.splits) (metis snd_conv)

lemma on_fst_run: "run_relation R \<Longrightarrow> run_relation (on_fst R)"
  unfolding run_relation_def on_fst_def by blast

lemma steps_now: "run_relation R \<Longrightarrow> steps (on_fst R) (now x)"
  by (auto simp: steps_def now_def on_fst_def run_relation_def)

subsection \<open>History\<close>

definition ended :: "order_state \<Rightarrow> bool" where
  "ended st \<longleftrightarrow> st \<in> {Filled, Cancelled, Expired, Rejected}"

definition order_moves :: "working \<Rightarrow> working \<Rightarrow> bool" where
  "order_moves w w' \<longleftrightarrow> wk_order w' = wk_order w
     \<and> (ended (wk_state w) \<longrightarrow> wk_state w' = wk_state w \<and> wk_filled w' = wk_filled w)
     \<and> (wk_triggered w \<longrightarrow> wk_triggered w')"

definition grows :: "book \<Rightarrow> book \<Rightarrow> bool" where
  "grows b b' \<longleftrightarrow>
     (\<exists>new. bk_fills b' = bk_fills b @ new)
     \<and> length (bk_orders b) \<le> length (bk_orders b')
     \<and> (\<forall>i < length (bk_orders b). order_moves (bk_orders b ! i) (bk_orders b' ! i))
     \<and> (bk_account_id b', bk_venue b', bk_bps b', bk_slippage_ticks b')
       = (bk_account_id b, bk_venue b, bk_bps b, bk_slippage_ticks b)"

lemma order_moves_refl [simp]: "order_moves w w"
  by (simp add: order_moves_def)

lemma order_moves_trans: "order_moves a b \<Longrightarrow> order_moves b c \<Longrightarrow> order_moves a c"
  by (auto simp: order_moves_def)

interpretation grows: run_relation grows
proof
  show "grows b b" for b by (simp add: grows_def)
  show "grows a c" if ab: "grows a b" and bc: "grows b c" for a b c
    using ab bc order_moves_trans unfolding grows_def by (auto intro: order_moves_trans)
qed

lemma upd_nth: "j < length xs \<Longrightarrow> xs[i := w] ! j = (if i = j then w else xs ! j)"
  by (cases "i = j") simp_all

lemma grows_orders:
  "order_moves (bk_orders b ! i) w \<Longrightarrow> grows b (b\<lparr>bk_orders := (bk_orders b)[i := w]\<rparr>)"
  by (auto simp: grows_def upd_nth)

lemma grows_fields [simp]:
  "grows b (b\<lparr>bk_fill_counts := c\<rparr>)" "grows b (b\<lparr>bk_last_bars := l\<rparr>)" "grows b (b\<lparr>bk_positions := p\<rparr>)"
  "grows b (b\<lparr>bk_connected := d\<rparr>)" "grows b (b\<lparr>bk_fills := bk_fills b @ fs\<rparr>)"
  by (simp_all add: grows_def)

lemma steps_grows_smod: "(\<And>b. grows b (f b)) \<Longrightarrow> steps grows (smod f)"
  by (simp add: steps_def smod_def)

lemma steps_grows_upd: "(\<And>w. order_moves w (f w)) \<Longrightarrow> steps grows (upd_order i f)"
  unfolding upd_order_def by (intro steps_grows_smod grows_orders)

lemmas grows_rules = grows.steps_basic grows.steps_sbind grows.steps_sfor grows.steps_scollect
  steps_grows_smod steps_grows_upd

text \<open>An update that depends on the order as it is.\<close>

lemma steps_grows_at:
  "(\<And>b. grows b (snd (m (order_at i b) b))) \<Longrightarrow> steps grows (sbind (sget (order_at i)) m)"
  by (simp add: steps_def sm_simps)

lemma snd_case_result: "snd (case r of Ok a \<Rightarrow> f a | Err e \<Rightarrow> (Err e, s)) = (case r of Ok a \<Rightarrow> snd (f a) | Err e \<Rightarrow> s)"
  by (cases r) auto

lemma grows_expire:
  "is_working (wk_state (order_at i b)) \<Longrightarrow> grows b (b\<lparr>bk_orders := (bk_orders b)[i := (bk_orders b ! i)\<lparr>wk_state := Expired, wk_updated_at := t\<rparr>]\<rparr>)"
  by (rule grows_orders) (auto simp: order_moves_def is_working_def ended_def order_at_def)

lemma expire_one_grows: "steps grows (expire_one x tb t i)"
  unfolding expire_one_def by (rule steps_grows_at)
    (use grows_expire [of i] in \<open>auto simp: sm_simps upd_order_eq snd_case_result grows.refl split: result.splits option.splits\<close>)

lemma expire_on_bar_grows: "steps grows (expire_on_bar x tb br i)"
  unfolding expire_on_bar_def by (rule steps_grows_at)
    (use grows_expire [of i] in \<open>auto simp: sm_simps upd_order_eq snd_case_result grows.refl split: result.splits\<close>)

subsection \<open>A fill\<close>

definition next_number :: "book \<Rightarrow> string \<Rightarrow> nat" where
  "next_number b oid = (case imap_get (bk_fill_counts b) oid of Some n \<Rightarrow> n | None \<Rightarrow> 0) + 1"

definition new_fill :: "book \<Rightarrow> vorder \<Rightarrow> money \<Rightarrow> money \<Rightarrow> ts \<Rightarrow> vfill" where
  "new_fill b ord q price t = \<lparr>vf_fill_id = vo_id ord @ fill_suffix @ nat_to_string (next_number b (vo_id ord)), vf_order_id = vo_id ord,
     vf_instr = vo_instr ord, vf_quantity = q, vf_price = price, vf_filled_at = t, vf_side = vo_side ord, vf_src = None\<rparr>"

definition counted :: "book \<Rightarrow> string \<Rightarrow> book" where
  "counted b oid = b\<lparr>bk_fill_counts := imap_put (bk_fill_counts b) oid (next_number b oid)\<rparr>"

definition filled_working :: "working \<Rightarrow> money \<Rightarrow> ts \<Rightarrow> working" where
  "filled_working w filled t = w\<lparr>wk_filled := filled,
     wk_state := (if money_eq filled (vo_quantity (wk_order w)) then Filled else PartiallyFilled), wk_updated_at := t\<rparr>"

text \<open>The fill has been made: it is booked, or the addition to the filled quantity refused after it.\<close>

definition fill_made :: "nat \<Rightarrow> money \<Rightarrow> ts \<Rightarrow> book \<Rightarrow> money \<Rightarrow> bool" where
  "fill_made i price t b q \<longleftrightarrow>
     is_working (wk_state (order_at i b))
     \<and> (\<exists>q0. dsub (vo_quantity (wk_order (order_at i b))) (wk_filled (order_at i b)) = Ok q0
          \<and> exit_quantity (wk_order (order_at i b)) q0 b = Ok q)
     \<and> 0 < mval q \<and> 0 < mval price"

definition repositions :: "book \<Rightarrow> book \<Rightarrow> bool" where
  "repositions b b' \<longleftrightarrow> (\<exists>p. b' = b\<lparr>bk_positions := p\<rparr>)"

interpretation posn: run_relation repositions
proof
  show "repositions b b" for b unfolding repositions_def by (rule exI [of _ "bk_positions b"]) simp
  show "repositions a b \<Longrightarrow> repositions b c \<Longrightarrow> repositions a c" for a b c by (auto simp: repositions_def)
qed

lemma update_position_only: "\<exists>p. snd (update_position f b) = b\<lparr>bk_positions := p\<rparr>"
proof -
  have "steps repositions (smod (\<lambda>b. b\<lparr>bk_positions := g b\<rparr>))" for g by (auto simp: steps_def smod_def repositions_def)
  then have "steps repositions (update_position f)" unfolding update_position_def Let_def
    by (auto intro!: posn.steps_sbind posn.steps_basic split: prod.splits)
  from stepsD [OF this, of b] show ?thesis by (simp add: repositions_def)
qed

lemma update_position_reads:
  assumes "bk_positions d = bk_positions b"
  shows "fst (update_position f d) = fst (update_position f b) \<and> bk_positions (snd (update_position f d)) = bk_positions (snd (update_position f b))"
  using assms by (auto simp: update_position_def Let_def sm_simps split: result.splits option.splits)

lemma sim_fill_eq:
  "sim_fill i price t b =
     (let w = order_at i b; ord = wk_order w; c = counted b (vo_id ord) in
      if \<not> is_working (wk_state w) then (Ok None, b)
      else case dsub (vo_quantity ord) (wk_filled w) of
        Err e \<Rightarrow> (Err e, b)
      | Ok q0 \<Rightarrow>
          (case exit_quantity ord q0 b of
             Err e \<Rightarrow> (Err e, b)
           | Ok q \<Rightarrow>
               if vo_parent ord \<noteq> None \<and> mval q = 0 then (Ok None, b)
               else if mval q \<le> 0 then (lerr ''value'' ''VenueFill quantity must be strictly positive'', c)
               else if mval price \<le> 0 then (lerr ''value'' ''VenueFill price must be strictly positive (I5)'', c)
               else let f = new_fill b ord q price t; d = c\<lparr>bk_fills := bk_fills b @ [f]\<rparr> in
                 case dadd (wk_filled w) q of
                   Err e \<Rightarrow> (Err e, d)
                 | Ok filled \<Rightarrow>
                     (case update_position f (d\<lparr>bk_orders := (bk_orders b)[i := filled_working w filled t]\<rparr>) of
                        (Ok _, g) \<Rightarrow> (Ok (Some (length (bk_fills g) - 1)), g)
                      | (Err e, g) \<Rightarrow> (Err e, g))))"
proof -
  have "sbind (update_position f) (\<lambda>_. sget (\<lambda>b. Some (length (bk_fills b) - 1))) s
    = (case update_position f s of (Ok _, g) \<Rightarrow> (Ok (Some (length (bk_fills g) - 1)), g) | (Err e, g) \<Rightarrow> (Err e, g))" for f s
    by (simp only: sbind_def sget_def)
  then show ?thesis
    by (auto simp: sim_fill_def sm_simps Let_def counted_def new_fill_def next_number_def filled_working_def upd_order_eq order_at_def
        split: result.splits)
qed

lemma sim_fill_cases:
  obtains (none) "snd (sim_fill i price t b) = b" "\<And>n. fst (sim_fill i price t b) \<noteq> Ok (Some n)"
  | (refused) e where "snd (sim_fill i price t b) = counted b (vo_id (wk_order (order_at i b)))" "fst (sim_fill i price t b) = Err e"
  | (broken) q e where "fill_made i price t b q" "dadd (wk_filled (order_at i b)) q = Err e"
      "snd (sim_fill i price t b) = (counted b (vo_id (wk_order (order_at i b))))
        \<lparr>bk_fills := bk_fills b @ [new_fill b (wk_order (order_at i b)) q price t]\<rparr>" "fst (sim_fill i price t b) = Err e"
  | (booked) q filled p where "fill_made i price t b q" "dadd (wk_filled (order_at i b)) q = Ok filled"
      "snd (sim_fill i price t b) = (counted b (vo_id (wk_order (order_at i b))))
        \<lparr>bk_fills := bk_fills b @ [new_fill b (wk_order (order_at i b)) q price t],
         bk_orders := (bk_orders b)[i := filled_working (order_at i b) filled t], bk_positions := p\<rparr>"
      "\<And>r. fst (sim_fill i price t b) = Ok r \<Longrightarrow> r = Some (length (bk_fills b))"
      "p = bk_positions (snd (update_position (new_fill b (wk_order (order_at i b)) q price t) b))"
      "is_ok (fst (sim_fill i price t b)) \<longleftrightarrow> is_ok (fst (update_position (new_fill b (wk_order (order_at i b)) q price t) b))"
proof -
  let ?w = "order_at i b"
  let ?c = "counted b (vo_id (wk_order ?w))"
  consider (idle) "\<not> is_working (wk_state ?w)"
    | (sub) e where "is_working (wk_state ?w)" "dsub (vo_quantity (wk_order ?w)) (wk_filled ?w) = Err e"
    | (exit) q0 e where "is_working (wk_state ?w)" "dsub (vo_quantity (wk_order ?w)) (wk_filled ?w) = Ok q0" "exit_quantity (wk_order ?w) q0 b = Err e"
    | (qty) q0 q where "is_working (wk_state ?w)" "dsub (vo_quantity (wk_order ?w)) (wk_filled ?w) = Ok q0" "exit_quantity (wk_order ?w) q0 b = Ok q"
    by (cases "is_working (wk_state ?w)"; cases "dsub (vo_quantity (wk_order ?w)) (wk_filled ?w)") (auto, meson result.exhaust)
  then show thesis
  proof cases
    case idle
    show thesis by (rule none) (use idle in \<open>simp_all add: sim_fill_eq\<close>)
  next
    case sub
    show thesis by (rule none) (use sub in \<open>simp_all add: sim_fill_eq Let_def\<close>)
  next
    case exit
    show thesis by (rule none) (use exit in \<open>simp_all add: sim_fill_eq Let_def\<close>)
  next
    case qty
    note ev = sim_fill_eq [of i price t b, unfolded Let_def qty(2) result.case, unfolded qty(3) result.case]
    show thesis
    proof (cases "mval q \<le> 0 \<or> mval price \<le> 0")
      case True
      show thesis
      proof (cases "vo_parent (wk_order ?w) \<noteq> None \<and> mval q = 0")
        case True
        show thesis by (rule none) (use ev True qty(1) in simp_all)
      next
        case False
        have "\<exists>m. sim_fill i price t b = (lerr ''value'' m, ?c)"
          unfolding ev using qty(1) True False by (cases "mval q \<le> 0") auto
        then obtain m where m: "sim_fill i price t b = (lerr ''value'' m, ?c)" ..
        show thesis by (rule refused [of "LErr ''value'' m"]) (simp_all add: m lerr_def)
      qed
    next
      case False
      then have made: "fill_made i price t b q" using qty by (auto simp: fill_made_def)
      show thesis
      proof (cases "dadd (wk_filled ?w) q")
        case (Err e)
        show thesis by (rule broken [OF made Err]) (use ev Err False qty(1) in auto)
      next
        case (Ok filled)
        let ?f = "new_fill b (wk_order ?w) q price t"
        let ?d = "?c\<lparr>bk_fills := bk_fills b @ [new_fill b (wk_order ?w) q price t], bk_orders := (bk_orders b)[i := filled_working ?w filled t]\<rparr>"
        obtain r g where g: "update_position (new_fill b (wk_order ?w) q price t) ?d = (r, g)" by fastforce
        obtain p where p: "g = ?d\<lparr>bk_positions := p\<rparr>"
          using update_position_only [of "new_fill b (wk_order ?w) q price t" ?d] unfolding g by auto
        have "p = bk_positions (snd (update_position ?f b))" "is_ok r = is_ok (fst (update_position ?f b))"
          using update_position_reads [of ?d b ?f] g p by (simp_all add: counted_def)
        then show thesis by (intro booked [OF made Ok, of p]) (use ev Ok False qty(1) g p in \<open>cases r; simp\<close>)+
      qed
    qed
  qed
qed

lemma sim_fill_grows: "steps grows (sim_fill i price t)"
  unfolding steps_def
proof
  fix b
  have "grows b (counted b oid)" for oid by (simp add: counted_def)
  moreover have "grows b ((counted b oid)\<lparr>bk_fills := bk_fills b @ fs\<rparr>)" for oid fs
    by (simp add: counted_def grows_def)
  moreover have "grows b ((counted b oid)\<lparr>bk_fills := bk_fills b @ fs, bk_orders := (bk_orders b)[i := filled_working (order_at i b) filled t], bk_positions := p\<rparr>)"
    if "is_working (wk_state (order_at i b))" for oid fs filled p
    using that by (auto simp: counted_def grows_def upd_nth order_moves_def filled_working_def order_at_def is_working_def ended_def)
  ultimately show "grows b (snd (sim_fill i price t b))"
    by (rule_tac i = i and price = price and t = t and b = b in sim_fill_cases) (auto simp: grows.refl fill_made_def)
qed

subsection \<open>The commands\<close>

interpretation timed: run_relation "on_fst grows"
  by (rule on_fst_run) unfold_locales

lemma stop_limit_triggers: "stop_limit_price w br = Ok (p, trig) \<Longrightarrow> wk_triggered w \<longrightarrow> trig"
  by (auto simp: stop_limit_price_def lerr_def split: option.splits if_splits)

lemma stop_limit_base_grows: "steps grows (stop_limit_base i br)"
proof -
  have "grows b (b\<lparr>bk_orders := (bk_orders b)[i := (bk_orders b ! i)\<lparr>wk_triggered := trig\<rparr>]\<rparr>)"
    if "stop_limit_price (order_at i b) br = Ok (p, trig)" for b p trig
    by (rule grows_orders) (use stop_limit_triggers [OF that] in \<open>auto simp: order_moves_def order_at_def\<close>)
  then show ?thesis
    by (auto simp: steps_def stop_limit_base_def sm_simps upd_order_eq grows.refl split: result.splits)
qed

lemma execution_price_grows: "steps grows (execution_price x tb i br)"
  unfolding execution_price_def base_price_def
  by (auto intro!: grows_rules stop_limit_base_grows split: option.splits order_type.splits)

lemma candidates_grows: "steps grows (candidates x tb br is)"
  unfolding candidates_def by (intro grows_rules execution_price_grows)

lemma fill_all_grows: "steps grows (fill_all t cs)"
  unfolding fill_all_def by (rule grows.steps_scollect) (auto simp: sim_fill_grows)

lemma fill_groups_grows: "steps grows (fill_groups t gs)"
  by (induction gs) (auto intro!: grows_rules fill_all_grows)

lemma put_bar_grows: "steps grows (put_bar br)"
  unfolding put_bar_def by (intro grows_rules) simp

lemma over_orders_grows:
  assumes "\<And>i. steps grows (f i)"
  shows "steps grows (\<lambda>b. sfor f [0..<length (bk_orders b)] b)"
proof -
  have "steps grows (sfor f is)" for "is" by (rule grows.steps_sfor) (rule assms)
  then show ?thesis by (auto simp: steps_def)
qed

lemma match_bar_grows: "steps grows (match_bar x tb br)"
  unfolding match_bar_def
  by (auto intro!: grows_rules over_orders_grows expire_on_bar_grows put_bar_grows candidates_grows fill_all_grows fill_groups_grows
      split: prod.splits)

lemma process_bar_grows: "steps grows (process_bar x tb bo)"
  unfolding process_bar_def by (auto intro!: grows_rules match_bar_grows split: option.splits)

lemmas timed_rules = timed.steps_basic timed.steps_sbind timed.steps_sfor steps_on_book grows_rules
  steps_now [OF grows.run_relation_axioms]

lemma event_time_grows: "steps (on_fst grows) (event_time x)"
  unfolding event_time_def by (intro timed_rules)

lemma mk_ack_grows: "steps (on_fst grows) (mk_ack x i st m)"
  unfolding mk_ack_def by (intro timed_rules event_time_grows)

lemma expire_due_grows: "steps (on_fst grows) (expire_due x tb)"
  unfolding expire_due_def by (intro timed_rules over_orders_grows expire_one_grows)

lemma stop_inside_grows: "steps grows (fill_stop_inside_entry_bar x tb i)"
  unfolding fill_stop_inside_entry_bar_def by (auto intro!: grows_rules sim_fill_grows split: option.splits)

lemma add_order_grows: "steps grows (add_order ord st t)"
  by (auto simp: add_order_def sm_simps steps_def grows_def nth_append)

lemma submit_grows: "steps (on_fst grows) (submit x tb ord)"
  unfolding submit_def
  by (auto intro!: timed_rules mk_ack_grows expire_due_grows add_order_grows stop_inside_grows split: option.splits)

lemma connect_grows: "steps (on_fst grows) (connect x)"
  unfolding connect_def by (intro timed_rules) simp

lemma replace_begin_grows: "steps (on_fst grows) (replace_begin x tb oid q)"
  unfolding replace_begin_def Let_def by (auto intro!: timed_rules mk_ack_grows expire_due_grows)

end
