(* ===== verification/Sim_Runs.thy ===== *)
theory Sim_Runs
  imports Sim_Inv
begin

section \<open>Runs of the simulated broker\<close>

text \<open>
  The weakest precondition of an operation, with one postcondition for an answer and one for a refusal,
  and its rules; every command of the host, the restoring of a saved book included, as a step relation; and the
  history of a run.
\<close>

subsection \<open>Weakest preconditions\<close>

definition wp :: "('s, 'a) sm \<Rightarrow> ('a \<Rightarrow> 's \<Rightarrow> bool) \<Rightarrow> ('s \<Rightarrow> bool) \<Rightarrow> 's \<Rightarrow> bool" where
  "wp m Q E s = (case m s of (Ok a, s') \<Rightarrow> Q a s' | (Err e, s') \<Rightarrow> E s')"

named_theorems wp_simps "weakest preconditions of the basic operations"

lemma wp_basic [wp_simps]:
  "wp (sret a) Q E s \<longleftrightarrow> Q a s" "wp (slift r) Q E s \<longleftrightarrow> (case r of Ok a \<Rightarrow> Q a s | Err e \<Rightarrow> E s)"
  "wp (sfail k t) Q E s \<longleftrightarrow> E s" "wp (sget g) Q E s \<longleftrightarrow> Q (g s) s"
  "wp (sread h) Q E s \<longleftrightarrow> (case h s of Ok a \<Rightarrow> Q a s | Err e \<Rightarrow> E s)" "wp (smod f) R E s \<longleftrightarrow> R () (f s)"
  by (simp_all add: wp_def sret_def slift_def sfail_def sget_def sread_def smod_def lerr_def split: result.splits)

lemma wp_sbind [wp_simps]: "wp (sbind m f) Q E = wp m (\<lambda>a. wp (f a) Q E) E"
  by (rule ext) (simp add: wp_def sbind_def split: prod.splits result.splits)

lemma wp_sret [wp_simps]: "wp (sret a) Q E = Q a"
  by (rule ext) (simp add: wp_def sret_def)

lemma wp_on_book [wp_simps]: "wp (on_book m) Q E s \<longleftrightarrow> wp m (\<lambda>a b. Q a (b, snd s)) (\<lambda>b. E (b, snd s)) (fst s)"
  by (cases s) (simp add: wp_def on_book_def split: prod.splits result.splits)

lemma wp_upd_order [wp_simps]:
  "wp (upd_order i f) Q E b \<longleftrightarrow> Q () (b\<lparr>bk_orders := (bk_orders b)[i := f (bk_orders b ! i)]\<rparr>)"
  by (simp add: upd_order_def wp_simps)

lemma wp_pair: "m s = (r, t) \<Longrightarrow> wp m Q E s \<longleftrightarrow> (case r of Ok a \<Rightarrow> Q a t | Err e \<Rightarrow> E t)"
  by (cases r) (simp_all add: wp_def)

lemma wp_now [wp_simps]:
  "wp (now x) Q E s \<longleftrightarrow> (case and_then (snd s 0) (ts_aware x) of
     Ok t \<Rightarrow> Q t (fst s, \<lambda>n. snd s (Suc n)) | Err e \<Rightarrow> E (fst s, \<lambda>n. snd s (Suc n)))"
  by (rule wp_pair) (simp add: now_def split: prod.splits)

lemma wp_over_orders [wp_simps]:
  "wp (\<lambda>b. sfor f [0..<length (bk_orders b)] b) Q E b \<longleftrightarrow> wp (sfor f [0..<length (bk_orders b)]) Q E b"
  by (simp add: wp_def)

lemma wp_mono:
  "wp m Q E s \<Longrightarrow> (\<And>a t. Q a t \<Longrightarrow> Q' a t) \<Longrightarrow> (\<And>t. E t \<Longrightarrow> E' t) \<Longrightarrow> wp m Q' E' s"
  by (auto simp: wp_def split: prod.splits result.splits)

lemma wp_snd: "wp m (\<lambda>_. I) I s \<longleftrightarrow> I (snd (m s))"
  by (auto simp: wp_def split: prod.splits result.splits)

lemma wp_steps: "steps R m \<Longrightarrow> wp m (\<lambda>_. R s) (R s) s"
  by (simp add: wp_snd steps_def)

lemma wp_sfor:
  assumes "I s" "\<And>a t. a \<in> set as \<Longrightarrow> I t \<Longrightarrow> wp (f a) (\<lambda>_. I) E t"
  shows "wp (sfor f as) (\<lambda>_. I) E s"
  using assms
proof (induction as arbitrary: s)
  case (Cons a as)
  have "wp (f a) (\<lambda>_. I) E s" by (rule Cons.prems(2)) (simp_all add: Cons.prems(1))
  then show ?case
    unfolding sfor.simps wp_sbind by (rule wp_mono) (auto intro!: Cons.IH Cons.prems(2))
qed (simp add: wp_simps)

lemma wp_scollect:
  assumes "I s" "\<And>a t. a \<in> set as \<Longrightarrow> I t \<Longrightarrow> wp (f a) (\<lambda>o' t. I t \<and> (\<forall>b. o' = Some b \<longrightarrow> Q b)) E t"
  shows "wp (scollect f as) (\<lambda>bs t. I t \<and> (\<forall>b \<in> set bs. Q b)) E s"
  using assms
proof (induction as arbitrary: s)
  case (Cons a as)
  have tail: "wp (scollect f as) (\<lambda>bs t. I t \<and> (\<forall>b \<in> set bs. Q b)) E t" if "I t" for t
    by (rule Cons.IH) (use that Cons.prems(2) in auto)
  have "wp (f a) (\<lambda>o' t. I t \<and> (\<forall>b. o' = Some b \<longrightarrow> Q b)) E s" by (rule Cons.prems(2)) (simp_all add: Cons.prems(1))
  then show ?case
    unfolding scollect.simps wp_simps by (rule wp_mono) (auto intro!: wp_mono [OF tail] split: option.splits)
qed (simp add: wp_simps)

subsection \<open>The commands\<close>

text \<open>
  A replacement keeps the identity of the order and takes the quantity the broker agreed to. The
  orders a host hands in satisfy its own check of a venue order, here any predicate \<open>ok\<close>. The orders, fills and
  positions it restores satisfy the predicate \<open>saved\<close>, which also sees whether the restore was answered: a refused
  restore leaves the orders and fills read so far in the book, and a host may drop such a broker or go on with it.
  Steps may be restricted to commands that were answered and not refused.
\<close>

definition replaces :: "vorder \<Rightarrow> vorder \<Rightarrow> money \<Rightarrow> bool" where
  "replaces old ord q \<longleftrightarrow> vo_id ord = vo_id old \<and> vo_instr ord = vo_instr old \<and> vo_side ord = vo_side old
     \<and> vo_parent ord = vo_parent old \<and> vo_quantity ord = q"

type_synonym saved_data = "(vorder \<times> order_state) list \<Rightarrow> vfill list \<Rightarrow> pos list \<Rightarrow> bool \<Rightarrow> bool"

inductive sim_tr :: "externals \<Rightarrow> tables \<Rightarrow> (vorder \<Rightarrow> bool) \<Rightarrow> saved_data \<Rightarrow> bool \<Rightarrow> book \<times> clock \<Rightarrow> book \<times> clock \<Rightarrow> bool"
  for x tb ok saved accepted where
  tr_connect: "connect x s = (r, t) \<Longrightarrow> (accepted \<longrightarrow> is_ok r) \<Longrightarrow> sim_tr x tb ok saved accepted s t"
| tr_submit: "ok ord \<Longrightarrow> submit x tb ord s = (r, t) \<Longrightarrow> (accepted \<longrightarrow> is_ok r) \<Longrightarrow> sim_tr x tb ok saved accepted s t"
| tr_cancel: "cancel x tb oid s = (r, t) \<Longrightarrow> (accepted \<longrightarrow> is_ok r) \<Longrightarrow> sim_tr x tb ok saved accepted s t"
| tr_begin: "replace_begin x tb oid nq s = (b, t) \<Longrightarrow> (accepted \<longrightarrow> is_ok b) \<Longrightarrow> sim_tr x tb ok saved accepted s t"
| tr_reject: "replace_reject x oid msg s = (r, t) \<Longrightarrow> (accepted \<longrightarrow> is_ok r) \<Longrightarrow> sim_tr x tb ok saved accepted s t"
| tr_commit: "replace_begin x tb oid nq s = (Ok (Go q), u) \<Longrightarrow> imap_get (bk_index (fst u)) oid = Some i \<Longrightarrow> ok ord
    \<Longrightarrow> replaces (wk_order (order_at i (fst u))) ord q \<Longrightarrow> replace_commit x oid ord u = (r, t) \<Longrightarrow> (accepted \<longrightarrow> is_ok r)
    \<Longrightarrow> sim_tr x tb ok saved accepted s t"
| tr_bar: "on_book (process_bar x tb bo) s = (fs, t) \<Longrightarrow> (accepted \<longrightarrow> is_ok fs) \<Longrightarrow> sim_tr x tb ok saved accepted s t"
| tr_orders: "orders_since x tb since s = (ws, t) \<Longrightarrow> (accepted \<longrightarrow> is_ok ws) \<Longrightarrow> sim_tr x tb ok saved accepted s t"
| tr_fills: "fills_since x tb since s = (fs, t) \<Longrightarrow> (accepted \<longrightarrow> is_ok fs) \<Longrightarrow> sim_tr x tb ok saved accepted s t"
| tr_positions: "open_positions x tb s = (ps, t) \<Longrightarrow> (accepted \<longrightarrow> is_ok ps) \<Longrightarrow> sim_tr x tb ok saved accepted s t"
| tr_restore: "saved orders fills positions (is_ok r) \<Longrightarrow> restore x tb orders fills positions s = (r, t) \<Longrightarrow> (accepted \<longrightarrow> is_ok r)
    \<Longrightarrow> sim_tr x tb ok saved accepted s t"

definition sim_run :: "externals \<Rightarrow> tables \<Rightarrow> (vorder \<Rightarrow> bool) \<Rightarrow> saved_data \<Rightarrow> bool \<Rightarrow> book \<times> clock \<Rightarrow> book \<times> clock \<Rightarrow> bool" where
  "sim_run x tb ok saved accepted = (sim_tr x tb ok saved accepted)\<^sup>*\<^sup>*"

text \<open>An invariant of the steps holds along a run.\<close>

lemma sim_run_invariant:
  assumes "sim_run x tb ok saved accepted s t" "\<And>s t. sim_tr x tb ok saved accepted s t \<Longrightarrow> I s \<Longrightarrow> I t" "I s"
  shows "I t"
  using assms(1) unfolding sim_run_def by (induction rule: rtranclp_induct) (auto intro: assms(2,3))

subsection \<open>History\<close>

text \<open>An order that is still working may be replaced; one that has ended keeps its terms too.\<close>

definition order_lives :: "working \<Rightarrow> working \<Rightarrow> bool" where
  "order_lives w w' \<longleftrightarrow> vo_id (wk_order w') = vo_id (wk_order w) \<and> vo_instr (wk_order w') = vo_instr (wk_order w)
     \<and> vo_side (wk_order w') = vo_side (wk_order w) \<and> vo_parent (wk_order w') = vo_parent (wk_order w)
     \<and> (ended (wk_state w) \<longrightarrow> wk_order w' = wk_order w \<and> wk_state w' = wk_state w \<and> wk_filled w' = wk_filled w)
     \<and> (wk_triggered w \<longrightarrow> wk_triggered w')"

definition lives :: "book \<Rightarrow> book \<Rightarrow> bool" where
  "lives b b' \<longleftrightarrow>
     (\<exists>new. bk_fills b' = bk_fills b @ new)
     \<and> length (bk_orders b) \<le> length (bk_orders b')
     \<and> (\<forall>i < length (bk_orders b). order_lives (bk_orders b ! i) (bk_orders b' ! i))
     \<and> (bk_account_id b', bk_venue b', bk_bps b', bk_slippage_ticks b')
       = (bk_account_id b, bk_venue b, bk_bps b, bk_slippage_ticks b)"

lemma order_lives_refl [simp]: "order_lives w w"
  by (simp add: order_lives_def)

lemma order_lives_trans: "order_lives a b \<Longrightarrow> order_lives b c \<Longrightarrow> order_lives a c"
  by (auto simp: order_lives_def)

interpretation lives: run_relation lives
proof
  show "lives b b" for b by (simp add: lives_def)
  show "lives a c" if ab: "lives a b" and bc: "lives b c" for a b c
    using ab bc order_lives_trans unfolding lives_def by (auto intro: order_lives_trans)
qed

lemma grows_lives: "grows b b' \<Longrightarrow> lives b b'"
  by (auto simp: grows_def lives_def order_moves_def order_lives_def)

lemma steps_lives: "steps (on_fst grows) m \<Longrightarrow> m s = (r, t) \<Longrightarrow> lives (fst s) (fst t)"
  using stepsD [of "on_fst grows" m s] grows_lives by (simp add: on_fst_def)

lemma wp_grows: "on_fst grows s t \<Longrightarrow> steps (on_fst grows) m \<Longrightarrow> wp m (\<lambda>_. on_fst grows s) (on_fst grows s) t"
  unfolding wp_snd by (erule timed.trans) (erule stepsD)

lemma known_order: "require_order p b = (case imap_get (bk_index b) p of Some i \<Rightarrow> Ok i | None \<Rightarrow> lerr ''unknown_order'' ''Unknown SimBroker order'')"
  by (simp add: require_order_def)

text \<open>The end of a cancellation and of a replacement: the time of the event is noted and acknowledged.\<close>

definition acked :: "externals \<Rightarrow> nat \<Rightarrow> string \<Rightarrow> (book \<times> clock, ack) sm" where
  "acked x i oid = sbind (event_time x) (\<lambda>t. sbind (on_book (upd_order i (\<lambda>w. w\<lparr>wk_updated_at := t\<rparr>))) (\<lambda>_. mk_ack x oid ''ACCEPTED'' None))"

lemma acked_grows: "steps (on_fst grows) (acked x i oid)"
  unfolding acked_def by (intro timed_rules event_time_grows mk_ack_grows) (simp add: order_moves_def)

definition set_order :: "nat \<Rightarrow> working \<Rightarrow> book \<Rightarrow> book" where
  "set_order i w b = b\<lparr>bk_orders := (bk_orders b)[i := w]\<rparr>"

lemma cancel_grows: "steps (on_fst grows) (cancel x tb oid)"
  unfolding steps_def
proof
  fix s :: "book \<times> clock"
  have upd: "on_fst grows s (set_order i ((bk_orders (fst t) ! i)\<lparr>wk_state := Cancelled\<rparr>) (fst t), snd t)"
    if "on_fst grows s t" "wk_state (order_at i (fst t)) \<notin> {Filled, Expired, Rejected}" for t i
  proof -
    have "grows (fst t) (set_order i ((bk_orders (fst t) ! i)\<lparr>wk_state := Cancelled\<rparr>) (fst t))"
      unfolding set_order_def by (rule grows_orders) (use that(2) in \<open>auto simp: order_moves_def order_at_def ended_def\<close>)
    then show ?thesis using that(1) grows.trans by (auto simp: on_fst_def)
  qed
  have "wp (cancel x tb oid) (\<lambda>_. on_fst grows s) (on_fst grows s) s"
    unfolding cancel_def acked_def [symmetric] wp_sbind
    by (rule wp_mono [OF wp_steps [OF expire_due_grows]])
      (auto simp: wp_simps set_order_def [symmetric] intro!: wp_grows mk_ack_grows acked_grows upd split: result.splits)
  then show "on_fst grows s (snd (cancel x tb oid s))" by (simp add: wp_snd)
qed

lemma replace_commit_eq:
  assumes "imap_get (bk_index (fst t)) oid = Some i"
  shows "replace_commit x oid ord t =
    (let w = bk_orders (fst t) ! i in
     acked x i oid (set_order i (w\<lparr>wk_order := ord, wk_state := if money_eq (wk_filled w) (vo_quantity ord) then Filled else wk_state w\<rparr>) (fst t), snd t))"
proof -
  have bind: "sbind (on_book m) f (b, clk) = (case m b of (Ok a, b') \<Rightarrow> f a (b', clk) | (Err e, b') \<Rightarrow> (Err e, (b', clk)))" for m f b clk
    by (simp add: sbind_def on_book_def split: prod.splits result.splits)
  show ?thesis using assms unfolding replace_commit_def acked_def [symmetric]
    by (cases t) (simp add: bind sread_def require_order_def upd_order_def smod_def Let_def set_order_def)
qed

lemma replace_commit_lives:
  assumes "imap_get (bk_index (fst t)) oid = Some i" "is_working (wk_state (order_at i (fst t)))"
    "replaces (wk_order (order_at i (fst t))) ord q"
  shows "lives (fst t) (fst (snd (replace_commit x oid ord t)))"
proof -
  let ?w = "bk_orders (fst t) ! i"
  let ?b = "set_order i (?w\<lparr>wk_order := ord, wk_state := if money_eq (wk_filled ?w) (vo_quantity ord) then Filled else wk_state ?w\<rparr>) (fst t)"
  have "lives (fst t) ?b"
    using assms(2,3) by (auto simp: set_order_def lives_def upd_nth order_lives_def replaces_def order_at_def is_working_def ended_def)
  moreover have "lives ?b (fst (snd (replace_commit x oid ord t)))"
    using steps_lives [OF acked_grows, where s = "(?b, snd t)", OF surjective_pairing] by (simp add: replace_commit_eq [OF assms(1)] Let_def)
  ultimately show ?thesis by (rule lives.trans)
qed

definition replaceable :: "string \<Rightarrow> money \<Rightarrow> book \<Rightarrow> bool" where
  "replaceable oid q b \<longleftrightarrow> (\<forall>i. imap_get (bk_index b) oid = Some i \<longrightarrow>
     is_working (wk_state (order_at i b)) \<and> mval (wk_filled (order_at i b)) \<le> mval q \<and> 0 < mval q)"

lemma replace_begin_Go:
  assumes "replace_begin x tb oid nq s = (Ok (Go q), t)"
  shows "replaceable oid q (fst t)"
proof -
  have ack: "wp (mk_ack x i st m) (\<lambda>_ _. True) (\<lambda>_. True) u" for i st m u by (simp add: wp_snd)
  have "wp (replace_begin x tb oid nq) (\<lambda>r t. \<forall>q. r = Go q \<longrightarrow> replaceable oid q (fst t)) (\<lambda>_. True) s"
    unfolding replace_begin_def wp_sbind Let_def
    by (rule wp_mono [of _ "\<lambda>_ _. True" "\<lambda>_. True"])
      (auto simp: wp_simps wp_snd require_order_def replaceable_def not_less not_le intro: wp_mono [OF ack] split: option.splits result.splits)
  with assms show ?thesis by (simp add: wp_def)
qed

text \<open>
  A restore acts on an empty book only, so there is no history it could rewrite; it leaves the account, venue and
  slippage alone.
\<close>

definition same_config :: "book \<Rightarrow> book \<Rightarrow> bool" where
  "same_config b b' \<longleftrightarrow> (bk_account_id b', bk_venue b', bk_bps b', bk_slippage_ticks b')
     = (bk_account_id b, bk_venue b, bk_bps b, bk_slippage_ticks b)"

interpretation config: run_relation same_config
  by unfold_locales (simp_all add: same_config_def)

interpretation timed_config: run_relation "on_fst same_config"
  by (rule on_fst_run) unfold_locales

lemma steps_config_smod: "(\<And>b. same_config b (f b)) \<Longrightarrow> steps same_config (smod f)"
  by (simp add: steps_def smod_def)

lemmas config_rules = timed_config.steps_basic timed_config.steps_sbind timed_config.steps_sfor steps_on_book
  config.steps_basic config.steps_sbind config.steps_sfor steps_config_smod steps_now [OF config.run_relation_axioms]

lemma restore_order_config: "steps (on_fst same_config) (restore_order x tb os)"
  unfolding restore_order_def add_order_def
  by (cases os) (auto intro!: config_rules simp: same_config_def)

lemma restore_fill_config: "steps same_config (restore_fill x f)"
  unfolding restore_fill_def upd_order_def Let_def
  by (auto intro!: config_rules split: option.splits prod.splits simp: same_config_def)

lemma restore_position_config: "steps same_config (restore_position p)"
  unfolding restore_position_def Let_def by (auto intro!: config_rules simp: same_config_def)

lemma restore_lives:
  assumes "restore x tb orders fills positions s = (r, t)"
  shows "lives (fst s) (fst t)"
proof (cases "bk_orders (fst s) = [] \<and> bk_fills (fst s) = [] \<and> bk_last_bars (fst s) = [] \<and> bk_positions (fst s) = []")
  case True
  have "steps (on_fst same_config) (restore x tb orders fills positions)"
    unfolding restore_def by (auto intro!: config_rules restore_order_config restore_fill_config restore_position_config)
  then have "same_config (fst s) (fst t)" using stepsD [of "on_fst same_config" _ s] assms by (fastforce simp: on_fst_def)
  then show ?thesis using True by (simp add: lives_def same_config_def)
next
  case False
  then have "t = s" using assms by (cases s) (auto simp: restore_def sbind_def on_book_def sget_def sfail_def slift_def)
  then show ?thesis by (simp add: lives.refl)
qed

text \<open>Along every run the book keeps its history.\<close>

lemma sim_tr_lives: "sim_tr x tb ok saved accepted s t \<Longrightarrow> lives (fst s) (fst t)"
proof (induction rule: sim_tr.induct)
  case (tr_commit oid nq s q u i ord r t)
  have "lives (fst s) (fst u)" by (rule steps_lives [OF replace_begin_grows tr_commit(1)])
  moreover have "lives (fst u) (fst t)"
    using replace_commit_lives [OF tr_commit(2) _ tr_commit(4), of x] replace_begin_Go [OF tr_commit(1)] tr_commit(2,5)
    by (auto simp: replaceable_def)
  ultimately show ?case by (rule lives.trans)
next
  case (tr_bar bo s fs t)
  show ?case by (rule steps_lives [OF steps_on_book [OF process_bar_grows] tr_bar(1)])
next
  case (tr_restore orders fills positions r s t)
  show ?case by (rule restore_lives [OF tr_restore(2)])
qed (auto simp: orders_since_def fills_since_def open_positions_def replace_reject_def
    elim!: steps_lives [rotated] intro!: connect_grows submit_grows cancel_grows replace_begin_grows mk_ack_grows expire_due_grows timed_rules)

lemma sim_run_lives: "sim_run x tb ok saved accepted s t \<Longrightarrow> lives (fst s) (fst t)"
  by (erule sim_run_invariant) (auto intro: lives.trans sim_tr_lives simp: lives.refl)

end
