(* ===== verification/Sim_Keeps.thy ===== *)
theory Sim_Keeps
  imports Sim_Runs
begin

section \<open>Invariants of the simulated broker\<close>

text \<open>
  The interface by which an invariant of the book is proved: \<open>book_invariant\<close> asks for it only at the steps that
  change orders, fills or positions (a mark on an order, a fill, a new order, a replacement, a restored book), and its
  lemmas carry it through the loops over a bar, the commands of the host and every run. \<open>E\<close> is what a refusal leaves: the
  invariant itself, or less when a refusal may interrupt the bookkeeping.
\<close>

definition replaced :: "vorder \<Rightarrow> working \<Rightarrow> working" where
  "replaced ord w = w\<lparr>wk_order := ord, wk_state := if money_eq (wk_filled w) (vo_quantity ord) then Filled else wk_state w\<rparr>"

text \<open>A step that changes only an order's state, trigger or time.\<close>

definition marks :: "working \<Rightarrow> working \<Rightarrow> bool" where
  "marks w w' \<longleftrightarrow> wk_order w' = wk_order w \<and> wk_filled w' = wk_filled w
     \<and> (wk_state w' = wk_state w \<or> \<not> ended (wk_state w) \<and> wk_state w' \<in> {Expired, Cancelled})"

lemma working_not_terminal: "is_working st \<Longrightarrow> \<not> ended st"
  by (auto simp: is_working_def ended_def)

lemma wp_upd_set: "wp (upd_order i f) Q E b \<longleftrightarrow> Q () (set_order i (f (order_at i b)) b)"
  by (simp add: wp_upd_order set_order_def order_at_def)

lemma wp_put_bar: "wp (put_bar br) Q E b \<longleftrightarrow> Q () (b\<lparr>bk_last_bars := imap_put (bk_last_bars b) (instr_hk (br_instr br)) br\<rparr>)"
  by (simp add: put_bar_def wp_simps)

lemma find_in: "find P xs = Some c \<Longrightarrow> c \<in> set xs"
  by (induction xs) (auto split: if_splits)

lemma oco_selected_subset: "set (oco_selected b g) \<subseteq> set g"
proof -
  let ?cs = "sort_key (\<lambda>(i, p). oco_priority b i) g" and ?P = "\<lambda>(i, p). vo_otype (wk_order (order_at i b)) = Stop"
  have "c \<in> set ?cs" if "find ?P ?cs = Some c" for c using that by (rule find_in)
  then show ?thesis by (cases "find ?P ?cs") (auto simp: oco_selected_def Let_def)
qed

text \<open>The part of a bar that fills, from the book after the expiries.\<close>

definition fill_bar :: "externals \<Rightarrow> tables \<Rightarrow> bar \<Rightarrow> (book, nat list) sm" where
  "fill_bar x tb br =
     sbind (sget (active_orders br)) (\<lambda>active.
     sbind (candidates x tb br active) (\<lambda>cs.
     sbind (sget (\<lambda>b. (filter (\<lambda>c. group_of b c = None) cs,
              map (\<lambda>g. filter (\<lambda>c. group_of b c = Some g) cs) (groups_in_order b cs)))) (\<lambda>(standalone, by_group).
     sbind (fill_all (br_ts br) standalone) (\<lambda>out1.
     sbind (fill_groups (br_ts br) by_group) (\<lambda>out2.
     sbind (put_bar br) (\<lambda>_. sret (out1 @ out2)))))))"

lemma match_bar_eq: "match_bar x tb br =
     sbind (\<lambda>b. sfor (expire_on_bar x tb br) [0..<length (bk_orders b)] b) (\<lambda>_.
     sbind (sread (\<lambda>b. is_regular_session_bar x tb b br)) (\<lambda>regular.
     if \<not> regular then sbind (put_bar br) (\<lambda>_. sret []) else fill_bar x tb br))"
  unfolding match_bar_def fill_bar_def by (rule refl)

lemma wp_grows_length:
  assumes "steps grows m" "wp m Q E b"
  shows "wp m (\<lambda>a c. Q a c \<and> length (bk_orders b) \<le> length (bk_orders c)) E b"
  using stepsD [OF assms(1), of b] assms(2) by (auto simp: wp_def grows_def split: prod.splits result.splits)

locale book_invariant =
  fixes x :: externals and ok :: "vorder \<Rightarrow> bool" and saved :: saved_data and I E :: "book \<Rightarrow> bool"
  assumes weaken: "I b \<Longrightarrow> E b"
    and mark: "I b \<Longrightarrow> marks (order_at i b) w \<Longrightarrow> I (set_order i w b)"
    and last_bars: "I b \<Longrightarrow> I (b\<lparr>bk_last_bars := l\<rparr>)"
    and connected: "I b \<Longrightarrow> I (b\<lparr>bk_connected := c\<rparr>)"
    and fill: "I b \<Longrightarrow> i < length (bk_orders b) \<Longrightarrow> wp (sim_fill i price t) (\<lambda>_. I) E b"
    and add: "I b \<Longrightarrow> ok ord \<Longrightarrow> imap_get (bk_index b) (vo_id ord) = None \<Longrightarrow> sim_validate ord b = Ok ()
      \<Longrightarrow> st = Accepted \<or> st = Rejected \<Longrightarrow> I (snd (add_order ord st t b))"
    and commit: "I b \<Longrightarrow> ok ord \<Longrightarrow> imap_get (bk_index b) oid = Some i \<Longrightarrow> replaces (wk_order (order_at i b)) ord q
      \<Longrightarrow> replaceable oid q b \<Longrightarrow> I (set_order i (replaced ord (order_at i b)) b)"
    and restored: "I (fst s) \<Longrightarrow> saved orders fills positions (is_ok r) \<Longrightarrow> restore x tb orders fills positions s = (r, u)
      \<Longrightarrow> (is_ok r \<longrightarrow> I (fst u)) \<and> E (fst u)"
begin

lemma wp_marked: "I b \<Longrightarrow> marks (order_at i b) (f (order_at i b)) \<Longrightarrow> wp (upd_order i f) (\<lambda>_. I) E b"
  unfolding wp_upd_set by (rule mark)

lemma wp_expire_one: "I b \<Longrightarrow> wp (expire_one x tb t i) (\<lambda>_. I) E b"
  unfolding expire_one_def
  by (auto simp: wp_simps simp del: wp_upd_order intro!: wp_marked weaken split: result.splits option.splits) (auto simp: marks_def working_not_terminal)

lemma wp_expire_on_bar: "I b \<Longrightarrow> wp (expire_on_bar x tb br i) (\<lambda>_. I) E b"
  unfolding expire_on_bar_def
  by (auto simp: wp_simps simp del: wp_upd_order intro!: wp_marked weaken split: result.splits) (auto simp: marks_def working_not_terminal)

lemma wp_base_price: "I b \<Longrightarrow> wp (base_price x tb i br ord) (\<lambda>_. I) E b"
  unfolding base_price_def stop_limit_base_def
  by (auto simp: wp_simps wp_upd_set simp del: wp_upd_order intro!: mark weaken split: result.splits order_type.splits) (auto simp: marks_def working_not_terminal)

lemma wp_execution_price: "I b \<Longrightarrow> wp (execution_price x tb i br) (\<lambda>_. I) E b"
  unfolding execution_price_def
  by (auto simp: wp_simps intro!: wp_mono [OF wp_base_price] weaken split: result.splits option.splits)

lemma wp_candidates:
  assumes "I b"
  shows "wp (candidates x tb br as) (\<lambda>cs b. I b \<and> (\<forall>c \<in> set cs. fst c \<in> set as)) E b"
  unfolding candidates_def using assms
  by (rule wp_scollect) (auto simp: wp_simps intro!: wp_mono [OF wp_execution_price])

lemma wp_fill_to:
  assumes "I b \<and> n \<le> length (bk_orders b)" "i < n"
  shows "wp (sim_fill i price t) (\<lambda>_ b. I b \<and> n \<le> length (bk_orders b)) E b"
  by (rule wp_mono [OF wp_grows_length [OF sim_fill_grows fill]]) (use assms in auto)

lemma wp_fill_all:
  assumes "I b \<and> n \<le> length (bk_orders b)" "\<forall>c \<in> set cs. fst c < n"
  shows "wp (fill_all t cs) (\<lambda>_ b. I b \<and> n \<le> length (bk_orders b)) E b"
proof -
  have "wp (fill_all t cs) (\<lambda>fs b. (I b \<and> n \<le> length (bk_orders b)) \<and> (\<forall>f \<in> set fs. True)) E b"
    unfolding fill_all_def using assms(1)
    by (rule wp_scollect) (use assms(2) in \<open>auto intro!: wp_mono [OF wp_fill_to]\<close>)
  then show ?thesis by (rule wp_mono) auto
qed

lemma wp_fill_groups:
  assumes "I b \<and> n \<le> length (bk_orders b)" "\<forall>g \<in> set gs. \<forall>c \<in> set g. fst c < n"
  shows "wp (fill_groups t gs) (\<lambda>_ b. I b \<and> n \<le> length (bk_orders b)) E b"
  using assms
proof (induction gs arbitrary: b)
  case (Cons g gs)
  have "\<forall>c \<in> set (oco_selected b g). fst c < n" using oco_selected_subset Cons.prems(2) by fastforce
  then show ?case using Cons.prems
    by (auto simp: wp_simps intro!: wp_mono [OF wp_fill_all [OF Cons.prems(1)]] wp_mono [OF Cons.IH])
qed (simp add: wp_simps)

lemma wp_fill_bar:
  assumes "I b"
  shows "wp (fill_bar x tb br) (\<lambda>_. I) E b"
proof -
  let ?n = "length (bk_orders b)"
  have a: "\<forall>i \<in> set (active_orders br b). i < ?n" by (simp add: active_orders_def)
  have fills: "wp (sbind (fill_all t cs) (\<lambda>o1. sbind (fill_groups t gs) (\<lambda>o2. sbind (put_bar br) (\<lambda>_. sret (o1 @ o2))))) (\<lambda>_. I) E c"
    if h: "I c \<and> ?n \<le> length (bk_orders c)" "\<forall>e \<in> set cs. fst e < ?n" "\<forall>g \<in> set gs. \<forall>e \<in> set g. fst e < ?n" for t cs gs c
    unfolding wp_sbind
  proof (rule wp_mono [OF wp_fill_all [OF h(1,2)]], goal_cases)
    case (1 o1 d)
    show ?case by (rule wp_mono [OF wp_fill_groups [OF 1 h(3)]]) (auto simp: wp_simps wp_put_bar intro: last_bars)
  qed
  show ?thesis
    unfolding fill_bar_def wp_sbind wp_basic
  proof (rule wp_mono [OF wp_grows_length [OF candidates_grows wp_candidates [OF assms]]], goal_cases)
    case (1 cs c)
    then have "\<forall>e \<in> set cs. fst e < ?n" using a by blast
    then show ?case using 1 by (auto intro!: fills) fastforce
  qed
qed

lemma wp_match_bar: "I b \<Longrightarrow> wp (match_bar x tb br) (\<lambda>_. I) E b"
  unfolding match_bar_eq wp_sbind wp_over_orders
  by (rule wp_mono [OF wp_sfor [where I = I and E = E]])
    (auto simp: wp_simps wp_put_bar intro!: wp_expire_on_bar wp_fill_bar last_bars weaken split: result.splits)

lemma wp_process_bar: "I b \<Longrightarrow> wp (process_bar x tb bo) (\<lambda>_. I) E b"
  unfolding process_bar_def by (auto simp: wp_simps intro!: wp_match_bar weaken split: result.splits option.splits)

text \<open>The commands, on the book with its clock.\<close>

lemma wp_event_time: "I (fst s) \<Longrightarrow> wp (event_time x) (\<lambda>_ s. I (fst s)) (\<lambda>s. E (fst s)) s"
  unfolding event_time_def by (cases s) (auto simp: wp_simps intro: weaken split: result.splits)

lemma wp_mk_ack: "I (fst s) \<Longrightarrow> wp (mk_ack x oid st m) (\<lambda>_ s. I (fst s)) (\<lambda>s. E (fst s)) s"
  unfolding mk_ack_def wp_sbind by (rule wp_mono [OF wp_event_time]) (auto simp: wp_simps)

lemma wp_acked: "I (fst s) \<Longrightarrow> wp (acked x i oid) (\<lambda>_ s. I (fst s)) (\<lambda>s. E (fst s)) s"
  unfolding acked_def wp_sbind
  by (rule wp_mono [OF wp_event_time])
    (auto simp: wp_simps wp_upd_set simp del: wp_upd_order intro!: wp_mk_ack mark simp: marks_def)

lemma wp_expire_due: "I (fst s) \<Longrightarrow> wp (expire_due x tb) (\<lambda>_ s. I (fst s)) (\<lambda>s. E (fst s)) s"
  unfolding expire_due_def
  by (auto simp: wp_simps intro!: wp_sfor wp_expire_one weaken split: result.splits)

lemma wp_after_due:
  assumes "I (fst s)" "\<And>t. I (fst t) \<Longrightarrow> wp (m ()) Q (\<lambda>s. E (fst s)) t"
  shows "wp (sbind (expire_due x tb) m) Q (\<lambda>s. E (fst s)) s"
  unfolding wp_sbind by (rule wp_mono [OF wp_expire_due]) (use assms in auto)

lemma wp_cancel: "I (fst s) \<Longrightarrow> wp (cancel x tb oid) (\<lambda>_ s. I (fst s)) (\<lambda>s. E (fst s)) s"
  unfolding cancel_def acked_def [symmetric]
  by (erule wp_after_due)
    (auto simp: wp_simps wp_upd_set simp del: wp_upd_order intro!: wp_mk_ack wp_acked mark weaken simp: marks_def ended_def
      split: result.splits)

lemma wp_stop_inside: "I b \<Longrightarrow> n < length (bk_orders b) \<Longrightarrow> wp (fill_stop_inside_entry_bar x tb n) (\<lambda>_. I) E b"
  unfolding fill_stop_inside_entry_bar_def
  by (auto simp: wp_simps intro!: fill weaken split: result.splits option.splits)

lemma wp_add_order:
  assumes "I b" "ok ord" "imap_get (bk_index b) (vo_id ord) = None" "sim_validate ord b = Ok ()" "st = Accepted \<or> st = Rejected"
  shows "wp (add_order ord st t) (\<lambda>n b. I b \<and> n < length (bk_orders b)) F b"
  using add [OF assms, of t] by (simp add: add_order_def wp_simps sm_simps)

lemma wp_submit:
  assumes o: "ok ord" and s: "I (fst s)"
  shows "wp (submit x tb ord) (\<lambda>_ s. I (fst s)) (\<lambda>s. E (fst s)) s"
proof -
  have new: "wp (add_order ord st t) Q F b"
    if "I b" "sim_validate ord b = Ok ()" "imap_get (bk_index b) (vo_id ord) = None" "st = Accepted \<or> st = Rejected"
      "\<And>n b'. I b' \<Longrightarrow> n < length (bk_orders b') \<Longrightarrow> Q n b'" for st t Q F b
    by (rule wp_mono [OF wp_add_order [of b, where F = F]]) (use that o in auto)
  have stop: "wp (fill_stop_inside_entry_bar x tb n) Q F b"
    if "I b" "n < length (bk_orders b)" "\<And>a b. I b \<Longrightarrow> Q a b" "\<And>b. E b \<Longrightarrow> F b" for n Q F b
    by (rule wp_mono [OF wp_stop_inside [OF that(1,2)]]) (use that in auto)
  have due: "wp (expire_due x tb) Q (\<lambda>s. E (fst s)) s" if "\<And>a b c. I b \<Longrightarrow> Q a (b, c)" for Q
    by (rule wp_mono [OF wp_expire_due [OF s]]) (use that in auto)
  show ?thesis
    unfolding submit_def wp_sbind using s
    by (auto simp: wp_simps intro!: due wp_mk_ack new stop weaken split: result.splits option.splits)
qed

lemma wp_replace_begin: "I (fst s) \<Longrightarrow> wp (replace_begin x tb oid nq) (\<lambda>_ s. I (fst s)) (\<lambda>s. E (fst s)) s"
  unfolding replace_begin_def Let_def
  by (erule wp_after_due) (auto simp: wp_simps intro!: wp_mono [OF wp_mk_ack] weaken split: result.splits)

lemma wp_replace_commit:
  assumes "I (fst t)" "ok ord" "imap_get (bk_index (fst t)) oid = Some i" "replaces (wk_order (order_at i (fst t))) ord q"
    "replaceable oid q (fst t)"
  shows "wp (replace_commit x oid ord) (\<lambda>_ s. I (fst s)) (\<lambda>s. E (fst s)) t"
proof -
  have "replace_commit x oid ord t = acked x i oid (set_order i (replaced ord (order_at i (fst t))) (fst t), snd t)"
    by (simp add: replace_commit_eq [OF assms(3)] Let_def replaced_def order_at_def)
  moreover have "wp (acked x i oid) (\<lambda>_ s. I (fst s)) (\<lambda>s. E (fst s)) (set_order i (replaced ord (order_at i (fst t))) (fst t), snd t)"
    by (rule wp_acked) (simp add: commit [OF assms])
  ultimately show ?thesis by (simp add: wp_def)
qed

lemma wp_reads:
  assumes "I (fst s)"
  shows "wp (orders_since x tb since) (\<lambda>_ s. I (fst s)) (\<lambda>s. E (fst s)) s" "wp (fills_since x tb since) (\<lambda>_ s. I (fst s)) (\<lambda>s. E (fst s)) s"
    "wp (open_positions x tb) (\<lambda>_ s. I (fst s)) (\<lambda>s. E (fst s)) s" "wp (connect x) (\<lambda>_ s. I (fst s)) (\<lambda>s. E (fst s)) s"
proof -
  show "wp (orders_since x tb since) (\<lambda>_ s. I (fst s)) (\<lambda>s. E (fst s)) s" unfolding orders_since_def
    using assms by (auto simp: wp_simps intro!: wp_mono [OF wp_expire_due] weaken split: result.splits)
  show "wp (fills_since x tb since) (\<lambda>_ s. I (fst s)) (\<lambda>s. E (fst s)) s" unfolding fills_since_def
    using assms by (auto simp: wp_simps intro!: wp_mono [OF wp_expire_due] weaken split: result.splits)
  show "wp (open_positions x tb) (\<lambda>_ s. I (fst s)) (\<lambda>s. E (fst s)) s" unfolding open_positions_def
    using assms by (auto simp: wp_simps intro!: wp_mono [OF wp_expire_due] weaken split: result.splits)
  show "wp (connect x) (\<lambda>_ s. I (fst s)) (\<lambda>s. E (fst s)) s" unfolding connect_def
    using assms by (auto simp: wp_simps intro: connected weaken split: result.splits)
qed

text \<open>A step, and a run.\<close>

lemma answered: "wp m (\<lambda>_ s. I (fst s)) (\<lambda>s. E (fst s)) s \<Longrightarrow> m s = (r, t) \<Longrightarrow> (accepted \<longrightarrow> is_ok r)
    \<Longrightarrow> (accepted \<longrightarrow> I (fst t)) \<and> E (fst t)"
  using weaken by (cases r) (auto simp: wp_def)

lemma sim_tr_keeps: "sim_tr x tb ok saved accepted s t \<Longrightarrow> I (fst s) \<Longrightarrow> (accepted \<longrightarrow> I (fst t)) \<and> E (fst t)"
proof (induction rule: sim_tr.induct)
  case (tr_commit oid nq s q u i ord r t)
  have "I (fst u)" using answered [OF wp_replace_begin [OF tr_commit.prems] tr_commit(1), of True] by simp
  then show ?case
    using answered [OF wp_replace_commit tr_commit(5)] tr_commit.hyps replace_begin_Go [OF tr_commit(1)] by blast
next
  case (tr_bar bo s fs t)
  have bar: "wp (on_book (process_bar x tb bo)) (\<lambda>_ s. I (fst s)) (\<lambda>s. E (fst s)) s"
    using wp_process_bar [OF tr_bar.prems] by (simp add: wp_on_book)
  show ?case by (rule answered [OF bar tr_bar.hyps])
next
  case (tr_submit ord s r t)
  show ?case by (rule answered [OF wp_submit [OF tr_submit(1) tr_submit.prems] tr_submit(2,3)])
next
  case (tr_reject oid msg s r t)
  show ?case by (rule answered [OF wp_mk_ack [OF tr_reject.prems] tr_reject.hyps [unfolded replace_reject_def]])
next
  case (tr_connect s r t)
  show ?case by (rule answered [OF wp_reads(4) [OF tr_connect.prems] tr_connect.hyps])
next
  case (tr_cancel oid s r t)
  show ?case by (rule answered [OF wp_cancel [OF tr_cancel.prems] tr_cancel.hyps])
next
  case (tr_begin oid nq s b t)
  show ?case by (rule answered [OF wp_replace_begin [OF tr_begin.prems] tr_begin.hyps])
next
  case (tr_orders since s ws t)
  show ?case by (rule answered [OF wp_reads(1) [OF tr_orders.prems] tr_orders.hyps])
next
  case (tr_fills since s fs t)
  show ?case by (rule answered [OF wp_reads(2) [OF tr_fills.prems] tr_fills.hyps])
next
  case (tr_positions s ps t)
  show ?case by (rule answered [OF wp_reads(3) [OF tr_positions.prems] tr_positions.hyps])
next
  case (tr_restore orders fills positions r s t)
  show ?case using restored [OF tr_restore.prems tr_restore(1,2)] tr_restore(3) by blast
qed

lemma sim_run_keeps:
  assumes "sim_run x tb ok saved accepted s t" "I (fst s)" "accepted \<or> (\<forall>b. E b \<longrightarrow> I b)"
  shows "I (fst t)"
  using assms(1) by (rule sim_run_invariant) (use sim_tr_keeps assms(2,3) in blast)+

end

end
