(* ===== verification/Sim_Books.thy ===== *)
theory Sim_Books
  imports Sim_Keeps Dates_Props Occ
begin

section \<open>The book of the simulated broker balances\<close>

text \<open>
  The invariant of the book, for orders whose quantities are multiples of \<open>10 ^ -k\<close> of size at most \<open>B\<close>
  with room below 28 digits: the index names the orders, every order's state agrees with what is filled of
  it, what is filled is the sum of its fills, exits never exceed their entry, and fill numbers do not repeat.
\<close>

subsection \<open>Multiples of a power of ten\<close>

definition on_grid :: "nat \<Rightarrow> rat \<Rightarrow> bool" where
  "on_grid k v \<longleftrightarrow> (\<exists>n::int. v = of_int n / 10 ^ k)"

lemma on_grid_round_scale:
  assumes "on_grid k r" "k \<le> 28" shows "round_scale r = r"
proof -
  obtain n where n: "r = of_int n / 10 ^ k" using assms(1) by (auto simp: on_grid_def)
  have "(10::rat) ^ 28 = 10 ^ k * 10 ^ (28 - k)" using assms(2) by (simp add: power_add [symmetric])
  then have "\<bar>r\<bar> * 10 ^ 28 = \<bar>r\<bar> * 10 ^ k * 10 ^ (28 - k)" by (simp only: mult.assoc)
  also have "\<dots> = of_int (\<bar>n\<bar> * 10 ^ (28 - k))" unfolding n by simp
  finally have "\<bar>r\<bar> * 10 ^ 28 = of_int (\<bar>n\<bar> * 10 ^ (28 - k))" .
  then have "round_scale r = sgn r * (\<bar>r\<bar> * 10 ^ 28) / 10 ^ 28" unfolding round_scale_def by (metis rhe_of_int)
  then show ?thesis by (simp add: sgn_mult_abs)
qed

lemma on_grid_rounds:
  assumes "on_grid k v" "k \<le> 28" "rounds_to v y"
  shows "on_grid k y"
proof (cases "v = 0")
  case True
  then show ?thesis using assms(1,3) by (auto simp: rounds_to_def)
next
  case False
  obtain n where n: "v = of_int n / 10 ^ k" using assms(1) by (auto simp: on_grid_def)
  obtain e r where r: "r = sgn v * of_int (rhe (\<bar>v\<bar> / 10 powi e)) * 10 powi e" "y = round_scale r"
    using assms(3) False by (auto simp: rounds_to_def round_prec_def)
  have "on_grid k r"
  proof (cases "e \<le> - int k")
    case True
    define j where "j = nat (- int k - e)"
    have "e = - int k + - int j" using True by (simp add: j_def)
    then have e: "(10::rat) powi e = 1 / (10 ^ k * 10 ^ j)"
      by (simp only: pow10_add) (simp add: power_int_minus field_simps)
    have "\<bar>v\<bar> / 10 powi e = of_int (\<bar>n\<bar> * 10 ^ j)" unfolding n e by (simp add: abs_div)
    then have "of_int (rhe (\<bar>v\<bar> / 10 powi e)) = \<bar>v\<bar> / 10 powi e" by (metis rhe_of_int)
    then have "r = v" unfolding r(1) by (simp add: sgn_mult_abs)
    then show ?thesis using assms(1) by simp
  next
    case False
    define j where "j = nat (e + int k)"
    have "e = int j + - int k" using False by (simp add: j_def)
    then have "(10::rat) powi e = 10 ^ j / 10 ^ k"
      by (simp only: pow10_add) (simp add: power_int_minus field_simps)
    then have "r = of_int (sgn n * rhe (\<bar>v\<bar> / 10 powi e) * 10 ^ j) / 10 ^ k" unfolding r(1) n
      by (simp add: sgn_if zero_less_divide_iff)
    then show ?thesis unfolding on_grid_def by blast
  qed
  then show ?thesis using r(2) on_grid_round_scale assms(2) by simp
qed
lemma on_grid_simps [simp]: "on_grid k 0" "on_grid k (- v) \<longleftrightarrow> on_grid k v" "on_grid k \<bar>v\<bar> \<longleftrightarrow> on_grid k v"
proof -
  show "on_grid k 0" by (auto simp: on_grid_def intro: exI [of _ 0])
  have "on_grid k (- v)" if "on_grid k v" for v
    using that by (auto simp: on_grid_def intro: exI [of _ "- n" for n :: int])
  from this [of v] this [of "- v"] show neg: "on_grid k (- v) \<longleftrightarrow> on_grid k v" by auto
  show "on_grid k \<bar>v\<bar> \<longleftrightarrow> on_grid k v" using neg by (simp add: abs_if)
qed

lemma on_grid_add: "on_grid k v \<Longrightarrow> on_grid k w \<Longrightarrow> on_grid k (v + w)"
  unfolding on_grid_def by (metis add_divide_distrib of_int_add)

lemma on_grid_sub: "on_grid k v \<Longrightarrow> on_grid k w \<Longrightarrow> on_grid k (v - w)"
  using on_grid_add [of k v "- w"] by simp

lemma grid_iff: "grid k B v \<longleftrightarrow> on_grid k v \<and> \<bar>v\<bar> \<le> B"
  by (simp add: grid_def on_grid_def)

text \<open>What the operations on such amounts answer.\<close>

definition amount :: "nat \<Rightarrow> money \<Rightarrow> bool" where
  "amount k m \<longleftrightarrow> canonical m \<and> on_grid k (mval m)"

lemma amount_ZERO [simp]: "amount k ZERO"
  by (simp add: amount_def)

lemma amount_minmax: "amount k a \<Longrightarrow> amount k b \<Longrightarrow> amount k (dmin a b) \<and> amount k (dmax a b)"
  by (simp add: dmin_def dmax_def)

lemma mval_minmax [simp]: "mval (dmin a b) = min (mval a) (mval b)" "mval (dmax a b) = max (mval a) (mval b)"
  by (auto simp: dmin_def dmax_def)

lemma amount_add: "k \<le> 28 \<Longrightarrow> amount k a \<Longrightarrow> amount k b \<Longrightarrow> dadd a b = Ok c \<Longrightarrow> amount k c"
  using amt.add_Ok on_grid_rounds on_grid_add unfolding amount_def by blast

lemma amount_neg: "k \<le> 28 \<Longrightarrow> amount k a \<Longrightarrow> dneg a = Ok c \<Longrightarrow> amount k c"
  using dneg_Ok [of a c] on_grid_rounds [of k "- mval a"] unfolding amount_def by simp

lemma amount_abs: "k \<le> 28 \<Longrightarrow> amount k a \<Longrightarrow> map_err derr (money_abs a) = Ok c \<Longrightarrow> amount k c"
  using dabs_Ok [of a c] on_grid_rounds [of k "\<bar>mval a\<bar>"] unfolding amount_def dabs_def by simp

lemma amount_add_exact:
  assumes "room k B" "amount k a" "amount k b" "\<bar>mval a + mval b\<bar> \<le> B"
  shows "\<exists>c. dadd a b = Ok c \<and> amount k c \<and> mval c = mval a + mval b"
  using dadd_grid [of a b k B] assms on_grid_add [of k "mval a" "mval b"] by (auto simp: amount_def grid_iff)

lemma amount_sub_exact:
  assumes "room k B" "amount k a" "amount k b" "\<bar>mval a - mval b\<bar> \<le> B"
  shows "\<exists>c. dsub a b = Ok c \<and> amount k c \<and> mval c = mval a - mval b"
  using dsub_grid [of a b k B] assms on_grid_sub [of k "mval a" "mval b"] by (auto simp: amount_def grid_iff)

subsection \<open>The invariant\<close>

definition filled_of :: "string \<Rightarrow> vfill list \<Rightarrow> rat" where
  "filled_of oid fs = (\<Sum>f\<leftarrow>fs. if vf_order_id f = oid then mval (vf_quantity f) else 0)"

definition exited_of :: "string \<Rightarrow> working list \<Rightarrow> rat" where
  "exited_of oid ws = (\<Sum>w\<leftarrow>ws. if vo_parent (wk_order w) = Some oid then mval (wk_filled w) else 0)"

definition order_good :: "nat \<Rightarrow> rat \<Rightarrow> vorder \<Rightarrow> bool" where
  "order_good k B ord \<longleftrightarrow> amount k (vo_quantity ord) \<and> 0 < mval (vo_quantity ord) \<and> mval (vo_quantity ord) \<le> B"

definition working_good :: "nat \<Rightarrow> rat \<Rightarrow> book \<Rightarrow> working \<Rightarrow> bool" where
  "working_good k B b w \<longleftrightarrow> order_good k B (wk_order w) \<and> amount k (wk_filled w) \<and> 0 \<le> mval (wk_filled w)
     \<and> restorable (wk_state w) \<and> restored_consistent w
     \<and> mval (wk_filled w) = filled_of (vo_id (wk_order w)) (bk_fills b)
     \<and> exited_of (vo_id (wk_order w)) (bk_orders b) \<le> mval (wk_filled w)
     \<and> (\<forall>p. vo_parent (wk_order w) = Some p \<longrightarrow> imap_get (bk_index b) p \<noteq> None)"

definition fill_id_of :: "string \<Rightarrow> nat \<Rightarrow> string" where
  "fill_id_of oid n = oid @ fill_suffix @ nat_to_string n"

text \<open>An id of the broker: the order's, and a number in any decimal spelling, as a restored fill may have leading zeros.\<close>

definition numbered :: "string \<Rightarrow> nat \<Rightarrow> string \<Rightarrow> bool" where
  "numbered oid n fid \<longleftrightarrow> (\<exists>d. ascii_decimal d \<and> num d = n \<and> fid = oid @ fill_suffix @ d)"

definition fill_good :: "book \<Rightarrow> vfill \<Rightarrow> bool" where
  "fill_good b f \<longleftrightarrow> (\<exists>i ord. imap_get (bk_index b) (vf_order_id f) = Some i \<and> ord = wk_order (order_at i b)
       \<and> vf_instr f = vo_instr ord \<and> vf_side f = vo_side ord)
     \<and> 0 < mval (vf_quantity f) \<and> 0 < mval (vf_price f)
     \<and> (\<exists>n. n < next_number b (vf_order_id f) \<and> numbered (vf_order_id f) n (vf_fill_id f))"

lemma fill_goodI:
  assumes "imap_get (bk_index b) (vf_order_id f) = Some i" "vf_instr f = vo_instr (wk_order (order_at i b))"
    "vf_side f = vo_side (wk_order (order_at i b))" "0 < mval (vf_quantity f)" "0 < mval (vf_price f)"
    "n < next_number b (vf_order_id f)" "numbered (vf_order_id f) n (vf_fill_id f)"
  shows "fill_good b f"
  using assms by (auto simp: fill_good_def)

definition index_good :: "book \<Rightarrow> bool" where
  "index_good b \<longleftrightarrow> (\<forall>oid i. imap_get (bk_index b) oid = Some i \<longleftrightarrow>
     i < length (bk_orders b) \<and> vo_id (wk_order (bk_orders b ! i)) = oid)"

definition positions_good :: "nat \<Rightarrow> book \<Rightarrow> bool" where
  "positions_good k b \<longleftrightarrow> (\<forall>h p. imap_get (bk_positions b) h = Some p \<longrightarrow> amount k (ps_qty p))"

definition book_good :: "nat \<Rightarrow> rat \<Rightarrow> book \<Rightarrow> bool" where
  "book_good k B b \<longleftrightarrow> index_good b \<and> (\<forall>w \<in> set (bk_orders b). working_good k B b w)
     \<and> (\<forall>f \<in> set (bk_fills b). fill_good b f) \<and> distinct (map vf_fill_id (bk_fills b)) \<and> positions_good k b"

lemma book_good_empty: "book_good k B (empty_book account venue bps ticks)"
  by (simp add: book_good_def empty_book_def index_good_def positions_good_def imap_get_def)

lemma state_cases:
  "restorable (wk_state w) \<Longrightarrow> restored_consistent w \<longleftrightarrow>
     (case wk_state w of Accepted \<Rightarrow> mval (wk_filled w) = 0
      | PartiallyFilled \<Rightarrow> 0 < mval (wk_filled w) \<and> mval (wk_filled w) < mval (vo_quantity (wk_order w))
      | Filled \<Rightarrow> mval (wk_filled w) = mval (vo_quantity (wk_order w))
      | _ \<Rightarrow> mval (wk_filled w) \<le> mval (vo_quantity (wk_order w)))"
  by (auto simp: restored_consistent_def Let_def pos0_def restorable_def)

lemma working_exits: "working_good k B b w \<Longrightarrow> exited_of (vo_id (wk_order w)) (bk_orders b) \<le> mval (wk_filled w)"
  unfolding working_good_def by blast

lemma working_le: "working_good k B b w \<Longrightarrow> mval (wk_filled w) \<le> mval (vo_quantity (wk_order w))"
  by (auto simp: working_good_def state_cases order_good_def restorable_def)

subsection \<open>Fill numbers\<close>

lemma nat_to_string_digits: "\<forall>c \<in> set (nat_to_string n). digit_byte c"
  using dec_digits_bound digit_char_byte by (auto simp: nat_to_string_def)

lemma numbered_fill_id: "numbered oid n (fill_id_of oid n)"
proof -
  have "map (\<lambda>c. of_char c - 48) (nat_to_string n) = map (\<lambda>d. d) (dec_digits n)"
    unfolding nat_to_string_def map_map by (rule map_cong) (use dec_digits_bound digit_char_byte in \<open>auto simp: comp_def\<close>)
  then have "num (nat_to_string n) = n" by (simp add: num_def)
  moreover have "ascii_decimal (nat_to_string n)"
    using nat_to_string_digits [of n] by (auto simp: ascii_decimal_def list_all_iff nat_to_string_def)
  ultimately show ?thesis by (auto simp: numbered_def fill_id_of_def)
qed

lemma numbered_inj:
  assumes "numbered a n fid" "numbered c m fid"
  shows "a = c \<and> n = m"
proof -
  obtain d e where d: "ascii_decimal d" "num d = n" "fid = a @ fill_suffix @ d" and e: "ascii_decimal e" "num e = m" "fid = c @ fill_suffix @ e"
    using assms by (auto simp: numbered_def)
  have "\<not> digit_byte (CHR '':'')" using digit_byte_neq(5) by blast
  then have tail: "takeWhile digit_byte (rev (a @ fill_suffix @ d)) = rev d" if "ascii_decimal d" for a d
    using that unfolding fill_suffix_def rev_append ascii_decimal_def list_all_iff
    by (subst append_assoc, subst takeWhile_append2) simp_all
  from tail [OF d(1), of a] tail [OF e(1), of c] d(3) e(3) have "d = e" by (metis rev_rev_ident)
  then show ?thesis using d e by simp
qed

subsection \<open>What an exit may fill\<close>

lemma exited_of_nonneg: "\<forall>w \<in> set ws. 0 \<le> mval (wk_filled w) \<Longrightarrow> 0 \<le> exited_of p ws"
  unfolding exited_of_def by (intro sum_list_nonneg) auto

lemma exited_fold:
  assumes "room k B" "\<forall>w \<in> set ws. amount k (wk_filled w) \<and> 0 \<le> mval (wk_filled w)"
    "amount k acc" "0 \<le> mval acc" "mval acc + exited_of p ws \<le> B"
  shows "\<exists>c. fold_r (\<lambda>acc w. if vo_parent (wk_order w) = Some p then dadd acc (wk_filled w) else Ok acc) acc ws = Ok c
    \<and> amount k c \<and> mval c = mval acc + exited_of p ws"
  using assms(2-)
proof (induction ws arbitrary: acc)
  case (Cons w ws)
  have nn: "0 \<le> exited_of p ws" using Cons.prems(1) by (intro exited_of_nonneg) auto
  show ?case
  proof (cases "vo_parent (wk_order w) = Some p")
    case True
    then have ex: "exited_of p (w # ws) = mval (wk_filled w) + exited_of p ws" by (simp add: exited_of_def)
    obtain c where c: "dadd acc (wk_filled w) = Ok c" "amount k c" "mval c = mval acc + mval (wk_filled w)"
      using amount_add_exact [OF assms(1) Cons.prems(2), of "wk_filled w"] Cons.prems nn ex by auto
    then show ?thesis using True Cons.IH [of c] Cons.prems ex by (auto simp: add.assoc)
  qed (use Cons in \<open>auto simp: exited_of_def\<close>)
qed (simp add: exited_of_def)

lemma working_at: "book_good k B b \<Longrightarrow> imap_get (bk_index b) p = Some i \<Longrightarrow>
    i < length (bk_orders b) \<and> vo_id (wk_order (bk_orders b ! i)) = p \<and> working_good k B b (bk_orders b ! i)"
  by (auto simp: book_good_def index_good_def)

lemma bracket_open:
  assumes "room k B" "book_good k B b" "bracket_open_quantity p b = Ok c"
  shows "\<exists>i. imap_get (bk_index b) p = Some i \<and> amount k c \<and> mval c = mval (wk_filled (bk_orders b ! i)) - exited_of p (bk_orders b)"
proof -
  obtain i where i: "imap_get (bk_index b) p = Some i"
    using assms(3) by (cases "imap_get (bk_index b) p") (auto simp: bracket_open_quantity_def known_order)
  note w = working_at [OF assms(2) i]
  let ?w = "bk_orders b ! i"
  have wg: "working_good k B b ?w" and le: "mval (wk_filled ?w) \<le> B"
    using w working_le [of k B b ?w] by (auto simp: working_good_def order_good_def)
  have all: "\<forall>w \<in> set (bk_orders b). amount k (wk_filled w) \<and> 0 \<le> mval (wk_filled w)"
    using assms(2) by (auto simp: book_good_def working_good_def)
  have ex: "exited_of p (bk_orders b) \<le> mval (wk_filled ?w)" "0 \<le> exited_of p (bk_orders b)"
  proof -
    show "exited_of p (bk_orders b) \<le> mval (wk_filled ?w)" using working_exits [OF wg] w by simp
    show "0 \<le> exited_of p (bk_orders b)" by (rule exited_of_nonneg) (use all in blast)
  qed
  obtain e where e: "fold_r (\<lambda>acc w. if vo_parent (wk_order w) = Some p then dadd acc (wk_filled w) else Ok acc) ZERO (bk_orders b) = Ok e"
    "amount k e" "mval e = exited_of p (bk_orders b)"
    using exited_fold [OF assms(1) all, of ZERO p] ex le by auto
  obtain l where l: "dsub (wk_filled ?w) e = Ok l" "amount k l" "mval l = mval (wk_filled ?w) - mval e"
    using amount_sub_exact [OF assms(1) _ e(2), of "wk_filled ?w"] wg ex le e(3) by (auto simp: working_good_def)
  show ?thesis
    using assms(3) i e l ex amount_minmax [OF l(2) amount_ZERO] by (auto simp: bracket_open_quantity_def known_order)
qed

lemma exit_quantity_good:
  assumes "room k B" "book_good k B b" "amount k q0" "exit_quantity ord q0 b = Ok q"
  shows "amount k q \<and> mval q \<le> mval q0 \<and> (\<forall>p. vo_parent ord = Some p \<longrightarrow>
    (\<exists>i. imap_get (bk_index b) p = Some i \<and> exited_of p (bk_orders b) + mval q \<le> mval (wk_filled (bk_orders b ! i))))"
proof (cases "vo_parent ord")
  case None
  then show ?thesis using assms(3,4) by (simp add: exit_quantity_def)
next
  case (Some p)
  have k: "k \<le> 28" using assms(1) by (simp add: room_def)
  let ?pos = "case imap_get (bk_positions b) (instr_hk (vo_instr ord)) of Some p \<Rightarrow> ps_qty p | None \<Rightarrow> ZERO"
  have pos: "amount k ?pos" using assms(2) by (auto simp: book_good_def positions_good_def split: option.splits)
  obtain op av where o: "bracket_open_quantity p b = Ok op" and q: "q = dmin (dmin q0 op) av"
    and av: "av = ZERO \<or> map_err derr (money_abs ?pos) = Ok av"
    using assms(4) Some by (auto simp: exit_quantity_def Let_def split: if_splits)
  have "amount k av" using av amount_abs [OF k pos] by auto
  then have "amount k q" using bracket_open [OF assms(1,2) o] assms(3) amount_minmax q by blast
  then show ?thesis using bracket_open [OF assms(1,2) o] Some q by auto
qed

subsection \<open>A fill keeps the invariant\<close>

lemma sum_update:
  fixes g :: "'a \<Rightarrow> rat"
  shows "i < length xs \<Longrightarrow> (\<Sum>w\<leftarrow>xs[i := y]. g w) = (\<Sum>w\<leftarrow>xs. g w) + g y - g (xs ! i)"
  by (induction xs arbitrary: i) (auto simp: nth_Cons split: nat.splits)

lemma sum_none: "\<forall>a \<in> set xs. \<not> P a \<Longrightarrow> (\<Sum>a\<leftarrow>xs. if P a then g a else 0) = (0::rat)"
  by (induction xs) auto

lemma filled_of_append: "filled_of oid (fs @ [f]) = filled_of oid fs + (if vf_order_id f = oid then mval (vf_quantity f) else 0)"
  by (simp add: filled_of_def)

lemma exited_of_update:
  assumes "i < length ws" "vo_parent (wk_order w) = vo_parent (wk_order (ws ! i))"
  shows "exited_of p (ws[i := w]) = exited_of p ws
    + (if vo_parent (wk_order w) = Some p then mval (wk_filled w) - mval (wk_filled (ws ! i)) else 0)"
  unfolding exited_of_def by (subst sum_update [OF assms(1)]) (simp add: assms(2))

definition qty_at :: "book \<Rightarrow> string \<Rightarrow> money" where
  "qty_at b hk = (case imap_get (bk_positions b) hk of Some p \<Rightarrow> ps_qty p | None \<Rightarrow> ZERO)"

lemma update_position_cases:
  obtains (refused) e where "update_position f b = (Err e, b)"
  | (moved) change updated p where "(if vf_side f = Buy then Ok (vf_quantity f) else dneg (vf_quantity f)) = Ok change"
      "dadd (qty_at b (instr_hk (vf_instr f))) change = Ok updated" "ps_qty p = updated"
      "update_position f b = (Ok (), b\<lparr>bk_positions := imap_put (bk_positions b) (instr_hk (vf_instr f)) p\<rparr>)"
proof -
  let ?hk = "instr_hk (vf_instr f)"
  let ?qa = "case imap_get (bk_positions b) ?hk of Some p \<Rightarrow> (ps_qty p, ps_avg p) | None \<Rightarrow> (ZERO, ZERO)"
  have qa: "fst ?qa = qty_at b ?hk" by (simp add: qty_at_def split: option.splits)
  obtain q a where e: "?qa = (q, a)" by fastforce
  with qa have q: "qty_at b ?hk = q" by simp
  show thesis
  proof (cases "if vf_side f = Buy then Ok (vf_quantity f) else dneg (vf_quantity f)")
    case (Err er)
    show thesis by (rule refused [of er]) (simp add: update_position_def Let_def sbind_sget e sbind_slift Err)
  next
    case (Ok change)
    note c = Ok
    show thesis
    proof (cases "dadd q change")
      case (Err er)
      show thesis by (rule refused [of er]) (simp add: update_position_def Let_def sbind_sget e sbind_slift c Err)
    next
      case (Ok updated)
      note u = Ok
      show thesis
      proof (cases "updated_average q a change updated (vf_price f)")
        case (Err er)
        show thesis by (rule refused [of er]) (simp add: update_position_def Let_def sbind_sget e sbind_slift c u Err)
      next
        case (Ok avg)
        show thesis
          by (rule moved [OF c, of updated "\<lparr>ps_instr = vf_instr f, ps_qty = updated, ps_avg = avg, ps_as_of = vf_filled_at f\<rparr>"])
            (simp_all add: q update_position_def Let_def sbind_sget e sbind_slift c u Ok smod_apply)
      qed
    qed
  qed
qed

lemma qty_at_good: "positions_good k b \<Longrightarrow> amount k (qty_at b hk)"
  by (auto simp: positions_good_def qty_at_def split: option.splits)

lemma update_position_good:
  assumes "k \<le> 28" "positions_good k b" "amount k (vf_quantity f)"
  shows "positions_good k (snd (update_position f b))"
proof (cases rule: update_position_cases [of f b])
  case (moved change updated p)
  have "amount k change"
    using moved(1) assms(3) amount_neg [OF assms(1,3)] by (cases "vf_side f = Buy") auto
  then have "amount k (ps_qty p)" using amount_add [OF assms(1) qty_at_good [OF assms(2)]] moved(2,3) by simp
  then show ?thesis using moved(4) assms(2) by (auto simp: positions_good_def)
qed (use assms in simp)

lemma next_number_counted [simp]:
  "next_number (counted b oid) o' = (if o' = oid then next_number b oid + 1 else next_number b o')"
  by (simp add: next_number_def counted_def)

text \<open>The order after the fill, and the book with it.\<close>

lemma filled_working_good:
  assumes "room k B" "i < length (bk_orders b)" "working_good k B b (bk_orders b ! i)" "fill_made i price t b q" "amount k q"
    "mval q \<le> mval (vo_quantity (wk_order (bk_orders b ! i))) - mval (wk_filled (bk_orders b ! i))"
    "dadd (wk_filled (bk_orders b ! i)) q = Ok filled"
  shows "amount k filled \<and> mval filled = mval (wk_filled (bk_orders b ! i)) + mval q
    \<and> restorable (wk_state (filled_working (bk_orders b ! i) filled t)) \<and> restored_consistent (filled_working (bk_orders b ! i) filled t)"
proof -
  let ?w = "bk_orders b ! i"
  have w: "amount k (wk_filled ?w)" "0 \<le> mval (wk_filled ?w)" "mval (vo_quantity (wk_order ?w)) \<le> B" and q: "0 < mval q"
    using assms(3,4) by (auto simp: working_good_def order_good_def fill_made_def)
  have f: "amount k filled" "mval filled = mval (wk_filled ?w) + mval q"
    using amount_add_exact [OF assms(1) w(1) assms(5)] assms(6,7) w q by auto
  then show ?thesis
    using assms(6) w(2) q by (auto simp: filled_working_def restorable_def restored_consistent_def pos0_def)
qed

lemma next_number_frame: "next_number (b\<lparr>bk_fills := fs, bk_orders := ws, bk_positions := ps\<rparr>) oid = next_number b oid"
  by (simp add: next_number_def)

lemma booked_fills:
  assumes g: "book_good k B b" and i: "i < length (bk_orders b)"
    and f: "vf_order_id f = vo_id (wk_order (bk_orders b ! i))" "vf_instr f = vo_instr (wk_order (bk_orders b ! i))"
      "vf_side f = vo_side (wk_order (bk_orders b ! i))" "0 < mval (vf_quantity f)" "0 < mval (vf_price f)"
      "vf_fill_id f = fill_id_of (vf_order_id f) (next_number b (vf_order_id f))"
    and c: "bk_index c = bk_index b" "\<And>j. j < length (bk_orders b) \<Longrightarrow> wk_order (bk_orders c ! j) = wk_order (bk_orders b ! j)"
      "\<And>oid. next_number c oid = next_number (counted b (vf_order_id f)) oid"
  shows "(\<forall>h \<in> set (bk_fills b @ [f]). fill_good c h) \<and> distinct (map vf_fill_id (bk_fills b @ [f]))"
proof -
  have ig: "index_good b" and fg: "\<And>h. h \<in> set (bk_fills b) \<Longrightarrow> fill_good b h" and ds: "distinct (map vf_fill_id (bk_fills b))"
    using g by (auto simp: book_good_def)
  have "fill_good c h" if h: "h \<in> set (bk_fills b)" for h
  proof -
    obtain j n where j: "imap_get (bk_index b) (vf_order_id h) = Some j" "vf_instr h = vo_instr (wk_order (order_at j b))"
      "vf_side h = vo_side (wk_order (order_at j b))" and n: "n < next_number b (vf_order_id h)" "numbered (vf_order_id h) n (vf_fill_id h)"
      using fg [OF h] by (auto simp: fill_good_def)
    have "wk_order (order_at j c) = wk_order (order_at j b)" using j(1) ig c(2) by (auto simp: index_good_def order_at_def)
    then show ?thesis using fg [OF h] j n c(1) by (auto simp: fill_good_def c(3) intro: exI [of _ n])
  qed
  moreover have "fill_good c f"
  proof -
    have "imap_get (bk_index c) (vf_order_id f) = Some i" using ig i f(1) unfolding index_good_def c(1) by metis
    moreover have "wk_order (order_at i c) = wk_order (bk_orders b ! i)" using c(2) [OF i] by (simp add: order_at_def)
    moreover have "next_number b (vf_order_id f) < next_number c (vf_order_id f)" by (simp add: c(3))
    ultimately show ?thesis using f(2-6) numbered_fill_id by (intro fill_goodI [of c f i "next_number b (vf_order_id f)"]) simp_all
  qed
  moreover have "vf_fill_id h \<noteq> vf_fill_id f" if h: "h \<in> set (bk_fills b)" for h
  proof
    assume same: "vf_fill_id h = vf_fill_id f"
    obtain n where n: "n < next_number b (vf_order_id h)" "numbered (vf_order_id h) n (vf_fill_id h)"
      using fg [OF h] by (auto simp: fill_good_def)
    have "numbered (vf_order_id f) (next_number b (vf_order_id f)) (vf_fill_id h)" unfolding same f(6) by (rule numbered_fill_id)
    then show False using numbered_inj [OF n(2)] n(1) by auto
  qed
  then have "vf_fill_id f \<notin> vf_fill_id ` set (bk_fills b)" by (metis imageE)
  ultimately show ?thesis using ds by simp
qed

lemma booked_good:
  assumes g: "book_good k B b" and i: "i < length (bk_orders b)"
    and f: "vf_order_id f = vo_id (wk_order (bk_orders b ! i))" "vf_instr f = vo_instr (wk_order (bk_orders b ! i))"
      "vf_side f = vo_side (wk_order (bk_orders b ! i))" "0 < mval (vf_quantity f)" "0 < mval (vf_price f)"
      "vf_fill_id f = fill_id_of (vf_order_id f) (next_number b (vf_order_id f))"
    and w: "wk_order w = wk_order (bk_orders b ! i)" "amount k (wk_filled w)"
      "mval (wk_filled w) = mval (wk_filled (bk_orders b ! i)) + mval (vf_quantity f)" "restorable (wk_state w)" "restored_consistent w"
    and x: "\<And>p. vo_parent (wk_order w) = Some p \<Longrightarrow>
      \<exists>j. imap_get (bk_index b) p = Some j \<and> exited_of p (bk_orders b) + mval (vf_quantity f) \<le> mval (wk_filled (bk_orders b ! j))"
    and p: "positions_good k (b\<lparr>bk_positions := ps\<rparr>)"
  shows "book_good k B ((counted b (vf_order_id f))\<lparr>bk_fills := bk_fills b @ [f], bk_orders := (bk_orders b)[i := w], bk_positions := ps\<rparr>)"
    (is "book_good k B ?c")
proof -
  have len: "length (bk_orders ?c) = length (bk_orders b)" and ix: "bk_index ?c = bk_index b"
    and same: "\<And>j. j < length (bk_orders b) \<Longrightarrow> wk_order (bk_orders ?c ! j) = wk_order (bk_orders b ! j)"
    using w(1) by (auto simp: counted_def upd_nth)
  have ig: "index_good b" and wg: "\<And>j. j < length (bk_orders b) \<Longrightarrow> working_good k B b (bk_orders b ! j)"
    using g by (auto simp: book_good_def)
  have ic: "index_good ?c" unfolding index_good_def len ix using ig same by (auto simp: index_good_def)
  have own: "vo_id (wk_order (bk_orders b ! j)) = vf_order_id f \<longleftrightarrow> j = i" if "j < length (bk_orders b)" for j
    using ig i that f(1) unfolding index_good_def by (metis option.inject)
  have filled: "mval (wk_filled (bk_orders ?c ! j)) = mval (wk_filled (bk_orders b ! j)) + (if j = i then mval (vf_quantity f) else 0)"
    if "j < length (bk_orders b)" for j using that w(3) by (simp add: upd_nth)
  have exited: "exited_of o' (bk_orders ?c) = exited_of o' (bk_orders b) + (if vo_parent (wk_order w) = Some o' then mval (vf_quantity f) else 0)" for o'
    using exited_of_update [OF i, of w o'] w(1,3) by simp
  have "working_good k B ?c (bk_orders ?c ! j)" if j: "j < length (bk_orders b)" for j
  proof -
    have sum: "filled_of o' (bk_fills ?c) = filled_of o' (bk_fills b) + (if vf_order_id f = o' then mval (vf_quantity f) else 0)" for o'
      by (simp add: filled_of_append)
    have "exited_of (vo_id (wk_order (bk_orders b ! j))) (bk_orders ?c) \<le> mval (wk_filled (bk_orders ?c ! j))"
    proof (cases "vo_parent (wk_order w) = Some (vo_id (wk_order (bk_orders b ! j)))")
      case True
      from x [OF this] obtain l where l: "imap_get (bk_index b) (vo_id (wk_order (bk_orders b ! j))) = Some l"
        "exited_of (vo_id (wk_order (bk_orders b ! j))) (bk_orders b) + mval (vf_quantity f) \<le> mval (wk_filled (bk_orders b ! l))" by blast
      moreover have "l = j" using l(1) ig j unfolding index_good_def by (metis option.inject)
      ultimately show ?thesis using True exited filled [OF j] f(4) by auto
    next
      case False
      then show ?thesis using working_exits [OF wg [OF j]] exited filled [OF j] f(4) by auto
    qed
    moreover have "mval (wk_filled (bk_orders ?c ! j)) = filled_of (vo_id (wk_order (bk_orders b ! j))) (bk_fills ?c)"
      using wg [OF j] own [OF j] unfolding filled [OF j] sum by (auto simp: working_good_def)
    moreover have "amount k (wk_filled (bk_orders ?c ! j)) \<and> restorable (wk_state (bk_orders ?c ! j)) \<and> restored_consistent (bk_orders ?c ! j)"
      using wg [OF j] j w by (auto simp: upd_nth working_good_def)
    moreover have "0 \<le> mval (wk_filled (bk_orders ?c ! j))" using wg [OF j] f(4) unfolding filled [OF j] by (auto simp: working_good_def)
    ultimately show ?thesis using wg [OF j] unfolding working_good_def same [OF j] ix by blast
  qed
  moreover have "(\<forall>h \<in> set (bk_fills ?c). fill_good ?c h) \<and> distinct (map vf_fill_id (bk_fills ?c))"
    using booked_fills [OF g i f, of ?c] ix same by (simp add: next_number_frame)
  moreover have "positions_good k ?c" using p by (simp add: positions_good_def)
  ultimately show ?thesis using ic len by (auto simp: book_good_def in_set_conv_nth)
qed

text \<open>Every outcome of \<open>fill\<close>, for an order of the book.\<close>

lemma counted_good: "book_good k B b \<Longrightarrow> book_good k B (counted b oid)"
proof -
  have "fill_good b f \<Longrightarrow> fill_good (counted b oid) f" for f
    by (auto simp: fill_good_def order_at_def) (auto simp: counted_def next_number_def intro: less_SucI)
  then show "book_good k B b \<Longrightarrow> book_good k B (counted b oid)"
    by (auto simp: book_good_def index_good_def positions_good_def working_good_def) (auto simp: counted_def)
qed

lemma sim_fill_good:
  assumes r: "room k B" and g: "book_good k B b" and i: "i < length (bk_orders b)"
  shows "book_good k B (snd (sim_fill i price t b))"
proof -
  let ?w = "bk_orders b ! i"
  have at: "order_at i b = ?w" by (simp add: order_at_def)
  have wg: "working_good k B b ?w" using g i by (simp add: book_good_def)
  have made: "amount k q \<and> mval q \<le> mval (vo_quantity (wk_order ?w)) - mval (wk_filled ?w) \<and> (\<forall>p. vo_parent (wk_order ?w) = Some p \<longrightarrow>
      (\<exists>j. imap_get (bk_index b) p = Some j \<and> exited_of p (bk_orders b) + mval q \<le> mval (wk_filled (bk_orders b ! j))))"
    if q: "fill_made i price t b q" for q
  proof -
    obtain q0 where q0: "dsub (vo_quantity (wk_order ?w)) (wk_filled ?w) = Ok q0" "exit_quantity (wk_order ?w) q0 b = Ok q"
      using q by (auto simp: fill_made_def at)
    have "amount k q0 \<and> mval q0 = mval (vo_quantity (wk_order ?w)) - mval (wk_filled ?w)"
      using amount_sub_exact [OF r, of "vo_quantity (wk_order ?w)" "wk_filled ?w"] wg working_le [OF wg] q0(1)
      by (auto simp: working_good_def order_good_def)
    then show ?thesis using exit_quantity_good [OF r g _ q0(2)] by auto
  qed
  show ?thesis
  proof (cases rule: sim_fill_cases [of i price t b])
    case (broken q e)
    have "\<bar>mval (wk_filled ?w) + mval q\<bar> \<le> B"
      using made [OF broken(1)] wg broken(1) by (auto simp: working_good_def order_good_def fill_made_def)
    then show ?thesis
      using amount_add_exact [OF r, of "wk_filled ?w" q] made [OF broken(1)] wg broken(2) by (auto simp: at working_good_def)
  next
    case (booked q filled ps)
    note m = made [OF booked(1)]
    note f = filled_working_good [OF r i wg booked(1) _ _ booked(2) [unfolded at]] m
    have "positions_good k (snd (update_position (new_fill b (wk_order ?w) q price t) b))"
      by (rule update_position_good) (use r g m in \<open>auto simp: room_def book_good_def new_fill_def\<close>)
    then have "positions_good k (b\<lparr>bk_positions := ps\<rparr>)" using booked(5) by (simp add: positions_good_def at)
    then show ?thesis
      unfolding booked(3) at
      using booked_good [OF g i, of "new_fill b (wk_order ?w) q price t" "filled_working ?w filled t" ps] f m booked(1)
      by (auto simp: new_fill_def fill_id_of_def fill_made_def filled_working_def)
  qed (use g in \<open>simp_all add: counted_good\<close>)
qed

subsection \<open>The other steps keep the invariant\<close>

lemma set_order_good:
  assumes g: "book_good k B b"
    and w: "i < length (bk_orders b) \<Longrightarrow> order_good k B (wk_order w) \<and> vo_id (wk_order w) = vo_id (wk_order (bk_orders b ! i))
      \<and> vo_parent (wk_order w) = vo_parent (wk_order (bk_orders b ! i)) \<and> vo_instr (wk_order w) = vo_instr (wk_order (bk_orders b ! i))
      \<and> vo_side (wk_order w) = vo_side (wk_order (bk_orders b ! i)) \<and> wk_filled w = wk_filled (bk_orders b ! i)
      \<and> restorable (wk_state w) \<and> restored_consistent w"
  shows "book_good k B (set_order i w b)"
proof (cases "i < length (bk_orders b)")
  case True
  note w = w [OF True]
  let ?c = "set_order i w b"
  have ix: "bk_index ?c = bk_index b" "bk_fills ?c = bk_fills b" "bk_positions ?c = bk_positions b" "length (bk_orders ?c) = length (bk_orders b)"
    "\<And>oid. next_number ?c oid = next_number b oid" by (simp_all add: set_order_def next_number_def)
  have ids: "vo_id (wk_order (bk_orders ?c ! j)) = vo_id (wk_order (bk_orders b ! j))" "wk_filled (bk_orders ?c ! j) = wk_filled (bk_orders b ! j)"
    "vo_instr (wk_order (bk_orders ?c ! j)) = vo_instr (wk_order (bk_orders b ! j))" "vo_side (wk_order (bk_orders ?c ! j)) = vo_side (wk_order (bk_orders b ! j))"
    "vo_parent (wk_order (bk_orders ?c ! j)) = vo_parent (wk_order (bk_orders b ! j))" if "j < length (bk_orders b)" for j
    using that w by (simp_all add: set_order_def upd_nth)
  have ex: "exited_of oid (bk_orders ?c) = exited_of oid (bk_orders b)" for oid
    using exited_of_update [OF True, of w oid] w by (simp add: set_order_def)
  have ig: "index_good b" and wg: "\<And>j. j < length (bk_orders b) \<Longrightarrow> working_good k B b (bk_orders b ! j)"
    and fg: "\<And>f. f \<in> set (bk_fills b) \<Longrightarrow> fill_good b f"
    using g by (auto simp: book_good_def)
  have "index_good ?c" using ig ids(1) unfolding index_good_def ix by auto
  moreover have "working_good k B ?c (bk_orders ?c ! j)" if j: "j < length (bk_orders b)" for j
  proof -
    have "order_good k B (wk_order (bk_orders ?c ! j)) \<and> restorable (wk_state (bk_orders ?c ! j)) \<and> restored_consistent (bk_orders ?c ! j)"
      using wg [OF j] w j by (auto simp: set_order_def upd_nth working_good_def)
    then show ?thesis using wg [OF j] unfolding working_good_def ids [OF j] ex ix by blast
  qed
  moreover have "fill_good ?c f" if f: "f \<in> set (bk_fills b)" for f
  proof -
    obtain j where "imap_get (bk_index b) (vf_order_id f) = Some j" using fg [OF f] by (auto simp: fill_good_def)
    moreover from this have "j < length (bk_orders b)" using ig by (auto simp: index_good_def)
    ultimately show ?thesis using fg [OF f] ids(3,4) [of j] by (auto simp: fill_good_def ix order_at_def)
  qed
  ultimately show ?thesis using g ix unfolding book_good_def positions_good_def by (auto simp: in_set_conv_nth)
qed (use g in \<open>simp add: set_order_def list_update_beyond\<close>)

lemma marks_good:
  assumes "book_good k B b" "marks (order_at i b) w"
  shows "book_good k B (set_order i w b)"
proof (rule set_order_good [OF assms(1)])
  assume "i < length (bk_orders b)"
  then have g: "working_good k B b (order_at i b)" using assms(1) by (simp add: book_good_def order_at_def)
  have "restored_consistent w \<and> restorable (wk_state w)"
    using g working_le [OF g] assms(2) by (auto simp: marks_def working_good_def state_cases restored_consistent_def restorable_def)
  then show "order_good k B (wk_order w) \<and> vo_id (wk_order w) = vo_id (wk_order (bk_orders b ! i))
      \<and> vo_parent (wk_order w) = vo_parent (wk_order (bk_orders b ! i)) \<and> vo_instr (wk_order w) = vo_instr (wk_order (bk_orders b ! i))
      \<and> vo_side (wk_order w) = vo_side (wk_order (bk_orders b ! i)) \<and> wk_filled w = wk_filled (bk_orders b ! i)
      \<and> restorable (wk_state w) \<and> restored_consistent w"
    using g assms(2) by (simp add: marks_def working_good_def order_at_def)
qed

lemma fields_good [simp]:
  "book_good k B (b\<lparr>bk_last_bars := l\<rparr>) \<longleftrightarrow> book_good k B b" "book_good k B (b\<lparr>bk_connected := c\<rparr>) \<longleftrightarrow> book_good k B b"
  by (simp_all add: book_good_def index_good_def positions_good_def working_good_def fill_good_def next_number_def order_at_def)

lemma add_order_good:
  assumes g: "book_good k B b" and o: "order_good k B ord" and n: "imap_get (bk_index b) (vo_id ord) = None"
    and p: "\<And>q. vo_parent ord = Some q \<Longrightarrow> imap_get (bk_index b) q \<noteq> None" and st: "st = Accepted \<or> st = Rejected"
  shows "book_good k B (snd (add_order ord st t b))"
proof -
  let ?n = "length (bk_orders b)"
  let ?w = "\<lparr>wk_order = ord, wk_state = st, wk_filled = ZERO, wk_updated_at = t, wk_triggered = False\<rparr>"
  let ?c = "b\<lparr>bk_index := imap_put (bk_index b) (vo_id ord) ?n, bk_orders := bk_orders b @ [?w]\<rparr>"
  have c: "snd (add_order ord st t b) = ?c" by (simp add: add_order_def sm_simps)
  have ig: "index_good b" and wg: "\<And>w. w \<in> set (bk_orders b) \<Longrightarrow> working_good k B b w"
    and fg: "\<And>f. f \<in> set (bk_fills b) \<Longrightarrow> fill_good b f" and rest: "distinct (map vf_fill_id (bk_fills b))" "positions_good k b"
    using g by (auto simp: book_good_def)
  have fresh: "j < ?n \<Longrightarrow> vo_id (wk_order (bk_orders b ! j)) \<noteq> vo_id ord" for j
    using ig n unfolding index_good_def by (metis option.distinct(1))
  have "index_good ?c"
    using ig fresh by (auto simp: index_good_def nth_append less_Suc_eq)
  moreover have ex: "exited_of oid (bk_orders ?c) = exited_of oid (bk_orders b)" for oid by (simp add: exited_of_def)
  have "working_good k B ?c w" if "w \<in> set (bk_orders b)" for w
    using wg [OF that] unfolding working_good_def ex by auto
  moreover have "working_good k B ?c ?w"
  proof -
    have "\<forall>f \<in> set (bk_fills b). vf_order_id f \<noteq> vo_id ord" using fg n by (fastforce simp: fill_good_def)
    then have "filled_of (vo_id ord) (bk_fills b) = 0" unfolding filled_of_def by (rule sum_none)
    moreover have "\<forall>w \<in> set (bk_orders b). vo_parent (wk_order w) \<noteq> Some (vo_id ord)" using wg n by (fastforce simp: working_good_def)
    then have "exited_of (vo_id ord) (bk_orders b) = 0" unfolding exited_of_def by (rule sum_none)
    ultimately show ?thesis
      using o p st unfolding working_good_def ex by (auto simp: restorable_def restored_consistent_def order_good_def)
  qed
  moreover have "fill_good ?c f" if f: "f \<in> set (bk_fills b)" for f
  proof -
    obtain j where j: "imap_get (bk_index b) (vf_order_id f) = Some j" using fg [OF f] by (auto simp: fill_good_def)
    then have "vf_order_id f \<noteq> vo_id ord" using n by auto
    moreover have "j < ?n" using j ig by (auto simp: index_good_def)
    ultimately show ?thesis using fg [OF f] j by (auto simp: fill_good_def order_at_def nth_append next_number_def)
  qed
  ultimately show ?thesis unfolding c book_good_def using rest by (auto simp: positions_good_def)
qed

subsection \<open>Replacements\<close>

definition ledgered :: "nat \<Rightarrow> rat \<Rightarrow> book \<Rightarrow> bool" where
  "ledgered k B b \<longleftrightarrow> room k B \<and> book_good k B b"

lemma validated_parent: "sim_validate ord b = Ok () \<Longrightarrow> vo_parent ord = Some q \<Longrightarrow> imap_get (bk_index b) q \<noteq> None"
  by (auto simp: sim_validate_def lerr_def split: if_splits option.splits)

lemma replaced_good:
  assumes "book_good k B b" "order_good k B ord" "imap_get (bk_index b) oid = Some i"
    "replaces (wk_order (order_at i b)) ord q" "replaceable oid q b"
  shows "book_good k B (set_order i (replaced ord (order_at i b)) b)"
proof -
  let ?w = "order_at i b"
  have w: "working_good k B b ?w" using working_at [OF assms(1,3)] by (simp add: order_at_def)
  have q: "vo_quantity ord = q" "is_working (wk_state ?w)" "mval (wk_filled ?w) \<le> mval q" "0 < mval q"
    using assms(3-5) by (auto simp: replaces_def replaceable_def)
  have "restorable (wk_state (replaced ord ?w)) \<and> restored_consistent (replaced ord ?w)"
    using w q by (auto simp: replaced_def working_good_def is_working_def state_cases restorable_def restored_consistent_def pos0_def)
  then show ?thesis
    using assms(1,2,4) by (intro set_order_good) (auto simp: replaces_def order_at_def replaced_def)
qed

end
