(* ===== verification/Sim_Restore.thy ===== *)
theory Sim_Restore
  imports Sim_Books
begin

section \<open>Restoring the simulated broker\<close>

text \<open>
  \<open>restore\<close> loads saved orders, fills and positions into an empty book. It checks the states of the orders, that
  they are valid and given once, that fills name an order, its side and a number, and at the end that every order's
  state agrees with what is filled of it. It does not check that fill ids differ, that fills are positive, that
  exits stay within their entry, or that positions have anything to do with the fills: \<open>saved_good\<close> states these
  as conditions on the saved data. Given them, an answered restore gives a book that balances.
\<close>

subsection \<open>Loops and sums\<close>

lemma wp_sfor_from:
  assumes "I p s" "\<And>q a r t. as = q @ a # r \<Longrightarrow> I (p @ q) t \<Longrightarrow> wp (f a) (\<lambda>_. I (p @ q @ [a])) E t"
  shows "wp (sfor f as) (\<lambda>_. I (p @ as)) E s"
  using assms
proof (induction as arbitrary: p s)
  case (Cons a as)
  have "wp (f a) (\<lambda>_. I (p @ [a])) E s" using Cons.prems(2) [of "[]"] Cons.prems(1) by simp
  moreover have "wp (sfor f as) (\<lambda>_. I (p @ a # as)) E t" if "I (p @ [a]) t" for t
    using Cons.IH [OF that] Cons.prems(2) [of "a # q" for q] by simp
  ultimately show ?case unfolding sfor.simps wp_sbind by (rule wp_mono) simp
qed (simp add: wp_simps)

lemma wp_sfor_prefix:
  assumes "I [] s" "\<And>q a r t. as = q @ a # r \<Longrightarrow> I q t \<Longrightarrow> wp (f a) (\<lambda>_. I (q @ [a])) E t"
  shows "wp (sfor f as) (\<lambda>_. I as) E s"
  using wp_sfor_from [of I "[]" s as f E] assms by simp

lemma sum_sorted: "(\<Sum>a\<leftarrow>sort_key g xs. h a) = (\<Sum>a\<leftarrow>xs. h a :: rat)"
proof -
  have "(\<Sum>a\<leftarrow>insort_key g y ys. h a) = h y + (\<Sum>a\<leftarrow>ys. h a)" for y ys by (induction ys) auto
  then show ?thesis by (induction xs) simp_all
qed

lemma filled_of_nonneg: "\<forall>f \<in> set fs. 0 < mval (vf_quantity f) \<Longrightarrow> 0 \<le> filled_of oid fs"
  unfolding filled_of_def by (intro sum_list_nonneg) auto

lemma filled_of_app: "filled_of oid (fs @ gs) = filled_of oid fs + filled_of oid gs"
  by (simp add: filled_of_def)

subsection \<open>The saved data\<close>

definition exits_of :: "string \<Rightarrow> (vorder \<times> order_state) list \<Rightarrow> vfill list \<Rightarrow> rat" where
  "exits_of oid os fs = (\<Sum>os'\<leftarrow>os. if vo_parent (fst os') = Some oid then filled_of (vo_id (fst os')) fs else 0)"

definition held_of :: "string \<Rightarrow> pos list \<Rightarrow> rat" where
  "held_of hk ps = (\<Sum>p\<leftarrow>ps. if instr_hk (ps_instr p) = hk then mval (ps_qty p) else 0)"

definition fill_number :: "vfill \<Rightarrow> nat" where
  "fill_number f = num (snd (snd (rpartition (vf_fill_id f) fill_suffix)))"

text \<open>
  Quantities on the grid; fills positive, of the instrument of their order, with ids that differ and numbers so low
  that the \<open>u128\<close> counter does not wrap; the fills of exits within those of their entry; and the host goes on only
  when the restore was answered.
\<close>

definition saved_good :: "nat \<Rightarrow> rat \<Rightarrow> saved_data" where
  "saved_good k B os fs ps answered \<longleftrightarrow> answered
     \<and> (\<forall>os' \<in> set os. let ord = fst os' in order_good k B ord \<and> filled_of (vo_id ord) fs \<le> B
          \<and> exits_of (vo_id ord) os fs \<le> filled_of (vo_id ord) fs
          \<and> (\<forall>f \<in> set fs. vf_order_id f = vo_id ord \<longrightarrow> vf_instr f = vo_instr ord))
     \<and> (\<forall>f \<in> set fs. amount k (vf_quantity f) \<and> 0 < mval (vf_quantity f) \<and> 0 < mval (vf_price f) \<and> fill_number f < 2 ^ 127)
     \<and> distinct (map vf_fill_id fs) \<and> (\<forall>p \<in> set ps. amount k (ps_qty p))"

definition by_time :: "externals \<Rightarrow> vfill list \<Rightarrow> vfill list" where
  "by_time x fs = sort_key (\<lambda>f. (ts_key x (vf_filled_at f), utext (vf_fill_id f))) fs"

definition entries_first :: "(vorder \<times> order_state) list \<Rightarrow> (vorder \<times> order_state) list" where
  "entries_first os = sort_key (\<lambda>(ord, _). vo_parent ord \<noteq> None) os"

lemma saved_sorted: "saved_good k B (entries_first os) (by_time x fs) ps answered \<longleftrightarrow> saved_good k B os fs ps answered"
proof -
  have f: "filled_of oid (by_time x fs) = filled_of oid fs" for oid by (simp add: filled_of_def by_time_def sum_sorted)
  have "exits_of oid (entries_first os) (by_time x fs) = exits_of oid os fs" for oid
    by (simp add: exits_of_def entries_first_def sum_sorted f cong: if_cong)
  moreover note f
  moreover have "set (by_time x fs) = set fs" "set (entries_first os) = set os" "distinct (map vf_fill_id (by_time x fs)) \<longleftrightarrow> distinct (map vf_fill_id fs)"
    by (simp_all add: by_time_def entries_first_def distinct_map)
  ultimately show ?thesis by (simp add: saved_good_def)
qed

subsection \<open>The orders\<close>

definition fresh_order :: "vorder \<times> order_state \<Rightarrow> working" where
  "fresh_order os' = \<lparr>wk_order = fst os', wk_state = snd os', wk_filled = ZERO, wk_updated_at = vo_submitted_at (fst os'), wk_triggered = False\<rparr>"

definition parents_known :: "(vorder \<times> order_state) list \<Rightarrow> book \<Rightarrow> bool" where
  "parents_known os b \<longleftrightarrow> (\<forall>os' \<in> set os. restorable (snd os') \<and> (\<forall>p. vo_parent (fst os') = Some p \<longrightarrow> imap_get (bk_index b) p \<noteq> None))"

definition orders_in :: "(vorder \<times> order_state) list \<Rightarrow> book \<Rightarrow> bool" where
  "orders_in os b \<longleftrightarrow> bk_orders b = map fresh_order os \<and> index_good b \<and> bk_fills b = [] \<and> bk_positions b = [] \<and> parents_known os b"

lemma index_good_add:
  assumes "index_good b" "imap_get (bk_index b) (vo_id (wk_order w)) = None"
  shows "index_good (b\<lparr>bk_index := imap_put (bk_index b) (vo_id (wk_order w)) (length (bk_orders b)), bk_orders := bk_orders b @ [w]\<rparr>)"
proof -
  have "j < length (bk_orders b) \<Longrightarrow> vo_id (wk_order (bk_orders b ! j)) \<noteq> vo_id (wk_order w)" for j
    using assms unfolding index_good_def by (metis option.distinct(1))
  then show ?thesis using assms(1) by (auto simp: index_good_def nth_append less_Suc_eq)
qed

lemma restore_order_in:
  assumes "orders_in p (fst s)"
  shows "wp (restore_order x tb os') (\<lambda>_ s. orders_in (p @ [os']) (fst s)) (\<lambda>_. True) s"
proof -
  obtain ord st where os': "os' = (ord, st)" by fastforce
  have "orders_in (p @ [os']) (b\<lparr>bk_index := imap_put (bk_index b) (vo_id ord) (length (bk_orders b)), bk_orders := bk_orders b @ [fresh_order os']\<rparr>)"
    if "orders_in p b" "restorable st" "imap_get (bk_index b) (vo_id ord) = None" "sim_validate ord b = Ok ()" for b
    using that index_good_add [of b "fresh_order os'"] validated_parent [OF that(4)]
    by (auto simp: orders_in_def parents_known_def os' fresh_order_def)
  then show ?thesis
    using assms by (auto simp: restore_order_def os' wp_simps add_order_def fresh_order_def split: result.splits)
qed

subsection \<open>The fills\<close>

definition fills_in :: "nat \<Rightarrow> (vorder \<times> order_state) list \<Rightarrow> vfill list \<Rightarrow> book \<Rightarrow> bool" where
  "fills_in k os fs b \<longleftrightarrow> index_good b \<and> length (bk_orders b) = length os
     \<and> (\<forall>i < length os. let w = bk_orders b ! i in wk_order w = fst (os ! i) \<and> wk_state w = snd (os ! i)
          \<and> amount k (wk_filled w) \<and> mval (wk_filled w) = filled_of (vo_id (wk_order w)) fs)
     \<and> parents_known os b \<and> bk_fills b = fs \<and> bk_positions b = [] \<and> (\<forall>f \<in> set fs. fill_good b f)"

lemma orders_fills_in: "orders_in os b \<Longrightarrow> fills_in k os [] b"
  by (simp add: orders_in_def fills_in_def fresh_order_def Let_def filled_of_def)

lemma rpartition_joins: "rpartition s sep = (pre, True, post) \<Longrightarrow> s = pre @ sep @ post"
proof -
  assume "rpartition s sep = (pre, True, post)"
  then obtain i where i: "rfind s sep = Some i" "pre = take i s" "post = drop (i + length sep) s"
    by (auto simp: rpartition_def split: option.splits)
  have "take (length sep) (drop i s) = sep" using i(1) unfolding rfind_def find_Some_iff by (auto simp: starts_at_def)
  then show ?thesis using append_take_drop_id [of "length sep" "drop i s"] append_take_drop_id [of i s] i(2,3)
    by (simp add: add.commute)
qed

text \<open>What a restored fill does to the book.\<close>

definition restored_fill :: "nat \<Rightarrow> vfill \<Rightarrow> nat \<Rightarrow> working \<Rightarrow> book \<Rightarrow> book" where
  "restored_fill i f n w b = b\<lparr>bk_fill_counts := imap_put (bk_fill_counts b) (vf_order_id f)
       (max (case imap_get (bk_fill_counts b) (vf_order_id f) of Some c \<Rightarrow> c | None \<Rightarrow> 0) n),
     bk_orders := (bk_orders b)[i := w], bk_fills := bk_fills b @ [f]\<rparr>"

definition restores :: "vfill \<Rightarrow> book \<Rightarrow> book \<Rightarrow> bool" where
  "restores f b c \<longleftrightarrow> (\<exists>i n w. imap_get (bk_index b) (vf_order_id f) = Some i \<and> numbered (vf_order_id f) n (vf_fill_id f)
     \<and> vf_side f = vo_side (wk_order (bk_orders b ! i)) \<and> wk_order w = wk_order (bk_orders b ! i) \<and> wk_state w = wk_state (bk_orders b ! i)
     \<and> dadd (wk_filled (bk_orders b ! i)) (vf_quantity f) = Ok (wk_filled w) \<and> c = restored_fill i f n w b)"

lemma restore_fill_restores: "wp (restore_fill x f) (\<lambda>_. restores f b) (\<lambda>_. True) b"
proof (cases "imap_get (bk_index b) (vf_order_id f)")
  case (Some i)
  obtain pre sep d where r: "rpartition (vf_fill_id f) fill_suffix = (pre, sep, d)" by (metis prod_cases3)
  have num: "numbered (vf_order_id f) (num d) (vf_fill_id f)" if "pre = vf_order_id f" "sep" "ascii_decimal d"
    using rpartition_joins [of "vf_fill_id f" fill_suffix pre d] r that by (auto simp: numbered_def)
  have "restores f b (restored_fill i f (num d) ((bk_orders b ! i)\<lparr>wk_filled := q, wk_updated_at := t, wk_triggered := True\<rparr>) b)"
    if "pre = vf_order_id f" "sep" "ascii_decimal d" "vf_side f = vo_side (wk_order (bk_orders b ! i))"
      "dadd (wk_filled (bk_orders b ! i)) (vf_quantity f) = Ok q" for q t
    unfolding restores_def using num [OF that(1-3)] that(4,5) Some 
    by (intro exI [of _ i] exI [of _ "num d"] exI [of _ "(bk_orders b ! i)\<lparr>wk_filled := q, wk_updated_at := t, wk_triggered := True\<rparr>"]) simp
  then show ?thesis
    by (auto simp: restore_fill_def Some r wp_simps Let_def order_at_def restored_fill_def split: result.splits)
qed (simp add: restore_fill_def wp_simps)

lemma next_number_restored: "next_number (restored_fill i f n w b) oid = (if oid = vf_order_id f then max (next_number b oid) (n + 1) else next_number b oid)"
  by (auto simp: next_number_def restored_fill_def split: option.splits)

lemma restored_amount:
  assumes r: "room k B" and g: "saved_good k B os (q @ f # rest) ps True" and os': "os' \<in> set os" "vo_id (fst os') = vf_order_id f"
    and v: "amount k v" "mval v = filled_of (vf_order_id f) q" and w: "dadd v (vf_quantity f) = Ok w"
  shows "amount k w \<and> mval w = filled_of (vf_order_id f) (q @ [f])"
proof -
  have f: "amount k (vf_quantity f)" "0 < mval (vf_quantity f)" and pos: "\<forall>h \<in> set rest. 0 < mval (vf_quantity h)" "\<forall>h \<in> set q. 0 < mval (vf_quantity h)"
    using g by (auto simp: saved_good_def)
  have "filled_of (vf_order_id f) (q @ f # rest) \<le> B" using g os' by (auto simp: saved_good_def Let_def)
  moreover have "filled_of (vf_order_id f) (q @ f # rest) = mval v + mval (vf_quantity f) + filled_of (vf_order_id f) rest"
    by (simp add: v(2) filled_of_def)
  ultimately have "\<bar>mval v + mval (vf_quantity f)\<bar> \<le> B"
    using filled_of_nonneg [OF pos(1), of "vf_order_id f"] filled_of_nonneg [OF pos(2), of "vf_order_id f"] f(2) v(2) by linarith
  then show ?thesis using amount_add_exact [OF r v(1) f(1)] w v(2) by (auto simp: filled_of_append)
qed

text \<open>A frame for the fills: the index and the orders' terms stay and the counters do not fall.\<close>

lemma fill_good_mono:
  assumes "fill_good b f" "index_good b" "bk_index c = bk_index b" "\<And>j. j < length (bk_orders b) \<Longrightarrow> wk_order (bk_orders c ! j) = wk_order (bk_orders b ! j)"
    "\<And>oid. next_number b oid \<le> next_number c oid"
  shows "fill_good c f"
proof -
  obtain j n where j: "imap_get (bk_index b) (vf_order_id f) = Some j" and n: "n < next_number b (vf_order_id f)" "numbered (vf_order_id f) n (vf_fill_id f)"
    using assms(1) by (auto simp: fill_good_def)
  have "wk_order (order_at j c) = wk_order (order_at j b)" using j assms(2,4) by (auto simp: index_good_def order_at_def)
  moreover have "n < next_number c (vf_order_id f)" using n(1) assms(5) less_le_trans by blast
  ultimately show ?thesis using assms(1,3) j n(2) by (auto simp: fill_good_def)
qed

lemma restores_in:
  assumes r: "room k B" and g: "saved_good k B os (q @ f # rest) ps True" and i: "fills_in k os q b" and c: "restores f b c"
  shows "fills_in k os (q @ [f]) c"
proof -
  obtain i n w where ix: "imap_get (bk_index b) (vf_order_id f) = Some i" and n: "numbered (vf_order_id f) n (vf_fill_id f)"
    and w: "vf_side f = vo_side (wk_order (bk_orders b ! i))" "wk_order w = wk_order (bk_orders b ! i)" "wk_state w = wk_state (bk_orders b ! i)"
      "dadd (wk_filled (bk_orders b ! i)) (vf_quantity f) = Ok (wk_filled w)" and eq: "c = restored_fill i f n w b"
    using c by (auto simp: restores_def)
  have ig: "index_good b" and len: "length (bk_orders b) = length os" and pk: "parents_known os b" and bf: "bk_fills b = q" "bk_positions b = []"
    and wk: "\<And>j. j < length os \<Longrightarrow> wk_order (bk_orders b ! j) = fst (os ! j) \<and> wk_state (bk_orders b ! j) = snd (os ! j)
        \<and> amount k (wk_filled (bk_orders b ! j)) \<and> mval (wk_filled (bk_orders b ! j)) = filled_of (vo_id (wk_order (bk_orders b ! j))) q"
    and fg: "\<And>h. h \<in> set q \<Longrightarrow> fill_good b h"
    using i by (auto simp: fills_in_def Let_def)
  have il: "i < length os" and id: "vo_id (wk_order (bk_orders b ! i)) = vf_order_id f" using ix ig len by (auto simp: index_good_def)
  have add: "amount k (wk_filled w) \<and> mval (wk_filled w) = filled_of (vf_order_id f) (q @ [f])"
    by (rule restored_amount [OF r g, of "os ! i"]) (use wk [OF il] il id w(4) in auto)
  have cs: "bk_index c = bk_index b" "length (bk_orders c) = length (bk_orders b)" "bk_fills c = q @ [f]" "bk_positions c = []"
    using bf by (simp_all add: eq restored_fill_def)
  have same: "wk_order (bk_orders c ! j) = wk_order (bk_orders b ! j)" if "j < length (bk_orders b)" for j
    using w(2) that by (auto simp: eq restored_fill_def upd_nth)
  have cnt: "next_number b oid \<le> next_number c oid" for oid by (simp add: eq next_number_restored)
  have "index_good c" using ig same by (auto simp: index_good_def cs)
  moreover have "wk_order (bk_orders c ! j) = fst (os ! j) \<and> wk_state (bk_orders c ! j) = snd (os ! j) \<and> amount k (wk_filled (bk_orders c ! j))
      \<and> mval (wk_filled (bk_orders c ! j)) = filled_of (vo_id (wk_order (bk_orders c ! j))) (q @ [f])" if j: "j < length os" for j
  proof (cases "j = i")
    case True
    then show ?thesis using wk [OF j] add w id j len by (simp add: eq restored_fill_def)
  next
    case False
    then have "vo_id (wk_order (bk_orders b ! j)) \<noteq> vf_order_id f" using ig ix j len unfolding index_good_def by (metis option.inject)
    then show ?thesis using wk [OF j] False j len by (simp add: eq restored_fill_def filled_of_append)
  qed
  moreover have "fill_good c h" if "h \<in> set q" for h by (rule fill_good_mono [OF fg [OF that] ig cs(1) same cnt])
  moreover have "fill_good c f"
    by (rule fill_goodI [of c f i n]) (use ix cs(1) same il len w(1) n g wk [OF il] id in
      \<open>auto simp: order_at_def saved_good_def Let_def eq next_number_restored dest: bspec [OF _ nth_mem]\<close>)
  ultimately show ?thesis using pk cs len by (auto simp: fills_in_def Let_def parents_known_def)
qed

subsection \<open>The positions\<close>

definition positions_in :: "book \<Rightarrow> pos list \<Rightarrow> book \<Rightarrow> bool" where
  "positions_in d ps b \<longleftrightarrow> (\<exists>m. b = d\<lparr>bk_positions := m\<rparr>) \<and> (\<forall>h p. imap_get (bk_positions b) h = Some p \<longrightarrow> p \<in> set ps)
     \<and> (\<forall>hk. mval (qty_at b hk) = held_of hk ps)"

lemma restore_position_in: "positions_in d ps b \<Longrightarrow> wp (restore_position p) (\<lambda>_. positions_in d (ps @ [p])) (\<lambda>_. True) b"
proof -
  assume i: "positions_in d ps b"
  let ?h = "instr_hk (ps_instr p)"
  have held: "held_of hk (ps @ [p]) = held_of hk ps + (if ?h = hk then mval (ps_qty p) else 0)" for hk by (simp add: held_of_def)
  have "positions_in d (ps @ [p]) (b\<lparr>bk_positions := imap_put (bk_positions b) ?h p\<rparr>)" if none: "imap_get (bk_positions b) ?h = None"
  proof -
    have "mval (qty_at b ?h) = held_of ?h ps" using i by (simp add: positions_in_def)
    then have "held_of ?h ps = 0" using none by (simp add: qty_at_def)
    then show ?thesis using i by (auto simp: positions_in_def held qty_at_def split: if_splits)
  qed
  moreover have "positions_in d (ps @ [p]) b" if "mval (ps_qty p) = 0" using i that by (auto simp: positions_in_def held)
  ultimately show ?thesis by (auto simp: restore_position_def Let_def wp_simps split: result.splits)
qed

subsection \<open>A restored book balances\<close>

lemma fills_in_good:
  assumes g: "saved_good k B os fs ps True" and i: "fills_in k os fs d" and p: "positions_in d ps b"
    and rc: "list_all restored_consistent (bk_orders d)"
  shows "book_good k B b"
proof -
  have b: "bk_orders b = bk_orders d" "bk_index b = bk_index d" "bk_fills b = fs" "\<And>oid. next_number b oid = next_number d oid"
    using i p by (auto simp: positions_in_def fills_in_def next_number_def)
  have ig: "index_good d" and len: "length (bk_orders d) = length os" and pk: "parents_known os d" and fg: "\<forall>f \<in> set fs. fill_good d f"
    and wk: "\<And>j. j < length os \<Longrightarrow> wk_order (bk_orders d ! j) = fst (os ! j) \<and> wk_state (bk_orders d ! j) = snd (os ! j)
        \<and> amount k (wk_filled (bk_orders d ! j)) \<and> mval (wk_filled (bk_orders d ! j)) = filled_of (vo_id (wk_order (bk_orders d ! j))) fs"
    using i by (auto simp: fills_in_def Let_def)
  have "map (\<lambda>w. if vo_parent (wk_order w) = Some oid then mval (wk_filled w) else 0) (bk_orders d)
      = map (\<lambda>os'. if vo_parent (fst os') = Some oid then filled_of (vo_id (fst os')) fs else 0) os" for oid
    by (rule nth_equalityI) (use len wk in auto)
  then have ex: "exited_of oid (bk_orders d) = exits_of oid os fs" for oid by (simp add: exited_of_def exits_of_def)
  have "working_good k B b (bk_orders d ! j)" if j: "j < length os" for j
  proof -
    have "os ! j \<in> set os" using j by simp
    then have "order_good k B (fst (os ! j))" "exits_of (vo_id (fst (os ! j))) os fs \<le> filled_of (vo_id (fst (os ! j))) fs"
      "restorable (snd (os ! j))" "\<forall>p. vo_parent (fst (os ! j)) = Some p \<longrightarrow> imap_get (bk_index d) p \<noteq> None"
      using g pk by (auto simp: saved_good_def Let_def parents_known_def)
    moreover have "0 \<le> filled_of (vo_id (fst (os ! j))) fs" using g by (intro filled_of_nonneg) (simp add: saved_good_def)
    moreover have "restored_consistent (bk_orders d ! j)" using rc j len by (simp add: list_all_length)
    ultimately show ?thesis using wk [OF j] by (simp add: working_good_def b ex)
  qed
  moreover have "index_good b" "\<forall>f \<in> set fs. fill_good b f" using ig fg by (simp_all add: index_good_def fill_good_def order_at_def b)
  moreover have "positions_good k b" using g p by (auto simp: positions_in_def positions_good_def saved_good_def)
  ultimately show ?thesis using g len by (auto simp: book_good_def b in_set_conv_nth saved_good_def)
qed

lemma restore_empty:
  assumes "restore x tb os fs ps s = (Ok (), t)"
  shows "bk_orders (fst s) = []" "bk_fills (fst s) = []" "bk_positions (fst s) = []"
  using assms by (auto simp: restore_def sbind_def on_book_def sget_def sfail_def slift_def lerr_def split: if_splits prod.splits)

lemma restore_restores:
  assumes r: "room k B" and ig: "index_good (fst s)" and g: "saved_good k B os fs ps True" and ok: "restore x tb os fs ps s = (Ok (), t)"
  shows "book_good k B (fst t) \<and> bk_fills (fst t) = by_time x fs \<and> (\<forall>hk. mval (qty_at (fst t) hk) = held_of hk ps)"
proof -
  let ?os = "entries_first os" and ?fs = "by_time x fs"
  have g': "saved_good k B ?os ?fs ps True" using g by (simp add: saved_sorted)
  let ?Q = "\<lambda>s. \<exists>d. fills_in k ?os ?fs d \<and> list_all restored_consistent (bk_orders d) \<and> positions_in d ps (fst s)"
  have "orders_in [] (fst s)" using restore_empty [OF ok] ig by (simp add: orders_in_def parents_known_def)
  then have o: "wp (sfor (restore_order x tb) ?os) (\<lambda>_ s. orders_in ?os (fst s)) (\<lambda>_. True) s"
    by (rule wp_sfor_prefix [where I = "\<lambda>q s. orders_in q (fst s)"]) (rule restore_order_in)
  have f: "wp (sfor (restore_fill x) ?fs) (\<lambda>_. fills_in k ?os ?fs) (\<lambda>_. True) b" if "orders_in ?os b" for b
    by (rule wp_sfor_prefix [where I = "fills_in k ?os"])
      (use that g' in \<open>auto intro!: orders_fills_in wp_mono [OF restore_fill_restores] restores_in [OF r]\<close>)
  have p: "wp (sfor restore_position ps) (\<lambda>_. positions_in d ps) (\<lambda>_. True) d" if "bk_positions d = []" for d
  proof (rule wp_sfor_prefix [where I = "positions_in d"])
    show "positions_in d [] d" unfolding positions_in_def
      using that by (auto simp: qty_at_def imap_get_def held_of_def intro: exI [of _ "[]"])
  qed (rule restore_position_in)
  have fp: "wp (sbind (on_book (sfor (restore_fill x) ?fs)) (\<lambda>_. sbind (on_book (sread (\<lambda>b. if list_all restored_consistent (bk_orders b) then Ok ()
      else lerr kd msg))) (\<lambda>_. on_book (sfor restore_position ps)))) (\<lambda>_. ?Q) (\<lambda>_. True) u" if u: "orders_in ?os (fst u)" for u kd msg
    unfolding wp_sbind wp_on_book
  proof (rule wp_mono [OF f [OF u]], goal_cases)
    case (1 a d)
    then have "bk_positions d = []" by (simp add: fills_in_def)
    then have "wp (sfor restore_position ps) (\<lambda>_ b. ?Q (b, snd u)) (\<lambda>_. True) d" if "list_all restored_consistent (bk_orders d)"
      by (rule wp_mono [OF p]) (use 1 that in auto)
    then show ?case by (simp add: wp_on_book wp_basic lerr_def)
  qed simp
  have "wp (restore x tb os fs ps) (\<lambda>_. ?Q) (\<lambda>_. True) s"
    unfolding restore_def entries_first_def [symmetric] by_time_def [symmetric] wp_sbind [of "on_book (sget _)"]
    using fp by (auto simp: wp_on_book wp_basic wp_sbind [of "sfor (restore_order x tb) ?os"] intro!: wp_mono [OF o])
  then obtain d where d: "fills_in k ?os ?fs d" "list_all restored_consistent (bk_orders d)" "positions_in d ps (fst t)"
    using ok by (auto simp: wp_def)
  moreover have "bk_fills (fst t) = ?fs" using d(1,3) by (auto simp: positions_in_def fills_in_def)
  ultimately show ?thesis using fills_in_good [OF g' d(1,3,2)] by (simp add: positions_in_def)
qed

subsection \<open>The invariant along a run\<close>

interpretation ledgered: book_invariant x "order_good k B" "saved_good k B" "ledgered k B" "ledgered k B" for x k B
proof
  fix b i w price t ord st oid q l c s u r tb orders fills positions
  show "ledgered k B b \<Longrightarrow> ledgered k B b" .
  show "ledgered k B b \<Longrightarrow> marks (order_at i b) w \<Longrightarrow> ledgered k B (set_order i w b)" by (simp add: ledgered_def marks_good)
  show "ledgered k B b \<Longrightarrow> ledgered k B (b\<lparr>bk_last_bars := l\<rparr>)" "ledgered k B b \<Longrightarrow> ledgered k B (b\<lparr>bk_connected := c\<rparr>)"
    by (simp_all add: ledgered_def)
  show "ledgered k B b \<Longrightarrow> i < length (bk_orders b) \<Longrightarrow> wp (sim_fill i price t) (\<lambda>_. ledgered k B) (ledgered k B) b"
    by (auto simp: wp_snd ledgered_def sim_fill_good)
  show "ledgered k B b \<Longrightarrow> order_good k B ord \<Longrightarrow> imap_get (bk_index b) (vo_id ord) = None \<Longrightarrow> sim_validate ord b = Ok ()
      \<Longrightarrow> st = Accepted \<or> st = Rejected \<Longrightarrow> ledgered k B (snd (add_order ord st t b))"
    using validated_parent by (auto simp: ledgered_def intro!: add_order_good)
  show "ledgered k B b \<Longrightarrow> order_good k B ord \<Longrightarrow> imap_get (bk_index b) oid = Some i \<Longrightarrow> replaces (wk_order (order_at i b)) ord q
      \<Longrightarrow> replaceable oid q b \<Longrightarrow> ledgered k B (set_order i (replaced ord (order_at i b)) b)"
    by (simp add: ledgered_def replaced_good)
  show "ledgered k B (fst s) \<Longrightarrow> saved_good k B orders fills positions (is_ok r) \<Longrightarrow> restore x tb orders fills positions s = (r, u)
      \<Longrightarrow> (is_ok r \<longrightarrow> ledgered k B (fst u)) \<and> ledgered k B (fst u)"
    using restore_restores [of k B s orders fills positions x tb u] by (cases r) (auto simp: ledgered_def book_good_def saved_good_def)
qed

end
