(* ===== verification/Sim_Positions.thy ===== *)
theory Sim_Positions
  imports Sim_Restore
begin

section \<open>The positions of the simulated broker\<close>

text \<open>
  Along a run of accepted commands a position is the signed sum of the fills of its instrument or, once a book was
  restored, the restored position and the signed sum of the fills since: a host restores the fills of its working
  orders and the whole positions, so the restored fills need not explain them. A refusal in the middle of a bar may
  leave a fill booked whose position was not updated, so this is an invariant of answers only; it asks that the
  volume traded has room below 28 digits.
\<close>

definition signed_of :: "string \<Rightarrow> vfill list \<Rightarrow> rat" where
  "signed_of hk fs = (\<Sum>f\<leftarrow>fs. if instr_hk (vf_instr f) = hk
     then (if vf_side f = Buy then mval (vf_quantity f) else - mval (vf_quantity f)) else 0)"

definition volume :: "vfill list \<Rightarrow> rat" where
  "volume fs = (\<Sum>f\<leftarrow>fs. mval (vf_quantity f))"

definition held_volume :: "pos list \<Rightarrow> rat" where
  "held_volume ps = (\<Sum>p\<leftarrow>ps. \<bar>mval (ps_qty p)\<bar>)"

definition saved_as :: "nat \<Rightarrow> rat \<Rightarrow> vfill list \<Rightarrow> pos list \<Rightarrow> saved_data" where
  "saved_as k B fills positions os fs ps answered \<longleftrightarrow> saved_good k B os fs ps answered \<and> fs = fills \<and> ps = positions"

text \<open>Nothing was restored, or the fills begin with the restored ones.\<close>

definition explained :: "externals \<Rightarrow> vfill list \<Rightarrow> pos list \<Rightarrow> book \<Rightarrow> bool" where
  "explained x fills positions b \<longleftrightarrow> (\<forall>hk. mval (qty_at b hk) = signed_of hk (bk_fills b))
     \<or> (\<exists>new. bk_fills b = by_time x fills @ new \<and> (\<forall>hk. mval (qty_at b hk) = held_of hk positions + signed_of hk new))"

definition balanced :: "externals \<Rightarrow> nat \<Rightarrow> rat \<Rightarrow> vfill list \<Rightarrow> pos list \<Rightarrow> book \<Rightarrow> bool" where
  "balanced x k B fills positions b \<longleftrightarrow> ledgered k B b
     \<and> (held_volume positions + volume (bk_fills b) \<le> B \<longrightarrow> explained x fills positions b)"

lemma held_bound: "\<bar>held_of hk ps\<bar> \<le> held_volume ps"
  by (induction ps) (auto simp: held_of_def held_volume_def)

lemma volume_append: "volume (fs @ gs) = volume fs + volume gs"
  by (simp add: volume_def)

lemma signed_bound: "\<forall>f \<in> set fs. 0 < mval (vf_quantity f) \<Longrightarrow> \<bar>signed_of hk fs\<bar> \<le> volume fs \<and> 0 \<le> volume fs"
  by (induction fs) (auto simp: signed_of_def volume_def)

lemma good_fills: "book_good k B b \<Longrightarrow> \<forall>f \<in> set (bk_fills b). 0 < mval (vf_quantity f)"
  by (auto simp: book_good_def fill_good_def)

lemma qty_at_put: "qty_at (b\<lparr>bk_positions := imap_put (bk_positions b) h p\<rparr>) hk = (if hk = h then ps_qty p else qty_at b hk)"
  by (simp add: qty_at_def)

lemma change_exact:
  assumes "room k B" "amount k q" "\<bar>mval q\<bar> \<le> B" "(if s = Buy then Ok q else dneg q) = Ok c"
  shows "amount k c \<and> mval c = (if s = Buy then mval q else - mval q)"
proof (cases "s = Buy")
  case False
  then show ?thesis using dneg_grid [of q k B] assms by (auto simp: amount_def grid_iff)
qed (use assms in auto)

text \<open>The position after a booked fill.\<close>

lemma position_moves:
  assumes g: "ledgered k B b" and bal: "\<forall>hk. mval (qty_at b hk) = base hk + signed_of hk new" and pos: "\<forall>h \<in> set new. 0 < mval (vf_quantity h)"
    and q: "amount k (vf_quantity f)" "0 < mval (vf_quantity f)" and v: "\<And>hk. \<bar>base hk\<bar> + volume (new @ [f]) \<le> B"
    and u: "update_position f b = (Ok (), c)"
  shows "mval (qty_at c hk) = base hk + signed_of hk (new @ [f])"
proof (cases rule: update_position_cases [of f b])
  case (moved change updated p)
  let ?h = "instr_hk (vf_instr f)"
  have r: "room k B" and bg: "book_good k B b" using g by (auto simp: ledgered_def)
  have vol: "\<bar>base ?h\<bar> + volume new + mval (vf_quantity f) \<le> B" using v [of ?h] by (simp add: volume_def)
  note sb = signed_bound [OF pos]
  have le: "\<bar>mval (vf_quantity f)\<bar> \<le> B" using sb [of ?h] vol q(2) by linarith
  have ch: "amount k change" "mval change = (if vf_side f = Buy then mval (vf_quantity f) else - mval (vf_quantity f))"
    using change_exact [OF r q(1) le moved(1)] by auto
  have "\<bar>mval (qty_at b ?h) + mval change\<bar> \<le> B" using sb [of ?h] bal vol ch(2) q(2) by (auto split: if_splits)
  moreover have "amount k (qty_at b ?h)" using bg by (simp add: book_good_def qty_at_good)
  ultimately have "mval updated = mval (qty_at b ?h) + mval change"
    using amount_add_exact [OF r _ ch(1), of "qty_at b ?h"] moved(2) by auto
  then show ?thesis using u moved(3,4) bal ch(2) by (auto simp: qty_at_put signed_of_def)
qed (use u in simp)

lemma explained_moves:
  assumes g: "ledgered k B b" and e: "explained x fills positions b" and q: "amount k (vf_quantity f)" "0 < mval (vf_quantity f)"
    and v: "held_volume positions + volume (bk_fills b @ [f]) \<le> B" and u: "update_position f b = (Ok (), c)"
    and d: "bk_positions d = bk_positions c" "bk_fills d = bk_fills b @ [f]"
  shows "explained x fills positions d"
proof -
  have pos: "\<forall>h \<in> set (bk_fills b). 0 < mval (vf_quantity h)" using g good_fills by (auto simp: ledgered_def)
  have hv: "0 \<le> held_volume positions" using held_bound [of undefined positions] by simp
  have qd: "qty_at d hk = qty_at c hk" for hk by (simp add: qty_at_def d)
  show ?thesis
  proof (cases "\<forall>hk. mval (qty_at b hk) = signed_of hk (bk_fills b)")
    case True
    then have "mval (qty_at c hk) = 0 + signed_of hk (bk_fills b @ [f])" for hk
      by (intro position_moves [OF g _ pos q _ u]) (use hv v in auto)
    then show ?thesis by (simp add: explained_def qd d)
  next
    case False
    then obtain new where new: "bk_fills b = by_time x fills @ new" "\<forall>hk. mval (qty_at b hk) = held_of hk positions + signed_of hk new"
      using e by (auto simp: explained_def)
    have "0 \<le> volume (by_time x fills)" using signed_bound [of "by_time x fills"] pos new(1) by auto
    then have "\<bar>held_of hk positions\<bar> + volume (new @ [f]) \<le> B" for hk
      using v held_bound [of hk positions] by (simp add: new(1) volume_append)
    then have "mval (qty_at c hk) = held_of hk positions + signed_of hk (new @ [f])" for hk
      by (intro position_moves [OF g new(2) _ q _ u]) (use pos new(1) in auto)
    then show ?thesis using new(1) by (auto simp: explained_def qd d)
  qed
qed

text \<open>A fill of the broker keeps the balance when it answers.\<close>

lemma fill_amount:
  assumes "ledgered k B b" "i < length (bk_orders b)" "fill_made i price t b q"
  shows "amount k q"
proof -
  have w: "working_good k B b (order_at i b)" using assms(1,2) by (simp add: ledgered_def book_good_def order_at_def)
  obtain q0 where q0: "dsub (vo_quantity (wk_order (order_at i b))) (wk_filled (order_at i b)) = Ok q0"
    "exit_quantity (wk_order (order_at i b)) q0 b = Ok q" using assms(3) by (auto simp: fill_made_def)
  have "amount k q0"
    using amount_sub_exact [of k B "vo_quantity (wk_order (order_at i b))" "wk_filled (order_at i b)"] w working_le [OF w] q0(1) assms(1)
    by (auto simp: ledgered_def working_good_def order_good_def)
  then show ?thesis using exit_quantity_good [OF _ _ _ q0(2)] assms(1) by (auto simp: ledgered_def)
qed

lemma fill_balanced:
  assumes g: "balanced x k B fills positions b" and i: "i < length (bk_orders b)"
  shows "wp (sim_fill i price t) (\<lambda>_. balanced x k B fills positions) (\<lambda>_. True) b"
proof (cases rule: sim_fill_cases [of i price t b])
  case none
  then show ?thesis using g by (auto simp: wp_def split: prod.splits result.splits)
next
  case (booked q filled ps)
  let ?f = "new_fill b (wk_order (order_at i b)) q price t" and ?c = "snd (sim_fill i price t b)"
  have l: "ledgered k B b" using g by (simp add: balanced_def)
  have fs: "bk_fills ?c = bk_fills b @ [?f]" and ps: "bk_positions ?c = bk_positions (snd (update_position ?f b))"
    using booked(3,5) by simp_all
  have q: "amount k (vf_quantity ?f)" "0 < mval (vf_quantity ?f)"
    using fill_amount [OF l i booked(1)] booked(1) by (auto simp: new_fill_def fill_made_def)
  have "balanced x k B fills positions ?c" if ok: "is_ok (fst (sim_fill i price t b))"
  proof -
    obtain c where u: "update_position ?f b = (Ok (), c)" using ok booked(6) by (cases "update_position ?f b"; cases "fst (update_position ?f b)") auto
    have "explained x fills positions ?c" if v: "held_volume positions + volume (bk_fills ?c) \<le> B"
    proof (rule explained_moves [OF l _ q v [unfolded fs] u _ fs])
      show "explained x fills positions b" using g v q(2) unfolding fs balanced_def by (auto simp: volume_def)
    qed (simp add: ps u)
    moreover have "ledgered k B ?c" using l i by (simp add: ledgered_def sim_fill_good)
    ultimately show ?thesis by (simp add: balanced_def)
  qed
  then show ?thesis by (auto simp: wp_def split: prod.splits result.splits)
qed (auto simp: wp_def split: prod.splits)

lemma balanced_frame:
  "bk_fills c = bk_fills b \<Longrightarrow> bk_positions c = bk_positions b \<Longrightarrow> ledgered k B c \<Longrightarrow> balanced x k B fills positions b
    \<Longrightarrow> balanced x k B fills positions c"
  by (simp add: balanced_def explained_def qty_at_def)

lemma set_order_fields [simp]: "bk_fills (set_order i w b) = bk_fills b" "bk_positions (set_order i w b) = bk_positions b"
  by (simp_all add: set_order_def)

lemma add_order_fields [simp]: "bk_fills (snd (add_order ord st t b)) = bk_fills b" "bk_positions (snd (add_order ord st t b)) = bk_positions b"
  by (simp_all add: add_order_def sm_simps)

lemma restored_balanced:
  assumes "ledgered k B (fst s)" "saved_as k B fills positions os fs ps True" "restore x tb os fs ps s = (Ok (), u)"
  shows "balanced x k B fills positions (fst u)"
  using restore_restores [of k B s os fills positions x tb u] assms
  by (auto simp: balanced_def ledgered_def book_good_def saved_as_def explained_def signed_of_def)

interpretation balanced: book_invariant x "order_good k B" "saved_as k B fills positions" "balanced x k B fills positions" "\<lambda>_. True" for x k B fills positions
proof
  fix b i w price t ord st oid q l c s u r tb orders fs ps
  let ?I = "balanced x k B fills positions"
  have l: "?I b \<Longrightarrow> ledgered k B b" for b by (simp add: balanced_def)
  show "?I b \<Longrightarrow> marks (order_at i b) w \<Longrightarrow> ?I (set_order i w b)"
    by (rule balanced_frame [of _ b]) (auto intro: ledgered.mark l)
  show "?I b \<Longrightarrow> ?I (b\<lparr>bk_last_bars := l\<rparr>)" "?I b \<Longrightarrow> ?I (b\<lparr>bk_connected := c\<rparr>)"
    by (rule balanced_frame [of _ b]; simp add: l ledgered.last_bars ledgered.connected)+
  show "?I b \<Longrightarrow> i < length (bk_orders b) \<Longrightarrow> wp (sim_fill i price t) (\<lambda>_. ?I) (\<lambda>_. True) b"
    by (rule fill_balanced)
  show "?I b \<Longrightarrow> order_good k B ord \<Longrightarrow> imap_get (bk_index b) (vo_id ord) = None \<Longrightarrow> sim_validate ord b = Ok ()
      \<Longrightarrow> st = Accepted \<or> st = Rejected \<Longrightarrow> ?I (snd (add_order ord st t b))"
    by (rule balanced_frame [of _ b]) (auto intro: ledgered.add l)
  show "?I b \<Longrightarrow> order_good k B ord \<Longrightarrow> imap_get (bk_index b) oid = Some i \<Longrightarrow> replaces (wk_order (order_at i b)) ord q
      \<Longrightarrow> replaceable oid q b \<Longrightarrow> ?I (set_order i (replaced ord (order_at i b)) b)"
    by (rule balanced_frame [of _ b]) (auto intro: ledgered.commit l)
  show "?I (fst s) \<Longrightarrow> saved_as k B fills positions orders fs ps (is_ok r) \<Longrightarrow> restore x tb orders fs ps s = (r, u)
      \<Longrightarrow> (is_ok r \<longrightarrow> ?I (fst u)) \<and> True"
    using restored_balanced [OF l, of s fills positions orders fs ps x tb u] by (cases r) auto
qed simp

end
