(* ===== verification/Sim_Prices.thy ===== *)
theory Sim_Prices
  imports Sim_Positions Mirror_Props
begin

section \<open>The prices of the simulated broker\<close>

text \<open>
  The price at which a bar fills an order at_limit the order's limit, and a fill needs a bar after the order was
  submitted. The terms of an order do not change while a bar is matched, so the fills of a bar are judged by the
  orders as they stood when it arrived.
\<close>

definition no_worse :: "vorder \<Rightarrow> money \<Rightarrow> bool" where
  "no_worse ord p \<longleftrightarrow> (\<exists>l. vo_limit ord = Some l \<and> (if vo_side ord = Buy then mval p \<le> mval l else mval l \<le> mval p))"

definition at_limit :: "vorder \<Rightarrow> money \<Rightarrow> bool" where
  "at_limit ord p \<longleftrightarrow> (vo_otype ord \<in> {Limit, StopLimit} \<longrightarrow> no_worse ord p)"

lemma limit_base_no_worse: "limit_base ord br = Ok (Some p) \<Longrightarrow> no_worse ord p"
  by (auto simp: no_worse_def limit_base_def lerr_def split: option.splits if_splits)

lemma stop_limit_no_worse: "stop_limit_price w br = Ok (Some p, trig) \<Longrightarrow> no_worse (wk_order w) p"
  by (auto simp: no_worse_def stop_limit_price_def lerr_def split: option.splits if_splits)

lemma slipped_at_limit:
  assumes "slipped_price b base ord = Ok p" "at_limit ord base"
  shows "at_limit ord p"
proof (cases "\<exists>c. vo_instr ord = Future c")
  case True
  then show ?thesis using assms by (auto simp: slipped_price_def at_limit_def split: if_splits)
next
  case False
  show ?thesis unfolding at_limit_def
  proof
    assume l: "vo_otype ord \<in> {Limit, StopLimit}"
    then obtain l where "vo_limit ord = Some l" using assms(2) by (auto simp: at_limit_def no_worse_def)
    moreover from this obtain sl where "p = (if vo_side ord = Buy then dmin sl l else dmax sl l)"
      using assms(1) False l by (cases "vo_instr ord") (auto simp: slipped_price_def)
    ultimately show "no_worse ord p" by (simp add: no_worse_def)
  qed
qed

definition fair :: "externals \<Rightarrow> bar \<Rightarrow> vorder \<Rightarrow> money \<Rightarrow> bool" where
  "fair x br ord p \<longleftrightarrow> at_limit ord p \<and> ts_lt x (vo_submitted_at ord) (br_ts br)"

lemma wp_base_price_limit:
  "wp (base_price x tb i br (wk_order (order_at i b))) (\<lambda>o' c. \<forall>p. o' = Some p \<longrightarrow> at_limit (wk_order (order_at i b)) p) (\<lambda>_. True) b"
  by (cases "vo_otype (wk_order (order_at i b))")
    (auto simp: base_price_def stop_limit_base_def wp_simps at_limit_def split: result.splits
      dest: limit_base_no_worse stop_limit_no_worse)

lemma wp_execution_fair:
  "wp (execution_price x tb i br) (\<lambda>o' c. \<forall>p. o' = Some p \<longrightarrow> fair x br (wk_order (order_at i b)) p) (\<lambda>_. True) b"
proof -
  let ?ord = "wk_order (order_at i b)"
  have "wp (base_price x tb i br ?ord) (\<lambda>o' c. wp (case o' of None \<Rightarrow> sret None | Some base \<Rightarrow> sbind (sread (\<lambda>b. slipped_price b base ?ord)) (\<lambda>p. sret (Some p)))
      (\<lambda>o' c. \<forall>p. o' = Some p \<longrightarrow> at_limit ?ord p) (\<lambda>_. True) c) (\<lambda>_. True) b"
    by (rule wp_mono [OF wp_base_price_limit]) (auto simp: wp_simps split: result.splits option.splits dest: slipped_at_limit)
  then have "wp (execution_price x tb i br) (\<lambda>o' c. \<forall>p. o' = Some p \<longrightarrow> \<not> ts_le x (br_ts br) (vo_submitted_at ?ord) \<and> at_limit ?ord p) (\<lambda>_. True) b"
    by (cases "ts_le x (br_ts br) (vo_submitted_at ?ord)") (simp_all add: execution_price_def wp_simps)
  then show ?thesis by (rule wp_mono) (auto simp: fair_def ts_le_def ts_lt_def)
qed

text \<open>The fills of a bar, against the orders of the book \<open>b0\<close> it found.\<close>

definition bar_fill :: "externals \<Rightarrow> bar \<Rightarrow> book \<Rightarrow> vfill \<Rightarrow> bool" where
  "bar_fill x br b0 f \<longleftrightarrow> (\<exists>i < length (bk_orders b0). let ord = wk_order (bk_orders b0 ! i) in
     vf_order_id f = vo_id ord \<and> vf_instr f = vo_instr ord \<and> vf_side f = vo_side ord \<and> instr_same (vo_instr ord) (br_instr br)
     \<and> vf_filled_at f = br_ts br \<and> 0 < mval (vf_quantity f) \<and> 0 < mval (vf_price f) \<and> fair x br ord (vf_price f))"

definition bar_book :: "externals \<Rightarrow> bar \<Rightarrow> book \<Rightarrow> book \<Rightarrow> bool" where
  "bar_book x br b0 b \<longleftrightarrow> grows b0 b \<and> (\<forall>f \<in> set (drop (length (bk_fills b0)) (bk_fills b)). bar_fill x br b0 f)"

lemma bar_book_terms: "bar_book x br b0 b \<Longrightarrow> i < length (bk_orders b0) \<Longrightarrow> wk_order (order_at i b) = wk_order (bk_orders b0 ! i)"
  by (simp add: bar_book_def grows_def order_moves_def order_at_def)

lemma bar_book_grows:
  "bar_book x br b0 b \<Longrightarrow> grows b c \<Longrightarrow> bk_fills c = bk_fills b \<Longrightarrow> bar_book x br b0 c"
  using grows.trans by (auto simp: bar_book_def)

definition choice_ok :: "externals \<Rightarrow> bar \<Rightarrow> book \<Rightarrow> nat \<times> money \<Rightarrow> bool" where
  "choice_ok x br b0 c \<longleftrightarrow> fst c < length (bk_orders b0) \<and> instr_same (vo_instr (wk_order (bk_orders b0 ! fst c))) (br_instr br)
     \<and> fair x br (wk_order (bk_orders b0 ! fst c)) (snd c)"

lemma wp_fill_fair:
  assumes "bar_book x br b0 b" "choice_ok x br b0 (i, price)"
  shows "wp (sim_fill i price (br_ts br)) (\<lambda>_. bar_book x br b0) (bar_book x br b0) b"
proof -
  have i: "i < length (bk_orders b0)" using assms(2) by (simp add: choice_ok_def)
  note ord = bar_book_terms [OF assms(1) i]
  have g: "grows b0 (snd (sim_fill i price (br_ts br) b))"
    using assms(1) stepsD [OF sim_fill_grows, of b i price "br_ts br"] grows.trans by (auto simp: bar_book_def)
  have le: "length (bk_fills b0) \<le> length (bk_fills b)" using assms(1) by (auto simp: bar_book_def grows_def)
  have new: "bar_fill x br b0 (new_fill b (wk_order (order_at i b)) q price (br_ts br))" if "fill_made i price (br_ts br) b q" for q
    using that assms(2) i unfolding ord bar_fill_def by (auto simp: Let_def new_fill_def fill_made_def choice_ok_def intro!: exI [of _ i])
  have "\<forall>f \<in> set (drop (length (bk_fills b0)) (bk_fills (snd (sim_fill i price (br_ts br) b)))). bar_fill x br b0 f"
    using assms(1) le new by (rule_tac i = i and price = price and t = "br_ts br" and b = b in sim_fill_cases)
      (auto simp: bar_book_def counted_def)
  then show ?thesis using g by (simp add: wp_snd bar_book_def)
qed

text \<open>What does not fill leaves the fills alone.\<close>

definition same_fills :: "book \<Rightarrow> book \<Rightarrow> bool" where
  "same_fills b c \<longleftrightarrow> bk_fills c = bk_fills b \<and> length (bk_orders c) = length (bk_orders b)"

interpretation same_fills: run_relation same_fills
  by unfold_locales (simp_all add: same_fills_def)

lemma same_fills_upd: "steps same_fills (upd_order i f)" "steps same_fills (put_bar br)"
  by (simp_all add: steps_def upd_order_def put_bar_def smod_def same_fills_def)

lemmas same_fills_rules = same_fills.steps_basic same_fills.steps_sbind same_fills.steps_sfor same_fills.steps_scollect same_fills_upd

lemma execution_price_same_fills: "steps same_fills (execution_price x tb i br)"
  unfolding execution_price_def base_price_def stop_limit_base_def
  by (auto intro!: same_fills_rules split: option.splits order_type.splits prod.splits)

lemma expire_on_bar_same_fills: "steps same_fills (expire_on_bar x tb br i)"
  unfolding expire_on_bar_def by (auto intro!: same_fills_rules)

lemma bar_book_step: "steps grows m \<Longrightarrow> steps same_fills m \<Longrightarrow> bar_book x br b0 b \<Longrightarrow> bar_book x br b0 (snd (m b))"
  using stepsD [of grows m b] stepsD [of same_fills m b] bar_book_grows by (auto simp: same_fills_def)

lemma wp_both: "wp m Q E b \<Longrightarrow> I (snd (m b)) \<Longrightarrow> wp m (\<lambda>a c. I c \<and> Q a c) I b"
  by (auto simp: wp_def split: prod.splits result.splits)

lemma wp_candidates_fair:
  assumes "bar_book x br b0 b" "\<forall>i \<in> set as. i < length (bk_orders b0) \<and> instr_same (vo_instr (wk_order (bk_orders b0 ! i))) (br_instr br)"
  shows "wp (candidates x tb br as) (\<lambda>cs b. bar_book x br b0 b \<and> (\<forall>c \<in> set cs. choice_ok x br b0 c)) (bar_book x br b0) b"
  unfolding candidates_def using assms(1)
proof (rule wp_scollect)
  fix i b assume i: "i \<in> set as" and b: "bar_book x br b0 b"
  have "wp (execution_price x tb i br) (\<lambda>o' c. bar_book x br b0 c \<and> (\<forall>p. o' = Some p \<longrightarrow> fair x br (wk_order (order_at i b)) p)) (bar_book x br b0) b"
    by (rule wp_both [OF wp_execution_fair]) (rule bar_book_step [OF execution_price_grows execution_price_same_fills b])
  then show "wp (sbind (execution_price x tb i br) (\<lambda>o'. sret (map_option (Pair i) o')))
      (\<lambda>o' c. bar_book x br b0 c \<and> (\<forall>c. o' = Some c \<longrightarrow> choice_ok x br b0 c)) (bar_book x br b0) b"
    unfolding wp_simps using bar_book_terms [OF b] assms(2) i by (elim wp_mono) (auto simp: choice_ok_def)
qed

lemma wp_fill_all_fair:
  assumes "bar_book x br b0 b" "\<forall>c \<in> set cs. choice_ok x br b0 c"
  shows "wp (fill_all (br_ts br) cs) (\<lambda>_. bar_book x br b0) (bar_book x br b0) b"
proof -
  have "wp (fill_all (br_ts br) cs) (\<lambda>fs b. bar_book x br b0 b \<and> (\<forall>f \<in> set fs. True)) (bar_book x br b0) b"
    unfolding fill_all_def using assms(1)
    by (rule wp_scollect) (use assms(2) in \<open>auto intro!: wp_mono [OF wp_fill_fair]\<close>)
  then show ?thesis by (rule wp_mono) auto
qed

lemma wp_fill_groups_fair:
  assumes "bar_book x br b0 b" "\<forall>g \<in> set gs. \<forall>c \<in> set g. choice_ok x br b0 c"
  shows "wp (fill_groups (br_ts br) gs) (\<lambda>_. bar_book x br b0) (bar_book x br b0) b"
  using assms
proof (induction gs arbitrary: b)
  case (Cons g gs)
  have "\<forall>c \<in> set (oco_selected b g). choice_ok x br b0 c" using oco_selected_subset Cons.prems(2) by fastforce
  then show ?case using Cons.prems
    by (auto simp: wp_simps intro!: wp_mono [OF wp_fill_all_fair [OF Cons.prems(1)]] wp_mono [OF Cons.IH])
qed (simp add: wp_simps)

text \<open>Nothing is filled outside a session.\<close>

definition session_fills :: "externals \<Rightarrow> tables \<Rightarrow> bar \<Rightarrow> book \<Rightarrow> book \<Rightarrow> bool" where
  "session_fills x tb br b0 b \<longleftrightarrow> bar_book x br b0 b
     \<and> (is_regular_session_bar x tb b0 br \<noteq> Ok True \<longrightarrow> bk_fills b = bk_fills b0)"

lemma regular_venue: "bk_venue c = bk_venue b \<Longrightarrow> is_regular_session_bar x tb c br = is_regular_session_bar x tb b br"
  by (simp add: is_regular_session_bar_def)

lemma wp_fill_bar_fair:
  assumes "bar_book x br b0 b" "length (bk_orders b) = length (bk_orders b0)"
  shows "wp (fill_bar x tb br) (\<lambda>_. bar_book x br b0) (bar_book x br b0) b"
proof -
  have put: "bar_book x br b0 (c\<lparr>bk_last_bars := l\<rparr>)" if "bar_book x br b0 c" for c l
    by (rule bar_book_grows [OF that]) simp_all
  have fills: "wp (sbind (fill_all (br_ts br) cs) (\<lambda>o1. sbind (fill_groups (br_ts br) gs) (\<lambda>o2. sbind (put_bar br) (\<lambda>_. sret (o1 @ o2)))))
      (\<lambda>_. bar_book x br b0) (bar_book x br b0) c"
    if h: "bar_book x br b0 c" "\<forall>e \<in> set cs. choice_ok x br b0 e" "\<forall>g \<in> set gs. \<forall>e \<in> set g. choice_ok x br b0 e" for cs gs c
    unfolding wp_sbind
  proof (rule wp_mono [OF wp_fill_all_fair [OF h(1,2)]], goal_cases)
    case (1 o1 d)
    show ?case by (rule wp_mono [OF wp_fill_groups_fair [OF 1 h(3)]]) (auto simp: wp_simps wp_put_bar intro: put)
  qed
  have act: "\<forall>i \<in> set (active_orders br b). i < length (bk_orders b0) \<and> instr_same (vo_instr (wk_order (bk_orders b0 ! i))) (br_instr br)"
    using assms(2) bar_book_terms [OF assms(1)] by (auto simp: active_orders_def Let_def)
  show ?thesis
    unfolding fill_bar_def wp_sbind wp_basic
    by (rule wp_mono [OF wp_candidates_fair [OF assms(1) act]]) (auto intro!: fills)
qed

lemma wp_match_bar_fair: "wp (match_bar x tb br) (\<lambda>_. session_fills x tb br b) (session_fills x tb br b) b"
proof -
  let ?loop = "\<lambda>b. sfor (expire_on_bar x tb br) [0..<length (bk_orders b)] b"
  have "grows b (snd (?loop b))" by (rule stepsD [OF over_orders_grows]) (rule expire_on_bar_grows)
  moreover have "steps same_fills (sfor (expire_on_bar x tb br) is)" for "is"
    by (rule same_fills.steps_sfor) (rule expire_on_bar_same_fills)
  then have "same_fills b (snd (?loop b))" by (simp add: steps_def)
  ultimately have loop: "wp ?loop (\<lambda>_ c. grows b c \<and> same_fills b c) (\<lambda>c. grows b c \<and> same_fills b c) b" by (simp add: wp_snd)
  have idle: "session_fills x tb br b c" if "grows b c" "bk_fills c = bk_fills b" for c
    using that by (simp add: session_fills_def bar_book_def)
  have put: "session_fills x tb br b (c\<lparr>bk_last_bars := l\<rparr>)" if "grows b c" "bk_fills c = bk_fills b" for c l
    by (rule idle) (use that grows.trans [OF that(1) grows_fields(2)] in simp_all)
  have fill: "wp (fill_bar x tb br) (\<lambda>_. session_fills x tb br b) (session_fills x tb br b) c"
    if c: "grows b c" "same_fills b c" "is_regular_session_bar x tb c br = Ok True" for c
  proof -
    have "is_regular_session_bar x tb b br = Ok True" using c(1,3) regular_venue [of b c] by (auto simp: grows_def)
    moreover have "bar_book x br b c" using c(1,2) by (simp add: bar_book_def same_fills_def)
    ultimately show ?thesis
      by (intro wp_mono [OF wp_fill_bar_fair]) (use c(2) in \<open>auto simp: session_fills_def same_fills_def\<close>)
  qed
  show ?thesis unfolding match_bar_eq wp_sbind
    by (rule wp_mono [OF loop])
      (auto simp: wp_simps wp_put_bar same_fills_def intro!: idle put fill split: result.splits)
qed

lemma process_bar_fair: "wp (process_bar x tb (Some br)) (\<lambda>_. session_fills x tb br b) (session_fills x tb br b) b"
proof -
  have "session_fills x tb br b b" by (simp add: session_fills_def bar_book_def grows.refl)
  then show ?thesis
    unfolding process_bar_def by (auto simp: wp_simps intro!: wp_match_bar_fair split: result.splits option.splits)
qed

subsection \<open>A bar seen again\<close>

definition linked :: "book \<Rightarrow> book \<Rightarrow> bool" where
  "linked b c \<longleftrightarrow> bk_connected c = bk_connected b \<and> bk_venue c = bk_venue b"

interpretation linked: run_relation linked
  by unfold_locales (simp_all add: linked_def)

lemma linked_upd: "steps linked (upd_order i f)" "steps linked (put_bar br)"
  by (simp_all add: steps_def upd_order_def put_bar_def smod_def linked_def)

lemma sim_fill_linked: "steps linked (sim_fill i price t)"
  unfolding steps_def linked_def
proof
  fix b
  show "bk_connected (snd (sim_fill i price t b)) = bk_connected b \<and> bk_venue (snd (sim_fill i price t b)) = bk_venue b"
    by (rule sim_fill_cases [of i price t b]) (auto simp: counted_def)
qed

lemmas linked_rules = linked.steps_basic linked.steps_sbind linked.steps_sfor linked.steps_scollect linked_upd

lemma fill_groups_linked: "steps linked (fill_groups t gs)"
  by (induction gs) (auto simp: fill_all_def intro!: linked_rules sim_fill_linked)

lemma match_bar_linked: "steps linked (match_bar x tb br)"
proof -
  have ex: "steps linked (execution_price x tb i br)" "steps linked (expire_on_bar x tb br i)" for i
    unfolding execution_price_def base_price_def stop_limit_base_def expire_on_bar_def
    by (auto intro!: linked_rules split: option.splits order_type.splits prod.splits)
  have "steps linked (\<lambda>b. sfor (expire_on_bar x tb br) [0..<length (bk_orders b)] b)"
    using linked.steps_sfor [of _ "expire_on_bar x tb br"] ex(2) by (simp add: steps_def)
  then show ?thesis
    unfolding match_bar_def candidates_def fill_all_def
    by (auto intro!: linked_rules ex sim_fill_linked fill_groups_linked split: prod.splits)
qed

lemma wp_any: "wp m (\<lambda>_ _. True) (\<lambda>_. True) s"
  by (simp add: wp_snd)

lemma match_bar_last:
  "wp (match_bar x tb br) (\<lambda>_ c. imap_get (bk_last_bars c) (instr_hk (br_instr br)) = Some br) (\<lambda>_. True) b"
proof -
  let ?Q = "\<lambda>_ c. imap_get (bk_last_bars c) (instr_hk (br_instr br)) = Some br"
  have groups: "wp (sbind (fill_groups t gs) (\<lambda>o2. sbind (put_bar br) (\<lambda>_. sret (o1 @ o2)))) ?Q (\<lambda>_. True) c" for t gs o1 c
    unfolding wp_sbind by (rule wp_mono [OF wp_any]) (simp_all add: wp_simps wp_put_bar)
  have fills: "wp (sbind (fill_all t cs) (\<lambda>o1. sbind (fill_groups t gs) (\<lambda>o2. sbind (put_bar br) (\<lambda>_. sret (o1 @ o2))))) ?Q (\<lambda>_. True) c"
    for t cs gs c by (subst wp_sbind) (rule wp_mono [OF wp_any], simp_all add: groups)
  have fill: "wp (fill_bar x tb br) ?Q (\<lambda>_. True) c" for c
    unfolding fill_bar_def wp_sbind [of "sget _"] wp_sbind [of "candidates _ _ _ _"] wp_basic
    by (rule wp_mono [OF wp_any]) (auto simp: fills)
  show ?thesis unfolding match_bar_eq wp_sbind
    by (rule wp_mono [OF wp_any]) (auto simp: wp_simps wp_put_bar fill split: result.splits)
qed

lemma bar_same_refl: "bar_same x br br"
  by (simp add: bar_same_def instr_same_refl ts_eq_def dec_eq_refl)

lemma process_bar_known:
  assumes "bk_connected c" "check_bar br c = Ok ()" "imap_get (bk_last_bars c) (instr_hk (br_instr br)) = Some p"
    "ts_eq x (br_ts br) (br_ts p)" "bar_same x br p"
  shows "process_bar x tb (Some br) c = (Ok [], c)"
  using assms by (simp add: process_bar_def sm_simps require_connected_def)

lemma process_bar_again:
  assumes "process_bar x tb (Some br) b = (Ok fs, c)"
  shows "process_bar x tb (Some br) c = (Ok [], c)"
proof -
  let ?hk = "instr_hk (br_instr br)"
  have b: "bk_connected b" "check_bar br b = Ok ()"
    using assms by (auto simp: process_bar_def sbind_sread require_connected_def lerr_def split: if_splits result.splits)
  show ?thesis
  proof (cases "\<exists>p. imap_get (bk_last_bars b) ?hk = Some p \<and> ts_eq x (br_ts br) (br_ts p)")
    case True
    then obtain p where p: "imap_get (bk_last_bars b) ?hk = Some p" "ts_eq x (br_ts br) (br_ts p)" by blast
    then have "bar_same x br p" "c = b"
      using assms b by (auto simp: process_bar_def sm_simps require_connected_def lerr_def split: if_splits)
    then show ?thesis using process_bar_known b p by blast
  next
    case False
    then have m: "match_bar x tb br b = (Ok fs, c)"
      using assms b by (auto simp: process_bar_def sm_simps require_connected_def split: if_splits result.splits option.splits)
    have "imap_get (bk_last_bars c) ?hk = Some br" using match_bar_last [of x tb br b] m by (simp add: wp_def)
    moreover have "bk_connected c" "bk_venue c = bk_venue b"
      using stepsD [OF match_bar_linked, of b x tb br] m b(1) by (auto simp: linked_def)
    moreover from this have "check_bar br c = check_bar br b" by (simp add: check_bar_def)
    with b(2) have "check_bar br c = Ok ()" by simp
    ultimately show ?thesis using bar_same_refl by (intro process_bar_known) (auto simp: ts_eq_def)
  qed
qed

end
