(* ===== verification/Sim_Props.thy ===== *)
theory Sim_Props
  imports Sim_Prices Ledger_Props
begin

section \<open>Properties of the simulated broker\<close>

text \<open>
  Concrete runs (connect, one limit order, the opening bar that fills it; a saved book restored), and the properties: the history of a
  book, its balance, its positions, the prices of a bar, a bar seen twice.
\<close>

subsection \<open>A run of the broker\<close>

definition s_ts :: "nat \<Rightarrow> ts" where
  "s_ts sod = (let dt = \<lparr>dt_date = \<lparr>nd_year = 2000, nd_month = 1, nd_day = 3\<rparr>, dt_sod = sod, dt_us = 0, dt_off = 0\<rparr> in \<lparr>ts_dt = dt, ts_iso = dt_iso dt\<rparr>)"

definition s_clock :: clock where "s_clock n = Ok ''2000-01-03T14:00:00+00:00''"

definition s_vorder :: vorder where
  "s_vorder = \<lparr>vo_id = ''v1'', vo_instr = Equity ''AAPL'', vo_otype = Limit, vo_side = Buy, vo_quantity = usd 10 0,
     vo_submitted_at = s_ts 50400, vo_tif = Day, vo_limit = Some (usd 101 0), vo_stop = None, vo_trail = None,
     vo_allocs = [\<lparr>al_soid = ''o1'', al_account = ''acc'', al_qty = usd 10 0\<rparr>], vo_parent = None, vo_oco = None\<rparr>"

definition s_bar :: bar where
  "s_bar = \<lparr>br_instr = Equity ''AAPL'', br_ts = s_ts 52200, br_open = usd 100 0, br_high = usd 102 0, br_low = usd 99 0,
     br_close = usd 101 0, br_volume = usd 5000 0, br_as_of = s_ts 52200\<rparr>"

definition s_working :: working where
  "s_working = \<lparr>wk_order = s_vorder, wk_state = Accepted, wk_filled = ZERO, wk_updated_at = s_ts 50400, wk_triggered = False\<rparr>"

definition s_book0 :: book where "s_book0 = empty_book ''acc'' Xnys ZERO 0"

definition s_book1 :: book where
  "s_book1 = s_book0\<lparr>bk_connected := True, bk_orders := [s_working], bk_index := [(''v1'', 0)]\<rparr>"

definition s_tables :: tables where "s_tables _ = undefined"

lemma s_submitted: "fst (snd (submit sample_ext s_tables s_vorder (s_book0\<lparr>bk_connected := True\<rparr>, s_clock))) = s_book1"
  by code_simp

lemma s_bar_checks:
  "check_bar s_bar s_book1 = Ok ()" "check_bar_sequence sample_ext s_tables s_bar s_book1 = Ok ()"
  "is_regular_session_bar sample_ext s_tables s_book1 s_bar = Ok True" "active_orders s_bar s_book1 = [0]"
  by code_simp+

lemma s_expire: "sfor (expire_on_bar sample_ext s_tables s_bar) [0..<length (bk_orders s_book1)] s_book1 = (Ok (), s_book1)"
  by code_simp

lemma s_candidates: "candidates sample_ext s_tables s_bar [0] s_book1 = (Ok [(0, usd 100 0)], s_book1)"
  by code_simp

lemma s_div: "ddiv (usd 1000 0) (usd 10 0) = Ok (usd 100 0)"
proof -
  have c: "canonical (usd 1000 0)" "canonical (usd 10 0)" "canonical (usd 100 0)" by code_simp+
  have "exact_value (mval (usd 1000 0) / mval (usd 10 0))" by (simp add: usd_whole) (rule grid_exact [of 0 1000]; simp add: grid_iff on_grid_def room_def)
  then have "\<exists>m. ddiv (usd 1000 0) (usd 10 0) = Ok m \<and> canonical m \<and> mval m = 100"
    using computes_exact [OF computes_div [OF c(1,2)]] by (auto simp: ddiv_def usd_whole)
  then show ?thesis using canonical_unique c(3) by (auto simp: usd_whole)
qed

lemma s_average: "updated_average ZERO ZERO (usd 10 0) (usd 10 0) (usd 100 0) = Ok (usd 100 0)"
proof -
  have "map_err derr (money_abs ZERO) = Ok ZERO" "map_err derr (money_abs (usd 10 0)) = Ok (usd 10 0)" "dadd ZERO (usd 10 0) = Ok (usd 10 0)"
    "dmul ZERO ZERO = Ok ZERO" "dmul (usd 10 0) (usd 100 0) = Ok (usd 1000 0)" "dadd ZERO (usd 1000 0) = Ok (usd 1000 0)" by code_simp+
  then show ?thesis using s_div by (simp add: updated_average_def)
qed

definition s_vfill :: vfill where
  "s_vfill = \<lparr>vf_fill_id = ''v1:fill:1'', vf_order_id = ''v1'', vf_instr = Equity ''AAPL'', vf_quantity = usd 10 0, vf_price = usd 100 0,
     vf_filled_at = s_ts 52200, vf_side = Buy, vf_src = None\<rparr>"

definition s_book2 :: book where
  "s_book2 = s_book1\<lparr>bk_fill_counts := [(''v1'', 1)], bk_fills := [s_vfill],
     bk_orders := [s_working\<lparr>wk_filled := usd 10 0, wk_state := Filled, wk_updated_at := s_ts 52200\<rparr>],
     bk_positions := [(instr_hk (Equity ''AAPL''), \<lparr>ps_instr = Equity ''AAPL'', ps_qty = usd 10 0, ps_avg = usd 100 0, ps_as_of = s_ts 52200\<rparr>)],
     bk_last_bars := [(instr_hk (Equity ''AAPL''), s_bar)]\<rparr>"

lemma s_filled: "sim_fill 0 (usd 100 0) (s_ts 52200) s_book1 = (Ok (Some 0), s_book2\<lparr>bk_last_bars := []\<rparr>)"
proof -
  have w: "order_at 0 s_book1 = s_working" "is_working (wk_state s_working)" "wk_order s_working = s_vorder" "wk_filled s_working = ZERO"
    by (simp_all add: order_at_def s_book1_def s_working_def is_working_def)
  have a: "dsub (vo_quantity s_vorder) ZERO = Ok (usd 10 0)" "exit_quantity s_vorder (usd 10 0) s_book1 = Ok (usd 10 0)" "dadd ZERO (usd 10 0) = Ok (usd 10 0)"
    "new_fill s_book1 s_vorder (usd 10 0) (usd 100 0) (s_ts 52200) = s_vfill"
    by code_simp+
  have p: "update_position s_vfill b = (Ok (), b\<lparr>bk_positions := bk_positions s_book2\<rparr>)" if "bk_positions b = []" for b
    using a(3) s_average that by (simp add: update_position_def Let_def sm_simps s_vfill_def imap_get_def s_book2_def)
  have "vo_parent s_vorder = None" by (simp add: s_vorder_def)
  then show ?thesis
    using w a p by (simp add: sim_fill_eq Let_def usd_whole counted_def filled_working_def next_number_def)
      (simp add: s_book2_def s_book1_def s_book0_def empty_book_def imap_get_def s_vorder_def s_working_def usd_whole)
qed

lemma s_bar_run: "process_bar sample_ext s_tables (Some s_bar) s_book1 = (Ok [0], s_book2)"
proof -
  have g: "group_of s_book1 (0, usd 100 0) = None"
    by (simp add: group_of_def order_at_def s_book1_def s_working_def s_vorder_def)
  have ts: "br_ts s_bar = s_ts 52200" "br_instr s_bar = Equity ''AAPL''" by (simp_all add: s_bar_def)
  have "put_bar s_bar (s_book2\<lparr>bk_last_bars := []\<rparr>) = (Ok (), s_book2)"
    by (simp add: put_bar_def smod_def ts s_book2_def)
  then have "match_bar sample_ext s_tables s_bar s_book1 = (Ok [0], s_book2)"
    unfolding match_bar_def
    by (simp add: sbind_def s_expire s_candidates s_bar_checks sread_def sget_def sret_def fill_all_def s_filled ts g groups_in_order_def
        List.map_filter_def)
  moreover have "bk_connected s_book1" "imap_get (bk_last_bars s_book1) (instr_hk (br_instr s_bar)) = None"
    by (simp_all add: s_book1_def s_book0_def empty_book_def imap_get_def)
  ultimately show ?thesis
    using s_bar_checks by (simp add: process_bar_def sm_simps require_connected_def)
qed

lemma s_orders: "order_good 0 1000 s_vorder" "room 0 1000"
proof -
  have "canonical (usd 10 0)" by code_simp
  moreover have "on_grid 0 10" unfolding on_grid_def by (rule exI [of _ 10]) simp
  ultimately show "order_good 0 1000 s_vorder" by (simp add: order_good_def s_vorder_def amount_def usd_whole)
qed (simp add: room_def)

lemma s_run: "\<exists>clk. sim_run sample_ext s_tables (order_good 0 1000) saved True (s_book0, s_clock) (s_book2, clk)"
proof -
  let ?tr = "sim_tr sample_ext s_tables (order_good 0 1000) saved True"
  let ?s = "(s_book0\<lparr>bk_connected := True\<rparr>, s_clock)"
  have c: "(\<lambda>n. s_clock (Suc n)) = s_clock" by (rule ext) (simp add: s_clock_def)
  have n: "and_then (s_clock 0) (ts_aware sample_ext) = Ok (s_ts 50400)" by code_simp
  have "connect sample_ext (s_book0, s_clock) = (Ok (s_ts 50400), ?s)"
    by (simp add: connect_def sbind_def on_book_def smod_def now_def c n)
  then have 1: "?tr (s_book0, s_clock) ?s" by (rule tr_connect) simp
  obtain r t where s: "submit sample_ext s_tables s_vorder ?s = (r, t)" by (metis surj_pair)
  moreover have "is_ok (fst (submit sample_ext s_tables s_vorder ?s))" by code_simp
  ultimately have 2: "?tr ?s t" using s_orders by (intro tr_submit [OF _ s]) auto
  have t: "t = (s_book1, snd t)" using s_submitted s by (cases t) simp
  have "on_book (process_bar sample_ext s_tables (Some s_bar)) t = (Ok [0], (s_book2, snd t))"
    by (subst t) (simp add: on_book_def s_bar_run)
  then have 3: "?tr t (s_book2, snd t)" by (rule tr_bar) simp
  have "?tr\<^sup>*\<^sup>* (s_book0, s_clock) (s_book2, snd t)"
    by (rule converse_rtranclp_into_rtranclp [where r = ?tr, OF 1], rule converse_rtranclp_into_rtranclp [where r = ?tr, OF 2], rule r_into_rtranclp [where r = ?tr, OF 3])
  then show ?thesis unfolding sim_run_def by blast
qed

text \<open>
  The order and its fill restored into a new broker, with a position of twelve: two shares were held before.
\<close>

definition s_held :: pos where
  "s_held = \<lparr>ps_instr = Equity ''AAPL'', ps_qty = usd 12 0, ps_avg = usd 100 0, ps_as_of = s_ts 52200\<rparr>"

definition s_restored :: book where
  "s_restored = s_book0\<lparr>bk_index := [(''v1'', 0)], bk_fill_counts := [(''v1'', 1)], bk_fills := [s_vfill],
     bk_orders := [s_working\<lparr>wk_filled := usd 10 0, wk_state := Filled, wk_updated_at := s_ts 52200, wk_triggered := True\<rparr>],
     bk_positions := [(instr_hk (Equity ''AAPL''), s_held)]\<rparr>"

lemma s_restore: "\<exists>clk. restore sample_ext s_tables [(s_vorder, Filled)] [s_vfill] [s_held] (s_book0, s_clock) = (Ok (), (s_restored, clk))"
proof -
  obtain r b clk where e: "restore sample_ext s_tables [(s_vorder, Filled)] [s_vfill] [s_held] (s_book0, s_clock) = (r, (b, clk))"
    by (metis surj_pair)
  moreover have "fst (restore sample_ext s_tables [(s_vorder, Filled)] [s_vfill] [s_held] (s_book0, s_clock)) = Ok ()"
    "fst (snd (restore sample_ext s_tables [(s_vorder, Filled)] [s_vfill] [s_held] (s_book0, s_clock))) = s_restored" by code_simp+
  ultimately show ?thesis by simp
qed

lemma s_saved: "saved_as 0 1000 [s_vfill] [s_held] [(s_vorder, Filled)] [s_vfill] [s_held] True"
proof -
  have c: "canonical (usd 10 0)" "canonical (usd 12 0)" by code_simp+
  have "on_grid 0 (of_int n)" for n :: int unfolding on_grid_def by (rule exI [of _ n]) simp
  from this [of 10] this [of 12] c have "amount 0 (usd 10 0)" "amount 0 (usd 12 0)" by (simp_all add: amount_def usd_whole)
  moreover have "fill_number s_vfill = 1" by code_simp
  ultimately show ?thesis using s_orders(1)
    by (simp add: saved_as_def saved_good_def filled_of_def exits_of_def) (simp add: s_vorder_def s_vfill_def s_held_def usd_whole)
qed

lemma s_restored_run:
  assumes "saved [(s_vorder, Filled)] [s_vfill] [s_held] True"
  shows "\<exists>clk. sim_run sample_ext s_tables (order_good 0 1000) saved True (s_book0, s_clock) (s_restored, clk)"
proof -
  obtain clk where r: "restore sample_ext s_tables [(s_vorder, Filled)] [s_vfill] [s_held] (s_book0, s_clock) = (Ok (), (s_restored, clk))"
    using s_restore ..
  have "sim_tr sample_ext s_tables (order_good 0 1000) saved True (s_book0, s_clock) (s_restored, clk)"
    by (rule tr_restore [OF _ r]) (simp_all add: assms)
  then show ?thesis unfolding sim_run_def by (blast intro: r_into_rtranclp)
qed

subsection \<open>The properties\<close>

text \<open>
  C19. The book keeps its history. Along every run of commands, restores and refused commands included, fills are only appended,
  no order disappears or changes its identity, instrument, side or entry; an order that is filled, cancelled,
  expired or rejected keeps its terms, state and filled quantity, and a triggered stop-limit stays triggered.
\<close>

theorem sim_history:
  assumes "sim_run x tb ok saved accepted (b, clk) (c, clk')"
  shows "(\<exists>new. bk_fills c = bk_fills b @ new) \<and> length (bk_orders b) \<le> length (bk_orders c)
    \<and> (\<forall>i < length (bk_orders b). let w = bk_orders b ! i; w' = bk_orders c ! i in
        vo_id (wk_order w') = vo_id (wk_order w) \<and> vo_instr (wk_order w') = vo_instr (wk_order w)
        \<and> vo_side (wk_order w') = vo_side (wk_order w) \<and> vo_parent (wk_order w') = vo_parent (wk_order w)
        \<and> (wk_state w \<in> {Filled, Cancelled, Expired, Rejected} \<longrightarrow>
             wk_order w' = wk_order w \<and> wk_state w' = wk_state w \<and> wk_filled w' = wk_filled w)
        \<and> (wk_triggered w \<longrightarrow> wk_triggered w'))"
  using sim_run_lives [OF assms] by (auto simp: lives_def order_lives_def ended_def Let_def)

theorem sim_history_witness:
  "\<exists>clk new. bk_fills s_book2 = bk_fills s_book0 @ new \<and> new \<noteq> []
    \<and> sim_run sample_ext s_tables (order_good 0 1000) (saved_good 0 1000) True (s_book0, s_clock) (s_book2, clk)"
proof -
  obtain clk where r: "sim_run sample_ext s_tables (order_good 0 1000) (saved_good 0 1000) True (s_book0, s_clock) (s_book2, clk)" using s_run ..
  have "bk_fills s_book2 \<noteq> []" "bk_fills s_book0 = []" by (simp_all add: s_book2_def s_book0_def empty_book_def)
  then show ?thesis using sim_history [OF r] r by auto
qed

text \<open>
  C16. The book balances. In every run of a new broker whose orders have positive quantities on a decimal grid with
  room, refused commands included: the filled quantity of an order is the sum of its fills and never exceeds its
  quantity, and the state says which (nothing, a part, all); what exits have filled never exceeds what their
  entry has; every fill is of an order of the book, with its instrument and side and a positive quantity and
  price; and no two fills share an id. The run may restore a saved book, wherever the code allows it: the saved fills
  are then positive, with ids that differ, exits within their entry (\<open>saved_good\<close>; \<open>restore\<close> checks none of these),
  and a broker whose restore was refused is dropped. That states agree with the fills, that fills name an order and
  its side, and that orders are given once is not assumed of the saved data: \<open>restore\<close> checks it.
\<close>

theorem sim_book_balances:
  assumes "room k B" "new_with_venue account dec bps ticks venue = Ok b0"
    "sim_run x tb (order_good k B) (saved_good k B) accepted (b0, clk) (b, clk')"
  shows "(\<forall>w \<in> set (bk_orders b). let q = mval (vo_quantity (wk_order w)); f = mval (wk_filled w) in
        f = filled_of (vo_id (wk_order w)) (bk_fills b) \<and> 0 \<le> f \<and> f \<le> q
        \<and> (wk_state w = Accepted \<longrightarrow> f = 0) \<and> (wk_state w = PartiallyFilled \<longrightarrow> 0 < f \<and> f < q) \<and> (wk_state w = Filled \<longrightarrow> f = q)
        \<and> exited_of (vo_id (wk_order w)) (bk_orders b) \<le> f)
    \<and> (\<forall>f \<in> set (bk_fills b). 0 < mval (vf_quantity f) \<and> 0 < mval (vf_price f)
        \<and> (\<exists>w \<in> set (bk_orders b). vf_order_id f = vo_id (wk_order w) \<and> vf_instr f = vo_instr (wk_order w) \<and> vf_side f = vo_side (wk_order w)))
    \<and> distinct (map vf_fill_id (bk_fills b))"
proof -
  have "ledgered k B b0" using assms(1,2) book_good_empty by (auto simp: new_with_venue_def ledgered_def lerr_def split: if_splits)
  then have g: "book_good k B b" using ledgered.sim_run_keeps [OF assms(3)] by (simp add: ledgered_def)
  then have w: "\<forall>w \<in> set (bk_orders b). working_good k B b w" and f: "\<forall>f \<in> set (bk_fills b). fill_good b f"
    and d: "distinct (map vf_fill_id (bk_fills b))" by (auto simp: book_good_def)
  have "\<exists>w \<in> set (bk_orders b). vf_order_id f = vo_id (wk_order w) \<and> vf_instr f = vo_instr (wk_order w) \<and> vf_side f = vo_side (wk_order w)"
    if "fill_good b f" for f
  proof -
    obtain i where i: "imap_get (bk_index b) (vf_order_id f) = Some i" "vf_instr f = vo_instr (wk_order (bk_orders b ! i))"
      "vf_side f = vo_side (wk_order (bk_orders b ! i))" using \<open>fill_good b f\<close> by (auto simp: fill_good_def order_at_def)
    then show ?thesis using working_at [OF g i(1)] by (intro bexI [of _ "bk_orders b ! i"]) auto
  qed
  then show ?thesis using w f d working_le [of k B b]
    by (auto simp: working_good_def fill_good_def Let_def state_cases)
qed

theorem sim_book_balances_witness:
  "\<exists>clk clk'. sim_run sample_ext s_tables (order_good 0 1000) (saved_good 0 1000) True (s_book0, s_clock) (s_book2, clk)
     \<and> sim_run sample_ext s_tables (order_good 0 1000) (saved_good 0 1000) True (s_book0, s_clock) (s_restored, clk')
     \<and> distinct (map vf_fill_id (bk_fills s_book2)) \<and> filled_of ''v1'' (bk_fills s_book2) = 10
     \<and> distinct (map vf_fill_id (bk_fills s_restored)) \<and> filled_of ''v1'' (bk_fills s_restored) = 10"
proof -
  obtain clk where r: "sim_run sample_ext s_tables (order_good 0 1000) (saved_good 0 1000) True (s_book0, s_clock) (s_book2, clk)" using s_run ..
  obtain clk' where r': "sim_run sample_ext s_tables (order_good 0 1000) (saved_good 0 1000) True (s_book0, s_clock) (s_restored, clk')"
    using s_restored_run [of "saved_good 0 1000"] s_saved by (auto simp: saved_as_def)
  have n: "new_with_venue ''acc'' True ZERO 0 Xnys = Ok s_book0" by (simp add: new_with_venue_def s_book0_def)
  have "filled_of ''v1'' (bk_fills s_book2) = 10" "filled_of ''v1'' (bk_fills s_restored) = 10"
    by (simp_all add: filled_of_def s_book2_def s_restored_def s_vfill_def usd_whole)
  then show ?thesis using sim_book_balances [OF s_orders(2) n r] sim_book_balances [OF s_orders(2) n r'] r r' by blast
qed

text \<open>
  C18. Positions are the fills. In every run of accepted commands of a new broker, while the volume has room below 28
  digits, the position of an instrument is the signed sum of the quantities of its fills; or, when the run restored
  the fills and positions saved before (\<open>fills\<close>, \<open>positions\<close>), the book's fills begin with the restored ones and
  the position is the restored one plus the signed sum of the fills since. The restored positions are whatever the
  host handed in: \<open>restore\<close> does not compare them with the fills, and a host saves only the fills of working orders.
\<close>

theorem sim_positions_balance:
  assumes "room k B" "new_with_venue account dec bps ticks venue = Ok b0"
    "sim_run x tb (order_good k B) (saved_as k B fills positions) True (b0, clk) (b, clk')"
    "held_volume positions + volume (bk_fills b) \<le> B"
  shows "(\<forall>hk. mval (qty_at b hk) = signed_of hk (bk_fills b))
    \<or> (\<exists>new. bk_fills b = by_time x fills @ new \<and> (\<forall>hk. mval (qty_at b hk) = held_of hk positions + signed_of hk new))"
proof -
  have "balanced x k B fills positions b0" using assms(1,2) book_good_empty
    by (auto simp: new_with_venue_def balanced_def explained_def ledgered_def lerr_def qty_at_def signed_of_def empty_book_def imap_get_def
        split: if_splits)
  then have "balanced x k B fills positions b" using balanced.sim_run_keeps [OF assms(3)] by simp
  then show ?thesis using assms(4) by (simp add: balanced_def explained_def)
qed

theorem sim_positions_balance_witness:
  "\<exists>clk clk'. sim_run sample_ext s_tables (order_good 0 1000) (saved_as 0 1000 [] []) True (s_book0, s_clock) (s_book2, clk)
     \<and> mval (qty_at s_book2 (instr_hk (Equity ''AAPL''))) = 10
     \<and> sim_run sample_ext s_tables (order_good 0 1000) (saved_as 0 1000 [s_vfill] [s_held]) True (s_book0, s_clock) (s_restored, clk')
     \<and> mval (qty_at s_restored (instr_hk (Equity ''AAPL''))) = held_of (instr_hk (Equity ''AAPL'')) [s_held]"
proof -
  let ?h = "instr_hk (Equity ''AAPL'')"
  obtain clk where r: "sim_run sample_ext s_tables (order_good 0 1000) (saved_as 0 1000 [] []) True (s_book0, s_clock) (s_book2, clk)" using s_run ..
  obtain clk' where r': "sim_run sample_ext s_tables (order_good 0 1000) (saved_as 0 1000 [s_vfill] [s_held]) True (s_book0, s_clock) (s_restored, clk')"
    using s_restored_run [of "saved_as 0 1000 [s_vfill] [s_held]"] s_saved by blast
  have n: "new_with_venue ''acc'' True ZERO 0 Xnys = Ok s_book0" by (simp add: new_with_venue_def s_book0_def)
  have v: "held_volume [] + volume (bk_fills s_book2) \<le> 1000" "signed_of ?h (bk_fills s_book2) = 10"
    "held_volume [s_held] + volume (bk_fills s_restored) \<le> 1000" "mval (qty_at s_restored ?h) \<noteq> signed_of ?h (bk_fills s_restored)"
    "by_time sample_ext [s_vfill] = bk_fills s_restored"
    by (simp_all add: held_volume_def volume_def signed_of_def s_book2_def s_restored_def s_vfill_def s_held_def usd_whole by_time_def
        qty_at_def imap_get_def)
  have "mval (qty_at s_book2 ?h) = 10"
    using sim_positions_balance [OF s_orders(2) n r v(1)] v(2) by (auto simp: by_time_def held_of_def)
  moreover have "mval (qty_at s_restored ?h) = held_of ?h [s_held]"
    using sim_positions_balance [OF s_orders(2) n r' v(3)] v(4,5) by (auto simp: signed_of_def)
  ultimately show ?thesis using r r' by blast
qed

text \<open>
  C17. A bar fills fairly. Whatever a bar does, answered or refused, each new fill is of an order of the book in the
  bar's instrument, at the bar's time, after the order was submitted, with a positive quantity and price; a limit
  or stop-limit order is never filled beyond its limit; and nothing is filled outside the regular session.
\<close>

theorem bar_fills_fairly:
  assumes "process_bar x tb (Some br) b = (r, c)"
  shows "\<exists>new. bk_fills c = bk_fills b @ new
    \<and> (new \<noteq> [] \<longrightarrow> is_regular_session_bar x tb b br = Ok True)
    \<and> (\<forall>f \<in> set new. 0 < mval (vf_quantity f) \<and> 0 < mval (vf_price f) \<and> vf_filled_at f = br_ts br
        \<and> (\<exists>w \<in> set (bk_orders b). let ord = wk_order w in
             vf_order_id f = vo_id ord \<and> vf_instr f = vo_instr ord \<and> vf_side f = vo_side ord
             \<and> instr_same (vo_instr ord) (br_instr br) \<and> ts_lt x (vo_submitted_at ord) (br_ts br)
             \<and> (vo_otype ord \<in> {Limit, StopLimit} \<longrightarrow> (\<exists>l. vo_limit ord = Some l
                  \<and> (if vo_side ord = Buy then mval (vf_price f) \<le> mval l else mval l \<le> mval (vf_price f))))))"
proof -
  have s: "session_fills x tb br b c" using process_bar_fair [of x tb br b] assms by (cases r) (auto simp: wp_def)
  then obtain new where n: "bk_fills c = bk_fills b @ new" by (auto simp: session_fills_def bar_book_def grows_def)
  have "bar_fill x br b f" if "f \<in> set new" for f using s n that by (simp add: session_fills_def bar_book_def)
  then have "\<forall>f \<in> set new. bar_fill x br b f" by blast
  moreover have "new \<noteq> [] \<longrightarrow> is_regular_session_bar x tb b br = Ok True" using s n by (auto simp: session_fills_def)
  ultimately show ?thesis using n
    by (intro exI [of _ new]) (fastforce simp: bar_fill_def fair_def at_limit_def no_worse_def Let_def)
qed

theorem bar_fills_fairly_witness:
  "process_bar sample_ext s_tables (Some s_bar) s_book1 = (Ok [0], s_book2)
   \<and> (\<exists>new. bk_fills s_book2 = bk_fills s_book1 @ new \<and> new \<noteq> [])"
proof -
  have "bk_fills s_book1 = []" "bk_fills s_book2 \<noteq> []" by (simp_all add: s_book1_def s_book2_def s_book0_def empty_book_def)
  then show ?thesis using bar_fills_fairly [OF s_bar_run] s_bar_run by auto
qed

text \<open>
  C20. A bar counts once: after a bar was accepted, the same bar again answers no fills and changes nothing.
\<close>

theorem bar_counts_once:
  assumes "process_bar x tb (Some br) b = (Ok fs, c)"
  shows "process_bar x tb (Some br) c = (Ok [], c)"
  by (rule process_bar_again [OF assms])

theorem bar_counts_once_witness: "process_bar sample_ext s_tables (Some s_bar) s_book2 = (Ok [], s_book2)"
  by (rule bar_counts_once [OF s_bar_run])

end
