(* ===== verification/Sim_Trail.thy ===== *)
theory Sim_Trail
  imports Sim_Books Ledger_Props
begin

section \<open>The trailing stop\<close>

text \<open>
  A path of prices against its reference: the stop follows the best price seen so far at the trail amount, and the
  trigger fires at the first price that reaches it.
\<close>

definition peak :: "side \<Rightarrow> money list \<Rightarrow> rat" where
  "peak sd ps = (if sd = Sell then Max (mval ` set ps) else Min (mval ` set ps))"

definition stop_at :: "side \<Rightarrow> money \<Rightarrow> money list \<Rightarrow> rat" where
  "stop_at sd a ps = (if sd = Sell then peak sd ps - mval a else peak sd ps + mval a)"

definition hits :: "side \<Rightarrow> money \<Rightarrow> money list \<Rightarrow> bool" where
  "hits sd a ps \<longleftrightarrow> (if sd = Sell then mval (last ps) \<le> stop_at sd a ps else stop_at sd a ps \<le> mval (last ps))"

definition fresh_trail :: "side \<Rightarrow> money \<Rightarrow> trail" where
  "fresh_trail sd a = \<lparr>tr_side = sd, tr_amount = a, tr_extreme = None, tr_stop = None, tr_triggered = False\<rparr>"

lemma sfor_append: "sfor f (xs @ ys) s = sbind (sfor f xs) (\<lambda>_. sfor f ys) s"
  by (induction xs arbitrary: s) (auto simp: sm_simps sbind_def split: prod.splits result.splits)

lemma peak_snoc: "peak sd (ps @ [p]) = (if ps = [] then mval p else if sd = Sell then max (peak sd ps) (mval p) else min (peak sd ps) (mval p))"
  by (auto simp: peak_def Max_insert Min_insert max.commute min.commute)

text \<open>What a path leaves: nothing before the first price, the reference while no price hits, the trigger for ever.\<close>

definition follows :: "side \<Rightarrow> money \<Rightarrow> nat \<Rightarrow> money list \<Rightarrow> trail \<Rightarrow> bool" where
  "follows sd a k ps t \<longleftrightarrow> tr_side t = sd \<and> tr_amount t = a
     \<and> (tr_triggered t \<longleftrightarrow> (\<exists>n < length ps. hits sd a (take (Suc n) ps)))
     \<and> (\<not> tr_triggered t \<longrightarrow> (if ps = [] then tr_extreme t = None else
          (\<exists>e s. tr_extreme t = Some e \<and> amount k e \<and> mval e = peak sd ps \<and> tr_stop t = Some s \<and> mval s = stop_at sd a ps)))"

lemma hits_snoc: "(\<exists>n < length (ps @ [p]). hits sd a (take (Suc n) (ps @ [p]))) \<longleftrightarrow> (\<exists>n < length ps. hits sd a (take (Suc n) ps)) \<or> hits sd a (ps @ [p])"
  by (auto simp: less_Suc_eq)

lemma peak_between:
  assumes "ps \<noteq> []" "\<forall>p \<in> set ps. amount k p \<and> 0 < mval p \<and> mval p + d \<le> B"
  shows "0 < peak sd ps \<and> peak sd ps + d \<le> B"
proof -
  have "peak sd ps \<in> mval ` set ps" using assms(1) by (simp add: peak_def)
  then show ?thesis using assms(2) by auto
qed

lemma update_follows:
  assumes r: "room k B" and a: "amount k a" "0 < mval a" and ps: "\<forall>p \<in> set (ps @ [p]). amount k p \<and> 0 < mval p \<and> mval p + mval a \<le> B"
    and f: "follows sd a k ps t" and u: "trail_update p t = (Ok h, t')"
  shows "follows sd a k (ps @ [p]) t'"
proof (cases "tr_triggered t")
  case True
  then have "t' = t" using u ps by (auto simp: trail_update_def lerr_def split: if_splits)
  then show ?thesis using f True unfolding follows_def hits_snoc by simp
next
  case False
  let ?e = "case tr_extreme t of None \<Rightarrow> p | Some e \<Rightarrow> if sd = Sell then dmax e p else dmin e p"
  have e: "amount k ?e" "mval ?e = peak sd (ps @ [p])"
    using f False ps amount_minmax by (auto simp: follows_def peak_snoc split: if_splits)
  have b: "0 < mval ?e" "mval ?e \<le> B - mval a"
    using peak_between [OF _ ps, of sd] e(2) by auto
  have "\<bar>mval ?e - mval a\<bar> \<le> B" "\<bar>mval ?e + mval a\<bar> \<le> B" using b a(2) by (auto simp: abs_le_iff)
  from amount_sub_exact [OF r e(1) a(1) this(1)] amount_add_exact [OF r e(1) a(1) this(2)]
  obtain s where s: "(if sd = Sell then dsub ?e a else dadd ?e a) = Ok s" "mval s = stop_at sd a (ps @ [p])"
    using e(2) by (cases "sd = Sell") (auto simp: stop_at_def)
  have "t' = t\<lparr>tr_extreme := Some ?e, tr_stop := Some s, tr_triggered := hits sd a (ps @ [p])\<rparr>"
    using u False f s ps
    by (cases sd) (auto simp: trail_update_def lerr_def follows_def hits_def Let_def split: if_splits result.splits)
  then show ?thesis using f False e s unfolding follows_def hits_snoc by auto
qed

lemma path_follows:
  assumes "room k B" "amount k a" "0 < mval a" "\<forall>p \<in> set ps. amount k p \<and> mval p + mval a \<le> B"
    "trail_path ps (fresh_trail sd a) = (Ok (), t)"
  shows "(\<forall>p \<in> set ps. 0 < mval p) \<and> follows sd a k ps t"
  using assms(4,5)
proof (induction ps arbitrary: t rule: rev_induct)
  case Nil
  then show ?case by (auto simp: trail_path_def sret_def fresh_trail_def follows_def)
next
  case (snoc p ps)
  obtain u h where u: "trail_path ps (fresh_trail sd a) = (Ok (), u)" and h: "trail_update p u = (Ok h, t)"
    using snoc.prems(2) by (auto simp: trail_path_def sfor_append sbind_Ok sret_def)
  have ih: "\<forall>p \<in> set ps. 0 < mval p" "follows sd a k ps u" using snoc.IH [OF _ u] snoc.prems(1) by auto
  have "0 < mval p" using h by (auto simp: trail_update_def lerr_def split: if_splits)
  then show ?case using update_follows [OF assms(1-3) _ ih(2) h] ih(1) snoc.prems(1) by auto
qed

text \<open>
  C21. The trailing stop follows its reference. After a path of accepted prices the stop has triggered exactly when some
  price reached the stop of the best price seen up to it; until then the stop is at the trail amount from the best
  price of the whole path (the highest for a sell, the lowest for a buy), so it never moves back.
\<close>

theorem trailing_stop_follows:
  assumes "room k B" "amount k a" "0 < mval a" "\<forall>p \<in> set ps. amount k p \<and> mval p + mval a \<le> B"
    "trail_path ps (fresh_trail sd a) = (Ok (), t)"
  shows "(tr_triggered t \<longleftrightarrow> (\<exists>n < length ps. hits sd a (take (Suc n) ps)))
    \<and> (\<not> tr_triggered t \<longrightarrow> ps \<noteq> [] \<longrightarrow> (\<exists>s. tr_stop t = Some s \<and> mval s = stop_at sd a ps))
    \<and> (tr_triggered t \<longrightarrow> (\<forall>p. 0 < mval p \<longrightarrow> trail_update p t = (Ok True, t)))"
proof -
  have f: "follows sd a k ps t" using path_follows [OF assms] by blast
  have "trail_update p t = (Ok True, t)" if "tr_triggered t" "0 < mval p" for p using that by (simp add: trail_update_def)
  then show ?thesis using f by (auto simp: follows_def)
qed

definition s_path :: "money list" where "s_path = [usd 100 0, usd 105 0, usd 103 0]"

theorem trailing_stop_follows_witness:
  "fst (trail_path s_path (fresh_trail Sell (usd 2 0))) = Ok ()
   \<and> tr_triggered (snd (trail_path s_path (fresh_trail Sell (usd 2 0)))) \<and> hits Sell (usd 2 0) s_path"
proof -
  let ?r = "trail_path s_path (fresh_trail Sell (usd 2 0))"
  have ok: "fst ?r = Ok ()" "tr_triggered (snd ?r)" by code_simp+
  have g: "amount 0 (usd n 0)" if "n < 1000" for n
    using that small_mantissa [of n] by (auto simp: amount_def usd_whole on_grid_def intro: exI [of _ "int n"])
  have r: "room 0 1000" by (simp add: room_def)
  have "?r = (Ok (), snd ?r)" using ok(1) by (cases ?r) simp
  from trailing_stop_follows [OF r g _ _ this] have "\<exists>n < length s_path. hits Sell (usd 2 0) (take (Suc n) s_path)"
    using ok(2) g by (simp add: s_path_def usd_whole)
  moreover have "\<not> hits Sell (usd 2 0) (take 1 s_path)" "\<not> hits Sell (usd 2 0) (take 2 s_path)"
    by (simp_all add: hits_def stop_at_def peak_def s_path_def usd_whole)
  ultimately have "hits Sell (usd 2 0) s_path" by (auto simp: s_path_def less_Suc_eq numeral_3_eq_3 numeral_2_eq_2)
  with ok show ?thesis by blast
qed

end
