(* ===== verification/Cover.thy ===== *)
theory Cover
  imports Mirror Calendar
begin

section \<open>The cover rule: \<open>tos_paper/cover.rs\<close>\<close>

text \<open>
  An order waits when filling it would leave more short calls uncovered on its underlying than there
  are now. A short call is covered by a long call, assigned by a maximum matching along augmenting
  paths, or by a lot of shares. The vectors \<open>seen\<close> and \<open>owner\<close> of the search are lists updated by index;
  an index past the end of a vector panics in the code and is \<open>None\<close> here.
\<close>

type_synonym held = "(instrument, money) omap"

definition held_get :: "held \<Rightarrow> instrument \<Rightarrow> money" where
  "held_get held instrument = omap_get_zero held (instr_hk instrument)"

definition covers :: "option_contract \<Rightarrow> option_contract \<Rightarrow> bool" where
  "covers long short \<longleftrightarrow>
     oc_underlying long = oc_underlying short
     \<and> oc_right long = Call
     \<and> oc_right short = Call
     \<and> oc_multiplier long = oc_multiplier short
     \<and> nd_le (oc_expiry short) (oc_expiry long)
     \<and> money_le (oc_strike long) (oc_strike short)"

subsection \<open>The search for an augmenting path\<close>

text \<open>
  The loop over the long units from \<open>index\<close> on, for the short unit \<open>short\<close>; the recursive call of the
  code starts the loop of the displaced owner from zero. The answer is the flag and the two vectors.
\<close>

function augment ::
  "option_contract list \<Rightarrow> option_contract list \<Rightarrow> nat \<Rightarrow> nat \<Rightarrow> bool list \<Rightarrow> nat option list
   \<Rightarrow> (bool \<times> bool list \<times> nat option list) option" where
  "augment longs shorts short index seen owner =
     (if length longs \<le> index then Some (False, seen, owner)
      else if length seen \<le> index then None
      else if seen ! index then augment longs shorts short (Suc index) seen owner
      else if length shorts \<le> short then None
      else if \<not> covers (longs ! index) (shorts ! short) then augment longs shorts short (Suc index) seen owner
      else if length owner \<le> index then None
      else
        case (case owner ! index of
                None \<Rightarrow> Some (True, seen[index := True], owner)
              | Some other \<Rightarrow> augment longs shorts other 0 (seen[index := True]) owner) of
          None \<Rightarrow> None
        | Some (free, seen', owner') \<Rightarrow>
            if free then Some (True, seen', owner'[index := Some short])
            else augment longs shorts short (Suc index) seen' owner')"
  by pat_completeness auto

text \<open>The steps of the search as a relation, over which its properties go by rule induction.\<close>

inductive augments ::
  "option_contract list \<Rightarrow> option_contract list \<Rightarrow> nat \<Rightarrow> nat \<Rightarrow> bool list \<Rightarrow> nat option list
   \<Rightarrow> bool \<Rightarrow> bool list \<Rightarrow> nat option list \<Rightarrow> bool" for longs shorts where
  exhausted: "length longs \<le> i \<Longrightarrow> augments longs shorts s i seen ow False seen ow"
| skipped: "i < length longs \<Longrightarrow> i < length seen \<Longrightarrow> seen ! i \<or> \<not> covers (longs ! i) (shorts ! s)
    \<Longrightarrow> augments longs shorts s (Suc i) seen ow b seen' ow' \<Longrightarrow> augments longs shorts s i seen ow b seen' ow'"
| taken: "i < length longs \<Longrightarrow> i < length seen \<Longrightarrow> \<not> seen ! i \<Longrightarrow> covers (longs ! i) (shorts ! s) \<Longrightarrow> i < length ow
    \<Longrightarrow> ow ! i = None \<Longrightarrow> augments longs shorts s i seen ow True (seen[i := True]) (ow[i := Some s])"
| displaced: "i < length longs \<Longrightarrow> i < length seen \<Longrightarrow> \<not> seen ! i \<Longrightarrow> covers (longs ! i) (shorts ! s) \<Longrightarrow> i < length ow
    \<Longrightarrow> ow ! i = Some t \<Longrightarrow> augments longs shorts t 0 (seen[i := True]) ow True seen' ow'
    \<Longrightarrow> augments longs shorts s i seen ow True seen' (ow'[i := Some s])"
| blocked: "i < length longs \<Longrightarrow> i < length seen \<Longrightarrow> \<not> seen ! i \<Longrightarrow> covers (longs ! i) (shorts ! s) \<Longrightarrow> i < length ow
    \<Longrightarrow> ow ! i = Some t \<Longrightarrow> augments longs shorts t 0 (seen[i := True]) ow False seen1 ow1
    \<Longrightarrow> augments longs shorts s (Suc i) seen1 ow1 b seen' ow' \<Longrightarrow> augments longs shorts s i seen ow b seen' ow'"

lemma augment_augments_partial:
  assumes "augment_dom (longs, shorts, short, index, seen, owner)"
    and "augment longs shorts short index seen owner = Some (b, seen', owner')"
  shows "augments longs shorts short index seen owner b seen' owner'"
  using assms
proof (induction longs shorts short index seen owner arbitrary: b seen' owner' rule: augment.pinduct)
  case (1 longs shorts s i seen ow)
  note unfolded = "1.prems" [unfolded augment.psimps [OF "1.hyps"]]
  show ?case
  proof (cases "length longs \<le> i \<or> length seen \<le> i \<or> seen ! i \<or> length shorts \<le> s
      \<or> \<not> covers (longs ! i) (shorts ! s) \<or> length ow \<le> i")
    case True
    then show ?thesis using unfolded "1.IH"(1,2) by (auto intro: exhausted skipped split: if_splits)
  next
    case False
    then have go: "i < length longs" "i < length seen" "\<not> seen ! i" "covers (longs ! i) (shorts ! s)" "i < length ow"
      by auto
    show ?thesis
    proof (cases "ow ! i")
      case None
      then show ?thesis using unfolded False taken [OF go None] by simp
    next
      case (Some t)
      then obtain f seen1 ow1 where inner: "augment longs shorts t 0 (seen[i := True]) ow = Some (f, seen1, ow1)"
        using unfolded False by (auto split: option.splits)
      then have "augments longs shorts t 0 (seen[i := True]) ow f seen1 ow1"
        using "1.IH"(3) [of t f seen1 ow1] False Some by simp
      moreover have "augments longs shorts s (Suc i) seen1 ow1 b seen' owner'" if "\<not> f"
        using "1.IH"(4) [of "(f, seen1, ow1)" f "(seen1, ow1)" seen1 ow1 b seen' owner'] False Some inner unfolded that by simp
      ultimately show ?thesis
        using unfolded False Some inner displaced [OF go Some] blocked [OF go Some] by (cases f) auto
    qed
  qed
qed

definition unseen :: "bool list \<Rightarrow> nat set" where
  "unseen seen = {k. k < length seen \<and> \<not> seen ! k}"

lemma finite_unseen [simp]: "finite (unseen seen)"
  by (simp add: unseen_def)

lemma unseen_mark: "k \<in> unseen seen \<Longrightarrow> unseen (seen[k := True]) = unseen seen - {k}"
  by (auto simp: unseen_def nth_list_update split: if_splits)

lemma augments_seen:
  assumes "augments longs shorts s i seen ow b seen' ow'"
  shows "length seen' = length seen" "length ow' = length ow" "unseen seen' \<subseteq> unseen seen"
  using assms by (induction rule: augments.induct) (auto simp: unseen_mark unseen_def nth_list_update split: if_splits)

lemma augment_ends: "All augment_dom"
proof (relation "measures [\<lambda>(longs, shorts, short, index, seen, owner). card (unseen seen),
    \<lambda>(longs, shorts, short, index, seen, owner). length longs - index]", goal_cases)
  case (4 longs shorts short index seen owner other)
  then have u: "index \<in> unseen seen" by (simp add: unseen_def)
  then show ?case using card_Diff1_less [OF finite_unseen u] by (simp add: unseen_mark)
next
  case (5 longs shorts short index seen owner r free p seen' owner')
  then have u: "index \<in> unseen seen" by (simp add: unseen_def)
  have "unseen seen' \<subseteq> unseen (seen[index := True])"
  proof (cases "owner ! index")
    case None
    then show ?thesis using 5 by auto
  next
    case (Some other)
    then show ?thesis using 5 by (auto dest!: augment_augments_partial augments_seen(3))
  qed
  then have "card (unseen seen') \<le> card (unseen seen - {index})"
    by (simp add: unseen_mark [OF u] card_mono)
  then show ?case using card_Diff1_less [OF finite_unseen u] by simp
qed auto

termination augment
  by (rule augment_ends)

declare augment.simps [simp del]

lemma augment_augments:
  "augment longs shorts s i seen ow = Some (b, seen', ow') \<Longrightarrow> augments longs shorts s i seen ow b seen' ow'"
  by (rule augment_augments_partial) (simp_all add: augment_ends)

subsection \<open>The short units no long unit covers\<close>

definition bare_owners :: "option_contract list \<Rightarrow> option_contract list \<Rightarrow> nat list \<Rightarrow> nat option list \<Rightarrow> nat option list option" where
  "bare_owners longs shorts todo owner0 =
     foldl (\<lambda>acc short. case acc of
              None \<Rightarrow> None
            | Some owner \<Rightarrow>
                (case augment longs shorts short 0 (replicate (length longs) False) owner of
                   None \<Rightarrow> None
                 | Some (_, _, owner') \<Rightarrow> Some owner'))
       (Some owner0) todo"

definition bare :: "option_contract list \<Rightarrow> option_contract list \<Rightarrow> nat list option" where
  "bare longs shorts =
     (case bare_owners longs shorts [0..<length shorts] (replicate (length longs) None) of
        None \<Rightarrow> None
      | Some owner \<Rightarrow>
          let covered = map the (filter (\<lambda>o'. o' \<noteq> None) owner) in
          Some (filter (\<lambda>i. i \<notin> set covered) [0..<length shorts]))"

subsection \<open>The uncovered calls of a book\<close>

definition MAX_UNITS :: int where "MAX_UNITS = 1000000"

definition WIRE :: string where "WIRE = ''tos_wire''"

fun extend :: "(string \<times> option_contract list) list \<Rightarrow> option_contract \<Rightarrow> nat \<Rightarrow> (string \<times> option_contract list) list" where
  "extend [] c units = [(oc_underlying c, replicate units c)]"
| "extend ((u, cs) # rest) c units =
     (if u = oc_underlying c then (u, cs @ replicate units c) # rest else (u, cs) # extend rest c units)"

definition call_units ::
  "(string \<times> option_contract list) list \<times> (string \<times> option_contract list) list \<Rightarrow> instrument \<times> money
   \<Rightarrow> ((string \<times> option_contract list) list \<times> (string \<times> option_contract list) list) lres" where
  "call_units sides iq =
     (case iq of
        (OptionI c, quantity) \<Rightarrow>
          if oc_right c \<noteq> Call \<or> money_eq quantity ZERO then Ok sides
          else
            and_then (dabs quantity) (\<lambda>a.
            and_then (map_err derr (trunc_i128 a)) (\<lambda>units.
              if MAX_UNITS < units then lerr WIRE ''a position too large to expand into call units''
              else if money_lt quantity ZERO then Ok (extend (fst sides) c (nat units), snd sides)
              else Ok (fst sides, extend (snd sides) c (nat units))))
      | _ \<Rightarrow> Ok sides)"

text \<open>Shares go to the larger multiplier first; a call they do not reach is counted.\<close>

definition share_out :: "money \<times> int \<Rightarrow> option_contract \<Rightarrow> (money \<times> int) lres" where
  "share_out sc call =
     and_then (map_err derr (from_i128 (oc_multiplier call))) (\<lambda>lot.
       if money_le lot (fst sc) then and_then (dsub (fst sc) lot) (\<lambda>shares. Ok (shares, snd sc))
       else Ok (fst sc, snd sc + 1))"

text \<open>An index out of range would panic; \<open>bare\<close> never meets one (\<open>bare_covers_most\<close>).\<close>

definition PANIC :: lerr where "PANIC = LErr ''panic'' ''index out of bounds''"

definition uncovered_on ::
  "held \<Rightarrow> (string \<times> option_contract list) list \<Rightarrow> (string \<times> money) list \<Rightarrow> string \<times> option_contract list
   \<Rightarrow> (string \<times> money) list lres" where
  "uncovered_on held longs found uc =
     (let (underlying, calls) = uc;
          shares = held_get held (Equity underlying);
          longs_here = (case map_of longs underlying of None \<Rightarrow> [] | Some l \<Rightarrow> l)
      in and_then (ok_or PANIC (bare longs_here calls)) (\<lambda>idx.
           let left = sort_key (\<lambda>c. - oc_multiplier c) (map (nth calls) idx) in
           and_then (fold_r share_out (shares, 0) left) (\<lambda>(_, count).
             if count \<noteq> 0 then and_then (map_err derr (from_i128 count)) (\<lambda>c. Ok (found @ [(underlying, c)]))
             else Ok found)))"

definition uncovered :: "held \<Rightarrow> (string \<times> money) list lres" where
  "uncovered held =
     and_then (fold_r call_units ([], []) (omap_iter held)) (\<lambda>(shorts, longs).
       fold_r (uncovered_on held longs) [] shorts)"

subsection \<open>What the mirror book proves held\<close>

definition held_add :: "held \<Rightarrow> instrument \<times> money \<Rightarrow> held lres" where
  "held_add held iq =
     and_then (dadd (held_get held (fst iq)) (snd iq)) (\<lambda>tot. Ok (omap_insert held (instr_hk (fst iq)) (fst iq) tot))"

definition held_less :: "held \<Rightarrow> instrument \<times> money \<Rightarrow> held lres" where
  "held_less held iq =
     and_then (dsub (held_get held (fst iq)) (snd iq)) (\<lambda>tot. Ok (omap_insert held (instr_hk (fst iq)) (fst iq) tot))"

definition holdings :: "mirror_state \<Rightarrow> held lres" where
  "holdings mirror =
     and_then (fold_r (\<lambda>held kq. held_add held (snd (fst kq), snd kq)) omap_new (omap_iter (ms_book mirror))) (\<lambda>held.
     and_then (fold_r (\<lambda>held t.
         and_then (remaining t) (\<lambda>r.
         and_then (ticket_contracts (mt_queued t) r) (\<lambda>cs.
         fold_r (\<lambda>held iq. if money_lt (snd iq) ZERO then held_add held iq else Ok held) held (omap_iter cs))))
       held (open_tickets mirror)) (\<lambda>held.
     Ok (foldl (\<lambda>out (i, q). if money_eq q ZERO then out else omap_insert out (instr_hk i) i q)
           omap_new (omap_iter held))))"

type_synonym sold = "(instrument \<times> money) option"

definition lookup :: "(string \<times> money) list \<Rightarrow> string \<Rightarrow> money" where
  "lookup found underlying = (case map_of found underlying of None \<Rightarrow> ZERO | Some c \<Rightarrow> c)"

definition sold_underlying :: "instrument \<Rightarrow> string lres" where
  "sold_underlying instrument =
     (case instrument of
        Equity sy \<Rightarrow> Ok sy
      | OptionI c \<Rightarrow> Ok (oc_underlying c)
      | Combo _ \<Rightarrow> lerr WIRE ''a combo is never sold here''
      | Future _ \<Rightarrow> lerr WIRE ''a future is never sold here'')"

definition long_calls :: "held \<Rightarrow> string \<Rightarrow> money lres" where
  "long_calls held underlying =
     fold_r (\<lambda>longs (i, q).
         case i of
           OptionI c \<Rightarrow> if oc_right c = Call \<and> oc_underlying c = underlying \<and> money_lt ZERO q then dadd longs q else Ok longs
         | _ \<Rightarrow> Ok longs) ZERO (omap_iter held)"

definition cover_reason :: "mirror_state \<Rightarrow> sold \<Rightarrow> sold list \<Rightarrow> string option lres" where
  "cover_reason mirror sold accepted =
     (case sold of
        None \<Rightarrow> Ok None
      | Some (instrument, quantity) \<Rightarrow>
          and_then (holdings mirror) (\<lambda>held0.
          and_then (fold_r (\<lambda>held gone. case gone of None \<Rightarrow> Ok held | Some iq \<Rightarrow> held_less held iq) held0 accepted) (\<lambda>held.
          and_then (sold_underlying instrument) (\<lambda>underlying.
          and_then (uncovered held) (\<lambda>found_before.
          let before = lookup found_before underlying in
          and_then (held_less held (instrument, quantity)) (\<lambda>after_held.
          and_then (uncovered after_held) (\<lambda>found_after.
          let after = lookup found_after underlying in
          if \<not> money_lt before after then Ok None
          else
            let shares_held = held_get held (Equity underlying);
                shares = (if money_lt shares_held ZERO then ZERO else shares_held) in
            and_then (long_calls held underlying) (\<lambda>longs.
            and_then (symbol instrument) (\<lambda>sy.
              Ok (Some (''selling '' @ canon quantity @ '' '' @ sy @ '' would leave '' @ canon after @ '' short ''
                @ underlying @ '' call(s) uncovered ('' @ canon before @ '' now); the mirror book proves ''
                @ canon shares @ '' share(s) and '' @ canon longs
                @ '' long call(s) held (proven venue fills only; shares from an assignment are not booked)''))))))))))) "

end
