(* ===== verification/Cover_Props.thy ===== *)
theory Cover_Props
  imports Cover Samples
begin

section \<open>The cover rule assigns as many long calls as can be\<close>

text \<open>
  The search leaves a matching of short units to long units that no other matching beats. The proof
  keeps a set of long units that is closed: each is owned, and every long unit that covers its owner
  is in the set. A failed search adds what it saw to the set, and a later search that enters the set
  cannot leave it, so the owners in it never change.
\<close>

subsection \<open>A search that succeeds\<close>

text \<open>The owners of the units in \<open>U\<close>.\<close>

definition owners :: "nat option list \<Rightarrow> nat set \<Rightarrow> nat set" where
  "owners ow U = {s. \<exists>k\<in>U. ow ! k = Some s}"

definition sole_owners :: "nat option list \<Rightarrow> nat set \<Rightarrow> bool" where
  "sole_owners ow U \<longleftrightarrow> (\<forall>j\<in>U. \<forall>k\<in>U. ow ! j = ow ! k \<longrightarrow> ow ! j \<noteq> None \<longrightarrow> j = k)"

lemma owners_mono: "V \<subseteq> U \<Longrightarrow> owners ow V \<subseteq> owners ow U"
  by (auto simp: owners_def)

lemma owners_cong: "(\<And>k. k \<in> U \<Longrightarrow> ow ! k = ow' ! k) \<Longrightarrow> owners ow U = owners ow' U"
  by (auto simp: owners_def)

lemma sole_owners_mono: "sole_owners ow U \<Longrightarrow> V \<subseteq> U \<Longrightarrow> sole_owners ow V"
  by (auto simp: sole_owners_def)

lemma sole_ownersD: "sole_owners ow U \<Longrightarrow> j \<in> U \<Longrightarrow> k \<in> U \<Longrightarrow> ow ! j = Some s \<Longrightarrow> ow ! k = Some s \<Longrightarrow> j = k"
  by (simp add: sole_owners_def)

lemma owners_Un: "owners ow (U \<union> V) = owners ow U \<union> owners ow V"
  by (auto simp: owners_def)

text \<open>What a successful search does to the owners of the units not seen before it.\<close>

definition reowned :: "nat \<Rightarrow> nat set \<Rightarrow> nat option list \<Rightarrow> nat option list \<Rightarrow> bool" where
  "reowned s U ow ow' \<longleftrightarrow>
     (\<forall>k. k \<notin> U \<longrightarrow> ow' ! k = ow ! k) \<and> sole_owners ow' U \<and> owners ow' U = insert s (owners ow U)"

lemma reowned_widen:
  assumes "reowned s V ow ow'" "V \<subseteq> U" "sole_owners ow U" "s \<notin> owners ow U"
  shows "reowned s U ow ow'"
proof -
  let ?D = "U - V"
  have U: "U = V \<union> ?D" using assms(2) by auto
  have un: "\<And>w. owners w U = owners w V \<union> owners w ?D" using U owners_Un by metis
  have D: "owners ow' ?D = owners ow ?D"
    using assms(1) by (intro owners_cong) (auto simp: reowned_def)
  have "owners ow' U = insert s (owners ow U)"
    using assms(1) D un by (simp add: reowned_def)
  moreover have "sole_owners ow' U"
    unfolding sole_owners_def
  proof (intro ballI impI)
    fix j k assume jk: "j \<in> U" "k \<in> U" "ow' ! j = ow' ! k" "ow' ! j \<noteq> None"
    then obtain t where t: "ow' ! j = Some t" "ow' ! k = Some t" by auto
    have off: "\<And>i. i \<in> U \<Longrightarrow> i \<notin> V \<Longrightarrow> ow ! i = ow' ! i" using assms(1) by (simp add: reowned_def)
    have out: "t \<notin> owners ow' V" if "i \<in> U" "i \<notin> V" "ow' ! i = Some t" for i
    proof
      assume "t \<in> owners ow' V"
      moreover have "t \<in> owners ow U" using off [OF that(1,2)] that by (auto simp: owners_def)
      ultimately have "t \<in> owners ow V" using assms(1,4) by (auto simp: reowned_def)
      then obtain k where k: "k \<in> V" "ow ! k = Some t" by (auto simp: owners_def)
      have "ow ! i = Some t" using off [OF that(1,2)] that(3) by simp
      then have "i = k" using sole_ownersD [OF assms(3) that(1) _ _ k(2)] k(1) assms(2) by blast
      then show False using that(2) k(1) by simp
    qed
    show "j = k"
    proof (cases "j \<in> V")
      case True
      then have "t \<in> owners ow' V" using t by (auto simp: owners_def)
      then have "k \<in> V" using out [OF jk(2) _ t(2)] by auto
      then show ?thesis using True assms(1) t by (auto simp: reowned_def sole_owners_def)
    next
      case False
      then have "k \<notin> V" using out [OF jk(1) False t(1)] t(2) by (auto simp: owners_def)
      then show ?thesis using False jk off [OF jk(1)] off [OF jk(2)] assms(3) t
        by (auto simp: sole_owners_def)
    qed
  qed
  ultimately show ?thesis using assms(1,2) by (auto simp: reowned_def)
qed

lemma owners_split: "k \<in> U \<Longrightarrow> owners ow U = set_option (ow ! k) \<union> owners ow (U - {k})"
  by (auto simp: owners_def)

lemma reowned_here:
  assumes "k \<in> U" "k < length ow'" "s \<notin> owners ow U" "\<And>j. j \<notin> U \<Longrightarrow> ow' ! j = ow ! j"
    and "sole_owners ow' (U - {k})" "owners ow' (U - {k}) = owners ow U"
  shows "reowned s U ow (ow'[k := Some s])"
proof -
  have same: "owners (ow'[k := Some s]) (U - {k}) = owners ow' (U - {k})"
    by (rule owners_cong) auto
  have "owners (ow'[k := Some s]) U = insert s (owners ow U)"
    using assms(2,6) same owners_split [OF assms(1), of "ow'[k := Some s]"] by simp
  moreover have "sole_owners (ow'[k := Some s]) U"
  proof -
    have "\<forall>j\<in>U - {k}. ow' ! j \<noteq> Some s" using assms(3,6) by (auto simp: owners_def)
    then have "\<forall>j\<in>U. j \<noteq> k \<longrightarrow> ow' ! j \<noteq> Some s \<and> Some s \<noteq> ow' ! j" by (metis DiffI singletonD)
    then show ?thesis using assms(2,5)
      by (simp add: sole_owners_def nth_list_update)
  qed
  moreover have "\<And>j. j \<notin> U \<Longrightarrow> k \<noteq> j" using assms(1) by auto
  ultimately show ?thesis using assms(4) by (simp add: reowned_def)
qed

lemma augments_failure_keeps:
  "augments longs shorts s i seen ow b seen' ow' \<Longrightarrow> \<not> b \<Longrightarrow> ow' = ow"
  by (induction rule: augments.induct) auto

lemma augments_success:
  assumes "augments longs shorts s i seen ow b seen' ow'" "b"
    and "sole_owners ow (unseen seen)" "s \<notin> owners ow (unseen seen)"
  shows "reowned s (unseen seen) ow ow'"
  using assms
proof (induction rule: augments.induct)
  case (taken i seen s ow)
  then have u: "i \<in> unseen seen" by (simp add: unseen_def)
  then show ?case using taken.hyps(5,6) taken.prems(2,3) owners_split [OF u, of ow]
    by (intro reowned_here) (auto elim: sole_owners_mono)
next
  case (displaced i seen s ow t seen' ow')
  then have u: "i \<in> unseen seen" by (simp add: unseen_def)
  have "t \<notin> owners ow (unseen seen - {i})"
    using displaced.prems(2) displaced.hyps(6) u by (fastforce simp: owners_def sole_owners_def)
  then have "reowned t (unseen seen - {i}) ow ow'"
    using displaced.IH sole_owners_mono [OF displaced.prems(2)] by (simp add: unseen_mark [OF u])
  then show ?case
    using u displaced.hyps(5,6) displaced.prems(3) augments_seen(2) [OF displaced.hyps(7)] owners_split [OF u, of ow]
    by (intro reowned_here) (auto simp: reowned_def)
next
  case (blocked i seen s ow t seen1 ow1 b seen' ow')
  then have u: "i \<in> unseen seen" by (simp add: unseen_def)
  have sub: "unseen seen1 \<subseteq> unseen seen" using augments_seen(3) [OF blocked.hyps(7)] by (auto simp: unseen_mark [OF u])
  have ow1: "ow1 = ow" using augments_failure_keeps [OF blocked.hyps(7)] by simp
  then have "reowned s (unseen seen1) ow ow'"
    using blocked.IH(2) blocked.prems sole_owners_mono [OF blocked.prems(2) sub] owners_mono [OF sub, of ow] by auto
  then show ?case using sub blocked.prems(2,3) by (rule reowned_widen)
qed auto

text \<open>The edges stay edges.\<close>

definition edges :: "option_contract list \<Rightarrow> option_contract list \<Rightarrow> nat option list \<Rightarrow> bool" where
  "edges longs shorts ow \<longleftrightarrow>
     length ow = length longs \<and> (\<forall>k s. k < length ow \<longrightarrow> ow ! k = Some s \<longrightarrow> s < length shorts \<and> covers (longs ! k) (shorts ! s))"

lemma edges_update:
  "edges longs shorts ow \<Longrightarrow> s < length shorts \<Longrightarrow> covers (longs ! i) (shorts ! s) \<Longrightarrow> edges longs shorts (ow[i := Some s])"
  by (cases "i < length ow") (auto simp: edges_def nth_list_update split: if_splits)

lemma edgesD:
  assumes "edges longs shorts ow" "k < length ow" "ow ! k = Some s"
  shows "s < length shorts" "covers (longs ! k) (shorts ! s)"
  using assms unfolding edges_def by blast+

lemma augments_edges:
  assumes "augments longs shorts s i seen ow b seen' ow'" "edges longs shorts ow" "s < length shorts"
  shows "edges longs shorts ow'"
  using assms
proof (induction rule: augments.induct)
  case (displaced i seen s ow t seen' ow')
  then have "t < length shorts" using edgesD(1) by blast
  then show ?case using displaced by (simp add: edges_update)
next
  case (blocked i seen s ow t seen1 ow1 b seen' ow')
  then have "t < length shorts" using edgesD(1) by blast
  then show ?case using blocked by simp
qed (simp_all add: edges_update)

subsection \<open>A search that fails\<close>

text \<open>Every long unit that covers \<open>s\<close> is in \<open>S\<close>.\<close>

definition stuck :: "option_contract list \<Rightarrow> option_contract list \<Rightarrow> nat set \<Rightarrow> nat \<Rightarrow> bool" where
  "stuck longs shorts S s \<longleftrightarrow> (\<forall>j. j < length longs \<longrightarrow> covers (longs ! j) (shorts ! s) \<longrightarrow> j \<in> S)"

definition closed_units :: "option_contract list \<Rightarrow> option_contract list \<Rightarrow> nat option list \<Rightarrow> nat set \<Rightarrow> bool" where
  "closed_units longs shorts ow S \<longleftrightarrow> (\<forall>k\<in>S. k < length longs \<and> (\<exists>s. ow ! k = Some s \<and> stuck longs shorts S s))"

definition seen_set :: "bool list \<Rightarrow> nat set" where
  "seen_set seen = {k. k < length seen \<and> seen ! k}"

lemma stuck_mono: "stuck longs shorts S s \<Longrightarrow> S \<subseteq> T \<Longrightarrow> stuck longs shorts T s"
  by (auto simp: stuck_def)

lemma augments_failure:
  assumes "augments longs shorts s i seen ow b seen' ow'" "\<not> b" "length seen = length longs"
  shows "(\<forall>j. i \<le> j \<longrightarrow> j < length longs \<longrightarrow> covers (longs ! j) (shorts ! s) \<longrightarrow> j \<in> seen_set seen')
    \<and> seen_set seen \<subseteq> seen_set seen'
    \<and> (\<forall>k. k \<in> seen_set seen' - seen_set seen \<longrightarrow> (\<exists>t. ow ! k = Some t \<and> stuck longs shorts (seen_set seen') t))"
  using assms
proof (induction rule: augments.induct)
  case (skipped i seen s ow b seen' ow')
  note ih = skipped.IH [OF skipped.prems]
  have here: "i \<in> seen_set seen'" if "covers (longs ! i) (shorts ! s)"
    using that skipped.hyps(2,3) ih by (auto simp: seen_set_def)
  have "j \<in> seen_set seen'" if "i \<le> j" "j < length longs" "covers (longs ! j) (shorts ! s)" for j
    using that here ih by (cases "i = j") auto
  then show ?case using ih by blast
next
  case (blocked i seen s ow t seen1 ow1 b seen' ow')
  have ow1: "ow1 = ow" using augments_failure_keeps [OF blocked.hyps(7)] by simp
  have len: "length seen1 = length longs" using augments_seen(1) [OF blocked.hyps(7)] blocked.prems by simp
  have mark: "seen_set (seen[i := True]) = insert i (seen_set seen)"
    using blocked.hyps(2) by (auto simp: seen_set_def nth_list_update)
  note one = blocked.IH(1) [simplified mark, simplified, OF blocked.prems(2)]
  note two = blocked.IH(2) [OF blocked.prems(1) len, unfolded ow1]
  have "stuck longs shorts (seen_set seen1) t" using one by (auto simp: stuck_def)
  then have t: "stuck longs shorts (seen_set seen') t" using two by (blast intro: stuck_mono)
  have one_in: "insert i (seen_set seen) \<subseteq> seen_set seen1" using one by simp
  have two_in: "seen_set seen1 \<subseteq> seen_set seen'" using two by simp
  have later: "j \<in> seen_set seen'" if "i \<le> j" "j < length longs" "covers (longs ! j) (shorts ! s)" for j
    using that one_in two two_in by (cases "i = j") auto
  have "\<exists>t. ow ! k = Some t \<and> stuck longs shorts (seen_set seen') t" if "k \<in> seen_set seen' - seen_set seen" for k
  proof -
    consider "k = i" | "k \<in> seen_set seen1 - insert i (seen_set seen)" | "k \<in> seen_set seen' - seen_set seen1"
      using \<open>k \<in> seen_set seen' - seen_set seen\<close> by blast
    then show ?thesis
    proof cases
      case 1
      then show ?thesis using blocked.hyps(6) t by simp
    next
      case 2
      then obtain u where "ow ! k = Some u" "stuck longs shorts (seen_set seen1) u" using one by auto
      then show ?thesis using stuck_mono [OF _ two_in] by blast
    next
      case 3
      then show ?thesis using two by simp
    qed
  qed
  then show ?case using later one_in two_in by blast
qed auto

subsection \<open>A search never leaves a closed set\<close>

lemma augments_inside:
  assumes "augments longs shorts s i seen ow b seen' ow'" "b" "closed_units longs shorts ow S"
  shows "(\<forall>k\<in>S. ow' ! k = ow ! k) \<and> (\<exists>j. i \<le> j \<and> j < length longs \<and> covers (longs ! j) (shorts ! s) \<and> j \<notin> S)"
  using assms
proof (induction rule: augments.induct)
  case (skipped i seen s ow b seen' ow')
  then show ?case by (meson Suc_leD)
next
  case (taken i seen s ow)
  then have "i \<notin> S" by (auto simp: closed_units_def)
  then show ?case using taken.hyps by (auto simp: nth_list_update)
next
  case (displaced i seen s ow t seen' ow')
  note ih = displaced.IH [OF TrueI displaced.prems(2)]
  have "i \<notin> S"
  proof
    assume "i \<in> S"
    then have "stuck longs shorts S t" using displaced.hyps(6) displaced.prems(2) by (auto simp: closed_units_def)
    then show False using ih by (auto simp: stuck_def)
  qed
  then have "\<And>k. k \<in> S \<Longrightarrow> i \<noteq> k" by auto
  then show ?case using ih \<open>i \<notin> S\<close> displaced.hyps(1,4) by auto
next
  case (blocked i seen s ow t seen1 ow1 b seen' ow')
  have "ow1 = ow" using augments_failure_keeps [OF blocked.hyps(7)] by simp
  then show ?case using blocked.IH(2) [OF blocked.prems(1)] blocked.prems(2) by (meson Suc_leD)
qed auto

subsection \<open>A search ends with an answer\<close>

lemma augment_answers:
  assumes "edges longs shorts ow" "length seen = length longs" "s < length shorts"
  shows "\<exists>b seen' ow'. augment longs shorts s i seen ow = Some (b, seen', ow')"
  using assms
proof (induction longs shorts s i seen ow rule: augment.induct)
  case (1 longs shorts s i seen ow)
  show ?case
  proof (cases "length longs \<le> i \<or> seen ! i \<or> \<not> covers (longs ! i) (shorts ! s)")
    case True
    then show ?thesis using 1 by (subst augment.simps) auto
  next
    case False
    then have go: "\<not> length longs \<le> i" "\<not> length seen \<le> i" "\<not> seen ! i" "\<not> length shorts \<le> s"
      "\<not> \<not> covers (longs ! i) (shorts ! s)" "\<not> length ow \<le> i"
      using "1.prems" by (auto simp: edges_def)
    show ?thesis
    proof (cases "ow ! i")
      case None
      then show ?thesis using go by (subst augment.simps) auto
    next
      case (Some t)
      then have t: "t < length shorts" using edgesD(1) "1.prems"(1) go(6) by (meson leI)
      then obtain b seen1 ow1 where inner: "augment longs shorts t 0 (seen[i := True]) ow = Some (b, seen1, ow1)"
        using "1.IH"(3) [OF go Some] "1.prems" by auto
      have "edges longs shorts ow1" "length seen1 = length longs"
        using augments_edges [OF augment_augments [OF inner] "1.prems"(1) t] augments_seen(1) [OF augment_augments [OF inner]]
          "1.prems"(2) by simp_all
      then have "\<not> b \<Longrightarrow> \<exists>b' seen' ow'. augment longs shorts s (Suc i) seen1 ow1 = Some (b', seen', ow')"
        using "1.IH"(4) [OF go, of "(b, seen1, ow1)" b "(seen1, ow1)" seen1 ow1] Some inner "1.prems"(3) by simp
      then show ?thesis using go Some inner by (subst augment.simps) (cases b; auto)
    qed
  qed
qed

subsection \<open>The loop over the short units\<close>

definition matched :: "option_contract list \<Rightarrow> option_contract list \<Rightarrow> nat \<Rightarrow> nat option list \<Rightarrow> bool" where
  "matched longs shorts p ow \<longleftrightarrow>
     edges longs shorts ow \<and> sole_owners ow {..<length longs} \<and> owners ow {..<length longs} \<subseteq> {..<p}
     \<and> (\<exists>S. closed_units longs shorts ow S
            \<and> (\<forall>s<p. s \<notin> owners ow {..<length longs} \<longrightarrow> stuck longs shorts S s))"

lemma unseen_fresh [simp]: "unseen (replicate n False) = {..<n}" "seen_set (replicate n False) = {}"
  by (auto simp: unseen_def seen_set_def)

lemma matched_step:
  assumes "matched longs shorts p ow" "p < length shorts"
  shows "\<exists>b seen' ow'. augment longs shorts p 0 (replicate (length longs) False) ow = Some (b, seen', ow')
    \<and> matched longs shorts (Suc p) ow'"
proof -
  let ?U = "{..<length longs}"
  from assms(1) obtain S where e: "edges longs shorts ow" and so: "sole_owners ow ?U" and ou: "owners ow ?U \<subseteq> {..<p}"
    and cl: "closed_units longs shorts ow S" and st: "\<And>s. s < p \<Longrightarrow> s \<notin> owners ow ?U \<Longrightarrow> stuck longs shorts S s"
    unfolding matched_def by blast
  obtain b seen' ow' where run: "augment longs shorts p 0 (replicate (length longs) False) ow = Some (b, seen', ow')"
    using augment_answers [OF e _ assms(2)] by (metis length_replicate)
  note rel = augment_augments [OF run]
  have e': "edges longs shorts ow'" by (rule augments_edges [OF rel e assms(2)])
  have "matched longs shorts (Suc p) ow'"
  proof (cases b)
    case True
    have r: "reowned p ?U ow ow'"
      using augments_success [OF rel True] so ou by auto
    have "closed_units longs shorts ow' S"
      using augments_inside [OF rel True cl] cl by (simp add: closed_units_def)
    then show ?thesis using e' r st ou
      by (auto simp: matched_def reowned_def less_Suc_eq intro!: exI [of _ S])
  next
    case False
    then have ow': "ow' = ow" using augments_failure_keeps [OF rel] by simp
    have f: "stuck longs shorts (seen_set seen') p"
      "\<And>k. k \<in> seen_set seen' \<Longrightarrow> \<exists>t. ow ! k = Some t \<and> stuck longs shorts (seen_set seen') t"
      using augments_failure [OF rel False] by (auto simp: stuck_def)
    have lt: "\<And>k. k \<in> seen_set seen' \<Longrightarrow> k < length longs"
      using augments_seen(1) [OF rel] by (simp add: seen_set_def)
    have "closed_units longs shorts ow (S \<union> seen_set seen')"
      using cl f(2) lt unfolding closed_units_def by (blast intro: stuck_mono)
    moreover have "stuck longs shorts (S \<union> seen_set seen') s" if "s < Suc p" "s \<notin> owners ow ?U" for s
      using that st [of s] f(1) by (cases "s = p") (auto intro: stuck_mono)
    ultimately show ?thesis using e so ou ow' unfolding matched_def by auto
  qed
  then show ?thesis using run by blast
qed

lemma bare_owners_matched:
  assumes "matched longs shorts p ow" "p \<le> q" "q \<le> length shorts"
  shows "\<exists>ow'. bare_owners longs shorts [p..<q] ow = Some ow' \<and> matched longs shorts q ow'"
  using assms(2,3)
proof (induction q rule: dec_induct)
  case base
  then show ?case using assms(1) by (simp add: bare_owners_def)
next
  case (step q)
  then obtain ow' where ow': "bare_owners longs shorts [p..<q] ow = Some ow'" "matched longs shorts q ow'" by auto
  show ?case using matched_step [OF ow'(2)] step.prems ow'(1) step.hyps by (auto simp: bare_owners_def)
qed

lemma matched_start: "matched longs shorts 0 (replicate (length longs) None)"
  by (auto simp: matched_def edges_def sole_owners_def owners_def closed_units_def intro!: exI [of _ "{}"])

subsection \<open>The answer\<close>

text \<open>An assignment gives some short units a long unit that covers it, no long unit twice.\<close>

definition assignment :: "option_contract list \<Rightarrow> option_contract list \<Rightarrow> (nat \<rightharpoonup> nat) \<Rightarrow> bool" where
  "assignment longs shorts f \<longleftrightarrow>
     dom f \<subseteq> {..<length shorts} \<and> inj_on f (dom f)
     \<and> (\<forall>s k. f s = Some k \<longrightarrow> k < length longs \<and> covers (longs ! k) (shorts ! s))"

lemma matched_assignment:
  assumes "matched longs shorts p ow"
  shows "\<exists>f. assignment longs shorts f \<and> dom f = owners ow {..<length longs}"
proof -
  let ?U = "{..<length longs}"
  from assms have e: "edges longs shorts ow" and so: "sole_owners ow ?U" by (simp_all add: matched_def)
  define f where "f s = (if s \<in> owners ow ?U then Some (SOME k. k \<in> ?U \<and> ow ! k = Some s) else None)" for s
  have f: "k \<in> ?U \<and> ow ! k = Some s" if "f s = Some k" for s k
    using that someI_ex [of "\<lambda>k. k \<in> ?U \<and> ow ! k = Some s"] by (auto simp: f_def owners_def split: if_splits)
  have dom: "dom f = owners ow ?U" by (auto simp: f_def split: if_splits)
  have "inj_on f (dom f)"
  proof (rule inj_onI)
    fix s t assume "s \<in> dom f" "t \<in> dom f" "f s = f t"
    then show "s = t" using f by (metis domD option.inject)
  qed
  moreover have "s < length shorts \<and> k < length longs \<and> covers (longs ! k) (shorts ! s)" if "f s = Some k" for s k
    using f [OF that] edgesD [OF e, of k s] e by (simp add: edges_def)
  then have "dom f \<subseteq> {..<length shorts}" "\<forall>s k. f s = Some k \<longrightarrow> k < length longs \<and> covers (longs ! k) (shorts ! s)"
    by blast+
  ultimately show ?thesis using dom unfolding assignment_def by blast
qed

lemma matched_best:
  assumes m: "matched longs shorts (length shorts) ow" and g: "assignment longs shorts g"
  shows "card ({..<length shorts} - owners ow {..<length longs}) \<le> card ({..<length shorts} - dom g)"
proof -
  let ?U = "{..<length longs}" and ?M = "{..<length shorts}"
  from m obtain S where e: "edges longs shorts ow" and so: "sole_owners ow ?U" and ou: "owners ow ?U \<subseteq> ?M"
    and cl: "closed_units longs shorts ow S" and st: "\<And>s. s < length shorts \<Longrightarrow> s \<notin> owners ow ?U \<Longrightarrow> stuck longs shorts S s"
    unfolding matched_def by blast
  define T where "T = owners ow S"
  define F where "F = ?M - owners ow ?U"
  have SU: "S \<subseteq> ?U" using cl by (auto simp: closed_units_def)
  have fin: "finite S" "finite T" "finite F"
    using SU ou owners_mono [OF SU, of ow] by (auto simp: T_def F_def intro: finite_subset)
  have TM: "T \<subseteq> ?M" "F \<inter> T = {}" using ou owners_mono [OF SU, of ow] by (auto simp: T_def F_def)
  have own: "\<exists>t. ow ! k = Some t" if "k \<in> S" for k using that cl by (auto simp: closed_units_def)
  have "card S = card T"
  proof -
    have "T = (\<lambda>k. the (ow ! k)) ` S" using own by (force simp: T_def owners_def)
    moreover have "inj_on (\<lambda>k. the (ow ! k)) S"
      using own sole_ownersD [OF so] SU by (intro inj_onI) (metis option.sel subsetD)
    ultimately show ?thesis by (simp add: card_image)
  qed
  moreover have "card ((F \<union> T) \<inter> dom g) \<le> card S"
  proof (rule card_inj_on_le [of "\<lambda>s. the (g s)"])
    show "inj_on (\<lambda>s. the (g s)) ((F \<union> T) \<inter> dom g)"
      using g unfolding assignment_def inj_on_def by (metis IntD2 domD option.sel)
    have "stuck longs shorts S s" if "s \<in> F \<union> T" for s
      using that st cl by (auto simp: F_def T_def owners_def closed_units_def)
    then show "(\<lambda>s. the (g s)) ` ((F \<union> T) \<inter> dom g) \<subseteq> S"
      using g unfolding assignment_def stuck_def by fastforce
  qed (rule fin)
  moreover have "card F + card T = card ((F \<union> T) \<inter> dom g) + card ((F \<union> T) - dom g)"
    using fin TM(2) card_Int_Diff [of "F \<union> T" "dom g"] by (simp add: card_Un_disjoint)
  moreover have "card ((F \<union> T) - dom g) \<le> card (?M - dom g)"
    using TM by (intro card_mono) (auto simp: F_def)
  ultimately show ?thesis unfolding F_def by linarith
qed

text \<open>
  C7. The units of short calls that the cover rule leaves to the shares are as few as can be: the search
  always returns, what it leaves out is exactly what some assignment of short calls to long calls leaves
  out, and no assignment whatever covers more of them.
\<close>

theorem bare_covers_most:
  "\<exists>left f. bare longs shorts = Some left \<and> distinct left
     \<and> assignment longs shorts f \<and> dom f = {..<length shorts} - set left
     \<and> (\<forall>g. assignment longs shorts g \<longrightarrow> length left \<le> card ({..<length shorts} - dom g))"
proof -
  obtain ow where run: "bare_owners longs shorts [0..<length shorts] (replicate (length longs) None) = Some ow"
    and m: "matched longs shorts (length shorts) ow"
    using bare_owners_matched [OF matched_start, of "length shorts"] by auto
  let ?O = "owners ow {..<length longs}"
  define left where "left = filter (\<lambda>i. i \<notin> ?O) [0..<length shorts]"
  have "set (map the (filter (\<lambda>o'. o' \<noteq> None) ow)) = ?O"
    using m by (force simp: matched_def edges_def owners_def in_set_conv_nth image_def)
  then have b: "bare longs shorts = Some left" by (simp add: bare_def run left_def Let_def)
  have sub: "?O \<subseteq> {..<length shorts}" using m by (simp add: matched_def)
  have l: "set left = {..<length shorts} - ?O" "distinct left" by (auto simp: left_def)
  then have n: "length left = card ({..<length shorts} - ?O)" by (metis distinct_card)
  obtain f where "assignment longs shorts f" "dom f = ?O" using matched_assignment [OF m] by blast
  moreover have "?O = {..<length shorts} - set left" using l sub by auto
  ultimately show ?thesis using b l(2) n matched_best [OF m] by metis
qed

subsection \<open>The diagonal of the test suite\<close>

definition s_call :: "nat \<Rightarrow> nat \<Rightarrow> nat \<Rightarrow> option_contract" where
  "s_call strike month day = \<lparr>oc_underlying = ''AAPL'', oc_expiry = \<lparr>nd_year = 2026, nd_month = month, nd_day = day\<rparr>,
     oc_strike = usd strike 0, oc_right = Call, oc_multiplier = 100\<rparr>"

text \<open>The wide long call is handed on to the later short; with the wide one alone, a short is left.\<close>

theorem bare_covers_most_witness:
  "bare [s_call 200 12 18, s_call 205 10 16] [s_call 210 10 16, s_call 210 11 20] = Some []
   \<and> bare [s_call 200 12 18] [s_call 210 10 16, s_call 210 11 20] = Some [1]
   \<and> assignment [s_call 200 12 18] [s_call 210 10 16, s_call 210 11 20] [1 \<mapsto> 0]
   \<and> length [1::nat] \<le> card ({..<2} - dom [1::nat \<mapsto> (0::nat)])"
proof -
  have b: "bare [s_call 200 12 18, s_call 205 10 16] [s_call 210 10 16, s_call 210 11 20] = Some []"
    "bare [s_call 200 12 18] [s_call 210 10 16, s_call 210 11 20] = Some [1]"
    by code_simp+
  have "covers (s_call 200 12 18) (s_call 210 11 20)" by code_simp
  then have a: "assignment [s_call 200 12 18] [s_call 210 10 16, s_call 210 11 20] [1 \<mapsto> 0]"
    by (simp add: assignment_def)
  obtain left where "bare [s_call 200 12 18] [s_call 210 10 16, s_call 210 11 20] = Some left"
    "length left \<le> card ({..<length [s_call 210 10 16, s_call 210 11 20]} - dom [1 \<mapsto> (0::nat)])"
    using bare_covers_most [of "[s_call 200 12 18]" "[s_call 210 10 16, s_call 210 11 20]"] a by blast
  then show ?thesis using a b by simp
qed

end
