(* ===== verification/Json.thy ===== *)
theory Json
  imports PyRules "HOL-Library.List_Lexorder" "HOL-Library.Char_ord"
begin

section \<open>JSON text: \<open>ledger/json.rs\<close>\<close>

text \<open>
  The reader and the writer of the ledger's bytes. A text is a string of bytes, and the state of the
  parser (\<open>s\<close>, \<open>i\<close>, \<open>depth\<close>) is the rest of the text together with the depth of nesting: an array or an
  object counts one level while it is read. The reader takes a document of any shape, so its recursion
  is well-founded on the length of the rest, which every value it reads shortens.
\<close>

datatype json =
    JNull
  | JBool bool
  | JInt int
  | JBigInt string
  | JFloat string
  | JStr string
  | JArr "json list"
  | JObj "(string \<times> json) list"

record json_error =
  je_unsupported :: bool
  je_message :: string

type_synonym 'a jres = "('a, json_error) result"

fun json_get :: "json \<Rightarrow> string \<Rightarrow> json option" where
  "json_get (JObj pairs) key = map_of pairs key"
| "json_get _ key = None"

fun json_type_name :: "json \<Rightarrow> string" where
  "json_type_name JNull = ''NoneType''"
| "json_type_name (JBool _) = ''bool''"
| "json_type_name (JInt _) = ''int''"
| "json_type_name (JBigInt _) = ''int''"
| "json_type_name (JFloat _) = ''float''"
| "json_type_name (JStr _) = ''str''"
| "json_type_name (JArr _) = ''list''"
| "json_type_name (JObj _) = ''dict''"

definition jerr :: "string \<Rightarrow> 'a jres" where
  "jerr m = Err \<lparr>je_unsupported = False, je_message = m\<rparr>"

definition BACKSLASH :: char where "BACKSLASH = CHR 0x5C"
definition QUOTE :: char where "QUOTE = CHR 0x22"

definition MAX_DEPTH :: nat where "MAX_DEPTH = 400"

subsection \<open>Reading\<close>

definition byte :: "char \<Rightarrow> nat" where
  "byte c = of_char c"

definition ws :: "string \<Rightarrow> string" where
  "ws s = dropWhile (\<lambda>c. byte c \<in> {32, 9, 10, 13}) s"

definition lit :: "string \<Rightarrow> string \<Rightarrow> bool" where
  "lit word s \<longleftrightarrow> take (length word) s = word"

definition is_dig :: "char \<Rightarrow> bool" where
  "is_dig c \<longleftrightarrow> 48 \<le> byte c \<and> byte c \<le> 57"

definition skip_digits :: "string \<Rightarrow> string" where
  "skip_digits s = dropWhile is_dig s"

definition head_is :: "(char \<Rightarrow> bool) \<Rightarrow> string \<Rightarrow> bool" where
  "head_is p s \<longleftrightarrow> (case s of [] \<Rightarrow> False | c # _ \<Rightarrow> p c)"

definition number_int :: "string \<Rightarrow> string jres" where
  "number_int s =
     (let s = (if head_is (\<lambda>c. c = CHR ''-'') s then tl s else s) in
      if head_is (\<lambda>c. c = CHR ''0'') s then Ok (tl s)
      else if head_is is_dig s then Ok (skip_digits s)
      else jerr ''Expecting value'')"

definition number_frac :: "string \<Rightarrow> bool \<times> string" where
  "number_frac s =
     (if head_is (\<lambda>c. c = CHR ''.'') s \<and> head_is is_dig (tl s) then (True, skip_digits (tl s)) else (False, s))"

definition number_exp :: "string \<Rightarrow> bool \<times> string" where
  "number_exp s =
     (if head_is (\<lambda>c. c = CHR ''e'' \<or> c = CHR ''E'') s then
        let j = tl s; j = (if head_is (\<lambda>c. c = CHR ''+'' \<or> c = CHR ''-'') j then tl j else j) in
        if head_is is_dig j then (True, skip_digits j) else (False, s)
      else (False, s))"

text \<open>\<open>text.parse::<i128>\<close> on a text of the integer grammar.\<close>

definition int_text_value :: "string \<Rightarrow> int" where
  "int_text_value t =
     (if head_is (\<lambda>c. c = CHR ''-'') t then - int (digits_value (map (\<lambda>c. byte c - 48) (tl t)))
      else int (digits_value (map (\<lambda>c. byte c - 48) t)))"

definition in_i128 :: "int \<Rightarrow> bool" where
  "in_i128 n \<longleftrightarrow> - i128_max - 1 \<le> n \<and> n \<le> i128_max"

definition number :: "string \<Rightarrow> (json \<times> string) jres" where
  "number s =
     and_then (number_int s) (\<lambda>r0.
       let (frac, r1) = number_frac r0; (ex, r2) = number_exp r1;
           t = take (length s - length r2) s in
       if frac \<or> ex then Ok (JFloat t, r2)
       else if in_i128 (int_text_value t) then Ok (JInt (int_text_value t), r2)
       else Ok (JBigInt t, r2))"

definition hex_value :: "char \<Rightarrow> nat option" where
  "hex_value c =
     (let b = byte c in
      if 48 \<le> b \<and> b \<le> 57 then Some (b - 48)
      else if 97 \<le> b \<and> b \<le> 102 then Some (b - 87)
      else if 65 \<le> b \<and> b \<le> 70 then Some (b - 55)
      else None)"

definition hex_step :: "nat option \<Rightarrow> char \<Rightarrow> nat option" where
  "hex_step acc c =
     (case acc of
        None \<Rightarrow> None
      | Some v \<Rightarrow> (case hex_value c of None \<Rightarrow> None | Some d \<Rightarrow> Some (v * 16 + d)))"

definition hex4 :: "string \<Rightarrow> (nat \<times> string) jres" where
  "hex4 s =
     (if length s < 4 then jerr (''Invalid '' @ [BACKSLASH] @ ''uXXXX escape'')
      else
        case foldl hex_step (Some 0) (take 4 s) of
          None \<Rightarrow> jerr (''Invalid '' @ [BACKSLASH] @ ''uXXXX escape'')
        | Some v \<Rightarrow> Ok (v, drop 4 s))"

definition is_scalar :: "nat \<Rightarrow> bool" where
  "is_scalar c \<longleftrightarrow> c < 0x110000 \<and> \<not> (0xD800 \<le> c \<and> c < 0xE000)"

text \<open>The bytes of a Rust string.\<close>

definition valid_utf8 :: "string \<Rightarrow> bool" where
  "valid_utf8 s \<longleftrightarrow> list_all is_scalar (chars s) \<and> of_chars (chars s) = s"

text \<open>After \<open>\u\<close>: a code unit, or the pair of surrogates it starts.\<close>

definition unicode_escape :: "string \<Rightarrow> (nat \<times> string) jres" where
  "unicode_escape s =
     and_then (hex4 s) (\<lambda>(hi, r).
       if 0xD800 \<le> hi \<and> hi < 0xDC00 \<and> lit [BACKSLASH, CHR ''u''] r then
         and_then (hex4 (drop 2 r)) (\<lambda>(lo, r').
           if 0xDC00 \<le> lo \<and> lo < 0xE000 then Ok (0x10000 + (hi - 0xD800) * 1024 + (lo - 0xDC00), r') else Ok (hi, r))
       else Ok (hi, r))"

definition simple_escape :: "char \<Rightarrow> char option" where
  "simple_escape e =
     (if e \<in> {QUOTE, BACKSLASH, CHR ''/''} then Some e
      else if e = CHR ''b'' then Some (CHR 0x08)
      else if e = CHR ''f'' then Some (CHR 0x0C)
      else if e = CHR ''n'' then Some (CHR 0x0A)
      else if e = CHR ''r'' then Some (CHR 0x0D)
      else if e = CHR ''t'' then Some (CHR 0x09)
      else None)"

definition utf8_width :: "char \<Rightarrow> nat" where
  "utf8_width c = (if byte c < 0x80 then 1 else if byte c < 0xE0 then 2 else if byte c < 0xF0 then 3 else 4)"

lemma hex4_rest: "hex4 s = Ok (v, r) \<Longrightarrow> length r + 4 = length s"
  by (auto simp: hex4_def jerr_def split: if_splits option.splits)

lemma unicode_escape_rest: "unicode_escape s = Ok (v, r) \<Longrightarrow> length r < length s"
  by (auto simp: unicode_escape_def split: if_splits dest!: hex4_rest)

text \<open>The text behind the opening quote. A text is UTF-8, so a character is copied by its width.\<close>

function jstring :: "string \<Rightarrow> string \<Rightarrow> (string \<times> string) jres" where
  "jstring s out =
     (case s of
        [] \<Rightarrow> jerr ''Unterminated string''
      | b # r \<Rightarrow>
          if b = QUOTE then Ok (out, r)
          else if b = BACKSLASH then
            (case r of
               [] \<Rightarrow> jerr ''Unterminated string''
             | e # r' \<Rightarrow>
                 if e = CHR ''u'' then
                   (case unicode_escape r' of
                      Err x \<Rightarrow> Err x
                    | Ok (cp, r2) \<Rightarrow>
                        if is_scalar cp then jstring r2 (out @ of_chars [cp])
                        else Err \<lparr>je_unsupported = True, je_message = ''a lone UTF-16 surrogate in a string''\<rparr>)
                 else
                   (case simple_escape e of
                      Some c \<Rightarrow> jstring r' (out @ [c])
                    | None \<Rightarrow> jerr (''Invalid '' @ [BACKSLASH] @ ''escape'')))
          else if byte b < 0x20 then jerr ''Invalid control character''
          else jstring (drop (utf8_width b) s) (out @ take (utf8_width b) s))"
  by pat_completeness auto
termination by (relation "measure (\<lambda>(s, out). length s)") (auto dest!: unicode_escape_rest simp: utf8_width_def)

declare jstring.simps [simp del]

lemma jstring_rest: "jstring s out = Ok (t, r) \<Longrightarrow> length r < length s"
proof (induction "length s" arbitrary: s out rule: less_induct)
  case less
  then have ih: "length s' < length s \<Longrightarrow> jstring s' o' = Ok (t, r) \<Longrightarrow> length r < length s" for s' o'
    by (meson less_trans)
  show ?case
  proof (cases s)
    case Nil
    then show ?thesis using less.prems by (simp add: jstring.simps jerr_def)
  next
    case (Cons b r1)
    consider (esc) e r' where "b = BACKSLASH" "b \<noteq> QUOTE" "r1 = e # r'" | (fin) "b = QUOTE \<or> b = BACKSLASH \<and> r1 = []"
      | (copy) "b \<noteq> QUOTE" "b \<noteq> BACKSLASH" by (cases r1) auto
    then show ?thesis
    proof cases
      case esc
      show ?thesis
      proof (cases "e = CHR ''u''")
        case True
        then obtain cp r2 where "unicode_escape r' = Ok (cp, r2)" "jstring r2 (out @ of_chars [cp]) = Ok (t, r)"
          using less.prems esc Cons
          by (subst (asm) jstring.simps) (auto simp: jerr_def split: result.splits if_splits)
        then show ?thesis using esc Cons by (intro ih) (auto dest!: unicode_escape_rest)
      next
        case False
        then obtain c where "jstring r' (out @ [c]) = Ok (t, r)"
          using less.prems esc Cons by (subst (asm) jstring.simps) (auto simp: jerr_def split: option.splits)
        then show ?thesis using esc Cons by (intro ih) auto
      qed
    next
      case fin
      then have "jstring s out = (if b = QUOTE then Ok (out, r1) else jerr ''Unterminated string'')"
        by (subst jstring.simps) (auto simp: Cons)
      then show ?thesis using less.prems Cons by (auto simp: jerr_def split: if_splits)
    next
      case copy
      then have "jstring (drop (utf8_width b) s) (out @ take (utf8_width b) s) = Ok (t, r)"
        using less.prems Cons by (subst (asm) jstring.simps) (auto simp: jerr_def split: if_splits)
      moreover have "0 < utf8_width b" by (simp add: utf8_width_def)
      ultimately show ?thesis by (intro ih [of "drop (utf8_width b) s"]) (simp_all add: Cons)
    qed
  qed
qed

text \<open>A repeated key keeps its first position and takes the last value.\<close>

fun put_pair :: "(string \<times> json) list \<Rightarrow> string \<Rightarrow> json \<Rightarrow> (string \<times> json) list" where
  "put_pair [] key v = [(key, v)]"
| "put_pair ((k, w) # ps) key v = (if k = key then (k, v) # ps else (k, w) # put_pair ps key v)"

lemma number_rest: "number s = Ok (v, r) \<Longrightarrow> length r < length s"
proof -
  have skip: "length (skip_digits t) \<le> length t" for t by (simp add: skip_digits_def length_dropWhile_le)
  have "length r0 < length s" if "number_int s = Ok r0" for r0
    using that skip [of s] skip [of "tl s"]
    by (cases s) (auto simp: number_int_def head_is_def jerr_def skip_digits_def Let_def split: if_splits list.splits
        intro: le_less_trans [OF length_dropWhile_le])
  moreover have "length (snd (number_frac t)) \<le> length t" for t
    using skip [of "tl t"] by (auto simp: number_frac_def)
  moreover have "length (snd (number_exp t)) \<le> length t" for t
    using skip [of "tl t"] skip [of "tl (tl t)"] by (auto simp: number_exp_def Let_def)
  moreover assume "number s = Ok (v, r)"
  then obtain r0 where "number_int s = Ok r0" "r = snd (number_exp (snd (number_frac r0)))"
    by (auto simp: number_def Let_def case_prod_beta split: if_splits)
  ultimately show ?thesis by (metis le_trans not_le)
qed

lemma ws_length: "length (ws s) \<le> length s"
  by (simp add: ws_def length_dropWhile_le)

function (sequential) parse_value :: "nat \<Rightarrow> string \<Rightarrow> (json \<times> string) jres"
  and parse_items :: "nat \<Rightarrow> string \<Rightarrow> json list \<Rightarrow> (json list \<times> string) jres"
  and parse_pairs :: "nat \<Rightarrow> string \<Rightarrow> (string \<times> json) list \<Rightarrow> ((string \<times> json) list \<times> string) jres" where
  "parse_value depth [] = jerr ''Expecting value''"
| "parse_value depth (c # r) =
     (if c = QUOTE then (case jstring r [] of Err e \<Rightarrow> Err e | Ok (t, r') \<Rightarrow> Ok (JStr t, r'))
      else if c = CHR ''{'' then
        if MAX_DEPTH < depth + 1 then jerr ''nesting too deep''
        else if head_is (\<lambda>c. c = CHR ''}'') (ws r) then Ok (JObj [], tl (ws r))
        else (case parse_pairs (depth + 1) (ws r) [] of Err e \<Rightarrow> Err e | Ok (ps, r') \<Rightarrow> Ok (JObj ps, r'))
      else if c = CHR ''['' then
        if MAX_DEPTH < depth + 1 then jerr ''nesting too deep''
        else if head_is (\<lambda>c. c = CHR '']'') (ws r) then Ok (JArr [], tl (ws r))
        else (case parse_items (depth + 1) (ws r) [] of Err e \<Rightarrow> Err e | Ok (vs, r') \<Rightarrow> Ok (JArr vs, r'))
      else if c = CHR ''n'' \<and> lit ''null'' (c # r) then Ok (JNull, drop 4 (c # r))
      else if c = CHR ''t'' \<and> lit ''true'' (c # r) then Ok (JBool True, drop 4 (c # r))
      else if c = CHR ''f'' \<and> lit ''false'' (c # r) then Ok (JBool False, drop 5 (c # r))
      else if c = CHR ''N'' \<and> lit ''NaN'' (c # r) then Ok (JFloat ''NaN'', drop 3 (c # r))
      else if c = CHR ''I'' \<and> lit ''Infinity'' (c # r) then Ok (JFloat ''Infinity'', drop 8 (c # r))
      else if c = CHR ''-'' \<and> lit ''-Infinity'' (c # r) then Ok (JFloat ''-Infinity'', drop 9 (c # r))
      else if c = CHR ''-'' \<or> is_dig c then number (c # r)
      else jerr ''Expecting value'')"
| "parse_items depth s items =
     (case parse_value depth (ws s) of
        Err e \<Rightarrow> Err e
      | Ok (v, r) \<Rightarrow>
          if head_is (\<lambda>c. c = CHR '','') (ws r) then parse_items depth (tl (ws r)) (items @ [v])
          else if head_is (\<lambda>c. c = CHR '']'') (ws r) then Ok (items @ [v], tl (ws r))
          else jerr (''Expecting '' @ [CHR 0x27] @ '','' @ [CHR 0x27] @ '' delimiter''))"
| "parse_pairs depth s pairs =
     (if \<not> head_is (\<lambda>c. c = QUOTE) (ws s) then jerr ''Expecting property name enclosed in double quotes''
      else
        case jstring (tl (ws s)) [] of
          Err e \<Rightarrow> Err e
        | Ok (key, r1) \<Rightarrow>
            if \<not> head_is (\<lambda>c. c = CHR '':'') (ws r1) then jerr (''Expecting '' @ [CHR 0x27] @ '':'' @ [CHR 0x27] @ '' delimiter'')
            else
              case parse_value depth (ws (tl (ws r1))) of
                Err e \<Rightarrow> Err e
              | Ok (v, r2) \<Rightarrow>
                  if head_is (\<lambda>c. c = CHR '','') (ws r2) then parse_pairs depth (tl (ws r2)) (put_pair pairs key v)
                  else if head_is (\<lambda>c. c = CHR ''}'') (ws r2) then Ok (put_pair pairs key v, tl (ws r2))
                  else jerr (''Expecting '' @ [CHR 0x27] @ '','' @ [CHR 0x27] @ '' delimiter''))"
  by pat_completeness auto

lemma tl_length: "head_is p t \<Longrightarrow> length (tl t) < length t"
  by (cases t) (auto simp: head_is_def)

lemma head_tl_ws: "head_is p (ws t) \<Longrightarrow> length (tl (ws t)) < length t"
  using tl_length [of p "ws t"] ws_length [of t] by linarith

lemma parse_rest_partial:
  "parse_value_parse_items_parse_pairs_dom (Inl (depth, s)) \<Longrightarrow> parse_value depth s = Ok (v, r) \<Longrightarrow> length r < length s"
  "parse_value_parse_items_parse_pairs_dom (Inr (Inl (depth, s, items))) \<Longrightarrow> parse_items depth s items = Ok (vs, r) \<Longrightarrow> length r < length s"
  "parse_value_parse_items_parse_pairs_dom (Inr (Inr (depth, s, pairs))) \<Longrightarrow> parse_pairs depth s pairs = Ok (ps, r) \<Longrightarrow> length r < length s"
proof (induction depth s and depth s items and depth s pairs arbitrary: v r and vs r and ps r
    rule: parse_value_parse_items_parse_pairs.pinduct)
  case (1 depth)
  then show ?case by (simp add: parse_value.psimps jerr_def)
next
  case (2 depth c r0)
  note unfolded = "2.prems" [unfolded parse_value.psimps(2) [OF "2.hyps"]]
  have "length r \<le> length (ws r0)" if "c = CHR ''{''" "c \<noteq> QUOTE"
    using unfolded that "2.IH"(1) by (auto simp: jerr_def split: if_splits result.splits)
  moreover have "length r \<le> length (ws r0)" if "c = CHR ''[''" "c \<noteq> QUOTE"
    using unfolded that "2.IH"(2) by (auto simp: jerr_def split: if_splits result.splits)
  moreover have "length r < Suc (length r0)" if "c \<noteq> CHR ''{''" "c \<noteq> CHR ''[''"
    using unfolded that number_rest [of "c # r0"] by (auto simp: jerr_def split: if_splits result.splits dest!: jstring_rest)
  moreover have "length r < Suc (length r0)" if "c = QUOTE"
    using unfolded that by (auto split: result.splits dest!: jstring_rest)
  ultimately show ?case using ws_length [of r0] by (cases "c = QUOTE"; cases "c = CHR ''{''"; cases "c = CHR ''[''") auto
next
  case (3 depth s items)
  note unfolded = "3.prems" [unfolded parse_items.psimps [OF "3.hyps"]]
  then obtain v r1 where v: "parse_value depth (ws s) = Ok (v, r1)" by (auto split: result.splits)
  then have r1: "length r1 < length s" using "3.IH"(1) ws_length [of s] by force
  have "length r < length (tl (ws r1)) \<or> length r = length (tl (ws r1))" if "head_is (\<lambda>c. c = CHR '','') (ws r1) \<or> head_is (\<lambda>c. c = CHR '']'') (ws r1)"
    using unfolded v that "3.IH"(2) [OF v refl] by (auto split: if_splits)
  moreover have "head_is (\<lambda>c. c = CHR '','') (ws r1) \<or> head_is (\<lambda>c. c = CHR '']'') (ws r1)"
    using unfolded v by (auto simp: jerr_def split: if_splits)
  ultimately show ?case using r1 head_tl_ws by (metis dual_order.strict_trans order.strict_trans)
next
  case (4 depth s pairs)
  note unfolded = "4.prems" [unfolded parse_pairs.psimps [OF "4.hyps"]]
  have q: "head_is (\<lambda>c. c = QUOTE) (ws s)" using unfolded by (auto simp: jerr_def split: if_splits)
  then obtain key r1 where k: "jstring (tl (ws s)) [] = Ok (key, r1)" using unfolded by (auto split: result.splits)
  have c: "head_is (\<lambda>c. c = CHR '':'') (ws r1)" using unfolded q k by (auto simp: jerr_def split: if_splits)
  then obtain v r2 where v: "parse_value depth (ws (tl (ws r1))) = Ok (v, r2)" using unfolded q k by (auto split: result.splits)
  have e: "head_is (\<lambda>c. c = CHR '','') (ws r2) \<or> head_is (\<lambda>c. c = CHR ''}'') (ws r2)"
    using unfolded q k c v by (auto simp: jerr_def split: if_splits)
  have "length r2 < length (ws (tl (ws r1)))" using "4.IH"(1) [OF _ k refl] q c v by simp
  also have "\<dots> \<le> length (tl (ws r1))" by (rule ws_length)
  also have "\<dots> < length r1" using c by (rule head_tl_ws)
  also have "\<dots> < length (tl (ws s))" using k by (rule jstring_rest)
  also have "\<dots> < length s" using q by (rule head_tl_ws)
  finally have r2: "length r2 < length s" .
  have "length r < length (tl (ws r2)) \<or> length r = length (tl (ws r2))"
    using unfolded q k c v e "4.IH"(2) [OF _ k refl _ v refl] by (auto split: if_splits)
  then show ?case using e r2 head_tl_ws by (metis dual_order.strict_trans order.strict_trans)
qed

lemma parse_ends: "All parse_value_parse_items_parse_pairs_dom"
proof (relation "measures [\<lambda>x. case x of Inl (d, s) \<Rightarrow> length s | Inr (Inl (d, s, i)) \<Rightarrow> length s | Inr (Inr (d, s, p)) \<Rightarrow> length s,
    \<lambda>x. case x of Inl _ \<Rightarrow> 0 | _ \<Rightarrow> 1]", goal_cases)
  case 1
  then show ?case by simp
next
  case (2 depth c r)
  then show ?case using ws_length [of r] by simp
next
  case (3 depth c r)
  then show ?case using ws_length [of r] by simp
next
  case (4 depth s items)
  then show ?case using ws_length [of s] by auto
next
  case (5 depth s items x1 v r)
  then have "length r < length (ws s)" using parse_rest_partial(1) by blast
  then show ?case using 5 ws_length [of s] head_tl_ws [OF 5(3)] by simp
next
  case (6 depth s pairs x1 key r1)
  then have "length r1 < length (tl (ws s))" using jstring_rest by blast
  then show ?case using 6 head_tl_ws [of _ s] head_tl_ws [of _ r1] ws_length [of "tl (ws r1)"] by force
next
  case (7 depth s pairs x1 key r1 x1a v r2)
  then have "length r1 < length (tl (ws s))" "length r2 < length (ws (tl (ws r1)))"
    using jstring_rest parse_rest_partial(1) by blast+
  then show ?case using 7 head_tl_ws [of _ s] head_tl_ws [of _ r1] head_tl_ws [of _ r2] ws_length [of "tl (ws r1)"] by force
qed

termination parse_value by (rule parse_ends)

declare parse_value.simps [simp del] parse_items.simps [simp del] parse_pairs.simps [simp del]

definition json_parse :: "string \<Rightarrow> json jres" where
  "json_parse text =
     and_then (parse_value 0 (ws text)) (\<lambda>(v, r).
       if ws r \<noteq> [] then jerr (''Extra data: char '' @ nat_to_string (length text - length (ws r))) else Ok v)"

subsection \<open>Writing\<close>

definition hex_char :: "nat \<Rightarrow> char" where
  "hex_char d = char_of (if d < 10 then 48 + d else 87 + d)"

fun hex_digits :: "nat \<Rightarrow> string" where
  "hex_digits n = (if n < 16 then [hex_char n] else hex_digits (n div 16) @ [hex_char (n mod 16)])"

declare hex_digits.simps [simp del]

definition hex_pad :: "nat \<Rightarrow> nat \<Rightarrow> string" where
  "hex_pad w n = (let h = hex_digits n in replicate (w - length h) (CHR ''0'') @ h)"

definition write_char :: "nat \<Rightarrow> string" where
  "write_char c =
     (if c = 0x22 then [BACKSLASH, QUOTE]
      else if c = 0x5C then [BACKSLASH, BACKSLASH]
      else if c = 0x0A then [BACKSLASH, CHR ''n'']
      else if c = 0x0D then [BACKSLASH, CHR ''r'']
      else if c = 0x09 then [BACKSLASH, CHR ''t'']
      else if c = 0x08 then [BACKSLASH, CHR ''b'']
      else if c = 0x0C then [BACKSLASH, CHR ''f'']
      else if c < 0x20 \<or> 0x7E < c then
        if 0x10000 \<le> c then
          let v = c - 0x10000 in
          [BACKSLASH, CHR ''u''] @ hex_pad 4 (0xD800 + v div 1024) @ [BACKSLASH, CHR ''u''] @ hex_pad 4 (0xDC00 + v mod 1024)
        else [BACKSLASH, CHR ''u''] @ hex_pad 4 c
      else of_chars [c])"

definition write_str :: "string \<Rightarrow> string" where
  "write_str s = [QUOTE] @ concat (map write_char (chars s)) @ [QUOTE]"

fun commas :: "string list \<Rightarrow> string" where
  "commas [] = []"
| "commas [x] = x"
| "commas (x # y # ys) = x @ '','' @ commas (y # ys)"

function (sequential) dumps :: "json \<Rightarrow> string" where
  "dumps JNull = ''null''"
| "dumps (JBool b) = (if b then ''true'' else ''false'')"
| "dumps (JInt n) = int_to_string n"
| "dumps (JBigInt t) = t"
| "dumps (JFloat t) = t"
| "dumps (JStr s) = write_str s"
| "dumps (JArr items) = ''['' @ commas (map dumps items) @ '']''"
| "dumps (JObj pairs) =
     ''{'' @ commas (map (\<lambda>(k, v). write_str k @ '':'' @ dumps v) (sort_key fst pairs)) @ ''}''"
  by pat_completeness auto
termination
proof (relation "measure size", goal_cases)
  case (3 pairs kv k v)
  then have "(k, v) \<in> set pairs" by (metis set_sort)
  then show ?case by (auto dest!: size_list_estimation' [where f = "size_prod (\<lambda>_. 0) size" and y = "size v"])
qed (auto simp: le_imp_less_Suc size_list_estimation')

end
