(* ===== verification/Codec.thy ===== *)
theory Codec
  imports Build Dates Json
begin

section \<open>The ledger codec: \<open>ledger/codec.rs\<close>\<close>

text \<open>
  Events as tagged JSON documents and back. A dynamic value is a bare string, integer or boolean or an
  object with one tag: \<open>n\<close> (None), \<open>d\<close> (Decimal), \<open>T\<close> (datetime), \<open>D\<close> (date), \<open>e\<close> (enum), \<open>t\<close> (tuple), \<open>m\<close> (map),
  \<open>dc\<close> (a payload, rebuilt by its validating constructor). An amount is always finite, so writing one
  cannot be refused and \<open>jdec\<close> answers the document itself; a future cannot be written.
\<close>

subsection \<open>Python's \<open>repr\<close>\<close>

definition py_repr_char :: "nat \<Rightarrow> nat \<Rightarrow> string" where
  "py_repr_char q c =
     (if c = 0x5C then [BACKSLASH, BACKSLASH]
      else if c = 0x0A then [BACKSLASH, CHR ''n'']
      else if c = 0x0D then [BACKSLASH, CHR ''r'']
      else if c = 0x09 then [BACKSLASH, CHR ''t'']
      else if c = q then BACKSLASH # of_chars [c]
      else if c < 0x20 \<or> c = 0x7F then [BACKSLASH, CHR ''x''] @ hex_pad 2 c
      else of_chars [c])"

definition py_repr :: "string \<Rightarrow> string" where
  "py_repr s =
     (let cs = chars s; q = (if 0x27 \<in> set cs \<and> 0x22 \<notin> set cs then 0x22 else 0x27) in
      of_chars [q] @ concat (map (py_repr_char q) cs) @ of_chars [q])"

fun repr_json :: "json \<Rightarrow> string" where
  "repr_json (JStr s) = py_repr s"
| "repr_json (JInt i) = int_to_string i"
| "repr_json (JBigInt s) = s"
| "repr_json (JFloat s) = s"
| "repr_json (JBool b) = (if b then ''True'' else ''False'')"
| "repr_json JNull = ''None''"
| "repr_json (JArr _) = ''[...]''"
| "repr_json (JObj _) = ''{...}''"

definition codec_err :: "string \<Rightarrow> 'a lres" where
  "codec_err m = lerr ''codec'' m"

subsection \<open>Decoding\<close>

lemma map_r_cong [fundef_cong]: "xs = ys \<Longrightarrow> (\<And>y. y \<in> set ys \<Longrightarrow> f y = g y) \<Longrightarrow> map_r f xs = map_r g ys"
  by (induction ys arbitrary: xs) auto

lemma fold_r_cong [fundef_cong]:
  "a = b \<Longrightarrow> xs = ys \<Longrightarrow> (\<And>acc y. y \<in> set ys \<Longrightarrow> f acc y = g acc y) \<Longrightarrow> fold_r f a xs = fold_r g b ys"
proof (induction ys arbitrary: xs a b)
  case (Cons y ys)
  then show ?case by (cases "g b y") auto
qed simp

lemma and_then_cong [fundef_cong]:
  "r = r' \<Longrightarrow> (\<And>v. r' = Ok v \<Longrightarrow> f v = g v) \<Longrightarrow> and_then r f = and_then r' g"
  by (cases r') auto

definition iso_str :: "json \<Rightarrow> string lres" where
  "iso_str j = (case j of JStr s \<Rightarrow> Ok s | _ \<Rightarrow> lerr ''type'' ''fromisoformat: argument must be str'')"

definition ALL_KINDS :: "event_kind list" where
  "ALL_KINDS = [KSignalSeen, KRiskVerdict, KOrdersCreated, KRiskControl, KOrderSubmitted, KOrderUpdated, KOrderPending,
     KOrderAccepted, KOrderRejected, KOrderCancelled, KOrderRefused, KOrderExpired, KOrderEmulationUpdated, KFill,
     KAssignment, KExercise, KExpiry, KCorporateAction, KCashFlow, KMark, KVenueReconcile, KVenueHaltCleared, KEodRun,
     KMirrorQueued, KMirrorRefused, KMirrorAck, KMirrorFill]"

definition kind_parse :: "string \<Rightarrow> event_kind option" where
  "kind_parse s = find (\<lambda>k. kind_value k = s) ALL_KINDS"

definition ENUMS :: "string list" where
  "ENUMS = [''Side'', ''OptionRight'', ''OrderType'', ''OrderState'', ''TimeInForce'', ''EventKind'']"

definition enum_parse :: "string \<Rightarrow> string \<Rightarrow> val option" where
  "enum_parse name vs =
     (if name = ''Side'' then map_option VSide (side_parse vs)
      else if name = ''OptionRight'' then map_option VRight (right_from_code vs)
      else if name = ''OrderType'' then map_option VOrderType (order_type_parse vs)
      else if name = ''OrderState'' then map_option VOrderState (order_state_parse vs)
      else if name = ''TimeInForce'' then map_option VTif (tif_parse vs)
      else map_option VKind (kind_parse vs))"

definition QT :: string where "QT = [CHR 0x27]"

definition decode_dec :: "json \<Rightarrow> val lres" where
  "decode_dec d =
     (case d of
        JBool _ \<Rightarrow> lerr ''unsupported'' ''a non-string Decimal literal''
      | JFloat _ \<Rightarrow> lerr ''unsupported'' ''a non-string Decimal literal''
      | JBigInt _ \<Rightarrow> lerr ''unsupported'' ''a non-string Decimal literal''
      | _ \<Rightarrow>
          (case (case d of
                   JStr s \<Rightarrow> money_parse (chars s)
                 | JInt i \<Rightarrow> (case from_i128 i of Ok m \<Rightarrow> Some m | Err _ \<Rightarrow> None)
                 | _ \<Rightarrow> None) of
             Some p \<Rightarrow> Ok (VDec p)
           | None \<Rightarrow> codec_err (''Invalid Decimal literal '' @ repr_json d)))"

definition decode_enum :: "json \<Rightarrow> json option \<Rightarrow> val lres" where
  "decode_enum name v =
     (case name of
        JStr n \<Rightarrow>
          if n \<notin> set ENUMS then codec_err (''Unknown enum type '' @ QT @ n @ QT @ '' (I5)'')
          else
            (case v of
               None \<Rightarrow> lerr ''key'' (QT @ ''v'' @ QT)
             | Some j \<Rightarrow>
                 (case (case j of JStr vs \<Rightarrow> enum_parse n vs | _ \<Rightarrow> None) of
                    Some out \<Rightarrow> Ok out
                  | None \<Rightarrow> codec_err (''Invalid '' @ n @ '' value '' @ repr_json j)))
      | JArr _ \<Rightarrow> lerr ''type'' ''unhashable type''
      | JObj _ \<Rightarrow> lerr ''type'' ''unhashable type''
      | other \<Rightarrow> codec_err (''Unknown enum type '' @ repr_json other))"

definition TAGS :: "string list" where
  "TAGS = [''Equity'', ''OptionContract'', ''Combo'', ''ComboLeg'', ''Fill'', ''Lot'', ''Signal'', ''RiskVerdict'',
     ''RiskControlChange'', ''RiskRuleResult'', ''Order'', ''OrderStateChange'', ''OrdersCreated'', ''OrderUpdated'',
     ''EmulatedOrderState'', ''CashFlow'', ''Mark'', ''VenueReconcile'', ''VenueHaltCleared'', ''EodRun'', ''OptionLifecycle'',
     ''CorporateAction'', ''MirrorAllocation'', ''MirrorQueued'', ''MirrorRefused'', ''MirrorAck'', ''MirrorFill'']"

definition as_obj :: "('a \<Rightarrow> obj) \<Rightarrow> 'a lres \<Rightarrow> val lres" where
  "as_obj c r = and_then r (\<lambda>a. Ok (VObj (c a)))"

definition build :: "externals \<Rightarrow> string \<Rightarrow> kw \<Rightarrow> val lres" where
  "build x tag f =
     (if tag = ''Equity'' then as_obj OInstr (build_equity x f)
      else if tag = ''OptionContract'' then as_obj OInstr (build_option x f)
      else if tag = ''Combo'' then as_obj OInstr (build_combo f)
      else if tag = ''ComboLeg'' then as_obj OComboLeg (build_combo_leg f)
      else if tag = ''Fill'' then as_obj OFill (build_fill f)
      else if tag = ''Lot'' then as_obj OLot (build_lot f)
      else if tag = ''Signal'' then as_obj OSignal (build_signal f)
      else if tag = ''RiskVerdict'' then as_obj ORiskVerdict (build_risk_verdict f)
      else if tag = ''RiskControlChange'' then as_obj ORiskControl (build_risk_control f)
      else if tag = ''RiskRuleResult'' then as_obj ORiskRule (build_risk_rule f)
      else if tag = ''Order'' then as_obj OOrder (build_order f)
      else if tag = ''OrderStateChange'' then as_obj OStateChange (build_state_change f)
      else if tag = ''OrdersCreated'' then as_obj OOrdersCreated (build_orders_created f)
      else if tag = ''OrderUpdated'' then as_obj OOrderUpdated (build_order_updated f)
      else if tag = ''EmulatedOrderState'' then as_obj OEmulated (build_emulated f)
      else if tag = ''CashFlow'' then as_obj OCashFlow (build_cash_flow f)
      else if tag = ''Mark'' then as_obj OMark (build_mark f)
      else if tag = ''VenueReconcile'' then as_obj OReconcile (build_reconcile f)
      else if tag = ''VenueHaltCleared'' then as_obj OHaltCleared (build_halt_cleared f)
      else if tag = ''EodRun'' then as_obj OEodRun (build_eod_run f)
      else if tag = ''OptionLifecycle'' then as_obj OLifecycle (build_lifecycle f)
      else if tag = ''CorporateAction'' then as_obj OCorp (build_corporate_action f)
      else if tag = ''MirrorAllocation'' then as_obj OMAlloc (build_mirror_alloc f)
      else if tag = ''MirrorQueued'' then as_obj OMQueued (build_mirror_queued f)
      else if tag = ''MirrorRefused'' then as_obj OMRefused (build_mirror_refused f)
      else if tag = ''MirrorAck'' then as_obj OMAck (build_mirror_ack f)
      else if tag = ''MirrorFill'' then as_obj OMFill (build_mirror_fill f)
      else codec_err (''Unknown payload type tag '' @ QT @ tag @ QT @ '' (I5)''))"

fun put_val :: "(string \<times> val) list \<Rightarrow> string \<Rightarrow> val \<Rightarrow> (string \<times> val) list" where
  "put_val [] key v = [(key, v)]"
| "put_val ((k, w) # ps) key v = (if k = key then (k, v) # ps else (k, w) # put_val ps key v)"

text \<open>The two elements of a map entry, before the value is decoded.\<close>

fun map_entry :: "json \<Rightarrow> (string \<times> json) lres" where
  "map_entry (JArr [JStr key, v]) = Ok (key, v)"
| "map_entry (JArr [JArr _, v]) = lerr ''type'' ''unhashable type''"
| "map_entry (JArr [JObj _, v]) = lerr ''type'' ''unhashable type''"
| "map_entry (JArr [_, v]) = lerr ''unsupported'' ''a non-string map key''"
| "map_entry (JArr _) = lerr ''value'' ''map entry must unpack to a key and a value''"
| "map_entry (JStr _) = lerr ''unsupported'' ''a map entry that is a string or object''"
| "map_entry (JObj _) = lerr ''unsupported'' ''a map entry that is a string or object''"
| "map_entry it = lerr ''type'' (''cannot unpack non-iterable '' @ json_type_name it @ '' object'')"

definition tag_of :: "json \<Rightarrow> string lres" where
  "tag_of tag =
     (case tag of
        JStr t \<Rightarrow> if t \<in> set TAGS then Ok t else codec_err (''Unknown payload type tag '' @ QT @ t @ QT @ '' (I5)'')
      | JArr _ \<Rightarrow> lerr ''type'' ''unhashable type''
      | JObj _ \<Rightarrow> lerr ''type'' ''unhashable type''
      | other \<Rightarrow> codec_err (''Unknown payload type tag '' @ repr_json other @ '' (I5)''))"

definition iterable_err :: "string \<Rightarrow> json \<Rightarrow> 'a lres" where
  "iterable_err what j =
     (case j of
        JStr _ \<Rightarrow> lerr ''unsupported'' (''a '' @ what @ '' tag over a string or object'')
      | JObj _ \<Rightarrow> lerr ''unsupported'' (''a '' @ what @ '' tag over a string or object'')
      | _ \<Rightarrow> lerr ''type'' (QT @ json_type_name j @ QT @ '' object is not iterable''))"

fun join_commas :: "string list \<Rightarrow> string" where
  "join_commas [] = []"
| "join_commas [t] = t"
| "join_commas (t # u # ts) = t @ '', '' @ join_commas (u # ts)"

function (sequential) decode :: "externals \<Rightarrow> json \<Rightarrow> val lres" where
  "decode x (JInt i) = Ok (VInt i)"
| "decode x (JBigInt _) = lerr ''unsupported'' ''an integer beyond 128 bits''"
| "decode x (JStr s) = Ok (VStr s)"
| "decode x (JBool b) = Ok (VBool b)"
| "decode x (JArr _) = codec_err ''A bare JSON list is not a valid encoded value''"
| "decode x (JObj ps) =
     (if map_of ps ''n'' \<noteq> None then Ok VNone
      else case map_of ps ''d'' of Some d \<Rightarrow> decode_dec d | None \<Rightarrow>
      case map_of ps ''T'' of
        Some t \<Rightarrow>
          and_then (iso_str t) (\<lambda>s. and_then (parse_datetime x s) (\<lambda>(dt, aware).
            if \<not> aware then codec_err ''Decoded datetime is naive; stored events must be UTC (I7)'' else Ok (VDateTime dt)))
      | None \<Rightarrow>
      case map_of ps ''D'' of Some t \<Rightarrow> and_then (iso_str t) (\<lambda>s. and_then (parse_date x s) (\<lambda>d. Ok (VDate d))) | None \<Rightarrow>
      case map_of ps ''e'' of Some name \<Rightarrow> decode_enum name (map_of ps ''v'') | None \<Rightarrow>
      case map_of ps ''t'' of
        Some t \<Rightarrow> (case t of JArr items \<Rightarrow> and_then (map_r (decode x) items) (\<lambda>vs. Ok (VTuple vs)) | _ \<Rightarrow> iterable_err ''tuple'' t)
      | None \<Rightarrow>
      case map_of ps ''m'' of
        Some m \<Rightarrow>
          (case m of
             JArr items \<Rightarrow>
               and_then (fold_r (\<lambda>out it.
                   case map_entry it of
                     Err e \<Rightarrow> Err e
                   | Ok (key, j) \<Rightarrow> (case decode x j of Err e \<Rightarrow> Err e | Ok v \<Rightarrow> Ok (put_val out key v))) [] items)
                 (\<lambda>out. Ok (VMap out))
           | _ \<Rightarrow> iterable_err ''map'' m)
      | None \<Rightarrow>
      case map_of ps ''dc'' of
        Some tag \<Rightarrow>
          (case tag_of tag of
             Err e \<Rightarrow> Err e
           | Ok t \<Rightarrow>
               (case map_of ps ''f'' of
                  None \<Rightarrow> lerr ''key'' (QT @ ''f'' @ QT)
                | Some f \<Rightarrow>
                    (case f of
                       JObj pairs \<Rightarrow>
                         and_then (map_r (\<lambda>p. case decode x (snd p) of Err e \<Rightarrow> Err e | Ok v \<Rightarrow> Ok (fst p, v)) pairs)
                           (\<lambda>fs. map_err (wrap_err t) (build x t fs))
                     | _ \<Rightarrow> lerr ''attribute'' (QT @ json_type_name f @ QT @ '' object has no attribute '' @ QT @ ''items'' @ QT))))
      | None \<Rightarrow>
          codec_err (''Unrecognised encoded object with keys ['' @ join_commas (map py_repr (sort (map fst ps))) @ '']''))"
| "decode x other = codec_err (''Encoded value must be an object, got '' @ json_type_name other)"
  by pat_completeness auto

lemma size_pair: "p \<in> set ps \<Longrightarrow> size (snd p) < size (JObj ps)"
proof -
  assume "p \<in> set ps"
  then have "size_prod (\<lambda>_. 0) size p \<le> size_list (size_prod (\<lambda>_. 0) size) ps" by (rule size_list_estimation') simp
  moreover have "size (snd p) \<le> size_prod (\<lambda>_. 0) size p" by (cases p) simp
  ultimately show ?thesis by simp
qed

lemma size_field: "map_of ps k = Some v \<Longrightarrow> size v < size (JObj ps)"
  using size_pair [of "(k, v)" ps] by (simp add: map_of_SomeD)

lemma size_item: "j \<in> set js \<Longrightarrow> size j < size (JArr js)"
  by (simp add: le_imp_less_Suc size_list_estimation')

lemma size_entry: "map_entry it = Ok (key, j) \<Longrightarrow> size j < size it"
  by (cases it rule: map_entry.cases) (auto simp: lerr_def)

lemma size_steps:
  "map_of ps k = Some (JArr items) \<Longrightarrow> it \<in> set items \<Longrightarrow> size it < size (JObj ps)"
  "map_of ps k = Some (JArr items) \<Longrightarrow> it \<in> set items \<Longrightarrow> map_entry it = Ok (key, j) \<Longrightarrow> size j < size (JObj ps)"
  "map_of ps k = Some (JObj pairs) \<Longrightarrow> p \<in> set pairs \<Longrightarrow> size (snd p) < size (JObj ps)"
  using size_field [of ps k] size_item [of it items] size_entry [of it key j] size_pair [of p pairs]
  by (meson less_trans)+

termination decode
proof (relation "measure (\<lambda>(x, j). size j)", goal_cases)
  case (2 x ps tag t f pairs p)
  then show ?case unfolding in_measure prod.case by (blast intro: size_steps(3))
next
  case (3 x ps m items out it kj key j)
  then show ?case unfolding in_measure prod.case by (blast intro: size_steps(2))
next
  case (4 x ps t items it)
  then show ?case unfolding in_measure prod.case by (blast intro: size_steps(1))
qed (rule wf_measure)

declare decode.simps(6) [simp del]

subsection \<open>Encoding\<close>

definition tagged :: "string \<Rightarrow> json \<Rightarrow> json" where
  "tagged k v = JObj [(k, v)]"

definition jnone :: json where
  "jnone = tagged ''n'' (JBool True)"

definition jenum :: "string \<Rightarrow> string \<Rightarrow> json" where
  "jenum name v = JObj [(''e'', JStr name), (''v'', JStr v)]"

definition jdec :: "money \<Rightarrow> json" where
  "jdec d = tagged ''d'' (JStr (canon d))"

definition jodec :: "money option \<Rightarrow> json" where
  "jodec d = (case d of None \<Rightarrow> jnone | Some m \<Rightarrow> jdec m)"

definition jdt :: "date_time \<Rightarrow> json" where
  "jdt d = tagged ''T'' (JStr (dt_iso d))"

definition jodt :: "date_time option \<Rightarrow> json" where
  "jodt d = (case d of None \<Rightarrow> jnone | Some t \<Rightarrow> jdt t)"

definition jdate :: "naive_date \<Rightarrow> json" where
  "jdate d = tagged ''D'' (JStr (date_iso d))"

definition jostr :: "string option \<Rightarrow> json" where
  "jostr s = (case s of None \<Rightarrow> jnone | Some t \<Rightarrow> JStr t)"

definition jtuple :: "json list \<Rightarrow> json" where
  "jtuple items = tagged ''t'' (JArr items)"

definition jstrs :: "string list \<Rightarrow> json" where
  "jstrs items = jtuple (map JStr items)"

definition dc :: "string \<Rightarrow> (string \<times> json) list \<Rightarrow> json" where
  "dc tag fs = JObj [(''dc'', JStr tag), (''f'', JObj fs)]"

fun enc_instrument :: "instrument \<Rightarrow> json lres" and enc_leg :: "combo_leg \<Rightarrow> json lres" where
  "enc_instrument (Equity s) = Ok (dc ''Equity'' [(''symbol'', JStr s)])"
| "enc_instrument (OptionI c) =
     Ok (dc ''OptionContract''
       [(''underlying'', JStr (oc_underlying c)), (''expiry'', jdate (oc_expiry c)), (''strike'', jdec (oc_strike c)),
        (''right'', jenum ''OptionRight'' (right_code (oc_right c))), (''multiplier'', JInt (oc_multiplier c))])"
| "enc_instrument (Combo legs) = and_then (map_r enc_leg legs) (\<lambda>items. Ok (dc ''Combo'' [(''legs'', jtuple items)]))"
| "enc_instrument (Future _) = lerr ''unsupported'' ''futures not supported in ledger codec''"
| "enc_leg (ComboLeg contract ratio sd) =
     and_then (enc_instrument contract) (\<lambda>c.
       Ok (dc ''ComboLeg'' [(''contract'', c), (''ratio'', JInt ratio), (''side'', jenum ''Side'' (side_value sd))]))"

definition enc_order :: "order \<Rightarrow> json lres" where
  "enc_order r =
     and_then (enc_instrument (o_instrument r)) (\<lambda>i.
     Ok (dc ''Order''
       [(''order_id'', JStr (o_order_id r)), (''account_id'', JStr (o_account_id r)), (''instrument'', i),
        (''order_type'', jenum ''OrderType'' (order_type_value (o_order_type r))), (''side'', jenum ''Side'' (side_value (o_side r))),
        (''quantity'', jdec (o_quantity r)), (''command_id'', JStr (o_command_id r)), (''created_at'', jdt (o_created_at r)),
        (''limit_price'', jodec (o_limit_price r)), (''stop_price'', jodec (o_stop_price r)),
        (''trail_amount'', jodec (o_trail_amount r)), (''tif'', jenum ''TimeInForce'' (tif_value (o_tif r))),
        (''state'', jenum ''OrderState'' (order_state_value (o_state r))), (''parent_order_id'', jostr (o_parent_order_id r)),
        (''oco_group'', jostr (o_oco_group r))]))"

definition enc_alloc :: "mirror_allocation \<Rightarrow> json" where
  "enc_alloc a =
     dc ''MirrorAllocation''
       [(''strategy_order_id'', JStr (ma_strategy_order_id a)), (''strategy_account'', JStr (ma_strategy_account a)),
        (''quantity'', jdec (ma_quantity a))]"

definition enc_fill :: "fill \<Rightarrow> json lres" where
  "enc_fill f =
     and_then (enc_instrument (f_instrument f)) (\<lambda>i.
     Ok (dc ''Fill''
       [(''fill_id'', JStr (f_fill_id f)), (''order_id'', JStr (f_order_id f)), (''account_id'', JStr (f_account_id f)),
        (''instrument'', i), (''quantity'', jdec (f_quantity f)), (''price'', jdec (f_price f)),
        (''venue_env'', JStr (f_venue_env f)), (''filled_at'', jdt (f_filled_at f)), (''side'', jenum ''Side'' (side_value (f_side f))),
        (''fee'', jdec (f_fee f)), (''leg_id'', jostr (f_leg_id f)), (''venue_order_id'', jostr (f_venue_order_id f)),
        (''venue_execution_id'', jostr (f_venue_execution_id f))]))"

definition enc_lot :: "lot \<Rightarrow> json" where
  "enc_lot l =
     dc ''Lot''
       [(''lot_id'', JStr (lot_id l)), (''quantity'', jdec (lot_quantity l)), (''cost_basis'', jdec (lot_cost_basis l)),
        (''acquired_at'', jdt (lot_acquired_at l)), (''side'', jenum ''Side'' (side_value (lot_side l)))]"

definition enc_risk_control :: "risk_control_change \<Rightarrow> json" where
  "enc_risk_control c =
     dc ''RiskControlChange''
       [(''control_id'', JStr (rc_control_id c)), (''enabled'', JBool (rc_enabled c)), (''reason'', JStr (rc_reason c)),
        (''changed_at'', jdt (rc_changed_at c))]"

definition enc_state_change :: "order_state_change \<Rightarrow> json" where
  "enc_state_change s =
     dc ''OrderStateChange''
       [(''order_id'', JStr (sc_order_id s)), (''reason'', jostr (sc_reason s)), (''venue_order_id'', jostr (sc_venue_order_id s))]"

definition enc_orders_created :: "orders_created \<Rightarrow> json lres" where
  "enc_orders_created c =
     and_then (map_r enc_order (cr_orders c)) (\<lambda>os.
     Ok (dc ''OrdersCreated''
       [(''orders'', jtuple os), (''fingerprint'', JStr (cr_fingerprint c)), (''reason'', JStr (cr_reason c))]))"

definition enc_order_updated :: "order_updated \<Rightarrow> json lres" where
  "enc_order_updated u =
     and_then (enc_order (up_order u)) (\<lambda>r.
     Ok (dc ''OrderUpdated''
       [(''order'', r), (''reason'', JStr (up_reason u)), (''venue_order_id'', jostr (up_venue_order_id u))]))"

definition enc_emulated :: "emulated_order_state \<Rightarrow> json" where
  "enc_emulated e =
     dc ''EmulatedOrderState''
       [(''order_id'', JStr (em_order_id e)), (''observed_price'', jodec (em_observed_price e)), (''extreme'', jodec (em_extreme e)),
        (''stop_price'', jodec (em_stop_price e)), (''triggered'', JBool (em_triggered e)), (''reason'', JStr (em_reason e))]"

definition enc_cash_flow :: "cash_flow \<Rightarrow> json" where
  "enc_cash_flow c =
     dc ''CashFlow''
       [(''amount'', jdec (cf_amount c)), (''kind'', JStr (cf_kind c)), (''as_of'', jdt (cf_as_of c)), (''note'', jostr (cf_note c))]"

definition enc_mark :: "mark \<Rightarrow> json lres" where
  "enc_mark m =
     and_then (enc_instrument (mk_instrument m)) (\<lambda>i.
     Ok (dc ''Mark''
       [(''instrument'', i), (''price'', jdec (mk_price m)), (''as_of'', jdt (mk_as_of m)), (''source'', jostr (mk_source m))]))"

definition enc_reconcile :: "venue_reconcile \<Rightarrow> json" where
  "enc_reconcile r =
     dc ''VenueReconcile''
       [(''venue'', JStr (vr_venue r)), (''as_of'', jdt (vr_as_of r)), (''reconciled'', JBool (vr_reconciled r)),
        (''drift'', jstrs (vr_drift r)), (''note'', jostr (vr_note r))]"

definition enc_halt_cleared :: "venue_halt_cleared \<Rightarrow> json" where
  "enc_halt_cleared h =
     dc ''VenueHaltCleared''
       [(''venue'', JStr (hc_venue h)), (''at'', jdt (hc_at h)), (''reason'', JStr (hc_reason h)),
        (''reconcile_seq'', JInt (hc_reconcile_seq h))]"

definition enc_eod_run :: "eod_run \<Rightarrow> json" where
  "enc_eod_run r =
     dc ''EodRun''
       [(''session'', jdate (er_session r)), (''job'', JStr (er_job r)), (''account_id'', JStr (er_account_id r)),
        (''bars_processed'', JInt (er_bars_processed r)), (''at_close'', jdt (er_at_close r))]"

definition enc_lifecycle :: "option_lifecycle \<Rightarrow> json lres" where
  "enc_lifecycle l =
     and_then (enc_instrument (OptionI (ol_contract l))) (\<lambda>i.
     Ok (dc ''OptionLifecycle''
       [(''account_id'', JStr (ol_account_id l)), (''contract'', i), (''quantity'', jdec (ol_quantity l)),
        (''held'', jenum ''Side'' (side_value (ol_held l))), (''underlying_price'', jdec (ol_underlying_price l)),
        (''price_source'', JStr (ol_price_source l)), (''as_of'', jdt (ol_as_of l)), (''reason'', JStr (ol_reason l)),
        (''early'', JBool (ol_early l))]))"

definition enc_mirror_queued :: "mirror_queued \<Rightarrow> json lres" where
  "enc_mirror_queued q =
     and_then (enc_instrument (mq_instrument q)) (\<lambda>i.
     Ok (dc ''MirrorQueued''
       [(''venue'', JStr (mq_venue q)), (''ticket_key'', JStr (mq_ticket_key q)), (''instrument'', i),
        (''side'', jenum ''Side'' (side_value (mq_side q))), (''quantity'', jdec (mq_quantity q)),
        (''order_type'', jenum ''OrderType'' (order_type_value (mq_order_type q))), (''limit_price'', jodec (mq_limit_price q)),
        (''tif'', jenum ''TimeInForce'' (tif_value (mq_tif q))), (''allocations'', jtuple (map enc_alloc (mq_allocations q))),
        (''at'', jdt (mq_at q))]))"

definition enc_mirror_refused :: "mirror_refused \<Rightarrow> json" where
  "enc_mirror_refused r =
     dc ''MirrorRefused''
       [(''venue'', JStr (mr_venue r)), (''strategy_order_id'', JStr (mr_strategy_order_id r)),
        (''strategy_account'', JStr (mr_strategy_account r)), (''reason'', JStr (mr_reason r)), (''at'', jdt (mr_at r))]"

definition enc_mirror_ack :: "mirror_ack \<Rightarrow> json" where
  "enc_mirror_ack a =
     dc ''MirrorAck''
       [(''venue'', JStr (ak_venue a)), (''ticket_key'', JStr (ak_ticket_key a)), (''status'', JStr (ak_status a)),
        (''message'', JStr (ak_message a)), (''at'', jdt (ak_at a)), (''venue_order_id'', jostr (ak_venue_order_id a)),
        (''book_status'', case ak_book_status a of None \<Rightarrow> jnone | Some s \<Rightarrow> jenum ''OrderState'' (order_state_value s))]"

definition enc_mirror_fill :: "mirror_fill \<Rightarrow> json" where
  "enc_mirror_fill f =
     dc ''MirrorFill''
       [(''venue'', JStr (mf_venue f)), (''ticket_key'', JStr (mf_ticket_key f)), (''venue_order_id'', JStr (mf_venue_order_id f)),
        (''filled'', jdec (mf_filled f)), (''avg_price'', jdec (mf_avg_price f)), (''at'', jdt (mf_at f))]"

function (sequential) enc_val :: "val \<Rightarrow> json lres" and enc_obj :: "obj \<Rightarrow> json lres" where
  "enc_val VNone = Ok jnone"
| "enc_val (VBool b) = Ok (JBool b)"
| "enc_val (VInt i) = Ok (JInt i)"
| "enc_val (VStr s) = Ok (JStr s)"
| "enc_val (VDec d) = Ok (jdec d)"
| "enc_val (VDateTime d) = Ok (jdt d)"
| "enc_val (VDate d) = Ok (jdate d)"
| "enc_val (VSide s) = Ok (jenum ''Side'' (side_value s))"
| "enc_val (VRight r) = Ok (jenum ''OptionRight'' (right_code r))"
| "enc_val (VOrderType t) = Ok (jenum ''OrderType'' (order_type_value t))"
| "enc_val (VOrderState s) = Ok (jenum ''OrderState'' (order_state_value s))"
| "enc_val (VTif t) = Ok (jenum ''TimeInForce'' (tif_value t))"
| "enc_val (VKind k) = Ok (jenum ''EventKind'' (kind_value k))"
| "enc_val (VTuple items) = and_then (map_r enc_val items) (\<lambda>js. Ok (jtuple js))"
| "enc_val (VMap m) =
     and_then (map_r (\<lambda>p. and_then (enc_val (snd p)) (\<lambda>j. Ok (JArr [JStr (fst p), j]))) m) (\<lambda>js. Ok (tagged ''m'' (JArr js)))"
| "enc_val (VObj ob) = enc_obj ob"
| "enc_obj (OInstr i) = enc_instrument i"
| "enc_obj (OComboLeg l) = enc_leg l"
| "enc_obj (OOrder r) = enc_order r"
| "enc_obj (ORiskRule r) =
     and_then (enc_val (rr_measured_value r)) (\<lambda>mv.
     and_then (enc_val (rr_threshold r)) (\<lambda>th.
     Ok (dc ''RiskRuleResult''
       [(''rule_name'', JStr (rr_rule_name r)), (''passed'', JBool (rr_passed r)), (''measured_value'', mv),
        (''threshold'', th), (''reason'', JStr (rr_reason r))])))"
| "enc_obj (OFill f) = enc_fill f"
| "enc_obj (OLot l) = Ok (enc_lot l)"
| "enc_obj (OSignal s) =
     and_then (enc_val (VMap (sg_metrics s))) (\<lambda>m.
     Ok (dc ''Signal''
       [(''signal_id'', JStr (sg_signal_id s)), (''scan_id'', JStr (sg_scan_id s)), (''symbol'', JStr (sg_symbol s)),
        (''session_date'', jdate (sg_session_date s)), (''direction'', JStr (sg_direction s)), (''metrics'', m),
        (''next_earnings_date'', case sg_next_earnings_date s of None \<Rightarrow> jnone | Some d \<Rightarrow> jdate d),
        (''created_at'', jodt (sg_created_at s))]))"
| "enc_obj (ORiskVerdict v) =
     and_then (map_r (\<lambda>r. enc_obj (ORiskRule r)) (rv_evaluations v)) (\<lambda>es.
     Ok (dc ''RiskVerdict''
       [(''order_intent_id'', JStr (rv_order_intent_id v)), (''accepted'', JBool (rv_accepted v)), (''evaluations'', jtuple es),
        (''refusal_reasons'', jstrs (rv_refusal_reasons v)), (''approved_quantity'', jodec (rv_approved_quantity v))]))"
| "enc_obj (ORiskControl c) = Ok (enc_risk_control c)"
| "enc_obj (OStateChange s) = Ok (enc_state_change s)"
| "enc_obj (OOrdersCreated c) = enc_orders_created c"
| "enc_obj (OOrderUpdated u) = enc_order_updated u"
| "enc_obj (OEmulated e) = Ok (enc_emulated e)"
| "enc_obj (OCashFlow c) = Ok (enc_cash_flow c)"
| "enc_obj (OMark m) = enc_mark m"
| "enc_obj (OReconcile r) = Ok (enc_reconcile r)"
| "enc_obj (OHaltCleared h) = Ok (enc_halt_cleared h)"
| "enc_obj (OEodRun r) = Ok (enc_eod_run r)"
| "enc_obj (OLifecycle l) = enc_lifecycle l"
| "enc_obj (OCorp c) =
     and_then (enc_val (VMap (ca_details c))) (\<lambda>m.
     Ok (dc ''CorporateAction''
       [(''symbol'', JStr (ca_symbol c)), (''action_type'', JStr (ca_action_type c)), (''effective_date'', jdate (ca_effective_date c)),
        (''as_of'', jdt (ca_as_of c)), (''details'', m)]))"
| "enc_obj (OMAlloc a) = Ok (enc_alloc a)"
| "enc_obj (OMQueued q) = enc_mirror_queued q"
| "enc_obj (OMRefused r) = Ok (enc_mirror_refused r)"
| "enc_obj (OMAck a) = Ok (enc_mirror_ack a)"
| "enc_obj (OMFill f) = Ok (enc_mirror_fill f)"
  by pat_completeness auto

lemma size_entry_val: "p \<in> set m \<Longrightarrow> size (snd p) \<le> size_list (size_prod (\<lambda>_. 0) size) m"
  for m :: "(string \<times> val) list"
proof -
  assume "p \<in> set m"
  then have "size_prod (\<lambda>_. 0) size p \<le> size_list (size_prod (\<lambda>_. 0) size) m" by (rule size_list_estimation') simp
  moreover have "size (snd p) \<le> size_prod (\<lambda>_. 0) size p" by (cases p) simp
  ultimately show ?thesis by simp
qed

termination enc_val
proof (relation "measure (case_sum size size)", goal_cases)
  case (2 items v)
  then show ?case by (simp add: le_imp_less_Suc size_list_estimation')
next
  case (3 m p)
  then show ?case using size_entry_val [of p m] by simp
next
  case (5 r)
  then show ?case by (cases r) simp
next
  case (6 r mv)
  then show ?case by (cases r) simp
next
  case (7 s)
  then show ?case by (cases s) simp
next
  case (8 v r)
  then show ?case by (cases v) (simp add: le_imp_less_Suc size_list_estimation')
next
  case (9 c)
  then show ?case by (cases c) simp
qed simp_all

subsection \<open>Events\<close>

definition encode_event :: "externals \<Rightarrow> event \<Rightarrow> json lres" where
  "encode_event x e =
     and_then (enc_obj (ev_payload e)) (\<lambda>payload.
     and_then (to_utc x (ev_ts_utc e)) (\<lambda>ts.
     Ok (JObj
       [(''account'', JStr (ev_account e)), (''kind'', JStr (kind_value (ev_kind e))), (''payload'', payload),
        (''ts_utc'', JStr (dt_iso ts)),
        (''command_id'', case ev_command_id e of None \<Rightarrow> JNull | Some c \<Rightarrow> JStr c),
        (''schema_version'', JInt (ev_schema_version e)),
        (''seq'', case ev_seq e of None \<Rightarrow> JNull | Some n \<Rightarrow> JInt n)])))"

text \<open>
  \<open>f.parse::<f64>()\<close> is zero when the text denotes a number of at most \<open>2\<^sup>-\<^sup>1\<^sup>0\<^sup>7\<^sup>5\<close>, half the least positive
  \<open>f64\<close>: the literal \<open>m\<cdot>10\<^sup>e\<close> of the grammar, whatever its sign.
\<close>

definition digits_int :: "string \<Rightarrow> nat" where
  "digits_int t = digits_value (map (\<lambda>c. byte c - 48) t)"

definition float_zero :: "string \<Rightarrow> bool" where
  "float_zero t =
     (let t = (if head_is (\<lambda>c. c = CHR ''-'') t then tl t else t);
          mant = takeWhile (\<lambda>c. c \<noteq> CHR ''e'' \<and> c \<noteq> CHR ''E'') t;
          ex = tl (drop (length mant) t);
          whole = takeWhile (\<lambda>c. c \<noteq> CHR ''.'') mant;
          frac = tl (drop (length whole) mant);
          m = digits_int (whole @ frac);
          e = (if head_is (\<lambda>c. c = CHR ''-'') ex then - int (digits_int (tl ex))
               else if head_is (\<lambda>c. c = CHR ''+'') ex then int (digits_int (tl ex))
               else int (digits_int ex)) - int (length frac)
      in head_is is_dig t \<and> (if 0 \<le> e then m = 0 else m * 2 ^ 1075 \<le> 10 ^ nat (- e)))"

fun account_falsy :: "json \<Rightarrow> bool" where
  "account_falsy JNull = True"
| "account_falsy (JBool b) = (\<not> b)"
| "account_falsy (JInt n) = (n = 0)"
| "account_falsy (JStr s) = (s = [])"
| "account_falsy (JArr a) = (a = [])"
| "account_falsy (JObj ps) = (ps = [])"
| "account_falsy (JFloat t) = float_zero t"
| "account_falsy (JBigInt _) = False"

text \<open>\<open>str::trim\<close> takes white space off both ends; \<open>str::parse::<i128>\<close> reads an optional sign and digits.\<close>

definition parse_i128 :: "string \<Rightarrow> int option" where
  "parse_i128 t =
     (let body = (if head_is (\<lambda>c. c = CHR ''-'' \<or> c = CHR ''+'') t then tl t else t);
          v = int (digits_value (map (\<lambda>c. byte c - 48) body));
          n = (if head_is (\<lambda>c. c = CHR ''-'') t then - v else v)
      in if body \<noteq> [] \<and> list_all is_dig body \<and> in_i128 n then Some n else None)"

definition schema_of :: "json option \<Rightarrow> int lres" where
  "schema_of j =
     (case j of
        None \<Rightarrow> Ok 1
      | Some (JInt i) \<Rightarrow> Ok i
      | Some (JBool b) \<Rightarrow> Ok (if b then 1 else 0)
      | Some (JStr s) \<Rightarrow>
          (case parse_i128 (trim_str s) of
             Some i \<Rightarrow> Ok i
           | None \<Rightarrow> lerr ''value'' (''invalid literal for int() with base 10: '' @ py_repr s))
      | Some (JFloat _) \<Rightarrow> lerr ''unsupported'' ''a non-integer schema_version''
      | Some (JBigInt _) \<Rightarrow> lerr ''unsupported'' ''a non-integer schema_version''
      | Some other \<Rightarrow> lerr ''type'' (''int() argument must be a string or a number, not '' @ QT @ json_type_name other @ QT))"

definition command_of :: "json option \<Rightarrow> string option lres" where
  "command_of j =
     (case j of
        None \<Rightarrow> Ok None
      | Some JNull \<Rightarrow> Ok None
      | Some (JStr s) \<Rightarrow>
          if s = [] then lerr ''payload'' ''Event.command_id must be non-empty when provided (I3)'' else Ok (Some s)
      | Some other \<Rightarrow>
          if account_falsy other then lerr ''payload'' ''Event.command_id must be non-empty when provided (I3)''
          else lerr ''unsupported'' ''a non-string command_id'')"

definition seq_of :: "int \<Rightarrow> json option \<Rightarrow> int option lres" where
  "seq_of schema_version j =
     (case j of
        None \<Rightarrow> Ok None
      | Some JNull \<Rightarrow> Ok None
      | Some (JInt i) \<Rightarrow> Ok (Some i)
      | Some (JBool b) \<Rightarrow>
          if b then lerr ''unsupported'' ''a boolean seq'' else lerr ''payload'' ''Event.seq must be a positive int, got False''
      | Some other \<Rightarrow>
          if schema_version > SCHEMA_VERSION
          then lerr ''payload'' (''Event.schema_version '' @ int_to_string schema_version @ '' is newer than this engine understands (''
            @ int_to_string SCHEMA_VERSION @ ''); refusing rather than mis-reading it (I5)'')
          else lerr ''payload'' (''Event.seq must be a positive int, got '' @ repr_json other))"

definition kind_of :: "json \<Rightarrow> event_kind lres" where
  "kind_of j =
     (case (case j of JStr s \<Rightarrow> kind_parse s | _ \<Rightarrow> None) of
        Some k \<Rightarrow> Ok k
      | None \<Rightarrow> lerr ''value'' (repr_json j @ '' is not a valid EventKind''))"

definition key_err :: "string \<Rightarrow> lerr" where
  "key_err k = LErr ''key'' (QT @ k @ QT)"

definition decode_event :: "externals \<Rightarrow> json \<Rightarrow> event lres" where
  "decode_event x j =
     (case j of
        JObj ps \<Rightarrow>
          and_then (ok_or (key_err ''account'') (json_get j ''account'')) (\<lambda>account.
          and_then (ok_or (key_err ''kind'') (json_get j ''kind'')) (\<lambda>kind_j.
          and_then (kind_of kind_j) (\<lambda>kind.
          and_then (ok_or (key_err ''payload'') (json_get j ''payload'')) (\<lambda>payload_j.
          and_then (decode x payload_j) (\<lambda>payload_v.
          and_then (ok_or (key_err ''ts_utc'') (json_get j ''ts_utc'')) (\<lambda>ts_j.
          and_then (iso_str ts_j) (\<lambda>ts_text.
          and_then (parse_datetime x ts_text) (\<lambda>(ts, aware).
          and_then (schema_of (json_get j ''schema_version'')) (\<lambda>schema_version.
          and_then (guard_r (\<not> account_falsy account) ''payload'' ''Event.account must be non-empty'') (\<lambda>_.
          and_then (case account of JStr a \<Rightarrow> Ok a | _ \<Rightarrow> lerr ''unsupported'' ''a non-string account'') (\<lambda>acct.
          and_then (guard_r aware ''payload'' ''Event.ts_utc must be timezone-aware (I7)'') (\<lambda>_.
          and_then (command_of (json_get j ''command_id'')) (\<lambda>command_id.
          and_then (guard_r (\<not> schema_version \<le> 0) ''payload''
            (''Event.schema_version must be a positive int, got '' @ int_to_string schema_version)) (\<lambda>_.
          and_then (seq_of schema_version (json_get j ''seq'')) (\<lambda>sq.
          and_then (case payload_v of
                      VObj ob \<Rightarrow> Ok ob
                    | other \<Rightarrow> lerr ''payload'' (kind_value kind @ '' payload must be '' @ expected_payload kind @ '', got '' @ type_name other)) (\<lambda>payload.
          and_then (to_utc x ts) (\<lambda>utc.
          let ev = \<lparr>ev_account = acct, ev_kind = kind, ev_payload = payload, ev_ts_utc = utc, ev_command_id = command_id,
                    ev_schema_version = schema_version, ev_seq = sq\<rparr> in
          and_then (check_event ev) (\<lambda>_. Ok ev))))))))))))))))))
      | _ \<Rightarrow> lerr ''type'' (json_type_name j @ '' indices must be integers or slices, not str''))"

definition json_lerr :: "json_error \<Rightarrow> lerr" where
  "json_lerr e = LErr (if je_unsupported e then ''unsupported'' else ''json'') (je_message e)"

definition event_from_bytes :: "externals \<Rightarrow> string \<Rightarrow> event lres" where
  "event_from_bytes x bytes =
     (if \<not> valid_utf8 bytes then lerr ''value'' ''invalid utf-8 sequence''
      else and_then (map_err json_lerr (json_parse bytes)) (decode_event x))"

definition event_to_bytes :: "externals \<Rightarrow> event \<Rightarrow> string lres" where
  "event_to_bytes x e = and_then (encode_event x e) (\<lambda>j. Ok (dumps j))"

definition reencode :: "externals \<Rightarrow> string \<Rightarrow> string lres" where
  "reencode x bytes = and_then (event_from_bytes x bytes) (event_to_bytes x)"

end
