(* ===== verification/Json_Props.thy ===== *)
theory Json_Props
  imports Json
begin

section \<open>What is written is read back\<close>

subsection \<open>Escapes\<close>

lemma hex_digits_length:
  "n < 16 ^ Suc w \<Longrightarrow> length (hex_digits n) \<le> Suc w"
proof (induction w arbitrary: n)
  case 0
  then show ?case by (subst hex_digits.simps) simp
next
  case (Suc w)
  then have "n div 16 < 16 ^ Suc w" by (simp add: less_mult_imp_div_less mult.commute)
  then show ?case using Suc.IH [of "n div 16"] by (subst hex_digits.simps) simp
qed

lemma hex_value_char: "d < 16 \<Longrightarrow> hex_value (hex_char d) = Some d"
  by (auto simp: hex_value_def hex_char_def byte_def Let_def)

lemma hex_step_char: "d < 16 \<Longrightarrow> hex_step (Some v) (hex_char d) = Some (v * 16 + d)"
  by (simp add: hex_step_def hex_value_char)

lemma hex_digits_read: "foldl hex_step (Some 0) (hex_digits n) = Some n"
proof (induction n rule: hex_digits.induct)
  case (1 n)
  then show ?case by (subst hex_digits.simps) (simp add: hex_step_char)
qed

lemma zeros_read: "foldl hex_step (Some 0) (replicate k (CHR ''0'')) = Some 0"
  by (induction k) (auto simp: hex_step_def hex_value_def byte_def Let_def)

lemma hex4_pad: "n < 65536 \<Longrightarrow> hex4 (hex_pad 4 n @ r) = Ok (n, r)"
proof -
  assume "n < 65536"
  then have "length (hex_digits n) \<le> 4" using hex_digits_length [of n 3] by simp
  then have l: "length (hex_pad 4 n) = 4" by (simp add: hex_pad_def Let_def)
  have "foldl hex_step (Some 0) (hex_pad 4 n) = Some n" by (simp add: hex_pad_def Let_def zeros_read hex_digits_read)
  then show ?thesis using l by (simp add: hex4_def)
qed

lemma unicode_escape_bmp: "c < 65536 \<Longrightarrow> is_scalar c \<Longrightarrow> unicode_escape (hex_pad 4 c @ r) = Ok (c, r)"
  by (auto simp: unicode_escape_def hex4_pad is_scalar_def)

lemma unicode_escape_pair:
  assumes "65536 \<le> c" "c < 0x110000"
  shows "unicode_escape (hex_pad 4 (0xD800 + (c - 0x10000) div 1024) @ [BACKSLASH, CHR ''u'']
    @ hex_pad 4 (0xDC00 + (c - 0x10000) mod 1024) @ r) = Ok (c, r)"
proof -
  let ?v = "c - 0x10000"
  have v: "?v div 1024 < 1024" "?v mod 1024 < 1024" using assms by (simp_all add: less_mult_imp_div_less)
  have "65536 + ?v div 1024 * 1024 + ?v mod 1024 = c" using assms(1) by simp
  then show ?thesis using v
    by (simp add: unicode_escape_def hex4_pad lit_def)
qed

lemma of_chars_append: "of_chars (cs @ ds) = of_chars cs @ of_chars ds"
  by (simp add: of_chars_def)

lemma of_chars_Nil [simp]: "of_chars [] = []"
  by (simp add: of_chars_def)

lemma bs_quote [simp]: "BACKSLASH \<noteq> QUOTE" "QUOTE \<noteq> BACKSLASH"
  by (simp_all add: BACKSLASH_def QUOTE_def)

lemma byte_marks: "byte QUOTE = 0x22" "byte BACKSLASH = 0x5C"
  by (simp_all add: byte_def QUOTE_def BACKSLASH_def)

lemma jstring_unicode:
  "unicode_escape s = Ok (c, r) \<Longrightarrow> is_scalar c \<Longrightarrow> jstring (BACKSLASH # CHR ''u'' # s) out = jstring r (out @ of_chars [c])"
  by (subst jstring.simps) simp

lemma jstring_simple:
  "simple_escape e = Some c \<Longrightarrow> e \<noteq> CHR ''u'' \<Longrightarrow> jstring (BACKSLASH # e # s) out = jstring s (out @ [c])"
  by (subst jstring.simps) simp

lemma jstring_quote: "jstring (QUOTE # r) out = Ok (out, r)"
  by (subst jstring.simps) simp

lemma jstring_plain:
  "b \<noteq> QUOTE \<Longrightarrow> b \<noteq> BACKSLASH \<Longrightarrow> 0x20 \<le> byte b \<Longrightarrow> byte b < 0x80 \<Longrightarrow> jstring (b # r) out = jstring r (out @ [b])"
  by (subst jstring.simps) (simp add: utf8_width_def)

lemma short_escapes:
  "list_all (\<lambda>c. case write_char c of
      [b, e] \<Rightarrow> b = BACKSLASH \<and> e \<noteq> CHR ''u'' \<and> simple_escape e = Some (hd (of_chars [c])) \<and> tl (of_chars [c]) = []
        \<and> of_chars [c] \<noteq> []
    | _ \<Rightarrow> False) [0x22, 0x5C, 0x0A, 0x0D, 0x09, 0x08, 0x0C]"
  by code_simp

lemma jstring_char:
  assumes "is_scalar c"
  shows "jstring (write_char c @ r) out = jstring r (out @ of_chars [c])"
proof -
  consider (short) "c \<in> {0x22, 0x5C, 0x0A, 0x0D, 0x09, 0x08, 0x0C}" | (pair) "0x10000 \<le> c"
    | (unit) "c \<notin> {0x22, 0x5C, 0x0A, 0x0D, 0x09, 0x08, 0x0C}" "c < 0x10000" "c < 0x20 \<or> 0x7E < c"
    | (plain) "c \<notin> {0x22, 0x5C, 0x0A, 0x0D, 0x09, 0x08, 0x0C}" "0x20 \<le> c" "c \<le> 0x7E" by force
  then show ?thesis
  proof cases
    case short
    then obtain e ch where "write_char c = [BACKSLASH, e]" "simple_escape e = Some ch" "e \<noteq> CHR ''u''" "of_chars [c] = [ch]"
      using short_escapes by (elim insertE emptyE) (simp_all split: list.splits, (metis list.collapse)+)
    then show ?thesis by (simp add: jstring_simple)
  next
    case pair
    then have "c < 0x110000" using assms by (simp add: is_scalar_def)
    then show ?thesis using pair assms jstring_unicode [OF unicode_escape_pair [OF pair]]
      by (simp add: write_char_def Let_def)
  next
    case unit
    then show ?thesis using assms jstring_unicode [OF unicode_escape_bmp [of c]]
      by (simp add: write_char_def)
  next
    case plain
    then have "of_chars [c] = [char_of c]" "byte (char_of c) = c"
      by (simp_all add: of_chars_ascii byte_def)
    moreover have "char_of c \<noteq> QUOTE" "char_of c \<noteq> BACKSLASH"
      using plain \<open>byte (char_of c) = c\<close> byte_marks by auto
    ultimately show ?thesis using plain
      by (simp add: write_char_def jstring_plain)
  qed
qed

lemma jstring_text:
  "list_all is_scalar cs \<Longrightarrow> jstring (concat (map write_char cs) @ QUOTE # r) out = Ok (out @ of_chars cs, r)"
proof (induction cs arbitrary: out)
  case Nil
  then show ?case by (simp add: jstring_quote)
next
  case (Cons c cs)
  then show ?case using of_chars_append [of "[c]" cs] by (simp add: jstring_char)
qed

subsection \<open>Numbers\<close>

text \<open>What may follow a value inside a document.\<close>

definition stops :: "string \<Rightarrow> bool" where
  "stops r \<longleftrightarrow> r = [] \<or> hd r \<in> {CHR '','', CHR '']'', CHR ''}''}"

lemma byte_digit_char: "d < 10 \<Longrightarrow> byte (digit_char d) = 48 + d"
  by (simp add: byte_def digit_char_def)

lemma is_dig_digit_char: "d < 10 \<Longrightarrow> is_dig (digit_char d)"
  by (simp add: is_dig_def byte_digit_char)

lemma nat_text_digits: "list_all is_dig (nat_to_string n)"
  by (auto simp: nat_to_string_def list_all_iff dec_digits_bound is_dig_digit_char)

lemma nat_text_nonempty [simp]: "nat_to_string n \<noteq> []"
  by (simp add: nat_to_string_def)

lemma nat_text_value: "digits_value (map (\<lambda>c. byte c - 48) (nat_to_string n)) = n"
proof -
  have "map (\<lambda>c. byte c - 48) (nat_to_string n) = dec_digits n"
    by (auto simp: nat_to_string_def byte_digit_char dec_digits_bound intro!: map_idI)
  then show ?thesis by simp
qed

lemma stops_head:
  assumes "stops r"
  shows "\<not> head_is is_dig r" "\<not> head_is (\<lambda>c. c = CHR ''.'') r" "\<not> head_is (\<lambda>c. c = CHR ''e'' \<or> c = CHR ''E'') r"
    "skip_digits r = r" "ws r = r"
  using assms by (cases r; auto simp: stops_def head_is_def is_dig_def byte_def skip_digits_def ws_def)+

lemma nat_text_head:
  obtains c t where "nat_to_string n = c # t" "is_dig c" "c = CHR ''0'' \<longrightarrow> t = []" "list_all is_dig t" "c \<noteq> CHR ''-''"
proof -
  obtain d ds where d: "dec_digits n = d # ds" by (cases "dec_digits n") auto
  have "d < 10" using dec_digits_bound [of d n] d by simp
  moreover have "ds = []" if "digit_char d = CHR ''0''"
  proof -
    have "byte (digit_char d) = 48" using that by (simp add: byte_def)
    then have "d = 0" using \<open>d < 10\<close> by (simp add: byte_digit_char)
    then have "n = 0" using dec_digits_hd [of n] d by (cases "n = 0") auto
    then show ?thesis using d by (simp add: dec_digits.simps)
  qed
  moreover have "digit_char d \<noteq> CHR ''-''" using \<open>d < 10\<close> byte_digit_char [of d] by (auto simp: byte_def)
  ultimately show ?thesis using d nat_text_digits [of n] that by (simp add: nat_to_string_def)
qed

lemma number_int_text:
  assumes "stops r"
  shows "number_int (int_to_string n @ r) = Ok r"
proof -
  obtain c t where t: "nat_to_string (nat \<bar>n\<bar>) = c # t" "is_dig c" "c = CHR ''0'' \<longrightarrow> t = []" "list_all is_dig t" "c \<noteq> CHR ''-''"
    by (rule nat_text_head [of "nat \<bar>n\<bar>"])
  have skip: "skip_digits (c # t @ r) = r"
    using t(2,4) stops_head(4) [OF assms] by (simp add: skip_digits_def list_all_iff dropWhile_append2)
  show ?thesis using t skip by (cases "n < 0") (auto simp: int_to_string_def number_int_def head_is_def Let_def)
qed

lemma int_text_back: "int_text_value (int_to_string n) = n"
proof -
  obtain c t where t: "nat_to_string (nat \<bar>n\<bar>) = c # t" "is_dig c" "c = CHR ''0'' \<longrightarrow> t = []" "list_all is_dig t" "c \<noteq> CHR ''-''"
    by (rule nat_text_head [of "nat \<bar>n\<bar>"])
  then show ?thesis using nat_text_value [of "nat \<bar>n\<bar>"]
    by (cases "n < 0") (simp_all add: int_to_string_def int_text_value_def head_is_def)
qed

lemma number_text:
  assumes "stops r"
  shows "number (int_to_string n @ r) = Ok (if in_i128 n then JInt n else JBigInt (int_to_string n), r)"
  using stops_head [OF assms]
  by (simp add: number_def number_int_text [OF assms] number_frac_def number_exp_def int_text_back)

subsection \<open>Documents\<close>

text \<open>
  The documents of the ledger: integers in their range, text in UTF-8, the keys of an object distinct
  and of the floats only the three words.
\<close>

fun json_ok :: "json \<Rightarrow> bool" where
  "json_ok (JInt n) = in_i128 n"
| "json_ok (JBigInt t) = (t = int_to_string (int_text_value t) \<and> \<not> in_i128 (int_text_value t))"
| "json_ok (JFloat t) = (t \<in> {''NaN'', ''Infinity'', ''-Infinity''})"
| "json_ok (JStr s) = valid_utf8 s"
| "json_ok (JArr js) = (\<forall>j\<in>set js. json_ok j)"
| "json_ok (JObj ps) = (distinct (map fst ps) \<and> (\<forall>p\<in>set ps. valid_utf8 (fst p) \<and> json_ok (snd p)))"
| "json_ok _ = True"

fun nesting :: "json \<Rightarrow> nat" where
  "nesting (JArr js) = Suc (fold max (map nesting js) 0)"
| "nesting (JObj ps) = Suc (fold max (map (\<lambda>p. nesting (snd p)) ps) 0)"
| "nesting _ = 0"

text \<open>The document with the keys of every object in order.\<close>

function (sequential) sort_keys :: "json \<Rightarrow> json" where
  "sort_keys (JArr js) = JArr (map sort_keys js)"
| "sort_keys (JObj ps) = JObj (map (\<lambda>(k, v). (k, sort_keys v)) (sort_key fst ps))"
| "sort_keys j = j"
  by pat_completeness auto
termination
proof (relation "measure size", goal_cases)
  case (3 pairs kv k v)
  then have "(k, v) \<in> set pairs" by (metis set_sort)
  then show ?case by (auto dest!: size_list_estimation' [where f = "size_prod (\<lambda>_. 0) size" and y = "size v"])
qed (auto simp: le_imp_less_Suc size_list_estimation')

text \<open>A value starts neither with white space nor with a closing bracket.\<close>

definition starter :: "char \<Rightarrow> bool" where
  "starter c \<longleftrightarrow> byte c \<notin> {32, 9, 10, 13} \<and> c \<noteq> CHR '']'' \<and> c \<noteq> CHR ''}''"

lemma starter_dig: "is_dig c \<Longrightarrow> starter c"
  by (auto simp: starter_def is_dig_def byte_def)

lemma starter_marks: "starter QUOTE" "starter (CHR ''['')" "starter (CHR ''{'')" "starter (CHR ''-'')" "starter (CHR ''n'')"
    "starter (CHR ''t'')" "starter (CHR ''f'')" "starter (CHR ''N'')" "starter (CHR ''I'')"
  by (simp_all add: starter_def byte_def QUOTE_def)

lemma int_text_starter: "\<exists>c t. int_to_string n = c # t \<and> starter c"
proof -
  obtain c t where "nat_to_string (nat \<bar>n\<bar>) = c # t" "is_dig c" "c = CHR ''0'' \<longrightarrow> t = []" "list_all is_dig t" "c \<noteq> CHR ''-''"
    by (rule nat_text_head [of "nat \<bar>n\<bar>"])
  then show ?thesis by (cases "n < 0") (auto simp: int_to_string_def starter_dig starter_marks)
qed

lemma dumps_starter:
  assumes "json_ok j"
  shows "\<exists>c t. dumps j = c # t \<and> starter c"
proof (cases j)
  case (JInt n)
  then show ?thesis using int_text_starter [of n] by simp
next
  case (JBigInt t)
  then have "t = int_to_string (int_text_value t)" using assms by simp
  then show ?thesis using int_text_starter [of "int_text_value t"] JBigInt by simp
next
  case (JFloat t)
  then show ?thesis using assms starter_marks by auto
next
  case (JBool b)
  then show ?thesis using starter_marks by simp
qed (simp_all add: write_str_def starter_marks)

lemma ws_starter: "starter c \<Longrightarrow> ws (c # t) = c # t"
  by (auto simp: ws_def starter_def)

lemma dumps_ws:
  assumes "json_ok j"
  shows "ws (dumps j @ r) = dumps j @ r" "\<not> head_is (\<lambda>c. c = CHR '']'') (dumps j @ r)"
  using dumps_starter [OF assms] by (auto simp: ws_starter head_is_def starter_def)

lemma parse_number:
  assumes "stops r"
  shows "parse_value d (int_to_string n @ r) = Ok (if in_i128 n then JInt n else JBigInt (int_to_string n), r)"
proof -
  obtain c t where t: "nat_to_string (nat \<bar>n\<bar>) = c # t" "is_dig c" "c = CHR ''0'' \<longrightarrow> t = []" "list_all is_dig t" "c \<noteq> CHR ''-''"
    by (rule nat_text_head [of "nat \<bar>n\<bar>"])
  have ne: "c \<noteq> QUOTE" "c \<noteq> CHR ''{''" "c \<noteq> CHR ''[''" "c \<noteq> CHR ''n''" "c \<noteq> CHR ''t''" "c \<noteq> CHR ''f''" "c \<noteq> CHR ''N''" "c \<noteq> CHR ''I''"
    using t(2) by (auto simp: is_dig_def byte_def QUOTE_def)
  have "parse_value d (int_to_string n @ r) = number (int_to_string n @ r)"
  proof (cases "n < 0")
    case True
    then have s: "int_to_string n @ r = CHR ''-'' # c # t @ r" using t(1) by (simp add: int_to_string_def)
    show ?thesis unfolding s using ne by (subst parse_value.simps) (simp add: lit_def QUOTE_def)
  next
    case False
    then have s: "int_to_string n @ r = c # t @ r" using t(1) by (simp add: int_to_string_def)
    show ?thesis unfolding s using ne t(2,5) by (subst parse_value.simps) simp
  qed
  then show ?thesis using number_text [OF assms] by simp
qed

lemma parse_text:
  "valid_utf8 s \<Longrightarrow> jstring (tl (write_str s @ r)) [] = Ok (s, r)"
  by (simp add: valid_utf8_def write_str_def jstring_text)

lemma parse_word:
  "parse_value d (''null'' @ r) = Ok (JNull, r)" "parse_value d (''true'' @ r) = Ok (JBool True, r)"
  "parse_value d (''false'' @ r) = Ok (JBool False, r)" "parse_value d (''NaN'' @ r) = Ok (JFloat ''NaN'', r)"
  "parse_value d (''Infinity'' @ r) = Ok (JFloat ''Infinity'', r)" "parse_value d (''-Infinity'' @ r) = Ok (JFloat ''-Infinity'', r)"
  by (simp_all add: parse_value.simps lit_def QUOTE_def)

text \<open>The reader on the text of a document, for the documents inside an array or an object.\<close>

definition reads :: "nat \<Rightarrow> json \<Rightarrow> bool" where
  "reads d j \<longleftrightarrow> (\<forall>r. stops r \<longrightarrow> parse_value d (dumps j @ r) = Ok (sort_keys j, r))"

lemma stops_marks [simp]: "stops (CHR '','' # r)" "stops (CHR '']'' # r)" "stops (CHR ''}'' # r)"
  by (simp_all add: stops_def)

lemma ws_mark [simp]: "ws (CHR '','' # r) = CHR '','' # r" "ws (CHR '']'' # r) = CHR '']'' # r" "ws (CHR ''}'' # r) = CHR ''}'' # r"
    "ws (CHR '':'' # r) = CHR '':'' # r" "ws (QUOTE # r) = QUOTE # r"
  by (simp_all add: ws_def byte_def QUOTE_def)

lemma parse_items_text:
  assumes "js \<noteq> []" "\<forall>j\<in>set js. json_ok j \<and> reads d j"
  shows "parse_items d (commas (map dumps js) @ CHR '']'' # r) acc = Ok (acc @ map sort_keys js, r)"
  using assms
proof (induction js arbitrary: acc rule: induct_list012)
  case (2 j)
  then show ?case by (subst parse_items.simps) (simp add: dumps_ws reads_def head_is_def)
next
  case (3 j j' js)
  then show ?case by (subst parse_items.simps) (simp add: dumps_ws reads_def head_is_def)
qed simp

lemma put_pair_new: "key \<notin> fst ` set ps \<Longrightarrow> put_pair ps key v = ps @ [(key, v)]"
  by (induction ps key v rule: put_pair.induct) auto

definition pair_text :: "string \<times> json \<Rightarrow> string" where
  "pair_text p = write_str (fst p) @ '':'' @ dumps (snd p)"

lemma pair_text_split: "(\<lambda>(k, v). write_str k @ '':'' @ dumps v) = pair_text"
  by (auto simp: pair_text_def)

lemma parse_pairs_text:
  assumes "ps \<noteq> []" "\<forall>p\<in>set ps. valid_utf8 (fst p) \<and> json_ok (snd p) \<and> reads d (snd p)"
    and "distinct (map fst acc @ map fst ps)"
  shows "parse_pairs d (commas (map pair_text ps) @ CHR ''}'' # r) acc = Ok (acc @ map (\<lambda>(k, v). (k, sort_keys v)) ps, r)"
  using assms
proof (induction ps arbitrary: acc rule: induct_list012)
  case (2 p)
  obtain k v where p: "p = (k, v)" by (cases p)
  have ok: "valid_utf8 k" "json_ok v" "reads d v" "k \<notin> fst ` set acc" using "2.prems" by (auto simp: p)
  have s: "commas (map pair_text [p]) @ CHR ''}'' # r = write_str k @ CHR '':'' # dumps v @ CHR ''}'' # r"
    by (simp add: pair_text_def p)
  show ?case unfolding s using parse_text [OF ok(1)] ok
    by (subst parse_pairs.simps) (simp add: write_str_def head_is_def dumps_ws reads_def put_pair_new p)
next
  case (3 p q ps)
  obtain k v where p: "p = (k, v)" by (cases p)
  have ok: "valid_utf8 k" "json_ok v" "reads d v" "k \<notin> fst ` set acc" using "3.prems" by (auto simp: p)
  let ?rest = "commas (map pair_text (q # ps)) @ CHR ''}'' # r"
  have s: "commas (map pair_text (p # q # ps)) @ CHR ''}'' # r = write_str k @ CHR '':'' # dumps v @ CHR '','' # ?rest"
    by (simp add: pair_text_def p)
  have ih: "parse_pairs d ?rest (acc @ [(k, sort_keys v)]) = Ok ((acc @ [(k, sort_keys v)]) @ map (\<lambda>(k, v). (k, sort_keys v)) (q # ps), r)"
    using "3.prems" by (intro "3.IH"(2)) (auto simp: p)
  show ?case unfolding s using parse_text [OF ok(1)] ok ih
    by (subst parse_pairs.simps) (simp add: write_str_def head_is_def dumps_ws reads_def put_pair_new p)
qed simp

lemma commas_first: "xs \<noteq> [] \<Longrightarrow> \<exists>t. commas xs = hd xs @ t"
  by (cases xs rule: commas.cases) auto

lemma fold_max_start: "(x::nat) \<le> a \<Longrightarrow> x \<le> fold max xs a"
  by (induction xs arbitrary: a) (simp_all add: max.coboundedI2)

lemma fold_max_ge: "x \<in> set xs \<Longrightarrow> (x::nat) \<le> fold max xs a"
proof (induction xs arbitrary: a)
  case (Cons y ys)
  then show ?case using fold_max_start [of y "max y a" ys] by (cases "x = y") auto
qed simp

lemma reads_array:
  assumes "\<forall>j\<in>set js. json_ok j \<and> reads (d + 1) j" "d + 1 \<le> MAX_DEPTH"
  shows "reads d (JArr js)"
proof (cases "js = []")
  case True
  then show ?thesis using assms(2) by (simp add: reads_def parse_value.simps QUOTE_def head_is_def)
next
  case False
  then obtain t where t: "commas (map dumps js) = dumps (hd js) @ t" using commas_first [of "map dumps js"] by (auto simp: hd_map)
  have h: "json_ok (hd js)" using assms(1) False by simp
  have w: "ws (commas (map dumps js) @ r) = commas (map dumps js) @ r"
    "\<not> head_is (\<lambda>c. c = CHR '']'') (commas (map dumps js) @ r)" for r
    using dumps_ws [OF h, of "t @ r"] t by simp_all
  show ?thesis using assms(2) parse_items_text [OF False assms(1)] w
    by (simp add: reads_def parse_value.simps QUOTE_def)
qed

lemma reads_object:
  assumes "distinct (map fst ps)" "\<forall>p\<in>set ps. valid_utf8 (fst p) \<and> json_ok (snd p) \<and> reads (d + 1) (snd p)" "d + 1 \<le> MAX_DEPTH"
  shows "reads d (JObj ps)"
proof (cases "ps = []")
  case True
  then show ?thesis using assms(3) by (simp add: reads_def parse_value.simps QUOTE_def head_is_def)
next
  case False
  let ?qs = "sort_key fst ps"
  have d: "dumps (JObj ps) = ''{'' @ commas (map pair_text ?qs) @ ''}''"
    using pair_text_split by simp
  have qs: "?qs \<noteq> []" "distinct (map fst ([]::(string \<times> json) list) @ map fst ?qs)" "\<forall>p\<in>set ?qs. valid_utf8 (fst p) \<and> json_ok (snd p) \<and> reads (d + 1) (snd p)"
    using False assms(1,2) by (auto simp: distinct_map distinct_sort) (metis length_0_conv length_sort)
  obtain t where t: "commas (map pair_text ?qs) = QUOTE # t"
    using commas_first [of "map pair_text ?qs"] qs(1) by (auto simp: hd_map pair_text_def write_str_def)
  have p: "parse_pairs (d + 1) (QUOTE # t @ CHR ''}'' # r) [] = Ok (map (\<lambda>(k, v). (k, sort_keys v)) ?qs, r)" for r
    using parse_pairs_text [OF qs(1,3,2)] t by simp
  show ?thesis unfolding reads_def d using assms(3) p t
    by (simp add: parse_value.simps QUOTE_def [symmetric] head_is_def) (simp add: QUOTE_def)
qed

lemma reads_all: "json_ok j \<Longrightarrow> d + nesting j \<le> MAX_DEPTH \<Longrightarrow> reads d j"
proof (induction j arbitrary: d)
  case (JArr js)
  have "reads (d + 1) j" if "j \<in> set js" for j
    using that JArr.prems fold_max_ge [of "nesting j" "map nesting js" 0] by (intro JArr.IH) auto
  then show ?case using JArr.prems by (intro reads_array) auto
next
  case (JObj ps)
  have "reads (d + 1) (snd p)" if "p \<in> set ps" for p
    using that JObj.prems fold_max_ge [of "nesting (snd p)" "map (\<lambda>p. nesting (snd p)) ps" 0]
    by (intro JObj.IH [of p]) (auto simp: prod_set_defs)
  then show ?case using JObj.prems by (intro reads_object) auto
next
  case (JStr s)
  then show ?case using parse_text [of s] by (simp add: reads_def parse_value.simps write_str_def)
next
  case (JBigInt t)
  then have "t = int_to_string (int_text_value t)" "\<not> in_i128 (int_text_value t)" by simp_all
  then show ?case using parse_number [of _ d "int_text_value t"] by (simp add: reads_def)
next
  case (JFloat t)
  then show ?case using parse_word [of d] by (auto simp: reads_def)
next
  case (JBool b)
  then show ?case using parse_word [of d] by (simp add: reads_def)
next
  case JNull
  then show ?case using parse_word(1) [of d] by (simp add: reads_def)
next
  case (JInt n)
  then show ?case by (simp add: reads_def parse_number)
qed

lemma dumps_sort_keys: "dumps (sort_keys j) = dumps j"
proof (induction j rule: dumps.induct)
  case (7 items)
  then show ?case by (simp cong: map_cong)
next
  case (8 pairs)
  let ?qs = "sort_key fst pairs"
  let ?ps = "map (\<lambda>(k, v). (k, sort_keys v)) ?qs"
  have "map fst ?ps = map fst ?qs" by auto
  then have "sorted (map fst ?ps)" using sorted_sort_key [of fst pairs] by metis
  then have "sort_key fst ?ps = ?ps" by (rule sort_key_id_if_sorted)
  moreover have "map (\<lambda>(k, v). write_str k @ '':'' @ dumps v) ?ps = map (\<lambda>(k, v). write_str k @ '':'' @ dumps v) ?qs"
    using "8.IH" by auto
  ultimately show ?case by (simp only: sort_keys.simps dumps.simps)
qed auto

lemma json_reads:
  assumes "json_ok j" "nesting j \<le> MAX_DEPTH"
  shows "json_parse (dumps j) = Ok (sort_keys j)"
proof -
  have "reads 0 j" using assms by (simp add: reads_all)
  then have "parse_value 0 (dumps j) = Ok (sort_keys j, [])" using stops_def [of "[]"] unfolding reads_def by force
  moreover have "ws (dumps j) = dumps j" using dumps_ws(1) [OF assms(1), of "[]"] by simp
  ultimately show ?thesis by (simp add: json_parse_def ws_def)
qed

text \<open>
  C38. A document of the ledger survives its text: what \<open>dumps\<close> writes, \<open>parse\<close> reads back with the keys of
  every object in order, and that document has the same text again. The document is nested no deeper
  than the reader allows, its integers and text are what the types of the code hold.
\<close>

theorem json_roundtrip:
  assumes "json_ok j" "nesting j \<le> MAX_DEPTH"
  shows "json_parse (dumps j) = Ok (sort_keys j) \<and> dumps (sort_keys j) = dumps j"
  using json_reads [OF assms] dumps_sort_keys by blast

definition s_doc :: json where
  "s_doc = JObj [(''b'', JArr [JInt 1, JBool True, JNull]), (''a'', JStr (of_chars [120, 0xE9, 0x1F600, 10]))]"

theorem json_roundtrip_witness:
  "json_ok s_doc \<and> nesting s_doc \<le> MAX_DEPTH \<and> json_parse (dumps s_doc) = Ok (sort_keys s_doc) \<and> dumps (sort_keys s_doc) = dumps s_doc
   \<and> map fst (case sort_keys s_doc of JObj ps \<Rightarrow> ps | _ \<Rightarrow> []) = [''a'', ''b'']"
proof -
  have "json_ok s_doc" "nesting s_doc \<le> MAX_DEPTH" "map fst (case sort_keys s_doc of JObj ps \<Rightarrow> ps | _ \<Rightarrow> []) = [''a'', ''b'']"
    by code_simp+
  then show ?thesis using json_roundtrip [of s_doc] by blast
qed

end
