(* ===== verification/Codec_Fields.thy ===== *)
theory Codec_Fields
  imports Codec Json_Props Dates_Props Money_Props
begin

section \<open>Payloads by their fields\<close>

text \<open>
  Every payload of the ledger as the list of its fields, in the order in which the codec writes them,
  each a dynamic value: the encoder writes exactly these, and a constructor given them in any order
  answers the payload again.
\<close>

definition vopt :: "('a \<Rightarrow> val) \<Rightarrow> 'a option \<Rightarrow> val" where
  "vopt c m = (case m of None \<Rightarrow> VNone | Some a \<Rightarrow> c a)"

fun obj_fields :: "obj \<Rightarrow> (string \<times> val) list" where
  "obj_fields (OInstr (Equity s)) = [(''symbol'', VStr s)]"
| "obj_fields (OInstr (OptionI c)) =
     [(''underlying'', VStr (oc_underlying c)), (''expiry'', VDate (oc_expiry c)), (''strike'', VDec (oc_strike c)),
      (''right'', VRight (oc_right c)), (''multiplier'', VInt (oc_multiplier c))]"
| "obj_fields (OInstr (Combo legs)) = [(''legs'', VTuple (map (\<lambda>l. VObj (OComboLeg l)) legs))]"
| "obj_fields (OInstr (Future _)) = []"
| "obj_fields (OComboLeg l) =
     [(''contract'', VObj (OInstr (leg_contract l))), (''ratio'', VInt (leg_ratio l)), (''side'', VSide (leg_side l))]"
| "obj_fields (OOrder r) =
     [(''order_id'', VStr (o_order_id r)), (''account_id'', VStr (o_account_id r)), (''instrument'', VObj (OInstr (o_instrument r))),
      (''order_type'', VOrderType (o_order_type r)), (''side'', VSide (o_side r)), (''quantity'', VDec (o_quantity r)),
      (''command_id'', VStr (o_command_id r)), (''created_at'', VDateTime (o_created_at r)),
      (''limit_price'', vopt VDec (o_limit_price r)), (''stop_price'', vopt VDec (o_stop_price r)),
      (''trail_amount'', vopt VDec (o_trail_amount r)), (''tif'', VTif (o_tif r)), (''state'', VOrderState (o_state r)),
      (''parent_order_id'', vopt VStr (o_parent_order_id r)), (''oco_group'', vopt VStr (o_oco_group r))]"
| "obj_fields (ORiskRule r) =
     [(''rule_name'', VStr (rr_rule_name r)), (''passed'', VBool (rr_passed r)), (''measured_value'', rr_measured_value r),
      (''threshold'', rr_threshold r), (''reason'', VStr (rr_reason r))]"
| "obj_fields (OFill f) =
     [(''fill_id'', VStr (f_fill_id f)), (''order_id'', VStr (f_order_id f)), (''account_id'', VStr (f_account_id f)),
      (''instrument'', VObj (OInstr (f_instrument f))), (''quantity'', VDec (f_quantity f)), (''price'', VDec (f_price f)),
      (''venue_env'', VStr (f_venue_env f)), (''filled_at'', VDateTime (f_filled_at f)), (''side'', VSide (f_side f)),
      (''fee'', VDec (f_fee f)), (''leg_id'', vopt VStr (f_leg_id f)), (''venue_order_id'', vopt VStr (f_venue_order_id f)),
      (''venue_execution_id'', vopt VStr (f_venue_execution_id f))]"
| "obj_fields (OLot l) =
     [(''lot_id'', VStr (lot_id l)), (''quantity'', VDec (lot_quantity l)), (''cost_basis'', VDec (lot_cost_basis l)),
      (''acquired_at'', VDateTime (lot_acquired_at l)), (''side'', VSide (lot_side l))]"
| "obj_fields (OSignal s) =
     [(''signal_id'', VStr (sg_signal_id s)), (''scan_id'', VStr (sg_scan_id s)), (''symbol'', VStr (sg_symbol s)),
      (''session_date'', VDate (sg_session_date s)), (''direction'', VStr (sg_direction s)), (''metrics'', VMap (sg_metrics s)),
      (''next_earnings_date'', vopt VDate (sg_next_earnings_date s)), (''created_at'', vopt VDateTime (sg_created_at s))]"
| "obj_fields (ORiskVerdict v) =
     [(''order_intent_id'', VStr (rv_order_intent_id v)), (''accepted'', VBool (rv_accepted v)),
      (''evaluations'', VTuple (map (\<lambda>r. VObj (ORiskRule r)) (rv_evaluations v))),
      (''refusal_reasons'', VTuple (map VStr (rv_refusal_reasons v))),
      (''approved_quantity'', vopt VDec (rv_approved_quantity v))]"
| "obj_fields (ORiskControl c) =
     [(''control_id'', VStr (rc_control_id c)), (''enabled'', VBool (rc_enabled c)), (''reason'', VStr (rc_reason c)),
      (''changed_at'', VDateTime (rc_changed_at c))]"
| "obj_fields (OStateChange s) =
     [(''order_id'', VStr (sc_order_id s)), (''reason'', vopt VStr (sc_reason s)), (''venue_order_id'', vopt VStr (sc_venue_order_id s))]"
| "obj_fields (OOrdersCreated c) =
     [(''orders'', VTuple (map (\<lambda>r. VObj (OOrder r)) (cr_orders c))), (''fingerprint'', VStr (cr_fingerprint c)),
      (''reason'', VStr (cr_reason c))]"
| "obj_fields (OOrderUpdated u) =
     [(''order'', VObj (OOrder (up_order u))), (''reason'', VStr (up_reason u)), (''venue_order_id'', vopt VStr (up_venue_order_id u))]"
| "obj_fields (OEmulated e) =
     [(''order_id'', VStr (em_order_id e)), (''observed_price'', vopt VDec (em_observed_price e)), (''extreme'', vopt VDec (em_extreme e)),
      (''stop_price'', vopt VDec (em_stop_price e)), (''triggered'', VBool (em_triggered e)), (''reason'', VStr (em_reason e))]"
| "obj_fields (OCashFlow c) =
     [(''amount'', VDec (cf_amount c)), (''kind'', VStr (cf_kind c)), (''as_of'', VDateTime (cf_as_of c)), (''note'', vopt VStr (cf_note c))]"
| "obj_fields (OMark m) =
     [(''instrument'', VObj (OInstr (mk_instrument m))), (''price'', VDec (mk_price m)), (''as_of'', VDateTime (mk_as_of m)),
      (''source'', vopt VStr (mk_source m))]"
| "obj_fields (OReconcile r) =
     [(''venue'', VStr (vr_venue r)), (''as_of'', VDateTime (vr_as_of r)), (''reconciled'', VBool (vr_reconciled r)),
      (''drift'', VTuple (map VStr (vr_drift r))), (''note'', vopt VStr (vr_note r))]"
| "obj_fields (OHaltCleared h) =
     [(''venue'', VStr (hc_venue h)), (''at'', VDateTime (hc_at h)), (''reason'', VStr (hc_reason h)),
      (''reconcile_seq'', VInt (hc_reconcile_seq h))]"
| "obj_fields (OEodRun r) =
     [(''session'', VDate (er_session r)), (''job'', VStr (er_job r)), (''account_id'', VStr (er_account_id r)),
      (''bars_processed'', VInt (er_bars_processed r)), (''at_close'', VDateTime (er_at_close r))]"
| "obj_fields (OLifecycle l) =
     [(''account_id'', VStr (ol_account_id l)), (''contract'', VObj (OInstr (OptionI (ol_contract l)))), (''quantity'', VDec (ol_quantity l)),
      (''held'', VSide (ol_held l)), (''underlying_price'', VDec (ol_underlying_price l)), (''price_source'', VStr (ol_price_source l)),
      (''as_of'', VDateTime (ol_as_of l)), (''reason'', VStr (ol_reason l)), (''early'', VBool (ol_early l))]"
| "obj_fields (OCorp c) =
     [(''symbol'', VStr (ca_symbol c)), (''action_type'', VStr (ca_action_type c)), (''effective_date'', VDate (ca_effective_date c)),
      (''as_of'', VDateTime (ca_as_of c)), (''details'', VMap (ca_details c))]"
| "obj_fields (OMAlloc a) =
     [(''strategy_order_id'', VStr (ma_strategy_order_id a)), (''strategy_account'', VStr (ma_strategy_account a)),
      (''quantity'', VDec (ma_quantity a))]"
| "obj_fields (OMQueued q) =
     [(''venue'', VStr (mq_venue q)), (''ticket_key'', VStr (mq_ticket_key q)), (''instrument'', VObj (OInstr (mq_instrument q))),
      (''side'', VSide (mq_side q)), (''quantity'', VDec (mq_quantity q)), (''order_type'', VOrderType (mq_order_type q)),
      (''limit_price'', vopt VDec (mq_limit_price q)), (''tif'', VTif (mq_tif q)),
      (''allocations'', VTuple (map (\<lambda>a. VObj (OMAlloc a)) (mq_allocations q))), (''at'', VDateTime (mq_at q))]"
| "obj_fields (OMRefused r) =
     [(''venue'', VStr (mr_venue r)), (''strategy_order_id'', VStr (mr_strategy_order_id r)),
      (''strategy_account'', VStr (mr_strategy_account r)), (''reason'', VStr (mr_reason r)), (''at'', VDateTime (mr_at r))]"
| "obj_fields (OMAck a) =
     [(''venue'', VStr (ak_venue a)), (''ticket_key'', VStr (ak_ticket_key a)), (''status'', VStr (ak_status a)),
      (''message'', VStr (ak_message a)), (''at'', VDateTime (ak_at a)), (''venue_order_id'', vopt VStr (ak_venue_order_id a)),
      (''book_status'', vopt VOrderState (ak_book_status a))]"
| "obj_fields (OMFill f) =
     [(''venue'', VStr (mf_venue f)), (''ticket_key'', VStr (mf_ticket_key f)), (''venue_order_id'', VStr (mf_venue_order_id f)),
      (''filled'', VDec (mf_filled f)), (''avg_price'', VDec (mf_avg_price f)), (''at'', VDateTime (mf_at f))]"

subsection \<open>The encoder writes the fields\<close>

definition enc_field :: "string \<times> val \<Rightarrow> (string \<times> json) lres" where
  "enc_field p = and_then (enc_val (snd p)) (\<lambda>j. Ok (fst p, j))"

lemma and_then_assoc: "and_then (and_then r f) g = and_then r (\<lambda>a. and_then (f a) g)"
  by (cases r) auto

lemma map_r_map: "map_r f (map g xs) = map_r (\<lambda>a. f (g a)) xs"
  by (induction xs) auto

lemma map_r_Ok: "map_r (\<lambda>a. Ok (g a)) xs = Ok (map g xs)"
  by (induction xs) auto

lemma enc_vopt:
  "enc_val (vopt VDec d) = Ok (jodec d)" "enc_val (vopt VStr s) = Ok (jostr s)" "enc_val (vopt VDateTime t) = Ok (jodt t)"
  "enc_val (vopt VDate e) = Ok (case e of None \<Rightarrow> jnone | Some d \<Rightarrow> jdate d)"
  "enc_val (vopt VOrderState b) = Ok (case b of None \<Rightarrow> jnone | Some s \<Rightarrow> jenum ''OrderState'' (order_state_value s))"
  by (auto simp: vopt_def jodec_def jostr_def jodt_def split: option.splits)

lemma enc_obj_fields:
  assumes "\<And>fu. ob \<noteq> OInstr (Future fu)"
  shows "enc_obj ob = and_then (map_r enc_field (obj_fields ob)) (\<lambda>fs. Ok (dc (obj_tag ob) fs))"
proof (cases ob)
  case (OInstr i)
  then show ?thesis using assms
    by (cases i) (auto simp: enc_field_def and_then_assoc map_r_map)
next
  case (OComboLeg l)
  then show ?thesis by (cases l) (simp add: enc_field_def and_then_assoc)
next
  case (OOrdersCreated c)
  then show ?thesis by (simp add: enc_field_def and_then_assoc map_r_map enc_orders_created_def)
next
  case (OMQueued q)
  then show ?thesis
    by (simp add: enc_field_def and_then_assoc map_r_map map_r_Ok enc_vopt enc_mirror_queued_def)
qed (simp_all add: enc_field_def and_then_assoc map_r_map map_r_Ok enc_vopt enc_order_def enc_fill_def enc_lot_def
    enc_risk_control_def enc_state_change_def enc_order_updated_def enc_emulated_def enc_cash_flow_def
    enc_mark_def enc_reconcile_def enc_halt_cleared_def enc_eod_run_def enc_lifecycle_def
    enc_mirror_refused_def enc_mirror_ack_def enc_mirror_fill_def enc_alloc_def jstrs_def)

end
