(* ===== verification/Codec_Read.thy ===== *)
theory Codec_Read
  imports Codec_Fields
begin

section \<open>Reading back what the codec writes\<close>

text \<open>
  The values the codec can write and read back, and the proof that it does: a constructor answers the same
  payload whatever the order of its fields, every tag is decoded to the value it was written for, and a
  tuple, a map or a payload is decoded when its parts are.
\<close>

subsection \<open>Texts\<close>

lemma ascii_utf8:
  assumes "is_ascii s"
  shows "valid_utf8 s" "chars s = utext s"
proof -
  have s: "\<forall>c\<in>set s. of_char c < (128::nat)" using assms by (simp add: is_ascii_def list_all_iff)
  then show ch: "chars s = utext s" by (rule chars_ascii)
  have "of_chars (utext s) = s" using s by (simp add: of_chars_ascii utext_def)
  moreover have "list_all is_scalar (utext s)" using s by (auto simp: utext_def is_scalar_def list_all_iff)
  ultimately show "valid_utf8 s" by (simp add: valid_utf8_def ch)
qed

lemma canon_is_ascii: "is_ascii (canon m)"
proof -
  have d: "of_char (digit_char d) = 48 + d" if "d < 10" for d
    using utext_digit_char [of "[d]"] that by (simp add: utext_def)
  have "of_char (digit_char d) < (128::nat)" if "d \<in> set (int_digits m) \<or> d \<in> set (frac_digits m)" for d
    using int_frac_digits(4) [of d m] d [of d] that by auto
  then show ?thesis unfolding canon_digits by (auto simp: is_ascii_def list_all_iff)
qed

lemma canon_reads: "canonical m \<Longrightarrow> money_parse (chars (canon m)) = Some m"
  by (simp add: money_parse_def canon_ascii try_parse_canon)

lemma enum_texts:
  "is_ascii (side_value sd)" "is_ascii (right_code ri)" "is_ascii (order_type_value ot)" "is_ascii (order_state_value os)"
  "is_ascii (tif_value tf)" "is_ascii (kind_value k)"
proof -
  show "is_ascii (side_value sd)" by (cases sd) (simp_all add: is_ascii_def)
  show "is_ascii (right_code ri)" by (cases ri) (simp_all add: is_ascii_def)
  show "is_ascii (order_type_value ot)" by (cases ot) (simp_all add: is_ascii_def)
  show "is_ascii (order_state_value os)" by (cases os) (simp_all add: is_ascii_def)
  show "is_ascii (tif_value tf)" by (cases tf) (simp_all add: is_ascii_def)
  show "is_ascii (kind_value k)" by (cases k) (simp_all add: is_ascii_def)
qed

lemma enum_reads:
  "side_parse (side_value sd) = Some sd" "right_from_code (right_code ri) = Some ri" "order_type_parse (order_type_value ot) = Some ot"
  "order_state_parse (order_state_value os) = Some os" "tif_parse (tif_value tf) = Some tf"
proof -
  show "side_parse (side_value sd) = Some sd" by (cases sd) (simp_all add: side_parse_def)
  show "right_from_code (right_code ri) = Some ri" by (cases ri) (simp_all add: right_from_code_def)
  show "order_type_parse (order_type_value ot) = Some ot" by (cases ot) (simp_all add: order_type_parse_def)
  show "order_state_parse (order_state_value os) = Some os" by (cases os) (simp_all add: order_state_parse_def)
  show "tif_parse (tif_value tf) = Some tf" by (cases tf) (simp_all add: tif_parse_def)
qed

lemma kind_reads: "kind_parse (kind_value k) = Some k"
  by (cases k; simp add: kind_parse_def ALL_KINDS_def)

subsection \<open>The fields in any order\<close>

definition bound_by :: "(string \<times> bool) list \<Rightarrow> (string \<rightharpoonup> val) \<Rightarrow> bool" where
  "bound_by spec m \<longleftrightarrow> dom m \<subseteq> fst ` set spec \<and> (\<forall>p\<in>set spec. snd p \<longrightarrow> fst p \<in> dom m)"

lemma kw_bind_Ok_iff: "kw_bind tag f spec = Ok g \<longleftrightarrow> bound_by spec (map_of f) \<and> g = f"
proof -
  have "find (\<lambda>(k, _). k \<notin> fst ` set spec) f = None \<longleftrightarrow> dom (map_of f) \<subseteq> fst ` set spec"
    unfolding find_None_iff dom_map_of_conv_image_fst by force
  moreover have "find (\<lambda>(n, required). required \<and> n \<notin> fst ` set f) spec = None
      \<longleftrightarrow> (\<forall>p\<in>set spec. snd p \<longrightarrow> fst p \<in> dom (map_of f))"
    unfolding find_None_iff dom_map_of_conv_image_fst by force
  ultimately show ?thesis unfolding kw_bind_def bound_by_def by (auto simp: lerr_def split: option.splits)
qed

lemma kw_bind_then: "and_then (kw_bind tag f spec) r = Ok v \<longleftrightarrow> bound_by spec (map_of f) \<and> r f = Ok v"
  by (auto simp: kw_bind_Ok_iff)

lemmas reads_fields = kw_bind_then kw_req_def kw_take_def x_opt_def

text \<open>A constructor that answers, answers the same for the same fields in another order.\<close>

lemma build_same:
  assumes "map_of f = map_of g"
  shows
    "build_equity x f = Ok r0 \<Longrightarrow> build_equity x g = Ok r0"
    "build_option x f = Ok r1 \<Longrightarrow> build_option x g = Ok r1"
    "build_combo f = Ok r2 \<Longrightarrow> build_combo g = Ok r2"
    "build_combo_leg f = Ok r3 \<Longrightarrow> build_combo_leg g = Ok r3"
    "build_fill f = Ok r4 \<Longrightarrow> build_fill g = Ok r4"
    "build_lot f = Ok r5 \<Longrightarrow> build_lot g = Ok r5"
    "build_signal f = Ok r6 \<Longrightarrow> build_signal g = Ok r6"
    "build_risk_verdict f = Ok r7 \<Longrightarrow> build_risk_verdict g = Ok r7"
    "build_risk_control f = Ok r8 \<Longrightarrow> build_risk_control g = Ok r8"
    "build_risk_rule f = Ok r9 \<Longrightarrow> build_risk_rule g = Ok r9"
    "build_order f = Ok r10 \<Longrightarrow> build_order g = Ok r10"
    "build_state_change f = Ok r11 \<Longrightarrow> build_state_change g = Ok r11"
    "build_orders_created f = Ok r12 \<Longrightarrow> build_orders_created g = Ok r12"
    "build_order_updated f = Ok r13 \<Longrightarrow> build_order_updated g = Ok r13"
    "build_emulated f = Ok r14 \<Longrightarrow> build_emulated g = Ok r14"
    "build_cash_flow f = Ok r15 \<Longrightarrow> build_cash_flow g = Ok r15"
    "build_mark f = Ok r16 \<Longrightarrow> build_mark g = Ok r16"
    "build_reconcile f = Ok r17 \<Longrightarrow> build_reconcile g = Ok r17"
    "build_halt_cleared f = Ok r18 \<Longrightarrow> build_halt_cleared g = Ok r18"
    "build_eod_run f = Ok r19 \<Longrightarrow> build_eod_run g = Ok r19"
    "build_lifecycle f = Ok r20 \<Longrightarrow> build_lifecycle g = Ok r20"
    "build_corporate_action f = Ok r21 \<Longrightarrow> build_corporate_action g = Ok r21"
    "build_mirror_alloc f = Ok r22 \<Longrightarrow> build_mirror_alloc g = Ok r22"
    "build_mirror_queued f = Ok r23 \<Longrightarrow> build_mirror_queued g = Ok r23"
    "build_mirror_refused f = Ok r24 \<Longrightarrow> build_mirror_refused g = Ok r24"
    "build_mirror_ack f = Ok r25 \<Longrightarrow> build_mirror_ack g = Ok r25"
    "build_mirror_fill f = Ok r26 \<Longrightarrow> build_mirror_fill g = Ok r26"
  using assms
  by (simp_all only: build_equity_def build_option_def build_combo_def build_combo_leg_def build_fill_def build_lot_def build_signal_def build_risk_verdict_def build_risk_control_def build_risk_rule_def build_order_def build_state_change_def build_orders_created_def build_order_updated_def build_emulated_def build_cash_flow_def build_mark_def build_reconcile_def build_halt_cleared_def build_eod_run_def build_lifecycle_def build_corporate_action_def build_mirror_alloc_def build_mirror_queued_def build_mirror_refused_def build_mirror_ack_def build_mirror_fill_def reads_fields)

lemma build_any_order: "map_of f = map_of g \<Longrightarrow> build x tag f = Ok v \<Longrightarrow> build x tag g = Ok v"
  by (auto simp: build_def as_obj_def codec_err_def lerr_def dest: build_same split: if_splits)

subsection \<open>The keys of a document in order\<close>

lemma map_of_sorted:
  assumes "distinct (map fst ps)"
  shows "map_of (sort_key fst ps) = map_of ps"
proof -
  have "distinct (map fst (sort_key fst ps))" using assms by (simp add: distinct_map inj_on_def)
  then show ?thesis using assms by (subst map_of_inject_set) simp_all
qed

lemma sort_keys_get:
  assumes "distinct (map fst ps)" "sort_keys (JObj ps) = JObj qs"
  shows "map_of qs k = map_option sort_keys (map_of ps k)"
proof -
  have "map_of qs = map_of (map (\<lambda>(k, v). (k, sort_keys v)) (sort_key fst ps))" using assms(2) by simp
  also have "\<dots> = map_option sort_keys \<circ> map_of (sort_key fst ps)" by (rule map_of_map)
  finally show ?thesis by (simp add: map_of_sorted [OF assms(1)])
qed

lemma sorted_pairs:
  assumes "list_all2 R xs ys" "\<And>a b. R a b \<Longrightarrow> fst a = fst b"
  shows "list_all2 R (sort_key fst xs) (sort_key fst ys)"
proof -
  have ins: "list_all2 R (insort_key fst a as) (insort_key fst b bs)" if "R a b" "list_all2 R as bs" for a b as bs
    using that(2) by (induction rule: list_all2_induct) (auto simp: that(1) assms(2) [OF that(1)] dest: assms(2))
  show ?thesis using assms(1) by (induction rule: list_all2_induct) (simp_all add: ins)
qed

subsection \<open>Values the codec reads back\<close>

definition decodes :: "externals \<Rightarrow> val \<Rightarrow> bool" where
  "decodes x v \<longleftrightarrow> (\<exists>j. enc_val v = Ok j \<and> json_ok j \<and> decode x (sort_keys j) = Ok v)"

inductive wf_val :: "externals \<Rightarrow> val \<Rightarrow> bool" for x where
  wf_none: "wf_val x VNone"
| wf_bool: "wf_val x (VBool b)"
| wf_int: "in_i128 i \<Longrightarrow> wf_val x (VInt i)"
| wf_str: "valid_utf8 s \<Longrightarrow> wf_val x (VStr s)"
| wf_dec: "canonical d \<Longrightarrow> wf_val x (VDec d)"
| wf_dt: "iso_date_time x t \<Longrightarrow> wf_val x (VDateTime t)"
| wf_date: "iso_date x e \<Longrightarrow> wf_val x (VDate e)"
| wf_side: "wf_val x (VSide sd)"
| wf_right: "wf_val x (VRight r)"
| wf_order_type: "wf_val x (VOrderType ot)"
| wf_order_state: "wf_val x (VOrderState os)"
| wf_tif: "wf_val x (VTif tf)"
| wf_kind: "wf_val x (VKind k)"
| wf_tuple: "\<forall>v\<in>set vs. wf_val x v \<Longrightarrow> wf_val x (VTuple vs)"
| wf_map: "distinct (map fst m) \<Longrightarrow> \<forall>p\<in>set m. valid_utf8 (fst p) \<and> wf_val x (snd p) \<Longrightarrow> wf_val x (VMap m)"
| wf_obj: "build x (obj_tag ob) (obj_fields ob) = Ok (VObj ob) \<Longrightarrow> \<forall>p\<in>set (obj_fields ob). wf_val x (snd p) \<Longrightarrow> wf_val x (VObj ob)"

lemma tagged_decode:
  "decode x (sort_keys jnone) = Ok VNone"
  "canonical d \<Longrightarrow> decode x (sort_keys (jdec d)) = Ok (VDec d)"
  "iso_date_time x t \<Longrightarrow> decode x (sort_keys (jdt t)) = Ok (VDateTime t)"
  "iso_date x e \<Longrightarrow> decode x (sort_keys (jdate e)) = Ok (VDate e)"
  by (simp_all add: jnone_def jdec_def jdt_def jdate_def tagged_def decode.simps(6) decode_dec_def canon_reads iso_str_def
      iso_reads date_reads)

lemma jenum_decode: "n \<in> set ENUMS \<Longrightarrow> decode x (sort_keys (jenum n w)) = decode_enum (JStr n) (Some (JStr w))"
  by (simp add: jenum_def decode.simps(6))

lemma enum_decode:
  "decode x (sort_keys (jenum ''Side'' (side_value sd))) = Ok (VSide sd)"
  "decode x (sort_keys (jenum ''OptionRight'' (right_code ri))) = Ok (VRight ri)"
  "decode x (sort_keys (jenum ''OrderType'' (order_type_value ot))) = Ok (VOrderType ot)"
  "decode x (sort_keys (jenum ''OrderState'' (order_state_value os))) = Ok (VOrderState os)"
  "decode x (sort_keys (jenum ''TimeInForce'' (tif_value tf))) = Ok (VTif tf)"
  "decode x (sort_keys (jenum ''EventKind'' (kind_value k))) = Ok (VKind k)"
  by (simp_all add: jenum_decode ENUMS_def decode_enum_def enum_parse_def enum_reads kind_reads)

lemma ascii_keys: "list_all is_ascii [''n'', ''d'', ''T'', ''D'', ''e'', ''v'', ''t'', ''m'', ''dc'', ''f'']"
  "list_all is_ascii ENUMS" "list_all is_ascii TAGS"
  by code_simp+

lemma key_utf8 [simp]: "valid_utf8 ''n''" "valid_utf8 ''d''" "valid_utf8 ''T''" "valid_utf8 ''D''" "valid_utf8 ''e''" "valid_utf8 ''v''"
  "valid_utf8 ''t''" "valid_utf8 ''m''" "valid_utf8 ''dc''" "valid_utf8 ''f''"
  using ascii_keys(1) by (simp_all add: ascii_utf8)

lemma enum_ok: "n \<in> set ENUMS \<Longrightarrow> is_ascii w \<Longrightarrow> json_ok (jenum n w)"
  using ascii_keys(2) by (simp add: jenum_def ascii_utf8 list_all_iff)

lemma atoms_ok:
  "json_ok jnone" "json_ok (jdec d)" "iso_date_time x t \<Longrightarrow> json_ok (jdt t)" "iso_date x e \<Longrightarrow> json_ok (jdate e)"
  "json_ok (jenum ''Side'' (side_value sd))" "json_ok (jenum ''OptionRight'' (right_code ri))"
  "json_ok (jenum ''OrderType'' (order_type_value ot))" "json_ok (jenum ''OrderState'' (order_state_value os))"
  "json_ok (jenum ''TimeInForce'' (tif_value tf))" "json_ok (jenum ''EventKind'' (kind_value k))"
  by (simp_all add: jnone_def jdec_def jdt_def jdate_def tagged_def ascii_utf8 canon_is_ascii iso_reads date_reads enum_ok
      ENUMS_def enum_texts)

lemma tuple_decodes:
  assumes "\<forall>v\<in>set vs. decodes x v"
  shows "decodes x (VTuple vs)"
proof -
  have "\<forall>v\<in>set vs. \<exists>j. enc_val v = Ok j \<and> json_ok j \<and> decode x (sort_keys j) = Ok v" using assms by (simp add: decodes_def)
  then obtain g where g: "\<forall>v\<in>set vs. enc_val v = Ok (g v) \<and> json_ok (g v) \<and> decode x (sort_keys (g v)) = Ok v" by metis
  have "map_r enc_val vs = Ok (map g vs)" "map_r (decode x) (map sort_keys (map g vs)) = Ok vs"
    using g by (auto intro!: map_r_OkI simp: list_all2_conv_all_nth)
  moreover have "decode x (sort_keys (jtuple (map g vs))) = and_then (map_r (decode x) (map sort_keys (map g vs))) (\<lambda>vs. Ok (VTuple vs))"
    by (simp add: jtuple_def tagged_def decode.simps(6))
  ultimately show ?thesis using g by (auto simp: decodes_def jtuple_def tagged_def)
qed

lemma put_val_new: "key \<notin> fst ` set ps \<Longrightarrow> put_val ps key v = ps @ [(key, v)]"
  by (induction ps key v rule: put_val.induct) auto

lemma entries_fold:
  assumes "distinct (map fst (out @ m))" "\<forall>p\<in>set m. decode x (g p) = Ok (snd p)"
  shows "fold_r (\<lambda>out it. case map_entry it of Err e \<Rightarrow> Err e
      | Ok (key, j) \<Rightarrow> (case decode x j of Err e \<Rightarrow> Err e | Ok v \<Rightarrow> Ok (put_val out key v)))
    out (map (\<lambda>p. JArr [JStr (fst p), g p]) m) = Ok (out @ m)"
  using assms
proof (induction m arbitrary: out)
  case (Cons p m)
  then have "put_val out (fst p) (snd p) = out @ [p]" by (subst put_val_new) auto
  then show ?case using Cons.IH [of "out @ [p]"] Cons.prems by simp
qed simp

lemma map_decodes:
  assumes "distinct (map fst m)" "\<forall>p\<in>set m. valid_utf8 (fst p) \<and> decodes x (snd p)"
  shows "decodes x (VMap m)"
proof -
  have "\<forall>p\<in>set m. \<exists>j. enc_val (snd p) = Ok j \<and> json_ok j \<and> decode x (sort_keys j) = Ok (snd p)"
    using assms(2) by (simp add: decodes_def)
  then obtain g where g: "\<forall>p\<in>set m. enc_val (snd p) = Ok (g p) \<and> json_ok (g p) \<and> decode x (sort_keys (g p)) = Ok (snd p)"
    by metis
  let ?js = "map (\<lambda>p. JArr [JStr (fst p), g p]) m"
  have "map_r (\<lambda>p. and_then (enc_val (snd p)) (\<lambda>j. Ok (JArr [JStr (fst p), j]))) m = Ok ?js"
    using g by (auto intro!: map_r_OkI simp: list_all2_conv_all_nth)
  then have "enc_val (VMap m) = Ok (tagged ''m'' (JArr ?js))" by simp
  moreover have "json_ok (tagged ''m'' (JArr ?js))" using g assms(2) by (auto simp: tagged_def)
  moreover have "map sort_keys ?js = map (\<lambda>p. JArr [JStr (fst p), sort_keys (g p)]) m" by simp
  then have "decode x (sort_keys (tagged ''m'' (JArr ?js))) = Ok (VMap m)"
    using entries_fold [of "[]" m x "\<lambda>p. sort_keys (g p)"] assms(1) g by (simp add: tagged_def decode.simps(6) comp_def)
  ultimately show ?thesis by (auto simp: decodes_def)
qed

lemma obj_keys: "distinct (map fst (obj_fields ob))" "list_all is_ascii (map fst (obj_fields ob))"
proof -
  show "distinct (map fst (obj_fields ob))" by (cases ob rule: obj_fields.cases) simp_all
  show "list_all is_ascii (map fst (obj_fields ob))" by (cases ob rule: obj_fields.cases) (simp_all add: is_ascii_def)
qed

lemma build_tag: "build x tag f = Ok v \<Longrightarrow> tag \<in> set TAGS"
  by (auto simp: build_def TAGS_def codec_err_def lerr_def split: if_splits)

lemma future_tag: "obj_tag (OInstr (Future fu)) \<notin> set TAGS"
  by (simp add: TAGS_def)

lemma dc_decode:
  assumes "t \<in> set TAGS" "distinct (map fst js)" "list_all2 (\<lambda>p q. fst p = fst q \<and> decode x (sort_keys (snd p)) = Ok (snd q)) js fs"
  shows "decode x (sort_keys (dc t js)) = map_err (wrap_err t) (build x t (sort_key fst fs))"
proof -
  let ?ps = "map (\<lambda>(k, v). (k, sort_keys v)) (sort_key fst js)"
  have "list_all2 (\<lambda>p q. fst p = fst q \<and> decode x (sort_keys (snd p)) = Ok (snd q)) (sort_key fst js) (sort_key fst fs)"
    by (rule sorted_pairs [OF assms(3)]) simp
  then have "map_r (\<lambda>p. case decode x (snd p) of Err e \<Rightarrow> Err e | Ok v \<Rightarrow> Ok (fst p, v)) ?ps = Ok (sort_key fst fs)"
    by (intro map_r_OkI) (auto simp: list_all2_conv_all_nth split_beta)
  then show ?thesis using assms(1) by (simp add: dc_def decode.simps(6) tag_of_def)
qed

lemma obj_decodes:
  assumes "build x (obj_tag ob) (obj_fields ob) = Ok (VObj ob)" "\<forall>p\<in>set (obj_fields ob). decodes x (snd p)"
  shows "decodes x (VObj ob)"
proof -
  let ?fs = "obj_fields ob"
  have tag: "obj_tag ob \<in> set TAGS" using assms(1) by (rule build_tag)
  have "\<forall>p\<in>set ?fs. \<exists>j. enc_val (snd p) = Ok j \<and> json_ok j \<and> decode x (sort_keys j) = Ok (snd p)"
    using assms(2) by (simp add: decodes_def)
  then obtain g where g: "\<forall>p\<in>set ?fs. enc_val (snd p) = Ok (g p) \<and> json_ok (g p) \<and> decode x (sort_keys (g p)) = Ok (snd p)"
    by metis
  let ?js = "map (\<lambda>p. (fst p, g p)) ?fs"
  have "map_r enc_field ?fs = Ok ?js" using g by (auto intro!: map_r_OkI simp: list_all2_conv_all_nth enc_field_def)
  moreover have "ob \<noteq> OInstr (Future fu)" for fu using tag future_tag by metis
  ultimately have enc: "enc_val (VObj ob) = Ok (dc (obj_tag ob) ?js)" by (simp add: enc_obj_fields)
  have "valid_utf8 (obj_tag ob)" using tag ascii_keys(3) by (simp add: list_all_iff ascii_utf8)
  moreover have "valid_utf8 (fst p)" if "p \<in> set ?fs" for p
    using that obj_keys(2) [of ob] by (simp add: list_all_iff ascii_utf8)
  ultimately have "json_ok (dc (obj_tag ob) ?js)" using g obj_keys(1) [of ob] by (auto simp: dc_def comp_def)
  moreover have "list_all2 (\<lambda>p q. fst p = fst q \<and> decode x (sort_keys (snd p)) = Ok (snd q)) ?js ?fs"
    using g by (auto simp: list_all2_conv_all_nth)
  then have "decode x (sort_keys (dc (obj_tag ob) ?js)) = map_err (wrap_err (obj_tag ob)) (build x (obj_tag ob) (sort_key fst ?fs))"
    using tag obj_keys(1) [of ob] by (intro dc_decode) (simp_all add: comp_def)
  moreover have "build x (obj_tag ob) (sort_key fst ?fs) = Ok (VObj ob)"
    using map_of_sorted [OF obj_keys(1)] assms(1) by (rule build_any_order [OF sym])
  ultimately show ?thesis using enc by (auto simp: decodes_def)
qed

lemma wf_decodes: "wf_val x v \<Longrightarrow> decodes x v"
proof (induction rule: wf_val.induct)
  case (wf_tuple vs)
  then show ?case by (auto intro: tuple_decodes)
next
  case (wf_map m)
  then show ?case by (auto intro: map_decodes)
next
  case (wf_obj ob)
  then show ?case by (auto intro: obj_decodes)
qed (simp_all add: decodes_def tagged_decode enum_decode atoms_ok)

end
