(* ===== verification/Codec_Props.thy ===== *)
theory Codec_Props
  imports Codec_Read
begin

section \<open>An event survives the ledger's bytes\<close>

text \<open>
  An event whose payload is one of its constructor's and whose values have a text is written, and its
  bytes are read back to the event itself. The document is written in ASCII, so the bytes are UTF-8.
\<close>

subsection \<open>The text of a document is ASCII\<close>

lemma ascii_append [simp]: "is_ascii (s @ t) \<longleftrightarrow> is_ascii s \<and> is_ascii t"
  by (simp add: is_ascii_def)

lemma ascii_Cons [simp]: "is_ascii (c # t) \<longleftrightarrow> of_char c < (128::nat) \<and> is_ascii t"
  by (simp add: is_ascii_def)

lemma ascii_Nil [simp]: "is_ascii []"
  by (simp add: is_ascii_def)

lemma ascii_concat: "\<forall>s\<in>set ss. is_ascii s \<Longrightarrow> is_ascii (concat ss)"
  by (induction ss) simp_all

lemma ascii_commas: "\<forall>s\<in>set ss. is_ascii s \<Longrightarrow> is_ascii (commas ss)"
  by (induction ss rule: commas.induct) simp_all

lemma hex_digits_ascii: "is_ascii (hex_digits n)"
proof (induction n rule: hex_digits.induct)
  case (1 n)
  have "of_char (hex_char d) < (128::nat)" if "d < 16" for d using that by (simp add: hex_char_def)
  then show ?case using 1 by (subst hex_digits.simps) simp
qed

lemma hex_pad_ascii: "is_ascii (hex_pad w n)"
proof -
  have "is_ascii (replicate k (CHR ''0''))" for k by (induction k) simp_all
  then show ?thesis by (simp add: hex_pad_def Let_def hex_digits_ascii)
qed

lemma write_char_ascii: "is_ascii (write_char c)"
  by (simp add: write_char_def Let_def hex_pad_ascii BACKSLASH_def QUOTE_def of_chars_ascii)

lemma write_str_ascii: "is_ascii (write_str s)"
  by (auto simp: write_str_def QUOTE_def write_char_ascii intro!: ascii_concat)

lemma int_text_ascii: "is_ascii (int_to_string n)"
  using nat_text_digits [of "nat \<bar>n\<bar>"]
  by (auto simp: int_to_string_def is_ascii_def list_all_iff is_dig_def byte_def)

lemma dumps_ascii: "json_ok j \<Longrightarrow> is_ascii (dumps j)"
proof (induction j rule: dumps.induct)
  case (4 t)
  then show ?case using int_text_ascii [of "int_text_value t"] by simp
next
  case (7 items)
  then show ?case by (auto intro!: ascii_commas)
next
  case (8 pairs)
  then have "is_ascii (dumps v)" if "(k, v) \<in> set pairs" for k v using that by force
  then show ?case by (auto intro!: ascii_commas simp: write_str_ascii)
qed (auto simp: write_str_ascii int_text_ascii)

subsection \<open>Events\<close>

definition wf_event :: "externals \<Rightarrow> event \<Rightarrow> bool" where
  "wf_event x e \<longleftrightarrow>
     check_event e = Ok () \<and> wf_val x (VObj (ev_payload e)) \<and> iso_date_time x (ev_ts_utc e) \<and> to_utc x (ev_ts_utc e) = Ok (ev_ts_utc e)
     \<and> valid_utf8 (ev_account e) \<and> (\<forall>c. ev_command_id e = Some c \<longrightarrow> valid_utf8 c)
     \<and> in_i128 (ev_schema_version e) \<and> (\<forall>n. ev_seq e = Some n \<longrightarrow> in_i128 n)"

lemma check_event_parts:
  assumes "check_event e = Ok ()"
  shows "ev_account e \<noteq> []" "ev_command_id e \<noteq> Some []" "0 < ev_schema_version e"
  using assms by (auto simp: check_event_def lerr_def split: if_splits)

lemma event_keys: "list_all is_ascii [''account'', ''kind'', ''payload'', ''ts_utc'', ''command_id'', ''schema_version'', ''seq'']"
  by code_simp

lemma event_reads:
  assumes "wf_event x e"
  obtains j where "encode_event x e = Ok j" "json_ok j" "decode_event x (sort_keys j) = Ok e"
proof -
  note wf = assms [unfolded wf_event_def]
  obtain p where p: "enc_obj (ev_payload e) = Ok p" "json_ok p" "decode x (sort_keys p) = Ok (VObj (ev_payload e))"
    using wf_decodes [of x "VObj (ev_payload e)"] wf by (auto simp: decodes_def)
  let ?ps = "[(''account'', JStr (ev_account e)), (''kind'', JStr (kind_value (ev_kind e))), (''payload'', p),
        (''ts_utc'', JStr (dt_iso (ev_ts_utc e))),
        (''command_id'', case ev_command_id e of None \<Rightarrow> JNull | Some c \<Rightarrow> JStr c),
        (''schema_version'', JInt (ev_schema_version e)),
        (''seq'', case ev_seq e of None \<Rightarrow> JNull | Some n \<Rightarrow> JInt n)]"
  have enc: "encode_event x e = Ok (JObj ?ps)" using p wf by (simp add: encode_event_def)
  have iso: "parse_datetime x (dt_iso (ev_ts_utc e)) = Ok (ev_ts_utc e, True)" "is_ascii (dt_iso (ev_ts_utc e))"
    using iso_reads wf by blast+
  have ok: "json_ok (JObj ?ps)"
    using p(2) wf iso(2) event_keys by (auto simp: ascii_utf8 enum_texts split: option.splits)
  obtain qs where qs: "sort_keys (JObj ?ps) = JObj qs" by simp
  have get: "map_of qs k = map_option sort_keys (map_of ?ps k)" for k
    by (rule sort_keys_get [OF _ qs]) simp
  have cmd: "command_of (Some (sort_keys (case ev_command_id e of None \<Rightarrow> JNull | Some c \<Rightarrow> JStr c))) = Ok (ev_command_id e)"
    using check_event_parts(2) [of e] wf by (auto simp: command_of_def split: option.splits)
  have sq: "seq_of v (Some (sort_keys (case ev_seq e of None \<Rightarrow> JNull | Some n \<Rightarrow> JInt n))) = Ok (ev_seq e)" for v
    by (simp add: seq_of_def split: option.splits)
  have whole: "\<lparr>ev_account = ev_account e, ev_kind = ev_kind e, ev_payload = ev_payload e, ev_ts_utc = ev_ts_utc e,
      ev_command_id = ev_command_id e, ev_schema_version = ev_schema_version e, ev_seq = ev_seq e\<rparr> = e" by simp
  have "decode_event x (JObj qs) = Ok e"
    using check_event_parts [of e] wf p(3) iso(1)
    by (simp add: decode_event_def get cmd sq kind_of_def kind_reads iso_str_def schema_of_def guard_r_def Let_def whole
        del: and_then_Ok_iff)
  then show thesis using that enc ok qs by metis
qed

text \<open>
  C37. An event that its constructors accept and whose values have a text (UTF-8 strings, 128-bit integers,
  canonical amounts, dates the calendar knows, an instant in UTC) is written to a document; when the
  document is not nested too deep for the reader, its bytes are read back to the event itself, field by field
  through the validating constructors, and encoding it again gives the same bytes.
\<close>

theorem event_roundtrip:
  assumes "wf_event x e"
  shows "\<exists>j. encode_event x e = Ok j \<and>
    (nesting j \<le> MAX_DEPTH \<longrightarrow>
      event_to_bytes x e = Ok (dumps j) \<and> event_from_bytes x (dumps j) = Ok e \<and> reencode x (dumps j) = Ok (dumps j))"
proof -
  obtain j where j: "encode_event x e = Ok j" "json_ok j" "decode_event x (sort_keys j) = Ok e"
    using event_reads [OF assms] .
  have bytes: "event_to_bytes x e = Ok (dumps j)" using j(1) by (simp add: event_to_bytes_def)
  have "event_from_bytes x (dumps j) = Ok e" if "nesting j \<le> MAX_DEPTH"
    using json_reads [OF j(2) that] j(3) dumps_ascii [OF j(2)] by (simp add: event_from_bytes_def ascii_utf8)
  then show ?thesis using j(1) bytes by (auto simp: reencode_def)
qed

text \<open>A limit order for an option and its fill, with an account name outside ASCII.\<close>

definition s_contract :: instrument where
  "s_contract = OptionI \<lparr>oc_underlying = ''AAPL'', oc_expiry = \<lparr>nd_year = 2024, nd_month = 3, nd_day = 15\<rparr>,
     oc_strike = usd 1725 1, oc_right = Call, oc_multiplier = 100\<rparr>"

definition s_option_order :: order where
  "s_option_order = s_order\<lparr>o_account_id := of_chars [0xE9], o_instrument := s_contract\<rparr>"

definition s_option_event :: event where
  "s_option_event = (s_event 1 KOrderSubmitted (OOrder s_option_order))\<lparr>ev_account := of_chars [0xE9]\<rparr>"

lemma s_wf_contract: "wf_val sample_ext (VObj (OInstr s_contract))"
proof (rule wf_obj)
  show "build sample_ext (obj_tag (OInstr s_contract)) (obj_fields (OInstr s_contract)) = Ok (VObj (OInstr s_contract))"
    by code_simp
  have "iso_date sample_ext \<lparr>nd_year = 2024, nd_month = 3, nd_day = 15\<rparr>" by code_simp
  moreover have "canonical (usd 1725 1)" "valid_utf8 ''AAPL''" "in_i128 100" by code_simp+
  ultimately show "\<forall>p\<in>set (obj_fields (OInstr s_contract)). wf_val sample_ext (snd p)"
    by (simp add: s_contract_def wf_val.intros)
qed

lemma s_noon_wf: "iso_date_time sample_ext noon"
  by code_simp

lemma s_wf_order: "wf_val sample_ext (VObj (OOrder s_option_order))"
proof (rule wf_obj)
  show "build sample_ext (obj_tag (OOrder s_option_order)) (obj_fields (OOrder s_option_order)) = Ok (VObj (OOrder s_option_order))"
    by code_simp
  have "canonical (usd 10 0)" "canonical (usd 101 0)" "valid_utf8 ''o1''" "valid_utf8 (of_chars [0xE9])" "valid_utf8 ''c1''"
    by code_simp+
  then show "\<forall>p\<in>set (obj_fields (OOrder s_option_order)). wf_val sample_ext (snd p)"
    using s_noon_wf s_wf_contract by (simp add: s_option_order_def s_order_def vopt_def wf_val.intros)
qed

lemma s_wf_event: "wf_event sample_ext s_option_event"
proof -
  have "check_event s_option_event = Ok ()" "to_utc sample_ext noon = Ok noon" "valid_utf8 (of_chars [0xE9])" "in_i128 1"
    by code_simp+
  then show ?thesis using s_wf_order s_noon_wf by (simp add: wf_event_def s_option_event_def s_event_def)
qed

definition s_document :: json where
  "s_document = (case encode_event sample_ext s_option_event of Ok j \<Rightarrow> j | Err _ \<Rightarrow> JNull)"

theorem event_roundtrip_witness:
  "wf_event sample_ext s_option_event \<and> event_to_bytes sample_ext s_option_event = Ok (dumps s_document)
   \<and> event_from_bytes sample_ext (dumps s_document) = Ok s_option_event
   \<and> reencode sample_ext (dumps s_document) = Ok (dumps s_document)"
proof -
  have "nesting s_document \<le> MAX_DEPTH" by code_simp
  moreover obtain j where j: "encode_event sample_ext s_option_event = Ok j" "nesting j \<le> MAX_DEPTH \<longrightarrow>
      event_to_bytes sample_ext s_option_event = Ok (dumps j) \<and> event_from_bytes sample_ext (dumps j) = Ok s_option_event
      \<and> reencode sample_ext (dumps j) = Ok (dumps j)"
    using event_roundtrip [OF s_wf_event] by blast
  moreover have "s_document = j" using j(1) by (simp add: s_document_def)
  ultimately show ?thesis using s_wf_event by simp
qed

end
