(* ===== verification/Risk.thy ===== *)
theory Risk
  imports Calendar "HOL-Library.Char_ord" "HOL-Library.List_Lexorder"
begin

section \<open>The account risk rules: \<open>risk.rs\<close>\<close>

text \<open>
  Configuration, trading hours, venue rails and the evaluation of a sized intent. A \<open>Decimal\<close> of
  \<open>rust_decimal\<close> is its sign, mantissa and scale, as in \<open>Money\<close>; it is compared by value. Its
  multiplication, division, rounding and text are fields of \<open>risk_ext\<close>, as are the time zones of \<open>chrono_tz\<close>
  (a zone is its name) and the range of its timestamps. A local time is the microsecond of the day.
  A document of \<open>serde_json\<close> is the tree \<open>jvalue\<close>: a number carries what \<open>as_i64\<close> answers of it, an object
  its entries. \<open>i64\<close> and \<open>i128\<close> are \<open>int\<close>; the one subtraction that can leave 64 bits wraps, as it does in
  a release build.
\<close>

subsection \<open>Outside the repository, and errors\<close>

record risk_ext =
  rk_ext :: externals
  rd_checked_mul :: "money \<Rightarrow> money \<Rightarrow> money option"
  rd_checked_div :: "money \<Rightarrow> money \<Rightarrow> money option"
  rd_floor :: "money \<Rightarrow> money"
  rd_to_i128 :: "money \<Rightarrow> int option"
  rd_from_str :: "string \<Rightarrow> money option"
  tz_known :: "string \<Rightarrow> bool"
  micros_in_range :: "int \<Rightarrow> bool"
  tz_local :: "string \<Rightarrow> int \<Rightarrow> naive_date \<times> nat"

datatype risk_error = RConfig string | RValue string

type_synonym 'a rres = "('a, risk_error) result"

fun risk_message :: "risk_error \<Rightarrow> string" where
  "risk_message (RConfig m) = m"
| "risk_message (RValue m) = m"

fun risk_kind :: "risk_error \<Rightarrow> string" where
  "risk_kind (RConfig m) = ''config''"
| "risk_kind (RValue m) = ''value''"

definition rcfg :: "string \<Rightarrow> 'a rres" where "rcfg m = Err (RConfig m)"
definition rval :: "string \<Rightarrow> 'a rres" where "rval m = Err (RValue m)"

subsection \<open>Decimal text as Python reads it\<close>

datatype parsed = Finite money | NonFinite | Invalid

definition strip_prefix :: "string \<Rightarrow> string \<Rightarrow> string option" where
  "strip_prefix p s = (if take (length p) s = p then Some (drop (length p) s) else None)"

definition starts_with :: "string \<Rightarrow> string \<Rightarrow> bool" where
  "starts_with p s \<longleftrightarrow> take (length p) s = p"

definition ends_with :: "string \<Rightarrow> string \<Rightarrow> bool" where
  "ends_with p s \<longleftrightarrow> starts_with (rev p) (rev s)"

definition split_once :: "char \<Rightarrow> string \<Rightarrow> (string \<times> string) option" where
  "split_once c s =
     (let a = takeWhile (\<lambda>d. d \<noteq> c) s in if length a < length s then Some (a, drop (Suc (length a)) s) else None)"

definition to_ascii_lowercase :: "string \<Rightarrow> string" where
  "to_ascii_lowercase s = map (\<lambda>c. if is_upper (of_char c) then char_of (of_char c + 32 :: nat) else c) s"

definition US :: char where "US = CHR ''_''"

fun double_us :: "string \<Rightarrow> bool" where
  "double_us (c # d # s) = (c = US \<and> d = US \<or> double_us (d # s))"
| "double_us _ = False"

definition digits_ok :: "string \<Rightarrow> bool" where
  "digits_ok s \<longleftrightarrow>
     s \<noteq> [] \<and> hd s \<noteq> US \<and> last s \<noteq> US \<and> \<not> double_us s \<and> list_all (\<lambda>c. digit_byte c \<or> c = US) s"

definition drop_us :: "string \<Rightarrow> string" where
  "drop_us s = filter (\<lambda>c. c \<noteq> US) s"

definition sign_split :: "string \<Rightarrow> bool \<times> string" where
  "sign_split t =
     (case strip_prefix ''-'' t of
        Some r \<Rightarrow> (True, r)
      | None \<Rightarrow> (False, case strip_prefix ''+'' t of Some r \<Rightarrow> r | None \<Rightarrow> t))"

definition nan_text :: "string \<Rightarrow> string \<Rightarrow> bool" where
  "nan_text p s = (case strip_prefix p s of Some rest \<Rightarrow> list_all digit_byte rest | None \<Rightarrow> False)"

definition i64_max :: int where "i64_max = 2 ^ 63 - 1"

definition wrap_i64 :: "int \<Rightarrow> int" where
  "wrap_i64 n = (n + 2 ^ 63) mod 2 ^ 64 - 2 ^ 63"

text \<open>The exponent: \<open>None\<close> when the text is not a literal.\<close>

definition py_exponent :: "string option \<Rightarrow> int option rres" where
  "py_exponent ex =
     (case ex of
        None \<Rightarrow> Ok (Some 0)
      | Some e \<Rightarrow>
          let (eneg, edigits) = sign_split e in
          if \<not> digits_ok edigits then Ok None
          else let n = int (num (drop_us edigits)) in
               if n > i64_max then rval ''decimal exponent out of range'' else Ok (Some (if eneg then - n else n)))"

definition TOO_LARGE :: string where "TOO_LARGE = ''decimal too large to represent exactly''"

fun scale_up :: "nat \<Rightarrow> int \<Rightarrow> int rres" where
  "scale_up 0 m = Ok m"
| "scale_up (Suc k) m = (if m * 10 > i128_max then rval TOO_LARGE else scale_up k (m * 10))"

definition try_from_i128_with_scale :: "int \<Rightarrow> nat \<Rightarrow> money option" where
  "try_from_i128_with_scale m s =
     (if nat \<bar>m\<bar> < MANTISSA_LIMIT \<and> s \<le> MAX_SCALE then Some \<lparr>neg_bit = m < 0, mantissa = nat \<bar>m\<bar>, scale = s\<rparr> else None)"

definition py_literal :: "bool \<Rightarrow> string \<Rightarrow> string \<Rightarrow> int \<Rightarrow> parsed rres" where
  "py_literal neg int_part frac_part exp10 =
     (let m0 = int (num (drop_us int_part @ drop_us frac_part));
          frac_len = int (length (drop_us frac_part));
          scale0 = wrap_i64 (frac_len - exp10)
      in if m0 > i128_max then rval TOO_LARGE
         else
           and_then (if scale0 < 0 then and_then (scale_up (nat (wrap_i64 (- scale0))) m0) (\<lambda>m. Ok (m, 0)) else Ok (m0, scale0)) (\<lambda>(m, s).
           let s = (if m = 0 then min s 28 else s) in
           if s > 28 then rval ''decimal has more than 28 fractional digits''
           else
             case try_from_i128_with_scale (if neg then - m else m) (nat s) of
               Some d \<Rightarrow> Ok (Finite d)
             | None \<Rightarrow> rval TOO_LARGE))"

definition parse_py_decimal :: "string \<Rightarrow> parsed rres" where
  "parse_py_decimal text =
     (let (neg, body) = sign_split (trim_str text); lower = to_ascii_lowercase body in
      if lower = ''inf'' \<or> lower = ''infinity'' then Ok NonFinite
      else if nan_text ''snan'' lower \<or> nan_text ''nan'' lower then Ok NonFinite
      else
        let (mant, ex) = (case split_once (CHR ''e'') lower of Some (m, e) \<Rightarrow> (m, Some e) | None \<Rightarrow> (lower, None));
            (int_part, frac_part) = (case split_once (CHR ''.'') mant of Some (i, f) \<Rightarrow> (i, f) | None \<Rightarrow> (mant, []))
        in
        if int_part = [] \<and> frac_part = [] then Ok Invalid
        else if int_part \<noteq> [] \<and> \<not> digits_ok int_part \<or> frac_part \<noteq> [] \<and> \<not> digits_ok frac_part then Ok Invalid
        else
          and_then (py_exponent ex) (\<lambda>e.
            case e of None \<Rightarrow> Ok Invalid | Some exp10 \<Rightarrow> py_literal neg int_part frac_part exp10))"

subsection \<open>Arithmetic\<close>

definition ck :: "money option \<Rightarrow> money rres" where
  "ck r = ok_or (RValue ''decimal arithmetic overflow'') r"

definition zero_scale :: "risk_ext \<Rightarrow> money \<Rightarrow> nat \<Rightarrow> money" where
  "zero_scale x r s = (if mantissa r = 0 \<and> scale r \<noteq> min s 28 then rd_rescale (rk_ext x) r (min s 28) else r)"

definition rk_mul :: "risk_ext \<Rightarrow> money \<Rightarrow> money \<Rightarrow> money rres" where
  "rk_mul x a b = and_then (ck (rd_checked_mul x a b)) (\<lambda>r. Ok (zero_scale x r (scale a + scale b)))"

definition rk_add :: "risk_ext \<Rightarrow> money \<Rightarrow> money \<Rightarrow> money rres" where
  "rk_add x a b = and_then (ck (rd_checked_add (rk_ext x) a b)) (\<lambda>r. Ok (zero_scale x r (max (scale a) (scale b))))"

definition rk_sub :: "risk_ext \<Rightarrow> money \<Rightarrow> money \<Rightarrow> money rres" where
  "rk_sub x a b = and_then (ck (rd_checked_sub (rk_ext x) a b)) (\<lambda>r. Ok (zero_scale x r (max (scale a) (scale b))))"

definition rk_div :: "risk_ext \<Rightarrow> money \<Rightarrow> money \<Rightarrow> money rres" where
  "rk_div x a b = (if mantissa b = 0 then rval ''decimal division by zero'' else ck (rd_checked_div x a b))"

definition decimal_new :: "nat \<Rightarrow> nat \<Rightarrow> money" where
  "decimal_new m s = \<lparr>neg_bit = False, mantissa = m, scale = s\<rparr>"

definition from_int :: "int \<Rightarrow> money option" where
  "from_int i = try_from_i128_with_scale i 0"

definition floor_whole :: "risk_ext \<Rightarrow> money \<Rightarrow> money rres" where
  "floor_whole x d =
     and_then (ok_or (RValue ''decimal arithmetic overflow'') (rd_to_i128 x (rd_floor x d))) (\<lambda>i. ck (from_int i))"

definition pymin :: "money \<Rightarrow> money \<Rightarrow> money" where
  "pymin a b = (if money_lt b a then b else a)"

fun strip_tens :: "nat \<Rightarrow> nat \<Rightarrow> nat \<times> nat" where
  "strip_tens 0 m = (m, 0)"
| "strip_tens (Suc k) m = (if m mod 10 = 0 \<and> m \<noteq> 0 then strip_tens k (m div 10) else (m, Suc k))"

definition div_100 :: "money \<Rightarrow> money rres" where
  "div_100 d =
     (if scale d + 2 > 28 then rval ''decimal has more than 28 fractional digits''
      else
        let (m, k) = strip_tens 2 (mantissa d); s = (if m = 0 then scale d else scale d + k) in
        ck (try_from_i128_with_scale (if neg_bit d then - int m else int m) s))"

definition dec_neg :: "money \<Rightarrow> money" where
  "dec_neg d = d\<lparr>neg_bit := \<not> neg_bit d\<rparr>"

definition dec_abs :: "money \<Rightarrow> money" where
  "dec_abs d = d\<lparr>neg_bit := False\<rparr>"

subsection \<open>Tagged raw values\<close>

datatype jvalue = SNull | SBool bool | SNum "int option" | SStr string | SArr "jvalue list" | SObj "(string \<times> jvalue) list"

datatype rtag = TNull | TBool bool | TInt int | TStr string | TDec string | TOther string string

fun as_bool :: "jvalue \<Rightarrow> bool option" where
  "as_bool (SBool b) = Some b"
| "as_bool _ = None"

fun as_str :: "jvalue \<Rightarrow> string option" where
  "as_str (SStr s) = Some s"
| "as_str _ = None"

fun as_i64 :: "jvalue \<Rightarrow> int option" where
  "as_i64 (SNum n) = n"
| "as_i64 _ = None"

definition str_or :: "string \<Rightarrow> jvalue option \<Rightarrow> string" where
  "str_or d v = (case v of None \<Rightarrow> d | Some j \<Rightarrow> (case as_str j of None \<Rightarrow> d | Some s \<Rightarrow> s))"

fun raw_tag :: "jvalue \<Rightarrow> rtag" where
  "raw_tag SNull = TNull"
| "raw_tag (SBool b) = TBool b"
| "raw_tag (SNum (Some i)) = TInt i"
| "raw_tag (SNum None) = TOther [] ''float''"
| "raw_tag (SStr s) = TStr s"
| "raw_tag (SObj m) =
     (case map_of m ''d'' of
        Some (SStr d) \<Rightarrow> TDec d
      | _ \<Rightarrow> TOther (str_or [] (map_of m ''text'')) (str_or ''object'' (map_of m ''type'')))"
| "raw_tag (SArr _) = TOther [] ''list''"

definition field :: "(string \<times> jvalue) list \<Rightarrow> string \<Rightarrow> jvalue" where
  "field m k = (case map_of m k of None \<Rightarrow> SNull | Some v \<Rightarrow> v)"

definition as_object :: "jvalue \<Rightarrow> string \<Rightarrow> (string \<times> jvalue) list rres" where
  "as_object v what = (case v of SObj m \<Rightarrow> Ok m | _ \<Rightarrow> rval (what @ '' must be a JSON object''))"

definition dec_tag :: "jvalue \<Rightarrow> money option option rres" where
  "dec_tag v =
     (case raw_tag v of
        TDec s \<Rightarrow> and_then (parse_py_decimal s) (\<lambda>p. Ok (Some (case p of Finite d \<Rightarrow> Some d | _ \<Rightarrow> None)))
      | _ \<Rightarrow> Ok None)"

subsection \<open>Account rules\<close>

record rules =
  ru_risk_per_trade_frac :: money
  ru_short_risk_per_trade_frac :: money
  ru_max_position_notional_frac :: money
  ru_max_gross_exposure_frac :: money
  ru_bull_chop_gross_exposure_frac :: money
  ru_max_portfolio_heat_frac :: money
  ru_max_positions :: int
  ru_max_positions_per_industry :: int
  ru_min_price :: money
  ru_max_adv_frac :: money
  ru_earnings_blackout_sessions :: int
  ru_drawdown_half_risk_frac :: money
  ru_drawdown_suspend_frac :: money
  ru_drawdown_recovery_frac :: money
  ru_daily_loss_block_frac :: money
  ru_clamp_to_position_cap :: bool

definition POSITIVE :: "string list" where
  "POSITIVE = [''risk_per_trade_frac'', ''short_risk_per_trade_frac'', ''max_position_notional_frac'',
     ''max_gross_exposure_frac'', ''bull_chop_gross_exposure_frac'', ''max_portfolio_heat_frac'', ''min_price'',
     ''max_adv_frac'', ''drawdown_recovery_frac'', ''drawdown_half_risk_frac'', ''drawdown_suspend_frac'', ''daily_loss_block_frac'']"

definition CAPS :: "(string \<times> nat \<times> nat) list" where
  "CAPS = [(''risk_per_trade_frac'', 5, 2), (''short_risk_per_trade_frac'', 5, 2), (''max_position_notional_frac'', 1, 0),
     (''max_gross_exposure_frac'', 2, 0), (''bull_chop_gross_exposure_frac'', 2, 0), (''max_portfolio_heat_frac'', 25, 2),
     (''max_adv_frac'', 1, 0), (''drawdown_recovery_frac'', 50, 2), (''drawdown_half_risk_frac'', 50, 2),
     (''drawdown_suspend_frac'', 50, 2), (''daily_loss_block_frac'', 50, 2)]"

definition positive_text :: "risk_ext \<Rightarrow> (string \<times> jvalue) list \<Rightarrow> string \<Rightarrow> (string \<times> string) rres" where
  "positive_text x m name =
     and_then (dec_tag (field m name)) (\<lambda>t.
       case t of
         Some (Some d) \<Rightarrow>
           if money_lt ZERO d then Ok (name, rd_to_string (rk_ext x) d)
           else rcfg (name @ '' must be a positive finite Decimal'')
       | _ \<Rightarrow> rcfg (name @ '' must be a positive finite Decimal''))"

definition dec_get :: "risk_ext \<Rightarrow> (string \<times> string) list \<Rightarrow> string \<Rightarrow> money" where
  "dec_get x dec n =
     (case rd_from_str x (case map_of dec n of Some s \<Rightarrow> s | None \<Rightarrow> ''0'') of Some d \<Rightarrow> d | None \<Rightarrow> ZERO)"

definition cap_check :: "(string \<Rightarrow> money) \<Rightarrow> unit \<Rightarrow> string \<times> nat \<times> nat \<Rightarrow> unit rres" where
  "cap_check get u c =
     (case c of (name, whole, s) \<Rightarrow>
        if money_lt (decimal_new whole s) (get name) then rcfg (name @ '' exceeds its sanity cap'') else Ok ())"

definition int_at_least :: "int \<Rightarrow> string \<Rightarrow> jvalue \<Rightarrow> int rres" where
  "int_at_least low msg v = (case raw_tag v of TInt i \<Rightarrow> if low \<le> i then Ok i else rcfg msg | _ \<Rightarrow> rcfg msg)"

definition rules_order :: "rules \<Rightarrow> rules rres" where
  "rules_order r =
     (if money_le (ru_drawdown_half_risk_frac r) (ru_drawdown_recovery_frac r)
      then rcfg ''drawdown recovery must be below the half-risk threshold''
      else if money_le (ru_drawdown_suspend_frac r) (ru_drawdown_half_risk_frac r)
      then rcfg ''drawdown half-risk threshold must precede suspension''
      else if money_lt (ru_max_gross_exposure_frac r) (ru_bull_chop_gross_exposure_frac r)
      then rcfg ''bull-chop gross exposure cannot exceed the maximum gross exposure''
      else Ok r)"

definition rules_from_raw :: "risk_ext \<Rightarrow> (string \<times> jvalue) list \<Rightarrow> rules rres" where
  "rules_from_raw x m =
     and_then (map_r (positive_text x m) POSITIVE) (\<lambda>dec.
     let get = dec_get x dec in
     and_then (fold_r (cap_check get) () CAPS) (\<lambda>_.
     and_then (int_at_least 1 ''max_positions must be a positive integer'' (field m ''max_positions'')) (\<lambda>positions.
     and_then (int_at_least 1 ''max_positions_per_industry must be a positive integer'' (field m ''max_positions_per_industry'')) (\<lambda>industry.
     and_then (int_at_least 0 ''earnings_blackout_sessions must be non-negative'' (field m ''earnings_blackout_sessions'')) (\<lambda>blackout.
     and_then (case raw_tag (field m ''clamp_to_position_cap'') of
                 TBool b \<Rightarrow> Ok b
               | _ \<Rightarrow> rcfg ''clamp_to_position_cap must be a boolean'') (\<lambda>clamp.
     rules_order
       \<lparr>ru_risk_per_trade_frac = get ''risk_per_trade_frac'', ru_short_risk_per_trade_frac = get ''short_risk_per_trade_frac'',
        ru_max_position_notional_frac = get ''max_position_notional_frac'', ru_max_gross_exposure_frac = get ''max_gross_exposure_frac'',
        ru_bull_chop_gross_exposure_frac = get ''bull_chop_gross_exposure_frac'',
        ru_max_portfolio_heat_frac = get ''max_portfolio_heat_frac'', ru_max_positions = positions,
        ru_max_positions_per_industry = industry, ru_min_price = get ''min_price'', ru_max_adv_frac = get ''max_adv_frac'',
        ru_earnings_blackout_sessions = blackout, ru_drawdown_half_risk_frac = get ''drawdown_half_risk_frac'',
        ru_drawdown_suspend_frac = get ''drawdown_suspend_frac'', ru_drawdown_recovery_frac = get ''drawdown_recovery_frac'',
        ru_daily_loss_block_frac = get ''daily_loss_block_frac'', ru_clamp_to_position_cap = clamp\<rparr>))))))"

definition CONFIG :: "(string \<times> string) list" where
  "CONFIG = [(''risk_per_trade'', ''risk_per_trade_frac''), (''short_risk_per_trade'', ''short_risk_per_trade_frac''),
     (''max_position_notional'', ''max_position_notional_frac''), (''max_gross_exposure'', ''max_gross_exposure_frac''),
     (''bull_chop_gross_exposure'', ''bull_chop_gross_exposure_frac''), (''max_portfolio_heat'', ''max_portfolio_heat_frac''),
     (''max_positions'', ''max_positions''), (''max_positions_per_industry'', ''max_positions_per_industry''),
     (''min_price'', ''min_price''), (''max_adv'', ''max_adv_frac''), (''earnings_blackout_sessions'', ''earnings_blackout_sessions''),
     (''drawdown_half_risk'', ''drawdown_half_risk_frac''), (''drawdown_suspend'', ''drawdown_suspend_frac''),
     (''drawdown_recovery'', ''drawdown_recovery_frac''), (''daily_loss_block'', ''daily_loss_block_frac'')]"

definition NOT_PERCENT :: "string list" where
  "NOT_PERCENT = [''max_positions'', ''max_positions_per_industry'', ''min_price'', ''earnings_blackout_sessions'']"

text \<open>The text of a configured number, a percentage without its sign.\<close>

definition config_text :: "bool \<Rightarrow> string \<Rightarrow> jvalue \<Rightarrow> string rres" where
  "config_text percent name v =
     (if percent then
        (case raw_tag v of
           TStr s \<Rightarrow>
             if ends_with ''%'' (trim_str s) then Ok (trim_str (butlast (trim_str s)))
             else rcfg (name @ '' must be an explicit percentage string'')
         | _ \<Rightarrow> rcfg (name @ '' must be an explicit percentage string''))
      else
        (case raw_tag v of
           TBool _ \<Rightarrow> rcfg (name @ '' must be numeric, not boolean'')
         | TNull \<Rightarrow> Ok ''None''
         | TInt i \<Rightarrow> Ok (int_to_string i)
         | TStr s \<Rightarrow> Ok s
         | TDec s \<Rightarrow> Ok s
         | TOther s _ \<Rightarrow> Ok s))"

definition config_value :: "risk_ext \<Rightarrow> (string \<times> jvalue) list \<Rightarrow> string \<times> string \<Rightarrow> (string \<times> jvalue) rres" where
  "config_value x values c =
     (case c of (name, field_name) \<Rightarrow>
        let percent = (name \<notin> set NOT_PERCENT) in
        and_then (config_text percent name (field values name)) (\<lambda>t.
        let bad = rcfg (name @ '' must contain a valid number'');
            shown = (\<lambda>d. (field_name, SObj [(''d'', SStr d)]))
        in
        case parse_py_decimal t of
          Err _ \<Rightarrow> bad
        | Ok Invalid \<Rightarrow> bad
        | Ok NonFinite \<Rightarrow> Ok (shown ''NaN'')
        | Ok (Finite d) \<Rightarrow>
            if percent then
              and_then (map_err (\<lambda>e. RConfig (risk_message e)) (div_100 d)) (\<lambda>q. Ok (shown (rd_to_string (rk_ext x) q)))
            else Ok (shown (rd_to_string (rk_ext x) d))))"

definition parse_i64 :: "string \<Rightarrow> int option" where
  "parse_i64 s = (let n = int (num s) in if n \<le> i64_max then Some n else None)"

definition config_int :: "(string \<times> jvalue) list \<Rightarrow> string \<Rightarrow> (string \<times> jvalue) rres" where
  "config_int values name =
     (case (case raw_tag (field values name) of
              TStr s \<Rightarrow> if ascii_digits s then parse_i64 s else None
            | TInt i \<Rightarrow> Some i
            | _ \<Rightarrow> None) of
        Some n \<Rightarrow> Ok (name, SNum (Some n))
      | None \<Rightarrow> rcfg (name @ '' must be an integer''))"

definition config_clamp :: "jvalue option \<Rightarrow> bool rres" where
  "config_clamp v =
     (case v of
        None \<Rightarrow> Ok False
      | Some j \<Rightarrow>
          let no = (\<lambda>ty. rcfg (''clamp_to_position_cap must be a boolean (true/false), not '' @ ty)) in
          (case raw_tag j of
             TBool b \<Rightarrow> Ok b
           | TNull \<Rightarrow> no ''NoneType''
           | TInt _ \<Rightarrow> no ''int''
           | TStr _ \<Rightarrow> no ''str''
           | TDec _ \<Rightarrow> no ''Decimal''
           | TOther _ ty \<Rightarrow> no ty))"

text \<open>Inserting into a map of \<open>serde_json\<close>: the later value of a key is the one read.\<close>

definition put_all :: "(string \<times> jvalue) list \<Rightarrow> (string \<times> jvalue) list \<Rightarrow> (string \<times> jvalue) list" where
  "put_all new m = new @ filter (\<lambda>p. fst p \<notin> fst ` set new) m"

definition rules_from_mapping :: "risk_ext \<Rightarrow> jvalue \<Rightarrow> (string \<times> jvalue) list rres" where
  "rules_from_mapping x doc =
     and_then (as_object doc ''rules mapping'') (\<lambda>top.
     if Option.bind (map_of top ''is_mapping'') as_bool \<noteq> Some True
     then rcfg ''account risk rules must be loaded from a mapping''
     else if Option.bind (map_of top ''keys_are_strings'') as_bool \<noteq> Some True
     then rcfg ''account risk rule keys must be strings''
     else
       and_then (as_object (field top ''values'') ''values'') (\<lambda>values.
       if list_ex (\<lambda>k. k \<notin> fst ` set CONFIG \<and> k \<noteq> ''clamp_to_position_cap'') (map fst values)
       then rcfg ''Unknown account risk rule keys''
       else if list_ex (\<lambda>k. k \<notin> fst ` set values) (map fst CONFIG)
       then rcfg ''Missing account risk rule keys''
       else
         and_then (map_r (config_value x values) CONFIG) (\<lambda>out.
         and_then (map_r (config_int values) [''max_positions'', ''max_positions_per_industry'', ''earnings_blackout_sessions'']) (\<lambda>ints.
         and_then (config_clamp (map_of values ''clamp_to_position_cap'')) (\<lambda>clamp.
         let out = put_all ((''clamp_to_position_cap'', SBool clamp) # ints) out in
         and_then (rules_from_raw x out) (\<lambda>_. Ok out))))))"

subsection \<open>Trading hours\<close>

record hours =
  ho_timezone :: string
  ho_weekdays :: "nat list"
  ho_opens :: nat
  ho_closes :: nat

definition time_of :: "int \<Rightarrow> nat option" where
  "time_of micros = (if 0 \<le> micros \<and> micros < 86400000000 then Some (nat micros) else None)"

text \<open>A boundary: its microseconds, and whether it carries an offset.\<close>

definition hours_time :: "jvalue \<Rightarrow> (int \<times> bool) option" where
  "hours_time v =
     (case v of
        SObj m \<Rightarrow>
          (case Option.bind (map_of m ''micros'') as_i64 of
             Some n \<Rightarrow> Some (n, False)
           | None \<Rightarrow> map_option (\<lambda>n. (n, True)) (Option.bind (map_of m ''aware_micros'') as_i64))
      | _ \<Rightarrow> None)"

definition hours_weekday :: "jvalue \<Rightarrow> nat rres" where
  "hours_weekday d =
     (case raw_tag d of
        TInt i \<Rightarrow> if 0 \<le> i \<and> i < 7 then Ok (nat i) else rcfg ''trading-hours weekdays must be integers from 0 to 6''
      | _ \<Rightarrow> rcfg ''trading-hours weekdays must be integers from 0 to 6'')"

definition hours_exchange :: "jvalue \<Rightarrow> unit rres" where
  "hours_exchange v =
     (case raw_tag v of
        TStr s \<Rightarrow> if s = ''XNYS'' then Ok () else rval ''Unknown or unsupported exchange''
      | _ \<Rightarrow> rval ''Unknown or unsupported exchange'')"

definition hours_from_raw :: "risk_ext \<Rightarrow> jvalue \<Rightarrow> hours rres" where
  "hours_from_raw x raw =
     and_then (as_object raw ''trading hours'') (\<lambda>m.
     and_then (case raw_tag (field m ''timezone'') of
                 TStr s \<Rightarrow> if tz_known x s then Ok s else rcfg ''Unknown trading-hours timezone''
               | _ \<Rightarrow> rcfg ''Unknown trading-hours timezone'') (\<lambda>tz.
     and_then (case field m ''weekdays'' of
                 SArr a \<Rightarrow> if a \<noteq> [] then map_r hours_weekday a else rcfg ''trading-hours weekdays must be integers from 0 to 6''
               | _ \<Rightarrow> rcfg ''trading-hours weekdays must be integers from 0 to 6'') (\<lambda>weekdays.
     case (hours_time (field m ''opens''), hours_time (field m ''closes'')) of
       (Some (opn, o_aware), Some (cls, c_aware)) \<Rightarrow>
         if o_aware \<or> c_aware then rcfg ''trading-hours boundaries must be local wall times''
         else
           (case (time_of opn, time_of cls) of
              (Some opens, Some closes) \<Rightarrow>
                if opens \<ge> closes then rcfg ''trading hours must open before they close''
                else
                  and_then (hours_exchange (field m ''exchange'')) (\<lambda>_.
                  Ok \<lparr>ho_timezone = tz, ho_weekdays = weekdays, ho_opens = opens, ho_closes = closes\<rparr>)
            | _ \<Rightarrow> rcfg ''trading hours must use datetime.time boundaries'')
     | _ \<Rightarrow> rcfg ''trading hours must use datetime.time boundaries'')))"

definition cal_err :: "calendar_error \<Rightarrow> risk_error" where
  "cal_err e = RValue ''calendar''"

definition utc_micros :: "utc \<Rightarrow> int" where
  "utc_micros t = fst t * 1000000 + int (snd t)"

definition hours_is_open :: "risk_ext \<Rightarrow> hours \<Rightarrow> int \<Rightarrow> bool rres" where
  "hours_is_open x h epoch_us =
     (if \<not> micros_in_range x epoch_us then rval ''timestamp is out of range''
      else
        let (session_date, t) = tz_local x (ho_timezone h) epoch_us in
        if nd_weekday (rk_ext x) session_date \<notin> set (ho_weekdays h) then Ok False
        else
          and_then (map_err cal_err (is_session (rk_ext x) session_date)) (\<lambda>is_s.
          if \<not> is_s then Ok False
          else
            and_then (map_err cal_err (session_open (rk_ext x) session_date)) (\<lambda>s_open.
            and_then (map_err cal_err (session_close (rk_ext x) session_date)) (\<lambda>s_close.
            let opens = max (ho_opens h) (snd (tz_local x (ho_timezone h) (utc_micros s_open)));
                closes = min (ho_closes h) (snd (tz_local x (ho_timezone h) (utc_micros s_close)))
            in Ok (opens \<le> t \<and> t < closes)))))"

subsection \<open>Venue rails\<close>

record rails =
  rl_venue_id :: string
  rl_allowed_symbols :: "string list option"
  rl_max_position_quantity :: "int option"
  rl_max_orders_per_day :: "int option"
  rl_max_daily_loss :: "money option"
  rl_trading_hours :: "hours option"

definition rails_symbols :: "risk_ext \<Rightarrow> jvalue \<Rightarrow> string list option rres" where
  "rails_symbols x v =
     (case v of
        SNull \<Rightarrow> Ok None
      | SObj m \<Rightarrow>
          if Option.bind (map_of m ''is_str'') as_bool = Some True then rcfg ''allowed_symbols must be a collection of symbols''
          else
            let items = (case map_of m ''items'' of Some (SArr a) \<Rightarrow> a | _ \<Rightarrow> []);
                syms = sort (remdups (map (\<lambda>it. of_chars (to_uppercase (uni_upper (rk_ext x)) (trim (chars (str_or [] (Some it)))))) items))
            in if syms = [] \<or> [] \<in> set syms then rcfg ''allowed_symbols must contain non-empty symbols'' else Ok (Some syms)
      | _ \<Rightarrow> rcfg ''allowed_symbols must be a collection of symbols'')"

definition rails_limit :: "string \<Rightarrow> jvalue \<Rightarrow> int option rres" where
  "rails_limit name v =
     (case raw_tag v of
        TNull \<Rightarrow> Ok None
      | TInt i \<Rightarrow> if i > 0 then Ok (Some i) else rcfg (name @ '' must be a positive integer'')
      | _ \<Rightarrow> rcfg (name @ '' must be a positive integer''))"

definition rails_loss :: "jvalue \<Rightarrow> money option rres" where
  "rails_loss v =
     (if v = SNull then Ok None
      else
        and_then (dec_tag v) (\<lambda>t.
          case t of
            Some (Some d) \<Rightarrow> if money_lt ZERO d then Ok (Some d) else rcfg ''max_daily_loss must be a positive finite Decimal''
          | _ \<Rightarrow> rcfg ''max_daily_loss must be a positive finite Decimal''))"

definition rails_hours :: "risk_ext \<Rightarrow> jvalue \<Rightarrow> hours option rres" where
  "rails_hours x v =
     (case v of
        SNull \<Rightarrow> Ok None
      | SObj m \<Rightarrow>
          (case map_of m ''hours'' of
             Some h \<Rightarrow> and_then (hours_from_raw x h) (\<lambda>h. Ok (Some h))
           | None \<Rightarrow> rcfg ''trading_hours must be a TradingHours value'')
      | _ \<Rightarrow> rcfg ''trading_hours must be a TradingHours value'')"

definition rails_flag :: "string \<Rightarrow> jvalue \<Rightarrow> bool option rres" where
  "rails_flag name v =
     (case raw_tag v of
        TNull \<Rightarrow> Ok None
      | TBool b \<Rightarrow> if b then Ok (Some True) else rcfg (name @ '' cannot be disabled'')
      | _ \<Rightarrow> rcfg (name @ '' must be a boolean''))"

definition rails_venue :: "jvalue \<Rightarrow> string rres" where
  "rails_venue v =
     (case raw_tag v of
        TStr s \<Rightarrow> if s \<noteq> [] then Ok s else rcfg ''venue_id must be non-empty''
      | TOther t _ \<Rightarrow> if t \<noteq> [] then Ok t else rcfg ''venue_id must be non-empty''
      | _ \<Rightarrow> rcfg ''venue_id must be non-empty'')"

definition rails_environment :: "jvalue \<Rightarrow> string rres" where
  "rails_environment v =
     (case raw_tag v of
        TStr s \<Rightarrow> if s \<in> {''sim'', ''paper'', ''live''} then Ok s else rcfg ''Invalid venue environment''
      | _ \<Rightarrow> rcfg ''Invalid venue environment'')"

definition rails_from_raw :: "risk_ext \<Rightarrow> jvalue \<Rightarrow> rails rres" where
  "rails_from_raw x raw =
     and_then (as_object raw ''venue rails'') (\<lambda>m.
     and_then (rails_venue (field m ''venue_id'')) (\<lambda>venue_id.
     and_then (rails_environment (field m ''environment'')) (\<lambda>env.
     and_then (rails_symbols x (field m ''allowed_symbols'')) (\<lambda>allowed.
     and_then (rails_limit ''max_position_quantity'' (field m ''max_position_quantity'')) (\<lambda>max_position.
     and_then (rails_limit ''max_orders_per_day'' (field m ''max_orders_per_day'')) (\<lambda>max_orders.
     and_then (rails_loss (field m ''max_daily_loss'')) (\<lambda>max_daily_loss.
     and_then (rails_hours x (field m ''trading_hours'')) (\<lambda>trading_hours.
     and_then (rails_flag ''duplicate_protection'' (field m ''duplicate_protection'')) (\<lambda>dup.
     and_then (rails_flag ''persistent_kill_switch'' (field m ''persistent_kill_switch'')) (\<lambda>kill.
     if (env = ''paper'' \<or> env = ''live'')
        \<and> (allowed = None \<or> max_position = None \<or> max_orders = None \<or> max_daily_loss = None \<or> trading_hours = None
            \<or> dup = None \<or> kill = None)
     then rcfg (env @ '' venue missing required rails'')
     else if (env = ''paper'' \<or> env = ''live'') \<and> (dup \<noteq> Some True \<or> kill \<noteq> Some True)
     then rcfg ''paper/live duplicate protection and persistent kill switch must be enabled''
     else
       Ok \<lparr>rl_venue_id = venue_id, rl_allowed_symbols = allowed, rl_max_position_quantity = max_position,
           rl_max_orders_per_day = max_orders, rl_max_daily_loss = max_daily_loss, rl_trading_hours = trading_hours\<rparr>))))))))))"

subsection \<open>Context\<close>

record context_r =
  cx_equity :: "money option"
  cx_current_price :: "money option"
  cx_gross_exposure :: "money option"
  cx_portfolio_heat :: "money option"
  cx_open_positions :: "int option"
  cx_industry :: "string option"
  cx_industry_positions :: "int option"
  cx_average_dollar_volume_20d :: "money option"
  cx_sessions_until_earnings :: "int option"
  cx_regime :: "string option"
  cx_macro_high_risk_day :: "bool option"
  cx_drawdown_from_peak_frac :: "money option"
  cx_previous_session_pnl_frac :: "money option"
  cx_venue_orders_today :: "int option"
  cx_venue_daily_pnl :: "money option"
  cx_current_position_quantity :: "int option"

definition cx_dec :: "(money \<Rightarrow> bool) \<Rightarrow> string \<Rightarrow> (string \<times> jvalue) list \<Rightarrow> string \<Rightarrow> money option rres" where
  "cx_dec ok what m name =
     (let v = field m name; bad = rval (name @ '' must be '' @ what @ '' when provided'') in
      if v = SNull then Ok None
      else and_then (dec_tag v) (\<lambda>t. case t of Some (Some d) \<Rightarrow> if ok d then Ok (Some d) else bad | _ \<Rightarrow> bad))"

definition cx_count :: "(string \<times> jvalue) list \<Rightarrow> string \<Rightarrow> int option rres" where
  "cx_count m name =
     (let bad = rval (name @ '' must be a non-negative integer when provided'') in
      case raw_tag (field m name) of
        TNull \<Rightarrow> Ok None
      | TInt i \<Rightarrow> if i \<ge> 0 then Ok (Some i) else bad
      | _ \<Rightarrow> bad)"

definition REGIMES :: "string list" where
  "REGIMES = [''BULL_EXPLOSIVE'', ''BULL_CHOPIER'', ''BEAR_PROTECTIVE'', ''UNKNOWN'']"

definition cx_regime_of :: "jvalue \<Rightarrow> string option rres" where
  "cx_regime_of v =
     (case raw_tag v of
        TNull \<Rightarrow> Ok None
      | TStr s \<Rightarrow> if s \<in> set REGIMES then Ok (Some s) else rval ''Unsupported market regime''
      | _ \<Rightarrow> rval ''Unsupported market regime'')"

definition context_from_raw :: "jvalue \<Rightarrow> context_r rres" where
  "context_from_raw raw =
     and_then (as_object raw ''risk context'') (\<lambda>m.
     let pos = cx_dec (\<lambda>d. money_lt ZERO d) ''a positive finite Decimal'' m;
         nonneg = cx_dec (\<lambda>d. money_le ZERO d) ''a non-negative finite Decimal'' m;
         finite = cx_dec (\<lambda>d. True) ''a finite Decimal'' m
     in
     and_then (pos ''equity'') (\<lambda>equity.
     and_then (pos ''current_price'') (\<lambda>price.
     and_then (pos ''average_dollar_volume_20d'') (\<lambda>adv.
     and_then (nonneg ''gross_exposure'') (\<lambda>gross.
     and_then (nonneg ''portfolio_heat'') (\<lambda>heat.
     and_then (finite ''drawdown_from_peak_frac'') (\<lambda>dd.
     and_then (finite ''previous_session_pnl_frac'') (\<lambda>pnl.
     and_then (finite ''venue_daily_pnl'') (\<lambda>vpnl.
     if (case dd of Some d \<Rightarrow> money_lt d ZERO | None \<Rightarrow> False) then rval ''drawdown_from_peak_frac must be non-negative''
     else
     and_then (cx_count m ''open_positions'') (\<lambda>open_positions.
     and_then (cx_count m ''industry_positions'') (\<lambda>industry_positions.
     and_then (cx_count m ''sessions_until_earnings'') (\<lambda>earnings.
     and_then (cx_count m ''venue_orders_today'') (\<lambda>orders_today.
     and_then (case raw_tag (field m ''current_position_quantity'') of
                 TNull \<Rightarrow> Ok None
               | TInt i \<Rightarrow> Ok (Some i)
               | _ \<Rightarrow> rval ''current_position_quantity must be an integer when provided'') (\<lambda>position.
     and_then (case raw_tag (field m ''industry'') of
                 TNull \<Rightarrow> Ok None
               | TStr s \<Rightarrow> if s \<noteq> [] then Ok (Some s) else rval ''industry must be non-empty when provided''
               | _ \<Rightarrow> rval ''industry must be non-empty when provided'') (\<lambda>industry.
     and_then (cx_regime_of (field m ''regime'')) (\<lambda>regime.
     and_then (case raw_tag (field m ''macro_high_risk_day'') of
                 TNull \<Rightarrow> Ok None
               | TBool b \<Rightarrow> Ok (Some b)
               | _ \<Rightarrow> rval ''macro_high_risk_day must be a boolean when provided'') (\<lambda>macro_day.
     Ok \<lparr>cx_equity = equity, cx_current_price = price, cx_gross_exposure = gross, cx_portfolio_heat = heat,
         cx_open_positions = open_positions, cx_industry = industry, cx_industry_positions = industry_positions,
         cx_average_dollar_volume_20d = adv, cx_sessions_until_earnings = earnings, cx_regime = regime,
         cx_macro_high_risk_day = macro_day, cx_drawdown_from_peak_frac = dd, cx_previous_session_pnl_frac = pnl,
         cx_venue_orders_today = orders_today, cx_venue_daily_pnl = vpnl, cx_current_position_quantity = position\<rparr>)))))))))))))))))"

subsection \<open>Drawdown controls\<close>

record control_change =
  cc_control_id :: string
  cc_enabled :: bool
  cc_reason :: string

record drawdown_result =
  dr_brake :: bool
  dr_suspension :: bool
  dr_changes :: "control_change list"

definition control_of :: "string \<Rightarrow> string \<times> bool \<times> bool \<Rightarrow> control_change list" where
  "control_of drawdown_text c =
     (case c of (control_id, active, desired) \<Rightarrow>
        if desired \<noteq> active
        then [\<lparr>cc_control_id = control_id, cc_enabled = desired,
               cc_reason = ''Drawdown '' @ drawdown_text @ '' triggered account brake transition''\<rparr>]
        else [])"

definition drawdown_decision :: "rules \<Rightarrow> money option \<Rightarrow> string \<Rightarrow> bool \<Rightarrow> bool \<Rightarrow> drawdown_result" where
  "drawdown_decision r drawdown drawdown_text brake_active suspension_active =
     (case drawdown of
        None \<Rightarrow> \<lparr>dr_brake = brake_active, dr_suspension = suspension_active, dr_changes = []\<rparr>
      | Some dd \<Rightarrow>
          let recovery = money_le dd (ru_drawdown_recovery_frac r);
              brake = (if recovery then False else brake_active \<or> money_le (ru_drawdown_half_risk_frac r) dd);
              suspension = (if recovery then False else suspension_active \<or> money_le (ru_drawdown_suspend_frac r) dd)
          in \<lparr>dr_brake = brake, dr_suspension = suspension,
              dr_changes = concat (map (control_of drawdown_text)
                [(''drawdown_brake'', brake_active, brake), (''drawdown_suspension'', suspension_active, suspension)])\<rparr>)"

subsection \<open>Evaluation\<close>

record intent =
  in_is_equity :: bool
  in_symbol :: string
  in_side :: side
  in_quantity_rule :: string
  in_entry_price :: money
  in_stop_loss :: money
  in_command_id :: string

record risk_state =
  rs_now_us :: int
  rs_now_label :: string
  rs_command_known :: bool
  rs_kill_switch :: bool
  rs_drawdown_brake :: bool
  rs_drawdown_suspension :: bool

datatype measured = MDec money | MStr string | MInt int | MBool bool | MSet "string list" | MHours

record rule_result =
  rr_rule :: string
  rr_ok :: bool
  rr_measured :: measured
  rr_limit :: measured
  rr_why :: string

record evaluation =
  ev_results :: "rule_result list"
  ev_refusals :: "string list"
  ev_approved_quantity :: "money option"

definition RULE_COUNT :: nat where "RULE_COUNT = 21"

definition UNKNOWN :: measured where "UNKNOWN = MStr ''UNKNOWN''"

definition opt_dec :: "money option \<Rightarrow> measured" where
  "opt_dec d = (case d of Some m \<Rightarrow> MDec m | None \<Rightarrow> UNKNOWN)"

definition opt_int :: "int option \<Rightarrow> measured" where
  "opt_int i = (case i of Some n \<Rightarrow> MInt n | None \<Rightarrow> UNKNOWN)"

definition str_slice :: "nat \<Rightarrow> nat \<Rightarrow> string \<Rightarrow> string" where
  "str_slice from to_back s = (let b = length s - to_back in if from \<le> b then take (b - from) (drop from s) else [])"

definition pct_of :: "string \<Rightarrow> money option rres" where
  "pct_of raw =
     and_then (parse_py_decimal raw) (\<lambda>p. case p of Finite d \<Rightarrow> and_then (div_100 d) (\<lambda>q. Ok (Some q)) | _ \<Rightarrow> Ok None)"

definition positive_part :: "money option \<Rightarrow> money option" where
  "positive_part d = (case d of Some q \<Rightarrow> if money_lt ZERO q then Some q else None | None \<Rightarrow> None)"

definition parse_i128_digits :: "string \<Rightarrow> int rres" where
  "parse_i128_digits s = (let n = int (num s) in if n \<le> i128_max then Ok n else rval ''fixed quantity out of range'')"

text \<open>What a sizing rule asks for: a fixed quantity, a fraction of equity, whether it is accepted, and the risk fraction.\<close>

record sizing_rule =
  sz_fixed :: "money option"
  sz_notional :: "money option"
  sz_ok :: bool
  sz_risk_frac :: money

definition risk_sized :: "string \<Rightarrow> bool" where
  "risk_sized qr \<longleftrightarrow> starts_with ''risk_'' qr \<and> ends_with ''pct'' qr"

definition fixed_rule :: "money \<Rightarrow> string \<Rightarrow> sizing_rule rres" where
  "fixed_rule risk_frac raw =
     (let none = \<lparr>sz_fixed = None, sz_notional = None, sz_ok = False, sz_risk_frac = risk_frac\<rparr> in
      if \<not> ascii_digits raw then Ok none
      else
        and_then (parse_i128_digits raw) (\<lambda>n.
        if n > 0 then
          and_then (ok_or (RValue ''fixed quantity out of range'') (from_int n)) (\<lambda>q.
          Ok \<lparr>sz_fixed = Some q, sz_notional = None, sz_ok = True, sz_risk_frac = risk_frac\<rparr>)
        else Ok none))"

definition size_rule :: "rules \<Rightarrow> money \<Rightarrow> string \<Rightarrow> sizing_rule rres" where
  "size_rule r risk_frac qr =
     (if risk_sized qr then
        and_then (pct_of (str_slice 5 3 qr)) (\<lambda>p.
        case positive_part p of
          Some q \<Rightarrow> Ok \<lparr>sz_fixed = None, sz_notional = None, sz_ok = money_le q risk_frac, sz_risk_frac = pymin q risk_frac\<rparr>
        | None \<Rightarrow> Ok \<lparr>sz_fixed = None, sz_notional = None, sz_ok = False, sz_risk_frac = risk_frac\<rparr>)
      else
        case strip_prefix ''fixed_'' qr of
          Some raw \<Rightarrow> fixed_rule risk_frac raw
        | None \<Rightarrow>
            if starts_with ''notional_'' qr \<and> ends_with ''pct'' qr then
              and_then (pct_of (str_slice 9 3 qr)) (\<lambda>p.
              case positive_part p of
                Some q \<Rightarrow> Ok \<lparr>sz_fixed = None, sz_notional = Some (pymin q (ru_max_position_notional_frac r)),
                             sz_ok = money_le q (ru_max_position_notional_frac r), sz_risk_frac = risk_frac\<rparr>
              | None \<Rightarrow> Ok \<lparr>sz_fixed = None, sz_notional = None, sz_ok = False, sz_risk_frac = risk_frac\<rparr>)
            else Ok \<lparr>sz_fixed = None, sz_notional = None, sz_ok = False, sz_risk_frac = risk_frac\<rparr>)"

definition mul_opt :: "risk_ext \<Rightarrow> money option \<Rightarrow> money \<Rightarrow> money option rres" where
  "mul_opt x d f = (case d of Some e \<Rightarrow> and_then (rk_mul x e f) (\<lambda>m. Ok (Some m)) | None \<Rightarrow> Ok None)"

definition add_opt :: "risk_ext \<Rightarrow> money option \<Rightarrow> money \<Rightarrow> money option rres" where
  "add_opt x d f = (case d of Some e \<Rightarrow> and_then (rk_add x e f) (\<lambda>m. Ok (Some m)) | None \<Rightarrow> Ok None)"

definition HALF :: money where "HALF = decimal_new 5 1"
definition ONE :: money where "ONE = decimal_new 1 0"
definition HUNDRED :: money where "HUNDRED = decimal_new 100 0"

definition regime_scale :: "context_r \<Rightarrow> money" where
  "regime_scale c = (if cx_regime c = Some ''BULL_CHOPIER'' then HALF else ONE)"

definition drawdown_scale :: "risk_state \<Rightarrow> money" where
  "drawdown_scale s = (if rs_drawdown_brake s then HALF else ONE)"

definition scaled_frac :: "risk_ext \<Rightarrow> context_r \<Rightarrow> risk_state \<Rightarrow> money \<Rightarrow> money rres" where
  "scaled_frac x c s m = and_then (rk_mul x m (regime_scale c)) (\<lambda>n. rk_mul x n (drawdown_scale s))"

definition risk_budget :: "risk_ext \<Rightarrow> context_r \<Rightarrow> risk_state \<Rightarrow> money \<Rightarrow> money rres" where
  "risk_budget x c s sizing_frac =
     (case cx_equity c of Some e \<Rightarrow> and_then (rk_mul x e sizing_frac) (scaled_frac x c s) | None \<Rightarrow> Ok ZERO)"

definition sized_quantity :: "risk_ext \<Rightarrow> context_r \<Rightarrow> intent \<Rightarrow> sizing_rule \<Rightarrow> money \<Rightarrow> money \<Rightarrow> money rres" where
  "sized_quantity x c i z budget distance =
     (case sz_fixed z of
        Some q \<Rightarrow> Ok q
      | None \<Rightarrow>
          (case sz_notional z of
             Some nf \<Rightarrow>
               (case cx_equity c of
                  Some e \<Rightarrow> and_then (rk_mul x e nf) (\<lambda>n. and_then (rk_div x n (in_entry_price i)) (floor_whole x))
                | None \<Rightarrow> Ok ZERO)
           | None \<Rightarrow> and_then (rk_div x budget distance) (floor_whole x)))"

text \<open>The quantity after the position cap, with the quantity before it when it was reduced.\<close>

definition clamped_quantity :: "risk_ext \<Rightarrow> rules \<Rightarrow> intent \<Rightarrow> money option \<Rightarrow> money \<Rightarrow> (money \<times> money option) rres" where
  "clamped_quantity x r i max_position quantity =
     (if ru_clamp_to_position_cap r \<and> risk_sized (in_quantity_rule i) then
        (case max_position of
           Some mp \<Rightarrow>
             and_then (rk_div x mp (in_entry_price i)) (\<lambda>d.
             and_then (floor_whole x d) (\<lambda>cap.
             Ok (if money_lt cap quantity then (cap, Some quantity) else (quantity, None))))
         | None \<Rightarrow> Ok (quantity, None))
      else Ok (quantity, None))"

definition compare_rule :: "string \<Rightarrow> bool \<Rightarrow> measured \<Rightarrow> measured \<Rightarrow> string \<Rightarrow> string \<Rightarrow> rule_result" where
  "compare_rule rule passed m t success refusal =
     \<lparr>rr_rule = rule, rr_ok = passed, rr_measured = m, rr_limit = t, rr_why = if passed then success else refusal\<rparr>"

definition rail :: "string \<Rightarrow> bool \<Rightarrow> bool option \<Rightarrow> measured \<Rightarrow> measured \<Rightarrow> rule_result" where
  "rail name configured passed m l =
     (if \<not> configured then
        \<lparr>rr_rule = name, rr_ok = True, rr_measured = m, rr_limit = l,
         rr_why = ''Not configured for '' @ name @ ''; not required for this venue''\<rparr>
      else
        let ok = (passed = Some True) in
        \<lparr>rr_rule = name, rr_ok = ok, rr_measured = m, rr_limit = l,
         rr_why = if ok then name @ '' permits this entry'' else name @ '' input is unknown or the rail blocks this entry''\<rparr>)"

definition below :: "int option \<Rightarrow> int \<Rightarrow> bool" where
  "below n limit = (case n of Some k \<Rightarrow> k < limit | None \<Rightarrow> False)"

definition at_most :: "money option \<Rightarrow> money option \<Rightarrow> bool" where
  "at_most a b = (case (a, b) of (Some p, Some c) \<Rightarrow> money_le p c | _ \<Rightarrow> False)"

definition regime_ok :: "context_r \<Rightarrow> intent \<Rightarrow> bool" where
  "regime_ok c i \<longleftrightarrow>
     (case cx_regime c of Some r \<Rightarrow> r \<noteq> ''UNKNOWN'' | None \<Rightarrow> False)
     \<and> \<not> (cx_regime c = Some ''BEAR_PROTECTIVE'' \<and> in_side i \<noteq> Sell)"

text \<open>The amounts the account rules compare.\<close>

record amounts =
  am_quantity :: money
  am_unclamped :: "money option"
  am_risk_amount :: money
  am_risk_budget :: money
  am_notional :: money
  am_max_position :: "money option"
  am_risk_ceiling :: money
  am_notional_ceiling :: money
  am_gross_cap :: "money option"
  am_proposed_gross :: "money option"
  am_heat_cap :: "money option"
  am_heat :: "money option"
  am_adv_limit :: "money option"
  am_scaled :: money
  am_rule_ok :: bool

definition risk_frac :: "rules \<Rightarrow> intent \<Rightarrow> money" where
  "risk_frac r i = (if in_side i = Sell then ru_short_risk_per_trade_frac r else ru_risk_per_trade_frac r)"

definition gross_limit_frac :: "rules \<Rightarrow> context_r \<Rightarrow> money" where
  "gross_limit_frac r c =
     (if cx_regime c = Some ''BULL_CHOPIER'' then ru_bull_chop_gross_exposure_frac r else ru_max_gross_exposure_frac r)"

definition rule_amounts :: "risk_ext \<Rightarrow> rules \<Rightarrow> context_r \<Rightarrow> intent \<Rightarrow> risk_state \<Rightarrow> amounts rres" where
  "rule_amounts x r c i s =
     and_then (rk_sub x (in_entry_price i) (in_stop_loss i)) (\<lambda>gap.
     let distance = dec_abs gap in
     and_then (size_rule r (risk_frac r i) (in_quantity_rule i)) (\<lambda>z.
     and_then (risk_budget x c s (sz_risk_frac z)) (\<lambda>budget.
     and_then (mul_opt x (cx_equity c) (ru_max_position_notional_frac r)) (\<lambda>max_position.
     and_then (sized_quantity x c i z budget distance) (\<lambda>q0.
     and_then (clamped_quantity x r i max_position q0) (\<lambda>(quantity, unclamped).
     and_then (rk_mul x quantity distance) (\<lambda>risk_amount.
     and_then (rk_mul x quantity (in_entry_price i)) (\<lambda>notional.
     and_then (rk_mul x (risk_frac r i) HUNDRED) (\<lambda>risk_ceiling.
     and_then (rk_mul x (ru_max_position_notional_frac r) HUNDRED) (\<lambda>notional_ceiling.
     and_then (mul_opt x (cx_equity c) (gross_limit_frac r c)) (\<lambda>gross_cap.
     and_then (add_opt x (cx_gross_exposure c) notional) (\<lambda>proposed_gross.
     and_then (mul_opt x (cx_equity c) (ru_max_portfolio_heat_frac r)) (\<lambda>heat_cap.
     and_then (add_opt x (cx_portfolio_heat c) risk_amount) (\<lambda>heat.
     and_then (mul_opt x (cx_average_dollar_volume_20d c) (ru_max_adv_frac r)) (\<lambda>adv_limit.
     and_then (scaled_frac x c s (sz_risk_frac z)) (\<lambda>scaled.
     Ok \<lparr>am_quantity = quantity, am_unclamped = unclamped, am_risk_amount = risk_amount, am_risk_budget = budget,
         am_notional = notional, am_max_position = max_position, am_risk_ceiling = risk_ceiling,
         am_notional_ceiling = notional_ceiling, am_gross_cap = gross_cap, am_proposed_gross = proposed_gross,
         am_heat_cap = heat_cap, am_heat = heat, am_adv_limit = adv_limit, am_scaled = scaled, am_rule_ok = sz_ok z\<rparr>))))))))))))))))"

definition account_rules :: "risk_ext \<Rightarrow> rules \<Rightarrow> context_r \<Rightarrow> intent \<Rightarrow> risk_state \<Rightarrow> amounts \<Rightarrow> rule_result list" where
  "account_rules x r c i s a =
     (let pr = rd_to_string (rk_ext x); plus_one = map_option (\<lambda>n. n + 1); neg_daily = dec_neg (ru_daily_loss_block_frac r) in
      [compare_rule ''risk_per_trade''
         (cx_equity c \<noteq> None \<and> money_lt ZERO (am_quantity a) \<and> money_le (am_risk_amount a) (am_risk_budget a))
         (MDec (am_risk_amount a)) (MDec (am_risk_budget a)) ''Sized quantity is within the adjusted risk budget''
         ''Risk budget/equity is unknown or cannot fund one whole share'',
       compare_rule ''quantity_rule'' (am_rule_ok a) (MStr (in_quantity_rule i))
         (MStr (''risk_<x>pct with x <= '' @ pr (am_risk_ceiling a) @ ''; notional_<x>pct with x <= ''
           @ pr (am_notional_ceiling a) @ ''; or fixed_<n> with n > 0''))
         ''Intent sizing rule is supported and within its configured risk ceiling''
         ''Intent sizing rule is invalid or requests more risk than account rules allow'',
       compare_rule ''max_position'' (at_most (Some (am_notional a)) (am_max_position a)) (MDec (am_notional a))
         (opt_dec (am_max_position a))
         (case am_unclamped a of
            None \<Rightarrow> ''Position notional is within the account cap''
          | Some u \<Rightarrow> ''Quantity reduced from '' @ pr u @ '' to '' @ pr (am_quantity a)
              @ '' shares to fit the position cap (clamp_to_position_cap)'')
         ''Position notional or equity is unknown or exceeds the account cap'',
       compare_rule ''gross_exposure'' (at_most (am_proposed_gross a) (am_gross_cap a)) (opt_dec (am_proposed_gross a))
         (opt_dec (am_gross_cap a)) ''Gross exposure is within the regime-adjusted cap''
         ''Gross exposure or equity is unknown or exceeds the cap'',
       compare_rule ''portfolio_heat'' (at_most (am_heat a) (am_heat_cap a)) (opt_dec (am_heat a)) (opt_dec (am_heat_cap a))
         ''Portfolio heat is within the account cap'' ''Portfolio heat or equity is unknown or exceeds the cap'',
       compare_rule ''max_positions'' (below (cx_open_positions c) (ru_max_positions r))
         (opt_int (plus_one (cx_open_positions c))) (MInt (ru_max_positions r)) ''Position count is within the account cap''
         ''Position count is unknown or at the account cap'',
       compare_rule ''per_industry''
         (cx_industry c \<noteq> None \<and> below (cx_industry_positions c) (ru_max_positions_per_industry r))
         (opt_int (plus_one (cx_industry_positions c))) (MInt (ru_max_positions_per_industry r))
         ''Industry position count is within the account cap''
         (''Industry '' @ [CHR 0x27] @ (case cx_industry c of Some n \<Rightarrow> n | None \<Rightarrow> ''UNKNOWN'') @ [CHR 0x27] @ '' is at its cap or unknown''),
       compare_rule ''min_price'' (at_most (Some (ru_min_price r)) (cx_current_price c)) (opt_dec (cx_current_price c))
         (MDec (ru_min_price r)) ''Current price meets the account minimum''
         ''Current price is unknown or below the account minimum'',
       compare_rule ''adv_pct'' (at_most (Some (am_notional a)) (am_adv_limit a)) (MDec (am_notional a)) (opt_dec (am_adv_limit a))
         ''Position is within the 20-day ADV cap'' ''20-day ADV is unknown or position exceeds its cap'',
       compare_rule ''earnings_blackout''
         (case cx_sessions_until_earnings c of Some n \<Rightarrow> n > ru_earnings_blackout_sessions r | None \<Rightarrow> False)
         (opt_int (cx_sessions_until_earnings c)) (MStr (''> '' @ int_to_string (ru_earnings_blackout_sessions r) @ '' sessions''))
         ''Earnings are outside the blackout window'' ''Earnings date is unknown or inside the blackout window'',
       compare_rule ''regime'' (regime_ok c i) (MStr (case cx_regime c of Some n \<Rightarrow> n | None \<Rightarrow> ''UNKNOWN''))
         (MStr ''Known regime; no new longs in BEAR_PROTECTIVE'') ''Regime permits this entry''
         ''Unknown regime or BEAR_PROTECTIVE blocks this entry'',
       compare_rule ''macro_high_risk_day'' (cx_macro_high_risk_day c = Some False)
         (case cx_macro_high_risk_day c of Some b \<Rightarrow> MBool b | None \<Rightarrow> UNKNOWN) (MBool False)
         ''No high-risk macro event blocks this session'' ''Macro risk is unknown or this is a high-risk day'',
       compare_rule ''drawdown_brake'' (cx_drawdown_from_peak_frac c \<noteq> None \<and> \<not> rs_drawdown_suspension s)
         (opt_dec (cx_drawdown_from_peak_frac c))
         (MStr (''half risk at '' @ pr (ru_drawdown_half_risk_frac r) @ ''; suspend at '' @ pr (ru_drawdown_suspend_frac r)
           @ ''; recover only at '' @ pr (ru_drawdown_recovery_frac r)))
         (''Risk budget scaled to '' @ pr (am_scaled a) @ '' of equity'')
         ''Drawdown is unknown or suspension remains latched until recovery'',
       compare_rule ''daily_loss''
         (case cx_previous_session_pnl_frac c of Some p \<Rightarrow> money_lt neg_daily p | None \<Rightarrow> False)
         (opt_dec (cx_previous_session_pnl_frac c)) (MStr (''> '' @ pr neg_daily))
         ''Previous session loss is below the block threshold'' ''Previous session loss is unknown or blocks this session''])"

definition projected_position :: "context_r \<Rightarrow> intent \<Rightarrow> int \<Rightarrow> int option" where
  "projected_position c i qty_i = map_option (\<lambda>p. p + (if in_side i = Sell then - qty_i else qty_i)) (cx_current_position_quantity c)"

definition or_not_required :: "measured option \<Rightarrow> measured" where
  "or_not_required m = (case m of Some v \<Rightarrow> v | None \<Rightarrow> MStr ''not required'')"

definition venue_rails ::
  "risk_ext \<Rightarrow> rails \<Rightarrow> context_r \<Rightarrow> intent \<Rightarrow> risk_state \<Rightarrow> money \<Rightarrow> int \<Rightarrow> bool option \<Rightarrow> rule_result list" where
  "venue_rails x l c i s quantity qty_i hours_open =
     (let projected = projected_position c i qty_i in
      [rail ''allowlist'' (rl_allowed_symbols l \<noteq> None) (map_option (\<lambda>ss. in_symbol i \<in> set ss) (rl_allowed_symbols l))
         (MStr (in_symbol i)) (or_not_required (map_option MSet (rl_allowed_symbols l))),
       rail ''venue_max_position'' (rl_max_position_quantity l \<noteq> None)
         (case (rl_max_position_quantity l, projected) of
            (Some mx, Some p) \<Rightarrow> Some (money_lt ZERO quantity \<and> \<bar>p\<bar> \<le> mx)
          | _ \<Rightarrow> None)
         (opt_int (map_option abs projected)) (or_not_required (map_option MInt (rl_max_position_quantity l))),
       rail ''orders_per_day'' (rl_max_orders_per_day l \<noteq> None)
         (case (rl_max_orders_per_day l, cx_venue_orders_today c) of (Some mx, Some n) \<Rightarrow> Some (n < mx) | _ \<Rightarrow> None)
         (opt_int (map_option (\<lambda>n. n + 1) (cx_venue_orders_today c))) (or_not_required (map_option MInt (rl_max_orders_per_day l))),
       rail ''venue_daily_loss'' (rl_max_daily_loss l \<noteq> None)
         (case (rl_max_daily_loss l, cx_venue_daily_pnl c) of (Some mx, Some p) \<Rightarrow> Some (money_lt (dec_neg mx) p) | _ \<Rightarrow> None)
         (opt_dec (cx_venue_daily_pnl c))
         (or_not_required (map_option (\<lambda>m. MStr (''> '' @ rd_to_string (rk_ext x) (dec_neg m))) (rl_max_daily_loss l))),
       rail ''trading_hours'' (rl_trading_hours l \<noteq> None) hours_open (MStr (rs_now_label s))
         (if rl_trading_hours l \<noteq> None then MHours else MStr ''not required''),
       rail ''duplicate_protection'' True (Some (\<not> rs_command_known s)) (MStr (in_command_id i)) (MStr ''command id not present in ledger''),
       rail ''persistent_kill_switch'' True (Some (\<not> rs_kill_switch s)) (MBool (rs_kill_switch s)) (MBool False)])"

definition verdict :: "rule_result list \<Rightarrow> money \<Rightarrow> evaluation" where
  "verdict results quantity =
     (let refusals = map rr_why (filter (\<lambda>r. \<not> rr_ok r) results) in
      \<lparr>ev_results = results, ev_refusals = refusals, ev_approved_quantity = if refusals = [] then Some quantity else None\<rparr>)"

definition evaluate :: "risk_ext \<Rightarrow> rules \<Rightarrow> rails \<Rightarrow> context_r \<Rightarrow> intent \<Rightarrow> risk_state \<Rightarrow> evaluation rres" where
  "evaluate x r l c i s =
     (if \<not> in_is_equity i then rval ''E6 account rules support equity intents only''
      else
        and_then (rule_amounts x r c i s) (\<lambda>a.
        and_then (ok_or (RValue ''quantity out of range'') (rd_to_i128 x (am_quantity a))) (\<lambda>qty_i.
        and_then (case rl_trading_hours l of
                    Some h \<Rightarrow> and_then (hours_is_open x h (rs_now_us s)) (\<lambda>b. Ok (Some b))
                  | None \<Rightarrow> Ok None) (\<lambda>hours_open.
        Ok (verdict (account_rules x r c i s a @ venue_rails x l c i s (am_quantity a) qty_i hours_open) (am_quantity a))))))"

subsection \<open>The documents of the hosts\<close>

text \<open>
  Each door reads a document, runs one of the functions above and wraps its answer. Reading and printing
  JSON text is \<open>serde_json\<close>; these are the functions from the document read to the document printed.
\<close>

definition envelope :: "jvalue rres \<Rightarrow> jvalue" where
  "envelope r =
     (case r of
        Ok v \<Rightarrow> SObj [(''ok'', v)]
      | Err e \<Rightarrow> SObj [(''error'', SObj [(''kind'', SStr (risk_kind e)), (''message'', SStr (risk_message e))])])"

definition dec_str :: "jvalue \<Rightarrow> string \<Rightarrow> money rres" where
  "dec_str v what =
     (case map_option parse_py_decimal (as_str v) of
        Some (Ok (Finite d)) \<Rightarrow> Ok d
      | _ \<Rightarrow> rval (what @ '' must be a finite Decimal string''))"

definition json_rules_from_mapping :: "risk_ext \<Rightarrow> jvalue \<Rightarrow> jvalue" where
  "json_rules_from_mapping x d = envelope (and_then (rules_from_mapping x d) (\<lambda>m. Ok (SObj m)))"

definition json_validate_rules :: "risk_ext \<Rightarrow> jvalue \<Rightarrow> jvalue" where
  "json_validate_rules x d =
     envelope (and_then (as_object d ''rules'') (\<lambda>m. and_then (rules_from_raw x m) (\<lambda>_. Ok (SObj []))))"

definition json_validate_rails :: "risk_ext \<Rightarrow> jvalue \<Rightarrow> jvalue" where
  "json_validate_rails x d =
     envelope (and_then (rails_from_raw x d) (\<lambda>l.
       Ok (SObj [(''allowed_symbols'', case rl_allowed_symbols l of Some ss \<Rightarrow> SArr (map SStr ss) | None \<Rightarrow> SNull)])))"

definition json_validate_hours :: "risk_ext \<Rightarrow> jvalue \<Rightarrow> jvalue" where
  "json_validate_hours x d = envelope (and_then (hours_from_raw x d) (\<lambda>_. Ok (SObj [])))"

definition json_validate_context :: "jvalue \<Rightarrow> jvalue" where
  "json_validate_context d = envelope (and_then (context_from_raw d) (\<lambda>_. Ok (SObj [])))"

definition json_hours_is_open :: "risk_ext \<Rightarrow> jvalue \<Rightarrow> jvalue" where
  "json_hours_is_open x d =
     envelope (
       and_then (as_object d ''is_open request'') (\<lambda>m.
       and_then (hours_from_raw x (field m ''hours'')) (\<lambda>h.
       and_then (ok_or (RValue ''epoch_us must be an integer'') (as_i64 (field m ''epoch_us''))) (\<lambda>us.
       and_then (hours_is_open x h us) (\<lambda>b. Ok (SBool b))))))"

definition flag_of :: "(string \<times> jvalue) list \<Rightarrow> string \<Rightarrow> bool" where
  "flag_of m k = (as_bool (field m k) = Some True)"

definition json_drawdown_controls :: "risk_ext \<Rightarrow> jvalue \<Rightarrow> jvalue" where
  "json_drawdown_controls x d =
     envelope (
       and_then (as_object d ''drawdown request'') (\<lambda>m.
       if as_bool (field m ''is_equity'') \<noteq> Some True then rval ''E6 account rules support equity intents only''
       else
         and_then (as_object (field m ''rules'') ''rules'') (\<lambda>rm.
         and_then (rules_from_raw x rm) (\<lambda>r.
         and_then (if field m ''drawdown'' = SNull then Ok (None, [])
                   else and_then (dec_str (field m ''drawdown'') ''drawdown'') (\<lambda>dd.
                     Ok (Some dd, str_or [] (Some (field m ''drawdown''))))) (\<lambda>(dd, t).
         let res = drawdown_decision r dd t (flag_of m ''brake_active'') (flag_of m ''suspension_active'') in
         Ok (SObj [(''brake'', SBool (dr_brake res)), (''suspension'', SBool (dr_suspension res)),
           (''changes'', SArr (map (\<lambda>c. SObj [(''control_id'', SStr (cc_control_id c)), (''enabled'', SBool (cc_enabled c)),
              (''reason'', SStr (cc_reason c))]) (dr_changes res)))]))))))"

fun measured_json :: "risk_ext \<Rightarrow> measured \<Rightarrow> jvalue" where
  "measured_json x (MDec d) = SObj [(''d'', SStr (rd_to_string (rk_ext x) d))]"
| "measured_json x (MStr s) = SObj [(''s'', SStr s)]"
| "measured_json x (MInt i) = SObj [(''i'', SStr (int_to_string i))]"
| "measured_json x (MBool b) = SObj [(''b'', SBool b)]"
| "measured_json x (MSet v) = SObj [(''set'', SArr (map SStr v))]"
| "measured_json x MHours = SObj [(''hours'', SBool True)]"

definition result_json :: "risk_ext \<Rightarrow> rule_result \<Rightarrow> jvalue" where
  "result_json x r =
     SObj [(''rule'', SStr (rr_rule r)), (''passed'', SBool (rr_ok r)), (''measured'', measured_json x (rr_measured r)),
       (''threshold'', measured_json x (rr_limit r)), (''reason'', SStr (rr_why r))]"

definition intent_of :: "(string \<times> jvalue) list \<Rightarrow> intent rres" where
  "intent_of i =
     (let str = (\<lambda>k. str_or [] (Some (field i k))) in
      and_then (case as_str (field i ''side'') of
                  Some sd \<Rightarrow> if sd = ''BUY'' then Ok Buy else if sd = ''SELL'' then Ok Sell else rval ''intent side must be BUY or SELL''
                | None \<Rightarrow> rval ''intent side must be BUY or SELL'') (\<lambda>sd.
      and_then (dec_str (field i ''entry_price'') ''entry_price'') (\<lambda>entry.
      and_then (dec_str (field i ''stop_loss'') ''stop_loss'') (\<lambda>stop.
      Ok \<lparr>in_is_equity = (as_bool (field i ''is_equity'') = Some True), in_symbol = str ''symbol'', in_side = sd,
          in_quantity_rule = str ''quantity_rule'', in_entry_price = entry, in_stop_loss = stop, in_command_id = str ''command_id''\<rparr>))))"

definition state_of :: "(string \<times> jvalue) list \<Rightarrow> risk_state rres" where
  "state_of st =
     and_then (ok_or (RValue ''now_us must be an integer'') (as_i64 (field st ''now_us''))) (\<lambda>us.
     Ok \<lparr>rs_now_us = us, rs_now_label = str_or [] (Some (field st ''now_label'')), rs_command_known = flag_of st ''command_known'',
         rs_kill_switch = flag_of st ''kill_switch'', rs_drawdown_brake = flag_of st ''drawdown_brake'',
         rs_drawdown_suspension = flag_of st ''drawdown_suspension''\<rparr>)"

text \<open>The request of an evaluation, read and run.\<close>

definition evaluate_request :: "risk_ext \<Rightarrow> jvalue \<Rightarrow> evaluation rres" where
  "evaluate_request x d =
     and_then (as_object d ''evaluate request'') (\<lambda>m.
     and_then (as_object (field m ''rules'') ''rules'') (\<lambda>rm.
     and_then (rules_from_raw x rm) (\<lambda>r.
     and_then (rails_from_raw x (field m ''rails'')) (\<lambda>l.
     and_then (context_from_raw (field m ''context'')) (\<lambda>c.
     and_then (as_object (field m ''intent'') ''intent'') (\<lambda>im.
     and_then (intent_of im) (\<lambda>i.
     and_then (as_object (field m ''state'') ''state'') (\<lambda>sm.
     and_then (state_of sm) (\<lambda>s. evaluate x r l c i s)))))))))"

definition json_evaluate :: "risk_ext \<Rightarrow> jvalue \<Rightarrow> jvalue" where
  "json_evaluate x d =
     envelope (and_then (evaluate_request x d) (\<lambda>e.
       Ok (SObj [(''results'', SArr (map (result_json x) (ev_results e))), (''refusals'', SArr (map SStr (ev_refusals e))),
         (''approved_quantity'', case ev_approved_quantity e of Some q \<Rightarrow> SStr (rd_to_string (rk_ext x) q) | None \<Rightarrow> SNull)])))"

end
