(* ===== verification/Risk_Inv.thy ===== *)
theory Risk_Inv
  imports Risk Money_Ops
begin

section \<open>Sizing, limits and latches of the risk rules\<close>

text \<open>
  The limits an approval keeps, stated over the amounts the engine computes, and the lemmas that carry the
  properties: how a sizing rule bounds its fraction, what each recorded rule means, the run of the drawdown latches, what
  \<open>from_raw\<close> accepts, and products and differences that are exact.
\<close>

subsection \<open>Quantities and comparisons\<close>

definition whole_shares :: "money \<Rightarrow> bool" where
  "whole_shares q \<longleftrightarrow> (\<exists>n. 0 < n \<and> n < MANTISSA_LIMIT \<and> q = decimal_new n 0)"

lemma from_int_whole: "from_int i = Some q \<Longrightarrow> 0 < mval q \<Longrightarrow> whole_shares q"
proof -
  assume q: "from_int i = Some q" "0 < mval q"
  then have b: "nat \<bar>i\<bar> < MANTISSA_LIMIT" "q = \<lparr>neg_bit = i < 0, mantissa = nat \<bar>i\<bar>, scale = 0\<rparr>"
    by (auto simp: from_int_def try_from_i128_with_scale_def split: if_splits)
  have "0 < i" using q(2) by (cases "i < 0") (auto simp: b(2) mval_def dval_def)
  then show ?thesis using b by (auto simp: whole_shares_def decimal_new_def)
qed

lemma floor_whole_int: "floor_whole x d = Ok q \<Longrightarrow> \<exists>i. from_int i = Some q"
  by (auto simp: floor_whole_def ck_def)

lemma at_most_iff [simp]: "at_most a b \<longleftrightarrow> (\<exists>p c. a = Some p \<and> b = Some c \<and> mval p \<le> mval c)"
  by (auto simp: at_most_def split: option.splits)

lemma below_iff [simp]: "below n k \<longleftrightarrow> (\<exists>m. n = Some m \<and> m < k)"
  by (auto simp: below_def split: option.splits)

lemma mval_dec_neg [simp]: "mval (dec_neg d) = - mval d"
  by (cases "neg_bit d") (simp_all add: dec_neg_def mval_def dval_def)

lemma mul_opt_iff: "mul_opt x d f = Ok m \<longleftrightarrow> (d = None \<and> m = None \<or> (\<exists>e p. d = Some e \<and> m = Some p \<and> rk_mul x e f = Ok p))"
  by (cases d) (auto simp: mul_opt_def)

lemma add_opt_iff: "add_opt x d f = Ok m \<longleftrightarrow> (d = None \<and> m = None \<or> (\<exists>e p. d = Some e \<and> m = Some p \<and> rk_add x e f = Ok p))"
  by (cases d) (auto simp: add_opt_def)

subsection \<open>Sizing\<close>

lemma pymin_le: "mval (pymin a b) \<le> mval b"
  by (simp add: pymin_def)

lemma size_rule_parts:
  assumes "size_rule r f qr = Ok z"
  shows "mval (sz_risk_frac z) \<le> mval f" "\<forall>q. sz_fixed z = Some q \<longrightarrow> (\<exists>i. from_int i = Some q)"
  using assms
  by (auto simp: size_rule_def fixed_rule_def Let_def pymin_le split: if_splits option.splits)

lemma sized_quantity_int:
  assumes "size_rule r f qr = Ok z" "sized_quantity x c i z b d = Ok q"
  shows "\<exists>k. from_int k = Some q"
proof -
  have "from_int 0 = Some ZERO" by (simp add: from_int_def try_from_i128_with_scale_def MANTISSA_LIMIT_def ZERO_def)
  then show ?thesis using assms(2) size_rule_parts(2) [OF assms(1)]
    by (auto simp: sized_quantity_def dest: floor_whole_int split: option.splits)
qed

lemma clamped_quantity_int:
  assumes "clamped_quantity x r i mp q0 = Ok (q, u)" "\<exists>k. from_int k = Some q0"
  shows "\<exists>k. from_int k = Some q"
  using assms by (auto simp: clamped_quantity_def dest: floor_whole_int split: if_splits option.splits)

subsection \<open>The rules of an account and of a venue\<close>

definition RULE_NAMES :: "string list" where
  "RULE_NAMES = [''risk_per_trade'', ''quantity_rule'', ''max_position'', ''gross_exposure'', ''portfolio_heat'', ''max_positions'',
     ''per_industry'', ''min_price'', ''adv_pct'', ''earnings_blackout'', ''regime'', ''macro_high_risk_day'', ''drawdown_brake'',
     ''daily_loss'', ''allowlist'', ''venue_max_position'', ''orders_per_day'', ''venue_daily_loss'', ''trading_hours'',
     ''duplicate_protection'', ''persistent_kill_switch'']"

lemma RULE_NAMES_count: "length RULE_NAMES = RULE_COUNT"
  by (simp add: RULE_NAMES_def RULE_COUNT_def)

lemma compare_rule_sel [simp]: "rr_rule (compare_rule n p m t s f) = n" "rr_ok (compare_rule n p m t s f) = p"
  by (simp_all add: compare_rule_def)

lemma rail_sel [simp]: "rr_rule (rail n k p m l) = n" "rr_ok (rail n k p m l) \<longleftrightarrow> (k \<longrightarrow> p = Some True)"
  by (simp_all add: rail_def Let_def)

lemma rule_names: "map rr_rule (account_rules x r c i s a @ venue_rails x l c i s q k h) = RULE_NAMES"
  by (simp add: account_rules_def venue_rails_def Let_def RULE_NAMES_def)

definition account_ok :: "rules \<Rightarrow> context_r \<Rightarrow> intent \<Rightarrow> risk_state \<Rightarrow> amounts \<Rightarrow> bool" where
  "account_ok r c i s a \<longleftrightarrow>
     cx_equity c \<noteq> None \<and> 0 < mval (am_quantity a) \<and> mval (am_risk_amount a) \<le> mval (am_risk_budget a) \<and> am_rule_ok a
     \<and> at_most (Some (am_notional a)) (am_max_position a) \<and> at_most (am_proposed_gross a) (am_gross_cap a)
     \<and> at_most (am_heat a) (am_heat_cap a) \<and> at_most (Some (am_notional a)) (am_adv_limit a)
     \<and> below (cx_open_positions c) (ru_max_positions r)
     \<and> cx_industry c \<noteq> None \<and> below (cx_industry_positions c) (ru_max_positions_per_industry r)
     \<and> at_most (Some (ru_min_price r)) (cx_current_price c)
     \<and> (\<exists>n. cx_sessions_until_earnings c = Some n \<and> ru_earnings_blackout_sessions r < n)
     \<and> regime_ok c i \<and> cx_macro_high_risk_day c = Some False
     \<and> cx_drawdown_from_peak_frac c \<noteq> None \<and> \<not> rs_drawdown_suspension s
     \<and> (\<exists>p. cx_previous_session_pnl_frac c = Some p \<and> - mval (ru_daily_loss_block_frac r) < mval p)"

definition venue_ok :: "rails \<Rightarrow> context_r \<Rightarrow> intent \<Rightarrow> risk_state \<Rightarrow> int \<Rightarrow> bool option \<Rightarrow> bool" where
  "venue_ok l c i s k h \<longleftrightarrow>
     (\<forall>ss. rl_allowed_symbols l = Some ss \<longrightarrow> in_symbol i \<in> set ss)
     \<and> (\<forall>mx. rl_max_position_quantity l = Some mx \<longrightarrow>
          (\<exists>p. cx_current_position_quantity c = Some p \<and> \<bar>if in_side i = Sell then p - k else p + k\<bar> \<le> mx))
     \<and> (\<forall>mx. rl_max_orders_per_day l = Some mx \<longrightarrow> (\<exists>n. cx_venue_orders_today c = Some n \<and> n < mx))
     \<and> (\<forall>mx. rl_max_daily_loss l = Some mx \<longrightarrow> (\<exists>p. cx_venue_daily_pnl c = Some p \<and> - mval mx < mval p))
     \<and> (rl_trading_hours l \<noteq> None \<longrightarrow> h = Some True)
     \<and> \<not> rs_command_known s \<and> \<not> rs_kill_switch s"

lemma account_rules_ok: "list_all rr_ok (account_rules x r c i s a) \<longleftrightarrow> account_ok r c i s a"
  by (auto simp: account_rules_def Let_def account_ok_def split: option.splits)

lemma venue_rails_ok:
  assumes "0 < mval q"
  shows "list_all rr_ok (venue_rails x l c i s q k h) \<longleftrightarrow> venue_ok l c i s k h"
  using assms by (auto simp: venue_rails_def Let_def venue_ok_def projected_position_def split: option.splits)

subsection \<open>An approval\<close>

text \<open>The limits of the account on a quantity, over the amounts as the engine computes them.\<close>

definition amount_limits :: "risk_ext \<Rightarrow> rules \<Rightarrow> context_r \<Rightarrow> intent \<Rightarrow> risk_state \<Rightarrow> money \<Rightarrow> bool" where
  "amount_limits x r c i s q \<longleftrightarrow>
     (\<exists>e gap ra f b np. cx_equity c = Some e \<and> rk_sub x (in_entry_price i) (in_stop_loss i) = Ok gap
        \<and> rk_mul x q (dec_abs gap) = Ok ra \<and> rk_mul x q (in_entry_price i) = Ok np
        \<and> mval f \<le> mval (risk_frac r i) \<and> risk_budget x c s f = Ok b \<and> mval ra \<le> mval b
        \<and> (\<exists>mp. rk_mul x e (ru_max_position_notional_frac r) = Ok mp \<and> mval np \<le> mval mp)
        \<and> (\<exists>g pg gc. cx_gross_exposure c = Some g \<and> rk_add x g np = Ok pg \<and> rk_mul x e (gross_limit_frac r c) = Ok gc
             \<and> mval pg \<le> mval gc)
        \<and> (\<exists>h ph hc. cx_portfolio_heat c = Some h \<and> rk_add x h ra = Ok ph \<and> rk_mul x e (ru_max_portfolio_heat_frac r) = Ok hc
             \<and> mval ph \<le> mval hc)
        \<and> (\<exists>v vl. cx_average_dollar_volume_20d c = Some v \<and> rk_mul x v (ru_max_adv_frac r) = Ok vl \<and> mval np \<le> mval vl))"

definition context_limits :: "rules \<Rightarrow> context_r \<Rightarrow> intent \<Rightarrow> risk_state \<Rightarrow> bool" where
  "context_limits r c i s \<longleftrightarrow>
     (\<exists>n. cx_open_positions c = Some n \<and> n < ru_max_positions r)
     \<and> (\<exists>d n. cx_industry c = Some d \<and> cx_industry_positions c = Some n \<and> n < ru_max_positions_per_industry r)
     \<and> (\<exists>p. cx_current_price c = Some p \<and> mval (ru_min_price r) \<le> mval p)
     \<and> (\<exists>n. cx_sessions_until_earnings c = Some n \<and> ru_earnings_blackout_sessions r < n)
     \<and> (\<exists>g. cx_regime c = Some g \<and> g \<noteq> ''UNKNOWN'' \<and> (g = ''BEAR_PROTECTIVE'' \<longrightarrow> in_side i = Sell))
     \<and> cx_macro_high_risk_day c = Some False \<and> cx_drawdown_from_peak_frac c \<noteq> None \<and> \<not> rs_drawdown_suspension s
     \<and> (\<exists>p. cx_previous_session_pnl_frac c = Some p \<and> - mval (ru_daily_loss_block_frac r) < mval p)"

definition venue_limits :: "risk_ext \<Rightarrow> rails \<Rightarrow> context_r \<Rightarrow> intent \<Rightarrow> risk_state \<Rightarrow> money \<Rightarrow> bool" where
  "venue_limits x l c i s q \<longleftrightarrow>
     (\<exists>k h. rd_to_i128 x q = Some k \<and> venue_ok l c i s k h \<and> (\<forall>t. rl_trading_hours l = Some t \<longrightarrow> hours_is_open x t (rs_now_us s) = Ok True))"

lemma rule_amounts_parts:
  assumes "rule_amounts x r c i s = Ok a"
  obtains gap z b q0 where
    "rk_sub x (in_entry_price i) (in_stop_loss i) = Ok gap" "size_rule r (risk_frac r i) (in_quantity_rule i) = Ok z"
    "risk_budget x c s (sz_risk_frac z) = Ok (am_risk_budget a)" "sized_quantity x c i z (am_risk_budget a) (dec_abs gap) = Ok q0"
    "clamped_quantity x r i (am_max_position a) q0 = Ok (am_quantity a, am_unclamped a)"
    "rk_mul x (am_quantity a) (dec_abs gap) = Ok (am_risk_amount a)" "rk_mul x (am_quantity a) (in_entry_price i) = Ok (am_notional a)"
    "mul_opt x (cx_equity c) (ru_max_position_notional_frac r) = Ok (am_max_position a)"
    "mul_opt x (cx_equity c) (gross_limit_frac r c) = Ok (am_gross_cap a)"
    "add_opt x (cx_gross_exposure c) (am_notional a) = Ok (am_proposed_gross a)"
    "mul_opt x (cx_equity c) (ru_max_portfolio_heat_frac r) = Ok (am_heat_cap a)"
    "add_opt x (cx_portfolio_heat c) (am_risk_amount a) = Ok (am_heat a)"
    "mul_opt x (cx_average_dollar_volume_20d c) (ru_max_adv_frac r) = Ok (am_adv_limit a)"
  using assms by (auto simp: rule_amounts_def Let_def)

lemma rule_amounts_limits:
  assumes "rule_amounts x r c i s = Ok a" "account_ok r c i s a"
  shows "whole_shares (am_quantity a) \<and> amount_limits x r c i s (am_quantity a)"
proof -
  obtain gap z b q0 where p:
    "rk_sub x (in_entry_price i) (in_stop_loss i) = Ok gap" "size_rule r (risk_frac r i) (in_quantity_rule i) = Ok z"
    "risk_budget x c s (sz_risk_frac z) = Ok (am_risk_budget a)" "sized_quantity x c i z (am_risk_budget a) (dec_abs gap) = Ok q0"
    "clamped_quantity x r i (am_max_position a) q0 = Ok (am_quantity a, am_unclamped a)"
    "rk_mul x (am_quantity a) (dec_abs gap) = Ok (am_risk_amount a)" "rk_mul x (am_quantity a) (in_entry_price i) = Ok (am_notional a)"
    "mul_opt x (cx_equity c) (ru_max_position_notional_frac r) = Ok (am_max_position a)"
    "mul_opt x (cx_equity c) (gross_limit_frac r c) = Ok (am_gross_cap a)"
    "add_opt x (cx_gross_exposure c) (am_notional a) = Ok (am_proposed_gross a)"
    "mul_opt x (cx_equity c) (ru_max_portfolio_heat_frac r) = Ok (am_heat_cap a)"
    "add_opt x (cx_portfolio_heat c) (am_risk_amount a) = Ok (am_heat a)"
    "mul_opt x (cx_average_dollar_volume_20d c) (ru_max_adv_frac r) = Ok (am_adv_limit a)"
    by (rule rule_amounts_parts [OF assms(1)])
  note ok = assms(2) [unfolded account_ok_def at_most_iff]
  have "\<exists>k. from_int k = Some (am_quantity a)" using clamped_quantity_int [OF p(5)] sized_quantity_int [OF p(2,4)] by blast
  then have "whole_shares (am_quantity a)" using ok from_int_whole by blast
  moreover have "amount_limits x r c i s (am_quantity a)"
    unfolding amount_limits_def using ok p(1,3,6,7) size_rule_parts(1) [OF p(2)] p(8-13) unfolding mul_opt_iff add_opt_iff
    by fastforce
  ultimately show ?thesis by blast
qed

lemma account_ok_context: "account_ok r c i s a \<Longrightarrow> context_limits r c i s"
  by (auto simp: account_ok_def context_limits_def regime_ok_def split: option.splits)

lemma evaluate_parts:
  assumes "evaluate x r l c i s = Ok ev"
  obtains a k h where "rule_amounts x r c i s = Ok a" "rd_to_i128 x (am_quantity a) = Some k"
    "\<forall>t. rl_trading_hours l = Some t \<longrightarrow> (\<exists>b. hours_is_open x t (rs_now_us s) = Ok b \<and> h = Some b)"
    "ev = verdict (account_rules x r c i s a @ venue_rails x l c i s (am_quantity a) k h) (am_quantity a)" "in_is_equity i"
  using assms by (auto simp: evaluate_def rval_def split: if_splits option.splits)

lemma verdict_sel [simp]:
  "ev_results (verdict rs q) = rs" "ev_refusals (verdict rs q) = map rr_why (filter (\<lambda>r. \<not> rr_ok r) rs)"
  "ev_approved_quantity (verdict rs q) = Some p \<longleftrightarrow> list_all rr_ok rs \<and> p = q"
  by (auto simp: verdict_def Let_def filter_empty_conv list_all_iff)

lemma approved_parts:
  assumes "evaluate x r l c i s = Ok ev" "ev_approved_quantity ev = Some q"
  obtains a k h where "rule_amounts x r c i s = Ok a" "am_quantity a = q" "account_ok r c i s a" "rd_to_i128 x q = Some k"
    "venue_ok l c i s k h" "\<forall>t. rl_trading_hours l = Some t \<longrightarrow> hours_is_open x t (rs_now_us s) = Ok True"
proof -
  obtain a k h where p: "rule_amounts x r c i s = Ok a" "rd_to_i128 x (am_quantity a) = Some k"
    "\<forall>t. rl_trading_hours l = Some t \<longrightarrow> (\<exists>b. hours_is_open x t (rs_now_us s) = Ok b \<and> h = Some b)"
    "ev = verdict (account_rules x r c i s a @ venue_rails x l c i s (am_quantity a) k h) (am_quantity a)" "in_is_equity i"
    by (rule evaluate_parts [OF assms(1)])
  have all: "list_all rr_ok (account_rules x r c i s a)" "list_all rr_ok (venue_rails x l c i s (am_quantity a) k h)" "q = am_quantity a"
    using assms(2) by (simp_all add: p(4))
  have acc: "account_ok r c i s a" using all(1) by (simp add: account_rules_ok)
  moreover from this have "venue_ok l c i s k h" using all(2) venue_rails_ok by (simp add: account_ok_def)
  moreover from this have "\<forall>t. rl_trading_hours l = Some t \<longrightarrow> hours_is_open x t (rs_now_us s) = Ok True"
    using p(3) by (auto simp: venue_ok_def)
  ultimately show thesis using that p(1,2) all(3) by blast
qed

subsection \<open>Drawdown latches\<close>

text \<open>One observation of the drawdown, and when a latch that is set by \<open>on\<close> and cleared by \<open>off\<close> is set after a run.\<close>

definition drawdown_step :: "rules \<Rightarrow> bool \<times> bool \<Rightarrow> money option \<Rightarrow> bool \<times> bool" where
  "drawdown_step r st d =
     (let res = drawdown_decision r d [] (fst st) (snd st) in (dr_brake res, dr_suspension res))"

definition latched :: "(money \<Rightarrow> bool) \<Rightarrow> (money \<Rightarrow> bool) \<Rightarrow> bool \<Rightarrow> money option list \<Rightarrow> bool" where
  "latched on off b obs \<longleftrightarrow>
     b \<and> (\<forall>d. Some d \<in> set obs \<longrightarrow> \<not> off d)
     \<or> (\<exists>pre d post. obs = pre @ Some d # post \<and> on d \<and> \<not> off d \<and> (\<forall>e. Some e \<in> set post \<longrightarrow> \<not> off e))"

lemma latched_Nil [simp]: "latched on off b [] = b"
  by (simp add: latched_def)

lemma ex_snoc:
  "(\<exists>pre d post. obs @ [y] = pre @ Some d # post \<and> P d post) \<longleftrightarrow>
     (\<exists>d. y = Some d \<and> P d []) \<or> (\<exists>pre d post. obs = pre @ Some d # post \<and> P d (post @ [y]))" (is "?l \<longleftrightarrow> ?a \<or> ?b")
proof
  assume ?l
  then obtain pre d post where p: "obs @ [y] = pre @ Some d # post" "P d post" by blast
  show "?a \<or> ?b"
  proof (cases post rule: rev_cases)
    case Nil
    then show ?thesis using p by auto
  next
    case (snoc ys z)
    then have "obs = pre @ Some d # ys" "z = y" using p(1) by simp_all
    then show ?thesis using p(2) snoc by blast
  qed
next
  assume "?a \<or> ?b"
  then show ?l
  proof
    assume ?b
    then obtain pre d post where "obs = pre @ Some d # post" "P d (post @ [y])" by blast
    then show ?l by (intro exI [of _ pre] exI [of _ d] exI [of _ "post @ [y]"]) simp
  qed blast
qed

lemma latched_None [simp]: "latched on off b (obs @ [None]) = latched on off b obs"
  by (simp add: latched_def ex_snoc)

lemma latched_Some [simp]: "latched on off b (obs @ [Some d]) \<longleftrightarrow> \<not> off d \<and> (latched on off b obs \<or> on d)"
  unfolding latched_def ex_snoc by (cases "off d") auto

lemma drawdown_step_sel:
  "drawdown_step r st None = st"
  "drawdown_step r st (Some d) =
     (\<not> mval d \<le> mval (ru_drawdown_recovery_frac r) \<and> (fst st \<or> mval (ru_drawdown_half_risk_frac r) \<le> mval d),
      \<not> mval d \<le> mval (ru_drawdown_recovery_frac r) \<and> (snd st \<or> mval (ru_drawdown_suspend_frac r) \<le> mval d))"
  by (simp_all add: drawdown_step_def drawdown_decision_def Let_def)

lemma rules_order_Ok:
  assumes "rules_order r0 = Ok r"
  shows "r0 = r" "mval (ru_drawdown_recovery_frac r) < mval (ru_drawdown_half_risk_frac r)"
    "mval (ru_drawdown_half_risk_frac r) < mval (ru_drawdown_suspend_frac r)"
    "mval (ru_bull_chop_gross_exposure_frac r) \<le> mval (ru_max_gross_exposure_frac r)"
  using assms by (auto simp: rules_order_def rcfg_def split: if_splits)

lemma drawdown_run:
  "foldl (drawdown_step r) (b, s) obs =
     (latched (\<lambda>d. mval (ru_drawdown_half_risk_frac r) \<le> mval d) (\<lambda>d. mval d \<le> mval (ru_drawdown_recovery_frac r)) b obs,
      latched (\<lambda>d. mval (ru_drawdown_suspend_frac r) \<le> mval d) (\<lambda>d. mval d \<le> mval (ru_drawdown_recovery_frac r)) s obs)"
proof (induction obs rule: rev_induct)
  case (snoc d obs)
  then show ?case by (cases d) (auto simp: drawdown_step_sel)
qed simp

lemma drawdown_nested:
  assumes "mval (ru_drawdown_half_risk_frac r) < mval (ru_drawdown_suspend_frac r)" "s \<longrightarrow> b"
  shows "snd (foldl (drawdown_step r) (b, s) obs) \<longrightarrow> fst (foldl (drawdown_step r) (b, s) obs)"
proof (induction obs rule: rev_induct)
  case (snoc d obs)
  then show ?case using assms(1) by (cases d) (auto simp: drawdown_step_sel)
qed (use assms(2) in simp)

subsection \<open>Rules and rails the engine accepts\<close>

text \<open>Of the text of a decimal: a decimal that is not zero is read back from what is printed of it.\<close>

definition decimal_text :: "risk_ext \<Rightarrow> bool" where
  "decimal_text x \<longleftrightarrow>
     (\<forall>d. 0 < mantissa d \<and> mantissa d < MANTISSA_LIMIT \<and> scale d \<le> MAX_SCALE \<longrightarrow> rd_from_str x (rd_to_string (rk_ext x) d) = Some d)"

lemma py_literal_valid: "py_literal n a b e = Ok (Finite d) \<Longrightarrow> mantissa d < MANTISSA_LIMIT \<and> scale d \<le> MAX_SCALE"
  by (auto simp: py_literal_def Let_def rval_def try_from_i128_with_scale_def split: if_splits option.splits)

lemma parse_valid: "parse_py_decimal t = Ok (Finite d) \<Longrightarrow> mantissa d < MANTISSA_LIMIT \<and> scale d \<le> MAX_SCALE"
  by (auto simp: parse_py_decimal_def Let_def dest: py_literal_valid split: if_splits option.splits prod.splits)

lemma dec_tag_valid:
  assumes "dec_tag v = Ok (Some (Some d))"
  shows "mantissa d < MANTISSA_LIMIT \<and> scale d \<le> MAX_SCALE"
proof -
  obtain t p where "parse_py_decimal t = Ok p" "(case p of Finite d \<Rightarrow> Some d | _ \<Rightarrow> None) = Some d"
    using assms by (auto simp: dec_tag_def split: rtag.splits)
  then show ?thesis using parse_valid by (cases p) auto
qed

lemma positive_mantissa: "0 < mval d \<Longrightarrow> 0 < mantissa d"
  by (rule ccontr) (simp add: mval_def)

lemma positive_text_get:
  assumes "decimal_text x" "positive_text x m n = Ok p"
  obtains d where "dec_tag (field m n) = Ok (Some (Some d))" "0 < mval d" "fst p = n" "rd_from_str x (snd p) = Some d"
proof -
  obtain d where d: "dec_tag (field m n) = Ok (Some (Some d))" "0 < mval d" "p = (n, rd_to_string (rk_ext x) d)"
    using assms(2) by (auto simp: positive_text_def rcfg_def split: if_splits option.splits)
  then have "rd_from_str x (rd_to_string (rk_ext x) d) = Some d"
    using assms(1) dec_tag_valid [OF d(1)] positive_mantissa [OF d(2)] by (simp add: decimal_text_def)
  then show thesis using that d by simp
qed

lemma positive_get:
  assumes "decimal_text x" "map_r (positive_text x m) ns = Ok dec" "n \<in> set ns"
  shows "dec_tag (field m n) = Ok (Some (Some (dec_get x dec n))) \<and> 0 < mval (dec_get x dec n)"
  using assms(2,3)
proof (induction ns arbitrary: dec)
  case (Cons k ns)
  then obtain p ps where p: "positive_text x m k = Ok p" "map_r (positive_text x m) ns = Ok ps" "dec = p # ps" by auto
  obtain d where d: "dec_tag (field m k) = Ok (Some (Some d))" "0 < mval d" "fst p = k" "rd_from_str x (snd p) = Some d"
    by (rule positive_text_get [OF assms(1) p(1)])
  show ?case
  proof (cases "n = k")
    case True
    then show ?thesis using d p(3) by (cases p) (simp add: dec_get_def)
  next
    case False
    then have "dec_get x dec n = dec_get x ps n" using d(3) p(3) by (cases p) (simp add: dec_get_def)
    then show ?thesis using Cons.IH [OF p(2)] Cons.prems(2) False by simp
  qed
qed simp

lemma fold_unit_all:
  assumes "fold_r f () xs = Ok u" "c \<in> set xs"
  shows "f () c = Ok ()"
  using assms by (induction xs) auto

lemma caps_get:
  assumes "fold_r (cap_check get) () CAPS = Ok u" "(n, w, s) \<in> set CAPS"
  shows "mval (get n) \<le> mval (decimal_new w s)"
  using fold_unit_all [OF assms] by (auto simp: cap_check_def rcfg_def split: if_splits)

definition RULE_FIELDS :: "(string \<times> (rules \<Rightarrow> money)) list" where
  "RULE_FIELDS = [(''risk_per_trade_frac'', ru_risk_per_trade_frac), (''short_risk_per_trade_frac'', ru_short_risk_per_trade_frac),
     (''max_position_notional_frac'', ru_max_position_notional_frac), (''max_gross_exposure_frac'', ru_max_gross_exposure_frac),
     (''bull_chop_gross_exposure_frac'', ru_bull_chop_gross_exposure_frac), (''max_portfolio_heat_frac'', ru_max_portfolio_heat_frac),
     (''min_price'', ru_min_price), (''max_adv_frac'', ru_max_adv_frac), (''drawdown_recovery_frac'', ru_drawdown_recovery_frac),
     (''drawdown_half_risk_frac'', ru_drawdown_half_risk_frac), (''drawdown_suspend_frac'', ru_drawdown_suspend_frac),
     (''daily_loss_block_frac'', ru_daily_loss_block_frac)]"

lemma rule_fields_names: "map fst RULE_FIELDS = POSITIVE"
  by (simp add: RULE_FIELDS_def POSITIVE_def)

lemma rules_from_raw_parts:
  assumes "rules_from_raw x m = Ok r"
  obtains dec where "map_r (positive_text x m) POSITIVE = Ok dec" "fold_r (cap_check (dec_get x dec)) () CAPS = Ok ()"
    "\<forall>p\<in>set RULE_FIELDS. snd p r = dec_get x dec (fst p)" "1 \<le> ru_max_positions r" "1 \<le> ru_max_positions_per_industry r"
    "0 \<le> ru_earnings_blackout_sessions r" "\<exists>r0. rules_order r0 = Ok r"
proof -
  obtain dec pos ind bl cl where p: "map_r (positive_text x m) POSITIVE = Ok dec" "fold_r (cap_check (dec_get x dec)) () CAPS = Ok ()"
    "int_at_least 1 ''max_positions must be a positive integer'' (field m ''max_positions'') = Ok pos"
    "int_at_least 1 ''max_positions_per_industry must be a positive integer'' (field m ''max_positions_per_industry'') = Ok ind"
    "int_at_least 0 ''earnings_blackout_sessions must be non-negative'' (field m ''earnings_blackout_sessions'') = Ok bl"
    "rules_order
       \<lparr>ru_risk_per_trade_frac = dec_get x dec ''risk_per_trade_frac'', ru_short_risk_per_trade_frac = dec_get x dec ''short_risk_per_trade_frac'',
        ru_max_position_notional_frac = dec_get x dec ''max_position_notional_frac'', ru_max_gross_exposure_frac = dec_get x dec ''max_gross_exposure_frac'',
        ru_bull_chop_gross_exposure_frac = dec_get x dec ''bull_chop_gross_exposure_frac'',
        ru_max_portfolio_heat_frac = dec_get x dec ''max_portfolio_heat_frac'', ru_max_positions = pos,
        ru_max_positions_per_industry = ind, ru_min_price = dec_get x dec ''min_price'', ru_max_adv_frac = dec_get x dec ''max_adv_frac'',
        ru_earnings_blackout_sessions = bl, ru_drawdown_half_risk_frac = dec_get x dec ''drawdown_half_risk_frac'',
        ru_drawdown_suspend_frac = dec_get x dec ''drawdown_suspend_frac'', ru_drawdown_recovery_frac = dec_get x dec ''drawdown_recovery_frac'',
        ru_daily_loss_block_frac = dec_get x dec ''daily_loss_block_frac'', ru_clamp_to_position_cap = cl\<rparr> = Ok r"
    using assms by (auto simp: rules_from_raw_def Let_def)
  note r = rules_order_Ok(1) [OF p(6)]
  have low: "int_at_least k e v = Ok n \<Longrightarrow> k \<le> n" for k e v n
    by (auto simp: int_at_least_def rcfg_def split: rtag.splits if_splits)
  have "\<forall>p\<in>set RULE_FIELDS. snd p r = dec_get x dec (fst p)" unfolding r [symmetric] RULE_FIELDS_def by simp
  moreover have "ru_max_positions r = pos" "ru_max_positions_per_industry r = ind" "ru_earnings_blackout_sessions r = bl"
    unfolding r [symmetric] by simp_all
  ultimately show thesis using that [OF p(1,2)] low [OF p(3)] low [OF p(4)] low [OF p(5)] p(6) by blast
qed

lemma live_rails:
  assumes "rails_from_raw x (SObj m) = Ok l" "field m ''environment'' = SStr env" "env = ''paper'' \<or> env = ''live''"
  shows "rl_allowed_symbols l \<noteq> None \<and> rl_max_position_quantity l \<noteq> None \<and> rl_max_orders_per_day l \<noteq> None
    \<and> rl_max_daily_loss l \<noteq> None \<and> rl_trading_hours l \<noteq> None"
proof -
  have env: "rails_environment (field m ''environment'') = Ok env" using assms(2,3) by (auto simp: rails_environment_def)
  obtain venue allowed mp mo ml th dup kill where tail:
    "(if (env = ''paper'' \<or> env = ''live'') \<and> (allowed = None \<or> mp = None \<or> mo = None \<or> ml = None \<or> th = None \<or> dup = None \<or> kill = None)
      then rcfg (env @ '' venue missing required rails'')
      else if (env = ''paper'' \<or> env = ''live'') \<and> (dup \<noteq> Some True \<or> kill \<noteq> Some True)
      then rcfg ''paper/live duplicate protection and persistent kill switch must be enabled''
      else Ok \<lparr>rl_venue_id = venue, rl_allowed_symbols = allowed, rl_max_position_quantity = mp, rl_max_orders_per_day = mo,
        rl_max_daily_loss = ml, rl_trading_hours = th\<rparr>) = Ok l"
    using assms(1) unfolding rails_from_raw_def as_object_def jvalue.case and_then.simps env and_then_Ok_iff by blast
  then show ?thesis using assms(3) by (auto simp: rcfg_def split: if_splits)
qed

subsection \<open>The risk of an approved order, exactly\<close>

text \<open>
  Of the arithmetic of \<open>rust_decimal\<close>: a product and a difference whose digits fit the mantissa and the scale are
  exact, and rescaling a zero leaves a zero.
\<close>

definition aligned_sum :: "money \<Rightarrow> money \<Rightarrow> nat" where
  "aligned_sum a b =
     mantissa a * 10 ^ (max (scale a) (scale b) - scale a) + mantissa b * 10 ^ (max (scale a) (scale b) - scale b)"

definition decimal_exact :: "risk_ext \<Rightarrow> bool" where
  "decimal_exact x \<longleftrightarrow>
     (\<forall>a b. mantissa a * mantissa b < MANTISSA_LIMIT \<and> scale a + scale b \<le> MAX_SCALE \<longrightarrow>
        (\<exists>p. rd_checked_mul x a b = Some p \<and> mval p = mval a * mval b \<and> mantissa p \<le> mantissa a * mantissa b
           \<and> scale p \<le> scale a + scale b))
     \<and> (\<forall>a b. aligned_sum a b < MANTISSA_LIMIT \<and> max (scale a) (scale b) \<le> MAX_SCALE \<longrightarrow>
        (\<exists>d. rd_checked_sub (rk_ext x) a b = Some d \<and> mval d = mval a - mval b \<and> mantissa d \<le> aligned_sum a b
           \<and> scale d \<le> max (scale a) (scale b)))
     \<and> (\<forall>d n. mantissa d = 0 \<and> n \<le> MAX_SCALE \<longrightarrow>
        mantissa (rd_rescale (rk_ext x) d n) = 0 \<and> scale (rd_rescale (rk_ext x) d n) = n)"

lemma mval_zero: "mantissa d = 0 \<Longrightarrow> mval d = 0"
  by (simp add: mval_def)

lemma zero_scale_exact:
  assumes "decimal_exact x" "k \<le> 28" "scale p \<le> k"
  shows "mval (zero_scale x p k) = mval p" "mantissa (zero_scale x p k) \<le> mantissa p" "scale (zero_scale x p k) \<le> k"
  using assms by (auto simp: zero_scale_def decimal_exact_def MAX_SCALE_def mval_zero)

text \<open>A decimal of at most \<open>s\<close> places whose digits are below \<open>m\<close>.\<close>

definition digits_in :: "nat \<Rightarrow> nat \<Rightarrow> money \<Rightarrow> bool" where
  "digits_in m s d \<longleftrightarrow> mantissa d \<le> m \<and> scale d \<le> s"

lemma rk_mul_exact:
  assumes "decimal_exact x" "digits_in m s a" "digits_in n t b" "m * n < MANTISSA_LIMIT" "s + t \<le> 28" "rk_mul x a b = Ok p"
  shows "mval p = mval a * mval b" "digits_in (m * n) (s + t) p"
proof -
  have le: "mantissa a * mantissa b \<le> m * n" "scale a + scale b \<le> s + t"
    using assms(2,3) by (auto simp: digits_in_def intro: mult_le_mono)
  then obtain p0 where p0: "rd_checked_mul x a b = Some p0" "mval p0 = mval a * mval b" "mantissa p0 \<le> mantissa a * mantissa b"
      "scale p0 \<le> scale a + scale b"
    using assms(1,4,5) unfolding decimal_exact_def MAX_SCALE_def by (meson le_trans order_le_less_trans)
  have p: "p = zero_scale x p0 (scale a + scale b)" using assms(6) p0(1) by (simp add: rk_mul_def ck_def)
  have k: "scale a + scale b \<le> 28" using le(2) assms(5) by linarith
  note z = zero_scale_exact [OF assms(1) k p0(4)]
  show "mval p = mval a * mval b" using z(1) p0(2) p by simp
  show "digits_in (m * n) (s + t) p" using z(2,3) p0(3) le p by (auto simp: digits_in_def)
qed

lemma aligned_sum_le:
  assumes "digits_in m s a" "digits_in n t b"
  shows "aligned_sum a b \<le> (m + n) * 10 ^ max s t" "max (scale a) (scale b) \<le> max s t"
proof -
  have "max (scale a) (scale b) - scale a \<le> max s t" "max (scale a) (scale b) - scale b \<le> max s t"
    using assms by (auto simp: digits_in_def)
  then have "(10::nat) ^ (max (scale a) (scale b) - scale a) \<le> 10 ^ max s t" "(10::nat) ^ (max (scale a) (scale b) - scale b) \<le> 10 ^ max s t"
    by (simp_all add: power_increasing)
  then have "aligned_sum a b \<le> m * 10 ^ max s t + n * 10 ^ max s t"
    using assms unfolding aligned_sum_def digits_in_def by (intro add_mono mult_le_mono) auto
  then show "aligned_sum a b \<le> (m + n) * 10 ^ max s t" by (simp add: add_mult_distrib)
  show "max (scale a) (scale b) \<le> max s t" using assms by (auto simp: digits_in_def)
qed

lemma rk_sub_exact:
  assumes "decimal_exact x" "digits_in m s a" "digits_in n t b" "(m + n) * 10 ^ max s t < MANTISSA_LIMIT" "max s t \<le> 28" "rk_sub x a b = Ok p"
  shows "mval p = mval a - mval b" "digits_in ((m + n) * 10 ^ max s t) (max s t) p"
proof -
  note le = aligned_sum_le [OF assms(2,3)]
  obtain p0 where p0: "rd_checked_sub (rk_ext x) a b = Some p0" "mval p0 = mval a - mval b" "mantissa p0 \<le> aligned_sum a b"
      "scale p0 \<le> max (scale a) (scale b)"
    using assms(1,4,5) le unfolding decimal_exact_def MAX_SCALE_def by (meson le_trans order_le_less_trans)
  have p: "p = zero_scale x p0 (max (scale a) (scale b))" using assms(6) p0(1) by (simp add: rk_sub_def ck_def)
  have k: "max (scale a) (scale b) \<le> 28" using le(2) assms(5) by linarith
  note z = zero_scale_exact [OF assms(1) k p0(4)]
  show "mval p = mval a - mval b" using z(1) p0(2) p by simp
  show "digits_in ((m + n) * 10 ^ max s t) (max s t) p" using z(2,3) p0(3) le p by (auto simp: digits_in_def)
qed

lemma mval_dec_abs [simp]: "mval (dec_abs d) = \<bar>mval d\<bar>"
  by (cases "neg_bit d") (simp_all add: dec_abs_def mval_def dval_def abs_mult)

lemma digits_abs [simp]: "digits_in m s (dec_abs d) = digits_in m s d"
  by (simp add: digits_in_def dec_abs_def)

lemma scale_factors:
  "mval (regime_scale c) = (if cx_regime c = Some ''BULL_CHOPIER'' then 1 / 2 else 1)" "digits_in 5 1 (regime_scale c)"
  "mval (drawdown_scale s) = (if rs_drawdown_brake s then 1 / 2 else 1)" "digits_in 5 1 (drawdown_scale s)"
  by (simp_all add: regime_scale_def drawdown_scale_def HALF_def ONE_def decimal_new_def mval_def dval_def digits_in_def power_int_minus)

lemma risk_budget_exact:
  assumes "decimal_exact x" "cx_equity c = Some e" "digits_in (10 ^ 18) 6 e" "digits_in (10 ^ 7) 8 f" "risk_budget x c s f = Ok b"
  shows "mval b = mval e * mval f * mval (regime_scale c) * mval (drawdown_scale s)"
proof -
  obtain p1 p2 where p: "rk_mul x e f = Ok p1" "rk_mul x p1 (regime_scale c) = Ok p2" "rk_mul x p2 (drawdown_scale s) = Ok b"
    using assms(2,5) by (auto simp: risk_budget_def scaled_frac_def)
  have lim: "(10 ^ 18 * 10 ^ 7 :: nat) < MANTISSA_LIMIT" "10 ^ 18 * 10 ^ 7 * 5 < MANTISSA_LIMIT" "10 ^ 18 * 10 ^ 7 * 5 * 5 < MANTISSA_LIMIT"
    by (simp_all add: MANTISSA_LIMIT_def)
  note m1 = rk_mul_exact [OF assms(1,3,4) lim(1) _ p(1)]
  note m2 = rk_mul_exact [OF assms(1) m1(2) scale_factors(2) lim(2) _ p(2)]
  note m3 = rk_mul_exact [OF assms(1) m2(2) scale_factors(4) lim(3) _ p(3)]
  show ?thesis using m1(1) m2(1) m3(1) by simp
qed

lemma rule_amounts_core:
  assumes "rule_amounts x r c i s = Ok a" "size_rule r (risk_frac r i) (in_quantity_rule i) = Ok z" "cx_equity c = Some e"
  shows "\<exists>gap. rk_sub x (in_entry_price i) (in_stop_loss i) = Ok gap \<and> rk_mul x (am_quantity a) (dec_abs gap) = Ok (am_risk_amount a)
    \<and> rk_mul x (am_quantity a) (in_entry_price i) = Ok (am_notional a) \<and> risk_budget x c s (sz_risk_frac z) = Ok (am_risk_budget a)
    \<and> rk_mul x e (ru_max_position_notional_frac r) = Ok (the (am_max_position a))"
  using assms by (auto simp: rule_amounts_def Let_def mul_opt_iff)

end
