(* ===== verification/Risk_Samples.thy ===== *)
theory Risk_Samples
  imports Risk_Inv Samples
begin

section \<open>A concrete decimal arithmetic and a request\<close>

text \<open>
  Decimals with exact products and differences, printed as their digits and scale, on the sample calendar; and an intent
  that the rules approve: 75 shares at 100 with a stop at 95 on equity of 50000 at a risk of three quarters of a percent.
\<close>

definition dec_print :: "money \<Rightarrow> string" where
  "dec_print d = (if neg_bit d then ''-'' else []) @ nat_to_string (mantissa d) @ ''e-'' @ nat_to_string (scale d)"

definition dec_read :: "string \<Rightarrow> money option" where
  "dec_read t =
     (let (neg, body) = sign_split t in
      case split_once (CHR ''e'') body of
        Some (m, k) \<Rightarrow> Some \<lparr>neg_bit = neg, mantissa = num m, scale = num (drop 1 k)\<rparr>
      | None \<Rightarrow> None)"

definition dec_mul :: "money \<Rightarrow> money \<Rightarrow> money option" where
  "dec_mul a b =
     (if mantissa a * mantissa b < MANTISSA_LIMIT \<and> scale a + scale b \<le> MAX_SCALE
      then Some \<lparr>neg_bit = (neg_bit a \<noteq> neg_bit b), mantissa = mantissa a * mantissa b, scale = scale a + scale b\<rparr> else None)"

definition signed_at :: "nat \<Rightarrow> money \<Rightarrow> int" where
  "signed_at k d = (if neg_bit d then - 1 else 1) * int (mantissa d * 10 ^ (k - scale d))"

definition dec_sub :: "money \<Rightarrow> money \<Rightarrow> money option" where
  "dec_sub a b =
     (let k = max (scale a) (scale b); v = signed_at k a - signed_at k b in
      if nat \<bar>v\<bar> < MANTISSA_LIMIT \<and> k \<le> MAX_SCALE then Some \<lparr>neg_bit = v < 0, mantissa = nat \<bar>v\<bar>, scale = k\<rparr> else None)"

definition dec_add :: "money \<Rightarrow> money \<Rightarrow> money option" where
  "dec_add a b = dec_sub a (dec_neg b)"

definition dec_div :: "money \<Rightarrow> money \<Rightarrow> money option" where
  "dec_div a b =
     Some \<lparr>neg_bit = (neg_bit a \<noteq> neg_bit b), mantissa = mantissa a * 10 ^ (scale b + 6) div (mantissa b * 10 ^ scale a), scale = 6\<rparr>"

definition dec_trunc :: "money \<Rightarrow> int" where
  "dec_trunc d = (if neg_bit d then - 1 else 1) * int (mantissa d div 10 ^ scale d)"

definition dec_floor :: "money \<Rightarrow> money" where
  "dec_floor d =
     (let v = ((if neg_bit d then - 1 else 1) * int (mantissa d)) div 10 ^ scale d in \<lparr>neg_bit = v < 0, mantissa = nat \<bar>v\<bar>, scale = 0\<rparr>)"

definition s_risk :: risk_ext where
  "s_risk = \<lparr>rk_ext = sample_ext\<lparr>rd_checked_add := dec_add, rd_checked_sub := dec_sub,
       rd_rescale := (\<lambda>d n. if mantissa d = 0 then d\<lparr>scale := n\<rparr> else d), rd_to_string := dec_print\<rparr>,
     rd_checked_mul = dec_mul, rd_checked_div = dec_div,
     rd_floor = dec_floor, rd_to_i128 = (\<lambda>d. Some (dec_trunc d)), rd_from_str = dec_read,
     tz_known = (\<lambda>t. t = ''America/New_York''), micros_in_range = (\<lambda>t. True),
     tz_local = (\<lambda>z us. case ny_local sample_ext (us div 1000000) of (d, sod) \<Rightarrow> (d, sod * 1000000 + nat (us mod 1000000)))\<rparr>"

subsection \<open>The laws hold of it\<close>

lemma digit_text: "d < 10 \<Longrightarrow> digit_byte (digit_char d)" "d < 10 \<Longrightarrow> of_char (digit_char d) = 48 + d"
  by (simp_all add: digit_byte_def digit_char_def is_digit_def)

lemma num_text: "num (nat_to_string n) = n"
proof -
  have "map (\<lambda>c. of_char c - 48) (nat_to_string n) = dec_digits n"
    by (auto simp: nat_to_string_def dec_digits_bound digit_text intro!: map_idI)
  then show ?thesis by (simp add: num_def)
qed

lemma text_digits: "c \<in> set (nat_to_string n) \<Longrightarrow> digit_byte c"
  by (auto simp: nat_to_string_def dec_digits_bound digit_text)

lemma digit_not: "digit_byte c \<Longrightarrow> c \<noteq> CHR ''e'' \<and> c \<noteq> CHR ''-'' \<and> c \<noteq> CHR ''+''"
  by (auto simp: digit_byte_def is_digit_def)

lemma sign_split_digits: "t \<noteq> [] \<Longrightarrow> digit_byte (hd t) \<Longrightarrow> sign_split (CHR ''-'' # t) = (True, t) \<and> sign_split t = (False, t)"
  using digit_not by (cases t) (auto simp: sign_split_def strip_prefix_def)

lemma dec_read_print: "dec_read (dec_print d) = Some d"
proof -
  let ?m = "nat_to_string (mantissa d)"
  have ne: "?m \<noteq> []" by (simp add: nat_to_string_def)
  have body: "sign_split (dec_print d) = (neg_bit d, ?m @ ''e-'' @ nat_to_string (scale d))"
    using sign_split_digits [of "?m @ ''e-'' @ nat_to_string (scale d)"] ne text_digits [of "hd ?m" "mantissa d"]
    by (cases "neg_bit d") (auto simp: dec_print_def)
  have "takeWhile (\<lambda>c. c \<noteq> CHR ''e'') (?m @ ''e-'' @ nat_to_string (scale d)) = ?m"
    using text_digits digit_not by (simp add: takeWhile_append)
  then have "split_once (CHR ''e'') (?m @ ''e-'' @ nat_to_string (scale d)) = Some (?m, ''-'' @ nat_to_string (scale d))"
    by (simp add: split_once_def Let_def)
  then show ?thesis by (simp add: dec_read_def body num_text)
qed

lemma s_risk_text: "decimal_text s_risk"
  by (simp add: decimal_text_def s_risk_def dec_read_print)

lemma mval_signed: "scale d \<le> k \<Longrightarrow> mval d = of_int (signed_at k d) / 10 ^ k"
proof -
  assume "scale d \<le> k"
  then have "(10::rat) ^ k = 10 ^ (k - scale d) * 10 ^ scale d" by (simp flip: power_add)
  then show ?thesis by (simp add: mval_def dval_def signed_at_def sgnr_def power_int_minus field_simps)
qed

lemma mval_of_int: "mval \<lparr>neg_bit = v < 0, mantissa = nat \<bar>v\<bar>, scale = k\<rparr> = of_int v / 10 ^ k"
  by (cases "v < 0") (simp_all add: mval_def dval_def power_int_minus divide_inverse)

lemma dec_mul_exact:
  assumes "mantissa a * mantissa b < MANTISSA_LIMIT" "scale a + scale b \<le> MAX_SCALE"
  shows "\<exists>p. dec_mul a b = Some p \<and> mval p = mval a * mval b \<and> mantissa p \<le> mantissa a * mantissa b \<and> scale p \<le> scale a + scale b"
proof -
  have "sgnr (neg_bit a \<noteq> neg_bit b) * of_nat (mantissa a * mantissa b) * 10 powi (- int (scale a + scale b)) = mval a * mval b"
    by (cases "neg_bit a"; cases "neg_bit b") (simp_all add: mval_def dval_def power_int_minus power_add del: of_nat_add)
  then show ?thesis using assms by (simp add: dec_mul_def mval_def dval_def)
qed

lemma dec_sub_exact:
  assumes "aligned_sum a b < MANTISSA_LIMIT" "max (scale a) (scale b) \<le> MAX_SCALE"
  shows "\<exists>d. dec_sub a b = Some d \<and> mval d = mval a - mval b \<and> mantissa d \<le> aligned_sum a b \<and> scale d \<le> max (scale a) (scale b)"
proof -
  let ?k = "max (scale a) (scale b)" and ?v = "signed_at (max (scale a) (scale b)) a - signed_at (max (scale a) (scale b)) b"
  let ?d = "\<lparr>neg_bit = ?v < 0, mantissa = nat \<bar>?v\<bar>, scale = ?k\<rparr>"
  have abs: "\<bar>signed_at ?k d\<bar> = int (mantissa d * 10 ^ (?k - scale d))" for d by (simp add: signed_at_def abs_mult)
  have "\<bar>?v\<bar> \<le> \<bar>signed_at ?k a\<bar> + \<bar>signed_at ?k b\<bar>" by (rule abs_triangle_ineq4)
  then have le: "nat \<bar>?v\<bar> \<le> aligned_sum a b" by (simp only: abs aligned_sum_def) linarith
  have "mval ?d = of_int ?v / 10 ^ ?k" by (rule mval_of_int)
  also have "\<dots> = mval a - mval b" using mval_signed [of a ?k] mval_signed [of b ?k] by (simp add: diff_divide_distrib)
  finally show ?thesis using assms le by (simp add: dec_sub_def Let_def)
qed

lemma s_risk_exact: "decimal_exact s_risk"
  unfolding decimal_exact_def using dec_mul_exact dec_sub_exact by (simp add: s_risk_def)

subsection \<open>A request\<close>

definition tag_dec :: "string \<Rightarrow> jvalue" where "tag_dec t = SObj [(''d'', SStr t)]"
definition tag_num :: "int \<Rightarrow> jvalue" where "tag_num n = SNum (Some n)"

definition s_rules_raw :: "(string \<times> jvalue) list" where
  "s_rules_raw = [(''risk_per_trade_frac'', tag_dec ''0.0075''), (''short_risk_per_trade_frac'', tag_dec ''0.005''),
     (''max_position_notional_frac'', tag_dec ''0.20''), (''max_gross_exposure_frac'', tag_dec ''1.50''),
     (''bull_chop_gross_exposure_frac'', tag_dec ''1.00''), (''max_portfolio_heat_frac'', tag_dec ''0.06''),
     (''max_positions'', tag_num 10), (''max_positions_per_industry'', tag_num 3), (''min_price'', tag_dec ''5''),
     (''max_adv_frac'', tag_dec ''0.01''), (''earnings_blackout_sessions'', tag_num 5), (''drawdown_half_risk_frac'', tag_dec ''0.08''),
     (''drawdown_suspend_frac'', tag_dec ''0.15''), (''drawdown_recovery_frac'', tag_dec ''0.05''),
     (''daily_loss_block_frac'', tag_dec ''0.03''), (''clamp_to_position_cap'', SBool False)]"

definition s_rules :: rules where
  "s_rules = \<lparr>ru_risk_per_trade_frac = decimal_new 75 4, ru_short_risk_per_trade_frac = decimal_new 5 3,
     ru_max_position_notional_frac = decimal_new 20 2, ru_max_gross_exposure_frac = decimal_new 150 2,
     ru_bull_chop_gross_exposure_frac = decimal_new 100 2, ru_max_portfolio_heat_frac = decimal_new 6 2, ru_max_positions = 10,
     ru_max_positions_per_industry = 3, ru_min_price = decimal_new 5 0, ru_max_adv_frac = decimal_new 1 2,
     ru_earnings_blackout_sessions = 5, ru_drawdown_half_risk_frac = decimal_new 8 2, ru_drawdown_suspend_frac = decimal_new 15 2,
     ru_drawdown_recovery_frac = decimal_new 5 2, ru_daily_loss_block_frac = decimal_new 3 2, ru_clamp_to_position_cap = False\<rparr>"

definition s_rails_raw :: "(string \<times> jvalue) list" where
  "s_rails_raw = [(''venue_id'', SStr ''paper-main''), (''environment'', SStr ''paper''),
     (''allowed_symbols'', SObj [(''items'', SArr [SStr ''MSFT'', SStr ''AAPL''])]), (''max_position_quantity'', tag_num 1000),
     (''max_orders_per_day'', tag_num 100), (''max_daily_loss'', tag_dec ''5000''),
     (''trading_hours'', SObj [(''hours'', SObj [(''timezone'', SStr ''America/New_York''),
        (''weekdays'', SArr (map tag_num [0, 1, 2, 3, 4])), (''opens'', SObj [(''micros'', tag_num 34200000000)]),
        (''closes'', SObj [(''micros'', tag_num 57600000000)]), (''exchange'', SStr ''XNYS'')])]),
     (''duplicate_protection'', SBool True), (''persistent_kill_switch'', SBool True)]"

definition s_rails :: rails where
  "s_rails = \<lparr>rl_venue_id = ''paper-main'', rl_allowed_symbols = Some [''AAPL'', ''MSFT''], rl_max_position_quantity = Some 1000,
     rl_max_orders_per_day = Some 100, rl_max_daily_loss = Some (decimal_new 5000 0),
     rl_trading_hours = Some \<lparr>ho_timezone = ''America/New_York'', ho_weekdays = [0, 1, 2, 3, 4], ho_opens = 34200000000,
       ho_closes = 57600000000\<rparr>\<rparr>"

definition s_context :: context_r where
  "s_context = \<lparr>cx_equity = Some (decimal_new 50000 0), cx_current_price = Some (decimal_new 100 0),
     cx_gross_exposure = Some (decimal_new 0 0), cx_portfolio_heat = Some (decimal_new 0 0), cx_open_positions = Some 0,
     cx_industry = Some ''Technology'', cx_industry_positions = Some 0, cx_average_dollar_volume_20d = Some (decimal_new 1000000000 0),
     cx_sessions_until_earnings = Some 6, cx_regime = Some ''BULL_EXPLOSIVE'', cx_macro_high_risk_day = Some False,
     cx_drawdown_from_peak_frac = Some (decimal_new 2 2), cx_previous_session_pnl_frac = Some (decimal_new 0 0),
     cx_venue_orders_today = Some 0, cx_venue_daily_pnl = Some (decimal_new 0 0), cx_current_position_quantity = Some 0\<rparr>"

definition s_intent :: intent where
  "s_intent = \<lparr>in_is_equity = True, in_symbol = ''AAPL'', in_side = Buy, in_quantity_rule = ''risk_0.75pct'',
     in_entry_price = decimal_new 100 0, in_stop_loss = decimal_new 95 0, in_command_id = ''command-1''\<rparr>"

text \<open>The third of January 2000, a Monday, at ten in New York.\<close>

definition s_state :: risk_state where
  "s_state = \<lparr>rs_now_us = 946911600000000, rs_now_label = ''2000-01-03T15:00:00+00:00'', rs_command_known = False,
     rs_kill_switch = False, rs_drawdown_brake = False, rs_drawdown_suspension = False\<rparr>"

definition s_evaluation :: evaluation where
  "s_evaluation = (case evaluate s_risk s_rules s_rails s_context s_intent s_state of
     Ok ev \<Rightarrow> ev | Err _ \<Rightarrow> \<lparr>ev_results = [], ev_refusals = [], ev_approved_quantity = None\<rparr>)"

lemma s_rules_read: "rules_from_raw s_risk s_rules_raw = Ok s_rules"
  by code_simp

lemma s_rails_read: "rails_from_raw s_risk (SObj s_rails_raw) = Ok s_rails"
  by code_simp

lemma s_evaluated: "evaluate s_risk s_rules s_rails s_context s_intent s_state = Ok s_evaluation"
    "ev_approved_quantity s_evaluation = Some (decimal_new 75 0)"
proof -
  have "is_ok (evaluate s_risk s_rules s_rails s_context s_intent s_state)" by code_simp
  then show "evaluate s_risk s_rules s_rails s_context s_intent s_state = Ok s_evaluation"
    by (auto simp: is_ok_iff s_evaluation_def)
  show "ev_approved_quantity s_evaluation = Some (decimal_new 75 0)" by code_simp
qed

end
