(* ===== verification/Risk_Props.thy ===== *)
theory Risk_Props
  imports Risk_Samples
begin

section \<open>What an approval of the risk rules promises\<close>

text \<open>
  Every rule is recorded; an approval is for a positive whole number of shares and within every limit of the
  account and of the venue; the latches of the drawdown controls follow the drawdown with hysteresis; and the
  rules and rails the engine accepts are in range. Each property is applied to the sample request.
\<close>

text \<open>
  C11. An evaluation records all twenty-one rules, in their order, whatever fails first; its refusals are the
  reasons of the rules that fail; and it approves a quantity only when no rule fails: then the quantity is
  a positive whole number of shares, its risk is within the budget of at most the account's risk fraction, its
  notional, the gross exposure, the heat and the share of the traded volume are within their caps, no input that a
  limit reads is unknown, the venue's rails hold, the command is new and the kill switch and the suspension are off.
\<close>

theorem approval_is_within_limits:
  assumes "evaluate x r l c i s = Ok ev"
  shows "map rr_rule (ev_results ev) = RULE_NAMES \<and> length (ev_results ev) = RULE_COUNT
    \<and> ev_refusals ev = map rr_why (filter (\<lambda>p. \<not> rr_ok p) (ev_results ev))
    \<and> (ev_approved_quantity ev = None \<longleftrightarrow> ev_refusals ev \<noteq> [])
    \<and> (\<forall>q. ev_approved_quantity ev = Some q \<longrightarrow>
         in_is_equity i \<and> whole_shares q \<and> amount_limits x r c i s q \<and> context_limits r c i s \<and> venue_limits x l c i s q)"
proof -
  obtain a k h where p: "rule_amounts x r c i s = Ok a" "rd_to_i128 x (am_quantity a) = Some k"
    "\<forall>t. rl_trading_hours l = Some t \<longrightarrow> (\<exists>b. hours_is_open x t (rs_now_us s) = Ok b \<and> h = Some b)"
    "ev = verdict (account_rules x r c i s a @ venue_rails x l c i s (am_quantity a) k h) (am_quantity a)" "in_is_equity i"
    by (rule evaluate_parts [OF assms])
  have "map rr_rule (ev_results ev) = RULE_NAMES" unfolding p(4) verdict_sel by (rule rule_names)
  moreover from this have "length (ev_results ev) = RULE_COUNT" by (metis length_map RULE_NAMES_count)
  moreover have "ev_approved_quantity ev = None \<longleftrightarrow> ev_refusals ev \<noteq> []" by (simp add: p(4) verdict_def Let_def)
  moreover have "whole_shares q \<and> amount_limits x r c i s q \<and> context_limits r c i s \<and> venue_limits x l c i s q"
    if "ev_approved_quantity ev = Some q" for q
    using approved_parts [OF assms that] rule_amounts_limits account_ok_context unfolding venue_limits_def by metis
  ultimately show ?thesis using p(5) by (simp add: p(4))
qed

theorem approval_is_within_limits_witness:
  "evaluate s_risk s_rules s_rails s_context s_intent s_state = Ok s_evaluation \<and> length (ev_results s_evaluation) = RULE_COUNT
   \<and> ev_approved_quantity s_evaluation = Some (decimal_new 75 0) \<and> whole_shares (decimal_new 75 0)
   \<and> amount_limits s_risk s_rules s_context s_intent s_state (decimal_new 75 0)
   \<and> venue_limits s_risk s_rails s_context s_intent s_state (decimal_new 75 0)"
  using approval_is_within_limits [OF s_evaluated(1)] s_evaluated by blast

text \<open>
  C14. Under rules the engine accepts, after any run of observations of the drawdown the brake is set exactly
  when the drawdown reached the half-risk threshold at some observation after which it never came back to the
  recovery threshold, or was set before and there was no recovery; the suspension likewise at its threshold. An unknown
  drawdown changes nothing, a suspended account is also braked, and a decision reports exactly the latches that change.
\<close>

theorem drawdown_latches:
  assumes "rules_order r0 = Ok r"
  shows "foldl (drawdown_step r) (b, s) obs =
      (latched (\<lambda>d. mval (ru_drawdown_half_risk_frac r) \<le> mval d) (\<lambda>d. mval d \<le> mval (ru_drawdown_recovery_frac r)) b obs,
       latched (\<lambda>d. mval (ru_drawdown_suspend_frac r) \<le> mval d) (\<lambda>d. mval d \<le> mval (ru_drawdown_recovery_frac r)) s obs)
    \<and> ((s \<longrightarrow> b) \<longrightarrow> snd (foldl (drawdown_step r) (b, s) obs) \<longrightarrow> fst (foldl (drawdown_step r) (b, s) obs))
    \<and> map (\<lambda>c. (cc_control_id c, cc_enabled c)) (dr_changes (drawdown_decision r d t b s)) =
        filter (\<lambda>(n, v). v \<noteq> (if n = ''drawdown_brake'' then b else s))
          [(''drawdown_brake'', dr_brake (drawdown_decision r d t b s)),
           (''drawdown_suspension'', dr_suspension (drawdown_decision r d t b s))]"
proof -
  have "map (\<lambda>c. (cc_control_id c, cc_enabled c)) (dr_changes (drawdown_decision r d t b s)) =
      filter (\<lambda>(n, v). v \<noteq> (if n = ''drawdown_brake'' then b else s))
        [(''drawdown_brake'', dr_brake (drawdown_decision r d t b s)),
         (''drawdown_suspension'', dr_suspension (drawdown_decision r d t b s))]"
    by (auto simp: drawdown_decision_def control_of_def Let_def split: option.splits)
  then show ?thesis using drawdown_run drawdown_nested [OF rules_order_Ok(3) [OF assms]] by blast
qed

theorem drawdown_latches_witness:
  "rules_order s_rules = Ok s_rules
   \<and> foldl (drawdown_step s_rules) (False, False) [Some (decimal_new 9 2), None, Some (decimal_new 6 2)] = (True, False)
   \<and> foldl (drawdown_step s_rules) (False, False) [Some (decimal_new 16 2), Some (decimal_new 5 2)] = (False, False)
   \<and> latched (\<lambda>d. mval (ru_drawdown_half_risk_frac s_rules) \<le> mval d) (\<lambda>d. mval d \<le> mval (ru_drawdown_recovery_frac s_rules))
       False [Some (decimal_new 9 2), None, Some (decimal_new 6 2)]"
proof -
  have r: "rules_order s_rules = Ok s_rules" by code_simp
  have run: "foldl (drawdown_step s_rules) (False, False) [Some (decimal_new 9 2), None, Some (decimal_new 6 2)] = (True, False)"
    "foldl (drawdown_step s_rules) (False, False) [Some (decimal_new 16 2), Some (decimal_new 5 2)] = (False, False)" by code_simp+
  then show ?thesis
    using r drawdown_latches [OF r, of False False "[Some (decimal_new 9 2), None, Some (decimal_new 6 2)]" None "[]"] by simp
qed

text \<open>
  C15. When the text of a decimal is read back as the decimal, the rules that \<open>from_raw\<close> accepts are the numbers that
  were written, all positive, none above its sanity cap, with whole counts in range and the thresholds in order:
  recovery below half risk, half risk below suspension, and the exposure of a choppy market within the maximum.
\<close>

theorem rules_in_range:
  assumes "decimal_text x" "rules_from_raw x m = Ok r"
  shows "(\<forall>p\<in>set RULE_FIELDS. dec_tag (field m (fst p)) = Ok (Some (Some (snd p r))) \<and> 0 < mval (snd p r)
      \<and> (\<forall>w k. (fst p, w, k) \<in> set CAPS \<longrightarrow> mval (snd p r) \<le> mval (decimal_new w k)))
    \<and> 1 \<le> ru_max_positions r \<and> 1 \<le> ru_max_positions_per_industry r \<and> 0 \<le> ru_earnings_blackout_sessions r
    \<and> mval (ru_drawdown_recovery_frac r) < mval (ru_drawdown_half_risk_frac r)
    \<and> mval (ru_drawdown_half_risk_frac r) < mval (ru_drawdown_suspend_frac r)
    \<and> mval (ru_bull_chop_gross_exposure_frac r) \<le> mval (ru_max_gross_exposure_frac r)"
proof -
  obtain dec where p: "map_r (positive_text x m) POSITIVE = Ok dec" "fold_r (cap_check (dec_get x dec)) () CAPS = Ok ()"
    "\<forall>p\<in>set RULE_FIELDS. snd p r = dec_get x dec (fst p)" "1 \<le> ru_max_positions r" "1 \<le> ru_max_positions_per_industry r"
    "0 \<le> ru_earnings_blackout_sessions r" "\<exists>r0. rules_order r0 = Ok r"
    by (rule rules_from_raw_parts [OF assms(2)])
  have "fst p \<in> set POSITIVE" if "p \<in> set RULE_FIELDS" for p using that rule_fields_names by (metis image_eqI set_map)
  then have "\<forall>p\<in>set RULE_FIELDS. dec_tag (field m (fst p)) = Ok (Some (Some (snd p r))) \<and> 0 < mval (snd p r)
      \<and> (\<forall>w k. (fst p, w, k) \<in> set CAPS \<longrightarrow> mval (snd p r) \<le> mval (decimal_new w k))"
    using p(3) positive_get [OF assms(1) p(1)] caps_get [OF p(2)] by simp
  then show ?thesis using p(4-7) rules_order_Ok(2-4) by metis
qed

theorem rules_in_range_witness:
  "decimal_text s_risk \<and> rules_from_raw s_risk s_rules_raw = Ok s_rules \<and> 0 < mval (ru_risk_per_trade_frac s_rules)
   \<and> mval (ru_risk_per_trade_frac s_rules) \<le> mval (decimal_new 5 2)"
  using rules_in_range [OF s_risk_text s_rules_read] s_risk_text s_rules_read by (simp add: RULE_FIELDS_def CAPS_def)

text \<open>
  C13. On a paper or live venue no rail may be left out: what \<open>from_raw\<close> accepts has all of them. So an approval
  there is for a symbol on the allowlist, in trading hours, with the position after the order, the orders of the day and the
  venue's loss of the day known and within their limits.
\<close>

theorem live_venue_approval:
  assumes "rails_from_raw x (SObj m) = Ok l" "field m ''environment'' = SStr env" "env = ''paper'' \<or> env = ''live''"
    and "evaluate x r l c i s = Ok ev" "ev_approved_quantity ev = Some q"
  shows "\<exists>ss mp mo ml h p n d k. rl_allowed_symbols l = Some ss \<and> rl_max_position_quantity l = Some mp
    \<and> rl_max_orders_per_day l = Some mo \<and> rl_max_daily_loss l = Some ml \<and> rl_trading_hours l = Some h
    \<and> in_symbol i \<in> set ss \<and> hours_is_open x h (rs_now_us s) = Ok True
    \<and> cx_current_position_quantity c = Some p \<and> rd_to_i128 x q = Some k \<and> \<bar>if in_side i = Sell then p - k else p + k\<bar> \<le> mp
    \<and> cx_venue_orders_today c = Some n \<and> n < mo \<and> cx_venue_daily_pnl c = Some d \<and> - mval ml < mval d
    \<and> \<not> rs_command_known s \<and> \<not> rs_kill_switch s"
proof -
  obtain a k h where p: "rule_amounts x r c i s = Ok a" "am_quantity a = q" "account_ok r c i s a" "rd_to_i128 x q = Some k"
    "venue_ok l c i s k h" "\<forall>t. rl_trading_hours l = Some t \<longrightarrow> hours_is_open x t (rs_now_us s) = Ok True"
    by (rule approved_parts [OF assms(4,5)])
  then show ?thesis using live_rails [OF assms(1-3)] unfolding venue_ok_def by fastforce
qed

theorem live_venue_approval_witness:
  "rails_from_raw s_risk (SObj s_rails_raw) = Ok s_rails \<and> field s_rails_raw ''environment'' = SStr ''paper''
   \<and> (\<exists>ss. rl_allowed_symbols s_rails = Some ss \<and> in_symbol s_intent \<in> set ss)"
proof -
  have f: "field s_rails_raw ''environment'' = SStr ''paper''" by (simp add: field_def s_rails_raw_def)
  show ?thesis using live_venue_approval [OF s_rails_read f disjI1 [OF refl] s_evaluated] s_rails_read f by blast
qed

text \<open>
  C12. When the decimals' products and differences are exact where their digits fit, an approved order of \<open>n\<close> shares, at prices,
  equity and fractions of ordinary size, loses between its entry and its stop at most the account's risk fraction
  of equity, halved in a choppy market and halved again under the drawdown brake, and costs at most the position cap.
\<close>

theorem approved_risk_bound:
  assumes "decimal_exact x" "evaluate x r l c i s = Ok ev" "ev_approved_quantity ev = Some q"
    and "size_rule r (risk_frac r i) (in_quantity_rule i) = Ok z" "digits_in (10 ^ 7) 8 (sz_risk_frac z)"
    and "digits_in (10 ^ 7) 8 (ru_max_position_notional_frac r)"
    and "cx_equity c = Some e" "0 < mval e" "digits_in (10 ^ 18) 6 e"
    and "digits_in (10 ^ 12) 6 (in_entry_price i)" "digits_in (10 ^ 12) 6 (in_stop_loss i)" "mantissa q \<le> 10 ^ 9"
  shows "\<exists>n. 0 < n \<and> q = decimal_new n 0
    \<and> of_nat n * \<bar>mval (in_entry_price i) - mval (in_stop_loss i)\<bar>
        \<le> mval e * mval (risk_frac r i) * (if cx_regime c = Some ''BULL_CHOPIER'' then 1 / 2 else 1) * (if rs_drawdown_brake s then 1 / 2 else 1)
    \<and> of_nat n * mval (in_entry_price i) \<le> mval e * mval (ru_max_position_notional_frac r)"
proof -
  obtain a k h where p: "rule_amounts x r c i s = Ok a" "am_quantity a = q" "account_ok r c i s a" "rd_to_i128 x q = Some k"
    "venue_ok l c i s k h" "\<forall>t. rl_trading_hours l = Some t \<longrightarrow> hours_is_open x t (rs_now_us s) = Ok True"
    by (rule approved_parts [OF assms(2,3)])
  obtain n where n: "0 < n" "q = decimal_new n 0" using rule_amounts_limits [OF p(1,3)] p(2) by (auto simp: whole_shares_def)
  have q: "digits_in (10 ^ 9) 0 q" "mval q = of_nat n" using assms(12) n by (simp_all add: digits_in_def decimal_new_def mval_def dval_def)
  obtain gap where g: "rk_sub x (in_entry_price i) (in_stop_loss i) = Ok gap" "rk_mul x q (dec_abs gap) = Ok (am_risk_amount a)"
      "rk_mul x q (in_entry_price i) = Ok (am_notional a)" "risk_budget x c s (sz_risk_frac z) = Ok (am_risk_budget a)"
      "rk_mul x e (ru_max_position_notional_frac r) = Ok (the (am_max_position a))"
    using rule_amounts_core [OF p(1) assms(4,7)] p(2) by blast
  have ok: "mval (am_risk_amount a) \<le> mval (am_risk_budget a)" "mval (am_notional a) \<le> mval (the (am_max_position a))"
    using p(3) by (auto simp: account_ok_def)
  have lim: "((10 ^ 12 + 10 ^ 12) * 10 ^ max 6 6 :: nat) < MANTISSA_LIMIT" "10 ^ 9 * ((10 ^ 12 + 10 ^ 12) * 10 ^ max 6 6) < MANTISSA_LIMIT"
    "10 ^ 9 * 10 ^ 12 < MANTISSA_LIMIT" "10 ^ 18 * 10 ^ 7 < MANTISSA_LIMIT" by (simp_all add: MANTISSA_LIMIT_def)
  note sub = rk_sub_exact [OF assms(1,10,11) lim(1) _ g(1)]
  have gap: "digits_in ((10 ^ 12 + 10 ^ 12) * 10 ^ max 6 6) (max 6 6) (dec_abs gap)" using sub(2) by simp
  have ra: "mval (am_risk_amount a) = of_nat n * \<bar>mval (in_entry_price i) - mval (in_stop_loss i)\<bar>"
    using rk_mul_exact(1) [OF assms(1) q(1) gap lim(2) _ g(2)] sub(1) q(2) by simp
  have np: "mval (am_notional a) = of_nat n * mval (in_entry_price i)"
    using rk_mul_exact(1) [OF assms(1) q(1) assms(10) lim(3) _ g(3)] q(2) by simp
  have mp: "mval (the (am_max_position a)) = mval e * mval (ru_max_position_notional_frac r)"
    using rk_mul_exact(1) [OF assms(1,9,6) lim(4) _ g(5)] by simp
  have "mval (am_risk_budget a) = mval e * mval (sz_risk_frac z) * mval (regime_scale c) * mval (drawdown_scale s)"
    by (rule risk_budget_exact [OF assms(1,7,9,5) g(4)])
  also have "\<dots> \<le> mval e * mval (risk_frac r i) * mval (regime_scale c) * mval (drawdown_scale s)"
    using size_rule_parts(1) [OF assms(4)] assms(8) by (intro mult_right_mono mult_left_mono) (simp_all add: scale_factors)
  finally show ?thesis using ok ra np mp n by (auto simp: scale_factors)
qed

theorem approved_risk_bound_witness:
  "decimal_exact s_risk \<and> ev_approved_quantity s_evaluation = Some (decimal_new 75 0)
   \<and> (\<exists>n. decimal_new 75 0 = decimal_new n 0
       \<and> of_nat n * \<bar>mval (in_entry_price s_intent) - mval (in_stop_loss s_intent)\<bar>
           \<le> mval (decimal_new 50000 0) * mval (ru_risk_per_trade_frac s_rules))"
proof -
  have z: "size_rule s_rules (risk_frac s_rules s_intent) (in_quantity_rule s_intent)
    = Ok \<lparr>sz_fixed = None, sz_notional = None, sz_ok = True, sz_risk_frac = decimal_new 75 4\<rparr>" by code_simp
  have e: "cx_equity s_context = Some (decimal_new 50000 0)" by (simp add: s_context_def)
  have "0 < mval (decimal_new 50000 0)" by (simp add: decimal_new_def mval_def dval_def)
  moreover have "digits_in (10 ^ 7) 8 (decimal_new 75 4)" "digits_in (10 ^ 7) 8 (ru_max_position_notional_frac s_rules)"
    "digits_in (10 ^ 18) 6 (decimal_new 50000 0)" "digits_in (10 ^ 12) 6 (in_entry_price s_intent)"
    "digits_in (10 ^ 12) 6 (in_stop_loss s_intent)" "mantissa (decimal_new 75 0) \<le> 10 ^ 9"
    by (simp_all add: digits_in_def decimal_new_def s_rules_def s_intent_def)
  ultimately show ?thesis using approved_risk_bound [OF s_risk_exact s_evaluated z _ _ e] s_risk_exact s_evaluated(2)
    by (fastforce simp: s_context_def s_state_def risk_frac_def s_intent_def)
qed

text \<open>
  The subtraction that gives the scale of a literal can leave 64 bits. It then wraps, no digit is dropped, and a literal far
  below any decimal is read as one.
\<close>

lemma tiny_literal_is_one: "parse_py_decimal ''0.1e-9223372036854775807'' = Ok (Finite (decimal_new 1 0))"
  by code_simp

end
