(* ===== verification/Tos_Wire.thy ===== *)
theory Tos_Wire
  imports Codec Mirror
begin

section \<open>The door of the paper mirror: \<open>tos_paper/wire.rs\<close>\<close>

text \<open>
  The readers of a door document, the instruments of the wire and their ledger form. A document that
  cannot be read refuses with the kind \<open>tos_wire\<close>; where the message of the code quotes the offending
  text with Rust's \<open>Debug\<close>, the model keeps the words before it.
\<close>

definition WIRE :: string where "WIRE = ''tos_wire''"
definition VALUE :: string where "VALUE = ''value''"
definition NETTING :: string where "NETTING = ''tos_netting_error''"

definition wire :: "string \<Rightarrow> 'a lres" where
  "wire m = lerr WIRE m"

definition quoted :: "string \<Rightarrow> string" where
  "quoted key = QUOTE # key @ [QUOTE]"

definition obj :: "(string \<times> json) list \<Rightarrow> json" where
  "obj pairs = JObj pairs"

definition jopt_dec :: "money option \<Rightarrow> json" where
  "jopt_dec d = (case d of Some d \<Rightarrow> JStr (canon d) | None \<Rightarrow> JNull)"

definition req :: "json \<Rightarrow> string \<Rightarrow> json lres" where
  "req j key = (case json_get j key of None \<Rightarrow> wire (''door document lacks '' @ quoted key) | Some v \<Rightarrow> Ok v)"

definition req_str :: "json \<Rightarrow> string \<Rightarrow> string lres" where
  "req_str j key =
     and_then (req j key) (\<lambda>v. case v of
       JStr s \<Rightarrow> Ok s
     | other \<Rightarrow> wire (quoted key @ '' must be a string, got '' @ json_type_name other))"

definition req_int :: "json \<Rightarrow> string \<Rightarrow> int lres" where
  "req_int j key =
     and_then (req j key) (\<lambda>v. case v of
       JInt n \<Rightarrow> Ok n
     | other \<Rightarrow> wire (quoted key @ '' must be an int, got '' @ json_type_name other))"

definition dec_of :: "string \<Rightarrow> money lres" where
  "dec_of t = (case money_parse (chars t) of None \<Rightarrow> wire ''not a Decimal: '' | Some d \<Rightarrow> Ok d)"

definition req_dec :: "json \<Rightarrow> string \<Rightarrow> money lres" where
  "req_dec j key = and_then (req_str j key) dec_of"

definition opt_dec :: "json \<Rightarrow> string \<Rightarrow> money option lres" where
  "opt_dec j key =
     (case json_get j key of
        None \<Rightarrow> Ok None
      | Some JNull \<Rightarrow> Ok None
      | Some (JStr s) \<Rightarrow> and_then (dec_of s) (\<lambda>d. Ok (Some d))
      | Some other \<Rightarrow> wire (quoted key @ '' must be a Decimal string or null, got '' @ json_type_name other))"

definition req_arr :: "json \<Rightarrow> string \<Rightarrow> json list lres" where
  "req_arr j key =
     and_then (req j key) (\<lambda>v. case v of
       JArr a \<Rightarrow> Ok a
     | other \<Rightarrow> wire (quoted key @ '' must be a list, got '' @ json_type_name other))"

subsection \<open>Instruments of the wire\<close>

record wire_option =
  wo_underlying :: string
  wo_expiry :: string
  wo_strike :: money
  wo_right :: right
  wo_multiplier :: int

datatype wire_instrument =
    WEquity string
  | WOption wire_option
  | WCombo "wire_leg list"
  | WOther string
and wire_leg = WLeg (wl_contract: wire_instrument) (wl_ratio: int) (wl_side: string)

text \<open>\<open>str::parse::<i64>\<close>, and the casts \<open>as i32\<close> and \<open>as u32\<close> of its result.\<close>

definition parse_i64 :: "string \<Rightarrow> int option" where
  "parse_i64 t =
     (let (neg, ds) = (case t of
            c # r \<Rightarrow> if c = CHR ''-'' then (True, r) else if c = CHR ''+'' then (False, r) else (False, t)
          | [] \<Rightarrow> (False, []))
      in if ds = [] \<or> \<not> list_all is_dig ds then None
         else let n = int (digits_value (map (\<lambda>c. byte c - 48) ds)); v = (if neg then - n else n)
              in if - (2 ^ 63) \<le> v \<and> v < 2 ^ 63 then Some v else None)"

definition as_i32 :: "int \<Rightarrow> int" where
  "as_i32 n = (n + 2 ^ 31) mod 2 ^ 32 - 2 ^ 31"

definition as_u32 :: "int \<Rightarrow> nat" where
  "as_u32 n = nat (n mod 2 ^ 32)"

definition wire_option_occ :: "wire_option \<Rightarrow> string lres" where
  "wire_option_occ c =
     (let ymd = split_char (CHR ''-'') (wo_expiry c);
          num = (\<lambda>i. if i < length ymd then parse_i64 (ymd ! i) else None)
      in case (num 0, num 1, num 2) of
           (Some y, Some m, Some d) \<Rightarrow>
             map_err (\<lambda>e. LErr VALUE (oe_message e))
               (wire_occ \<lparr>cw_underlying = wo_underlying c, cw_year = as_i32 y, cw_month = as_u32 m,
                  cw_day = as_u32 d, cw_right = wo_right c, cw_strike = decwire (wo_strike c)\<rparr>)
         | _ \<Rightarrow> wire ''bad expiry '')"

fun wire_symbol :: "wire_instrument \<Rightarrow> string lres" and wire_leg_symbols :: "wire_leg list \<Rightarrow> string list lres" where
  "wire_symbol (WEquity s) = Ok s"
| "wire_symbol (WOption c) = wire_option_occ c"
| "wire_symbol (WCombo legs) = and_then (wire_leg_symbols legs) (\<lambda>parts. Ok (join ''/'' parts))"
| "wire_symbol (WOther r) = Ok r"
| "wire_leg_symbols [] = Ok []"
| "wire_leg_symbols (WLeg c r s # ls) =
     and_then (wire_symbol c) (\<lambda>t.
       and_then (wire_leg_symbols ls) (\<lambda>ts. Ok ((s @ '':'' @ int_to_string r @ ''x'' @ strip_str t) # ts)))"

fun wire_same :: "wire_instrument \<Rightarrow> wire_instrument \<Rightarrow> bool" and wire_legs_same :: "wire_leg list \<Rightarrow> wire_leg list \<Rightarrow> bool" where
  "wire_same (WEquity a) (WEquity b) = (a = b)"
| "wire_same (WOption a) (WOption b) =
     (wo_underlying a = wo_underlying b \<and> wo_expiry a = wo_expiry b \<and> wo_right a = wo_right b
      \<and> wo_multiplier a = wo_multiplier b \<and> dec_eq (wo_strike a) (wo_strike b))"
| "wire_same (WCombo a) (WCombo b) = (length a = length b \<and> wire_legs_same a b)"
| "wire_same (WOther a) (WOther b) = (a = b)"
| "wire_same _ _ = False"
| "wire_legs_same (WLeg c r s # a) (WLeg c' r' s' # b) =
     ((r = r' \<and> s = s' \<and> wire_same c c') \<and> wire_legs_same a b)"
| "wire_legs_same _ _ = True"

subsection \<open>Reading an instrument\<close>

definition right_of :: "json \<Rightarrow> right lres" where
  "right_of j =
     and_then (req_str j ''right'') (\<lambda>r.
       if r = ''C'' then Ok Call else if r = ''P'' then Ok Put else wire ''bad right '')"

definition side_of :: "string \<Rightarrow> side lres" where
  "side_of t = (case side_parse t of None \<Rightarrow> wire ''bad side '' | Some s \<Rightarrow> Ok s)"

definition order_type_of :: "string \<Rightarrow> order_type lres" where
  "order_type_of t = (case order_type_parse t of None \<Rightarrow> wire ''bad order type '' | Some s \<Rightarrow> Ok s)"

definition state_of :: "string \<Rightarrow> order_state lres" where
  "state_of t = (case order_state_parse t of None \<Rightarrow> wire ''bad order state '' | Some s \<Rightarrow> Ok s)"

definition tif_of :: "string \<Rightarrow> tif lres" where
  "tif_of t = (case tif_parse t of None \<Rightarrow> wire ''bad tif '' | Some s \<Rightarrow> Ok s)"

lemma json_get_size [termination_simp]: "json_get j k = Some v \<Longrightarrow> size v < size j"
proof (cases j)
  case (JObj ps)
  assume "json_get j k = Some v"
  then have "(k, v) \<in> set ps" using JObj by (simp add: map_of_SomeD)
  then show ?thesis using JObj size_list_estimation' [of "(k, v)" ps "size v" "size_prod (\<lambda>_. 0) size"] by simp
qed simp_all

lemma req_size: "req j k = Ok v \<Longrightarrow> size v < size j"
  by (auto simp: req_def wire_def lerr_def dest: json_get_size split: option.splits)

lemma req_arr_Ok: "req_arr j k = Ok vs \<longleftrightarrow> req j k = Ok (JArr vs)"
proof
  assume "req_arr j k = Ok vs"
  then obtain v where "req j k = Ok v" "(case v of JArr a \<Rightarrow> Ok a
      | other \<Rightarrow> wire (quoted k @ '' must be a list, got '' @ json_type_name other)) = Ok vs"
    by (auto simp: req_arr_def and_then_Ok_iff)
  then show "req j k = Ok (JArr vs)" by (cases v) (simp_all add: wire_def lerr_def)
qed (simp add: req_arr_def)

lemma req_arr_size:
  assumes "req_arr j k = Ok vs" "v \<in> set vs"
  shows "size v < size j"
  using size_list_estimation' [of v vs "size v" size] assms req_size [of j k "JArr vs"] by (simp add: req_arr_Ok)

function instrument_of :: "json \<Rightarrow> wire_instrument lres" where
  "instrument_of j =
     and_then (req_str j ''kind'') (\<lambda>kind.
       if kind = ''equity'' then and_then (req_str j ''symbol'') (\<lambda>s. Ok (WEquity s))
       else if kind = ''option'' then
         and_then (right_of j) (\<lambda>r.
         and_then (req_str j ''underlying'') (\<lambda>u.
         and_then (req_str j ''expiry'') (\<lambda>ex.
         and_then (req_dec j ''strike'') (\<lambda>k.
         and_then (req_int j ''multiplier'') (\<lambda>m.
           Ok (WOption \<lparr>wo_underlying = u, wo_expiry = ex, wo_strike = k, wo_right = r, wo_multiplier = m\<rparr>))))))
       else if kind = ''combo'' then
         and_then (req_arr j ''legs'') (\<lambda>docs.
         and_then (map_r (\<lambda>leg.
           and_then (req leg ''contract'') (\<lambda>c.
           and_then (instrument_of c) (\<lambda>contract.
           and_then (req_int leg ''ratio'') (\<lambda>ratio.
           and_then (req_str leg ''side'') (\<lambda>s. Ok (WLeg contract ratio s)))))) docs) (\<lambda>legs.
           Ok (WCombo legs)))
       else if kind = ''other'' then and_then (req_str j ''repr'') (\<lambda>r. Ok (WOther r))
       else wire ''unknown instrument kind '')"
  by pat_completeness auto

termination instrument_of
  by (relation "measure size") (auto dest: req_size req_arr_size intro: less_trans)

function linstr :: "externals \<Rightarrow> json \<Rightarrow> instrument lres" where
  "linstr x j =
     and_then (req_str j ''kind'') (\<lambda>kind.
       if kind = ''equity'' then and_then (req_str j ''symbol'') (\<lambda>s. Ok (Equity s))
       else if kind = ''option'' then
         and_then (right_of j) (\<lambda>r.
         and_then (req_str j ''underlying'') (\<lambda>u.
         and_then (and_then (req_str j ''expiry'') (parse_date x)) (\<lambda>ex.
         and_then (req_dec j ''strike'') (\<lambda>k.
         and_then (req_int j ''multiplier'') (\<lambda>m.
           Ok (OptionI \<lparr>oc_underlying = u, oc_expiry = ex, oc_strike = k, oc_right = r, oc_multiplier = m\<rparr>))))))
       else if kind = ''combo'' then
         and_then (req_arr j ''legs'') (\<lambda>docs.
         and_then (map_r (\<lambda>leg.
           and_then (req leg ''contract'') (\<lambda>c.
           and_then (linstr x c) (\<lambda>contract.
           and_then (req_int leg ''ratio'') (\<lambda>ratio.
           and_then (and_then (req_str leg ''side'') side_of) (\<lambda>s. Ok (ComboLeg contract ratio s)))))) docs) (\<lambda>legs.
           Ok (Combo legs)))
       else wire ''instrument kind has no ledger form'')"
  by pat_completeness auto

termination linstr
  by (relation "measure (size \<circ> snd)") (auto dest: req_size req_arr_size intro: less_trans)

declare instrument_of.simps [simp del] linstr.simps [simp del]

fun linstr_json :: "instrument \<Rightarrow> json" and legs_json :: "combo_leg list \<Rightarrow> json list" where
  "linstr_json (Equity s) = obj [(''kind'', JStr ''equity''), (''symbol'', JStr s)]"
| "linstr_json (OptionI c) =
     obj [(''kind'', JStr ''option''), (''underlying'', JStr (oc_underlying c)),
       (''expiry'', JStr (date_iso (oc_expiry c))), (''strike'', JStr (canon (oc_strike c))),
       (''right'', JStr (if oc_right c = Call then ''C'' else ''P'')), (''multiplier'', JInt (oc_multiplier c))]"
| "linstr_json (Future f) = obj [(''kind'', JStr ''other''), (''repr'', JStr (fc_root f))]"
| "linstr_json (Combo legs) = obj [(''kind'', JStr ''combo''), (''legs'', JArr (legs_json legs))]"
| "legs_json [] = []"
| "legs_json (ComboLeg c r s # ls) =
     obj [(''contract'', linstr_json c), (''ratio'', JInt r), (''side'', JStr (side_value s))] # legs_json ls"

end
