(* ===== verification/Sha256.thy ===== *)
theory Sha256
  imports TE_Prelude "HOL-Library.Word"
begin

section \<open>The digest of \<open>oms/options.rs\<close>\<close>

text \<open>
  \<open>sha256_hex\<close>, written by hand in the code, over 32-bit words: the padding, the message schedule, the
  64 rounds of a chunk and the printed digest. The arrays of the code are lists of the same length; the
  eight working variables are a tuple in the code's order.
\<close>

unbundle bit_operations_syntax

type_synonym u8 = "8 word"
type_synonym u32 = "32 word"

text \<open>The round constants, a list for each line of the table in the code.\<close>

definition K :: "u32 list" where
  "K = concat
    [[0x428a2f98, 0x71374491, 0xb5c0fbcf, 0xe9b5dba5, 0x3956c25b, 0x59f111f1, 0x923f82a4, 0xab1c5ed5, 0xd807aa98],
     [0x12835b01, 0x243185be, 0x550c7dc3, 0x72be5d74, 0x80deb1fe, 0x9bdc06a7, 0xc19bf174, 0xe49b69c1, 0xefbe4786],
     [0x0fc19dc6, 0x240ca1cc, 0x2de92c6f, 0x4a7484aa, 0x5cb0a9dc, 0x76f988da, 0x983e5152, 0xa831c66d, 0xb00327c8],
     [0xbf597fc7, 0xc6e00bf3, 0xd5a79147, 0x06ca6351, 0x14292967, 0x27b70a85, 0x2e1b2138, 0x4d2c6dfc, 0x53380d13],
     [0x650a7354, 0x766a0abb, 0x81c2c92e, 0x92722c85, 0xa2bfe8a1, 0xa81a664b, 0xc24b8b70, 0xc76c51a3, 0xd192e819],
     [0xd6990624, 0xf40e3585, 0x106aa070, 0x19a4c116, 0x1e376c08, 0x2748774c, 0x34b0bcb5, 0x391c0cb3, 0x4ed8aa4a],
     [0x5b9cca4f, 0x682e6ff3, 0x748f82ee, 0x78a5636f, 0x84c87814, 0x8cc70208, 0x90befffa, 0xa4506ceb, 0xbef9a3f7],
     [0xc67178f2]]"

definition H0 :: "u32 list" where
  "H0 = [0x6a09e667, 0xbb67ae85, 0x3c6ef372, 0xa54ff53a, 0x510e527f, 0x9b05688c, 0x1f83d9ab, 0x5be0cd19]"

text \<open>The loop that fills with zeros up to the last eight bytes of a chunk.\<close>

function pad_zeros :: "u8 list \<Rightarrow> u8 list" where
  "pad_zeros msg = (if length msg mod 64 \<noteq> 56 then pad_zeros (msg @ [0]) else msg)"
  by pat_completeness auto

definition pad_gap :: "nat \<Rightarrow> nat" where
  "pad_gap n = (if n mod 64 \<le> 56 then 56 - n mod 64 else 120 - n mod 64)"

lemma pad_gap_less:
  assumes "n mod 64 \<noteq> 56"
  shows "pad_gap (Suc n) < pad_gap n"
proof -
  have "n mod 64 < 64" by simp
  moreover have "Suc n mod 64 = (if Suc (n mod 64) = 64 then 0 else Suc (n mod 64))" by (rule mod_Suc)
  ultimately show ?thesis using assms by (auto simp: pad_gap_def split: if_splits)
qed

termination pad_zeros
  by (relation "measure (pad_gap \<circ> length)") (simp_all add: pad_gap_less)

declare pad_zeros.simps [simp del]

definition be_bytes64 :: "64 word \<Rightarrow> u8 list" where
  "be_bytes64 n = map (\<lambda>i. ucast (drop_bit (8 * i) n)) [7, 6, 5, 4, 3, 2, 1, 0]"

definition pad :: "u8 list \<Rightarrow> u8 list" where
  "pad data = pad_zeros (data @ [0x80]) @ be_bytes64 (of_nat (length data) * 8)"

fun chunks :: "nat \<Rightarrow> 'a list \<Rightarrow> 'a list list" where
  "chunks n xs = (if n = 0 \<or> xs = [] then [] else take n xs # chunks n (drop n xs))"

declare chunks.simps [simp del]

definition from_be_bytes :: "u8 list \<Rightarrow> u32" where
  "from_be_bytes bs = foldl (\<lambda>acc b. push_bit 8 acc OR ucast b) 0 bs"

definition schedule :: "u8 list \<Rightarrow> u32 list" where
  "schedule chunk =
     foldl (\<lambda>w i.
       let s0 = word_rotr 7 (w ! (i - 15)) XOR word_rotr 18 (w ! (i - 15)) XOR drop_bit 3 (w ! (i - 15));
           s1 = word_rotr 17 (w ! (i - 2)) XOR word_rotr 19 (w ! (i - 2)) XOR drop_bit 10 (w ! (i - 2))
       in w[i := w ! (i - 16) + s0 + w ! (i - 7) + s1])
       (map from_be_bytes (chunks 4 chunk) @ replicate 48 0) [16..<64]"

type_synonym working = "u32 \<times> u32 \<times> u32 \<times> u32 \<times> u32 \<times> u32 \<times> u32 \<times> u32"

definition sha_round :: "u32 list \<Rightarrow> working \<Rightarrow> nat \<Rightarrow> working" where
  "sha_round w v i =
     (case v of (a, b, c, d, e, f, g, hh) \<Rightarrow>
        let s1 = word_rotr 6 e XOR word_rotr 11 e XOR word_rotr 25 e;
            ch = (e AND f) XOR (NOT e AND g);
            t1 = hh + s1 + ch + K ! i + w ! i;
            s0 = word_rotr 2 a XOR word_rotr 13 a XOR word_rotr 22 a;
            maj = (a AND b) XOR (a AND c) XOR (b AND c);
            t2 = s0 + maj
        in (t1 + t2, a, b, c, d + t1, e, f, g))"

definition sha_chunk :: "u32 list \<Rightarrow> u8 list \<Rightarrow> u32 list" where
  "sha_chunk h chunk =
     (case foldl (sha_round (schedule chunk)) (h ! 0, h ! 1, h ! 2, h ! 3, h ! 4, h ! 5, h ! 6, h ! 7) [0..<64] of
        (a, b, c, d, e, f, g, hh) \<Rightarrow> map2 (+) h [a, b, c, d, e, f, g, hh])"

definition hex_digit :: "u32 \<Rightarrow> char" where
  "hex_digit n = ''0123456789abcdef'' ! unat (n AND 15)"

definition hex8 :: "u32 \<Rightarrow> string" where
  "hex8 x = map (\<lambda>i. hex_digit (drop_bit (4 * i) x)) [7, 6, 5, 4, 3, 2, 1, 0]"

definition sha256_hex :: "u8 list \<Rightarrow> string" where
  "sha256_hex data = concat (map hex8 (foldl sha_chunk H0 (chunks 64 (pad data))))"

text \<open>The bytes of a string, as \<open>as_bytes\<close> gives them.\<close>

definition bytes_of :: "string \<Rightarrow> u8 list" where
  "bytes_of s = map of_char s"

lemma sha_chunk_length: "length h = 8 \<Longrightarrow> length (sha_chunk h chunk) = 8"
  by (simp add: sha_chunk_def split: prod.split)

lemma sha_chunks_length: "length h = 8 \<Longrightarrow> length (foldl sha_chunk h cs) = 8"
  by (induction cs arbitrary: h) (simp_all add: sha_chunk_length)

lemma hex8_length: "length (hex8 w) = 8"
  by (simp add: hex8_def)

lemma hex8s_length: "length (concat (map hex8 ws)) = 8 * length ws"
  by (induction ws) (simp_all add: hex8_length)

lemma sha256_hex_length: "length (sha256_hex data) = 64"
proof -
  have "length H0 = 8" by (simp add: H0_def)
  then show ?thesis by (simp only: sha256_hex_def hex8s_length sha_chunks_length)
qed

lemma pad_zeros_fits: "length (pad_zeros msg) mod 64 = 56"
proof (induction msg rule: pad_zeros.induct)
  case (1 msg)
  then show ?case by (subst pad_zeros.simps) simp
qed

lemma pad_whole_chunks: "length (pad data) mod 64 = 0"
  using pad_zeros_fits [of "data @ [0x80]"] by (simp add: pad_def be_bytes64_def mod_Suc)

end
