(* ===== verification/Netting.thy ===== *)
theory Netting
  imports Tos_Wire Sha256
begin

section \<open>Netting a batch of strategy orders: \<open>tos_paper/netting.rs\<close>\<close>

text \<open>
  One batch of strategy orders becomes venue tickets; what the venue cannot hold is refused. The state of
  the loop over the orders is the record \<open>net_state\<close>, with a field for each mutable variable of the code.
  An \<open>expect\<close> that fails and an index past the end panic in the code and are the error kind \<open>panic\<close> here.
\<close>

definition vertical_reason :: "wire_leg list \<Rightarrow> string option lres" where
  "vertical_reason legs =
     (let opts = List.map_filter (\<lambda>l. case wl_contract l of WOption c \<Rightarrow> Some c | _ \<Rightarrow> None) legs in
      if length legs \<noteq> 2 \<or> length opts \<noteq> 2
      then and_then (wire_symbol (WCombo legs)) (\<lambda>sym.
             Ok (Some (sym @ '' is not a 2-leg option combo; only verticals are mirrored'')))
      else let a = opts ! 0; b = opts ! 1 in
        if wo_underlying a \<noteq> wo_underlying b then Ok (Some ''legs on two underlyings are not a vertical'')
        else if wo_expiry a \<noteq> wo_expiry b
        then Ok (Some ''legs on two expiries (a calendar or diagonal) are not a vertical'')
        else if wo_right a \<noteq> wo_right b then Ok (Some ''a call leg and a put leg are not a vertical'')
        else if wo_multiplier a \<noteq> wo_multiplier b
        then Ok (Some ''legs with two multipliers are not a vertical (I6)'')
        else if dec_eq (wo_strike a) (wo_strike b) then Ok (Some ''two legs on one strike are not a vertical'')
        else if wl_side (legs ! 0) = wl_side (legs ! 1) then Ok (Some ''both legs on one side are not a vertical'')
        else if wl_ratio (legs ! 0) \<noteq> wl_ratio (legs ! 1)
        then Ok (Some (''a '' @ int_to_string (wl_ratio (legs ! 0)) @ '':'' @ int_to_string (wl_ratio (legs ! 1))
                       @ '' ratio spread is not a 1:1 vertical''))
        else Ok None)"

subsection \<open>Tickets\<close>

definition US :: string where "US = [CHR 0x1F]"

definition ticket_key ::
  "string \<Rightarrow> instrument \<Rightarrow> side \<Rightarrow> money \<Rightarrow> order_type \<Rightarrow> money option \<Rightarrow> tif \<Rightarrow> string list \<Rightarrow> string lres" where
  "ticket_key venue_account instrument sd quantity ty limit_price tf order_ids =
     and_then (symbol instrument) (\<lambda>sym.
       let parts = [venue_account, sym, side_value sd, canon quantity, order_type_value ty,
             (case limit_price of None \<Rightarrow> [] | Some p \<Rightarrow> canon p), tif_value tf]
       in Ok (sha256_hex (bytes_of (join US (parts @ sort order_ids)))))"

record norder =
  no_order_id :: string
  no_account_id :: string
  no_wire :: wire_instrument
  no_model :: "instrument option"
  no_order_type :: order_type
  no_side :: side
  no_quantity :: money
  no_tif :: tif
  no_limit_price :: "money option"

definition norder_of :: "externals \<Rightarrow> json \<Rightarrow> norder lres" where
  "norder_of x j =
     and_then (and_then (req j ''instrument'') instrument_of) (\<lambda>w.
     and_then (case w of
                 WOther _ \<Rightarrow> Ok None
               | _ \<Rightarrow> and_then (and_then (req j ''instrument'') (linstr x)) (\<lambda>i. Ok (Some i))) (\<lambda>model.
     and_then (req_str j ''order_id'') (\<lambda>oid.
     and_then (req_str j ''account_id'') (\<lambda>acct.
     and_then (and_then (req_str j ''order_type'') order_type_of) (\<lambda>ty.
     and_then (and_then (req_str j ''side'') side_of) (\<lambda>sd.
     and_then (req_dec j ''quantity'') (\<lambda>q.
     and_then (and_then (req_str j ''tif'') tif_of) (\<lambda>tf.
     and_then (opt_dec j ''limit_price'') (\<lambda>lp.
       Ok \<lparr>no_order_id = oid, no_account_id = acct, no_wire = w, no_model = model, no_order_type = ty,
           no_side = sd, no_quantity = q, no_tif = tf, no_limit_price = lp\<rparr>)))))))))"

definition py_list :: "string list \<Rightarrow> string" where
  "py_list items = ''['' @ join '', '' (map py_repr items) @ '']''"

definition screen_common :: "norder \<Rightarrow> string option" where
  "screen_common r =
     (if no_order_type r \<notin> {Market, Limit}
      then Some (''UnsupportedCapability: order type '' @ order_type_value (no_order_type r) @ '' (MARKET/LIMIT only)'')
      else if no_tif r \<notin> {Day, Gtc}
      then Some (''UnsupportedCapability: TIF '' @ tif_value (no_tif r) @ '' (DAY/GTC only)'')
      else if \<not> is_integral (no_quantity r)
      then Some (''quantity '' @ canon (no_quantity r) @ '' is not a whole number of ''
             @ (case no_wire r of WEquity _ \<Rightarrow> ''shares'' | _ \<Rightarrow> ''contracts'') @ ''; refusing to round (I5)'')
      else None)"

definition screen :: "norder \<Rightarrow> string list \<Rightarrow> string option lres" where
  "screen r mirrored =
     (if no_account_id r \<notin> set mirrored
      then Ok (Some (''account '' @ no_account_id r @ '' is not mirrored on this venue (mirrors ''
             @ py_list (sort mirrored) @ ''); refused at the venue only ('' @ of_chars [0xA7] @ ''4.7)''))
      else case no_wire r of
        WCombo legs \<Rightarrow>
          and_then (vertical_reason legs) (\<lambda>reason. case reason of
            Some why \<Rightarrow> Ok (Some (''UnsupportedCapability: multi-leg combo: '' @ why))
          | None \<Rightarrow>
              if no_order_type r \<noteq> Limit
              then Ok (Some ''UnsupportedCapability: a vertical is mirrored with one net LIMIT price only'')
              else Ok (screen_common r))
      | WOther repr \<Rightarrow>
          Ok (Some (''UnsupportedCapability: instrument '' @ repr @ '' is not a mirrored option or share''))
      | _ \<Rightarrow> Ok (screen_common r))"

type_synonym account_book = "(string \<times> money) list"

text \<open>The signs in the order they are met, each once.\<close>

definition signs_of :: "account_book \<Rightarrow> bool list" where
  "signs_of book =
     foldl (\<lambda>signs (_, q).
       if \<not> money_eq q ZERO \<and> money_lt ZERO q \<notin> set signs then signs @ [money_lt ZERO q] else signs) [] book"

definition mixed_signs :: "account_book \<Rightarrow> bool" where
  "mixed_signs book \<longleftrightarrow> length (signs_of book) > 1"

definition signed_qty :: "side \<Rightarrow> money \<Rightarrow> money lres" where
  "signed_qty sd quantity = (if sd = Buy then Ok quantity else dneg quantity)"

definition legs_of :: "norder \<Rightarrow> (instrument \<times> side \<times> money) list lres" where
  "legs_of r =
     (case no_model r of
        Some (Combo legs) \<Rightarrow>
          map_r (\<lambda>leg. and_then (dmul_i (no_quantity r) (leg_ratio leg)) (\<lambda>q.
            Ok (leg_contract leg, leg_side leg, q))) legs
      | Some other \<Rightarrow> Ok [(other, no_side r, no_quantity r)]
      | None \<Rightarrow> wire ''a screened order has a model instrument'')"

record ticket =
  tk_venue_order_id :: string
  tk_instrument :: instrument
  tk_order_type :: order_type
  tk_side :: side
  tk_quantity :: money
  tk_submitted_at :: string
  tk_tif :: tif
  tk_limit_price :: "money option"
  tk_allocations :: "(string \<times> string \<times> money) list"

definition allocation_of :: "norder \<Rightarrow> (string \<times> string \<times> money) lres" where
  "allocation_of leg =
     (if no_order_id leg = [] then lerr VALUE ''strategy_order_id must be non-empty''
      else if no_account_id leg = [] then lerr VALUE ''account_id must be non-empty''
      else if money_le (no_quantity leg) ZERO
      then lerr VALUE (''quantity must be positive, got '' @ canon (no_quantity leg))
      else Ok (no_order_id leg, no_account_id leg, no_quantity leg))"

definition make_ticket ::
  "externals \<Rightarrow> string \<Rightarrow> instrument \<Rightarrow> order_type \<Rightarrow> tif \<Rightarrow> money option \<Rightarrow> norder list \<Rightarrow> string \<Rightarrow> ticket lres" where
  "make_ticket x venue_account instrument ty tf limit grp ts =
     (case grp of
        [] \<Rightarrow> lerr ''panic'' ''index out of bounds''
      | first # _ \<Rightarrow>
          and_then (fold_r (\<lambda>q leg. dadd q (no_quantity leg)) ZERO grp) (\<lambda>quantity.
          and_then (ticket_key venue_account instrument (no_side first) quantity ty limit tf (map no_order_id grp)) (\<lambda>key.
          and_then (map_r allocation_of grp) (\<lambda>allocations.
            if length key < 32 then lerr ''panic'' ''byte index out of bounds''
            else if money_le quantity ZERO
            then lerr VALUE (''quantity must be positive, got '' @ canon quantity)
            else and_then (parse_datetime x ts) (\<lambda>(_, aware).
              if \<not> aware then lerr VALUE ''submitted_at must be timezone-aware UTC datetime (I7)''
              else if ty = Market \<and> limit \<noteq> None then lerr VALUE ''MARKET order cannot have a limit_price''
              else if ty = Limit \<and> limit = None then lerr VALUE ''LIMIT order must have a limit_price''
              else and_then (fold_r (\<lambda>q a. dadd q (snd (snd a))) ZERO allocations) (\<lambda>allocated.
                if \<not> money_eq allocated quantity
                then lerr VALUE (''VenueOrder allocations total '' @ canon allocated @ '' but order quantity is ''
                       @ canon quantity)
                else Ok \<lparr>tk_venue_order_id = ''tos:'' @ take 32 key, tk_instrument = instrument,
                       tk_order_type = ty, tk_side = no_side first, tk_quantity = quantity,
                       tk_submitted_at = ts, tk_tif = tf, tk_limit_price = limit,
                       tk_allocations = allocations\<rparr>))))))"

definition account_for_everything :: "string list \<Rightarrow> string list \<Rightarrow> unit lres" where
  "account_for_everything wanted outcomes =
     (if sort outcomes \<noteq> sort wanted
      then lerr NETTING (''netting lost or duplicated an order: inputs '' @ py_list (sort wanted)
             @ '' vs outcomes '' @ py_list (sort outcomes) @ '' (I11)'')
      else Ok ())"

subsection \<open>The loop over the orders\<close>

record batch =
  b_venue_orders :: "ticket list"
  b_refused :: "(string \<times> string) list"

type_synonym holdings = "(string \<times> instrument, money) omap"

record net_state =
  ns_refused :: "(string \<times> string) list"
  ns_seen_ids :: "string list"
  ns_accepted :: "(instrument, nat list) omap"
  ns_batch_side :: "(instrument, side \<times> string) omap"
  ns_books :: "(instrument, account_book) omap"
  ns_verticals :: "nat list"

definition net_start :: net_state where
  "net_start = \<lparr>ns_refused = [], ns_seen_ids = [], ns_accepted = omap_new, ns_batch_side = omap_new,
     ns_books = omap_new, ns_verticals = []\<rparr>"

definition opposes :: "net_state \<Rightarrow> string \<Rightarrow> side \<Rightarrow> (side \<times> string) option" where
  "opposes st hk sd =
     (case omap_get (ns_batch_side st) hk of
        Some (first_side, first_id) \<Rightarrow> if first_side \<noteq> sd then Some (first_side, first_id) else None
      | None \<Rightarrow> None)"

definition held_at :: "holdings \<Rightarrow> string \<Rightarrow> account_book" where
  "held_at holdings hk = [(acct, qty). ((acct, inst), qty) \<leftarrow> omap_iter holdings, instr_hk inst = hk]"

definition book_of :: "net_state \<Rightarrow> holdings \<Rightarrow> string \<Rightarrow> account_book" where
  "book_of st holdings hk =
     (case omap_get (ns_books st) hk of
        Some b \<Rightarrow> b
      | None \<Rightarrow> held_at holdings hk)"

fun bump :: "string \<Rightarrow> money \<Rightarrow> account_book \<Rightarrow> account_book lres" where
  "bump acct delta [] = and_then (dadd ZERO delta) (\<lambda>q. Ok [(acct, q)])"
| "bump acct delta ((a, q) # rest) =
     (if a = acct then and_then (dadd q delta) (\<lambda>q'. Ok ((a, q') # rest))
      else and_then (bump acct delta rest) (\<lambda>rest'. Ok ((a, q) # rest')))"

fun trial_legs ::
  "net_state \<Rightarrow> holdings \<Rightarrow> norder \<Rightarrow> (instrument \<times> side \<times> money) list \<Rightarrow> (instrument, account_book) omap
   \<Rightarrow> (string option \<times> (instrument, account_book) omap) lres" where
  "trial_legs st holdings r [] trials = Ok (None, trials)"
| "trial_legs st holdings r ((contract, sd, contracts) # rest) trials =
     (let hk = instr_hk contract in
      case opposes st hk sd of
        Some (first_side, first_id) \<Rightarrow>
          and_then (symbol contract) (\<lambda>sym.
            Ok (Some (''conflict: '' @ side_value sd @ '' '' @ sym @ '' opposes first-in '' @ side_value first_side
                  @ '' '' @ first_id @ '' on the same contract; refused at the venue only''), trials))
      | None \<Rightarrow>
          and_then (signed_qty sd contracts) (\<lambda>delta.
          and_then (bump (no_account_id r) delta (book_of st holdings hk)) (\<lambda>trial.
            if mixed_signs trial then
              let others = sort [acct. (acct, qty) \<leftarrow> trial, acct \<noteq> no_account_id r, \<not> money_eq qty ZERO] in
              and_then (symbol contract) (\<lambda>sym.
                Ok (Some (''conflict: '' @ side_value sd @ '' '' @ sym @ '' for '' @ no_account_id r
                      @ '' would hold the opposite side of '' @ join '', '' others
                      @ '' in one venue account; refused at the venue only''), trials))
            else trial_legs st holdings r rest (omap_insert trials hk contract trial))))"

definition take_leg ::
  "norder \<Rightarrow> (instrument, account_book) omap \<Rightarrow> net_state \<Rightarrow> instrument \<times> side \<times> money \<Rightarrow> net_state lres" where
  "take_leg r trials st leg =
     (case leg of (contract, sd, _) \<Rightarrow>
        let hk = instr_hk contract in
        and_then (ok_or (LErr ''panic'' ''every leg was trialled'') (omap_get trials hk)) (\<lambda>trial.
          let st' = st\<lparr>ns_books := omap_insert (ns_books st) hk contract trial\<rparr> in
          Ok (if omap_contains (ns_batch_side st') hk then st'
              else st'\<lparr>ns_batch_side := omap_insert (ns_batch_side st') hk contract (sd, no_order_id r)\<rparr>)))"

text \<open>Appending to the list under a key, which is there or starts with this element.\<close>

definition omap_append :: "('k, 'v list) omap \<Rightarrow> string \<Rightarrow> 'k \<Rightarrow> 'v \<Rightarrow> ('k, 'v list) omap" where
  "omap_append m hk key v =
     (if omap_contains m hk then omap_get_mut (\<lambda>list. list @ [v]) m hk else omap_insert m hk key [v])"

definition refuse :: "net_state \<Rightarrow> norder \<Rightarrow> string \<Rightarrow> net_state" where
  "refuse st r reason = st\<lparr>ns_refused := ns_refused st @ [(no_order_id r, reason)]\<rparr>"

definition file_order :: "net_state \<Rightarrow> nat \<Rightarrow> norder \<Rightarrow> net_state lres" where
  "file_order st index r =
     (case no_model r of
        Some (Combo _) \<Rightarrow> Ok (st\<lparr>ns_verticals := ns_verticals st @ [index]\<rparr>)
      | Some model \<Rightarrow> Ok (st\<lparr>ns_accepted := omap_append (ns_accepted st) (instr_hk model) model index\<rparr>)
      | None \<Rightarrow> lerr ''panic'' ''screened'')"

definition net_order :: "string list \<Rightarrow> holdings \<Rightarrow> net_state \<Rightarrow> nat \<times> norder \<Rightarrow> net_state lres" where
  "net_order mirrored holdings st entry =
     (case entry of (index, r) \<Rightarrow>
        if no_order_id r \<in> set (ns_seen_ids st)
        then Ok (refuse st r (''duplicate strategy order '' @ no_order_id r @ '' in one batch (I3)''))
        else
          let st = st\<lparr>ns_seen_ids := ns_seen_ids st @ [no_order_id r]\<rparr> in
          and_then (screen r mirrored) (\<lambda>screened. case screened of
            Some reason \<Rightarrow> Ok (refuse st r reason)
          | None \<Rightarrow>
              and_then (legs_of r) (\<lambda>legs.
              and_then (trial_legs st holdings r legs omap_new) (\<lambda>(conflict, trials). case conflict of
                Some reason \<Rightarrow> Ok (refuse st r reason)
              | None \<Rightarrow>
                  and_then (fold_r (take_leg r trials) st legs) (\<lambda>st.
                    file_order st index r)))))"

subsection \<open>Tickets of the accepted orders\<close>

definition order_at :: "norder list \<Rightarrow> nat \<Rightarrow> norder lres" where
  "order_at orders i = (if i < length orders then Ok (orders ! i) else lerr ''panic'' ''index out of bounds'')"

type_synonym group_key = "order_type \<times> tif \<times> money option"

definition limit_of :: "norder \<Rightarrow> money option" where
  "limit_of leg = (if no_order_type leg = Limit then no_limit_price leg else None)"

definition group_hk :: "norder \<Rightarrow> string" where
  "group_hk leg =
     order_type_value (no_order_type leg) @ [SOH] @ tif_value (no_tif leg) @ [SOH]
     @ (case limit_of leg of None \<Rightarrow> ''N'' | Some p \<Rightarrow> ''L'' @ canon p)"

definition group_orders :: "norder list \<Rightarrow> nat list \<Rightarrow> (group_key, nat list) omap lres" where
  "group_orders orders members =
     fold_r (\<lambda>groups m. and_then (order_at orders m) (\<lambda>leg.
       Ok (omap_append groups (group_hk leg) (no_order_type leg, no_tif leg, limit_of leg) m))) omap_new members"

type_synonym outcome = "ticket list \<times> (string \<times> string) list"

definition refuse_group :: "instrument \<Rightarrow> norder list \<Rightarrow> string \<Rightarrow> (string \<times> string) list lres" where
  "refuse_group instrument legs why =
     map_r (\<lambda>leg. and_then (symbol instrument) (\<lambda>sym.
       Ok (no_order_id leg, ''ticket for '' @ sym @ '' refused: '' @ why))) legs"

definition ticket_group ::
  "externals \<Rightarrow> norder list \<Rightarrow> string \<Rightarrow> string \<Rightarrow> instrument \<Rightarrow> outcome \<Rightarrow> group_key \<times> nat list \<Rightarrow> outcome lres" where
  "ticket_group x orders venue_account ts instrument out g =
     (case (out, g) of ((tickets, refused), (ty, tf, limit), members) \<Rightarrow>
        and_then (map_r (order_at orders) members) (\<lambda>legs.
          case make_ticket x venue_account instrument ty tf limit legs ts of
            Ok t \<Rightarrow> Ok (tickets @ [t], refused)
          | Err e \<Rightarrow>
              if err_kind e = VALUE
              then and_then (refuse_group instrument legs (err_msg e)) (\<lambda>rs. Ok (tickets, refused @ rs))
              else Err e))"

definition ticket_contract ::
  "externals \<Rightarrow> norder list \<Rightarrow> string \<Rightarrow> string \<Rightarrow> outcome \<Rightarrow> instrument \<times> nat list \<Rightarrow> outcome lres" where
  "ticket_contract x orders venue_account ts out entry =
     and_then (group_orders orders (snd entry)) (\<lambda>groups.
       fold_r (ticket_group x orders venue_account ts (fst entry)) out (omap_iter groups))"

definition ticket_vertical ::
  "externals \<Rightarrow> norder list \<Rightarrow> string \<Rightarrow> string \<Rightarrow> ticket list \<Rightarrow> nat \<Rightarrow> ticket list lres" where
  "ticket_vertical x orders venue_account ts tickets index =
     and_then (order_at orders index) (\<lambda>r.
     and_then (ok_or (LErr ''panic'' ''screened'') (no_model r)) (\<lambda>model.
     and_then (make_ticket x venue_account model (no_order_type r) (no_tif r) (no_limit_price r) [r] ts) (\<lambda>t.
       Ok (tickets @ [t]))))"

definition net_strategy_orders ::
  "externals \<Rightarrow> norder list \<Rightarrow> string \<Rightarrow> string list \<Rightarrow> string \<Rightarrow> holdings \<Rightarrow> batch lres" where
  "net_strategy_orders x orders venue_account mirrored ts holdings =
     (if orders = [] then lerr NETTING ''no strategy orders to net''
      else
        let mirrored_set = foldl (\<lambda>acc m. if m \<in> set acc then acc else acc @ [m]) [] mirrored in
        and_then (fold_r (net_order mirrored_set holdings) net_start (List.enumerate 0 orders)) (\<lambda>st.
        and_then (fold_r (ticket_contract x orders venue_account ts) ([], ns_refused st) (omap_iter (ns_accepted st)))
          (\<lambda>(tickets, refused).
        and_then (fold_r (ticket_vertical x orders venue_account ts) tickets (ns_verticals st)) (\<lambda>tickets.
          let outcomes = concat (map (\<lambda>t. map fst (tk_allocations t)) tickets) @ map fst refused in
          and_then (account_for_everything (map no_order_id orders) outcomes) (\<lambda>_.
            Ok \<lparr>b_venue_orders = tickets, b_refused = refused\<rparr>)))))"

subsection \<open>The doors\<close>

definition vertical_reason_op :: "json \<Rightarrow> json lres" where
  "vertical_reason_op doc =
     and_then (and_then (req doc ''instrument'') instrument_of) (\<lambda>w. case w of
       WCombo legs \<Rightarrow>
         and_then (vertical_reason legs) (\<lambda>reason.
           Ok (obj [(''reason'', case reason of None \<Rightarrow> JNull | Some r \<Rightarrow> JStr r)]))
     | _ \<Rightarrow> wire ''vertical_reason takes a combo'')"

definition ticket_json :: "ticket \<Rightarrow> json" where
  "ticket_json t =
     obj [(''venue_order_id'', JStr (tk_venue_order_id t)), (''instrument'', linstr_json (tk_instrument t)),
       (''order_type'', JStr (order_type_value (tk_order_type t))), (''side'', JStr (side_value (tk_side t))),
       (''quantity'', JStr (canon (tk_quantity t))), (''submitted_at'', JStr (tk_submitted_at t)),
       (''tif'', JStr (tif_value (tk_tif t))), (''limit_price'', jopt_dec (tk_limit_price t)),
       (''allocations'', JArr (map (\<lambda>(oid, a, q). JArr [JStr oid, JStr a, JStr (canon q)]) (tk_allocations t)))]"

definition strings_of :: "json \<Rightarrow> string \<Rightarrow> string list lres" where
  "strings_of doc key =
     and_then (req_arr doc key) (map_r (\<lambda>v. case v of
       JStr t \<Rightarrow> Ok t | _ \<Rightarrow> wire (quoted key @ '' holds a non-string'')))"

definition holdings_row :: "externals \<Rightarrow> holdings \<Rightarrow> json \<Rightarrow> holdings lres" where
  "holdings_row x holdings row =
     (case row of
        JArr [JStr acct, inst, JStr q] \<Rightarrow>
          and_then (linstr x inst) (\<lambda>instrument.
          and_then (dec_of q) (\<lambda>d.
            Ok (omap_insert holdings (book_hk acct instrument) (acct, instrument) d)))
      | _ \<Rightarrow> wire ''a holdings row is not a triple'')"

definition holdings_of :: "externals \<Rightarrow> json list \<Rightarrow> holdings lres" where
  "holdings_of x rows = fold_r (holdings_row x) omap_new rows"

definition net_op :: "externals \<Rightarrow> json \<Rightarrow> json lres" where
  "net_op x doc =
     and_then (and_then (req_arr doc ''orders'') (map_r (norder_of x))) (\<lambda>orders.
     and_then (and_then (req_arr doc ''holdings'') (holdings_of x)) (\<lambda>holdings.
     and_then (req_str doc ''venue_account'') (\<lambda>va.
     and_then (strings_of doc ''mirrored'') (\<lambda>mirrored.
     and_then (req_str doc ''at'') (\<lambda>ts.
     and_then (net_strategy_orders x orders va mirrored ts holdings) (\<lambda>b.
       Ok (obj [(''venue_orders'', JArr (map ticket_json (b_venue_orders b))),
         (''refused'', JArr (map (\<lambda>(oid, r). JArr [JStr oid, JStr r]) (b_refused b)))])))))))"

definition ticket_key_op :: "externals \<Rightarrow> json \<Rightarrow> json lres" where
  "ticket_key_op x doc =
     and_then (opt_dec doc ''limit_price'') (\<lambda>limit.
     and_then (req_str doc ''venue_account'') (\<lambda>va.
     and_then (and_then (req doc ''instrument'') (linstr x)) (\<lambda>i.
     and_then (and_then (req_str doc ''side'') side_of) (\<lambda>sd.
     and_then (req_dec doc ''quantity'') (\<lambda>q.
     and_then (and_then (req_str doc ''order_type'') order_type_of) (\<lambda>ty.
     and_then (and_then (req_str doc ''tif'') tif_of) (\<lambda>tf.
     and_then (strings_of doc ''order_ids'') (\<lambda>ids.
     and_then (ticket_key va i sd q ty limit tf ids) (\<lambda>key. Ok (obj [(''key'', JStr key)]))))))))))"

definition screen_op :: "externals \<Rightarrow> json \<Rightarrow> json lres" where
  "screen_op x doc =
     and_then (and_then (req doc ''order'') (norder_of x)) (\<lambda>r.
     and_then (strings_of doc ''mirrored'') (\<lambda>mirrored.
     and_then (screen r mirrored) (\<lambda>reason.
       Ok (obj [(''reason'', case reason of None \<Rightarrow> JNull | Some why \<Rightarrow> JStr why)]))))"

definition book_row :: "json \<Rightarrow> (string \<times> money) lres" where
  "book_row row =
     (case row of
        JArr [JStr a, JStr q] \<Rightarrow> and_then (dec_of q) (\<lambda>d. Ok (a, d))
      | _ \<Rightarrow> wire ''a book row is not a pair'')"

definition mixed_signs_op :: "json \<Rightarrow> json lres" where
  "mixed_signs_op doc =
     and_then (and_then (req_arr doc ''book'') (map_r book_row)) (\<lambda>book.
       Ok (obj [(''result'', JBool (mixed_signs book))]))"

definition ticket_op :: "externals \<Rightarrow> json \<Rightarrow> json lres" where
  "ticket_op x doc =
     and_then (and_then (req_arr doc ''group'') (map_r (norder_of x))) (\<lambda>grp.
     and_then (req_str doc ''venue_account'') (\<lambda>va.
     and_then (and_then (req doc ''instrument'') (linstr x)) (\<lambda>i.
     and_then (and_then (req_str doc ''order_type'') order_type_of) (\<lambda>ty.
     and_then (and_then (req_str doc ''tif'') tif_of) (\<lambda>tf.
     and_then (opt_dec doc ''limit_price'') (\<lambda>limit.
     and_then (req_str doc ''at'') (\<lambda>ts.
     and_then (make_ticket x va i ty tf limit grp ts) (\<lambda>t. Ok (ticket_json t)))))))))"

definition account_for_everything_op :: "json \<Rightarrow> json lres" where
  "account_for_everything_op doc =
     and_then (strings_of doc ''allocated'') (\<lambda>allocated.
     and_then (strings_of doc ''refused'') (\<lambda>refused.
     and_then (strings_of doc ''orders'') (\<lambda>orders.
     and_then (account_for_everything orders (allocated @ refused)) (\<lambda>_.
       Ok (obj [(''ok'', JBool True)])))))"

end
