(* ===== verification/Netting_Inv.thy ===== *)
theory Netting_Inv
  imports Netting
begin

section \<open>What the netting keeps\<close>

text \<open>
  The loop over the orders keeps an account of every order it has read: it is refused, filed under its
  contract, or filed as a vertical. The statements go through \<open>rspec\<close>, which gives a postcondition to a
  result and another to an error, so that one pass shows the outcome and the errors that can come of it.
\<close>

definition rspec :: "('a \<Rightarrow> bool) \<Rightarrow> ('e \<Rightarrow> bool) \<Rightarrow> ('a, 'e) result \<Rightarrow> bool" where
  "rspec P Q r \<longleftrightarrow> (case r of Ok v \<Rightarrow> P v | Err e \<Rightarrow> Q e)"

lemma rspec_simps [simp]: "rspec P Q (Ok v) = P v" "rspec P Q (Err e) = Q e"
  by (simp_all add: rspec_def)

lemma rspec_and_then: "rspec P' Q r \<Longrightarrow> (\<And>v. r = Ok v \<Longrightarrow> P' v \<Longrightarrow> rspec P Q (f v)) \<Longrightarrow> rspec P Q (and_then r f)"
  by (cases r) simp_all

lemma rspec_weaken: "rspec P Q r \<Longrightarrow> (\<And>v. r = Ok v \<Longrightarrow> P v \<Longrightarrow> P' v) \<Longrightarrow> rspec P' Q r"
  by (cases r) simp_all

lemma rspec_ErrI: "(\<And>e. r = Err e \<Longrightarrow> Q e) \<Longrightarrow> rspec (\<lambda>v. r = Ok v) Q r"
  by (cases r) simp_all

lemma rspec_fold_r:
  assumes "P acc" and "\<And>a v. v \<in> set xs \<Longrightarrow> P a \<Longrightarrow> rspec P Q (f a v)"
  shows "rspec P Q (fold_r f acc xs)"
  using assms
proof (induction xs arbitrary: acc)
  case (Cons v vs)
  then have "rspec P Q (f acc v)" by simp
  then show ?case using Cons by (cases "f acc v") simp_all
qed simp

lemma rspec_map_r:
  assumes "\<And>v. v \<in> set xs \<Longrightarrow> rspec (P v) Q (f v)"
  shows "rspec (list_all2 P xs) Q (map_r f xs)"
  using assms
proof (induction xs)
  case (Cons v vs)
  then have "rspec (P v) Q (f v)" "rspec (list_all2 P vs) Q (map_r f vs)" by simp_all
  then show ?case by (cases "f v"; cases "map_r f vs") simp_all
qed simp

lemma and_then_Ok_id: "and_then r Ok = r"
  by (cases r) simp_all

text \<open>A loop over the elements with their index.\<close>

lemma rspec_enumerate:
  assumes "P 0 acc" and "\<And>i a. i < length xs \<Longrightarrow> P i a \<Longrightarrow> rspec (P (Suc i)) Q (f a (i, xs ! i))"
  shows "rspec (P (length xs)) Q (fold_r f acc (List.enumerate 0 xs))"
  using assms
proof (induction xs rule: rev_induct)
  case (snoc v vs)
  have "rspec (P (Suc i)) Q (f a (i, vs ! i))" if "i < length vs" "P i a" for i a
    using snoc.prems(2) [of i a] that by (simp add: nth_append)
  then have "rspec (P (length vs)) Q (fold_r f acc (List.enumerate 0 vs))"
    using snoc.IH snoc.prems(1) by blast
  moreover have "rspec (P (Suc (length vs))) Q (f a (length vs, v))" if "P (length vs) a" for a
    using snoc.prems(2) [of "length vs" a] that by simp
  ultimately show ?case
    by (cases "fold_r f acc (List.enumerate 0 vs)") (simp_all add: enumerate_append_eq fold_r_append and_then_Ok_id)
qed simp

subsection \<open>Errors that are neither a panic nor a failed account\<close>

definition quiet :: "lerr \<Rightarrow> bool" where
  "quiet e \<longleftrightarrow> err_kind e \<noteq> NETTING \<and> err_kind e \<noteq> ''panic''"

lemma quiet_kinds [simp]:
  "quiet (LErr VALUE m)" "quiet (LErr WIRE m)" "quiet (LErr ''value'' m)" "quiet (LErr ''unsupported'' m)"
  "quiet (LErr ''overflow'' m)" "quiet (oerr oe)"
  by (cases oe; simp add: quiet_def NETTING_def VALUE_def WIRE_def oerr_def)+

lemma quiet_derr: "e \<noteq> DecPanic \<Longrightarrow> quiet (derr e)"
  by (cases e) (simp_all add: quiet_def NETTING_def)

lemma money_add_Err: "money_add a b = Err e \<Longrightarrow> e = Overflow"
  by (auto simp: money_add_def add_signed_def add_big_def Let_def
      dest: finish_u128_Err finish_big_Err split: option.splits prod.splits if_splits)

lemma money_mul_Err: "money_mul a b = Err e \<Longrightarrow> e = Overflow"
  by (auto simp: money_mul_def Let_def dest: finish_u128_Err finish_big_Err split: option.splits prod.splits)

lemma dadd_quiet: "dadd a b = Err e \<Longrightarrow> quiet e"
  by (cases "money_add a b") (auto simp: dadd_def intro: quiet_derr dest: money_add_Err)

lemma dneg_quiet: "dneg a = Err e \<Longrightarrow> quiet e"
  by (cases "money_neg a") (auto simp: dneg_def money_neg_def Let_def intro: quiet_derr dest: finish_u128_Err split: prod.splits)

lemma mul_i128_Err: "mul_i128 a n = Err e \<Longrightarrow> e = Overflow"
  by (auto simp: mul_i128_def from_i128_def and_then_Err_iff dest: money_mul_Err build_Err)

lemma dmul_i_quiet: "dmul_i a n = Err e \<Longrightarrow> quiet e"
  by (cases "mul_i128 a n") (auto simp: dmul_i_def intro: quiet_derr dest: mul_i128_Err)

lemma symbol_quiet: "symbol i = Err e \<Longrightarrow> quiet e" "leg_symbols ls = Err e \<Longrightarrow> quiet e"
proof (induction i and ls arbitrary: e and e rule: symbol_leg_symbols.induct)
  case (2 c)
  then show ?case by (cases "wire_occ (contract_wire c)") (auto simp: option_occ_def)
qed (auto simp: and_then_Err_iff)

lemma wire_symbol_quiet: "wire_symbol i = Err e \<Longrightarrow> quiet e" "wire_leg_symbols ls = Err e \<Longrightarrow> quiet e"
proof (induction i and ls arbitrary: e and e rule: wire_symbol_wire_leg_symbols.induct)
  case (2 c)
  have "quiet e" if "map_err (\<lambda>e. LErr VALUE (oe_message e)) r = Err e" for r :: "string ores"
    using that by (cases r) auto
  then show ?case using 2 by (auto simp: wire_option_occ_def wire_def lerr_def Let_def split: option.splits if_splits)
qed (auto simp: and_then_Err_iff)

lemma quiet_if: "(if b then lerr ''value'' m else r) = Err e \<Longrightarrow> (r = Err e \<Longrightarrow> quiet e) \<Longrightarrow> quiet e"
  by (auto simp: lerr_def split: if_splits)

lemma None_if: "(if b then None else r) = Some v \<Longrightarrow> r = Some v"
  by (simp split: if_splits)

lemma parse_time_quiet:
  assumes "parse_time t = Some (Err e)"
  shows "quiet e"
proof (cases "time_parts (takeWhile (\<lambda>c. c \<noteq> CHR ''.'' \<and> c \<noteq> CHR '','') t)")
  case (Some ps)
  from assms show ?thesis unfolding parse_time_def Let_def Some option.case
    by - (drule None_if, drule None_if, drule option.inject [THEN iffD1], (erule quiet_if)+, simp)
qed (use assms in \<open>simp add: parse_time_def Let_def\<close>)

lemma parse_offset_quiet:
  assumes "parse_offset t = Some (Err e)"
  shows "quiet e"
proof (cases "time_parts (drop 1 t)")
  case (Some ps)
  then show ?thesis using assms unfolding parse_offset_def Let_def
    by (simp only: option.case split: if_split_asm) (auto simp: lerr_def)
qed (use assms in \<open>auto simp: parse_offset_def Let_def lerr_def split: if_splits\<close>)

lemma make_date_quiet: "make_date x y m d = Err e \<Longrightarrow> quiet e"
  by (auto simp: make_date_def lerr_def split: if_splits)

lemma parse_datetime_quiet: "parse_datetime x s = Err e \<Longrightarrow> quiet e"
proof -
  assume err: "parse_datetime x s = Err e"
  have rest: "rspec (\<lambda>_. True) quiet (case parse_time u of None \<Rightarrow> bad_iso | Some r \<Rightarrow> and_then r g)"
    if "\<And>v. rspec (\<lambda>_. True) quiet (g v)" for u and g :: "nat \<times> nat \<Rightarrow> (date_time \<times> bool) lres"
  proof (cases "parse_time u")
    case (Some r)
    then show ?thesis using parse_time_quiet that by (cases r) auto
  qed (simp add: bad_iso_def lerr_def)
  have off: "rspec (\<lambda>_. True) quiet (case parse_offset z of None \<Rightarrow> bad_iso | Some r \<Rightarrow> and_then r (\<lambda>v. Ok (g v)))"
    for z and g :: "int \<Rightarrow> date_time \<times> bool"
  proof (cases "parse_offset z")
    case (Some r)
    then show ?thesis using parse_offset_quiet by (cases r) auto
  qed (simp add: bad_iso_def lerr_def)
  have "rspec (\<lambda>_. True) quiet (parse_datetime x s)"
  proof (cases "date_prefix s")
    case (Some p)
    obtain y mo d u where p: "p = (y, mo, d, u)" by (cases p) auto
    show ?thesis
    proof (cases "make_date x y mo d")
      case (Ok date)
      obtain tpart tz where "split_tz (drop 1 u) = (tpart, tz)" by (cases "split_tz (drop 1 u)")
      then show ?thesis using Some p Ok off
        by (cases tz) (auto simp: parse_datetime_def bad_iso_def lerr_def Let_def intro!: rest)
    next
      case (Err e)
      then show ?thesis using Some p make_date_quiet [OF Err] by (simp add: parse_datetime_def bad_iso_def lerr_def)
    qed
  qed (simp add: parse_datetime_def bad_iso_def lerr_def)
  then show "quiet e" using err by simp
qed

end
