(* ===== verification/Netting_Loop.thy ===== *)
theory Netting_Loop
  imports Netting_Inv "HOL-Library.Multiset"
begin

section \<open>The loop over the orders of a batch\<close>

subsection \<open>Lists under a key\<close>

definition omap_all :: "(string \<Rightarrow> 'k \<Rightarrow> 'v \<Rightarrow> bool) \<Rightarrow> ('k, 'v list) omap \<Rightarrow> bool" where
  "omap_all Q m \<longleftrightarrow> (\<forall>(h, k, vs)\<in>set (om_items m). vs \<noteq> [] \<and> (\<forall>v\<in>set vs. Q h k v))"

lemma omap_all_new [simp]: "omap_all Q omap_new"
  by (simp add: omap_all_def omap_new_def)

lemma omap_all_mono: "omap_all Q m \<Longrightarrow> (\<And>h k v. Q h k v \<Longrightarrow> R h k v) \<Longrightarrow> omap_all R m"
  by (fastforce simp: omap_all_def)

lemma omap_append_items:
  assumes m: "omap_inv m"
  shows "om_items (omap_append m hk key v) = om_items m @ [(hk, key, [v])] \<and> hk \<notin> set (omap_keys m)
    \<or> (\<exists>as k vs bs. om_items m = as @ (hk, k, vs) # bs
        \<and> om_items (omap_append m hk key v) = as @ (hk, k, vs @ [v]) # bs)"
proof (cases "om_index m hk")
  case None
  then show ?thesis using omap_index_None [OF m, of hk] by (simp add: omap_append_def omap_contains_def omap_insert_def)
next
  case (Some i)
  then have i: "i < length (om_items m)" "fst (om_items m ! i) = hk" using m by (auto simp: omap_inv_def)
  then obtain k vs where at_i: "om_items m ! i = (hk, k, vs)" by (metis prod.collapse)
  let ?xs = "om_items m"
  have "?xs = take i ?xs @ (hk, k, vs) # drop (Suc i) ?xs" using id_take_nth_drop [OF i(1)] at_i by simp
  moreover have "om_items (omap_append m hk key v) = take i ?xs @ (hk, k, vs @ [v]) # drop (Suc i) ?xs"
    using Some at_i upd_conv_take_nth_drop [OF i(1)]
    by (simp add: omap_append_def omap_contains_def omap_get_mut_def)
  ultimately show ?thesis by blast
qed

lemma omap_inv_append [simp]: "omap_inv m \<Longrightarrow> omap_inv (omap_append m hk key v)"
  by (simp add: omap_append_def)

lemma omap_append_mset:
  "omap_inv m \<Longrightarrow> mset (concat (omap_values (omap_append m hk key v))) = add_mset v (mset (concat (omap_values m)))"
  using omap_append_items [of m hk key v] by (auto simp: omap_values_def)

lemma omap_all_append:
  assumes "omap_inv m" "omap_all Q m" "Q hk key v" "\<And>k u. Q hk k u \<Longrightarrow> Q hk k v"
  shows "omap_all Q (omap_append m hk key v)"
proof -
  from omap_append_items [OF assms(1), of hk key v]
  consider "om_items (omap_append m hk key v) = om_items m @ [(hk, key, [v])]"
    | as k vs bs where "om_items m = as @ (hk, k, vs) # bs" "om_items (omap_append m hk key v) = as @ (hk, k, vs @ [v]) # bs"
    by blast
  then show ?thesis
  proof cases
    case 1
    then show ?thesis using assms(2,3) by (simp add: omap_all_def)
  next
    case (2 as k vs bs)
    then have "vs \<noteq> []" "\<forall>u\<in>set vs. Q hk k u" using assms(2) by (simp_all add: omap_all_def)
    then have "Q hk k v" using assms(4) hd_in_set by blast
    then show ?thesis using 2 assms(2) by (simp add: omap_all_def)
  qed
qed

subsection \<open>Trying an order\<close>

lemma bump_quiet: "bump acct delta book = Err e \<Longrightarrow> quiet e"
  by (induction acct delta book rule: bump.induct) (auto simp: and_then_Err_iff dest: dadd_quiet split: if_splits)

lemma signed_qty_quiet: "signed_qty sd q = Err e \<Longrightarrow> quiet e"
  by (auto simp: signed_qty_def dest: dneg_quiet split: if_splits)

lemma trial_legs_quiet: "trial_legs st holdings r legs trials = Err e \<Longrightarrow> quiet e"
  by (induction st holdings r legs trials rule: trial_legs.induct)
    (auto simp: Let_def and_then_Err_iff dest: bump_quiet signed_qty_quiet symbol_quiet(1) split: option.splits if_splits)

lemma map_r_Err: "map_r f xs = Err e \<Longrightarrow> \<exists>v\<in>set xs. f v = Err e"
  by (induction xs) (auto simp: and_then_Err_iff)

lemma legs_of_quiet: "legs_of r = Err e \<Longrightarrow> quiet e"
  by (auto simp: legs_of_def wire_def lerr_def and_then_Err_iff dest!: dmul_i_quiet map_r_Err
      split: option.splits instrument.splits)

lemma vertical_reason_quiet: "vertical_reason legs = Err e \<Longrightarrow> quiet e"
  unfolding vertical_reason_def Let_def
  by (auto simp: and_then_Err_iff simp del: wire_symbol.simps dest: wire_symbol_quiet(1) split: if_splits)

lemma screen_quiet: "screen r mirrored = Err e \<Longrightarrow> quiet e"
  by (auto simp: screen_def and_then_Err_iff dest: vertical_reason_quiet
      split: if_splits option.splits wire_instrument.splits)

text \<open>A tried leg has a book that is not mixed, and does not oppose the side of the batch.\<close>

lemma trial_legs_None:
  assumes "trial_legs st holdings r legs trials = Ok (None, trials')" "omap_inv trials"
  shows "omap_inv trials' \<and> (\<forall>k. omap_get trials k \<noteq> None \<longrightarrow> omap_get trials' k \<noteq> None)
    \<and> (\<forall>(c, sd, q)\<in>set legs. omap_get trials' (instr_hk c) \<noteq> None \<and> opposes st (instr_hk c) sd = None)
    \<and> (\<forall>k b. omap_get trials' k = Some b \<longrightarrow> omap_get trials k = Some b \<or> \<not> mixed_signs b)"
  using assms
proof (induction st holdings r legs trials rule: trial_legs.induct)
  case (2 st holdings r c' sd' q' rest trials)
  let ?hk = "instr_hk c'"
  have none: "opposes st ?hk sd' = None"
    using "2.prems"(1) by (cases "opposes st ?hk sd'") (auto simp: Let_def)
  obtain delta t where d: "signed_qty sd' q' = Ok delta" "bump (no_account_id r) delta (book_of st holdings ?hk) = Ok t"
    "\<not> mixed_signs t" "trial_legs st holdings r rest (omap_insert trials ?hk c' t) = Ok (None, trials')"
    using "2.prems"(1) none by (auto simp: Let_def split: if_splits)
  have "omap_inv (omap_insert trials ?hk c' t)" using "2.prems"(2) by simp
  from "2.IH" [OF refl none d this] show ?case
    using none d(3) "2.prems"(2) by (auto simp: omap_get_insert split: if_splits)
qed simp_all

subsection \<open>Taking an order\<close>

text \<open>What the steps of one order leave alone, and that a side once recorded stays.\<close>

definition keeps :: "net_state \<Rightarrow> net_state \<Rightarrow> bool" where
  "keeps st st' \<longleftrightarrow>
     ns_refused st' = ns_refused st \<and> ns_seen_ids st' = ns_seen_ids st \<and> ns_accepted st' = ns_accepted st
     \<and> ns_verticals st' = ns_verticals st
     \<and> (\<forall>k v. omap_get (ns_batch_side st) k = Some v \<longrightarrow> omap_get (ns_batch_side st') k = Some v)"

definition maps_ok :: "net_state \<Rightarrow> bool" where
  "maps_ok st \<longleftrightarrow> omap_inv (ns_accepted st) \<and> omap_inv (ns_batch_side st) \<and> omap_inv (ns_books st)"

definition books_pure :: "net_state \<Rightarrow> bool" where
  "books_pure st \<longleftrightarrow> (\<forall>k b. omap_get (ns_books st) k = Some b \<longrightarrow> \<not> mixed_signs b)"

lemma take_leg_spec:
  assumes "omap_get trials (instr_hk c) = Some t" "maps_ok st"
  obtains st' where "take_leg r trials st (c, sd, q) = Ok st'" "maps_ok st'" "keeps st st'"
    "omap_get (ns_batch_side st') (instr_hk c) \<noteq> None"
    "\<And>k v. omap_get (ns_batch_side st') k = Some v \<Longrightarrow>
       omap_get (ns_batch_side st) k = Some v \<or> k = instr_hk c \<and> fst v = sd"
    "\<And>k. omap_get (ns_books st') k = (if k = instr_hk c then Some t else omap_get (ns_books st) k)"
proof -
  let ?st = "st\<lparr>ns_books := omap_insert (ns_books st) (instr_hk c) c t\<rparr>"
  let ?st' = "if omap_contains (ns_batch_side ?st) (instr_hk c) then ?st
    else ?st\<lparr>ns_batch_side := omap_insert (ns_batch_side ?st) (instr_hk c) c (sd, no_order_id r)\<rparr>"
  have "take_leg r trials st (c, sd, q) = Ok ?st'" using assms(1) by (simp add: take_leg_def Let_def)
  moreover have "maps_ok ?st'" using assms(2) by (simp add: maps_ok_def)
  moreover have "keeps st ?st'" using assms(2) by (simp add: keeps_def maps_ok_def omap_get_insert omap_contains_get)
  moreover have "omap_get (ns_batch_side ?st') (instr_hk c) \<noteq> None"
    and "omap_get (ns_batch_side ?st') k = Some v \<Longrightarrow> omap_get (ns_batch_side st) k = Some v \<or> k = instr_hk c \<and> fst v = sd"
    and "omap_get (ns_books ?st') k = (if k = instr_hk c then Some t else omap_get (ns_books st) k)" for k v
    using assms(2) by (auto simp: maps_ok_def omap_get_insert omap_contains_get split: if_splits)
  ultimately show thesis using that [of ?st'] by blast
qed

definition leg_key :: "instrument \<times> side \<times> money \<Rightarrow> string" where
  "leg_key leg = instr_hk (fst leg)"

lemma leg_key_simp [simp]: "leg_key (c, sd, q) = instr_hk c"
  by (simp add: leg_key_def)

lemma take_legs_spec:
  assumes "\<forall>(c, sd, q)\<in>set legs. omap_get trials (instr_hk c) \<noteq> None" "maps_ok st"
  shows "\<exists>st'. fold_r (take_leg r trials) st legs = Ok st' \<and> maps_ok st' \<and> keeps st st'
    \<and> (\<forall>(c, sd, q)\<in>set legs. omap_get (ns_batch_side st') (instr_hk c) \<noteq> None)
    \<and> (\<forall>k v. omap_get (ns_batch_side st') k = Some v \<longrightarrow>
          omap_get (ns_batch_side st) k = Some v \<or> (\<exists>(c, sd, q)\<in>set legs. k = instr_hk c \<and> fst v = sd))
    \<and> (\<forall>k. omap_get (ns_books st') k =
          (if k \<in> leg_key ` set legs then omap_get trials k else omap_get (ns_books st) k))"
  using assms
proof (induction legs arbitrary: st)
  case (Cons leg legs)
  obtain c sd q where leg: "leg = (c, sd, q)" by (cases leg)
  then obtain t where t: "omap_get trials (instr_hk c) = Some t" using Cons.prems(1) by auto
  obtain st1 where st1: "take_leg r trials st (c, sd, q) = Ok st1" "maps_ok st1" "keeps st st1"
    "omap_get (ns_batch_side st1) (instr_hk c) \<noteq> None"
    "\<And>k v. omap_get (ns_batch_side st1) k = Some v \<Longrightarrow>
       omap_get (ns_batch_side st) k = Some v \<or> k = instr_hk c \<and> fst v = sd"
    "\<And>k. omap_get (ns_books st1) k = (if k = instr_hk c then Some t else omap_get (ns_books st) k)"
    by (rule take_leg_spec [OF t Cons.prems(2), of r sd q]) blast
  have "\<forall>(c, sd, q)\<in>set legs. omap_get trials (instr_hk c) \<noteq> None" using Cons.prems(1) by auto
  from Cons.IH [OF this st1(2)] obtain st' where st': "fold_r (take_leg r trials) st1 legs = Ok st'" "maps_ok st'"
    "keeps st1 st'" "\<forall>(c, sd, q)\<in>set legs. omap_get (ns_batch_side st') (instr_hk c) \<noteq> None"
    "\<forall>k v. omap_get (ns_batch_side st') k = Some v \<longrightarrow>
      omap_get (ns_batch_side st1) k = Some v \<or> (\<exists>(c, sd, q)\<in>set legs. k = instr_hk c \<and> fst v = sd)"
    "\<forall>k. omap_get (ns_books st') k =
      (if k \<in> leg_key ` set legs then omap_get trials k else omap_get (ns_books st1) k)" by blast
  have "keeps st st'" using st1(3) st'(3) by (simp add: keeps_def)
  moreover have "omap_get (ns_batch_side st') (instr_hk c) \<noteq> None" using st1(4) st'(3) by (auto simp: keeps_def)
  moreover have "\<forall>k v. omap_get (ns_batch_side st') k = Some v \<longrightarrow>
      omap_get (ns_batch_side st) k = Some v \<or> (\<exists>(c, sd, q)\<in>set (leg # legs). k = instr_hk c \<and> fst v = sd)"
    using leg st'(5) st1(5) by fastforce
  moreover have "\<forall>k. omap_get (ns_books st') k =
      (if k \<in> leg_key ` set (leg # legs) then omap_get trials k else omap_get (ns_books st) k)"
    using leg st'(6) st1(6) t by auto
  ultimately show ?case using leg st1(1) st'(1,2,4) by (intro exI [of _ st']) auto
qed (simp add: keeps_def)

subsection \<open>The account of the orders read so far\<close>

definition id_at :: "norder list \<Rightarrow> nat \<Rightarrow> string" where
  "id_at orders i = no_order_id (orders ! i)"

definition filed :: "norder list \<Rightarrow> (instrument, side \<times> string) omap \<Rightarrow> string \<Rightarrow> instrument \<Rightarrow> nat \<Rightarrow> bool" where
  "filed orders sides h k i \<longleftrightarrow>
     i < length orders \<and> instr_hk k = h \<and> (\<exists>m. no_model (orders ! i) = Some m \<and> instr_hk m = h)
     \<and> (\<exists>oid. omap_get sides h = Some (no_side (orders ! i), oid))"

definition net_inv :: "norder list \<Rightarrow> nat \<Rightarrow> net_state \<Rightarrow> bool" where
  "net_inv orders n st \<longleftrightarrow>
     maps_ok st \<and> books_pure st
     \<and> mset (map fst (ns_refused st)) + mset (map (id_at orders) (concat (omap_values (ns_accepted st))))
         + mset (map (id_at orders) (ns_verticals st)) = mset (map no_order_id (take n orders))
     \<and> omap_all (filed orders (ns_batch_side st)) (ns_accepted st)
     \<and> (\<forall>i\<in>set (ns_verticals st). i < length orders \<and> (\<exists>legs. no_model (orders ! i) = Some (Combo legs)))"

lemma net_inv_start: "net_inv orders 0 net_start"
  by (simp add: net_inv_def net_start_def maps_ok_def books_pure_def omap_values_def) (simp add: omap_new_def)

lemma net_inv_seen [simp]: "net_inv orders n (st\<lparr>ns_seen_ids := s\<rparr>) = net_inv orders n st"
  by (simp add: net_inv_def maps_ok_def books_pure_def)

lemma net_inv_refuse:
  "net_inv orders i st \<Longrightarrow> i < length orders \<Longrightarrow> net_inv orders (Suc i) (refuse st (orders ! i) why)"
  by (simp add: net_inv_def refuse_def maps_ok_def books_pure_def take_Suc_conv_app_nth)

lemma file_order_spec:
  assumes inv: "net_inv orders i st" and i: "i < length orders" and m: "no_model (orders ! i) = Some m"
    and side: "(\<nexists>legs. m = Combo legs) \<Longrightarrow> \<exists>oid. omap_get (ns_batch_side st) (instr_hk m) = Some (no_side (orders ! i), oid)"
  shows "rspec (net_inv orders (Suc i)) quiet (file_order st i (orders ! i))"
proof (cases "\<exists>legs. m = Combo legs")
  case True
  then show ?thesis using inv i m
    by (auto simp: file_order_def net_inv_def maps_ok_def books_pure_def id_at_def take_Suc_conv_app_nth)
next
  case False
  let ?st' = "st\<lparr>ns_accepted := omap_append (ns_accepted st) (instr_hk m) m i\<rparr>"
  have filing: "file_order st i (orders ! i) = Ok ?st'" using False m by (cases m) (simp_all add: file_order_def)
  have acc: "omap_inv (ns_accepted st)" using inv by (simp add: net_inv_def maps_ok_def)
  have "filed orders (ns_batch_side st) (instr_hk m) m i" using i m side [OF False] by (auto simp: filed_def)
  moreover have "filed orders (ns_batch_side st) (instr_hk m) k i" if "filed orders (ns_batch_side st) (instr_hk m) k u" for k u
    using that i m side [OF False] by (auto simp: filed_def)
  ultimately have "omap_all (filed orders (ns_batch_side st)) (omap_append (ns_accepted st) (instr_hk m) m i)"
    using omap_all_append [OF acc] inv by (simp add: net_inv_def)
  then show ?thesis using inv i acc omap_append_mset [OF acc, of "instr_hk m" m i]
    by (simp add: filing net_inv_def maps_ok_def books_pure_def id_at_def take_Suc_conv_app_nth)
qed

lemma net_inv_keeps:
  "net_inv orders n st \<Longrightarrow> keeps st st' \<Longrightarrow> maps_ok st' \<Longrightarrow> books_pure st' \<Longrightarrow> net_inv orders n st'"
  by (auto simp: net_inv_def keeps_def filed_def elim!: omap_all_mono)

lemma opposes_None: "opposes st hk sd = None \<longleftrightarrow> (\<forall>v. omap_get (ns_batch_side st) hk = Some v \<longrightarrow> fst v = sd)"
  by (auto simp: opposes_def split: option.splits)

lemma take_order_spec:
  assumes inv: "net_inv orders i st" and i: "i < length orders" and legs: "legs_of (orders ! i) = Ok legs"
    and tried: "trial_legs st holdings (orders ! i) legs omap_new = Ok (None, trials)"
  shows "rspec (net_inv orders (Suc i)) quiet
    (and_then (fold_r (take_leg (orders ! i) trials) st legs) (\<lambda>st. file_order st i (orders ! i)))"
proof -
  let ?r = "orders ! i"
  note t = trial_legs_None [OF tried omap_inv_new]
  have "maps_ok st" using inv by (simp add: net_inv_def)
  then obtain st' where st': "fold_r (take_leg ?r trials) st legs = Ok st'" "maps_ok st'" "keeps st st'"
    "\<forall>(c, sd, q)\<in>set legs. omap_get (ns_batch_side st') (instr_hk c) \<noteq> None"
    "\<forall>k v. omap_get (ns_batch_side st') k = Some v \<longrightarrow>
      omap_get (ns_batch_side st) k = Some v \<or> (\<exists>(c, sd, q)\<in>set legs. k = instr_hk c \<and> fst v = sd)"
    "\<forall>k. omap_get (ns_books st') k =
      (if k \<in> leg_key ` set legs then omap_get trials k else omap_get (ns_books st) k)"
    using take_legs_spec [of legs trials st ?r] t by fastforce
  have "books_pure st'" using st'(6) t inv by (auto simp: books_pure_def net_inv_def split: if_splits)
  then have kept: "net_inv orders i st'" using net_inv_keeps [OF inv st'(3,2)] by simp
  obtain m where m: "no_model ?r = Some m"
    using legs by (cases "no_model ?r") (simp_all add: legs_of_def wire_def lerr_def)
  have "\<exists>oid. omap_get (ns_batch_side st') (instr_hk m) = Some (no_side ?r, oid)" if "\<nexists>ls. m = Combo ls"
  proof -
    have l: "legs = [(m, no_side ?r, no_quantity ?r)]" using that legs m by (cases m) (simp_all add: legs_of_def)
    then obtain v where v: "omap_get (ns_batch_side st') (instr_hk m) = Some v" using st'(4) by auto
    have "opposes st (instr_hk m) (no_side ?r) = None" using t l by simp
    moreover have "omap_get (ns_batch_side st) (instr_hk m) = Some v \<or> fst v = no_side ?r" using st'(5) v l by fastforce
    ultimately have "fst v = no_side ?r" unfolding opposes_None by blast
    then show ?thesis using v by (cases v) simp
  qed
  then show ?thesis using file_order_spec [OF kept i m] st'(1) by simp
qed

lemma net_order_spec:
  assumes inv: "net_inv orders i st" and i: "i < length orders"
  shows "rspec (net_inv orders (Suc i)) quiet (net_order mirrored holdings st (i, orders ! i))"
proof -
  let ?r = "orders ! i" and ?st = "st\<lparr>ns_seen_ids := ns_seen_ids st @ [no_order_id (orders ! i)]\<rparr>"
  have inv': "net_inv orders i ?st" using inv by simp
  have refuse: "net_inv orders (Suc i) (refuse ?st ?r why)" "net_inv orders (Suc i) (refuse st ?r why)" for why
    using net_inv_refuse [OF inv' i] net_inv_refuse [OF inv i] .
  have body: "rspec (net_inv orders (Suc i)) quiet
      (and_then (trial_legs ?st holdings ?r legs omap_new) (\<lambda>(conflict, trials). case conflict of
         Some reason \<Rightarrow> Ok (refuse ?st ?r reason)
       | None \<Rightarrow> and_then (fold_r (take_leg ?r trials) ?st legs) (\<lambda>st. file_order st i ?r)))"
    if "legs_of ?r = Ok legs" for legs
    by (rule rspec_and_then [OF rspec_ErrI [OF trial_legs_quiet]])
      (auto simp: refuse take_order_spec [OF inv' i that] split: option.splits)
  have screened: "rspec (net_inv orders (Suc i)) quiet
      (and_then (screen ?r mirrored) (\<lambda>screened. case screened of
         Some reason \<Rightarrow> Ok (refuse ?st ?r reason)
       | None \<Rightarrow> and_then (legs_of ?r) (\<lambda>legs.
           and_then (trial_legs ?st holdings ?r legs omap_new) (\<lambda>(conflict, trials). case conflict of
             Some reason \<Rightarrow> Ok (refuse ?st ?r reason)
           | None \<Rightarrow> and_then (fold_r (take_leg ?r trials) ?st legs) (\<lambda>st. file_order st i ?r)))))"
    using refuse
    by (intro rspec_and_then [OF rspec_ErrI [OF screen_quiet]])
      (auto split: option.split intro: rspec_and_then [OF rspec_ErrI [OF legs_of_quiet]] body)
  show ?thesis unfolding net_order_def Let_def prod.case using refuse screened by simp
qed

lemma net_loop_spec:
  "rspec (net_inv orders (length orders)) quiet (fold_r (net_order mirrored holdings) net_start (List.enumerate 0 orders))"
  by (rule rspec_enumerate) (simp_all add: net_inv_start net_order_spec)

end
