(* ===== verification/Netting_Tickets.thy ===== *)
theory Netting_Tickets
  imports Netting_Loop
begin

section \<open>The tickets of a batch\<close>

text \<open>What a ticket says of the orders it carries, and that building tickets loses no order.\<close>

definition allocated :: "norder \<Rightarrow> string \<times> string \<times> money" where
  "allocated r = (no_order_id r, no_account_id r, no_quantity r)"

text \<open>An order a ticket may carry: on its contract, side, type, time in force and limit.\<close>

definition alike :: "ticket \<Rightarrow> norder \<Rightarrow> bool" where
  "alike t r \<longleftrightarrow>
     no_side r = tk_side t \<and> no_order_type r = tk_order_type t \<and> no_tif r = tk_tif t
     \<and> (\<exists>m. no_model r = Some m \<and> instr_hk m = instr_hk (tk_instrument t))
     \<and> (tk_order_type t = Limit \<longrightarrow> map_option canon (no_limit_price r) = map_option canon (tk_limit_price t))"

definition good_ticket :: "norder list \<Rightarrow> ticket \<Rightarrow> bool" where
  "good_ticket orders t \<longleftrightarrow>
     (\<exists>grp. grp \<noteq> [] \<and> set grp \<subseteq> set orders \<and> tk_allocations t = map allocated grp \<and> (\<forall>r\<in>set grp. alike t r)
       \<and> fold_r dadd ZERO (map no_quantity grp) = Ok (tk_quantity t) \<and> 0 < mval (tk_quantity t)
       \<and> (\<forall>r\<in>set grp. 0 < mval (no_quantity r)))"

definition ticket_ids :: "ticket list \<Rightarrow> string list" where
  "ticket_ids ts = concat (map (\<lambda>t. map fst (tk_allocations t)) ts)"

lemma fst_allocated [simp]: "fst (allocated r) = no_order_id r"
  by (simp add: allocated_def)

lemma map_fst_allocated: "map fst (map allocated grp) = map no_order_id grp"
  by simp

lemma fold_r_map: "fold_r f a (map g xs) = fold_r (\<lambda>b v. f b (g v)) a xs"
proof (induction xs arbitrary: a)
  case (Cons v vs)
  then show ?case by (cases "f a (g v)") simp_all
qed simp

lemma fold_dadd_quiet: "fold_r (\<lambda>q v. dadd q (g v)) a xs = Err e \<Longrightarrow> quiet e"
  by (induction xs arbitrary: a) (auto simp: and_then_Err_iff dest: dadd_quiet)

lemma allocation_of_spec: "rspec (\<lambda>a. a = allocated r \<and> 0 < mval (no_quantity r)) quiet (allocation_of r)"
  by (auto simp: allocation_of_def allocated_def lerr_def)

lemma allocations_spec:
  "rspec (\<lambda>as. as = map allocated grp \<and> (\<forall>r\<in>set grp. 0 < mval (no_quantity r))) quiet (map_r allocation_of grp)"
proof -
  have "list_all2 (\<lambda>r a. a = allocated r \<and> 0 < mval (no_quantity r)) grp as \<Longrightarrow>
    as = map allocated grp \<and> (\<forall>r\<in>set grp. 0 < mval (no_quantity r))" for as
    by (induction grp arbitrary: as) (auto simp: list_all2_Cons1)
  with rspec_map_r [of grp "\<lambda>r a. a = allocated r \<and> 0 < mval (no_quantity r)" quiet allocation_of, OF allocation_of_spec]
  show ?thesis by (rule rspec_weaken)
qed

lemma ticket_key_spec: "rspec (\<lambda>key. length key = 64) quiet (ticket_key va i sd q ty lp tf ids)"
  unfolding ticket_key_def Let_def
  by (rule rspec_and_then [OF rspec_ErrI [OF symbol_quiet(1)]]) (simp_all add: sha256_hex_length)

definition built :: "instrument \<Rightarrow> order_type \<Rightarrow> tif \<Rightarrow> money option \<Rightarrow> norder list \<Rightarrow> ticket \<Rightarrow> bool" where
  "built i ty tf limit grp t \<longleftrightarrow>
     tk_instrument t = i \<and> tk_order_type t = ty \<and> tk_tif t = tf \<and> tk_limit_price t = limit
     \<and> tk_side t = no_side (hd grp) \<and> tk_allocations t = map allocated grp
     \<and> fold_r dadd ZERO (map no_quantity grp) = Ok (tk_quantity t) \<and> 0 < mval (tk_quantity t)
     \<and> (\<forall>r\<in>set grp. 0 < mval (no_quantity r))"

lemma rspec_if_lerr: "(\<not> b \<Longrightarrow> rspec P quiet r) \<Longrightarrow> rspec P quiet (if b then lerr VALUE m else r)"
  by (simp add: lerr_def)

lemma make_ticket_spec:
  assumes "grp \<noteq> []"
  shows "rspec (built i ty tf limit grp) quiet (make_ticket x va i ty tf limit grp ts)"
proof -
  obtain r rs where grp: "grp = r # rs" using assms by (cases grp) auto
  have total: "rspec (\<lambda>q. fold_r dadd ZERO (map no_quantity grp) = Ok q) quiet (fold_r (\<lambda>q leg. dadd q (no_quantity leg)) ZERO grp)"
    using rspec_ErrI [OF fold_dadd_quiet [of no_quantity]] by (simp add: fold_r_map)
  show ?thesis
    unfolding make_ticket_def grp list.case
  proof (rule rspec_and_then [OF total [unfolded grp]], rule rspec_and_then [OF ticket_key_spec],
      rule rspec_and_then [OF allocations_spec], goal_cases)
    case (1 q key as)
    have tot: "rspec (\<lambda>v. fold_r (\<lambda>q a. dadd q (snd (snd a))) ZERO as = Ok v) quiet
      (fold_r (\<lambda>q a. dadd q (snd (snd a))) ZERO as)"
      by (rule rspec_ErrI) (rule fold_dadd_quiet)
    have "rspec (built i ty tf limit grp) quiet
      (case p of (_, aware) \<Rightarrow>
        if \<not> aware then lerr VALUE ''submitted_at must be timezone-aware UTC datetime (I7)''
        else if ty = Market \<and> limit \<noteq> None then lerr VALUE ''MARKET order cannot have a limit_price''
        else if ty = Limit \<and> limit = None then lerr VALUE ''LIMIT order must have a limit_price''
        else and_then (fold_r (\<lambda>q a. dadd q (snd (snd a))) ZERO as) (\<lambda>allocated.
          if \<not> money_eq allocated q
          then lerr VALUE (''VenueOrder allocations total '' @ canon allocated @ '' but order quantity is '' @ canon q)
          else Ok \<lparr>tk_venue_order_id = ''tos:'' @ take 32 key, tk_instrument = i, tk_order_type = ty,
                 tk_side = no_side r, tk_quantity = q, tk_submitted_at = ts, tk_tif = tf, tk_limit_price = limit,
                 tk_allocations = as\<rparr>))" if "0 < mval q" for p :: "date_time \<times> bool"
      using 1 grp that unfolding case_prod_beta
      by (intro rspec_if_lerr rspec_and_then [OF tot]) (auto simp: built_def)
    note tail = this [unfolded grp]
    have key: "(length key < 32) = False" using 1(4) by simp
    show ?case unfolding key if_False
      by (intro rspec_if_lerr, rule rspec_and_then [OF rspec_ErrI [OF parse_datetime_quiet]])
        (assumption, rule tail, simp)
  qed
qed

subsection \<open>Groups\<close>

definition key_hk :: "group_key \<Rightarrow> string" where
  "key_hk k = (case k of (ty, tf, limit) \<Rightarrow>
     order_type_value ty @ [SOH] @ tif_value tf @ [SOH] @ (case limit of None \<Rightarrow> ''N'' | Some p \<Rightarrow> ''L'' @ canon p))"

lemma group_hk_key: "group_hk r = key_hk (no_order_type r, no_tif r, limit_of r)"
  by (simp add: group_hk_def key_hk_def)

lemma no_SOH: "SOH \<notin> set (order_type_value ty)" "SOH \<notin> set (tif_value tf)"
  by (cases ty; simp add: SOH_def) (cases tf; simp add: SOH_def)

lemma split_at_sep: "c \<notin> set a \<Longrightarrow> c \<notin> set b \<Longrightarrow> a @ c # u = b @ c # v \<Longrightarrow> a = b \<and> u = v"
proof (induction a arbitrary: b)
  case Nil
  then show ?case by (cases b) auto
next
  case (Cons y ys)
  then show ?case by (cases b) auto
qed

lemma value_inj: "order_type_value a = order_type_value b \<Longrightarrow> a = b" "tif_value c = tif_value d \<Longrightarrow> c = d"
  by (cases a; cases b; simp) (cases c; cases d; simp)

lemma key_hk_inj:
  assumes "key_hk (ty, tf, lp) = key_hk (ty', tf', lp')"
  shows "ty = ty'" "tf = tf'" "map_option canon lp = map_option canon lp'"
proof -
  let ?l = "\<lambda>lp. case lp of None \<Rightarrow> ''N'' | Some p \<Rightarrow> ''L'' @ canon p"
  have eq: "order_type_value ty @ SOH # tif_value tf @ SOH # ?l lp = order_type_value ty' @ SOH # tif_value tf' @ SOH # ?l lp'"
    using assms by (simp add: key_hk_def)
  from split_at_sep [OF no_SOH(1) no_SOH(1) eq]
  have ty: "order_type_value ty = order_type_value ty'" and rest: "tif_value tf @ SOH # ?l lp = tif_value tf' @ SOH # ?l lp'"
    by simp_all
  from split_at_sep [OF no_SOH(2) no_SOH(2) rest] have tf: "tif_value tf = tif_value tf'" and l: "?l lp = ?l lp'"
    by simp_all
  show "ty = ty'" "tf = tf'" using value_inj ty tf by blast+
  show "map_option canon lp = map_option canon lp'" using l by (cases lp; cases lp') simp_all
qed

definition grouped :: "norder list \<Rightarrow> nat list \<Rightarrow> string \<Rightarrow> group_key \<Rightarrow> nat \<Rightarrow> bool" where
  "grouped orders members h k i \<longleftrightarrow> i \<in> set members \<and> group_hk (orders ! i) = h \<and> key_hk k = h"

lemma omap_values_new: "omap_values omap_new = []"
  by (simp add: omap_values_def omap_new_def)

lemma omap_iter_snd: "omap_iter m = map snd (om_items m)"
  by (auto simp: omap_iter_def)

lemma group_orders_spec:
  assumes "\<forall>i\<in>set members. i < length orders"
  obtains groups where "group_orders orders members = Ok groups"
    "mset (concat (omap_values groups)) = mset members" "omap_all (grouped orders members) groups"
proof -
  have "\<exists>groups'. fold_r (\<lambda>groups m. and_then (order_at orders m) (\<lambda>leg.
         Ok (omap_append groups (group_hk leg) (no_order_type leg, no_tif leg, limit_of leg) m))) groups ms = Ok groups'
       \<and> mset (concat (omap_values groups')) = mset (concat (omap_values groups)) + mset ms
       \<and> omap_all (grouped orders members) groups'"
    if "set ms \<subseteq> set members" "omap_inv groups" "omap_all (grouped orders members) groups" for ms groups
    using that
  proof (induction ms arbitrary: groups)
    case (Cons m ms)
    let ?leg = "orders ! m"
    let ?g = "omap_append groups (group_hk ?leg) (no_order_type ?leg, no_tif ?leg, limit_of ?leg) m"
    have m: "m \<in> set members" using Cons.prems(1) by simp
    then have at: "order_at orders m = Ok ?leg" using assms by (simp add: order_at_def)
    have "omap_all (grouped orders members) ?g"
      by (rule omap_all_append [OF Cons.prems(2,3)]) (auto simp: grouped_def m group_hk_key)
    then show ?case using Cons.IH [of ?g] Cons.prems omap_append_mset [OF Cons.prems(2)] at by auto
  qed simp
  from this [OF subset_refl omap_inv_new omap_all_new] show thesis
    using that by (auto simp: group_orders_def omap_values_new)
qed

lemma orders_at:
  assumes "\<forall>i\<in>set ms. i < length orders"
  shows "map_r (order_at orders) ms = Ok (map (nth orders) ms)"
  using assms by (induction ms) (simp_all add: order_at_def)

subsection \<open>No order is lost\<close>

text \<open>The identifiers in tickets and refusals, over what was there before.\<close>

definition accounted :: "norder list \<Rightarrow> string multiset \<Rightarrow> outcome \<Rightarrow> bool" where
  "accounted orders ids out \<longleftrightarrow>
     mset (ticket_ids (fst out)) + mset (map fst (snd out)) = ids \<and> (\<forall>t\<in>set (fst out). good_ticket orders t)"

lemma built_good:
  assumes "built i ty tf limit grp t" "grp \<noteq> []" "set grp \<subseteq> set orders" "\<forall>r\<in>set grp. alike t r"
  shows "good_ticket orders t" "map fst (tk_allocations t) = map no_order_id grp"
  using assms by (auto simp: built_def good_ticket_def)

lemma refuse_group_spec: "rspec (\<lambda>rs. map fst rs = map no_order_id legs) quiet (refuse_group i legs why)"
proof -
  have "rspec (list_all2 (\<lambda>leg p. fst p = no_order_id leg) legs) quiet (refuse_group i legs why)"
    unfolding refuse_group_def
    by (rule rspec_map_r) (auto intro!: rspec_and_then [OF rspec_ErrI [OF symbol_quiet(1)]])
  then show ?thesis
    by (rule rspec_weaken) (auto simp: list_all2_conv_all_nth intro!: nth_equalityI)
qed

lemma ticket_group_spec:
  assumes out: "accounted orders ids out" and ms: "ms \<noteq> []" "\<forall>m\<in>set ms. filed orders sides h i m"
    and g: "\<forall>m\<in>set ms. group_hk (orders ! m) = key_hk (ty, tf, limit)"
  shows "rspec (accounted orders (ids + mset (map (id_at orders) ms))) quiet
    (ticket_group x orders va ts i out ((ty, tf, limit), ms))"
proof -
  obtain tickets refused where o: "out = (tickets, refused)" by (cases out)
  let ?legs = "map (nth orders) ms"
  have inside: "\<forall>m\<in>set ms. m < length orders" using ms(2) by (simp add: filed_def)
  have ids: "map no_order_id ?legs = map (id_at orders) ms" by (simp add: id_at_def)
  have legs: "?legs \<noteq> []" "set ?legs \<subseteq> set orders" using ms(1) inside by auto
  obtain s oid where "omap_get sides h = Some (s, oid)" using ms by (cases ms) (auto simp: filed_def)
  then have side: "\<forall>r\<in>set ?legs. no_side r = no_side (hd ?legs)"
    using ms by (cases ms) (auto simp: filed_def)
  have alike: "\<forall>r\<in>set ?legs. alike t r" if "built i ty tf limit ?legs t" for t
  proof
    fix r assume r: "r \<in> set ?legs"
    then obtain m where m: "m \<in> set ms" "r = orders ! m" by auto
    then have "key_hk (no_order_type r, no_tif r, limit_of r) = key_hk (ty, tf, limit)" using g by (simp add: group_hk_key)
    note k = key_hk_inj [OF this]
    show "alike t r" using that side r m k ms(2) by (auto simp: alike_def built_def filed_def limit_of_def)
  qed
  have "rspec (accounted orders (ids + mset (map (id_at orders) ms))) quiet
    (case make_ticket x va i ty tf limit ?legs ts of
       Ok t \<Rightarrow> Ok (tickets @ [t], refused)
     | Err e \<Rightarrow> if err_kind e = VALUE then and_then (refuse_group i ?legs (err_msg e)) (\<lambda>rs. Ok (tickets, refused @ rs)) else Err e)"
  proof (cases "make_ticket x va i ty tf limit ?legs ts")
    case (Ok t)
    then have b: "built i ty tf limit ?legs t" using make_ticket_spec [OF legs(1), of i ty tf limit x va ts] by simp
    have "map fst (tk_allocations t) = map (id_at orders) ms"
      by (simp only: built_good(2) [OF b legs alike [OF b]] ids)
    then show ?thesis using Ok out o built_good(1) [OF b legs alike [OF b]] by (auto simp: accounted_def ticket_ids_def)
  next
    case (Err e)
    then have "quiet e" using make_ticket_spec [OF legs(1), of i ty tf limit x va ts] by simp
    moreover have "rspec (accounted orders (ids + mset (map (id_at orders) ms))) quiet
        (and_then (refuse_group i ?legs (err_msg e)) (\<lambda>rs. Ok (tickets, refused @ rs)))"
      by (rule rspec_and_then [OF refuse_group_spec [of ?legs, unfolded ids]]) (use out o in \<open>simp add: accounted_def flip: mset_map\<close>)
    ultimately show ?thesis using Err by simp
  qed
  then show ?thesis by (simp add: ticket_group_def o orders_at [OF inside])
qed

lemma ticket_groups_spec:
  assumes out: "accounted orders ids out" and ms: "\<forall>m\<in>set ms. filed orders sides h i m"
    and items: "\<forall>(h, k, vs)\<in>set items. vs \<noteq> [] \<and> (\<forall>v\<in>set vs. grouped orders ms h k v)"
  shows "rspec (accounted orders (ids + mset (map (id_at orders) (concat (map (\<lambda>(h, k, v). v) items))))) quiet
    (fold_r (ticket_group x orders va ts i) out (map snd items))"
  using out items
proof (induction items arbitrary: out ids)
  case (Cons item items)
  obtain hk ty tf limit vs where item: "item = (hk, (ty, tf, limit), vs)" by (metis prod.exhaust)
  then have vs: "vs \<noteq> []" "\<forall>v\<in>set vs. filed orders sides h i v" "\<forall>v\<in>set vs. group_hk (orders ! v) = key_hk (ty, tf, limit)"
    using Cons.prems(2) ms by (auto simp: grouped_def)
  have "rspec (accounted orders (ids + mset (map (id_at orders) vs))) quiet (ticket_group x orders va ts i out ((ty, tf, limit), vs))"
    by (rule ticket_group_spec [OF Cons.prems(1) vs])
  moreover have "rspec (accounted orders (ids + mset (map (id_at orders) vs) + mset (map (id_at orders) (concat (map (\<lambda>(h, k, v). v) items))))) quiet
    (fold_r (ticket_group x orders va ts i) out' (map snd items))"
    if "accounted orders (ids + mset (map (id_at orders) vs)) out'" for out'
    by (rule Cons.IH [OF that]) (use Cons.prems(2) in simp)
  ultimately show ?case
    by (cases "ticket_group x orders va ts i out ((ty, tf, limit), vs)") (simp_all add: item ac_simps)
qed simp

lemma ticket_contract_spec:
  assumes out: "accounted orders ids out" and ms: "\<forall>m\<in>set ms. filed orders sides h i m"
  shows "rspec (accounted orders (ids + mset (map (id_at orders) ms))) quiet (ticket_contract x orders va ts out (i, ms))"
proof -
  have "\<forall>m\<in>set ms. m < length orders" using ms by (simp add: filed_def)
  then obtain groups where g: "group_orders orders ms = Ok groups" "mset (concat (omap_values groups)) = mset ms"
    "omap_all (grouped orders ms) groups" by (rule group_orders_spec)
  have "mset (map (id_at orders) (concat (map (\<lambda>(h, k, v). v) (om_items groups)))) = mset (map (id_at orders) ms)"
    using g(2) by (simp add: omap_values_def mset_map del: mset_concat)
  then show ?thesis
    using ticket_groups_spec [OF out ms, of "om_items groups" x va ts] g(1,3)
    by (simp add: ticket_contract_def omap_iter_snd omap_all_def)
qed

lemma ticket_contracts_spec:
  assumes out: "accounted orders ids out"
    and items: "\<forall>(h, k, vs)\<in>set items. vs \<noteq> [] \<and> (\<forall>v\<in>set vs. filed orders sides h k v)"
  shows "rspec (accounted orders (ids + mset (map (id_at orders) (concat (map (\<lambda>(h, k, v). v) items))))) quiet
    (fold_r (ticket_contract x orders va ts) out (map snd items))"
  using out items
proof (induction items arbitrary: out ids)
  case (Cons item items)
  obtain hk i vs where item: "item = (hk, i, vs)" by (metis prod.exhaust)
  have "rspec (accounted orders (ids + mset (map (id_at orders) vs))) quiet (ticket_contract x orders va ts out (i, vs))"
    by (rule ticket_contract_spec [OF Cons.prems(1), of vs sides hk]) (use Cons.prems(2) item in auto)
  moreover have "rspec (accounted orders (ids + mset (map (id_at orders) vs) + mset (map (id_at orders) (concat (map (\<lambda>(h, k, v). v) items))))) quiet
    (fold_r (ticket_contract x orders va ts) out' (map snd items))"
    if "accounted orders (ids + mset (map (id_at orders) vs)) out'" for out'
    by (rule Cons.IH [OF that]) (use Cons.prems(2) in simp)
  ultimately show ?case
    by (cases "ticket_contract x orders va ts out (i, vs)") (simp_all add: item ac_simps)
qed simp

lemma ticket_verticals_spec:
  assumes "accounted orders ids (tickets, refused)"
    and "\<forall>i\<in>set ixs. i < length orders \<and> (\<exists>legs. no_model (orders ! i) = Some (Combo legs))"
  shows "rspec (\<lambda>ts'. accounted orders (ids + mset (map (id_at orders) ixs)) (ts', refused)) quiet
    (fold_r (ticket_vertical x orders va ts) tickets ixs)"
  using assms
proof (induction ixs arbitrary: tickets ids)
  case (Cons i ixs)
  let ?r = "orders ! i"
  obtain legs where i: "i < length orders" "no_model ?r = Some (Combo legs)" using Cons.prems(2) by auto
  have at: "order_at orders i = Ok ?r" using i(1) by (simp add: order_at_def)
  let ?mk = "make_ticket x va (Combo legs) (no_order_type ?r) (no_tif ?r) (no_limit_price ?r) [?r] ts"
  have spec: "rspec (built (Combo legs) (no_order_type ?r) (no_tif ?r) (no_limit_price ?r) [?r]) quiet ?mk"
    by (rule make_ticket_spec) simp
  show ?case
  proof (cases ?mk)
    case (Ok t)
    then have b: "built (Combo legs) (no_order_type ?r) (no_tif ?r) (no_limit_price ?r) [?r] t" using spec by simp
    have "\<forall>r\<in>set [?r]. alike t r" using b i(2) by (simp add: alike_def built_def)
    then have "good_ticket orders t" "map fst (tk_allocations t) = [id_at orders i]"
      using built_good [OF b, of orders] i(1) by (simp_all add: id_at_def)
    then have "accounted orders (ids + {#id_at orders i#}) (tickets @ [t], refused)"
      using Cons.prems(1) by (simp add: accounted_def ticket_ids_def)
    from Cons.IH [OF this] show ?thesis using Cons.prems(2) Ok at i(2) by (simp add: ticket_vertical_def)
  next
    case (Err e)
    then show ?thesis using spec at i(2) by (simp add: ticket_vertical_def)
  qed
qed simp

text \<open>The final account passes on whatever the loops hand it.\<close>

lemma account_spec:
  assumes a: "accounted orders (mset (map no_order_id orders)) (tickets, refused)"
  shows "rspec (\<lambda>b. accounted orders (mset (map no_order_id orders)) (b_venue_orders b, b_refused b)) quiet
    (let outcomes = concat (map (\<lambda>t. map fst (tk_allocations t)) tickets) @ map fst refused in
     and_then (account_for_everything (map no_order_id orders) outcomes) (\<lambda>_.
       Ok \<lparr>b_venue_orders = tickets, b_refused = refused\<rparr>))"
proof -
  have "mset (ticket_ids tickets @ map fst refused) = mset (map no_order_id orders)"
    using a by (simp add: accounted_def)
  then have "sort (ticket_ids tickets @ map fst refused) = sort (map no_order_id orders)"
    by (metis mset_sort properties_for_sort sorted_sort)
  then show ?thesis using a by (simp add: account_for_everything_def ticket_ids_def Let_def)
qed

lemma netting_spec:
  assumes "orders \<noteq> []"
  shows "rspec (\<lambda>b. accounted orders (mset (map no_order_id orders)) (b_venue_orders b, b_refused b)) quiet
    (net_strategy_orders x orders va mirrored ts holdings)"
proof -
  have tickets: "rspec (\<lambda>b. accounted orders (mset (map no_order_id orders)) (b_venue_orders b, b_refused b)) quiet
      (and_then (fold_r (ticket_contract x orders va ts) ([], ns_refused st) (omap_iter (ns_accepted st)))
        (\<lambda>(tickets, refused). and_then (fold_r (ticket_vertical x orders va ts) tickets (ns_verticals st)) (\<lambda>tickets.
          let outcomes = concat (map (\<lambda>t. map fst (tk_allocations t)) tickets) @ map fst refused in
          and_then (account_for_everything (map no_order_id orders) outcomes) (\<lambda>_.
            Ok \<lparr>b_venue_orders = tickets, b_refused = refused\<rparr>))))"
    if inv: "net_inv orders (length orders) st" for st
  proof -
    have "accounted orders (mset (map fst (ns_refused st))) ([], ns_refused st)"
      by (simp add: accounted_def ticket_ids_def)
    from ticket_contracts_spec [OF this, of "om_items (ns_accepted st)" "ns_batch_side st" x va ts]
    have "rspec (accounted orders (mset (map fst (ns_refused st)) + mset (map (id_at orders) (concat (omap_values (ns_accepted st)))))) quiet
        (fold_r (ticket_contract x orders va ts) ([], ns_refused st) (omap_iter (ns_accepted st)))"
      using inv unfolding net_inv_def omap_all_def omap_iter_snd omap_values_def by blast
    then show ?thesis
    proof (rule rspec_and_then)
      fix out
      assume 2: "accounted orders (mset (map fst (ns_refused st)) + mset (map (id_at orders) (concat (omap_values (ns_accepted st))))) out"
      obtain tickets refused where o: "out = (tickets, refused)" by (cases out)
      from ticket_verticals_spec [OF 2 [unfolded o], of "ns_verticals st" x va ts]
      have "rspec (\<lambda>ts'. accounted orders (mset (map no_order_id orders)) (ts', refused)) quiet
          (fold_r (ticket_vertical x orders va ts) tickets (ns_verticals st))"
        using inv by (simp add: net_inv_def)
      then show "rspec (\<lambda>b. accounted orders (mset (map no_order_id orders)) (b_venue_orders b, b_refused b)) quiet
        (case out of (tickets, refused) \<Rightarrow>
          and_then (fold_r (ticket_vertical x orders va ts) tickets (ns_verticals st)) (\<lambda>tickets.
            let outcomes = concat (map (\<lambda>t. map fst (tk_allocations t)) tickets) @ map fst refused in
            and_then (account_for_everything (map no_order_id orders) outcomes) (\<lambda>_.
              Ok \<lparr>b_venue_orders = tickets, b_refused = refused\<rparr>)))"
        unfolding o prod.case by (rule rspec_and_then) (rule account_spec)
    qed
  qed
  have loop: "rspec (net_inv orders (length orders)) quiet
      (fold_r (net_order ms holdings) net_start (List.enumerate 0 orders))" for ms
    by (rule net_loop_spec)
  show ?thesis unfolding net_strategy_orders_def Let_def [of "foldl _ _ _"] using assms
    by (simp only: if_False) (rule rspec_and_then [OF loop tickets])
qed

end
