(* ===== verification/Netting_Books.thy ===== *)
theory Netting_Books
  imports Netting_Tickets
begin

section \<open>The venue's books over a batch\<close>

text \<open>
  The book of a contract is what the venue holds there for each strategy account. \<open>replay\<close> says what the
  taken orders do to it, one after another, with no reference to the state of the loop; the books of the loop
  are that replay, and a book an order was taken on never holds both signs.
\<close>

definition replay_leg :: "string \<Rightarrow> string \<Rightarrow> account_book \<Rightarrow> instrument \<times> side \<times> money \<Rightarrow> account_book lres" where
  "replay_leg hk acct book leg =
     (case leg of (contract, sd, q) \<Rightarrow>
        if instr_hk contract = hk then and_then (signed_qty sd q) (\<lambda>delta. bump acct delta book) else Ok book)"

definition replay_order :: "string \<Rightarrow> account_book \<Rightarrow> norder \<Rightarrow> account_book lres" where
  "replay_order hk book r = and_then (legs_of r) (fold_r (replay_leg hk (no_account_id r)) book)"

definition replay :: "holdings \<Rightarrow> norder list \<Rightarrow> string \<Rightarrow> account_book lres" where
  "replay holdings taken hk = fold_r (replay_order hk) (held_at holdings hk) taken"

definition trades :: "norder \<Rightarrow> string \<Rightarrow> bool" where
  "trades r hk \<longleftrightarrow> (case legs_of r of Ok legs \<Rightarrow> hk \<in> leg_key ` set legs | Err _ \<Rightarrow> False)"

text \<open>An order on which each contract is traded by one leg.\<close>

definition plain :: "norder \<Rightarrow> bool" where
  "plain r \<longleftrightarrow> (case legs_of r of Ok legs \<Rightarrow> distinct (map leg_key legs) | Err _ \<Rightarrow> True)"

text \<open>A tried leg leaves the book of its contract with the order's contracts booked.\<close>

lemma trial_legs_books:
  assumes "trial_legs st holdings r legs trials = Ok (None, trials')" "omap_inv trials"
    "distinct (map leg_key legs)"
  shows "(\<forall>hk. hk \<notin> leg_key ` set legs \<longrightarrow> omap_get trials' hk = omap_get trials hk)
    \<and> (\<forall>(c, sd, q)\<in>set legs. \<exists>delta t. signed_qty sd q = Ok delta
        \<and> bump (no_account_id r) delta (book_of st holdings (instr_hk c)) = Ok t \<and> omap_get trials' (instr_hk c) = Some t)"
  using assms
proof (induction st holdings r legs trials rule: trial_legs.induct)
  case (2 st holdings r c' sd' q' rest trials)
  let ?hk = "instr_hk c'"
  have none: "opposes st ?hk sd' = None"
    using "2.prems"(1) by (cases "opposes st ?hk sd'") (auto simp: Let_def)
  obtain delta t where d: "signed_qty sd' q' = Ok delta" "bump (no_account_id r) delta (book_of st holdings ?hk) = Ok t"
    "\<not> mixed_signs t" "trial_legs st holdings r rest (omap_insert trials ?hk c' t) = Ok (None, trials')"
    using "2.prems"(1) none by (auto simp: Let_def split: if_splits)
  have "omap_inv (omap_insert trials ?hk c' t)" "distinct (map leg_key rest)" using "2.prems"(2,3) by simp_all
  note ih = "2.IH" [OF refl none d this]
  have "omap_get trials' ?hk = Some t" using ih "2.prems"(2,3) by (auto simp: omap_get_insert)
  then show ?case using ih d(1,2) "2.prems"(2) by (auto simp: omap_get_insert)
qed simp

lemma replay_other: "hk \<notin> leg_key ` set legs \<Longrightarrow> fold_r (replay_leg hk acct) book legs = Ok book"
  by (induction legs) (auto simp: replay_leg_def leg_key_def)

lemma replay_own:
  assumes "distinct (map leg_key legs)" "(c, sd, q) \<in> set legs" "signed_qty sd q = Ok delta"
  shows "fold_r (replay_leg (instr_hk c) acct) book legs = bump acct delta book"
  using assms
proof (induction legs)
  case (Cons leg legs)
  show ?case
  proof (cases "leg = (c, sd, q)")
    case True
    then have "instr_hk c \<notin> leg_key ` set legs" using Cons.prems(1) by auto
    moreover have "replay_leg (instr_hk c) acct book leg = bump acct delta book"
      using True Cons.prems(3) by (simp add: replay_leg_def)
    ultimately show ?thesis by (cases "bump acct delta book") (simp_all add: replay_other)
  next
    case False
    then have "(c, sd, q) \<in> set legs" using Cons.prems(2) by simp
    moreover from this have "leg_key leg \<noteq> instr_hk c" using Cons.prems(1) by force
    then have "replay_leg (instr_hk c) acct book leg = Ok book"
      by (auto simp: replay_leg_def leg_key_def split: prod.split)
    ultimately show ?thesis using Cons by simp
  qed
qed simp

definition books_inv :: "norder list \<Rightarrow> holdings \<Rightarrow> nat \<Rightarrow> net_state \<Rightarrow> bool" where
  "books_inv orders holdings n st \<longleftrightarrow>
     net_inv orders n st
     \<and> (\<exists>ixs. sorted_wrt (<) ixs \<and> (\<forall>i\<in>set ixs. i < n)
         \<and> mset ixs = mset (concat (omap_values (ns_accepted st)) @ ns_verticals st)
         \<and> (\<forall>hk. replay holdings (map (nth orders) ixs) hk = Ok (book_of st holdings hk))
         \<and> (\<forall>hk. (\<exists>i\<in>set ixs. trades (orders ! i) hk) \<longrightarrow> omap_get (ns_books st) hk \<noteq> None))"

lemma replay_order_book:
  assumes "legs_of r = Ok legs" "distinct (map leg_key legs)"
    and "trial_legs st holdings r legs omap_new = Ok (None, trials)"
  shows "replay_order hk (book_of st holdings hk) r =
    Ok (if hk \<in> leg_key ` set legs then the (omap_get trials hk) else book_of st holdings hk)"
proof (cases "hk \<in> leg_key ` set legs")
  case True
  then obtain c sd q where leg: "(c, sd, q) \<in> set legs" "hk = instr_hk c" by auto
  then obtain delta t where "signed_qty sd q = Ok delta"
    "bump (no_account_id r) delta (book_of st holdings hk) = Ok t" "omap_get trials hk = Some t"
    using trial_legs_books [OF assms(3) omap_inv_new assms(2)] by blast
  then show ?thesis using True assms(1) replay_own [OF assms(2) leg(1)] leg(2) by (simp add: replay_order_def)
qed (simp add: replay_order_def assms(1) replay_other)

text \<open>The steps of one order, with what they leave in the books.\<close>

lemma take_order_books:
  assumes inv: "books_inv orders holdings i st" and i: "i < length orders" and legs: "legs_of (orders ! i) = Ok legs"
    and dist: "distinct (map leg_key legs)"
    and tried: "trial_legs st holdings (orders ! i) legs omap_new = Ok (None, trials)"
    and taken: "and_then (fold_r (take_leg (orders ! i) trials) st legs) (\<lambda>st. file_order st i (orders ! i)) = Ok st'"
  shows "books_inv orders holdings (Suc i) st'"
proof -
  let ?r = "orders ! i"
  have net: "net_inv orders i st" using inv by (simp add: books_inv_def)
  have net': "net_inv orders (Suc i) st'" using take_order_spec [OF net i legs tried] taken by simp
  note t = trial_legs_None [OF tried omap_inv_new]
  have "maps_ok st" using net by (simp add: net_inv_def)
  then obtain st1 where st1: "fold_r (take_leg ?r trials) st legs = Ok st1" "keeps st st1" "maps_ok st1"
    "\<forall>k. omap_get (ns_books st1) k = (if k \<in> leg_key ` set legs then omap_get trials k else omap_get (ns_books st) k)"
    using take_legs_spec [of legs trials st ?r] t by fastforce
  have filed: "file_order st1 i ?r = Ok st'" using taken st1(1) by simp
  then have books: "ns_books st' = ns_books st1" and kept: "mset (concat (omap_values (ns_accepted st')) @ ns_verticals st')
      = add_mset i (mset (concat (omap_values (ns_accepted st)) @ ns_verticals st))"
    using st1(2,3) by (auto simp: file_order_def lerr_def keeps_def maps_ok_def omap_append_mset
        split: option.splits instrument.splits)
  obtain ixs where ixs: "sorted_wrt (<) ixs" "\<forall>j\<in>set ixs. j < i"
    "mset ixs = mset (concat (omap_values (ns_accepted st)) @ ns_verticals st)"
    "\<forall>hk. replay holdings (map (nth orders) ixs) hk = Ok (book_of st holdings hk)"
    "\<forall>hk. (\<exists>j\<in>set ixs. trades (orders ! j) hk) \<longrightarrow> omap_get (ns_books st) hk \<noteq> None"
    using inv by (auto simp: books_inv_def)
  have known: "omap_get trials hk \<noteq> None" if "hk \<in> leg_key ` set legs" for hk using that t by fastforce
  have "book_of st' holdings hk = (if hk \<in> leg_key ` set legs then the (omap_get trials hk) else book_of st holdings hk)" for hk
    using known [of hk] st1(4) by (cases "hk \<in> leg_key ` set legs") (force simp: book_of_def books)+
  then have "replay holdings (map (nth orders) (ixs @ [i])) hk = Ok (book_of st' holdings hk)" for hk
    using ixs(4) replay_order_book [OF legs dist tried, of hk] by (simp add: replay_def fold_r_append)
  moreover have "omap_get (ns_books st') hk \<noteq> None" if "\<exists>j\<in>set (ixs @ [i]). trades (orders ! j) hk" for hk
    using that ixs(5) st1(4) known legs by (auto simp: books trades_def)
  moreover have "sorted_wrt (<) (ixs @ [i])" "\<forall>j\<in>set (ixs @ [i]). j < Suc i" using ixs(1,2) by (auto simp: sorted_wrt_append)
  ultimately show ?thesis using net' ixs(3) kept unfolding books_inv_def by (intro conjI exI [of _ "ixs @ [i]"]) auto
qed

lemma books_inv_seen [simp]: "books_inv orders holdings n (st\<lparr>ns_seen_ids := s\<rparr>) = books_inv orders holdings n st"
  by (simp add: books_inv_def book_of_def)

lemma books_inv_refuse:
  assumes "books_inv orders holdings i st" "i < length orders"
  shows "books_inv orders holdings (Suc i) (refuse st (orders ! i) why)"
proof -
  have "net_inv orders (Suc i) (refuse st (orders ! i) why)" using net_inv_refuse assms by (simp add: books_inv_def)
  moreover obtain ixs where "sorted_wrt (<) ixs" "\<forall>j\<in>set ixs. j < i"
    "mset ixs = mset (concat (omap_values (ns_accepted st)) @ ns_verticals st)"
    "\<forall>hk. replay holdings (map (nth orders) ixs) hk = Ok (book_of st holdings hk)"
    "\<forall>hk. (\<exists>j\<in>set ixs. trades (orders ! j) hk) \<longrightarrow> omap_get (ns_books st) hk \<noteq> None"
    using assms(1) unfolding books_inv_def by blast
  ultimately show ?thesis
    unfolding books_inv_def by (intro conjI exI [of _ ixs]) (auto simp: refuse_def book_of_def)
qed

lemma books_inv_start: "books_inv orders holdings 0 net_start"
  by (auto simp: books_inv_def net_inv_start) (simp_all add: net_start_def omap_values_new replay_def book_of_def)

lemma net_order_books:
  assumes inv: "books_inv orders holdings i st" and i: "i < length orders"
    and plain: "screen (orders ! i) mirrored = Ok None \<Longrightarrow> plain (orders ! i)"
    and step: "net_order mirrored holdings st (i, orders ! i) = Ok st'"
  shows "books_inv orders holdings (Suc i) st'"
proof (cases "no_order_id (orders ! i) \<in> set (ns_seen_ids st)")
  case True
  then show ?thesis using step books_inv_refuse [OF inv i] by (auto simp: net_order_def)
next
  case False
  let ?r = "orders ! i" and ?st = "st\<lparr>ns_seen_ids := ns_seen_ids st @ [no_order_id (orders ! i)]\<rparr>"
  have inv': "books_inv orders holdings i ?st" using inv by simp
  note refuse = books_inv_refuse [OF inv' i]
  obtain screened where s: "screen ?r mirrored = Ok screened" using step False by (auto simp: net_order_def Let_def)
  show ?thesis
  proof (cases screened)
    case None
    then obtain legs conflict trials where l: "legs_of ?r = Ok legs"
      "trial_legs ?st holdings ?r legs omap_new = Ok (conflict, trials)"
      using step False s by (auto simp: net_order_def Let_def)
    then have dist: "distinct (map leg_key legs)" using plain s None by (simp add: plain_def)
    show ?thesis
    proof (cases conflict)
      case none: None
      from take_order_books [OF inv' i l(1) dist l(2) [unfolded none]]
      show ?thesis using step False s None l none by (simp add: net_order_def Let_def)
    qed (use step False s None l refuse in \<open>auto simp: net_order_def Let_def\<close>)
  qed (use step False s refuse in \<open>auto simp: net_order_def Let_def\<close>)
qed

lemma net_loop_books:
  assumes "\<forall>r\<in>set orders. screen r mirrored = Ok None \<longrightarrow> plain r"
    and "fold_r (net_order mirrored holdings) net_start (List.enumerate 0 orders) = Ok st"
  shows "books_inv orders holdings (length orders) st"
proof -
  have "rspec (books_inv orders holdings (length orders)) (\<lambda>_. True)
      (fold_r (net_order mirrored holdings) net_start (List.enumerate 0 orders))"
  proof (rule rspec_enumerate)
    fix i a assume i: "i < length orders" "books_inv orders holdings i a"
    then have "screen (orders ! i) mirrored = Ok None \<Longrightarrow> plain (orders ! i)" using assms(1) by simp
    then show "rspec (books_inv orders holdings (Suc i)) (\<lambda>_. True) (net_order mirrored holdings a (i, orders ! i))"
      by (cases "net_order mirrored holdings a (i, orders ! i)") (auto intro: net_order_books [OF i(2,1)])
  qed (rule books_inv_start)
  then show ?thesis using assms(2) by simp
qed

subsection \<open>Orders read at the door\<close>

lemma money_parse_canonical: "money_parse t = Some m \<Longrightarrow> canonical m"
proof -
  have "literal_money neg ds tot = Ok m \<Longrightarrow> canonical m" for neg ds tot
    by (auto simp: literal_money_def Let_def build_iff split: if_splits)
  then show "money_parse t = Some m \<Longrightarrow> canonical m"
    by (auto simp: money_parse_def try_parse_def Let_def split: result.splits if_splits prod.splits list.splits)
qed

lemma canon_inj: "canonical a \<Longrightarrow> canonical b \<Longrightarrow> canon a = canon b \<Longrightarrow> a = b"
  by (metis try_parse_canon result.inject(1))

lemma req_dec_canonical: "req_dec j k = Ok m \<Longrightarrow> canonical m"
  by (auto simp: req_dec_def dec_of_def wire_def lerr_def dest: money_parse_canonical split: option.splits)

text \<open>A wire option and its ledger form come from one document.\<close>

lemma option_docs:
  assumes "instrument_of j = Ok (WOption w)" "linstr x j = Ok i"
  obtains d where "parse_date x (wo_expiry w) = Ok d" "canonical (wo_strike w)"
    "i = OptionI \<lparr>oc_underlying = wo_underlying w, oc_expiry = d, oc_strike = wo_strike w, oc_right = wo_right w,
       oc_multiplier = wo_multiplier w\<rparr>"
proof -
  note docs = assms(1) [unfolded instrument_of.simps [of j]] assms(2) [unfolded linstr.simps [of x j]]
  have kind: "req_str j ''kind'' = Ok ''option''" using docs(1) by (auto simp: wire_def lerr_def split: if_splits)
  then show thesis using docs that req_dec_canonical by auto
qed

lemma vertical_reason_None:
  assumes "vertical_reason legs = Ok None"
  obtains l1 l2 a b where "legs = [l1, l2]" "wl_contract l1 = WOption a" "wl_contract l2 = WOption b"
    "wo_underlying a = wo_underlying b" "wo_expiry a = wo_expiry b" "wo_right a = wo_right b"
    "wo_multiplier a = wo_multiplier b" "\<not> dec_eq (wo_strike a) (wo_strike b)"
proof -
  let ?o = "\<lambda>l. case wl_contract l of WOption c \<Rightarrow> Some c | _ \<Rightarrow> None"
  have len: "length legs = 2" "length (List.map_filter ?o legs) = 2"
    using assms by (auto simp: vertical_reason_def Let_def split: if_splits)
  then obtain l1 l2 where l: "legs = [l1, l2]" by (auto simp: length_Suc_conv numeral_2_eq_2)
  then obtain a b where ab: "?o l1 = Some a" "?o l2 = Some b" using len(2)
    by (auto simp: List.map_filter_def split: if_splits)
  then have "wl_contract l1 = WOption a" "wl_contract l2 = WOption b" by (auto split: wire_instrument.splits)
  moreover have "wo_underlying a = wo_underlying b" "wo_expiry a = wo_expiry b" "wo_right a = wo_right b"
    "wo_multiplier a = wo_multiplier b" "\<not> dec_eq (wo_strike a) (wo_strike b)"
    using assms l ab by (auto simp: vertical_reason_def Let_def List.map_filter_def split: if_splits)
  ultimately show thesis using l that by blast
qed

lemma list_all2_join:
  "list_all2 P ds us \<Longrightarrow> list_all2 Q ds ls \<Longrightarrow> (\<And>d w l. P d w \<Longrightarrow> Q d l \<Longrightarrow> R w l) \<Longrightarrow> list_all2 R us ls"
  by (auto simp: list_all2_conv_all_nth)

lemma combo_docs:
  assumes "instrument_of j = Ok (WCombo wlegs)" "linstr x j = Ok i"
  obtains legs where "i = Combo legs"
    "list_all2 (\<lambda>w l. \<exists>c. instrument_of c = Ok (wl_contract w) \<and> linstr x c = Ok (leg_contract l)) wlegs legs"
proof -
  note docs = assms(1) [unfolded instrument_of.simps [of j]] assms(2) [unfolded linstr.simps [of x j]]
  have kind: "req_str j ''kind'' = Ok ''combo''" using docs(1) by (auto simp: wire_def lerr_def split: if_splits)
  then obtain ds legs where ds: "req_arr j ''legs'' = Ok ds" "i = Combo legs"
    "list_all2 (\<lambda>d w. and_then (req d ''contract'') (\<lambda>c. and_then (instrument_of c) (\<lambda>contract.
       and_then (req_int d ''ratio'') (\<lambda>ratio. and_then (req_str d ''side'') (\<lambda>s. Ok (WLeg contract ratio s))))) = Ok w) ds wlegs"
    "list_all2 (\<lambda>d l. and_then (req d ''contract'') (\<lambda>c. and_then (linstr x c) (\<lambda>contract. and_then (req_int d ''ratio'') (\<lambda>ratio.
       and_then (and_then (req_str d ''side'') side_of) (\<lambda>s. Ok (ComboLeg contract ratio s))))) = Ok l) ds legs"
    using docs by (auto simp: map_r_Ok_iff)
  have "list_all2 (\<lambda>w l. \<exists>c. instrument_of c = Ok (wl_contract w) \<and> linstr x c = Ok (leg_contract l)) wlegs legs"
    by (rule list_all2_join [OF ds(3,4)]) auto
  then show thesis using that ds(2) by blast
qed

lemma equity_docs:
  assumes "instrument_of j = Ok (WEquity s)" "linstr x j = Ok i"
  shows "i = Equity s"
proof -
  note docs = assms(1) [unfolded instrument_of.simps [of j]] assms(2) [unfolded linstr.simps [of x j]]
  have "req_str j ''kind'' = Ok ''equity''" using docs(1) by (auto simp: wire_def lerr_def split: if_splits)
  then show ?thesis using docs by auto
qed

lemma option_hk_strikes:
  assumes "option_hk c = option_hk (c\<lparr>oc_strike := k\<rparr>)"
  shows "canon (oc_strike c) = canon k"
  using assms by (simp add: option_hk_def)

text \<open>A vertical that passes the screen trades two contracts.\<close>

lemma vertical_contracts:
  assumes "instrument_of d = Ok (WCombo wlegs)" "linstr x d = Ok i" "vertical_reason wlegs = Ok None"
  obtains m1 m2 where "i = Combo [m1, m2]" "instr_hk (leg_contract m1) \<noteq> instr_hk (leg_contract m2)"
proof -
  obtain l1 l2 a b where v: "wlegs = [l1, l2]" "wl_contract l1 = WOption a" "wl_contract l2 = WOption b"
    and same: "wo_underlying a = wo_underlying b" "wo_expiry a = wo_expiry b" "wo_right a = wo_right b"
    "wo_multiplier a = wo_multiplier b" and strikes: "\<not> dec_eq (wo_strike a) (wo_strike b)"
    by (rule vertical_reason_None [OF assms(3)])
  obtain legs where legs: "i = Combo legs"
    "list_all2 (\<lambda>w l. \<exists>c. instrument_of c = Ok (wl_contract w) \<and> linstr x c = Ok (leg_contract l)) wlegs legs"
    by (rule combo_docs [OF assms(1,2)])
  then obtain m1 m2 c1 c2 where m: "legs = [m1, m2]" "instrument_of c1 = Ok (WOption a)" "linstr x c1 = Ok (leg_contract m1)"
    "instrument_of c2 = Ok (WOption b)" "linstr x c2 = Ok (leg_contract m2)"
    using v by (auto simp: list_all2_Cons1)
  obtain e1 where e1: "parse_date x (wo_expiry a) = Ok e1" "canonical (wo_strike a)"
    "leg_contract m1 = OptionI \<lparr>oc_underlying = wo_underlying a, oc_expiry = e1,
      oc_strike = wo_strike a, oc_right = wo_right a, oc_multiplier = wo_multiplier a\<rparr>"
    by (rule option_docs [OF m(2,3)])
  obtain e2 where e2: "parse_date x (wo_expiry b) = Ok e2" "canonical (wo_strike b)"
    "leg_contract m2 = OptionI \<lparr>oc_underlying = wo_underlying b, oc_expiry = e2,
      oc_strike = wo_strike b, oc_right = wo_right b, oc_multiplier = wo_multiplier b\<rparr>"
    by (rule option_docs [OF m(4,5)])
  have "canon (wo_strike a) \<noteq> canon (wo_strike b)"
    using canon_inj [OF e1(2) e2(2)] strikes by (auto simp: dec_eq_def)
  then have "instr_hk (leg_contract m1) \<noteq> instr_hk (leg_contract m2)"
    using e1 e2 same by (auto simp: option_hk_def)
  then show thesis using that legs(1) m(1) by blast
qed

lemma norder_of_plain:
  assumes r: "norder_of x j = Ok r" and screened: "screen r mirrored = Ok None"
  shows "plain r"
proof -
  obtain d where "req j ''instrument'' = Ok d" and w: "instrument_of d = Ok (no_wire r)"
    and "(case no_wire r of WOther _ \<Rightarrow> Ok None
      | _ \<Rightarrow> and_then (and_then (req j ''instrument'') (linstr x)) (\<lambda>i. Ok (Some i))) = Ok (no_model r)"
    using r by (auto simp: norder_of_def)
  then have "(\<exists>s. no_wire r = WOther s) \<and> no_model r = None \<or> (\<exists>i. linstr x d = Ok i \<and> no_model r = Some i)"
    by (cases "no_wire r") auto
  note d = w this
  show ?thesis
  proof (cases "no_wire r")
    case (WCombo wlegs)
    then obtain i where i: "linstr x d = Ok i" "no_model r = Some i" using d(2) by auto
    have "vertical_reason wlegs = Ok None" using screened WCombo by (auto simp: screen_def split: if_splits option.splits)
    then obtain m1 m2 where "i = Combo [m1, m2]" "instr_hk (leg_contract m1) \<noteq> instr_hk (leg_contract m2)"
      using vertical_contracts [OF d(1) [unfolded WCombo] i(1)] by blast
    then show ?thesis using i(2) by (auto simp: plain_def legs_of_def split: result.split)
  next
    case (WEquity s)
    then show ?thesis using d equity_docs [of d s x] by (auto simp: plain_def legs_of_def)
  next
    case (WOption w)
    then obtain i where i: "linstr x d = Ok i" "no_model r = Some i" using d(2) by auto
    from option_docs [OF d(1) [unfolded WOption] i(1)] obtain c where "i = OptionI c" by blast
    then show ?thesis using i(2) by (simp add: plain_def legs_of_def)
  next
    case (WOther s)
    then show ?thesis using screened by (simp add: screen_def split: if_splits)
  qed
qed

end
