(* ===== verification/Netting_Props.thy ===== *)
theory Netting_Props
  imports Netting_Books Samples
begin

section \<open>Netting: properties\<close>

text \<open>
  Every order of a batch ends in one ticket or one refusal, a ticket carries orders of one kind only, and
  no contract of the venue is left long for one strategy account and short for another.
\<close>

subsection \<open>Signs\<close>

lemma signs_step:
  assumes "distinct signs"
  shows "distinct (foldl (\<lambda>signs (_, q). if \<not> money_eq q ZERO \<and> money_lt ZERO q \<notin> set signs then signs @ [money_lt ZERO q] else signs)
      signs book)
    \<and> set (foldl (\<lambda>signs (_, q). if \<not> money_eq q ZERO \<and> money_lt ZERO q \<notin> set signs then signs @ [money_lt ZERO q] else signs)
      signs book) = set signs \<union> {0 < mval q |a q. (a, q) \<in> set book \<and> mval q \<noteq> 0}"
  using assms
proof (induction book arbitrary: signs)
  case (Cons p book)
  obtain a q where p: "p = (a, q)" by (cases p)
  show ?case
  proof (cases "\<not> money_eq q ZERO \<and> money_lt ZERO q \<notin> set signs")
    case True
    then show ?thesis using Cons.IH [of "signs @ [0 < mval q]"] Cons.prems by (auto simp: p)
  next
    case False
    then show ?thesis using Cons.IH [of signs] Cons.prems by (auto simp: p)
  qed
qed simp

lemma mixed_signs_iff:
  "mixed_signs book \<longleftrightarrow> (\<exists>a q b u. (a, q) \<in> set book \<and> (b, u) \<in> set book \<and> 0 < mval q \<and> mval u < 0)"
proof -
  have s: "distinct (signs_of book)" "set (signs_of book) = {0 < mval q |a q. (a, q) \<in> set book \<and> mval q \<noteq> 0}"
    using signs_step [of "[]" book] by (simp_all add: signs_of_def)
  have "mixed_signs book \<longleftrightarrow> 1 < card (set (signs_of book))"
    by (simp add: mixed_signs_def distinct_card [OF s(1)])
  also have "\<dots> \<longleftrightarrow> set (signs_of book) = UNIV"
  proof
    assume "1 < card (set (signs_of book))"
    then show "set (signs_of book) = UNIV"
      using card_mono [of UNIV "set (signs_of book)"] by (intro card_subset_eq) (simp_all add: card_UNIV_bool)
  qed (simp add: card_UNIV_bool)
  also have "\<dots> \<longleftrightarrow> True \<in> set (signs_of book) \<and> False \<in> set (signs_of book)" by (auto simp: UNIV_bool)
  also have "\<dots> \<longleftrightarrow> (\<exists>a q b u. (a, q) \<in> set book \<and> (b, u) \<in> set book \<and> 0 < mval q \<and> mval u < 0)"
    unfolding s(2) by (auto simp: not_less order.order_iff_strict) (metis less_irrefl)+
  finally show ?thesis .
qed

subsection \<open>Properties\<close>

text \<open>
  C8. A batch loses no order and duplicates none: in an answer the orders of the tickets and the refused
  ones are the orders of the batch, each once for each time it was given. An error of the
  kind that the closing check of the code raises is answered for the empty batch, which the first check refuses,
  and for no other, and nothing panics.
\<close>

theorem netting_accounts:
  "case net_strategy_orders x orders venue_account mirrored ts holdings of
     Ok b \<Rightarrow> mset (concat (map (\<lambda>t. map fst (tk_allocations t)) (b_venue_orders b))) + mset (map fst (b_refused b))
             = mset (map no_order_id orders)
   | Err e \<Rightarrow> (err_kind e = NETTING) = (orders = []) \<and> err_kind e \<noteq> ''panic''"
proof (cases "orders = []")
  case True
  then show ?thesis by (simp add: net_strategy_orders_def lerr_def NETTING_def)
next
  case False
  from netting_spec [OF this, of x venue_account mirrored ts holdings] show ?thesis
    using False by (cases "net_strategy_orders x orders venue_account mirrored ts holdings")
      (simp_all add: accounted_def ticket_ids_def quiet_def)
qed

text \<open>
  C9. A ticket carries orders of the batch that agree with it: the same side and contract, the same type,
  time in force and, for a limit ticket, the same limit. Each order is allocated its own positive quantity
  and account, and the quantity of the ticket is their sum, which is positive.
\<close>

theorem ticket_carries_like_orders:
  assumes "net_strategy_orders x orders venue_account mirrored ts holdings = Ok b" "t \<in> set (b_venue_orders b)"
  shows "\<exists>grp. grp \<noteq> [] \<and> set grp \<subseteq> set orders
    \<and> tk_allocations t = map (\<lambda>r. (no_order_id r, no_account_id r, no_quantity r)) grp
    \<and> (\<forall>r\<in>set grp. no_side r = tk_side t \<and> no_order_type r = tk_order_type t \<and> no_tif r = tk_tif t
        \<and> (\<exists>m. no_model r = Some m \<and> instr_hk m = instr_hk (tk_instrument t))
        \<and> (tk_order_type t = Limit \<longrightarrow> map_option canon (no_limit_price r) = map_option canon (tk_limit_price t))
        \<and> 0 < mval (no_quantity r))
    \<and> fold_r dadd ZERO (map no_quantity grp) = Ok (tk_quantity t) \<and> 0 < mval (tk_quantity t)"
proof -
  have "orders \<noteq> []" using assms(1) by (auto simp: net_strategy_orders_def lerr_def)
  from netting_spec [OF this, of x venue_account mirrored ts holdings]
  obtain grp where "grp \<noteq> []" "set grp \<subseteq> set orders" "tk_allocations t = map allocated grp" "\<forall>r\<in>set grp. alike t r"
    "fold_r dadd ZERO (map no_quantity grp) = Ok (tk_quantity t)" "0 < mval (tk_quantity t)" "\<forall>r\<in>set grp. 0 < mval (no_quantity r)"
    using assms by (auto simp: accounted_def good_ticket_def)
  then show ?thesis by (intro exI [of _ grp]) (simp add: allocated_def [abs_def] alike_def)
qed

text \<open>
  C10. For orders read at the door, the books of the loop are what the taken orders, in the order of the batch,
  make of the holdings; and on a contract that a taken order trades, no strategy account is left long while
  another is left short.
\<close>

theorem venue_book_single_signed:
  assumes "map_r (norder_of x) docs = Ok orders"
    and "fold_r (net_order mirrored holdings) net_start (List.enumerate 0 orders) = Ok st"
  shows "\<exists>ixs. sorted_wrt (<) ixs \<and> mset ixs = mset (concat (omap_values (ns_accepted st)) @ ns_verticals st)
    \<and> (\<forall>hk. replay holdings (map (nth orders) ixs) hk = Ok (book_of st holdings hk))
    \<and> (\<forall>hk a q b u. (\<exists>i\<in>set ixs. trades (orders ! i) hk) \<longrightarrow> (a, q) \<in> set (book_of st holdings hk)
        \<longrightarrow> (b, u) \<in> set (book_of st holdings hk) \<longrightarrow> \<not> (0 < mval q \<and> mval u < 0))"
proof -
  have "plain r" if "r \<in> set orders" "screen r mirrored = Ok None" for r
    using assms(1) that norder_of_plain by (auto simp: map_r_Ok_iff list_all2_conv_all_nth in_set_conv_nth)
  then have "books_inv orders holdings (length orders) st" using net_loop_books [OF _ assms(2)] by blast
  then obtain ixs where ixs: "sorted_wrt (<) ixs" "mset ixs = mset (concat (omap_values (ns_accepted st)) @ ns_verticals st)"
    "\<forall>hk. replay holdings (map (nth orders) ixs) hk = Ok (book_of st holdings hk)"
    "\<forall>hk. (\<exists>i\<in>set ixs. trades (orders ! i) hk) \<longrightarrow> omap_get (ns_books st) hk \<noteq> None" and "books_pure st"
    by (auto simp: books_inv_def net_inv_def)
  have "\<not> mixed_signs (book_of st holdings hk)" if "\<exists>i\<in>set ixs. trades (orders ! i) hk" for hk
    using ixs(4) that \<open>books_pure st\<close> by (auto simp: books_pure_def book_of_def)
  then have "\<forall>hk a q b u. (\<exists>i\<in>set ixs. trades (orders ! i) hk) \<longrightarrow> (a, q) \<in> set (book_of st holdings hk)
      \<longrightarrow> (b, u) \<in> set (book_of st holdings hk) \<longrightarrow> \<not> (0 < mval q \<and> mval u < 0)"
    unfolding mixed_signs_iff by blast
  then show ?thesis using ixs(1-3) by blast
qed

subsection \<open>A batch of three orders\<close>

text \<open>Two accounts buy the same share; a sale in the same batch conflicts and is refused.\<close>

definition n_doc :: "string \<Rightarrow> string \<Rightarrow> string \<Rightarrow> string \<Rightarrow> json" where
  "n_doc oid acct sd q = obj [(''order_id'', JStr oid), (''account_id'', JStr acct),
     (''instrument'', obj [(''kind'', JStr ''equity''), (''symbol'', JStr ''SPY'')]),
     (''order_type'', JStr ''MARKET''), (''side'', JStr sd), (''quantity'', JStr q), (''tif'', JStr ''DAY'')]"

definition s_norder :: "string \<Rightarrow> string \<Rightarrow> side \<Rightarrow> nat \<Rightarrow> norder" where
  "s_norder oid acct sd q = \<lparr>no_order_id = oid, no_account_id = acct, no_wire = WEquity ''SPY'',
     no_model = Some (Equity ''SPY''), no_order_type = Market, no_side = sd, no_quantity = usd q 0, no_tif = Day,
     no_limit_price = None\<rparr>"

definition s_batch :: "norder list" where
  "s_batch = [s_norder ''o1'' ''A'' Buy 10, s_norder ''o2'' ''B'' Buy 5, s_norder ''o3'' ''A'' Sell 3]"

lemma s_batch_read:
  "map_r (norder_of sample_ext) [n_doc ''o1'' ''A'' ''BUY'' ''10'', n_doc ''o2'' ''B'' ''BUY'' ''5'', n_doc ''o3'' ''A'' ''SELL'' ''3'']
     = Ok s_batch"
  by code_simp

lemma s_batch_loop:
  obtains st where "fold_r (net_order [''A'', ''B''] omap_new) net_start (List.enumerate 0 s_batch) = Ok st"
    "omap_iter (ns_accepted st) = [(Equity ''SPY'', [0, 1])]" "map fst (ns_refused st) = [''o3'']" "ns_verticals st = []"
    "book_of st omap_new (instr_hk (Equity ''SPY'')) = [(''A'', usd 10 0), (''B'', usd 5 0)]"
proof -
  have "case fold_r (net_order [''A'', ''B''] omap_new) net_start (List.enumerate 0 s_batch) of
      Ok st \<Rightarrow> omap_iter (ns_accepted st) = [(Equity ''SPY'', [0, 1])] \<and> map fst (ns_refused st) = [''o3''] \<and> ns_verticals st = []
        \<and> book_of st omap_new (instr_hk (Equity ''SPY'')) = [(''A'', usd 10 0), (''B'', usd 5 0)]
    | Err e \<Rightarrow> False"
    by code_simp
  then show thesis using that by (cases "fold_r (net_order [''A'', ''B''] omap_new) net_start (List.enumerate 0 s_batch)") auto
qed

theorem venue_book_single_signed_witness:
  "\<exists>st ixs. map_r (norder_of sample_ext)
        [n_doc ''o1'' ''A'' ''BUY'' ''10'', n_doc ''o2'' ''B'' ''BUY'' ''5'', n_doc ''o3'' ''A'' ''SELL'' ''3''] = Ok s_batch
     \<and> fold_r (net_order [''A'', ''B''] omap_new) net_start (List.enumerate 0 s_batch) = Ok st
     \<and> mset ixs = {#0, 1#} \<and> trades (s_batch ! 0) (instr_hk (Equity ''SPY''))
     \<and> replay omap_new (map (nth s_batch) ixs) (instr_hk (Equity ''SPY'')) = Ok [(''A'', usd 10 0), (''B'', usd 5 0)]"
proof -
  obtain st where st: "fold_r (net_order [''A'', ''B''] omap_new) net_start (List.enumerate 0 s_batch) = Ok st"
    "omap_iter (ns_accepted st) = [(Equity ''SPY'', [0, 1])]" "ns_verticals st = []"
    "book_of st omap_new (instr_hk (Equity ''SPY'')) = [(''A'', usd 10 0), (''B'', usd 5 0)]"
    by (rule s_batch_loop)
  have "omap_values (ns_accepted st) = map snd (omap_iter (ns_accepted st))" by (auto simp: omap_values_def omap_iter_def)
  moreover obtain ixs where "mset ixs = mset (concat (omap_values (ns_accepted st)) @ ns_verticals st)"
    "replay omap_new (map (nth s_batch) ixs) (instr_hk (Equity ''SPY'')) = Ok (book_of st omap_new (instr_hk (Equity ''SPY'')))"
    using venue_book_single_signed [OF s_batch_read st(1)] by blast
  moreover have "trades (s_batch ! 0) (instr_hk (Equity ''SPY''))" by code_simp
  ultimately show ?thesis using s_batch_read st by (intro exI [of _ st] exI [of _ ixs]) simp
qed

subsection \<open>The ticket of the batch\<close>

definition n_ts :: string where "n_ts = ''2026-01-02T15:00:00+00:00''"

lemma s_sums: "dadd ZERO (usd 10 0) = Ok (usd 10 0)" "dadd (usd 10 0) (usd 5 0) = Ok (usd 15 0)"
  "\<exists>d. parse_datetime sample_ext n_ts = Ok (d, True)"
proof -
  show "dadd ZERO (usd 10 0) = Ok (usd 10 0)" "dadd (usd 10 0) (usd 5 0) = Ok (usd 15 0)" by code_simp+
  have "case parse_datetime sample_ext n_ts of Ok (d, aware) \<Rightarrow> aware | Err _ \<Rightarrow> False" by code_simp
  then show "\<exists>d. parse_datetime sample_ext n_ts = Ok (d, True)"
    by (cases "parse_datetime sample_ext n_ts") auto
qed

lemma usd_positive: "0 < n \<Longrightarrow> 0 < mval (usd n 0)"
  by (simp add: usd_def mval_def dval_def)

lemma s_ticket:
  "\<exists>t. make_ticket sample_ext ''V'' (Equity ''SPY'') Market Day None [s_batch ! 0, s_batch ! 1] n_ts = Ok t \<and> tk_quantity t = usd 15 0
     \<and> tk_allocations t = [(''o1'', ''A'', usd 10 0), (''o2'', ''B'', usd 5 0)]"
proof -
  obtain d where "parse_datetime sample_ext n_ts = Ok (d, True)" using s_sums(3) by blast
  moreover obtain key where "ticket_key ''V'' (Equity ''SPY'') Buy (usd 15 0) Market None Day [''o1'', ''o2''] = Ok key" "length key = 64"
    using ticket_key_spec by (simp add: ticket_key_def Let_def sha256_hex_length)
  ultimately show ?thesis
    by (simp add: make_ticket_def s_batch_def s_norder_def s_sums(1,2) allocation_of_def usd_positive not_le)
qed

lemma s_batch_nets:
  "\<exists>b t. net_strategy_orders sample_ext s_batch ''V'' [''A'', ''B''] n_ts omap_new = Ok b \<and> b_venue_orders b = [t]
     \<and> tk_quantity t = usd 15 0 \<and> tk_allocations t = [(''o1'', ''A'', usd 10 0), (''o2'', ''B'', usd 5 0)]"
proof -
  obtain st where st: "fold_r (net_order [''A'', ''B''] omap_new) net_start (List.enumerate 0 s_batch) = Ok st"
    "omap_iter (ns_accepted st) = [(Equity ''SPY'', [0, 1])]" "map fst (ns_refused st) = [''o3'']" "ns_verticals st = []"
    by (rule s_batch_loop)
  obtain t where t: "make_ticket sample_ext ''V'' (Equity ''SPY'') Market Day None [s_batch ! 0, s_batch ! 1] n_ts = Ok t"
    "tk_quantity t = usd 15 0" "tk_allocations t = [(''o1'', ''A'', usd 10 0), (''o2'', ''B'', usd 5 0)]"
    using s_ticket by blast
  have "case group_orders s_batch [0, 1] of Ok g \<Rightarrow> omap_iter g = [((Market, Day, None), [0, 1])] | Err _ \<Rightarrow> False"
    by code_simp
  then obtain g where g: "group_orders s_batch [0, 1] = Ok g" "omap_iter g = [((Market, Day, None), [0, 1])]"
    by (cases "group_orders s_batch [0, 1]") auto
  have "length s_batch = 3" by (simp add: s_batch_def)
  then have "ticket_contract sample_ext s_batch ''V'' n_ts ([], ns_refused st) (Equity ''SPY'', [0, 1]) = Ok ([t], ns_refused st)"
    using g t(1) by (simp add: ticket_contract_def ticket_group_def order_at_def)
  moreover have "account_for_everything (map no_order_id s_batch) [''o1'', ''o2'', ''o3''] = Ok ()" by code_simp
  moreover have "s_batch \<noteq> []" by (simp add: s_batch_def)
  ultimately show ?thesis using st t by (simp add: net_strategy_orders_def Let_def)
qed

theorem ticket_carries_like_orders_witness:
  "\<exists>b t grp. net_strategy_orders sample_ext s_batch ''V'' [''A'', ''B''] n_ts omap_new = Ok b \<and> t \<in> set (b_venue_orders b)
     \<and> tk_quantity t = usd 15 0 \<and> tk_allocations t = [(''o1'', ''A'', usd 10 0), (''o2'', ''B'', usd 5 0)]
     \<and> grp \<noteq> [] \<and> set grp \<subseteq> set s_batch \<and> (\<forall>r\<in>set grp. no_side r = tk_side t)
     \<and> fold_r dadd ZERO (map no_quantity grp) = Ok (usd 15 0)"
proof -
  obtain b t where b: "net_strategy_orders sample_ext s_batch ''V'' [''A'', ''B''] n_ts omap_new = Ok b" "b_venue_orders b = [t]"
    "tk_quantity t = usd 15 0" "tk_allocations t = [(''o1'', ''A'', usd 10 0), (''o2'', ''B'', usd 5 0)]"
    using s_batch_nets by blast
  then have "t \<in> set (b_venue_orders b)" by simp
  from ticket_carries_like_orders [OF b(1) this] b show ?thesis by (metis list.set_intros(1))
qed

end
