(* ===== verification/Spec2Isabelle.thy ===== *)
theory Spec2Isabelle
  imports Money_Props Ledger_Props Mirror_Props Occ Dates_Props Calendar_Props Globex_Props Sim_Props Sim_Trail Cover_Props Codec_Props Risk_Props Netting_Props
begin

text \<open>
  A verification of the core of the trade engine (\<open>src/crates/te_core/src\<close>): its decimal
  amounts, the rules of option contracts, the event-sourced ledger with the mirror of a venue, the
  trading calendars, the account risk rules and the simulated broker.

  \<^bold>\<open>The program.\<close> The engine keeps an append-only log of events per account: orders, their state
  changes, fills, cash flows, marks, option expiries, reconciliations, and the tickets queued at a
  mirrored venue. \<open>ledger/fold.rs\<close> folds a log into account states (cash, positions with open
  lots, orders, filled quantities, halts), \<open>ledger/mirror.rs\<close> folds the venue events into tickets
  and a book per strategy account. Payloads are built by the validating constructors of
  \<open>ledger/model.rs\<close>; containers and arithmetic come from \<open>ledger/ops.rs\<close> and \<open>money.rs\<close>; what an
  option is worth at expiry and what it delivers from \<open>options.rs\<close> and \<open>options/lifecycle.rs\<close>.
  \<open>calendar.rs\<close> and \<open>calendar/globex.rs\<close> say when a market is open; the simulated broker \<open>sim/broker.rs\<close>
  keeps a book of orders, matches it against one-minute bars in those sessions and books fills and
  positions in the same amounts. Before an order, \<open>risk.rs\<close> evaluates the sized intent against the rules of the
  account and the rails of the venue; \<open>tos_paper/netting.rs\<close> nets a batch of orders into the tickets of a mirrored venue.

  \<^bold>\<open>The theories.\<close> In the order of their imports:

  \<^item> \<open>TE_Prelude\<close>: results with \<open>and_then\<close> (Rust's \<open>?\<close>), loops with early return (\<open>fold_r\<close>, \<open>map_r\<close>),
    checked 128-bit arithmetic, decimal digits.
  \<^item> \<open>PyRules\<close> (\<open>options/pyrules.rs\<close>): texts as lists of code points, UTF-8, white space, digits.
  \<^item> \<open>Money\<close> (\<open>money.rs\<close>): the operations on amounts. \<open>Money_Value\<close>: the exact value \<open>mval\<close> of an
    amount, canonical amounts, and the reference rounding \<open>rounds_to\<close> (half to even to 28
    significant digits, then to 28 decimals). \<open>Money_Ops\<close>: each operation computes the rounded
    value (\<open>computes\<close>). \<open>Money_Props\<close>: the properties. \<open>Grid\<close>: values on a decimal grid with room
    below 28 digits, on which arithmetic is exact. \<open>Rounding\<close>: the rounding error, when a rounded
    result fits, and floors of rounded quotients.
  \<^item> \<open>Ledger_Ops\<close> (\<open>ledger/ops.rs\<close>): ledger errors, the operations with them, and \<open>OMap\<close>. The locale
    \<open>amounts\<close> states what the ledger relies on of the arithmetic and is interpreted on it; the locale
    \<open>ordered_map\<close> states the contract of an insertion-ordered map and is interpreted on \<open>OMap\<close>; the
    step relation \<open>omap_step\<close> is every way a map changes between two readings of its journal.
  \<^item> \<open>Option_Rules\<close> (\<open>options.rs\<close>, \<open>options/lifecycle.rs\<close>): strikes, symbols, OCC codes, styles,
    intrinsic value, delivery. The record \<open>externals\<close> holds what the code takes from outside the
    repository: upper-casing, the day count of \<open>chrono\<close>, and operations of \<open>rust_decimal\<close>.
  \<^item> \<open>Model\<close> (\<open>ledger/model.rs\<close>): enums, dates, instruments with equality and hash key, payloads,
    events. \<open>Build\<close>: the constructors.
  \<^item> \<open>Lots\<close> (\<open>ledger/fold.rs\<close>, first half): order states, lots, trades. \<open>Lots_Inv\<close>: the first-in
    first-out references and the proof that the code computes them exactly on a grid.
  \<^item> \<open>Mirror\<close> (\<open>ledger/mirror.rs\<close>) and \<open>Mirror_Inv\<close>: splitting of fills over the integers, the
    invariant of a ticket, the step relation \<open>mirror_tr\<close> of the handlers and its invariant.
  \<^item> \<open>Fold\<close> (\<open>ledger/fold.rs\<close>, second half) and \<open>Fold_Inv\<close>: the account state, a definition per
    handler, what each handler leaves unchanged, invariants of the fold, projection to an account.
  \<^item> \<open>Occ\<close>: the round trip of OCC symbols. \<open>Dates\<close> (\<open>ledger/model.rs\<close>) and \<open>Dates_Props\<close>: ISO dates and
    times, and their round trip.
  \<^item> \<open>Calendar\<close> (\<open>calendar.rs\<close>), \<open>Calendar_Inv\<close>, \<open>Calendar_Props\<close>: holidays, sessions and searches; the
    predicate \<open>chrono_ok\<close> says what is relied on of the date arithmetic of \<open>chrono\<close>. The search loop is a
    \<open>partial_function\<close>, and that it returns is proved. \<open>Globex\<close> (\<open>calendar/globex.rs\<close>) and \<open>Globex_Props\<close>:
    the futures session table and its queries.
  \<^item> \<open>Sim\<close> (\<open>sim.rs\<close>, \<open>sim/trailing.rs\<close>, \<open>sim/tick.rs\<close>) and \<open>Sim_Broker\<close> (\<open>sim/broker.rs\<close>): an operation
    that writes the book is a function from the book to the answer and the new book, so a refusal leaves
    what the code had already changed. \<open>Sim_Inv\<close>: the locale \<open>run_relation\<close> carries a reflexive and
    transitive relation over every way the code composes steps; its interpretations are how a book grows.
    \<open>Sim_Runs\<close>: weakest preconditions, and all the host's commands, \<open>restore\<close> too, as the step relation \<open>sim_tr\<close>,
    under a predicate on the saved data a host restores. \<open>Sim_Keeps\<close>: the locale \<open>book_invariant\<close>, which asks an
    invariant only of the steps that change orders, fills or positions and proves it of every run. \<open>Sim_Books\<close> (the
    balance of a book) with \<open>Sim_Restore\<close> (what a restore checks, what it leaves to the saved data, and that a
    restored book balances), and \<open>Sim_Positions\<close> (the positions) interpret it; \<open>Sim_Prices\<close>: what a bar may fill; \<open>Sim_Trail\<close>: the trailing stop; \<open>Sim_Props\<close>: the properties.
  \<^item> \<open>Json\<close> (\<open>ledger/json.rs\<close>): the reader and the writer of JSON text over bytes; \<open>Json_Props\<close>: what is
    written is read back. \<open>Codec\<close> (\<open>ledger/codec.rs\<close>): events as tagged documents and their decoding through
    the constructors; \<open>Codec_Fields\<close>, \<open>Codec_Read\<close>, \<open>Codec_Props\<close>: a payload as its fields, the values that are
    read back, and the round trip of an event.
  \<^item> \<open>Risk\<close> (\<open>risk.rs\<close>): rules, hours, rails and context read from documents, the drawdown latches and the
    evaluation of an intent; the record \<open>risk_ext\<close> holds the operations of \<open>rust_decimal\<close> and \<open>chrono_tz\<close>. \<open>Risk_Inv\<close>: the
    limits and the lemmas on sizing, latches and exact products, with \<open>decimal_text\<close> and \<open>decimal_exact\<close> for what is relied
    on of decimals; \<open>Risk_Samples\<close>: an arithmetic that has these laws and a request; \<open>Risk_Props\<close>: the properties.
  \<^item> \<open>Cover\<close> (\<open>tos_paper/cover.rs\<close>): which short calls the mirror book covers; \<open>Cover_Props\<close>: the
    search covers as many as can be.
  \<^item> \<open>Sha256\<close> (\<open>oms/options.rs\<close>): the digest that names tickets, over 32-bit words. \<open>Tos_Wire\<close> (\<open>tos_paper/wire.rs\<close>):
    reading of door documents and instruments. \<open>Netting\<close> (\<open>tos_paper/netting.rs\<close>): orders of a batch screened, tried on
    the venue's books and netted into tickets. \<open>Netting_Inv\<close>: a postcondition for results and errors (\<open>rspec\<close>) and the
    errors that can arise; \<open>Netting_Loop\<close>, \<open>Netting_Tickets\<close>: the account of the orders through the loop and the tickets;
    \<open>Netting_Books\<close>: the books as a replay of the taken orders; \<open>Netting_Props\<close>: the properties.
  \<^item> \<open>Samples\<close>: concrete inputs for the witnesses. \<open>Ledger_Props\<close>, \<open>Mirror_Props\<close> and this theory: the
    properties.

  \<^bold>\<open>Correspondence.\<close> A struct is a record with its fields in order (prefixed), an enum a datatype.
  \<open>i128\<close> is \<open>int\<close>; \<open>u128\<close> and the 96-bit mantissa are \<open>nat\<close> with the checked operations and the limit
  written out, since the code checks and never wraps. A function that can refuse returns
  \<open>('a, lerr) result\<close>; the kind of an error is the source's, its message is a text, in most places without the
  interpolated values. A handler that takes \<open>&mut\<close> state returns the new state on success: the only
  caller, the fold, drops the state on a refusal. A \<open>for\<close> loop is a fold or a primitive recursion, so
  every definition terminates and none needs fuel. \<open>Decimal\<close> as \<open>Money\<close> stores it is a sign, a
  mantissa and a scale. The bounds in the hypotheses are: a grid with room below 28 digits for exact
  bookkeeping, and whole quantities below ten trillion for the splitting of fills; both are far above
  the quantities of a book, and past them the code rounds or refuses.

  \<^bold>\<open>What is shown.\<close> Amounts: correct rounding of every operation, agreement of the fast and the
  unbounded path, comparison by value, parse after print. Ledger: a fill moves cash and the position
  exactly and once; lots are first in, first out; orders never leave a terminal state and are not
  over-filled (with the one exception stated) and stay under their command; an account's fold is a projection of the
  whole. Mirror: allocations of a ticket add up to its fills, a strategy order is on one ticket at
  most, tickets only move forward, replays change nothing, fills in range are accepted. Calendars: the
  search for a session ends at the nearest one, the futures table has its sessions in order, an instant
  is in at most one. Simulated broker: in every run, which may start by restoring a saved book whose fills are
  distinct and positive with exits within their entries, the book balances (filled quantities are the sums of fills, exits
  stay within their entries), history is never rewritten, positions are the restored ones and the signed fills since, limits are
  respected, a bar counts once, and the trailing stop follows its reference. Risk: every rule is recorded, an approval
  is within every limit, the latches have hysteresis, accepted rules and rails are in range. Text: amounts, dates, OCC symbols,
  JSON documents and whole events are read back from what is written of them. Netting: a batch loses no order, a ticket
  carries orders of one kind, no contract is left with both signs.

  \<^bold>\<open>Not modelled.\<close> The canonical trees handed to the hosts (serialisation), the option venue of \<open>sim/snapshot.rs\<close>, the
  order manager, the option risk and margin rules, the paper venue beyond its cover rule and netting, and the hosts and language
  bindings; the greeks are floating point.
\<close>

section \<open>Properties that span components\<close>

lemma fill_cash_exact:
  assumes r: "book_room k B kp P mlt" and t: "trade_on k B kp P (f_quantity fl) (f_price fl)"
    and fee: "canonical (f_fee fl)" "grid (kp + k) F (mval (f_fee fl))" "room (kp + k) (P * B * of_int mlt + F)" "0 \<le> F"
  shows "\<exists>c. fill_cash fl mlt = Ok c \<and> canonical c \<and> grid (kp + k) (P * B * of_int mlt + F) (mval c)
    \<and> mval c = - (sgn_side (f_side fl) * mval (f_quantity fl) * mval (f_price fl) * of_int mlt) - mval (f_fee fl)"
proof -
  let ?q = "mval (f_quantity fl)" and ?p = "mval (f_price fl)"
  have q: "canonical (f_quantity fl)" "grid k B ?q" "0 < ?q" and p: "canonical (f_price fl)" "grid kp P ?p" "0 < ?p"
    using t by (simp_all add: trade_on_def)
  have m: "1 \<le> mlt" "0 \<le> B" "0 \<le> P" "mlt < 10 ^ 28" using r by (simp_all add: book_room_def)
  have qp: "grid (kp + k) (P * B) (?q * ?p)" using grid_mult [OF p(2) q(2)] by (simp add: mult.commute)
  obtain g where g: "dmul (f_quantity fl) (f_price fl) = Ok g" "canonical g" "mval g = ?q * ?p"
    using dmul_grid [OF q(1) p(1) qp book_room_product [OF r]] by blast
  have "grid 0 (of_int mlt) (of_int mlt)" using m by (intro grid_int) simp
  from grid_mult [OF qp this] have gm: "grid (kp + k) (P * B * of_int mlt) (?q * ?p * of_int mlt)" by simp
  have rm: "room (kp + k) (P * B * of_int mlt)" using r by (simp add: book_room_def)
  obtain h where h: "dmul_i g mlt = Ok h" "canonical h" "mval h = ?q * ?p * of_int mlt"
    using dmul_i_grid [OF g(2), of mlt "kp + k" "P * B * of_int mlt"] g gm rm m by auto
  obtain s where s: "(if f_side fl = Sell then Ok h else dneg h) = Ok s" "canonical s"
    "mval s = - (sgn_side (f_side fl) * (?q * ?p * of_int mlt))"
    using dneg_grid [OF h(2), of "kp + k"] h gm rm by (cases "f_side fl") auto
  have gs: "grid (kp + k) (P * B * of_int mlt + F) (mval s - mval (f_fee fl))"
    using gm fee(2) s(3) by (intro grid_sub) (cases "f_side fl"; simp)+
  obtain c where "dsub s (f_fee fl) = Ok c" "canonical c" "mval c = mval s - mval (f_fee fl)"
    using dsub_grid [OF s(2) fee(1) gs fee(3)] by blast
  with g h s gs show ?thesis by (auto simp: fill_cash_def mult.assoc)
qed

text \<open>
  C1. A booked fill moves the account's money and position exactly. With room for the amounts,
  cash changes by minus the signed notional (quantity times price times the contract multiplier)
  and minus the fee, without any rounding; the position of the instrument moves by the signed
  quantity and stays consistent with its lots; every other position is untouched.
\<close>

theorem fill_moves_cash_and_position:
  assumes ok: "on_fill st fl = Ok st'" and wf: "st_wf st" and mlt: "multiplier (f_instrument fl) = Ok mlt"
    and r: "book_room k B kp P mlt" and t: "trade_on k B kp P (f_quantity fl) (f_price fl)"
    and pos: "popt_ok k B kp P (omap_get (a_positions st) (instr_hk (f_instrument fl)))"
      "\<bar>pos_quantity (omap_get (a_positions st) (instr_hk (f_instrument fl)))\<bar> + mval (f_quantity fl) \<le> B"
    and fee: "canonical (f_fee fl)" "grid (kp + k) F (mval (f_fee fl))" "0 \<le> F"
    and cash: "canonical (a_cash st)" "grid (kp + k) C (mval (a_cash st))" "0 \<le> C"
      "room (kp + k) (C + (P * B * of_int mlt + F))"
  shows "mval (a_cash st') = mval (a_cash st)
      - sgn_side (f_side fl) * mval (f_quantity fl) * mval (f_price fl) * of_int mlt - mval (f_fee fl)
    \<and> (\<exists>p'. omap_get (a_positions st') (instr_hk (f_instrument fl)) = Some p' \<and> pos_ok k B kp P p'
         \<and> mval (p_quantity p') = pos_quantity (omap_get (a_positions st) (instr_hk (f_instrument fl)))
             + sgn_side (f_side fl) * mval (f_quantity fl))
    \<and> (\<forall>h. h \<noteq> instr_hk (f_instrument fl) \<longrightarrow> omap_get (a_positions st') h = omap_get (a_positions st) h)"
proof -
  have rf: "room (kp + k) (P * B * of_int mlt + F)" by (rule room_mono [OF cash(4)]) (use cash(3) in simp)
  obtain delta where d: "fill_cash fl mlt = Ok delta" "canonical delta" "grid (kp + k) (P * B * of_int mlt + F) (mval delta)"
    "mval delta = - (sgn_side (f_side fl) * mval (f_quantity fl) * mval (f_price fl) * of_int mlt) - mval (f_fee fl)"
    using fill_cash_exact [OF r t fee(1,2) rf fee(3)] by blast
  obtain c where c: "dadd (a_cash st) delta = Ok c" "mval c = mval (a_cash st) + mval delta"
    using dadd_grid [OF cash(1) d(2) grid_add [OF cash(2) d(3)] cash(4)] by blast
  from ok show ?thesis
  proof (cases rule: on_fill_Ok)
    case (1 ord index leg mlt' cash_delta updated ur st2 st3 cash' gain realized)
    have eq: "mlt' = mlt" "cash_delta = delta" using 1(5,6) mlt d(1) by auto
    have frame: "a_cash st3 = a_cash st" "a_positions st3 = omap_insert (a_positions st) (instr_hk (f_instrument fl)) (f_instrument fl)
        (updated\<lparr>p_realized_pnl := ur\<rparr>)"
      using 1(9,12) by (auto elim!: record_filled_Ok fill_order_state_Ok)
    have cash': "cash' = c" using 1(13) eq frame c(1) by simp
    note up = apply_trade_ok [OF r pos(1) t pos(2) 1(7) [unfolded eq]]
    have "pos_ok k B kp P (updated\<lparr>p_realized_pnl := ur\<rparr>)" using up [THEN conjunct1] by (simp add: pos_ok_def)
    moreover have "omap_inv (a_positions st)" using wf by (simp add: st_wf_def)
    ultimately show ?thesis using 1(15) frame cash' c(2) d(4) up by (simp add: omap_get_insert)
  qed
qed
theorem fill_moves_cash_and_position_witness:
  "\<exists>st'. on_fill s_open (s_fill ''f1'' 4 100) = Ok st' \<and> mval (a_cash st') = - 401 + 1 / 2
     \<and> (\<exists>p'. omap_get (a_positions st') (instr_hk (Equity ''AAPL'')) = Some p' \<and> mval (p_quantity p') = 4)"
proof -
  let ?f = "s_fill ''f1'' 4 100"
  obtain st' where ok: "on_fill s_open ?f = Ok st'"
    using s_fill_step by (auto simp: apply_event_def dispatch_def s_fill4_def s_event_def)
  have f: "f_instrument ?f = Equity ''AAPL''" "f_quantity ?f = usd 4 0" "f_price ?f = usd 100 0" "f_fee ?f = usd 5 1"
      "f_side ?f = Buy" by (simp_all add: s_fill_def)
  have "book_inv s_open" using log_book_inv [of sample_ext "account_new ''acc''" "[s_submit]"] by (simp add: s_submit_step)
  then have wf: "st_wf s_open" by (simp add: book_inv_def)
  have st: "a_positions s_open = omap_new" "a_cash s_open = ZERO" by (simp_all add: s_open_def account_new_def)
  have r: "book_room 0 1000000 1 1000000 1" by (simp add: book_room_def room_def)
  have g: "grid 1 B (of_nat n)" if "of_nat n \<le> B" for n B
    using that unfolding grid_def by (intro conjI exI [of _ "10 * int n"]) simp_all
  have t: "trade_on 0 1000000 1 1000000 (usd 4 0) (usd 100 0)"
    using g [of 100] by (simp add: trade_on_def usd_whole small_mantissa grid_numeral)
  have fee: "canonical (usd 5 1)" "grid (1 + 0) 1 (mval (usd 5 1))" "mval (usd 5 1) = 1 / 2"
    by (auto simp: usd_def canonical_def MANTISSA_LIMIT_def MAX_SCALE_def mval_def dval_def grid_def power_int_minus
        intro!: exI [of _ 5])
  have p: "popt_ok 0 1000000 1 1000000 None" by (simp add: popt_ok_def)
  from fill_moves_cash_and_position [OF ok wf, of 1 0 1000000 1 1000000 1 0]
  show ?thesis using ok r t fee p by (auto simp: f st pos_quantity_def usd_whole room_def)
qed

end
